(* ===== verification/Nachos_Prelude.thy ===== *)
theory Nachos_Prelude
  imports Main "HOL-Library.Word"
begin

unbundle bit_operations_syntax

text \<open>
  What the component theories share: the machine types of the 32-bit build, the compile-time
  constants of the kernel, the failures a C++ statement can end in, the result type that
  carries them, and generic lemmas on results, lists, folds and words.
\<close>

section \<open>Types and constants\<close>

type_synonym byte = "8 word"
type_synonym uint32 = "32 word"

text \<open>
  \<open>machine/disk.h\<close> and \<open>machine/machine.h\<close>: sizes of a sector, a page and of physical memory;
  \<open>userprog/swapmgr.h\<close>: pages of the swap file; \<open>userprog/nerrno.h\<close>: error numbers.
\<close>

definition SectorSize :: nat where "SectorSize = 128"
definition PageSize :: nat where "PageSize = SectorSize"
definition NumPhysPages :: nat where "NumPhysPages = 128"
definition MemorySize :: nat where "MemorySize = NumPhysPages * PageSize"
definition NumSwapPages :: nat where "NumSwapPages = 4096"
definition ENOMEM :: int where "ENOMEM = 12"

text \<open>\<open>threads/utility.h\<close>, the macro \<open>divRoundUp\<close> on non-negative arguments.\<close>

definition divRoundUp :: "nat \<Rightarrow> nat \<Rightarrow> nat" where
  "divRoundUp n s = n div s + (if n mod s > 0 then 1 else 0)"

section \<open>Failures and results\<close>

text \<open>
  A statement of the kernel either goes on or stops the simulation: a failed \<open>ASSERT\<close>
  (\<open>threads/utility.h\<close>) aborts, a null dereference, an index past the end of an array or a read
  of an uninitialised variable has no defined behaviour, \<open>new\<close> of a negative size throws, a
  division traps, a loop may never end, and a call may end the thread or the machine instead of returning
  (\<open>Finished\<close>, \<open>Halted\<close>), and \<open>exit (1)\<close> ends the simulator (\<open>Exited\<close>). Each is a value of \<open>fault\<close>; a result is a fault or a value.
\<close>

datatype fault =
    AssertionFailed | NullPointer | IndexOutOfBounds | BadAllocation | Uninitialised
  | ArithmeticTrap | Diverges | Finished | Halted | Exited

type_synonym 'a res = "fault + 'a"

definition bind_res :: "'a res \<Rightarrow> ('a \<Rightarrow> 'b res) \<Rightarrow> 'b res" where
  "bind_res m k = (case m of Inl e \<Rightarrow> Inl e | Inr x \<Rightarrow> k x)"

definition assert_res :: "bool \<Rightarrow> (unit \<Rightarrow> 'a res) \<Rightarrow> 'a res" where
  "assert_res b k = (if b then k () else Inl AssertionFailed)"

definition deref_res :: "'a option \<Rightarrow> ('a \<Rightarrow> 'b res) \<Rightarrow> 'b res" where
  "deref_res p k = (case p of None \<Rightarrow> Inl NullPointer | Some x \<Rightarrow> k x)"

definition index_res :: "'a list \<Rightarrow> nat \<Rightarrow> 'a res" where
  "index_res xs i = (if i < length xs then Inr (xs ! i) else Inl IndexOutOfBounds)"

definition is_ok :: "'a res \<Rightarrow> bool" where
  "is_ok m \<longleftrightarrow> (case m of Inl _ \<Rightarrow> False | Inr _ \<Rightarrow> True)"

fun fold_res :: "('a \<Rightarrow> 's \<Rightarrow> 's res) \<Rightarrow> 'a list \<Rightarrow> 's \<Rightarrow> 's res" where
  "fold_res f [] s = Inr s"
| "fold_res f (x # xs) s = bind_res (f x s) (fold_res f xs)"

named_theorems res_simps

lemma bind_res_Inl [simp, res_simps]: "bind_res (Inl e) k = Inl e"
  and bind_res_Inr [simp, res_simps]: "bind_res (Inr x) k = k x"
  by (simp_all add: bind_res_def)

lemma assert_res_True [simp, res_simps]: "b \<Longrightarrow> assert_res b k = k ()"
  and assert_res_False [simp, res_simps]: "\<not> b \<Longrightarrow> assert_res b k = Inl AssertionFailed"
  by (simp_all add: assert_res_def)

lemma deref_res_Some [simp, res_simps]: "deref_res (Some x) k = k x"
  and deref_res_None [simp, res_simps]: "deref_res None k = Inl NullPointer"
  by (simp_all add: deref_res_def)

lemma index_res_in [simp, res_simps]: "i < length xs \<Longrightarrow> index_res xs i = Inr (xs ! i)"
  and index_res_out [simp, res_simps]: "length xs \<le> i \<Longrightarrow> index_res xs i = Inl IndexOutOfBounds"
  by (simp_all add: index_res_def)

lemma is_ok_simps [simp]: "is_ok (Inr x)" "\<not> is_ok (Inl e)"
  by (simp_all add: is_ok_def)

lemma bind_res_eq_Inr:
  "bind_res m k = Inr y \<longleftrightarrow> (\<exists>x. m = Inr x \<and> k x = Inr y)"
  by (auto simp: bind_res_def split: sum.splits)

lemma assert_res_eq_Inr: "assert_res b k = Inr y \<longleftrightarrow> b \<and> k () = Inr y"
  by (simp add: assert_res_def)

lemma deref_res_eq_Inr: "deref_res p k = Inr y \<longleftrightarrow> (\<exists>x. p = Some x \<and> k x = Inr y)"
  by (auto simp: deref_res_def split: option.splits)

lemma index_res_eq_Inr: "index_res xs i = Inr y \<longleftrightarrow> i < length xs \<and> y = xs ! i"
  by (auto simp: index_res_def)

lemmas res_eq_Inr = bind_res_eq_Inr assert_res_eq_Inr deref_res_eq_Inr index_res_eq_Inr

lemma bind_res_assoc: "bind_res (bind_res m f) g = bind_res m (\<lambda>x. bind_res (f x) g)"
  by (auto simp: bind_res_def split: sum.splits)

lemma fold_res_append: "fold_res f (xs @ ys) s = bind_res (fold_res f xs s) (fold_res f ys)"
  by (induction xs arbitrary: s) (auto simp: bind_res_def split: sum.splits)

text \<open>An invariant of the body is an invariant of the loop.\<close>

lemma fold_res_invariant:
  assumes "fold_res f xs s = Inr t" and "P s"
    and "\<And>x s t. x \<in> set xs \<Longrightarrow> P s \<Longrightarrow> f x s = Inr t \<Longrightarrow> P t"
  shows "P t"
  using assms
proof (induction xs arbitrary: s)
  case (Cons x xs)
  then obtain u where u: "f x s = Inr u" "fold_res f xs u = Inr t"
    by (auto simp: bind_res_eq_Inr)
  with Cons.prems have "P u" by auto
  with u Cons show ?case by (meson list.set_intros(2))
qed simp

text \<open>A loop whose body never fails from states with the invariant ends without a fault.\<close>

lemma fold_res_total:
  assumes "P s" and "\<And>x s. x \<in> set xs \<Longrightarrow> P s \<Longrightarrow> \<exists>t. f x s = Inr t \<and> P t"
  shows "\<exists>t. fold_res f xs s = Inr t \<and> P t"
  using assms
proof (induction xs arbitrary: s)
  case (Cons x xs)
  from Cons.prems obtain u where "f x s = Inr u" "P u"
    by (meson list.set_intros(1))
  moreover from Cons \<open>P u\<close> have "\<exists>t. fold_res f xs u = Inr t \<and> P t"
    by (meson list.set_intros(2))
  ultimately show ?case by simp
qed simp

section \<open>Lists and arithmetic\<close>

lemma divRoundUp_le_iff: "0 < s \<Longrightarrow> divRoundUp n s \<le> k \<longleftrightarrow> n \<le> k * s"
proof -
  assume s: "0 < s"
  have n: "n = n div s * s + n mod s" by simp
  show ?thesis
  proof (cases "n mod s = 0")
    case True
    with n have "n = n div s * s" by simp
    then show ?thesis using s by (auto simp: divRoundUp_def True) (metis mult_le_cancel2)+
  next
    case False
    have "n div s < k \<longleftrightarrow> n \<le> k * s"
    proof
      assume "n div s < k"
      then show "n \<le> k * s" using s by (simp add: div_less_iff_less_mult)
    next
      assume "n \<le> k * s"
      with False have "n < k * s" by (metis le_neq_implies_less mod_mult_self2_is_0)
      then show "n div s < k" using s by (simp add: div_less_iff_less_mult)
    qed
    then show ?thesis using False by (simp add: divRoundUp_def Suc_le_eq)
  qed
qed

lemma divRoundUp_mono: "0 < s \<Longrightarrow> m \<le> n \<Longrightarrow> divRoundUp m s \<le> divRoundUp n s"
  by (meson divRoundUp_le_iff dual_order.refl dual_order.trans)

lemma upt_split_at: "i < n \<Longrightarrow> [0..<n] = [0..<i] @ i # [Suc i..<n]"
  using upt_add_eq_append [of 0 i "n - i"] by (simp add: upt_conv_Cons)

text \<open>The bytes of different pages do not overlap.\<close>

lemma slot_disjoint:
  fixes j k n i :: nat
  assumes "j \<noteq> k" and "i < n"
  shows "\<not> (k * n \<le> j * n + i \<and> j * n + i < k * n + n)"
proof
  assume "k * n \<le> j * n + i \<and> j * n + i < k * n + n"
  then obtain d where d: "j * n + i = k * n + d" "d < n"
    by (metis add_less_cancel_left le_Suc_ex)
  have "(j * n + i) div n = j" "(k * n + d) div n = k" using assms(2) d(2) by simp_all
  with d(1) assms(1) show False by simp
qed

lemma length_filter_neq:
  assumes "distinct xs" and "x \<in> set xs"
  shows "length (filter (\<lambda>y. y \<noteq> x) xs) = length xs - 1"
proof -
  have "{y. y \<noteq> x} \<inter> set xs = set xs - {x}" by auto
  then show ?thesis
    using assms by (simp add: distinct_length_filter distinct_card)
qed

section \<open>Words in memory\<close>

text \<open>The bytes of a word in the memory of the host, the least significant first, and of an array of words.\<close>

definition word_bytes :: "uint32 \<Rightarrow> byte list" where
  "word_bytes w = map (\<lambda>k. ucast (drop_bit (8 * k) w)) [0..<4]"

definition bytes_word :: "byte list \<Rightarrow> uint32" where
  "bytes_word bs = ucast (bs ! 0) OR push_bit 8 (ucast (bs ! 1)) OR push_bit 16 (ucast (bs ! 2)) OR
     push_bit 24 (ucast (bs ! 3))"

definition words_bytes :: "uint32 list \<Rightarrow> byte list" where
  "words_bytes ws = concat (map word_bytes ws)"

definition bytes_words :: "nat \<Rightarrow> byte list \<Rightarrow> uint32 list" where
  "bytes_words n bs = map (\<lambda>i. bytes_word (take 4 (drop (4 * i) bs))) [0..<n]"

lemma length_word_bytes [simp]: "length (word_bytes w) = 4"
  by (simp add: word_bytes_def)

lemma word_bytes_inverse [simp]: "bytes_word (word_bytes w) = w"
proof (rule bit_word_eqI)
  fix n assume "n < LENGTH(32)"
  then consider "n < 8" | "8 \<le> n" "n < 16" | "16 \<le> n" "n < 24" | "24 \<le> n" "n < 32" by fastforce
  then show "bit (bytes_word (word_bytes w)) n = bit w n"
    by cases (auto simp: bytes_word_def word_bytes_def bit_simps)
qed

lemma concat_blocks:
  assumes "\<And>x. x \<in> set xs \<Longrightarrow> length (f x) = n" "i < length xs"
  shows "take n (drop (n * i) (concat (map f xs))) = f (xs ! i)"
  using assms
proof (induction xs arbitrary: i)
  case (Cons x xs)
  then show ?case by (cases i) simp_all
qed simp

lemma length_concat_blocks: "(\<And>x. x \<in> set xs \<Longrightarrow> length (f x) = n) \<Longrightarrow> length (concat (map f xs)) = n * length xs"
  by (induction xs) simp_all

lemma length_words_bytes [simp]: "length (words_bytes ws) = 4 * length ws"
  unfolding words_bytes_def by (rule length_concat_blocks) simp

lemma length_bytes_words [simp]: "length (bytes_words n bs) = n"
  by (simp add: bytes_words_def)

lemma words_bytes_inverse: "length ws = n \<Longrightarrow> bytes_words n (words_bytes ws) = ws"
  unfolding bytes_words_def words_bytes_def by (intro nth_equalityI) (simp_all add: concat_blocks)

section \<open>Signed words and quotients\<close>

lemma sint_bounds: "- (2 ^ 31) \<le> sint (d :: uint32)" "sint (d :: uint32) < 2 ^ 31"
  using sint_greater_eq [of d] sint_less [of d] by simp_all

lemma sint_of_int: "- (2 ^ 31) \<le> x \<Longrightarrow> x < 2 ^ 31 \<Longrightarrow> sint (word_of_int x :: uint32) = x"
  by (simp add: signed_of_int signed_take_bit_int_eq_self)

lemma uint_of_int: "0 \<le> x \<Longrightarrow> x < 2 ^ 32 \<Longrightarrow> uint (word_of_int x :: uint32) = x"
  by (simp add: unsigned_of_int take_bit_int_eq_self)

lemma le_div_int: "0 < w \<Longrightarrow> k \<le> a div w \<longleftrightarrow> k * w \<le> (a :: int)"
proof
  assume "0 < w" "k \<le> a div w"
  then have "k * w \<le> a div w * w" by simp
  also have "\<dots> \<le> a" using \<open>0 < w\<close> div_mult_mod_eq [of a w] pos_mod_sign [of w a] by linarith
  finally show "k * w \<le> a" .
next
  assume "0 < w" "k * w \<le> a"
  then show "k \<le> a div w" using zdiv_mono1 [of "k * w" a w] by simp
qed

end
