(* ===== verification/Bitmap.thy ===== *)
theory Bitmap
  imports Nachos_Prelude
begin

text \<open>
  \<open>userprog/bitmap.cc\<close>: a set of numbered slots kept as an array of 32-bit words. It allocates
  page frames (\<open>memmgr.cc\<close>), swap frames (\<open>swapmgr.cc\<close>) and disk sectors (\<open>filehdr.cc\<close>,
  \<open>filesys.cc\<close>). The theory holds the class and its operations, the abstraction to the set of
  allocated slots, the interface \<open>slot_allocator\<close> its clients rely on, and the interpretation
  of that interface on the bitmap.
\<close>

section \<open>The class BitMap\<close>

definition BitsInWord :: nat where "BitsInWord = 32"

record BitMap =
  numBits :: nat
  numWords :: nat
  bm_map :: "uint32 list"

text \<open>
  \<open>ASSERT(which >= 0 && which < numBits)\<close> guards every access; the access itself is to the word
  \<open>which / BitsInWord\<close>.
\<close>

definition Mark :: "BitMap \<Rightarrow> int \<Rightarrow> BitMap res" where
  "Mark bm which =
     assert_res (0 \<le> which \<and> which < int (numBits bm)) (\<lambda>_.
     let w = nat which div BitsInWord in
     bind_res (index_res (bm_map bm) w) (\<lambda>x.
     Inr (bm\<lparr>bm_map := (bm_map bm)[w := x OR push_bit (nat which mod BitsInWord) 1]\<rparr>)))"

definition Clear :: "BitMap \<Rightarrow> int \<Rightarrow> BitMap res" where
  "Clear bm which =
     assert_res (0 \<le> which \<and> which < int (numBits bm)) (\<lambda>_.
     let w = nat which div BitsInWord in
     bind_res (index_res (bm_map bm) w) (\<lambda>x.
     Inr (bm\<lparr>bm_map := (bm_map bm)[w := x AND NOT (push_bit (nat which mod BitsInWord) 1)]\<rparr>)))"

definition Test :: "BitMap \<Rightarrow> int \<Rightarrow> bool res" where
  "Test bm which =
     assert_res (0 \<le> which \<and> which < int (numBits bm)) (\<lambda>_.
     bind_res (index_res (bm_map bm) (nat which div BitsInWord)) (\<lambda>x.
     Inr (x AND push_bit (nat which mod BitsInWord) 1 \<noteq> 0)))"

text \<open>
  The constructor: \<open>new unsigned int[numWords]\<close> leaves the words with whatever the heap held,
  the parameter \<open>junk\<close>; the loop then clears the bits below \<open>numBits\<close>.
\<close>

definition BitMap_new :: "(nat \<Rightarrow> uint32) \<Rightarrow> nat \<Rightarrow> BitMap res" where
  "BitMap_new junk nitems =
     (let n = divRoundUp nitems BitsInWord in
      fold_res (\<lambda>i bm. Clear bm (int i)) [0..<nitems]
        \<lparr>numBits = nitems, numWords = n, bm_map = map junk [0..<n]\<rparr>)"

fun Find_loop :: "BitMap \<Rightarrow> nat list \<Rightarrow> (int \<times> BitMap) res" where
  "Find_loop bm [] = Inr (-1, bm)"
| "Find_loop bm (i # is) =
     bind_res (Test bm (int i)) (\<lambda>t.
     if \<not> t then bind_res (Mark bm (int i)) (\<lambda>bm'. Inr (int i, bm'))
     else Find_loop bm is)"

definition Find :: "BitMap \<Rightarrow> (int \<times> BitMap) res" where
  "Find bm = Find_loop bm [0..<numBits bm]"

definition NumClear :: "BitMap \<Rightarrow> nat res" where
  "NumClear bm =
     fold_res (\<lambda>i count. bind_res (Test bm (int i)) (\<lambda>t. Inr (if \<not> t then count + 1 else count)))
       [0..<numBits bm] 0"

section \<open>The abstraction: the set of allocated slots\<close>

definition bm_wf :: "BitMap \<Rightarrow> bool" where
  "bm_wf bm \<longleftrightarrow> numWords bm = divRoundUp (numBits bm) BitsInWord \<and> length (bm_map bm) = numWords bm"

definition allocated :: "BitMap \<Rightarrow> nat set" where
  "allocated bm =
     {i. i < numBits bm \<and> bit (bm_map bm ! (i div BitsInWord)) (i mod BitsInWord)}"

section \<open>The interface of a slot allocator\<close>

text \<open>
  What the memory manager, the swap manager and the file system rely on: \<open>alloc\<close> hands out the
  least free slot and marks it, or returns -1 and changes nothing when there is none;
  \<open>release\<close> frees exactly the slot it is given. \<open>alloc_many\<close> is the allocation loop of
  \<open>FileHeader::Allocate\<close>.
\<close>

fun alloc_many :: "('s \<Rightarrow> (int \<times> 's) res) \<Rightarrow> nat \<Rightarrow> 's \<Rightarrow> (int list \<times> 's) res" where
  "alloc_many alloc 0 s = Inr ([], s)"
| "alloc_many alloc (Suc n) s =
     bind_res (alloc s) (\<lambda>(i, s').
     bind_res (alloc_many alloc n s') (\<lambda>(is, s''). Inr (i # is, s'')))"

locale slot_allocator =
  fixes alloc :: "'s \<Rightarrow> (int \<times> 's) res"
    and release :: "'s \<Rightarrow> int \<Rightarrow> 's res"
    and used :: "'s \<Rightarrow> nat set"
    and cap :: "'s \<Rightarrow> nat"
    and inv :: "'s \<Rightarrow> bool"
  assumes used_below: "inv s \<Longrightarrow> used s \<subseteq> {..<cap s}"
    and alloc_full: "inv s \<Longrightarrow> used s = {..<cap s} \<Longrightarrow> alloc s = Inr (-1, s)"
    and alloc_least: "inv s \<Longrightarrow> i < cap s \<Longrightarrow> i \<notin> used s \<Longrightarrow> {..<i} \<subseteq> used s \<Longrightarrow>
      \<exists>s'. alloc s = Inr (int i, s') \<and> inv s' \<and> cap s' = cap s \<and> used s' = insert i (used s)"
    and release_slot: "inv s \<Longrightarrow> i < cap s \<Longrightarrow>
      \<exists>s'. release s (int i) = Inr s' \<and> inv s' \<and> cap s' = cap s \<and> used s' = used s - {i}"
begin

lemma finite_used: "inv s \<Longrightarrow> finite (used s)"
  using used_below finite_subset by blast

lemma alloc_available:
  assumes "inv s" and "card (used s) < cap s"
  shows "\<exists>i s'. alloc s = Inr (int i, s') \<and> i < cap s \<and> i \<notin> used s \<and> inv s' \<and>
    cap s' = cap s \<and> used s' = insert i (used s)"
proof -
  define i where "i = (LEAST i. i \<notin> used s)"
  have "\<not> {..<cap s} \<subseteq> used s"
    using assms card_mono [OF finite_used, of s "{..<cap s}"] by auto
  then obtain j where "j < cap s" and j: "j \<notin> used s" by auto
  then have "i < cap s" unfolding i_def by (meson Least_le le_less_trans)
  moreover have "i \<notin> used s" unfolding i_def using j by (rule LeastI)
  moreover have "{..<i} \<subseteq> used s" unfolding i_def using not_less_Least by blast
  ultimately show ?thesis using alloc_least [OF assms(1)] by blast
qed

text \<open>An allocation either fails without effect or returns a fresh slot.\<close>

lemma alloc_cases:
  assumes "inv s"
  obtains "alloc s = Inr (-1, s)" "used s = {..<cap s}"
  | i s' where "alloc s = Inr (int i, s')" "i < cap s" "i \<notin> used s" "inv s'"
      "cap s' = cap s" "used s' = insert i (used s)"
proof (cases "card (used s) < cap s")
  case True
  with alloc_available [OF assms] that(2) show ?thesis by blast
next
  case False
  with used_below [OF assms] have "used s = {..<cap s}"
    by (metis card_lessThan card_seteq finite_lessThan not_less)
  with alloc_full [OF assms] that(1) show ?thesis by blast
qed

text \<open>A released slot can be allocated again: the pair leaves the used slots as they were.\<close>

lemma release_alloc:
  assumes "inv s" and "i \<in> used s" and "{..<i} \<subseteq> used s"
  shows "\<exists>s' s''. release s (int i) = Inr s' \<and> alloc s' = Inr (int i, s'') \<and>
    used s'' = used s \<and> inv s''"
proof -
  have "i < cap s" using assms used_below by blast
  then obtain s' where s': "release s (int i) = Inr s'" "inv s'" "cap s' = cap s"
      "used s' = used s - {i}"
    using release_slot assms(1) by blast
  have "{..<i} \<subseteq> used s'" using s'(4) assms(3) by auto
  then obtain s'' where "alloc s' = Inr (int i, s'')" "inv s''" "used s'' = insert i (used s')"
    using alloc_least [OF s'(2), of i] s' \<open>i < cap s\<close> by auto
  then show ?thesis using s' assms(2) by (auto simp: insert_absorb)
qed

text \<open>The allocation loop: with enough free slots it returns that many distinct fresh ones.\<close>

lemma alloc_many_ok:
  assumes "inv s" and "card (used s) + n \<le> cap s"
  shows "\<exists>is s'. alloc_many alloc n s = Inr (map int is, s') \<and> length is = n \<and> distinct is \<and>
    set is \<subseteq> {..<cap s} \<and> set is \<inter> used s = {} \<and> inv s' \<and> cap s' = cap s \<and>
    used s' = used s \<union> set is"
  using assms
proof (induction n arbitrary: s)
  case (Suc n)
  then obtain i s1 where 1: "alloc s = Inr (int i, s1)" "i < cap s" "i \<notin> used s" "inv s1"
      "cap s1 = cap s" "used s1 = insert i (used s)"
    using alloc_available [of s] by auto
  have "card (used s1) + n \<le> cap s1"
    using Suc.prems 1 finite_used by (simp add: card_insert_if)
  from Suc.IH [OF 1(4) this] obtain "is" s' where
    2: "alloc_many alloc n s1 = Inr (map int is, s')" "length is = n" "distinct is"
      "set is \<subseteq> {..<cap s1}" "set is \<inter> used s1 = {}" "inv s'" "cap s' = cap s1"
      "used s' = used s1 \<union> set is"
    by blast
  show ?case
    by (rule exI [of _ "i # is"], rule exI [of _ s']) (use 1 2 in auto)
qed simp

end

section \<open>The bitmap implements the interface\<close>

lemma bm_wf_index: "bm_wf bm \<Longrightarrow> i < numBits bm \<Longrightarrow> i div BitsInWord < length (bm_map bm)"
  by (auto simp: bm_wf_def divRoundUp_def BitsInWord_def)

lemma Test_spec: "bm_wf bm \<Longrightarrow> i < numBits bm \<Longrightarrow> Test bm (int i) = Inr (i \<in> allocated bm)"
  using bm_wf_index [of bm i]
  by (simp add: Test_def allocated_def push_bit_of_1 and_exp_eq_0_iff_not_bit Let_def)

lemma Mark_spec:
  assumes "bm_wf bm" and "i < numBits bm"
  shows "\<exists>bm'. Mark bm (int i) = Inr bm' \<and> bm_wf bm' \<and> numBits bm' = numBits bm \<and>
    allocated bm' = insert i (allocated bm)"
proof -
  let ?w = "i div BitsInWord"
  let ?bm = "bm\<lparr>bm_map := (bm_map bm)[?w := bm_map bm ! ?w OR push_bit (i mod BitsInWord) 1]\<rparr>"
  have w: "?w < length (bm_map bm)" using assms by (rule bm_wf_index)
  have "Mark bm (int i) = Inr ?bm" using assms w by (simp add: Mark_def Let_def)
  moreover have "bm_wf ?bm" using assms by (simp add: bm_wf_def)
  moreover have "j \<in> allocated ?bm \<longleftrightarrow> j \<in> insert i (allocated bm)" for j
  proof (cases "j div BitsInWord = ?w")
    case True
    then have "j mod BitsInWord = i mod BitsInWord \<longleftrightarrow> j = i"
      by (metis div_mult_mod_eq)
    then show ?thesis using True w assms
      by (auto simp: allocated_def bit_or_iff bit_exp_iff BitsInWord_def)
  next
    case False
    then show ?thesis using w by (auto simp: allocated_def)
  qed
  ultimately show ?thesis by auto
qed

lemma Clear_spec:
  assumes "bm_wf bm" and "i < numBits bm"
  shows "\<exists>bm'. Clear bm (int i) = Inr bm' \<and> bm_wf bm' \<and> numBits bm' = numBits bm \<and>
    allocated bm' = allocated bm - {i}"
proof -
  let ?w = "i div BitsInWord"
  let ?bm = "bm\<lparr>bm_map := (bm_map bm)[?w :=
     bm_map bm ! ?w AND NOT (push_bit (i mod BitsInWord) 1)]\<rparr>"
  have w: "?w < length (bm_map bm)" using assms by (rule bm_wf_index)
  have "Clear bm (int i) = Inr ?bm" using assms w by (simp add: Clear_def Let_def)
  moreover have "bm_wf ?bm" using assms by (simp add: bm_wf_def)
  moreover have "j \<in> allocated ?bm \<longleftrightarrow> j \<in> allocated bm - {i}" for j
  proof (cases "j div BitsInWord = ?w")
    case True
    then have "j mod BitsInWord = i mod BitsInWord \<longleftrightarrow> j = i"
      by (metis div_mult_mod_eq)
    then show ?thesis using True w assms
      by (auto simp: allocated_def bit_and_iff bit_not_iff bit_exp_iff BitsInWord_def)
  next
    case False
    then show ?thesis using w by (auto simp: allocated_def)
  qed
  ultimately show ?thesis by auto
qed

lemma Find_loop_skip:
  "bm_wf bm \<Longrightarrow> set is \<subseteq> allocated bm \<Longrightarrow> Find_loop bm (is @ js) = Find_loop bm js"
  by (induction "is") (auto simp: Test_spec allocated_def)

lemma Find_full: "bm_wf bm \<Longrightarrow> allocated bm = {..<numBits bm} \<Longrightarrow> Find bm = Inr (-1, bm)"
  using Find_loop_skip [of bm "[0..<numBits bm]" "[]"] by (simp add: Find_def atLeast0LessThan)

lemma Find_least:
  assumes "bm_wf bm" "i < numBits bm" "i \<notin> allocated bm" "{..<i} \<subseteq> allocated bm"
  shows "\<exists>bm'. Find bm = Inr (int i, bm') \<and> bm_wf bm' \<and> numBits bm' = numBits bm \<and>
    allocated bm' = insert i (allocated bm)"
proof -
  have "Find bm = Find_loop bm (i # [Suc i..<numBits bm])"
    using Find_loop_skip [of bm "[0..<i]"] upt_split_at [OF assms(2)] assms
    by (simp add: Find_def atLeast0LessThan)
  then show ?thesis using Mark_spec [OF assms(1,2)] assms by (auto simp: Test_spec)
qed

interpretation bm: slot_allocator Find Clear allocated numBits bm_wf
proof unfold_locales
  show "bm_wf s \<Longrightarrow> allocated s \<subseteq> {..<numBits s}" for s
    by (auto simp: allocated_def)
qed (auto intro: Find_full Find_least Clear_spec)

section \<open>Properties\<close>

text \<open>
  Whatever the heap held, a new \<open>BitMap\<close> of \<open>nitems\<close> bits is well formed and has no slot
  allocated: the constructor raises no fault and clears every bit it covers.
\<close>

theorem BitMap_new_clear:
  "\<exists>bm. BitMap_new junk nitems = Inr bm \<and> bm_wf bm \<and> numBits bm = nitems \<and> allocated bm = {}"
proof -
  let ?P = "\<lambda>k bm. bm_wf bm \<and> numBits bm = nitems \<and> allocated bm \<inter> {..<k} = {}"
  let ?clear = "\<lambda>i bm. Clear bm (int i)"
  have "?P 0 bm0 \<Longrightarrow> k \<le> nitems \<Longrightarrow> \<exists>bm. fold_res ?clear [0..<k] bm0 = Inr bm \<and> ?P k bm" for k bm0
  proof (induction k)
    case (Suc k)
    then obtain bm where bm: "fold_res ?clear [0..<k] bm0 = Inr bm" "?P k bm" by auto
    with Suc.prems Clear_spec [of bm k] obtain bm' where
      "Clear bm (int k) = Inr bm'" "bm_wf bm'" "numBits bm' = nitems" "allocated bm' = allocated bm - {k}"
      by auto
    with bm show ?case by (auto simp: fold_res_append lessThan_Suc)
  qed simp
  note loop = this [OF _ order_refl]
  let ?n = "divRoundUp nitems BitsInWord"
  let ?bm0 = "\<lparr>numBits = nitems, numWords = ?n, bm_map = map junk [0..<?n]\<rparr>"
  have "?P 0 ?bm0" by (simp add: bm_wf_def)
  from loop [OF this] obtain bm where
    bm: "BitMap_new junk nitems = Inr bm" "bm_wf bm" "numBits bm = nitems"
      "allocated bm \<inter> {..<nitems} = {}"
    by (auto simp: BitMap_new_def Let_def)
  moreover have "allocated bm = {}"
    using bm bm.used_below [of bm] by blast
  ultimately show ?thesis by blast
qed

text \<open>
  \<open>BitMap::Find\<close> on a bitmap with a clear bit returns the least one and sets exactly that
  bit; on a full bitmap it returns -1 and changes nothing.
\<close>

theorem Find_correct:
  assumes "bm_wf bm"
  shows "\<exists>bm'. bm_wf bm' \<and> numBits bm' = numBits bm \<and>
    (if allocated bm = {..<numBits bm} then Find bm = Inr (-1, bm') \<and> bm' = bm
     else Find bm = Inr (int (LEAST i. i \<notin> allocated bm), bm') \<and>
       allocated bm' = insert (LEAST i. i \<notin> allocated bm) (allocated bm))"
proof (cases "allocated bm = {..<numBits bm}")
  case True
  with assms show ?thesis by (auto simp: bm.alloc_full)
next
  case False
  let ?i = "LEAST i. i \<notin> allocated bm"
  obtain j where "j < numBits bm" "j \<notin> allocated bm"
    using False bm.used_below [OF assms] by blast
  then have "?i < numBits bm"
    using Least_le [of "\<lambda>i. i \<notin> allocated bm" j] by simp
  moreover have "?i \<notin> allocated bm"
    using LeastI [of "\<lambda>i. i \<notin> allocated bm" j] \<open>j \<notin> allocated bm\<close> by simp
  moreover have "{..<?i} \<subseteq> allocated bm" using not_less_Least by blast
  ultimately obtain bm' where "Find bm = Inr (int ?i, bm')" "bm_wf bm'"
      "numBits bm' = numBits bm" "allocated bm' = insert ?i (allocated bm)"
    using bm.alloc_least [OF assms] by blast
  with False show ?thesis by (metis (no_types, lifting))
qed

theorem Find_correct_witness:
  "\<exists>bm'. Find \<lparr>numBits = 3, numWords = 1, bm_map = [5]\<rparr> = Inr (1, bm') \<and> allocated bm' = {0, 1, 2}"
proof -
  let ?bm = "\<lparr>numBits = 3, numWords = 1, bm_map = [5]\<rparr>"
  have wf: "bm_wf ?bm" by (simp add: bm_wf_def divRoundUp_def BitsInWord_def)
  have "i \<in> allocated ?bm \<longleftrightarrow> i \<in> {0, 2}" for i
  proof -
    consider "i = 0" | "i = 1" | "i = 2" | "3 \<le> i" by linarith
    then show ?thesis by cases (auto simp: allocated_def BitsInWord_def)
  qed
  then have al: "allocated ?bm = {0, 2}" by (rule set_eqI)
  have least: "(LEAST i. i \<notin> {0, 2::nat}) = 1" by (rule Least_equality) auto
  have "(1::nat) \<in> {..<3} \<and> (1::nat) \<notin> {0, 2}" by simp
  then have "{0, 2::nat} \<noteq> {..<3}" by metis
  with Find_correct [OF wf] obtain bm' where "Find ?bm = Inr (1, bm')"
      "allocated bm' = insert 1 {0, 2}"
    unfolding al least by auto
  then show ?thesis by (metis insert_commute)
qed

lemma NumClear_count:
  assumes "bm_wf bm" and "set is \<subseteq> {..<numBits bm}"
  shows "fold_res (\<lambda>i count. bind_res (Test bm (int i))
      (\<lambda>t. Inr (if \<not> t then count + 1 else count))) is c =
    Inr (c + length (filter (\<lambda>i. i \<notin> allocated bm) is))"
  using assms by (induction "is" arbitrary: c) (auto simp: Test_spec)

text \<open>
  \<open>BitMap::NumClear\<close> counts exactly the slots that are not allocated.
\<close>

theorem NumClear_correct:
  assumes "bm_wf bm"
  shows "NumClear bm = Inr (numBits bm - card (allocated bm))"
proof -
  have "length (filter (\<lambda>i. i \<notin> allocated bm) [0..<numBits bm]) =
      card ({i. i \<notin> allocated bm} \<inter> {0..<numBits bm})"
    by (simp add: distinct_length_filter)
  also have "{i. i \<notin> allocated bm} \<inter> {0..<numBits bm} = {..<numBits bm} - allocated bm"
    by auto
  also have "card \<dots> = numBits bm - card (allocated bm)"
    using bm.used_below [OF assms] bm.finite_used [OF assms] by (simp add: card_Diff_subset)
  finally show ?thesis
    using NumClear_count [OF assms, of "[0..<numBits bm]" 0]
    by (simp add: NumClear_def atLeast0LessThan)
qed

theorem NumClear_correct_witness:
  "NumClear \<lparr>numBits = 3, numWords = 1, bm_map = [5]\<rparr> = Inr 1"
proof -
  let ?bm = "\<lparr>numBits = 3, numWords = 1, bm_map = [5]\<rparr>"
  have wf: "bm_wf ?bm" by (simp add: bm_wf_def divRoundUp_def BitsInWord_def)
  have "i \<in> allocated ?bm \<longleftrightarrow> i \<in> {0, 2}" for i
  proof -
    consider "i = 0" | "i = 1" | "i = 2" | "3 \<le> i" by linarith
    then show ?thesis by cases (auto simp: allocated_def BitsInWord_def)
  qed
  then have al: "allocated ?bm = {0, 2}" by (rule set_eqI)
  from NumClear_correct [OF wf] show ?thesis unfolding al by simp
qed

end
