(* ===== verification/PageTable.thy ===== *)
theory PageTable
  imports Nachos_Prelude
begin

text \<open>
  \<open>machine/translate.h\<close>, \<open>translate.cc\<close> and the page-table part of \<open>userprog/addrspace.cc\<close>: the
  translation entry and its accessors, the initialisation and copying of a table, the working
  set test, and the three page replacement policies that scan the current table (FIFO, LRU
  by reference history, enhanced second chance). The interface \<open>victim_policy\<close> is what the
  memory manager relies on; each policy interprets it with its own ranking of pages.
\<close>

section \<open>Translation entries\<close>

type_synonym file_id = nat

text \<open>
  Page numbers are natural numbers below \<open>2 ^ 32\<close>; the reference history is one byte and the load
  time an unsigned 32-bit tick count, kept at their widths since the policies compare them with
  all-ones sentinels.
\<close>

record TranslationEntry =
  history :: byte
  load_time :: uint32
  virtualPage :: nat
  physicalPage :: nat
  valid :: bool
  readOnly :: bool
  te_use :: bool
  dirty :: bool
  te_File :: "file_id option"
  te_offset :: nat
  te_zero :: bool
  cow :: bool

definition clearSC :: "TranslationEntry \<Rightarrow> TranslationEntry" where
  "clearSC te = te\<lparr>te_use := False\<rparr>"

definition clearRefHistory :: "TranslationEntry \<Rightarrow> TranslationEntry" where
  "clearRefHistory te = te\<lparr>history := 0\<rparr>"

definition setTime :: "TranslationEntry \<Rightarrow> uint32 \<Rightarrow> TranslationEntry" where
  "setTime te t = te\<lparr>load_time := t\<rparr>"

definition getTime :: "TranslationEntry \<Rightarrow> uint32" where
  "getTime te = load_time te"

text \<open>The conversion \<open>(unsigned int) notMe\<close> of a signed argument.\<close>

definition to_uint :: "int \<Rightarrow> nat" where
  "to_uint x = nat (x mod 2 ^ 32)"

section \<open>Building page tables\<close>

text \<open>The loop body of \<open>AddrSpace::SetupTable\<close>: every field of entry \<open>i\<close> is written.\<close>

definition SetupTable_entry :: "nat \<Rightarrow> TranslationEntry" where
  "SetupTable_entry i =
     \<lparr>history = 0, load_time = 0, virtualPage = i, physicalPage = 0, valid = False,
      readOnly = False, te_use = False, dirty = False, te_File = None, te_offset = 0,
      te_zero = False, cow = False\<rparr>"

definition SetupTable_pages :: "nat \<Rightarrow> TranslationEntry list" where
  "SetupTable_pages n = map SetupTable_entry [0..<n]"

text \<open>
  \<open>AddrSpace::CopyPageTable\<close>: entry by entry; the second-chance bit and the reference history
  of the copy start clear.
\<close>

definition CopyPageTable_entry :: "TranslationEntry \<Rightarrow> TranslationEntry" where
  "CopyPageTable_entry old =
     clearRefHistory (setTime (clearSC
       \<lparr>history = 0, load_time = 0, virtualPage = virtualPage old,
        physicalPage = physicalPage old, valid = valid old, readOnly = readOnly old,
        te_use = te_use old, dirty = dirty old, te_File = te_File old,
        te_offset = te_offset old, te_zero = te_zero old, cow = cow old\<rparr>) (getTime old))"

definition CopyPageTable :: "TranslationEntry list \<Rightarrow> nat \<Rightarrow> TranslationEntry list res" where
  "CopyPageTable oldPT numpages =
     fold_res (\<lambda>i acc. bind_res (index_res oldPT i) (\<lambda>e. Inr (acc @ [CopyPageTable_entry e])))
       [0..<numpages] []"

section \<open>The working set\<close>

definition NumPhysPagesOwned :: "TranslationEntry list \<Rightarrow> nat" where
  "NumPhysPagesOwned pt = foldl (\<lambda>num te. if valid te then num + 1 else num) 0 pt"

definition TooManyFrames_pt :: "TranslationEntry list \<Rightarrow> int \<Rightarrow> bool" where
  "TooManyFrames_pt pt wSetSize \<longleftrightarrow> int (NumPhysPagesOwned pt) > wSetSize"

text \<open>
  \<open>Thread::refreshWss\<close>: the mask of the history bits that count, the number of pages referenced
  under it, the new working set size, and the ageing of the histories. \<open>deltaMask\<close> is assigned
  only for the four sizes the code lists.
\<close>

definition deltaMask :: "int \<Rightarrow> byte res" where
  "deltaMask wsDeltaSize =
     (if wsDeltaSize = 1 then Inr 0x80 else if wsDeltaSize = 2 then Inr 0xC0
      else if wsDeltaSize = 4 then Inr 0xF0 else if wsDeltaSize = 8 then Inr 0xFF
      else Inl Uninitialised)"

definition refCount :: "byte \<Rightarrow> TranslationEntry list \<Rightarrow> nat" where
  "refCount dmask pt = foldl (\<lambda>n te. if history te AND dmask \<noteq> 0 then n + 1 else n) 0 pt"

definition newWorkingSetSize :: "nat \<Rightarrow> int" where
  "newWorkingSetSize n = (if n < 4 then 4 else if n > 32 then 32 else int n)"

definition ageHistory :: "TranslationEntry list \<Rightarrow> TranslationEntry list" where
  "ageHistory pt = map (\<lambda>te. te\<lparr>history := drop_bit 1 (history te)\<rparr>) pt"

section \<open>Page replacement policies\<close>

text \<open>A page may be chosen when it is resident and is not the frame the caller protects.\<close>

definition eligible :: "int \<Rightarrow> TranslationEntry \<Rightarrow> bool" where
  "eligible notMe te \<longleftrightarrow> valid te \<and> physicalPage te \<noteq> to_uint notMe"

text \<open>
  \<open>AddrSpace::FIFO_Choose_Victim\<close>. The local \<open>victim\<close> starts uninitialised (\<open>None\<close>) and
  \<open>victimTime\<close> at the largest unsigned value; page 0, when it is eligible, is taken without
  a comparison, every later page when it was loaded strictly earlier.
\<close>

definition FIFO_step ::
  "int \<Rightarrow> nat \<Rightarrow> TranslationEntry \<Rightarrow> nat option \<times> uint32 \<Rightarrow> nat option \<times> uint32" where
  "FIFO_step notMe i te acc =
     (if eligible notMe te then
        (let acc1 = (if i = 0 then (Some (physicalPage te), getTime te) else acc) in
         if i > 0 then
           (if getTime te < snd acc1 then (Some (physicalPage te), getTime te) else acc1)
         else acc1)
      else acc)"

fun FIFO_loop ::
  "int \<Rightarrow> nat \<Rightarrow> TranslationEntry list \<Rightarrow> nat option \<times> uint32 \<Rightarrow> nat option \<times> uint32" where
  "FIFO_loop notMe i [] acc = acc"
| "FIFO_loop notMe i (te # pt) acc = FIFO_loop notMe (Suc i) pt (FIFO_step notMe i te acc)"

definition FIFO_Choose_Victim :: "TranslationEntry list \<Rightarrow> int \<Rightarrow> (int \<times> TranslationEntry list) res"
  where
  "FIFO_Choose_Victim pt notMe =
     (case fst (FIFO_loop notMe 0 pt (None, 0xFFFFFFFF)) of
        None \<Rightarrow> Inl Uninitialised | Some v \<Rightarrow> Inr (int v, pt))"

text \<open>
  \<open>AddrSpace::LRU_Choose_Victim\<close>: the smallest history byte wins, ties go to the earlier load
  time. The accumulator is \<open>(victim, victimHist, victimTime)\<close>.
\<close>

fun LRU_step ::
  "int \<Rightarrow> TranslationEntry \<Rightarrow> nat option \<times> byte \<times> uint32 \<Rightarrow> nat option \<times> byte \<times> uint32" where
  "LRU_step notMe te (victim, victimHist, victimTime) =
     (if eligible notMe te then
        (if history te = victimHist then
           (if victimTime > getTime te then (Some (physicalPage te), history te, getTime te)
            else (victim, victimHist, victimTime))
         else if history te < victimHist then (Some (physicalPage te), history te, getTime te)
         else (victim, victimHist, victimTime))
      else (victim, victimHist, victimTime))"

definition LRU_Choose_Victim :: "TranslationEntry list \<Rightarrow> int \<Rightarrow> (int \<times> TranslationEntry list) res"
  where
  "LRU_Choose_Victim pt notMe =
     (case fst (fold (LRU_step notMe) pt (None, 0xFF, 0xFFFFFFFF)) of
        None \<Rightarrow> Inl Uninitialised | Some v \<Rightarrow> Inr (int v, pt))"

text \<open>
  \<open>AddrSpace::SC_Choose_Victim\<close>: four running minima \<open>choice[c]\<close>, \<open>time[c]\<close>, one per class of
  (referenced, modified), \<open>choice\<close> starting at -1. A page that does not improve the first two
  loses its reference bit and competes for the last two.
\<close>

type_synonym sc_slot = "int \<times> uint32"

record sc_state =
  slot0 :: sc_slot
  slot1 :: sc_slot
  slot2 :: sc_slot
  slot3 :: sc_slot

definition SC_step :: "int \<Rightarrow> TranslationEntry \<Rightarrow> sc_state \<Rightarrow> TranslationEntry \<times> sc_state" where
  "SC_step notMe te c =
     (if eligible notMe te then
        (let new = (int (physicalPage te), getTime te) in
         if \<not> te_use te \<and> \<not> dirty te \<and> getTime te < snd (slot0 c) then (te, c\<lparr>slot0 := new\<rparr>)
         else if \<not> te_use te \<and> dirty te \<and> getTime te < snd (slot1 c) then (te, c\<lparr>slot1 := new\<rparr>)
         else
           (clearSC te,
            if \<not> dirty te \<and> getTime te < snd (slot2 c) then c\<lparr>slot2 := new\<rparr>
            else if getTime te < snd (slot3 c) then c\<lparr>slot3 := new\<rparr> else c))
      else (te, c))"

fun SC_loop :: "int \<Rightarrow> TranslationEntry list \<Rightarrow> sc_state \<Rightarrow> TranslationEntry list \<times> sc_state" where
  "SC_loop notMe [] c = ([], c)"
| "SC_loop notMe (te # pt) c =
     (let (te', c') = SC_step notMe te c; (pt', c'') = SC_loop notMe pt c' in (te' # pt', c''))"

fun SC_pick :: "int list \<Rightarrow> int" where
  "SC_pick [] = -1"
| "SC_pick (c # cs) = (if c \<ge> 0 then c else SC_pick cs)"

definition SC_init :: sc_state where
  "SC_init = \<lparr>slot0 = (-1, 0xFFFFFFFF), slot1 = (-1, 0xFFFFFFFF), slot2 = (-1, 0xFFFFFFFF),
     slot3 = (-1, 0xFFFFFFFF)\<rparr>"

definition SC_Choose_Victim :: "TranslationEntry list \<Rightarrow> int \<Rightarrow> (int \<times> TranslationEntry list) res"
  where
  "SC_Choose_Victim pt notMe =
     (let (pt', c) = SC_loop notMe pt SC_init
      in Inr (SC_pick [fst (slot0 c), fst (slot1 c), fst (slot2 c), fst (slot3 c)], pt'))"

text \<open>
  The ranking each policy minimises: the load time; the history, then the load time; the class
  of (referenced, modified), then the load time.
\<close>

definition tick_range :: nat where "tick_range = 2 ^ 32"

definition FIFO_rank :: "TranslationEntry \<Rightarrow> nat" where
  "FIFO_rank te = unat (load_time te)"

definition LRU_rank :: "TranslationEntry \<Rightarrow> nat" where
  "LRU_rank te = unat (history te) * tick_range + unat (load_time te)"

definition SC_class :: "TranslationEntry \<Rightarrow> nat" where
  "SC_class te = (if te_use te then 2 else 0) + (if dirty te then 1 else 0)"

definition SC_rank :: "TranslationEntry \<Rightarrow> nat" where
  "SC_rank te = SC_class te * tick_range + unat (load_time te)"

text \<open>
  What a policy may change in the table it scans: the reference bits, nothing else.
\<close>

definition same_mapping :: "TranslationEntry list \<Rightarrow> TranslationEntry list \<Rightarrow> bool" where
  "same_mapping pt pt' \<longleftrightarrow> map (\<lambda>te. te\<lparr>te_use := False\<rparr>) pt = map (\<lambda>te. te\<lparr>te_use := False\<rparr>) pt'"

text \<open>
  A table can be scanned when some page is eligible and no eligible page carries the sentinel
  time \<open>0xFFFFFFFF\<close>, which the strict comparisons cannot tell from ``none yet''.
\<close>

definition can_choose :: "TranslationEntry list \<Rightarrow> int \<Rightarrow> bool" where
  "can_choose pt notMe \<longleftrightarrow>
     (\<exists>te \<in> set pt. eligible notMe te) \<and>
     (\<forall>te \<in> set pt. eligible notMe te \<longrightarrow> load_time te < 0xFFFFFFFF)"

section \<open>The interface of a replacement policy\<close>

locale victim_policy =
  fixes pick :: "TranslationEntry list \<Rightarrow> int \<Rightarrow> (int \<times> TranslationEntry list) res"
    and rank :: "TranslationEntry \<Rightarrow> nat"
  assumes pick_best: "can_choose pt notMe \<Longrightarrow>
      \<exists>te pt'. pick pt notMe = Inr (int (physicalPage te), pt') \<and> te \<in> set pt \<and>
        eligible notMe te \<and> (\<forall>te' \<in> set pt. eligible notMe te' \<longrightarrow> rank te \<le> rank te')"
    and pick_table: "pick pt notMe = Inr (v, pt') \<Longrightarrow> same_mapping pt pt'"
begin

text \<open>The victim is a frame the table maps, and never the protected one.\<close>

lemma pick_mapped:
  assumes "can_choose pt notMe"
  shows "\<exists>v pt'. pick pt notMe = Inr (int v, pt') \<and> same_mapping pt pt' \<and>
    v \<noteq> to_uint notMe \<and> (\<exists>te \<in> set pt. valid te \<and> physicalPage te = v)"
  using pick_best [OF assms] pick_table by (fastforce simp: eligible_def)

text \<open>A table whose mapped frames are all in range never yields a victim out of range.\<close>

lemma pick_bound:
  assumes "can_choose pt notMe" and "\<And>te. te \<in> set pt \<Longrightarrow> valid te \<Longrightarrow> physicalPage te < n"
    and "pick pt notMe = Inr (v, pt')"
  shows "0 \<le> v \<and> v < int n"
  using pick_mapped [OF assms(1)] assms(2,3) by auto

end

section \<open>The policies implement the interface\<close>

text \<open>
  A running minimum over the set of entries seen so far: the sentinel when there was none, else
  the frame and the rank of a best entry.
\<close>

definition running_min ::
  "(TranslationEntry \<Rightarrow> nat) \<Rightarrow> nat \<Rightarrow> TranslationEntry set \<Rightarrow> nat option \<Rightarrow> nat \<Rightarrow> bool" where
  "running_min rank lim S v t \<longleftrightarrow>
     (if S = {} then v = None \<and> t = lim
      else \<exists>te \<in> S. v = Some (physicalPage te) \<and> t = rank te \<and> (\<forall>te' \<in> S. rank te \<le> rank te'))"

lemma running_min_empty [simp]: "running_min rank lim {} None lim"
  by (simp add: running_min_def)

lemma running_min_singleton [simp]: "running_min rank lim {te} (Some (physicalPage te)) (rank te)"
  by (simp add: running_min_def)

lemma running_min_better:
  "running_min rank lim S v t \<Longrightarrow> rank te < t \<Longrightarrow>
   running_min rank lim (insert te S) (Some (physicalPage te)) (rank te)"
  unfolding running_min_def by (cases "S = {}") (auto intro!: bexI [of _ te])

lemma running_min_worse:
  "running_min rank lim S v t \<Longrightarrow> t \<le> rank te \<Longrightarrow> rank te < lim \<Longrightarrow>
   running_min rank lim (insert te S) v t"
  unfolding running_min_def by (cases "S = {}") auto

lemmas running_min_insert = running_min_better running_min_worse

lemma running_min_result:
  "running_min rank lim S v t \<Longrightarrow> S \<noteq> {} \<Longrightarrow>
   \<exists>te \<in> S. v = Some (physicalPage te) \<and> (\<forall>te' \<in> S. rank te \<le> rank te')"
  by (auto simp: running_min_def)

definition eligible_in :: "int \<Rightarrow> TranslationEntry list \<Rightarrow> TranslationEntry set" where
  "eligible_in notMe pt = {te \<in> set pt. eligible notMe te}"

lemma eligible_in_Nil [simp]: "eligible_in notMe [] = {}"
  by (simp add: eligible_in_def)

lemma eligible_in_Cons [simp]:
  "eligible_in notMe (te # pt) =
     (if eligible notMe te then insert te (eligible_in notMe pt) else eligible_in notMe pt)"
  by (auto simp: eligible_in_def)

lemma can_choose_alt:
  "can_choose pt notMe \<longleftrightarrow> eligible_in notMe pt \<noteq> {} \<and>
     (\<forall>te \<in> eligible_in notMe pt. load_time te < 0xFFFFFFFF)"
  by (auto simp: can_choose_def eligible_in_def)

lemma unat_tick: "unat (t::uint32) < tick_range"
  using unsigned_less [of t] by (simp add: tick_range_def)

lemma unat_less_max: "(t::uint32) < 0xFFFFFFFF \<longleftrightarrow> unat t < 0xFFFFFFFF"
  by (simp add: word_less_nat_alt)

lemma lex_pair_less:
  fixes a b N :: nat
  assumes "a < N" and "b < N"
  shows "x * N + a < y * N + b \<longleftrightarrow> x < y \<or> (x = y \<and> a < b)"
proof (cases x y rule: linorder_cases)
  case less
  then have "x * N + N \<le> y * N" by (metis Suc_leI add.commute mult_Suc mult_le_mono1)
  with less assms show ?thesis by linarith
next
  case greater
  then have "y * N + N \<le> x * N" by (metis Suc_leI add.commute mult_Suc mult_le_mono1)
  with greater assms show ?thesis by linarith
qed simp

subsection \<open>First in, first out\<close>

lemma FIFO_step_min:
  assumes "running_min FIFO_rank 0xFFFFFFFF S v (unat t)" and "i = 0 \<Longrightarrow> S = {}"
    and "eligible notMe te \<Longrightarrow> load_time te < 0xFFFFFFFF"
  shows "(case FIFO_step notMe i te (v, t) of (v', t') \<Rightarrow>
     running_min FIFO_rank 0xFFFFFFFF (if eligible notMe te then insert te S else S) v' (unat t'))"
  using assms running_min_better [OF assms(1), of te] running_min_worse [OF assms(1), of te]
    running_min_singleton [where rank = FIFO_rank and lim = "0xFFFFFFFF" and te = te]
  by (auto simp: FIFO_step_def getTime_def FIFO_rank_def Let_def unat_less_max word_less_nat_alt)

lemma FIFO_loop_min:
  assumes "running_min FIFO_rank 0xFFFFFFFF S v (unat t)" and "i = 0 \<Longrightarrow> S = {}"
    and "\<forall>te \<in> eligible_in notMe pt. load_time te < 0xFFFFFFFF"
    and "FIFO_loop notMe i pt (v, t) = (v', t')"
  shows "running_min FIFO_rank 0xFFFFFFFF (S \<union> eligible_in notMe pt) v' (unat t')"
  using assms
proof (induction pt arbitrary: i S v t)
  case (Cons te pt)
  obtain v1 t1 where 1: "FIFO_step notMe i te (v, t) = (v1, t1)" by force
  let ?S = "if eligible notMe te then insert te S else S"
  have "running_min FIFO_rank 0xFFFFFFFF ?S v1 (unat t1)"
    using FIFO_step_min [of S v t i notMe te] Cons.prems 1 by (auto split: if_splits)
  from Cons.IH [OF this, of "Suc i"] Cons.prems 1
  show ?case by (auto split: if_splits)
qed simp

interpretation FIFO: victim_policy FIFO_Choose_Victim FIFO_rank
proof unfold_locales
  fix pt notMe assume c: "can_choose pt notMe"
  obtain v t where vt: "FIFO_loop notMe 0 pt (None, 0xFFFFFFFF) = (v, t)" by force
  have start: "running_min FIFO_rank 0xFFFFFFFF {} None (unat (0xFFFFFFFF :: uint32))" by simp
  from FIFO_loop_min [OF start, of 0 notMe pt v t] vt c
  have "running_min FIFO_rank 0xFFFFFFFF (eligible_in notMe pt) v (unat t)"
    by (simp add: can_choose_alt)
  with c obtain te where te: "te \<in> eligible_in notMe pt" "v = Some (physicalPage te)"
      "\<And>te'. te' \<in> eligible_in notMe pt \<Longrightarrow> FIFO_rank te \<le> FIFO_rank te'"
    by (auto simp: can_choose_alt dest!: running_min_result)
  show "\<exists>te pt'. FIFO_Choose_Victim pt notMe = Inr (int (physicalPage te), pt') \<and> te \<in> set pt \<and>
      eligible notMe te \<and> (\<forall>te' \<in> set pt. eligible notMe te' \<longrightarrow> FIFO_rank te \<le> FIFO_rank te')"
    by (intro exI [of _ te] exI [of _ pt])
      (use te vt in \<open>auto simp: FIFO_Choose_Victim_def eligible_in_def\<close>)
next
  show "FIFO_Choose_Victim pt notMe = Inr (v, pt') \<Longrightarrow> same_mapping pt pt'" for pt notMe v pt'
    by (auto simp: FIFO_Choose_Victim_def same_mapping_def split: option.splits)
qed

subsection \<open>Least recently used, by history\<close>

lemma LRU_rank_less:
  "LRU_rank te < unat h * tick_range + unat (t::uint32) \<longleftrightarrow>
     history te < h \<or> (history te = h \<and> load_time te < t)"
  using lex_pair_less [of "unat (load_time te)" tick_range "unat t" "unat (history te)" "unat h"]
    unat_tick [of "load_time te"] unat_tick [of t]
  by (simp add: LRU_rank_def word_less_nat_alt word_unat_eq_iff)

lemma LRU_rank_top:
  assumes "load_time te < 0xFFFFFFFF" shows "LRU_rank te < 0xFF * tick_range + 0xFFFFFFFF"
proof -
  have "unat (history te) < 2 ^ 8" using unsigned_less [of "history te", where ?'a = nat] by simp
  then have "unat (history te) \<le> 0xFF" by simp
  then have "unat (history te) * tick_range \<le> 0xFF * tick_range" by (rule mult_le_mono1)
  then show ?thesis using assms unfolding LRU_rank_def unat_less_max by linarith
qed

lemma LRU_step_min:
  assumes "running_min LRU_rank (0xFF * tick_range + 0xFFFFFFFF) S v (unat h * tick_range + unat t)"
    and "eligible notMe te \<Longrightarrow> load_time te < 0xFFFFFFFF"
    and "LRU_step notMe te (v, h, t) = (v', h', t')"
  shows "running_min LRU_rank (0xFF * tick_range + 0xFFFFFFFF)
     (if eligible notMe te then insert te S else S) v' (unat h' * tick_range + unat t')"
proof (cases "eligible notMe te")
  case True
  show ?thesis
  proof (cases "LRU_rank te < unat h * tick_range + unat t")
    case better: True
    with assms(3) True have "v' = Some (physicalPage te)" "h' = history te" "t' = load_time te"
      by (auto simp: LRU_rank_less getTime_def split: if_splits)
    with running_min_better [OF assms(1) better] True show ?thesis by (simp add: LRU_rank_def [of te])
  next
    case False
    then have "\<not> history te < h" "\<not> (history te = h \<and> load_time te < t)"
      by (simp_all add: LRU_rank_less)
    with assms(3) True have "v' = v" "h' = h" "t' = t"
      by (auto simp: getTime_def split: if_splits)
    with running_min_worse [OF assms(1) _ LRU_rank_top] assms(2) True False show ?thesis by simp
  qed
next
  case False
  with assms(1,3) show ?thesis by simp
qed

lemma LRU_fold_min:
  assumes "running_min LRU_rank (0xFF * tick_range + 0xFFFFFFFF) S v (unat h * tick_range + unat t)"
    and "\<forall>te \<in> eligible_in notMe pt. load_time te < 0xFFFFFFFF"
    and "fold (LRU_step notMe) pt (v, h, t) = (v', h', t')"
  shows "running_min LRU_rank (0xFF * tick_range + 0xFFFFFFFF) (S \<union> eligible_in notMe pt) v'
    (unat h' * tick_range + unat t')"
  using assms
proof (induction pt arbitrary: S v h t)
  case (Cons te pt)
  obtain v1 h1 t1 where 1: "LRU_step notMe te (v, h, t) = (v1, h1, t1)"
    using prod_cases3 by blast
  have "running_min LRU_rank (0xFF * tick_range + 0xFFFFFFFF)
      (if eligible notMe te then insert te S else S) v1 (unat h1 * tick_range + unat t1)"
    using LRU_step_min [OF Cons.prems(1) _ 1] Cons.prems(2) by simp
  from Cons.IH [OF this] Cons.prems(2,3) 1 show ?case
    by (auto simp del: LRU_step.simps split: if_splits)
qed simp

interpretation LRU: victim_policy LRU_Choose_Victim LRU_rank
proof unfold_locales
  fix pt notMe assume c: "can_choose pt notMe"
  obtain v h t where vt: "fold (LRU_step notMe) pt (None, 0xFF, 0xFFFFFFFF) = (v, h, t)"
    using prod_cases3 by blast
  have start: "running_min LRU_rank (0xFF * tick_range + 0xFFFFFFFF) {} None
      (unat (0xFF :: byte) * tick_range + unat (0xFFFFFFFF :: uint32))" by simp
  from LRU_fold_min [OF start, of notMe pt v h t] vt c
  have "running_min LRU_rank (0xFF * tick_range + 0xFFFFFFFF) (eligible_in notMe pt) v
      (unat h * tick_range + unat t)"
    by (simp add: can_choose_alt)
  with c obtain te where te: "te \<in> eligible_in notMe pt" "v = Some (physicalPage te)"
      "\<And>te'. te' \<in> eligible_in notMe pt \<Longrightarrow> LRU_rank te \<le> LRU_rank te'"
    by (auto simp: can_choose_alt dest!: running_min_result)
  show "\<exists>te pt'. LRU_Choose_Victim pt notMe = Inr (int (physicalPage te), pt') \<and> te \<in> set pt \<and>
      eligible notMe te \<and> (\<forall>te' \<in> set pt. eligible notMe te' \<longrightarrow> LRU_rank te \<le> LRU_rank te')"
    by (intro exI [of _ te] exI [of _ pt])
      (use te vt in \<open>auto simp: LRU_Choose_Victim_def eligible_in_def\<close>)
next
  show "LRU_Choose_Victim pt notMe = Inr (v, pt') \<Longrightarrow> same_mapping pt pt'" for pt notMe v pt'
    by (auto simp: LRU_Choose_Victim_def same_mapping_def split: option.splits)
qed

subsection \<open>Enhanced second chance\<close>

definition slot_min :: "TranslationEntry set \<Rightarrow> sc_slot \<Rightarrow> bool" where
  "slot_min S sl \<longleftrightarrow> fst sl \<ge> -1 \<and>
     running_min FIFO_rank 0xFFFFFFFF S (if fst sl < 0 then None else Some (nat (fst sl))) (unat (snd sl))"

lemma slot_min_empty [simp]: "slot_min {} (-1, 0xFFFFFFFF)"
  by (simp add: slot_min_def)

lemma slot_min_better:
  "slot_min S sl \<Longrightarrow> getTime te < snd sl \<Longrightarrow> slot_min (insert te S) (int (physicalPage te), getTime te)"
  unfolding slot_min_def
  by (auto simp: getTime_def word_less_nat_alt FIFO_rank_def dest: running_min_better [where te = te])

lemma slot_min_worse:
  "slot_min S sl \<Longrightarrow> \<not> getTime te < snd sl \<Longrightarrow> load_time te < 0xFFFFFFFF \<Longrightarrow> slot_min (insert te S) sl"
  unfolding slot_min_def
  by (auto simp: getTime_def word_less_nat_alt FIFO_rank_def dest: running_min_worse [where te = te])

lemma slot_min_result:
  assumes "slot_min S sl" and "S \<noteq> {}"
  shows "\<exists>te \<in> S. fst sl = int (physicalPage te) \<and> (\<forall>te' \<in> S. load_time te \<le> load_time te')"
proof -
  from assms(1) have "running_min FIFO_rank 0xFFFFFFFF S
      (if fst sl < 0 then None else Some (nat (fst sl))) (unat (snd sl))"
    unfolding slot_min_def by (rule conjunct2)
  from running_min_result [OF this assms(2)] obtain te where
    te: "te \<in> S" "\<not> fst sl < 0" "nat (fst sl) = physicalPage te"
      "\<forall>te' \<in> S. FIFO_rank te \<le> FIFO_rank te'"
    by (auto split: if_splits)
  from te(2,3) have "fst sl = int (physicalPage te)" by linarith
  with te show ?thesis by (auto simp: FIFO_rank_def word_le_nat_alt)
qed

lemma slot_min_none: "slot_min {} sl \<Longrightarrow> fst sl = -1"
  by (auto simp: slot_min_def running_min_def split: if_splits)

text \<open>The entries of one class among those seen.\<close>

definition of_class :: "nat \<Rightarrow> TranslationEntry set \<Rightarrow> TranslationEntry set" where
  "of_class k S = {te \<in> S. SC_class te = k}"

lemma of_class_insert:
  "of_class k (insert te S) = (if SC_class te = k then insert te (of_class k S) else of_class k S)"
  by (auto simp: of_class_def)

lemma of_class_empty [simp]: "of_class k {} = {}"
  by (simp add: of_class_def)

text \<open>
  The loop invariant: the first two minima are those of their classes; the third is the
  minimum of its class while no page of class 0 was seen, the last while no page of a lower
  class was seen (a page that does not improve its own minimum competes further down).
\<close>

definition SC_inv :: "TranslationEntry set \<Rightarrow> sc_state \<Rightarrow> bool" where
  "SC_inv S c \<longleftrightarrow>
     slot_min (of_class 0 S) (slot0 c) \<and> slot_min (of_class 1 S) (slot1 c) \<and>
     (of_class 0 S = {} \<longrightarrow> slot_min (of_class 2 S) (slot2 c)) \<and>
     (of_class 0 S = {} \<and> of_class 1 S = {} \<and> of_class 2 S = {} \<longrightarrow>
        slot_min (of_class 3 S) (slot3 c))"

lemma SC_step_inv:
  assumes "SC_inv S c" and "eligible notMe te" and "load_time te < 0xFFFFFFFF"
  shows "SC_inv (insert te S) (snd (SC_step notMe te c))"
proof -
  consider "\<not> te_use te" "\<not> dirty te" | "\<not> te_use te" "dirty te" | "te_use te" "\<not> dirty te"
    | "te_use te" "dirty te" by blast
  then show ?thesis
    by cases (use assms in \<open>auto simp: SC_inv_def SC_step_def Let_def of_class_insert SC_class_def
        intro: slot_min_better slot_min_worse\<close>)
qed

lemma SC_step_table:
  "fst (SC_step notMe te c) = (if eligible notMe te then clearSC te else te)"
  by (auto simp: SC_step_def Let_def clearSC_def)

lemma SC_step_ineligible: "\<not> eligible notMe te \<Longrightarrow> SC_step notMe te c = (te, c)"
  by (simp add: SC_step_def)

lemma SC_loop_inv:
  assumes "SC_inv S c" and "\<forall>te \<in> eligible_in notMe pt. load_time te < 0xFFFFFFFF"
  shows "SC_inv (S \<union> eligible_in notMe pt) (snd (SC_loop notMe pt c))"
  using assms
proof (induction pt arbitrary: S c)
  case (Cons te pt)
  show ?case
  proof (cases "eligible notMe te")
    case True
    with Cons.prems have "SC_inv (insert te S) (snd (SC_step notMe te c))"
      by (auto intro: SC_step_inv)
    from Cons.IH [OF this] Cons.prems(2) True show ?thesis
      by (simp add: case_prod_beta Let_def)
  next
    case False
    with Cons show ?thesis by (simp add: SC_step_ineligible case_prod_beta Let_def)
  qed
qed simp

lemma SC_loop_table:
  "fst (SC_loop notMe pt c) = map (\<lambda>te. if eligible notMe te then clearSC te else te) pt"
  by (induction pt arbitrary: c) (simp_all add: case_prod_beta Let_def SC_step_table)

lemma SC_rank_le:
  "SC_class a < SC_class b \<or> (SC_class a = SC_class b \<and> load_time a \<le> load_time b) \<Longrightarrow>
   SC_rank a \<le> SC_rank b"
  using lex_pair_less [OF unat_tick unat_tick, of "SC_class a" "load_time a" "SC_class b" "load_time b"]
  unfolding SC_rank_def by (auto simp: word_le_nat_alt)

lemma SC_class_cases: "SC_class te \<in> {0, 1, 2, 3}"
  by (auto simp: SC_class_def)

text \<open>When the lowest class with a candidate is \<open>k\<close>, its best candidate is best overall.\<close>

lemma SC_lowest_class_best:
  assumes te: "te \<in> of_class k S" "\<And>te'. te' \<in> of_class k S \<Longrightarrow> load_time te \<le> load_time te'"
    and lower: "\<And>j. j < k \<Longrightarrow> of_class j S = {}" and "te' \<in> S"
  shows "SC_rank te \<le> SC_rank te'"
proof (rule SC_rank_le)
  have "\<not> SC_class te' < k" using lower [of "SC_class te'"] \<open>te' \<in> S\<close> by (auto simp: of_class_def)
  then show "SC_class te < SC_class te' \<or>
      (SC_class te = SC_class te' \<and> load_time te \<le> load_time te')"
    using te \<open>te' \<in> S\<close> by (auto simp: of_class_def)
qed

lemma SC_inv_pick:
  assumes "SC_inv S c" and "S \<noteq> {}"
  shows "\<exists>te \<in> S. SC_pick [fst (slot0 c), fst (slot1 c), fst (slot2 c), fst (slot3 c)] =
     int (physicalPage te) \<and> (\<forall>te' \<in> S. SC_rank te \<le> SC_rank te')"
proof -
  have "\<exists>k. of_class k S \<noteq> {}" using assms(2) by (auto simp: of_class_def)
  define k where "k = (LEAST k. of_class k S \<noteq> {})"
  have k: "of_class k S \<noteq> {}" unfolding k_def using \<open>\<exists>k. _\<close> by (rule LeastI_ex)
  have lower: "of_class j S = {}" if "j < k" for j
    using not_less_Least [OF that [unfolded k_def]] by simp
  obtain x where "SC_class x = k" using k by (auto simp: of_class_def)
  then have "k \<in> {0, 1, 2, 3}" using SC_class_cases [of x] by simp
  then consider "k = 0" | "k = 1" | "k = 2" | "k = 3" by blast
  then have "\<exists>te \<in> of_class k S.
      SC_pick [fst (slot0 c), fst (slot1 c), fst (slot2 c), fst (slot3 c)] = int (physicalPage te) \<and>
      (\<forall>te' \<in> of_class k S. load_time te \<le> load_time te')"
  proof cases
    case 1
    with assms(1) have "slot_min (of_class k S) (slot0 c)" by (simp add: SC_inv_def)
    from slot_min_result [OF this k] show ?thesis by fastforce
  next
    case 2
    with lower [of 0] assms(1) have "slot_min (of_class k S) (slot1 c)" "fst (slot0 c) = -1"
      by (simp_all add: SC_inv_def slot_min_none)
    with slot_min_result [OF this(1) k] show ?thesis by fastforce
  next
    case 3
    with lower [of 0] lower [of 1] assms(1)
    have "slot_min (of_class k S) (slot2 c)" "fst (slot0 c) = -1" "fst (slot1 c) = -1"
      by (simp_all add: SC_inv_def slot_min_none)
    with slot_min_result [OF this(1) k] show ?thesis by fastforce
  next
    case 4
    with lower [of 0] lower [of 1] lower [of 2] assms(1)
    have "slot_min (of_class k S) (slot3 c)" "fst (slot0 c) = -1" "fst (slot1 c) = -1"
        "fst (slot2 c) = -1"
      by (simp_all add: SC_inv_def slot_min_none)
    with slot_min_result [OF this(1) k] show ?thesis by fastforce
  qed
  then obtain te where te: "te \<in> of_class k S"
      "\<And>te'. te' \<in> of_class k S \<Longrightarrow> load_time te \<le> load_time te'"
    and "SC_pick [fst (slot0 c), fst (slot1 c), fst (slot2 c), fst (slot3 c)] = int (physicalPage te)"
    by blast
  moreover have "te \<in> S" using te(1) by (simp add: of_class_def)
  ultimately show ?thesis using SC_lowest_class_best [OF te lower] by blast
qed

interpretation SC: victim_policy SC_Choose_Victim SC_rank
proof unfold_locales
  fix pt notMe assume c: "can_choose pt notMe"
  have "SC_inv {} SC_init" by (simp add: SC_inv_def SC_init_def)
  from SC_loop_inv [OF this, of notMe pt] c
  have "SC_inv (eligible_in notMe pt) (snd (SC_loop notMe pt SC_init))" by (simp add: can_choose_alt)
  moreover have "eligible_in notMe pt \<noteq> {}" using c by (simp add: can_choose_alt)
  ultimately obtain te where te: "te \<in> eligible_in notMe pt"
      "\<forall>te' \<in> eligible_in notMe pt. SC_rank te \<le> SC_rank te'"
    and pick: "SC_Choose_Victim pt notMe = Inr (int (physicalPage te), fst (SC_loop notMe pt SC_init))"
    unfolding SC_Choose_Victim_def Let_def case_prod_beta by (metis SC_inv_pick)
  show "\<exists>te pt'. SC_Choose_Victim pt notMe = Inr (int (physicalPage te), pt') \<and> te \<in> set pt \<and>
      eligible notMe te \<and> (\<forall>te' \<in> set pt. eligible notMe te' \<longrightarrow> SC_rank te \<le> SC_rank te')"
    by (intro exI [of _ te] exI [of _ "fst (SC_loop notMe pt SC_init)"])
      (use te pick in \<open>auto simp: eligible_in_def\<close>)
next
  show "SC_Choose_Victim pt notMe = Inr (v, pt') \<Longrightarrow> same_mapping pt pt'" for pt notMe v pt'
    by (auto simp: SC_Choose_Victim_def case_prod_beta SC_loop_table same_mapping_def clearSC_def
        simp del: SC_pick.simps)
qed

section \<open>Properties\<close>

lemma NumPhysPagesOwned_filter: "NumPhysPagesOwned pt = length (filter valid pt)"
proof -
  have "foldl (\<lambda>num te. if valid te then num + 1 else num) n pt = n + length (filter valid pt)" for n
    by (induction pt arbitrary: n) auto
  then show ?thesis by (simp add: NumPhysPagesOwned_def)
qed

text \<open>
  \<open>AddrSpace::FIFO_Choose_Victim\<close> returns the frame of a resident page that was loaded no
  later than any other resident page, never the protected frame, and leaves the table as it was.
\<close>

theorem FIFO_victim_earliest:
  assumes "can_choose pt notMe"
  shows "\<exists>te \<in> set pt. FIFO_Choose_Victim pt notMe = Inr (int (physicalPage te), pt) \<and>
    eligible notMe te \<and> (\<forall>te' \<in> set pt. eligible notMe te' \<longrightarrow> load_time te \<le> load_time te')"
proof -
  from FIFO.pick_best [OF assms] obtain te pt' where
    te: "FIFO_Choose_Victim pt notMe = Inr (int (physicalPage te), pt')" "te \<in> set pt"
      "eligible notMe te" "\<forall>te' \<in> set pt. eligible notMe te' \<longrightarrow> FIFO_rank te \<le> FIFO_rank te'"
    by blast
  from te(1) have "pt' = pt" by (auto simp: FIFO_Choose_Victim_def split: option.splits)
  with te show ?thesis by (auto simp: FIFO_rank_def word_le_nat_alt)
qed

text \<open>
  \<open>AddrSpace::LRU_Choose_Victim\<close> returns the frame of a resident page whose history byte is
  smallest and, among those, whose load time is smallest; it leaves the table as it was.
\<close>

theorem LRU_victim_least:
  assumes "can_choose pt notMe"
  shows "\<exists>te \<in> set pt. LRU_Choose_Victim pt notMe = Inr (int (physicalPage te), pt) \<and>
    eligible notMe te \<and> (\<forall>te' \<in> set pt. eligible notMe te' \<longrightarrow>
      history te < history te' \<or> (history te = history te' \<and> load_time te \<le> load_time te'))"
proof -
  from LRU.pick_best [OF assms] obtain te pt' where
    te: "LRU_Choose_Victim pt notMe = Inr (int (physicalPage te), pt')" "te \<in> set pt"
      "eligible notMe te" "\<forall>te' \<in> set pt. eligible notMe te' \<longrightarrow> LRU_rank te \<le> LRU_rank te'"
    by blast
  from te(1) have "pt' = pt" by (auto simp: LRU_Choose_Victim_def split: option.splits)
  moreover have "history te < history te' \<or> (history te = history te' \<and> load_time te \<le> load_time te')"
    if "LRU_rank te \<le> LRU_rank te'" for te'
    using that LRU_rank_less [of te' "history te" "load_time te"]
    unfolding LRU_rank_def [of te, symmetric] by (auto simp: not_less)
  ultimately show ?thesis using te by blast
qed

text \<open>
  \<open>AddrSpace::SC_Choose_Victim\<close> returns the frame of a resident page of the lowest class of
  (referenced, modified), oldest within the class, and clears the reference bit of every page
  it may choose from, touching nothing else of the table.
\<close>

theorem SC_victim_best:
  assumes "can_choose pt notMe"
  shows "\<exists>te \<in> set pt.
    SC_Choose_Victim pt notMe =
      Inr (int (physicalPage te), map (\<lambda>te. if eligible notMe te then clearSC te else te) pt) \<and>
    eligible notMe te \<and> (\<forall>te' \<in> set pt. eligible notMe te' \<longrightarrow>
      SC_class te < SC_class te' \<or> (SC_class te = SC_class te' \<and> load_time te \<le> load_time te'))"
proof -
  from SC.pick_best [OF assms] obtain te pt' where
    te: "SC_Choose_Victim pt notMe = Inr (int (physicalPage te), pt')" "te \<in> set pt"
      "eligible notMe te" "\<forall>te' \<in> set pt. eligible notMe te' \<longrightarrow> SC_rank te \<le> SC_rank te'"
    by blast
  from te(1) have "pt' = map (\<lambda>te. if eligible notMe te then clearSC te else te) pt"
    by (auto simp: SC_Choose_Victim_def case_prod_beta SC_loop_table simp del: SC_pick.simps)
  moreover have "SC_class te < SC_class te' \<or> (SC_class te = SC_class te' \<and> load_time te \<le> load_time te')"
    if "SC_rank te \<le> SC_rank te'" for te'
    using that lex_pair_less [OF unat_tick unat_tick, of "SC_class te'" "load_time te'" "SC_class te" "load_time te"]
    by (auto simp: SC_rank_def not_less word_le_nat_alt)
  ultimately show ?thesis using te by blast
qed

text \<open>A table with three resident pages, used as a concrete input below.\<close>

definition sample_entry :: "nat \<Rightarrow> byte \<Rightarrow> uint32 \<Rightarrow> bool \<Rightarrow> bool \<Rightarrow> TranslationEntry" where
  "sample_entry f h t u d = (SetupTable_entry 0)
     \<lparr>physicalPage := f, history := h, load_time := t, te_use := u, dirty := d, valid := True\<rparr>"

definition sample_table :: "TranslationEntry list" where
  "sample_table = [sample_entry 3 0x80 50 True True, sample_entry 7 0x40 90 False True,
     sample_entry 9 0x40 70 True False]"

lemma sample_can_choose: "can_choose sample_table (-1)"
  by (simp add: can_choose_def sample_table_def sample_entry_def SetupTable_entry_def eligible_def to_uint_def)

lemmas sample_simps = sample_table_def sample_entry_def SetupTable_entry_def eligible_def to_uint_def

theorem FIFO_victim_earliest_witness: "FIFO_Choose_Victim sample_table (-1) = Inr (3, sample_table)"
  using FIFO_victim_earliest [OF sample_can_choose] by (auto simp: sample_simps)

theorem LRU_victim_least_witness: "LRU_Choose_Victim sample_table (-1) = Inr (9, sample_table)"
  using LRU_victim_least [OF sample_can_choose] by (auto simp: sample_simps)

theorem SC_victim_best_witness: "\<exists>pt'. SC_Choose_Victim sample_table (-1) = Inr (7, pt')"
  using SC_victim_best [OF sample_can_choose] by (auto simp: sample_simps SC_class_def)

text \<open>
  The working set size \<open>Thread::refreshWss\<close> computes is the number of pages referenced
  within the delta window, clamped to the interval from 4 to 32.
\<close>

theorem newWorkingSetSize_clamped:
  "newWorkingSetSize (refCount m pt) =
     max 4 (min 32 (int (length (filter (\<lambda>te. history te AND m \<noteq> 0) pt))))"
proof -
  have "foldl (\<lambda>k te. if history te AND m \<noteq> 0 then k + 1 else k) n pt =
      n + length (filter (\<lambda>te. history te AND m \<noteq> 0) pt)" for n
    by (induction pt arbitrary: n) auto
  then show ?thesis by (auto simp: newWorkingSetSize_def refCount_def)
qed

end
