(* ===== verification/VM_State.thy ===== *)
theory VM_State
  imports Bitmap PageTable
begin

text \<open>
  The state of demand paging and its operations, from \<open>userprog/memmgr.cc\<close>, \<open>swapmgr.cc\<close> and the
  paging part of \<open>addrspace.cc\<close>: page frames and swap frames with their owner lists, address
  spaces with their page tables, the allocation, release and sharing of frames, victim choice,
  page-in, page-out and copy-on-write duplication. Every function is a state transformer with a
  fault result; pointers to address spaces are numbers, the map \<open>spaces\<close> is the store of live
  \<open>AddrSpace\<close> objects.
\<close>

section \<open>Files\<close>

text \<open>
  \<open>filesys/openfile.h\<close> in the UNIX configuration: \<open>ReadAt\<close> is \<open>lseek\<close> and \<open>read\<close>, which delivers the
  bytes up to the end of the file and leaves the rest of the buffer; \<open>WriteAt\<close> is \<open>lseek\<close> and
  \<open>write\<close>, which extends the file and reads as zero in a gap. Buffers are functions on offsets.
\<close>

record OpenFile =
  f_len :: nat
  f_byte :: "nat \<Rightarrow> byte"

definition ReadAt :: "OpenFile \<Rightarrow> (nat \<Rightarrow> byte) \<Rightarrow> nat \<Rightarrow> nat \<Rightarrow> nat \<Rightarrow> byte" where
  "ReadAt fl into numBytes position i =
     (if i < numBytes \<and> position + i < f_len fl then f_byte fl (position + i) else into i)"

definition WriteAt :: "OpenFile \<Rightarrow> (nat \<Rightarrow> byte) \<Rightarrow> nat \<Rightarrow> nat \<Rightarrow> OpenFile" where
  "WriteAt fl from numBytes position =
     \<lparr>f_len = (if numBytes = 0 then f_len fl else max (f_len fl) (position + numBytes)),
      f_byte = (\<lambda>j. if position \<le> j \<and> j < position + numBytes then from (j - position)
                    else if j < f_len fl then f_byte fl j else 0)\<rparr>"

section \<open>State\<close>

text \<open>
  \<open>struct Frame\<close>: \<open>owners\<close> is a pointer to an array (\<open>None\<close> for \<open>NULL\<close>), whose initialised
  elements are the list; \<open>numOwners\<close> is the separate count.
\<close>

record Frame =
  owners :: "nat list option"
  numOwners :: int
  owners_page_number :: nat

record AddrSpace =
  as_owner :: nat
  wSetSize :: int
  pageTable :: "TranslationEntry list"
  numPages :: nat
  execFile :: "file_id option"
  startAddress :: uint32

datatype PageReplPolicies = DUMB | FIFO | LRU | SECONDCHANCE

record vm =
  mainMemory :: "nat \<Rightarrow> byte"
  page_flags :: BitMap
  Frames :: "nat \<Rightarrow> Frame"
  dumb_i :: nat
  frame_flags :: BitMap
  swapFrames :: "nat \<Rightarrow> Frame"
  swapFile :: file_id
  files :: "file_id \<Rightarrow> OpenFile"
  spaces :: "nat \<rightharpoonup> AddrSpace"
  currentThread :: nat
  currentSpace :: "nat option"
  pageReplPolicy :: PageReplPolicies
  totalTicks :: uint32
  numPageIns :: uint32
  numPageOuts :: uint32
  procPageIns :: "nat \<Rightarrow> uint32"
  procPageOuts :: "nat \<Rightarrow> uint32"

text \<open>
  \<open>AddrSpace::get_page_ptr\<close> yields \<open>NULL\<close> past \<open>numPages\<close>; reading or writing through the pointer
  is \<open>get_te\<close> and \<open>upd_te\<close>.
\<close>

definition get_te :: "'a vm_scheme \<Rightarrow> nat \<Rightarrow> nat \<Rightarrow> TranslationEntry res" where
  "get_te s sid v =
     deref_res (spaces s sid) (\<lambda>a.
     if v \<ge> numPages a then Inl NullPointer else index_res (pageTable a) v)"

definition upd_te ::
  "'a vm_scheme \<Rightarrow> nat \<Rightarrow> nat \<Rightarrow> (TranslationEntry \<Rightarrow> TranslationEntry) \<Rightarrow> 'a vm_scheme res" where
  "upd_te s sid v f =
     deref_res (spaces s sid) (\<lambda>a.
     if v \<ge> numPages a then Inl NullPointer
     else bind_res (index_res (pageTable a) v) (\<lambda>te.
       Inr (s\<lparr>spaces := (spaces s)(sid \<mapsto> a\<lparr>pageTable := (pageTable a)[v := f te]\<rparr>)\<rparr>)))"

text \<open>The loops \<open>for (i = 0; i < numOwners; i++)\<close> over the owners' entries for one page.\<close>

definition owner_list :: "Frame \<Rightarrow> nat list res" where
  "owner_list fr =
     (if numOwners fr \<le> 0 then Inr []
      else deref_res (owners fr) (\<lambda>os.
        if nat (numOwners fr) \<le> length os then Inr (take (nat (numOwners fr)) os)
        else Inl Uninitialised))"

definition for_owners ::
  "Frame \<Rightarrow> nat \<Rightarrow> (TranslationEntry \<Rightarrow> TranslationEntry) \<Rightarrow> 'a vm_scheme \<Rightarrow> 'a vm_scheme res" where
  "for_owners fr v f s =
     bind_res (owner_list fr) (\<lambda>os. fold_res (\<lambda>ow t. upd_te t ow v f) os s)"

section \<open>Memory manager: frames\<close>

definition empty_frame :: "nat \<Rightarrow> Frame" where
  "empty_frame junk = \<lparr>owners = None, numOwners = 0, owners_page_number = junk\<rparr>"

definition TooManyFrames :: "'a vm_scheme \<Rightarrow> bool res" where
  "TooManyFrames s =
     deref_res (currentSpace s) (\<lambda>sid.
     deref_res (spaces s sid) (\<lambda>a. Inr (TooManyFrames_pt (pageTable a) (wSetSize a))))"

definition get_next_free_page :: "'a vm_scheme \<Rightarrow> (int \<times> 'a vm_scheme) res" where
  "get_next_free_page s =
     bind_res (TooManyFrames s) (\<lambda>many.
     if many then Inr (-1, s)
     else bind_res (Find (page_flags s)) (\<lambda>(free_page, bm).
       let s' = s\<lparr>page_flags := bm\<rparr> in
       if free_page = -1 then Inr (- ENOMEM, s') else Inr (free_page, s')))"

definition frame_at :: "'a vm_scheme \<Rightarrow> nat \<Rightarrow> Frame res" where
  "frame_at s n = (if n < NumPhysPages then Inr (Frames s n) else Inl IndexOutOfBounds)"

text \<open>
  The body of the \<open>else\<close> branch of \<open>release_page\<close> and \<open>release_frame\<close>: copy the other owners into an
  array one shorter.
\<close>

definition drop_owner :: "Frame \<Rightarrow> nat \<Rightarrow> Frame res" where
  "drop_owner fr sid =
     (if numOwners fr - 1 < 0 then Inl BadAllocation
      else bind_res (owner_list fr) (\<lambda>os.
        let newOwners = filter (\<lambda>ow. ow \<noteq> sid) os in
        if int (length newOwners) > numOwners fr - 1 then Inl IndexOutOfBounds
        else Inr (fr\<lparr>owners := Some newOwners, numOwners := numOwners fr - 1\<rparr>)))"

definition release_page :: "'a vm_scheme \<Rightarrow> nat \<Rightarrow> nat \<Rightarrow> 'a vm_scheme res" where
  "release_page s page_num sid =
     bind_res (frame_at s page_num) (\<lambda>fr.
     if numOwners fr = 1 then
       bind_res (Clear (page_flags s) (int page_num)) (\<lambda>bm.
       Inr (s\<lparr>page_flags := bm,
         Frames := (Frames s)(page_num := fr\<lparr>owners := None, numOwners := 0\<rparr>)\<rparr>))
     else bind_res (drop_owner fr sid) (\<lambda>fr'.
       Inr (s\<lparr>Frames := (Frames s)(page_num := fr')\<rparr>)))"

text \<open>
  \<open>get_frame\<close> and \<open>getNumOwners\<close> let the number \<open>NumPhysPages\<close> itself through: the pointer then
  points past the array.
\<close>

definition get_frame :: "'a vm_scheme \<Rightarrow> int \<Rightarrow> nat option" where
  "get_frame s number = (if number > int NumPhysPages \<or> number < 0 then None else Some (nat number))"

definition getNumOwners :: "'a vm_scheme \<Rightarrow> int \<Rightarrow> int res" where
  "getNumOwners s number =
     (if number > int NumPhysPages \<or> number < 0 then Inr (-1)
      else bind_res (frame_at s (nat number)) (\<lambda>fr. Inr (numOwners fr)))"

text \<open>
  The common part of the two \<open>add_frame_owner\<close>: append the owner, check the page number against
  the one recorded when there were owners already.
\<close>

definition append_owner :: "Frame \<Rightarrow> nat \<Rightarrow> nat \<Rightarrow> Frame res" where
  "append_owner fr sid owner_page =
     (if numOwners fr + 1 < 0 then Inl BadAllocation
      else bind_res (owner_list fr) (\<lambda>os.
        if numOwners fr < 0 then Inl IndexOutOfBounds
        else assert_res (numOwners fr = 0 \<or> owners_page_number fr = owner_page) (\<lambda>_.
          Inr \<lparr>owners = Some (os @ [sid]), numOwners = numOwners fr + 1,
               owners_page_number = owner_page\<rparr>)))"

definition add_frame_owner ::
  "'a vm_scheme \<Rightarrow> int \<Rightarrow> nat \<Rightarrow> nat \<Rightarrow> (int \<times> 'a vm_scheme) res" where
  "add_frame_owner s frame_number sid owner_page =
     (if frame_number > int NumPhysPages \<or> frame_number < 0 then Inr (-1, s)
      else bind_res (frame_at s (nat frame_number)) (\<lambda>fr.
        bind_res (owner_list fr) (\<lambda>os.
        assert_res (sid \<notin> set os) (\<lambda>_.
        bind_res (append_owner fr sid owner_page) (\<lambda>fr'.
        Inr (0, s\<lparr>Frames := (Frames s)(nat frame_number := fr')\<rparr>))))))"

section \<open>Swap manager\<close>

definition swap_at :: "'a vm_scheme \<Rightarrow> nat \<Rightarrow> Frame res" where
  "swap_at s n = (if n < NumSwapPages then Inr (swapFrames s n) else Inl IndexOutOfBounds)"

definition get_next_free_frame :: "'a vm_scheme \<Rightarrow> (int \<times> 'a vm_scheme) res" where
  "get_next_free_frame s =
     bind_res (Find (frame_flags s)) (\<lambda>(free_frame, bm).
     let s' = s\<lparr>frame_flags := bm\<rparr> in
     if free_frame = -1 then Inr (- ENOMEM, s') else Inr (free_frame, s'))"

definition release_frame :: "'a vm_scheme \<Rightarrow> nat \<Rightarrow> nat \<Rightarrow> 'a vm_scheme res" where
  "release_frame s off sid =
     (let frame_num = off div PageSize in
      bind_res (swap_at s frame_num) (\<lambda>fr.
      if numOwners fr = 1 then
        bind_res (Clear (frame_flags s) (int frame_num)) (\<lambda>bm.
        Inr (s\<lparr>frame_flags := bm,
          swapFrames := (swapFrames s)(frame_num := fr\<lparr>owners := None, numOwners := 0\<rparr>)\<rparr>))
      else bind_res (drop_owner fr sid) (\<lambda>fr'.
        Inr (s\<lparr>swapFrames := (swapFrames s)(frame_num := fr')\<rparr>))))"

definition swap_get_frame :: "'a vm_scheme \<Rightarrow> nat \<Rightarrow> nat option" where
  "swap_get_frame s off =
     (let frame_num = off div PageSize in if frame_num > NumSwapPages then None else Some frame_num)"

definition swap_add_frame_owner ::
  "'a vm_scheme \<Rightarrow> nat \<Rightarrow> nat \<Rightarrow> nat \<Rightarrow> (int \<times> 'a vm_scheme) res" where
  "swap_add_frame_owner s off sid owner_page =
     (let frame_number = off div PageSize in
      if frame_number > NumSwapPages then Inr (-1, s)
      else bind_res (swap_at s frame_number) (\<lambda>fr.
        bind_res (append_owner fr sid owner_page) (\<lambda>fr'.
        Inr (0, s\<lparr>swapFrames := (swapFrames s)(frame_number := fr')\<rparr>))))"

section \<open>Choosing a victim\<close>

text \<open>
  \<open>Dumb_Choose_Victim\<close>: a \<open>do\<close>-\<open>while\<close> loop on a static counter that advances by 17 modulo the
  number of frames. It ends when it meets a frame with owners other than \<open>notMe\<close>. The counter
  has period \<open>NumPhysPages\<close>, so \<open>NumPhysPages\<close> rounds of fuel decide whether the loop ends.
\<close>

fun Dumb_loop :: "nat \<Rightarrow> (nat \<Rightarrow> Frame) \<Rightarrow> int \<Rightarrow> nat \<Rightarrow> nat res" where
  "Dumb_loop 0 fr notMe i = Inl Diverges"
| "Dumb_loop (Suc fuel) fr notMe i =
     (let i' = (i + 17) mod NumPhysPages in
      if int i' = notMe \<or> owners (fr i') = None then Dumb_loop fuel fr notMe i' else Inr i')"

definition Dumb_Choose_Victim :: "'a vm_scheme \<Rightarrow> int \<Rightarrow> (int \<times> 'a vm_scheme) res" where
  "Dumb_Choose_Victim s notMe =
     bind_res (Dumb_loop NumPhysPages (Frames s) notMe (dumb_i s)) (\<lambda>i.
     Inr (int i, s\<lparr>dumb_i := i\<rparr>))"

definition space_Choose_Victim ::
  "(TranslationEntry list \<Rightarrow> int \<Rightarrow> (int \<times> TranslationEntry list) res) \<Rightarrow>
   'a vm_scheme \<Rightarrow> int \<Rightarrow> (int \<times> 'a vm_scheme) res" where
  "space_Choose_Victim pol s notMe =
     deref_res (currentSpace s) (\<lambda>sid.
     deref_res (spaces s sid) (\<lambda>a.
     bind_res (pol (pageTable a) notMe) (\<lambda>(v, pt).
     Inr (v, s\<lparr>spaces := (spaces s)(sid \<mapsto> a\<lparr>pageTable := pt\<rparr>)\<rparr>))))"

definition Choose_Victim :: "'a vm_scheme \<Rightarrow> int \<Rightarrow> (int \<times> 'a vm_scheme) res" where
  "Choose_Victim s notMe =
     bind_res (if pageReplPolicy s = DUMB then Inr False else TooManyFrames s) (\<lambda>many.
     bind_res
       (if pageReplPolicy s = DUMB \<or> \<not> many then Dumb_Choose_Victim s notMe
        else if pageReplPolicy s = FIFO then space_Choose_Victim FIFO_Choose_Victim s notMe
        else if pageReplPolicy s = LRU then space_Choose_Victim LRU_Choose_Victim s notMe
        else space_Choose_Victim SC_Choose_Victim s notMe) (\<lambda>(page, s').
     assert_res (page \<noteq> -1) (\<lambda>_.
     assert_res (page < int NumPhysPages) (\<lambda>_.
     Inr (page, s')))))"

section \<open>Page-out and page-in\<close>

definition page_bytes :: "(nat \<Rightarrow> byte) \<Rightarrow> nat \<Rightarrow> nat \<Rightarrow> byte" where
  "page_bytes mem f i = mem (f * PageSize + i)"

definition put_page :: "'a vm_scheme \<Rightarrow> nat \<Rightarrow> (nat \<Rightarrow> byte) \<Rightarrow> 'a vm_scheme" where
  "put_page s f b = s\<lparr>mainMemory := (\<lambda>a.
     if f * PageSize \<le> a \<and> a < f * PageSize + PageSize then b (a - f * PageSize)
     else mainMemory s a)\<rparr>"

text \<open>The counters of page-outs: the global one and the one of each owner's thread.\<close>

definition count_pageout :: "nat \<Rightarrow> 'a vm_scheme \<Rightarrow> 'a vm_scheme res" where
  "count_pageout ow t =
     deref_res (spaces t ow) (\<lambda>a.
     Inr (t\<lparr>procPageOuts := (procPageOuts t)(as_owner a := procPageOuts t (as_owner a) + 1)\<rparr>))"

definition count_pageouts :: "nat list \<Rightarrow> 'a vm_scheme \<Rightarrow> 'a vm_scheme res" where
  "count_pageouts os s = fold_res count_pageout os (s\<lparr>numPageOuts := numPageOuts s + 1\<rparr>)"

text \<open>The branch of \<open>pageout\<close> for a dirty page: it goes to the swap file.\<close>

definition pageout_dirty :: "nat \<Rightarrow> Frame \<Rightarrow> nat \<Rightarrow> 'a vm_scheme \<Rightarrow> 'a vm_scheme res" where
  "pageout_dirty victim fr own0 s =
     bind_res (get_te s own0 (owners_page_number fr)) (\<lambda>loc.
     bind_res
       (if te_File loc \<noteq> Some (swapFile s) then
          bind_res (get_next_free_frame s) (\<lambda>(swap_num, t).
          assert_res (swap_num \<ge> 0) (\<lambda>_.
          for_owners fr (owners_page_number fr)
            (\<lambda>te. te\<lparr>te_File := Some (swapFile s), te_offset := nat swap_num * PageSize,
                     te_zero := False\<rparr>) t))
        else Inr s) (\<lambda>t.
     bind_res (get_te t own0 (owners_page_number fr)) (\<lambda>loc'.
     let u = t\<lparr>files := (files t)(swapFile t :=
               WriteAt (files t (swapFile t)) (page_bytes (mainMemory t) victim) PageSize (te_offset loc'))\<rparr> in
     bind_res (owner_list fr) (\<lambda>os. count_pageouts os u))))"

text \<open>The branch for a clean page: if it will not come back from swap, stop sharing it.\<close>

definition pageout_clean :: "Frame \<Rightarrow> nat \<Rightarrow> 'a vm_scheme \<Rightarrow> 'a vm_scheme res" where
  "pageout_clean fr own0 s =
     bind_res (get_te s own0 (owners_page_number fr)) (\<lambda>loc.
     if te_File loc \<noteq> Some (swapFile s)
     then for_owners fr (owners_page_number fr) (\<lambda>te. te\<lparr>cow := False\<rparr>) s
     else Inr s)"

text \<open>A page that now lives in the swap file records its owners in the swap frame.\<close>

definition pageout_record :: "Frame \<Rightarrow> nat \<Rightarrow> 'a vm_scheme \<Rightarrow> 'a vm_scheme res" where
  "pageout_record fr own0 s =
     bind_res (get_te s own0 (owners_page_number fr)) (\<lambda>loc.
     if te_File loc = Some (swapFile s) then
       deref_res (swap_get_frame s (te_offset loc)) (\<lambda>k.
       bind_res (swap_at s k) (\<lambda>_.
       if numOwners fr < 0 then Inl BadAllocation
       else bind_res (owner_list fr) (\<lambda>os.
         Inr (s\<lparr>swapFrames := (swapFrames s)(k :=
           \<lparr>owners = Some os, numOwners = numOwners fr,
            owners_page_number = owners_page_number fr\<rparr>)\<rparr>))))
     else Inr s)"

definition pageout :: "'a vm_scheme \<Rightarrow> nat \<Rightarrow> 'a vm_scheme res" where
  "pageout s victim =
     bind_res (frame_at s victim) (\<lambda>fr.
     assert_res (owners fr \<noteq> None) (\<lambda>_.
     deref_res (owners fr) (\<lambda>os.
     bind_res (index_res os 0) (\<lambda>own0.
     bind_res (get_te s own0 (owners_page_number fr)) (\<lambda>loc.
     bind_res (if dirty loc then pageout_dirty victim fr own0 s else pageout_clean fr own0 s) (\<lambda>s1.
     bind_res (pageout_record fr own0 s1) (\<lambda>s2.
     bind_res (for_owners fr (owners_page_number fr) (\<lambda>te. te\<lparr>valid := False\<rparr>) s2) (\<lambda>s3.
     Inr (s3\<lparr>Frames := (Frames s3)(victim := fr\<lparr>owners := None, numOwners := 0\<rparr>)\<rparr>)))))))))"

text \<open>The first part of \<open>pagein\<close>: a free frame, or the frame of a victim that is paged out.\<close>

definition take_frame :: "'a vm_scheme \<Rightarrow> int \<Rightarrow> (nat \<times> 'a vm_scheme) res" where
  "take_frame s notMe =
     bind_res (get_next_free_page s) (\<lambda>(dest, s1).
     if dest < 0 then
       bind_res (Choose_Victim s1 notMe) (\<lambda>(v, s2).
       if v < 0 then Inl IndexOutOfBounds
       else bind_res (pageout s2 (nat v)) (\<lambda>s3. Inr (nat v, s3)))
     else Inr (nat dest, s1))"

text \<open>The contents: from the file of the entry, or zeroes.\<close>

definition pagein_fill :: "nat \<Rightarrow> TranslationEntry \<Rightarrow> 'a vm_scheme \<Rightarrow> 'a vm_scheme res" where
  "pagein_fill dest loc s =
     (if \<not> te_zero loc then
        deref_res (te_File loc) (\<lambda>fl.
        Inr (put_page s dest (ReadAt (files s fl) (page_bytes (mainMemory s) dest) PageSize (te_offset loc))))
      else Inr (put_page s dest (\<lambda>_. 0)))"

text \<open>The frame record: the owners recorded in the swap frame, or this address space alone.\<close>

definition pagein_record ::
  "nat \<Rightarrow> nat \<Rightarrow> nat \<Rightarrow> TranslationEntry \<Rightarrow> 'a vm_scheme \<Rightarrow> 'a vm_scheme res" where
  "pagein_record dest page_number sid loc s =
     (if te_File loc = Some (swapFile s) then
        deref_res (swap_get_frame s (te_offset loc)) (\<lambda>k.
        bind_res (swap_at s k) (\<lambda>sf.
        if numOwners sf < 0 then Inl BadAllocation
        else bind_res (owner_list sf) (\<lambda>os.
          Inr (s\<lparr>Frames := (Frames s)(dest :=
            \<lparr>owners = Some os, numOwners = numOwners sf,
             owners_page_number = owners_page_number sf\<rparr>)\<rparr>))))
      else
        upd_te (s\<lparr>Frames := (Frames s)(dest :=
          \<lparr>owners = Some [sid], numOwners = 1, owners_page_number = page_number\<rparr>)\<rparr>)
          sid page_number (\<lambda>te. te\<lparr>cow := False\<rparr>))"

definition pagein_entry :: "nat \<Rightarrow> uint32 \<Rightarrow> TranslationEntry \<Rightarrow> TranslationEntry" where
  "pagein_entry dest now te =
     setTime (clearSC (te\<lparr>valid := True, te_use := False, dirty := False, physicalPage := dest\<rparr>)) now"

definition pagein :: "'a vm_scheme \<Rightarrow> nat \<Rightarrow> nat \<Rightarrow> 'a vm_scheme res" where
  "pagein s page_number sid =
     bind_res (take_frame s (-1)) (\<lambda>(dest, s1).
     bind_res (get_te s1 sid page_number) (\<lambda>loc.
     bind_res (pagein_fill dest loc s1) (\<lambda>s2.
     bind_res (pagein_record dest page_number sid loc s2) (\<lambda>s3.
     bind_res (for_owners (Frames s3 dest) page_number (pagein_entry dest (totalTicks s3)) s3) (\<lambda>s4.
     Inr (s4\<lparr>numPageIns := numPageIns s4 + 1,
            procPageIns := (procPageIns s4)(currentThread s4 :=
              procPageIns s4 (currentThread s4) + 1)\<rparr>))))))"

section \<open>Copy on write\<close>

text \<open>
  The repeated fragment: when a frame is left with one owner, that owner's entry no longer
  needs the copy-on-write bit.
\<close>

definition unshare_last :: "'a vm_scheme \<Rightarrow> int \<Rightarrow> 'a vm_scheme res" where
  "unshare_last s f =
     bind_res (getNumOwners s f) (\<lambda>n.
     if n = 1 then
       deref_res (get_frame s f) (\<lambda>k.
       bind_res (frame_at s k) (\<lambda>fr.
       deref_res (owners fr) (\<lambda>os.
       bind_res (index_res os 0) (\<lambda>own0.
       upd_te s own0 (owners_page_number fr) (\<lambda>te. te\<lparr>cow := False\<rparr>)))))
     else Inr s)"

definition duplicatePage :: "'a vm_scheme \<Rightarrow> nat \<Rightarrow> nat \<Rightarrow> 'a vm_scheme res" where
  "duplicatePage s sid virtPageNumber =
     bind_res (get_te s sid virtPageNumber) (\<lambda>loc0.
     bind_res (take_frame s (int (physicalPage loc0))) (\<lambda>(dest, s1).
     deref_res (currentSpace s1) (\<lambda>cur.
     bind_res (add_frame_owner s1 (int dest) cur virtPageNumber) (\<lambda>(_, s2).
     bind_res (get_te s2 sid virtPageNumber) (\<lambda>loc.
     let s3 = put_page s2 dest (page_bytes (mainMemory s2) (physicalPage loc)) in
     bind_res (release_page s3 (physicalPage loc) sid) (\<lambda>s4.
     bind_res
       (if te_File loc = Some (swapFile s4) then
          bind_res (release_frame s4 (te_offset loc) sid) (\<lambda>t.
          upd_te t sid virtPageNumber (\<lambda>te. te\<lparr>te_File := None\<rparr>))
        else Inr s4) (\<lambda>s5.
     bind_res (unshare_last s5 (int (physicalPage loc))) (\<lambda>s6.
     upd_te s6 sid virtPageNumber (\<lambda>te.
       clearRefHistory (setTime (clearSC
         (te\<lparr>cow := False, valid := True, physicalPage := dest\<rparr>)) 0))))))))))"

text \<open>One round of the loop of \<open>AddrSpace::CopyFrom\<close>, for page \<open>i\<close> of the child \<open>sid\<close>.\<close>

definition CopyFrom_page :: "nat \<Rightarrow> nat \<Rightarrow> nat \<Rightarrow> 'a vm_scheme \<Rightarrow> 'a vm_scheme res" where
  "CopyFrom_page parent sid i s =
     bind_res (get_te s sid i) (\<lambda>te.
     bind_res
       (if te_File te = Some (swapFile s) then
          bind_res (swap_add_frame_owner s (te_offset te) sid i) (\<lambda>(_, t).
          bind_res (upd_te t sid i (\<lambda>te. te\<lparr>cow := True\<rparr>)) (\<lambda>t.
          upd_te t parent i (\<lambda>te. te\<lparr>cow := True\<rparr>)))
        else Inr s) (\<lambda>s1.
     if valid te then
       bind_res (add_frame_owner s1 (int (physicalPage te)) sid i) (\<lambda>(_, t).
       bind_res (upd_te t sid i (\<lambda>te. te\<lparr>cow := True\<rparr>)) (\<lambda>t.
       upd_te t parent i (\<lambda>te. te\<lparr>cow := True\<rparr>)))
     else Inr s1))"

definition CopyFrom :: "'a vm_scheme \<Rightarrow> nat \<Rightarrow> 'a vm_scheme res" where
  "CopyFrom s sid =
     deref_res (currentSpace s) (\<lambda>parent.
     deref_res (spaces s parent) (\<lambda>p.
     deref_res (spaces s sid) (\<lambda>a.
     bind_res (CopyPageTable (pageTable p) (numPages p)) (\<lambda>pt.
     fold_res (CopyFrom_page parent sid) [0..<numPages p]
       (s\<lparr>spaces := (spaces s)(sid \<mapsto> a\<lparr>numPages := numPages p, pageTable := pt\<rparr>)\<rparr>)))))"

text \<open>
  \<open>AddrSpace::~AddrSpace\<close>. The copy-on-write fragment reads \<open>pageTable->physicalPage\<close>, the entry
  of page 0, in every round.
\<close>

definition AddrSpace_release_page :: "nat \<Rightarrow> nat \<Rightarrow> 'a vm_scheme \<Rightarrow> 'a vm_scheme res" where
  "AddrSpace_release_page sid i s =
     bind_res (get_te s sid i) (\<lambda>te.
     bind_res (if valid te then release_page s (physicalPage te) sid else Inr s) (\<lambda>s1.
     bind_res (get_te s1 sid 0) (\<lambda>te0.
     bind_res (unshare_last s1 (int (physicalPage te0))) (\<lambda>s2.
     if te_File te = Some (swapFile s2) then release_frame s2 (te_offset te) sid else Inr s2))))"

definition AddrSpace_delete :: "'a vm_scheme \<Rightarrow> nat \<Rightarrow> 'a vm_scheme res" where
  "AddrSpace_delete s sid =
     deref_res (spaces s sid) (\<lambda>a.
     bind_res (fold_res (AddrSpace_release_page sid) [0..<numPages a] s) (\<lambda>t.
     Inr (t\<lparr>spaces := (spaces t)(sid := None)\<rparr>)))"

section \<open>Working set refresh\<close>

text \<open>
  The contraction loop of \<open>Thread::refreshWss\<close>: page out victims while the space has too many
  frames. Each round takes a page of some space, so fuel bounds it.
\<close>

fun contract_loop :: "nat \<Rightarrow> 'a vm_scheme \<Rightarrow> 'a vm_scheme res" where
  "contract_loop 0 s = Inl Diverges"
| "contract_loop (Suc fuel) s =
     bind_res (TooManyFrames s) (\<lambda>many.
     if many then
       bind_res (Choose_Victim s (-1)) (\<lambda>(v, t).
       if v < 0 then Inl IndexOutOfBounds
       else bind_res (pageout t (nat v)) (contract_loop fuel))
     else Inr s)"

definition refreshWss :: "nat \<Rightarrow> bool \<Rightarrow> int \<Rightarrow> 'a vm_scheme \<Rightarrow> 'a vm_scheme res" where
  "refreshWss fuel wssContractionEnabled wsDeltaSize s =
     assert_res (currentSpace s \<noteq> None) (\<lambda>_.
     deref_res (currentSpace s) (\<lambda>sid.
     deref_res (spaces s sid) (\<lambda>a.
     bind_res (deltaMask wsDeltaSize) (\<lambda>m.
     let s1 = s\<lparr>spaces := (spaces s)(sid \<mapsto>
                a\<lparr>wSetSize := newWorkingSetSize (refCount m (pageTable a))\<rparr>)\<rparr> in
     bind_res (if wssContractionEnabled then contract_loop fuel s1 else Inr s1) (\<lambda>s2.
     deref_res (spaces s2 sid) (\<lambda>a2.
     Inr (s2\<lparr>spaces := (spaces s2)(sid \<mapsto> a2\<lparr>pageTable := ageHistory (pageTable a2)\<rparr>)\<rparr>)))))))"

end
