(* ===== verification/VM_Inv.thy ===== *)
theory VM_Inv
  imports VM_State
begin

text \<open>
  The invariant of demand paging and the virtual memory it implements. \<open>vm_inv\<close> ties the frame
  records, the swap records, the bitmaps and the page tables together; \<open>vbyte\<close> is the byte a
  process sees at an offset of one of its pages, wherever that page currently is. The lemmas of
  this theory reduce the loops over owners to one update of the page tables and describe the
  loops in terms of the entries of the tables.
\<close>

section \<open>Entries\<close>

definition ent :: "(nat \<rightharpoonup> AddrSpace) \<Rightarrow> nat \<Rightarrow> nat \<Rightarrow> TranslationEntry option" where
  "ent sp sid v = (case sp sid of None \<Rightarrow> None
     | Some a \<Rightarrow> if v < numPages a \<and> v < length (pageTable a) then Some (pageTable a ! v) else None)"

definition upd_spaces ::
  "nat set \<Rightarrow> nat \<Rightarrow> (TranslationEntry \<Rightarrow> TranslationEntry) \<Rightarrow> (nat \<rightharpoonup> AddrSpace) \<Rightarrow> (nat \<rightharpoonup> AddrSpace)" where
  "upd_spaces S v f sp = (\<lambda>sid. if sid \<in> S
     then map_option (\<lambda>a. a\<lparr>pageTable := (pageTable a)[v := f (pageTable a ! v)]\<rparr>) (sp sid)
     else sp sid)"

lemma ent_upd_spaces [simp]:
  "ent (upd_spaces S v f sp) sid w =
     (if sid \<in> S \<and> w = v then map_option f (ent sp sid w) else ent sp sid w)"
  by (auto simp: ent_def upd_spaces_def split: option.splits)

lemma upd_spaces_empty [simp]: "upd_spaces {} v f sp = sp"
  by (simp add: upd_spaces_def)

lemma upd_spaces_None [simp]: "upd_spaces S v f sp sid = None \<longleftrightarrow> sp sid = None"
  by (simp add: upd_spaces_def)

lemma upd_spaces_cong:
  assumes "\<And>sid. sid \<in> S \<Longrightarrow> \<exists>te. ent sp sid v = Some te \<and> f te = g te"
  shows "upd_spaces S v f sp = upd_spaces S v g sp"
proof
  fix sid
  show "upd_spaces S v f sp sid = upd_spaces S v g sp sid"
    using assms [of sid] by (cases "sp sid") (auto simp: upd_spaces_def ent_def split: if_splits)
qed

lemma upd_spaces_insert:
  "x \<notin> S \<Longrightarrow> upd_spaces S v f (upd_spaces {x} v f sp) = upd_spaces (insert x S) v f sp"
  by (auto simp: upd_spaces_def fun_eq_iff)

lemma upd_spaces_compose:
  "upd_spaces S v g (upd_spaces S v f sp) = upd_spaces S v (\<lambda>te. g (f te)) sp"
proof
  fix sid
  show "upd_spaces S v g (upd_spaces S v f sp) sid = upd_spaces S v (\<lambda>te. g (f te)) sp sid"
  proof (cases "sp sid")
    case (Some a)
    have "xs[v := f (xs ! v), v := g (xs[v := f (xs ! v)] ! v)] = xs[v := g (f (xs ! v))]"
      for xs :: "TranslationEntry list"
      by (cases "v < length xs") (simp_all add: list_update_beyond)
    with Some show ?thesis by (simp add: upd_spaces_def)
  qed (simp add: upd_spaces_def)
qed

lemma get_te_ent: "get_te s sid v = Inr te \<longleftrightarrow> ent (spaces s) sid v = Some te"
  by (auto simp: get_te_def ent_def deref_res_def index_res_def split: option.splits if_splits)

lemma get_te_SomeI [simp]: "ent (spaces s) sid v = Some te \<Longrightarrow> get_te s sid v = Inr te"
  by (simp add: get_te_ent)

lemma upd_te_eq:
  "ent (spaces s) sid v = Some te \<Longrightarrow> upd_te s sid v f = Inr (s\<lparr>spaces := upd_spaces {sid} v f (spaces s)\<rparr>)"
  by (auto simp: upd_te_def ent_def upd_spaces_def fun_eq_iff split: option.splits if_splits
      intro!: arg_cong [where f = "\<lambda>x. s\<lparr>spaces := x\<rparr>"])

lemma fold_upd_te:
  assumes "distinct os" and "\<And>ow. ow \<in> set os \<Longrightarrow> ent (spaces s) ow v \<noteq> None"
  shows "fold_res (\<lambda>ow t. upd_te t ow v f) os s = Inr (s\<lparr>spaces := upd_spaces (set os) v f (spaces s)\<rparr>)"
  using assms
proof (induction os arbitrary: s)
  case (Cons x os)
  then obtain te where "ent (spaces s) x v = Some te" by fastforce
  with Cons.prems Cons.IH [of "s\<lparr>spaces := upd_spaces {x} v f (spaces s)\<rparr>"] show ?case
    by (auto simp: upd_te_eq upd_spaces_insert)
qed simp

lemma owner_list_eq:
  "owners fr = Some os \<Longrightarrow> numOwners fr = int (length os) \<Longrightarrow> owner_list fr = Inr os"
  by (auto simp: owner_list_def)

lemma for_owners_eq:
  assumes "owners fr = Some os" "numOwners fr = int (length os)" "distinct os"
    and "\<And>ow. ow \<in> set os \<Longrightarrow> ent (spaces s) ow v \<noteq> None"
  shows "for_owners fr v f s = Inr (s\<lparr>spaces := upd_spaces (set os) v f (spaces s)\<rparr>)"
  using fold_upd_te [OF assms(3,4)] by (simp add: for_owners_def owner_list_eq [OF assms(1,2)])

lemma count_pageouts_eq:
  assumes "\<And>ow. ow \<in> set os \<Longrightarrow> spaces s ow \<noteq> None"
  shows "\<exists>n p. count_pageouts os s = Inr (s\<lparr>numPageOuts := n, procPageOuts := p\<rparr>)"
proof -
  have "\<exists>p. fold_res count_pageout os t = Inr (t\<lparr>procPageOuts := p\<rparr>)"
    if "spaces t = spaces s" for t :: "'a vm_scheme"
    using assms that
  proof (induction os arbitrary: t)
    case Nil
    show ?case by (rule exI [of _ "procPageOuts t"]) simp
  next
    case (Cons x os)
    then obtain a where "spaces t x = Some a" by auto
    then obtain p where p: "count_pageout x t = Inr (t\<lparr>procPageOuts := p\<rparr>)"
      by (simp add: count_pageout_def)
    from Cons.IH [of "t\<lparr>procPageOuts := p\<rparr>"] Cons.prems p show ?case by simp
  qed
  from this [of "s\<lparr>numPageOuts := numPageOuts s + 1\<rparr>"] show ?thesis
    unfolding count_pageouts_def by auto
qed

section \<open>The invariant\<close>

definition frame_owner :: "(nat \<Rightarrow> Frame) \<Rightarrow> nat \<Rightarrow> nat \<Rightarrow> nat \<Rightarrow> bool" where
  "frame_owner frs f ow v \<longleftrightarrow>
     (\<exists>os. owners (frs f) = Some os \<and> ow \<in> set os \<and> owners_page_number (frs f) = v)"

text \<open>An owner record is consistent: a null list and no owners, or a list without repetition.\<close>

definition record_ok :: "Frame \<Rightarrow> bool" where
  "record_ok fr \<longleftrightarrow> (case owners fr of None \<Rightarrow> numOwners fr = 0
     | Some os \<Rightarrow> os \<noteq> [] \<and> distinct os \<and> numOwners fr = int (length os))"

text \<open>Page \<open>v\<close> of space \<open>ow\<close> is resident in frame \<open>f\<close>; it is backed by swap frame \<open>k\<close>.\<close>

definition maps :: "'a vm_scheme \<Rightarrow> nat \<Rightarrow> nat \<Rightarrow> nat \<Rightarrow> bool" where
  "maps s ow v f \<longleftrightarrow> (\<exists>te. ent (spaces s) ow v = Some te \<and> valid te \<and> physicalPage te = f)"

definition swapped :: "'a vm_scheme \<Rightarrow> nat \<Rightarrow> nat \<Rightarrow> nat \<Rightarrow> bool" where
  "swapped s ow v k \<longleftrightarrow> (\<exists>te. ent (spaces s) ow v = Some te \<and>
     te_File te = Some (swapFile s) \<and> te_offset te = k * PageSize)"

definition place :: "TranslationEntry \<Rightarrow> nat option" where
  "place te = (if valid te then Some (physicalPage te) else None)"

definition backing_attrs :: "TranslationEntry \<Rightarrow> file_id option \<times> nat \<times> bool \<times> bool" where
  "backing_attrs te = (te_File te, te_offset te, te_zero te, dirty te)"

definition has_backing :: "TranslationEntry \<Rightarrow> bool" where
  "has_backing te \<longleftrightarrow> te_zero te \<or> te_File te \<noteq> None"

definition backing :: "(file_id \<Rightarrow> OpenFile) \<Rightarrow> TranslationEntry \<Rightarrow> nat \<Rightarrow> byte" where
  "backing fls te i =
     (if te_zero te then 0
      else case te_File te of None \<Rightarrow> 0 | Some fl \<Rightarrow> f_byte (fls fl) (te_offset te + i))"

text \<open>Allocation: both bitmaps are well formed and every owner record sits on an allocated slot.\<close>

definition alloc_inv :: "'a vm_scheme \<Rightarrow> bool" where
  "alloc_inv s \<longleftrightarrow>
     bm_wf (page_flags s) \<and> numBits (page_flags s) = NumPhysPages \<and>
     bm_wf (frame_flags s) \<and> numBits (frame_flags s) = NumSwapPages \<and>
     (\<forall>f < NumPhysPages. record_ok (Frames s f)) \<and>
     (\<forall>f < NumPhysPages. owners (Frames s f) \<noteq> None \<longrightarrow> f \<in> allocated (page_flags s)) \<and>
     (\<forall>k < NumSwapPages. record_ok (swapFrames s k)) \<and>
     (\<forall>k < NumSwapPages. owners (swapFrames s k) \<noteq> None \<longrightarrow> k \<in> allocated (frame_flags s))"

text \<open>Owner records and page tables say the same, for frames and for swap frames.\<close>

definition owner_inv :: "'a vm_scheme \<Rightarrow> bool" where
  "owner_inv s \<longleftrightarrow>
     (\<forall>sid a. spaces s sid = Some a \<longrightarrow> length (pageTable a) = numPages a) \<and>
     (\<forall>f ow v. f < NumPhysPages \<longrightarrow> (frame_owner (Frames s) f ow v \<longleftrightarrow> maps s ow v f)) \<and>
     (\<forall>ow v f. maps s ow v f \<longrightarrow> f < NumPhysPages) \<and>
     (\<forall>k ow v. k < NumSwapPages \<longrightarrow> (frame_owner (swapFrames s) k ow v \<longleftrightarrow> swapped s ow v k)) \<and>
     (\<forall>ow v te. ent (spaces s) ow v = Some te \<longrightarrow> te_File te = Some (swapFile s) \<longrightarrow>
        \<not> te_zero te \<and> (\<exists>k < NumSwapPages. te_offset te = k * PageSize))"

text \<open>Processes that share a frame or a swap frame agree on the page and may not write to it.\<close>

definition share_inv :: "'a vm_scheme \<Rightarrow> bool" where
  "share_inv s \<longleftrightarrow>
     (\<forall>o1 o2 v te1 te2. ent (spaces s) o1 v = Some te1 \<longrightarrow> ent (spaces s) o2 v = Some te2 \<longrightarrow>
        valid te1 \<longrightarrow> valid te2 \<longrightarrow> physicalPage te1 = physicalPage te2 \<longrightarrow> o1 \<noteq> o2 \<longrightarrow>
        backing_attrs te1 = backing_attrs te2 \<and> cow te1) \<and>
     (\<forall>o1 o2 v te1 te2. ent (spaces s) o1 v = Some te1 \<longrightarrow> ent (spaces s) o2 v = Some te2 \<longrightarrow>
        te_File te1 = Some (swapFile s) \<longrightarrow> te_File te2 = Some (swapFile s) \<longrightarrow>
        te_offset te1 = te_offset te2 \<longrightarrow> o1 \<noteq> o2 \<longrightarrow> place te1 = place te2 \<and> cow te1)"

text \<open>
  Contents: a page with a file lies within that file, and a clean resident page equals what it
  would be read back as. Pages in \<open>X\<close> are exempt from the second condition.
\<close>

definition content_inv :: "(nat \<times> nat) set \<Rightarrow> 'a vm_scheme \<Rightarrow> bool" where
  "content_inv X s \<longleftrightarrow>
     (\<forall>ow v te fl. ent (spaces s) ow v = Some te \<longrightarrow> te_File te = Some fl \<longrightarrow> \<not> te_zero te \<longrightarrow>
        te_offset te + PageSize \<le> f_len (files s fl)) \<and>
     (\<forall>ow v te. ent (spaces s) ow v = Some te \<longrightarrow> valid te \<longrightarrow> \<not> dirty te \<longrightarrow> (ow, v) \<notin> X \<longrightarrow>
        has_backing te \<and> (\<forall>i < PageSize. page_bytes (mainMemory s) (physicalPage te) i = backing (files s) te i))"

definition vm_inv_except :: "(nat \<times> nat) set \<Rightarrow> 'a vm_scheme \<Rightarrow> bool" where
  "vm_inv_except X s \<longleftrightarrow> alloc_inv s \<and> owner_inv s \<and> share_inv s \<and> content_inv X s"

abbreviation vm_inv :: "'a vm_scheme \<Rightarrow> bool" where
  "vm_inv \<equiv> vm_inv_except {}"

section \<open>The virtual memory a process sees\<close>

definition te_byte ::
  "(nat \<Rightarrow> byte) \<Rightarrow> (file_id \<Rightarrow> OpenFile) \<Rightarrow> TranslationEntry \<Rightarrow> nat \<Rightarrow> byte" where
  "te_byte mem fls te i = (if valid te then page_bytes mem (physicalPage te) i else backing fls te i)"

definition vbyte :: "'a vm_scheme \<Rightarrow> nat \<Rightarrow> nat \<Rightarrow> nat \<Rightarrow> byte option" where
  "vbyte s ow v i =
     map_option (\<lambda>te. te_byte (mainMemory s) (files s) te i) (ent (spaces s) ow v)"

definition same_memory :: "'a vm_scheme \<Rightarrow> 'a vm_scheme \<Rightarrow> bool" where
  "same_memory s t \<longleftrightarrow> (\<forall>ow v i. i < PageSize \<longrightarrow> vbyte t ow v i = vbyte s ow v i)"

lemma same_memory_refl [simp]: "same_memory s s"
  by (simp add: same_memory_def)

lemma same_memory_trans: "same_memory s t \<Longrightarrow> same_memory t u \<Longrightarrow> same_memory s u"
  by (simp add: same_memory_def)

text \<open>The invariant does not read the counters.\<close>

lemma vm_inv_counters [simp]:
  "vm_inv_except X (s\<lparr>numPageOuts := n, procPageOuts := p\<rparr>) = vm_inv_except X s"
  "vm_inv_except X (s\<lparr>numPageIns := n, procPageIns := p\<rparr>) = vm_inv_except X s"
  "vm_inv_except X (s\<lparr>dumb_i := i\<rparr>) = vm_inv_except X s"
  by (simp_all add: vm_inv_except_def alloc_inv_def owner_inv_def share_inv_def content_inv_def
      maps_def swapped_def)

lemma vbyte_counters [simp]:
  "vbyte (s\<lparr>numPageOuts := n, procPageOuts := p\<rparr>) = vbyte s"
  "vbyte (s\<lparr>numPageIns := n, procPageIns := p\<rparr>) = vbyte s"
  "vbyte (s\<lparr>dumb_i := i\<rparr>) = vbyte s"
  by (simp_all add: vbyte_def fun_eq_iff)

lemmas vm_inv_defs = vm_inv_except_def alloc_inv_def owner_inv_def share_inv_def content_inv_def

section \<open>Consequences of the invariant\<close>

lemma vm_inv_parts:
  assumes "vm_inv_except X s"
  shows "alloc_inv s" "owner_inv s" "share_inv s" "content_inv X s"
  using assms by (simp_all add: vm_inv_except_def)

lemma frame_owners:
  assumes "vm_inv_except X s" "f < NumPhysPages" "owners (Frames s f) = Some os"
  shows "os \<noteq> []" "distinct os" "numOwners (Frames s f) = int (length os)"
    "\<And>ow. ow \<in> set os \<longleftrightarrow> maps s ow (owners_page_number (Frames s f)) f"
    "\<And>ow v. maps s ow v f \<Longrightarrow> v = owners_page_number (Frames s f)"
proof -
  have r: "record_ok (Frames s f)" using assms by (simp add: vm_inv_except_def alloc_inv_def)
  then show "os \<noteq> []" "distinct os" "numOwners (Frames s f) = int (length os)"
    using assms(3) by (auto simp: record_ok_def)
  have o: "frame_owner (Frames s) f ow v \<longleftrightarrow> maps s ow v f" for ow v
    using assms(1,2) by (simp add: vm_inv_except_def owner_inv_def)
  show "ow \<in> set os \<longleftrightarrow> maps s ow (owners_page_number (Frames s f)) f" for ow
    using o [of ow] assms(3) by (auto simp: frame_owner_def)
  show "maps s ow v f \<Longrightarrow> v = owners_page_number (Frames s f)" for ow v
    using o [of ow v] by (auto simp: frame_owner_def)
qed

lemma maps_owned:
  assumes "vm_inv_except X s" "maps s ow v f"
  shows "f < NumPhysPages" "\<exists>os. owners (Frames s f) = Some os \<and> ow \<in> set os"
    "owners_page_number (Frames s f) = v" "f \<in> allocated (page_flags s)"
proof -
  show f: "f < NumPhysPages" using assms by (auto simp: vm_inv_except_def owner_inv_def)
  then have o: "frame_owner (Frames s) f ow v"
    using assms by (simp add: vm_inv_except_def owner_inv_def)
  then show "\<exists>os. owners (Frames s f) = Some os \<and> ow \<in> set os" "owners_page_number (Frames s f) = v"
    by (auto simp: frame_owner_def)
  with f assms(1) show "f \<in> allocated (page_flags s)"
    by (auto simp: vm_inv_except_def alloc_inv_def)
qed

lemma share_frameD:
  assumes "vm_inv_except X s" "ent (spaces s) o1 v = Some te1" "ent (spaces s) o2 v = Some te2"
    "valid te1" "valid te2" "physicalPage te1 = physicalPage te2" "o1 \<noteq> o2"
  shows "backing_attrs te1 = backing_attrs te2" "cow te1"
  using assms unfolding vm_inv_except_def share_inv_def by blast+

lemma share_swapD:
  assumes "vm_inv_except X s" "ent (spaces s) o1 v = Some te1" "ent (spaces s) o2 v = Some te2"
    "te_File te1 = Some (swapFile s)" "te_File te2 = Some (swapFile s)"
    "te_offset te1 = te_offset te2" "o1 \<noteq> o2"
  shows "place te1 = place te2" "cow te1"
  using assms unfolding vm_inv_except_def share_inv_def by blast+

lemma content_cleanD:
  assumes "vm_inv_except X s" "ent (spaces s) ow v = Some te" "valid te" "\<not> dirty te" "(ow, v) \<notin> X"
  shows "has_backing te" "i < PageSize \<Longrightarrow> page_bytes (mainMemory s) (physicalPage te) i = backing (files s) te i"
  using assms unfolding vm_inv_except_def content_inv_def by blast+

lemma content_lenD:
  assumes "vm_inv_except X s" "ent (spaces s) ow v = Some te" "te_File te = Some fl" "\<not> te_zero te"
  shows "te_offset te + PageSize \<le> f_len (files s fl)"
  using assms unfolding vm_inv_except_def content_inv_def by blast

lemma swap_entryD:
  assumes "vm_inv_except X s" "ent (spaces s) ow v = Some te" "te_File te = Some (swapFile s)"
  obtains k where "k < NumSwapPages" "te_offset te = k * PageSize" "\<not> te_zero te"
    "frame_owner (swapFrames s) k ow v"
proof -
  from assms obtain k where k: "k < NumSwapPages" "te_offset te = k * PageSize" "\<not> te_zero te"
    unfolding vm_inv_except_def owner_inv_def by blast
  moreover from this assms have "frame_owner (swapFrames s) k ow v"
    unfolding vm_inv_except_def owner_inv_def swapped_def by blast
  ultimately show ?thesis by (rule that)
qed

end
