(* ===== verification/VM_Pageout.thy ===== *)
theory VM_Pageout
  imports VM_Inv
begin

text \<open>
  \<open>MemoryManager::pageout\<close>: from a state with the invariant it ends without a fault, keeps the
  invariant, frees the frame and leaves the memory every process sees as it was. The two
  outcomes, a page that goes to (or already has) a swap frame and a clean page that is dropped,
  are treated first as updates of the state, then the code is shown to compute them.
\<close>

section \<open>The page goes to the swap file\<close>

definition to_swap :: "file_id \<Rightarrow> nat \<Rightarrow> TranslationEntry \<Rightarrow> TranslationEntry" where
  "to_swap sw k te =
     te\<lparr>te_File := Some sw, te_offset := k * PageSize, te_zero := False, valid := False\<rparr>"

definition swap_out ::
  "'a vm_scheme \<Rightarrow> nat \<Rightarrow> nat list \<Rightarrow> nat \<Rightarrow> BitMap \<Rightarrow> OpenFile \<Rightarrow> 'a vm_scheme" where
  "swap_out s f os k bm F =
     s\<lparr>frame_flags := bm,
       files := (files s)(swapFile s := F),
       swapFrames := (swapFrames s)(k := \<lparr>owners = Some os, numOwners = int (length os),
         owners_page_number = owners_page_number (Frames s f)\<rparr>),
       spaces := upd_spaces (set os) (owners_page_number (Frames s f)) (to_swap (swapFile s) k) (spaces s),
       Frames := (Frames s)(f := (Frames s f)\<lparr>owners := None, numOwners := 0\<rparr>)\<rparr>"

text \<open>
  When this is right: the owners are those of frame \<open>f\<close>; either swap frame \<open>k\<close> is theirs already
  or it was free and they had none; the new contents of the swap file hold the page in that
  frame and the old bytes elsewhere.
\<close>

definition swap_out_pre ::
  "'a vm_scheme \<Rightarrow> nat \<Rightarrow> nat list \<Rightarrow> nat \<Rightarrow> BitMap \<Rightarrow> OpenFile \<Rightarrow> bool" where
  "swap_out_pre s f os k bm F \<longleftrightarrow>
     vm_inv s \<and> f < NumPhysPages \<and> owners (Frames s f) = Some os \<and> k < NumSwapPages \<and>
     bm_wf bm \<and> numBits bm = NumSwapPages \<and> allocated bm = insert k (allocated (frame_flags s)) \<and>
     ((\<forall>ow \<in> set os. swapped s ow (owners_page_number (Frames s f)) k) \<or>
      owners (swapFrames s k) = None \<and>
      (\<forall>ow \<in> set os. \<forall>j. \<not> swapped s ow (owners_page_number (Frames s f)) j)) \<and>
     k * PageSize + PageSize \<le> f_len F \<and> f_len (files s (swapFile s)) \<le> f_len F \<and>
     (\<forall>i < PageSize. f_byte F (k * PageSize + i) = page_bytes (mainMemory s) f i) \<and>
     (\<forall>j < f_len (files s (swapFile s)). \<not> (k * PageSize \<le> j \<and> j < k * PageSize + PageSize) \<longrightarrow>
        f_byte F j = f_byte (files s (swapFile s)) j)"

text \<open>Whoever refers to swap frame \<open>k\<close> is an owner of the frame, for the same page.\<close>

lemma swap_out_only:
  assumes pre: "swap_out_pre s f os k bm F" and sw: "swapped s ow w k"
  shows "ow \<in> set os \<and> w = owners_page_number (Frames s f)"
proof -
  let ?v = "owners_page_number (Frames s f)"
  from pre have inv: "vm_inv s" and f: "f < NumPhysPages" and os: "owners (Frames s f) = Some os"
    and k: "k < NumSwapPages"
    by (auto simp: swap_out_pre_def)
  note fo = frame_owners [OF inv f os]
  have fk: "frame_owner (swapFrames s) k ow w" if "swapped s ow w k" for ow w
    using that inv k by (simp add: vm_inv_except_def owner_inv_def)
  have "owners (swapFrames s k) \<noteq> None" using fk [OF sw] by (auto simp: frame_owner_def)
  with pre have all: "\<forall>ow \<in> set os. swapped s ow ?v k" by (auto simp: swap_out_pre_def)
  obtain o1 where o1: "o1 \<in> set os" using fo(1) by (cases os) auto
  have w: "w = ?v" using fk [OF sw] fk [of o1 ?v] all o1 by (auto simp: frame_owner_def)
  moreover have "ow \<in> set os"
  proof (cases "ow = o1")
    case False
    from sw all o1 w obtain te te1 where
      te: "ent (spaces s) ow ?v = Some te" "te_File te = Some (swapFile s)" "te_offset te = k * PageSize"
      and te1: "ent (spaces s) o1 ?v = Some te1" "te_File te1 = Some (swapFile s)"
        "te_offset te1 = k * PageSize"
      by (fastforce simp: swapped_def)
    with False share_swapD(1) [OF inv] have "place te = place te1" by metis
    with te1 fo(4) [of o1] o1 have "maps s ow ?v f"
      using te by (auto simp: maps_def place_def split: if_splits)
    with fo(4) show ?thesis by blast
  qed (use o1 in simp)
  ultimately show ?thesis by simp
qed

lemma swap_out_sel [simp]:
  "mainMemory (swap_out s f os k bm F) = mainMemory s"
  "page_flags (swap_out s f os k bm F) = page_flags s"
  "Frames (swap_out s f os k bm F) =
     (Frames s)(f := (Frames s f)\<lparr>owners := None, numOwners := 0\<rparr>)"
  "swapFrames (swap_out s f os k bm F) = (swapFrames s)(k := \<lparr>owners = Some os,
     numOwners = int (length os), owners_page_number = owners_page_number (Frames s f)\<rparr>)"
  "swapFile (swap_out s f os k bm F) = swapFile s"
  "files (swap_out s f os k bm F) = (files s)(swapFile s := F)"
  by (simp_all add: swap_out_def)

lemma swap_out_ent:
  "ent (spaces (swap_out s f os k bm F)) ow w =
     (if ow \<in> set os \<and> w = owners_page_number (Frames s f)
      then map_option (to_swap (swapFile s) k) (ent (spaces s) ow w) else ent (spaces s) ow w)"
  by (simp add: swap_out_def)

lemma swap_out_owned_ent:
  assumes "swap_out_pre s f os k bm F" and "ow \<in> set os"
  shows "\<exists>te. ent (spaces s) ow (owners_page_number (Frames s f)) = Some te \<and> valid te \<and> physicalPage te = f"
  using assms frame_owners(4) [of "{}" s f os ow] by (auto simp: swap_out_pre_def maps_def)

text \<open>The backing of every page that was not an owner of the frame is unchanged.\<close>

lemma swap_out_backing:
  assumes pre: "swap_out_pre s f os k bm F" and e: "ent (spaces s) ow w = Some te"
    and no: "\<not> (ow \<in> set os \<and> w = owners_page_number (Frames s f))" and i: "i < PageSize"
  shows "backing (files (swap_out s f os k bm F)) te i = backing (files s) te i"
proof (cases "te_File te = Some (swapFile s) \<and> \<not> te_zero te")
  case True
  from pre have inv: "vm_inv s" by (simp add: swap_out_pre_def)
  with e True obtain j where j: "te_offset te = j * PageSize"
    unfolding vm_inv_except_def owner_inv_def by meson
  have "j \<noteq> k" using swap_out_only [OF pre, of ow w] no e True j by (auto simp: swapped_def)
  then have out: "\<not> (k * PageSize \<le> te_offset te + i \<and> te_offset te + i < k * PageSize + PageSize)"
    unfolding j using i by (rule slot_disjoint)
  have "te_offset te + PageSize \<le> f_len (files s (swapFile s))"
    using vm_inv_parts(4) [OF inv] e True unfolding content_inv_def by blast
  with out pre i True show ?thesis by (auto simp: backing_def swap_out_pre_def)
qed (auto simp: backing_def split: option.splits)

lemma swap_out_alloc:
  assumes "swap_out_pre s f os k bm F" shows "alloc_inv (swap_out s f os k bm F)"
proof -
  have "os \<noteq> []" "distinct os"
    using frame_owners(1,2) [of "{}" s f os] assms by (auto simp: swap_out_pre_def)
  then show ?thesis
    using assms by (auto simp: swap_out_pre_def swap_out_def vm_inv_except_def alloc_inv_def record_ok_def)
qed

lemma swap_out_maps:
  assumes pre: "swap_out_pre s f os k bm F"
  shows "maps (swap_out s f os k bm F) ow w g \<longleftrightarrow> g \<noteq> f \<and> maps s ow w g"
proof -
  from pre have "vm_inv s" "f < NumPhysPages" "owners (Frames s f) = Some os"
    by (auto simp: swap_out_pre_def)
  note fo = frame_owners [OF this]
  show ?thesis
  proof (cases "ow \<in> set os \<and> w = owners_page_number (Frames s f)")
    case True
    with swap_out_owned_ent [OF pre] show ?thesis
      by (fastforce simp: maps_def swap_out_ent to_swap_def)
  next
    case False
    with fo(4,5) have "\<not> maps s ow w f" by blast
    with False show ?thesis by (auto simp: maps_def swap_out_ent)
  qed
qed

lemma swap_out_swapped:
  assumes pre: "swap_out_pre s f os k bm F" and j: "j < NumSwapPages"
  shows "swapped (swap_out s f os k bm F) ow w j \<longleftrightarrow>
    (if j = k then ow \<in> set os \<and> w = owners_page_number (Frames s f) else swapped s ow w j)"
proof -
  show ?thesis
  proof (cases "ow \<in> set os \<and> w = owners_page_number (Frames s f)")
    case True
    from swap_out_owned_ent [OF pre] True obtain te where te: "ent (spaces s) ow w = Some te" by blast
    have "\<not> swapped s ow w j" if "j \<noteq> k"
      using pre True that te by (auto simp: swap_out_pre_def swapped_def PageSize_def SectorSize_def)
    with True te show ?thesis
      by (auto simp: swapped_def swap_out_ent to_swap_def PageSize_def SectorSize_def)
  next
    case False
    with swap_out_only [OF pre, of ow w] show ?thesis
      by (auto simp: swapped_def swap_out_ent)
  qed
qed

lemma upd_spaces_wf:
  assumes "upd_spaces S v g sp sid = Some a" and "\<And>b. sp sid = Some b \<Longrightarrow> length (pageTable b) = numPages b"
  shows "length (pageTable a) = numPages a"
  using assms by (auto simp: upd_spaces_def split: if_splits)

lemma swap_out_owner:
  assumes pre: "swap_out_pre s f os k bm F" shows "owner_inv (swap_out s f os k bm F)"
  unfolding owner_inv_def
proof (intro conjI allI impI)
  let ?t = "swap_out s f os k bm F"
  from pre have oi: "owner_inv s" by (simp add: swap_out_pre_def vm_inv_except_def)
  show "length (pageTable a) = numPages a" if "spaces ?t sid = Some a" for sid a
    using that oi unfolding swap_out_def owner_inv_def by (auto dest: upd_spaces_wf)
  show "frame_owner (Frames ?t) g ow w \<longleftrightarrow> maps ?t ow w g" if "g < NumPhysPages" for g ow w
    using that oi unfolding swap_out_maps [OF pre] owner_inv_def by (auto simp: frame_owner_def)
  show "g < NumPhysPages" if "maps ?t ow w g" for ow w g
    using that oi unfolding swap_out_maps [OF pre] owner_inv_def by blast
  show "frame_owner (swapFrames ?t) j ow w \<longleftrightarrow> swapped ?t ow w j" if "j < NumSwapPages" for j ow w
    using that oi unfolding swap_out_swapped [OF pre that] owner_inv_def
    by (auto simp: frame_owner_def)
  fix ow w te assume e: "ent (spaces ?t) ow w = Some te" "te_File te = Some (swapFile ?t)"
  have "\<not> te_zero te \<and> (\<exists>k<NumSwapPages. te_offset te = k * PageSize)"
  proof (cases "ow \<in> set os \<and> w = owners_page_number (Frames s f)")
    case True
    with e pre show ?thesis by (auto simp: swap_out_ent to_swap_def swap_out_pre_def)
  next
    case False
    with e oi show ?thesis unfolding owner_inv_def swap_out_ent by simp
  qed
  then show "\<not> te_zero te" "\<exists>k<NumSwapPages. te_offset te = k * PageSize" by blast+
qed

lemma swap_out_at_k:
  assumes "swap_out_pre s f os k bm F" "ent (spaces (swap_out s f os k bm F)) ow w = Some te"
    "te_File te = Some (swapFile s)" "te_offset te = k * PageSize"
  shows "ow \<in> set os \<and> w = owners_page_number (Frames s f)"
proof (rule ccontr)
  assume no: "\<not> ?thesis"
  with assms(2) have "ent (spaces s) ow w = Some te" by (simp only: swap_out_ent if_False)
  with assms(3,4) have "swapped s ow w k" by (simp add: swapped_def)
  with swap_out_only [OF assms(1)] no show False by blast
qed

lemma swap_out_offset:
  assumes "ent (spaces (swap_out s f os k bm F)) ow (owners_page_number (Frames s f)) = Some te"
    and "ow \<in> set os"
  shows "te_offset te = k * PageSize"
  using assms by (auto simp: swap_out_ent to_swap_def)

lemma swap_out_share:
  assumes pre: "swap_out_pre s f os k bm F" shows "share_inv (swap_out s f os k bm F)"
  unfolding share_inv_def
proof (intro conjI allI impI)
  let ?t = "swap_out s f os k bm F" and ?v = "owners_page_number (Frames s f)"
  from pre have inv: "vm_inv s" and si: "share_inv s"
    by (simp_all add: swap_out_pre_def vm_inv_except_def)
  fix o1 o2 w te1 te2
  assume e: "ent (spaces ?t) o1 w = Some te1" "ent (spaces ?t) o2 w = Some te2" and ne: "o1 \<noteq> o2"
  {
    assume "valid te1" "valid te2" "physicalPage te1 = physicalPage te2"
    moreover from this e have "ent (spaces s) o1 w = Some te1" "ent (spaces s) o2 w = Some te2"
      by (auto simp: swap_out_ent to_swap_def split: if_splits)
    ultimately have "backing_attrs te1 = backing_attrs te2 \<and> cow te1"
      using si ne unfolding share_inv_def by blast
  }
  then show "backing_attrs te1 = backing_attrs te2" "cow te1"
    if "valid te1" "valid te2" "physicalPage te1 = physicalPage te2" using that by blast+
  {
    assume f: "te_File te1 = Some (swapFile ?t)" "te_File te2 = Some (swapFile ?t)"
      "te_offset te1 = te_offset te2"
    have "place te1 = place te2 \<and> cow te1"
    proof (cases "w = ?v \<and> (o1 \<in> set os \<or> o2 \<in> set os)")
      case True
      then have "te_offset te1 = k * PageSize"
        using e f(3) swap_out_offset [of s f os k bm F o1 te1] swap_out_offset [of s f os k bm F o2 te2]
        by auto
      then have both: "o1 \<in> set os" "o2 \<in> set os"
        using swap_out_at_k [OF pre e(1)] swap_out_at_k [OF pre e(2)] f by auto
      with swap_out_owned_ent [OF pre] True obtain t1 t2 where
        "ent (spaces s) o1 w = Some t1" "valid t1" "physicalPage t1 = f"
        "ent (spaces s) o2 w = Some t2" "valid t2" "physicalPage t2 = f" by metis
      moreover from this share_frameD(2) [OF inv, of o1 w t1 o2 t2] ne have "cow t1" by simp
      ultimately show ?thesis using e True both
        by (auto simp: swap_out_ent to_swap_def place_def)
    next
      case False
      with e have "ent (spaces s) o1 w = Some te1" "ent (spaces s) o2 w = Some te2"
        by (auto simp: swap_out_ent split: if_splits)
      with f ne share_swapD [OF inv this] show ?thesis by simp
    qed
  }
  then show "place te1 = place te2" "cow te1"
    if "te_File te1 = Some (swapFile ?t)" "te_File te2 = Some (swapFile ?t)"
      "te_offset te1 = te_offset te2" using that by blast+
qed

lemma swap_out_content:
  assumes pre: "swap_out_pre s f os k bm F" shows "content_inv {} (swap_out s f os k bm F)"
  unfolding content_inv_def
proof (intro conjI allI impI)
  let ?t = "swap_out s f os k bm F" and ?v = "owners_page_number (Frames s f)"
  from pre have ci: "content_inv {} s" by (simp add: swap_out_pre_def vm_inv_except_def)
  have fl: "f_len (files s g) \<le> f_len (files ?t g)" for g
    using pre by (auto simp: swap_out_pre_def)
  fix ow w te assume e: "ent (spaces ?t) ow w = Some te"
  show "te_offset te + PageSize \<le> f_len (files ?t g)" if "te_File te = Some g" "\<not> te_zero te" for g
  proof (cases "ow \<in> set os \<and> w = ?v")
    case True
    with e that pre show ?thesis
      by (auto simp: swap_out_ent to_swap_def swap_out_pre_def)
  next
    case False
    with e have "ent (spaces s) ow w = Some te" by (auto simp: swap_out_ent)
    with that ci fl [of g] show ?thesis unfolding content_inv_def by (meson order_trans)
  qed
  assume "valid te" "\<not> dirty te"
  with e have e': "ent (spaces s) ow w = Some te" and no: "\<not> (ow \<in> set os \<and> w = ?v)"
    by (auto simp: swap_out_ent to_swap_def split: if_splits)
  with \<open>valid te\<close> \<open>\<not> dirty te\<close> ci have
    c: "has_backing te" "\<forall>i<PageSize. page_bytes (mainMemory s) (physicalPage te) i = backing (files s) te i"
    by (auto simp: content_inv_def)
  show "has_backing te" by (rule c)
  show "page_bytes (mainMemory ?t) (physicalPage te) i = backing (files ?t) te i" if "i < PageSize" for i
    using c(2) that swap_out_backing [OF pre e' no that] by simp
qed

lemma swap_out_same_memory:
  assumes pre: "swap_out_pre s f os k bm F" shows "same_memory s (swap_out s f os k bm F)"
  unfolding same_memory_def
proof (intro allI impI)
  let ?t = "swap_out s f os k bm F" and ?v = "owners_page_number (Frames s f)"
  fix ow w i assume i: "i < PageSize"
  show "vbyte ?t ow w i = vbyte s ow w i"
  proof (cases "ow \<in> set os \<and> w = ?v")
    case True
    with swap_out_owned_ent [OF pre] obtain te where
      "ent (spaces s) ow w = Some te" "valid te" "physicalPage te = f" by blast
    with True pre i show ?thesis
      by (simp add: vbyte_def swap_out_ent te_byte_def to_swap_def backing_def swap_out_pre_def)
  next
    case False
    have "ent (spaces ?t) ow w = ent (spaces s) ow w"
      using False by (simp only: swap_out_ent if_False)
    then show ?thesis using swap_out_backing [OF pre _ False i]
      by (cases "ent (spaces s) ow w") (simp_all add: vbyte_def te_byte_def)
  qed
qed

lemma swap_out_inv:
  "swap_out_pre s f os k bm F \<Longrightarrow> vm_inv (swap_out s f os k bm F)"
  unfolding vm_inv_except_def
  by (intro conjI swap_out_alloc swap_out_owner swap_out_share swap_out_content)

section \<open>A clean page is dropped\<close>

definition drop_out :: "'a vm_scheme \<Rightarrow> nat \<Rightarrow> nat list \<Rightarrow> 'a vm_scheme" where
  "drop_out s f os =
     s\<lparr>spaces := upd_spaces (set os) (owners_page_number (Frames s f))
         (\<lambda>te. te\<lparr>cow := False, valid := False\<rparr>) (spaces s),
       Frames := (Frames s)(f := (Frames s f)\<lparr>owners := None, numOwners := 0\<rparr>)\<rparr>"

definition drop_out_pre :: "'a vm_scheme \<Rightarrow> nat \<Rightarrow> nat list \<Rightarrow> bool" where
  "drop_out_pre s f os \<longleftrightarrow>
     vm_inv s \<and> f < NumPhysPages \<and> owners (Frames s f) = Some os \<and>
     (\<forall>ow \<in> set os. \<forall>te. ent (spaces s) ow (owners_page_number (Frames s f)) = Some te \<longrightarrow>
        te_File te \<noteq> Some (swapFile s) \<and> \<not> dirty te)"

lemma drop_out_sel [simp]:
  "mainMemory (drop_out s f os) = mainMemory s"
  "page_flags (drop_out s f os) = page_flags s"
  "frame_flags (drop_out s f os) = frame_flags s"
  "Frames (drop_out s f os) = (Frames s)(f := (Frames s f)\<lparr>owners := None, numOwners := 0\<rparr>)"
  "swapFrames (drop_out s f os) = swapFrames s"
  "swapFile (drop_out s f os) = swapFile s"
  "files (drop_out s f os) = files s"
  by (simp_all add: drop_out_def)

lemma drop_out_ent:
  "ent (spaces (drop_out s f os)) ow w =
     (if ow \<in> set os \<and> w = owners_page_number (Frames s f)
      then map_option (\<lambda>te. te\<lparr>cow := False, valid := False\<rparr>) (ent (spaces s) ow w)
      else ent (spaces s) ow w)"
  by (simp add: drop_out_def)

lemma drop_out_owned_ent:
  assumes "drop_out_pre s f os" and "ow \<in> set os"
  shows "\<exists>te. ent (spaces s) ow (owners_page_number (Frames s f)) = Some te \<and> valid te \<and>
    physicalPage te = f \<and> te_File te \<noteq> Some (swapFile s) \<and> \<not> dirty te"
  using assms frame_owners(4) [of "{}" s f os ow] by (auto simp: drop_out_pre_def maps_def)

text \<open>An entry of the new state is an old one, or one that became invalid.\<close>

lemma drop_out_cases:
  assumes pre: "drop_out_pre s f os" and e: "ent (spaces (drop_out s f os)) ow w = Some te"
  obtains "ent (spaces s) ow w = Some te" "\<not> maps s ow w f"
  | te0 where "ent (spaces s) ow w = Some te0" "maps s ow w f" "\<not> valid te" "\<not> dirty te0"
      "te_File te \<noteq> Some (swapFile s)" "te = te0\<lparr>cow := False, valid := False\<rparr>"
proof -
  from pre have "vm_inv s" "f < NumPhysPages" "owners (Frames s f) = Some os"
    by (auto simp: drop_out_pre_def)
  note fo = frame_owners [OF this]
  show ?thesis
  proof (cases "ow \<in> set os \<and> w = owners_page_number (Frames s f)")
    case True
    with drop_out_owned_ent [OF pre] obtain te0 where
      "ent (spaces s) ow w = Some te0" "te_File te0 \<noteq> Some (swapFile s)" "\<not> dirty te0" by blast
    with True e fo(4) that(2) show ?thesis by (auto simp: drop_out_ent)
  next
    case False
    with e have "ent (spaces s) ow w = Some te" by (simp only: drop_out_ent if_False)
    moreover have "\<not> maps s ow w f" using fo(4,5) False by blast
    ultimately show ?thesis by (rule that(1))
  qed
qed

lemma drop_out_maps:
  assumes pre: "drop_out_pre s f os"
  shows "maps (drop_out s f os) ow w g \<longleftrightarrow> g \<noteq> f \<and> maps s ow w g"
proof
  assume "maps (drop_out s f os) ow w g"
  then obtain te where "ent (spaces (drop_out s f os)) ow w = Some te" "valid te" "physicalPage te = g"
    by (auto simp: maps_def)
  then show "g \<noteq> f \<and> maps s ow w g"
    by (cases rule: drop_out_cases [OF pre, consumes 1]) (auto simp: maps_def)
next
  assume m: "g \<noteq> f \<and> maps s ow w g"
  then have "\<not> maps s ow w f" by (auto simp: maps_def)
  then have "\<not> (ow \<in> set os \<and> w = owners_page_number (Frames s f))"
    using pre frame_owners(4) [of "{}" s f os ow] by (auto simp: drop_out_pre_def)
  with m show "maps (drop_out s f os) ow w g" by (auto simp: maps_def drop_out_ent)
qed

lemma drop_out_swapped:
  assumes pre: "drop_out_pre s f os"
  shows "swapped (drop_out s f os) ow w j \<longleftrightarrow> swapped s ow w j"
proof (cases "ow \<in> set os \<and> w = owners_page_number (Frames s f)")
  case True
  with drop_out_owned_ent [OF pre] obtain te where
    "ent (spaces s) ow w = Some te" "te_File te \<noteq> Some (swapFile s)" by blast
  with True show ?thesis by (simp add: swapped_def drop_out_ent)
next
  case False
  then have "ent (spaces (drop_out s f os)) ow w = ent (spaces s) ow w"
    by (simp only: drop_out_ent if_False)
  then show ?thesis by (simp add: swapped_def)
qed

lemma drop_out_inv:
  assumes pre: "drop_out_pre s f os" shows "vm_inv (drop_out s f os)"
  unfolding vm_inv_except_def
proof (intro conjI)
  let ?t = "drop_out s f os"
  from pre have inv: "vm_inv s" by (simp add: drop_out_pre_def)
  show "alloc_inv ?t"
    using pre by (auto simp: drop_out_pre_def vm_inv_except_def alloc_inv_def record_ok_def)
  have oi: "owner_inv s" using inv by (simp add: vm_inv_except_def)
  show "owner_inv ?t"
    unfolding owner_inv_def drop_out_maps [OF pre] drop_out_swapped [OF pre]
  proof (intro conjI allI impI)
    show "length (pageTable a) = numPages a" if "spaces ?t sid = Some a" for sid a
      using that oi unfolding drop_out_def owner_inv_def by (auto dest: upd_spaces_wf)
    show "frame_owner (Frames ?t) g ow w \<longleftrightarrow> g \<noteq> f \<and> maps s ow w g" if "g < NumPhysPages" for g ow w
      using that oi unfolding owner_inv_def by (auto simp: frame_owner_def)
    show "g < NumPhysPages" if "g \<noteq> f \<and> maps s ow w g" for ow w g
      using that oi unfolding owner_inv_def by blast
    show "frame_owner (swapFrames ?t) j ow w \<longleftrightarrow> swapped s ow w j" if "j < NumSwapPages" for j ow w
      using that oi unfolding owner_inv_def by simp
    fix ow w te assume e: "ent (spaces ?t) ow w = Some te" "te_File te = Some (swapFile ?t)"
    then have "ent (spaces s) ow w = Some te"
      by (cases rule: drop_out_cases [OF pre, consumes 1]) auto
    with e oi show "\<not> te_zero te" "\<exists>k<NumSwapPages. te_offset te = k * PageSize"
      unfolding owner_inv_def by auto
  qed
  show "share_inv ?t"
    unfolding share_inv_def
  proof (intro allI conjI impI)
    fix o1 o2 w te1 te2
    assume e: "ent (spaces ?t) o1 w = Some te1" "ent (spaces ?t) o2 w = Some te2" "o1 \<noteq> o2"
    show "backing_attrs te1 = backing_attrs te2" "cow te1"
      if "valid te1" "valid te2" "physicalPage te1 = physicalPage te2"
    proof -
      from e that have "ent (spaces s) o1 w = Some te1" "ent (spaces s) o2 w = Some te2"
        by (auto simp: drop_out_ent split: if_splits)
      from share_frameD [OF inv this that e(3)]
      show "backing_attrs te1 = backing_attrs te2" "cow te1" .
    qed
    show "place te1 = place te2" "cow te1"
      if f: "te_File te1 = Some (swapFile ?t)" "te_File te2 = Some (swapFile ?t)"
        "te_offset te1 = te_offset te2"
    proof -
      have "ent (spaces s) o1 w = Some te1"
        using e(1) f by (cases rule: drop_out_cases [OF pre, consumes 1]) auto
      moreover have "ent (spaces s) o2 w = Some te2"
        using e(2) f by (cases rule: drop_out_cases [OF pre, consumes 1]) auto
      ultimately show "place te1 = place te2" "cow te1"
        using share_swapD [OF inv, of o1 w te1 o2 te2] e(3) f by simp_all
    qed
  qed
  show "content_inv {} ?t"
    unfolding content_inv_def
  proof (intro allI conjI impI)
    fix ow w te assume e: "ent (spaces ?t) ow w = Some te"
    show "te_offset te + PageSize \<le> f_len (files ?t g)" if "te_File te = Some g" "\<not> te_zero te" for g
      using e that by (cases rule: drop_out_cases [OF pre, consumes 1]) (auto dest: content_lenD [OF inv])
    assume v: "valid te" "\<not> dirty te"
    with e have e': "ent (spaces s) ow w = Some te"
      by (cases rule: drop_out_cases [OF pre, consumes 1]) auto
    show "has_backing te" using content_cleanD(1) [OF inv e' v] by simp
    show "page_bytes (mainMemory ?t) (physicalPage te) i = backing (files ?t) te i" if "i < PageSize" for i
      using content_cleanD(2) [OF inv e' v] that by simp
  qed
qed

lemma drop_out_same_memory:
  assumes pre: "drop_out_pre s f os" shows "same_memory s (drop_out s f os)"
  unfolding same_memory_def
proof (intro allI impI)
  fix ow w i assume i: "i < PageSize"
  from pre have inv: "vm_inv s" by (simp add: drop_out_pre_def)
  show "vbyte (drop_out s f os) ow w i = vbyte s ow w i"
  proof (cases "ow \<in> set os \<and> w = owners_page_number (Frames s f)")
    case True
    with drop_out_owned_ent [OF pre] obtain te where
      te: "ent (spaces s) ow w = Some te" "valid te" "physicalPage te = f" "\<not> dirty te" by blast
    with content_cleanD(2) [OF inv te(1,2,4)] i True show ?thesis
      by (simp add: vbyte_def drop_out_ent te_byte_def backing_def cong: option.case_cong)
  qed (auto simp: vbyte_def drop_out_ent)
qed

section \<open>The code computes these updates\<close>

text \<open>What eviction of frame \<open>f\<close> does and does not change.\<close>

definition evicted :: "'a vm_scheme \<Rightarrow> nat \<Rightarrow> 'a vm_scheme \<Rightarrow> bool" where
  "evicted s f t \<longleftrightarrow>
     owners (Frames t f) = None \<and> (\<forall>g. g \<noteq> f \<longrightarrow> Frames t g = Frames s g) \<and>
     page_flags t = page_flags s \<and> mainMemory t = mainMemory s \<and> swapFile t = swapFile s \<and>
     currentSpace t = currentSpace s \<and> currentThread t = currentThread s \<and>
     totalTicks t = totalTicks s \<and> pageReplPolicy t = pageReplPolicy s \<and> dumb_i t = dumb_i s \<and>
     (\<forall>ow w. \<not> maps s ow w f \<longrightarrow> ent (spaces t) ow w = ent (spaces s) ow w) \<and>
     (\<forall>ow. (spaces t ow = None) = (spaces s ow = None)) \<and> vm.more t = vm.more s"

definition swap_room :: "'a vm_scheme \<Rightarrow> bool" where
  "swap_room s \<longleftrightarrow> (\<exists>k < NumSwapPages. k \<notin> allocated (frame_flags s))"

lemma swap_out_evicted:
  assumes "swap_out_pre s f os k bm F" shows "evicted s f (swap_out s f os k bm F)"
proof -
  have "\<not> (ow \<in> set os \<and> w = owners_page_number (Frames s f))" if "\<not> maps s ow w f" for ow w
    using that swap_out_owned_ent [OF assms] by (auto simp: maps_def)
  then show ?thesis
    by (auto simp: evicted_def swap_out_ent) (auto simp: swap_out_def)
qed

lemma drop_out_evicted:
  assumes "drop_out_pre s f os" shows "evicted s f (drop_out s f os)"
proof -
  have "\<not> (ow \<in> set os \<and> w = owners_page_number (Frames s f))" if "\<not> maps s ow w f" for ow w
    using that drop_out_owned_ent [OF assms] by (auto simp: maps_def)
  then show ?thesis
    by (auto simp: evicted_def drop_out_ent) (auto simp: drop_out_def)
qed

lemma evicted_counters: "evicted s f t \<Longrightarrow> evicted s f (t\<lparr>numPageOuts := n, procPageOuts := p\<rparr>)"
  by (simp add: evicted_def)

lemma WriteAt_page:
  "k * PageSize + PageSize \<le> f_len (WriteAt fl b PageSize (k * PageSize))"
  "f_len fl \<le> f_len (WriteAt fl b PageSize (k * PageSize))"
  "i < PageSize \<Longrightarrow> f_byte (WriteAt fl b PageSize (k * PageSize)) (k * PageSize + i) = b i"
  "j < f_len fl \<Longrightarrow> \<not> (k * PageSize \<le> j \<and> j < k * PageSize + PageSize) \<Longrightarrow>
     f_byte (WriteAt fl b PageSize (k * PageSize)) j = f_byte fl j"
  by (auto simp: WriteAt_def PageSize_def SectorSize_def)

lemma swap_out_pre_write:
  assumes "vm_inv s" "f < NumPhysPages" "owners (Frames s f) = Some os" "k < NumSwapPages"
    "bm_wf bm" "numBits bm = NumSwapPages" "allocated bm = insert k (allocated (frame_flags s))"
    "(\<forall>ow \<in> set os. swapped s ow (owners_page_number (Frames s f)) k) \<or>
      owners (swapFrames s k) = None \<and>
      (\<forall>ow \<in> set os. \<forall>j. \<not> swapped s ow (owners_page_number (Frames s f)) j)"
  shows "swap_out_pre s f os k bm
    (WriteAt (files s (swapFile s)) (page_bytes (mainMemory s) f) PageSize (k * PageSize))"
  using assms WriteAt_page unfolding swap_out_pre_def by simp

text \<open>The owners of a frame share one kind of entry.\<close>

lemma owners_attrs:
  assumes inv: "vm_inv s" and f: "f < NumPhysPages" and os: "owners (Frames s f) = Some os"
    and o: "ow \<in> set os" "ow' \<in> set os"
    and e: "ent (spaces s) ow (owners_page_number (Frames s f)) = Some te"
      "ent (spaces s) ow' (owners_page_number (Frames s f)) = Some te'"
  shows "backing_attrs te = backing_attrs te'"
proof (cases "ow = ow'")
  case False
  have "maps s x (owners_page_number (Frames s f)) f" if "x \<in> set os" for x
    using frame_owners(4) [OF inv f os] that by simp
  from this [OF o(1)] this [OF o(2)] e
  have "valid te" "valid te'" "physicalPage te = f" "physicalPage te' = f"
    by (auto simp: maps_def)
  with share_frameD(1) [OF inv e] False show ?thesis by simp
qed (use e in simp)

text \<open>The setting of the three cases below: frame \<open>f\<close>, its owners, the entry of the first.\<close>

definition victim_frame :: "'a vm_scheme \<Rightarrow> nat \<Rightarrow> nat list \<Rightarrow> TranslationEntry \<Rightarrow> bool" where
  "victim_frame s f os loc \<longleftrightarrow>
     vm_inv s \<and> f < NumPhysPages \<and> owners (Frames s f) = Some os \<and>
     ent (spaces s) (os ! 0) (owners_page_number (Frames s f)) = Some loc"

lemma victim_frame_facts:
  assumes "victim_frame s f os loc"
  shows "vm_inv s" "f < NumPhysPages" "owners (Frames s f) = Some os" "os \<noteq> []" "distinct os"
    "numOwners (Frames s f) = int (length os)" "owner_list (Frames s f) = Inr os"
    "ent (spaces s) (os ! 0) (owners_page_number (Frames s f)) = Some loc"
    "\<And>ow. ow \<in> set os \<Longrightarrow> \<exists>te. ent (spaces s) ow (owners_page_number (Frames s f)) = Some te \<and>
       valid te \<and> physicalPage te = f \<and> backing_attrs te = backing_attrs loc"
proof -
  from assms show v: "vm_inv s" "f < NumPhysPages" "owners (Frames s f) = Some os"
      "ent (spaces s) (os ! 0) (owners_page_number (Frames s f)) = Some loc"
    by (auto simp: victim_frame_def)
  note fo = frame_owners [OF v(1-3)]
  show "os \<noteq> []" "distinct os" "numOwners (Frames s f) = int (length os)" by (fact fo)+
  show "owner_list (Frames s f) = Inr os" by (rule owner_list_eq [OF v(3) fo(3)])
  fix ow assume ow: "ow \<in> set os"
  with fo(4) obtain te where te: "ent (spaces s) ow (owners_page_number (Frames s f)) = Some te"
      "valid te" "physicalPage te = f" by (auto simp: maps_def)
  have "os ! 0 \<in> set os" using fo(1) by simp
  from owners_attrs [OF v(1-3) ow this te(1) v(4)] te
  show "\<exists>te. ent (spaces s) ow (owners_page_number (Frames s f)) = Some te \<and>
      valid te \<and> physicalPage te = f \<and> backing_attrs te = backing_attrs loc" by blast
qed

lemma victim_for_owners:
  assumes vf: "victim_frame s f os loc"
    and t: "\<And>ow w. ent (spaces t) ow w = None \<Longrightarrow> ent (spaces s) ow w = None"
  shows "for_owners (Frames s f) (owners_page_number (Frames s f)) h t =
    Inr (t\<lparr>spaces := upd_spaces (set os) (owners_page_number (Frames s f)) h (spaces t)\<rparr>)"
  using victim_frame_facts [OF vf] t by (intro for_owners_eq) fastforce+

lemma victim_spaces: "victim_frame s f os loc \<Longrightarrow> ow \<in> set os \<Longrightarrow> spaces s ow \<noteq> None"
  using victim_frame_facts(9) [of s f os loc ow] by (auto simp: ent_def split: option.splits)

lemma pageout_first:
  assumes vf: "victim_frame s f os loc"
  shows "pageout s f =
     bind_res (if dirty loc then pageout_dirty f (Frames s f) (os ! 0) s
               else pageout_clean (Frames s f) (os ! 0) s) (\<lambda>s1.
     bind_res (pageout_record (Frames s f) (os ! 0) s1) (\<lambda>s2.
     bind_res (for_owners (Frames s f) (owners_page_number (Frames s f)) (\<lambda>te. te\<lparr>valid := False\<rparr>) s2) (\<lambda>s3.
     Inr (s3\<lparr>Frames := (Frames s3)(f := (Frames s f)\<lparr>owners := None, numOwners := 0\<rparr>)\<rparr>))))"
  using victim_frame_facts [OF vf] by (simp add: pageout_def frame_at_def)

lemma pageout_record_swap:
  assumes vf: "victim_frame s f os loc"
    and e: "ent (spaces t) (os ! 0) (owners_page_number (Frames s f)) = Some te"
    and "te_File te = Some (swapFile t)" "te_offset te = k * PageSize" "k < NumSwapPages"
  shows "pageout_record (Frames s f) (os ! 0) t =
    Inr (t\<lparr>swapFrames := (swapFrames t)(k := \<lparr>owners = Some os, numOwners = int (length os),
       owners_page_number = owners_page_number (Frames s f)\<rparr>)\<rparr>)"
proof -
  have "te_offset te div PageSize = k" using assms(4) by (simp add: PageSize_def SectorSize_def)
  then show ?thesis using assms victim_frame_facts [OF vf]
    by (simp add: pageout_record_def swap_get_frame_def swap_at_def)
qed

lemma pageout_record_other:
  assumes "ent (spaces t) ow v = Some te" "te_File te \<noteq> Some (swapFile t)" "owners_page_number fr = v"
  shows "pageout_record fr ow t = Inr t"
  using assms by (simp add: pageout_record_def)

text \<open>A clean page that does not come from swap.\<close>

lemma pageout_drop:
  assumes vf: "victim_frame s f os loc" and "\<not> dirty loc" "te_File loc \<noteq> Some (swapFile s)"
  shows "pageout s f = Inr (drop_out s f os)" "drop_out_pre s f os"
proof -
  note F = victim_frame_facts [OF vf]
  let ?v = "owners_page_number (Frames s f)"
  let ?t = "s\<lparr>spaces := upd_spaces (set os) ?v (\<lambda>te. te\<lparr>cow := False\<rparr>) (spaces s)\<rparr>"
  show "drop_out_pre s f os"
    using F assms(2,3) by (fastforce simp: drop_out_pre_def backing_attrs_def)
  have "pageout_clean (Frames s f) (os ! 0) s = Inr ?t"
    using F(8) assms(3) victim_for_owners [OF vf, of s] by (simp add: pageout_clean_def)
  moreover have "pageout_record (Frames s f) (os ! 0) ?t = Inr ?t"
    using F(4,8) assms(3) by (intro pageout_record_other [where te = "loc\<lparr>cow := False\<rparr>", OF _ _ refl]) simp_all
  moreover have "for_owners (Frames s f) ?v (\<lambda>te. te\<lparr>valid := False\<rparr>) ?t =
      Inr (?t\<lparr>spaces := upd_spaces (set os) ?v (\<lambda>te. te\<lparr>valid := False\<rparr>) (spaces ?t)\<rparr>)"
    by (rule victim_for_owners [OF vf]) (simp split: if_splits)
  ultimately show "pageout s f = Inr (drop_out s f os)"
    using assms(2) by (simp add: pageout_first [OF vf] upd_spaces_compose drop_out_def)
qed


text \<open>A page that is in the swap file already: its swap frame, known to all owners.\<close>

lemma victim_swapped:
  assumes vf: "victim_frame s f os loc" and sw: "te_File loc = Some (swapFile s)"
  obtains k where "k < NumSwapPages" "te_offset loc = k * PageSize" "k \<in> allocated (frame_flags s)"
    "\<forall>ow \<in> set os. swapped s ow (owners_page_number (Frames s f)) k" "\<not> te_zero loc"
proof -
  note F = victim_frame_facts [OF vf]
  from swap_entryD [OF F(1,8) sw] obtain k where k: "k < NumSwapPages" "te_offset loc = k * PageSize"
    "\<not> te_zero loc" "frame_owner (swapFrames s) k (os ! 0) (owners_page_number (Frames s f))" .
  have "k \<in> allocated (frame_flags s)"
    using k(1,4) F(1) by (auto simp: frame_owner_def vm_inv_except_def alloc_inv_def)
  moreover have "\<forall>ow \<in> set os. swapped s ow (owners_page_number (Frames s f)) k"
    using F(9) sw k(2) by (fastforce simp: swapped_def backing_attrs_def)
  ultimately show ?thesis using that k by blast
qed

text \<open>
  A dirty page: \<open>t\<close> is the state after the choice of the swap frame, with the entries of all
  owners set to it.
\<close>

lemma pageout_dirty_eq:
  assumes vf: "victim_frame s f os loc" and d: "dirty loc" and k: "k < NumSwapPages"
    and alt: "te_File loc = Some (swapFile s) \<and> te_offset loc = k * PageSize \<and> bm = frame_flags s \<or>
      te_File loc \<noteq> Some (swapFile s) \<and>
      get_next_free_frame s = Inr (int k, s\<lparr>frame_flags := bm\<rparr>)"
    and sw: "te_File loc = Some (swapFile s) \<Longrightarrow>
      \<forall>ow \<in> set os. swapped s ow (owners_page_number (Frames s f)) k \<and>
        (\<exists>te. ent (spaces s) ow (owners_page_number (Frames s f)) = Some te \<and> \<not> te_zero te)"
  shows "\<exists>n p. pageout s f = Inr ((swap_out s f os k bm
     (WriteAt (files s (swapFile s)) (page_bytes (mainMemory s) f) PageSize (k * PageSize)))
       \<lparr>numPageOuts := n, procPageOuts := p\<rparr>)"
proof -
  note F = victim_frame_facts [OF vf]
  let ?v = "owners_page_number (Frames s f)"
  let ?g = "\<lambda>te. te\<lparr>te_File := Some (swapFile s), te_offset := k * PageSize, te_zero := False\<rparr>"
  let ?W = "WriteAt (files s (swapFile s)) (page_bytes (mainMemory s) f) PageSize (k * PageSize)"
  let ?t = "s\<lparr>frame_flags := bm, spaces := upd_spaces (set os) ?v ?g (spaces s)\<rparr>"
  let ?u = "?t\<lparr>files := (files s)(swapFile s := ?W)\<rparr>"
  have same: "upd_spaces (set os) ?v ?g (spaces s) = spaces s"
    if "te_File loc = Some (swapFile s)"
  proof -
    have "upd_spaces (set os) ?v ?g (spaces s) = upd_spaces (set os) ?v (\<lambda>te. te) (spaces s)"
      using sw [OF that] by (intro upd_spaces_cong) (fastforce simp: swapped_def)
    also have "\<dots> = spaces s" by (auto simp: upd_spaces_def fun_eq_iff map_option_case split: option.splits)
    finally show ?thesis .
  qed
  have first: "(if te_File loc \<noteq> Some (swapFile s) then
          bind_res (get_next_free_frame s) (\<lambda>(swap_num, t).
          assert_res (swap_num \<ge> 0) (\<lambda>_.
          for_owners (Frames s f) ?v
            (\<lambda>te. te\<lparr>te_File := Some (swapFile s), te_offset := nat swap_num * PageSize,
                     te_zero := False\<rparr>) t))
        else Inr s) = Inr ?t"
    using alt same victim_for_owners [OF vf, of "s\<lparr>frame_flags := bm\<rparr>"] by auto
  have e: "ent (spaces ?t) (os ! 0) ?v = Some (?g loc)" using F(4,8) by simp
  obtain n p where "count_pageouts os ?u = Inr (?u\<lparr>numPageOuts := n, procPageOuts := p\<rparr>)"
    using count_pageouts_eq [of os ?u] victim_spaces [OF vf] by auto
  then have "pageout_dirty f (Frames s f) (os ! 0) s = Inr (?u\<lparr>numPageOuts := n, procPageOuts := p\<rparr>)"
    unfolding pageout_dirty_def using F(7,8) first e by simp
  moreover have "pageout_record (Frames s f) (os ! 0) (?u\<lparr>numPageOuts := n, procPageOuts := p\<rparr>) =
      Inr ((?u\<lparr>numPageOuts := n, procPageOuts := p\<rparr>)\<lparr>swapFrames := (swapFrames s)(k := \<lparr>owners = Some os,
        numOwners = int (length os), owners_page_number = ?v\<rparr>)\<rparr>)"
    (is "_ = Inr ?w")
    using F(4,8) k by (subst pageout_record_swap [OF vf, where te = "?g loc" and k = k]) simp_all
  moreover have "for_owners (Frames s f) ?v (\<lambda>te. te\<lparr>valid := False\<rparr>) ?w =
      Inr (?w\<lparr>spaces := upd_spaces (set os) ?v (\<lambda>te. te\<lparr>valid := False\<rparr>) (spaces ?w)\<rparr>)"
    by (rule victim_for_owners [OF vf]) (simp split: if_splits)
  ultimately show ?thesis
    using d by (intro exI [of _ n] exI [of _ p])
      (simp add: pageout_first [OF vf] upd_spaces_compose swap_out_def to_swap_def [abs_def])
qed


text \<open>A clean page that comes from the swap file keeps its swap frame.\<close>

lemma pageout_keep:
  assumes vf: "victim_frame s f os loc" and d: "\<not> dirty loc" and sw: "te_File loc = Some (swapFile s)"
  shows "\<exists>k. pageout s f = Inr (swap_out s f os k (frame_flags s) (files s (swapFile s))) \<and>
    swap_out_pre s f os k (frame_flags s) (files s (swapFile s))"
proof -
  note F = victim_frame_facts [OF vf]
  let ?v = "owners_page_number (Frames s f)"
  from victim_swapped [OF vf sw] obtain k where k: "k < NumSwapPages" "te_offset loc = k * PageSize"
      "k \<in> allocated (frame_flags s)" "\<forall>ow \<in> set os. swapped s ow ?v k" "\<not> te_zero loc" .
  have page: "f_byte (files s (swapFile s)) (k * PageSize + i) = page_bytes (mainMemory s) f i"
    if "i < PageSize" for i
    using content_cleanD(2) [OF F(1,8) _ d, of i] F(4) F(9) [of "os ! 0"] F(8) sw k that
    by (simp add: backing_def)
  have pre: "swap_out_pre s f os k (frame_flags s) (files s (swapFile s))"
    using F(1-3) k page content_lenD [OF F(1,8) sw k(5)]
    by (auto simp: swap_out_pre_def vm_inv_except_def alloc_inv_def)
  let ?w = "s\<lparr>swapFrames := (swapFrames s)(k := \<lparr>owners = Some os,
        numOwners = int (length os), owners_page_number = ?v\<rparr>)\<rparr>"
  have "pageout_clean (Frames s f) (os ! 0) s = Inr s" using F(8) sw by (simp add: pageout_clean_def)
  moreover have "pageout_record (Frames s f) (os ! 0) s = Inr ?w"
    by (rule pageout_record_swap [OF vf F(8) sw k(2,1)])
  moreover have "for_owners (Frames s f) ?v (\<lambda>te. te\<lparr>valid := False\<rparr>) ?w =
      Inr (?w\<lparr>spaces := upd_spaces (set os) ?v (\<lambda>te. te\<lparr>valid := False\<rparr>) (spaces ?w)\<rparr>)"
    by (rule victim_for_owners [OF vf]) simp
  moreover have "upd_spaces (set os) ?v (\<lambda>te. te\<lparr>valid := False\<rparr>) (spaces s) =
      upd_spaces (set os) ?v (to_swap (swapFile s) k) (spaces s)"
    using F(9) sw k by (intro upd_spaces_cong) (fastforce simp: backing_attrs_def to_swap_def)
  ultimately have "pageout s f = Inr (swap_out s f os k (frame_flags s) (files s (swapFile s)))"
    using d by (simp add: pageout_first [OF vf] swap_out_def)
  with pre show ?thesis by blast
qed

text \<open>A dirty page, with its swap frame or with a fresh one.\<close>

lemma get_next_free_frame_fresh:
  assumes "vm_inv_except X s" "swap_room s"
  obtains k bm where "k < NumSwapPages" "get_next_free_frame s = Inr (int k, s\<lparr>frame_flags := bm\<rparr>)"
    "bm_wf bm" "numBits bm = NumSwapPages" "allocated bm = insert k (allocated (frame_flags s))"
    "owners (swapFrames s k) = None"
proof -
  from assms(1) have al: "alloc_inv s" by (rule vm_inv_parts)
  then have wf: "bm_wf (frame_flags s)" and nb: "numBits (frame_flags s) = NumSwapPages"
    by (simp_all add: alloc_inv_def)
  from wf show ?thesis
  proof (cases rule: bm.alloc_cases)
    case 1
    with assms(2) nb show ?thesis by (auto simp: swap_room_def)
  next
    case (2 i bm)
    moreover from 2 nb al have "owners (swapFrames s i) = None" by (auto simp: alloc_inv_def)
    ultimately show ?thesis
      using nb by (intro that [of i bm]) (simp_all add: get_next_free_frame_def Let_def)
  qed
qed

lemma pageout_write:
  assumes vf: "victim_frame s f os loc" and d: "dirty loc"
    and room: "te_File loc \<noteq> Some (swapFile s) \<Longrightarrow> swap_room s"
  shows "\<exists>k bm F n p. pageout s f = Inr ((swap_out s f os k bm F)\<lparr>numPageOuts := n, procPageOuts := p\<rparr>) \<and>
    swap_out_pre s f os k bm F"
proof (cases "te_File loc = Some (swapFile s)")
  case True
  note F = victim_frame_facts [OF vf]
  from victim_swapped [OF vf True] obtain k where k: "k < NumSwapPages" "te_offset loc = k * PageSize"
      "k \<in> allocated (frame_flags s)"
      "\<forall>ow \<in> set os. swapped s ow (owners_page_number (Frames s f)) k" "\<not> te_zero loc" .
  have "\<forall>ow \<in> set os. \<exists>te. ent (spaces s) ow (owners_page_number (Frames s f)) = Some te \<and> \<not> te_zero te"
    using F(9) k(5) by (fastforce simp: backing_attrs_def)
  with pageout_dirty_eq [OF vf d k(1), of "frame_flags s"] True k
  obtain n p where "pageout s f = Inr ((swap_out s f os k (frame_flags s)
     (WriteAt (files s (swapFile s)) (page_bytes (mainMemory s) f) PageSize (k * PageSize)))
       \<lparr>numPageOuts := n, procPageOuts := p\<rparr>)" by auto
  moreover have "swap_out_pre s f os k (frame_flags s)
     (WriteAt (files s (swapFile s)) (page_bytes (mainMemory s) f) PageSize (k * PageSize))"
    using F(1-3) k by (intro swap_out_pre_write) (auto simp: vm_inv_except_def alloc_inv_def)
  ultimately show ?thesis by blast
next
  case False
  note F = victim_frame_facts [OF vf]
  from get_next_free_frame_fresh [OF F(1) room [OF False]] obtain k bm where k: "k < NumSwapPages"
    "get_next_free_frame s = Inr (int k, s\<lparr>frame_flags := bm\<rparr>)"
    "bm_wf bm" "numBits bm = NumSwapPages" "allocated bm = insert k (allocated (frame_flags s))"
    "owners (swapFrames s k) = None" .
  have "\<not> swapped s ow (owners_page_number (Frames s f)) j" if "ow \<in> set os" for ow j
    using F(9) [OF that] False by (auto simp: swapped_def backing_attrs_def)
  then have "swap_out_pre s f os k bm
     (WriteAt (files s (swapFile s)) (page_bytes (mainMemory s) f) PageSize (k * PageSize))"
    using F(1-3) k by (intro swap_out_pre_write) auto
  with pageout_dirty_eq [OF vf d k(1), of bm] False k(2) show ?thesis by blast
qed

lemma pageout_ok:
  assumes inv: "vm_inv s" and f: "f < NumPhysPages" and os: "owners (Frames s f) \<noteq> None"
    and room: "swap_room s"
  shows "\<exists>t. pageout s f = Inr t \<and> vm_inv t \<and> same_memory s t \<and> evicted s f t"
proof -
  from os obtain os where os: "owners (Frames s f) = Some os" by blast
  from frame_owners [OF inv f os] have "maps s (os ! 0) (owners_page_number (Frames s f)) f" by (metis nth_mem length_greater_0_conv)
  then obtain loc where vf: "victim_frame s f os loc"
    using inv f os by (auto simp: victim_frame_def maps_def)
  consider "dirty loc" | "\<not> dirty loc" "te_File loc = Some (swapFile s)"
    | "\<not> dirty loc" "te_File loc \<noteq> Some (swapFile s)" by blast
  then show ?thesis
  proof cases
    case 1
    with pageout_write [OF vf] room obtain k bm F n p where
      "pageout s f = Inr ((swap_out s f os k bm F)\<lparr>numPageOuts := n, procPageOuts := p\<rparr>)"
      and pre: "swap_out_pre s f os k bm F" by blast
    with swap_out_inv [OF pre] swap_out_same_memory [OF pre]
      evicted_counters [OF swap_out_evicted [OF pre]] show ?thesis
      by (simp add: same_memory_def)
  next
    case 2
    with pageout_keep [OF vf] swap_out_inv swap_out_same_memory swap_out_evicted
    show ?thesis by blast
  next
    case 3
    with pageout_drop [OF vf] drop_out_inv drop_out_same_memory drop_out_evicted
    show ?thesis by blast
  qed
qed

end
