(* ===== verification/VM_Victim.thy ===== *)
theory VM_Victim
  imports VM_Pageout
begin

text \<open>
  From choosing a victim to a frame that can be filled: the invariant does not read the reference
  information, the round robin policy finds a victim whenever there is one, the policy in force
  yields a frame with owners, and \<open>take_frame\<close>, the common first part of \<open>pagein\<close> and
  \<open>duplicatePage\<close>, returns a frame without owners.
\<close>

section \<open>Reference information\<close>

definition core :: "TranslationEntry \<Rightarrow> TranslationEntry" where
  "core te = te\<lparr>te_use := False, history := 0, load_time := 0\<rparr>"

definition same_core :: "(nat \<rightharpoonup> AddrSpace) \<Rightarrow> (nat \<rightharpoonup> AddrSpace) \<Rightarrow> bool" where
  "same_core sp sp' \<longleftrightarrow> (\<forall>sid. map_option (\<lambda>a. (map core (pageTable a), numPages a)) (sp sid) =
     map_option (\<lambda>a. (map core (pageTable a), numPages a)) (sp' sid))"

lemma same_core_refl [simp]: "same_core sp sp"
  and same_core_sym: "same_core sp sp' \<Longrightarrow> same_core sp' sp"
  and same_core_trans: "same_core sp sp' \<Longrightarrow> same_core sp' sp'' \<Longrightarrow> same_core sp sp''"
  by (simp_all add: same_core_def)

lemma core_fields:
  assumes "core te = core te'"
  shows "valid te = valid te'" "physicalPage te = physicalPage te'" "te_File te = te_File te'"
    "te_offset te = te_offset te'" "te_zero te = te_zero te'" "dirty te = dirty te'" "cow te = cow te'"
  using assms unfolding core_def by (cases te; cases te'; simp)+

lemma same_core_ent:
  assumes "same_core sp sp'" "ent sp' ow v = Some te'"
  obtains te where "ent sp ow v = Some te" "core te = core te'"
proof -
  from assms(2) obtain a' where a': "sp' ow = Some a'" "v < numPages a'" "v < length (pageTable a')"
      "te' = pageTable a' ! v"
    by (auto simp: ent_def split: option.splits if_splits)
  with assms(1) obtain a where a: "sp ow = Some a" "map core (pageTable a) = map core (pageTable a')"
      "numPages a = numPages a'"
    using spec [OF assms(1) [unfolded same_core_def], of ow] by auto
  then have l: "length (pageTable a) = length (pageTable a')" by (metis length_map)
  with a a' have "core (pageTable a ! v) = core te'" by (metis nth_map)
  with a a' l that show ?thesis by (auto simp: ent_def)
qed

lemma same_core_upd:
  assumes "sp sid = Some a" "map core pt = map core (pageTable a)"
  shows "same_core sp (sp(sid \<mapsto> a\<lparr>pageTable := pt\<rparr>))"
  using assms by (simp add: same_core_def)

lemma backing_core: "core te = core te' \<Longrightarrow> backing fls te i = backing fls te' i"
  using core_fields [of te te'] by (simp add: backing_def cong: option.case_cong)

lemma maps_same_core: "same_core (spaces s) (spaces t) \<Longrightarrow> maps t ow v f \<Longrightarrow> maps s ow v f"
  unfolding maps_def by (metis same_core_ent core_fields(1,2))

lemma swapped_same_core:
  "same_core (spaces s) (spaces t) \<Longrightarrow> swapFile s = swapFile t \<Longrightarrow> swapped t ow v k \<Longrightarrow> swapped s ow v k"
  unfolding swapped_def by (metis same_core_ent core_fields(3,4))

lemma vm_inv_same_core:
  assumes inv: "vm_inv_except X s" and sc: "same_core (spaces s) sp'"
  shows "vm_inv_except X (s\<lparr>spaces := sp'\<rparr>)"
  unfolding vm_inv_except_def
proof (intro conjI)
  let ?t = "s\<lparr>spaces := sp'\<rparr>"
  note E = same_core_ent [OF sc]
  have maps: "maps ?t = maps s"
    using maps_same_core [of s ?t] maps_same_core [of ?t s] sc same_core_sym [OF sc] by (auto simp: fun_eq_iff)
  have swapped: "swapped ?t = swapped s"
    using swapped_same_core [of s ?t] swapped_same_core [of ?t s] sc same_core_sym [OF sc]
    by (auto simp: fun_eq_iff)
  show "alloc_inv ?t" using inv by (simp add: vm_inv_except_def alloc_inv_def)
  have oi: "owner_inv s" using inv by (simp add: vm_inv_except_def)
  show "owner_inv ?t"
    unfolding owner_inv_def maps swapped
  proof (intro conjI allI impI)
    show "length (pageTable a) = numPages a" if "spaces ?t sid = Some a" for sid a
    proof -
      from that sc obtain b where "spaces s sid = Some b" "numPages b = numPages a"
          "map core (pageTable b) = map core (pageTable a)"
        using spec [OF sc [unfolded same_core_def], of sid] by auto
      moreover from this oi have "length (pageTable b) = numPages b" by (simp add: owner_inv_def)
      ultimately show ?thesis by (metis length_map)
    qed
    fix ow v te assume e: "ent (spaces ?t) ow v = Some te" "te_File te = Some (swapFile ?t)"
    from e obtain te0 where t: "ent (spaces s) ow v = Some te0" and c: "core te0 = core te" by (auto elim: E)
    with e core_fields(3) [OF c] have "te_File te0 = Some (swapFile s)" by simp
    from swap_entryD [OF inv t this] core_fields(4,5) [OF c]
    show "\<not> te_zero te" "\<exists>k<NumSwapPages. te_offset te = k * PageSize" by auto
  qed (use oi in \<open>auto simp: owner_inv_def\<close>)
  show "share_inv ?t"
    unfolding share_inv_def
  proof (intro allI conjI impI)
    fix o1 o2 w te1 te2
    assume e: "ent (spaces ?t) o1 w = Some te1" "ent (spaces ?t) o2 w = Some te2" and ne: "o1 \<noteq> o2"
    from e obtain t1 t2 where t: "ent (spaces s) o1 w = Some t1" "ent (spaces s) o2 w = Some t2"
      and c: "core t1 = core te1" "core t2 = core te2" by (auto elim!: E)
    note cf = core_fields [OF c(1)] core_fields [OF c(2)]
    show "backing_attrs te1 = backing_attrs te2" "cow te1"
      if "valid te1" "valid te2" "physicalPage te1 = physicalPage te2"
      using share_frameD [OF inv t] that ne cf by (simp_all add: backing_attrs_def)
    show "place te1 = place te2" "cow te1"
      if "te_File te1 = Some (swapFile ?t)" "te_File te2 = Some (swapFile ?t)" "te_offset te1 = te_offset te2"
      using share_swapD [OF inv t] that ne cf by (simp_all add: place_def split: if_splits)
  qed
  show "content_inv X ?t"
    unfolding content_inv_def
  proof (intro allI conjI impI)
    fix ow w te assume e: "ent (spaces ?t) ow w = Some te"
    then obtain t0 where t: "ent (spaces s) ow w = Some t0" and c: "core t0 = core te"
      by (auto elim!: E)
    note cf = core_fields [OF c]
    show "te_offset te + PageSize \<le> f_len (files ?t g)" if "te_File te = Some g" "\<not> te_zero te" for g
      using content_lenD [OF inv t] that cf by simp
    assume v: "valid te" "\<not> dirty te" "(ow, w) \<notin> X"
    show "has_backing te" using content_cleanD(1) [OF inv t] v cf by (simp add: has_backing_def)
    show "page_bytes (mainMemory ?t) (physicalPage te) i = backing (files ?t) te i" if "i < PageSize" for i
      using content_cleanD(2) [OF inv t] v that cf backing_core [OF c] by simp
  qed
qed

lemma vbyte_same_core:
  assumes "same_core (spaces s) sp'"
  shows "vbyte (s\<lparr>spaces := sp'\<rparr>) ow v i = vbyte s ow v i"
proof (cases "ent sp' ow v")
  case None
  then have "ent (spaces s) ow v = None"
    using same_core_ent [OF same_core_sym [OF assms]] by (metis not_None_eq)
  with None show ?thesis by (simp add: vbyte_def)
next
  case (Some te')
  from same_core_ent [OF assms Some] obtain te where "ent (spaces s) ow v = Some te" "core te = core te'" .
  with Some core_fields [OF this(2)] backing_core [OF this(2)] show ?thesis
    by (simp add: vbyte_def te_byte_def)
qed

section \<open>Round robin\<close>

definition evictable :: "(nat \<Rightarrow> Frame) \<Rightarrow> int \<Rightarrow> nat \<Rightarrow> bool" where
  "evictable fr notMe f \<longleftrightarrow> f < NumPhysPages \<and> int f \<noteq> notMe \<and> owners (fr f) \<noteq> None"

lemma Dumb_loop_sound: "Dumb_loop n fr notMe i = Inr j \<Longrightarrow> evictable fr notMe j"
  by (induction n fr notMe i rule: Dumb_loop.induct)
    (auto simp: evictable_def NumPhysPages_def Let_def split: if_splits)

lemma Dumb_loop_complete:
  "0 < k \<Longrightarrow> k \<le> n \<Longrightarrow> evictable fr notMe ((i + 17 * k) mod NumPhysPages) \<Longrightarrow>
     \<exists>j. Dumb_loop n fr notMe i = Inr j"
proof (induction n fr notMe i arbitrary: k rule: Dumb_loop.induct)
  case (2 n fr notMe i)
  let ?i = "(i + 17) mod NumPhysPages"
  show ?case
  proof (cases "int ?i = notMe \<or> owners (fr ?i) = None")
    case True
    with "2.prems" have "k \<noteq> 1" by (auto simp: evictable_def)
    with "2.prems" have k: "0 < k - 1" "k - 1 \<le> n" by simp_all
    have "i + 17 * k = i + 17 + 17 * (k - 1)" using \<open>0 < k\<close> by (cases k) simp_all
    then have "(?i + 17 * (k - 1)) mod NumPhysPages = (i + 17 * k) mod NumPhysPages"
      by (simp add: mod_add_left_eq add.assoc)
    with "2.IH" [OF refl True k] "2.prems"(3) True show ?thesis by (simp add: Let_def)
  qed (auto simp: Let_def)
qed simp

text \<open>17 is a unit modulo 128 (with inverse 113): \<open>NumPhysPages\<close> rounds meet every frame.\<close>

lemma Dumb_loop_visits:
  assumes "f < NumPhysPages"
  shows "\<exists>k. 0 < k \<and> k \<le> NumPhysPages \<and> (i + 17 * k) mod NumPhysPages = f"
proof -
  define d where "d = (f + 127 * i) mod 128"
  define k where "k = (if 113 * d mod 128 = 0 then 128 else 113 * d mod 128)"
  have "(17 * k) mod 128 = d mod 128"
  proof -
    have "17 * (113 * d) = d + 128 * (15 * d)" by simp
    then have "17 * (113 * d) mod 128 = d mod 128" by (metis mod_mult_self2)
    moreover have "17 * k mod 128 = 17 * (113 * d) mod 128"
      unfolding k_def using mod_mult_right_eq [of 17 "113 * d" 128]
      by (cases "113 * d mod 128 = 0") (simp_all del: mult_numeral_left_semiring_numeral)
    ultimately show ?thesis by simp
  qed
  then have "(i + 17 * k) mod 128 = (i + d) mod 128" by (metis mod_add_right_eq)
  also have "\<dots> = (f + 128 * i) mod 128" unfolding d_def by (simp add: mod_add_right_eq add.commute)
  also have "\<dots> = f" using assms by (simp add: NumPhysPages_def)
  finally have "(i + 17 * k) mod NumPhysPages = f" by (simp add: NumPhysPages_def)
  moreover have "0 < k \<and> k \<le> NumPhysPages" by (auto simp: k_def NumPhysPages_def)
  ultimately show ?thesis by blast
qed

lemma Dumb_loop_finds:
  assumes "evictable fr notMe f"
  shows "\<exists>j. Dumb_loop NumPhysPages fr notMe i = Inr j \<and> evictable fr notMe j"
proof -
  from assms obtain k where "0 < k" "k \<le> NumPhysPages" "(i + 17 * k) mod NumPhysPages = f"
    using Dumb_loop_visits [of f i] by (auto simp: evictable_def)
  with Dumb_loop_complete assms show ?thesis by (metis Dumb_loop_sound)
qed

text \<open>Without an evictable frame no amount of fuel ends the loop.\<close>

lemma Dumb_loop_diverges: "\<nexists>f. evictable fr notMe f \<Longrightarrow> Dumb_loop n fr notMe i = Inl Diverges"
  by (induction n fr notMe i rule: Dumb_loop.induct)
    (auto simp: evictable_def Let_def NumPhysPages_def)

section \<open>A victim and its frame\<close>

text \<open>The policy in force can choose: the space has eligible pages, or some frame has owners.\<close>

definition victim_ready :: "'a vm_scheme \<Rightarrow> int \<Rightarrow> bool" where
  "victim_ready s notMe \<longleftrightarrow> (\<exists>c a. currentSpace s = Some c \<and> spaces s c = Some a \<and>
     (if pageReplPolicy s = DUMB \<or> \<not> TooManyFrames_pt (pageTable a) (wSetSize a)
      then \<exists>f < NumPhysPages. evictable (Frames s) notMe f
      else can_choose (pageTable a) notMe))"


text \<open>What the choice of a victim may change: reference information and the static counter.\<close>

definition chosen :: "'a vm_scheme \<Rightarrow> 'a vm_scheme \<Rightarrow> bool" where
  "chosen s t \<longleftrightarrow> (\<exists>sp i. t = s\<lparr>spaces := sp, dumb_i := i\<rparr> \<and> same_core (spaces s) sp)"

lemma chosen_refl [simp]: "chosen s s"
  unfolding chosen_def by (intro exI [of _ "spaces s"] exI [of _ "dumb_i s"]) simp

lemma chosen_same:
  assumes "chosen s t"
  shows "same_memory s t" "vm_inv_except X s \<Longrightarrow> vm_inv_except X t" "Frames t = Frames s"
    "page_flags t = page_flags s" "frame_flags t = frame_flags s" "maps t = maps s"
    "swap_room t = swap_room s" "same_core (spaces s) (spaces t)" "swapFile t = swapFile s"
    "currentSpace t = currentSpace s" "currentThread t = currentThread s"
    "mainMemory t = mainMemory s" "files t = files s" "totalTicks t = totalTicks s" "vm.more t = vm.more s"
proof -
  from assms obtain sp i where t: "t = s\<lparr>spaces := sp, dumb_i := i\<rparr>" and sc: "same_core (spaces s) sp"
    by (auto simp: chosen_def)
  show "same_memory s t"
    unfolding same_memory_def t by (simp add: vbyte_same_core [OF sc])
  show "vm_inv_except X t" if "vm_inv_except X s"
    unfolding t using vm_inv_same_core [OF that sc] by simp
  show "maps t = maps s"
    using maps_same_core [of s t] maps_same_core [of t s] sc same_core_sym [OF sc]
    by (auto simp: fun_eq_iff t)
qed (use assms in \<open>auto simp: chosen_def swap_room_def\<close>)

lemma same_mapping_core:
  assumes "same_mapping pt pt'" shows "map core pt' = map core pt"
proof -
  have "map core pt = map core (map (\<lambda>te. te\<lparr>te_use := False\<rparr>) pt)" for pt by (simp add: core_def)
  with assms show ?thesis unfolding same_mapping_def by metis
qed

lemma space_choice:
  assumes inv: "vm_inv_except X s" and c: "currentSpace s = Some c" "spaces s c = Some a"
    and pol: "victim_policy pol rank" and can: "can_choose (pageTable a) notMe"
    and me: "-1 \<le> notMe" "notMe < int NumPhysPages"
  shows "\<exists>v t. space_Choose_Victim pol s notMe = Inr (int v, t) \<and> evictable (Frames s) notMe v \<and> chosen s t"
proof -
  from victim_policy.pick_mapped [OF pol can] obtain v pt' te where
    v: "pol (pageTable a) notMe = Inr (int v, pt')" "same_mapping (pageTable a) pt'"
      "v \<noteq> to_uint notMe" "te \<in> set (pageTable a)" "valid te" "physicalPage te = v" by blast
  from v(4) obtain w where "w < length (pageTable a)" "pageTable a ! w = te" by (auto simp: in_set_conv_nth)
  moreover have "length (pageTable a) = numPages a"
    using inv c by (simp add: vm_inv_except_def owner_inv_def)
  ultimately have "maps s c w v" using v c by (auto simp: maps_def ent_def)
  then have "v < NumPhysPages" "owners (Frames s v) \<noteq> None" using maps_owned(1,2) [OF inv, of c w v] by auto
  moreover have "int v \<noteq> notMe" using v(3) me by (auto simp: to_uint_def NumPhysPages_def)
  ultimately have "evictable (Frames s) notMe v" by (simp add: evictable_def)
  moreover have "chosen s (s\<lparr>spaces := (spaces s)(c \<mapsto> a\<lparr>pageTable := pt'\<rparr>)\<rparr>)"
    unfolding chosen_def using same_core_upd [where sp = "spaces s", OF c(2)] same_mapping_core [OF v(2)]
    by (intro exI [of _ "(spaces s)(c \<mapsto> a\<lparr>pageTable := pt'\<rparr>)"] exI [of _ "dumb_i s"]) simp
  ultimately show ?thesis using v(1) c by (simp add: space_Choose_Victim_def)
qed

lemma Choose_Victim_ok:
  assumes inv: "vm_inv_except X s" and ready: "victim_ready s notMe"
    and me: "-1 \<le> notMe" "notMe < int NumPhysPages"
  shows "\<exists>v t. Choose_Victim s notMe = Inr (int v, t) \<and> evictable (Frames s) notMe v \<and> chosen s t"
proof -
  from ready obtain c a where c: "currentSpace s = Some c" "spaces s c = Some a" by (auto simp: victim_ready_def)
  then have many: "TooManyFrames s = Inr (TooManyFrames_pt (pageTable a) (wSetSize a))"
    by (simp add: TooManyFrames_def)
  show ?thesis
  proof (cases "pageReplPolicy s = DUMB \<or> \<not> TooManyFrames_pt (pageTable a) (wSetSize a)")
    case True
    with ready c have "\<exists>f. evictable (Frames s) notMe f" by (auto simp: victim_ready_def)
    with Dumb_loop_finds [of "Frames s" notMe _ "dumb_i s"] obtain v where
      v: "Dumb_loop NumPhysPages (Frames s) notMe (dumb_i s) = Inr v" "evictable (Frames s) notMe v" by blast
    then have "Choose_Victim s notMe = Inr (int v, s\<lparr>dumb_i := v\<rparr>)"
      using True many by (auto simp: Choose_Victim_def Dumb_Choose_Victim_def evictable_def)
    moreover have "chosen s (s\<lparr>dumb_i := v\<rparr>)"
      unfolding chosen_def by (intro exI [of _ "spaces s"] exI [of _ v]) simp
    ultimately show ?thesis using v by blast
  next
    case False
    with ready c have can: "can_choose (pageTable a) notMe" by (auto simp: victim_ready_def)
    note ch = space_choice [OF inv c _ can me]
    from ch [OF FIFO.victim_policy_axioms] ch [OF LRU.victim_policy_axioms] ch [OF SC.victim_policy_axioms]
    show ?thesis
      using False many by (cases "pageReplPolicy s") (auto simp: Choose_Victim_def evictable_def)
  qed
qed


section \<open>A frame to fill\<close>

text \<open>
  There is a frame to take: the space may grow and some frame is free, or the policy in force
  can choose a victim.
\<close>

definition frame_ready :: "'a vm_scheme \<Rightarrow> int \<Rightarrow> bool" where
  "frame_ready s notMe \<longleftrightarrow> victim_ready s notMe \<or>
     (\<exists>c a. currentSpace s = Some c \<and> spaces s c = Some a \<and>
        \<not> TooManyFrames_pt (pageTable a) (wSetSize a) \<and>
        (\<exists>f < NumPhysPages. f \<notin> allocated (page_flags s)))"

definition taken :: "'a vm_scheme \<Rightarrow> nat \<Rightarrow> 'a vm_scheme \<Rightarrow> bool" where
  "taken s d t \<longleftrightarrow>
     d < NumPhysPages \<and> owners (Frames t d) = None \<and> numOwners (Frames t d) = 0 \<and>
     d \<in> allocated (page_flags t) \<and>
     (\<forall>g. g \<noteq> d \<longrightarrow> Frames t g = Frames s g) \<and> mainMemory t = mainMemory s \<and>
     swapFile t = swapFile s \<and> currentSpace t = currentSpace s \<and> currentThread t = currentThread s \<and>
     totalTicks t = totalTicks s \<and> vm.more t = vm.more s \<and>
     (\<forall>ow v te. ent (spaces s) ow v = Some te \<longrightarrow> \<not> maps s ow v d \<longrightarrow>
        (\<exists>te'. ent (spaces t) ow v = Some te' \<and> core te' = core te))"

lemma vm_inv_page_flags:
  assumes "vm_inv_except X s" "bm_wf bm" "numBits bm = NumPhysPages"
    "allocated (page_flags s) \<subseteq> allocated bm"
  shows "vm_inv_except X (s\<lparr>page_flags := bm\<rparr>)"
proof -
  let ?t = "s\<lparr>page_flags := bm\<rparr>"
  have "maps ?t = maps s" "swapped ?t = swapped s" by (simp_all add: fun_eq_iff maps_def swapped_def)
  then have "owner_inv ?t = owner_inv s" "share_inv ?t = share_inv s" "content_inv X ?t = content_inv X s"
    by (simp_all add: owner_inv_def share_inv_def content_inv_def)
  moreover have "alloc_inv ?t" using assms by (auto simp: alloc_inv_def vm_inv_except_def)
  ultimately show ?thesis using assms(1) by (simp add: vm_inv_except_def)
qed

lemma vbyte_page_flags [simp]: "vbyte (s\<lparr>page_flags := bm\<rparr>) = vbyte s"
  by (simp add: vbyte_def fun_eq_iff)

lemma evict_taken:
  assumes inv: "vm_inv s" and ready: "victim_ready s notMe" and room: "swap_room s"
    and me: "-1 \<le> notMe" "notMe < int NumPhysPages"
  shows "\<exists>v t u. Choose_Victim s notMe = Inr (int v, t) \<and> pageout t v = Inr u \<and> int v \<noteq> notMe \<and>
    vm_inv u \<and> same_memory s u \<and> taken s v u"
proof -
  from Choose_Victim_ok [OF inv ready me] obtain v t where
    v: "Choose_Victim s notMe = Inr (int v, t)" "evictable (Frames s) notMe v" and ch: "chosen s t" by blast
  note same = chosen_same [OF ch]
  have vf: "v < NumPhysPages" "owners (Frames t v) \<noteq> None" "int v \<noteq> notMe"
    using v(2) same(3) by (auto simp: evictable_def)
  from pageout_ok [OF same(2) [OF inv] vf(1,2)] room same(7) obtain u where
    u: "pageout t v = Inr u" "vm_inv u" "same_memory t u" and ev: "evicted t v u" by auto
  have "v \<in> allocated (page_flags s)" using inv vf same(3) by (auto simp: vm_inv_except_def alloc_inv_def)
  moreover have "numOwners (Frames u v) = 0"
    using u(2) ev vf(1) by (fastforce simp: vm_inv_except_def alloc_inv_def record_ok_def evicted_def)
  moreover have "\<exists>te'. ent (spaces u) ow w = Some te' \<and> core te' = core te"
    if "ent (spaces s) ow w = Some te" "\<not> maps s ow w v" for ow w te
  proof -
    from same_core_ent [OF same_core_sym [OF same(8)] that(1)] obtain te' where
      "ent (spaces t) ow w = Some te'" "core te' = core te" .
    with that(2) ev same(6) show ?thesis by (simp add: evicted_def)
  qed
  ultimately have "taken s v u"
    using ev vf same by (simp add: taken_def evicted_def)
  with v(1) u vf same_memory_trans [OF same(1) u(3)] show ?thesis by blast
qed

lemma take_frame_ok:
  assumes inv: "vm_inv s" and ready: "frame_ready s notMe" and room: "swap_room s"
    and me: "-1 \<le> notMe" "notMe < int NumPhysPages"
  shows "\<exists>d t. take_frame s notMe = Inr (d, t) \<and> vm_inv t \<and> same_memory s t \<and> taken s d t \<and>
    (int d = notMe \<longrightarrow> owners (Frames s d) = None)"
proof -
  from ready obtain c a where c: "currentSpace s = Some c" "spaces s c = Some a"
    by (auto simp: frame_ready_def victim_ready_def)
  then have many: "TooManyFrames s = Inr (TooManyFrames_pt (pageTable a) (wSetSize a))"
    by (simp add: TooManyFrames_def)
  have al: "alloc_inv s" using inv by (rule vm_inv_parts)
  then have wf: "bm_wf (page_flags s)" and nb: "numBits (page_flags s) = NumPhysPages"
    by (simp_all add: alloc_inv_def)
  consider "\<exists>e. get_next_free_page s = Inr (e, s) \<and> e < 0 \<and> victim_ready s notMe"
    | d bm where "get_next_free_page s = Inr (int d, s\<lparr>page_flags := bm\<rparr>)" "d < NumPhysPages"
      "d \<notin> allocated (page_flags s)" "bm_wf bm" "numBits bm = NumPhysPages"
      "allocated bm = insert d (allocated (page_flags s))"
  proof (cases "TooManyFrames_pt (pageTable a) (wSetSize a)")
    case True
    then have "get_next_free_page s = Inr (-1, s) \<and> victim_ready s notMe"
      using ready many c by (auto simp: get_next_free_page_def frame_ready_def)
    then show ?thesis using that(1) by simp
  next
    case False
    from wf show ?thesis
    proof (cases rule: bm.alloc_cases)
      case 1
      then have "get_next_free_page s = Inr (- ENOMEM, s) \<and> victim_ready s notMe"
        using False ready many c nb by (auto simp: get_next_free_page_def frame_ready_def Let_def)
      then show ?thesis using that(1) by (simp add: ENOMEM_def)
    next
      case (2 i bm)
      then show ?thesis using False many nb
        by (intro that(2) [of i bm]) (simp_all add: get_next_free_page_def Let_def)
    qed
  qed
  then show ?thesis
  proof cases
    case 1
    with evict_taken [OF inv _ room me] show ?thesis by (fastforce simp: take_frame_def)
  next
    case (2 d bm)
    have own: "owners (Frames s d) = None" "numOwners (Frames s d) = 0"
      using al 2(2,3) by (auto simp: alloc_inv_def record_ok_def split: option.splits)
    have "vm_inv (s\<lparr>page_flags := bm\<rparr>)" using vm_inv_page_flags [OF inv] 2 by auto
    moreover have "taken s d (s\<lparr>page_flags := bm\<rparr>)" using 2 own by (simp add: taken_def)
    ultimately show ?thesis using 2(1) own by (simp add: take_frame_def same_memory_def)
  qed
qed

end
