(* ===== verification/VM_Pagein.thy ===== *)
theory VM_Pagein
  imports VM_Victim
begin

text \<open>
  \<open>MemoryManager::pagein\<close>: from a state with the invariant, for a page that is not resident, it
  ends without a fault when there is a frame to take, keeps the invariant, makes the page
  resident and leaves the memory every process sees as it was. Again the change of the state is
  treated first, then the code is shown to compute it.
\<close>

section \<open>Filling a frame\<close>

definition map_in ::
  "'a vm_scheme \<Rightarrow> nat \<Rightarrow> nat list \<Rightarrow> nat \<Rightarrow> (nat \<Rightarrow> byte) \<Rightarrow>
   (TranslationEntry \<Rightarrow> TranslationEntry) \<Rightarrow> 'a vm_scheme" where
  "map_in s d os v b h =
     (put_page s d b)\<lparr>
       spaces := upd_spaces (set os) v h (spaces s),
       Frames := (Frames s)(d := \<lparr>owners = Some os, numOwners = int (length os), owners_page_number = v\<rparr>)\<rparr>"

text \<open>
  When this is right: the frame is allocated and has no owners; the new owners' pages are out,
  have a place to come from, and \<open>b\<close> is what is there; the owners are all processes that refer
  to one swap frame, or a single process that refers to none.
\<close>

definition in_entry :: "nat \<Rightarrow> TranslationEntry \<Rightarrow> TranslationEntry \<Rightarrow> bool" where
  "in_entry d te te' \<longleftrightarrow>
     valid te' \<and> physicalPage te' = d \<and> \<not> dirty te' \<and> te_File te' = te_File te \<and>
     te_offset te' = te_offset te \<and> te_zero te' = te_zero te"

definition map_in_pre ::
  "'a vm_scheme \<Rightarrow> nat \<Rightarrow> nat list \<Rightarrow> nat \<Rightarrow> (nat \<Rightarrow> byte) \<Rightarrow>
   (TranslationEntry \<Rightarrow> TranslationEntry) \<Rightarrow> bool" where
  "map_in_pre s d os v b h \<longleftrightarrow>
     vm_inv s \<and> d < NumPhysPages \<and> d \<in> allocated (page_flags s) \<and> owners (Frames s d) = None \<and>
     os \<noteq> [] \<and> distinct os \<and> (\<forall>te. in_entry d te (h te)) \<and>
     (\<forall>ow \<in> set os. \<exists>te. ent (spaces s) ow v = Some te \<and> \<not> valid te \<and> has_backing te \<and>
        (\<forall>i < PageSize. b i = backing (files s) te i)) \<and>
     ((\<exists>k < NumSwapPages. (\<forall>te. cow (h te) = cow te) \<and> (\<forall>ow. swapped s ow v k \<longleftrightarrow> ow \<in> set os)) \<or>
      (\<exists>sid te. os = [sid] \<and> ent (spaces s) sid v = Some te \<and> te_File te \<noteq> Some (swapFile s)))"

lemma map_in_sel [simp]:
  "page_flags (map_in s d os v b h) = page_flags s"
  "frame_flags (map_in s d os v b h) = frame_flags s"
  "swapFrames (map_in s d os v b h) = swapFrames s"
  "swapFile (map_in s d os v b h) = swapFile s"
  "files (map_in s d os v b h) = files s"
  "Frames (map_in s d os v b h) =
     (Frames s)(d := \<lparr>owners = Some os, numOwners = int (length os), owners_page_number = v\<rparr>)"
  by (simp_all add: map_in_def put_page_def)

lemma map_in_ent:
  "ent (spaces (map_in s d os v b h)) ow w =
     (if ow \<in> set os \<and> w = v then map_option h (ent (spaces s) ow w) else ent (spaces s) ow w)"
  by (simp add: map_in_def)

lemma page_bytes_put_page:
  assumes "i < PageSize"
  shows "page_bytes (mainMemory (put_page s d b)) f i =
    (if f = d then b i else page_bytes (mainMemory s) f i)"
proof (cases "f = d")
  case False
  with assms slot_disjoint [of f d i] show ?thesis by (auto simp: page_bytes_def put_page_def)
qed (use assms in \<open>simp add: page_bytes_def put_page_def\<close>)

lemma map_in_bytes:
  "i < PageSize \<Longrightarrow> page_bytes (mainMemory (map_in s d os v b h)) f i =
    (if f = d then b i else page_bytes (mainMemory s) f i)"
  using page_bytes_put_page [of i s d b f] by (simp add: map_in_def)

lemma map_in_unmapped:
  assumes "map_in_pre s d os v b h" shows "\<not> maps s ow w d"
proof
  assume "maps s ow w d"
  with maps_owned(2) [of "{}" s ow w d] assms show False by (auto simp: map_in_pre_def)
qed

text \<open>An entry afterwards is one that was there or the new entry of an owner.\<close>

lemma map_in_cases:
  assumes "map_in_pre s d os v b h" "ent (spaces (map_in s d os v b h)) ow w = Some te'"
  obtains (old) "\<not> (ow \<in> set os \<and> w = v)" "ent (spaces s) ow w = Some te'"
    "valid te' \<Longrightarrow> physicalPage te' \<noteq> d"
  | (new) te where "ow \<in> set os" "w = v" "ent (spaces s) ow v = Some te" "te' = h te" "\<not> valid te"
      "has_backing te" "in_entry d te te'" "\<And>i. i < PageSize \<Longrightarrow> b i = backing (files s) te i"
proof (cases "ow \<in> set os \<and> w = v")
  case True
  with assms(1) obtain te where "ent (spaces s) ow v = Some te" "\<not> valid te" "has_backing te"
      "\<And>i. i < PageSize \<Longrightarrow> b i = backing (files s) te i" "in_entry d te (h te)"
    unfolding map_in_pre_def by blast
  with True assms(2) new show ?thesis by (simp add: map_in_ent)
next
  case False
  with assms(2) have "ent (spaces s) ow w = Some te'" by (simp only: map_in_ent if_False)
  with False old map_in_unmapped [OF assms(1), of ow w] show ?thesis by (auto simp: maps_def)
qed

lemma map_in_maps:
  assumes pre: "map_in_pre s d os v b h"
  shows "maps (map_in s d os v b h) ow w f \<longleftrightarrow> (if f = d then ow \<in> set os \<and> w = v else maps s ow w f)"
proof
  assume "maps (map_in s d os v b h) ow w f"
  then obtain te where "ent (spaces (map_in s d os v b h)) ow w = Some te" "valid te" "physicalPage te = f"
    by (auto simp: maps_def)
  then show "if f = d then ow \<in> set os \<and> w = v else maps s ow w f"
    by (cases rule: map_in_cases [OF pre, consumes 1, case_names old new]) (auto simp: maps_def in_entry_def)
next
  assume m: "if f = d then ow \<in> set os \<and> w = v else maps s ow w f"
  show "maps (map_in s d os v b h) ow w f"
  proof (cases "ow \<in> set os \<and> w = v")
    case True
    with pre obtain te where te: "ent (spaces s) ow v = Some te" "\<not> valid te" "in_entry d te (h te)"
      unfolding map_in_pre_def by blast
    with True m have "f = d" by (auto simp: maps_def split: if_splits)
    with True te show ?thesis by (simp add: maps_def map_in_ent in_entry_def)
  next
    case False
    with m have "maps s ow w f" by (auto split: if_splits)
    moreover have "ent (spaces (map_in s d os v b h)) ow w = ent (spaces s) ow w"
      using False by (simp only: map_in_ent if_False)
    ultimately show ?thesis by (simp add: maps_def)
  qed
qed

lemma map_in_swapped:
  assumes pre: "map_in_pre s d os v b h"
  shows "swapped (map_in s d os v b h) ow w k \<longleftrightarrow> swapped s ow w k"
proof (cases "ow \<in> set os \<and> w = v")
  case True
  with pre obtain te where te: "ent (spaces s) ow v = Some te" "in_entry d te (h te)"
    unfolding map_in_pre_def by blast
  with True show ?thesis by (simp add: swapped_def map_in_ent in_entry_def)
next
  case False
  then have "ent (spaces (map_in s d os v b h)) ow w = ent (spaces s) ow w"
    by (simp only: map_in_ent if_False)
  then show ?thesis by (simp add: swapped_def)
qed

lemma map_in_owner:
  assumes pre: "map_in_pre s d os v b h" shows "owner_inv (map_in s d os v b h)"
  unfolding owner_inv_def map_in_maps [OF pre] map_in_swapped [OF pre]
proof (intro conjI allI impI)
  let ?t = "map_in s d os v b h"
  from pre have oi: "owner_inv s" and d: "d < NumPhysPages" by (simp_all add: map_in_pre_def vm_inv_except_def)
  show "length (pageTable a) = numPages a" if "spaces ?t sid = Some a" for sid a
    using that oi unfolding map_in_def owner_inv_def by (auto dest: upd_spaces_wf)
  show "frame_owner (Frames ?t) g ow w \<longleftrightarrow> (if g = d then ow \<in> set os \<and> w = v else maps s ow w g)"
    if "g < NumPhysPages" for g ow w
    using that oi unfolding owner_inv_def by (auto simp: frame_owner_def)
  show "g < NumPhysPages" if "if g = d then ow \<in> set os \<and> w = v else maps s ow w g" for ow w g
    using that oi d unfolding owner_inv_def by (auto split: if_splits)
  show "frame_owner (swapFrames ?t) j ow w \<longleftrightarrow> swapped s ow w j" if "j < NumSwapPages" for j ow w
    using that oi unfolding owner_inv_def by simp
  fix ow w te assume e: "ent (spaces ?t) ow w = Some te" "te_File te = Some (swapFile ?t)"
  from pre have inv: "vm_inv s" by (simp add: map_in_pre_def)
  from e obtain te0 where "ent (spaces s) ow w = Some te0" "te_File te0 = Some (swapFile s)"
      "te_zero te0 = te_zero te" "te_offset te0 = te_offset te"
    by (cases rule: map_in_cases [OF pre, consumes 1, case_names old new]) (auto simp: in_entry_def)
  with swap_entryD [OF inv this(1,2)] show "\<not> te_zero te" "\<exists>k<NumSwapPages. te_offset te = k * PageSize"
    by auto
qed

lemma map_in_two_owners:
  assumes pre: "map_in_pre s d os v b h" and o: "o1 \<in> set os" "o2 \<in> set os" "o1 \<noteq> o2"
    and e: "ent (spaces s) o1 v = Some te1" "ent (spaces s) o2 v = Some te2"
  shows "te_File te1 = Some (swapFile s)" "te_File te2 = Some (swapFile s)"
    "te_offset te1 = te_offset te2" "cow te1" "cow (h te1) = cow te1" "\<not> te_zero te1" "\<not> te_zero te2"
proof -
  from pre o obtain k where k: "\<forall>te. cow (h te) = cow te" "\<forall>ow. swapped s ow v k \<longleftrightarrow> ow \<in> set os"
    by (auto simp: map_in_pre_def)
  from k(2) o(1,2) have "swapped s o1 v k" "swapped s o2 v k" by simp_all
  with e show f: "te_File te1 = Some (swapFile s)" "te_File te2 = Some (swapFile s)"
      "te_offset te1 = te_offset te2"
    by (auto simp: swapped_def)
  from pre have inv: "vm_inv s" by (simp add: map_in_pre_def)
  show "cow te1" by (rule share_swapD(2) [OF inv e f o(3)])
  show "cow (h te1) = cow te1" using k(1) by simp
  show "\<not> te_zero te1" "\<not> te_zero te2" using swap_entryD [OF inv e(1) f(1)] swap_entryD [OF inv e(2) f(2)] by auto
qed


text \<open>Whoever refers to the same swap frame as an owner is an owner.\<close>

lemma map_in_swap_owner:
  assumes pre: "map_in_pre s d os v b h" and o: "o2 \<in> set os"
    and e: "ent (spaces s) o1 v = Some te1" "ent (spaces s) o2 v = Some te2"
    and f: "te_File te1 = Some (swapFile s)" "te_File te2 = Some (swapFile s)"
      "te_offset te1 = te_offset te2"
  shows "o1 \<in> set os"
proof -
  from pre o e f obtain k where k: "\<forall>ow. swapped s ow v k \<longleftrightarrow> ow \<in> set os"
    by (auto simp: map_in_pre_def)
  with o have "swapped s o2 v k" by simp
  with e f have "swapped s o1 v k" by (auto simp: swapped_def)
  with k show ?thesis by simp
qed

lemma map_in_share:
  assumes pre: "map_in_pre s d os v b h" shows "share_inv (map_in s d os v b h)"
  unfolding share_inv_def
proof (intro conjI allI impI)
  let ?t = "map_in s d os v b h"
  from pre have inv: "vm_inv s" by (simp add: map_in_pre_def)
  fix o1 o2 w te1 te2
  assume e: "ent (spaces ?t) o1 w = Some te1" "ent (spaces ?t) o2 w = Some te2" and ne: "o1 \<noteq> o2"
  have both: "backing_attrs te1 = backing_attrs te2 \<and> cow te1 \<and> place te1 = place te2"
    if "o1 \<in> set os" "o2 \<in> set os" "w = v"
  proof -
    from pre that obtain t1 t2 where t: "ent (spaces s) o1 v = Some t1" "ent (spaces s) o2 v = Some t2"
        "in_entry d t1 (h t1)" "in_entry d t2 (h t2)"
      unfolding map_in_pre_def by blast
    moreover from t(1,2) e that have "te1 = h t1" "te2 = h t2" by (auto simp: map_in_ent)
    ultimately show ?thesis
      using map_in_two_owners [OF pre that(1,2) ne t(1,2)]
      by (simp add: in_entry_def backing_attrs_def place_def)
  qed
  show "backing_attrs te1 = backing_attrs te2" "cow te1"
    if "valid te1" "valid te2" "physicalPage te1 = physicalPage te2"
  proof -
    have "backing_attrs te1 = backing_attrs te2 \<and> cow te1"
      using e(1)
    proof (cases rule: map_in_cases [OF pre, consumes 1, case_names old new])
      case old1: old
      from e(2) show ?thesis
      proof (cases rule: map_in_cases [OF pre, consumes 1, case_names old new])
        case old
        from share_frameD [OF inv old1(2) old(2) that ne] show ?thesis by blast
      next
        case new
        with old1(3) that show ?thesis by (simp add: in_entry_def)
      qed
    next
      case new1: new
      from e(2) show ?thesis
      proof (cases rule: map_in_cases [OF pre, consumes 1, case_names old new])
        case old
        with new1 that show ?thesis by (simp add: in_entry_def)
      qed (use new1 both in blast)
    qed
    then show "backing_attrs te1 = backing_attrs te2" "cow te1" by blast+
  qed
  show "place te1 = place te2" "cow te1"
    if f: "te_File te1 = Some (swapFile ?t)" "te_File te2 = Some (swapFile ?t)"
      "te_offset te1 = te_offset te2"
  proof -
    have "place te1 = place te2 \<and> cow te1"
      using e(1)
    proof (cases rule: map_in_cases [OF pre, consumes 1, case_names old new])
      case old1: old
      from e(2) show ?thesis
      proof (cases rule: map_in_cases [OF pre, consumes 1, case_names old new])
        case old
        from share_swapD [OF inv old1(2) old(2)] f ne show ?thesis by simp
      next
        case (new t2)
        with map_in_swap_owner [OF pre new(1), of o1 te1 t2] old1 f show ?thesis
          by (simp add: in_entry_def)
      qed
    next
      case new1: (new t1)
      from e(2) show ?thesis
      proof (cases rule: map_in_cases [OF pre, consumes 1, case_names old new])
        case old
        with map_in_swap_owner [OF pre new1(1), of o2 te2 t1] new1 f show ?thesis
          by (simp add: in_entry_def)
      qed (use new1 both in blast)
    qed
    then show "place te1 = place te2" "cow te1" by blast+
  qed
qed

lemma in_entry_backing: "in_entry d te te' \<Longrightarrow> backing fls te' i = backing fls te i"
  by (simp add: in_entry_def backing_def cong: option.case_cong)

lemma map_in_content:
  assumes pre: "map_in_pre s d os v b h" shows "content_inv {} (map_in s d os v b h)"
  unfolding content_inv_def
proof (intro conjI allI impI)
  let ?t = "map_in s d os v b h"
  from pre have inv: "vm_inv s" by (simp add: map_in_pre_def)
  fix ow w te assume e: "ent (spaces ?t) ow w = Some te"
  show "te_offset te + PageSize \<le> f_len (files ?t g)" if "te_File te = Some g" "\<not> te_zero te" for g
    using e that content_lenD [OF inv]
    by (cases rule: map_in_cases [OF pre, consumes 1, case_names old new]) (auto simp: in_entry_def)
  assume v: "valid te" "\<not> dirty te"
  show "has_backing te"
    using e v content_cleanD(1) [OF inv]
    by (cases rule: map_in_cases [OF pre, consumes 1, case_names old new]) (auto simp: in_entry_def has_backing_def)
  show "page_bytes (mainMemory ?t) (physicalPage te) i = backing (files ?t) te i" if i: "i < PageSize" for i
    using e
  proof (cases rule: map_in_cases [OF pre, consumes 1, case_names old new])
    case old
    with content_cleanD(2) [OF inv old(2) v, of i] i v show ?thesis by (simp add: map_in_bytes)
  next
    case (new t0)
    then show ?thesis using i in_entry_backing [OF new(7)] by (simp add: map_in_bytes in_entry_def)
  qed
qed

lemma map_in_inv:
  assumes pre: "map_in_pre s d os v b h" shows "vm_inv (map_in s d os v b h)"
proof -
  have "alloc_inv (map_in s d os v b h)"
    using pre by (auto simp: map_in_pre_def vm_inv_except_def alloc_inv_def record_ok_def)
  with map_in_owner [OF pre] map_in_share [OF pre] map_in_content [OF pre]
  show ?thesis by (simp add: vm_inv_except_def)
qed

lemma map_in_same_memory:
  assumes pre: "map_in_pre s d os v b h" shows "same_memory s (map_in s d os v b h)"
  unfolding same_memory_def
proof (intro allI impI)
  fix ow w i assume i: "i < PageSize"
  let ?t = "map_in s d os v b h"
  show "vbyte ?t ow w i = vbyte s ow w i"
  proof (cases "ent (spaces ?t) ow w")
    case None
    then have "ent (spaces s) ow w = None" by (auto simp: map_in_ent split: if_splits)
    with None show ?thesis by (simp add: vbyte_def)
  next
    case (Some te)
    then show ?thesis
    proof (cases rule: map_in_cases [OF pre, consumes 1, case_names old new])
      case old
      with i Some show ?thesis by (auto simp: vbyte_def te_byte_def map_in_bytes)
    next
      case (new t0)
      with i Some in_entry_backing [OF new(7)] show ?thesis
        by (simp add: vbyte_def te_byte_def map_in_bytes in_entry_def)
    qed
  qed
qed


section \<open>The code computes this update\<close>

definition fill_bytes :: "'a vm_scheme \<Rightarrow> nat \<Rightarrow> TranslationEntry \<Rightarrow> nat \<Rightarrow> byte" where
  "fill_bytes s d loc =
     (if te_zero loc then (\<lambda>_. 0)
      else ReadAt (files s (the (te_File loc))) (page_bytes (mainMemory s) d) PageSize (te_offset loc))"

lemma pagein_fill_eq: "has_backing loc \<Longrightarrow> pagein_fill d loc s = Inr (put_page s d (fill_bytes s d loc))"
  by (auto simp: pagein_fill_def fill_bytes_def has_backing_def)

lemma fill_bytes_backing:
  assumes "vm_inv s" "ent (spaces s) ow v = Some loc" "has_backing loc" "i < PageSize"
  shows "fill_bytes s d loc i = backing (files s) loc i"
proof (cases "te_zero loc")
  case False
  with assms(3) obtain fl where fl: "te_File loc = Some fl" by (auto simp: has_backing_def)
  with False assms content_lenD [OF assms(1,2) fl False] show ?thesis
    by (simp add: fill_bytes_def backing_def ReadAt_def)
qed (simp add: fill_bytes_def backing_def)

lemma in_entry_pagein: "in_entry d te (pagein_entry d now te)"
  by (simp add: in_entry_def pagein_entry_def setTime_def clearSC_def)

definition own_entry :: "nat \<Rightarrow> uint32 \<Rightarrow> TranslationEntry \<Rightarrow> TranslationEntry" where
  "own_entry d now te = pagein_entry d now (te\<lparr>cow := False\<rparr>)"

lemma in_entry_own: "in_entry d te (own_entry d now te)"
  by (simp add: in_entry_def own_entry_def pagein_entry_def setTime_def clearSC_def)

text \<open>A page in the swap file: its swap frame lists everyone who shares it.\<close>

lemma pagein_swap:
  assumes inv: "vm_inv t" and e: "ent (spaces t) sid v = Some loc" and nv: "\<not> valid loc"
    and sw: "te_File loc = Some (swapFile t)"
    and d: "d < NumPhysPages" "d \<in> allocated (page_flags t)" "owners (Frames t d) = None"
  shows "\<exists>os. map_in_pre t d os v (fill_bytes t d loc) (pagein_entry d now) \<and> sid \<in> set os \<and>
    bind_res (pagein_record d v sid loc (put_page t d (fill_bytes t d loc)))
      (\<lambda>s3. for_owners (Frames s3 d) v (pagein_entry d now) s3) =
    Inr (map_in t d os v (fill_bytes t d loc) (pagein_entry d now))"
proof -
  from swap_entryD [OF inv e sw] obtain k where k: "k < NumSwapPages" "te_offset loc = k * PageSize"
    "\<not> te_zero loc" "frame_owner (swapFrames t) k sid v" .
  from k(4) obtain os where os: "owners (swapFrames t k) = Some os" "sid \<in> set os"
      "owners_page_number (swapFrames t k) = v"
    by (auto simp: frame_owner_def)
  from inv k(1) have "record_ok (swapFrames t k)" by (simp add: vm_inv_except_def alloc_inv_def)
  with os have rec: "os \<noteq> []" "distinct os" "numOwners (swapFrames t k) = int (length os)"
    by (simp_all add: record_ok_def)
  have mem: "swapped t ow v k \<longleftrightarrow> ow \<in> set os" for ow
  proof -
    have "frame_owner (swapFrames t) k ow v \<longleftrightarrow> swapped t ow v k"
      using inv k(1) by (simp add: vm_inv_except_def owner_inv_def)
    with os show ?thesis by (auto simp: frame_owner_def)
  qed
  let ?b = "fill_bytes t d loc"
  have out: "\<exists>te. ent (spaces t) ow v = Some te \<and> \<not> valid te \<and> has_backing te \<and>
      (\<forall>i < PageSize. ?b i = backing (files t) te i)" if "ow \<in> set os" for ow
  proof -
    from that mem obtain te where te: "ent (spaces t) ow v = Some te" "te_File te = Some (swapFile t)"
        "te_offset te = k * PageSize" by (auto simp: swapped_def)
    have z: "\<not> te_zero te" using swap_entryD [OF inv te(1,2)] by blast
    have "place te = place loc"
      using share_swapD(1) [OF inv te(1) e te(2) sw] te k e by (cases "ow = sid") auto
    with nv have "\<not> valid te" by (auto simp: place_def split: if_splits)
    moreover have "?b i = backing (files t) te i" if "i < PageSize" for i
      using fill_bytes_backing [OF inv e _ that] te z k sw by (simp add: has_backing_def backing_def)
    ultimately show ?thesis using te by (auto simp: has_backing_def)
  qed
  have pre: "map_in_pre t d os v ?b (pagein_entry d now)"
    unfolding map_in_pre_def
  proof (intro conjI)
    show "(\<exists>k<NumSwapPages. (\<forall>te. cow (pagein_entry d now te) = cow te) \<and> (\<forall>ow. swapped t ow v k \<longleftrightarrow> ow \<in> set os)) \<or>
      (\<exists>sid te. os = [sid] \<and> ent (spaces t) sid v = Some te \<and> te_File te \<noteq> Some (swapFile t))"
      using k(1) mem by (auto simp: pagein_entry_def setTime_def clearSC_def)
  qed (use inv d rec out in \<open>simp_all add: in_entry_pagein\<close>)
  let ?r = "(put_page t d ?b)\<lparr>Frames := (Frames t)(d := \<lparr>owners = Some os,
     numOwners = int (length os), owners_page_number = v\<rparr>)\<rparr>"
  have "te_offset loc div PageSize = k" using k(2) by (simp add: PageSize_def SectorSize_def)
  moreover have "owner_list (swapFrames t k) = Inr os" by (rule owner_list_eq [OF os(1) rec(3)])
  ultimately have "pagein_record d v sid loc (put_page t d ?b) = Inr ?r"
    using sw k(1) rec os by (simp add: pagein_record_def swap_get_frame_def swap_at_def put_page_def)
  moreover have "for_owners (Frames ?r d) v (pagein_entry d now) ?r =
      Inr (?r\<lparr>spaces := upd_spaces (set os) v (pagein_entry d now) (spaces ?r)\<rparr>)"
  proof (rule for_owners_eq)
    show "ent (spaces ?r) ow v \<noteq> None" if "ow \<in> set os" for ow
      using out [OF that] by (auto simp: put_page_def)
  qed (use rec in simp_all)
  ultimately show ?thesis
    using pre os(2) by (intro exI [of _ os]) (simp add: map_in_def put_page_def)
qed

text \<open>A page that comes from the executable or is zero-filled: a copy of its own.\<close>

lemma pagein_own:
  assumes inv: "vm_inv t" and e: "ent (spaces t) sid v = Some loc" and nv: "\<not> valid loc" "has_backing loc"
    and sw: "te_File loc \<noteq> Some (swapFile t)"
    and d: "d < NumPhysPages" "d \<in> allocated (page_flags t)" "owners (Frames t d) = None"
  shows "map_in_pre t d [sid] v (fill_bytes t d loc) (own_entry d now)"
    "bind_res (pagein_record d v sid loc (put_page t d (fill_bytes t d loc)))
      (\<lambda>s3. for_owners (Frames s3 d) v (pagein_entry d now) s3) =
    Inr (map_in t d [sid] v (fill_bytes t d loc) (own_entry d now))"
proof -
  let ?b = "fill_bytes t d loc"
  show "map_in_pre t d [sid] v ?b (own_entry d now)"
    unfolding map_in_pre_def using assms fill_bytes_backing [OF inv e nv(2)]
    by (auto simp: in_entry_own)
  let ?q = "(put_page t d ?b)\<lparr>Frames := (Frames t)(d := \<lparr>owners = Some [sid],
     numOwners = 1, owners_page_number = v\<rparr>)\<rparr>"
  let ?r = "?q\<lparr>spaces := upd_spaces {sid} v (\<lambda>te. te\<lparr>cow := False\<rparr>) (spaces t)\<rparr>"
  have "pagein_record d v sid loc (put_page t d ?b) = Inr ?r"
    using sw upd_te_eq [of ?q sid v loc] e by (simp add: pagein_record_def put_page_def)
  moreover have "for_owners (Frames ?r d) v (pagein_entry d now) ?r =
      Inr (?r\<lparr>spaces := upd_spaces (set [sid]) v (pagein_entry d now) (spaces ?r)\<rparr>)"
    by (rule for_owners_eq) (use e in simp_all)
  ultimately show "bind_res (pagein_record d v sid loc (put_page t d ?b))
      (\<lambda>s3. for_owners (Frames s3 d) v (pagein_entry d now) s3) = Inr (map_in t d [sid] v ?b (own_entry d now))"
    by (simp add: map_in_def put_page_def upd_spaces_compose own_entry_def [abs_def])
qed


lemma pagein_loaded:
  assumes inv: "vm_inv t" and e: "ent (spaces t) sid v = Some loc" and nv: "\<not> valid loc" "has_backing loc"
    and d: "d < NumPhysPages" "d \<in> allocated (page_flags t)" "owners (Frames t d) = None"
  obtains os h where "map_in_pre t d os v (fill_bytes t d loc) h" "sid \<in> set os"
    "bind_res (pagein_record d v sid loc (put_page t d (fill_bytes t d loc)))
      (\<lambda>s3. for_owners (Frames s3 d) v (pagein_entry d now) s3) =
     Inr (map_in t d os v (fill_bytes t d loc) h)"
proof (cases "te_File loc = Some (swapFile t)")
  case True
  from pagein_swap [OF inv e nv(1) True d] that show ?thesis by blast
next
  case False
  show ?thesis
    by (rule that [OF pagein_own(1) [OF inv e nv False d] _ pagein_own(2) [OF inv e nv False d]]) simp
qed

lemma pagein_record_ticks:
  assumes "pagein_record d v sid loc s = Inr t" shows "totalTicks t = totalTicks s"
  using assms by (auto simp: pagein_record_def upd_te_def res_eq_Inr split: if_splits)

text \<open>What bringing a page in leaves as it was.\<close>

definition paged_in :: "'a vm_scheme \<Rightarrow> nat \<Rightarrow> nat \<Rightarrow> 'a vm_scheme \<Rightarrow> bool" where
  "paged_in s sid v t \<longleftrightarrow>
     (\<exists>te. ent (spaces t) sid v = Some te \<and> valid te) \<and>
     swapFile t = swapFile s \<and> currentSpace t = currentSpace s \<and> currentThread t = currentThread s \<and>
     vm.more t = vm.more s"

lemma pagein_ok:
  assumes inv: "vm_inv s" and e: "ent (spaces s) sid v = Some loc" and nv: "\<not> valid loc" "has_backing loc"
    and ready: "frame_ready s (-1)" "swap_room s"
  shows "\<exists>t. pagein s v sid = Inr t \<and> vm_inv t \<and> same_memory s t \<and> paged_in s sid v t"
proof -
  from take_frame_ok [OF inv ready] obtain d t where
    tf: "take_frame s (-1) = Inr (d, t)" "vm_inv t" "same_memory s t" and tk: "taken s d t"
    by (auto simp: NumPhysPages_def)
  from nv e have "\<not> maps s sid v d" by (auto simp: maps_def)
  with tk e obtain loc1 where l: "ent (spaces t) sid v = Some loc1" and c: "core loc1 = core loc"
    unfolding taken_def by blast
  have nv1: "\<not> valid loc1" "has_backing loc1" using nv core_fields [OF c] by (simp_all add: has_backing_def)
  have d: "d < NumPhysPages" "d \<in> allocated (page_flags t)" "owners (Frames t d) = None"
    using tk by (simp_all add: taken_def)
  from pagein_loaded [OF tf(2) l nv1 d, of "totalTicks t"] obtain os h where
    pre: "map_in_pre t d os v (fill_bytes t d loc1) h" and sid: "sid \<in> set os" and
    run: "bind_res (pagein_record d v sid loc1 (put_page t d (fill_bytes t d loc1)))
      (\<lambda>s3. for_owners (Frames s3 d) v (pagein_entry d (totalTicks t)) s3) =
     Inr (map_in t d os v (fill_bytes t d loc1) h)" (is "_ = Inr ?u") .
  from run obtain s3 where s3: "pagein_record d v sid loc1 (put_page t d (fill_bytes t d loc1)) = Inr s3"
      "for_owners (Frames s3 d) v (pagein_entry d (totalTicks t)) s3 = Inr ?u"
    by (auto simp: bind_res_eq_Inr)
  have tt: "totalTicks s3 = totalTicks t"
    using pagein_record_ticks [OF s3(1)] by (simp add: put_page_def)
  have "\<exists>n p. pagein s v sid = Inr (?u\<lparr>numPageIns := n, procPageIns := p\<rparr>)"
    using tf(1) l s3 nv1 by (simp add: pagein_def pagein_fill_eq tt) blast
  then obtain n p where run': "pagein s v sid = Inr (?u\<lparr>numPageIns := n, procPageIns := p\<rparr>)" by blast
  moreover have "same_memory s ?u"
    using same_memory_trans [OF tf(3) map_in_same_memory [OF pre]] .
  moreover have "paged_in s sid v ?u"
  proof -
    have "valid (h loc1)" using pre by (simp add: map_in_pre_def in_entry_def)
    then show ?thesis using l sid tk
      by (simp add: paged_in_def map_in_ent taken_def) (simp add: map_in_def put_page_def)
  qed
  ultimately show ?thesis using map_in_inv [OF pre] by (simp add: same_memory_def paged_in_def)
qed

end
