(* ===== verification/VM_Share.thy ===== *)
theory VM_Share
  imports VM_Pagein
begin

text \<open>
  Changes of ownership, shared by copy-on-write duplication, by the end of an address space and
  by \<open>Fork\<close>: a process leaves its frame and its swap frame, takes a frame of its own, joins the
  frame of another process, and the last owner of a frame loses its copy-on-write bit.
\<close>

section \<open>Releasing a frame\<close>

text \<open>The record of a frame once \<open>sid\<close> is no longer an owner.\<close>

definition rest_frame :: "Frame \<Rightarrow> nat \<Rightarrow> Frame" where
  "rest_frame fr sid = (case owners fr of None \<Rightarrow> fr
     | Some os \<Rightarrow> let ros = filter (\<lambda>ow. ow \<noteq> sid) os in
         if ros = [] then fr\<lparr>owners := None, numOwners := 0\<rparr>
         else fr\<lparr>owners := Some ros, numOwners := int (length ros)\<rparr>)"

definition rest_flags :: "BitMap \<Rightarrow> Frame \<Rightarrow> nat \<Rightarrow> nat \<Rightarrow> BitMap \<Rightarrow> bool" where
  "rest_flags bm fr sid f bm' \<longleftrightarrow>
     bm_wf bm' \<and> numBits bm' = numBits bm \<and>
     allocated bm' = (if owners (rest_frame fr sid) = None then allocated bm - {f} else allocated bm)"

lemma rest_frame_owner:
  "owners_page_number (rest_frame fr sid) = owners_page_number fr"
  by (simp add: rest_frame_def Let_def split: option.splits)

lemma rest_frame_set:
  "(\<exists>os. owners (rest_frame fr sid) = Some os \<and> ow \<in> set os) \<longleftrightarrow>
     ow \<noteq> sid \<and> (\<exists>os. owners fr = Some os \<and> ow \<in> set os)"
  by (auto simp: rest_frame_def Let_def filter_empty_conv split: option.splits if_splits)

lemma rest_frame_ok: "record_ok fr \<Longrightarrow> record_ok (rest_frame fr sid)"
  by (auto simp: rest_frame_def record_ok_def Let_def split: option.splits)

lemma filter_neq_Nil_iff:
  "distinct os \<Longrightarrow> sid \<in> set os \<Longrightarrow> filter (\<lambda>ow. ow \<noteq> sid) os = [] \<longleftrightarrow> length os = 1"
proof -
  assume a: "distinct os" "sid \<in> set os"
  then have "length (filter (\<lambda>ow. ow \<noteq> sid) os) = length os - 1" by (rule length_filter_neq)
  moreover have "0 < length os" using a by (cases os) auto
  ultimately show ?thesis by (metis One_nat_def Suc_pred diff_self_eq_0 length_0_conv)
qed

lemma drop_owner_eq:
  assumes "record_ok fr" "owners fr = Some os" "sid \<in> set os" "numOwners fr \<noteq> 1"
  shows "drop_owner fr sid = Inr (rest_frame fr sid)" "owners (rest_frame fr sid) \<noteq> None"
proof -
  from assms have r: "distinct os" "numOwners fr = int (length os)" by (simp_all add: record_ok_def)
  have "length (filter (\<lambda>ow. ow \<noteq> sid) os) = length os - 1"
    using length_filter_neq [OF r(1) assms(3)] .
  moreover have "0 < length os" using assms(3) by (cases os) auto
  moreover have "filter (\<lambda>ow. ow \<noteq> sid) os \<noteq> []"
    using filter_neq_Nil_iff [OF r(1) assms(3)] assms(4) r(2) by auto
  ultimately show "drop_owner fr sid = Inr (rest_frame fr sid)" "owners (rest_frame fr sid) \<noteq> None"
    using assms(2) r owner_list_eq [OF assms(2) r(2)]
    by (auto simp: drop_owner_def rest_frame_def Let_def)
qed

lemma sole_owner:
  assumes "record_ok fr" "owners fr = Some os" "sid \<in> set os" "numOwners fr = 1"
  shows "rest_frame fr sid = fr\<lparr>owners := None, numOwners := 0\<rparr>"
proof -
  from assms have "length os = 1" by (simp add: record_ok_def)
  with assms(2,3) show ?thesis by (auto simp: rest_frame_def length_Suc_conv)
qed

lemma release_page_ok:
  assumes "bm_wf (page_flags s)" "f < numBits (page_flags s)" "f < NumPhysPages"
    and "record_ok (Frames s f)" "owners (Frames s f) = Some os" "sid \<in> set os"
  obtains bm where "rest_flags (page_flags s) (Frames s f) sid f bm"
    "release_page s f sid = Inr (s\<lparr>page_flags := bm, Frames := (Frames s)(f := rest_frame (Frames s f) sid)\<rparr>)"
proof (cases "numOwners (Frames s f) = 1")
  case True
  from bm.release_slot [OF assms(1,2)] obtain bm where
    bm: "Clear (page_flags s) (int f) = Inr bm" "bm_wf bm" "numBits bm = numBits (page_flags s)"
      "allocated bm = allocated (page_flags s) - {f}" by blast
  with True sole_owner [OF assms(4-6) True] assms(3) show ?thesis
    by (intro that [of bm]) (simp_all add: release_page_def frame_at_def rest_flags_def)
next
  case False
  with drop_owner_eq [OF assms(4-6) False] assms show ?thesis
    by (intro that [of "page_flags s"]) (auto simp: release_page_def frame_at_def rest_flags_def)
qed

lemma release_frame_all:
  fixes s :: "'a vm_scheme"
  assumes "bm_wf (frame_flags s)" "k < numBits (frame_flags s)" "k < NumSwapPages"
    and "record_ok (swapFrames s k)" "owners (swapFrames s k) = Some os" "sid \<in> set os"
  obtains bm where "rest_flags (frame_flags s) (swapFrames s k) sid k bm"
    "\<forall>t :: 'a vm_scheme. frame_flags t = frame_flags s \<longrightarrow> swapFrames t = swapFrames s \<longrightarrow>
      release_frame t (k * PageSize) sid =
      Inr (t\<lparr>frame_flags := bm, swapFrames := (swapFrames s)(k := rest_frame (swapFrames s k) sid)\<rparr>)"
proof -
  have [simp]: "k * PageSize div PageSize = k" by (simp add: PageSize_def SectorSize_def)
  show ?thesis
  proof (cases "numOwners (swapFrames s k) = 1")
    case True
    from bm.release_slot [OF assms(1,2)] obtain bm where
      bm: "Clear (frame_flags s) (int k) = Inr bm" "bm_wf bm" "numBits bm = numBits (frame_flags s)"
        "allocated bm = allocated (frame_flags s) - {k}" by blast
    with True sole_owner [OF assms(4-6) True] assms(3) show ?thesis
      by (intro that [of bm]) (simp_all add: release_frame_def swap_at_def rest_flags_def)
  next
    case False
    with drop_owner_eq [OF assms(4-6) False] assms show ?thesis
      by (intro that [of "frame_flags s"]) (auto simp: release_frame_def swap_at_def rest_flags_def)
  qed
qed

lemma release_frame_ok:
  assumes "bm_wf (frame_flags s)" "k < numBits (frame_flags s)" "k < NumSwapPages"
    and "record_ok (swapFrames s k)" "owners (swapFrames s k) = Some os" "sid \<in> set os"
  obtains bm where "rest_flags (frame_flags s) (swapFrames s k) sid k bm"
    "release_frame s (k * PageSize) sid =
      Inr (s\<lparr>frame_flags := bm, swapFrames := (swapFrames s)(k := rest_frame (swapFrames s k) sid)\<rparr>)"
  using release_frame_all [OF assms] that by blast

section \<open>Leaving frame and swap frame\<close>

text \<open>
  Page \<open>v\<close> of \<open>sid\<close>, with entry \<open>te\<close>, leaves the frame it is in and the swap frame it refers to; \<open>h\<close> is
  what happens to the entry.
\<close>

definition detach ::
  "'a vm_scheme \<Rightarrow> nat \<Rightarrow> nat \<Rightarrow> TranslationEntry \<Rightarrow> (TranslationEntry \<Rightarrow> TranslationEntry) \<Rightarrow>
   BitMap \<Rightarrow> BitMap \<Rightarrow> 'a vm_scheme" where
  "detach s sid v te h bm bs =
     s\<lparr>page_flags := bm,
       Frames := (if valid te
         then (Frames s)(physicalPage te := rest_frame (Frames s (physicalPage te)) sid) else Frames s),
       frame_flags := bs,
       swapFrames := (if te_File te = Some (swapFile s)
         then (swapFrames s)(te_offset te div PageSize := rest_frame (swapFrames s (te_offset te div PageSize)) sid)
         else swapFrames s),
       spaces := upd_spaces {sid} v h (spaces s)\<rparr>"

definition detach_pre ::
  "(nat \<times> nat) set \<Rightarrow> 'a vm_scheme \<Rightarrow> nat \<Rightarrow> nat \<Rightarrow> TranslationEntry \<Rightarrow>
   (TranslationEntry \<Rightarrow> TranslationEntry) \<Rightarrow> BitMap \<Rightarrow> BitMap \<Rightarrow> bool" where
  "detach_pre X s sid v te h bm bs \<longleftrightarrow>
     vm_inv_except X s \<and> ent (spaces s) sid v = Some te \<and> \<not> valid (h te) \<and>
     te_File (h te) \<noteq> Some (swapFile s) \<and> (te_File (h te) = None \<or> te_File (h te) = te_File te) \<and>
     te_offset (h te) = te_offset te \<and> te_zero (h te) = te_zero te \<and>
     (if valid te then rest_flags (page_flags s) (Frames s (physicalPage te)) sid (physicalPage te) bm
      else bm = page_flags s) \<and>
     (if te_File te = Some (swapFile s)
      then rest_flags (frame_flags s) (swapFrames s (te_offset te div PageSize)) sid (te_offset te div PageSize) bs
      else bs = frame_flags s)"

lemma detach_sel [simp]:
  "mainMemory (detach s sid v te h bm bs) = mainMemory s"
  "files (detach s sid v te h bm bs) = files s"
  "swapFile (detach s sid v te h bm bs) = swapFile s"
  "page_flags (detach s sid v te h bm bs) = bm"
  "frame_flags (detach s sid v te h bm bs) = bs"
  by (simp_all add: detach_def)

lemma detach_ent:
  "ent (spaces (detach s sid v te h bm bs)) ow w =
     (if ow = sid \<and> w = v then map_option h (ent (spaces s) ow w) else ent (spaces s) ow w)"
  by (simp add: detach_def)

lemma detach_cases:
  assumes "detach_pre X s sid v te h bm bs" "ent (spaces (detach s sid v te h bm bs)) ow w = Some te'"
  obtains (old) "\<not> (ow = sid \<and> w = v)" "ent (spaces s) ow w = Some te'"
  | (new) "ow = sid" "w = v" "te' = h te" "\<not> valid te'" "te_File te' \<noteq> Some (swapFile s)"
proof (cases "ow = sid \<and> w = v")
  case True
  with assms new show ?thesis by (auto simp: detach_pre_def detach_ent split: if_splits)
next
  case False
  with assms(2) have "ent (spaces s) ow w = Some te'" by (simp only: detach_ent if_False)
  with False old show ?thesis by blast
qed

lemma detach_maps:
  assumes pre: "detach_pre X s sid v te h bm bs"
  shows "maps (detach s sid v te h bm bs) ow w g \<longleftrightarrow> maps s ow w g \<and> \<not> (ow = sid \<and> w = v)"
  using pre by (auto simp: maps_def detach_ent detach_pre_def)

lemma detach_swapped:
  assumes pre: "detach_pre X s sid v te h bm bs"
  shows "swapped (detach s sid v te h bm bs) ow w j \<longleftrightarrow> swapped s ow w j \<and> \<not> (ow = sid \<and> w = v)"
  using pre by (auto simp: swapped_def detach_ent detach_pre_def)


text \<open>What the invariant says of the frame and the swap frame that are left.\<close>

lemma detach_records:
  assumes inv: "vm_inv_except X s" and e: "ent (spaces s) sid v = Some te"
  shows "valid te \<Longrightarrow> physicalPage te < NumPhysPages \<and> owners_page_number (Frames s (physicalPage te)) = v \<and>
      (\<exists>os. owners (Frames s (physicalPage te)) = Some os \<and> sid \<in> set os)"
    "te_File te = Some (swapFile s) \<Longrightarrow> te_offset te div PageSize < NumSwapPages \<and>
      te_offset te = te_offset te div PageSize * PageSize \<and>
      owners_page_number (swapFrames s (te_offset te div PageSize)) = v \<and>
      (\<exists>os. owners (swapFrames s (te_offset te div PageSize)) = Some os \<and> sid \<in> set os)"
proof -
  show "physicalPage te < NumPhysPages \<and> owners_page_number (Frames s (physicalPage te)) = v \<and>
      (\<exists>os. owners (Frames s (physicalPage te)) = Some os \<and> sid \<in> set os)" if "valid te"
  proof -
    have "maps s sid v (physicalPage te)" using e that by (auto simp: maps_def)
    with maps_owned [OF inv this] show ?thesis by blast
  qed
  assume "te_File te = Some (swapFile s)"
  from swap_entryD [OF inv e this] obtain k where "k < NumSwapPages" "te_offset te = k * PageSize"
    "frame_owner (swapFrames s) k sid v" by blast
  then show "te_offset te div PageSize < NumSwapPages \<and>
      te_offset te = te_offset te div PageSize * PageSize \<and>
      owners_page_number (swapFrames s (te_offset te div PageSize)) = v \<and>
      (\<exists>os. owners (swapFrames s (te_offset te div PageSize)) = Some os \<and> sid \<in> set os)"
    by (auto simp: frame_owner_def PageSize_def SectorSize_def)
qed

lemma detach_frame_owner:
  assumes pre: "detach_pre X s sid v te h bm bs" and g: "g < NumPhysPages"
  shows "frame_owner (Frames (detach s sid v te h bm bs)) g ow w \<longleftrightarrow> maps s ow w g \<and> \<not> (ow = sid \<and> w = v)"
proof -
  from pre have inv: "vm_inv_except X s" and e: "ent (spaces s) sid v = Some te" by (simp_all add: detach_pre_def)
  have fo: "frame_owner (Frames s) g ow w \<longleftrightarrow> maps s ow w g" if "g < NumPhysPages" for g ow w
    using inv that by (simp add: vm_inv_except_def owner_inv_def)
  show ?thesis
  proof (cases "valid te")
    case True
    note r = detach_records(1) [OF inv e True]
    have "\<not> frame_owner (Frames s) g' sid v" if "g' < NumPhysPages" "g' \<noteq> physicalPage te" for g'
      using fo [OF that(1)] e that(2) True by (auto simp: maps_def)
    moreover have "frame_owner ((Frames s)(physicalPage te := rest_frame (Frames s (physicalPage te)) sid)) g ow w \<longleftrightarrow>
      frame_owner (Frames s) g ow w \<and> \<not> (ow = sid \<and> w = v)"
    proof (cases "g = physicalPage te")
      case True
      with r rest_frame_set [of "Frames s g" sid ow] show ?thesis
        by (auto simp: frame_owner_def rest_frame_owner)
    next
      case False
      with calculation [OF g] show ?thesis by (auto simp: frame_owner_def)
    qed
    ultimately show ?thesis using True fo [OF g] by (simp add: detach_def)
  next
    case False
    with e fo [OF g] show ?thesis by (auto simp: detach_def maps_def)
  qed
qed

lemma detach_swap_owner:
  assumes pre: "detach_pre X s sid v te h bm bs" and g: "g < NumSwapPages"
  shows "frame_owner (swapFrames (detach s sid v te h bm bs)) g ow w \<longleftrightarrow> swapped s ow w g \<and> \<not> (ow = sid \<and> w = v)"
proof -
  from pre have inv: "vm_inv_except X s" and e: "ent (spaces s) sid v = Some te" by (simp_all add: detach_pre_def)
  have fo: "frame_owner (swapFrames s) g ow w \<longleftrightarrow> swapped s ow w g" if "g < NumSwapPages" for g ow w
    using inv that by (simp add: vm_inv_except_def owner_inv_def)
  let ?k = "te_offset te div PageSize"
  show ?thesis
  proof (cases "te_File te = Some (swapFile s)")
    case True
    note r = detach_records(2) [OF inv e True]
    have "frame_owner ((swapFrames s)(?k := rest_frame (swapFrames s ?k) sid)) g ow w \<longleftrightarrow>
      frame_owner (swapFrames s) g ow w \<and> \<not> (ow = sid \<and> w = v)"
    proof (cases "g = ?k")
      case True
      with r rest_frame_set [of "swapFrames s g" sid ow] show ?thesis
        by (auto simp: frame_owner_def rest_frame_owner)
    next
      case False
      have "\<not> frame_owner (swapFrames s) g sid v"
        using fo [OF g] e False by (auto simp: swapped_def PageSize_def SectorSize_def)
      with False show ?thesis by (auto simp: frame_owner_def)
    qed
    with True fo [OF g] show ?thesis by (simp add: detach_def)
  next
    case False
    with e fo [OF g] show ?thesis by (auto simp: detach_def swapped_def)
  qed
qed


lemma detach_alloc:
  assumes pre: "detach_pre X s sid v te h bm bs" shows "alloc_inv (detach s sid v te h bm bs)"
proof -
  from pre have inv: "vm_inv_except X s" and e: "ent (spaces s) sid v = Some te" by (simp_all add: detach_pre_def)
  from inv have al: "alloc_inv s" by (rule vm_inv_parts)
  have 1: "bm_wf bm" "numBits bm = NumPhysPages"
    using al pre by (auto simp: detach_pre_def alloc_inv_def rest_flags_def split: if_splits)
  have 2: "bm_wf bs" "numBits bs = NumSwapPages"
    using al pre by (auto simp: detach_pre_def alloc_inv_def rest_flags_def split: if_splits)
  have 3: "record_ok (Frames (detach s sid v te h bm bs) f)" if "f < NumPhysPages" for f
    using al that detach_records(1) [OF inv e] by (auto simp: detach_def alloc_inv_def intro: rest_frame_ok)
  have 4: "record_ok (swapFrames (detach s sid v te h bm bs) f)" if "f < NumSwapPages" for f
    using al that detach_records(2) [OF inv e] by (auto simp: detach_def alloc_inv_def intro: rest_frame_ok)
  have 5: "f \<in> allocated bm" if "f < NumPhysPages" "owners (Frames (detach s sid v te h bm bs) f) \<noteq> None" for f
    using al pre that detach_records(1) [OF inv e]
    by (auto simp: detach_def detach_pre_def alloc_inv_def rest_flags_def split: if_splits)
  have 6: "f \<in> allocated bs" if "f < NumSwapPages" "owners (swapFrames (detach s sid v te h bm bs) f) \<noteq> None" for f
    using al pre that detach_records(2) [OF inv e]
    by (auto simp: detach_def detach_pre_def alloc_inv_def rest_flags_def split: if_splits)
  show ?thesis unfolding alloc_inv_def using 1 2 3 4 5 6 by (intro conjI allI impI) simp_all
qed

lemma detach_inv:
  assumes pre: "detach_pre X s sid v te h bm bs"
  shows "vm_inv_except X (detach s sid v te h bm bs)"
  unfolding vm_inv_except_def
proof (intro conjI)
  let ?t = "detach s sid v te h bm bs"
  note cases = detach_cases [OF pre, consumes 1, case_names old new]
  from pre have inv: "vm_inv_except X s" and e0: "ent (spaces s) sid v = Some te" by (simp_all add: detach_pre_def)
  from inv have oi: "owner_inv s" by (rule vm_inv_parts)
  show "alloc_inv ?t" by (rule detach_alloc [OF pre])
  show "owner_inv ?t"
    unfolding owner_inv_def detach_maps [OF pre] detach_swapped [OF pre]
  proof (intro conjI allI impI)
    show "length (pageTable a) = numPages a" if "spaces ?t sid' = Some a" for sid' a
      using that oi unfolding detach_def owner_inv_def by (auto dest: upd_spaces_wf)
    show "g < NumPhysPages" if "maps s ow w g \<and> \<not> (ow = sid \<and> w = v)" for ow w g
      using that oi unfolding owner_inv_def by blast
    fix ow w te' assume e: "ent (spaces ?t) ow w = Some te'" "te_File te' = Some (swapFile ?t)"
    from e have "ent (spaces s) ow w = Some te'" by (cases rule: cases) auto
    with swap_entryD [OF inv this] e show "\<not> te_zero te'" "\<exists>k<NumSwapPages. te_offset te' = k * PageSize"
      by auto
  qed (use detach_frame_owner [OF pre] detach_swap_owner [OF pre] in simp_all)
  show "share_inv ?t"
    unfolding share_inv_def
  proof (intro allI conjI impI)
    fix o1 o2 w te1 te2
    assume e: "ent (spaces ?t) o1 w = Some te1" "ent (spaces ?t) o2 w = Some te2" and ne: "o1 \<noteq> o2"
    have old: "ent (spaces s) ow w = Some te'"
      if "ent (spaces ?t) ow w = Some te'" "valid te' \<or> te_File te' = Some (swapFile s)" for ow te'
      using that by (cases rule: cases) auto
    show "backing_attrs te1 = backing_attrs te2" "cow te1"
      if "valid te1" "valid te2" "physicalPage te1 = physicalPage te2"
      using share_frameD [OF inv old [OF e(1)] old [OF e(2)]] that ne by simp_all
    show "place te1 = place te2" "cow te1"
      if "te_File te1 = Some (swapFile ?t)" "te_File te2 = Some (swapFile ?t)" "te_offset te1 = te_offset te2"
      using share_swapD [OF inv old [OF e(1)] old [OF e(2)]] that ne by simp_all
  qed
  show "content_inv X ?t"
    unfolding content_inv_def
  proof (intro allI conjI impI)
    fix ow w te' assume e: "ent (spaces ?t) ow w = Some te'"
    show "te_offset te' + PageSize \<le> f_len (files ?t g)" if "te_File te' = Some g" "\<not> te_zero te'" for g
      using e
    proof (cases rule: cases)
      case old
      with content_lenD [OF inv] that show ?thesis by simp
    next
      case new
      with that pre content_lenD [OF inv e0] show ?thesis
        by (auto simp: detach_pre_def split: if_splits)
    qed
    assume v: "valid te'" "\<not> dirty te'" "(ow, w) \<notin> X"
    with e have e': "ent (spaces s) ow w = Some te'" by (cases rule: cases) auto
    show "has_backing te'" by (rule content_cleanD(1) [OF inv e' v])
    show "page_bytes (mainMemory ?t) (physicalPage te') i = backing (files ?t) te' i" if "i < PageSize" for i
      using content_cleanD(2) [OF inv e' v that] by simp
  qed
qed

lemma detach_vbyte:
  assumes "\<not> (ow = sid \<and> w = v)"
  shows "vbyte (detach s sid v te h bm bs) ow w i = vbyte s ow w i"
  using assms by (simp only: vbyte_def detach_ent if_False detach_sel)

section \<open>A frame of one's own\<close>

text \<open>
  Page \<open>v\<close> of \<open>sid\<close>, not resident and not in the swap file, takes the free frame \<open>d\<close> with contents \<open>b\<close>.
  Nothing is known of its backing, so the page is exempt from the clean-page condition.
\<close>

definition attach ::
  "'a vm_scheme \<Rightarrow> nat \<Rightarrow> nat \<Rightarrow> nat \<Rightarrow> (nat \<Rightarrow> byte) \<Rightarrow> (TranslationEntry \<Rightarrow> TranslationEntry) \<Rightarrow> 'a vm_scheme" where
  "attach s d sid v b h = map_in s d [sid] v b h"

definition attach_pre ::
  "(nat \<times> nat) set \<Rightarrow> 'a vm_scheme \<Rightarrow> nat \<Rightarrow> nat \<Rightarrow> nat \<Rightarrow> (TranslationEntry \<Rightarrow> TranslationEntry) \<Rightarrow> bool" where
  "attach_pre X s d sid v h \<longleftrightarrow>
     vm_inv_except X s \<and> d < NumPhysPages \<and> d \<in> allocated (page_flags s) \<and> owners (Frames s d) = None \<and>
     (sid, v) \<in> X \<and>
     (\<exists>te. ent (spaces s) sid v = Some te \<and> \<not> valid te \<and> te_File te \<noteq> Some (swapFile s) \<and>
        valid (h te) \<and> physicalPage (h te) = d \<and> te_File (h te) = te_File te \<and>
        te_offset (h te) = te_offset te \<and> te_zero (h te) = te_zero te)"

lemma attach_unmapped:
  assumes "attach_pre X s d sid v h" shows "\<not> maps s ow w d"
proof
  assume "maps s ow w d"
  with maps_owned(2) [of X s ow w d] assms show False by (auto simp: attach_pre_def)
qed

lemma attach_cases:
  assumes "attach_pre X s d sid v h" "ent (spaces (attach s d sid v b h)) ow w = Some te'"
  obtains (old) "\<not> (ow = sid \<and> w = v)" "ent (spaces s) ow w = Some te'"
      "valid te' \<Longrightarrow> physicalPage te' \<noteq> d"
  | (new) te where "ow = sid" "w = v" "ent (spaces s) sid v = Some te" "te' = h te" "valid te'"
      "physicalPage te' = d" "te_File te' = te_File te" "te_offset te' = te_offset te"
      "te_zero te' = te_zero te" "te_File te' \<noteq> Some (swapFile s)"
proof (cases "ow = sid \<and> w = v")
  case True
  with assms new show ?thesis by (auto simp: attach_pre_def attach_def map_in_ent)
next
  case False
  then have "\<not> (ow \<in> set [sid] \<and> w = v)" by simp
  with assms(2) have "ent (spaces s) ow w = Some te'" unfolding attach_def by (simp only: map_in_ent if_False)
  with False old attach_unmapped [OF assms(1), of ow w] show ?thesis by (auto simp: maps_def)
qed


lemma attach_sel [simp]:
  "page_flags (attach s d sid v b h) = page_flags s"
  "frame_flags (attach s d sid v b h) = frame_flags s"
  "swapFrames (attach s d sid v b h) = swapFrames s"
  "swapFile (attach s d sid v b h) = swapFile s"
  "files (attach s d sid v b h) = files s"
  "Frames (attach s d sid v b h) =
     (Frames s)(d := \<lparr>owners = Some [sid], numOwners = 1, owners_page_number = v\<rparr>)"
  by (simp_all add: attach_def)

lemma attach_bytes:
  "i < PageSize \<Longrightarrow> page_bytes (mainMemory (attach s d sid v b h)) f i =
    (if f = d then b i else page_bytes (mainMemory s) f i)"
  by (simp add: attach_def map_in_bytes)

lemma attach_ent:
  "ent (spaces (attach s d sid v b h)) ow w =
     (if ow = sid \<and> w = v then map_option h (ent (spaces s) ow w) else ent (spaces s) ow w)"
  by (simp add: attach_def map_in_ent)

lemma attach_maps:
  assumes pre: "attach_pre X s d sid v h"
  shows "maps (attach s d sid v b h) ow w f \<longleftrightarrow> (if f = d then ow = sid \<and> w = v else maps s ow w f)"
proof -
  from pre obtain te where te: "ent (spaces s) sid v = Some te" "\<not> valid te" "valid (h te)" "physicalPage (h te) = d"
    by (auto simp: attach_pre_def)
  show ?thesis
  proof (cases "ow = sid \<and> w = v")
    case True
    with te show ?thesis by (auto simp: maps_def attach_ent)
  next
    case False
    then have "ent (spaces (attach s d sid v b h)) ow w = ent (spaces s) ow w" by (simp only: attach_ent if_False)
    with False attach_unmapped [OF pre, of ow w] show ?thesis by (auto simp: maps_def)
  qed
qed

lemma attach_swapped:
  assumes pre: "attach_pre X s d sid v h"
  shows "swapped (attach s d sid v b h) = swapped s"
proof (intro ext)
  fix ow w k
  from pre obtain te where te: "ent (spaces s) sid v = Some te" "te_File te \<noteq> Some (swapFile s)"
      "te_File (h te) = te_File te"
    by (auto simp: attach_pre_def)
  then show "swapped (attach s d sid v b h) ow w k = swapped s ow w k"
    by (auto simp: swapped_def attach_ent)
qed

lemma attach_inv:
  assumes pre: "attach_pre X s d sid v h"
  shows "vm_inv_except X (attach s d sid v b h)"
  unfolding vm_inv_except_def
proof (intro conjI)
  let ?t = "attach s d sid v b h"
  note cases = attach_cases [OF pre, consumes 1, case_names old new]
  from pre have inv: "vm_inv_except X s" and d: "d < NumPhysPages" by (simp_all add: attach_pre_def)
  from inv have oi: "owner_inv s" by (rule vm_inv_parts)
  show "alloc_inv ?t"
    using pre by (auto simp: attach_pre_def vm_inv_except_def alloc_inv_def record_ok_def)
  show "owner_inv ?t"
    unfolding owner_inv_def attach_maps [OF pre] attach_swapped [OF pre]
  proof (intro conjI allI impI)
    show "length (pageTable a) = numPages a" if "spaces ?t sid' = Some a" for sid' a
      using that oi unfolding attach_def map_in_def owner_inv_def by (auto dest: upd_spaces_wf)
    show "frame_owner (Frames ?t) g ow w \<longleftrightarrow> (if g = d then ow = sid \<and> w = v else maps s ow w g)"
      if "g < NumPhysPages" for g ow w
      using that oi unfolding owner_inv_def by (auto simp: frame_owner_def)
    show "g < NumPhysPages" if "if g = d then ow = sid \<and> w = v else maps s ow w g" for ow w g
      using that oi d unfolding owner_inv_def by (auto split: if_splits)
    show "frame_owner (swapFrames ?t) j ow w \<longleftrightarrow> swapped s ow w j" if "j < NumSwapPages" for j ow w
      using that oi unfolding owner_inv_def by simp
    fix ow w te' assume e: "ent (spaces ?t) ow w = Some te'" "te_File te' = Some (swapFile ?t)"
    from e have "ent (spaces s) ow w = Some te'" by (cases rule: cases) auto
    with swap_entryD [OF inv this] e show "\<not> te_zero te'" "\<exists>k<NumSwapPages. te_offset te' = k * PageSize"
      by auto
  qed
  show "share_inv ?t"
    unfolding share_inv_def
  proof (intro allI conjI impI)
    fix o1 o2 w te1 te2
    assume e: "ent (spaces ?t) o1 w = Some te1" "ent (spaces ?t) o2 w = Some te2" and ne: "o1 \<noteq> o2"
    show "backing_attrs te1 = backing_attrs te2" "cow te1"
      if v: "valid te1" "valid te2" "physicalPage te1 = physicalPage te2"
    proof -
      have "physicalPage te1 \<noteq> d"
        using attach_maps [OF pre, where b = b and ow = o1 and w = w and f = d]
          attach_maps [OF pre, where b = b and ow = o2 and w = w and f = d] e v ne
        by (auto simp: maps_def)
      then have "ent (spaces s) o1 w = Some te1" "ent (spaces s) o2 w = Some te2"
        using e v by - (cases rule: cases; simp)+
      from share_frameD [OF inv this v ne] show "backing_attrs te1 = backing_attrs te2" "cow te1" .
    qed
    show "place te1 = place te2" "cow te1"
      if f: "te_File te1 = Some (swapFile ?t)" "te_File te2 = Some (swapFile ?t)" "te_offset te1 = te_offset te2"
    proof -
      have "ent (spaces s) o1 w = Some te1" "ent (spaces s) o2 w = Some te2"
        using e f by - (cases rule: cases; simp)+
      with share_swapD [OF inv this] f ne show "place te1 = place te2" "cow te1" by simp_all
    qed
  qed
  show "content_inv X ?t"
    unfolding content_inv_def
  proof (intro allI conjI impI)
    fix ow w te' assume e: "ent (spaces ?t) ow w = Some te'"
    show "te_offset te' + PageSize \<le> f_len (files ?t g)" if "te_File te' = Some g" "\<not> te_zero te'" for g
      using e that content_lenD [OF inv] by (cases rule: cases) auto
    assume v: "valid te'" "\<not> dirty te'" "(ow, w) \<notin> X"
    with e pre have e': "ent (spaces s) ow w = Some te'" "physicalPage te' \<noteq> d"
      by (cases rule: cases; auto simp: attach_pre_def)+
    show "has_backing te'" by (rule content_cleanD(1) [OF inv e'(1) v])
    show "page_bytes (mainMemory ?t) (physicalPage te') i = backing (files ?t) te' i" if "i < PageSize" for i
      using content_cleanD(2) [OF inv e'(1) v that] e'(2) that by (simp add: attach_bytes)
  qed
qed

lemma attach_vbyte:
  assumes pre: "attach_pre X s d sid v h" and i: "i < PageSize"
  shows "vbyte (attach s d sid v b h) ow w i = (if ow = sid \<and> w = v then Some (b i) else vbyte s ow w i)"
proof -
  from pre obtain te where te: "ent (spaces s) sid v = Some te" "valid (h te)" "physicalPage (h te) = d"
    by (auto simp: attach_pre_def)
  show ?thesis
  proof (cases "ow = sid \<and> w = v")
    case True
    with te i show ?thesis by (simp add: vbyte_def attach_ent te_byte_def attach_bytes)
  next
    case False
    then have e: "ent (spaces (attach s d sid v b h)) ow w = ent (spaces s) ow w" by (simp only: attach_ent if_False)
    have "te_byte (mainMemory (attach s d sid v b h)) (files s) te' i = te_byte (mainMemory s) (files s) te' i"
      if "ent (spaces s) ow w = Some te'" for te'
      using that attach_unmapped [OF pre, of ow w] i by (auto simp: te_byte_def attach_bytes maps_def)
    with False e show ?thesis by (cases "ent (spaces s) ow w") (auto simp: vbyte_def)
  qed
qed

section \<open>The last owner\<close>

lemma backing_cow [simp]: "backing fls (te\<lparr>cow := c\<rparr>) = backing fls te"
  by (simp add: backing_def fun_eq_iff cong: option.case_cong)

lemma te_byte_cow [simp]: "te_byte mem fls (te\<lparr>cow := c\<rparr>) = te_byte mem fls te"
  by (simp add: te_byte_def fun_eq_iff)

lemma cow_off_inv:
  assumes inv: "vm_inv_except X s" and e0: "ent (spaces s) ow v = Some te" "valid te"
    and sole: "\<And>ow'. maps s ow' v (physicalPage te) \<Longrightarrow> ow' = ow"
  shows "vm_inv_except X (s\<lparr>spaces := upd_spaces {ow} v (\<lambda>te. te\<lparr>cow := False\<rparr>) (spaces s)\<rparr>)"
    (is "vm_inv_except X ?t")
  unfolding vm_inv_except_def
proof (intro conjI)
  have ent: "\<exists>te0. ent (spaces s) o1 w = Some te0 \<and> te' = (if o1 = ow \<and> w = v then te0\<lparr>cow := False\<rparr> else te0)"
    if "ent (spaces ?t) o1 w = Some te'" for o1 w te'
    using that by (auto split: if_splits)
  have maps: "maps ?t = maps s" by (auto simp: maps_def fun_eq_iff)
  have swapped: "swapped ?t = swapped s" by (auto simp: swapped_def fun_eq_iff)
  show "alloc_inv ?t" using inv by (simp add: vm_inv_except_def alloc_inv_def)
  from inv have oi: "owner_inv s" by (rule vm_inv_parts)
  show "owner_inv ?t"
    unfolding owner_inv_def maps swapped
  proof (intro conjI allI impI)
    show "length (pageTable a) = numPages a" if "spaces ?t sid' = Some a" for sid' a
      using that oi unfolding owner_inv_def by (auto dest: upd_spaces_wf)
    fix o1 w te' assume e: "ent (spaces ?t) o1 w = Some te'" "te_File te' = Some (swapFile ?t)"
    from ent [OF e(1)] obtain te0 where "ent (spaces s) o1 w = Some te0" "te_File te0 = te_File te'"
      "te_zero te0 = te_zero te'" "te_offset te0 = te_offset te'" by (auto split: if_splits)
    with swap_entryD [OF inv this(1)] e show "\<not> te_zero te'" "\<exists>k<NumSwapPages. te_offset te' = k * PageSize"
      by auto
  qed (use oi in \<open>auto simp: owner_inv_def\<close>)
  show "share_inv ?t"
    unfolding share_inv_def
  proof (intro allI conjI impI)
    fix o1 o2 w te1 te2
    assume e: "ent (spaces ?t) o1 w = Some te1" "ent (spaces ?t) o2 w = Some te2" and ne: "o1 \<noteq> o2"
    from ent [OF e(1)] ent [OF e(2)] obtain t1 t2 where
      t: "ent (spaces s) o1 w = Some t1" "ent (spaces s) o2 w = Some t2"
      and te: "te1 = (if o1 = ow \<and> w = v then t1\<lparr>cow := False\<rparr> else t1)"
        "te2 = (if o2 = ow \<and> w = v then t2\<lparr>cow := False\<rparr> else t2)" by blast
    have other: "\<not> (o1 = ow \<and> w = v)" if "place t2 = place t1"
      using t e0 ne sole [of o2] that by (auto simp: maps_def place_def split: if_splits)
    have fields: "backing_attrs te1 = backing_attrs t1" "backing_attrs te2 = backing_attrs t2"
      "place te1 = place t1" "place te2 = place t2"
      by (simp_all add: te backing_attrs_def place_def)
    show "backing_attrs te1 = backing_attrs te2" "cow te1"
      if "valid te1" "valid te2" "physicalPage te1 = physicalPage te2"
    proof -
      from that te have v: "valid t1" "valid t2" "physicalPage t1 = physicalPage t2" by (auto split: if_splits)
      from share_frameD [OF inv t v ne] fields te(1) other v
      show "backing_attrs te1 = backing_attrs te2" "cow te1" by (simp_all add: place_def)
    qed
    show "place te1 = place te2" "cow te1"
      if "te_File te1 = Some (swapFile ?t)" "te_File te2 = Some (swapFile ?t)" "te_offset te1 = te_offset te2"
    proof -
      from that te have v: "te_File t1 = Some (swapFile s)" "te_File t2 = Some (swapFile s)"
        "te_offset t1 = te_offset t2" by (auto split: if_splits)
      from share_swapD [OF inv t v ne] fields te(1) other
      show "place te1 = place te2" "cow te1" by simp_all
    qed
  qed
  show "content_inv X ?t"
    unfolding content_inv_def
  proof (intro allI conjI impI)
    fix o1 w te' assume e: "ent (spaces ?t) o1 w = Some te'"
    from ent [OF this] obtain te0 where t0: "ent (spaces s) o1 w = Some te0"
        "te' = (if o1 = ow \<and> w = v then te0\<lparr>cow := False\<rparr> else te0)" by blast
    show "te_offset te' + PageSize \<le> f_len (files ?t g)" if "te_File te' = Some g" "\<not> te_zero te'" for g
      using content_lenD [OF inv t0(1)] t0(2) that by (auto split: if_splits)
    assume v: "valid te'" "\<not> dirty te'" "(o1, w) \<notin> X"
    show "has_backing te'" using content_cleanD(1) [OF inv t0(1)] t0(2) v
      by (auto simp: has_backing_def split: if_splits)
    have "backing (files ?t) te' i = backing (files s) te0 i" for i
      using t0(2) by simp
    then show "page_bytes (mainMemory ?t) (physicalPage te') i = backing (files ?t) te' i" if "i < PageSize" for i
      using content_cleanD(2) [OF inv t0(1), of i] t0(2) v that by (auto split: if_splits)
  qed
qed


lemma cow_off_vbyte:
  "vbyte (s\<lparr>spaces := upd_spaces S v (\<lambda>te. te\<lparr>cow := c\<rparr>) (spaces s)\<rparr>) = vbyte s"
  by (simp add: vbyte_def fun_eq_iff option.map_comp comp_def)

text \<open>
  The fragment the kernel uses for this. It changes nothing but a copy-on-write bit, whatever
  frame it is given.
\<close>

lemma unshare_last_ok:
  fixes s :: "'a vm_scheme"
  assumes inv: "vm_inv_except X s" and f: "f < NumPhysPages"
  obtains S w where
    "\<forall>t :: 'a vm_scheme. Frames t = Frames s \<longrightarrow> (\<forall>ow w. ent (spaces t) ow w = None \<longrightarrow> ent (spaces s) ow w = None) \<longrightarrow>
      unshare_last t (int f) = Inr (t\<lparr>spaces := upd_spaces S w (\<lambda>te. te\<lparr>cow := False\<rparr>) (spaces t)\<rparr>)"
    "vm_inv_except X (s\<lparr>spaces := upd_spaces S w (\<lambda>te. te\<lparr>cow := False\<rparr>) (spaces s)\<rparr>)"
    "\<forall>ow \<in> S. maps s ow w f"
proof (cases "numOwners (Frames s f) = 1")
  case False
  then have "unshare_last t (int f) = Inr t" if "Frames t = Frames s" for t :: "'a vm_scheme"
    using f that by (simp add: unshare_last_def getNumOwners_def frame_at_def)
  then show ?thesis using inv by (intro that [of "{}"]) simp_all
next
  case True
  from inv f have "record_ok (Frames s f)" by (simp add: vm_inv_except_def alloc_inv_def)
  with True obtain ow where os: "owners (Frames s f) = Some [ow]"
    by (auto simp: record_ok_def length_Suc_conv split: option.splits)
  let ?w = "owners_page_number (Frames s f)"
  note fo = frame_owners [OF inv f os]
  from fo(4) [of ow] obtain te where te: "ent (spaces s) ow ?w = Some te" "valid te" "physicalPage te = f"
    by (auto simp: maps_def)
  have "unshare_last t (int f) = Inr (t\<lparr>spaces := upd_spaces {ow} ?w (\<lambda>te. te\<lparr>cow := False\<rparr>) (spaces t)\<rparr>)"
    if "Frames t = Frames s" "\<And>ow w. ent (spaces t) ow w = None \<Longrightarrow> ent (spaces s) ow w = None"
    for t :: "'a vm_scheme"
  proof -
    from that(2) [of ow ?w] te(1) obtain te' where "ent (spaces t) ow ?w = Some te'" by fastforce
    from f True os upd_te_eq [OF this] that(1) show ?thesis
      by (simp add: unshare_last_def getNumOwners_def frame_at_def get_frame_def)
  qed
  moreover have "vm_inv_except X (s\<lparr>spaces := upd_spaces {ow} ?w (\<lambda>te. te\<lparr>cow := False\<rparr>) (spaces s)\<rparr>)"
    using fo(4) te(3) by (intro cow_off_inv [OF inv te(1,2)]) simp
  moreover have "maps s ow ?w f" using te by (auto simp: maps_def)
  ultimately show ?thesis by (intro that [of "{ow}" ?w]) auto
qed

lemma upd_spaces_commute:
  assumes "\<not> (sid \<in> S \<and> v = w)"
  shows "upd_spaces {sid} v f (upd_spaces S w g sp) = upd_spaces S w g (upd_spaces {sid} v f sp)"
proof
  fix x
  have "xs[w := g (xs ! w), v := f (xs[w := g (xs ! w)] ! v)] =
      xs[v := f (xs ! v), w := g (xs[v := f (xs ! v)] ! w)]" if "v \<noteq> w" for xs :: "TranslationEntry list"
    using that by (simp add: list_update_swap)
  then show "upd_spaces {sid} v f (upd_spaces S w g sp) x = upd_spaces S w g (upd_spaces {sid} v f sp) x"
    using assms by (cases "sp x") (auto simp: upd_spaces_def)
qed

lemma vm_inv_mono: "vm_inv_except X s \<Longrightarrow> X \<subseteq> Y \<Longrightarrow> vm_inv_except Y s"
  unfolding vm_inv_except_def content_inv_def by blast

end
