(* ===== verification/VM_Cow.thy ===== *)
theory VM_Cow
  imports VM_Share
begin

text \<open>
  \<open>AddrSpace::duplicatePage\<close>, the copy in copy-on-write: the page of the running process leaves the
  frame it shares and gets a frame of its own with the same contents. Every process sees the
  memory it saw before.
\<close>

definition dup_leave :: "file_id \<Rightarrow> TranslationEntry \<Rightarrow> TranslationEntry" where
  "dup_leave sw te = te\<lparr>valid := False, te_File := (if te_File te = Some sw then None else te_File te)\<rparr>"

definition dup_entry :: "nat \<Rightarrow> TranslationEntry \<Rightarrow> TranslationEntry" where
  "dup_entry d te = clearRefHistory (setTime (clearSC (te\<lparr>cow := False, valid := True, physicalPage := d\<rparr>)) 0)"

lemma dup_entry_fields [simp]:
  "valid (dup_entry d te)" "physicalPage (dup_entry d te) = d" "\<not> cow (dup_entry d te)"
  "te_File (dup_entry d te) = te_File te" "te_offset (dup_entry d te) = te_offset te"
  "te_zero (dup_entry d te) = te_zero te" "dirty (dup_entry d te) = dirty te"
  "readOnly (dup_entry d te) = readOnly te"
  by (simp_all add: dup_entry_def clearRefHistory_def setTime_def clearSC_def)

lemma dup_entry_leave: "dup_entry d (te\<lparr>te_File := x\<rparr>) = dup_entry d (te\<lparr>valid := False, te_File := x\<rparr>)"
  by (simp add: dup_entry_def)

text \<open>The steps of the code up to the last entry update, on the state \<open>t\<close> that \<open>take_frame\<close> left.\<close>

definition dup_start :: "'a vm_scheme \<Rightarrow> nat \<Rightarrow> nat \<Rightarrow> nat \<Rightarrow> nat \<Rightarrow> 'a vm_scheme" where
  "dup_start t d f sid v =
     (put_page t d (page_bytes (mainMemory t) f))
       \<lparr>Frames := (Frames t)(d := \<lparr>owners = Some [sid], numOwners = 1, owners_page_number = v\<rparr>)\<rparr>"

lemma add_frame_owner_fresh:
  assumes "d < NumPhysPages" "owners (Frames t d) = None" "numOwners (Frames t d) = 0"
  shows "add_frame_owner t (int d) sid v =
    Inr (0, t\<lparr>Frames := (Frames t)(d := \<lparr>owners = Some [sid], numOwners = 1, owners_page_number = v\<rparr>)\<rparr>)"
  using assms by (simp add: add_frame_owner_def frame_at_def owner_list_def append_owner_def)

lemma detach_at:
  assumes inv: "vm_inv_except X t" and e: "ent (spaces t) sid v = Some loc" and val: "valid loc"
    and d: "d \<noteq> physicalPage loc"
  obtains bm bs where
    "detach_pre X t sid v loc (dup_leave (swapFile t)) bm bs"
    "bind_res (release_page (dup_start t d (physicalPage loc) sid v) (physicalPage loc) sid) (\<lambda>s4.
       if te_File loc = Some (swapFile s4) then
         bind_res (release_frame s4 (te_offset loc) sid) (\<lambda>u.
         upd_te u sid v (\<lambda>te. te\<lparr>te_File := None\<rparr>))
       else Inr s4) =
     Inr ((dup_start t d (physicalPage loc) sid v)\<lparr>page_flags := bm, frame_flags := bs,
       Frames := (Frames (detach t sid v loc (dup_leave (swapFile t)) bm bs))
         (d := \<lparr>owners = Some [sid], numOwners = 1, owners_page_number = v\<rparr>),
       swapFrames := swapFrames (detach t sid v loc (dup_leave (swapFile t)) bm bs),
       spaces := upd_spaces {sid} v
         (\<lambda>te. if te_File loc = Some (swapFile t) then te\<lparr>te_File := None\<rparr> else te) (spaces t)\<rparr>)"
proof -
  let ?f = "physicalPage loc" and ?s = "dup_start t d (physicalPage loc) sid v"
  let ?k = "te_offset loc div PageSize"
  from inv have al: "alloc_inv t" by (rule vm_inv_parts)
  from detach_records(1) [OF inv e val] obtain os where
    f: "?f < NumPhysPages" "owners (Frames t ?f) = Some os" "sid \<in> set os" by blast
  have "bm_wf (page_flags ?s)" "numBits (page_flags ?s) = NumPhysPages" "record_ok (Frames ?s ?f)"
       "Frames ?s ?f = Frames t ?f" "page_flags ?s = page_flags t"
    using al f d by (auto simp: dup_start_def put_page_def alloc_inv_def)
  with release_page_ok [of ?s ?f os sid] f obtain bm where
    bm: "rest_flags (page_flags t) (Frames t ?f) sid ?f bm" and
    rel: "release_page ?s ?f sid =
       Inr (?s\<lparr>page_flags := bm, Frames := (Frames ?s)(?f := rest_frame (Frames t ?f) sid)\<rparr>)"
    by auto
  let ?s4 = "?s\<lparr>page_flags := bm, Frames := (Frames ?s)(?f := rest_frame (Frames t ?f) sid)\<rparr>"
  show ?thesis
  proof (cases "te_File loc = Some (swapFile t)")
    case True
    from detach_records(2) [OF inv e True] obtain oss where
      k: "?k < NumSwapPages" "te_offset loc = ?k * PageSize" "owners (swapFrames t ?k) = Some oss" "sid \<in> set oss"
      by blast
    have "bm_wf (frame_flags ?s4)" "numBits (frame_flags ?s4) = NumSwapPages" "record_ok (swapFrames ?s4 ?k)"
        "swapFrames ?s4 = swapFrames t" "frame_flags ?s4 = frame_flags t"
      using al k by (auto simp: dup_start_def put_page_def alloc_inv_def)
    with release_frame_ok [of ?s4 ?k oss sid] k obtain bs where
      bs: "rest_flags (frame_flags t) (swapFrames t ?k) sid ?k bs" and
      rf: "release_frame ?s4 (te_offset loc) sid =
         Inr (?s4\<lparr>frame_flags := bs, swapFrames := (swapFrames t)(?k := rest_frame (swapFrames t ?k) sid)\<rparr>)"
      by auto
    have "detach_pre X t sid v loc (dup_leave (swapFile t)) bm bs"
      using inv e val True bm bs by (simp add: detach_pre_def dup_leave_def)
    moreover have "ent (spaces ?s4) sid v = Some loc" "swapFile ?s4 = swapFile t"
      using e by (simp_all add: dup_start_def put_page_def)
    ultimately show ?thesis
      using rel rf True val d
      by (intro that [of bm bs])
        (simp_all add: upd_te_eq, simp add: dup_start_def put_page_def detach_def fun_upd_twist)
  next
    case False
    have "detach_pre X t sid v loc (dup_leave (swapFile t)) bm (frame_flags t)"
      using inv e val False bm by (simp add: detach_pre_def dup_leave_def)
    moreover have "upd_spaces {sid} v (\<lambda>te. te) (spaces t) = spaces t"
      by (auto simp: upd_spaces_def fun_eq_iff map_option_case split: option.splits)
    moreover have "swapFile ?s4 = swapFile t" by (simp add: dup_start_def put_page_def)
    ultimately show ?thesis
      using rel False val d
      by (intro that [of bm "frame_flags t"])
        (simp_all, simp add: dup_start_def put_page_def detach_def fun_upd_twist)
  qed
qed


text \<open>The state \<open>duplicatePage\<close> reaches from \<open>t\<close>.\<close>

definition dup_final ::
  "'a vm_scheme \<Rightarrow> nat \<Rightarrow> nat \<Rightarrow> nat \<Rightarrow> TranslationEntry \<Rightarrow> BitMap \<Rightarrow> BitMap \<Rightarrow> 'a vm_scheme" where
  "dup_final t d sid v loc bm bs =
     attach (detach t sid v loc (dup_leave (swapFile t)) bm bs) d sid v
       (page_bytes (mainMemory t) (physicalPage loc)) (dup_entry d)"

lemma dup_final_pre:
  assumes pre: "detach_pre {(sid, v)} t sid v loc (dup_leave (swapFile t)) bm bs"
    and d: "d < NumPhysPages" "d \<in> allocated (page_flags t)" "owners (Frames t d) = None"
      "d \<noteq> physicalPage loc"
  shows "attach_pre {(sid, v)} (detach t sid v loc (dup_leave (swapFile t)) bm bs) d sid v (dup_entry d)"
proof -
  have "d \<in> allocated bm"
    using pre d by (auto simp: detach_pre_def rest_flags_def split: if_splits)
  moreover have "owners (Frames (detach t sid v loc (dup_leave (swapFile t)) bm bs) d) = None"
    using d by (simp add: detach_def)
  ultimately show ?thesis
    using detach_inv [OF pre] d(1) pre
    by (auto simp: attach_pre_def detach_ent detach_pre_def dup_leave_def)
qed

lemma dup_final_memory:
  assumes pre: "attach_pre {(sid, v)} (detach t sid v loc (dup_leave (swapFile t)) bm bs) d sid v (dup_entry d)"
    and e: "ent (spaces t) sid v = Some loc" "valid loc"
  shows "same_memory t (dup_final t d sid v loc bm bs)"
  unfolding same_memory_def dup_final_def
proof (intro allI impI)
  fix ow w i assume i: "i < PageSize"
  let ?t = "attach (detach t sid v loc (dup_leave (swapFile t)) bm bs) d sid v
    (page_bytes (mainMemory t) (physicalPage loc)) (dup_entry d)"
  show "vbyte ?t ow w i = vbyte t ow w i"
  proof (cases "ow = sid \<and> w = v")
    case True
    then have "vbyte ?t ow w i = Some (page_bytes (mainMemory t) (physicalPage loc) i)"
      by (simp add: attach_vbyte [OF pre i])
    with e True show ?thesis by (simp add: vbyte_def [of t] te_byte_def)
  next
    case False
    then have "vbyte ?t ow w i = vbyte (detach t sid v loc (dup_leave (swapFile t)) bm bs) ow w i"
      unfolding attach_vbyte [OF pre i] by (simp only: if_False)
    with detach_vbyte [OF False] show ?thesis by metis
  qed
qed

lemma dup_final_run:
  fixes s t :: "'a vm_scheme"
  assumes cur: "currentSpace t = Some sid" and e: "ent (spaces t) sid v = Some loc" and val: "valid loc"
    and d: "d < NumPhysPages" "d \<noteq> physicalPage loc" "owners (Frames t d) = None" "numOwners (Frames t d) = 0"
    and inv: "vm_inv_except {(sid, v)} t" and al: "d \<in> allocated (page_flags t)"
    and f0: "ent (spaces s) sid v = Some loc0" "take_frame s (int (physicalPage loc0)) = Inr (d, t)"
  shows "\<exists>bm bs S w. detach_pre {(sid, v)} t sid v loc (dup_leave (swapFile t)) bm bs \<and>
    duplicatePage s sid v = Inr ((dup_final t d sid v loc bm bs)
      \<lparr>spaces := upd_spaces S w (\<lambda>te. te\<lparr>cow := False\<rparr>) (spaces (dup_final t d sid v loc bm bs))\<rparr>) \<and>
    vm_inv_except {(sid, v)} ((dup_final t d sid v loc bm bs)
      \<lparr>spaces := upd_spaces S w (\<lambda>te. te\<lparr>cow := False\<rparr>) (spaces (dup_final t d sid v loc bm bs))\<rparr>)"
proof -
  let ?f = "physicalPage loc"
  from detach_at [OF inv e val d(2)] obtain bm bs where
    pre: "detach_pre {(sid, v)} t sid v loc (dup_leave (swapFile t)) bm bs" and
    run: "bind_res (release_page (dup_start t d ?f sid v) ?f sid) (\<lambda>s4.
       if te_File loc = Some (swapFile s4) then
         bind_res (release_frame s4 (te_offset loc) sid) (\<lambda>u.
         upd_te u sid v (\<lambda>te. te\<lparr>te_File := None\<rparr>))
       else Inr s4) =
     Inr ((dup_start t d ?f sid v)\<lparr>page_flags := bm, frame_flags := bs,
       Frames := (Frames (detach t sid v loc (dup_leave (swapFile t)) bm bs))
         (d := \<lparr>owners = Some [sid], numOwners = 1, owners_page_number = v\<rparr>),
       swapFrames := swapFrames (detach t sid v loc (dup_leave (swapFile t)) bm bs),
       spaces := upd_spaces {sid} v
         (\<lambda>te. if te_File loc = Some (swapFile t) then te\<lparr>te_File := None\<rparr> else te) (spaces t)\<rparr>)"
    (is "_ = Inr ?s5") .
  note apre = dup_final_pre [OF pre d(1) al d(3,2)]
  let ?A = "dup_final t d sid v loc bm bs"
  have invA: "vm_inv_except {(sid, v)} ?A" unfolding dup_final_def by (rule attach_inv [OF apre])
  have fr: "Frames ?s5 = Frames ?A" by (simp add: dup_final_def)
  have en: "ent (spaces ?s5) ow w = None \<Longrightarrow> ent (spaces ?A) ow w = None" for ow w
    by (auto simp: dup_final_def attach_ent detach_ent split: if_splits)
  have f: "?f < NumPhysPages" using detach_records(1) [OF inv e val] by blast
  from unshare_last_ok [OF invA f] obtain S w where
    un: "\<forall>t :: 'a vm_scheme. Frames t = Frames ?A \<longrightarrow>
      (\<forall>ow w. ent (spaces t) ow w = None \<longrightarrow> ent (spaces ?A) ow w = None) \<longrightarrow>
      unshare_last t (int ?f) = Inr (t\<lparr>spaces := upd_spaces S w (\<lambda>te. te\<lparr>cow := False\<rparr>) (spaces t)\<rparr>)"
    and inv': "vm_inv_except {(sid, v)} (?A\<lparr>spaces := upd_spaces S w (\<lambda>te. te\<lparr>cow := False\<rparr>) (spaces ?A)\<rparr>)"
    and S: "\<forall>ow \<in> S. maps ?A ow w ?f" .
  have disj: "\<not> (sid \<in> S \<and> v = w)"
  proof
    assume "sid \<in> S \<and> v = w"
    with S have "maps ?A sid v ?f" by blast
    with e d(2) show False by (auto simp: maps_def dup_final_def attach_ent detach_ent)
  qed
  have u5: "unshare_last ?s5 (int ?f) =
      Inr (?s5\<lparr>spaces := upd_spaces S w (\<lambda>te. te\<lparr>cow := False\<rparr>) (spaces ?s5)\<rparr>)"
    using un fr en by blast
  let ?s6 = "?s5\<lparr>spaces := upd_spaces S w (\<lambda>te. te\<lparr>cow := False\<rparr>) (spaces ?s5)\<rparr>"
  obtain te6 where e6: "ent (spaces ?s6) sid v = Some te6"
    using e by (cases "ent (spaces ?s6) sid v") (auto split: if_splits)
  have seq: "bind_res (release_page (dup_start t d ?f sid v) ?f sid) (\<lambda>s4. bind_res
       (if te_File loc = Some (swapFile s4) then
          bind_res (release_frame s4 (te_offset loc) sid) (\<lambda>u.
          upd_te u sid v (\<lambda>te. te\<lparr>te_File := None\<rparr>))
        else Inr s4) k) = k ?s5" for k :: "'a vm_scheme \<Rightarrow> 'a vm_scheme res"
    unfolding bind_res_assoc [symmetric] run by simp
  have "duplicatePage s sid v = Inr (?s6\<lparr>spaces := upd_spaces {sid} v (dup_entry d) (spaces ?s6)\<rparr>)"
  proof -
    have start: "put_page (t\<lparr>Frames := (Frames t)(d := \<lparr>owners = Some [sid], numOwners = 1,
        owners_page_number = v\<rparr>)\<rparr>) d (page_bytes (mainMemory t) ?f) = dup_start t d ?f sid v"
      by (simp add: dup_start_def put_page_def cong: if_cong)
    have last: "unshare_last ?s5 (int ?f) = Inr ?s6" by (rule u5)
    show ?thesis
      unfolding duplicatePage_def dup_entry_def [symmetric]
      using f0 cur e add_frame_owner_fresh [OF d(1,3,4)] upd_te_eq [OF e6]
      by (simp add: Let_def start seq last del: bind_res_assoc)
  qed
  moreover have "?s6\<lparr>spaces := upd_spaces {sid} v (dup_entry d) (spaces ?s6)\<rparr> =
      ?A\<lparr>spaces := upd_spaces S w (\<lambda>te. te\<lparr>cow := False\<rparr>) (spaces ?A)\<rparr>"
  proof -
    have "upd_spaces {sid} v (dup_entry d) (spaces ?s6) =
        upd_spaces S w (\<lambda>te. te\<lparr>cow := False\<rparr>) (upd_spaces {sid} v (dup_entry d) (spaces ?s5))"
      by (simp add: upd_spaces_commute [OF disj])
    also have "upd_spaces {sid} v (dup_entry d) (spaces ?s5) = spaces ?A"
      using e by (simp add: dup_final_def attach_def map_in_def detach_def upd_spaces_compose)
        (rule upd_spaces_cong, auto simp: dup_leave_def dup_entry_def)
    finally show ?thesis
      by (simp add: dup_final_def attach_def map_in_def detach_def dup_start_def put_page_def cong: if_cong)
  qed
  ultimately show ?thesis using pre inv' by auto
qed


text \<open>
  The page is now in a frame that no other page of any process maps, and no longer
  copy-on-write.
\<close>

definition owns_page :: "'a vm_scheme \<Rightarrow> nat \<Rightarrow> nat \<Rightarrow> bool" where
  "owns_page s sid v \<longleftrightarrow> (\<exists>te. ent (spaces s) sid v = Some te \<and> valid te \<and> \<not> cow te \<and>
     te_File te \<noteq> Some (swapFile s) \<and>
     (\<forall>ow w. maps s ow w (physicalPage te) \<longrightarrow> ow = sid \<and> w = v))"

lemma duplicatePage_ok:
  assumes inv: "vm_inv s" and cur: "currentSpace s = Some sid"
    and e: "ent (spaces s) sid v = Some loc" and val: "valid loc"
    and ready: "frame_ready s (int (physicalPage loc))" "swap_room s"
  shows "\<exists>t. duplicatePage s sid v = Inr t \<and> vm_inv_except {(sid, v)} t \<and> same_memory s t \<and>
    owns_page t sid v \<and> currentSpace t = currentSpace s \<and> currentThread t = currentThread s \<and>
    swapFile t = swapFile s \<and> vm.more t = vm.more s"
proof -
  have m: "maps s sid v (physicalPage loc)" using e val by (auto simp: maps_def)
  note mo = maps_owned [OF inv m]
  have "-1 \<le> int (physicalPage loc)" "int (physicalPage loc) < int NumPhysPages" using mo(1) by simp_all
  from take_frame_ok [OF inv ready this] obtain d t where
    tf: "take_frame s (int (physicalPage loc)) = Inr (d, t)" "vm_inv t" "same_memory s t"
    and tk: "taken s d t" and ne: "int d = int (physicalPage loc) \<longrightarrow> owners (Frames s d) = None"
    by blast
  have dn: "d \<noteq> physicalPage loc" using ne mo(2) by auto
  with m e have "\<not> maps s sid v d" by (auto simp: maps_def)
  with tk e obtain l where l: "ent (spaces t) sid v = Some l" and c: "core l = core loc"
    unfolding taken_def by blast
  have lv: "valid l" "physicalPage l = physicalPage loc" using core_fields [OF c] val by simp_all
  have d: "d < NumPhysPages" "d \<in> allocated (page_flags t)" "owners (Frames t d) = None"
      "numOwners (Frames t d) = 0" "currentSpace t = Some sid"
    using tk cur by (simp_all add: taken_def)
  have inv': "vm_inv_except {(sid, v)} t" using tf(2) by (rule vm_inv_mono) simp
  from dup_final_run [OF d(5) l lv(1) d(1) _ d(3,4) inv' d(2) e tf(1)] dn lv(2) obtain bm bs S w where
    pre: "detach_pre {(sid, v)} t sid v l (dup_leave (swapFile t)) bm bs" and
    run: "duplicatePage s sid v = Inr ((dup_final t d sid v l bm bs)
      \<lparr>spaces := upd_spaces S w (\<lambda>te. te\<lparr>cow := False\<rparr>) (spaces (dup_final t d sid v l bm bs))\<rparr>)" and
    fin: "vm_inv_except {(sid, v)} ((dup_final t d sid v l bm bs)
      \<lparr>spaces := upd_spaces S w (\<lambda>te. te\<lparr>cow := False\<rparr>) (spaces (dup_final t d sid v l bm bs))\<rparr>)"
      (is "vm_inv_except _ ?u")
    by auto
  have apre: "attach_pre {(sid, v)} (detach t sid v l (dup_leave (swapFile t)) bm bs) d sid v (dup_entry d)"
    using dn lv by (intro dup_final_pre [OF pre d(1-3)]) simp
  have "same_memory t ?u"
    using dup_final_memory [OF apre l lv(1)] by (simp add: same_memory_def cow_off_vbyte)
  moreover have "owns_page ?u sid v"
  proof -
    have "\<exists>te. ent (spaces ?u) sid v = Some te \<and> valid te \<and> \<not> cow te \<and> te_File te \<noteq> Some (swapFile t) \<and>
        physicalPage te = d"
    proof -
      have "ent (spaces (dup_final t d sid v l bm bs)) sid v = Some (dup_entry d (dup_leave (swapFile t) l))"
        using l by (simp add: dup_final_def attach_ent detach_ent)
      moreover have "te_File (dup_leave (swapFile t) l) \<noteq> Some (swapFile t)" by (simp add: dup_leave_def)
      ultimately show ?thesis by (cases "sid \<in> S \<and> v = w") auto
    qed
    moreover have "maps ?u ow w' d \<longleftrightarrow> maps (dup_final t d sid v l bm bs) ow w' d" for ow w'
      by (auto simp: maps_def split: if_splits)
    ultimately show ?thesis
      using attach_maps [OF apre, where f = d] by (auto simp: owns_page_def dup_final_def)
  qed
  moreover have "currentSpace ?u = currentSpace s" "currentThread ?u = currentThread s" "swapFile ?u = swapFile s"
      "vm.more ?u = vm.more s"
    using tk by (simp_all add: taken_def dup_final_def attach_def map_in_def put_page_def detach_def)
  ultimately show ?thesis using run fin same_memory_trans [OF tf(3)] by blast
qed

end
