(* ===== verification/Breakpoint.thy ===== *)
theory Breakpoint
  imports Nachos_Prelude
begin

text \<open>
  Breakpoints and watchpoints of the simulated machine, \<open>machine/breakpoint.cc\<close>. The array \<open>set\<close>
  with its \<open>count\<close> is a list (its capacity only grows and is not visible). Addresses are \<open>int\<close>;
  \<open>address + length - 1\<close> is assumed not to overflow.
\<close>

datatype BreakpointType = SoftwareBp | HardwareBp | WriteWp | ReadWp | AccessWp

record Breakpoint =
  bp_start :: int
  bp_end :: int
  bp_type :: BreakpointType

section \<open>Operations\<close>

definition covers :: "Breakpoint \<Rightarrow> int \<Rightarrow> bool" where
  "covers b address \<longleftrightarrow> bp_start b \<le> address \<and> address \<le> bp_end b"

text \<open>The two loops of \<open>BreakpointSet::findAddr\<close>: binary search, then back to the first range.\<close>

function findAddr_loop :: "Breakpoint list \<Rightarrow> int \<Rightarrow> int \<Rightarrow> int \<Rightarrow> int" where
  "findAddr_loop bs address low high =
     (if low \<le> high then
        let mid = (low + high) div 2 in
        if covers (bs ! nat mid) address then mid
        else if address < bp_start (bs ! nat mid) then findAddr_loop bs address low (mid - 1)
        else findAddr_loop bs address (mid + 1) high
      else low)"
  by pat_completeness auto
termination
  by (relation "measure (\<lambda>(bs, address, low, high). nat (high + 1 - low))") auto

declare findAddr_loop.simps [simp del]

fun findAddr_back :: "Breakpoint list \<Rightarrow> int \<Rightarrow> nat \<Rightarrow> nat" where
  "findAddr_back bs address 0 = 0"
| "findAddr_back bs address (Suc low) =
     (if covers (bs ! low) address then findAddr_back bs address low else Suc low)"

definition findAddr :: "Breakpoint list \<Rightarrow> int \<Rightarrow> nat" where
  "findAddr bs address =
     findAddr_back bs address (nat (findAddr_loop bs address 0 (int (length bs) - 1)))"

definition addBreakpoint :: "Breakpoint list \<Rightarrow> int \<Rightarrow> int \<Rightarrow> BreakpointType \<Rightarrow> Breakpoint list" where
  "addBreakpoint bs address len type =
     (let ind = findAddr bs address in
      take ind bs @ \<lparr>bp_start = address, bp_end = address + len - 1, bp_type = type\<rparr> # drop ind bs)"

text \<open>After a removal the loop still advances, over the element that moved into its place.\<close>

function removeBreakpoint_loop ::
  "Breakpoint list \<Rightarrow> int \<Rightarrow> int \<Rightarrow> BreakpointType \<Rightarrow> nat \<Rightarrow> Breakpoint list" where
  "removeBreakpoint_loop bs address len type ind =
     (if ind < length bs \<and> covers (bs ! ind) address then
        if bp_start (bs ! ind) = address \<and> bp_end (bs ! ind) = address + len - 1 \<and>
           bp_type (bs ! ind) = type
        then removeBreakpoint_loop (take ind bs @ drop (Suc ind) bs) address len type (Suc ind)
        else removeBreakpoint_loop bs address len type (Suc ind)
      else bs)"
  by pat_completeness auto
termination
  by (relation "measure (\<lambda>(bs, address, len, type, ind). length bs - ind)") auto

declare removeBreakpoint_loop.simps [simp del]

definition removeBreakpoint :: "Breakpoint list \<Rightarrow> int \<Rightarrow> int \<Rightarrow> BreakpointType \<Rightarrow> Breakpoint list" where
  "removeBreakpoint bs address len type =
     removeBreakpoint_loop bs address len type (findAddr bs address)"

text \<open>Which breakpoints stop an access of each type.\<close>

fun bp_matches :: "BreakpointType \<Rightarrow> BreakpointType \<Rightarrow> bool" where
  "bp_matches SoftwareBp t = (t = SoftwareBp \<or> t = HardwareBp)"
| "bp_matches HardwareBp t = (t = SoftwareBp \<or> t = HardwareBp)"
| "bp_matches WriteWp t = (t = WriteWp \<or> t = AccessWp)"
| "bp_matches ReadWp t = (t = ReadWp \<or> t = AccessWp)"
| "bp_matches AccessWp t = (t = AccessWp)"

fun query_loop :: "Breakpoint list \<Rightarrow> int \<Rightarrow> int \<Rightarrow> BreakpointType \<Rightarrow> int option" where
  "query_loop [] address len type = None"
| "query_loop (b # bs) address len type =
     (if bp_start b \<le> address + len - 1 then
        if bp_matches type (bp_type b)
        then Some (if address < bp_start b then bp_start b else address)
        else query_loop bs address len type
      else None)"

definition queryBreakpoint :: "Breakpoint list \<Rightarrow> int \<Rightarrow> int \<Rightarrow> BreakpointType \<Rightarrow> int option" where
  "queryBreakpoint bs address len type = query_loop (drop (findAddr bs address) bs) address len type"

section \<open>Disjoint ranges in order\<close>

definition bp_wf :: "Breakpoint list \<Rightarrow> bool" where
  "bp_wf bs \<longleftrightarrow> (\<forall>b \<in> set bs. bp_start b \<le> bp_end b) \<and> sorted_wrt (\<lambda>a b. bp_end a < bp_start b) bs"

text \<open>What \<open>findAddr\<close> computes: the number of ranges that end before the address.\<close>

definition splits :: "Breakpoint list \<Rightarrow> int \<Rightarrow> nat \<Rightarrow> bool" where
  "splits bs address k \<longleftrightarrow> k \<le> length bs \<and>
     (\<forall>i < k. bp_end (bs ! i) < address) \<and> (\<forall>i. k \<le> i \<longrightarrow> i < length bs \<longrightarrow> address \<le> bp_end (bs ! i))"

lemma bp_wf_nth:
  assumes "bp_wf bs"
  shows "i < length bs \<Longrightarrow> bp_start (bs ! i) \<le> bp_end (bs ! i)"
    "i < j \<Longrightarrow> j < length bs \<Longrightarrow> bp_end (bs ! i) < bp_start (bs ! j)"
  using assms by (auto simp: bp_wf_def sorted_wrt_iff_nth_less)

lemma bp_wf_end_mono:
  assumes "bp_wf bs" "i \<le> j" "j < length bs"
  shows "bp_end (bs ! i) \<le> bp_end (bs ! j)" "bp_start (bs ! i) \<le> bp_start (bs ! j)"
  using bp_wf_nth(1) [OF assms(1), of i] bp_wf_nth(1) [OF assms(1), of j]
    bp_wf_nth(2) [OF assms(1), of i j] assms(2,3) by (cases "i = j"; simp)+

lemma findAddr_loop_splits:
  assumes "bp_wf bs" "0 \<le> low" "high < int (length bs)" "low \<le> high + 1"
    and "\<And>i. int i < low \<Longrightarrow> bp_end (bs ! i) < address"
    and "\<And>i. high < int i \<Longrightarrow> i < length bs \<Longrightarrow> address < bp_start (bs ! i)"
  shows "0 \<le> findAddr_loop bs address low high \<and>
    splits bs address (nat (findAddr_loop bs address low high))"
  using assms
proof (induction bs address low high rule: findAddr_loop.induct)
  case (1 bs address low high)
  note wf = bp_wf_nth [OF "1.prems"(1)] and mono = bp_wf_end_mono [OF "1.prems"(1)]
  show ?case
  proof (cases "low \<le> high")
    case False
    then have "low = high + 1" using "1.prems" by simp
    then show ?thesis
      using "1.prems" False wf(1)
      by (auto simp: findAddr_loop.simps [of bs address low high] splits_def)
        (force simp: nat_le_iff)
  next
    case True
    define mid where "mid = (low + high) div 2"
    have m: "low \<le> mid" "mid \<le> high" "nat mid < length bs" "0 \<le> mid"
      using True "1.prems" by (auto simp: mid_def)
    consider "covers (bs ! nat mid) address" | "address < bp_start (bs ! nat mid)"
      | "bp_end (bs ! nat mid) < address" unfolding covers_def by linarith
    then show ?thesis
    proof cases
      case 1
      have "bp_end (bs ! i) < address" if "i < nat mid" for i
        using wf(2) [OF that m(3)] 1 by (simp add: covers_def)
      moreover have "address \<le> bp_end (bs ! i)" if "nat mid \<le> i" "i < length bs" for i
        using mono(1) [OF that] 1 by (simp add: covers_def)
      ultimately show ?thesis
        using True 1 m by (simp add: findAddr_loop.simps [of bs address low high] mid_def [symmetric] Let_def splits_def)
    next
      case 2
      then have nc: "\<not> covers (bs ! nat mid) address" by (simp add: covers_def)
      have "address < bp_start (bs ! i)" if "mid - 1 < int i" "i < length bs" for i
      proof -
        have "nat mid \<le> i" using that(1) by linarith
        with mono(2) [OF this that(2)] 2 show ?thesis by simp
      qed
      with "1.IH"(1) [OF True mid_def nc 2] "1.prems" m nc 2 True show ?thesis
        by (simp add: findAddr_loop.simps [of bs address low high] mid_def [symmetric] Let_def)
    next
      case 3
      then have nc: "\<not> covers (bs ! nat mid) address" "\<not> address < bp_start (bs ! nat mid)"
        using wf(1) [OF m(3)] by (auto simp: covers_def)
      have "bp_end (bs ! i) < address" if "int i < mid + 1" for i
      proof -
        have "i \<le> nat mid" using that m by linarith
        with mono(1) [OF this m(3)] 3 show ?thesis by simp
      qed
      with "1.IH"(2) [OF True mid_def nc] "1.prems" m nc True show ?thesis
        by (simp add: findAddr_loop.simps [of bs address low high] mid_def [symmetric] Let_def)
    qed
  qed
qed

lemma findAddr_splits:
  assumes "bp_wf bs" shows "splits bs address (findAddr bs address)"
proof -
  let ?l = "nat (findAddr_loop bs address 0 (int (length bs) - 1))"
  have s: "splits bs address ?l"
    using findAddr_loop_splits [OF assms, of 0 "int (length bs) - 1" address] by simp
  have "findAddr_back bs address ?l = ?l"
    using s by (cases ?l) (auto simp: splits_def covers_def)
  with s show ?thesis by (simp add: findAddr_def)
qed

text \<open>Inserting a range that touches no other keeps the set disjoint and ordered.\<close>

lemma addBreakpoint_wf:
  assumes wf: "bp_wf bs" and len: "1 \<le> len"
    and free: "\<And>b. b \<in> set bs \<Longrightarrow> bp_end b < address \<or> address + len - 1 < bp_start b"
  shows "bp_wf (addBreakpoint bs address len type)"
proof -
  let ?k = "findAddr bs address"
  note s = findAddr_splits [OF wf, of address]
  have 1: "bp_end b < address" if "b \<in> set (take ?k bs)" for b
    using that s by (auto simp: splits_def in_set_conv_nth)
  have 2: "address + len - 1 < bp_start b" if "b \<in> set (drop ?k bs)" for b
  proof -
    from that obtain i where "i < length bs" "?k \<le> i" "b = bs ! i"
      by (auto simp: in_set_conv_nth) (metis add.commute le_add2 less_diff_conv)
    with s free [of b] show ?thesis by (force simp: splits_def)
  qed
  have "sorted_wrt (\<lambda>a b. bp_end a < bp_start b) (take ?k bs @ drop ?k bs)" using wf by (simp add: bp_wf_def)
  with 1 2 wf len show ?thesis
    by (auto simp: bp_wf_def addBreakpoint_def Let_def sorted_wrt_append
        dest: in_set_takeD in_set_dropD) (use len in force)
qed

lemma query_loop_iff:
  assumes "sorted_wrt (\<lambda>a b. bp_start a \<le> bp_start b) bs" "\<And>b. b \<in> set bs \<Longrightarrow> address \<le> bp_end b"
  shows "query_loop bs address len type \<noteq> None \<longleftrightarrow>
    (\<exists>b \<in> set bs. bp_matches type (bp_type b) \<and> bp_start b \<le> address + len - 1 \<and> address \<le> bp_end b)"
  using assms by (induction bs address len type rule: query_loop.induct) force+


section \<open>Properties\<close>

text \<open>
  On a set of disjoint ranges in order, \<open>queryBreakpoint\<close> stops an access to \<open>length\<close> bytes at
  \<open>address\<close> exactly when some breakpoint of a matching type overlaps them, and the address it
  reports lies in the access and in such a breakpoint.
\<close>

theorem queryBreakpoint_correct:
  assumes wf: "bp_wf bs" and len: "1 \<le> len"
  shows "case queryBreakpoint bs address len type of
      None \<Rightarrow> \<not> (\<exists>b \<in> set bs. bp_matches type (bp_type b) \<and> bp_start b \<le> address + len - 1 \<and> address \<le> bp_end b)
    | Some a \<Rightarrow> address \<le> a \<and> a \<le> address + len - 1 \<and>
        (\<exists>b \<in> set bs. bp_matches type (bp_type b) \<and> covers b a)"
proof -
  let ?k = "findAddr bs address"
  note s = findAddr_splits [OF wf, of address]
  have before: "bp_end b < address" if "b \<in> set (take ?k bs)" for b
    using that s by (auto simp: splits_def in_set_conv_nth)
  have after: "address \<le> bp_end b" if "b \<in> set (drop ?k bs)" for b
  proof -
    from that obtain j where "j < length bs - ?k" "b = bs ! (?k + j)" by (auto simp: in_set_conv_nth)
    with s show ?thesis by (simp add: splits_def)
  qed
  have le: "bp_start a \<le> bp_start b" if "bp_end a < bp_start b" "a \<in> set bs" for a b
    using wf that by (force simp: bp_wf_def)
  have "sorted_wrt (\<lambda>a b. bp_end a < bp_start b) (drop ?k bs)"
    using wf by (simp add: bp_wf_def sorted_wrt_drop)
  then have "sorted_wrt (\<lambda>a b. bp_start a \<le> bp_start b) (drop ?k bs)"
    by (rule sorted_wrt_mono_rel [rotated]) (use le in_set_dropD in fast)
  note iff = query_loop_iff [OF this after, of len type]
  have split: "set bs = set (take ?k bs) \<union> set (drop ?k bs)"
    by (metis append_take_drop_id set_append)
  have report: "query_loop cs address len type = Some a \<Longrightarrow> (\<And>b. b \<in> set cs \<Longrightarrow> address \<le> bp_end b) \<Longrightarrow>
      (\<And>b. b \<in> set cs \<Longrightarrow> bp_start b \<le> bp_end b) \<Longrightarrow>
      address \<le> a \<and> a \<le> address + len - 1 \<and> (\<exists>b \<in> set cs. bp_matches type (bp_type b) \<and> covers b a)" for cs a
    using len by (induction cs address len type rule: query_loop.induct) (auto simp: covers_def split: if_splits)
  show ?thesis
  proof (cases "queryBreakpoint bs address len type")
    case None
    with iff have "\<not> (\<exists>b \<in> set (drop ?k bs). bp_matches type (bp_type b) \<and> bp_start b \<le> address + len - 1 \<and> address \<le> bp_end b)"
      by (simp add: queryBreakpoint_def)
    with before split None show ?thesis by force
  next
    case (Some a)
    then have "query_loop (drop ?k bs) address len type = Some a" by (simp add: queryBreakpoint_def)
    moreover have "bp_start b \<le> bp_end b" if "b \<in> set (drop ?k bs)" for b
      using wf in_set_dropD [OF that] by (simp add: bp_wf_def)
    ultimately have "address \<le> a \<and> a \<le> address + len - 1 \<and>
        (\<exists>b \<in> set (drop ?k bs). bp_matches type (bp_type b) \<and> covers b a)"
      using report after by blast
    with Some split show ?thesis by auto
  qed
qed

theorem queryBreakpoint_correct_witness:
  "let bs = addBreakpoint (addBreakpoint [] 100 4 WriteWp) 40 8 HardwareBp in
   queryBreakpoint bs 38 4 SoftwareBp = Some 40 \<and> queryBreakpoint bs 101 1 ReadWp = None"
proof -
  let ?bs = "[\<lparr>bp_start = 40, bp_end = 47, bp_type = HardwareBp\<rparr>,
    \<lparr>bp_start = 100, bp_end = 103, bp_type = WriteWp\<rparr>]"
  have bs: "addBreakpoint (addBreakpoint [] 100 4 WriteWp) 40 8 HardwareBp = ?bs"
    by (simp add: addBreakpoint_def findAddr_def findAddr_loop.simps covers_def Let_def)
  have "bp_wf ?bs" by (simp add: bp_wf_def)
  from queryBreakpoint_correct [where len = 1 and address = 101 and type = ReadWp, OF this]
  have "queryBreakpoint ?bs 101 1 ReadWp = None"
    by (auto split: option.splits)
  moreover from queryBreakpoint_correct [where len = 4 and address = 38 and type = SoftwareBp, OF \<open>bp_wf ?bs\<close>]
  have "queryBreakpoint ?bs 38 4 SoftwareBp \<noteq> None" by (auto split: option.splits)
  then have "queryBreakpoint ?bs 38 4 SoftwareBp = Some 40"
    by (simp add: queryBreakpoint_def findAddr_def findAddr_loop.simps covers_def)
  ultimately show ?thesis using bs by simp
qed

end
