(* ===== verification/Machine.thy ===== *)
theory Machine
  imports VM_Cow Breakpoint "HOL-Library.Signed_Division"
begin

text \<open>
  The simulated machine as user programs see it, \<open>machine/machine.cc\<close> and \<open>machine/translate.cc\<close>:
  registers, exceptions, address translation and memory access, and the kernel's
  \<open>ExceptionHandler\<close> (\<open>userprog/exception.cc\<close>) with demand paging on a page fault. The build has
  no TLB, so \<open>machine->pageTable\<close> is the page table of the running process, which
  \<open>AddrSpace::RestoreState\<close> installs on every context switch. The host is little endian.
\<close>

section \<open>State\<close>

datatype ExceptionType =
    NoException | SyscallException | PageFaultException | ReadOnlyException | BusErrorException
  | AddressErrorException | OverflowException | IllegalInstrException | BreakpointException
  | OutOfMemory | NumExceptionTypes

datatype MachineStatus = IdleMode | SystemMode | UserMode

record machine = vm +
  registers :: "nat \<Rightarrow> uint32"
  breakpoints :: "Breakpoint list"
  mstatus :: MachineStatus
  userTicks :: uint32
  ticksAtLastPageFault :: uint32
  numPageFaults :: uint32
  procPageFaults :: "nat \<Rightarrow> uint32"

definition StackReg :: nat where "StackReg = 29"
definition RetAddrReg :: nat where "RetAddrReg = 31"
definition HiReg :: nat where "HiReg = 32"
definition LoReg :: nat where "LoReg = 33"
definition PCReg :: nat where "PCReg = 34"
definition NextPCReg :: nat where "NextPCReg = 35"
definition PrevPCReg :: nat where "PrevPCReg = 36"
definition LoadReg :: nat where "LoadReg = 37"
definition LoadValueReg :: nat where "LoadValueReg = 38"
definition BadVAddrReg :: nat where "BadVAddrReg = 39"
definition NumTotalRegs :: nat where "NumTotalRegs = 40"

lemmas reg_defs = StackReg_def RetAddrReg_def HiReg_def LoReg_def PCReg_def NextPCReg_def PrevPCReg_def
  LoadReg_def LoadValueReg_def BadVAddrReg_def NumTotalRegs_def

section \<open>Registers\<close>

definition ReadRegister :: "'a machine_scheme \<Rightarrow> int \<Rightarrow> uint32 res" where
  "ReadRegister s num =
     assert_res (0 \<le> num \<and> num < int NumTotalRegs) (\<lambda>_. Inr (registers s (nat num)))"

definition WriteRegister :: "'a machine_scheme \<Rightarrow> int \<Rightarrow> uint32 \<Rightarrow> 'a machine_scheme res" where
  "WriteRegister s num value =
     assert_res (0 \<le> num \<and> num < int NumTotalRegs) (\<lambda>_.
     Inr (s\<lparr>registers := (registers s)(nat num := value)\<rparr>))"

text \<open>\<open>Machine::DelayedLoad\<close>: the pending load takes effect, the next one becomes pending.\<close>

definition DelayedLoad :: "uint32 \<Rightarrow> uint32 \<Rightarrow> 'a machine_scheme \<Rightarrow> 'a machine_scheme res" where
  "DelayedLoad nextReg nextValue s =
     (let target = unat (registers s LoadReg) in
      if target < NumTotalRegs then
        Inr (s\<lparr>registers := ((registers s)(target := registers s LoadValueReg))
               (LoadReg := nextReg, LoadValueReg := nextValue, 0 := 0)\<rparr>)
      else Inl IndexOutOfBounds)"

section \<open>Exceptions\<close>

text \<open>\<open>Machine::RaiseException\<close>, with the kernel's handler as an argument.\<close>

type_synonym 'a handler = "ExceptionType \<Rightarrow> 'a machine_scheme \<Rightarrow> 'a machine_scheme res"

definition RaiseException ::
  "'a handler \<Rightarrow> ExceptionType \<Rightarrow> uint32 \<Rightarrow> 'a machine_scheme \<Rightarrow> 'a machine_scheme res" where
  "RaiseException handler which badVAddr s =
     bind_res (DelayedLoad 0 0 (s\<lparr>registers := (registers s)(BadVAddrReg := badVAddr)\<rparr>)) (\<lambda>s1.
     bind_res (handler which (s1\<lparr>mstatus := SystemMode\<rparr>)) (\<lambda>s2.
     Inr (s2\<lparr>mstatus := mstatus s1\<rparr>)))"

text \<open>
  \<open>ExceptionHandler\<close>: a system call goes to the dispatcher, a page fault brings the page in, any
  other exception ends the thread (no remote debugger is attached).
\<close>

definition handle_page_fault :: "'a machine_scheme \<Rightarrow> 'a machine_scheme res" where
  "handle_page_fault s =
     bind_res (ReadRegister s (int BadVAddrReg)) (\<lambda>virtaddr.
     let s1 = s\<lparr>numPageFaults := numPageFaults s + 1,
                procPageFaults := (procPageFaults s)(currentThread s :=
                  procPageFaults s (currentThread s) + 1),
                ticksAtLastPageFault := userTicks s\<rparr> in
     deref_res (currentSpace s1) (\<lambda>sid.
     pagein s1 (unat (word_of_int (sint virtaddr sdiv int PageSize) :: uint32)) sid))"

definition ExceptionHandler ::
  "(uint32 \<Rightarrow> 'a machine_scheme \<Rightarrow> 'a machine_scheme res) \<Rightarrow> 'a handler" where
  "ExceptionHandler do_system_call which s =
     bind_res (ReadRegister s 2) (\<lambda>type.
     case which of
       SyscallException \<Rightarrow> do_system_call type s
     | PageFaultException \<Rightarrow> handle_page_fault s
     | _ \<Rightarrow> Inl Finished)"

section \<open>Address translation\<close>

definition touch :: "bool \<Rightarrow> TranslationEntry \<Rightarrow> TranslationEntry" where
  "touch writing te =
     te\<lparr>te_use := True, history := history te OR 0x80, dirty := dirty te \<or> writing\<rparr>"

definition misaligned :: "uint32 \<Rightarrow> nat \<Rightarrow> bool" where
  "misaligned virtAddr sz \<longleftrightarrow>
     sz = 4 \<and> virtAddr AND 3 \<noteq> 0 \<or> sz = 2 \<and> virtAddr AND 1 \<noteq> 0"

definition Translate ::
  "uint32 \<Rightarrow> nat \<Rightarrow> bool \<Rightarrow> 'a machine_scheme \<Rightarrow> (ExceptionType \<times> nat \<times> 'a machine_scheme) res" where
  "Translate virtAddr sz writing s =
     (if misaligned virtAddr sz then Inr (AddressErrorException, 0, s)
      else assert_res (currentSpace s \<noteq> None) (\<lambda>_.
      let vpn = unat virtAddr div PageSize; offset = unat virtAddr mod PageSize in
      deref_res (currentSpace s) (\<lambda>sid.
      deref_res (spaces s sid) (\<lambda>a.
      if vpn \<ge> numPages a then Inr (AddressErrorException, 0, s)
      else bind_res (index_res (pageTable a) vpn) (\<lambda>entry.
      if \<not> valid entry then
        bind_res (WriteRegister s (int BadVAddrReg) (of_nat vpn)) (\<lambda>s1.
        Inr (PageFaultException, 0, s1))
      else bind_res (if cow entry \<and> writing then duplicatePage s sid vpn else Inr s) (\<lambda>s1.
      bind_res (get_te s1 sid vpn) (\<lambda>entry1.
      if physicalPage entry1 \<ge> NumPhysPages then Inr (BusErrorException, 0, s1)
      else bind_res (upd_te s1 sid vpn (touch writing)) (\<lambda>s2.
      let physAddr = physicalPage entry1 * PageSize + offset in
      assert_res (physAddr + sz \<le> MemorySize) (\<lambda>_.
      Inr (NoException, physAddr, s2))))))))))"

section \<open>Memory access\<close>

text \<open>
  The bytes of a little-endian value, and the store of \<open>size\<close> bytes through \<open>value\<close>, which
  leaves the higher bytes of the caller's variable.
\<close>

primrec le_read :: "(nat \<Rightarrow> byte) \<Rightarrow> nat \<Rightarrow> nat \<Rightarrow> uint32" where
  "le_read mem p 0 = 0"
| "le_read mem p (Suc n) = le_read mem p n OR push_bit (8 * n) (ucast (mem (p + n)))"

definition le_write :: "(nat \<Rightarrow> byte) \<Rightarrow> nat \<Rightarrow> nat \<Rightarrow> uint32 \<Rightarrow> nat \<Rightarrow> byte" where
  "le_write mem p n v a =
     (if p \<le> a \<and> a < p + n then ucast (drop_bit (8 * (a - p)) v) else mem a)"

definition store_low :: "nat \<Rightarrow> uint32 \<Rightarrow> uint32 \<Rightarrow> uint32" where
  "store_low sz old data = push_bit (8 * sz) (drop_bit (8 * sz) old) OR take_bit (8 * sz) data"

definition check_watchpoint ::
  "'a handler \<Rightarrow> uint32 \<Rightarrow> nat \<Rightarrow> BreakpointType \<Rightarrow> 'a machine_scheme \<Rightarrow> 'a machine_scheme res" where
  "check_watchpoint handler addr sz type s =
     (case queryBreakpoint (breakpoints s) (sint addr) (int sz) type of
       None \<Rightarrow> Inr s
     | Some breakAddr \<Rightarrow> RaiseException handler BreakpointException (word_of_int breakAddr) s)"

definition ReadMem ::
  "'a handler \<Rightarrow> uint32 \<Rightarrow> nat \<Rightarrow> uint32 \<Rightarrow> 'a machine_scheme \<Rightarrow> (bool \<times> uint32 \<times> 'a machine_scheme) res" where
  "ReadMem handler addr sz old s =
     bind_res (check_watchpoint handler addr sz ReadWp s) (\<lambda>s1.
     bind_res (Translate addr sz False s1) (\<lambda>(exception, physicalAddress, s2).
     if exception \<noteq> NoException then
       bind_res (RaiseException handler exception addr s2) (\<lambda>s3. Inr (False, old, s3))
     else if sz = 1 \<or> sz = 2 \<or> sz = 4 then
       Inr (True, store_low sz old (le_read (mainMemory s2) physicalAddress sz), s2)
     else Inl AssertionFailed))"

definition WriteMem ::
  "'a handler \<Rightarrow> uint32 \<Rightarrow> nat \<Rightarrow> uint32 \<Rightarrow> 'a machine_scheme \<Rightarrow> (bool \<times> 'a machine_scheme) res" where
  "WriteMem handler addr sz value s =
     bind_res (check_watchpoint handler addr sz WriteWp s) (\<lambda>s1.
     bind_res (Translate addr sz True s1) (\<lambda>(exception, physicalAddress, s2).
     if exception \<noteq> NoException then
       bind_res (RaiseException handler exception addr s2) (\<lambda>s3. Inr (False, s3))
     else if sz = 1 \<or> sz = 2 \<or> sz = 4 then
       Inr (True, s2\<lparr>mainMemory := le_write (mainMemory s2) physicalAddress sz value\<rparr>)
     else Inl AssertionFailed))"

end
