(* ===== verification/Mips_Decode.thy ===== *)
theory Mips_Decode
  imports Machine
begin

text \<open>
  \<open>machine/mipssim.h\<close> and \<open>Instruction::Decode\<close> of \<open>mipssim.cc\<close>: the operation codes, the two decoding
  tables and the decoder. The properties say that every 32-bit word decodes to an operation the
  simulator implements, with register numbers below 32 and a shift amount below 32, and that
  the fields of an encoded instruction come back.
\<close>

section \<open>Operation codes\<close>

definition OP_ADD :: nat where "OP_ADD = 1"
definition OP_ADDI :: nat where "OP_ADDI = 2"
definition OP_ADDIU :: nat where "OP_ADDIU = 3"
definition OP_ADDU :: nat where "OP_ADDU = 4"
definition OP_AND :: nat where "OP_AND = 5"
definition OP_ANDI :: nat where "OP_ANDI = 6"
definition OP_BEQ :: nat where "OP_BEQ = 7"
definition OP_BGEZ :: nat where "OP_BGEZ = 8"
definition OP_BGEZAL :: nat where "OP_BGEZAL = 9"
definition OP_BGTZ :: nat where "OP_BGTZ = 10"
definition OP_BLEZ :: nat where "OP_BLEZ = 11"
definition OP_BLTZ :: nat where "OP_BLTZ = 12"
definition OP_BLTZAL :: nat where "OP_BLTZAL = 13"
definition OP_BNE :: nat where "OP_BNE = 14"
definition OP_BREAK :: nat where "OP_BREAK = 15"
definition OP_DIV :: nat where "OP_DIV = 16"
definition OP_DIVU :: nat where "OP_DIVU = 17"
definition OP_J :: nat where "OP_J = 18"
definition OP_JAL :: nat where "OP_JAL = 19"
definition OP_JALR :: nat where "OP_JALR = 20"
definition OP_JR :: nat where "OP_JR = 21"
definition OP_LB :: nat where "OP_LB = 22"
definition OP_LBU :: nat where "OP_LBU = 23"
definition OP_LH :: nat where "OP_LH = 24"
definition OP_LHU :: nat where "OP_LHU = 25"
definition OP_LUI :: nat where "OP_LUI = 26"
definition OP_LW :: nat where "OP_LW = 27"
definition OP_LWL :: nat where "OP_LWL = 28"
definition OP_LWR :: nat where "OP_LWR = 29"
definition OP_MFHI :: nat where "OP_MFHI = 31"
definition OP_MFLO :: nat where "OP_MFLO = 32"
definition OP_MTHI :: nat where "OP_MTHI = 34"
definition OP_MTLO :: nat where "OP_MTLO = 35"
definition OP_MULT :: nat where "OP_MULT = 36"
definition OP_MULTU :: nat where "OP_MULTU = 37"
definition OP_NOR :: nat where "OP_NOR = 38"
definition OP_OR :: nat where "OP_OR = 39"
definition OP_ORI :: nat where "OP_ORI = 40"
definition OP_RFE :: nat where "OP_RFE = 41"
definition OP_SB :: nat where "OP_SB = 42"
definition OP_SH :: nat where "OP_SH = 43"
definition OP_SLL :: nat where "OP_SLL = 44"
definition OP_SLLV :: nat where "OP_SLLV = 45"
definition OP_SLT :: nat where "OP_SLT = 46"
definition OP_SLTI :: nat where "OP_SLTI = 47"
definition OP_SLTIU :: nat where "OP_SLTIU = 48"
definition OP_SLTU :: nat where "OP_SLTU = 49"
definition OP_SRA :: nat where "OP_SRA = 50"
definition OP_SRAV :: nat where "OP_SRAV = 51"
definition OP_SRL :: nat where "OP_SRL = 52"
definition OP_SRLV :: nat where "OP_SRLV = 53"
definition OP_SUB :: nat where "OP_SUB = 54"
definition OP_SUBU :: nat where "OP_SUBU = 55"
definition OP_SW :: nat where "OP_SW = 56"
definition OP_SWL :: nat where "OP_SWL = 57"
definition OP_SWR :: nat where "OP_SWR = 58"
definition OP_XOR :: nat where "OP_XOR = 59"
definition OP_XORI :: nat where "OP_XORI = 60"
definition OP_SYSCALL :: nat where "OP_SYSCALL = 61"
definition OP_UNIMP :: nat where "OP_UNIMP = 62"
definition OP_RES :: nat where "OP_RES = 63"
definition SPECIAL :: nat where "SPECIAL = 100"
definition BCOND :: nat where "BCOND = 101"
definition IFMT :: nat where "IFMT = 1"
definition JFMT :: nat where "JFMT = 2"
definition RFMT :: nat where "RFMT = 3"

lemmas op_defs =
  OP_ADD_def OP_ADDI_def OP_ADDIU_def OP_ADDU_def OP_AND_def OP_ANDI_def
  OP_BEQ_def OP_BGEZ_def OP_BGEZAL_def OP_BGTZ_def OP_BLEZ_def OP_BLTZ_def
  OP_BLTZAL_def OP_BNE_def OP_BREAK_def OP_DIV_def OP_DIVU_def OP_J_def
  OP_JAL_def OP_JALR_def OP_JR_def OP_LB_def OP_LBU_def OP_LH_def
  OP_LHU_def OP_LUI_def OP_LW_def OP_LWL_def OP_LWR_def OP_MFHI_def
  OP_MFLO_def OP_MTHI_def OP_MTLO_def OP_MULT_def OP_MULTU_def OP_NOR_def
  OP_OR_def OP_ORI_def OP_RFE_def OP_SB_def OP_SH_def OP_SLL_def
  OP_SLLV_def OP_SLT_def OP_SLTI_def OP_SLTIU_def OP_SLTU_def OP_SRA_def
  OP_SRAV_def OP_SRL_def OP_SRLV_def OP_SUB_def OP_SUBU_def OP_SW_def
  OP_SWL_def OP_SWR_def OP_XOR_def OP_XORI_def OP_SYSCALL_def OP_UNIMP_def
  OP_RES_def SPECIAL_def BCOND_def IFMT_def JFMT_def RFMT_def

section \<open>Decoding tables\<close>

definition opTable :: "(nat \<times> nat) list" where
  "opTable =
    [(SPECIAL, RFMT), (BCOND, IFMT), (OP_J, JFMT), (OP_JAL, JFMT),
     (OP_BEQ, IFMT), (OP_BNE, IFMT), (OP_BLEZ, IFMT), (OP_BGTZ, IFMT),
     (OP_ADDI, IFMT), (OP_ADDIU, IFMT), (OP_SLTI, IFMT), (OP_SLTIU, IFMT),
     (OP_ANDI, IFMT), (OP_ORI, IFMT), (OP_XORI, IFMT), (OP_LUI, IFMT),
     (OP_UNIMP, IFMT), (OP_UNIMP, IFMT), (OP_UNIMP, IFMT), (OP_UNIMP, IFMT),
     (OP_RES, IFMT), (OP_RES, IFMT), (OP_RES, IFMT), (OP_RES, IFMT),
     (OP_RES, IFMT), (OP_RES, IFMT), (OP_RES, IFMT), (OP_RES, IFMT),
     (OP_RES, IFMT), (OP_RES, IFMT), (OP_RES, IFMT), (OP_RES, IFMT),
     (OP_LB, IFMT), (OP_LH, IFMT), (OP_LWL, IFMT), (OP_LW, IFMT),
     (OP_LBU, IFMT), (OP_LHU, IFMT), (OP_LWR, IFMT), (OP_RES, IFMT),
     (OP_SB, IFMT), (OP_SH, IFMT), (OP_SWL, IFMT), (OP_SW, IFMT),
     (OP_RES, IFMT), (OP_RES, IFMT), (OP_SWR, IFMT), (OP_RES, IFMT),
     (OP_UNIMP, IFMT), (OP_UNIMP, IFMT), (OP_UNIMP, IFMT), (OP_UNIMP, IFMT),
     (OP_RES, IFMT), (OP_RES, IFMT), (OP_RES, IFMT), (OP_RES, IFMT),
     (OP_UNIMP, IFMT), (OP_UNIMP, IFMT), (OP_UNIMP, IFMT), (OP_UNIMP, IFMT),
     (OP_RES, IFMT), (OP_RES, IFMT), (OP_RES, IFMT), (OP_RES, IFMT)]"

definition specialTable :: "nat list" where
  "specialTable =
    [OP_SLL, OP_RES, OP_SRL, OP_SRA, OP_SLLV, OP_RES, OP_SRLV, OP_SRAV,
     OP_JR, OP_JALR, OP_RES, OP_RES, OP_SYSCALL, OP_BREAK, OP_RES, OP_RES,
     OP_MFHI, OP_MTHI, OP_MFLO, OP_MTLO, OP_RES, OP_RES, OP_RES, OP_RES,
     OP_MULT, OP_MULTU, OP_DIV, OP_DIVU, OP_RES, OP_RES, OP_RES, OP_RES,
     OP_ADD, OP_ADDU, OP_SUB, OP_SUBU, OP_AND, OP_OR, OP_XOR, OP_NOR,
     OP_RES, OP_RES, OP_SLT, OP_SLTU, OP_RES, OP_RES, OP_RES, OP_RES,
     OP_RES, OP_RES, OP_RES, OP_RES, OP_RES, OP_RES, OP_RES, OP_RES,
     OP_RES, OP_RES, OP_RES, OP_RES, OP_RES, OP_RES, OP_RES, OP_RES]"

section \<open>The decoder\<close>

record Instruction =
  opCode :: nat
  rs :: nat
  rt :: nat
  rd :: nat
  extra :: uint32

definition field :: "nat \<Rightarrow> uint32 \<Rightarrow> uint32 \<Rightarrow> nat" where
  "field k m value = unat (drop_bit k value AND m)"

definition Decode_extra :: "nat \<Rightarrow> uint32 \<Rightarrow> uint32" where
  "Decode_extra format value =
     (if format = IFMT then
        (let extra = value AND 0xFFFF in if extra AND 0x8000 \<noteq> 0 then extra OR 0xFFFF0000 else extra)
      else if format = RFMT then drop_bit 6 value AND 0x1F
      else value AND 0x3FFFFFF)"

definition Decode_op :: "nat \<Rightarrow> uint32 \<Rightarrow> nat" where
  "Decode_op op value =
     (if op = SPECIAL then specialTable ! field 0 0x3F value
      else if op = BCOND then
        (let i = value AND 0x1F0000 in
         if i = 0 then OP_BLTZ else if i = 0x10000 then OP_BGEZ
         else if i = 0x100000 then OP_BLTZAL else if i = 0x110000 then OP_BGEZAL else OP_UNIMP)
      else op)"

definition Decode :: "uint32 \<Rightarrow> Instruction" where
  "Decode value =
     (let (op, format) = opTable ! field 26 0x3F value in
      \<lparr>opCode = Decode_op op value, rs = field 21 0x1F value, rt = field 16 0x1F value,
       rd = field 11 0x1F value, extra = Decode_extra format value\<rparr>)"

section \<open>Every word decodes\<close>

text \<open>The operations with a \<open>case\<close> of their own in \<open>Machine::OneInstruction\<close>.\<close>

definition implemented :: "nat set" where
  "implemented = {1..63} - {30, 33, 41}"

lemma field_take_bit: "m = mask n \<Longrightarrow> field k m value = take_bit n (drop_bit k (unat value))"
  for m :: uint32
proof -
  have "unat value < 2 ^ 32" using unsigned_less [of "value"] by simp
  then have "take_bit 32 (unat value) = unat value" by (rule take_bit_nat_eq_self)
  then show "m = mask n \<Longrightarrow> ?thesis"
    by (simp add: field_def take_bit_eq_mask [symmetric] unsigned_take_bit_eq unsigned_drop_bit_eq)
qed

lemma mask_literals: "(0x1F :: uint32) = mask 5" "(0x3F :: uint32) = mask 6"
  by (simp_all add: mask_eq_exp_minus_1)

lemma field_bounds: "field k 0x1F value < 32" "field k 0x3F value < 64"
  by (simp_all add: mask_literals field_take_bit) (simp_all add: take_bit_eq_mod)

lemma opTable_ops: "i < 64 \<Longrightarrow> fst (opTable ! i) \<in> insert SPECIAL (insert BCOND implemented)"
proof -
  have "\<forall>e \<in> set opTable. fst e \<in> insert SPECIAL (insert BCOND implemented)"
    by (simp add: opTable_def implemented_def op_defs)
  moreover assume "i < 64"
  then have "i < length opTable" by (simp add: opTable_def)
  ultimately show ?thesis by (metis nth_mem)
qed

lemma specialTable_ops: "i < 64 \<Longrightarrow> specialTable ! i \<in> implemented"
proof -
  have "\<forall>e \<in> set specialTable. e \<in> implemented"
    by (simp add: specialTable_def implemented_def op_defs)
  moreover assume "i < 64"
  then have "i < length specialTable" by (simp add: specialTable_def)
  ultimately show ?thesis by (metis nth_mem)
qed

lemma Decode_fields:
  "rs (Decode w) = field 21 0x1F w" "rt (Decode w) = field 16 0x1F w" "rd (Decode w) = field 11 0x1F w"
  "opCode (Decode w) = Decode_op (fst (opTable ! field 26 0x3F w)) w"
  "extra (Decode w) = Decode_extra (snd (opTable ! field 26 0x3F w)) w"
  by (simp_all add: Decode_def split: prod.split)

lemma Decode_op_implemented:
  "op \<in> insert SPECIAL (insert BCOND implemented) \<Longrightarrow> Decode_op op w \<in> implemented"
  using specialTable_ops [OF field_bounds(2), of 0 w]
  by (auto simp: Decode_op_def Let_def) (auto simp: implemented_def op_defs)

text \<open>
  Every 32-bit word decodes to an operation that \<open>OneInstruction\<close> implements, so that its
  \<open>default\<close> branch is unreachable, and to register numbers below 32.
\<close>

theorem Decode_total:
  "opCode (Decode w) \<in> implemented \<and> rs (Decode w) < 32 \<and> rt (Decode w) < 32 \<and> rd (Decode w) < 32"
  using Decode_op_implemented [OF opTable_ops [OF field_bounds(2)]] field_bounds(1)
  by (simp add: Decode_fields)

section \<open>Encoding\<close>

text \<open>The register and the immediate format of the MIPS manual.\<close>

definition encode_R :: "nat \<Rightarrow> nat \<Rightarrow> nat \<Rightarrow> nat \<Rightarrow> nat \<Rightarrow> uint32" where
  "encode_R s t d shamt funct =
     push_bit 21 (of_nat s) OR push_bit 16 (of_nat t) OR push_bit 11 (of_nat d) OR
     push_bit 6 (of_nat shamt) OR of_nat funct"

definition encode_I :: "nat \<Rightarrow> nat \<Rightarrow> nat \<Rightarrow> 16 word \<Rightarrow> uint32" where
  "encode_I op s t imm =
     push_bit 26 (of_nat op) OR push_bit 21 (of_nat s) OR push_bit 16 (of_nat t) OR ucast imm"

lemma bit_of_nat_bound: "n < 2 ^ m \<Longrightarrow> bit (of_nat n :: uint32) k \<Longrightarrow> k < m"
proof (rule ccontr)
  assume n: "n < 2 ^ m" and b: "bit (of_nat n :: uint32) k" and k: "\<not> k < m"
  from b have "bit n k" by (simp add: bit_of_nat_iff)
  moreover have "take_bit m n = n" using n by (simp add: take_bit_nat_eq_self)
  ultimately have "bit (take_bit m n) k" by simp
  with k show False by (simp add: bit_take_bit_iff)
qed

lemma field_eqI:
  assumes "m = mask n" "n < 32" "x < 2 ^ n"
    and "\<And>j. j < n \<Longrightarrow> bit value (k + j) = bit (of_nat x :: uint32) j"
  shows "field k m value = x"
proof -
  have "drop_bit k value AND m = (of_nat x :: uint32)"
  proof (rule bit_word_eqI)
    fix j assume "j < LENGTH(32)"
    show "bit (drop_bit k value AND m) j = bit (of_nat x :: uint32) j"
      using assms bit_of_nat_bound [OF assms(3), of j]
      by (auto simp: bit_and_iff bit_drop_bit_eq bit_mask_iff)
  qed
  moreover have "x < 2 ^ 32"
    using assms(2,3) power_strict_increasing [of n 32 "2 :: nat"] by (meson less_trans one_less_numeral_iff semiring_norm(76))
  ultimately show ?thesis by (simp add: field_def unat_of_nat take_bit_nat_eq_self)
qed

lemmas field5I = field_eqI [of "0x1F" 5, OF mask_literals(1)]
  and field6I = field_eqI [of "0x3F" 6, OF mask_literals(2)]

lemmas enc_bits = bit_or_iff bit_push_bit_iff bit_ucast_iff

lemma bit_high: "n < 2 ^ m \<Longrightarrow> m \<le> k \<Longrightarrow> \<not> bit (of_nat n :: uint32) k"
  using bit_of_nat_bound by fastforce

lemma encode_R_fields:
  assumes "s < 32" "t < 32" "d < 32" "shamt < 32" "funct < 64"
  shows "field 26 0x3F (encode_R s t d shamt funct) = 0" "field 21 0x1F (encode_R s t d shamt funct) = s"
    "field 16 0x1F (encode_R s t d shamt funct) = t" "field 11 0x1F (encode_R s t d shamt funct) = d"
    "field 6 0x1F (encode_R s t d shamt funct) = shamt" "field 0 0x3F (encode_R s t d shamt funct) = funct"
proof -
  have hi: "\<not> bit (of_nat s :: uint32) k" "\<not> bit (of_nat t :: uint32) k" "\<not> bit (of_nat d :: uint32) k"
    "\<not> bit (of_nat shamt :: uint32) k" if "5 \<le> k" for k
    using assms that bit_high [of _ 5] by simp_all
  have fu: "\<not> bit (of_nat funct :: uint32) k" if "6 \<le> k" for k
    using assms that bit_high [of funct 6] by simp
  note b = hi fu
  show "field 26 0x3F (encode_R s t d shamt funct) = 0"
    by (rule field6I; simp add: encode_R_def enc_bits b)
  show "field 21 0x1F (encode_R s t d shamt funct) = s"
    by (rule field5I; simp add: encode_R_def enc_bits b assms)
  show "field 16 0x1F (encode_R s t d shamt funct) = t"
    by (rule field5I; simp add: encode_R_def enc_bits b assms)
  show "field 11 0x1F (encode_R s t d shamt funct) = d"
    by (rule field5I; simp add: encode_R_def enc_bits b assms)
  show "field 6 0x1F (encode_R s t d shamt funct) = shamt"
    by (rule field5I; simp add: encode_R_def enc_bits b assms)
  show "field 0 0x3F (encode_R s t d shamt funct) = funct"
    by (rule field6I; simp add: encode_R_def enc_bits b assms)
qed

lemma encode_I_fields:
  assumes "op < 64" "s < 32" "t < 32"
  shows "field 26 0x3F (encode_I op s t imm) = op" "field 21 0x1F (encode_I op s t imm) = s"
    "field 16 0x1F (encode_I op s t imm) = t" "ucast (encode_I op s t imm) = imm"
proof -
  have im: "\<not> bit imm k" if "16 \<le> k" for k using bit_imp_le_length [of imm k] that by auto
  have hi: "\<not> bit (of_nat s :: uint32) k" "\<not> bit (of_nat t :: uint32) k" if "5 \<le> k" for k
    using assms that bit_high [of _ 5] by simp_all
  have oc: "\<not> bit (of_nat op :: uint32) k" if "6 \<le> k" for k
    using assms that bit_high [of op 6] by simp
  note b = im hi oc
  show "field 26 0x3F (encode_I op s t imm) = op"
    by (rule field6I; simp add: encode_I_def enc_bits b assms)
  show "field 21 0x1F (encode_I op s t imm) = s"
    by (rule field5I; simp add: encode_I_def enc_bits b assms)
  show "field 16 0x1F (encode_I op s t imm) = t"
    by (rule field5I; simp add: encode_I_def enc_bits b assms)
  show "ucast (encode_I op s t imm) = imm"
    by (rule bit_word_eqI) (simp add: encode_I_def enc_bits b)
qed

lemma Decode_extra_IFMT: "Decode_extra IFMT w = scast (ucast w :: 16 word)"
proof -
  have m: "(0xFFFF :: uint32) = mask 16" "(0xFFFF0000 :: uint32) = NOT (mask 16)" "(0x8000 :: uint32) = 2 ^ 15"
    by (simp_all add: mask_eq_exp_minus_1)
  have s: "(w AND mask 16) AND 2 ^ 15 \<noteq> 0 \<longleftrightarrow> bit w 15"
    unfolding and_exp_eq_0_iff_not_bit by (simp add: bit_and_iff bit_mask_iff)
  show ?thesis
    unfolding Decode_extra_def m s Let_def
  proof (rule bit_word_eqI)
    fix k assume k: "k < LENGTH(32)"
    consider "k < 15" | "k = 15" | "15 < k" by linarith
    then show "bit (if IFMT = IFMT then if bit w 15 then (w AND mask 16) OR NOT (mask 16) else w AND mask 16
        else if IFMT = RFMT then drop_bit 6 w AND 31 else w AND 67108863) k = bit (scast (ucast w :: 16 word) :: uint32) k"
      using k by cases
        (simp_all add: bit_and_iff bit_or_iff bit_mask_iff bit_not_iff bit_signed_iff bit_ucast_iff min_def)
  qed
qed

lemma Decode_extra_RFMT: "Decode_extra RFMT w = of_nat (field 6 0x1F w)"
  by (simp add: Decode_extra_def field_def op_defs)

text \<open>
  Decoding an instruction of the register format gives back its three registers and its shift
  amount, and the operation that the function field selects; the immediate format gives back its
  two registers and the sign-extended immediate, and the operation of its major code.
\<close>

theorem Decode_encode:
  assumes "s < 32" "t < 32" "d < 32" "shamt < 32" "funct < 64"
    and "op < 64" "opTable ! op = (oc, IFMT)" "oc \<noteq> BCOND"
  shows "Decode (encode_R s t d shamt funct) =
      \<lparr>opCode = specialTable ! funct, rs = s, rt = t, rd = d, extra = of_nat shamt\<rparr> \<and>
    opCode (Decode (encode_I op s t imm)) = oc \<and> rs (Decode (encode_I op s t imm)) = s \<and>
      rt (Decode (encode_I op s t imm)) = t \<and> extra (Decode (encode_I op s t imm)) = scast imm"
proof -
  have z: "opTable ! 0 = (SPECIAL, RFMT)" by (simp add: opTable_def)
  have R: "Decode (encode_R s t d shamt funct) =
      \<lparr>opCode = specialTable ! funct, rs = s, rt = t, rd = d, extra = of_nat shamt\<rparr>"
    by (simp add: Decode_def encode_R_fields [OF assms(1-5)] z Decode_op_def Decode_extra_RFMT)
  have "\<forall>e \<in> set opTable. fst e = SPECIAL \<longrightarrow> snd e = RFMT" by (simp add: opTable_def op_defs)
  moreover have "length opTable = 64" by (simp add: opTable_def)
  then have "opTable ! op \<in> set opTable" using assms(6) by simp
  ultimately have "oc \<noteq> SPECIAL" using assms(7) by (auto simp: op_defs)
  then show ?thesis
    using R assms(7,8)
    by (simp add: Decode_fields encode_I_fields [OF assms(6,1,2)] Decode_op_def Decode_extra_IFMT)
qed

theorem Decode_encode_witness:
  "Decode (encode_R 3 4 5 0 0x20) = \<lparr>opCode = OP_ADD, rs = 3, rt = 4, rd = 5, extra = 0\<rparr> \<and>
   extra (Decode (encode_I 0x23 3 4 (-4))) = -4"
proof -
  have "opTable ! 0x23 = (OP_LW, IFMT)" "OP_LW \<noteq> BCOND" "specialTable ! 0x20 = OP_ADD"
    by (simp_all add: opTable_def specialTable_def op_defs)
  with Decode_encode [of 3 4 5 0 "0x20" "0x23" OP_LW "-4"] show ?thesis by simp
qed

end
