(* ===== verification/Mips_Mult.thy ===== *)
theory Mips_Mult
  imports Nachos_Prelude
begin

text \<open>
  \<open>Mult\<close> of \<open>machine/mipssim.cc\<close>: a 32 by 32 bit multiplication into two words by shifts and adds,
  with the sign computed first. The loop tests the bits of \<open>a\<close>, a signed \<open>int\<close> that \<open>a >>= 1\<close> shifts
  arithmetically; \<open>-a\<close> of the least integer is that integer again.
\<close>

section \<open>The routine\<close>

fun Mult_loop ::
  "nat \<Rightarrow> uint32 \<Rightarrow> uint32 \<Rightarrow> uint32 \<Rightarrow> uint32 \<Rightarrow> uint32 \<Rightarrow> uint32 \<times> uint32" where
  "Mult_loop 0 a bLo bHi lo hi = (hi, lo)"
| "Mult_loop (Suc n) a bLo bHi lo hi =
     (let odd = (a AND 1 \<noteq> 0);
          lo' = (if odd then lo + bLo else lo);
          hi' = (if odd then (if lo' < bLo then hi + 1 else hi) + bHi else hi) in
      if odd \<and> a AND 0xFFFFFFFE = 0 then (hi', lo')
      else Mult_loop n (signed_drop_bit 1 a) (push_bit 1 bLo)
        (if bLo AND 0x80000000 \<noteq> 0 then push_bit 1 bHi OR 1 else push_bit 1 bHi) lo' hi')"

definition Mult :: "uint32 \<Rightarrow> uint32 \<Rightarrow> bool \<Rightarrow> uint32 \<times> uint32" where
  "Mult a b signedArith =
     (if a = 0 \<or> b = 0 then (0, 0)
      else
        (let neg_a = signedArith \<and> a <s 0; neg_b = signedArith \<and> b <s 0;
             negative = (neg_a \<noteq> neg_b);
             (hi, lo) = Mult_loop 32 (if neg_a then - a else a) (if neg_b then - b else b) 0 0 0
         in if negative then
              (let hi' = NOT hi; lo' = NOT lo + 1 in (if lo' = 0 then hi' + 1 else hi', lo'))
            else (hi, lo)))"

section \<open>The double word\<close>

definition dword :: "uint32 \<Rightarrow> uint32 \<Rightarrow> int" where
  "dword hi lo = uint hi * 2 ^ 32 + uint lo"

abbreviation cong64 :: "int \<Rightarrow> int \<Rightarrow> bool" where
  "cong64 x y \<equiv> x mod 2 ^ 64 = y mod 2 ^ 64"

lemma uint_range: "0 \<le> uint (w :: uint32)" "uint w < 2 ^ 32"
  using uint_lt2p [of w] by simp_all

lemma dword_range: "0 \<le> dword hi lo" "dword hi lo < 2 ^ 64"
proof -
  have "uint hi * 2 ^ 32 \<le> (2 ^ 32 - 1) * 2 ^ 32" using uint_range(2) [of hi] by simp
  then show "dword hi lo < 2 ^ 64" using uint_range(2) [of lo] by (simp add: dword_def)
qed (simp add: dword_def)

lemma dword_mod: "dword hi lo mod 2 ^ 64 = dword hi lo"
  using dword_range by simp

lemma high_mod: "(x mod 2 ^ 32) * 2 ^ 32 = (x * 2 ^ 32) mod (2 ^ 64 :: int)"
  using mult_mod_left [of x "2 ^ 32" "2 ^ 32 :: int"] by simp

lemma cong64_high: "cong64 ((x mod 2 ^ 32) * 2 ^ 32 + y) (x * 2 ^ 32 + y)"
  by (simp only: high_mod mod_add_left_eq)

lemma mod_one_wrap: "0 \<le> x \<Longrightarrow> x < 2 * m \<Longrightarrow> x mod m = (if x < m then x else x - m)" for x m :: int
  using mod_pos_pos_trivial [of "x - m" m] mod_pos_pos_trivial [of x m]
  by (auto simp: not_less minus_mod_self2)

lemma uint_add: "uint (x + y) = (if x + y < y then uint x + uint y - 2 ^ 32 else uint x + uint y)"
  for x y :: uint32
proof -
  have "uint (x + y) = (uint x + uint y) mod 2 ^ 32" by (simp add: uint_word_ariths)
  also have "\<dots> = (if uint x + uint y < 2 ^ 32 then uint x + uint y else uint x + uint y - 2 ^ 32)"
    using uint_range [of x] uint_range [of y] by (intro mod_one_wrap) simp_all
  finally have "uint (x + y) = (if uint x + uint y < 2 ^ 32 then uint x + uint y else uint x + uint y - 2 ^ 32)" .
  then show ?thesis using uint_range [of x] uint_range [of y] by (simp add: word_less_alt split: if_splits)
qed

lemma dword_add:
  "cong64 (dword ((if lo + bLo < bLo then hi + 1 else hi) + bHi) (lo + bLo)) (dword hi lo + dword bHi bLo)"
proof -
  let ?c = "if lo + bLo < bLo then 1 else 0 :: int"
  have hi: "uint ((if lo + bLo < bLo then hi + 1 else hi) + bHi) = (uint hi + ?c + uint bHi) mod 2 ^ 32"
    by (simp add: uint_word_ariths mod_simps)
  have lo: "uint (lo + bLo) = uint lo + uint bLo - ?c * 2 ^ 32"
    by (simp add: uint_add)
  have "(uint hi + ?c + uint bHi) * 2 ^ 32 + (uint lo + uint bLo - ?c * 2 ^ 32) = dword hi lo + dword bHi bLo"
    by (simp add: dword_def algebra_simps)
  with cong64_high show ?thesis unfolding dword_def [of "_ + bHi"] hi lo by metis
qed

lemma top_bit_carry: "b AND 0x80000000 \<noteq> 0 \<longleftrightarrow> b + b < b" for b :: uint32
proof -
  have "b AND 0x80000000 \<noteq> 0 \<longleftrightarrow> bit b 31"
    using and_exp_eq_0_iff_not_bit [of b 31] by simp
  also have "\<dots> \<longleftrightarrow> 2 ^ 31 \<le> uint b"
  proof -
    have "uint b div 2 ^ 31 < 2" using uint_range(2) [of b] by simp
    moreover have "0 \<le> uint b div 2 ^ 31" using uint_range(1) [of b] by (intro div_int_pos_iff [THEN iffD2]) simp
    ultimately have "uint b div 2 ^ 31 = 0 \<or> uint b div 2 ^ 31 = 1" by linarith
    then have "odd (uint b div 2 ^ 31) \<longleftrightarrow> 1 \<le> uint b div 2 ^ 31" by auto
    moreover have "bit b 31 \<longleftrightarrow> odd (uint b div 2 ^ 31)"
      using bit_uint_iff [of b 31] by (simp add: bit_iff_odd)
    moreover have "1 \<le> uint b div 2 ^ 31 \<longleftrightarrow> 2 ^ 31 \<le> uint b"
      using pos_imp_zdiv_pos_iff [of "2 ^ 31" "uint b"] by (simp add: int_one_le_iff_zero_less)
    ultimately show ?thesis by blast
  qed
  also have "\<dots> \<longleftrightarrow> b + b < b"
  proof
    assume "b + b < b"
    then have "uint (b + b) = uint b + uint b - 2 ^ 32" using uint_add [of b b] by simp
    then have "0 \<le> uint b + uint b - 2 ^ 32" using uint_range(1) [of "b + b"] by (simp only:)
    then show "2 ^ 31 \<le> uint b" by simp
  next
    assume "2 ^ 31 \<le> uint b"
    then show "b + b < b" using uint_add [of b b] uint_range(2) [of "b + b"] by (simp split: if_splits)
  qed
  finally show ?thesis .
qed

lemma dword_double:
  "cong64 (dword (if b AND 0x80000000 \<noteq> 0 then push_bit 1 h OR 1 else push_bit 1 h) (push_bit 1 b)) (2 * dword h b)"
proof -
  have "push_bit 1 h OR 1 = push_bit 1 h + 1" for h :: uint32
    by (rule disjunctive_add [symmetric]) (simp only: bit_push_bit_iff bit_1_iff, simp)
  then have "(if b AND 0x80000000 \<noteq> 0 then push_bit 1 h OR 1 else push_bit 1 h) =
      (if b + b < b then h + 1 else h) + h"
    unfolding top_bit_carry by (simp add: push_bit_eq_mult algebra_simps)
  moreover have "push_bit 1 b = b + b" by (simp add: push_bit_eq_mult)
  ultimately show ?thesis using dword_add [of b b h h] by (simp only: mult_2)
qed

lemma take_bit_sdrop:
  assumes "n < 32"
  shows "take_bit n (uint (signed_drop_bit 1 (a :: uint32))) = take_bit n (uint a div 2)"
proof (rule bit_eqI)
  fix j
  show "bit (take_bit n (uint (signed_drop_bit 1 a))) j = bit (take_bit n (uint a div 2)) j"
    using assms by (auto simp: bit_take_bit_iff bit_uint_iff bit_signed_drop_bit_iff bit_Suc [symmetric])
qed

lemma odd_word: "a AND 1 \<noteq> 0 \<longleftrightarrow> odd (uint a)" for a :: uint32
  using and_exp_eq_0_iff_not_bit [of a 0] bit_uint_iff [of a 0] by (simp add: bit_0)

lemma last_one: "a AND 1 \<noteq> 0 \<Longrightarrow> a AND 0xFFFFFFFE = 0 \<Longrightarrow> a = 1" for a :: uint32
proof -
  have n: "(0xFFFFFFFE :: uint32) = NOT 1" by simp
  assume "a AND 1 \<noteq> 0" "a AND 0xFFFFFFFE = 0"
  moreover have "a = (a AND 1) OR (a AND NOT 1)"
    by (rule bit_word_eqI) (auto simp: bit_and_iff bit_or_iff bit_not_iff)
  moreover have "a AND 1 = 0 \<or> a AND 1 = 1" by (simp add: and_one_eq mod2_eq_if)
  ultimately show "a = 1" unfolding n by auto
qed

lemma Mult_loop_correct:
  "n \<le> 32 \<Longrightarrow> cong64 (case Mult_loop n a bLo bHi lo hi of (h, l) \<Rightarrow> dword h l)
     (dword hi lo + take_bit n (uint a) * dword bHi bLo)"
proof (induction n arbitrary: a bLo bHi lo hi)
  case (Suc n)
  let ?odd = "a AND 1 \<noteq> 0"
  let ?lo = "if ?odd then lo + bLo else lo"
  let ?hi = "if ?odd then (if ?lo < bLo then hi + 1 else hi) + bHi else hi"
  let ?bHi = "if bLo AND 0x80000000 \<noteq> 0 then push_bit 1 bHi OR 1 else push_bit 1 bHi"
  have now: "cong64 (dword ?hi ?lo) (dword hi lo + of_bool ?odd * dword bHi bLo)"
    using dword_add [of lo bLo hi bHi] by simp
  have split: "take_bit (Suc n) (uint a) = of_bool ?odd + 2 * take_bit n (uint a div 2)"
    unfolding odd_word by (simp add: take_bit_Suc mod2_eq_if)
  show ?case
  proof (cases "?odd \<and> a AND 0xFFFFFFFE = 0")
    case True
    then have "a = 1" using last_one by blast
    with now True show ?thesis by (simp add: Let_def)
  next
    case False
    let ?x = "take_bit n (uint a div 2)"
    have "cong64 (case Mult_loop n (signed_drop_bit 1 a) (push_bit 1 bLo) ?bHi ?lo ?hi of (h, l) \<Rightarrow> dword h l)
        (dword ?hi ?lo + ?x * dword ?bHi (push_bit 1 bLo))"
      using Suc.IH [of "signed_drop_bit 1 a" "push_bit 1 bLo" ?bHi ?lo ?hi] Suc.prems take_bit_sdrop [of n a]
      by simp
    also have "cong64 (dword ?hi ?lo + ?x * dword ?bHi (push_bit 1 bLo))
        ((dword hi lo + of_bool ?odd * dword bHi bLo) + ?x * (2 * dword bHi bLo))"
      by (intro mod_add_cong mod_mult_cong refl now dword_double)
    also have "(dword hi lo + of_bool ?odd * dword bHi bLo) + ?x * (2 * dword bHi bLo) =
        dword hi lo + take_bit (Suc n) (uint a) * dword bHi bLo"
      unfolding split by (simp add: algebra_simps)
    finally show ?thesis using False by (simp only: Mult_loop.simps Let_def if_False)
  qed
qed simp

lemma Mult_loop_32: "(case Mult_loop 32 a b 0 0 0 of (h, l) \<Rightarrow> dword h l) = uint a * uint b"
proof -
  have t: "take_bit 32 (uint a) = uint a" using uint_range by (simp add: take_bit_int_eq_self)
  have "uint a * uint b \<le> (2 ^ 32 - 1) * (2 ^ 32 - 1)"
    using uint_range [of a] uint_range [of b] by (intro mult_mono) simp_all
  then have "uint a * uint b < 2 ^ 64" by simp
  moreover have "0 \<le> uint a * uint b" by simp
  ultimately have "(uint a * uint b) mod 2 ^ 64 = uint a * uint b" by (rule mod_pos_pos_trivial [rotated])
  moreover have "cong64 (case Mult_loop 32 a b 0 0 0 of (h, l) \<Rightarrow> dword h l) (uint a * uint b)"
    using Mult_loop_correct [of 32 a b 0 0 0] t by (simp add: dword_def)
  ultimately show ?thesis using dword_mod by (simp split: prod.splits)
qed

lemma dword_neg:
  "cong64 (dword (if NOT lo + 1 = 0 then NOT hi + 1 else NOT hi) (NOT lo + 1)) (- dword hi lo)"
proof -
  have n: "NOT x + 1 = - x" for x :: uint32 by (simp add: not_eq_complement)
  have nh: "NOT hi = - hi - 1" by (simp add: not_eq_complement)
  show ?thesis
  proof (cases "lo = 0")
    case True
    have "cong64 (uint (- hi) * 2 ^ 32) (- (uint hi * 2 ^ 32))"
      using cong64_high [of "- uint hi" 0] by (simp add: uint_word_ariths)
    with True show ?thesis by (simp add: n dword_def)
  next
    case False
    then have l: "uint (- lo) = 2 ^ 32 - uint lo"
      using uint_range [of lo] by (simp add: uint_word_ariths zmod_zminus1_eq_if uint_0_iff)
    have "uint (- hi - 1) = (- uint hi - 1) mod 2 ^ 32"
      by (simp add: uint_word_ariths mod_simps)
    moreover have "(- uint hi - 1) * 2 ^ 32 + (2 ^ 32 - uint lo) = - dword hi lo"
      by (simp add: dword_def algebra_simps)
    moreover have "(if NOT lo + 1 = 0 then NOT hi + 1 else NOT hi) = - hi - 1"
      unfolding n nh using False by simp
    ultimately show ?thesis
      using cong64_high [of "- uint hi - 1" "2 ^ 32 - uint lo"] by (simp only: n l dword_def)
  qed
qed

lemma sint_uint_cases: "sint a = uint a - (if a <s 0 then 2 ^ 32 else 0)" for a :: uint32
proof -
  have t: "take_bit 32 (uint a) = uint a" using uint_range by (simp add: take_bit_int_eq_self)
  have s: "sint a = signed_take_bit 31 (uint a)" by (simp add: sint_uint)
  then have "a <s 0 \<longleftrightarrow> bit (uint a) 31" by (simp add: word_sless_alt)
  then show ?thesis using t by (simp add: s signed_take_bit_eq_take_bit_minus)
qed

lemma uint_magnitude: "uint (if a <s 0 then - a else a) = \<bar>sint a\<bar>" for a :: uint32
proof (cases "a <s 0")
  case True
  then have "a \<noteq> 0" by (auto simp: word_sless_alt)
  then have "uint (- a) = 2 ^ 32 - uint a"
    using uint_range [of a] by (simp add: uint_word_ariths zmod_zminus1_eq_if uint_0_iff)
  with True show ?thesis using uint_range [of a] by (simp add: sint_uint_cases)
qed (use uint_range in \<open>simp add: sint_uint_cases\<close>)

lemma signed_product:
  assumes "cong64 (dword hi lo) (sint (a :: uint32) * sint (b :: uint32))"
  shows "sint hi * 2 ^ 32 + uint lo = sint a * sint b"
proof -
  have r: "- (2 ^ 31) \<le> sint x \<and> sint x < 2 ^ 31" for x :: uint32
    using sint_ge [of x] sint_lt [of x] by simp
  have "\<bar>sint a * sint b\<bar> \<le> 2 ^ 31 * 2 ^ 31"
    unfolding abs_mult using r [of a] r [of b] by (intro mult_mono) auto
  moreover have "- (2 ^ 63) \<le> sint hi * 2 ^ 32 + uint lo \<and> sint hi * 2 ^ 32 + uint lo < 2 ^ 63"
  proof -
    have "- 2147483648 \<le> sint hi" "sint hi < 2147483648" "0 \<le> uint lo" "uint lo < 4294967296"
      using r [of hi] uint_range [of lo] by simp_all
    then have "- 9223372036854775808 \<le> sint hi * 4294967296 + uint lo"
      "sint hi * 4294967296 + uint lo < 9223372036854775808" by linarith+
    then show ?thesis by simp
  qed
  ultimately have lt: "\<bar>(sint hi * 2 ^ 32 + uint lo) - sint a * sint b\<bar> < 2 ^ 64"
    by (auto simp: abs_le_iff abs_less_iff)
  have "cong64 (sint hi * 2 ^ 32 + uint lo) (dword hi lo)"
    by (simp add: sint_uint_cases dword_def left_diff_distrib mod_eq_dvd_iff)
  with assms have "cong64 (sint hi * 2 ^ 32 + uint lo) (sint a * sint b)" by (rule trans [rotated])
  then have "(2 ^ 64 :: int) dvd (sint hi * 2 ^ 32 + uint lo) - sint a * sint b"
    by (rule mod_eq_dvd_iff [THEN iffD1])
  with lt have "(sint hi * 2 ^ 32 + uint lo) - sint a * sint b = 0"
    using dvd_imp_le_int by (metis abs_numeral abs_power2 not_less power_abs)
  then show ?thesis by simp
qed

section \<open>Properties\<close>

text \<open>
  C11: \<open>Mult\<close> computes the exact 64-bit product: of the signed values with \<open>signedArith\<close>, the high word
  read as signed, and of the unsigned values without it.
\<close>

theorem Mult_exact:
  "(case Mult a b True of (hi, lo) \<Rightarrow> sint hi * 2 ^ 32 + uint lo) = sint a * sint b \<and>
   (case Mult a b False of (hi, lo) \<Rightarrow> uint hi * 2 ^ 32 + uint lo) = uint a * uint b"
proof
  show "(case Mult a b False of (hi, lo) \<Rightarrow> uint hi * 2 ^ 32 + uint lo) = uint a * uint b"
    using Mult_loop_32 [of a b] by (simp add: Mult_def dword_def)
next
  let ?a = "if a <s 0 then - a else a" and ?b = "if b <s 0 then - b else b"
  obtain hi lo where l: "Mult_loop 32 ?a ?b 0 0 0 = (hi, lo)" by (cases "Mult_loop 32 ?a ?b 0 0 0")
  have p: "dword hi lo = \<bar>sint a\<bar> * \<bar>sint b\<bar>"
    using Mult_loop_32 [of ?a ?b] l uint_magnitude by simp
  show "(case Mult a b True of (hi, lo) \<Rightarrow> sint hi * 2 ^ 32 + uint lo) = sint a * sint b"
  proof (cases "a = 0 \<or> b = 0")
    case False
    then show ?thesis
    proof (cases "(a <s 0) = (b <s 0)")
      case True
      then have "\<bar>sint a\<bar> * \<bar>sint b\<bar> = sint a * sint b" by (auto simp: word_sless_alt abs_if)
      with p have "cong64 (dword hi lo) (sint a * sint b)" by simp
      with signed_product l True False show ?thesis by (simp add: Mult_def Let_def)
    next
      case neq: False
      then have "\<bar>sint a\<bar> * \<bar>sint b\<bar> = - (sint a * sint b)" by (auto simp: word_sless_alt abs_if)
      with p dword_neg [of lo hi]
      have "cong64 (dword (if NOT lo + 1 = 0 then NOT hi + 1 else NOT hi) (NOT lo + 1)) (sint a * sint b)" by simp
      from signed_product [OF this] neq l False show ?thesis by (simp add: Mult_def Let_def)
    qed
  qed (auto simp: Mult_def)
qed

end
