(* ===== verification/Mips_Exec.thy ===== *)
theory Mips_Exec
  imports Mips_Decode Mips_Mult
begin

text \<open>
  \<open>Machine::OneInstruction\<close>, \<open>Machine::Fix_Fork_Registers\<close> and the body of the loop of \<open>Machine::Run\<close>
  (\<open>machine/mipssim.cc\<close>). The \<open>switch\<close> on the operation code is cut into groups of consecutive
  cases; each group takes what the rest of the \<open>switch\<close> does as its last argument. Registers are
  32-bit words, signed operations read them with \<open>sint\<close>; signed addition wraps, as the compiled code does,
  and the quotient of the least integer by -1, which has no value in 32 bits, traps.
\<close>

section \<open>How a case ends\<close>

text \<open>
  A case either returns from \<open>OneInstruction\<close>, after an exception, or leaves the \<open>switch\<close> with the
  local variables \<open>nextLoadReg\<close>, \<open>nextLoadValue\<close> and \<open>pcAfter\<close>.
\<close>

datatype 'm step_end = Return 'm | Leave uint32 uint32 uint32 'm

definition set_reg :: "nat \<Rightarrow> uint32 \<Rightarrow> 'a machine_scheme \<Rightarrow> 'a machine_scheme" where
  "set_reg r v s = s\<lparr>registers := (registers s)(r := v)\<rparr>"

definition leave :: "uint32 \<Rightarrow> 'a machine_scheme \<Rightarrow> 'a machine_scheme step_end res" where
  "leave pcAfter s = Inr (Leave 0 0 pcAfter s)"

definition raise_return ::
  "'a handler \<Rightarrow> ExceptionType \<Rightarrow> uint32 \<Rightarrow> 'a machine_scheme \<Rightarrow> 'a machine_scheme step_end res" where
  "raise_return handler which badVAddr s =
     bind_res (RaiseException handler which badVAddr s) (\<lambda>t. Inr (Return t))"

definition SIGN_BIT :: uint32 where "SIGN_BIT = 0x80000000"
definition R31 :: nat where "R31 = 31"

definition IndexToAddr :: "uint32 \<Rightarrow> uint32" where "IndexToAddr x = push_bit 2 x"

section \<open>Additions and conjunctions\<close>

definition exec_add ::
  "'a handler \<Rightarrow> Instruction \<Rightarrow> uint32 \<Rightarrow> 'a machine_scheme \<Rightarrow> 'a machine_scheme step_end res \<Rightarrow>
   'a machine_scheme step_end res" where
  "exec_add handler i pcAfter s rest =
     (let a = registers s (rs i); b = registers s (rt i); x = extra i in
      if opCode i = OP_ADD then
        (let sum = a + b in
         if (a XOR b) AND SIGN_BIT = 0 \<and> (a XOR sum) AND SIGN_BIT \<noteq> 0
         then raise_return handler OverflowException 0 s
         else leave pcAfter (set_reg (rd i) sum s))
      else if opCode i = OP_ADDI then
        (let sum = a + x in
         if (a XOR x) AND SIGN_BIT = 0 \<and> (x XOR sum) AND SIGN_BIT \<noteq> 0
         then raise_return handler OverflowException 0 s
         else leave pcAfter (set_reg (rt i) sum s))
      else if opCode i = OP_ADDIU then leave pcAfter (set_reg (rt i) (a + x) s)
      else if opCode i = OP_ADDU then leave pcAfter (set_reg (rd i) (a + b) s)
      else if opCode i = OP_AND then leave pcAfter (set_reg (rd i) (a AND b) s)
      else if opCode i = OP_ANDI then leave pcAfter (set_reg (rt i) (a AND (x AND 0xFFFF)) s)
      else rest)"

section \<open>Branches and jumps\<close>

text \<open>
  \<open>branch\<close> is the assignment of the target to \<open>pcAfter\<close>. The linking branches write register 31
  before they test \<open>rs\<close>, and \<open>JALR\<close> writes \<open>rd\<close> before it reads \<open>rs\<close>.
\<close>

definition branch :: "bool \<Rightarrow> Instruction \<Rightarrow> uint32 \<Rightarrow> 'a machine_scheme \<Rightarrow> uint32" where
  "branch b i pcAfter s = (if b then registers s NextPCReg + IndexToAddr (extra i) else pcAfter)"

definition exec_branch ::
  "'a handler \<Rightarrow> Instruction \<Rightarrow> uint32 \<Rightarrow> 'a machine_scheme \<Rightarrow> 'a machine_scheme step_end res \<Rightarrow>
   'a machine_scheme step_end res" where
  "exec_branch handler i pcAfter s rest =
     (let a = registers s (rs i); b = registers s (rt i);
          link = set_reg R31 (registers s NextPCReg + 4) s; al = registers link (rs i) in
      if opCode i = OP_BEQ then leave (branch (a = b) i pcAfter s) s
      else if opCode i = OP_BGEZAL then leave (branch (al AND SIGN_BIT = 0) i pcAfter link) link
      else if opCode i = OP_BGEZ then leave (branch (a AND SIGN_BIT = 0) i pcAfter s) s
      else if opCode i = OP_BGTZ then leave (branch (0 <s a) i pcAfter s) s
      else if opCode i = OP_BLEZ then leave (branch (a \<le>s 0) i pcAfter s) s
      else if opCode i = OP_BLTZAL then leave (branch (al AND SIGN_BIT \<noteq> 0) i pcAfter link) link
      else if opCode i = OP_BLTZ then leave (branch (a AND SIGN_BIT \<noteq> 0) i pcAfter s) s
      else if opCode i = OP_BNE then leave (branch (a \<noteq> b) i pcAfter s) s
      else if opCode i = OP_BREAK then
        bind_res (RaiseException handler BreakpointException (registers s PCReg) s) (\<lambda>t.
        leave (registers t NextPCReg) (set_reg NextPCReg (registers t PCReg) t))
      else rest)"

definition exec_jump ::
  "Instruction \<Rightarrow> uint32 \<Rightarrow> 'a machine_scheme \<Rightarrow> 'a machine_scheme step_end res \<Rightarrow>
   'a machine_scheme step_end res" where
  "exec_jump i pcAfter s rest =
     (let target = (pcAfter AND 0xF0000000) OR IndexToAddr (extra i) in
      if opCode i = OP_JAL then leave target (set_reg R31 (registers s NextPCReg + 4) s)
      else if opCode i = OP_J then leave target s
      else if opCode i = OP_JALR then
        (let t = set_reg (rd i) (registers s NextPCReg + 4) s in leave (registers t (rs i)) t)
      else if opCode i = OP_JR then leave (registers s (rs i)) s
      else rest)"

section \<open>Division and multiplication\<close>

definition set_HiLo :: "uint32 \<Rightarrow> uint32 \<Rightarrow> 'a machine_scheme \<Rightarrow> 'a machine_scheme" where
  "set_HiLo hi lo s = set_reg HiReg hi (set_reg LoReg lo s)"

definition exec_div ::
  "Instruction \<Rightarrow> uint32 \<Rightarrow> 'a machine_scheme \<Rightarrow> 'a machine_scheme step_end res \<Rightarrow>
   'a machine_scheme step_end res" where
  "exec_div i pcAfter s rest =
     (let a = registers s (rs i); b = registers s (rt i) in
      if opCode i = OP_DIV then
        if b = 0 then leave pcAfter (set_HiLo 0 0 s)
        else if a = SIGN_BIT \<and> b = -1 then Inl ArithmeticTrap
        else leave pcAfter (set_HiLo (word_of_int (sint a smod sint b)) (word_of_int (sint a sdiv sint b)) s)
      else if opCode i = OP_DIVU then
        if b = 0 then leave pcAfter (set_HiLo 0 0 s)
        else leave pcAfter (set_HiLo (a mod b) (a div b) s)
      else rest)"

definition exec_hilo ::
  "Instruction \<Rightarrow> uint32 \<Rightarrow> 'a machine_scheme \<Rightarrow> 'a machine_scheme step_end res \<Rightarrow>
   'a machine_scheme step_end res" where
  "exec_hilo i pcAfter s rest =
     (let a = registers s (rs i); b = registers s (rt i); x = extra i in
      if opCode i = OP_MFHI then leave pcAfter (set_reg (rd i) (registers s HiReg) s)
      else if opCode i = OP_MFLO then leave pcAfter (set_reg (rd i) (registers s LoReg) s)
      else if opCode i = OP_MTHI then leave pcAfter (set_reg HiReg a s)
      else if opCode i = OP_MTLO then leave pcAfter (set_reg LoReg a s)
      else if opCode i = OP_MULT then
        (let (hi, lo) = Mult a b True in leave pcAfter (set_HiLo hi lo s))
      else if opCode i = OP_MULTU then
        (let (hi, lo) = Mult a b False in leave pcAfter (set_HiLo hi lo s))
      else if opCode i = OP_NOR then leave pcAfter (set_reg (rd i) (NOT (a OR b)) s)
      else if opCode i = OP_OR then leave pcAfter (set_reg (rd i) (a OR b) s)
      else if opCode i = OP_ORI then leave pcAfter (set_reg (rt i) (a OR (x AND 0xFFFF)) s)
      else rest)"

section \<open>Shifts, comparisons, subtractions\<close>

text \<open>
  The local \<open>tmp\<close> of the logical right shifts is a signed \<open>int\<close>, so \<open>SRL\<close> and \<open>SRLV\<close> shift like \<open>SRA\<close>
  and \<open>SRAV\<close>.
\<close>

definition exec_shift ::
  "'a handler \<Rightarrow> Instruction \<Rightarrow> uint32 \<Rightarrow> 'a machine_scheme \<Rightarrow> 'a machine_scheme step_end res \<Rightarrow>
   'a machine_scheme step_end res" where
  "exec_shift handler i pcAfter s rest =
     (let a = registers s (rs i); b = registers s (rt i); x = extra i;
          put = (\<lambda>r v. leave pcAfter (set_reg r v s)); amount = unat (a AND 0x1F) in
      if opCode i = OP_SLL then put (rd i) (push_bit (unat x) b)
      else if opCode i = OP_SLLV then put (rd i) (push_bit amount b)
      else if opCode i = OP_SLT then put (rd i) (if a <s b then 1 else 0)
      else if opCode i = OP_SLTI then put (rt i) (if a <s x then 1 else 0)
      else if opCode i = OP_SLTIU then put (rt i) (if a < x then 1 else 0)
      else if opCode i = OP_SLTU then put (rd i) (if a < b then 1 else 0)
      else if opCode i = OP_SRA then put (rd i) (signed_drop_bit (unat x) b)
      else if opCode i = OP_SRAV then put (rd i) (signed_drop_bit amount b)
      else if opCode i = OP_SRL then put (rd i) (signed_drop_bit (unat x) b)
      else if opCode i = OP_SRLV then put (rd i) (signed_drop_bit amount b)
      else if opCode i = OP_SUB then
        (let diff = a - b in
         if (a XOR b) AND SIGN_BIT \<noteq> 0 \<and> (a XOR diff) AND SIGN_BIT \<noteq> 0
         then raise_return handler OverflowException 0 s
         else put (rd i) diff)
      else if opCode i = OP_SUBU then put (rd i) (a - b)
      else rest)"

section \<open>Loads\<close>

text \<open>
  \<open>junk\<close> is the uninitialised local \<open>value\<close>, of which \<open>ReadMem\<close> overwrites the low bytes.
\<close>

definition load_with ::
  "'a handler \<Rightarrow> uint32 \<Rightarrow> nat \<Rightarrow> uint32 \<Rightarrow> 'a machine_scheme \<Rightarrow>
   (uint32 \<Rightarrow> 'a machine_scheme \<Rightarrow> 'a machine_scheme step_end res) \<Rightarrow> 'a machine_scheme step_end res" where
  "load_with handler tmp sz junk s k =
     bind_res (ReadMem handler tmp sz junk s) (\<lambda>(ok, value, t). if ok then k value t else Inr (Return t))"

definition exec_load ::
  "'a handler \<Rightarrow> uint32 \<Rightarrow> Instruction \<Rightarrow> uint32 \<Rightarrow> 'a machine_scheme \<Rightarrow> 'a machine_scheme step_end res \<Rightarrow>
   'a machine_scheme step_end res" where
  "exec_load handler junk i pcAfter s rest =
     (let tmp = registers s (rs i) + extra i; reg = of_nat (rt i) in
      if opCode i = OP_LB \<or> opCode i = OP_LBU then
        load_with handler tmp 1 junk s (\<lambda>value t. Inr (Leave reg
          (if value AND 0x80 \<noteq> 0 \<and> opCode i = OP_LB then value OR 0xFFFFFF00 else value AND 0xFF) pcAfter t))
      else if opCode i = OP_LH \<or> opCode i = OP_LHU then
        if tmp AND 1 \<noteq> 0 then raise_return handler AddressErrorException tmp s
        else load_with handler tmp 2 junk s (\<lambda>value t. Inr (Leave reg
          (if value AND 0x8000 \<noteq> 0 \<and> opCode i = OP_LH then value OR 0xFFFF0000 else value AND 0xFFFF) pcAfter t))
      else if opCode i = OP_LUI then leave pcAfter (set_reg (rt i) (push_bit 16 (extra i)) s)
      else if opCode i = OP_LW then
        if tmp AND 3 \<noteq> 0 then raise_return handler AddressErrorException tmp s
        else load_with handler tmp 4 junk s (\<lambda>value t. Inr (Leave reg value pcAfter t))
      else rest)"

text \<open>The unaligned loads: the value the register will have when a pending load is done.\<close>

definition pending_value :: "nat \<Rightarrow> 'a machine_scheme \<Rightarrow> uint32" where
  "pending_value r t =
     (if registers t LoadReg = of_nat r then registers t LoadValueReg else registers t r)"

definition exec_lwlr ::
  "'a handler \<Rightarrow> uint32 \<Rightarrow> Instruction \<Rightarrow> uint32 \<Rightarrow> 'a machine_scheme \<Rightarrow> 'a machine_scheme step_end res \<Rightarrow>
   'a machine_scheme step_end res" where
  "exec_lwlr handler junk i pcAfter s rest =
     (let tmp = registers s (rs i) + extra i; reg = of_nat (rt i) in
      if opCode i = OP_LWL then
        assert_res (tmp AND 3 = 0) (\<lambda>_.
        load_with handler tmp 4 junk s (\<lambda>value t.
          let old = pending_value (rt i) t in
          Inr (Leave reg
            (if tmp AND 3 = 0 then value
             else if tmp AND 3 = 1 then (old AND 0xFF) OR push_bit 8 value
             else if tmp AND 3 = 2 then (old AND 0xFFFF) OR push_bit 16 value
             else (old AND 0xFFFFFF) OR push_bit 24 value) pcAfter t)))
      else if opCode i = OP_LWR then
        assert_res (tmp AND 3 = 0) (\<lambda>_.
        load_with handler tmp 4 junk s (\<lambda>value t.
          let old = pending_value (rt i) t in
          Inr (Leave reg
            (if tmp AND 3 = 0 then (old AND 0xFFFFFF00) OR (signed_drop_bit 24 value AND 0xFF)
             else if tmp AND 3 = 1 then (old AND 0xFFFF0000) OR (signed_drop_bit 16 value AND 0xFFFF)
             else if tmp AND 3 = 2 then (old AND 0xFF000000) OR (signed_drop_bit 8 value AND 0xFFFFFF)
             else value) pcAfter t)))
      else rest)"

section \<open>Stores\<close>

definition store_leave ::
  "'a handler \<Rightarrow> uint32 \<Rightarrow> nat \<Rightarrow> uint32 \<Rightarrow> uint32 \<Rightarrow> 'a machine_scheme \<Rightarrow> 'a machine_scheme step_end res" where
  "store_leave handler addr sz value pcAfter s =
     bind_res (WriteMem handler addr sz value s) (\<lambda>(ok, t). if ok then leave pcAfter t else Inr (Return t))"

definition exec_store ::
  "'a handler \<Rightarrow> Instruction \<Rightarrow> uint32 \<Rightarrow> 'a machine_scheme \<Rightarrow> 'a machine_scheme step_end res \<Rightarrow>
   'a machine_scheme step_end res" where
  "exec_store handler i pcAfter s rest =
     (let addr = registers s (rs i) + extra i; b = registers s (rt i) in
      if opCode i = OP_SB then store_leave handler addr 1 b pcAfter s
      else if opCode i = OP_SH then store_leave handler addr 2 b pcAfter s
      else if opCode i = OP_SW then store_leave handler addr 4 b pcAfter s
      else rest)"

definition exec_swlr ::
  "'a handler \<Rightarrow> uint32 \<Rightarrow> Instruction \<Rightarrow> uint32 \<Rightarrow> 'a machine_scheme \<Rightarrow> 'a machine_scheme step_end res \<Rightarrow>
   'a machine_scheme step_end res" where
  "exec_swlr handler junk i pcAfter s rest =
     (let tmp = registers s (rs i) + extra i; word = tmp AND NOT 3 in
      if opCode i = OP_SWL then
        assert_res (tmp AND 3 = 0) (\<lambda>_.
        load_with handler word 4 junk s (\<lambda>value t.
          let b = registers t (rt i) in
          store_leave handler word 4
            (if tmp AND 3 = 0 then b
             else if tmp AND 3 = 1 then (value AND 0xFF000000) OR (signed_drop_bit 8 b AND 0xFFFFFF)
             else if tmp AND 3 = 2 then (value AND 0xFFFF0000) OR (signed_drop_bit 16 b AND 0xFFFF)
             else (value AND 0xFFFFFF00) OR (signed_drop_bit 24 b AND 0xFF)) pcAfter t))
      else if opCode i = OP_SWR then
        assert_res (tmp AND 3 = 0) (\<lambda>_.
        load_with handler word 4 junk s (\<lambda>value t.
          let b = registers t (rt i) in
          store_leave handler word 4
            (if tmp AND 3 = 0 then (value AND 0xFFFFFF) OR push_bit 24 b
             else if tmp AND 3 = 1 then (value AND 0xFFFF) OR push_bit 16 b
             else if tmp AND 3 = 2 then (value AND 0xFF) OR push_bit 8 b
             else b) pcAfter t))
      else rest)"

section \<open>System calls and the rest\<close>

definition exec_misc ::
  "'a handler \<Rightarrow> Instruction \<Rightarrow> uint32 \<Rightarrow> 'a machine_scheme \<Rightarrow> 'a machine_scheme step_end res" where
  "exec_misc handler i pcAfter s =
     (let a = registers s (rs i); b = registers s (rt i) in
      if opCode i = OP_SYSCALL then
        bind_res (RaiseException handler SyscallException 0 s) (leave pcAfter)
      else if opCode i = OP_XOR then leave pcAfter (set_reg (rd i) (a XOR b) s)
      else if opCode i = OP_XORI then leave pcAfter (set_reg (rt i) (a XOR (extra i AND 0xFFFF)) s)
      else if opCode i = OP_RES \<or> opCode i = OP_UNIMP then raise_return handler IllegalInstrException 0 s
      else Inl AssertionFailed)"

section \<open>One instruction\<close>

definition execute ::
  "'a handler \<Rightarrow> uint32 \<Rightarrow> Instruction \<Rightarrow> uint32 \<Rightarrow> 'a machine_scheme \<Rightarrow> 'a machine_scheme step_end res" where
  "execute handler junk i pcAfter s =
     exec_add handler i pcAfter s (exec_branch handler i pcAfter s (exec_div i pcAfter s
     (exec_jump i pcAfter s (exec_load handler junk i pcAfter s (exec_lwlr handler junk i pcAfter s
     (exec_hilo i pcAfter s (exec_store handler i pcAfter s (exec_shift handler i pcAfter s
     (exec_swlr handler junk i pcAfter s (exec_misc handler i pcAfter s))))))))))"

definition advance :: "uint32 \<Rightarrow> uint32 \<Rightarrow> uint32 \<Rightarrow> 'a machine_scheme \<Rightarrow> 'a machine_scheme res" where
  "advance nextLoadReg nextLoadValue pcAfter s =
     bind_res (DelayedLoad nextLoadReg nextLoadValue s) (\<lambda>t.
     Inr (set_reg NextPCReg pcAfter (set_reg PCReg (registers t NextPCReg)
       (set_reg PrevPCReg (registers t PCReg) t))))"

definition OneInstruction :: "'a handler \<Rightarrow> uint32 \<Rightarrow> 'a machine_scheme \<Rightarrow> 'a machine_scheme res" where
  "OneInstruction handler junk s =
     bind_res (ReadMem handler (registers s PCReg) 4 junk s) (\<lambda>(ok, raw, s1).
     if \<not> ok then Inr s1
     else
       bind_res (execute handler junk (Decode raw) (registers s1 NextPCReg + 4) s1) (\<lambda>e.
       case e of
         Return t \<Rightarrow> Inr t
       | Leave nextLoadReg nextLoadValue pcAfter t \<Rightarrow> advance nextLoadReg nextLoadValue pcAfter t))"

definition Fix_Fork_Registers :: "'a machine_scheme \<Rightarrow> 'a machine_scheme res" where
  "Fix_Fork_Registers s =
     bind_res (DelayedLoad 0 0 s) (\<lambda>t.
     let t1 = set_reg PrevPCReg (registers t PCReg) t;
         t2 = set_reg PCReg (registers t1 NextPCReg) t1;
         t3 = set_reg NextPCReg (registers t2 NextPCReg + 4) t2
     in Inr (set_reg 2 0 t3))"

text \<open>
  One round of the loop of \<open>Machine::Run\<close>; \<open>oneTick\<close> is \<open>Interrupt::OneTick\<close>, and \<open>singleStep\<close> stays as the
  constructor set it, since no debugger is attached.
\<close>

definition Run_round ::
  "'a handler \<Rightarrow> ('a machine_scheme \<Rightarrow> 'a machine_scheme res) \<Rightarrow> bool \<Rightarrow> uint32 \<Rightarrow>
   'a machine_scheme \<Rightarrow> 'a machine_scheme res" where
  "Run_round handler oneTick singleStep junk s =
     bind_res (check_watchpoint handler (registers s PCReg) 1 SoftwareBp s) (\<lambda>s1.
     bind_res (OneInstruction handler junk s1) (\<lambda>s2.
     bind_res (oneTick s2) (\<lambda>s3.
     if singleStep then RaiseException handler BreakpointException (registers s3 PCReg) s3 else Inr s3)))"

end
