(* ===== verification/Machine_Access.thy ===== *)
theory Machine_Access
  imports Machine
begin

text \<open>
  Memory accesses of user programs: on a resident page \<open>ReadMem\<close> returns what the process has in
  its virtual memory and \<open>WriteMem\<close> changes exactly the bytes written, of the running process
  only, whatever frames are shared; an access to a page that is not resident brings it in.
\<close>

section \<open>Virtual addresses\<close>

definition umem :: "'a vm_scheme \<Rightarrow> nat \<Rightarrow> nat \<Rightarrow> byte option" where
  "umem s sid a = vbyte s sid (a div PageSize) (a mod PageSize)"

definition access_size :: "nat \<Rightarrow> bool" where
  "access_size sz \<longleftrightarrow> sz = 1 \<or> sz = 2 \<or> sz = 4"

lemma PageSize_pos [simp]: "0 < PageSize"
  by (simp add: PageSize_def SectorSize_def)

lemma vm_inv_ext [simp]:
  "vm_inv_except X (s\<lparr>registers := r\<rparr>) = vm_inv_except X s"
  "vm_inv_except X (s\<lparr>mstatus := st\<rparr>) = vm_inv_except X s"
  "vm_inv_except X (s\<lparr>numPageFaults := n, procPageFaults := p, ticksAtLastPageFault := k\<rparr>) = vm_inv_except X s"
  for s :: "'a machine_scheme"
  by (simp_all add: vm_inv_defs maps_def swapped_def)

lemma vbyte_ext [simp]:
  "vbyte (s\<lparr>registers := r\<rparr>) = vbyte s" "vbyte (s\<lparr>mstatus := st\<rparr>) = vbyte s"
  "vbyte (s\<lparr>numPageFaults := n, procPageFaults := p, ticksAtLastPageFault := k\<rparr>) = vbyte s"
  for s :: "'a machine_scheme"
  by (simp_all add: vbyte_def fun_eq_iff)

lemma unat_low_bits: "addr AND 3 = 0 \<Longrightarrow> unat (addr :: uint32) mod 4 = 0"
  "addr AND 1 = 0 \<Longrightarrow> unat (addr :: uint32) mod 2 = 0"
proof -
  have "unat (addr AND 3) = unat addr mod 4"
  proof -
    have "unat (take_bit 2 addr) = take_bit 2 (unat addr)" by (rule unsigned_take_bit_eq)
    moreover have "take_bit 2 addr = addr AND 3" by (simp add: take_bit_eq_mask mask_eq_exp_minus_1)
    ultimately show ?thesis by (simp add: take_bit_eq_mod)
  qed
  then show "addr AND 3 = 0 \<Longrightarrow> unat addr mod 4 = 0" by simp
  have "unat (addr AND 1) = unat addr mod 2"
    by (simp add: and_one_eq unat_mod)
  then show "addr AND 1 = 0 \<Longrightarrow> unat addr mod 2 = 0" by simp
qed

text \<open>An aligned access does not cross a page.\<close>

lemma aligned_in_page:
  assumes "\<not> misaligned addr sz" "access_size sz"
  shows "unat addr mod PageSize + sz \<le> PageSize"
proof -
  have step: "(a :: nat) mod (k * n) + k \<le> k * n" if "a mod k = 0" "0 < k" "0 < n" for a k n
  proof -
    have "a mod (k * n) = k * (a div k mod n)" using that(1) by (simp add: mod_mult2_eq)
    moreover have "a div k mod n + 1 \<le> n" using that(3) by (simp add: Suc_leI)
    then have "k * (a div k mod n + 1) \<le> k * n" by (rule mult_le_mono2)
    ultimately show ?thesis by simp
  qed
  have "(a :: nat) mod 128 + 4 \<le> 128" if "a mod 4 = 0" for a using step [of a 4 32] that by simp
  moreover have "(a :: nat) mod 128 + 2 \<le> 128" if "a mod 2 = 0" for a using step [of a 2 64] that by simp
  moreover have "(a :: nat) mod 128 + 1 \<le> 128" for a using step [of a 1 128] by simp
  ultimately show ?thesis
    using assms unat_low_bits [of addr]
    by (auto simp: misaligned_def access_size_def PageSize_def SectorSize_def)
qed

lemma in_page:
  assumes "a mod PageSize + i < PageSize"
  shows "(a + i) div PageSize = a div PageSize" "(a + i) mod PageSize = a mod PageSize + i"
proof -
  show "(a + i) div PageSize = a div PageSize" using assms by (simp add: div_add1_eq [of a i])
  show "(a + i) mod PageSize = a mod PageSize + i" using assms by (metis mod_add_left_eq mod_less)
qed

lemma le_read_cong:
  "(\<And>i. i < n \<Longrightarrow> m1 (p1 + i) = m2 (p2 + i)) \<Longrightarrow> le_read m1 p1 n = le_read m2 p2 n"
  by (induction n) simp_all

section \<open>Marking a page as written\<close>

text \<open>The page is in a frame of its own and its swap frame, if any, is its own too.\<close>

definition exclusive :: "'a vm_scheme \<Rightarrow> nat \<Rightarrow> nat \<Rightarrow> TranslationEntry \<Rightarrow> bool" where
  "exclusive s sid v te \<longleftrightarrow>
     ent (spaces s) sid v = Some te \<and> valid te \<and>
     (\<forall>ow w. maps s ow w (physicalPage te) \<longrightarrow> ow = sid \<and> w = v) \<and>
     (te_File te = Some (swapFile s) \<longrightarrow> (\<forall>ow te'. ent (spaces s) ow v = Some te' \<longrightarrow>
        te_File te' = Some (swapFile s) \<longrightarrow> te_offset te' = te_offset te \<longrightarrow> ow = sid))"

lemma not_cow_exclusive:
  assumes inv: "vm_inv_except X s" and e: "ent (spaces s) sid v = Some te" "valid te" "\<not> cow te"
  shows "exclusive s sid v te"
  unfolding exclusive_def
proof (intro conjI allI impI)
  fix ow w assume m: "maps s ow w (physicalPage te)"
  have "maps s sid v (physicalPage te)" using e by (auto simp: maps_def)
  from maps_owned(3) [OF inv this] maps_owned(3) [OF inv m] show w: "w = v" by simp
  show "ow = sid"
  proof (rule ccontr)
    assume "ow \<noteq> sid"
    from m w obtain te' where "ent (spaces s) ow v = Some te'" "valid te'" "physicalPage te' = physicalPage te"
      by (auto simp: maps_def)
    with share_frameD(2) [OF inv e(1) this(1) e(2) this(2)] \<open>ow \<noteq> sid\<close> e(3) show False by simp
  qed
next
  fix ow te' assume "te_File te = Some (swapFile s)" "ent (spaces s) ow v = Some te'"
    "te_File te' = Some (swapFile s)" "te_offset te' = te_offset te"
  with share_swapD(2) [OF inv e(1)] e(3) show "ow = sid" by metis
qed (use e in simp_all)

lemma exclusive_sole:
  assumes "exclusive s sid v te" "ent (spaces s) ow w = Some te'" "valid te'" "physicalPage te' = physicalPage te"
  shows "ow = sid \<and> w = v"
proof -
  have "maps s ow w (physicalPage te)" using assms(2-4) by (auto simp: maps_def)
  with assms(1) show ?thesis by (simp add: exclusive_def)
qed

lemma exclusive_alone:
  assumes ex: "exclusive s sid v te" and ne: "o1 \<noteq> o2"
    and t: "ent (spaces s) o1 w = Some t1" "ent (spaces s) o2 w = Some t2"
    and sh: "valid t1 \<and> valid t2 \<and> physicalPage t1 = physicalPage t2 \<or>
      te_File t1 = Some (swapFile s) \<and> te_File t2 = Some (swapFile s) \<and> te_offset t1 = te_offset t2"
  shows "\<not> ((o1 = sid \<or> o2 = sid) \<and> w = v)"
proof
  assume a: "(o1 = sid \<or> o2 = sid) \<and> w = v"
  have one: "te = t1 \<and> o1 = sid \<or> te = t2 \<and> o2 = sid" using ex a t by (auto simp: exclusive_def)
  from sh show False
  proof
    assume v: "valid t1 \<and> valid t2 \<and> physicalPage t1 = physicalPage t2"
    then show False using exclusive_sole [OF ex t(1)] exclusive_sole [OF ex t(2)] one ne by auto
  next
    assume "te_File t1 = Some (swapFile s) \<and> te_File t2 = Some (swapFile s) \<and> te_offset t1 = te_offset t2"
    then show False using ex t one ne a unfolding exclusive_def by metis
  qed
qed

lemma owns_page_exclusive: "owns_page s sid v \<Longrightarrow> \<exists>te. exclusive s sid v te \<and> \<not> cow te"
  by (auto simp: owns_page_def exclusive_def)

lemma touch_fields [simp]:
  "valid (touch b te) = valid te" "physicalPage (touch b te) = physicalPage te"
  "te_File (touch b te) = te_File te" "te_offset (touch b te) = te_offset te"
  "te_zero (touch b te) = te_zero te" "cow (touch b te) = cow te" "dirty (touch b te) = (dirty te \<or> b)"
  by (simp_all add: touch_def)

definition written :: "'a vm_scheme \<Rightarrow> nat \<Rightarrow> nat \<Rightarrow> (nat \<Rightarrow> byte) \<Rightarrow> 'a vm_scheme" where
  "written s sid v m = s\<lparr>spaces := upd_spaces {sid} v (touch True) (spaces s), mainMemory := m\<rparr>"

lemma written_inv:
  assumes inv: "vm_inv_except {(sid, v)} s" and ex: "exclusive s sid v te"
    and m: "\<And>g i. g \<noteq> physicalPage te \<Longrightarrow> i < PageSize \<Longrightarrow> page_bytes m g i = page_bytes (mainMemory s) g i"
  shows "vm_inv (written s sid v m)"
  unfolding vm_inv_except_def
proof (intro conjI)
  let ?t = "written s sid v m"
  note sel = written_def
  have ent: "\<exists>te0. ent (spaces s) ow w = Some te0 \<and> te' = (if ow = sid \<and> w = v then touch True te0 else te0)"
    if "ent (spaces ?t) ow w = Some te'" for ow w te'
    using that by (auto simp: sel split: if_splits)
  have maps: "maps ?t = maps s" by (auto simp: maps_def fun_eq_iff sel)
  have swapped: "swapped ?t = swapped s" by (auto simp: swapped_def fun_eq_iff sel)
  show "alloc_inv ?t" using inv by (simp add: vm_inv_except_def alloc_inv_def sel)
  from inv have oi: "owner_inv s" by (rule vm_inv_parts)
  show "owner_inv ?t"
    unfolding owner_inv_def maps swapped
  proof (intro conjI allI impI)
    show "length (pageTable a) = numPages a" if "spaces ?t sid' = Some a" for sid' a
      using that oi unfolding owner_inv_def sel by (auto dest: upd_spaces_wf)
    fix ow w te' assume e: "ent (spaces ?t) ow w = Some te'" "te_File te' = Some (swapFile ?t)"
    from ent [OF e(1)] obtain te0 where "ent (spaces s) ow w = Some te0" "te_File te0 = te_File te'"
      "te_zero te0 = te_zero te'" "te_offset te0 = te_offset te'" by (auto split: if_splits)
    with swap_entryD [OF inv this(1)] e show "\<not> te_zero te'" "\<exists>k<NumSwapPages. te_offset te' = k * PageSize"
      by (auto simp: sel)
  qed (use oi in \<open>auto simp: owner_inv_def sel\<close>)
  show "share_inv ?t"
    unfolding share_inv_def
  proof (intro allI conjI impI)
    fix o1 o2 w te1 te2
    assume e: "ent (spaces ?t) o1 w = Some te1" "ent (spaces ?t) o2 w = Some te2" and ne: "o1 \<noteq> o2"
    from ent [OF e(1)] ent [OF e(2)] obtain t1 t2 where
      t: "ent (spaces s) o1 w = Some t1" "ent (spaces s) o2 w = Some t2"
      and te: "te1 = (if o1 = sid \<and> w = v then touch True t1 else t1)"
        "te2 = (if o2 = sid \<and> w = v then touch True t2 else t2)" by blast
    show "backing_attrs te1 = backing_attrs te2" "cow te1"
      if "valid te1" "valid te2" "physicalPage te1 = physicalPage te2"
    proof -
      from that te have v: "valid t1" "valid t2" "physicalPage t1 = physicalPage t2" by (auto split: if_splits)
      with exclusive_alone [OF ex ne t] have "\<not> ((o1 = sid \<or> o2 = sid) \<and> w = v)" by blast
      with te share_frameD [OF inv t v ne] show "backing_attrs te1 = backing_attrs te2" "cow te1" by auto
    qed
    show "place te1 = place te2" "cow te1"
      if "te_File te1 = Some (swapFile ?t)" "te_File te2 = Some (swapFile ?t)" "te_offset te1 = te_offset te2"
    proof -
      from that te have v: "te_File t1 = Some (swapFile s)" "te_File t2 = Some (swapFile s)"
        "te_offset t1 = te_offset t2" by (auto simp: sel split: if_splits)
      with exclusive_alone [OF ex ne t] have "\<not> ((o1 = sid \<or> o2 = sid) \<and> w = v)" by blast
      with te share_swapD [OF inv t v ne] show "place te1 = place te2" "cow te1" by auto
    qed
  qed
  show "content_inv {} ?t"
    unfolding content_inv_def
  proof (intro allI conjI impI)
    fix ow w te' assume e: "ent (spaces ?t) ow w = Some te'"
    from ent [OF this] obtain te0 where t0: "ent (spaces s) ow w = Some te0"
        "te' = (if ow = sid \<and> w = v then touch True te0 else te0)" by blast
    show "te_offset te' + PageSize \<le> f_len (files ?t g)" if "te_File te' = Some g" "\<not> te_zero te'" for g
      using content_lenD [OF inv t0(1)] t0(2) that by (auto simp: sel split: if_splits)
    assume v: "valid te'" "\<not> dirty te'"
    with t0 have n: "\<not> (ow = sid \<and> w = v)" "te' = te0" by (auto split: if_splits)
    with v t0 have c: "valid te0" "\<not> dirty te0" "(ow, w) \<notin> {(sid, v)}" by auto
    show "has_backing te'" using content_cleanD(1) [OF inv t0(1) c] n by simp
    have "physicalPage te0 \<noteq> physicalPage te" using exclusive_sole [OF ex t0(1) c(1)] n by blast
    then show "page_bytes (mainMemory ?t) (physicalPage te') i = backing (files ?t) te' i" if "i < PageSize" for i
      using content_cleanD(2) [OF inv t0(1) c that] m that n by (simp add: sel)
  qed
qed


section \<open>Translation\<close>

lemma upd_spaces_core:
  assumes "\<And>te. core (h te) = core te"
  shows "same_core sp (upd_spaces S v h sp)"
  unfolding same_core_def
proof
  fix x
  have "map core (xs[v := h (xs ! v)]) = map core xs" for xs
  proof (cases "v < length xs")
    case True
    then show ?thesis by (simp add: map_update assms list_update_same_conv)
  qed (simp add: list_update_beyond)
  then show "map_option (\<lambda>a. (map core (pageTable a), numPages a)) (sp x) =
      map_option (\<lambda>a. (map core (pageTable a), numPages a)) (upd_spaces S v h sp x)"
    by (cases "sp x") (simp_all add: upd_spaces_def)
qed

lemma core_touch: "core (touch False te) = core te"
  by (simp add: core_def touch_def)

lemma wf_ent:
  assumes "vm_inv_except X s" "spaces s sid = Some a"
  shows "v < numPages a \<Longrightarrow> ent (spaces s) sid v = Some (pageTable a ! v)"
    "numPages a \<le> v \<Longrightarrow> ent (spaces s) sid v = None" "length (pageTable a) = numPages a"
  using assms by (auto simp: ent_def vm_inv_except_def owner_inv_def)

text \<open>Translation of a resident page, up to the update of the entry.\<close>

lemma Translate_resident:
  assumes inv: "vm_inv_except X s" and cur: "currentSpace s = Some sid"
    and e: "ent (spaces s) sid (unat addr div PageSize) = Some te" "valid te"
    and al: "\<not> misaligned addr sz" "access_size sz"
    and dup: "(if cow te \<and> writing then duplicatePage s sid (unat addr div PageSize) else Inr s) = Inr s1"
    and inv1: "vm_inv_except Y s1" and e1: "ent (spaces s1) sid (unat addr div PageSize) = Some te1" "valid te1"
  shows "Translate addr sz writing s =
    Inr (NoException, physicalPage te1 * PageSize + unat addr mod PageSize,
      s1\<lparr>spaces := upd_spaces {sid} (unat addr div PageSize) (touch writing) (spaces s1)\<rparr>)"
proof -
  from e(1) obtain a where a: "spaces s sid = Some a" by (auto simp: ent_def split: option.splits)
  with e(1) have v: "unat addr div PageSize < numPages a" "unat addr div PageSize < length (pageTable a)"
      "pageTable a ! (unat addr div PageSize) = te"
    by (auto simp: ent_def split: if_splits)
  have "maps s1 sid (unat addr div PageSize) (physicalPage te1)" using e1 by (auto simp: maps_def)
  then have f: "physicalPage te1 < NumPhysPages" by (rule maps_owned(1) [OF inv1])
  then have "Suc (physicalPage te1) * PageSize \<le> NumPhysPages * PageSize" by (intro mult_le_mono1) simp
  then have "physicalPage te1 * PageSize + unat addr mod PageSize + sz \<le> MemorySize"
    using aligned_in_page [OF al] by (simp add: MemorySize_def)
  then show ?thesis
    using al(1) cur a v e(2) dup e1 f upd_te_eq [OF e1(1), of "touch writing"]
    by (simp add: Translate_def Let_def)
qed


section \<open>Reading\<close>

lemma umem_resident:
  assumes "ent (spaces s) sid (a div PageSize) = Some te" "valid te"
  shows "umem s sid a = Some (mainMemory s (physicalPage te * PageSize + a mod PageSize))"
  using assms by (simp add: umem_def vbyte_def te_byte_def page_bytes_def)

lemma same_memory_umem: "same_memory s t \<Longrightarrow> umem t = umem s"
  by (simp add: same_memory_def umem_def fun_eq_iff)

lemma ReadMem_touch:
  assumes inv: "vm_inv s" and cur: "currentSpace s = Some sid"
    and e: "ent (spaces s) sid (unat addr div PageSize) = Some te" "valid te"
    and al: "\<not> misaligned addr sz" "access_size sz" and bp: "breakpoints s = []"
  shows "ReadMem handler addr sz old s =
      Inr (True, store_low sz old (le_read (\<lambda>a. the (umem s sid a)) (unat addr) sz),
        s\<lparr>spaces := upd_spaces {sid} (unat addr div PageSize) (touch False) (spaces s)\<rparr>)"
proof -
  let ?v = "unat addr div PageSize"
  let ?t = "s\<lparr>spaces := upd_spaces {sid} ?v (touch False) (spaces s)\<rparr>"
  have tr: "Translate addr sz False s = Inr (NoException, physicalPage te * PageSize + unat addr mod PageSize, ?t)"
    using Translate_resident [OF inv cur e al, of False s "{}" te] inv e by simp
  have "le_read (mainMemory s) (physicalPage te * PageSize + unat addr mod PageSize) sz =
      le_read (\<lambda>a. the (umem s sid a)) (unat addr) sz"
  proof (rule le_read_cong)
    fix i assume "i < sz"
    then have "unat addr mod PageSize + i < PageSize" using aligned_in_page [OF al] by simp
    note p = in_page [OF this]
    show "mainMemory s (physicalPage te * PageSize + unat addr mod PageSize + i) = the (umem s sid (unat addr + i))"
      using e umem_resident [of s sid "unat addr + i" te] p by (simp add: add.assoc)
  qed
  moreover have "queryBreakpoint [] x y z = None" for x y z by (simp add: queryBreakpoint_def)
  ultimately show ?thesis
    using tr bp al(2) by (auto simp: ReadMem_def check_watchpoint_def access_size_def)
qed

lemma touched_same:
  fixes s :: "'a machine_scheme"
  assumes "vm_inv s"
  shows "vm_inv (s\<lparr>spaces := upd_spaces {sid} v (touch False) (spaces s)\<rparr>)"
    "same_memory s (s\<lparr>spaces := upd_spaces {sid} v (touch False) (spaces s)\<rparr>)"
    "same_core (spaces s) (upd_spaces {sid} v (touch False) (spaces s))"
proof -
  show sc: "same_core (spaces s) (upd_spaces {sid} v (touch False) (spaces s))"
    by (rule upd_spaces_core) (rule core_touch)
  then show "vm_inv (s\<lparr>spaces := upd_spaces {sid} v (touch False) (spaces s)\<rparr>)"
    by (rule vm_inv_same_core [OF assms])
  show "same_memory s (s\<lparr>spaces := upd_spaces {sid} v (touch False) (spaces s)\<rparr>)"
    unfolding same_memory_def by (simp add: vbyte_same_core [OF sc])
qed

lemma ReadMem_resident:
  assumes inv: "vm_inv s" and cur: "currentSpace s = Some sid"
    and e: "ent (spaces s) sid (unat addr div PageSize) = Some te" "valid te"
    and al: "\<not> misaligned addr sz" "access_size sz" and bp: "breakpoints s = []"
  shows "\<exists>t. ReadMem handler addr sz old s =
      Inr (True, store_low sz old (le_read (\<lambda>a. the (umem s sid a)) (unat addr) sz), t) \<and>
    vm_inv t \<and> same_memory s t \<and> registers t = registers s \<and> currentSpace t = Some sid \<and>
    same_core (spaces s) (spaces t)"
  using ReadMem_touch [OF assms, of handler old] touched_same [OF inv] cur by simp

section \<open>Writing\<close>

text \<open>The memory of all processes after \<open>sz\<close> bytes of \<open>value\<close> were stored at \<open>addr\<close> by \<open>sid\<close>.\<close>

definition stored :: "(nat \<Rightarrow> nat \<Rightarrow> byte option) \<Rightarrow> nat \<Rightarrow> nat \<Rightarrow> nat \<Rightarrow> uint32 \<Rightarrow> nat \<Rightarrow> nat \<Rightarrow> byte option" where
  "stored u sid addr sz value = (\<lambda>ow a.
     if ow = sid \<and> addr \<le> a \<and> a < addr + sz then Some (ucast (drop_bit (8 * (a - addr)) value))
     else u ow a)"

lemma page_bytes_le_write:
  assumes "off + sz \<le> PageSize" "i < PageSize"
  shows "page_bytes (le_write m (f * PageSize + off) sz v) g i =
    (if g = f \<and> off \<le> i \<and> i < off + sz then ucast (drop_bit (8 * (i - off)) v) else page_bytes m g i)"
proof (cases "g = f")
  case True
  then show ?thesis by (simp add: page_bytes_def le_write_def)
next
  case False
  with slot_disjoint [of g f i] assms(2) have "\<not> (f * PageSize \<le> g * PageSize + i \<and> g * PageSize + i < f * PageSize + PageSize)"
    by simp
  with False assms(1) show ?thesis by (auto simp: page_bytes_def le_write_def)
qed

lemma written_umem:
  assumes ex: "exclusive s sid (addr div PageSize) te" and sz: "addr mod PageSize + sz \<le> PageSize"
  shows "umem (written s sid (addr div PageSize)
      (le_write (mainMemory s) (physicalPage te * PageSize + addr mod PageSize) sz value)) =
    stored (umem s) sid addr sz value"
proof (intro ext)
  fix ow a
  let ?v = "addr div PageSize" and ?f = "physicalPage te" and ?o = "addr mod PageSize"
  let ?t = "written s sid ?v (le_write (mainMemory s) (?f * PageSize + ?o) sz value)"
  have lt: "a mod PageSize < PageSize" by simp
  note pb = page_bytes_le_write [OF sz lt, of "mainMemory s" ?f "value"]
  have range: "addr \<le> a \<and> a < addr + sz \<longleftrightarrow> a div PageSize = ?v \<and> ?o \<le> a mod PageSize \<and> a mod PageSize < ?o + sz"
  proof
    assume r: "addr \<le> a \<and> a < addr + sz"
    then have "a - addr < sz" by arith
    then have "?o + (a - addr) < PageSize" using sz by linarith
    from in_page [OF this] r have "a div PageSize = ?v" "a mod PageSize = ?o + (a - addr)" by simp_all
    with \<open>a - addr < sz\<close> show "a div PageSize = ?v \<and> ?o \<le> a mod PageSize \<and> a mod PageSize < ?o + sz"
      by linarith
  next
    assume r: "a div PageSize = ?v \<and> ?o \<le> a mod PageSize \<and> a mod PageSize < ?o + sz"
    have "a = PageSize * ?v + a mod PageSize" "addr = PageSize * ?v + ?o"
      using r by (metis mult_div_mod_eq, simp)
    with r show "addr \<le> a \<and> a < addr + sz" by linarith
  qed
  have diff: "a mod PageSize - ?o = a - addr" if "a div PageSize = ?v"
  proof -
    have "a = PageSize * ?v + a mod PageSize" "addr = PageSize * ?v + ?o"
      using that by (metis mult_div_mod_eq, simp)
    then show ?thesis by linarith
  qed
  from ex have e: "ent (spaces s) sid ?v = Some te" "valid te" by (simp_all add: exclusive_def)
  show "umem ?t ow a = stored (umem s) sid addr sz value ow a"
  proof (cases "ow = sid \<and> a div PageSize = ?v")
    case True
    then have "umem ?t ow a = Some (page_bytes (mainMemory ?t) ?f (a mod PageSize))"
      using e by (simp add: umem_def vbyte_def te_byte_def written_def)
    also have "\<dots> = stored (umem s) sid addr sz value ow a"
      using True e range diff by (simp add: stored_def written_def pb umem_def vbyte_def te_byte_def)
    finally show ?thesis .
  next
    case False
    then have "ent (spaces ?t) ow (a div PageSize) = ent (spaces s) ow (a div PageSize)"
      by (auto simp: written_def)
    moreover have "te_byte (mainMemory ?t) (files s) te' (a mod PageSize) = te_byte (mainMemory s) (files s) te' (a mod PageSize)"
      if "ent (spaces s) ow (a div PageSize) = Some te'" for te'
      using False exclusive_sole [OF ex that] by (auto simp: te_byte_def written_def pb)
    ultimately have "umem ?t ow a = umem s ow a"
      by (cases "ent (spaces s) ow (a div PageSize)") (simp_all add: umem_def vbyte_def written_def)
    with False range show ?thesis by (auto simp: stored_def)
  qed
qed

lemma WriteMem_resident:
  assumes inv: "vm_inv s" and cur: "currentSpace s = Some sid"
    and e: "ent (spaces s) sid (unat addr div PageSize) = Some te" "valid te"
    and al: "\<not> misaligned addr sz" "access_size sz" and bp: "breakpoints s = []"
    and dup: "cow te \<Longrightarrow> frame_ready s (int (physicalPage te)) \<and> swap_room s"
  shows "\<exists>t. WriteMem handler addr sz value s = Inr (True, t) \<and> vm_inv t \<and>
    umem t = stored (umem s) sid (unat addr) sz value \<and> registers t = registers s \<and>
    currentSpace t = Some sid \<and> breakpoints t = [] \<and>
    (\<exists>te'. ent (spaces t) sid (unat addr div PageSize) = Some te' \<and> valid te' \<and> \<not> cow te')"
proof -
  let ?v = "unat addr div PageSize"
  have "\<exists>s1 te1. (if cow te then duplicatePage s sid ?v else Inr s) = Inr s1 \<and>
    vm_inv_except {(sid, ?v)} s1 \<and> same_memory s s1 \<and> exclusive s1 sid ?v te1 \<and> \<not> cow te1 \<and>
    vm.more s1 = vm.more s \<and> currentSpace s1 = Some sid"
  proof (cases "cow te")
    case True
    with duplicatePage_ok [OF inv cur e] dup obtain s1 where
      "duplicatePage s sid ?v = Inr s1" "vm_inv_except {(sid, ?v)} s1" "same_memory s s1"
      "owns_page s1 sid ?v" "currentSpace s1 = Some sid" "vm.more s1 = vm.more s"
      using cur by metis
    with True owns_page_exclusive show ?thesis by fastforce
  next
    case False
    with not_cow_exclusive [OF inv e] vm_inv_mono [OF inv] cur show ?thesis by auto
  qed
  then obtain s1 te1 where
    d: "(if cow te \<and> True then duplicatePage s sid ?v else Inr s) = Inr s1"
    and inv1: "vm_inv_except {(sid, ?v)} s1" and sm: "same_memory s s1" and ex: "exclusive s1 sid ?v te1" "\<not> cow te1"
    and more: "vm.more s1 = vm.more s" and cur1: "currentSpace s1 = Some sid"
    by auto
  have e1: "ent (spaces s1) sid ?v = Some te1" "valid te1" using ex(1) by (simp_all add: exclusive_def)
  let ?m = "le_write (mainMemory s1) (physicalPage te1 * PageSize + unat addr mod PageSize) sz value"
  let ?t = "written s1 sid ?v ?m"
  have "WriteMem handler addr sz value s = Inr (True, ?t)"
    using Translate_resident [OF inv cur e al d inv1 e1] bp al(2)
    by (auto simp: WriteMem_def check_watchpoint_def access_size_def queryBreakpoint_def written_def)
  moreover have "vm_inv ?t"
    using page_bytes_le_write [OF aligned_in_page [OF al]] by (intro written_inv [OF inv1 ex(1)]) simp
  moreover have "umem ?t = stored (umem s) sid (unat addr) sz value"
    using written_umem [OF ex(1) aligned_in_page [OF al]] same_memory_umem [OF sm] by simp
  moreover have "registers ?t = registers s" "breakpoints ?t = []"
    using more bp by (cases s; cases s1; simp add: written_def)+
  moreover have "currentSpace ?t = Some sid" "ent (spaces ?t) sid ?v = Some (touch True te1)"
      "valid (touch True te1)" "\<not> cow (touch True te1)"
    using cur1 e1 ex(2) by (simp_all add: written_def)
  ultimately show ?thesis by (intro exI [of _ ?t] conjI exI [of _ "touch True te1"])
qed


section \<open>Faulting\<close>

lemma sdiv_page:
  assumes "unat (addr :: uint32) < 2 ^ 31"
  shows "unat (word_of_int (sint addr sdiv int PageSize) :: uint32) = unat addr div PageSize"
proof -
  have u: "uint addr < 2 ^ 31" using assms by (metis uint_nat of_nat_less_iff of_nat_numeral of_nat_power)
  have "sint addr = signed_take_bit 31 (uint addr)" by (simp add: sint_uint)
  also have "\<dots> = uint addr"
  proof (rule signed_take_bit_int_eq_self)
    have "0 \<le> uint addr" by simp
    moreover have "- (2 ^ 31) \<le> (0 :: int)" by simp
    ultimately show "- (2 ^ 31) \<le> uint addr" by (rule order_trans [rotated])
  qed (rule u)
  finally have "sint addr = uint addr" .
  moreover have "uint addr sdiv int PageSize = uint addr div int PageSize"
    by (simp add: signed_divide_int_def sgn_if PageSize_def SectorSize_def)
  moreover have "uint addr div int PageSize = int (unat addr div PageSize)"
    by (simp add: zdiv_int)
  ultimately have "word_of_int (sint addr sdiv int PageSize) = (of_nat (unat addr div PageSize) :: uint32)"
    by simp
  moreover have "unat addr div PageSize < 2 ^ 32"
    using assms by (intro le_less_trans [OF div_le_dividend]) simp
  ultimately show ?thesis by (simp add: unat_of_nat take_bit_eq_mod)
qed

lemma DelayedLoad_vm:
  fixes s :: "'a machine_scheme"
  assumes "unat (registers s LoadReg) < NumTotalRegs"
  obtains r where "DelayedLoad n x s = Inr (s\<lparr>registers := r\<rparr>)" "r LoadReg = n" "r 0 = 0"
    "\<And>i. 32 \<le> i \<Longrightarrow> i \<noteq> LoadReg \<Longrightarrow> i \<noteq> LoadValueReg \<Longrightarrow> i \<noteq> unat (registers s LoadReg) \<Longrightarrow> r i = registers s i"
  using assms by (auto simp: DelayedLoad_def Let_def reg_defs)

text \<open>
  An access to a page that is not resident: the handler brings the page in, the access reports
  failure so that the instruction starts again, and memory is as before.
\<close>

lemma page_fault_ok:
  fixes s :: "'a machine_scheme"
  assumes inv: "vm_inv s" and cur: "currentSpace s = Some sid"
    and e: "ent (spaces s) sid (unat addr div PageSize) = Some te" "\<not> valid te" "has_backing te"
    and ready: "frame_ready s (-1)" "swap_room s"
    and lo: "unat addr < 2 ^ 31" and load: "unat (registers s LoadReg) < 32"
  shows "\<exists>t. RaiseException (ExceptionHandler sc) PageFaultException addr
      (s\<lparr>registers := (registers s)(BadVAddrReg := of_nat (unat addr div PageSize))\<rparr>) = Inr t \<and>
    vm_inv t \<and> same_memory s t \<and> (\<exists>te. ent (spaces t) sid (unat addr div PageSize) = Some te \<and> valid te) \<and>
    currentSpace t = Some sid \<and> breakpoints t = breakpoints s \<and> registers t PCReg = registers s PCReg \<and>
    registers t NextPCReg = registers s NextPCReg \<and> registers t LoadReg = 0"
proof -
  let ?v = "unat addr div PageSize"
  let ?s0 = "s\<lparr>registers := (registers s)(BadVAddrReg := addr)\<rparr>"
  have "unat (registers ?s0 LoadReg) < NumTotalRegs" using load by (simp add: reg_defs)
  from DelayedLoad_vm [OF this, of 0 0] obtain r where
    r: "DelayedLoad 0 0 ?s0 = Inr (?s0\<lparr>registers := r\<rparr>)" "r LoadReg = 0" and
    keep: "\<And>i. 32 \<le> i \<Longrightarrow> i \<noteq> LoadReg \<Longrightarrow> i \<noteq> LoadValueReg \<Longrightarrow> i \<noteq> unat (registers ?s0 LoadReg) \<Longrightarrow>
      r i = registers ?s0 i" by blast
  have ld: "unat (registers s LoadReg) < 32" by (rule load)
  have r39: "r BadVAddrReg = addr" and rpc: "r PCReg = registers s PCReg" "r NextPCReg = registers s NextPCReg"
    using keep [of BadVAddrReg] keep [of PCReg] keep [of NextPCReg] ld by (auto simp: reg_defs)
  let ?s1 = "(?s0\<lparr>registers := r, mstatus := SystemMode\<rparr>)
      \<lparr>numPageFaults := numPageFaults s + 1,
       procPageFaults := (procPageFaults s)(currentThread s := procPageFaults s (currentThread s) + 1),
       ticksAtLastPageFault := userTicks s\<rparr>"
  have inv1: "vm_inv ?s1" using inv by simp
  have e1: "ent (spaces ?s1) sid ?v = Some te" using e by simp
  have ready1: "frame_ready ?s1 (-1)" "swap_room ?s1"
  proof -
    have "frame_ready ?s1 (-1) = frame_ready s (-1)" "swap_room ?s1 = swap_room s"
      by (simp_all add: frame_ready_def victim_ready_def swap_room_def)
    with ready show "frame_ready ?s1 (-1)" "swap_room ?s1" by blast+
  qed
  from pagein_ok [OF inv1 e1 e(2,3) ready1] obtain t where
    t: "pagein ?s1 ?v sid = Inr t" "vm_inv t" "same_memory ?s1 t" "paged_in ?s1 sid ?v t" by blast
  have "ReadRegister (?s0\<lparr>registers := r, mstatus := SystemMode\<rparr>) 2 = Inr (r 2)"
    by (simp add: ReadRegister_def reg_defs)
  then have "ExceptionHandler sc PageFaultException (?s0\<lparr>registers := r, mstatus := SystemMode\<rparr>) = Inr t"
    using t(1) cur r39 sdiv_page [OF lo]
    by (simp add: ExceptionHandler_def handle_page_fault_def ReadRegister_def Let_def) (simp add: reg_defs)
  then have run: "RaiseException (ExceptionHandler sc) PageFaultException addr
      (s\<lparr>registers := (registers s)(BadVAddrReg := of_nat ?v)\<rparr>) = Inr (t\<lparr>mstatus := mstatus s\<rparr>)"
    using r(1) by (simp add: RaiseException_def)
  have "vm.more t = vm.more ?s1" using t(4) by (simp add: paged_in_def)
  then have "registers t = r" "breakpoints t = breakpoints s"
    by (cases t; cases s; simp)+
  moreover have "same_memory s t" using t(3) by (simp add: same_memory_def)
  ultimately show ?thesis
    using run t cur rpc r(2) by (intro exI [of _ "t\<lparr>mstatus := mstatus s\<rparr>"]) (simp add: paged_in_def same_memory_def)
qed

end
