(* ===== verification/VM_Fork.thy ===== *)
theory VM_Fork
  imports VM_Share
begin

text \<open>
  Address spaces come and go: \<open>AddrSpace::CopyFrom\<close>, which gives the child of a \<open>Fork\<close> a page
  table that shares every frame and swap frame of its parent copy-on-write, and the destructor
  \<open>AddrSpace::~AddrSpace\<close>. Both are loops over the pages of one space; between two rounds the
  invariant holds once the pages that are not processed yet (or no longer) are ignored.
\<close>

section \<open>Entries that do not matter\<close>

text \<open>The invariant reads an entry that is neither resident nor in the swap file only for its backing.\<close>

lemma vm_inv_ents:
  assumes inv: "vm_inv_except X s"
    and wf: "\<And>sid a. sp sid = Some a \<Longrightarrow> length (pageTable a) = numPages a"
    and to: "\<And>ow w te. ent sp ow w = Some te \<Longrightarrow> valid te \<or> te_File te = Some (swapFile s) \<Longrightarrow>
      ent (spaces s) ow w = Some te"
    and from': "\<And>ow w te. ent (spaces s) ow w = Some te \<Longrightarrow> valid te \<or> te_File te = Some (swapFile s) \<Longrightarrow>
      ent sp ow w = Some te"
    and len: "\<And>ow w te fl. ent sp ow w = Some te \<Longrightarrow> \<not> valid te \<Longrightarrow> te_File te = Some fl \<Longrightarrow> \<not> te_zero te \<Longrightarrow>
      te_offset te + PageSize \<le> f_len (files s fl)"
  shows "vm_inv_except X (s\<lparr>spaces := sp\<rparr>)"
  unfolding vm_inv_except_def
proof (intro conjI)
  let ?t = "s\<lparr>spaces := sp\<rparr>"
  have "maps ?t ow w f \<longleftrightarrow> maps s ow w f" for ow w f
  proof
    show "maps s ow w f" if "maps ?t ow w f"
      using that to [of ow w "the (ent sp ow w)"] by (auto simp: maps_def)
    show "maps ?t ow w f" if "maps s ow w f"
      using that from' [of ow w "the (ent (spaces s) ow w)"] by (auto simp: maps_def)
  qed
  then have maps: "maps ?t = maps s" by (simp add: fun_eq_iff)
  have "swapped ?t ow w k \<longleftrightarrow> swapped s ow w k" for ow w k
  proof
    show "swapped s ow w k" if "swapped ?t ow w k"
      using that to [of ow w "the (ent sp ow w)"] by (auto simp: swapped_def)
    show "swapped ?t ow w k" if "swapped s ow w k"
      using that from' [of ow w "the (ent (spaces s) ow w)"] by (auto simp: swapped_def)
  qed
  then have swapped: "swapped ?t = swapped s" by (simp add: fun_eq_iff)
  show "alloc_inv ?t" using inv by (simp add: vm_inv_except_def alloc_inv_def)
  from inv have oi: "owner_inv s" by (rule vm_inv_parts)
  show "owner_inv ?t"
    unfolding owner_inv_def maps swapped
  proof (intro conjI allI impI)
    fix ow w te assume e: "ent (spaces ?t) ow w = Some te" "te_File te = Some (swapFile ?t)"
    then have "ent (spaces s) ow w = Some te" using to by simp
    with swap_entryD [OF inv this] e show "\<not> te_zero te" "\<exists>k<NumSwapPages. te_offset te = k * PageSize" by auto
  qed (use wf oi in \<open>auto simp: owner_inv_def\<close>)
  show "share_inv ?t"
    unfolding share_inv_def
  proof (intro allI conjI impI)
    fix o1 o2 w te1 te2
    assume e: "ent (spaces ?t) o1 w = Some te1" "ent (spaces ?t) o2 w = Some te2" and ne: "o1 \<noteq> o2"
    then have e': "ent sp o1 w = Some te1" "ent sp o2 w = Some te2" by simp_all
    show "backing_attrs te1 = backing_attrs te2" "cow te1"
      if "valid te1" "valid te2" "physicalPage te1 = physicalPage te2"
      using share_frameD [OF inv to [OF e'(1)] to [OF e'(2)]] that ne by simp_all
    show "place te1 = place te2" "cow te1"
      if "te_File te1 = Some (swapFile ?t)" "te_File te2 = Some (swapFile ?t)" "te_offset te1 = te_offset te2"
      using share_swapD [OF inv to [OF e'(1)] to [OF e'(2)]] that ne by simp_all
  qed
  show "content_inv X ?t"
    unfolding content_inv_def
  proof (intro allI conjI impI)
    fix ow w te assume "ent (spaces ?t) ow w = Some te"
    then have e: "ent sp ow w = Some te" by simp
    show "te_offset te + PageSize \<le> f_len (files ?t g)" if "te_File te = Some g" "\<not> te_zero te" for g
      using len [OF e _ that] content_lenD [OF inv to [OF e] that] by (cases "valid te") simp_all
    assume v: "valid te" "\<not> dirty te" "(ow, w) \<notin> X"
    with to [OF e] have e': "ent (spaces s) ow w = Some te" by simp
    show "has_backing te" by (rule content_cleanD(1) [OF inv e' v])
    show "page_bytes (mainMemory ?t) (physicalPage te) i = backing (files ?t) te i" if "i < PageSize" for i
      using content_cleanD(2) [OF inv e' v that] by simp
  qed
qed

definition blank_te :: "TranslationEntry \<Rightarrow> TranslationEntry" where
  "blank_te te = te\<lparr>valid := False, te_File := None\<rparr>"

text \<open>Ignore the pages of \<open>sid\<close> that satisfy \<open>P\<close>.\<close>

definition blank :: "nat \<Rightarrow> (nat \<Rightarrow> bool) \<Rightarrow> (nat \<rightharpoonup> AddrSpace) \<Rightarrow> (nat \<rightharpoonup> AddrSpace)" where
  "blank sid P sp = (\<lambda>x. if x = sid
     then map_option (\<lambda>a. a\<lparr>pageTable := map (\<lambda>v. if P v then blank_te (pageTable a ! v) else pageTable a ! v)
       [0..<length (pageTable a)]\<rparr>) (sp x)
     else sp x)"

lemma ent_blank:
  "ent (blank sid P sp) ow w =
     (if ow = sid \<and> P w then map_option blank_te (ent sp ow w) else ent sp ow w)"
  by (auto simp: ent_def blank_def split: option.splits)

lemma blank_te_fields [simp]:
  "\<not> valid (blank_te te)" "te_File (blank_te te) = None" "te_offset (blank_te te) = te_offset te"
  "te_zero (blank_te te) = te_zero te"
  by (simp_all add: blank_te_def)

lemma blank_wf: "blank sid P sp x = Some a \<Longrightarrow> (\<And>b. sp x = Some b \<Longrightarrow> length (pageTable b) = numPages b) \<Longrightarrow>
    length (pageTable a) = numPages a"
  by (auto simp: blank_def split: if_splits)

lemma blank_upd:
  assumes "\<And>te. blank_te (h te) = h (blank_te te)"
  shows "blank sid P (upd_spaces S w h sp) = upd_spaces S w h (blank sid P sp)"
proof
  fix x
  show "blank sid P (upd_spaces S w h sp) x = upd_spaces S w h (blank sid P sp) x"
  proof (cases "sp x")
    case (Some a)
    have "map (\<lambda>v. if P v then blank_te (xs[w := h (xs ! w)] ! v) else xs[w := h (xs ! w)] ! v) [0..<length xs] =
       (map (\<lambda>v. if P v then blank_te (xs ! v) else xs ! v) [0..<length xs])
         [w := h (map (\<lambda>v. if P v then blank_te (xs ! v) else xs ! v) [0..<length xs] ! w)]"
      (is "?l = ?r") for xs :: "TranslationEntry list"
    proof (rule nth_equalityI)
      show "?l ! i = ?r ! i" if "i < length ?l" for i using that by (cases "i = w") (simp_all add: assms)
    qed simp
    with Some show ?thesis by (cases "x = sid") (auto simp: blank_def upd_spaces_def cong: if_cong)
  qed (auto simp: blank_def upd_spaces_def)
qed

lemma blank_Suc:
  assumes "P' = (\<lambda>v. P v \<or> v = w)"
  shows "blank sid P' sp = upd_spaces {sid} w (\<lambda>te. if P w then te else blank_te te) (blank sid P sp)"
proof
  fix x
  show "blank sid P' sp x = upd_spaces {sid} w (\<lambda>te. if P w then te else blank_te te) (blank sid P sp) x"
  proof (cases "sp x")
    case (Some a)
    have "map (\<lambda>v. if P' v then blank_te (xs ! v) else xs ! v) [0..<length xs] =
       (map (\<lambda>v. if P v then blank_te (xs ! v) else xs ! v) [0..<length xs])
         [w := (if P w then map (\<lambda>v. if P v then blank_te (xs ! v) else xs ! v) [0..<length xs] ! w
                else blank_te (map (\<lambda>v. if P v then blank_te (xs ! v) else xs ! v) [0..<length xs] ! w))]"
      (is "?l = ?r") for xs :: "TranslationEntry list"
    proof (rule nth_equalityI)
      show "?l ! i = ?r ! i" if "i < length ?l" for i using that by (cases "i = w") (simp_all add: assms)
    qed simp
    with Some show ?thesis by (cases "x = sid") (auto simp: blank_def upd_spaces_def cong: if_cong)
  qed (auto simp: blank_def upd_spaces_def)
qed


section \<open>The end of an address space\<close>

definition ghost :: "'a vm_scheme \<Rightarrow> nat \<Rightarrow> (nat \<Rightarrow> bool) \<Rightarrow> 'a vm_scheme" where
  "ghost s sid P = s\<lparr>spaces := blank sid P (spaces s)\<rparr>"

text \<open>What a round leaves of memory and page tables: all but copy-on-write bits.\<close>

definition tables_kept :: "'a vm_scheme \<Rightarrow> 'a vm_scheme \<Rightarrow> bool" where
  "tables_kept s t \<longleftrightarrow> mainMemory t = mainMemory s \<and> files t = files s \<and> swapFile t = swapFile s \<and>
     (\<forall>ow w. map_option (\<lambda>te. te\<lparr>cow := False\<rparr>) (ent (spaces t) ow w) =
       map_option (\<lambda>te. te\<lparr>cow := False\<rparr>) (ent (spaces s) ow w))"

lemma tables_kept_refl [simp]: "tables_kept s s"
  and tables_kept_trans: "tables_kept s t \<Longrightarrow> tables_kept t u \<Longrightarrow> tables_kept s u"
  by (simp_all add: tables_kept_def)

lemma tables_kept_vbyte:
  assumes "tables_kept s t" shows "vbyte t = vbyte s"
proof (intro ext)
  fix ow w i
  let ?c = "map_option (\<lambda>te. te\<lparr>cow := False\<rparr>)" and ?b = "\<lambda>te. te_byte (mainMemory s) (files s) te i"
  have "?c (ent (spaces t) ow w) = ?c (ent (spaces s) ow w)" using assms by (simp add: tables_kept_def)
  then have "map_option ?b (?c (ent (spaces t) ow w)) = map_option ?b (?c (ent (spaces s) ow w))" by (rule arg_cong)
  then show "vbyte t ow w i = vbyte s ow w i"
    using assms by (simp add: vbyte_def tables_kept_def option.map_comp comp_def)
qed

lemma tables_kept_ent:
  assumes "tables_kept s t" "ent (spaces s) ow w = Some te"
  obtains te' where "ent (spaces t) ow w = Some te'" "te'\<lparr>cow := False\<rparr> = te\<lparr>cow := False\<rparr>"
    "physicalPage te' = physicalPage te"
proof -
  from assms obtain te' where "ent (spaces t) ow w = Some te'" and c: "te'\<lparr>cow := False\<rparr> = te\<lparr>cow := False\<rparr>"
    unfolding tables_kept_def by (metis (no_types, lifting) map_option_eq_Some)
  moreover from c have "physicalPage (te'\<lparr>cow := False\<rparr>) = physicalPage (te\<lparr>cow := False\<rparr>)" by (rule arg_cong)
  then have "physicalPage te' = physicalPage te" by simp
  ultimately show ?thesis using that c by blast
qed

lemma AddrSpace_release_page_ok:
  fixes s :: "'a vm_scheme"
  assumes inv: "vm_inv (ghost s sid P)" and nP: "\<not> P i"
    and e: "ent (spaces s) sid i = Some te" and e0: "ent (spaces s) sid 0 = Some te0"
    and f0: "physicalPage te0 < NumPhysPages"
  shows "\<exists>t. AddrSpace_release_page sid i s = Inr t \<and> vm_inv (ghost t sid (\<lambda>v. P v \<or> v = i)) \<and>
    tables_kept s t \<and> map_option numPages (spaces t sid) = map_option numPages (spaces s sid)"
proof -
  let ?g = "ghost s sid P" and ?f = "physicalPage te" and ?k = "te_offset te div PageSize"
  have sel: "Frames ?g = Frames s" "swapFrames ?g = swapFrames s" "page_flags ?g = page_flags s"
    "frame_flags ?g = frame_flags s" "swapFile ?g = swapFile s" by (simp_all add: ghost_def)
  have eg: "ent (spaces ?g) sid i = Some te" using e nP by (simp add: ghost_def ent_blank)
  from inv have al: "alloc_inv ?g" by (rule vm_inv_parts)
  note rec = detach_records [OF inv eg]
  obtain bm where rp: "(if valid te then release_page s ?f sid else Inr s) = Inr (s\<lparr>page_flags := bm,
      Frames := (if valid te then (Frames s)(?f := rest_frame (Frames s ?f) sid) else Frames s)\<rparr>)"
    and bm: "if valid te then rest_flags (page_flags s) (Frames s ?f) sid ?f bm else bm = page_flags s"
  proof (cases "valid te")
    case True
    with rec(1) sel obtain os where f: "?f < NumPhysPages" "owners (Frames s ?f) = Some os" "sid \<in> set os" by auto
    from release_page_ok [of s ?f os sid] f al obtain bm where
      "rest_flags (page_flags s) (Frames s ?f) sid ?f bm"
      "release_page s ?f sid = Inr (s\<lparr>page_flags := bm, Frames := (Frames s)(?f := rest_frame (Frames s ?f) sid)\<rparr>)"
      by (auto simp: alloc_inv_def sel)
    with True that [of bm] show ?thesis by simp
  qed (use that [of "page_flags s"] in simp)
  let ?s1 = "s\<lparr>page_flags := bm, Frames := (if valid te then (Frames s)(?f := rest_frame (Frames s ?f) sid) else Frames s)\<rparr>"
  let ?sw = "if te_File te = Some (swapFile s) then (swapFrames s)(?k := rest_frame (swapFrames s ?k) sid) else swapFrames s"
  obtain bs where
    bs: "if te_File te = Some (swapFile s) then rest_flags (frame_flags s) (swapFrames s ?k) sid ?k bs else bs = frame_flags s"
    and rf: "\<forall>t :: 'a vm_scheme. frame_flags t = frame_flags s \<longrightarrow> swapFrames t = swapFrames s \<longrightarrow>
      (if te_File te = Some (swapFile s) then release_frame t (te_offset te) sid else Inr t) =
      Inr (t\<lparr>frame_flags := bs, swapFrames := ?sw\<rparr>)"
  proof (cases "te_File te = Some (swapFile s)")
    case True
    with rec(2) sel obtain os where k: "?k < NumSwapPages" "te_offset te = ?k * PageSize"
      "owners (swapFrames s ?k) = Some os" "sid \<in> set os" by auto
    from release_frame_all [of s ?k os sid] k al obtain bs where
      "rest_flags (frame_flags s) (swapFrames s ?k) sid ?k bs"
      "\<forall>t :: 'a vm_scheme. frame_flags t = frame_flags s \<longrightarrow> swapFrames t = swapFrames s \<longrightarrow>
        release_frame t (?k * PageSize) sid =
        Inr (t\<lparr>frame_flags := bs, swapFrames := (swapFrames s)(?k := rest_frame (swapFrames s ?k) sid)\<rparr>)"
      by (auto simp: alloc_inv_def sel)
    with True k(2) that [of bs] show ?thesis by simp
  qed (use that [of "frame_flags s"] in simp)
  have pre: "detach_pre {} ?g sid i te blank_te bm bs"
    using inv eg bm bs by (auto simp: detach_pre_def sel)
  let ?d = "detach ?g sid i te blank_te bm bs"
  from unshare_last_ok [OF detach_inv [OF pre] f0] obtain S w where
    un: "\<forall>t :: 'a vm_scheme. Frames t = Frames ?d \<longrightarrow>
      (\<forall>ow w. ent (spaces t) ow w = None \<longrightarrow> ent (spaces ?d) ow w = None) \<longrightarrow>
      unshare_last t (int (physicalPage te0)) =
        Inr (t\<lparr>spaces := upd_spaces S w (\<lambda>te. te\<lparr>cow := False\<rparr>) (spaces t)\<rparr>)"
    and inv': "vm_inv (?d\<lparr>spaces := upd_spaces S w (\<lambda>te. te\<lparr>cow := False\<rparr>) (spaces ?d)\<rparr>)" .
  have fr: "Frames ?s1 = Frames ?d" by (simp add: detach_def sel)
  have en: "ent (spaces ?d) ow x = None" if "ent (spaces ?s1) ow x = None" for ow x
    using that by (auto simp: detach_ent ghost_def ent_blank)
  have "unshare_last ?s1 (int (physicalPage te0)) =
      Inr (?s1\<lparr>spaces := upd_spaces S w (\<lambda>te. te\<lparr>cow := False\<rparr>) (spaces ?s1)\<rparr>)"
    using un fr en by blast
  then have u: "unshare_last ?s1 (int (physicalPage te0)) =
      Inr (?s1\<lparr>spaces := upd_spaces S w (\<lambda>te. te\<lparr>cow := False\<rparr>) (spaces s)\<rparr>)" by simp
  let ?t = "?s1\<lparr>spaces := upd_spaces S w (\<lambda>te. te\<lparr>cow := False\<rparr>) (spaces s), frame_flags := bs, swapFrames := ?sw\<rparr>"
  have run: "AddrSpace_release_page sid i s = Inr ?t"
    using rp u e e0 rf [rule_format, of "?s1\<lparr>spaces := upd_spaces S w (\<lambda>te. te\<lparr>cow := False\<rparr>) (spaces s)\<rparr>"]
    by (simp add: AddrSpace_release_page_def)
  have "ghost ?t sid (\<lambda>v. P v \<or> v = i) = ?d\<lparr>spaces := upd_spaces S w (\<lambda>te. te\<lparr>cow := False\<rparr>) (spaces ?d)\<rparr>"
  proof -
    have "blank sid (\<lambda>v. P v \<or> v = i) (upd_spaces S w (\<lambda>te. te\<lparr>cow := False\<rparr>) (spaces s)) =
        upd_spaces S w (\<lambda>te. te\<lparr>cow := False\<rparr>) (blank sid (\<lambda>v. P v \<or> v = i) (spaces s))"
      by (rule blank_upd) (simp add: blank_te_def)
    also have "blank sid (\<lambda>v. P v \<or> v = i) (spaces s) = upd_spaces {sid} i blank_te (blank sid P (spaces s))"
      using blank_Suc [OF refl, of sid P i "spaces s"] nP by simp
    finally show ?thesis by (simp add: ghost_def detach_def)
  qed
  moreover have "tables_kept s ?t" by (auto simp: tables_kept_def option.map_comp comp_def)
  moreover have "map_option numPages (spaces ?t sid) = map_option numPages (spaces s sid)"
    by (simp add: upd_spaces_def option.map_comp comp_def)
  ultimately show ?thesis using inv' run by auto
qed


lemma release_pages_ok:
  fixes s :: "'a vm_scheme"
  assumes inv: "vm_inv s" and a: "spaces s sid = Some a" and k: "k \<le> numPages a"
    and f0: "\<And>te. ent (spaces s) sid 0 = Some te \<Longrightarrow> physicalPage te < NumPhysPages"
  shows "\<exists>t. fold_res (AddrSpace_release_page sid) [0..<k] s = Inr t \<and> vm_inv (ghost t sid (\<lambda>v. v < k)) \<and>
    tables_kept s t \<and> map_option numPages (spaces t sid) = Some (numPages a)"
  using k
proof (induction k)
  case 0
  have "blank sid (\<lambda>v. v < (0::nat)) (spaces s) = spaces s"
    by (auto simp: blank_def fun_eq_iff map_nth map_option_case split: option.splits)
  with inv a show ?case by (simp add: ghost_def)
next
  case (Suc k)
  then obtain t where t: "fold_res (AddrSpace_release_page sid) [0..<k] s = Inr t"
    "vm_inv (ghost t sid (\<lambda>v. v < k))" "tables_kept s t" "map_option numPages (spaces t sid) = Some (numPages a)"
    by auto
  have len: "length (pageTable a) = numPages a" using inv a by (simp add: vm_inv_except_def owner_inv_def)
  have "ent (spaces s) sid k \<noteq> None" "ent (spaces s) sid 0 \<noteq> None"
    using a Suc.prems len by (auto simp: ent_def)
  then obtain te te0 where "ent (spaces s) sid k = Some te" and z: "ent (spaces s) sid 0 = Some te0" by blast
  with tables_kept_ent [OF t(3)] obtain te' te0' where
    e: "ent (spaces t) sid k = Some te'" "ent (spaces t) sid 0 = Some te0'" "physicalPage te0' = physicalPage te0"
    by metis
  from AddrSpace_release_page_ok [OF t(2) _ e(1,2)] f0 [OF z] e(3) obtain u where
    u: "AddrSpace_release_page sid k t = Inr u" "vm_inv (ghost u sid (\<lambda>v. v < k \<or> v = k))" "tables_kept t u"
      "map_option numPages (spaces u sid) = map_option numPages (spaces t sid)" by auto
  have "(\<lambda>v. v < k \<or> v = k) = (\<lambda>v. v < Suc k)" by (auto simp: fun_eq_iff)
  then have "fold_res (AddrSpace_release_page sid) [0..<Suc k] s = Inr u" "vm_inv (ghost u sid (\<lambda>v. v < Suc k))"
    using t(1) u(1,2) by (simp_all add: fold_res_append)
  then show ?case using tables_kept_trans [OF t(3) u(3)] t(4) u(4) by (intro exI [of _ u]) simp
qed

lemma AddrSpace_delete_ok:
  fixes s :: "'a vm_scheme"
  assumes inv: "vm_inv s" and a: "spaces s sid = Some a"
    and f0: "\<And>te. ent (spaces s) sid 0 = Some te \<Longrightarrow> physicalPage te < NumPhysPages"
  shows "\<exists>t. AddrSpace_delete s sid = Inr t \<and> vm_inv t \<and> spaces t sid = None \<and>
    (\<forall>ow w i. ow \<noteq> sid \<longrightarrow> vbyte t ow w i = vbyte s ow w i)"
proof -
  from release_pages_ok [OF inv a order_refl f0] obtain t where
    t: "fold_res (AddrSpace_release_page sid) [0..<numPages a] s = Inr t"
      "vm_inv (ghost t sid (\<lambda>v. v < numPages a))" "tables_kept s t"
      "map_option numPages (spaces t sid) = Some (numPages a)" by blast
  let ?u = "t\<lparr>spaces := (spaces t)(sid := None)\<rparr>"
  have ent: "ent ((spaces t)(sid := None)) ow w = (if ow = sid then None else ent (spaces t) ow w)" for ow w
    by (simp add: ent_def)
  have gent: "ent (spaces (ghost t sid (\<lambda>v. v < numPages a))) ow w =
      (if ow = sid then map_option blank_te (ent (spaces t) ow w) else ent (spaces t) ow w)" for ow w
    using t(4) by (auto simp: ghost_def ent_blank) (auto simp: ent_def)
  have "vm_inv ((ghost t sid (\<lambda>v. v < numPages a))\<lparr>spaces := (spaces t)(sid := None)\<rparr>)"
  proof (rule vm_inv_ents [OF t(2)])
    show "length (pageTable b) = numPages b" if "((spaces t)(sid := None)) x = Some b" for x b
    proof -
      have "spaces (ghost t sid (\<lambda>v. v < numPages a)) x = Some b"
        using that by (simp add: ghost_def blank_def split: if_splits)
      with t(2) show ?thesis by (simp add: vm_inv_except_def owner_inv_def)
    qed
    show "te_offset te + PageSize \<le> f_len (files (ghost t sid (\<lambda>v. v < numPages a)) fl)"
      if "ent ((spaces t)(sid := None)) ow w = Some te" "te_File te = Some fl" "\<not> te_zero te" for ow w te fl
      using content_lenD [OF t(2), of ow w te fl] that by (simp add: ent gent split: if_splits)
  qed (auto simp: ent gent split: if_splits)
  then have "vm_inv ?u" by (simp add: ghost_def)
  moreover have "vbyte ?u ow w i = vbyte s ow w i" if "ow \<noteq> sid" for ow w i
    using that tables_kept_vbyte [OF t(3)] by (simp add: vbyte_def ent fun_eq_iff)
  ultimately show ?thesis using t(1) a by (simp add: AddrSpace_delete_def)
qed


section \<open>Joining the frames of another process\<close>

text \<open>
  Page \<open>v\<close> of \<open>sid\<close>, until now out of play, becomes a copy of page \<open>v\<close> of \<open>par\<close> with entry \<open>c\<close>: it joins
  the frame and the swap frame of \<open>p\<close>, and if there is either, both become copy-on-write.
\<close>

definition add_owner :: "Frame \<Rightarrow> nat \<Rightarrow> Frame" where
  "add_owner fr sid = fr\<lparr>owners := Some (the (owners fr) @ [sid]), numOwners := numOwners fr + 1\<rparr>"

definition in_play :: "'a vm_scheme \<Rightarrow> TranslationEntry \<Rightarrow> bool" where
  "in_play s te \<longleftrightarrow> valid te \<or> te_File te = Some (swapFile s)"

definition join ::
  "'a vm_scheme \<Rightarrow> nat \<Rightarrow> nat \<Rightarrow> nat \<Rightarrow> TranslationEntry \<Rightarrow> TranslationEntry \<Rightarrow> 'a vm_scheme" where
  "join s par sid v p c =
     s\<lparr>Frames := (if valid p then (Frames s)(physicalPage p := add_owner (Frames s (physicalPage p)) sid)
                  else Frames s),
       swapFrames := (if te_File p = Some (swapFile s)
         then (swapFrames s)(te_offset p div PageSize := add_owner (swapFrames s (te_offset p div PageSize)) sid)
         else swapFrames s),
       spaces := upd_spaces {par} v (\<lambda>te. te\<lparr>cow := cow te \<or> in_play s p\<rparr>)
         (upd_spaces {sid} v (\<lambda>_. c\<lparr>cow := cow c \<or> in_play s p\<rparr>) (spaces s))\<rparr>"

definition join_pre :: "'a vm_scheme \<Rightarrow> nat \<Rightarrow> nat \<Rightarrow> nat \<Rightarrow> TranslationEntry \<Rightarrow> TranslationEntry \<Rightarrow> bool" where
  "join_pre s par sid v p c \<longleftrightarrow>
     vm_inv s \<and> sid \<noteq> par \<and> ent (spaces s) par v = Some p \<and>
     (\<exists>b. ent (spaces s) sid v = Some b \<and> \<not> in_play s b) \<and>
     valid c = valid p \<and> physicalPage c = physicalPage p \<and> backing_attrs c = backing_attrs p"

lemma join_sel [simp]:
  "mainMemory (join s par sid v p c) = mainMemory s" "files (join s par sid v p c) = files s"
  "swapFile (join s par sid v p c) = swapFile s" "page_flags (join s par sid v p c) = page_flags s"
  "frame_flags (join s par sid v p c) = frame_flags s"
  by (simp_all add: join_def)

lemma join_frames:
  "Frames (join s par sid v p c) = (if valid p
     then (Frames s)(physicalPage p := add_owner (Frames s (physicalPage p)) sid) else Frames s)"
  "swapFrames (join s par sid v p c) = (if te_File p = Some (swapFile s)
     then (swapFrames s)(te_offset p div PageSize := add_owner (swapFrames s (te_offset p div PageSize)) sid)
     else swapFrames s)"
  by (simp_all add: join_def)

lemma join_ent:
  assumes "join_pre s par sid v p c"
  shows "ent (spaces (join s par sid v p c)) ow w =
    (if ow = sid \<and> w = v then Some (c\<lparr>cow := cow c \<or> in_play s p\<rparr>)
     else if ow = par \<and> w = v then Some (p\<lparr>cow := cow p \<or> in_play s p\<rparr>)
     else ent (spaces s) ow w)"
  using assms by (auto simp: join_def join_pre_def)

lemma backing_attrs_fields:
  "backing_attrs c = backing_attrs p \<longleftrightarrow> te_File c = te_File p \<and> te_offset c = te_offset p \<and>
    te_zero c = te_zero p \<and> dirty c = dirty p"
  by (auto simp: backing_attrs_def)

lemma join_maps:
  assumes pre: "join_pre s par sid v p c"
  shows "maps (join s par sid v p c) ow w f \<longleftrightarrow>
    maps s ow w f \<or> ow = sid \<and> w = v \<and> valid p \<and> f = physicalPage p"
proof -
  from pre obtain b where b: "ent (spaces s) sid v = Some b" "\<not> valid b" by (auto simp: join_pre_def in_play_def)
  have "ent (spaces s) par v = Some p" "valid c = valid p" "physicalPage c = physicalPage p" "sid \<noteq> par"
    using pre by (simp_all add: join_pre_def)
  with b show ?thesis by (auto simp: maps_def join_ent [OF pre])
qed

lemma join_swapped:
  assumes pre: "join_pre s par sid v p c" and k: "k < NumSwapPages"
  shows "swapped (join s par sid v p c) ow w k \<longleftrightarrow>
    swapped s ow w k \<or> ow = sid \<and> w = v \<and> te_File p = Some (swapFile s) \<and> k = te_offset p div PageSize"
proof -
  from pre obtain b where b: "ent (spaces s) sid v = Some b" "te_File b \<noteq> Some (swapFile s)"
    by (auto simp: join_pre_def in_play_def)
  have p: "ent (spaces s) par v = Some p" "te_File c = te_File p" "te_offset c = te_offset p" "sid \<noteq> par"
    and inv: "vm_inv s"
    using pre by (simp_all add: join_pre_def backing_attrs_fields)
  have off: "te_offset p = k * PageSize \<longleftrightarrow> k = te_offset p div PageSize" if "te_File p = Some (swapFile s)"
    using detach_records(2) [OF inv p(1) that] by (auto simp: PageSize_def SectorSize_def)
  from b p off show ?thesis by (auto simp: swapped_def join_ent [OF pre])
qed

lemma frame_owner_add:
  assumes "owners (frs f) = Some os" "owners_page_number (frs f) = v"
  shows "frame_owner (frs(f := add_owner (frs f) sid)) g ow w \<longleftrightarrow>
    frame_owner frs g ow w \<or> g = f \<and> ow = sid \<and> w = v"
  using assms by (auto simp: frame_owner_def add_owner_def)

lemma record_ok_add:
  "record_ok fr \<Longrightarrow> \<exists>os. owners fr = Some os \<and> sid \<notin> set os \<Longrightarrow> record_ok (add_owner fr sid)"
  by (auto simp: record_ok_def add_owner_def)

text \<open>The owners of the frame and of the swap frame that are joined.\<close>

lemma join_records:
  assumes pre: "join_pre s par sid v p c"
  shows "valid p \<Longrightarrow> \<exists>os. physicalPage p < NumPhysPages \<and> owners (Frames s (physicalPage p)) = Some os \<and>
      sid \<notin> set os \<and> owners_page_number (Frames s (physicalPage p)) = v"
    "te_File p = Some (swapFile s) \<Longrightarrow> \<exists>os. te_offset p div PageSize < NumSwapPages \<and>
      te_offset p = te_offset p div PageSize * PageSize \<and>
      owners (swapFrames s (te_offset p div PageSize)) = Some os \<and> sid \<notin> set os \<and>
      owners_page_number (swapFrames s (te_offset p div PageSize)) = v"
proof -
  from pre obtain b where b: "ent (spaces s) sid v = Some b" "\<not> valid b" "te_File b \<noteq> Some (swapFile s)"
    and inv: "vm_inv s" and p: "ent (spaces s) par v = Some p"
    by (auto simp: join_pre_def in_play_def)
  show "\<exists>os. physicalPage p < NumPhysPages \<and> owners (Frames s (physicalPage p)) = Some os \<and>
      sid \<notin> set os \<and> owners_page_number (Frames s (physicalPage p)) = v" if "valid p"
  proof -
    from detach_records(1) [OF inv p that] obtain os where
      r: "physicalPage p < NumPhysPages" "owners (Frames s (physicalPage p)) = Some os"
        "owners_page_number (Frames s (physicalPage p)) = v" by blast
    moreover have "\<not> maps s sid v (physicalPage p)" using b by (auto simp: maps_def)
    ultimately show ?thesis using frame_owners(4) [OF inv r(1,2), of sid] by simp
  qed
  let ?k = "te_offset p div PageSize"
  assume sw: "te_File p = Some (swapFile s)"
  from detach_records(2) [OF inv p sw] obtain os where
    r: "?k < NumSwapPages" "te_offset p = ?k * PageSize" "owners (swapFrames s ?k) = Some os"
      "owners_page_number (swapFrames s ?k) = v" by blast
  moreover have "\<not> swapped s sid v ?k" using b by (auto simp: swapped_def)
  moreover have "frame_owner (swapFrames s) ?k sid v \<longleftrightarrow> swapped s sid v ?k"
    using inv r(1) by (simp add: vm_inv_except_def owner_inv_def)
  ultimately show "\<exists>os. ?k < NumSwapPages \<and> te_offset p = ?k * PageSize \<and>
      owners (swapFrames s ?k) = Some os \<and> sid \<notin> set os \<and> owners_page_number (swapFrames s ?k) = v"
    by (auto simp: frame_owner_def)
qed


lemma join_alloc_owner:
  assumes pre: "join_pre s par sid v p c"
  shows "alloc_inv (join s par sid v p c)" "owner_inv (join s par sid v p c)"
proof -
  let ?t = "join s par sid v p c" and ?k = "te_offset p div PageSize" and ?f = "physicalPage p"
  from pre have inv: "vm_inv s" by (simp add: join_pre_def)
  from inv have al: "alloc_inv s" and oi: "owner_inv s" by (auto dest: vm_inv_parts)
  note rec = join_records [OF pre]
  have F: "record_ok (Frames ?t g) \<and> (owners (Frames ?t g) \<noteq> None \<longrightarrow> g \<in> allocated (page_flags s))"
    if "g < NumPhysPages" for g
    using al that rec(1) by (auto simp: join_def alloc_inv_def intro!: record_ok_add)
  have K: "record_ok (swapFrames ?t g) \<and> (owners (swapFrames ?t g) \<noteq> None \<longrightarrow> g \<in> allocated (frame_flags s))"
    if "g < NumSwapPages" for g
    using al that rec(2) by (auto simp: join_def alloc_inv_def intro!: record_ok_add)
  show "alloc_inv ?t" using al F K by (simp add: alloc_inv_def)
  show "owner_inv ?t"
    unfolding owner_inv_def
  proof (intro conjI allI impI)
    show "length (pageTable a) = numPages a" if "spaces ?t sid' = Some a" for sid' a
    proof -
      from that have "upd_spaces {par} v (\<lambda>te. te\<lparr>cow := cow te \<or> in_play s p\<rparr>)
         (upd_spaces {sid} v (\<lambda>_. c\<lparr>cow := cow c \<or> in_play s p\<rparr>) (spaces s)) sid' = Some a"
        by (simp add: join_def)
      then show ?thesis
        by (rule upd_spaces_wf) (erule upd_spaces_wf, use oi in \<open>simp add: owner_inv_def\<close>)
    qed
    show "frame_owner (Frames ?t) g ow w \<longleftrightarrow> maps ?t ow w g" if "g < NumPhysPages" for g ow w
    proof -
      have o: "frame_owner (Frames s) g ow w \<longleftrightarrow> maps s ow w g" using oi that by (simp add: owner_inv_def)
      show ?thesis
      proof (cases "valid p")
        case True
        with rec(1) obtain os where "owners (Frames s ?f) = Some os" "owners_page_number (Frames s ?f) = v" by blast
        from frame_owner_add [where frs = "Frames s", OF this] o True show ?thesis by (auto simp: join_maps [OF pre] join_frames)
      next
        case False
        with o show ?thesis by (simp add: join_maps [OF pre] join_frames)
      qed
    qed
    show "g < NumPhysPages" if "maps ?t ow w g" for ow w g
      using that oi rec(1) by (auto simp: join_maps [OF pre] owner_inv_def)
    show "frame_owner (swapFrames ?t) g ow w \<longleftrightarrow> swapped ?t ow w g" if "g < NumSwapPages" for g ow w
    proof -
      have o: "frame_owner (swapFrames s) g ow w \<longleftrightarrow> swapped s ow w g" using oi that by (simp add: owner_inv_def)
      show ?thesis
      proof (cases "te_File p = Some (swapFile s)")
        case True
        with rec(2) obtain os where "owners (swapFrames s ?k) = Some os" "owners_page_number (swapFrames s ?k) = v" by blast
        from frame_owner_add [where frs = "swapFrames s", OF this] o True show ?thesis by (auto simp: join_swapped [OF pre that] join_frames)
      next
        case False
        with o show ?thesis by (simp add: join_swapped [OF pre that] join_frames)
      qed
    qed
    fix ow w te' assume e: "ent (spaces ?t) ow w = Some te'" "te_File te' = Some (swapFile ?t)"
    obtain ow' te0 where "ent (spaces s) ow' w = Some te0" "te_File te0 = Some (swapFile s)"
        "te_zero te0 = te_zero te'" "te_offset te0 = te_offset te'"
    proof (cases "w = v \<and> (ow = sid \<or> ow = par)")
      case True
      with e pre that [of par p] show ?thesis
        by (auto simp: join_ent [OF pre] join_pre_def backing_attrs_fields split: if_splits)
    next
      case False
      with e that [of ow te'] show ?thesis by (auto simp: join_ent [OF pre] split: if_splits)
    qed
    with swap_entryD [OF inv this(1,2)] show "\<not> te_zero te'" "\<exists>k<NumSwapPages. te_offset te' = k * PageSize"
      by auto
  qed
qed

text \<open>
  Every entry afterwards has the frame, the backing and the contents of an entry before: its own,
  or for the copy the parent's.
\<close>

lemma join_origin:
  assumes pre: "join_pre s par sid v p c" and e: "ent (spaces (join s par sid v p c)) ow w = Some te'"
  obtains te where "ent (spaces s) (if ow = sid \<and> w = v then par else ow) w = Some te"
    "valid te' = valid te" "physicalPage te' = physicalPage te" "backing_attrs te' = backing_attrs te"
    "\<not> (w = v \<and> (ow = sid \<or> ow = par)) \<Longrightarrow> te' = te"
    "w = v \<and> (ow = sid \<or> ow = par) \<Longrightarrow> in_play s te \<Longrightarrow> cow te'"
proof (cases "w = v \<and> (ow = sid \<or> ow = par)")
  case True
  with e have "te' = c\<lparr>cow := cow c \<or> in_play s p\<rparr> \<or> te' = p\<lparr>cow := cow p \<or> in_play s p\<rparr>"
    by (auto simp: join_ent [OF pre] split: if_splits)
  moreover have "ent (spaces s) (if ow = sid \<and> w = v then par else ow) w = Some p"
    "valid c = valid p" "physicalPage c = physicalPage p" "backing_attrs c = backing_attrs p"
    using True pre by (auto simp: join_pre_def)
  ultimately show ?thesis using True by (intro that [of p]) (auto simp: backing_attrs_fields)
next
  case False
  with e that [of te'] show ?thesis by (auto simp: join_ent [OF pre] split: if_splits)
qed

lemma join_share:
  assumes pre: "join_pre s par sid v p c" shows "share_inv (join s par sid v p c)"
  unfolding share_inv_def
proof (intro allI conjI impI)
  let ?t = "join s par sid v p c"
  from pre have inv: "vm_inv s" and ne0: "sid \<noteq> par" by (simp_all add: join_pre_def)
  fix o1 o2 w te1 te2
  assume e: "ent (spaces ?t) o1 w = Some te1" "ent (spaces ?t) o2 w = Some te2" and ne: "o1 \<noteq> o2"
  let ?o = "\<lambda>ow. if ow = sid \<and> w = v then par else ow"
  from join_origin [OF pre e(1)] obtain t1 where
    t1: "ent (spaces s) (?o o1) w = Some t1" "valid te1 = valid t1" "physicalPage te1 = physicalPage t1"
      "backing_attrs te1 = backing_attrs t1" "\<not> (w = v \<and> (o1 = sid \<or> o1 = par)) \<Longrightarrow> te1 = t1"
      "w = v \<and> (o1 = sid \<or> o1 = par) \<Longrightarrow> in_play s t1 \<Longrightarrow> cow te1" by metis
  from join_origin [OF pre e(2)] obtain t2 where
    t2: "ent (spaces s) (?o o2) w = Some t2" "valid te2 = valid t2" "physicalPage te2 = physicalPage t2"
      "backing_attrs te2 = backing_attrs t2" by metis
  have same: "t1 = t2 \<and> w = v \<and> (o1 = sid \<or> o1 = par)" if "?o o1 = ?o o2"
    using that t1(1) t2(1) ne by (auto split: if_splits)
  show "backing_attrs te1 = backing_attrs te2" "cow te1"
    if v: "valid te1" "valid te2" "physicalPage te1 = physicalPage te2"
  proof -
    have "backing_attrs te1 = backing_attrs te2 \<and> cow te1"
    proof (cases "?o o1 = ?o o2")
      case True
      with same t1 t2 v show ?thesis by (simp add: in_play_def)
    next
      case False
      with share_frameD [OF inv t1(1) t2(1)] t1(2-4) t2(2-4) v
      have "backing_attrs te1 = backing_attrs te2" "cow t1" by simp_all
      with t1(2,5,6) v show ?thesis by (cases "w = v \<and> (o1 = sid \<or> o1 = par)") (simp_all add: in_play_def)
    qed
    then show "backing_attrs te1 = backing_attrs te2" "cow te1" by blast+
  qed
  show "place te1 = place te2" "cow te1"
    if f: "te_File te1 = Some (swapFile ?t)" "te_File te2 = Some (swapFile ?t)" "te_offset te1 = te_offset te2"
  proof -
    have g: "te_File t1 = Some (swapFile s)" "te_File t2 = Some (swapFile s)" "te_offset t1 = te_offset t2"
      using f t1(4) t2(4) by (simp_all add: backing_attrs_fields)
    have "place te1 = place te2 \<and> cow te1"
    proof (cases "?o o1 = ?o o2")
      case True
      with same t1 t2 g show ?thesis by (simp add: in_play_def place_def)
    next
      case False
      with share_swapD [OF inv t1(1) t2(1) g] t1(2,3) t2(2,3)
      have "place te1 = place te2" "cow t1" by (simp_all add: place_def split: if_splits)
      with t1(5,6) g show ?thesis by (cases "w = v \<and> (o1 = sid \<or> o1 = par)") (simp_all add: in_play_def)
    qed
    then show "place te1 = place te2" "cow te1" by blast+
  qed
qed

lemma backing_same: "backing_attrs te = backing_attrs te' \<Longrightarrow> backing fls te i = backing fls te' i"
  by (simp add: backing_attrs_fields backing_def cong: option.case_cong)

lemma join_inv:
  assumes pre: "join_pre s par sid v p c" shows "vm_inv (join s par sid v p c)"
proof -
  let ?t = "join s par sid v p c"
  from pre have inv: "vm_inv s" by (simp add: join_pre_def)
  have "content_inv {} ?t"
    unfolding content_inv_def
  proof (intro allI conjI impI)
    fix ow w te' assume e: "ent (spaces ?t) ow w = Some te'"
    from join_origin [OF pre e] obtain ow' te where t: "ent (spaces s) ow' w = Some te"
      "valid te' = valid te" "physicalPage te' = physicalPage te" "backing_attrs te' = backing_attrs te" by metis
    show "te_offset te' + PageSize \<le> f_len (files ?t g)" if "te_File te' = Some g" "\<not> te_zero te'" for g
      using content_lenD [OF inv t(1), of g] t(4) that by (simp add: backing_attrs_fields)
    assume v: "valid te'" "\<not> dirty te'"
    with t have c: "valid te" "\<not> dirty te" "(ow', w) \<notin> {}" by (simp_all add: backing_attrs_fields)
    show "has_backing te'" using content_cleanD(1) [OF inv t(1) c] t(4) by (simp add: has_backing_def backing_attrs_fields)
    show "page_bytes (mainMemory ?t) (physicalPage te') i = backing (files ?t) te' i" if "i < PageSize" for i
      using content_cleanD(2) [OF inv t(1) c that] t(3) backing_same [OF t(4)] by simp
  qed
  with join_alloc_owner [OF pre] join_share [OF pre] show ?thesis by (simp add: vm_inv_except_def)
qed

text \<open>The copy reads as its parent's page, every other page as before.\<close>

lemma join_vbyte:
  assumes pre: "join_pre s par sid v p c"
  shows "vbyte (join s par sid v p c) ow w i =
    (if ow = sid \<and> w = v then vbyte s par v i else vbyte s ow w i)"
proof -
  from pre have p: "ent (spaces s) par v = Some p" "valid c = valid p" "physicalPage c = physicalPage p"
    "backing_attrs c = backing_attrs p" by (simp_all add: join_pre_def)
  have "te_byte m fl c i = te_byte m fl p i" for m fl
    using p backing_same [OF p(4)] by (simp add: te_byte_def)
  then show ?thesis using p by (auto simp: vbyte_def join_ent [OF pre])
qed


section \<open>The code of \<open>CopyFrom\<close>\<close>

lemma append_owner_eq:
  assumes "record_ok fr" "owners fr = Some os" "owners_page_number fr = v"
  shows "append_owner fr sid v = Inr (add_owner fr sid)" "owner_list fr = Inr os"
proof -
  from assms have r: "numOwners fr = int (length os)" by (simp add: record_ok_def)
  show o: "owner_list fr = Inr os" by (rule owner_list_eq [OF assms(2) r])
  show "append_owner fr sid v = Inr (add_owner fr sid)"
    using o r assms by (cases fr) (simp add: append_owner_def add_owner_def)
qed

definition cow_on :: "nat \<Rightarrow> nat \<Rightarrow> nat \<Rightarrow> (nat \<rightharpoonup> AddrSpace) \<Rightarrow> (nat \<rightharpoonup> AddrSpace)" where
  "cow_on par sid v sp = upd_spaces {par} v (\<lambda>te. te\<lparr>cow := True\<rparr>) (upd_spaces {sid} v (\<lambda>te. te\<lparr>cow := True\<rparr>) sp)"

lemma cow_on_ent:
  "ent (cow_on par sid v sp) ow w =
     (if (ow = sid \<or> ow = par) \<and> w = v then map_option (\<lambda>te. te\<lparr>cow := True\<rparr>) (ent sp ow w) else ent sp ow w)"
  by (auto simp: cow_on_def option.map_comp comp_def)

lemma cow_on_run:
  assumes "ent (spaces s) sid v = Some c" "ent (spaces s) par v = Some p"
  shows "bind_res (upd_te s sid v (\<lambda>te. te\<lparr>cow := True\<rparr>)) (\<lambda>t. upd_te t par v (\<lambda>te. te\<lparr>cow := True\<rparr>)) =
    Inr (s\<lparr>spaces := cow_on par sid v (spaces s)\<rparr>)"
proof -
  let ?t = "s\<lparr>spaces := upd_spaces {sid} v (\<lambda>te. te\<lparr>cow := True\<rparr>) (spaces s)\<rparr>"
  have "ent (spaces ?t) par v \<noteq> None" using assms by simp
  then obtain q where "ent (spaces ?t) par v = Some q" by blast
  with upd_te_eq [OF assms(1)] upd_te_eq [OF this] show ?thesis by (simp add: cow_on_def)
qed

lemma cow_on_wf:
  "cow_on par sid v sp x = Some a \<Longrightarrow> (\<And>b. sp x = Some b \<Longrightarrow> length (pageTable b) = numPages b) \<Longrightarrow>
    length (pageTable a) = numPages a"
  unfolding cow_on_def by (erule upd_spaces_wf, erule upd_spaces_wf) simp

text \<open>
  One round: \<open>r\<close> is the state, in which page \<open>v\<close> of the child is a copy of its parent's that nothing
  refers to yet; \<open>P\<close> are the pages of the child still to be processed.
\<close>

lemma CopyFrom_page_run:
  assumes inv: "vm_inv (ghost r sid P)" and Pv: "P v" and ne: "sid \<noteq> par"
    and c: "ent (spaces r) sid v = Some c" and p: "ent (spaces r) par v = Some p"
    and same: "valid c = valid p" "physicalPage c = physicalPage p" "backing_attrs c = backing_attrs p"
  shows "join_pre (ghost r sid P) par sid v p c"
    "\<exists>sp. CopyFrom_page par sid v r = Inr ((join (ghost r sid P) par sid v p c)\<lparr>spaces := sp\<rparr>) \<and>
      (sp = spaces r \<and> \<not> in_play r p \<or>
       in_play r p \<and> (sp = cow_on par sid v (spaces r) \<or> sp = cow_on par sid v (cow_on par sid v (spaces r))))"
proof -
  let ?g = "ghost r sid P" and ?f = "physicalPage p" and ?k = "te_offset p div PageSize"
  show pre: "join_pre ?g par sid v p c"
    using inv ne c p same Pv by (auto simp: join_pre_def ghost_def ent_blank in_play_def)
  have sel: "Frames ?g = Frames r" "swapFrames ?g = swapFrames r" "swapFile ?g = swapFile r"
    by (simp_all add: ghost_def)
  note rec = join_records [OF pre, unfolded sel]
  from inv have al: "alloc_inv ?g" by (rule vm_inv_parts)
  let ?K = "if te_File p = Some (swapFile r) then (swapFrames r)(?k := add_owner (swapFrames r ?k) sid) else swapFrames r"
  let ?F = "if valid p then (Frames r)(?f := add_owner (Frames r ?f) sid) else Frames r"
  let ?sp1 = "if te_File p = Some (swapFile r) then cow_on par sid v (spaces r) else spaces r"
  let ?r1 = "r\<lparr>swapFrames := ?K, spaces := ?sp1\<rparr>"
  have first: "(if te_File c = Some (swapFile r) then
          bind_res (swap_add_frame_owner r (te_offset c) sid v) (\<lambda>(_, t).
          bind_res (upd_te t sid v (\<lambda>te. te\<lparr>cow := True\<rparr>)) (\<lambda>t.
          upd_te t par v (\<lambda>te. te\<lparr>cow := True\<rparr>)))
        else Inr r) = Inr ?r1"
  proof (cases "te_File p = Some (swapFile r)")
    case True
    with rec(2) obtain os where k: "?k < NumSwapPages" "owners (swapFrames r ?k) = Some os"
      "owners_page_number (swapFrames r ?k) = v" by auto
    from al k(1) have "record_ok (swapFrames r ?k)" by (simp add: alloc_inv_def sel)
    from append_owner_eq [OF this k(2,3)] k True same(3)
    have "swap_add_frame_owner r (te_offset c) sid v = Inr (0, r\<lparr>swapFrames := ?K\<rparr>)"
      by (simp add: swap_add_frame_owner_def swap_at_def backing_attrs_fields Let_def)
    with True same(3) cow_on_run [of "r\<lparr>swapFrames := ?K\<rparr>" sid v c par p] c p show ?thesis
      by (simp add: backing_attrs_fields)
  qed (use same in \<open>simp add: backing_attrs_fields\<close>)
  obtain c1 p1 where cp: "ent (spaces ?r1) sid v = Some c1" "ent (spaces ?r1) par v = Some p1"
    using c p by (cases "te_File p = Some (swapFile r)") (simp_all add: cow_on_ent)
  let ?r2 = "?r1\<lparr>Frames := ?F\<rparr>"
  let ?r3 = "?r2\<lparr>spaces := (if valid p then cow_on par sid v ?sp1 else ?sp1)\<rparr>"
  have second: "(if valid c then
       bind_res (add_frame_owner ?r1 (int (physicalPage c)) sid v) (\<lambda>(_, t).
       bind_res (upd_te t sid v (\<lambda>te. te\<lparr>cow := True\<rparr>)) (\<lambda>t.
       upd_te t par v (\<lambda>te. te\<lparr>cow := True\<rparr>)))
     else Inr ?r1) = Inr ?r3"
  proof (cases "valid p")
    case True
    with rec(1) obtain os where f: "?f < NumPhysPages" "owners (Frames r ?f) = Some os" "sid \<notin> set os"
      "owners_page_number (Frames r ?f) = v" by auto
    from al f(1) have "record_ok (Frames r ?f)" by (simp add: alloc_inv_def sel)
    from append_owner_eq [OF this f(2,4)] f True same(2)
    have "add_frame_owner ?r1 (int (physicalPage c)) sid v = Inr (0, ?r2)"
      by (simp add: add_frame_owner_def frame_at_def)
    with True same(1) cow_on_run [of ?r2 sid v c1 par p1] cp show ?thesis by simp
  qed (use same in simp)
  have "CopyFrom_page par sid v r = Inr ?r3"
    using first second c by (simp add: CopyFrom_page_def)
  moreover have "?r3 = (join ?g par sid v p c)\<lparr>spaces := spaces ?r3\<rparr>"
    by (simp add: join_def ghost_def)
  ultimately show "\<exists>sp. CopyFrom_page par sid v r = Inr ((join ?g par sid v p c)\<lparr>spaces := sp\<rparr>) \<and>
      (sp = spaces r \<and> \<not> in_play r p \<or>
       in_play r p \<and> (sp = cow_on par sid v (spaces r) \<or> sp = cow_on par sid v (cow_on par sid v (spaces r))))"
    by (intro exI [of _ "spaces ?r3"]) (auto simp: in_play_def)
qed


text \<open>
  Page \<open>v\<close> shared: the child has the entry of its parent, with the same frame, file and place in it.
  When the page is in a frame or in the swap file, both entries are copy-on-write.
\<close>

definition cow_entry :: "'a vm_scheme \<Rightarrow> TranslationEntry \<Rightarrow> TranslationEntry \<Rightarrow> TranslationEntry" where
  "cow_entry s p te = te\<lparr>cow := cow p \<or> in_play s p\<rparr>"

definition shared_page :: "'a vm_scheme \<Rightarrow> nat \<Rightarrow> nat \<Rightarrow> nat \<Rightarrow> 'a vm_scheme \<Rightarrow> bool" where
  "shared_page s par sid v r \<longleftrightarrow> (\<forall>p. ent (spaces s) par v = Some p \<longrightarrow>
     ent (spaces r) par v = Some (cow_entry s p p) \<and>
     ent (spaces r) sid v = Some (cow_entry s p (CopyPageTable_entry p)))"

text \<open>No frame, no swap frame and no byte is touched.\<close>

definition nothing_copied :: "'a vm_scheme \<Rightarrow> 'a vm_scheme \<Rightarrow> bool" where
  "nothing_copied s t \<longleftrightarrow> mainMemory t = mainMemory s \<and> files t = files s \<and> swapFile t = swapFile s \<and>
     page_flags t = page_flags s \<and> frame_flags t = frame_flags s"

text \<open>The state of the loop before page \<open>i\<close>, started in \<open>s\<close>.\<close>

definition copying :: "'a vm_scheme \<Rightarrow> nat \<Rightarrow> nat \<Rightarrow> nat \<Rightarrow> 'a vm_scheme \<Rightarrow> bool" where
  "copying s par sid i r \<longleftrightarrow>
     vm_inv (ghost r sid (\<lambda>v. i \<le> v)) \<and>
     (\<forall>v \<ge> i. ent (spaces r) par v = ent (spaces s) par v \<and>
        ent (spaces r) sid v = map_option CopyPageTable_entry (ent (spaces s) par v)) \<and>
     (\<forall>ow w k. ow \<noteq> sid \<longrightarrow> vbyte r ow w k = vbyte s ow w k) \<and>
     (\<forall>v < i. \<forall>k. vbyte r sid v k = vbyte s par v k) \<and>
     nothing_copied s r \<and> (\<forall>v < i. shared_page s par sid v r)"

lemma CopyPageTable_entry_fields [simp]:
  "valid (CopyPageTable_entry te) = valid te" "physicalPage (CopyPageTable_entry te) = physicalPage te"
  "backing_attrs (CopyPageTable_entry te) = backing_attrs te" "cow (CopyPageTable_entry te) = cow te"
  "readOnly (CopyPageTable_entry te) = readOnly te" "virtualPage (CopyPageTable_entry te) = virtualPage te"
  by (simp_all add: CopyPageTable_entry_def clearRefHistory_def setTime_def clearSC_def backing_attrs_def)

lemma vm_inv_ent_eq:
  assumes inv: "vm_inv_except X s" and ent: "\<And>ow w. ent sp ow w = ent (spaces s) ow w"
    and wf: "\<And>sid a. sp sid = Some a \<Longrightarrow> length (pageTable a) = numPages a"
  shows "vm_inv_except X (s\<lparr>spaces := sp\<rparr>)"
  by (rule vm_inv_ents [OF inv wf]) (simp_all add: ent content_lenD [OF inv])

lemma vbyte_ent_eq: "(\<And>ow w. ent sp ow w = ent (spaces s) ow w) \<Longrightarrow> vbyte (s\<lparr>spaces := sp\<rparr>) = vbyte s"
  by (simp add: vbyte_def fun_eq_iff)

lemma wf_ghost:
  "vm_inv_except X (ghost r sid P) \<Longrightarrow> spaces r x = Some a \<Longrightarrow> length (pageTable a) = numPages a"
proof -
  assume i: "vm_inv_except X (ghost r sid P)" and a: "spaces r x = Some a"
  let ?b = "a\<lparr>pageTable := map (\<lambda>v. if P v then blank_te (pageTable a ! v) else pageTable a ! v) [0..<length (pageTable a)]\<rparr>"
  have "spaces (ghost r sid P) x = Some (if x = sid then ?b else a)" using a by (auto simp: ghost_def blank_def)
  with i have "length (pageTable (if x = sid then ?b else a)) = numPages (if x = sid then ?b else a)"
    unfolding vm_inv_except_def owner_inv_def by blast
  then show ?thesis by (simp split: if_splits)
qed

lemma CopyFrom_step:
  assumes cp: "copying s par sid i r" and ne: "sid \<noteq> par" and p: "ent (spaces s) par i = Some p"
  shows "\<exists>t. CopyFrom_page par sid i r = Inr t \<and> copying s par sid (Suc i) t"
proof -
  let ?P = "\<lambda>v. i \<le> v" and ?Q = "\<lambda>v. Suc i \<le> v" and ?c = "CopyPageTable_entry p"
  let ?g = "ghost r sid ?P" and ?j = "join (ghost r sid (\<lambda>v. i \<le> v)) par sid i p ?c"
  from cp have inv: "vm_inv ?g" and e: "ent (spaces r) sid i = Some ?c" "ent (spaces r) par i = Some p"
    using p by (auto simp: copying_def)
  note run = CopyFrom_page_run [OF inv _ ne e, simplified]
  have pre: "join_pre ?g par sid i p ?c" by (rule run(1))
  from run(2) obtain sp where t: "CopyFrom_page par sid i r = Inr (?j\<lparr>spaces := sp\<rparr>)"
    and sp: "sp = spaces r \<and> \<not> in_play r p \<or> in_play r p \<and>
      (sp = cow_on par sid i (spaces r) \<or> sp = cow_on par sid i (cow_on par sid i (spaces r)))" by blast
  let ?t = "?j\<lparr>spaces := sp\<rparr>"
  have esp: "ent sp ow w = (if (ow = sid \<or> ow = par) \<and> w = i
      then map_option (\<lambda>te. te\<lparr>cow := cow te \<or> in_play r p\<rparr>) (ent (spaces r) ow w) else ent (spaces r) ow w)" for ow w
    using sp by (auto simp: cow_on_ent option.map_comp comp_def map_option.id [unfolded id_def])
  have ip: "in_play ?g p = in_play r p" by (simp add: in_play_def ghost_def)
  have ent: "ent (blank sid ?Q sp) ow w = ent (spaces ?j) ow w" for ow w
  proof -
    have gent: "ent (spaces ?g) ow w = (if ow = sid \<and> i \<le> w then map_option blank_te (ent (spaces r) ow w)
        else ent (spaces r) ow w)" by (simp add: ghost_def ent_blank)
    show ?thesis unfolding join_ent [OF pre] ip gent ent_blank esp using ne e by auto
  qed
  have wfr: "length (pageTable a) = numPages a" if "spaces r x = Some a" for x a
    using wf_ghost [OF inv that] .
  have wf: "length (pageTable a) = numPages a" if "blank sid ?Q sp x = Some a" for x a
  proof (rule blank_wf [OF that])
    show "length (pageTable b) = numPages b" if "sp x = Some b" for b
      using sp that wfr by (auto dest!: cow_on_wf)
  qed
  have "ghost ?t sid ?Q = ?j\<lparr>spaces := blank sid ?Q sp\<rparr>" by (simp add: ghost_def)
  then have inv': "vm_inv (ghost ?t sid ?Q)" using vm_inv_ent_eq [OF join_inv [OF pre] ent wf] by simp
  have te: "te_byte m f (te\<lparr>cow := x\<rparr>) k = te_byte m f te k" for m f te x k by simp
  have vb: "vbyte ?t ow w k = vbyte r ow w k" for ow w k
    by (simp add: vbyte_def esp option.map_comp comp_def) (simp add: ghost_def)
  have vp: "vbyte r sid i k = vbyte s par i k" for k
  proof -
    have "vbyte r par i k = vbyte s par i k" using cp ne by (simp add: copying_def)
    moreover have "te_byte m f ?c k = te_byte m f p k" for m f
      using backing_same [of ?c p] by (simp add: te_byte_def)
    ultimately show ?thesis using e by (simp add: vbyte_def)
  qed
  have nc: "nothing_copied s ?t" using cp by (simp add: copying_def nothing_copied_def ghost_def)
  have ip': "in_play r p = in_play s p" using cp by (simp add: copying_def nothing_copied_def in_play_def)
  have sh: "shared_page s par sid v ?t" if v: "v < Suc i" for v
  proof (cases "v = i")
    case True
    with e p ne show ?thesis by (simp add: shared_page_def cow_entry_def esp ip')
  next
    case False
    with v cp have "shared_page s par sid v r" by (simp add: copying_def)
    with False show ?thesis by (simp add: shared_page_def esp)
  qed
  have "copying s par sid (Suc i) ?t"
    unfolding copying_def
  proof (intro conjI allI impI)
    fix v assume "Suc i \<le> v"
    then show "ent (spaces ?t) par v = ent (spaces s) par v"
      "ent (spaces ?t) sid v = map_option CopyPageTable_entry (ent (spaces s) par v)"
      using cp by (simp_all add: esp copying_def)
  next
    fix v k assume "v < Suc i"
    then show "vbyte ?t sid v k = vbyte s par v k"
      using cp vp unfolding vb by (cases "v = i") (simp_all add: copying_def)
  next
    fix v assume "v < Suc i"
    then show "shared_page s par sid v ?t" by (rule sh)
  next
    show "nothing_copied s ?t" by (rule nc)
  qed (use inv' cp vb in \<open>simp_all add: copying_def\<close>)
  with t show ?thesis by blast
qed


lemma CopyPageTable_eq:
  assumes "length pt = n" shows "CopyPageTable pt n = Inr (map CopyPageTable_entry pt)"
proof -
  have "k \<le> n \<Longrightarrow> fold_res (\<lambda>i acc. bind_res (index_res pt i) (\<lambda>e. Inr (acc @ [CopyPageTable_entry e]))) [0..<k] [] =
      Inr (map CopyPageTable_entry (take k pt))" for k
    by (induction k) (use assms in \<open>simp_all add: fold_res_append take_Suc_conv_app_nth\<close>)
  from this [of n] show ?thesis using assms by (simp add: CopyPageTable_def)
qed

lemma CopyFrom_loop:
  assumes "copying s par sid 0 r" "sid \<noteq> par" "\<And>v. v < n \<Longrightarrow> ent (spaces s) par v \<noteq> None"
  shows "\<exists>t. fold_res (CopyFrom_page par sid) [0..<n] r = Inr t \<and> copying s par sid n t"
  using assms(3)
proof (induction n)
  case (Suc n)
  then obtain t where t: "fold_res (CopyFrom_page par sid) [0..<n] r = Inr t" "copying s par sid n t" by auto
  from Suc.prems [of n] obtain p where "ent (spaces s) par n = Some p" by auto
  from CopyFrom_step [OF t(2) assms(2) this] t(1) show ?case by (auto simp: fold_res_append)
qed (use assms(1) in simp)

text \<open>
  The whole of \<open>CopyFrom\<close> for a space \<open>sid\<close> that has no pages yet: the child sees the memory of its
  parent, every other process what it saw.
\<close>

lemma CopyFrom_ok:
  assumes inv: "vm_inv s" and cur: "currentSpace s = Some par" and par: "spaces s par = Some p"
    and sid: "spaces s sid = Some a" "numPages a = 0" and ne: "sid \<noteq> par"
  shows "\<exists>t. CopyFrom s sid = Inr t \<and> vm_inv t \<and>
    (\<forall>w k. vbyte t sid w k = vbyte s par w k) \<and>
    (\<forall>ow w k. ow \<noteq> sid \<longrightarrow> vbyte t ow w k = vbyte s ow w k) \<and>
    nothing_copied s t \<and> (\<forall>v. shared_page s par sid v t)"
proof -
  let ?n = "numPages p" and ?pt = "map CopyPageTable_entry (pageTable p)"
  let ?r = "s\<lparr>spaces := (spaces s)(sid \<mapsto> a\<lparr>numPages := ?n, pageTable := ?pt\<rparr>)\<rparr>"
  have len: "length (pageTable p) = ?n" using inv par by (simp add: vm_inv_except_def owner_inv_def)
  have ent: "ent (spaces ?r) ow w = (if ow = sid then map_option CopyPageTable_entry (ent (spaces s) par w)
      else ent (spaces s) ow w)" for ow w
    using par len by (simp add: ent_def)
  have none: "ent (spaces s) sid w = None" for w using sid by (simp add: ent_def)
  have gent: "ent (spaces (ghost ?r sid (\<lambda>v. 0 \<le> v))) ow w = (if ow = sid
      then map_option (\<lambda>te. blank_te (CopyPageTable_entry te)) (ent (spaces s) par w) else ent (spaces s) ow w)" for ow w
    unfolding ghost_def by (simp add: ent_blank) (simp add: ent [simplified] option.map_comp comp_def)
  have "vm_inv (s\<lparr>spaces := spaces (ghost ?r sid (\<lambda>v. 0 \<le> v))\<rparr>)"
  proof (rule vm_inv_ents [OF inv])
    show "length (pageTable b) = numPages b" if "spaces (ghost ?r sid (\<lambda>v. 0 \<le> v)) x = Some b" for x b
    proof -
      from that have "blank sid (\<lambda>v. 0 \<le> v) (spaces ?r) x = Some b" by (simp add: ghost_def)
      then show ?thesis
        by (rule blank_wf) (use inv len in \<open>auto simp: vm_inv_except_def owner_inv_def split: if_splits\<close>)
    qed
    show "te_offset te + PageSize \<le> f_len (files s fl)"
      if "ent (spaces (ghost ?r sid (\<lambda>v. 0 \<le> v))) ow w = Some te" "te_File te = Some fl" "\<not> te_zero te" for ow w te fl
      using that content_lenD [OF inv, of ow w te fl] unfolding gent by (auto split: if_splits)
  qed (unfold gent, auto simp: none split: if_splits)
  then have g0: "vm_inv (ghost ?r sid (\<lambda>v. 0 \<le> v))" by (simp add: ghost_def)
  have start: "copying s par sid 0 ?r"
    unfolding copying_def
  proof (intro conjI)
    show "vm_inv (ghost ?r sid (\<lambda>v. 0 \<le> v))" by (rule g0)
  qed (use ne ent in \<open>auto simp: vbyte_def nothing_copied_def\<close>)
  have "ent (spaces s) par v \<noteq> None" if "v < ?n" for v using par len that by (simp add: ent_def)
  with CopyFrom_loop [OF start ne] obtain t where
    t: "fold_res (CopyFrom_page par sid) [0..<?n] ?r = Inr t" "copying s par sid ?n t" by blast
  have "CopyFrom s sid = Inr t"
    using cur par sid(1) t(1) CopyPageTable_eq [OF len] by (simp add: CopyFrom_def)
  moreover have last: "ent (spaces t) sid v = None" if "?n \<le> v" for v
    using t(2) that par len by (simp add: copying_def ent_def)
  have "vm_inv t"
  proof -
    have g: "vm_inv (ghost t sid (\<lambda>v. ?n \<le> v))" using t(2) by (simp add: copying_def)
    have "ent (spaces t) ow w = ent (spaces (ghost t sid (\<lambda>v. ?n \<le> v))) ow w" for ow w
      using last [of w] by (auto simp: ghost_def ent_blank)
    from vm_inv_ent_eq [OF g this wf_ghost [OF g]] show ?thesis by (simp add: ghost_def)
  qed
  moreover have "vbyte t sid w k = vbyte s par w k" for w k
  proof (cases "w < ?n")
    case False
    then show ?thesis using last [of w] par by (simp add: vbyte_def ent_def [of "spaces s"])
  qed (use t(2) in \<open>simp add: copying_def\<close>)
  moreover have "shared_page s par sid v t" for v
  proof (cases "v < ?n")
    case False
    then show ?thesis using par by (simp add: shared_page_def ent_def)
  qed (use t(2) in \<open>simp add: copying_def\<close>)
  ultimately show ?thesis using t(2) by (simp add: copying_def)
qed

end
