(* ===== verification/VM_Boot.thy ===== *)
theory VM_Boot
  imports VM_Inv
begin

text \<open>
  The constructors \<open>MemoryManager::MemoryManager\<close> and \<open>SwapManager::SwapManager\<close>, and the invariant in
  the state they leave. \<open>junk\<close> is what the heap held; \<open>opened\<close> is what \<open>fileSystem->Open\<close> returns for the
  swap file, which \<open>fileSystem->Create\<close> has made empty: the file, or NULL.
\<close>

definition clear_page :: "nat \<Rightarrow> 'a vm_scheme \<Rightarrow> 'a vm_scheme res" where
  "clear_page i s =
     bind_res (Clear (page_flags s) (int i)) (\<lambda>bm.
     Inr (s\<lparr>page_flags := bm, Frames := (Frames s)(i := (Frames s i)\<lparr>owners := None, numOwners := 0\<rparr>)\<rparr>))"

definition MemoryManager_new :: "(nat \<Rightarrow> uint32) \<Rightarrow> 'a vm_scheme \<Rightarrow> 'a vm_scheme res" where
  "MemoryManager_new junk s =
     bind_res (BitMap_new junk NumPhysPages) (\<lambda>bm.
     fold_res clear_page [0..<NumPhysPages] (s\<lparr>page_flags := bm\<rparr>))"

definition clear_swap_frame :: "nat \<Rightarrow> 'a vm_scheme \<Rightarrow> 'a vm_scheme res" where
  "clear_swap_frame i s =
     bind_res (Clear (frame_flags s) (int i)) (\<lambda>bm.
     Inr (s\<lparr>frame_flags := bm, swapFrames := (swapFrames s)(i := (swapFrames s i)\<lparr>owners := None, numOwners := 0\<rparr>)\<rparr>))"

definition SwapManager_new :: "(nat \<Rightarrow> uint32) \<Rightarrow> file_id option \<Rightarrow> 'a vm_scheme \<Rightarrow> 'a vm_scheme res" where
  "SwapManager_new junk opened s =
     bind_res (BitMap_new junk NumSwapPages) (\<lambda>bm.
     bind_res (fold_res clear_swap_frame [0..<NumSwapPages] (s\<lparr>frame_flags := bm\<rparr>)) (\<lambda>t.
     case opened of
       None \<Rightarrow> Inl AssertionFailed
     | Some sw \<Rightarrow> Inr (t\<lparr>files := (files t)(sw := \<lparr>f_len = 0, f_byte = (\<lambda>_. 0)\<rparr>), swapFile := sw\<rparr>)))"

lemma BitMap_new_ok: "\<exists>bm. BitMap_new junk n = Inr bm \<and> bm_wf bm \<and> numBits bm = n \<and> allocated bm = {}"
proof -
  let ?P = "\<lambda>k bm. bm_wf bm \<and> numBits bm = n \<and> allocated bm \<inter> {..<k} = {}"
  let ?clear = "\<lambda>i bm. Clear bm (int i)"
  have loop: "?P 0 bm0 \<Longrightarrow> k \<le> n \<Longrightarrow> \<exists>bm. fold_res ?clear [0..<k] bm0 = Inr bm \<and> ?P k bm" for k bm0
  proof (induction k)
    case (Suc k)
    then obtain bm where bm: "fold_res ?clear [0..<k] bm0 = Inr bm" "?P k bm" by auto
    with Suc.prems Clear_spec [of bm k] obtain bm' where
      "Clear bm (int k) = Inr bm'" "bm_wf bm'" "numBits bm' = n" "allocated bm' = allocated bm - {k}" by auto
    with bm show ?case by (auto simp: fold_res_append lessThan_Suc)
  qed simp
  let ?n = "divRoundUp n BitsInWord"
  have "?P 0 \<lparr>numBits = n, numWords = ?n, bm_map = map junk [0..<?n]\<rparr>" by (simp add: bm_wf_def)
  from loop [OF this order_refl] obtain bm where "BitMap_new junk n = Inr bm" "bm_wf bm" "numBits bm = n"
      "allocated bm \<inter> {..<n} = {}"
    by (auto simp: BitMap_new_def Let_def)
  with bm.used_below [of bm] show ?thesis by blast
qed

definition frames_clear :: "nat \<Rightarrow> (nat \<Rightarrow> Frame) \<Rightarrow> bool" where
  "frames_clear k fr \<longleftrightarrow> (\<forall>i < k. owners (fr i) = None \<and> numOwners (fr i) = 0)"

lemma MemoryManager_new_ok:
  "\<exists>bm fr. MemoryManager_new junk s = Inr (s\<lparr>page_flags := bm, Frames := fr\<rparr>) \<and> bm_wf bm \<and>
    numBits bm = NumPhysPages \<and> allocated bm = {} \<and> frames_clear NumPhysPages fr"
proof -
  from BitMap_new_ok obtain bm0 where bm0: "BitMap_new junk NumPhysPages = Inr bm0" "bm_wf bm0"
    "numBits bm0 = NumPhysPages" "allocated bm0 = {}" by blast
  have "k \<le> NumPhysPages \<Longrightarrow> \<exists>bm fr. fold_res clear_page [0..<k] (s\<lparr>page_flags := bm0\<rparr>) =
      Inr (s\<lparr>page_flags := bm, Frames := fr\<rparr>) \<and> bm_wf bm \<and> numBits bm = NumPhysPages \<and> allocated bm = {} \<and>
      frames_clear k fr" for k
  proof (induction k)
    case 0
    show ?case using bm0 by (intro exI [of _ bm0] exI [of _ "Frames s"]) (simp add: frames_clear_def)
  next
    case (Suc k)
    then obtain bm fr where t: "fold_res clear_page [0..<k] (s\<lparr>page_flags := bm0\<rparr>) =
        Inr (s\<lparr>page_flags := bm, Frames := fr\<rparr>)" "bm_wf bm" "numBits bm = NumPhysPages" "allocated bm = {}"
        "frames_clear k fr" by auto
    with Clear_spec [of bm k] Suc.prems obtain bm' where
      "Clear bm (int k) = Inr bm'" "bm_wf bm'" "numBits bm' = NumPhysPages" "allocated bm' = {}" by auto
    moreover from this have "clear_page k (s\<lparr>page_flags := bm, Frames := fr\<rparr>) = Inr (s\<lparr>page_flags := bm',
        Frames := fr(k := (fr k)\<lparr>owners := None, numOwners := 0\<rparr>)\<rparr>)" by (simp add: clear_page_def)
    ultimately show ?case using t
      by (intro exI [of _ bm'] exI [of _ "fr(k := (fr k)\<lparr>owners := None, numOwners := 0\<rparr>)"])
        (simp add: fold_res_append frames_clear_def less_Suc_eq fun_upd_def)
  qed
  from this [of NumPhysPages] show ?thesis using bm0(1) by (simp add: MemoryManager_new_def)
qed

lemma SwapManager_new_ok:
  "\<exists>bm fr. SwapManager_new junk opened s = (case opened of None \<Rightarrow> Inl AssertionFailed
      | Some sw \<Rightarrow> Inr (s\<lparr>frame_flags := bm, swapFrames := fr,
      files := (files s)(sw := \<lparr>f_len = 0, f_byte = (\<lambda>_. 0)\<rparr>), swapFile := sw\<rparr>)) \<and> bm_wf bm \<and>
    numBits bm = NumSwapPages \<and> allocated bm = {} \<and> frames_clear NumSwapPages fr"
proof -
  from BitMap_new_ok obtain bm0 where bm0: "BitMap_new junk NumSwapPages = Inr bm0" "bm_wf bm0"
    "numBits bm0 = NumSwapPages" "allocated bm0 = {}" by blast
  have "k \<le> NumSwapPages \<Longrightarrow> \<exists>bm fr. fold_res clear_swap_frame [0..<k] (s\<lparr>frame_flags := bm0\<rparr>) =
      Inr (s\<lparr>frame_flags := bm, swapFrames := fr\<rparr>) \<and> bm_wf bm \<and> numBits bm = NumSwapPages \<and> allocated bm = {} \<and>
      frames_clear k fr" for k
  proof (induction k)
    case 0
    show ?case using bm0 by (intro exI [of _ bm0] exI [of _ "swapFrames s"]) (simp add: frames_clear_def)
  next
    case (Suc k)
    then obtain bm fr where t: "fold_res clear_swap_frame [0..<k] (s\<lparr>frame_flags := bm0\<rparr>) =
        Inr (s\<lparr>frame_flags := bm, swapFrames := fr\<rparr>)" "bm_wf bm" "numBits bm = NumSwapPages" "allocated bm = {}"
        "frames_clear k fr" by auto
    with Clear_spec [of bm k] Suc.prems obtain bm' where
      "Clear bm (int k) = Inr bm'" "bm_wf bm'" "numBits bm' = NumSwapPages" "allocated bm' = {}" by auto
    moreover from this have "clear_swap_frame k (s\<lparr>frame_flags := bm, swapFrames := fr\<rparr>) = Inr (s\<lparr>frame_flags := bm',
        swapFrames := fr(k := (fr k)\<lparr>owners := None, numOwners := 0\<rparr>)\<rparr>)" by (simp add: clear_swap_frame_def)
    ultimately show ?case using t
      by (intro exI [of _ bm'] exI [of _ "fr(k := (fr k)\<lparr>owners := None, numOwners := 0\<rparr>)"])
        (simp add: fold_res_append frames_clear_def less_Suc_eq fun_upd_def)
  qed
  from this [of NumSwapPages] obtain bm fr where
    "fold_res clear_swap_frame [0..<NumSwapPages] (s\<lparr>frame_flags := bm0\<rparr>) = Inr (s\<lparr>frame_flags := bm, swapFrames := fr\<rparr>)"
    "bm_wf bm" "numBits bm = NumSwapPages" "allocated bm = {}" "frames_clear NumSwapPages fr" by blast
  then show ?thesis using bm0(1)
    by (intro exI [of _ bm] exI [of _ fr]) (simp add: SwapManager_new_def split: option.split)
qed

text \<open>
  C10: the constructor of the memory manager raises no fault, whatever the heap held. That of the
  swap manager raises none when the swap file can be opened; when \<open>Open\<close> returns NULL its assertion
  fails. With the file open and before the first address space exists, the two establish the
  invariant of demand paging with every frame and every swap frame free.
\<close>

theorem boot_vm_inv:
  "\<exists>s1 s2. MemoryManager_new junk (s\<lparr>spaces := Map.empty\<rparr>) = Inr s1 \<and>
    SwapManager_new junk' None s1 = Inl AssertionFailed \<and> SwapManager_new junk' (Some sw) s1 = Inr s2 \<and>
    vm_inv s2 \<and> swapFile s2 = sw \<and> allocated (page_flags s2) = {} \<and> allocated (frame_flags s2) = {}"
proof -
  let ?s0 = "s\<lparr>spaces := Map.empty\<rparr>"
  from MemoryManager_new_ok [of junk ?s0] obtain bm fr where
    m: "MemoryManager_new junk ?s0 = Inr (?s0\<lparr>page_flags := bm, Frames := fr\<rparr>)" "bm_wf bm"
      "numBits bm = NumPhysPages" "allocated bm = {}" "frames_clear NumPhysPages fr" by blast
  let ?s1 = "?s0\<lparr>page_flags := bm, Frames := fr\<rparr>"
  from SwapManager_new_ok [of junk' "Some sw" ?s1] obtain bs fs where
    w: "SwapManager_new junk' (Some sw) ?s1 = Inr (?s1\<lparr>frame_flags := bs, swapFrames := fs,
        files := (files ?s1)(sw := \<lparr>f_len = 0, f_byte = (\<lambda>_. 0)\<rparr>), swapFile := sw\<rparr>)" "bm_wf bs"
      "numBits bs = NumSwapPages" "allocated bs = {}" "frames_clear NumSwapPages fs" by auto
  from SwapManager_new_ok [of junk' None ?s1] have n: "SwapManager_new junk' None ?s1 = Inl AssertionFailed" by auto
  let ?s2 = "?s1\<lparr>frame_flags := bs, swapFrames := fs,
        files := (files ?s1)(sw := \<lparr>f_len = 0, f_byte = (\<lambda>_. 0)\<rparr>), swapFile := sw\<rparr>"
  have "alloc_inv ?s2" using m w by (simp add: alloc_inv_def frames_clear_def record_ok_def)
  moreover have "owner_inv ?s2" "share_inv ?s2" "content_inv {} ?s2"
    using m(5) w(5) by (simp_all add: owner_inv_def share_inv_def content_inv_def ent_def maps_def swapped_def
        frame_owner_def frames_clear_def)
  ultimately have "vm_inv ?s2" by (simp add: vm_inv_except_def)
  with m w n show ?thesis by auto
qed

end
