(* ===== verification/VM_Properties.thy ===== *)
theory VM_Properties
  imports VM_Cow VM_Fork VM_Boot
begin

text \<open>
  What demand paging, sharing and replacement guarantee, stated over the code's definitions, with
  each theorem applied to one concrete state: two processes that share a dirty page in frame 0
  copy-on-write, a second page that has never been touched, and a third process about to be
  filled by \<open>CopyFrom\<close>.
\<close>

section \<open>A concrete state\<close>

definition zero_entry :: "nat \<Rightarrow> TranslationEntry" where
  "zero_entry v = (SetupTable_entry v)\<lparr>te_zero := True\<rparr>"

definition shared_entry :: TranslationEntry where
  "shared_entry = (zero_entry 0)\<lparr>valid := True, dirty := True, cow := True\<rparr>"

definition sample_space :: "nat \<Rightarrow> TranslationEntry list \<Rightarrow> AddrSpace" where
  "sample_space ow pt = \<lparr>as_owner = ow, wSetSize = 4, pageTable = pt, numPages = length pt,
     execFile = None, startAddress = 0\<rparr>"

definition sample_vm :: "'a \<Rightarrow> 'a vm_scheme" where
  "sample_vm x = \<lparr>mainMemory = (\<lambda>a. of_nat a), page_flags = \<lparr>numBits = NumPhysPages, numWords = 4, bm_map = [1, 0, 0, 0]\<rparr>,
     Frames = (\<lambda>_. empty_frame 0)(0 := \<lparr>owners = Some [1, 2], numOwners = 2, owners_page_number = 0\<rparr>),
     dumb_i = 87, frame_flags = \<lparr>numBits = NumSwapPages, numWords = 128, bm_map = replicate 128 0\<rparr>,
     swapFrames = (\<lambda>_. empty_frame 0), swapFile = 0, files = (\<lambda>_. \<lparr>f_len = 0, f_byte = (\<lambda>_. 0)\<rparr>),
     spaces = [1 \<mapsto> sample_space 1 [shared_entry, zero_entry 1], 2 \<mapsto> sample_space 2 [shared_entry, zero_entry 1],
       3 \<mapsto> sample_space 3 []],
     currentThread = 1, currentSpace = Some 1, pageReplPolicy = FIFO, totalTicks = 0, numPageIns = 0,
     numPageOuts = 0, procPageIns = (\<lambda>_. 0), procPageOuts = (\<lambda>_. 0), \<dots> = x\<rparr>"

lemma sample_ent:
  "ent (spaces (sample_vm x)) ow w = (if ow = 1 \<or> ow = 2
     then if w = 0 then Some shared_entry else if w = 1 then Some (zero_entry 1) else None else None)"
  by (auto simp: ent_def sample_vm_def sample_space_def less_Suc_eq)

lemma sample_fields [simp]:
  "valid shared_entry" "physicalPage shared_entry = 0" "dirty shared_entry" "cow shared_entry"
  "te_zero shared_entry" "te_File shared_entry = None" "\<not> valid (zero_entry v)" "te_zero (zero_entry v)"
  "te_File (zero_entry v) = None"
  by (simp_all add: shared_entry_def zero_entry_def SetupTable_entry_def)

lemma sample_maps: "maps (sample_vm x) ow w f \<longleftrightarrow> (ow = 1 \<or> ow = 2) \<and> w = 0 \<and> f = 0"
  by (auto simp: maps_def sample_ent split: if_splits)

lemma sample_swapped: "\<not> swapped (sample_vm x) ow w k"
  by (auto simp: swapped_def sample_ent split: if_splits)

lemma sample_allocated: "allocated (page_flags (sample_vm x)) = {0}" "allocated (frame_flags (sample_vm x)) = {}"
proof -
  have "bit ([1, 0, 0, 0 :: uint32] ! (i div 32)) (i mod 32) \<longleftrightarrow> i = 0" if "i < 128" for i
  proof -
    have "i div 32 < 4" using that by simp
    then consider "i div 32 = 0" | "i div 32 = 1" | "i div 32 = 2" | "i div 32 = 3" by linarith
    then show ?thesis
    proof cases
      case 1
      then have "i mod 32 = i" by simp
      with 1 show ?thesis by (simp add: bit_1_iff)
    qed auto
  qed
  then show "allocated (page_flags (sample_vm x)) = {0}"
    by (auto simp: allocated_def sample_vm_def NumPhysPages_def BitsInWord_def)
  have "i div 32 < 128" if "i < 4096" for i :: nat using that by simp
  then show "allocated (frame_flags (sample_vm x)) = {}"
    by (auto simp: allocated_def sample_vm_def NumSwapPages_def BitsInWord_def)
qed

lemma sample_frames:
  "Frames (sample_vm x) 0 = \<lparr>owners = Some [1, 2], numOwners = 2, owners_page_number = 0\<rparr>"
  "f \<noteq> 0 \<Longrightarrow> Frames (sample_vm x) f = empty_frame 0" "swapFrames (sample_vm x) k = empty_frame 0"
  "currentSpace (sample_vm x) = Some 1" "swapFile (sample_vm x) = 0"
  by (simp_all add: sample_vm_def)

lemma sample_inv: "vm_inv (sample_vm x)"
  unfolding vm_inv_except_def
proof (intro conjI)
  have "bm_wf (page_flags (sample_vm x))" "numBits (page_flags (sample_vm x)) = NumPhysPages"
    "bm_wf (frame_flags (sample_vm x))" "numBits (frame_flags (sample_vm x)) = NumSwapPages"
    by (simp_all add: sample_vm_def bm_wf_def divRoundUp_def NumPhysPages_def NumSwapPages_def BitsInWord_def)
  moreover have "record_ok (Frames (sample_vm x) f) \<and> (owners (Frames (sample_vm x) f) \<noteq> None \<longrightarrow> f = 0)" for f
    by (cases "f = 0") (simp_all add: sample_frames record_ok_def empty_frame_def)
  ultimately show "alloc_inv (sample_vm x)"
    by (simp add: alloc_inv_def sample_allocated sample_frames(3)) (auto simp: record_ok_def empty_frame_def)
  have "frame_owner (Frames (sample_vm x)) f ow w \<longleftrightarrow> maps (sample_vm x) ow w f" for f ow w
    by (cases "f = 0") (auto simp: frame_owner_def sample_frames sample_maps empty_frame_def)
  moreover have "\<not> frame_owner (swapFrames (sample_vm x)) k ow w" for k ow w
    by (simp add: frame_owner_def sample_frames empty_frame_def)
  moreover have "length (pageTable a) = numPages a" if "spaces (sample_vm x) sid = Some a" for sid a
    using that by (auto simp: sample_vm_def sample_space_def split: if_splits)
  ultimately show "owner_inv (sample_vm x)"
    by (auto simp: owner_inv_def sample_maps sample_swapped sample_ent NumPhysPages_def split: if_splits)
  show "share_inv (sample_vm x)"
    by (auto simp: share_inv_def sample_ent split: if_splits)
  show "content_inv {} (sample_vm x)"
    by (auto simp: content_inv_def sample_ent split: if_splits)
qed

lemma sample_room: "swap_room (sample_vm x)"
  by (auto simp: swap_room_def sample_allocated NumSwapPages_def intro: exI [of _ 0])

lemma sample_ready: "frame_ready (sample_vm x) n"
proof -
  have "TooManyFrames_pt [shared_entry, zero_entry 1] 4 = False"
    by (simp add: TooManyFrames_pt_def NumPhysPagesOwned_def)
  moreover have "\<exists>f<NumPhysPages. f \<notin> allocated (page_flags (sample_vm x))"
    by (auto simp: sample_allocated NumPhysPages_def intro: exI [of _ 1])
  ultimately show ?thesis
    by (auto simp: frame_ready_def) (auto simp: sample_vm_def sample_space_def)
qed


section \<open>Properties\<close>

text \<open>
  C4: paging out any frame that has owners ends without a fault while the swap file has room;
  it keeps the invariant, leaves the frame without owners, touches no other frame, and the
  memory each process sees is what it was.
\<close>

theorem pageout_refines:
  assumes "vm_inv s" "f < NumPhysPages" "owners (Frames s f) \<noteq> None" "swap_room s"
  shows "\<exists>t. pageout s f = Inr t \<and> vm_inv t \<and> same_memory s t \<and>
    owners (Frames t f) = None \<and> (\<forall>g. g \<noteq> f \<longrightarrow> Frames t g = Frames s g)"
proof -
  from pageout_ok [OF assms] obtain t where "pageout s f = Inr t" "vm_inv t" "same_memory s t" "evicted s f t"
    by blast
  then show ?thesis by (auto simp: evicted_def)
qed

theorem pageout_refines_witness:
  "\<exists>t. pageout (sample_vm ()) 0 = Inr t \<and> vm_inv t \<and> same_memory (sample_vm ()) t \<and> owners (Frames t 0) = None"
proof -
  have "0 < NumPhysPages" "owners (Frames (sample_vm ()) 0) \<noteq> None"
    by (simp_all add: NumPhysPages_def sample_frames)
  from pageout_refines [OF sample_inv this sample_room] show ?thesis by blast
qed

text \<open>
  C5: bringing in a page that is not resident and has a backing file or is zero-filled ends
  without a fault when a frame can be had; the page is then resident, the invariant holds and
  the memory each process sees is what it was.
\<close>

theorem pagein_refines:
  assumes "vm_inv s" "ent (spaces s) sid v = Some te" "\<not> valid te" "has_backing te"
    and "frame_ready s (-1)" "swap_room s"
  shows "\<exists>t te'. pagein s v sid = Inr t \<and> vm_inv t \<and> same_memory s t \<and>
    ent (spaces t) sid v = Some te' \<and> valid te'"
proof -
  from pagein_ok [OF assms] obtain t where
    "pagein s v sid = Inr t" "vm_inv t" "same_memory s t" "paged_in s sid v t" by blast
  then show ?thesis by (auto simp: paged_in_def)
qed

theorem pagein_refines_witness:
  "\<exists>t te'. pagein (sample_vm ()) 1 1 = Inr t \<and> vm_inv t \<and> ent (spaces t) 1 1 = Some te' \<and> valid te'"
proof -
  have "ent (spaces (sample_vm ())) 1 1 = Some (zero_entry 1)" "\<not> valid (zero_entry 1)" "has_backing (zero_entry 1)"
    by (simp_all add: sample_ent has_backing_def)
  from pagein_refines [OF sample_inv this sample_ready sample_room] show ?thesis by blast
qed

text \<open>
  C6: \<open>duplicatePage\<close> gives the running process a private copy of a resident page: the page moves to a
  frame that no other page of any process maps and is no longer copy-on-write, and the memory
  each process sees is what it was. The invariant holds, the copy itself being exempt from the
  condition on clean pages until the write that caused the copy marks it dirty.
\<close>

theorem duplicatePage_private:
  assumes "vm_inv s" "currentSpace s = Some sid" "ent (spaces s) sid v = Some te" "valid te"
    and "frame_ready s (int (physicalPage te))" "swap_room s"
  shows "\<exists>t te'. duplicatePage s sid v = Inr t \<and> vm_inv_except {(sid, v)} t \<and> same_memory s t \<and>
    ent (spaces t) sid v = Some te' \<and> valid te' \<and> \<not> cow te' \<and>
    (\<forall>ow w. maps t ow w (physicalPage te') \<longrightarrow> ow = sid \<and> w = v)"
proof -
  from duplicatePage_ok [OF assms] obtain t where "duplicatePage s sid v = Inr t"
    "vm_inv_except {(sid, v)} t" "same_memory s t" "owns_page t sid v" by blast
  then show ?thesis unfolding owns_page_def by blast
qed

theorem duplicatePage_private_witness:
  "\<exists>t. duplicatePage (sample_vm ()) 1 0 = Inr t \<and> same_memory (sample_vm ()) t"
proof -
  have "ent (spaces (sample_vm ())) 1 0 = Some shared_entry" by (simp add: sample_ent)
  from duplicatePage_private [OF sample_inv sample_frames(4) this _ sample_ready sample_room]
  show ?thesis by auto
qed

text \<open>
  C7: \<open>CopyFrom\<close>, the copying of an address space in \<open>Fork\<close>, shares every page instead of copying it:
  for each page the child's entry has the frame, the file and the place in it of its parent's, and
  when the page is in a frame or in the swap file both entries are copy-on-write afterwards; the
  rest of the parent's entry is as it was. No frame and no swap frame is allocated or freed, and
  no byte of main memory or of a file is written. So the child sees exactly the memory of its
  parent, no other process notices, and the invariant holds.
\<close>

theorem CopyFrom_shares:
  assumes "vm_inv s" "currentSpace s = Some par" "spaces s par = Some p"
    and "spaces s sid = Some a" "numPages a = 0" "sid \<noteq> par"
  shows "\<exists>t. CopyFrom s sid = Inr t \<and> vm_inv t \<and> (\<forall>w k. vbyte t sid w k = vbyte s par w k) \<and>
    (\<forall>ow w k. ow \<noteq> sid \<longrightarrow> vbyte t ow w k = vbyte s ow w k) \<and>
    (\<forall>v p. ent (spaces s) par v = Some p \<longrightarrow> (\<exists>c. ent (spaces t) sid v = Some c \<and>
       valid c = valid p \<and> physicalPage c = physicalPage p \<and> te_File c = te_File p \<and>
       te_offset c = te_offset p \<and> te_zero c = te_zero p \<and> dirty c = dirty p \<and> readOnly c = readOnly p \<and>
       cow c = (cow p \<or> valid p \<or> te_File p = Some (swapFile s)) \<and>
       ent (spaces t) par v = Some (p\<lparr>cow := cow c\<rparr>))) \<and>
    page_flags t = page_flags s \<and> frame_flags t = frame_flags s \<and>
    mainMemory t = mainMemory s \<and> files t = files s"
proof -
  from CopyFrom_ok [OF assms] obtain t where t: "CopyFrom s sid = Inr t" "vm_inv t"
    "\<forall>w k. vbyte t sid w k = vbyte s par w k" "\<forall>ow w k. ow \<noteq> sid \<longrightarrow> vbyte t ow w k = vbyte s ow w k"
    "nothing_copied s t" "\<forall>v. shared_page s par sid v t" by blast
  have "te_File (CopyPageTable_entry p) = te_File p \<and> te_offset (CopyPageTable_entry p) = te_offset p \<and>
    te_zero (CopyPageTable_entry p) = te_zero p \<and> dirty (CopyPageTable_entry p) = dirty p" for p
    using CopyPageTable_entry_fields(3) [of p, unfolded backing_attrs_fields] by blast
  with t(6) have e: "\<forall>v p. ent (spaces s) par v = Some p \<longrightarrow> (\<exists>c. ent (spaces t) sid v = Some c \<and>
       valid c = valid p \<and> physicalPage c = physicalPage p \<and> te_File c = te_File p \<and>
       te_offset c = te_offset p \<and> te_zero c = te_zero p \<and> dirty c = dirty p \<and> readOnly c = readOnly p \<and>
       cow c = (cow p \<or> valid p \<or> te_File p = Some (swapFile s)) \<and>
       ent (spaces t) par v = Some (p\<lparr>cow := cow c\<rparr>))"
    by (simp add: shared_page_def cow_entry_def in_play_def)
  show ?thesis
    by (intro exI [of _ t] conjI t(1-4) e) (use t(5) in \<open>simp_all add: nothing_copied_def\<close>)
qed

theorem CopyFrom_shares_witness:
  "\<exists>t c. CopyFrom (sample_vm ()) 3 = Inr t \<and> vm_inv t \<and> (\<forall>k. vbyte t 3 0 k = vbyte (sample_vm ()) 1 0 k) \<and>
    ent (spaces t) 3 0 = Some c \<and> valid c \<and> cow c \<and> physicalPage c = physicalPage shared_entry"
proof -
  have "spaces (sample_vm ()) 1 = Some (sample_space 1 [shared_entry, zero_entry 1])"
    "spaces (sample_vm ()) 3 = Some (sample_space 3 [])" "numPages (sample_space 3 []) = 0" "(3::nat) \<noteq> 1"
    by (simp_all add: sample_vm_def sample_space_def)
  from CopyFrom_shares [OF sample_inv sample_frames(4) this] obtain t where
    t: "CopyFrom (sample_vm ()) 3 = Inr t" "vm_inv t" "\<forall>w k. vbyte t 3 w k = vbyte (sample_vm ()) 1 w k"
    and e: "\<And>p. ent (spaces (sample_vm ())) 1 0 = Some p \<Longrightarrow> \<exists>c. ent (spaces t) 3 0 = Some c \<and>
      valid c = valid p \<and> physicalPage c = physicalPage p \<and>
      cow c = (cow p \<or> valid p \<or> te_File p = Some (swapFile (sample_vm ())))" by metis
  have "ent (spaces (sample_vm ())) 1 0 = Some shared_entry" "valid shared_entry" by (simp_all add: sample_ent)
  with e [of shared_entry] t show ?thesis by auto
qed

text \<open>
  C8: the destructor of an address space releases its frames and swap frames without a fault and
  keeps the invariant; no other process's memory changes. (The fragment that clears
  copy-on-write bits looks at the frame of page 0 in every round; that frame must be a real
  one, and then it does no harm.)
\<close>

theorem AddrSpace_delete_safe:
  assumes "vm_inv s" "spaces s sid = Some a"
    and "\<forall>te. ent (spaces s) sid 0 = Some te \<longrightarrow> physicalPage te < NumPhysPages"
  shows "\<exists>t. AddrSpace_delete s sid = Inr t \<and> vm_inv t \<and> spaces t sid = None \<and>
    (\<forall>ow w i. ow \<noteq> sid \<longrightarrow> vbyte t ow w i = vbyte s ow w i)"
  using AddrSpace_delete_ok [OF assms(1,2)] assms(3) by blast

theorem AddrSpace_delete_safe_witness:
  "\<exists>t. AddrSpace_delete (sample_vm ()) 2 = Inr t \<and> vm_inv t \<and> (\<forall>i. vbyte t 1 0 i = vbyte (sample_vm ()) 1 0 i)"
proof -
  have a: "spaces (sample_vm ()) 2 = Some (sample_space 2 [shared_entry, zero_entry 1])"
    by (simp add: sample_vm_def)
  have "\<forall>te. ent (spaces (sample_vm ())) 2 0 = Some te \<longrightarrow> physicalPage te < NumPhysPages"
    by (simp add: sample_ent NumPhysPages_def)
  from AddrSpace_delete_safe [OF sample_inv a this] show ?thesis by (auto intro: exI)
qed

text \<open>
  \<open>Dumb_Choose_Victim\<close>, a loop on a counter that advances by 17 modulo the number of frames,
  ends exactly when some frame other than the protected one has owners, and then returns such
  a frame; otherwise it runs forever, whatever the fuel.
\<close>

theorem Dumb_victim_iff:
  "(if \<exists>f. evictable (Frames s) notMe f
    then \<exists>v. Dumb_Choose_Victim s notMe = Inr (int v, s\<lparr>dumb_i := v\<rparr>) \<and> evictable (Frames s) notMe v
    else \<forall>fuel. Dumb_loop fuel (Frames s) notMe (dumb_i s) = Inl Diverges)"
proof (cases "\<exists>f. evictable (Frames s) notMe f")
  case True
  then obtain v where "Dumb_loop NumPhysPages (Frames s) notMe (dumb_i s) = Inr v" "evictable (Frames s) notMe v"
    using Dumb_loop_finds by blast
  with True show ?thesis by (auto simp: Dumb_Choose_Victim_def)
qed (use Dumb_loop_diverges in auto)

text \<open>
  C9: the policy in force, whichever of the four it is, names a frame that has owners and is not
  the protected one, and changes nothing but reference bits and its own counter: the invariant
  and the memory of every process stay.
\<close>

theorem Choose_Victim_safe:
  assumes "vm_inv s" "victim_ready s notMe" "-1 \<le> notMe" "notMe < int NumPhysPages"
  shows "\<exists>v t. Choose_Victim s notMe = Inr (int v, t) \<and> v < NumPhysPages \<and> int v \<noteq> notMe \<and>
    owners (Frames s v) \<noteq> None \<and> Frames t = Frames s \<and> vm_inv t \<and> same_memory s t"
proof -
  from Choose_Victim_ok [OF assms] obtain v t where
    v: "Choose_Victim s notMe = Inr (int v, t)" "evictable (Frames s) notMe v" and ch: "chosen s t" by blast
  with chosen_same(1-3) [OF ch] assms(1) show ?thesis by (auto simp: evictable_def)
qed

theorem Choose_Victim_safe_witness: "\<exists>t. Choose_Victim (sample_vm ()) (-1) = Inr (0, t)"
proof -
  have ev: "evictable (Frames (sample_vm ())) (-1) 0" by (simp add: evictable_def sample_frames NumPhysPages_def)
  have "\<not> TooManyFrames_pt [shared_entry, zero_entry 1] 4"
    by (simp add: TooManyFrames_pt_def NumPhysPagesOwned_def)
  with ev have "victim_ready (sample_vm ()) (-1)"
    by (auto simp: victim_ready_def evictable_def) (auto simp: sample_vm_def sample_space_def)
  from Choose_Victim_safe [OF sample_inv this] obtain v t where
    v: "Choose_Victim (sample_vm ()) (-1) = Inr (int v, t)" "owners (Frames (sample_vm ()) v) \<noteq> None"
    by (auto simp: NumPhysPages_def)
  from v(2) have "v = 0" by (cases "v = 0") (simp_all add: sample_frames empty_frame_def)
  with v(1) show ?thesis by auto
qed

end
