(* ===== verification/Machine_Properties.thy ===== *)
theory Machine_Properties
  imports Machine_Access VM_Properties
begin

text \<open>
  What a user program can rely on when it touches memory, stated over \<open>ReadMem\<close>, \<open>WriteMem\<close> and the
  kernel's exception handler.
\<close>

section \<open>A concrete machine\<close>

definition sample_machine :: machine where
  "sample_machine = sample_vm \<lparr>registers = (\<lambda>_. 0), breakpoints = [], mstatus = UserMode, userTicks = 0,
     ticksAtLastPageFault = 0, numPageFaults = 0, procPageFaults = (\<lambda>_. 0)\<rparr>"

lemma sample_machine_facts:
  "vm_inv sample_machine" "currentSpace sample_machine = Some 1" "breakpoints sample_machine = []"
  "ent (spaces sample_machine) 1 0 = Some shared_entry"
  "ent (spaces sample_machine) 1 1 = Some (zero_entry 1)" "frame_ready sample_machine n"
  "swap_room sample_machine" "registers sample_machine i = 0"
  unfolding sample_machine_def
  by (simp_all add: sample_inv sample_frames sample_ent sample_ready sample_room) (simp_all add: sample_vm_def)

section \<open>Little-endian values\<close>

lemma bit_le_read: "bit (le_read m p n) k \<longleftrightarrow> k < 8 * n \<and> k < 32 \<and> bit (m (p + k div 8)) (k mod 8)"
proof (induction n)
  case (Suc n)
  have *: "8 * n \<le> k \<and> k < 8 * Suc n \<longleftrightarrow> k div 8 = n"
    using less_eq_div_iff_mult_less_eq [of 8 n k] div_less_iff_less_mult [of 8 k "Suc n"]
    by (auto simp: mult.commute)
  show ?case
  proof (cases "k div 8 = n")
    case True
    with * have "8 * n \<le> k" "k < 8 * Suc n" "\<not> k < 8 * n" "k - 8 * n = k mod 8"
      by (auto simp: minus_mod_eq_mult_div [symmetric])
    with True Suc show ?thesis by (auto simp: bit_or_iff bit_push_bit_iff bit_ucast_iff)
  next
    case False
    with * have "k < 8 * n \<longleftrightarrow> k < 8 * Suc n" by auto
    moreover have "\<not> (8 * n \<le> k \<and> bit (ucast (m (p + n)) :: uint32) (k - 8 * n))"
    proof
      assume a: "8 * n \<le> k \<and> bit (ucast (m (p + n)) :: uint32) (k - 8 * n)"
      then have "k - 8 * n < 8" by (auto simp: bit_ucast_iff dest: bit_imp_le_length)
      with a * False show False by linarith
    qed
    ultimately show ?thesis using Suc by (auto simp: bit_or_iff bit_push_bit_iff)
  qed
qed simp

lemma le_read_write: "le_read (\<lambda>a. if p \<le> a \<and> a < p + n then ucast (drop_bit (8 * (a - p)) v) else m a) p n =
    take_bit (8 * n) v"
proof (rule bit_word_eqI)
  fix k assume k: "k < LENGTH(32)"
  have "k div 8 < n \<longleftrightarrow> k < 8 * n" by (simp add: div_less_iff_less_mult mult.commute)
  moreover have "k mod 8 < 8" by simp
  moreover have "8 * (k div 8) + k mod 8 = k" by simp
  ultimately show "bit (le_read (\<lambda>a. if p \<le> a \<and> a < p + n then ucast (drop_bit (8 * (a - p)) v) else m a) p n) k =
      bit (take_bit (8 * n) v) k"
    using k by (auto simp: bit_le_read bit_take_bit_iff bit_ucast_iff bit_drop_bit_eq)
qed


section \<open>Properties\<close>

text \<open>
  A read of 1, 2 or 4 aligned bytes from a resident page succeeds and returns the
  little-endian value of those bytes of the running process's virtual memory; registers,
  invariant and every process's memory stay as they were.
\<close>

theorem ReadMem_correct:
  assumes "vm_inv s" "currentSpace s = Some sid" "breakpoints s = []"
    and "ent (spaces s) sid (unat addr div PageSize) = Some te" "valid te"
    and "\<not> misaligned addr sz" "access_size sz"
  shows "\<exists>t. ReadMem handler addr sz 0 s =
      Inr (True, take_bit (8 * sz) (le_read (\<lambda>a. the (umem s sid a)) (unat addr) sz), t) \<and>
    vm_inv t \<and> umem t = umem s \<and> registers t = registers s"
  using ReadMem_resident [OF assms(1,2,4-7,3), of handler 0] same_memory_umem
  by (auto simp: store_low_def)

theorem ReadMem_correct_witness:
  "\<exists>v t. ReadMem (ExceptionHandler (\<lambda>_. Inr)) 4 4 0 sample_machine = Inr (True, v, t) \<and> v = 0x07060504"
proof -
  have p: "unat (4 :: uint32) div PageSize = 0" by (simp add: PageSize_def SectorSize_def)
  have al: "\<not> misaligned 4 4" "access_size 4" by (simp_all add: misaligned_def access_size_def)
  have u: "umem sample_machine 1 a = Some (of_nat a)" if "a < 128" for a
    using that sample_machine_facts(4)
    by (simp add: umem_def vbyte_def te_byte_def page_bytes_def PageSize_def SectorSize_def)
      (simp add: sample_machine_def sample_vm_def)
  from ReadMem_correct [OF sample_machine_facts(1-3) _ _ al, of shared_entry "ExceptionHandler (\<lambda>_. Inr)"]
  obtain t where "ReadMem (ExceptionHandler (\<lambda>_. Inr)) 4 4 0 sample_machine =
      Inr (True, take_bit (8 * 4) (le_read (\<lambda>a. the (umem sample_machine 1 a)) (unat (4 :: uint32)) 4), t)"
    using p sample_machine_facts(4) by auto
  moreover have "take_bit (8 * 4) (le_read (\<lambda>a. the (umem sample_machine 1 a)) (unat (4 :: uint32)) 4) = 0x07060504"
  proof -
    have four: "(4 :: nat) = Suc (Suc (Suc (Suc 0)))" by simp
    have "le_read (\<lambda>a. the (umem sample_machine 1 a)) 4 (Suc (Suc (Suc (Suc 0)))) = 0x07060504"
      using u [of 4] u [of 5] u [of 6] u [of 7] by simp
    then show ?thesis by (simp flip: four)
  qed
  ultimately show ?thesis by auto
qed

text \<open>
  C1: with no watchpoint set, a write of 1, 2 or 4 aligned bytes to a resident page changes
  exactly those bytes of the running process's virtual memory to the little-endian bytes of the
  value. The memory of every other process is untouched, also when the page is shared
  copy-on-write, provided that a frame can be found for the copy and the swap file has room; the
  invariant holds afterwards. The entry may be marked \<open>readOnly\<close>: with a page table (no TLB, as
  Nachos is built here) \<open>Translate\<close> never tests that bit, so such a write is isolated from the
  other processes but not refused, against the comment of \<open>translate.h\<close>.
\<close>

theorem WriteMem_isolated:
  assumes "vm_inv s" "currentSpace s = Some sid" "breakpoints s = []"
    and "ent (spaces s) sid (unat addr div PageSize) = Some te" "valid te"
    and "\<not> misaligned addr sz" "access_size sz"
    and "cow te \<longrightarrow> frame_ready s (int (physicalPage te)) \<and> swap_room s"
  shows "\<exists>t. WriteMem handler addr sz value s = Inr (True, t) \<and> vm_inv t \<and> registers t = registers s \<and>
    (\<forall>ow a. umem t ow a =
      (if ow = sid \<and> unat addr \<le> a \<and> a < unat addr + sz
       then Some (ucast (drop_bit (8 * (a - unat addr)) value)) else umem s ow a))"
  using WriteMem_resident [OF assms(1,2,4-7,3), of handler "value"] assms(8) by (auto simp: stored_def)

theorem WriteMem_isolated_witness:
  "\<exists>t. WriteMem (ExceptionHandler (\<lambda>_. Inr)) 8 1 0x5A sample_machine = Inr (True, t) \<and>
    umem t 1 8 = Some 0x5A \<and> umem t 2 8 = umem sample_machine 2 8"
proof -
  have p: "unat (8 :: uint32) div PageSize = 0" by (simp add: PageSize_def SectorSize_def)
  have al: "\<not> misaligned 8 1" "access_size 1" by (simp_all add: misaligned_def access_size_def)
  from WriteMem_isolated [OF sample_machine_facts(1-3) _ _ al, of shared_entry "ExceptionHandler (\<lambda>_. Inr)" "0x5A"]
  obtain t where "WriteMem (ExceptionHandler (\<lambda>_. Inr)) 8 1 0x5A sample_machine = Inr (True, t)"
    "\<forall>ow a. umem t ow a = (if ow = 1 \<and> unat (8 :: uint32) \<le> a \<and> a < unat (8 :: uint32) + 1
       then Some (ucast (drop_bit (8 * (a - unat (8 :: uint32))) (0x5A :: uint32))) else umem sample_machine ow a)"
    using p sample_machine_facts(4,6,7) by auto
  then show ?thesis by auto
qed

text \<open>
  What a write stores, the next read of the same place by the same process returns.
\<close>

theorem WriteMem_ReadMem:
  assumes "vm_inv s" "currentSpace s = Some sid" "breakpoints s = []"
    and "ent (spaces s) sid (unat addr div PageSize) = Some te" "valid te"
    and "\<not> misaligned addr sz" "access_size sz"
    and "cow te \<longrightarrow> frame_ready s (int (physicalPage te)) \<and> swap_room s"
  shows "\<exists>t u. WriteMem handler addr sz value s = Inr (True, t) \<and>
    ReadMem handler addr sz 0 t = Inr (True, take_bit (8 * sz) value, u)"
proof -
  from WriteMem_resident [OF assms(1,2,4-7,3), of handler "value"] assms(8) obtain t te' where
    w: "WriteMem handler addr sz value s = Inr (True, t)" and
    t: "vm_inv t" "currentSpace t = Some sid" "ent (spaces t) sid (unat addr div PageSize) = Some te'"
       "valid te'" "breakpoints t = []"
    and st: "umem t = stored (umem s) sid (unat addr) sz value" by blast
  have "le_read (\<lambda>a. the (umem t sid a)) (unat addr) sz = take_bit (8 * sz) value"
    unfolding st using le_read_write [of "unat addr" sz "value"]
    by (subst le_read_cong [where ?m2.0 = "\<lambda>a. if unat addr \<le> a \<and> a < unat addr + sz
        then ucast (drop_bit (8 * (a - unat addr)) value) else the (umem s sid a)" and ?p2.0 = "unat addr"])
      (simp_all add: stored_def)
  with ReadMem_resident [OF t(1-4) assms(6,7) t(5), of handler 0] w show ?thesis
    by (auto simp: store_low_def)
qed

theorem WriteMem_ReadMem_witness:
  "\<exists>t u. WriteMem (ExceptionHandler (\<lambda>_. Inr)) 8 2 0x12345 sample_machine = Inr (True, t) \<and>
    ReadMem (ExceptionHandler (\<lambda>_. Inr)) 8 2 0 t = Inr (True, 0x2345, u)"
proof -
  have p: "unat (8 :: uint32) div PageSize = 0" by (simp add: PageSize_def SectorSize_def)
  have al: "\<not> misaligned 8 2" "access_size 2" by (simp_all add: misaligned_def access_size_def)
  have "take_bit (8 * 2) (0x12345 :: uint32) = 0x2345" by simp
  with WriteMem_ReadMem [OF sample_machine_facts(1-3) _ _ al, of shared_entry "ExceptionHandler (\<lambda>_. Inr)" "0x12345"]
  show ?thesis using p sample_machine_facts(4,6,7) by simp
qed

text \<open>
  C2: an aligned read or write below address \<open>2 ^ 31\<close>, with no watchpoint set, whose page belongs to
  the running process and is not resident but has a file or zeroes to come from, raises a page
  fault. When a frame can be found and the swap file has room, the handler brings the page in:
  the access reports that it was not done, and control returns with the page resident, the
  program counters unchanged so that the instruction starts again, the invariant and every
  process's memory as they were.
\<close>

theorem page_fault_serviced:
  fixes s :: "'a machine_scheme"
  assumes "vm_inv s" "currentSpace s = Some sid" "breakpoints s = []"
    and "ent (spaces s) sid (unat addr div PageSize) = Some te" "\<not> valid te" "has_backing te"
    and "frame_ready s (-1)" "swap_room s" "unat addr < 2 ^ 31" "unat (registers s LoadReg) < 32"
    and "\<not> misaligned addr sz"
  shows "\<exists>t te'. ReadMem (ExceptionHandler sc) addr sz old s = Inr (False, old, t) \<and>
    WriteMem (ExceptionHandler sc) addr sz value s = Inr (False, t) \<and> vm_inv t \<and> umem t = umem s \<and> ent (spaces t) sid (unat addr div PageSize) = Some te' \<and> valid te' \<and>
    registers t PCReg = registers s PCReg \<and> registers t NextPCReg = registers s NextPCReg"
proof -
  let ?v = "unat addr div PageSize"
  from page_fault_ok [OF assms(1,2,4-10), of sc] obtain t where
    t: "RaiseException (ExceptionHandler sc) PageFaultException addr
      (s\<lparr>registers := (registers s)(BadVAddrReg := of_nat ?v)\<rparr>) = Inr t" "vm_inv t" "same_memory s t"
      "\<exists>te. ent (spaces t) sid ?v = Some te \<and> valid te" "registers t PCReg = registers s PCReg"
      "registers t NextPCReg = registers s NextPCReg" by blast
  from assms(4) obtain a where a: "spaces s sid = Some a" "?v < numPages a" "?v < length (pageTable a)"
      "pageTable a ! ?v = te"
    by (auto simp: ent_def split: option.splits if_splits)
  have tr: "Translate addr sz w s = Inr (PageFaultException, 0,
      s\<lparr>registers := (registers s)(BadVAddrReg := of_nat ?v)\<rparr>)" for w
    using a assms(2,5,11) by (simp add: Translate_def Let_def WriteRegister_def BadVAddrReg_def NumTotalRegs_def)
  from t(1) assms(3) have "ReadMem (ExceptionHandler sc) addr sz old s = Inr (False, old, t)"
    "WriteMem (ExceptionHandler sc) addr sz value s = Inr (False, t)"
    by (simp_all add: tr ReadMem_def WriteMem_def check_watchpoint_def queryBreakpoint_def)
  with t same_memory_umem [OF t(3)] show ?thesis by blast
qed

theorem page_fault_serviced_witness:
  "\<exists>t te'. ReadMem (ExceptionHandler (\<lambda>_. Inr)) 200 4 0 sample_machine = Inr (False, 0, t) \<and>
    WriteMem (ExceptionHandler (\<lambda>_. Inr)) 200 4 7 sample_machine = Inr (False, t) \<and>
    ent (spaces t) 1 1 = Some te' \<and> valid te'"
proof -
  have v: "unat (200 :: uint32) div PageSize = 1" by (simp add: PageSize_def SectorSize_def)
  have "ent (spaces sample_machine) 1 (unat (200 :: uint32) div PageSize) = Some (zero_entry 1)"
    "\<not> valid (zero_entry 1)" "has_backing (zero_entry 1)" "unat (200 :: uint32) < 2 ^ 31"
    "unat (registers sample_machine LoadReg) < 32" "\<not> misaligned 200 4"
    using v sample_machine_facts(5,8) by (simp_all add: has_backing_def misaligned_def)
  from page_fault_serviced [OF sample_machine_facts(1-3) this(1-3) sample_machine_facts(6,7) this(4-6),
      of "\<lambda>_. Inr" 0 7] v show ?thesis by metis
qed

end
