(* ===== verification/Mips_Isolation.thy ===== *)
theory Mips_Isolation
  imports Mips_Exec Machine_Properties
begin

text \<open>
  One instruction of a user program, whatever it is, whether its pages are resident or have to be
  brought in, leaves the memory of all other processes alone and keeps the invariant.
\<close>

section \<open>What the program and the system calls start from\<close>

text \<open>
  The running process \<open>sid\<close> can be served: its pages are resident or backed, within 2 GB, and a frame
  and a swap frame can be found.
\<close>

definition user_ready :: "nat \<Rightarrow> 'a machine_scheme \<Rightarrow> bool" where
  "user_ready sid s \<longleftrightarrow>
     vm_inv s \<and> currentSpace s = Some sid \<and> breakpoints s = [] \<and> unat (registers s LoadReg) < 32 \<and>
     swap_room s \<and> (\<forall>n. frame_ready s n) \<and>
     (\<forall>v te. ent (spaces s) sid v = Some te \<longrightarrow> (valid te \<or> has_backing te) \<and> v * PageSize < 2 ^ 31)"

definition isolated :: "nat \<Rightarrow> 'a machine_scheme \<Rightarrow> 'a machine_scheme \<Rightarrow> bool" where
  "isolated sid s t \<longleftrightarrow>
     vm_inv t \<and> (\<forall>ow. ow \<noteq> sid \<longrightarrow> umem t ow = umem s ow) \<and> currentSpace t = Some sid \<and>
     breakpoints t = [] \<and> unat (registers t LoadReg) < 32"

text \<open>The instruction word at the program counter, wherever its page is.\<close>

definition fetched :: "nat \<Rightarrow> 'a machine_scheme \<Rightarrow> uint32" where
  "fetched sid s = le_read (\<lambda>a. the (umem s sid a)) (unat (registers s PCReg)) 4"

lemma user_ready_isolated: "user_ready sid s \<Longrightarrow> isolated sid s s"
  by (simp add: user_ready_def isolated_def)

text \<open>A read only marks the page; what decides whether a frame can be found stays.\<close>

definition paging_key :: "TranslationEntry \<Rightarrow> bool \<times> nat \<times> uint32" where
  "paging_key te = (valid te, physicalPage te, load_time te)"

lemma paging_key_choice:
  assumes "map paging_key pt = map paging_key pt'"
  shows "TooManyFrames_pt pt w = TooManyFrames_pt pt' w" "can_choose pt n = can_choose pt' n"
proof -
  have "map valid pt = map valid pt'"
    using arg_cong [OF assms, of "map fst"] by (simp add: paging_key_def comp_def)
  then have "length (filter id (map valid pt)) = length (filter id (map valid pt'))" by simp
  then show "TooManyFrames_pt pt w = TooManyFrames_pt pt' w"
    by (simp add: TooManyFrames_pt_def NumPhysPagesOwned_filter filter_map comp_def)
  have c: "can_choose p n \<longleftrightarrow> (\<exists>k \<in> set (map paging_key p). fst k \<and> fst (snd k) \<noteq> to_uint n) \<and>
      (\<forall>k \<in> set (map paging_key p). fst k \<and> fst (snd k) \<noteq> to_uint n \<longrightarrow> snd (snd k) < 0xFFFFFFFF)" for p
    by (simp add: can_choose_def eligible_def paging_key_def)
  show "can_choose pt n = can_choose pt' n" unfolding c assms ..
qed

lemma frame_ready_touch:
  fixes s :: "'a machine_scheme"
  shows "frame_ready (s\<lparr>spaces := upd_spaces {sid} v (touch False) (spaces s)\<rparr>) n = frame_ready s n"
proof -
  have k: "map paging_key (pt[v := touch False (pt ! v)]) = map paging_key pt" for pt
  proof (cases "v < length pt")
    case True
    then show ?thesis by (simp add: map_update list_update_same_conv paging_key_def touch_def)
  qed (simp add: list_update_beyond)
  note same = paging_key_choice [OF k]
  show ?thesis
    by (cases "currentSpace s"; cases "spaces s (the (currentSpace s))")
      (auto simp: frame_ready_def victim_ready_def upd_spaces_def same)
qed

section \<open>Memory accesses\<close>

lemma store_low_4: "store_low 4 x y = y"
  using take_bit_length_eq [of y] by (simp add: store_low_def)

abbreviation kernel :: "(uint32 \<Rightarrow> 'a machine_scheme \<Rightarrow> 'a machine_scheme res) \<Rightarrow> 'a handler" where
  "kernel sc \<equiv> ExceptionHandler sc"

lemma raise_kills:
  fixes s :: "'a machine_scheme"
  assumes "unat (registers s LoadReg) < 32" "which \<noteq> SyscallException" "which \<noteq> PageFaultException"
  shows "RaiseException (kernel sc) which bad s = Inl Finished"
proof -
  have "unat (registers (s\<lparr>registers := (registers s)(BadVAddrReg := bad)\<rparr>) LoadReg) < NumTotalRegs"
    using assms(1) by (simp add: reg_defs)
  from DelayedLoad_vm [OF this, of 0 0] obtain r where
    "DelayedLoad 0 0 (s\<lparr>registers := (registers s)(BadVAddrReg := bad)\<rparr>) =
      Inr (s\<lparr>registers := (registers s)(BadVAddrReg := bad)\<rparr>\<lparr>registers := r\<rparr>)" by metis
  then show ?thesis
    using assms(2,3)
    by (cases which) (simp_all add: RaiseException_def ExceptionHandler_def ReadRegister_def NumTotalRegs_def)
qed

lemma user_space:
  assumes "user_ready sid s"
  obtains a where "spaces s sid = Some a" "length (pageTable a) = numPages a"
    "\<And>v. v < numPages a \<Longrightarrow> ent (spaces s) sid v = Some (pageTable a ! v)"
proof -
  from assms obtain a where a: "spaces s sid = Some a"
    by (auto simp: user_ready_def frame_ready_def victim_ready_def)
  from assms have "vm_inv s" by (simp add: user_ready_def)
  from that [OF a] wf_ent [OF this a] show thesis by blast
qed

lemma user_low:
  assumes "user_ready sid s" "ent (spaces s) sid (unat addr div PageSize) = Some te"
  shows "unat addr < 2 ^ 31"
proof -
  have "unat addr div PageSize * PageSize < 2 ^ 31" using assms by (auto simp: user_ready_def)
  then have "unat addr div 128 * 128 < 2 ^ 24 * 128" by (simp add: PageSize_def SectorSize_def)
  then have "unat addr div 128 < 2 ^ 24" by simp
  then show ?thesis by (simp add: div_less_iff_less_mult)
qed

lemma Translate_outcome:
  fixes s :: "'a machine_scheme"
  assumes ready: "user_ready sid s"
  obtains (bad) "Translate addr sz writing s = Inr (AddressErrorException, 0, s)"
  | (resident) te where "\<not> misaligned addr sz" "ent (spaces s) sid (unat addr div PageSize) = Some te" "valid te"
  | (absent) t where "Translate addr sz writing s = Inr (PageFaultException, 0,
        s\<lparr>registers := (registers s)(BadVAddrReg := of_nat (unat addr div PageSize))\<rparr>)"
      "RaiseException (kernel sc) PageFaultException addr
        (s\<lparr>registers := (registers s)(BadVAddrReg := of_nat (unat addr div PageSize))\<rparr>) = Inr t"
      "isolated sid s t" "umem t = umem s"
      "registers t PCReg = registers s PCReg" "registers t NextPCReg = registers s NextPCReg"
proof -
  let ?v = "unat addr div PageSize"
  from ready have cur: "currentSpace s = Some sid" and inv: "vm_inv s" and bp: "breakpoints s = []"
    and ld: "unat (registers s LoadReg) < 32" and fr: "frame_ready s (-1)" "swap_room s"
    by (simp_all add: user_ready_def)
  from user_space [OF ready] obtain a where a: "spaces s sid = Some a" "length (pageTable a) = numPages a"
    "\<And>v. v < numPages a \<Longrightarrow> ent (spaces s) sid v = Some (pageTable a ! v)" by blast
  consider "misaligned addr sz" | "\<not> misaligned addr sz" "numPages a \<le> ?v"
    | "\<not> misaligned addr sz" "?v < numPages a" "valid (pageTable a ! ?v)"
    | "\<not> misaligned addr sz" "?v < numPages a" "\<not> valid (pageTable a ! ?v)" by linarith
  then show thesis
  proof cases
    case 1
    then show ?thesis by (intro bad) (simp add: Translate_def)
  next
    case 2
    then show ?thesis using a(1) cur by (intro bad) (simp add: Translate_def Let_def)
  next
    case 3
    with a(3) show ?thesis by (intro resident) auto
  next
    case 4
    let ?te = "pageTable a ! ?v"
    have e: "ent (spaces s) sid ?v = Some ?te" using a(3) 4 by blast
    with ready 4 have "has_backing ?te" by (auto simp: user_ready_def)
    from page_fault_ok [OF inv cur e 4(3) this fr user_low [OF ready e] ld, of sc] obtain t where
      t: "RaiseException (kernel sc) PageFaultException addr
        (s\<lparr>registers := (registers s)(BadVAddrReg := of_nat ?v)\<rparr>) = Inr t" "vm_inv t" "same_memory s t"
        "currentSpace t = Some sid" "breakpoints t = breakpoints s" "registers t PCReg = registers s PCReg"
        "registers t NextPCReg = registers s NextPCReg" "registers t LoadReg = 0" by blast
    have "umem t = umem s" using same_memory_umem [OF t(3)] .
    moreover from this t bp have "isolated sid s t" by (simp add: isolated_def)
    moreover have "Translate addr sz writing s = Inr (PageFaultException, 0,
        s\<lparr>registers := (registers s)(BadVAddrReg := of_nat ?v)\<rparr>)"
      using a 4 cur by (simp add: Translate_def Let_def WriteRegister_def BadVAddrReg_def NumTotalRegs_def)
    ultimately show ?thesis using t by (intro absent)
  qed
qed

lemma no_watchpoint: "breakpoints s = [] \<Longrightarrow> check_watchpoint handler addr sz type s = Inr s"
  by (simp add: check_watchpoint_def queryBreakpoint_def)

lemma ReadMem_outcome:
  fixes s :: "'a machine_scheme"
  assumes ready: "user_ready sid s" and sz: "access_size sz"
  obtains (kill) "ReadMem (kernel sc) addr sz old s = Inl Finished"
  | (fault) t where "ReadMem (kernel sc) addr sz old s = Inr (False, old, t)" "isolated sid s t" "umem t = umem s"
      "registers t PCReg = registers s PCReg" "registers t NextPCReg = registers s NextPCReg"
  | (ok) v t where "ReadMem (kernel sc) addr sz old s = Inr (True, v, t)" "user_ready sid t" "isolated sid s t"
      "umem t = umem s" "registers t = registers s"
      "v = store_low sz old (le_read (\<lambda>a. the (umem s sid a)) (unat addr) sz)"
proof -
  from ready have cur: "currentSpace s = Some sid" and inv: "vm_inv s" and bp: "breakpoints s = []"
    and ld: "unat (registers s LoadReg) < 32" by (simp_all add: user_ready_def)
  show thesis
  proof (cases rule: Translate_outcome [OF ready, where addr = addr and sz = sz and writing = False and sc = sc, case_names bad resident absent])
    case bad
    then show ?thesis
      using raise_kills [OF ld, of AddressErrorException sc addr] no_watchpoint [OF bp]
      by (intro kill) (simp add: ReadMem_def)
  next
    case (absent t)
    then show ?thesis by (intro fault [of t]) (simp_all add: ReadMem_def no_watchpoint [OF bp])
  next
    case (resident te)
    let ?t = "s\<lparr>spaces := upd_spaces {sid} (unat addr div PageSize) (touch False) (spaces s)\<rparr>"
    have um: "umem ?t = umem s" by (rule same_memory_umem [OF touched_same(2) [OF inv]])
    have te: "(valid te' \<or> has_backing te') \<and> v * PageSize < 2 ^ 31"
      if "ent (spaces ?t) sid v = Some te'" for v te'
      using that ready resident(2,3) unfolding user_ready_def
      by (cases "v = unat addr div PageSize") (auto simp: touch_def)
    have "frame_ready ?t n" "swap_room ?t" for n
      using ready frame_ready_touch [where s = s] by (simp_all add: user_ready_def swap_room_def)
    with te have "user_ready sid ?t"
      using touched_same(1) [OF inv] cur bp ld by (simp add: user_ready_def)
    moreover have "isolated sid s ?t"
      using touched_same(1) [OF inv] um cur bp ld by (simp add: isolated_def)
    ultimately show ?thesis
      using ReadMem_touch [OF inv cur resident(2,3,1) sz bp] um by (intro ok [of _ ?t]) simp_all
  qed
qed

lemma WriteMem_outcome:
  fixes s :: "'a machine_scheme"
  assumes ready: "user_ready sid s" and sz: "access_size sz"
  obtains (kill) "WriteMem (kernel sc) addr sz x s = Inl Finished"
  | (fault) t where "WriteMem (kernel sc) addr sz x s = Inr (False, t)" "isolated sid s t" "umem t = umem s"
      "registers t PCReg = registers s PCReg" "registers t NextPCReg = registers s NextPCReg"
  | (ok) t where "WriteMem (kernel sc) addr sz x s = Inr (True, t)" "isolated sid s t"
      "umem t = stored (umem s) sid (unat addr) sz x" "registers t = registers s"
proof -
  from ready have cur: "currentSpace s = Some sid" and inv: "vm_inv s" and bp: "breakpoints s = []"
    and ld: "unat (registers s LoadReg) < 32" and fr: "\<And>n. frame_ready s n" "swap_room s"
    by (simp_all add: user_ready_def)
  show thesis
  proof (cases rule: Translate_outcome [OF ready, where addr = addr and sz = sz and writing = True and sc = sc, case_names bad resident absent])
    case bad
    then show ?thesis
      using raise_kills [OF ld, of AddressErrorException sc addr] no_watchpoint [OF bp]
      by (intro kill) (simp add: WriteMem_def)
  next
    case (absent t)
    then show ?thesis by (intro fault [of t]) (simp_all add: WriteMem_def no_watchpoint [OF bp])
  next
    case (resident te)
    from WriteMem_resident [OF inv cur resident(2,3,1) sz bp, of "kernel sc" x] fr obtain t where
      t: "WriteMem (kernel sc) addr sz x s = Inr (True, t)" "vm_inv t"
        "umem t = stored (umem s) sid (unat addr) sz x" "registers t = registers s"
        "currentSpace t = Some sid" "breakpoints t = []" by blast
    then have "isolated sid s t" using ld by (simp add: isolated_def stored_def fun_eq_iff)
    with t show ?thesis by (intro ok)
  qed
qed

section \<open>Every case of the switch\<close>

text \<open>
  How a case may end without going on: the thread is killed by the exception handler, \<open>DIV\<close> traps on
  the least integer by -1, and the unaligned operations fail the simulator's assertion that the
  address is aligned.
\<close>

definition div_traps :: "Instruction \<Rightarrow> 'a machine_scheme \<Rightarrow> bool" where
  "div_traps i s \<longleftrightarrow> opCode i = OP_DIV \<and> registers s (rs i) = SIGN_BIT \<and> registers s (rt i) = -1"

definition unaligned_lr :: "Instruction \<Rightarrow> 'a machine_scheme \<Rightarrow> bool" where
  "unaligned_lr i s \<longleftrightarrow> opCode i \<in> {OP_LWL, OP_LWR, OP_SWL, OP_SWR} \<and>
     (registers s (rs i) + extra i) AND 3 \<noteq> 0"

definition may_end :: "Instruction \<Rightarrow> 'a machine_scheme \<Rightarrow> fault \<Rightarrow> bool" where
  "may_end i s e \<longleftrightarrow> e = Finished \<or> e = ArithmeticTrap \<and> div_traps i s \<or>
     e = AssertionFailed \<and> unaligned_lr i s"

definition good_end :: "nat \<Rightarrow> Instruction \<Rightarrow> 'a machine_scheme \<Rightarrow> 'a machine_scheme step_end res \<Rightarrow> bool" where
  "good_end sid i s r \<longleftrightarrow> (case r of
     Inl e \<Rightarrow> may_end i s e
   | Inr (Return t) \<Rightarrow> isolated sid s t
   | Inr (Leave n v pc t) \<Rightarrow> isolated sid s t \<and> unat n < 32)"

named_theorems ends

lemma isolated_set_reg [ends]: "isolated sid s t \<Longrightarrow> r \<noteq> LoadReg \<Longrightarrow> isolated sid s (set_reg r v t)"
  by (simp add: isolated_def set_reg_def umem_def vbyte_def fun_eq_iff)

lemma isolated_HiLo [ends]: "isolated sid s t \<Longrightarrow> isolated sid s (set_HiLo hi lo t)"
  unfolding set_HiLo_def by (intro ends) (simp_all add: reg_defs)

lemma good_leave [ends]: "isolated sid s t \<Longrightarrow> good_end sid i s (leave pc t)"
  by (simp add: good_end_def leave_def)

lemma good_raise [ends]:
  "user_ready sid s \<Longrightarrow> which \<noteq> SyscallException \<Longrightarrow> which \<noteq> PageFaultException \<Longrightarrow>
   good_end sid i s (raise_return (kernel sc) which bad s)"
  by (simp add: good_end_def raise_return_def raise_kills user_ready_def may_end_def)

lemma good_load:
  assumes "user_ready sid s" "access_size sz"
    and "\<And>v t. user_ready sid t \<Longrightarrow> isolated sid s t \<Longrightarrow> umem t = umem s \<Longrightarrow> good_end sid i s (k v t)"
  shows "good_end sid i s (load_with (kernel sc) tmp sz junk s k)"
  by (cases rule: ReadMem_outcome [OF assms(1,2), where sc = sc and addr = tmp and old = junk])
    (auto simp: load_with_def good_end_def may_end_def dest: assms(3) split: if_splits)

lemma isolated_trans:
  "isolated sid s t \<Longrightarrow> isolated sid t u \<Longrightarrow> isolated sid s u"
  by (simp add: isolated_def)

lemma good_store:
  assumes "user_ready sid t" "isolated sid s t" "access_size sz"
  shows "good_end sid i s (store_leave (kernel sc) addr sz v pc t)"
  by (cases rule: WriteMem_outcome [OF assms(1,3), where sc = sc and addr = addr and x = v])
    (auto simp: store_leave_def good_end_def leave_def may_end_def intro: isolated_trans [OF assms(2)])

lemma sizes [simp]: "access_size 1" "access_size 2" "access_size 4" "access_size (Suc 0)"
  by (simp_all add: access_size_def)

lemma good_if: "(b \<Longrightarrow> good_end sid i s x) \<Longrightarrow> (\<not> b \<Longrightarrow> good_end sid i s y) \<Longrightarrow> good_end sid i s (if b then x else y)"
  by simp

text \<open>The operations each part of the switch handles; together with \<open>misc_ops\<close> they are all there are.\<close>

definition "add_ops = {OP_ADD, OP_ADDI, OP_ADDIU, OP_ADDU, OP_AND, OP_ANDI}"

definition "branch_ops = {OP_BEQ, OP_BGEZAL, OP_BGEZ, OP_BGTZ, OP_BLEZ, OP_BLTZAL, OP_BLTZ, OP_BNE, OP_BREAK}"

definition "div_ops = {OP_DIV, OP_DIVU}"

definition "jump_ops = {OP_JAL, OP_J, OP_JALR, OP_JR}"

definition "load_ops = {OP_LB, OP_LBU, OP_LH, OP_LHU, OP_LUI, OP_LW, OP_LWL, OP_LWR}"

definition "hilo_ops = {OP_MFHI, OP_MFLO, OP_MTHI, OP_MTLO, OP_MULT, OP_MULTU, OP_NOR, OP_OR, OP_ORI}"

definition "store_ops = {OP_SB, OP_SH, OP_SW, OP_SWL, OP_SWR}"

definition "shift_ops = {OP_SLL, OP_SLLV, OP_SLT, OP_SLTI, OP_SLTIU, OP_SLTU, OP_SRA, OP_SRAV, OP_SRL,
  OP_SRLV, OP_SUB, OP_SUBU}"

definition "misc_ops = {OP_SYSCALL, OP_XOR, OP_XORI, OP_RES, OP_UNIMP}"

lemmas op_groups = add_ops_def branch_ops_def div_ops_def jump_ops_def load_ops_def hilo_ops_def
  store_ops_def shift_ops_def misc_ops_def

lemma implemented_groups:
  "implemented \<subseteq> add_ops \<union> branch_ops \<union> div_ops \<union> jump_ops \<union> load_ops \<union> hilo_ops \<union> store_ops \<union> shift_ops \<union> misc_ops"
proof -
  let ?all = "add_ops \<union> branch_ops \<union> div_ops \<union> jump_ops \<union> load_ops \<union> hilo_ops \<union> store_ops \<union> shift_ops \<union> misc_ops"
  have "list_all (\<lambda>x. x \<in> {30, 33, 41} \<union> ?all) [1..<64]"
    by (simp add: upt_rec op_groups op_defs)
  then have "\<forall>x \<in> {1..<64}. x \<in> {30, 33, 41} \<union> ?all" by (simp only: list_all_iff set_upt)
  moreover have "{1..63} = {1..<64 :: nat}" by auto
  ultimately show ?thesis unfolding implemented_def by blast
qed

lemma good_arith:
  fixes s :: "'a machine_scheme"
  assumes "user_ready sid s" "rs i < 32" "rt i < 32" "rd i < 32"
  shows "(opCode i \<notin> add_ops \<Longrightarrow> good_end sid i s rest) \<Longrightarrow> good_end sid i s (exec_add (kernel sc) i pc s rest)"
    "(opCode i \<notin> div_ops \<Longrightarrow> good_end sid i s rest) \<Longrightarrow> good_end sid i s (exec_div i pc s rest)"
    "(opCode i \<notin> jump_ops \<Longrightarrow> good_end sid i s rest) \<Longrightarrow> good_end sid i s (exec_jump i pc s rest)"
    "(opCode i \<notin> hilo_ops \<Longrightarrow> good_end sid i s rest) \<Longrightarrow> good_end sid i s (exec_hilo i pc s rest)"
    "(opCode i \<notin> shift_ops \<Longrightarrow> good_end sid i s rest) \<Longrightarrow> good_end sid i s (exec_shift (kernel sc) i pc s rest)"
proof -
  note iso = user_ready_isolated [OF assms(1)]
  have r: "rt i \<noteq> LoadReg" "rd i \<noteq> LoadReg" "R31 \<noteq> LoadReg" "HiReg \<noteq> LoadReg" "LoReg \<noteq> LoadReg"
    using assms(3,4) by (simp_all add: reg_defs R31_def)
  have T: "div_traps i s \<Longrightarrow> good_end sid i s (Inl ArithmeticTrap)" by (simp add: good_end_def may_end_def)
  have M: "good_end sid i s (case Mult x y b of (hi, lo) \<Rightarrow> leave pc (set_HiLo hi lo s))" for x y b
    by (cases "Mult x y b") (simp add: ends iso)
  note intros = good_if ends iso r assms(1) T M
  show "good_end sid i s (exec_add (kernel sc) i pc s rest)" if "opCode i \<notin> add_ops \<Longrightarrow> good_end sid i s rest"
    unfolding exec_add_def Let_def by (intro intros that; simp add: op_groups)
  show "good_end sid i s (exec_div i pc s rest)" if "opCode i \<notin> div_ops \<Longrightarrow> good_end sid i s rest"
    unfolding exec_div_def Let_def by (intro intros that; simp add: op_groups div_traps_def)
  show "good_end sid i s (exec_jump i pc s rest)" if "opCode i \<notin> jump_ops \<Longrightarrow> good_end sid i s rest"
    unfolding exec_jump_def Let_def by (intro intros that; simp add: op_groups)
  show "good_end sid i s (exec_hilo i pc s rest)" if "opCode i \<notin> hilo_ops \<Longrightarrow> good_end sid i s rest"
    unfolding exec_hilo_def Let_def by (intro intros that; simp add: op_groups)
  show "good_end sid i s (exec_shift (kernel sc) i pc s rest)" if "opCode i \<notin> shift_ops \<Longrightarrow> good_end sid i s rest"
    unfolding exec_shift_def Let_def by (intro intros that; simp add: op_groups)
qed

lemma unat_reg: "r < 32 \<Longrightarrow> unat (of_nat r :: uint32) < 32"
  by (simp add: unat_of_nat take_bit_nat_eq_self)

lemma good_memory:
  fixes s :: "'a machine_scheme"
  assumes "user_ready sid s" "rt i < 32"
  shows "(opCode i \<notin> {OP_LB, OP_LBU, OP_LH, OP_LHU, OP_LUI, OP_LW} \<Longrightarrow> good_end sid i s rest) \<Longrightarrow>
      good_end sid i s (exec_load (kernel sc) junk i pc s rest)"
    "(opCode i \<notin> {OP_LWL, OP_LWR} \<Longrightarrow> good_end sid i s rest) \<Longrightarrow>
      good_end sid i s (exec_lwlr (kernel sc) junk i pc s rest)"
    "(opCode i \<notin> {OP_SB, OP_SH, OP_SW} \<Longrightarrow> good_end sid i s rest) \<Longrightarrow>
      good_end sid i s (exec_store (kernel sc) i pc s rest)"
    "(opCode i \<notin> {OP_SWL, OP_SWR} \<Longrightarrow> good_end sid i s rest) \<Longrightarrow>
      good_end sid i s (exec_swlr (kernel sc) junk i pc s rest)"
proof -
  note iso = user_ready_isolated [OF assms(1)]
  have r: "rt i \<noteq> LoadReg" using assms(2) by (simp add: reg_defs)
  have L: "good_end sid i s (Inr (Leave (of_nat (rt i)) x pc t))" if "isolated sid s t" for x t
    using that unat_reg [OF assms(2)] by (simp add: good_end_def)
  have assert: "good_end sid i s (assert_res b k)"
    if "b \<Longrightarrow> good_end sid i s (k ())" "\<not> b \<Longrightarrow> unaligned_lr i s" for b k
    using that by (cases b) (simp_all add: good_end_def may_end_def)
  note intros = good_if ends iso r assms(1) L good_load good_store assert
  show "good_end sid i s (exec_load (kernel sc) junk i pc s rest)"
    if "opCode i \<notin> {OP_LB, OP_LBU, OP_LH, OP_LHU, OP_LUI, OP_LW} \<Longrightarrow> good_end sid i s rest"
    unfolding exec_load_def Let_def by (intro intros that; simp)
  show "good_end sid i s (exec_lwlr (kernel sc) junk i pc s rest)"
    if "opCode i \<notin> {OP_LWL, OP_LWR} \<Longrightarrow> good_end sid i s rest"
    unfolding exec_lwlr_def Let_def by (intro intros that; simp add: unaligned_lr_def)
  show "good_end sid i s (exec_store (kernel sc) i pc s rest)"
    if "opCode i \<notin> {OP_SB, OP_SH, OP_SW} \<Longrightarrow> good_end sid i s rest"
    unfolding exec_store_def Let_def by (intro intros that; simp)
  show "good_end sid i s (exec_swlr (kernel sc) junk i pc s rest)"
    if "opCode i \<notin> {OP_SWL, OP_SWR} \<Longrightarrow> good_end sid i s rest"
    unfolding exec_swlr_def Let_def by (intro intros that; simp add: unaligned_lr_def)
qed

lemma good_kernel:
  fixes s :: "'a machine_scheme"
  assumes ready: "user_ready sid s" and r: "rt i < 32" "rd i < 32"
  shows "(opCode i \<notin> branch_ops \<Longrightarrow> good_end sid i s rest) \<Longrightarrow> good_end sid i s (exec_branch (kernel sc) i pc s rest)"
    "opCode i \<in> misc_ops \<Longrightarrow> opCode i \<noteq> OP_SYSCALL \<Longrightarrow> good_end sid i s (exec_misc (kernel sc) i pc s)"
proof -
  note iso = user_ready_isolated [OF ready]
  have ld: "unat (registers s LoadReg) < 32" using ready by (simp add: user_ready_def)
  have raise: "good_end sid i s (bind_res (RaiseException (kernel sc) BreakpointException bad s) k)" for bad k
    by (simp add: raise_kills [OF ld] good_end_def may_end_def)
  have nl: "rt i \<noteq> LoadReg" "rd i \<noteq> LoadReg" "R31 \<noteq> LoadReg"
    using r by (simp_all add: reg_defs R31_def)
  note intros = good_if ends raise iso nl ready
  show "good_end sid i s (exec_branch (kernel sc) i pc s rest)"
    if "opCode i \<notin> branch_ops \<Longrightarrow> good_end sid i s rest"
    unfolding exec_branch_def Let_def by (intro intros that; simp add: op_groups)
  assume op: "opCode i \<in> misc_ops" "opCode i \<noteq> OP_SYSCALL"
  have A: "opCode i \<notin> misc_ops \<Longrightarrow> good_end sid i s (Inl AssertionFailed)"
    "opCode i = OP_SYSCALL \<Longrightarrow> good_end sid i s r" for r using op by simp_all
  show "good_end sid i s (exec_misc (kernel sc) i pc s)"
    unfolding exec_misc_def Let_def
    by (rule good_if, erule A(2), intro intros A(1); simp add: op_groups)
qed

lemma good_execute:
  fixes s :: "'a machine_scheme"
  assumes "user_ready sid s" "rs i < 32" "rt i < 32" "rd i < 32" "opCode i \<in> implemented" "opCode i \<noteq> OP_SYSCALL"
  shows "good_end sid i s (execute (kernel sc) junk i pc s)"
proof -
  note misc = good_kernel(2) [OF assms(1,3,4) _ assms(6)]
  show ?thesis
    unfolding execute_def
    by (intro good_arith good_memory good_kernel(1) assms misc)
      (use implemented_groups assms(5) in \<open>auto simp: load_ops_def store_ops_def\<close>)
qed

lemma advance_ok:
  fixes t :: "'a machine_scheme"
  assumes "isolated sid s t" "unat n < 32"
  shows "\<exists>u. advance n v pc t = Inr u \<and> isolated sid s u"
proof -
  have "unat (registers t LoadReg) < NumTotalRegs" using assms(1) by (simp add: isolated_def reg_defs)
  from DelayedLoad_vm [OF this, of n v] obtain r where
    r: "DelayedLoad n v t = Inr (t\<lparr>registers := r\<rparr>)" "r LoadReg = n" by metis
  have "isolated sid s (t\<lparr>registers := r\<rparr>)"
    using assms r(2) by (simp add: isolated_def umem_def vbyte_def fun_eq_iff)
  then show ?thesis
    unfolding advance_def r(1) by (simp, intro ends) (simp_all add: reg_defs)
qed

section \<open>Property\<close>

text \<open>
  C3: one instruction of a user program other than \<open>SYSCALL\<close>, whatever it is and whether its pages are
  resident or have to be brought in. The thread may be killed for an exception. The simulator may
  stop, on \<open>DIV\<close> of the least integer by -1 and on \<open>LWL\<close>, \<open>LWR\<close>, \<open>SWL\<close> or \<open>SWR\<close> at an address that is no
  multiple of 4, and for no other reason. Otherwise it goes on, with the invariant kept and the
  memory of every other process exactly as it was. The process is one that can be served: no
  watchpoint is set, each of its pages is resident or backed and below 2 GB, a frame can always be
  found for it and the swap file has room. Nothing is asked of the system calls, which are not
  reached; they have properties of their own.
\<close>

theorem OneInstruction_isolated:
  fixes s :: "'a machine_scheme"
  assumes "user_ready sid s" "opCode (Decode (fetched sid s)) \<noteq> OP_SYSCALL"
  shows "case OneInstruction (ExceptionHandler sc) junk s of
      Inl e \<Rightarrow> e = Finished \<or> e = ArithmeticTrap \<and> div_traps (Decode (fetched sid s)) s \<or>
        e = AssertionFailed \<and> unaligned_lr (Decode (fetched sid s)) s
    | Inr t \<Rightarrow> vm_inv t \<and> currentSpace t = Some sid \<and> (\<forall>ow. ow \<noteq> sid \<longrightarrow> umem t ow = umem s ow)"
proof (cases rule: ReadMem_outcome [OF assms(1) sizes(3), where sc = sc and addr = "registers s PCReg" and old = junk,
      case_names kill fault ok])
  case kill
  then show ?thesis by (simp add: OneInstruction_def)
next
  case (fault t)
  then show ?thesis by (simp add: OneInstruction_def isolated_def)
next
  case (ok v t)
  let ?i = "Decode (fetched sid s)"
  have v: "v = fetched sid s" using ok(6) by (simp add: fetched_def store_low_4)
  have same: "may_end ?i t = may_end ?i s"
    using ok(5) by (simp add: may_end_def div_traps_def unaligned_lr_def fun_eq_iff)
  from good_execute [OF ok(2), of ?i sc junk "registers t NextPCReg + 4"] Decode_total [of "fetched sid s"] assms(2)
  have g: "good_end sid ?i t (execute (kernel sc) junk ?i (registers t NextPCReg + 4) t)" by simp
  have st: "isolated sid t u \<Longrightarrow> isolated sid s u" for u using ok(4) by (simp add: isolated_def)
  show ?thesis
  proof (cases "execute (kernel sc) junk ?i (registers t NextPCReg + 4) t")
    case (Inl e)
    with g ok(1) same show ?thesis by (simp add: OneInstruction_def good_end_def v may_end_def)
  next
    case (Inr e)
    show ?thesis
    proof (cases e)
      case (Return u)
      with Inr g st [of u] ok(1) show ?thesis by (simp add: OneInstruction_def good_end_def isolated_def v)
    next
      case (Leave n x pc u)
      with Inr g have "isolated sid s u" "unat n < 32" using st by (simp_all add: good_end_def)
      from advance_ok [OF this, of x pc] Inr Leave ok(1) show ?thesis
        by (auto simp: OneInstruction_def isolated_def v)
    qed
  qed
qed

text \<open>The first words of the sample's memory are the bytes 0, 1, 2 and 3: a shift to the left.\<close>

theorem OneInstruction_isolated_witness:
  "case OneInstruction (ExceptionHandler (\<lambda>_. Inr)) 0 sample_machine of
      Inl e \<Rightarrow> e = Finished
    | Inr t \<Rightarrow> vm_inv t \<and> currentSpace t = Some 1 \<and> (\<forall>ow. ow \<noteq> 1 \<longrightarrow> umem t ow = umem sample_machine ow)"
proof -
  have e: "(valid te \<or> has_backing te) \<and> v * PageSize < 2 ^ 31"
    if "ent (spaces sample_machine) 1 v = Some te" for v te
    using that unfolding sample_machine_def sample_ent
    by (auto simp: has_backing_def PageSize_def SectorSize_def split: if_splits)
  with sample_machine_facts have ready: "user_ready 1 sample_machine" by (simp add: user_ready_def)
  have u: "umem sample_machine 1 a = Some (of_nat a)" if "a < 128" for a
    using that sample_machine_facts(4)
    by (simp add: umem_def vbyte_def te_byte_def page_bytes_def PageSize_def SectorSize_def)
      (simp add: sample_machine_def sample_vm_def)
  have four: "(4 :: nat) = Suc (Suc (Suc (Suc 0)))" by simp
  have "le_read (\<lambda>a. the (umem sample_machine 1 a)) 0 (Suc (Suc (Suc (Suc 0)))) = 0x03020100"
    using u [of 0] u [of 1] u [of "Suc (Suc 0)"] u [of "Suc (Suc (Suc 0))"] by simp
  then have w: "fetched 1 sample_machine = 0x03020100"
    by (simp add: fetched_def sample_machine_facts(8) flip: four)
  have i: "opCode (Decode 0x03020100) = OP_SLL"
    by (simp add: Decode_def Decode_op_def field_def opTable_def specialTable_def op_defs)
  from OneInstruction_isolated [OF ready, of "\<lambda>_. Inr" 0] show ?thesis unfolding w i
    by (auto simp: div_traps_def unaligned_lr_def i op_defs split: sum.splits)
qed

end
