(* ===== verification/Mips_Properties.thy ===== *)
theory Mips_Properties
  imports Mips_Isolation
begin

text \<open>
  What the arithmetic instructions compute: overflow detection, division, and the delayed load.
\<close>

section \<open>Signs and overflow\<close>

lemma sign_bit: "x AND SIGN_BIT \<noteq> 0 \<longleftrightarrow> sint x < 0" for x :: uint32
proof -
  have "x AND SIGN_BIT \<noteq> 0 \<longleftrightarrow> bit x 31"
    using and_exp_eq_0_iff_not_bit [of x 31] by (simp add: SIGN_BIT_def)
  also have "\<dots> \<longleftrightarrow> sint x < 0" using bit_uint_iff [of x 31] by (simp add: sint_uint)
  finally show ?thesis .
qed

lemma sign_bit_xor: "(x XOR y) AND SIGN_BIT \<noteq> 0 \<longleftrightarrow> (sint x < 0) \<noteq> (sint y < 0)" for x y :: uint32
proof -
  have b: "z AND SIGN_BIT \<noteq> 0 \<longleftrightarrow> bit z 31" for z :: uint32
    using and_exp_eq_0_iff_not_bit [of z 31] by (simp add: SIGN_BIT_def)
  show ?thesis unfolding b bit_xor_iff sign_bit [symmetric] by simp
qed

definition in_range :: "int \<Rightarrow> bool" where
  "in_range x \<longleftrightarrow> - (2 ^ 31) \<le> x \<and> x < 2 ^ 31"

lemma sint_in_range: "in_range (sint (x :: uint32))"
  using sint_ge [of x] sint_lt [of x] by (simp add: in_range_def)

lemma sint_wrap:
  assumes "- (2 ^ 32) \<le> x" "x < 2 ^ 32"
  shows "sint (word_of_int x :: uint32) =
    (if in_range x then x else if x < 0 then x + 2 ^ 32 else x - 2 ^ 32)"
proof -
  have s: "sint (word_of_int x :: uint32) = (x + 2 ^ 31) mod 2 ^ 32 - 2 ^ 31"
    by (simp add: sint_sbintrunc' signed_take_bit_eq_take_bit_shift take_bit_eq_mod)
  consider "in_range x" | "x < - (2 ^ 31)" | "2 ^ 31 \<le> x" unfolding in_range_def by linarith
  then show ?thesis
  proof cases
    case 1
    then have "(x + 2 ^ 31) mod 2 ^ 32 = x + 2 ^ 31" by (simp add: in_range_def)
    with 1 s show ?thesis by simp
  next
    case 2
    have "(x + 2 ^ 31) mod 2 ^ 32 = (x + 2 ^ 31 + 2 ^ 32) mod 2 ^ 32" by (rule mod_add_self2 [symmetric])
    also have "\<dots> = x + 2 ^ 31 + 2 ^ 32" using 2 assms by simp
    finally show ?thesis using 2 s by (simp add: in_range_def)
  next
    case 3
    have "(x + 2 ^ 31) mod 2 ^ 32 = (x + 2 ^ 31 - 2 ^ 32) mod 2 ^ 32" by (rule minus_mod_self2 [symmetric])
    also have "\<dots> = x + 2 ^ 31 - 2 ^ 32" using 3 assms by simp
    finally show ?thesis using 3 s by (simp add: in_range_def)
  qed
qed

lemma add_overflow:
  "((a XOR b) AND SIGN_BIT = 0 \<and> (a XOR (a + b)) AND SIGN_BIT \<noteq> 0) \<longleftrightarrow> \<not> in_range (sint a + sint b)"
  for a b :: uint32
proof -
  have w: "a + b = word_of_int (sint a + sint b)" by simp
  have r: "in_range (sint a)" "in_range (sint b)" by (rule sint_in_range)+
  then have "sint (a + b) = (if in_range (sint a + sint b) then sint a + sint b
      else if sint a + sint b < 0 then sint a + sint b + 2 ^ 32 else sint a + sint b - 2 ^ 32)"
    unfolding w by (intro sint_wrap) (simp_all add: in_range_def)
  then show ?thesis
    using r sign_bit_xor [of a b] sign_bit_xor [of a "a + b"] by (auto simp: in_range_def split: if_splits)
qed

lemma sub_overflow:
  "((a XOR b) AND SIGN_BIT \<noteq> 0 \<and> (a XOR (a - b)) AND SIGN_BIT \<noteq> 0) \<longleftrightarrow> \<not> in_range (sint a - sint b)"
  for a b :: uint32
proof -
  have w: "a - b = word_of_int (sint a - sint b)" by simp
  have r: "in_range (sint a)" "in_range (sint b)" by (rule sint_in_range)+
  then have "sint (a - b) = (if in_range (sint a - sint b) then sint a - sint b
      else if sint a - sint b < 0 then sint a - sint b + 2 ^ 32 else sint a - sint b - 2 ^ 32)"
    unfolding w by (intro sint_wrap) (simp_all add: in_range_def)
  then show ?thesis
    using r sign_bit_xor [of a b] sign_bit_xor [of a "a - b"] by (auto simp: in_range_def split: if_splits)
qed

section \<open>Properties\<close>

lemmas exec_defs = execute_def exec_add_def exec_branch_def exec_div_def exec_jump_def exec_load_def
  exec_lwlr_def exec_hilo_def exec_store_def exec_shift_def exec_swlr_def exec_misc_def

lemma execute_ADD: "opCode i = OP_ADD \<Longrightarrow> execute handler junk i pc s =
    (if in_range (sint (registers s (rs i)) + sint (registers s (rt i)))
     then leave pc (set_reg (rd i) (word_of_int (sint (registers s (rs i)) + sint (registers s (rt i)))) s)
     else raise_return handler OverflowException 0 s)"
  using add_overflow [of "registers s (rs i)" "registers s (rt i)"]
  by (simp add: execute_def exec_add_def Let_def)

lemma execute_ADDI: "opCode i = OP_ADDI \<Longrightarrow> execute handler junk i pc s =
    (if in_range (sint (registers s (rs i)) + sint (extra i))
     then leave pc (set_reg (rt i) (word_of_int (sint (registers s (rs i)) + sint (extra i))) s)
     else raise_return handler OverflowException 0 s)"
  using add_overflow [of "extra i" "registers s (rs i)"]
  by (simp add: execute_def exec_add_def Let_def OP_ADD_def OP_ADDI_def add.commute xor.commute)

lemma execute_SUB: "opCode i = OP_SUB \<Longrightarrow> execute handler junk i pc s =
    (if in_range (sint (registers s (rs i)) - sint (registers s (rt i)))
     then leave pc (set_reg (rd i) (word_of_int (sint (registers s (rs i)) - sint (registers s (rt i)))) s)
     else raise_return handler OverflowException 0 s)"
  using sub_overflow [of "registers s (rs i)" "registers s (rt i)"]
  by (simp add: exec_defs Let_def op_defs)

text \<open>
  \<open>ADD\<close>, \<open>ADDI\<close> and \<open>SUB\<close> raise the overflow exception exactly when the signed result does not
  fit in 32 bits, and otherwise store the exact result.
\<close>

theorem arithmetic_overflow:
  "(opCode i = OP_ADD \<longrightarrow> execute handler junk i pc s =
    (if in_range (sint (registers s (rs i)) + sint (registers s (rt i)))
     then leave pc (set_reg (rd i) (word_of_int (sint (registers s (rs i)) + sint (registers s (rt i)))) s)
     else raise_return handler OverflowException 0 s)) \<and>
   (opCode i = OP_ADDI \<longrightarrow> execute handler junk i pc s =
    (if in_range (sint (registers s (rs i)) + sint (extra i))
     then leave pc (set_reg (rt i) (word_of_int (sint (registers s (rs i)) + sint (extra i))) s)
     else raise_return handler OverflowException 0 s)) \<and>
   (opCode i = OP_SUB \<longrightarrow> execute handler junk i pc s =
    (if in_range (sint (registers s (rs i)) - sint (registers s (rt i)))
     then leave pc (set_reg (rd i) (word_of_int (sint (registers s (rs i)) - sint (registers s (rt i)))) s)
     else raise_return handler OverflowException 0 s))"
  by (intro conjI impI) (rule execute_ADD execute_ADDI execute_SUB, assumption)+

theorem arithmetic_overflow_witness:
  "execute (ExceptionHandler (\<lambda>_. Inr)) 0 \<lparr>opCode = OP_ADDI, rs = 0, rt = 9, rd = 0, extra = -5\<rparr> 8 sample_machine =
    leave 8 (set_reg 9 (-5) sample_machine)"
  using arithmetic_overflow [of "\<lparr>opCode = OP_ADDI, rs = 0, rt = 9, rd = 0, extra = -5\<rparr>"
      "ExceptionHandler (\<lambda>_. Inr)" 0 8 sample_machine] sample_machine_facts(8)
  by (simp add: in_range_def)

lemma sdiv_in_range:
  assumes "b \<noteq> 0" "\<not> (a = - (2 ^ 31) \<and> b = -1)" "in_range a"
  shows "in_range (a sdiv b)"
proof -
  consider "b = 1" | "b = -1" | "2 \<le> \<bar>b\<bar>" using assms(1) by linarith
  then show ?thesis
  proof cases
    case 1
    with assms(3) show ?thesis by simp
  next
    case 2
    with assms have "in_range (- a)" by (auto simp: in_range_def)
    with 2 show ?thesis by (simp add: signed_divide_int_def sgn_mult_abs)
  next
    case 3
    have "\<bar>a\<bar> div \<bar>b\<bar> \<le> \<bar>a\<bar> div 2" using 3 by (intro zdiv_mono2) auto
    also have "\<dots> \<le> 2 ^ 30" using assms(3) by (auto simp: in_range_def)
    finally have "\<bar>a\<bar> div \<bar>b\<bar> \<le> 2 ^ 30" .
    moreover have "0 \<le> \<bar>a\<bar> div \<bar>b\<bar>" using assms(1) by (simp add: pos_imp_zdiv_nonneg_iff)
    ultimately have "\<bar>a sdiv b\<bar> \<le> 2 ^ 30"
      by (simp add: signed_divide_int_def abs_mult abs_sgn_eq)
    then show ?thesis by (auto simp: in_range_def abs_le_iff)
  qed
qed

lemma sint_word: "in_range x \<Longrightarrow> sint (word_of_int x :: uint32) = x"
  using sint_wrap [of x] by (simp add: in_range_def)

lemma smod_bound: "b \<noteq> 0 \<Longrightarrow> \<bar>a smod b\<bar> < \<bar>b\<bar>" for a b :: int
  by (simp add: signed_modulo_int_def abs_mult abs_sgn_eq)

lemma execute_DIV:
  fixes s :: "'a machine_scheme"
  assumes "opCode i = OP_DIV"
  defines "a \<equiv> sint (registers s (rs i))" and "b \<equiv> sint (registers s (rt i))"
  shows "if a = - (2 ^ 31) \<and> b = -1 then execute handler junk i pc s = Inl ArithmeticTrap
    else \<exists>t q r. execute handler junk i pc s = leave pc t \<and> q = sint (registers t LoReg) \<and>
      r = sint (registers t HiReg) \<and>
      (if b = 0 then q = 0 \<and> r = 0 else a = q * b + r \<and> \<bar>r\<bar> < \<bar>b\<bar> \<and> (r = 0 \<or> sgn r = sgn a)) \<and>
      (\<forall>k < 32. registers t k = registers s k)"
proof -
  have z: "registers s (rt i) = 0 \<longleftrightarrow> b = 0" unfolding b_def by (metis signed_word_eqI sint_0)
  have trap: "registers s (rs i) = SIGN_BIT \<and> registers s (rt i) = -1 \<longleftrightarrow> a = - (2 ^ 31) \<and> b = -1"
  proof -
    have "sint (SIGN_BIT :: uint32) = - (2 ^ 31)" "sint (-1 :: uint32) = -1" by (simp_all add: SIGN_BIT_def)
    then show ?thesis unfolding a_def b_def by (metis signed_word_eqI)
  qed
  have ex: "execute handler junk i pc s = (if b = 0 then leave pc (set_HiLo 0 0 s)
      else if a = - (2 ^ 31) \<and> b = -1 then Inl ArithmeticTrap
      else leave pc (set_HiLo (word_of_int (a smod b)) (word_of_int (a sdiv b)) s))"
    using assms(1) trap z by (simp add: exec_defs Let_def op_defs flip: a_def b_def)
  have regs: "registers (set_HiLo h l s) LoReg = l" "registers (set_HiLo h l s) HiReg = h"
    "k < 32 \<Longrightarrow> registers (set_HiLo h l s) k = registers s k" for h l k
    by (simp_all add: set_HiLo_def set_reg_def reg_defs)
  have "in_range (a sdiv b)" "in_range (a smod b)" if "b \<noteq> 0" "\<not> (a = - (2 ^ 31) \<and> b = -1)"
  proof -
    show "in_range (a sdiv b)" using that by (intro sdiv_in_range) (simp_all add: a_def sint_in_range)
    have "\<bar>b\<bar> \<le> 2 ^ 31" using sint_in_range [of "registers s (rt i)"] by (auto simp: b_def in_range_def)
    with smod_bound [OF that(1), of a] show "in_range (a smod b)" by (auto simp: in_range_def)
  qed
  moreover have "a = a sdiv b * b + a smod b" by (metis mult_sdiv_smod_eq mult.commute)
  moreover have "a smod b = 0 \<or> sgn (a smod b) = sgn a" if "b \<noteq> 0"
  proof -
    have "0 \<le> \<bar>a\<bar> mod \<bar>b\<bar>" using that by simp
    then show ?thesis by (auto simp: signed_modulo_int_def sgn_mult sgn_if)
  qed
  ultimately show ?thesis
    using ex regs smod_bound [of b a] sint_word by (auto simp: sint_word)
qed

text \<open>
  \<open>DIV\<close> truncates: unless the divisor is 0 or the quotient does not fit, the registers \<open>Lo\<close> and \<open>Hi\<close>
  hold quotient and remainder with \<open>a = q * b + r\<close>, the remainder smaller than the divisor and with
  the sign of the dividend; a zero divisor gives 0 in both, and the least integer by -1 traps.
\<close>

theorem DIV_truncates:
  fixes s :: "'a machine_scheme"
  assumes "opCode i = OP_DIV"
  shows "let a = sint (registers s (rs i)); b = sint (registers s (rt i)) in
    if a = - (2 ^ 31) \<and> b = -1 then execute handler junk i pc s = Inl ArithmeticTrap
    else \<exists>t q r. execute handler junk i pc s = leave pc t \<and> q = sint (registers t LoReg) \<and>
      r = sint (registers t HiReg) \<and>
      (if b = 0 then q = 0 \<and> r = 0 else a = q * b + r \<and> \<bar>r\<bar> < \<bar>b\<bar> \<and> (r = 0 \<or> sgn r = sgn a)) \<and>
      (\<forall>k < 32. registers t k = registers s k)"
  unfolding Let_def by (rule execute_DIV [OF assms])

definition div_machine :: machine where
  "div_machine = set_reg 4 (-7) (set_reg 5 2 sample_machine)"

theorem DIV_truncates_witness:
  "\<exists>t. execute (ExceptionHandler (\<lambda>_. Inr)) 0 \<lparr>opCode = OP_DIV, rs = 4, rt = 5, rd = 0, extra = 0\<rparr> 8 div_machine =
     leave 8 t \<and> sint (registers t LoReg) * 2 + sint (registers t HiReg) = -7 \<and>
     \<bar>sint (registers t HiReg)\<bar> < 2"
proof -
  let ?i = "\<lparr>opCode = OP_DIV, rs = 4, rt = 5, rd = 0, extra = 0\<rparr>"
  have "registers div_machine 4 = -7" "registers div_machine 5 = 2"
    by (simp_all add: div_machine_def set_reg_def)
  with DIV_truncates [of ?i div_machine "ExceptionHandler (\<lambda>_. Inr)" 0 8] show ?thesis by auto
qed

text \<open>
  A load takes effect one instruction late: \<open>LW\<close> from resident pages records the word it read as
  pending, while the general registers show only the load that was pending before; the program
  counters advance by one instruction and no memory changes.
\<close>

theorem LW_delayed:
  fixes s :: "'a machine_scheme"
  assumes ready: "user_ready sid s"
    and fetch: "ent (spaces s) sid (unat (registers s PCReg) div PageSize) = Some te" "valid te"
      "\<not> misaligned (registers s PCReg) 4"
    and word: "Decode (le_read (\<lambda>a. the (umem s sid a)) (unat (registers s PCReg)) 4) = i" "opCode i = OP_LW"
    and data: "ent (spaces s) sid (unat (registers s (rs i) + extra i) div PageSize) = Some td" "valid td"
      "\<not> misaligned (registers s (rs i) + extra i) 4"
  shows "\<exists>t. OneInstruction handler junk s = Inr t \<and>
    registers t LoadReg = of_nat (rt i) \<and>
    registers t LoadValueReg = le_read (\<lambda>a. the (umem s sid a)) (unat (registers s (rs i) + extra i)) 4 \<and>
    (\<forall>r < 32. registers t r = (if r = 0 then 0
       else if r = unat (registers s LoadReg) then registers s LoadValueReg else registers s r)) \<and>
    registers t PCReg = registers s NextPCReg \<and> registers t NextPCReg = registers s NextPCReg + 4 \<and>
    umem t = umem s"
proof -
  from ready have inv: "vm_inv s" and cur: "currentSpace s = Some sid" and bp: "breakpoints s = []"
    and ld: "unat (registers s LoadReg) < 32" by (simp_all add: user_ready_def)
  let ?addr = "registers s (rs i) + extra i"
  let ?s1 = "s\<lparr>spaces := upd_spaces {sid} (unat (registers s PCReg) div PageSize) (touch False) (spaces s)\<rparr>"
  let ?s2 = "?s1\<lparr>spaces := upd_spaces {sid} (unat ?addr div PageSize) (touch False) (spaces ?s1)\<rparr>"
  let ?v = "le_read (\<lambda>a. the (umem s sid a)) (unat ?addr) 4"
  have full: "store_low 4 x y = y" for x y
    using take_bit_length_eq [of y] by (simp add: store_low_def)
  have f: "ReadMem handler (registers s PCReg) 4 junk s =
      Inr (True, le_read (\<lambda>a. the (umem s sid a)) (unat (registers s PCReg)) 4, ?s1)"
    using ReadMem_touch [OF inv cur fetch(1,2,3) sizes(3) bp] full by simp
  have inv1: "vm_inv ?s1" by (rule touched_same(1) [OF inv])
  have um: "umem ?s1 = umem s" by (rule same_memory_umem [OF touched_same(2) [OF inv]])
  have "\<exists>td'. ent (spaces ?s1) sid (unat ?addr div PageSize) = Some td' \<and> valid td'"
    using data(1,2) fetch(1,2) by (auto simp: touch_def)
  then obtain td' where "ent (spaces ?s1) sid (unat ?addr div PageSize) = Some td'" "valid td'" by blast
  from ReadMem_touch [OF inv1 _ this data(3) sizes(3), of handler junk] cur bp
  have d: "ReadMem handler ?addr 4 junk ?s1 = Inr (True, ?v, ?s2)" by (simp add: full um)
  have al: "?addr AND 3 = 0" using data(3) by (simp add: misaligned_def)
  have "execute handler junk i (registers ?s1 NextPCReg + 4) ?s1 =
      Inr (Leave (of_nat (rt i)) ?v (registers ?s1 NextPCReg + 4) ?s2)"
    using word(2) d al by (simp add: exec_defs Let_def op_defs load_with_def)
  then have "OneInstruction handler junk s = advance (of_nat (rt i)) ?v (registers s NextPCReg + 4) ?s2"
    using f word(1) by (simp add: OneInstruction_def)
  moreover have "umem ?s2 = umem s"
    using same_memory_umem [OF touched_same(2) [OF inv1]] um by simp
  ultimately show ?thesis
    using ld
    by (auto simp: advance_def DelayedLoad_def Let_def set_reg_def reg_defs umem_def vbyte_def fun_eq_iff)
qed

text \<open>The same processes with \<open>LW r2, 8(r0)\<close> at address 0.\<close>

definition lw_machine :: machine where
  "lw_machine = sample_machine\<lparr>mainMemory := (mainMemory sample_machine)(0 := 8, 1 := 0, 2 := 2, 3 := 0x8C)\<rparr>"

lemma lw_ready: "user_ready 1 lw_machine"
proof -
  have "content_inv {} lw_machine"
    unfolding content_inv_def lw_machine_def sample_machine_def
    by (auto simp: sample_ent split: if_splits)
  moreover have "alloc_inv lw_machine = alloc_inv sample_machine" "owner_inv lw_machine = owner_inv sample_machine"
    "share_inv lw_machine = share_inv sample_machine"
    unfolding lw_machine_def by (simp_all add: alloc_inv_def owner_inv_def share_inv_def maps_def swapped_def)
  ultimately have "vm_inv lw_machine" using sample_machine_facts(1) by (simp add: vm_inv_except_def)
  moreover have "frame_ready lw_machine n = frame_ready sample_machine n" for n
    by (simp add: lw_machine_def frame_ready_def victim_ready_def)
  moreover have "(valid te \<or> has_backing te) \<and> v * PageSize < 2 ^ 31"
    if "ent (spaces lw_machine) 1 v = Some te" for v te
    using that unfolding lw_machine_def sample_machine_def
    by (auto simp: sample_ent has_backing_def PageSize_def SectorSize_def split: if_splits)
  ultimately show ?thesis
    using sample_machine_facts by (simp add: user_ready_def) (simp add: lw_machine_def swap_room_def)
qed

theorem LW_delayed_witness:
  "\<exists>t. OneInstruction (ExceptionHandler (\<lambda>_. Inr)) 0 lw_machine = Inr t \<and> registers t LoadReg = 2 \<and>
    registers t LoadValueReg = 0x0B0A0908"
proof -
  have e: "ent (spaces lw_machine) 1 0 = Some shared_entry" and r: "registers lw_machine k = 0" for k
    using sample_machine_facts(4,8) by (simp_all add: lw_machine_def)
  have u: "umem lw_machine 1 a = Some (((\<lambda>a. of_nat a)(0 := 8, 1 := 0, 2 := 2, 3 := 0x8C)) a)" if "a < 128" for a
    using that e
    by (simp add: umem_def vbyte_def te_byte_def page_bytes_def PageSize_def SectorSize_def)
      (simp add: lw_machine_def sample_machine_def sample_vm_def)
  have four: "(4 :: nat) = Suc (Suc (Suc (Suc 0)))" by simp
  have w0: "le_read (\<lambda>a. the (umem lw_machine 1 a)) 0 4 = 0x8C020008"
    unfolding four using u [of 0] u [of 1] u [of "Suc (Suc 0)"] u [of "Suc (Suc (Suc 0))"] by simp
  have w8: "le_read (\<lambda>a. the (umem lw_machine 1 a)) 8 4 = 0x0B0A0908"
    unfolding four using u [of 8] u [of 9] u [of 10] u [of 11] by simp
  have d: "opCode (Decode 0x8C020008) = OP_LW" "rs (Decode 0x8C020008) = 0" "rt (Decode 0x8C020008) = 2"
    "extra (Decode 0x8C020008) = 8"
    by (simp_all add: Decode_fields field_def opTable_def Decode_op_def Decode_extra_def op_defs)
  have "unat (8 :: uint32) div PageSize = 0" by (simp add: PageSize_def SectorSize_def)
  with LW_delayed [OF lw_ready, of shared_entry "Decode 0x8C020008" shared_entry "ExceptionHandler (\<lambda>_. Inr)" 0]
  show ?thesis using e r w0 w8 d by (auto simp: misaligned_def)
qed

text \<open>
  \<open>SRL\<close> and \<open>SRLV\<close> are the logical shifts of the MIPS manual; the simulator shifts the sign in.
\<close>

lemma SRL_is_SRA:
  "execute handler junk \<lparr>opCode = OP_SRL, rs = a, rt = b, rd = c, extra = x\<rparr> pc s =
   execute handler junk \<lparr>opCode = OP_SRA, rs = a, rt = b, rd = c, extra = x\<rparr> pc s"
  by (simp add: exec_defs Let_def op_defs)

end
