(* ===== verification/Linked_List.thy ===== *)
theory Linked_List
  imports Nachos_Prelude "HOL-Library.Multiset"
begin

text \<open>
  \<open>threads/list.cc\<close>: the singly linked lists of the kernel, \<open>List\<close> and \<open>SortedList\<close>. The list elements
  live in a heap, a map from addresses to \<open>ListElement\<close>s; \<open>new\<close> takes the next address that was never
  used and \<open>delete\<close> removes the element from the heap, so that a later access to it is a fault. Every
  operation is shown to act on the abstract sequence of items, and the interface \<open>item_queue\<close>
  carries that to the users of the lists.
\<close>

section \<open>State\<close>

record 'a ListElement =
  le_next :: "nat option"
  le_item :: 'a

record 'a List =
  heap :: "nat \<rightharpoonup> 'a ListElement"
  brk :: nat
  lfirst :: "nat option"
  llast :: "nat option"

definition cell :: "'a List \<Rightarrow> nat option \<Rightarrow> 'a ListElement res" where
  "cell l p = deref_res p (\<lambda>a. deref_res (heap l a) Inr)"

definition set_next :: "nat option \<Rightarrow> nat option \<Rightarrow> 'a List \<Rightarrow> 'a List res" where
  "set_next p q l =
     deref_res p (\<lambda>a. deref_res (heap l a) (\<lambda>c. Inr (l\<lparr>heap := (heap l)(a \<mapsto> c\<lparr>le_next := q\<rparr>)\<rparr>)))"

section \<open>Operations\<close>

definition ListElement_new :: "'a \<Rightarrow> 'a List \<Rightarrow> nat \<times> 'a List" where
  "ListElement_new item l =
     (brk l, l\<lparr>heap := (heap l)(brk l \<mapsto> \<lparr>le_next = None, le_item = item\<rparr>), brk := Suc (brk l)\<rparr>)"

definition ListElement_delete :: "nat option \<Rightarrow> 'a List \<Rightarrow> 'a List" where
  "ListElement_delete p l = (case p of None \<Rightarrow> l | Some a \<Rightarrow> l\<lparr>heap := (heap l)(a := None)\<rparr>)"

definition List_new :: "'a List" where
  "List_new = \<lparr>heap = Map.empty, brk = 0, lfirst = None, llast = None\<rparr>"

definition IsEmpty :: "'a List \<Rightarrow> bool" where
  "IsEmpty l \<longleftrightarrow> lfirst l = None"

definition Prepend :: "'a \<Rightarrow> 'a List \<Rightarrow> 'a List res" where
  "Prepend item l =
     (let (element, l1) = ListElement_new item l in
      if IsEmpty l1 then Inr (l1\<lparr>lfirst := Some element, llast := Some element\<rparr>)
      else bind_res (set_next (Some element) (lfirst l1) l1) (\<lambda>l2. Inr (l2\<lparr>lfirst := Some element\<rparr>)))"

definition Append :: "'a \<Rightarrow> 'a List \<Rightarrow> 'a List res" where
  "Append item l =
     (let (element, l1) = ListElement_new item l in
      if IsEmpty l1 then Inr (l1\<lparr>lfirst := Some element, llast := Some element\<rparr>)
      else bind_res (set_next (llast l1) (Some element) l1) (\<lambda>l2. Inr (l2\<lparr>llast := Some element\<rparr>)))"

text \<open>\<open>List::Remove ()\<close>: the first item, \<open>None\<close> for the null pointer it returns on an empty list.\<close>

definition Remove :: "'a List \<Rightarrow> ('a option \<times> 'a List) res" where
  "Remove l =
     (if IsEmpty l then Inr (None, l)
      else bind_res (cell l (lfirst l)) (\<lambda>c.
        let l1 = (if lfirst l = llast l then l\<lparr>lfirst := None, llast := None\<rparr> else l\<lparr>lfirst := le_next c\<rparr>) in
        Inr (Some (le_item c), ListElement_delete (lfirst l) l1)))"

text \<open>
  \<open>List::Remove (item)\<close>. The loop follows the pointers; with as much fuel as addresses were ever
  handed out it does not run out on an acyclic list.
\<close>

fun Remove_item_loop ::
  "nat \<Rightarrow> 'a \<Rightarrow> nat option \<Rightarrow> nat option \<Rightarrow> 'a List \<Rightarrow> ('a option \<times> 'a List) res" where
  "Remove_item_loop 0 item temp prev l = Inl Diverges"
| "Remove_item_loop (Suc fuel) item temp prev l =
     (if temp = None then Inr (None, l)
      else bind_res (cell l temp) (\<lambda>c.
        if le_item c = item then
          bind_res (if prev = None then Inr (l\<lparr>lfirst := le_next c\<rparr>) else set_next prev (le_next c) l) (\<lambda>l1.
          let l2 = (if temp = llast l1 then l1\<lparr>llast := prev\<rparr> else l1) in
          Inr (Some (le_item c), ListElement_delete temp l2))
        else Remove_item_loop fuel item (le_next c) temp l))"

definition Remove_item :: "'a \<Rightarrow> 'a List \<Rightarrow> ('a option \<times> 'a List) res" where
  "Remove_item item l = Remove_item_loop (Suc (brk l)) item (lfirst l) None l"

definition Delete :: "'a \<Rightarrow> 'a List \<Rightarrow> 'a List res" where
  "Delete item l = bind_res (Remove_item item l) (\<lambda>(_, l1). Inr l1)"

definition Head :: "'a List \<Rightarrow> 'a option res" where
  "Head l = (if lfirst l = None then Inr None else bind_res (cell l (lfirst l)) (\<lambda>c. Inr (Some (le_item c))))"

definition Tail :: "'a List \<Rightarrow> 'a option res" where
  "Tail l = (if llast l = None then Inr None else bind_res (cell l (llast l)) (\<lambda>c. Inr (Some (le_item c))))"

text \<open>\<open>List::Mapcar\<close> calls \<open>func\<close>, a state transformer here, on each item from first to last.\<close>

fun Mapcar_loop :: "nat \<Rightarrow> ('a \<Rightarrow> 's \<Rightarrow> 's res) \<Rightarrow> nat option \<Rightarrow> 'a List \<Rightarrow> 's \<Rightarrow> 's res" where
  "Mapcar_loop 0 func ptr l s = Inl Diverges"
| "Mapcar_loop (Suc fuel) func ptr l s =
     (if ptr = None then Inr s
      else bind_res (cell l ptr) (\<lambda>c. bind_res (func (le_item c) s) (Mapcar_loop fuel func (le_next c) l)))"

definition Mapcar :: "('a \<Rightarrow> 's \<Rightarrow> 's res) \<Rightarrow> 'a List \<Rightarrow> 's \<Rightarrow> 's res" where
  "Mapcar func l s = Mapcar_loop (Suc (brk l)) func (lfirst l) l s"

text \<open>\<open>List::~List\<close>: remove elements until nothing is left.\<close>

fun List_delete_loop :: "nat \<Rightarrow> 'a List \<Rightarrow> 'a List res" where
  "List_delete_loop 0 l = Inl Diverges"
| "List_delete_loop (Suc fuel) l =
     bind_res (Remove l) (\<lambda>(thing, l1). if thing = None then Inr l1 else List_delete_loop fuel l1)"

definition List_delete :: "'a List \<Rightarrow> 'a List res" where
  "List_delete l = List_delete_loop (Suc (brk l)) l"

text \<open>\<open>SortedList::Insert\<close>, with the comparison function that \<open>setComparator\<close> stored.\<close>

fun Insert_loop :: "nat \<Rightarrow> ('a \<Rightarrow> 'a \<Rightarrow> bool) \<Rightarrow> 'a \<Rightarrow> nat \<Rightarrow> nat option \<Rightarrow> 'a List \<Rightarrow> 'a List res" where
  "Insert_loop 0 compare item element ptr l = Inl Diverges"
| "Insert_loop (Suc fuel) compare item element ptr l =
     bind_res (cell l ptr) (\<lambda>c.
     if le_next c = None then
       bind_res (set_next (llast l) (Some element) l) (\<lambda>l1. Inr (l1\<lparr>llast := Some element\<rparr>))
     else bind_res (cell l (le_next c)) (\<lambda>n.
       if compare item (le_item n) then
         bind_res (set_next (Some element) (le_next c) l) (set_next ptr (Some element))
       else Insert_loop fuel compare item element (le_next c) l))"

definition Insert :: "('a \<Rightarrow> 'a \<Rightarrow> bool) \<Rightarrow> 'a \<Rightarrow> 'a List \<Rightarrow> 'a List res" where
  "Insert compare item l =
     (let (element, l1) = ListElement_new item l in
      if IsEmpty l1 then Inr (l1\<lparr>lfirst := Some element, llast := Some element\<rparr>)
      else bind_res (cell l1 (lfirst l1)) (\<lambda>c.
        if compare item (le_item c) then
          bind_res (set_next (Some element) (lfirst l1) l1) (\<lambda>l2. Inr (l2\<lparr>lfirst := Some element\<rparr>))
        else Insert_loop (brk l1) compare item element (lfirst l1) l1))"

section \<open>The abstract sequence\<close>

text \<open>
  \<open>seg h p as q\<close>: following \<open>le_next\<close> from \<open>p\<close> visits exactly the addresses \<open>as\<close> and then reaches \<open>q\<close>.
\<close>

fun seg :: "(nat \<rightharpoonup> 'a ListElement) \<Rightarrow> nat option \<Rightarrow> nat list \<Rightarrow> nat option \<Rightarrow> bool" where
  "seg h p [] q \<longleftrightarrow> p = q"
| "seg h p (a # as) q \<longleftrightarrow> p = Some a \<and> (\<exists>c. h a = Some c \<and> seg h (le_next c) as q)"

definition list_at :: "'a List \<Rightarrow> nat list \<Rightarrow> bool" where
  "list_at l as \<longleftrightarrow> seg (heap l) (lfirst l) as None \<and> distinct as \<and> dom (heap l) = set as \<and>
     (\<forall>a \<in> set as. a < brk l) \<and> llast l = (if as = [] then None else Some (last as))"

definition items_at :: "(nat \<rightharpoonup> 'a ListElement) \<Rightarrow> nat list \<Rightarrow> 'a list" where
  "items_at h as = map (\<lambda>a. le_item (the (h a))) as"

definition represents :: "'a List \<Rightarrow> 'a list \<Rightarrow> bool" where
  "represents l xs \<longleftrightarrow> (\<exists>as. list_at l as \<and> xs = items_at (heap l) as)"

fun insert_by :: "('a \<Rightarrow> 'a \<Rightarrow> bool) \<Rightarrow> 'a \<Rightarrow> 'a list \<Rightarrow> 'a list" where
  "insert_by compare x [] = [x]"
| "insert_by compare x (y # ys) = (if compare x y then x # y # ys else y # insert_by compare x ys)"

lemma seg_append: "seg h p (as @ bs) q \<longleftrightarrow> (\<exists>r. seg h p as r \<and> seg h r bs q)"
  by (induction as arbitrary: p) auto

lemma seg_upd [simp]: "u \<notin> set as \<Longrightarrow> seg (h(u := v)) p as q = seg h p as q"
  by (induction as arbitrary: p) auto

lemma items_upd [simp]: "u \<notin> set as \<Longrightarrow> items_at (h(u := v)) as = items_at h as"
  by (auto simp: items_at_def)

lemma items_simps [simp]:
  "items_at h [] = []" "items_at h (a # as) = le_item (the (h a)) # items_at h as"
  "items_at h (as @ bs) = items_at h as @ items_at h bs" "items_at h as = [] \<longleftrightarrow> as = []"
  "length (items_at h as) = length as"
  by (simp_all add: items_at_def)

lemma seg_first: "seg h p as None \<Longrightarrow> p = None \<longleftrightarrow> as = []"
  by (cases as) auto

lemma seg_dom: "seg h p as q \<Longrightarrow> set as \<subseteq> dom h"
  by (induction as arbitrary: p) auto

text \<open>Linking a new element after \<open>a\<close>, and unlinking the element after \<open>a\<close>.\<close>

lemma seg_link:
  assumes "seg h p (pre @ a # suf) None" "distinct (pre @ a # suf)" "e \<notin> set (pre @ a # suf)"
    and "h a = Some c"
  shows "seg (h(e \<mapsto> \<lparr>le_next = le_next c, le_item = x\<rparr>, a \<mapsto> c\<lparr>le_next := Some e\<rparr>)) p (pre @ a # e # suf) None"
    "items_at (h(e \<mapsto> \<lparr>le_next = le_next c, le_item = x\<rparr>, a \<mapsto> c\<lparr>le_next := Some e\<rparr>)) (pre @ a # e # suf) =
      items_at h (pre @ [a]) @ x # items_at h suf"
  using assms by (auto simp: seg_append)

lemma seg_unlink:
  assumes "seg h p (pre @ a # b # suf) None" "distinct (pre @ a # b # suf)" "h a = Some c" "h b = Some d"
  shows "seg (h(a \<mapsto> c\<lparr>le_next := le_next d\<rparr>, b := None)) p (pre @ a # suf) None"
    "items_at (h(a \<mapsto> c\<lparr>le_next := le_next d\<rparr>, b := None)) (pre @ a # suf) = items_at h (pre @ a # suf)"
  using assms by (auto simp: seg_append)

section \<open>Every operation acts on the sequence\<close>

lemma list_atD:
  assumes "list_at l as"
  shows "seg (heap l) (lfirst l) as None" "distinct as" "dom (heap l) = set as" "\<forall>a \<in> set as. a < brk l"
    "lfirst l = None \<longleftrightarrow> as = []" "llast l = (if as = [] then None else Some (last as))" "brk l \<notin> set as"
  using assms seg_first [of "heap l" "lfirst l" as] by (auto simp: list_at_def)

lemma represents_new: "represents List_new []"
  by (simp add: represents_def list_at_def List_new_def)

lemma represents_empty: "represents l xs \<Longrightarrow> IsEmpty l \<longleftrightarrow> xs = []"
  by (auto simp: represents_def IsEmpty_def list_atD(5))

lemma Prepend_ok:
  assumes "represents l xs" shows "\<exists>l'. Prepend x l = Inr l' \<and> represents l' (x # xs)"
proof -
  from assms obtain as where as: "list_at l as" and xs: "xs = items_at (heap l) as" by (auto simp: represents_def)
  note d = list_atD [OF as]
  let ?c = "\<lparr>le_next = lfirst l, le_item = x\<rparr>"
  have "Prepend x l = Inr (l\<lparr>heap := (heap l)(brk l \<mapsto> ?c), brk := Suc (brk l), lfirst := Some (brk l),
      llast := if as = [] then Some (brk l) else llast l\<rparr>)" (is "_ = Inr ?l")
    using d(5) by (cases "as = []") (auto simp: Prepend_def ListElement_new_def IsEmpty_def set_next_def)
  moreover have "list_at ?l (brk l # as)"
    using d by (simp add: list_at_def less_Suc_eq)
  moreover have "items_at (heap ?l) (brk l # as) = x # xs" using d(7) xs by simp
  ultimately show ?thesis unfolding represents_def by metis
qed

lemma Append_ok:
  assumes "represents l xs" shows "\<exists>l'. Append x l = Inr l' \<and> represents l' (xs @ [x])"
proof -
  from assms obtain as where as: "list_at l as" and xs: "xs = items_at (heap l) as" by (auto simp: represents_def)
  note d = list_atD [OF as]
  show ?thesis
  proof (cases as rule: rev_cases)
    case Nil
    with Prepend_ok [OF assms, of x] xs d(5) show ?thesis
      by (simp add: Append_def Prepend_def ListElement_new_def IsEmpty_def)
  next
    case (snoc pre a)
    from d(1) snoc obtain c where c: "heap l a = Some c" "le_next c = None" by (auto simp: seg_append)
    let ?h = "(heap l)(brk l \<mapsto> \<lparr>le_next = le_next c, le_item = x\<rparr>, a \<mapsto> c\<lparr>le_next := Some (brk l)\<rparr>)"
    have ne: "a \<noteq> brk l" using d(7) snoc by auto
    have "Append x l = Inr (l\<lparr>heap := ?h, brk := Suc (brk l), llast := Some (brk l)\<rparr>)" (is "_ = Inr ?l")
      using d(5,6) snoc c ne by (auto simp: Append_def ListElement_new_def IsEmpty_def set_next_def)
    moreover have "list_at ?l (pre @ a # [brk l])"
    proof -
      have "\<forall>b \<in> set as. b < Suc (brk l)" using d(4) less_Suc_eq by blast
      with seg_link(1) [of "heap l" "lfirst l" pre a "[]" "brk l" c x] d(1,2,3,7) c snoc
      show ?thesis by (simp add: list_at_def) auto
    qed
    moreover have "items_at (heap ?l) (pre @ a # [brk l]) = xs @ [x]"
    proof -
      have "brk l \<notin> set (pre @ [a])" using d(7) snoc by simp
      with seg_link(2) [of "heap l" "lfirst l" pre a "[]" "brk l" c x] d(1,2) c snoc xs show ?thesis by auto
    qed
    ultimately show ?thesis unfolding represents_def by metis
  qed
qed

lemma Remove_ok:
  assumes "represents l xs"
  shows "\<exists>l'. Remove l = Inr (case xs of [] \<Rightarrow> None | x # _ \<Rightarrow> Some x, l') \<and> represents l' (tl xs)"
proof -
  from assms obtain as where as: "list_at l as" and xs: "xs = items_at (heap l) as" by (auto simp: represents_def)
  note d = list_atD [OF as]
  show ?thesis
  proof (cases as)
    case Nil
    with assms xs d(5) show ?thesis by (simp add: Remove_def IsEmpty_def)
  next
    case (Cons a suf)
    with d(1) obtain c where c: "lfirst l = Some a" "heap l a = Some c" "seg (heap l) (le_next c) suf None" by auto
    have one: "lfirst l = llast l \<longleftrightarrow> suf = []" using d(2,6) Cons c(1) by (auto dest: last_in_set)
    let ?l = "l\<lparr>heap := (heap l)(a := None), lfirst := le_next c, llast := if suf = [] then None else llast l\<rparr>"
    have "Remove l = Inr (Some (le_item c), ?l)"
    proof (cases "suf = []")
      case True
      with c(3) one have "le_next c = None" "llast l = Some a" using c(1) by simp_all
      with c True show ?thesis by (simp add: Remove_def IsEmpty_def cell_def ListElement_delete_def)
    next
      case False
      with c one show ?thesis by (simp add: Remove_def IsEmpty_def cell_def ListElement_delete_def)
    qed
    moreover have "list_at ?l suf" using d c Cons by (auto simp: list_at_def)
    moreover have "items_at (heap ?l) suf = tl xs" "xs = le_item c # tl xs" using xs Cons d(2) c by simp_all
    ultimately show ?thesis
      unfolding represents_def by (intro exI [of _ ?l]) (cases xs; auto)
  qed
qed

lemma Head_ok: "represents l xs \<Longrightarrow> Head l = Inr (case xs of [] \<Rightarrow> None | x # _ \<Rightarrow> Some x)"
proof -
  assume "represents l xs"
  then obtain as where as: "list_at l as" and xs: "xs = items_at (heap l) as" by (auto simp: represents_def)
  show ?thesis using list_atD(1,5) [OF as] xs by (cases as) (auto simp: Head_def cell_def)
qed

lemma Tail_ok: "represents l xs \<Longrightarrow> Tail l = Inr (if xs = [] then None else Some (last xs))"
proof -
  assume "represents l xs"
  then obtain as where as: "list_at l as" and xs: "xs = items_at (heap l) as" by (auto simp: represents_def)
  note d = list_atD [OF as]
  show ?thesis
  proof (cases as rule: rev_cases)
    case (snoc pre a)
    with d(1) obtain c where "heap l a = Some c" by (auto simp: seg_append)
    with snoc d(6) xs show ?thesis by (simp add: Tail_def cell_def)
  qed (use d(6) xs in \<open>simp add: Tail_def\<close>)
qed

text \<open>Removing the first occurrence of an item.\<close>

lemma seg_at:
  assumes "seg h p (pre @ b # suf) None"
  obtains d where "h b = Some d" "seg h (le_next d) suf None" "seg h p pre (Some b)"
  using assms by (auto simp: seg_append)

lemma Remove_item_found:
  fixes l :: "'a List"
  assumes at: "list_at l (pre @ b # suf)" and b: "heap l b = Some d" "le_item d = x"
  shows "\<exists>l'. Remove_item_loop (Suc fuel) x (Some b) (if pre = [] then None else Some (last pre)) l =
      Inr (Some x, l') \<and> list_at l' (pre @ suf) \<and> items_at (heap l') (pre @ suf) = items_at (heap l) (pre @ suf)"
proof -
  note d = list_atD [OF at]
  have lastb: "llast l = Some b \<longleftrightarrow> suf = []"
    using d(2,6) by (cases suf rule: rev_cases) auto
  show ?thesis
  proof (cases pre rule: rev_cases)
    case Nil
    let ?l = "l\<lparr>heap := (heap l)(b := None), lfirst := le_next d, llast := if suf = [] then None else llast l\<rparr>"
    have "Remove_item_loop (Suc fuel) x (Some b) None l = Inr (Some x, ?l)"
      using b lastb by (auto simp: cell_def ListElement_delete_def)
    moreover have "list_at ?l suf" "items_at (heap ?l) suf = items_at (heap l) suf"
      using d b(1) Nil by (auto simp: list_at_def)
    ultimately show ?thesis using Nil by simp
  next
    case (snoc pre' a)
    from d(1) snoc obtain c where c: "heap l a = Some c" by (auto simp: seg_append)
    let ?h = "(heap l)(a \<mapsto> c\<lparr>le_next := le_next d\<rparr>, b := None)"
    let ?l = "l\<lparr>heap := ?h, llast := if suf = [] then Some a else llast l\<rparr>"
    have ab: "a \<noteq> b" using d(2) snoc by auto
    have "Remove_item_loop (Suc fuel) x (Some b) (Some a) l = Inr (Some x, ?l)"
      using b c lastb by (auto simp: cell_def ListElement_delete_def set_next_def)
    moreover have sg: "seg ?h (lfirst l) (pre' @ a # suf) None"
        "items_at ?h (pre' @ a # suf) = items_at (heap l) (pre' @ a # suf)"
      using seg_unlink [of "heap l" "lfirst l" pre' a b suf c d] d(1,2) snoc b c by simp_all
    moreover have "list_at ?l (pre' @ a # suf)"
    proof -
      have "dom ?h = set (pre' @ a # suf)" using d(2,3) snoc ab c by auto
      moreover have "\<forall>k \<in> set (pre' @ a # suf). k < brk l" using d(4) snoc by auto
      ultimately show ?thesis using sg(1) d(2,6) snoc by (simp add: list_at_def)
    qed
    ultimately show ?thesis using snoc by auto
  qed
qed

lemma Remove_item_loop_ok:
  fixes l :: "'a List"
  assumes "list_at l (pre @ suf)" "x \<notin> set (items_at (heap l) pre)" "length suf < fuel"
  shows "\<exists>l'. Remove_item_loop fuel x (case suf of [] \<Rightarrow> None | a # _ \<Rightarrow> Some a)
      (if pre = [] then None else Some (last pre)) l =
      Inr (if x \<in> set (items_at (heap l) suf) then Some x else None, l') \<and>
    represents l' (remove1 x (items_at (heap l) (pre @ suf)))"
  using assms
proof (induction suf arbitrary: pre fuel)
  case Nil
  then show ?case by (cases fuel) (auto simp: represents_def remove1_idem)
next
  case (Cons b suf)
  from Cons.prems(1) obtain d where d: "heap l b = Some d" "seg (heap l) (le_next d) suf None"
    using list_atD(1) seg_at by metis
  from Cons.prems(3) obtain n where n: "fuel = Suc n" "length suf < n" by (cases fuel) auto
  show ?case
  proof (cases "le_item d = x")
    case True
    from Remove_item_found [OF Cons.prems(1) d(1) True, of n] obtain l' where
      "Remove_item_loop fuel x (Some b) (if pre = [] then None else Some (last pre)) l = Inr (Some x, l')"
      "list_at l' (pre @ suf)" "items_at (heap l') (pre @ suf) = items_at (heap l) (pre @ suf)"
      using n(1) by blast
    moreover have "remove1 x (items_at (heap l) (pre @ b # suf)) = items_at (heap l) (pre @ suf)"
      using Cons.prems(2) d(1) True by (simp add: remove1_append)
    ultimately show ?thesis using d(1) True unfolding represents_def by auto
  next
    case False
    have "le_next d = (case suf of [] \<Rightarrow> None | a # _ \<Rightarrow> Some a)" using d(2) by (cases suf) auto
    then have "Remove_item_loop fuel x (Some b) prev l =
        Remove_item_loop n x (case suf of [] \<Rightarrow> None | a # _ \<Rightarrow> Some a) (Some b) l" for prev
      using n(1) d(1) False by (simp add: cell_def)
    with Cons.IH [of "pre @ [b]" n] Cons.prems(1,2) d(1) False n(2) show ?thesis by auto
  qed
qed

lemma list_at_length: "list_at l as \<Longrightarrow> length as \<le> brk l"
  using list_atD(2,4) [of l as] card_mono [of "{..<brk l}" "set as"]
  by (auto simp: distinct_card subset_iff)

lemma Remove_item_ok:
  assumes "represents l xs"
  shows "\<exists>l'. Remove_item x l = Inr (if x \<in> set xs then Some x else None, l') \<and> represents l' (remove1 x xs)"
proof -
  from assms obtain as where as: "list_at l as" and xs: "xs = items_at (heap l) as" by (auto simp: represents_def)
  have f: "lfirst l = (case as of [] \<Rightarrow> None | a # _ \<Rightarrow> Some a)" using list_atD(1) [OF as] by (cases as) auto
  have "length as < Suc (brk l)" using list_at_length [OF as] by simp
  from Remove_item_loop_ok [of l "[]" as x, OF _ _ this] as xs f show ?thesis
    by (simp add: Remove_item_def)
qed

lemma Mapcar_loop_ok:
  "seg (heap l) p as None \<Longrightarrow> length as < fuel \<Longrightarrow>
   Mapcar_loop fuel func p l s = fold_res func (items_at (heap l) as) s"
proof (induction as arbitrary: p fuel s)
  case Nil
  then show ?case by (cases fuel) simp_all
next
  case (Cons a as)
  then obtain c n where "p = Some a" "heap l a = Some c" "seg (heap l) (le_next c) as None" "fuel = Suc n"
    by (cases fuel) auto
  with Cons show ?case by (cases "func (le_item c) s") (simp_all add: cell_def)
qed

lemma Mapcar_ok: "represents l xs \<Longrightarrow> Mapcar func l s = fold_res func xs s"
proof -
  assume "represents l xs"
  then obtain as where as: "list_at l as" "xs = items_at (heap l) as" by (auto simp: represents_def)
  then show ?thesis
    unfolding Mapcar_def using Mapcar_loop_ok [OF list_atD(1) [OF as(1)], of "Suc (brk l)" func s]
      list_at_length [OF as(1)] by (simp only: less_Suc_eq_le)
qed

lemma List_delete_loop_ok:
  "represents l xs \<Longrightarrow> length xs < fuel \<Longrightarrow> \<exists>l'. List_delete_loop fuel l = Inr l' \<and> heap l' = Map.empty"
proof (induction xs arbitrary: l fuel)
  case Nil
  then obtain n where "fuel = Suc n" by (cases fuel) auto
  moreover from Remove_ok [OF Nil.prems(1)] obtain l' where l': "Remove l = Inr (None, l')" "represents l' []" by auto
  moreover have "heap l' = Map.empty" using l'(2) list_atD(3) [of l' "[]"] by (auto simp: represents_def dest!: sym [of "[]"])
  ultimately show ?case by simp
next
  case (Cons x xs)
  then obtain n where n: "fuel = Suc n" "length xs < n" by (cases fuel) auto
  from Remove_ok [OF Cons.prems(1)] obtain l1 where "Remove l = Inr (Some x, l1)" "represents l1 xs" by auto
  with Cons.IH [of l1 n] n show ?case by simp
qed

lemma List_delete_ok: "represents l xs \<Longrightarrow> \<exists>l'. List_delete l = Inr l' \<and> heap l' = Map.empty"
proof -
  assume l: "represents l xs"
  then have "length xs \<le> brk l" using list_at_length by (auto simp: represents_def)
  then show ?thesis unfolding List_delete_def by (intro List_delete_loop_ok [OF l]) simp
qed

section \<open>Sorted insertion\<close>

lemma insert_by_append:
  "\<forall>y \<in> set ys. \<not> compare x y \<Longrightarrow> insert_by compare x (ys @ zs) = ys @ insert_by compare x zs"
  by (induction ys) auto

text \<open>The new element \<open>e\<close> is in the heap; the loop stands on \<open>a\<close>, whose successor is next to be compared.\<close>

lemma Insert_loop_ok:
  fixes l :: "'a List"
  assumes "seg (heap l) (lfirst l) (pre @ a # suf) None" "distinct (pre @ a # suf)" "e \<notin> set (pre @ a # suf)"
    and "heap l e = Some \<lparr>le_next = None, le_item = x\<rparr>" "llast l = Some (last (a # suf))"
    and "\<forall>y \<in> set (items_at (heap l) (pre @ [a])). \<not> compare x y" "length suf < fuel"
  shows "\<exists>h la bs. Insert_loop fuel compare x e (Some a) l = Inr (l\<lparr>heap := h, llast := la\<rparr>) \<and>
    seg h (lfirst l) bs None \<and> distinct bs \<and> set bs = insert e (set (pre @ a # suf)) \<and>
    dom h = dom (heap l) \<and> la = Some (last bs) \<and>
    items_at h bs = insert_by compare x (items_at (heap l) (pre @ a # suf))"
  using assms
proof (induction suf arbitrary: pre a fuel)
  case Nil
  from Nil.prems(1) obtain c where c: "heap l a = Some c" "le_next c = None" by (auto simp: seg_append)
  from Nil.prems(7) obtain n where n: "fuel = Suc n" by (cases fuel) auto
  define H where "H = (heap l)(a \<mapsto> c\<lparr>le_next := Some e\<rparr>)"
  have ae: "a \<noteq> e" using Nil.prems(3) by auto
  have h: "H = (heap l)(e \<mapsto> \<lparr>le_next = le_next c, le_item = x\<rparr>, a \<mapsto> c\<lparr>le_next := Some e\<rparr>)"
    using Nil.prems(4) c(2) ae by (auto simp: H_def fun_eq_iff)
  have 1: "Insert_loop fuel compare x e (Some a) l = Inr (l\<lparr>heap := H, llast := Some e\<rparr>)"
    using n c Nil.prems(5) by (simp add: cell_def set_next_def H_def)
  have 2: "seg H (lfirst l) (pre @ a # [e]) None"
      "items_at H (pre @ a # [e]) = items_at (heap l) (pre @ [a]) @ [x]"
    unfolding h using seg_link [OF Nil.prems(1-3) c(1), of x] by simp_all
  have 3: "insert_by compare x (items_at (heap l) (pre @ [a])) = items_at (heap l) (pre @ [a]) @ [x]"
    using insert_by_append [of "items_at (heap l) (pre @ [a])" compare x "[]"] Nil.prems(6) by simp
  have 4: "dom H = dom (heap l)" using c(1) by (auto simp: H_def)
  have 5: "distinct (pre @ [a, e])" "set (pre @ [a, e]) = insert e (set (pre @ [a]))"
    using Nil.prems(2,3) by auto
  show ?case
    by (intro exI [of _ H] exI [of _ "Some e"] exI [of _ "pre @ [a, e]"] conjI 1 2(1) 4 5)
      (simp_all only: 2(2) 3, simp)
next
  case (Cons b suf)
  from Cons.prems(1) obtain c where c: "heap l a = Some c" "le_next c = Some b" by (auto simp: seg_append)
  from Cons.prems(1) obtain d where d: "heap l b = Some d" by (auto simp: seg_append)
  from Cons.prems(7) obtain n where n: "fuel = Suc n" "length suf < n" by (cases fuel) auto
  show ?case
  proof (cases "compare x (le_item d)")
    case True
    define H where "H = (heap l)(e \<mapsto> \<lparr>le_next = le_next c, le_item = x\<rparr>, a \<mapsto> c\<lparr>le_next := Some e\<rparr>)"
    have ae: "a \<noteq> e" using Cons.prems(3) by auto
    have 1: "Insert_loop fuel compare x e (Some a) l = Inr (l\<lparr>heap := H, llast := llast l\<rparr>)"
      using n c d True Cons.prems(4) ae by (simp add: cell_def set_next_def H_def)
    have 2: "seg H (lfirst l) (pre @ a # e # b # suf) None"
        "items_at H (pre @ a # e # b # suf) = items_at (heap l) (pre @ [a]) @ x # items_at (heap l) (b # suf)"
      unfolding H_def using seg_link [OF Cons.prems(1-3) c(1), of x] by simp_all
    have 3: "insert_by compare x (items_at (heap l) (pre @ a # b # suf)) =
        items_at (heap l) (pre @ [a]) @ x # items_at (heap l) (b # suf)"
      using insert_by_append [of "items_at (heap l) (pre @ [a])" compare x "items_at (heap l) (b # suf)"]
        Cons.prems(6) d True by simp
    have 4: "dom H = dom (heap l)" using c(1) Cons.prems(4) by (auto simp: H_def)
    have 5: "distinct (pre @ a # e # b # suf)"
        "set (pre @ a # e # b # suf) = insert e (set (pre @ a # b # suf))"
        "llast l = Some (last (pre @ a # e # b # suf))"
      using Cons.prems(2,3,5) by auto
    show ?thesis
      by (intro exI [of _ H] exI [of _ "llast l"] exI [of _ "pre @ a # e # b # suf"] conjI 1 2(1) 4 5)
        (simp_all only: 2(2) 3)
  next
    case False
    have "Insert_loop fuel compare x e (Some a) l = Insert_loop n compare x e (Some b) l"
      using n(1) c d False by (simp add: cell_def)
    with Cons.IH [of "pre @ [a]" b n] Cons.prems d False n(2) show ?thesis by simp
  qed
qed

lemma Insert_ok:
  fixes l :: "'a List"
  assumes "represents l xs"
  shows "\<exists>l'. Insert compare x l = Inr l' \<and> represents l' (insert_by compare x xs)"
proof -
  from assms obtain as where as: "list_at l as" and xs: "xs = items_at (heap l) as" by (auto simp: represents_def)
  note d = list_atD [OF as]
  show ?thesis
  proof (cases as)
    case Nil
    with Prepend_ok [OF assms, of x] xs d(5) show ?thesis
      by (simp add: Insert_def Prepend_def ListElement_new_def IsEmpty_def)
  next
    case (Cons a suf)
    with d(1) obtain c where c: "lfirst l = Some a" "heap l a = Some c" by auto
    have ab: "a \<noteq> brk l" using d(7) Cons by auto
    show ?thesis
    proof (cases "compare x (le_item c)")
      case True
      with Prepend_ok [OF assms, of x] xs Cons c ab show ?thesis
        by (simp add: Insert_def Prepend_def ListElement_new_def IsEmpty_def cell_def)
    next
      case False
      let ?h0 = "(heap l)(brk l \<mapsto> \<lparr>le_next = None, le_item = x\<rparr>)"
      let ?l0 = "l\<lparr>heap := ?h0, brk := Suc (brk l)\<rparr>"
      have i0: "items_at ?h0 as = items_at (heap l) as" using d(7) by simp
      have "length suf < brk ?l0" using list_at_length [OF as] Cons by simp
      then obtain h la bs where r: "Insert_loop (brk ?l0) compare x (brk l) (Some a) ?l0 = Inr (?l0\<lparr>heap := h, llast := la\<rparr>)"
        "seg h (lfirst l) bs None" "distinct bs" "set bs = insert (brk l) (set as)" "dom h = dom ?h0"
        "la = Some (last bs)" "items_at h bs = insert_by compare x xs"
        using Insert_loop_ok [of ?l0 "[]" a suf "brk l" x compare "brk ?l0"] d Cons c False ab xs i0 by auto
      have "list_at (?l0\<lparr>heap := h, llast := la\<rparr>) bs"
        using r(2-6) d(3,4) by (auto simp: list_at_def less_Suc_eq)
      moreover have "Insert compare x l = Inr (?l0\<lparr>heap := h, llast := la\<rparr>)"
        using r(1) c False ab by (simp add: Insert_def ListElement_new_def IsEmpty_def cell_def)
      ultimately show ?thesis using r(7) unfolding represents_def by auto
    qed
  qed
qed

section \<open>The interface of a priority queue\<close>

text \<open>
  \<open>insert_all\<close> and \<open>drain\<close> are the two ways a client uses a queue: put items in, take them out one by
  one until the queue reports that it is empty.
\<close>

fun drain :: "('s \<Rightarrow> ('a option \<times> 's) res) \<Rightarrow> nat \<Rightarrow> 's \<Rightarrow> ('a list \<times> 's) res" where
  "drain take_first 0 s = Inr ([], s)"
| "drain take_first (Suc n) s =
     bind_res (take_first s) (\<lambda>(x, t).
     case x of None \<Rightarrow> Inr ([], t) | Some y \<Rightarrow> bind_res (drain take_first n t) (\<lambda>(ys, u). Inr (y # ys, u)))"

locale priority_queue =
  fixes rep :: "'s \<Rightarrow> 'a list \<Rightarrow> bool"
    and key :: "'a \<Rightarrow> 'k :: linorder"
    and empty :: 's
    and insert :: "'a \<Rightarrow> 's \<Rightarrow> 's res"
    and take_first :: "'s \<Rightarrow> ('a option \<times> 's) res"
  assumes rep_empty: "rep empty []"
    and rep_insert: "rep s xs \<Longrightarrow> \<exists>t. insert x s = Inr t \<and> rep t (insert_by (\<lambda>x y. key x < key y) x xs)"
    and rep_take: "rep s xs \<Longrightarrow> \<exists>t. take_first s = Inr (case xs of [] \<Rightarrow> None | x # _ \<Rightarrow> Some x, t) \<and> rep t (tl xs)"
begin

abbreviation put :: "'a \<Rightarrow> 'a list \<Rightarrow> 'a list" where
  "put \<equiv> insert_by (\<lambda>x y. key x < key y)"

lemma put_mset: "mset (put x xs) = add_mset x (mset xs)"
  by (induction xs) auto

lemma put_set [simp]: "set (put x xs) = Set.insert x (set xs)"
  using arg_cong [OF put_mset, of set_mset] by simp

lemma put_sorted: "sorted (map key xs) \<Longrightarrow> sorted (map key (put x xs))"
  by (induction xs) fastforce+

lemma put_stable: "sorted (map key xs) \<Longrightarrow>
    filter (\<lambda>y. k = key y) (put x xs) = filter (\<lambda>y. k = key y) xs @ (if k = key x then [x] else [])"
proof (induction xs)
  case (Cons y ys)
  have "filter (\<lambda>z. key x = key z) (y # ys) = []" if "key x < key y"
    using Cons.prems that by (fastforce simp: filter_empty_conv)
  with Cons show ?case by (auto split: if_splits)
qed simp

lemma puts_sort_key: "fold put zs [] = sort_key key zs"
proof -
  let ?ys = "fold put zs []"
  have inv: "mset (fold put zs xs) = mset xs + mset zs \<and> sorted (map key (fold put zs xs)) \<and>
      (\<forall>k. filter (\<lambda>y. k = key y) (fold put zs xs) = filter (\<lambda>y. k = key y) xs @ filter (\<lambda>y. k = key y) zs)"
    if "sorted (map key xs)" for xs
    using that
    by (induction zs arbitrary: xs) (auto simp: put_mset put_sorted put_stable)
  from inv [of "[]"] show ?thesis by (intro properties_for_sort_key [symmetric]) auto
qed

lemma insert_all: "rep s xs \<Longrightarrow> \<exists>t. fold_res insert zs s = Inr t \<and> rep t (fold put zs xs)"
proof (induction zs arbitrary: s xs)
  case (Cons z zs)
  with rep_insert [of s xs z] show ?case by fastforce
qed auto

lemma drain_all: "rep s xs \<Longrightarrow> length xs \<le> n \<Longrightarrow> \<exists>t. drain take_first n s = Inr (xs, t) \<and> rep t []"
proof (induction xs arbitrary: s n)
  case Nil
  with rep_take [of s "[]"] show ?case by (cases n) auto
next
  case (Cons x xs)
  then obtain k where k: "n = Suc k" "length xs \<le> k" by (cases n) auto
  from rep_take [OF Cons.prems(1)] obtain t where "take_first s = Inr (Some x, t)" "rep t xs" by auto
  with Cons.IH [of t k] k show ?case by auto
qed

lemma service_order:
  "\<exists>t. bind_res (fold_res insert zs empty) (drain take_first (length zs)) = Inr (sort_key key zs, t) \<and> rep t []"
  using insert_all [OF rep_empty, of zs] drain_all [of _ "sort_key key zs" "length zs"] puts_sort_key [of zs]
  by fastforce

end

interpretation sorted_list: priority_queue represents key List_new "Insert (\<lambda>x y. key x < key y)" Remove
  for key :: "'a \<Rightarrow> 'k :: linorder"
  by unfold_locales (simp_all add: represents_new Insert_ok Remove_ok)

section \<open>Properties\<close>

text \<open>
  C12: every operation of \<open>List\<close> and \<open>SortedList\<close> acts on the sequence of items (pointers that are not
  null) that the elements represent. A new list is empty; \<open>Prepend\<close> and \<open>Append\<close> add at the two ends,
  \<open>Insert\<close> before the first item that the new one has to precede, \<open>Remove\<close> takes the first item or
  returns null, \<open>Remove (item)\<close> and \<open>Delete\<close> take out the first occurrence, \<open>Head\<close>, \<open>Tail\<close> and \<open>IsEmpty\<close>
  read, \<open>Mapcar\<close> calls its function on the items from first to last, and the destructor leaves no
  element in the heap. Every loop ends, and none of them follows a null or deleted pointer.
\<close>

theorem List_refines:
  fixes l :: "'a List"
  assumes "represents l xs"
  shows "represents (List_new :: 'a List) [] \<and> (\<exists>l'. Prepend x l = Inr l' \<and> represents l' (x # xs)) \<and>
    (\<exists>l'. Append x l = Inr l' \<and> represents l' (xs @ [x])) \<and>
    (\<exists>l'. Remove l = Inr (case xs of [] \<Rightarrow> None | y # _ \<Rightarrow> Some y, l') \<and> represents l' (tl xs)) \<and>
    (\<exists>l'. Remove_item x l = Inr (if x \<in> set xs then Some x else None, l') \<and> represents l' (remove1 x xs)) \<and>
    (\<exists>l'. Delete x l = Inr l' \<and> represents l' (remove1 x xs)) \<and>
    Head l = Inr (case xs of [] \<Rightarrow> None | y # _ \<Rightarrow> Some y) \<and>
    Tail l = Inr (if xs = [] then None else Some (last xs)) \<and> (IsEmpty l \<longleftrightarrow> xs = []) \<and>
    (\<exists>l'. Insert compare x l = Inr l' \<and> represents l' (insert_by compare x xs)) \<and>
    Mapcar func l s = fold_res func xs s \<and> (\<exists>l'. List_delete l = Inr l' \<and> heap l' = Map.empty)"
  using Insert_ok [OF assms, of compare x] Mapcar_ok [OF assms, of func s] List_delete_ok [OF assms] represents_new Prepend_ok [OF assms] Append_ok [OF assms] Remove_ok [OF assms] Remove_item_ok [OF assms, of x]
    Head_ok [OF assms] Tail_ok [OF assms] represents_empty [OF assms]
  by (auto simp: Delete_def)

theorem List_refines_witness:
  "\<exists>l l' l2. bind_res (Append (7 :: nat) List_new) (Append 9) = Inr l \<and> Remove_item 9 l = Inr (Some 9, l') \<and>
    represents l' [7] \<and> Insert (<) 9 l = Inr l2 \<and> represents l2 [7, 9, 9]"
proof -
  obtain l0 where l0: "Append (7 :: nat) List_new = Inr l0" "represents l0 [7]"
    using Append_ok [OF represents_new, of 7] by auto
  obtain l where l: "Append 9 l0 = Inr l" "represents l [7, 9]" using Append_ok [OF l0(2), of 9] by auto
  from List_refines [OF l(2), of 9 "(<)" "\<lambda>_ _. Inr ()" "()"] l0 l show ?thesis by auto
qed

text \<open>
  A \<open>SortedList\<close> ordered by a key is a stable priority queue: whatever items are inserted into
  an empty list, removing them gives the stable sort of the items by key.
\<close>

theorem SortedList_stable_order:
  "\<exists>l. bind_res (fold_res (Insert (\<lambda>x y. key x < key y)) zs List_new) (drain Remove (length zs)) =
     Inr (sort_key key zs, l) \<and> represents l []"
  for key :: "'a \<Rightarrow> 'k :: linorder"
  by (rule sorted_list.service_order)

text \<open>
  The destructor frees every element of the list: the loop ends and nothing is left in the heap.
\<close>

theorem List_delete_frees:
  assumes "represents l xs"
  shows "\<exists>l'. List_delete l = Inr l' \<and> heap l' = Map.empty"
  by (rule List_delete_ok [OF assms])

theorem List_delete_frees_witness:
  "\<exists>l l'. Append (7 :: nat) List_new = Inr l \<and> List_delete l = Inr l' \<and> heap l' = Map.empty"
proof -
  obtain l where "Append (7 :: nat) List_new = Inr l" "represents l [7]"
    using Append_ok [OF represents_new, of 7] by auto
  with List_delete_frees [of l "[7]"] show ?thesis by auto
qed

end
