(* ===== verification/Threads.thy ===== *)
theory Threads
  imports Machine Linked_List
begin

text \<open>
  The state of the thread system and the operations of a single thread (\<open>threads/thread.cc\<close>,
  \<open>threads/system.cc\<close>, \<open>machine/interrupt.h\<close>, \<open>filesys/fdt.h\<close>) in the configuration that is built, with
  \<open>USER_PROGRAM\<close>, \<open>FILESYS_STUB\<close>, \<open>SMARTGDB\<close> and \<open>USE_PTHREAD\<close>. The state extends the machine with the
  thread objects, the scheduler's lists and the interrupt simulation. Function pointers, the
  handlers of devices and the procedures that threads run, are names of a type \<open>'h\<close>.
\<close>

section \<open>State\<close>

definition MAX_FD :: nat where "MAX_FD = 16"
definition WSS_REFRESH_PERIOD :: uint32 where "WSS_REFRESH_PERIOD = 10"

datatype ThreadStatus = JUST_CREATED | RUNNING | READY | BLOCKED | ZOMBIE | NUM_THREAD_STATES

datatype IntStatus = IntOff | IntOn

datatype IntType = TimerInt | DiskInt | ConsoleWriteInt | ConsoleReadInt | NetworkSendInt | NetworkRecvInt

datatype FileDescriptorType = DiskFile | ConsoleFile

record FDTEntry =
  fd_type :: FileDescriptorType
  openfile :: "file_id option"

record 'h PendingInterrupt =
  pi_handler :: 'h
  pi_arg :: nat
  pi_when :: uint32
  pi_type :: IntType

record KernelSemaphore =
  sem_value :: int
  sem_queue :: "nat List"

record Statistics =
  ps_totalTicks :: uint32
  ps_systemTicks :: uint32
  ps_userTicks :: uint32
  ps_numContextSwitches :: uint32
  ps_numVolContextSwitches :: uint32
  ps_numInvolContextSwitches :: uint32

text \<open>
  A thread that is not running waits inside \<open>Scheduler::Run\<close> for \<open>SWITCH\<close> to return, or, when it never
  ran, at the start of \<open>ThreadRoot\<close>. Of its C++ stack the model keeps the activation records that are
  still to be finished: \<open>Thread::Yield\<close> and \<open>Thread::Sleep(status)\<close> with the interrupt level they have to
  restore, \<open>Interrupt::OneTick\<close> with the machine status it has to restore, \<open>ThreadRoot\<close> at its start, and
  \<open>ThreadRoot\<close> when it has enabled interrupts and is about to call its procedure.
\<close>

datatype 'h frame = Yield_frame IntStatus | Sleep_frame IntStatus | OneTick_frame MachineStatus 
  | ThreadRoot_frame 'h nat | Start_frame 'h nat

record 'h Thread =
  frames :: "'h frame list"
  tstatus :: ThreadStatus
  Priority :: int
  ThreadID :: int
  ChildList :: "nat List"
  Children :: int
  ParentPtr :: "nat option"
  exitval :: uint32
  ChildExited :: KernelSemaphore
  hasReachedExit :: bool
  thread_exit_status :: bool
  runNow :: bool
  wssRefreshCounter :: uint32
  userRegisters :: "nat \<Rightarrow> uint32"
  FDTable :: "FDTEntry option list"
  tspace :: "nat option"
  procStats :: Statistics

record nachos_thread =
  nt_thread :: nat
  nt_ID :: int

text \<open>
  The globals of \<open>threads/system.cc\<close>. \<open>threads\<close> is the store of live \<open>Thread\<close> objects and \<open>nextThread\<close> the next
  address. \<open>currentThread\<close> and \<open>currentSpace\<close> (\<open>currentThread->space\<close>) belong to the machine below;
  \<open>installed\<close> is the space whose page table \<open>machine->pageTable\<close> points to. The elements of \<open>allThreads\<close>
  are list elements whose item is the pair of thread and ID. \<open>quantum\<close> is the scheduler's.
  \<open>closedFiles\<close> are the \<open>OpenFile\<close> objects of file descriptors that were deleted so far; their
  destructor closes the file on the host.
\<close>

record 'h system = machine +
  threads :: "nat \<rightharpoonup> 'h Thread"
  nextThread :: nat
  threadToBeDestroyed :: "nat option"
  readyList :: "nat List"
  threadid :: int
  quantum :: nat
  allThreads :: "nachos_thread List"
  installed :: "nat option"
  level :: IntStatus
  pending :: "'h PendingInterrupt List"
  inHandler :: bool
  yieldOnReturn :: bool
  needResched :: bool
  wasYieldOnReturn :: bool
  idleTicks :: uint32
  systemTicks :: uint32
  numContextSwitches :: uint32
  closedFiles :: "file_id list"

definition get_thread :: "nat \<Rightarrow> 'h system \<Rightarrow> 'h Thread res" where
  "get_thread t s = deref_res (threads s t) Inr"

definition upd_thread :: "nat \<Rightarrow> ('h Thread \<Rightarrow> 'h Thread) \<Rightarrow> 'h system \<Rightarrow> 'h system res" where
  "upd_thread t f s = deref_res (threads s t) (\<lambda>th. Inr (s\<lparr>threads := (threads s)(t \<mapsto> f th)\<rparr>))"

section \<open>Attributes of a thread\<close>

definition setStatus :: "nat \<Rightarrow> ThreadStatus \<Rightarrow> 'h system \<Rightarrow> 'h system res" where
  "setStatus t st = upd_thread t (tstatus_update (\<lambda>_. st))"

definition getStatus :: "nat \<Rightarrow> 'h system \<Rightarrow> ThreadStatus res" where
  "getStatus t s = bind_res (get_thread t s) (\<lambda>th. Inr (tstatus th))"

definition Get_Id :: "nat \<Rightarrow> 'h system \<Rightarrow> int res" where
  "Get_Id t s = bind_res (get_thread t s) (\<lambda>th. Inr (ThreadID th))"

definition Get_Priority :: "nat \<Rightarrow> 'h system \<Rightarrow> int res" where
  "Get_Priority t s = bind_res (get_thread t s) (\<lambda>th. Inr (Priority th))"

text \<open>The signed 32-bit value an \<open>int\<close> expression is stored as.\<close>

definition int32 :: "int \<Rightarrow> int" where
  "int32 x = sint (word_of_int x :: uint32)"

definition Prioritize :: "int \<Rightarrow> 'h Thread \<Rightarrow> 'h Thread" where
  "Prioritize p th =
     (let th1 = th\<lparr>Priority := int32 (Priority th + p)\<rparr>;
          th2 = (if Priority th1 < 0 then th1\<lparr>Priority := 0\<rparr> else th1)
      in if Priority th2 > 40 then th2\<lparr>Priority := 40\<rparr> else th2)"

definition Get_Num_Children :: "'h Thread \<Rightarrow> int" where
  "Get_Num_Children th = Children th"

definition Add_Child :: "'h Thread \<Rightarrow> 'h Thread" where
  "Add_Child th = th\<lparr>Children := Children th + 1\<rparr>"

definition Remove_Child :: "'h Thread \<Rightarrow> 'h Thread res" where
  "Remove_Child th =
     (if Children th < 1 then Inl AssertionFailed else Inr (th\<lparr>Children := Children th - 1\<rparr>))"

definition Queue_Child :: "nat \<Rightarrow> 'h Thread \<Rightarrow> 'h Thread res" where
  "Queue_Child child th = bind_res (Append child (ChildList th)) (\<lambda>l. Inr (th\<lparr>ChildList := l\<rparr>))"

definition UnQueue_Child :: "'h Thread \<Rightarrow> (nat option \<times> 'h Thread) res" where
  "UnQueue_Child th = bind_res (Remove (ChildList th)) (\<lambda>(c, l). Inr (c, th\<lparr>ChildList := l\<rparr>))"

definition Get_Parent_Ptr :: "'h Thread \<Rightarrow> nat option" where
  "Get_Parent_Ptr th = ParentPtr th"

definition Set_Parent_Ptr :: "nat \<Rightarrow> 'h Thread \<Rightarrow> int \<times> 'h Thread" where
  "Set_Parent_Ptr parent th =
     (if ParentPtr th \<noteq> None then (-1, th) else (0, th\<lparr>ParentPtr := Some parent\<rparr>))"

definition Get_Exit_Val :: "'h Thread \<Rightarrow> uint32" where
  "Get_Exit_Val th = exitval th"

definition Set_Exit_Val :: "uint32 \<Rightarrow> 'h Thread \<Rightarrow> 'h Thread" where
  "Set_Exit_Val val th = th\<lparr>exitval := val\<rparr>"

definition resetWssRefreshCounter :: "'h Thread \<Rightarrow> 'h Thread" where
  "resetWssRefreshCounter th = th\<lparr>wssRefreshCounter := 0\<rparr>"

definition incrWssRefreshCounter :: "'h Thread \<Rightarrow> bool \<times> 'h Thread" where
  "incrWssRefreshCounter th =
     (if WSS_REFRESH_PERIOD = wssRefreshCounter th then (True, resetWssRefreshCounter th)
      else (False, th\<lparr>wssRefreshCounter := wssRefreshCounter th + 1\<rparr>))"

definition ReachedExit :: "nat \<Rightarrow> 'h system \<Rightarrow> 'h system res" where
  "ReachedExit t s =
     assert_res (t = currentThread s) (\<lambda>_. upd_thread t (hasReachedExit_update (\<lambda>_. True)) s)"

section \<open>File descriptors\<close>

text \<open>
  \<open>find_next_available_fd\<close>, \<open>setFD\<close> and \<open>getFD\<close>. The code compares \<open>fd\<close> with \<open>MAX_FD\<close> only from above: a
  negative descriptor indexes the array below its start. Deleting an entry closes its host file.
\<close>

fun find_fd_loop :: "nat \<Rightarrow> FDTEntry option list \<Rightarrow> int" where
  "find_fd_loop i [] = -1"
| "find_fd_loop i (e # es) = (if e = None then int i else find_fd_loop (Suc i) es)"

definition find_next_available_fd :: "'h Thread \<Rightarrow> int" where
  "find_next_available_fd th = find_fd_loop 0 (take MAX_FD (FDTable th))"

definition fd_slot :: "int \<Rightarrow> 'h Thread \<Rightarrow> (nat \<Rightarrow> 'b res) \<Rightarrow> 'b res" where
  "fd_slot fd th k =
     (if 0 \<le> fd \<and> nat fd < length (FDTable th) then k (nat fd) else Inl IndexOutOfBounds)"

text \<open>The file that goes with an entry of the table when the entry is deleted.\<close>

definition fd_files :: "FDTEntry option \<Rightarrow> file_id list" where
  "fd_files entry = (case entry of None \<Rightarrow> []
     | Some e \<Rightarrow> (case fd_type e of ConsoleFile \<Rightarrow> []
         | DiskFile \<Rightarrow> (case openfile e of None \<Rightarrow> [] | Some f \<Rightarrow> [f])))"

definition close_files :: "FDTEntry option list \<Rightarrow> 'h system \<Rightarrow> 'h system" where
  "close_files entries s = s\<lparr>closedFiles := closedFiles s @ concat (map fd_files entries)\<rparr>"

definition setFD :: "nat \<Rightarrow> int \<Rightarrow> FDTEntry option \<Rightarrow> 'h system \<Rightarrow> 'h system res" where
  "setFD this fd entry s =
     bind_res (get_thread this s) (\<lambda>th.
     if fd < int MAX_FD then fd_slot fd th (\<lambda>i.
       upd_thread this (\<lambda>th. th\<lparr>FDTable := (FDTable th)[i := entry]\<rparr>) (close_files [FDTable th ! i] s))
     else Inr s)"

definition getFD :: "int \<Rightarrow> 'h Thread \<Rightarrow> FDTEntry option res" where
  "getFD fd th =
     (if fd < int MAX_FD then fd_slot fd th (\<lambda>i. Inr (FDTable th ! i)) else Inr None)"

section \<open>User registers\<close>

definition SaveUserState :: "nat \<Rightarrow> 'h system \<Rightarrow> 'h system res" where
  "SaveUserState t s =
     fold_res (\<lambda>i u. bind_res (ReadRegister u (int i)) (\<lambda>v.
       upd_thread t (\<lambda>th. th\<lparr>userRegisters := (userRegisters th)(i := v)\<rparr>) u)) [0..<NumTotalRegs] s"

definition RestoreUserState :: "nat \<Rightarrow> 'h system \<Rightarrow> 'h system res" where
  "RestoreUserState t s =
     fold_res (\<lambda>i u. bind_res (get_thread t u) (\<lambda>th. WriteRegister u (int i) (userRegisters th i)))
       [0..<NumTotalRegs] s"

definition RestoreState :: "nat \<Rightarrow> 'h system \<Rightarrow> 'h system res" where
  "RestoreState sid s = deref_res (spaces s sid) (\<lambda>_. Inr (s\<lparr>installed := Some sid\<rparr>))"

section \<open>Facts\<close>

lemma upd_thread_ok [simp]: "threads s t = Some th \<Longrightarrow> upd_thread t f s = Inr (s\<lparr>threads := (threads s)(t \<mapsto> f th)\<rparr>)"
  by (simp add: upd_thread_def)

lemma get_thread_ok [simp]: "threads s t = Some th \<Longrightarrow> get_thread t s = Inr th"
  by (simp add: get_thread_def)

lemma SaveUserState_ok:
  assumes "threads s t = Some th"
  shows "SaveUserState t s = Inr (s\<lparr>threads := (threads s)(t \<mapsto> th\<lparr>userRegisters :=
      (\<lambda>i. if i < NumTotalRegs then registers s i else userRegisters th i)\<rparr>)\<rparr>)"
proof -
  have "n \<le> NumTotalRegs \<Longrightarrow> fold_res (\<lambda>i u. bind_res (ReadRegister u (int i)) (\<lambda>v.
       upd_thread t (\<lambda>th. th\<lparr>userRegisters := (userRegisters th)(i := v)\<rparr>) u)) [0..<n] s =
     Inr (s\<lparr>threads := (threads s)(t \<mapsto> th\<lparr>userRegisters :=
      (\<lambda>i. if i < n then registers s i else userRegisters th i)\<rparr>)\<rparr>)" for n
  proof (induction n)
    case 0
    from assms have "(threads s)(t \<mapsto> th) = threads s" by auto
    then show ?case by simp
  next
    case (Suc n)
    let ?r = "\<lambda>n i. if i < n then registers s i else userRegisters th i"
    let ?s = "s\<lparr>threads := (threads s)(t \<mapsto> th\<lparr>userRegisters := ?r n\<rparr>)\<rparr>"
    have "(?r n)(n := registers s n) = ?r (Suc n)" by (auto simp: less_Suc_eq)
    moreover have "upd_thread t (\<lambda>th. th\<lparr>userRegisters := (userRegisters th)(n := registers s n)\<rparr>) ?s =
        Inr (s\<lparr>threads := (threads s)(t \<mapsto> th\<lparr>userRegisters := (?r n)(n := registers s n)\<rparr>)\<rparr>)"
      by (simp add: upd_thread_def del: fun_upd_apply) simp
    moreover have "ReadRegister ?s (int n) = Inr (registers s n)" using Suc.prems by (simp add: ReadRegister_def)
    ultimately show ?case using Suc.IH [OF Suc_leD [OF Suc.prems]] by (simp add: fold_res_append del: fun_upd_apply)
  qed
  from this [of NumTotalRegs] show ?thesis by (simp add: SaveUserState_def)
qed

lemma RestoreUserState_ok:
  assumes "threads s t = Some th"
  shows "RestoreUserState t s = Inr (s\<lparr>registers :=
      (\<lambda>i. if i < NumTotalRegs then userRegisters th i else registers s i)\<rparr>)"
proof -
  have "n \<le> NumTotalRegs \<Longrightarrow> fold_res (\<lambda>i u. bind_res (get_thread t u) (\<lambda>th. WriteRegister u (int i)
      (userRegisters th i))) [0..<n] s =
     Inr (s\<lparr>registers := (\<lambda>i. if i < n then userRegisters th i else registers s i)\<rparr>)" for n
  proof (induction n)
    case (Suc n)
    have "(\<lambda>i. if i < n then userRegisters th i else registers s i)(n := userRegisters th n) =
        (\<lambda>i. if i < Suc n then userRegisters th i else registers s i)" by (auto simp: less_Suc_eq)
    with Suc assms show ?case by (simp add: fold_res_append WriteRegister_def)
  qed simp
  from this [of NumTotalRegs] show ?thesis by (simp add: RestoreUserState_def)
qed

lemma Prioritize_range: "0 \<le> Priority (Prioritize p th) \<and> Priority (Prioritize p th) \<le> 40"
  by (simp add: Prioritize_def Let_def)

lemma find_fd_loop_spec:
  "find_fd_loop i es = (if None \<in> set es then int (i + length (takeWhile (\<lambda>e. e \<noteq> None) es)) else -1)"
  by (induction es arbitrary: i) auto

end
