(* ===== verification/Scheduler.thy ===== *)
theory Scheduler
  imports Threads VM_Properties
begin

text \<open>
  \<open>threads/scheduler.cc\<close> and the parts of \<open>threads/thread.cc\<close> that switch threads. \<open>SWITCH\<close> hands the
  CPU to another thread, so an operation that switches is a transformer from the state in which
  the old thread calls it to the state in which the new thread goes on; what the old thread still has
  to do is on its stack of frames.
\<close>

section \<open>Interrupt level\<close>

definition setNeedResched :: "'h system \<Rightarrow> 'h system" where
  "setNeedResched s = s\<lparr>needResched := True\<rparr>"

definition ChangeLevel :: "IntStatus \<Rightarrow> 'h system \<Rightarrow> 'h system" where
  "ChangeLevel now s = s\<lparr>level := now\<rparr>"

text \<open>\<open>tick\<close> is \<open>Interrupt::OneTick\<close>, which comes later; turning interrupts off does not call it.\<close>

definition SetLevel ::
  "('h system \<Rightarrow> 'h system res) \<Rightarrow> IntStatus \<Rightarrow> 'h system \<Rightarrow> (IntStatus \<times> 'h system) res" where
  "SetLevel tick now s =
     (let old = level s in
      assert_res (now = IntOff \<or> \<not> inHandler s) (\<lambda>_.
      let s1 = ChangeLevel now s in
      if now = IntOn \<and> old = IntOff then bind_res (tick s1) (\<lambda>s2. Inr (old, s2)) else Inr (old, s1)))"

definition Enable :: "('h system \<Rightarrow> 'h system res) \<Rightarrow> 'h system \<Rightarrow> 'h system res" where
  "Enable tick s = bind_res (SetLevel tick IntOn s) (\<lambda>(_, s1). Inr s1)"

definition Halt :: "'h system \<Rightarrow> 'a res" where
  "Halt s = Inl Halted"

section \<open>The list of all threads\<close>

definition addToList :: "nat \<Rightarrow> 'h system \<Rightarrow> (int \<times> 'h system) res" where
  "addToList thread s =
     (let (node, l) = ListElement_new \<lparr>nt_thread = thread, nt_ID = threadid s\<rparr> (allThreads s);
          s1 = s\<lparr>threadid := threadid s + 1\<rparr> in
      if llast l \<noteq> None then
        bind_res (set_next (llast l) (Some node) l) (\<lambda>l1.
        Inr (threadid s, s1\<lparr>allThreads := l1\<lparr>llast := Some node\<rparr>\<rparr>))
      else Inr (threadid s, s1\<lparr>allThreads := l\<lparr>lfirst := Some node, llast := Some node\<rparr>\<rparr>))"

text \<open>The search loop, with the fuel of \<open>Remove_item\<close>, returns \<open>tmp\<close> and \<open>prev\<close>.\<close>

fun find_node ::
  "nat \<Rightarrow> nat \<Rightarrow> nachos_thread List \<Rightarrow> nat option \<Rightarrow> nat option \<Rightarrow> (nat option \<times> nat option) res" where
  "find_node 0 thread l tmp prev = Inl Diverges"
| "find_node (Suc fuel) thread l tmp prev =
     (if tmp = None then Inr (tmp, prev)
      else bind_res (cell l tmp) (\<lambda>c.
        if nt_thread (le_item c) = thread then Inr (tmp, prev)
        else find_node fuel thread l (le_next c) tmp))"

definition removeFromList :: "nat \<Rightarrow> 'h system \<Rightarrow> 'h system res" where
  "removeFromList thread s =
     (let l = allThreads s in
      bind_res (find_node (Suc (brk l)) thread l (lfirst l) None) (\<lambda>(tmp, prev).
      if tmp = None then Inr s
      else bind_res (cell l tmp) (\<lambda>c.
        bind_res (if prev \<noteq> None
            then bind_res (set_next prev (le_next c) l) (\<lambda>l1.
              Inr (if le_next c = None then l1\<lparr>llast := prev\<rparr> else l1))
            else let l1 = l\<lparr>lfirst := le_next c\<rparr> in
              bind_res (cell l1 (lfirst l1)) (\<lambda>h.
              Inr (if le_next h = None then l1\<lparr>llast := le_next c\<rparr> else l1))) (\<lambda>l2.
        Inr (s\<lparr>allThreads := ListElement_delete tmp l2\<rparr>)))))"

section \<open>The ready list\<close>

text \<open>\<open>ThreadOrder\<close> reads the priorities through the pointers; threads in the ready list are live.\<close>

definition prio :: "'h system \<Rightarrow> nat \<Rightarrow> int" where
  "prio s t = (case threads s t of None \<Rightarrow> 0 | Some th \<Rightarrow> Priority th)"

definition ThreadOrder :: "'h system \<Rightarrow> nat \<Rightarrow> nat \<Rightarrow> bool" where
  "ThreadOrder s t1 t2 \<longleftrightarrow> prio s t1 < prio s t2"

definition ReadyToRun :: "nat \<Rightarrow> 'h system \<Rightarrow> 'h system res" where
  "ReadyToRun thread s =
     (let s1 = (if thread \<noteq> currentThread s then setNeedResched s else s) in
      bind_res (setStatus thread READY s1) (\<lambda>s2.
      bind_res (Insert (ThreadOrder s2) thread (readyList s2)) (\<lambda>l.
      Inr (s2\<lparr>readyList := l\<rparr>))))"

definition all_finished :: "'h system \<Rightarrow> bool res" where
  "all_finished s =
     bind_res (cell (allThreads s) (lfirst (allThreads s))) (\<lambda>h.
     bind_res (cell (allThreads s) (llast (allThreads s))) (\<lambda>t.
     let lastThread = nt_thread (le_item h) in
     if lastThread = nt_thread (le_item t) then
       bind_res (getStatus lastThread s) (\<lambda>st. Inr (st = ZOMBIE))
     else Inr False))"

definition FindNextToRun :: "'h system \<Rightarrow> (nat option \<times> 'h system) res" where
  "FindNextToRun s =
     bind_res (getStatus (currentThread s) s) (\<lambda>st.
     assert_res (st \<noteq> RUNNING) (\<lambda>_.
     bind_res (all_finished s) (\<lambda>fin.
     if fin then Halt s
     else bind_res (Remove (readyList s)) (\<lambda>(n, l). Inr (n, s\<lparr>readyList := l\<rparr>)))))"

definition GetThis :: "nat \<Rightarrow> 'h system \<Rightarrow> (nat option \<times> 'h system) res" where
  "GetThis thread s = bind_res (Remove_item thread (readyList s)) (\<lambda>(n, l). Inr (n, s\<lparr>readyList := l\<rparr>))"

section \<open>Threads come and go\<close>

text \<open>\<open>KernelSemaphore::~KernelSemaphore\<close> makes every waiting thread ready.\<close>

fun wake_all :: "nat \<Rightarrow> nat List \<Rightarrow> 'h system \<Rightarrow> 'h system res" where
  "wake_all 0 q s = Inl Diverges"
| "wake_all (Suc fuel) q s =
     bind_res (Remove q) (\<lambda>(thread, q1).
     case thread of None \<Rightarrow> Inr s | Some t \<Rightarrow> bind_res (ReadyToRun t s) (wake_all fuel q1))"

definition KernelSemaphore_delete :: "KernelSemaphore \<Rightarrow> 'h system \<Rightarrow> 'h system res" where
  "KernelSemaphore_delete sem s = wake_all (Suc (brk (sem_queue sem))) (sem_queue sem) s"

definition KernelSemaphore_new :: "int \<Rightarrow> KernelSemaphore" where
  "KernelSemaphore_new initialValue = \<lparr>sem_value = initialValue, sem_queue = List_new\<rparr>"

definition Statistics_new :: Statistics where
  "Statistics_new = \<lparr>ps_totalTicks = 0, ps_systemTicks = 0, ps_userTicks = 0, ps_numContextSwitches = 0,
     ps_numVolContextSwitches = 0, ps_numInvolContextSwitches = 0\<rparr>"

text \<open>\<open>Thread::Thread\<close>; \<open>junk\<close> is what \<open>userRegisters\<close>, which it leaves alone, hold.\<close>

definition Thread_new :: "(nat \<Rightarrow> uint32) \<Rightarrow> 'h system \<Rightarrow> (nat \<times> 'h system) res" where
  "Thread_new junk s =
     (let this = nextThread s in
      bind_res (addToList this s) (\<lambda>(tid, s1).
      Inr (this, s1\<lparr>nextThread := Suc this, threads := (threads s1)(this \<mapsto>
        \<lparr>frames = [], tstatus = JUST_CREATED, Priority = 20, ThreadID = tid, ChildList = List_new, Children = 0,
         ParentPtr = None, exitval = 0, ChildExited = KernelSemaphore_new 0, hasReachedExit = False,
         thread_exit_status = False, runNow = False, wssRefreshCounter = 0, userRegisters = junk,
         FDTable = Some \<lparr>fd_type = ConsoleFile, openfile = None\<rparr> # Some \<lparr>fd_type = ConsoleFile, openfile = None\<rparr> #
           replicate (MAX_FD - 2) None,
         tspace = None, procStats = Statistics_new\<rparr>)\<rparr>)))"

definition Thread_delete :: "nat \<Rightarrow> 'h system \<Rightarrow> 'h system res" where
  "Thread_delete this s =
     assert_res (this \<noteq> currentThread s) (\<lambda>_.
     bind_res (get_thread this s) (\<lambda>th.
     let s0 = close_files (take MAX_FD (FDTable th)) s in
     bind_res (case tspace th of None \<Rightarrow> Inr s0 | Some sid \<Rightarrow> AddrSpace_delete s0 sid) (\<lambda>s1.
     bind_res (KernelSemaphore_delete (ChildExited th) s1) (\<lambda>s2.
     bind_res (removeFromList this s2) (\<lambda>s3.
     Inr (s3\<lparr>threads := (threads s3)(this := None)\<rparr>))))))"

definition Fork :: "nat \<Rightarrow> 'h \<Rightarrow> nat \<Rightarrow> 'h system \<Rightarrow> (int \<times> 'h system) res" where
  "Fork this func arg s =
     bind_res (upd_thread this (frames_update (\<lambda>_. [ThreadRoot_frame func arg])) s) (\<lambda>s1.
     bind_res (Get_Id this s1) (\<lambda>pid. Inr (pid, s1)))"

section \<open>Dispatching\<close>

definition push_frame :: "nat \<Rightarrow> 'h frame \<Rightarrow> 'h system \<Rightarrow> 'h system res" where
  "push_frame t f = upd_thread t (\<lambda>th. th\<lparr>frames := f # frames th\<rparr>)"

definition SWITCH :: "nat \<Rightarrow> nat \<Rightarrow> 'h system \<Rightarrow> 'h system res" where
  "SWITCH oldThread newThread s =
     (if oldThread \<noteq> newThread then upd_thread newThread (runNow_update (\<lambda>_. True)) s else Inr s)"

definition count_switch :: "bool \<Rightarrow> Statistics \<Rightarrow> Statistics" where
  "count_switch invol st =
     (let st1 = st\<lparr>ps_numContextSwitches := ps_numContextSwitches st + 1\<rparr> in
      if invol then st1\<lparr>ps_numInvolContextSwitches := ps_numInvolContextSwitches st1 + 1\<rparr>
      else st1\<lparr>ps_numVolContextSwitches := ps_numVolContextSwitches st1 + 1\<rparr>)"

text \<open>\<open>Scheduler::Run\<close> up to \<open>SWITCH\<close>, and from there on in the thread that resumes.\<close>

definition Run_leave :: "nat \<Rightarrow> 'h system \<Rightarrow> 'h system res" where
  "Run_leave next s =
     (let oldThread = currentThread s in
      bind_res (get_thread oldThread s) (\<lambda>old.
      assert_res (tstatus old \<noteq> RUNNING) (\<lambda>_.
      bind_res (if tspace old \<noteq> None then SaveUserState oldThread s else Inr s) (\<lambda>s1.
      bind_res (get_thread next s1) (\<lambda>new.
      bind_res (setStatus next RUNNING (s1\<lparr>currentThread := next, currentSpace := tspace new\<rparr>)) (\<lambda>s2.
      bind_res (upd_thread next (\<lambda>th. th\<lparr>procStats := count_switch (wasYieldOnReturn s2) (procStats th)\<rparr>)
          (s2\<lparr>numContextSwitches := numContextSwitches s2 + 1\<rparr>)) (\<lambda>s3.
      SWITCH oldThread next (s3\<lparr>wasYieldOnReturn := False\<rparr>))))))))"

definition Run_resume :: "'h system \<Rightarrow> 'h system res" where
  "Run_resume s =
     bind_res (case threadToBeDestroyed s of None \<Rightarrow> Inr s
       | Some z \<Rightarrow> bind_res (Thread_delete z s) (\<lambda>s1. Inr (s1\<lparr>threadToBeDestroyed := None\<rparr>))) (\<lambda>s1.
     bind_res (get_thread (currentThread s1) s1) (\<lambda>th.
     case tspace th of None \<Rightarrow> Inr s1
     | Some sid \<Rightarrow> bind_res (RestoreUserState (currentThread s1) s1) (RestoreState sid)))"

definition never_ran :: "'h Thread \<Rightarrow> bool" where
  "never_ran th \<longleftrightarrow> (case frames th of ThreadRoot_frame _ _ # _ \<Rightarrow> True | _ \<Rightarrow> False)"

definition Run :: "nat \<Rightarrow> 'h system \<Rightarrow> 'h system res" where
  "Run next s =
     bind_res (Run_leave next s) (\<lambda>s1.
     bind_res (get_thread next s1) (\<lambda>th.
     if never_ran th then Inr s1 else Run_resume s1))"

text \<open>\<open>Thread::Yield\<close> until the CPU is in the next thread; the level to restore stays in its frame.\<close>

definition Yield :: "nat \<Rightarrow> 'h system \<Rightarrow> 'h system res" where
  "Yield this s =
     bind_res (SetLevel Inr IntOff s) (\<lambda>(oldLevel, s1).
     assert_res (this = currentThread s1) (\<lambda>_.
     bind_res (ReadyToRun this s1) (\<lambda>s2.
     bind_res (FindNextToRun s2) (\<lambda>(next, s3).
     assert_res (next \<noteq> None) (\<lambda>_.
     bind_res (push_frame this (Yield_frame oldLevel) s3) (\<lambda>s4.
     deref_res next (\<lambda>n. Run n s4)))))))"

definition ForceYield :: "('h system \<Rightarrow> 'h system res) \<Rightarrow> nat \<Rightarrow> nat \<Rightarrow> 'h system \<Rightarrow> 'h system res" where
  "ForceYield tick this next s =
     bind_res (SetLevel Inr IntOff s) (\<lambda>(oldLevel, s1).
     assert_res (this = currentThread s1) (\<lambda>_.
     bind_res (GetThis next s1) (\<lambda>(n, s2).
     case n of
       Some nt \<Rightarrow> bind_res (ReadyToRun this s2) (\<lambda>s3. bind_res (push_frame this (Yield_frame oldLevel) s3) (Run nt))
     | None \<Rightarrow> bind_res (SetLevel tick oldLevel s2) (\<lambda>(_, s3). Inr s3))))"

definition Switch_To :: "nat option \<Rightarrow> 'h system \<Rightarrow> 'h system res" where
  "Switch_To newthread s =
     (case newthread of None \<Rightarrow> Inr s
      | Some t \<Rightarrow>
        bind_res (getStatus t s) (\<lambda>st.
        if st \<noteq> READY then Inr s
        else bind_res (Delete t (readyList s)) (\<lambda>l.
          bind_res (Prepend t l) (\<lambda>l1.
          Yield (currentThread s) (s\<lparr>readyList := l1\<rparr>)))))"

definition Scheduler_new :: "nat \<Rightarrow> 'h system \<Rightarrow> 'h system" where
  "Scheduler_new quantum_in s = s\<lparr>threadid := 1, readyList := List_new, quantum := quantum_in\<rparr>"

definition Quantum :: "'h system \<Rightarrow> nat" where
  "Quantum s = quantum s"

end
