(* ===== verification/Scheduler_Inv.thy ===== *)
theory Scheduler_Inv
  imports Scheduler
begin

text \<open>
  The invariant of the thread system and what the scheduler's operations do under it: the ready list
  holds exactly the ready threads, best priority first, the list of all threads holds exactly
  the live ones, and at most the current thread is running.
\<close>

section \<open>The list of all threads\<close>

lemma addToList_ok:
  assumes "represents (allThreads s) ns"
  shows "\<exists>l. addToList t s = Inr (threadid s, s\<lparr>threadid := threadid s + 1, allThreads := l\<rparr>) \<and>
    represents l (ns @ [\<lparr>nt_thread = t, nt_ID = threadid s\<rparr>])"
proof -
  let ?n = "\<lparr>nt_thread = t, nt_ID = threadid s\<rparr>"
  from assms obtain as where as: "list_at (allThreads s) as" by (auto simp: represents_def)
  have "llast (allThreads s) = None \<longleftrightarrow> IsEmpty (allThreads s)"
    using list_atD(5,6) [OF as] by (simp add: IsEmpty_def)
  moreover from Append_ok [OF assms, of ?n] obtain l where l: "Append ?n (allThreads s) = Inr l"
    "represents l (ns @ [?n])" by blast
  ultimately have "addToList t s = Inr (threadid s, s\<lparr>threadid := threadid s + 1, allThreads := l\<rparr>)"
    by (auto simp: addToList_def Append_def ListElement_new_def IsEmpty_def bind_res_def split: sum.splits if_splits)
  with l(2) show ?thesis by blast
qed

lemma find_node_ok:
  assumes "seg (heap l) p (mid @ b # suf) None" "heap l b = Some d" "nt_thread (le_item d) = t"
    and "\<forall>a \<in> set mid. nt_thread (le_item (the (heap l a))) \<noteq> t" "length mid < fuel"
  shows "find_node fuel t l p prev = Inr (Some b, if mid = [] then prev else Some (last mid))"
  using assms
proof (induction mid arbitrary: p prev fuel)
  case Nil
  then show ?case by (cases fuel) (auto simp: cell_def)
next
  case (Cons a mid)
  then obtain c n where c: "p = Some a" "heap l a = Some c" "seg (heap l) (le_next c) (mid @ b # suf) None"
    "fuel = Suc n" by (cases fuel) auto
  with Cons.IH [of "le_next c" n p] Cons.prems show ?case by (auto simp: cell_def)
qed

lemma unlink_node:
  assumes at: "list_at l (pre @ b # suf)" and d: "heap l b = Some d" and ne: "pre \<noteq> [] \<or> suf \<noteq> []"
  shows "\<exists>l2. (if pre \<noteq> [] then bind_res (set_next (Some (last pre)) (le_next d) l) (\<lambda>l1.
              Inr (if le_next d = None then l1\<lparr>llast := Some (last pre)\<rparr> else l1))
            else let l1 = l\<lparr>lfirst := le_next d\<rparr> in
              bind_res (cell l1 (lfirst l1)) (\<lambda>h.
              Inr (if le_next h = None then l1\<lparr>llast := le_next d\<rparr> else l1))) = Inr l2 \<and>
     list_at (ListElement_delete (Some b) l2) (pre @ suf) \<and>
     items_at (heap (ListElement_delete (Some b) l2)) (pre @ suf) = items_at (heap l) (pre @ suf)"
proof -
  note a = list_atD [OF at]
  have nd: "seg (heap l) (le_next d) suf None" using a(1) d by (auto simp: seg_append)
  show ?thesis
  proof (cases pre rule: rev_cases)
    case Nil
    with ne obtain x xs where suf: "suf = x # xs" by (cases suf) auto
    with nd obtain c where c: "le_next d = Some x" "heap l x = Some c" "seg (heap l) (le_next c) xs None" by auto
    let ?l = "l\<lparr>lfirst := Some x, llast := Some (last suf)\<rparr>"
    have "le_next c = None \<longleftrightarrow> xs = []" using seg_first [OF c(3)] .
    then have "(if le_next c = None then l\<lparr>lfirst := Some x, llast := Some x\<rparr> else l\<lparr>lfirst := Some x\<rparr>) = ?l"
      using suf a(6) Nil by auto
    moreover have "list_at (ListElement_delete (Some b) ?l) suf"
      using a nd c(1) Nil suf by (auto simp: list_at_def ListElement_delete_def)
    moreover have "items_at (heap (ListElement_delete (Some b) ?l)) suf = items_at (heap l) suf"
      using a(2) Nil by (simp add: ListElement_delete_def)
    moreover have "(let l1 = l\<lparr>lfirst := le_next d\<rparr> in bind_res (cell l1 (lfirst l1)) (\<lambda>h.
        Inr (if le_next h = None then l1\<lparr>llast := le_next d\<rparr> else l1))) =
        Inr (if le_next c = None then l\<lparr>lfirst := Some x, llast := Some x\<rparr> else l\<lparr>lfirst := Some x\<rparr>)"
      using c by (simp add: cell_def Let_def)
    ultimately show ?thesis using Nil by auto
  next
    case (snoc pr p)
    from a(1) snoc obtain c where c: "heap l p = Some c" by (auto simp: seg_append)
    let ?l = "l\<lparr>heap := (heap l)(p \<mapsto> c\<lparr>le_next := le_next d\<rparr>),
                llast := if suf = [] then Some p else llast l\<rparr>"
    have "le_next d = None \<longleftrightarrow> suf = []" using seg_first [OF nd] .
    then have "bind_res (set_next (Some (last pre)) (le_next d) l) (\<lambda>l1.
              Inr (if le_next d = None then l1\<lparr>llast := Some (last pre)\<rparr> else l1)) = Inr ?l"
      using snoc c by (auto simp: set_next_def)
    moreover from seg_unlink [of "heap l" "lfirst l" pr p b suf c d] a(1,2) snoc c d
    have "seg (heap (ListElement_delete (Some b) ?l)) (lfirst l) (pre @ suf) None"
      "items_at (heap (ListElement_delete (Some b) ?l)) (pre @ suf) = items_at (heap l) (pre @ suf)"
      by (simp_all add: ListElement_delete_def)
    moreover have "dom (heap (ListElement_delete (Some b) ?l)) = set (pre @ suf)"
      using a(2,3) snoc by (auto simp: ListElement_delete_def)
    moreover have "brk (ListElement_delete (Some b) ?l) = brk l" "lfirst (ListElement_delete (Some b) ?l) = lfirst l"
      "llast (ListElement_delete (Some b) ?l) = Some (last (pre @ suf))"
      using snoc a(6) by (auto simp: ListElement_delete_def)
    ultimately show ?thesis using a(2,4) snoc by (auto simp: list_at_def)
  qed
qed

lemma split_at_first:
  assumes "x \<in> f ` set xs"
  obtains pre b suf where "xs = pre @ b # suf" "f b = x" "\<forall>a \<in> set pre. f a \<noteq> x"
  using split_list_first_prop [of xs "\<lambda>b. f b = x"] assms by auto

lemma removeFromList_ok:
  assumes "represents (allThreads s) ns" "distinct (map nt_thread ns)" "t \<in> nt_thread ` set ns" "2 \<le> length ns"
  shows "\<exists>l. removeFromList t s = Inr (s\<lparr>allThreads := l\<rparr>) \<and> represents l (filter (\<lambda>n. nt_thread n \<noteq> t) ns)"
proof -
  let ?l = "allThreads s"
  from assms(1) obtain as where as: "list_at ?l as" and ns: "ns = items_at (heap ?l) as"
    by (auto simp: represents_def)
  let ?f = "\<lambda>a. nt_thread (le_item (the (heap ?l a)))"
  have "t \<in> ?f ` set as" using assms(3) ns by (auto simp: items_at_def)
  from split_at_first [OF this] obtain pre b suf where p: "as = pre @ b # suf" "?f b = t"
    "\<forall>a \<in> set pre. ?f a \<noteq> t" by blast
  note a = list_atD [OF as]
  from a(1) p(1) obtain d where d: "heap ?l b = Some d" by (auto simp: seg_append)
  have "length pre < Suc (brk ?l)" using list_at_length [OF as] p(1) by simp
  with find_node_ok [of ?l "lfirst ?l" pre b suf d t "Suc (brk ?l)" None] a(1) p d
  have fn: "find_node (Suc (brk ?l)) t ?l (lfirst ?l) None = Inr (Some b, if pre = [] then None else Some (last pre))"
    by simp
  have "pre \<noteq> [] \<or> suf \<noteq> []" using assms(4) ns p(1) by auto
  from unlink_node [OF as [unfolded p(1)] d this] obtain l2 where l2: "(if pre \<noteq> [] then bind_res (set_next (Some (last pre)) (le_next d) ?l) (\<lambda>l1.
              Inr (if le_next d = None then l1\<lparr>llast := Some (last pre)\<rparr> else l1))
            else let l1 = ?l\<lparr>lfirst := le_next d\<rparr> in
              bind_res (cell l1 (lfirst l1)) (\<lambda>h.
              Inr (if le_next h = None then l1\<lparr>llast := le_next d\<rparr> else l1))) = Inr l2"
     "list_at (ListElement_delete (Some b) l2) (pre @ suf)"
     "items_at (heap (ListElement_delete (Some b) l2)) (pre @ suf) = items_at (heap ?l) (pre @ suf)" by blast
  have "removeFromList t s = Inr (s\<lparr>allThreads := ListElement_delete (Some b) l2\<rparr>)"
    using fn d l2(1) by (cases "pre = []") (simp_all add: removeFromList_def cell_def)
  moreover have "items_at (heap ?l) (pre @ suf) = filter (\<lambda>n. nt_thread n \<noteq> t) ns"
  proof -
    have "filter (\<lambda>n. nt_thread n \<noteq> t) (items_at (heap ?l) pre) = items_at (heap ?l) pre"
      "filter (\<lambda>n. nt_thread n \<noteq> t) (items_at (heap ?l) suf) = items_at (heap ?l) suf"
      using assms(2) p ns by (auto simp: filter_id_conv items_at_def) (metis image_eqI)
    then show ?thesis using ns p(1,2) by simp
  qed
  ultimately show ?thesis using l2(2,3) unfolding represents_def by metis
qed

text \<open>The destructor of the only thread reads through the null head.\<close>

lemma removeFromList_last:
  assumes "represents (allThreads s) [n]" "nt_thread n = t"
  shows "removeFromList t s = Inl NullPointer"
proof -
  from assms(1) obtain as where as: "list_at (allThreads s) as" and n: "[n] = items_at (heap (allThreads s)) as"
    by (auto simp: represents_def)
  then obtain b where b: "as = [b]" by (cases as; cases "tl as") auto
  with list_atD(1) [OF as] obtain d where "heap (allThreads s) b = Some d" "lfirst (allThreads s) = Some b"
    "le_next d = None" by auto
  with b n assms(2) show ?thesis by (simp add: removeFromList_def cell_def)
qed

end
