(* ===== verification/Dispatch.thy ===== *)
theory Dispatch
  imports Scheduler_Inv
begin

text \<open>
  What \<open>ReadyToRun\<close>, \<open>FindNextToRun\<close>, \<open>Run\<close>, \<open>Yield\<close> and the destructor of a thread do to a state with the
  invariant of the thread system.
\<close>

section \<open>Invariants\<close>

definition ready_inv :: "'h system \<Rightarrow> nat list \<Rightarrow> bool" where
  "ready_inv s xs \<longleftrightarrow> represents (readyList s) xs \<and> distinct xs \<and> sorted (map (prio s) xs) \<and>
     set xs = {t. \<exists>th. threads s t = Some th \<and> tstatus th = READY}"

definition all_inv :: "'h system \<Rightarrow> bool" where
  "all_inv s \<longleftrightarrow> (\<exists>ns. represents (allThreads s) ns \<and> distinct (map nt_thread ns) \<and>
     nt_thread ` set ns = dom (threads s)) \<and> (\<forall>t \<in> dom (threads s). t < nextThread s)"

definition space_inv :: "'h system \<Rightarrow> bool" where
  "space_inv s \<longleftrightarrow>
     (\<forall>t th sid. threads s t = Some th \<longrightarrow> tspace th = Some sid \<longrightarrow> spaces s sid \<noteq> None) \<and>
     (\<forall>t u th uh sid. threads s t = Some th \<longrightarrow> tspace th = Some sid \<longrightarrow>
        threads s u = Some uh \<longrightarrow> tspace uh = Some sid \<longrightarrow> t = u) \<and>
     map_option tspace (threads s (currentThread s)) = Some (currentSpace s)"

text \<open>A thread may be destroyed: nobody waits for its children, and page 0 has a real frame number.\<close>

definition deletable :: "'h system \<Rightarrow> 'h Thread \<Rightarrow> bool" where
  "deletable s th \<longleftrightarrow> tstatus th = ZOMBIE \<and> represents (sem_queue (ChildExited th)) [] \<and>
     (\<forall>sid te. tspace th = Some sid \<longrightarrow> ent (spaces s) sid 0 = Some te \<longrightarrow> physicalPage te < NumPhysPages)"

definition zombie_inv :: "'h system \<Rightarrow> bool" where
  "zombie_inv s \<longleftrightarrow> (\<forall>z. threadToBeDestroyed s = Some z \<longrightarrow> (\<exists>th. threads s z = Some th \<and> deletable s th))"

definition sched_inv :: "'h system \<Rightarrow> bool" where
  "sched_inv s \<longleftrightarrow> (\<exists>xs. ready_inv s xs) \<and> all_inv s \<and> space_inv s \<and> zombie_inv s \<and> vm_inv s \<and>
     (\<forall>t th. threads s t = Some th \<longrightarrow> tstatus th = RUNNING \<longrightarrow> t = currentThread s)"

definition running :: "'h system \<Rightarrow> bool" where
  "running s \<longleftrightarrow> map_option tstatus (threads s (currentThread s)) = Some RUNNING"

text \<open>The part of the state that the memory invariant reads.\<close>

definition vm_core where
  "vm_core s = (mainMemory s, page_flags s, Frames s, frame_flags s, swapFrames s, swapFile s, files s, spaces s)"

lemma vm_core_inv: "vm_core s = vm_core t \<Longrightarrow> vm_inv_except X s = vm_inv_except X t"
  by (simp add: vm_core_def vm_inv_defs maps_def swapped_def)

lemma vm_core_vbyte: "vm_core s = vm_core t \<Longrightarrow> vbyte s = vbyte t"
  by (intro ext) (simp add: vm_core_def vbyte_def)

lemma vm_core_upd [simp]:
  fixes s :: "'h system"
  shows "vm_core (s\<lparr>threads := a\<rparr>) = vm_core s" "vm_core (s\<lparr>readyList := b\<rparr>) = vm_core s"
    "vm_core (s\<lparr>needResched := c\<rparr>) = vm_core s" "vm_core (s\<lparr>currentThread := d\<rparr>) = vm_core s"
    "vm_core (s\<lparr>currentSpace := e\<rparr>) = vm_core s" "vm_core (s\<lparr>registers := f\<rparr>) = vm_core s"
    "vm_core (s\<lparr>installed := g\<rparr>) = vm_core s" "vm_core (s\<lparr>allThreads := h\<rparr>) = vm_core s"
    "vm_core (s\<lparr>level := i\<rparr>) = vm_core s" "vm_core (s\<lparr>threadToBeDestroyed := j\<rparr>) = vm_core s"
    "vm_core (s\<lparr>numContextSwitches := k\<rparr>) = vm_core s" "vm_core (s\<lparr>wasYieldOnReturn := l\<rparr>) = vm_core s"
    "vm_core (s\<lparr>threadid := m\<rparr>) = vm_core s" "vm_core (s\<lparr>nextThread := n\<rparr>) = vm_core s"
    "vm_core (s\<lparr>closedFiles := c'\<rparr>) = vm_core s"
  by (simp_all add: vm_core_def)

lemma prio_cong: "map_option Priority \<circ> threads s = map_option Priority \<circ> threads t \<Longrightarrow> prio s = prio t"
proof
  fix u
  assume "map_option Priority \<circ> threads s = map_option Priority \<circ> threads t"
  then have "map_option Priority (threads s u) = map_option Priority (threads t u)" by (metis comp_apply)
  then show "prio s u = prio t u" by (auto simp: prio_def split: option.splits)
qed

section \<open>Making a thread ready\<close>

definition made_ready :: "nat \<Rightarrow> 'h Thread \<Rightarrow> nat List \<Rightarrow> 'h system \<Rightarrow> 'h system" where
  "made_ready t th l s = s\<lparr>needResched := needResched s \<or> t \<noteq> currentThread s,
     threads := (threads s)(t \<mapsto> th\<lparr>tstatus := READY\<rparr>), readyList := l\<rparr>"

lemma ReadyToRun_ok:
  assumes inv: "ready_inv s xs" and t: "threads s t = Some th" "tstatus th \<noteq> READY"
  shows "\<exists>l. ReadyToRun t s = Inr (made_ready t th l s) \<and>
    ready_inv (made_ready t th l s) (insert_by (\<lambda>x y. prio s x < prio s y) t xs)"
proof -
  let ?put = "insert_by (\<lambda>x y. prio s x < prio s y)"
  let ?s1 = "if t \<noteq> currentThread s then setNeedResched s else s"
  let ?s2 = "s\<lparr>needResched := needResched s \<or> t \<noteq> currentThread s, threads := (threads s)(t \<mapsto> th\<lparr>tstatus := READY\<rparr>)\<rparr>"
  have s2: "setStatus t READY ?s1 = Inr ?s2"
    using t(1) by (cases "t = currentThread s") (auto simp: setStatus_def setNeedResched_def)
  have pr: "prio (made_ready t th l s) = prio s" "prio ?s2 = prio s" for l
    using t(1) by (auto simp: prio_def made_ready_def fun_eq_iff)
  have rep: "represents (readyList ?s2) xs" using inv by (simp add: ready_inv_def)
  obtain l where l: "Insert (ThreadOrder ?s2) t (readyList ?s2) = Inr l" "represents l (?put t xs)"
  proof -
    have "ThreadOrder ?s2 = (\<lambda>x y. prio s x < prio s y)" by (intro ext) (simp add: ThreadOrder_def pr(2))
    with Insert_ok [OF rep, of "ThreadOrder ?s2" t] that show thesis by auto
  qed
  have "ReadyToRun t s = Inr (made_ready t th l s)"
    unfolding ReadyToRun_def Let_def s2 bind_res_Inr l(1) by (simp add: made_ready_def)
  moreover have "ready_inv (made_ready t th l s) (?put t xs)"
    unfolding ready_inv_def pr
  proof (intro conjI)
    show "represents (readyList (made_ready t th l s)) (?put t xs)" using l(2) by (simp add: made_ready_def)
    have "mset (?put t xs) = mset (t # xs)" using sorted_list.put_mset [of "prio s" t xs] by simp
    moreover have "distinct (t # xs)" using inv t by (auto simp: ready_inv_def)
    ultimately show "distinct (?put t xs)" by (metis mset_eq_imp_distinct_iff)
    show "sorted (map (prio s) (?put t xs))" using inv by (simp add: ready_inv_def sorted_list.put_sorted)
    show "set (?put t xs) = {u. \<exists>uh. threads (made_ready t th l s) u = Some uh \<and> tstatus uh = READY}"
      using inv t by (auto simp: ready_inv_def made_ready_def)
  qed
  ultimately show ?thesis by blast
qed

section \<open>Choosing the next thread\<close>

lemma all_finished_ok:
  assumes "all_inv s" "threads s t = Some th"
  shows "all_finished s = Inr (dom (threads s) = {t} \<and> tstatus th = ZOMBIE)"
proof -
  from assms(1) obtain ns where ns: "represents (allThreads s) ns" "distinct (map nt_thread ns)"
    "nt_thread ` set ns = dom (threads s)" by (auto simp: all_inv_def)
  with assms(2) have "ns \<noteq> []" by auto
  then obtain n ns' where n: "ns = n # ns'" by (cases ns) auto
  have hd: "bind_res (cell (allThreads s) (lfirst (allThreads s))) (\<lambda>c. Inr (le_item c)) = Inr n"
    using Head_ok [OF ns(1)] n by (auto simp: Head_def bind_res_def deref_res_def split: if_splits sum.splits)
  have tl: "bind_res (cell (allThreads s) (llast (allThreads s))) (\<lambda>c. Inr (le_item c)) = Inr (last ns)"
    using Tail_ok [OF ns(1)] n by (auto simp: Tail_def bind_res_def deref_res_def split: if_splits sum.splits)
  from hd tl obtain h l where hl: "cell (allThreads s) (lfirst (allThreads s)) = Inr h" "le_item h = n"
    "cell (allThreads s) (llast (allThreads s)) = Inr l" "le_item l = last ns"
    by (auto simp: bind_res_eq_Inr)
  have "nt_thread n = nt_thread (last ns) \<longleftrightarrow> ns' = []"
    using ns(2) n by (auto simp: image_iff)
  moreover have "ns' = [] \<longleftrightarrow> dom (threads s) = {nt_thread n}"
    using ns(2,3) n by (cases ns') auto
  moreover have "dom (threads s) = {nt_thread n} \<Longrightarrow> t = nt_thread n" using assms(2) by blast
  moreover have "dom (threads s) = {t} \<Longrightarrow> t = nt_thread n" using ns(3) n by auto
  ultimately have one: "nt_thread n = nt_thread (last ns) \<longleftrightarrow> dom (threads s) = {t}"
    "dom (threads s) = {t} \<Longrightarrow> nt_thread n = t" by metis+
  show ?thesis
  proof (cases "dom (threads s) = {t}")
    case True
    with one hl assms(2) show ?thesis by (simp add: all_finished_def getStatus_def)
  next
    case False
    with one(1) hl show ?thesis by (simp add: all_finished_def)
  qed
qed

lemma FindNextToRun_ok:
  assumes "ready_inv s xs" "all_inv s" "threads s (currentThread s) = Some th" "tstatus th \<noteq> RUNNING"
    and "\<not> (dom (threads s) = {currentThread s} \<and> tstatus th = ZOMBIE)"
  shows "\<exists>l. FindNextToRun s = Inr (case xs of [] \<Rightarrow> None | x # _ \<Rightarrow> Some x, s\<lparr>readyList := l\<rparr>) \<and>
    represents l (tl xs)"
proof -
  from Remove_ok [of "readyList s" xs] assms(1) obtain l where
    "Remove (readyList s) = Inr (case xs of [] \<Rightarrow> None | x # _ \<Rightarrow> Some x, l)" "represents l (tl xs)"
    by (auto simp: ready_inv_def)
  with all_finished_ok [OF assms(2,3)] assms(3-5) show ?thesis
    by (auto simp: FindNextToRun_def getStatus_def)
qed

lemma FindNextToRun_halts:
  assumes "all_inv s" "threads s (currentThread s) = Some th" "tstatus th = ZOMBIE"
    "dom (threads s) = {currentThread s}"
  shows "FindNextToRun s = Inl Halted"
  using all_finished_ok [OF assms(1,2)] assms(2-4) by (simp add: FindNextToRun_def getStatus_def Halt_def)

end
