(* ===== verification/Thread_Delete.thy ===== *)
theory Thread_Delete
  imports Dispatch
begin

text \<open>
  The destructor of a thread: its address space is released, it leaves the list of all threads, and
  the other threads and the memory of the other processes stay as they are.
\<close>

section \<open>Destroying a thread\<close>

text \<open>Memory operations leave the thread system and the set of address spaces alone.\<close>

definition vm_frame :: "'a vm_scheme \<Rightarrow> 'a vm_scheme \<Rightarrow> bool" where
  "vm_frame s t \<longleftrightarrow> vm.more t = vm.more s \<and> currentThread t = currentThread s \<and> totalTicks t = totalTicks s \<and>
     currentSpace t = currentSpace s \<and> (\<forall>ow. spaces t ow = None \<longleftrightarrow> spaces s ow = None)"

lemma vm_frame_refl [simp]: "vm_frame s s"
  by (simp add: vm_frame_def)

lemma vm_frame_trans: "vm_frame s t \<Longrightarrow> vm_frame t u \<Longrightarrow> vm_frame s u"
  by (simp add: vm_frame_def)

lemma upd_te_frame: "upd_te s sid v f = Inr t \<Longrightarrow> vm_frame s t"
  by (auto simp: upd_te_def vm_frame_def res_eq_Inr split: if_splits)

lemma release_page_frame: "release_page s p sid = Inr t \<Longrightarrow> vm_frame s t"
  by (auto simp: release_page_def vm_frame_def bind_res_eq_Inr split: if_splits)

lemma release_frame_frame: "release_frame s off sid = Inr t \<Longrightarrow> vm_frame s t"
  by (auto simp: release_frame_def vm_frame_def bind_res_eq_Inr Let_def split: if_splits)

lemma unshare_last_frame: "unshare_last s f = Inr t \<Longrightarrow> vm_frame s t"
  by (auto simp: unshare_last_def res_eq_Inr split: if_splits intro: upd_te_frame)

lemma AddrSpace_release_page_frame: "AddrSpace_release_page sid i s = Inr t \<Longrightarrow> vm_frame s t"
  by (auto simp: AddrSpace_release_page_def bind_res_eq_Inr split: if_splits
      intro: vm_frame_trans dest!: release_page_frame unshare_last_frame release_frame_frame)

lemma AddrSpace_delete_frame:
  assumes "AddrSpace_delete s sid = Inr t"
  shows "vm.more t = vm.more s \<and> currentThread t = currentThread s \<and> totalTicks t = totalTicks s \<and>
    currentSpace t = currentSpace s \<and> (\<forall>ow. ow \<noteq> sid \<longrightarrow> (spaces t ow = None \<longleftrightarrow> spaces s ow = None))"
proof -
  from assms obtain a :: AddrSpace and u where u: "fold_res (AddrSpace_release_page sid) [0..<numPages a] s = Inr u"
    "u\<lparr>spaces := (spaces u)(sid := None)\<rparr> = t" unfolding AddrSpace_delete_def res_eq_Inr sum.inject by blast
  have "vm_frame s u"
    by (rule fold_res_invariant [where P = "vm_frame s", OF u(1)])
      (auto dest: AddrSpace_release_page_frame intro: vm_frame_trans)
  with u(2) [symmetric] show ?thesis by (auto simp: vm_frame_def)
qed

lemma system_more:
  fixes s t :: "'h system"
  assumes "vm.more t = vm.more s"
  shows "registers t = registers s" "mstatus t = mstatus s" "threads t = threads s" "nextThread t = nextThread s"
    "threadToBeDestroyed t = threadToBeDestroyed s" "readyList t = readyList s" "allThreads t = allThreads s"
    "level t = level s" "pending t = pending s" "inHandler t = inHandler s" "yieldOnReturn t = yieldOnReturn s"
    "needResched t = needResched s" "wasYieldOnReturn t = wasYieldOnReturn s" "threadid t = threadid s"
    "installed t = installed s" "idleTicks t = idleTicks s" "systemTicks t = systemTicks s"
    "numContextSwitches t = numContextSwitches s" "userTicks t = userTicks s" "quantum t = quantum s"
    "closedFiles t = closedFiles s"
  using assms by (cases s; cases t; simp)+

lemma wake_none: "represents q [] \<Longrightarrow> wake_all (Suc n) q s = Inr s"
  using Remove_ok [of q "[]"] by auto

lemma all_inv_remove:
  assumes "all_inv s" "threads s z = Some th" "threads s u = Some uh" "u \<noteq> z"
  shows "\<exists>l. removeFromList z s = Inr (s\<lparr>allThreads := l\<rparr>) \<and>
    all_inv (s\<lparr>allThreads := l, threads := (threads s)(z := None)\<rparr>)"
proof -
  from assms(1) obtain ns where ns: "represents (allThreads s) ns" "distinct (map nt_thread ns)"
    "nt_thread ` set ns = dom (threads s)" by (auto simp: all_inv_def)
  have "finite (dom (threads s))" by (metis ns(3) List.finite_set finite_imageI)
  then have "card {z, u} \<le> card (nt_thread ` set ns)" using assms(2,3) by (intro card_mono) (auto simp: ns(3))
  also have "\<dots> \<le> length ns" by (metis card_length length_map list.set_map)
  finally have "2 \<le> length ns" using assms(4) by simp
  moreover have "z \<in> nt_thread ` set ns" using assms(2) ns(3) by auto
  ultimately obtain l where l: "removeFromList z s = Inr (s\<lparr>allThreads := l\<rparr>)"
    "represents l (filter (\<lambda>n. nt_thread n \<noteq> z) ns)" using removeFromList_ok ns(1,2) by blast
  have "distinct (map nt_thread (filter (\<lambda>n. nt_thread n \<noteq> z) ns))" using ns(2) by (simp add: distinct_map inj_on_def)
  moreover have "nt_thread ` set (filter (\<lambda>n. nt_thread n \<noteq> z) ns) = dom ((threads s)(z := None))"
    using ns(3) by auto
  ultimately have "all_inv (s\<lparr>allThreads := l, threads := (threads s)(z := None)\<rparr>)"
    using l(2) assms(1) unfolding all_inv_def by (intro conjI exI [of _ "filter (\<lambda>n. nt_thread n \<noteq> z) ns"]) auto
  with l(1) show ?thesis by blast
qed

lemma Thread_delete_ok:
  fixes s :: "'h system"
  assumes z: "threads s z = Some th" "z \<noteq> currentThread s" "deletable s th"
    and cur: "threads s (currentThread s) = Some ch" and inv: "all_inv s" "space_inv s" "vm_inv s"
  shows "\<exists>v l. Thread_delete z s = Inr (v\<lparr>allThreads := l, threads := (threads s)(z := None)\<rparr>) \<and>
    vm.more v = vm.more (close_files (take MAX_FD (FDTable th)) s) \<and> currentThread v = currentThread s \<and>
    totalTicks v = totalTicks s \<and> currentSpace v = currentSpace s \<and> vm_inv v \<and>
    all_inv (v\<lparr>allThreads := l, threads := (threads s)(z := None)\<rparr>) \<and>
    (\<forall>ow. Some ow \<noteq> tspace th \<longrightarrow> (spaces v ow = None \<longleftrightarrow> spaces s ow = None) \<and> (\<forall>w i. vbyte v ow w i = vbyte s ow w i)) \<and>
    (\<forall>ow. Some ow = tspace th \<longrightarrow> spaces v ow = None)"
proof -
  let ?s = "close_files (take MAX_FD (FDTable th)) s"
  have c: "vm_core ?s = vm_core s" "currentThread ?s = currentThread s" "totalTicks ?s = totalTicks s"
    "currentSpace ?s = currentSpace s" "threads ?s = threads s" "allThreads ?s = allThreads s"
    "nextThread ?s = nextThread s" by (simp_all add: close_files_def vm_core_def)
  have sp: "spaces ?s = spaces s" "vbyte ?s = vbyte s" "vm_inv ?s"
    using vm_core_vbyte [OF c(1)] vm_core_inv [OF c(1), of "{}"] inv(3) by (simp_all add: close_files_def)
  have "\<exists>v. (case tspace th of None \<Rightarrow> Inr ?s | Some sid \<Rightarrow> AddrSpace_delete ?s sid) = Inr v \<and>
    vm.more v = vm.more ?s \<and> currentThread v = currentThread s \<and> totalTicks v = totalTicks s \<and> currentSpace v = currentSpace s \<and> vm_inv v \<and>
    (\<forall>ow. Some ow \<noteq> tspace th \<longrightarrow> (spaces v ow = None \<longleftrightarrow> spaces s ow = None) \<and> (\<forall>w i. vbyte v ow w i = vbyte s ow w i)) \<and>
    (\<forall>ow. Some ow = tspace th \<longrightarrow> spaces v ow = None)"
  proof (cases "tspace th")
    case None
    with sp c show ?thesis by simp
  next
    case (Some sid)
    with inv(2) z(1) have "spaces s sid \<noteq> None" unfolding space_inv_def by blast
    then obtain a where "spaces s sid = Some a" by blast
    with sp(1) have "spaces ?s sid = Some a" by simp
    with AddrSpace_delete_ok [OF sp(3) this] z(3) Some sp obtain v where v: "AddrSpace_delete ?s sid = Inr v" "vm_inv v"
      "spaces v sid = None" "\<forall>ow w i. ow \<noteq> sid \<longrightarrow> vbyte v ow w i = vbyte s ow w i"
      by (auto simp: deletable_def)
    with AddrSpace_delete_frame [OF v(1)] Some sp c show ?thesis by auto
  qed
  then obtain v where v: "(case tspace th of None \<Rightarrow> Inr ?s | Some sid \<Rightarrow> AddrSpace_delete ?s sid) = Inr v"
    "vm.more v = vm.more ?s" "currentThread v = currentThread s" "totalTicks v = totalTicks s" "currentSpace v = currentSpace s" "vm_inv v"
    "\<forall>ow. Some ow \<noteq> tspace th \<longrightarrow> (spaces v ow = None \<longleftrightarrow> spaces s ow = None) \<and> (\<forall>w i. vbyte v ow w i = vbyte s ow w i)"
    "\<forall>ow. Some ow = tspace th \<longrightarrow> spaces v ow = None" by blast
  note m = system_more [OF v(2)]
  have "all_inv v" using inv(1) m c by (simp add: all_inv_def)
  moreover have "threads v z = Some th" "threads v (currentThread s) = Some ch" using z(1) cur m c by simp_all
  ultimately obtain l where l: "removeFromList z v = Inr (v\<lparr>allThreads := l\<rparr>)"
    "all_inv (v\<lparr>allThreads := l, threads := (threads v)(z := None)\<rparr>)" using all_inv_remove z(2) by metis
  have "KernelSemaphore_delete (ChildExited th) v = Inr v"
    unfolding KernelSemaphore_delete_def by (rule wake_none) (use z(3) in \<open>simp add: deletable_def\<close>)
  then have "Thread_delete z s = Inr (v\<lparr>allThreads := l, threads := (threads s)(z := None)\<rparr>)"
    using z(1,2) v(1) l(1) m(3) c by (simp add: Thread_delete_def Let_def)
  with v l(2) m(3) c show ?thesis by (intro exI [of _ v] exI [of _ l]) simp
qed

end
