(* ===== verification/Yielding.thy ===== *)
theory Yielding
  imports Thread_Delete
begin

text \<open>
  A context switch: \<open>Scheduler::Run\<close> and \<open>Thread::Yield\<close>, with what they do to the invariant, the ready
  list, the registers of the two threads and the memory of all processes.
\<close>

section \<open>Leaving a thread\<close>

definition saved :: "'h system \<Rightarrow> 'h Thread \<Rightarrow> 'h Thread" where
  "saved s th = (if tspace th \<noteq> None
     then th\<lparr>userRegisters := (\<lambda>i. if i < NumTotalRegs then registers s i else userRegisters th i)\<rparr> else th)"

definition dispatched :: "'h system \<Rightarrow> nat \<Rightarrow> 'h Thread \<Rightarrow> 'h Thread" where
  "dispatched s n th = th\<lparr>tstatus := RUNNING, procStats := count_switch (wasYieldOnReturn s) (procStats th),
     runNow := runNow th \<or> n \<noteq> currentThread s\<rparr>"

definition left :: "'h system \<Rightarrow> 'h Thread \<Rightarrow> nat \<Rightarrow> 'h Thread \<Rightarrow> 'h system" where
  "left s old n new = s\<lparr>
     threads := (threads s)(currentThread s \<mapsto> saved s old,
       n \<mapsto> dispatched s n (if n = currentThread s then saved s old else new)),
     currentThread := n, currentSpace := tspace new, numContextSwitches := numContextSwitches s + 1,
     wasYieldOnReturn := False\<rparr>"

lemma saved_simps [simp]:
  "tstatus (saved s th) = tstatus th" "Priority (saved s th) = Priority th" "tspace (saved s th) = tspace th"
  "ChildExited (saved s th) = ChildExited th" "frames (saved s th) = frames th" "FDTable (saved s th) = FDTable th"
  by (simp_all add: saved_def)

lemma dispatched_simps [simp]:
  "tstatus (dispatched s n th) = RUNNING" "Priority (dispatched s n th) = Priority th"
  "tspace (dispatched s n th) = tspace th" "frames (dispatched s n th) = frames th"
  "userRegisters (dispatched s n th) = userRegisters th" "FDTable (dispatched s n th) = FDTable th"
  by (simp_all add: dispatched_def)

lemma left_simps [simp]:
  "currentThread (left s old n new) = n" "currentSpace (left s old n new) = tspace new"
  "readyList (left s old n new) = readyList s" "allThreads (left s old n new) = allThreads s"
  "nextThread (left s old n new) = nextThread s" "spaces (left s old n new) = spaces s"
  "threadToBeDestroyed (left s old n new) = threadToBeDestroyed s" "registers (left s old n new) = registers s"
  "vm_core (left s old n new) = vm_core s" "pending (left s old n new) = pending s"
  "totalTicks (left s old n new) = totalTicks s" "closedFiles (left s old n new) = closedFiles s"
  by (simp_all add: left_def vm_core_def)

lemma left_threads:
  "threads (left s old n new) t = (if t = n then Some (dispatched s n (if n = currentThread s then saved s old else new))
     else if t = currentThread s then Some (saved s old) else threads s t)"
  by (simp add: left_def)

lemma Run_leave_eq:
  assumes "threads s (currentThread s) = Some old" "tstatus old \<noteq> RUNNING" "threads s n = Some new"
  shows "Run_leave n s = Inr (left s old n new)"
proof -
  let ?s1 = "s\<lparr>threads := (threads s)(currentThread s \<mapsto> saved s old)\<rparr>"
  have upd: "(threads s)(currentThread s \<mapsto> old) = threads s" using assms(1) by auto
  have s1: "(if tspace old \<noteq> None then SaveUserState (currentThread s) s else Inr s) = Inr ?s1"
    using SaveUserState_ok [OF assms(1)] upd by (simp add: saved_def)
  have n1: "threads ?s1 n = Some (if n = currentThread s then saved s old else new)" using assms by simp
  have "tspace (if n = currentThread s then saved s old else new) = tspace new" using assms by auto
  then show ?thesis
    using assms(1,2) s1 n1
    by (auto simp: Run_leave_def SWITCH_def setStatus_def left_def dispatched_def Let_def)
qed

section \<open>The invariant across a switch\<close>

text \<open>Thread \<open>n\<close> was taken off the ready list and is about to run; nobody is running.\<close>

definition picked :: "'h system \<Rightarrow> nat \<Rightarrow> nat list \<Rightarrow> bool" where
  "picked s n xs \<longleftrightarrow> represents (readyList s) xs \<and> distinct (n # xs) \<and> sorted (map (prio s) (n # xs)) \<and>
     set (n # xs) = {t. \<exists>th. threads s t = Some th \<and> tstatus th = READY} \<and>
     all_inv s \<and> space_inv s \<and> zombie_inv s \<and> vm_inv s \<and>
     (\<forall>t th. threads s t = Some th \<longrightarrow> tstatus th \<noteq> RUNNING)"

text \<open>No ready thread has a better priority than the current one.\<close>

definition best :: "'h system \<Rightarrow> bool" where
  "best s \<longleftrightarrow> (\<forall>u uh. threads s u = Some uh \<longrightarrow> tstatus uh = READY \<longrightarrow> prio s (currentThread s) \<le> prio s u)"

lemma prio_left:
  assumes "threads s (currentThread s) = Some old" "threads s n = Some new"
  shows "prio (left s old n new) = prio s"
  using assms by (intro prio_cong) (auto simp: left_threads fun_eq_iff)

lemma left_space_inv:
  assumes "space_inv s" "threads s (currentThread s) = Some old" "threads s n = Some new"
  shows "space_inv (left s old n new)"
proof -
  have sp: "map_option tspace (threads (left s old n new) t) = map_option tspace (threads s t)" for t
    using assms(2,3) by (auto simp: left_threads)
  have prev: "threads (left s old n new) t = Some th \<Longrightarrow> \<exists>uh. threads s t = Some uh \<and> tspace uh = tspace th" for t th
  proof -
    assume "threads (left s old n new) t = Some th"
    with sp [of t] show ?thesis by (cases "threads s t") simp_all
  qed
  show ?thesis
    unfolding space_inv_def
  proof (intro conjI allI impI)
    fix t th sid assume "threads (left s old n new) t = Some th" "tspace th = Some sid"
    with prev assms(1) show "spaces (left s old n new) sid \<noteq> None" unfolding space_inv_def left_simps by metis
  next
    fix t u th uh sid assume "threads (left s old n new) t = Some th" "tspace th = Some sid"
      "threads (left s old n new) u = Some uh" "tspace uh = Some sid"
    with prev assms(1) show "t = u" unfolding space_inv_def by metis
  next
    show "map_option tspace (threads (left s old n new) (currentThread (left s old n new))) =
        Some (currentSpace (left s old n new))" using sp [of n] assms(3) by simp
  qed
qed

lemma left_inv:
  assumes p: "picked s n xs" and cur: "threads s (currentThread s) = Some old"
  shows "\<exists>new. threads s n = Some new \<and> tstatus new = READY \<and> sched_inv (left s old n new) \<and>
    running (left s old n new) \<and> ready_inv (left s old n new) xs \<and> best (left s old n new)"
proof -
  from p have "n \<in> {t. \<exists>th. threads s t = Some th \<and> tstatus th = READY}"
    unfolding picked_def by (metis list.set_intros(1))
  then obtain new where n: "threads s n = Some new" "tstatus new = READY" by blast
  let ?t = "left s old n new"
  have st: "map_option tstatus (threads ?t t) = (if t = n then Some RUNNING else map_option tstatus (threads s t))" for t
    using cur by (auto simp: left_threads)
  have dom: "dom (threads ?t) = dom (threads s)" using cur n by (auto simp: left_threads split: if_splits)
  have "(\<exists>th. threads ?t t = Some th \<and> tstatus th = READY) \<longleftrightarrow> t \<noteq> n \<and> (\<exists>th. threads s t = Some th \<and> tstatus th = READY)" for t
    using cur by (auto simp: left_threads)
  then have rd: "ready_inv ?t xs"
    using p by (auto simp: ready_inv_def picked_def prio_left [OF cur n(1)])
  have "best ?t"
    unfolding best_def prio_left [OF cur n(1)]
  proof (intro allI impI)
    fix u uh assume "threads ?t u = Some uh" "tstatus uh = READY"
    with rd have "u \<in> set xs" unfolding ready_inv_def by blast
    with p show "prio s (currentThread ?t) \<le> prio s u" by (simp add: picked_def)
  qed
  moreover note rd
  moreover have "all_inv ?t" using p dom by (simp add: picked_def all_inv_def)
  moreover have "space_inv ?t" using p cur n(1) by (intro left_space_inv) (simp_all add: picked_def)
  moreover have "zombie_inv ?t"
    unfolding zombie_inv_def left_simps
  proof (intro allI impI)
    fix z assume "threadToBeDestroyed s = Some z"
    with p obtain th where th: "threads s z = Some th" "deletable s th" by (auto simp: picked_def zombie_inv_def)
    with n have "z \<noteq> n" by (auto simp: deletable_def)
    with th cur show "\<exists>th. threads ?t z = Some th \<and> deletable ?t th" by (auto simp: left_threads deletable_def)
  qed
  moreover have "vm_inv ?t" using p vm_core_inv [of ?t s] by (simp add: picked_def)
  moreover have "t = currentThread ?t" if "threads ?t t = Some th" "tstatus th = RUNNING" for t th
  proof (rule ccontr)
    assume "t \<noteq> currentThread ?t"
    with that st [of t] obtain uh where "threads s t = Some uh" "tstatus uh = RUNNING" by (cases "threads s t") auto
    with p show False by (simp add: picked_def)
  qed
  moreover have "running ?t" by (simp add: running_def left_threads)
  ultimately show ?thesis using n unfolding sched_inv_def by blast
qed

section \<open>Resuming a thread\<close>

text \<open>The processes that are still there keep their memory.\<close>

definition keeps_memory :: "'h system \<Rightarrow> 'h system \<Rightarrow> bool" where
  "keeps_memory s t \<longleftrightarrow> (\<forall>u uh ow. threads t u = Some uh \<longrightarrow> tspace uh = Some ow \<longrightarrow> (\<forall>w i. vbyte t ow w i = vbyte s ow w i))"

definition reaped :: "'h system \<Rightarrow> nat \<rightharpoonup> 'h Thread" where
  "reaped s = (case threadToBeDestroyed s of None \<Rightarrow> threads s | Some z \<Rightarrow> (threads s)(z := None))"

text \<open>The thread that was to be destroyed is gone, so is its address space, and its files are closed.\<close>

definition freed :: "'h system \<Rightarrow> 'h system \<Rightarrow> bool" where
  "freed s t \<longleftrightarrow> (\<forall>z th. threadToBeDestroyed s = Some z \<longrightarrow> threads s z = Some th \<longrightarrow>
     threads t z = None \<and> (\<forall>sid. tspace th = Some sid \<longrightarrow> spaces t sid = None) \<and>
     closedFiles t = closedFiles s @ concat (map fd_files (take MAX_FD (FDTable th))))"

lemma delete_sched:
  fixes s :: "'h system"
  assumes inv: "sched_inv s" "running s" "ready_inv s xs" and th: "threads s z = Some th" "deletable s th"
  shows "\<exists>v t. Thread_delete z s = Inr v \<and> threadToBeDestroyed v = threadToBeDestroyed s \<and>
    t = v\<lparr>threadToBeDestroyed := None\<rparr> \<and> sched_inv t \<and> running t \<and> ready_inv t xs \<and>
    currentThread t = currentThread s \<and> currentSpace t = currentSpace s \<and> registers t = registers s \<and>
    threads t = (threads s)(z := None) \<and> keeps_memory s t \<and> (\<forall>sid. tspace th = Some sid \<longrightarrow> spaces t sid = None) \<and>
    pending t = pending s \<and> totalTicks t = totalTicks s \<and>
    closedFiles t = closedFiles s @ concat (map fd_files (take MAX_FD (FDTable th)))"
proof -
  from inv(2) obtain ch where ch: "threads s (currentThread s) = Some ch" "tstatus ch = RUNNING" by (auto simp: running_def)
  with th have zc: "z \<noteq> currentThread s" by (auto simp: deletable_def)
  have parts: "all_inv s" "space_inv s" "vm_inv s" using inv(1) by (simp_all add: sched_inv_def)
  from Thread_delete_ok [OF th(1) zc th(2) ch(1) parts] obtain v l where
    v: "Thread_delete z s = Inr (v\<lparr>allThreads := l, threads := (threads s)(z := None)\<rparr>)"
      "vm.more v = vm.more (close_files (take MAX_FD (FDTable th)) s)" "totalTicks v = totalTicks s"
      "currentThread v = currentThread s" "currentSpace v = currentSpace s" "vm_inv v"
      "all_inv (v\<lparr>allThreads := l, threads := (threads s)(z := None)\<rparr>)"
    and mem: "\<forall>ow. Some ow \<noteq> tspace th \<longrightarrow> (spaces v ow = None \<longleftrightarrow> spaces s ow = None) \<and> (\<forall>w i. vbyte v ow w i = vbyte s ow w i)"
    and gone: "\<forall>ow. Some ow = tspace th \<longrightarrow> spaces v ow = None"
    by blast
  note m = system_more [OF v(2), unfolded close_files_def, simplified]
  define t where "t = v\<lparr>allThreads := l, threads := (threads s)(z := None), threadToBeDestroyed := None\<rparr>"
  have tt: "threads t = (threads s)(z := None)" "currentThread t = currentThread s" "currentSpace t = currentSpace s"
    "readyList t = readyList s" "threadToBeDestroyed t = None" "registers t = registers s" "spaces t = spaces v"
    "vm_core t = vm_core v"
    using v(4,5) m by (simp_all add: t_def)
  have other: "Some ow \<noteq> tspace th" if "threads t u = Some uh" "tspace uh = Some ow" for u uh ow
  proof
    assume "Some ow = tspace th"
    with that th(1) parts(2) tt(1) have "u = z" unfolding space_inv_def by (metis fun_upd_other)
    with that(1) tt(1) show False by simp
  qed
  have "prio t u = prio s u" if "u \<noteq> z" for u using that tt(1) by (simp add: prio_def)
  moreover have "z \<notin> set xs" using inv(3) th by (auto simp: ready_inv_def deletable_def)
  ultimately have "map (prio t) xs = map (prio s) xs" by (metis map_cong)
  moreover have "sorted (map (prio s) xs)" using inv(3) by (simp add: ready_inv_def)
  ultimately have "sorted (map (prio t) xs)" by metis
  then have "ready_inv t xs"
    using inv(3) tt(1,4) th by (auto simp: ready_inv_def deletable_def)
  moreover have "all_inv t" using v(7) by (simp add: t_def all_inv_def)
  moreover have "space_inv t"
    unfolding space_inv_def
  proof (intro conjI allI impI)
    fix u uh sid assume u: "threads t u = Some uh" "tspace uh = Some sid"
    then have "spaces s sid \<noteq> None" using parts(2) tt(1) unfolding space_inv_def by (metis fun_upd_other fun_upd_same option.distinct(1))
    with other [OF u] mem tt(7) show "spaces t sid \<noteq> None" by auto
  next
    fix u w uh wh sid assume "threads t u = Some uh" "tspace uh = Some sid" "threads t w = Some wh" "tspace wh = Some sid"
    then show "u = w" using parts(2) tt(1) unfolding space_inv_def by (metis fun_upd_other fun_upd_same option.distinct(1))
  next
    show "map_option tspace (threads t (currentThread t)) = Some (currentSpace t)"
      using parts(2) tt zc by (simp add: space_inv_def)
  qed
  moreover have "vm_inv t" using v(6) tt(8) vm_core_inv by metis
  moreover have "u = currentThread t" if "threads t u = Some uh" "tstatus uh = RUNNING" for u uh
    using that inv(1) tt(1,2) unfolding sched_inv_def by (metis fun_upd_other fun_upd_same option.distinct(1))
  ultimately have "sched_inv t" using tt(5) unfolding sched_inv_def zombie_inv_def by (metis option.distinct(1))
  moreover have "running t" using ch zc tt(1,2) by (simp add: running_def)
  moreover have "keeps_memory s t"
    using other mem vm_core_vbyte [OF tt(8)] unfolding keeps_memory_def by metis
  moreover have "\<forall>sid. tspace th = Some sid \<longrightarrow> spaces t sid = None" using gone tt(7) by simp
  moreover have "t = (v\<lparr>allThreads := l, threads := (threads s)(z := None)\<rparr>)\<lparr>threadToBeDestroyed := None\<rparr>" by (simp add: t_def)
  moreover have "threadToBeDestroyed (v\<lparr>allThreads := l, threads := (threads s)(z := None)\<rparr>) = threadToBeDestroyed s"
    using m(5) by simp
  moreover have "pending t = pending s" "totalTicks t = totalTicks s"
    "closedFiles t = closedFiles s @ concat (map fd_files (take MAX_FD (FDTable th)))" using v(3) m by (simp_all add: t_def)
  ultimately show ?thesis using v(1) \<open>ready_inv t xs\<close> tt(1-3,6) by blast
qed

lemma reap_ok:
  fixes s :: "'h system"
  assumes inv: "sched_inv s" "running s" "ready_inv s xs"
  shows "\<exists>t. (case threadToBeDestroyed s of None \<Rightarrow> Inr s
       | Some z \<Rightarrow> bind_res (Thread_delete z s) (\<lambda>s1. Inr (s1\<lparr>threadToBeDestroyed := None\<rparr>))) = Inr t \<and>
    sched_inv t \<and> running t \<and> ready_inv t xs \<and> currentThread t = currentThread s \<and> registers t = registers s \<and>
    threadToBeDestroyed t = None \<and> threads t = reaped s \<and> keeps_memory s t \<and> freed s t \<and>
    pending t = pending s \<and> totalTicks t = totalTicks s"
proof (cases "threadToBeDestroyed s")
  case None
  with inv show ?thesis by (simp add: keeps_memory_def reaped_def freed_def)
next
  case (Some z)
  with inv(1) obtain th where th: "threads s z = Some th" "deletable s th" by (auto simp: sched_inv_def zombie_inv_def)
  from delete_sched [OF inv th] obtain v t where t: "Thread_delete z s = Inr v" "t = v\<lparr>threadToBeDestroyed := None\<rparr>"
    "sched_inv t" "running t" "ready_inv t xs" "currentThread t = currentThread s" "registers t = registers s"
    "threads t = (threads s)(z := None)" "keeps_memory s t" "\<forall>sid. tspace th = Some sid \<longrightarrow> spaces t sid = None"
    "pending t = pending s" "totalTicks t = totalTicks s"
    "closedFiles t = closedFiles s @ concat (map fd_files (take MAX_FD (FDTable th)))" by blast
  with Some th(1) show ?thesis by (intro exI [of _ t]) (simp add: reaped_def freed_def)
qed

lemma Run_resume_ok:
  fixes s :: "'h system"
  assumes inv: "sched_inv s" "running s" "ready_inv s xs"
  shows "\<exists>t. Run_resume s = Inr t \<and> sched_inv t \<and> running t \<and> ready_inv t xs \<and> currentThread t = currentThread s \<and>
    threadToBeDestroyed t = None \<and> threads t = reaped s \<and> keeps_memory s t \<and> freed s t \<and>
    pending t = pending s \<and> totalTicks t = totalTicks s \<and>
    (\<forall>th sid. threads s (currentThread s) = Some th \<longrightarrow> tspace th = Some sid \<longrightarrow>
       installed t = Some sid \<and> (\<forall>i < NumTotalRegs. registers t i = userRegisters th i))"
proof -
  from reap_ok [OF inv] obtain u where u: "(case threadToBeDestroyed s of None \<Rightarrow> Inr s
       | Some z \<Rightarrow> bind_res (Thread_delete z s) (\<lambda>s1. Inr (s1\<lparr>threadToBeDestroyed := None\<rparr>))) = Inr u"
    "sched_inv u" "running u" "ready_inv u xs" "currentThread u = currentThread s" "threadToBeDestroyed u = None"
    "threads u = reaped s" "keeps_memory s u" "freed s u" "pending u = pending s" "totalTicks u = totalTicks s" by blast
  from u(3) obtain th where th: "threads u (currentThread u) = Some th" by (auto simp: running_def)
  have same: "threads s (currentThread s) = Some th"
    using th u(5,7) by (auto simp: reaped_def split: option.splits if_splits)
  show ?thesis
  proof (cases "tspace th")
    case None
    with u th same show ?thesis by (auto simp: Run_resume_def)
  next
    case (Some sid)
    have "spaces u sid \<noteq> None" using u(2) th Some unfolding sched_inv_def space_inv_def by blast
    then obtain a where a: "spaces u sid = Some a" by blast
    define t where "t = u\<lparr>registers := (\<lambda>i. if i < NumTotalRegs then userRegisters th i else registers u i), installed := Some sid\<rparr>"
    have "Run_resume s = Inr t"
      unfolding Run_resume_def u(1) using th Some a by (simp add: RestoreUserState_ok [OF th] RestoreState_def t_def)
    moreover have core: "vm_core t = vm_core u" by (simp add: t_def)
    moreover have tu: "threads t = threads u" "readyList t = readyList u" "currentThread t = currentThread u"
      "currentSpace t = currentSpace u" "allThreads t = allThreads u" "nextThread t = nextThread u" "spaces t = spaces u"
      "threadToBeDestroyed t = threadToBeDestroyed u" by (simp_all add: t_def)
    moreover have "prio t = prio u" by (simp add: prio_def tu fun_eq_iff)
    ultimately show ?thesis
      using u same Some vm_core_inv [OF core, of "{}"] vm_core_vbyte [OF core]
      by (intro exI [of _ t]) (simp add: sched_inv_def ready_inv_def all_inv_def space_inv_def zombie_inv_def
          running_def keeps_memory_def deletable_def freed_def, simp add: t_def)
  qed
qed

section \<open>A context switch\<close>

definition blocked :: "'h system \<Rightarrow> nat set" where
  "blocked s = {t. \<exists>th. threads s t = Some th \<and> tstatus th = BLOCKED}"

lemma blocked_left:
  assumes "threads s (currentThread s) = Some old" "threads s n = Some new" "tstatus new = READY"
  shows "blocked (left s old n new) = blocked s"
  using assms by (auto simp: blocked_def left_threads split: if_splits)

lemma blocked_reaped:
  assumes "zombie_inv s" "threads t = reaped s"
  shows "blocked t = blocked s"
proof (cases "threadToBeDestroyed s")
  case None
  with assms(2) show ?thesis by (simp add: blocked_def reaped_def)
next
  case (Some z)
  with assms(1) obtain th where "threads s z = Some th" "tstatus th = ZOMBIE" by (auto simp: zombie_inv_def deletable_def)
  with Some assms(2) show ?thesis by (auto simp: blocked_def reaped_def split: if_splits)
qed

text \<open>
  \<open>switched s s' xs\<close>: from \<open>s\<close>, where thread \<open>n\<close> was picked, to \<open>s'\<close>, where it runs. The registers
  of the old user program are in its thread, those of the new one are in the machine.
\<close>

definition switched :: "'h system \<Rightarrow> nat \<Rightarrow> nat list \<Rightarrow> 'h system \<Rightarrow> bool" where
  "switched s n xs t \<longleftrightarrow> sched_inv t \<and> running t \<and> ready_inv t xs \<and> currentThread t = n \<and> best t \<and> keeps_memory s t \<and>
     blocked t = blocked s \<and> pending t = pending s \<and> totalTicks t = totalTicks s \<and>
     (\<forall>old uh sid. threads s (currentThread s) = Some old \<longrightarrow> tspace old = Some sid \<longrightarrow>
        threads t (currentThread s) = Some uh \<longrightarrow> (\<forall>i < NumTotalRegs. userRegisters uh i = registers s i)) \<and>
     (\<forall>new. threads s n = Some new \<longrightarrow> \<not> never_ran new \<longrightarrow> freed s t) \<and>
     (\<forall>new. threads s n = Some new \<longrightarrow> never_ran new \<longrightarrow>
        threadToBeDestroyed t = threadToBeDestroyed s \<and> dom (threads t) = dom (threads s)) \<and>
     (\<forall>new sid. threads s n = Some new \<longrightarrow> tspace new = Some sid \<longrightarrow> \<not> never_ran new \<longrightarrow>
        installed t = Some sid \<and>
        (\<forall>i < NumTotalRegs. registers t i = (if n = currentThread s then registers s else userRegisters new) i))"

lemma Run_ok:
  assumes p: "picked s n xs" and cur: "threads s (currentThread s) = Some old"
  shows "\<exists>t. Run n s = Inr t \<and> switched s n xs t"
proof -
  from left_inv [OF assms] obtain new where n: "threads s n = Some new" "tstatus new = READY"
    "sched_inv (left s old n new)" "running (left s old n new)" "ready_inv (left s old n new) xs"
    "best (left s old n new)" by blast
  let ?l = "left s old n new"
  have old: "tstatus old \<noteq> RUNNING" using p cur by (auto simp: picked_def)
  let ?nth = "dispatched s n (if n = currentThread s then saved s old else new)"
  have nth: "threads ?l n = Some ?nth" by (simp add: left_threads)
  have nr: "never_ran ?nth = never_ran new" using n(1) cur by (auto simp: never_ran_def)
  have sv: "userRegisters uh i = registers s i"
    if "threads ?l (currentThread s) = Some uh" "tspace old = Some sid" "i < NumTotalRegs" for uh sid i
    using that by (cases "n = currentThread s") (auto simp: left_threads saved_def)
  have tsp: "tspace ?nth = tspace new" using n(1) cur by auto
  show ?thesis
  proof (cases "never_ran new")
    case True
    then have "Run n s = Inr ?l" using nth nr by (simp add: Run_def Run_leave_eq [OF cur old n(1)])
    moreover have "keeps_memory s ?l" using vm_core_vbyte [of ?l s] by (simp add: keeps_memory_def)
    moreover have "dom (threads ?l) = dom (threads s)" using cur n(1) by (auto simp: left_threads split: if_splits)
    ultimately show ?thesis using n True cur sv blocked_left [OF cur n(1,2)]
      by (intro exI [of _ ?l]) (simp add: switched_def)
  next
    case False
    from Run_resume_ok [OF n(3-5)] nth tsp obtain t where t: "Run_resume ?l = Inr t" "sched_inv t" "running t" "ready_inv t xs"
      "currentThread t = n" "threads t = reaped ?l" "keeps_memory ?l t" "freed ?l t"
      "pending t = pending s" "totalTicks t = totalTicks s"
      "\<forall>sid. tspace new = Some sid \<longrightarrow> installed t = Some sid \<and> (\<forall>i < NumTotalRegs. registers t i = userRegisters ?nth i)"
      by auto
    have "Run n s = Inr t" using nth nr False t(1) by (simp add: Run_def Run_leave_eq [OF cur old n(1)])
    moreover have "keeps_memory s t" using t(7) vm_core_vbyte [of ?l s] by (simp add: keeps_memory_def)
    moreover have sub: "threads t u = Some uh \<Longrightarrow> threads ?l u = Some uh" for u uh
      using t(6) by (auto simp: reaped_def split: option.splits if_splits)
    moreover have "best t"
      unfolding best_def
    proof (intro allI impI)
      fix u uh assume u: "threads t u = Some uh" "tstatus uh = READY"
      from t(3) obtain ch where ch: "threads t (currentThread t) = Some ch" by (auto simp: running_def)
      from sub [OF u(1)] u(2) n(6) have "prio ?l n \<le> prio ?l u" unfolding best_def left_simps by blast
      with sub [OF u(1)] sub [OF ch] u(1) ch t(5) show "prio t (currentThread t) \<le> prio t u" by (simp add: prio_def)
    qed
    moreover have "userRegisters ?nth i = (if n = currentThread s then registers s else userRegisters new) i"
      if "i < NumTotalRegs" "tspace new = Some sid" for i sid
      using that n(1) cur by (auto simp: saved_def)
    moreover have "blocked t = blocked s"
      using blocked_reaped [OF _ t(6)] n(3) blocked_left [OF cur n(1,2)] by (simp add: sched_inv_def)
    moreover have "freed s t"
      unfolding freed_def
    proof (intro allI impI)
      fix z zh assume z: "threadToBeDestroyed s = Some z" "threads s z = Some zh"
      then have "\<exists>lh. threads ?l z = Some lh \<and> tspace lh = tspace zh \<and> FDTable lh = FDTable zh"
        using cur n(1) by (auto simp: left_threads)
      with t(8) z(1) show "threads t z = None \<and> (\<forall>sid. tspace zh = Some sid \<longrightarrow> spaces t sid = None) \<and>
          closedFiles t = closedFiles s @ concat (map fd_files (take MAX_FD (FDTable zh)))"
        by (auto simp: freed_def)
    qed
    moreover have "userRegisters uh i = registers s i"
      if "threads t (currentThread s) = Some uh" "tspace old = Some sid" "i < NumTotalRegs" for uh sid i
      by (rule sv [OF sub [OF that(1)] that(2,3)])
    moreover have "installed t = Some sid \<and>
        (\<forall>i < NumTotalRegs. registers t i = (if n = currentThread s then registers s else userRegisters new) i)"
      if "tspace new = Some sid" for sid
      using that t n(1) cur by (auto simp: saved_def)
    ultimately show ?thesis using t(2-5) t(9-11) n(1) cur False
      by (intro exI [of _ t]) (simp add: switched_def)
  qed
qed

lemma SetLevel_IntOff [simp]: "SetLevel tick IntOff s = Inr (level s, s\<lparr>level := IntOff\<rparr>)"
  by (simp add: SetLevel_def ChangeLevel_def Let_def)

lemma insert_by_nonempty [simp]: "insert_by c x xs \<noteq> []"
  by (cases xs) auto

lemma sched_all: "sched_inv s \<Longrightarrow> all_inv s"
  by (simp add: sched_inv_def)

lemma all_inv_upd:
  assumes "all_inv s" "threads s t = Some th" "dom (threads u) = insert t (dom (threads s))"
    "allThreads u = allThreads s" "nextThread u = nextThread s"
  shows "all_inv u"
proof -
  have "insert t (dom (threads s)) = dom (threads s)" using assms(2) by auto
  with assms show ?thesis by (simp add: all_inv_def)
qed

text \<open>The current thread with interrupts off goes to the ready list and a frame is pushed.\<close>

definition yielding :: "'h system \<Rightarrow> nat List \<Rightarrow> 'h Thread \<Rightarrow> 'h system" where
  "yielding s l th = s\<lparr>level := IntOff, readyList := l, threads := (threads s)(currentThread s \<mapsto>
     th\<lparr>tstatus := READY, frames := Yield_frame (level s) # frames th\<rparr>)\<rparr>"

lemma yielding_picked:
  assumes inv: "sched_inv s" "ready_inv s xs" and th: "threads s (currentThread s) = Some th" "tstatus th = RUNNING"
    and l: "represents l ys" and ys: "insert_by (\<lambda>x y. prio s x < prio s y) (currentThread s) xs = n # ys"
  shows "picked (yielding s l th) n ys"
proof -
  let ?t = "yielding s l th"
  have pr: "prio ?t = prio s" using th(1) by (intro prio_cong) (auto simp: yielding_def fun_eq_iff)
  have ms: "mset (n # ys) = mset (currentThread s # xs)"
    using sorted_list.put_mset [of "prio s" "currentThread s" xs] ys by simp
  have "distinct (currentThread s # xs)" using inv(2) th by (auto simp: ready_inv_def)
  then have "distinct (n # ys)" using ms mset_eq_imp_distinct_iff by blast
  moreover have "sorted (map (prio s) (n # ys))"
    using inv(2) sorted_list.put_sorted [of "prio s" xs "currentThread s"] ys by (simp add: ready_inv_def)
  moreover have "set (n # ys) = {t. \<exists>th. threads ?t t = Some th \<and> tstatus th = READY}"
  proof -
    have "set (n # ys) = set (currentThread s # xs)" using ms by (rule mset_eq_setD)
    with inv(2) show ?thesis by (auto simp: ready_inv_def yielding_def)
  qed
  moreover have "all_inv ?t"
    by (rule all_inv_upd [OF sched_all [OF inv(1)] th(1)]) (simp_all add: yielding_def)
  moreover have "space_inv ?t"
  proof -
    have sp: "space_inv s" using inv(1) by (simp add: sched_inv_def)
    have "\<exists>uh. threads s u = Some uh \<and> tspace uh = tspace vh" if "threads ?t u = Some vh" for u vh
      using that th(1) by (auto simp: yielding_def split: if_splits)
    with sp th(1) show ?thesis unfolding space_inv_def by (simp add: yielding_def) metis
  qed
  moreover have "zombie_inv ?t"
    unfolding zombie_inv_def
  proof (intro allI impI)
    fix z assume "threadToBeDestroyed ?t = Some z"
    then have "threadToBeDestroyed s = Some z" by (simp add: yielding_def)
    with inv(1) obtain zh where zh: "threads s z = Some zh" "deletable s zh" by (auto simp: sched_inv_def zombie_inv_def)
    with th have "z \<noteq> currentThread s" by (auto simp: deletable_def)
    with zh show "\<exists>zh. threads ?t z = Some zh \<and> deletable ?t zh" by (simp add: yielding_def deletable_def)
  qed
  moreover have "vm_inv ?t" using inv(1) vm_core_inv [of ?t s "{}"] by (simp add: sched_inv_def yielding_def)
  moreover have "tstatus uh \<noteq> RUNNING" if "threads ?t u = Some uh" for u uh
    using that inv(1) by (auto simp: sched_inv_def yielding_def split: if_splits)
  moreover have "readyList ?t = l" by (simp add: yielding_def)
  ultimately show ?thesis using l by (simp add: picked_def pr)
qed

lemma Yield_ok:
  assumes inv: "sched_inv s" "running s" "ready_inv s xs"
    and ys: "insert_by (\<lambda>x y. prio s x < prio s y) (currentThread s) xs = n # ys"
  shows "\<exists>l th t. threads s (currentThread s) = Some th \<and> Yield (currentThread s) s = Inr t \<and>
    switched (yielding s l th) n ys t"
proof -
  from inv(2) obtain th where th: "threads s (currentThread s) = Some th" "tstatus th = RUNNING"
    by (auto simp: running_def)
  let ?s1 = "s\<lparr>level := IntOff\<rparr>"
  have pr: "prio ?s1 = prio s" by (simp add: prio_def fun_eq_iff)
  then have "ready_inv ?s1 xs" using inv(3) by (simp add: ready_inv_def)
  with ReadyToRun_ok [of ?s1 xs "currentThread s" th] th ys pr obtain l where
    l: "ReadyToRun (currentThread s) ?s1 = Inr (made_ready (currentThread s) th l ?s1)"
    "ready_inv (made_ready (currentThread s) th l ?s1) (n # ys)" by auto
  let ?s2 = "made_ready (currentThread s) th l ?s1"
  have cur2: "threads ?s2 (currentThread ?s2) = Some (th\<lparr>tstatus := READY\<rparr>)" by (simp add: made_ready_def)
  have all2: "all_inv ?s2"
    by (rule all_inv_upd [OF sched_all [OF inv(1)] th(1)]) (simp_all add: made_ready_def)
  from FindNextToRun_ok [OF l(2) all2 cur2] obtain l2 where
    l2: "FindNextToRun ?s2 = Inr (Some n, ?s2\<lparr>readyList := l2\<rparr>)" "represents l2 ys" by auto
  let ?s3 = "yielding s l2 th"
  have push: "push_frame (currentThread s) (Yield_frame (level s)) (?s2\<lparr>readyList := l2\<rparr>) = Inr ?s3"
    by (simp add: push_frame_def upd_thread_def made_ready_def yielding_def)
  have p: "picked ?s3 n ys" by (rule yielding_picked [OF inv(1,3) th l2(2) ys])
  have cur3: "threads ?s3 (currentThread ?s3) = Some (th\<lparr>tstatus := READY, frames := Yield_frame (level s) # frames th\<rparr>)"
    by (simp add: yielding_def)
  from Run_ok [OF p cur3] obtain t where t: "Run n ?s3 = Inr t" "switched ?s3 n ys t" by blast
  have "Yield (currentThread s) s = Inr t"
    using l(1) l2(1) push t(1) by (simp add: Yield_def)
  with th(1) t(2) show ?thesis by blast
qed

end
