(* ===== verification/Interrupt.thy ===== *)
theory Interrupt
  imports Yielding
begin

text \<open>
  The interrupt simulation, \<open>machine/interrupt.cc\<close>, the timer device, \<open>machine/timer.cc\<close>, the handler of the
  scheduler's timer (\<open>threads/system.cc\<close>) and the operations of \<open>threads/thread.cc\<close> that wait for
  interrupts. \<open>call\<close> is the call through a handler's function pointer.
\<close>

section \<open>Pending interrupts\<close>

definition SystemTick :: uint32 where "SystemTick = 10"
definition UserTick :: uint32 where "UserTick = 1"

type_synonym 'h caller = "'h \<Rightarrow> nat \<Rightarrow> 'h system \<Rightarrow> 'h system res"

definition Interrupt_new :: "'h system \<Rightarrow> 'h system" where
  "Interrupt_new s = s\<lparr>level := IntOff, inHandler := False, yieldOnReturn := False, mstatus := SystemMode,
     needResched := False, pending := List_new\<rparr>"

definition interruptOrder :: "'h PendingInterrupt \<Rightarrow> 'h PendingInterrupt \<Rightarrow> bool" where
  "interruptOrder int1 int2 \<longleftrightarrow> pi_when int1 < pi_when int2"

definition Schedule ::
  "('h system \<Rightarrow> 'h system res) \<Rightarrow> 'h \<Rightarrow> nat \<Rightarrow> uint32 \<Rightarrow> IntType \<Rightarrow> 'h system \<Rightarrow> 'h system res" where
  "Schedule tick handler arg fromNow type s =
     (let toOccur = \<lparr>pi_handler = handler, pi_arg = arg, pi_when = totalTicks s + fromNow, pi_type = type\<rparr> in
      assert_res (fromNow > 0) (\<lambda>_.
      bind_res (SetLevel tick IntOff s) (\<lambda>(oldLevel, s1).
      bind_res (Insert interruptOrder toOccur (pending s1)) (\<lambda>l.
      bind_res (SetLevel tick oldLevel (s1\<lparr>pending := l\<rparr>)) (\<lambda>(_, s2). Inr s2)))))"

definition YieldOnReturn :: "'h system \<Rightarrow> 'h system res" where
  "YieldOnReturn s =
     assert_res (inHandler s) (\<lambda>_. Inr (s\<lparr>yieldOnReturn := True, wasYieldOnReturn := True\<rparr>))"

text \<open>
  \<open>Interrupt::HandleIfDue\<close>. The first element is read before the test for the null pointer that
  \<open>Head\<close> returns on an empty list.
\<close>

definition HandleIfDue :: "'h caller \<Rightarrow> bool \<Rightarrow> 'h system \<Rightarrow> (bool \<times> 'h system) res" where
  "HandleIfDue call advanceClock s =
     assert_res (level s = IntOff) (\<lambda>_.
     bind_res (Head (pending s)) (\<lambda>toOccur.
     deref_res toOccur (\<lambda>p.
     if pi_when p > totalTicks s then Inr (advanceClock, s)
     else bind_res (Remove (pending s)) (\<lambda>(_, l).
       let s1 = s\<lparr>pending := l\<rparr> in
       if mstatus s1 = IdleMode \<and> pi_type p = TimerInt \<and> IsEmpty l then
         bind_res (Insert interruptOrder p l) (\<lambda>l1. Inr (False, s1\<lparr>pending := l1\<rparr>))
       else
         bind_res (DelayedLoad 0 0 s1) (\<lambda>s2.
         bind_res (call (pi_handler p) (pi_arg p) (s2\<lparr>inHandler := True, mstatus := SystemMode\<rparr>)) (\<lambda>s3.
         let s4 = s3\<lparr>mstatus := mstatus s, inHandler := False\<rparr> in
         if IsEmpty (pending s4) then Inr (False, s4)
         else bind_res (Head (pending s4)) (\<lambda>nxt.
           deref_res nxt (\<lambda>q. Inr (pi_when q = pi_when p, s4)))))))))"

text \<open>The loop \<open>while (HandleIfDue (false))\<close>; it handles interrupts of one time, each once.\<close>

fun handle_due :: "nat \<Rightarrow> 'h caller \<Rightarrow> 'h system \<Rightarrow> 'h system res" where
  "handle_due 0 call s = Inl Diverges"
| "handle_due (Suc fuel) call s =
     bind_res (HandleIfDue call False s) (\<lambda>(more, s1). if more then handle_due fuel call s1 else Inr s1)"

definition handle_all_due :: "'h caller \<Rightarrow> 'h system \<Rightarrow> 'h system res" where
  "handle_all_due call s = handle_due (Suc (brk (pending s))) call s"

section \<open>Time\<close>

definition advance_clock :: "'h system \<Rightarrow> 'h system res" where
  "advance_clock s =
     (if mstatus s = SystemMode then
        upd_thread (currentThread s) (\<lambda>th. th\<lparr>procStats := (procStats th)
            \<lparr>ps_totalTicks := ps_totalTicks (procStats th) + SystemTick,
             ps_systemTicks := ps_systemTicks (procStats th) + SystemTick\<rparr>\<rparr>)
          (s\<lparr>totalTicks := totalTicks s + SystemTick, systemTicks := systemTicks s + SystemTick\<rparr>)
      else
        upd_thread (currentThread s) (\<lambda>th. th\<lparr>procStats := (procStats th)
            \<lparr>ps_totalTicks := ps_totalTicks (procStats th) + UserTick,
             ps_userTicks := ps_userTicks (procStats th) + UserTick\<rparr>\<rparr>)
          (s\<lparr>totalTicks := totalTicks s + UserTick, userTicks := userTicks s + UserTick\<rparr>))"

text \<open>\<open>Interrupt::OneTick\<close>; after the \<open>Yield\<close> the frame restores the machine status.\<close>

definition OneTick :: "'h caller \<Rightarrow> 'h system \<Rightarrow> 'h system res" where
  "OneTick call s =
     bind_res (advance_clock s) (\<lambda>s1.
     bind_res (handle_all_due call (ChangeLevel IntOff s1)) (\<lambda>s2.
     let s3 = ChangeLevel IntOn s2 in
     if yieldOnReturn s3 \<or> needResched s3 then
       bind_res (push_frame (currentThread s3) (OneTick_frame (mstatus s))
           (s3\<lparr>needResched := False, yieldOnReturn := False, mstatus := SystemMode\<rparr>)) (\<lambda>s4.
       Yield (currentThread s4) s4)
     else Inr s3))"

definition Idle :: "'h caller \<Rightarrow> 'h system \<Rightarrow> 'h system res" where
  "Idle call s =
     bind_res (HandleIfDue call True (s\<lparr>mstatus := IdleMode\<rparr>)) (\<lambda>(due, s1).
     if due then
       bind_res (Head (pending s1)) (\<lambda>toOccur.
       deref_res toOccur (\<lambda>p.
       bind_res (handle_all_due call (s1\<lparr>idleTicks := idleTicks s1 + (pi_when p - totalTicks s1),
           totalTicks := pi_when p\<rparr>)) (\<lambda>s2.
       Inr (s2\<lparr>yieldOnReturn := False, mstatus := SystemMode\<rparr>))))
     else Halt s1)"

section \<open>The timer\<close>

record 'h Timer =
  randomize :: bool
  timer_handler :: 'h
  timer_arg :: nat
  period :: uint32

text \<open>\<open>rnd\<close> is what \<open>Random ()\<close> of the host returns; \<open>timer\<close> is the function pointer \<open>TimerHandler\<close>.\<close>

definition TimeOfNextInterrupt :: "uint32 \<Rightarrow> 'h Timer \<Rightarrow> uint32" where
  "TimeOfNextInterrupt rnd tm = (if randomize tm then 1 + rnd mod (period tm * 2) else period tm)"

definition Timer_new :: "('h system \<Rightarrow> 'h system res) \<Rightarrow> 'h \<Rightarrow> uint32 \<Rightarrow> 'h Timer \<Rightarrow> 'h system \<Rightarrow> 'h system res" where
  "Timer_new tick timer rnd tm s = Schedule tick timer 0 (TimeOfNextInterrupt rnd tm) TimerInt s"

definition TimerExpired ::
  "('h system \<Rightarrow> 'h system res) \<Rightarrow> 'h \<Rightarrow> uint32 \<Rightarrow> 'h Timer \<Rightarrow> 'h caller \<Rightarrow>
   'h system \<Rightarrow> 'h system res" where
  "TimerExpired tick timer rnd tm call s =
     bind_res (Schedule tick timer 0 (TimeOfNextInterrupt rnd tm) TimerInt s)
       (call (timer_handler tm) (timer_arg tm))"

definition SchedTimerInterruptHandler :: "nat \<Rightarrow> bool \<Rightarrow> int \<Rightarrow> nat \<Rightarrow> 'h system \<Rightarrow> 'h system res" where
  "SchedTimerInterruptHandler fuel wssContractionEnabled wsDeltaSize dummy s =
     (if mstatus s \<noteq> IdleMode then
        bind_res (get_thread (currentThread s) s) (\<lambda>th.
        let (refresh, th1) = incrWssRefreshCounter th in
        bind_res (upd_thread (currentThread s) (\<lambda>_. th1) s) (\<lambda>s1.
        bind_res (if refresh then refreshWss fuel wssContractionEnabled wsDeltaSize s1 else Inr s1)
          YieldOnReturn))
      else Inr s)"

section \<open>Waiting\<close>

text \<open>
  The loop of \<open>Thread::Sleep\<close>: idle until some thread is ready. Interrupts may never make one
  ready, so the loop has fuel.
\<close>

fun Sleep_loop :: "nat \<Rightarrow> 'h caller \<Rightarrow> 'h system \<Rightarrow> (nat \<times> 'h system) res" where
  "Sleep_loop 0 call s = Inl Diverges"
| "Sleep_loop (Suc fuel) call s =
     bind_res (FindNextToRun s) (\<lambda>(next, s1).
     case next of Some n \<Rightarrow> Inr (n, s1) | None \<Rightarrow> bind_res (Idle call s1) (Sleep_loop fuel call))"

definition Sleep :: "nat \<Rightarrow> 'h caller \<Rightarrow> nat \<Rightarrow> 'h system \<Rightarrow> 'h system res" where
  "Sleep fuel call this s =
     assert_res (this = currentThread s) (\<lambda>_.
     assert_res (level s = IntOff) (\<lambda>_.
     bind_res (setStatus this BLOCKED s) (\<lambda>s1.
     bind_res (Sleep_loop fuel call s1) (\<lambda>(next, s2). Run next s2))))"

definition Sleep_status :: "nat \<Rightarrow> 'h caller \<Rightarrow> nat \<Rightarrow> ThreadStatus \<Rightarrow> 'h system \<Rightarrow> 'h system res" where
  "Sleep_status fuel call this newstatus s =
     assert_res (this = currentThread s) (\<lambda>_.
     assert_res (newstatus \<noteq> RUNNING) (\<lambda>_.
     bind_res (setStatus this newstatus s) (\<lambda>s1.
     bind_res (SetLevel Inr IntOff s1) (\<lambda>(oldLevel, s2).
     bind_res (Sleep_loop fuel call s2) (\<lambda>(next, s3).
     bind_res (push_frame this (Sleep_frame oldLevel) s3) (Run next))))))"

definition Finish :: "nat \<Rightarrow> 'h caller \<Rightarrow> nat \<Rightarrow> 'h system \<Rightarrow> 'h system res" where
  "Finish fuel call this s =
     bind_res (SetLevel Inr IntOff s) (\<lambda>(_, s1).
     assert_res (this = currentThread s1) (\<lambda>_.
     Sleep_status fuel call this ZOMBIE (s1\<lparr>threadToBeDestroyed := Some (currentThread s1)\<rparr>)))"

text \<open>
  What a thread does when \<open>Run\<close> returned in it: it finishes its innermost activation. \<open>ThreadRoot\<close>
  loads the user state and enables interrupts; then the procedure starts (\<open>start\<close>).
\<close>

definition return_frame ::
  "'h caller \<Rightarrow> ('h \<Rightarrow> nat \<Rightarrow> 'h system \<Rightarrow> 'h system res) \<Rightarrow> 'h system \<Rightarrow> 'h system res" where
  "return_frame call start s =
     bind_res (get_thread (currentThread s) s) (\<lambda>th.
     case frames th of
       [] \<Rightarrow> Inr s
     | f # fs \<Rightarrow>
       bind_res (upd_thread (currentThread s) (\<lambda>th. th\<lparr>frames := fs\<rparr>) s) (\<lambda>s1.
       case f of
         Yield_frame oldLevel \<Rightarrow> bind_res (SetLevel (OneTick call) oldLevel s1) (\<lambda>(_, s2). Inr s2)
       | Sleep_frame oldLevel \<Rightarrow> bind_res (SetLevel (OneTick call) oldLevel s1) (\<lambda>(_, s2). Inr s2)
       | OneTick_frame old \<Rightarrow> Inr (s1\<lparr>mstatus := old\<rparr>)
       | ThreadRoot_frame func arg \<Rightarrow>
         bind_res (RestoreUserState (currentThread s1) s1) (\<lambda>s2.
         bind_res (case tspace th of None \<Rightarrow> Inr s2 | Some sid \<Rightarrow> RestoreState sid s2) (\<lambda>s3.
         bind_res (push_frame (currentThread s3) (Start_frame func arg) s3) (Enable (OneTick call))))
       | Start_frame func arg \<Rightarrow> start func arg s1))"

end
