(* ===== verification/Interrupt_Inv.thy ===== *)
theory Interrupt_Inv
  imports Interrupt
begin

text \<open>
  Interrupt handling under a contract of the device handlers: the locale \<open>device_handlers\<close> states what
  \<open>Interrupt\<close> relies on, and its lemmas show which pending interrupts a clock tick fires and that
  the loop ends. The scheduler's timer, with the thread system's invariant, is an instance.
\<close>

section \<open>What the invariant reads\<close>

definition view :: "'h Thread \<Rightarrow> ThreadStatus \<times> int \<times> nat option \<times> KernelSemaphore" where
  "view th = (tstatus th, Priority th, tspace th, ChildExited th)"

definition sched_core where
  "sched_core s = (\<lambda>t. map_option view (threads s t), currentThread s, currentSpace s, readyList s, allThreads s,
     nextThread s, threadToBeDestroyed s, vm_core s)"

lemma sched_core_parts:
  assumes "sched_core s = sched_core u"
  shows "\<And>t th. threads s t = Some th \<Longrightarrow> \<exists>uh. threads u t = Some uh \<and> view uh = view th"
    "\<And>t uh. threads u t = Some uh \<Longrightarrow> \<exists>th. threads s t = Some th \<and> view th = view uh"
    "dom (threads s) = dom (threads u)" "currentThread s = currentThread u" "currentSpace s = currentSpace u"
    "readyList s = readyList u" "allThreads s = allThreads u" "nextThread s = nextThread u"
    "threadToBeDestroyed s = threadToBeDestroyed u" "vm_core s = vm_core u" "prio s = prio u" "spaces s = spaces u"
proof -
  have v: "map_option view (threads s t) = map_option view (threads u t)" for t
    using assms unfolding sched_core_def prod.inject by metis
  show "\<exists>uh. threads u t = Some uh \<and> view uh = view th" if "threads s t = Some th" for t th
    using v [of t] that by (cases "threads u t") simp_all
  show "\<exists>th. threads s t = Some th \<and> view th = view uh" if "threads u t = Some uh" for t uh
    using v [of t] that by (cases "threads s t") simp_all
  show "dom (threads s) = dom (threads u)"
  proof (rule set_eqI)
    fix t show "t \<in> dom (threads s) \<longleftrightarrow> t \<in> dom (threads u)"
      using v [of t] by (cases "threads s t"; cases "threads u t") (simp_all add: dom_def)
  qed
  show "prio s = prio u"
  proof
    fix t show "prio s t = prio u t"
      using v [of t] by (cases "threads s t"; cases "threads u t") (simp_all add: prio_def view_def)
  qed
  show "spaces s = spaces u" using assms by (simp add: sched_core_def vm_core_def)
qed (use assms in \<open>simp_all add: sched_core_def\<close>)

lemma sched_core_ready:
  assumes "sched_core s = sched_core u" "ready_inv s xs" shows "ready_inv u xs"
proof -
  note p = sched_core_parts [OF assms(1)]
  have "(\<exists>th. threads s t = Some th \<and> tstatus th = READY) \<longleftrightarrow> (\<exists>th. threads u t = Some th \<and> tstatus th = READY)" for t
    using p(1,2) unfolding view_def prod.inject by metis
  with assms(2) p show ?thesis by (simp add: ready_inv_def)
qed

lemma sched_core_inv:
  assumes "sched_core s = sched_core u" "sched_inv s" shows "sched_inv u"
proof -
  note p = sched_core_parts [OF assms(1)]
  have "\<exists>xs. ready_inv u xs" using assms sched_core_ready unfolding sched_inv_def by metis
  moreover have "all_inv u" using assms(2) p by (simp add: sched_inv_def all_inv_def)
  moreover have "space_inv u"
    unfolding space_inv_def
  proof (intro conjI allI impI)
    have si: "space_inv s" using assms(2) by (simp add: sched_inv_def)
    show "spaces u sid \<noteq> None" if "threads u t = Some th" "tspace th = Some sid" for t th sid
      using that p(2,12) si unfolding space_inv_def view_def prod.inject by metis
    show "t = w" if "threads u t = Some th" "tspace th = Some sid" "threads u w = Some wh" "tspace wh = Some sid" for t w th wh sid
      using that p(2) si unfolding space_inv_def view_def prod.inject by metis
    from si obtain th where "threads s (currentThread s) = Some th" "tspace th = currentSpace s"
      unfolding space_inv_def by auto
    with p show "map_option tspace (threads u (currentThread u)) = Some (currentSpace u)"
      unfolding view_def prod.inject by (metis option.simps(9))
  qed
  moreover have "zombie_inv u"
    unfolding zombie_inv_def
  proof (intro allI impI)
    fix z assume "threadToBeDestroyed u = Some z"
    with assms(2) p(9) obtain th where th: "threads s z = Some th" "deletable s th" by (auto simp: sched_inv_def zombie_inv_def)
    with p(1) obtain uh where "threads u z = Some uh" "view uh = view th" by blast
    with th p(12) show "\<exists>uh. threads u z = Some uh \<and> deletable u uh" by (auto simp: deletable_def view_def)
  qed
  moreover have "vm_inv u" using assms(2) vm_core_inv [OF p(10)] by (simp add: sched_inv_def)
  moreover have "t = currentThread u" if "threads u t = Some th" "tstatus th = RUNNING" for t th
    using that p(2,4) assms(2) unfolding sched_inv_def view_def prod.inject by metis
  ultimately show ?thesis unfolding sched_inv_def by blast
qed

lemma sched_core_running:
  assumes "sched_core s = sched_core u" "running s" shows "running u"
proof -
  note p = sched_core_parts [OF assms(1)]
  from assms(2) obtain th where th: "threads s (currentThread s) = Some th" "tstatus th = RUNNING" by (auto simp: running_def)
  from p(1) [OF th(1)] obtain uh where "threads u (currentThread s) = Some uh" "view uh = view th" by blast
  with th p(4) show ?thesis by (auto simp: running_def view_def)
qed

lemma sched_core_upd [simp]:
  fixes s :: "'h system"
  shows "sched_core (s\<lparr>pending := a\<rparr>) = sched_core s" "sched_core (s\<lparr>inHandler := b\<rparr>) = sched_core s"
    "sched_core (s\<lparr>mstatus := c\<rparr>) = sched_core s" "sched_core (s\<lparr>level := d\<rparr>) = sched_core s"
    "sched_core (s\<lparr>registers := e\<rparr>) = sched_core s" "sched_core (s\<lparr>totalTicks := f\<rparr>) = sched_core s"
    "sched_core (s\<lparr>systemTicks := g\<rparr>) = sched_core s" "sched_core (s\<lparr>userTicks := h\<rparr>) = sched_core s"
    "sched_core (s\<lparr>yieldOnReturn := i\<rparr>) = sched_core s" "sched_core (s\<lparr>wasYieldOnReturn := j\<rparr>) = sched_core s"
    "sched_core (s\<lparr>needResched := k\<rparr>) = sched_core s" "sched_core (s\<lparr>idleTicks := l\<rparr>) = sched_core s"
  by (simp_all add: sched_core_def vm_core_def)

lemma sched_core_thread:
  "threads s t = Some th \<Longrightarrow> view th' = view th \<Longrightarrow> sched_core (s\<lparr>threads := (threads s)(t \<mapsto> th')\<rparr>) = sched_core s"
  by (auto simp: sched_core_def vm_core_def fun_eq_iff)

section \<open>The contract of the handlers\<close>

definition pend_inv :: "'h system \<Rightarrow> 'h PendingInterrupt list \<Rightarrow> bool" where
  "pend_inv s ps \<longleftrightarrow> represents (pending s) ps \<and> sorted (map pi_when ps)"

definition due :: "'h system \<Rightarrow> 'h PendingInterrupt \<Rightarrow> bool" where
  "due s p \<longleftrightarrow> pi_when p \<le> totalTicks s"

text \<open>
  One interrupt fires: it leaves the pending list, and its handler is called with its argument, with
  interrupts off and in system mode; the mode of before comes back afterwards.
\<close>

definition fire :: "'h caller \<Rightarrow> 'h PendingInterrupt \<Rightarrow> 'h system \<Rightarrow> 'h system res" where
  "fire call p s =
     bind_res (Remove (pending s)) (\<lambda>(_, l).
     bind_res (DelayedLoad 0 0 (s\<lparr>pending := l\<rparr>)) (\<lambda>s2.
     bind_res (call (pi_handler p) (pi_arg p) (s2\<lparr>inHandler := True, mstatus := SystemMode\<rparr>)) (\<lambda>s3.
     Inr (s3\<lparr>mstatus := mstatus s, inHandler := False\<rparr>))))"

text \<open>
  A handler runs with interrupts off and does not move the clock; it may schedule interrupts, but
  only for later: \<open>adds h now\<close>. \<open>ok\<close> is what the kernel keeps true around it.
\<close>

locale device_handlers =
  fixes call :: "'h caller" and ok :: "'h system \<Rightarrow> bool"
    and adds :: "'h \<Rightarrow> uint32 \<Rightarrow> 'h PendingInterrupt list"
  assumes handler: "ok s \<Longrightarrow> inHandler s \<Longrightarrow> level s = IntOff \<Longrightarrow> mstatus s = SystemMode \<Longrightarrow> pend_inv s ps \<Longrightarrow>
      \<exists>t qs. call h a s = Inr t \<and> ok t \<and> level t = IntOff \<and> totalTicks t = totalTicks s \<and>
        pend_inv t qs \<and> filter (due s) qs = filter (due s) ps \<and> mset qs = mset ps + mset (adds h (totalTicks s))"
    and ok_pending: "ok s \<Longrightarrow> ok (s\<lparr>pending := l\<rparr>)"
    and ok_mode: "ok s \<Longrightarrow> ok (s\<lparr>inHandler := b\<rparr>)" "ok s \<Longrightarrow> ok (s\<lparr>mstatus := m\<rparr>)"
    and ok_load: "ok s \<Longrightarrow> \<exists>t. DelayedLoad 0 0 s = Inr t \<and> ok t"
begin

lemma not_due: "level s = IntOff \<Longrightarrow> pend_inv s (p # ps) \<Longrightarrow> \<not> due s p \<Longrightarrow> HandleIfDue call b s = Inr (b, s)"
  using Head_ok [of "pending s" "p # ps"] by (simp add: pend_inv_def HandleIfDue_def due_def not_le)

lemma fires:
  assumes ok: "ok s" and lv: "level s = IntOff" and ps: "pend_inv s (p # ps)" "due s p" and st: "mstatus s \<noteq> IdleMode"
  shows "\<exists>t qs. HandleIfDue call b s = Inr (\<exists>q rs. qs = q # rs \<and> pi_when q = pi_when p, t) \<and> ok t \<and> level t = IntOff \<and>
    totalTicks t = totalTicks s \<and> mstatus t = mstatus s \<and> pend_inv t qs \<and> filter (due s) qs = filter (due s) ps \<and>
    fire call p s = Inr t \<and> mset qs = mset ps + mset (adds (pi_handler p) (totalTicks s))"
proof -
  from ps have rep: "represents (pending s) (p # ps)" and srt: "sorted (map pi_when ps)" by (simp_all add: pend_inv_def)
  from Remove_ok [OF rep] obtain l where l: "Remove (pending s) = Inr (Some p, l)" "represents l ps" by auto
  let ?s1 = "s\<lparr>pending := l\<rparr>"
  from ok_load [OF ok_pending [OF ok], of l] obtain u where u: "DelayedLoad 0 0 ?s1 = Inr u" "ok u" by blast
  let ?s2 = "u\<lparr>inHandler := True, mstatus := SystemMode\<rparr>"
  have same: "pending u = l" "level u = IntOff" "totalTicks u = totalTicks s"
    using u(1) lv by (auto simp: DelayedLoad_def Let_def split: if_splits)
  have ok2: "ok ?s2" "pend_inv ?s2 ps" "level ?s2 = IntOff"
    using u(2) ok_mode l(2) srt same by (auto simp: pend_inv_def)
  obtain v qs where v: "call (pi_handler p) (pi_arg p) ?s2 = Inr v" "ok v" "level v = IntOff"
    "totalTicks v = totalTicks s" "pend_inv v qs" "filter (due s) qs = filter (due s) ps"
    "mset qs = mset ps + mset (adds (pi_handler p) (totalTicks s))"
  proof -
    have "due ?s2 = due s" using same(3) by (simp add: due_def fun_eq_iff)
    with handler [of ?s2 ps "pi_handler p" "pi_arg p"] ok2 same(3) that show thesis by auto
  qed
  let ?t = "v\<lparr>mstatus := mstatus s, inHandler := False\<rparr>"
  have hd: "Head (pending v) = Inr (case qs of [] \<Rightarrow> None | q # _ \<Rightarrow> Some q)" "IsEmpty (pending v) \<longleftrightarrow> qs = []"
    using v(5) Head_ok represents_empty by (auto simp: pend_inv_def)
  have "HandleIfDue call b s = Inr (\<exists>q rs. qs = q # rs \<and> pi_when q = pi_when p, ?t)"
    using lv ps(2) Head_ok [OF rep] l(1) st u(1) v(1) hd
    by (cases qs) (auto simp: HandleIfDue_def due_def Let_def)
  moreover have "fire call p s = Inr ?t" using l(1) u(1) v(1) by (simp add: fire_def)
  moreover have "ok ?t" using v(2) ok_mode by blast
  ultimately show ?thesis using v by (intro exI [of _ ?t] exI [of _ qs]) (simp add: pend_inv_def)
qed

text \<open>The loop fires all interrupts of the first time that is due, and leaves the due ones of later times.\<close>

abbreviation batch :: "'h PendingInterrupt \<Rightarrow> 'h PendingInterrupt list \<Rightarrow> 'h PendingInterrupt list" where
  "batch p ps \<equiv> filter (\<lambda>q. pi_when q = pi_when p) (p # ps)"

abbreviation added :: "uint32 \<Rightarrow> 'h PendingInterrupt list \<Rightarrow> 'h PendingInterrupt list" where
  "added now fired \<equiv> concat (map (\<lambda>q. adds (pi_handler q) now) fired)"

lemma handle_due_ok:
  assumes "ok s" "level s = IntOff" "pend_inv s (p # ps)" "due s p" "mstatus s \<noteq> IdleMode"
    and "length (filter (\<lambda>q. pi_when q = pi_when p) ps) < fuel"
  shows "\<exists>t qs. handle_due fuel call s = Inr t \<and> ok t \<and> level t = IntOff \<and> totalTicks t = totalTicks s \<and>
    mstatus t = mstatus s \<and> pend_inv t qs \<and> filter (due s) qs = filter (\<lambda>q. pi_when p < pi_when q) (filter (due s) ps) \<and>
    fold_res (fire call) (batch p ps) s = Inr t \<and>
    mset qs + mset (batch p ps) = mset (p # ps) + mset (added (totalTicks s) (batch p ps))"
  using assms
proof (induction fuel arbitrary: s p ps)
  case (Suc fuel)
  let ?w = "pi_when p"
  from fires [OF Suc.prems(1-5)] obtain u qs where u: "HandleIfDue call False s = Inr (\<exists>q rs. qs = q # rs \<and> pi_when q = ?w, u)"
    "ok u" "level u = IntOff" "totalTicks u = totalTicks s" "mstatus u = mstatus s" "pend_inv u qs"
    "filter (due s) qs = filter (due s) ps" "fire call p s = Inr u"
    "mset qs = mset ps + mset (adds (pi_handler p) (totalTicks s))" by blast
  have batch: "filter (\<lambda>x. pi_when x = ?w) xs = filter (\<lambda>x. pi_when x = ?w) (filter (due s) xs)" for xs
    using Suc.prems(4) by (induction xs) (auto simp: due_def)
  have same: "filter (\<lambda>x. pi_when x = ?w) ps = filter (\<lambda>x. pi_when x = ?w) qs"
    using batch [of ps] batch [of qs] u(7) by metis
  have ge: "\<forall>q \<in> set ps. ?w \<le> pi_when q" using Suc.prems(3) by (simp add: pend_inv_def)
  have due: "due u = due s" using u(4) by (simp add: due_def fun_eq_iff)
  show ?case
  proof (cases "\<exists>q rs. qs = q # rs \<and> pi_when q = ?w")
    case True
    then obtain q rs where q: "qs = q # rs" "pi_when q = ?w" by blast
    have qd: "due u q" using q(2) Suc.prems(4) u(4) by (simp add: due_def)
    have "length (filter (\<lambda>x. pi_when x = ?w) (q # rs)) = length (filter (\<lambda>x. pi_when x = ?w) ps)"
      using same q(1) by metis
    then have "length (filter (\<lambda>x. pi_when x = pi_when q) rs) < fuel" using Suc.prems(6) q(2) by simp
    from Suc.IH [OF u(2,3) u(6) [unfolded q(1)] qd _ this] u(5) Suc.prems(5) obtain t ts where t: "handle_due fuel call u = Inr t"
      "ok t" "level t = IntOff" "totalTicks t = totalTicks u" "mstatus t = mstatus u" "pend_inv t ts"
      "filter (due u) ts = filter (\<lambda>x. pi_when q < pi_when x) (filter (due u) rs)"
      "fold_res (fire call) (batch q rs) u = Inr t"
      "mset ts + mset (batch q rs) = mset (q # rs) + mset (added (totalTicks u) (batch q rs))" by auto
    have bat: "batch p ps = p # batch q rs" using same q by simp
    have "fold_res (fire call) (batch p ps) s = Inr t" unfolding bat using u(8) t(8) by simp
    moreover have ms: "mset ts + mset (batch p ps) = mset (p # ps) + mset (added (totalTicks s) (batch p ps))"
      unfolding bat using t(9) u(9) q(1) u(4) by (simp add: ac_simps)
    have "filter (due s) ps = q # filter (due s) rs" using u(7) q(1) qd due by simp
    then have "filter (due s) ts = filter (\<lambda>x. ?w < pi_when x) (filter (due s) ps)" using t(7) due q(2) by simp
    moreover have "handle_due (Suc fuel) call s = Inr t" using t(1) u(1) True by simp
    moreover have "totalTicks t = totalTicks s" "mstatus t = mstatus s" using t(4,5) u(4,5) by simp_all
    ultimately show ?thesis using t(2,3,6) ms by blast
  next
    case False
    have later: "filter (\<lambda>q. ?w < pi_when q) (filter (due s) ps) = filter (due s) ps"
    proof (cases qs)
      case Nil
      with u(7) show ?thesis by (metis filter.simps(1))
    next
      case (Cons q rs)
      show ?thesis
      proof (cases "due s q")
        case True
        with Cons have "q \<in> set (filter (due s) qs)" by simp
        then have "q \<in> set ps" unfolding u(7) by simp
        with ge False Cons have "?w < pi_when q" by (simp add: order_less_le eq_commute)
        then have "\<forall>x \<in> set qs. ?w < pi_when x" using u(6) Cons by (auto simp: pend_inv_def)
        then have "\<forall>x \<in> set (filter (due s) ps). ?w < pi_when x" by (metis u(7) filter_is_subset subsetD)
        then show ?thesis by (rule filter_True)
      next
        case False
        then have "filter (due s) qs = []" using u(6) Cons by (auto simp: pend_inv_def due_def filter_empty_conv)
        with u(7) show ?thesis by (metis filter.simps(1))
      qed
    qed
    have "?w < pi_when x" if "x \<in> set (filter (due s) ps)" for x
    proof -
      from that have "x \<in> set (filter (\<lambda>q. ?w < pi_when q) (filter (due s) ps))" unfolding later .
      then show ?thesis by simp
    qed
    then have "filter (\<lambda>x. pi_when x = ?w) (filter (due s) ps) = []" by (force simp: filter_empty_conv)
    then have bat: "batch p ps = [p]" using batch [of ps] by simp
    have "fold_res (fire call) (batch p ps) s = Inr u" unfolding bat using u(8) by simp
    moreover have "mset qs + mset (batch p ps) = mset (p # ps) + mset (added (totalTicks s) (batch p ps))"
      unfolding bat using u(9) by simp
    moreover have "handle_due (Suc fuel) call s = Inr u" using u(1) False by (simp only: handle_due.simps) simp
    ultimately show ?thesis using u(2-7) later by (intro exI [of _ u] exI [of _ qs]) simp
  qed
qed simp

lemma handle_all_due_ok:
  assumes "ok s" "level s = IntOff" "pend_inv s (p # ps)" "mstatus s \<noteq> IdleMode"
  shows "\<exists>t qs. handle_all_due call s = Inr t \<and> ok t \<and> level t = IntOff \<and> totalTicks t = totalTicks s \<and>
    mstatus t = mstatus s \<and> pend_inv t qs \<and>
    filter (due s) qs = filter (\<lambda>q. pi_when p < pi_when q) (filter (due s) (p # ps)) \<and>
    (if due s p then fold_res (fire call) (batch p ps) s = Inr t \<and>
       mset qs + mset (batch p ps) = mset (p # ps) + mset (added (totalTicks s) (batch p ps))
     else t = s \<and> qs = p # ps)"
proof (cases "due s p")
  case True
  from assms(3) obtain as where as: "list_at (pending s) as" "p # ps = items_at (heap (pending s)) as"
    by (auto simp: pend_inv_def represents_def)
  have "length (filter (\<lambda>q. pi_when q = pi_when p) ps) \<le> length ps" by simp
  also have "\<dots> < length as" using arg_cong [OF as(2), of length] by simp
  also have "\<dots> \<le> brk (pending s)" by (rule list_at_length [OF as(1)])
  finally have "length (filter (\<lambda>q. pi_when q = pi_when p) ps) < Suc (brk (pending s))" by simp
  from handle_due_ok [OF assms(1-3) True assms(4) this] True show ?thesis by (simp add: handle_all_due_def)
next
  case False
  then have "filter (due s) (p # ps) = []" using assms(3) by (auto simp: pend_inv_def due_def filter_empty_conv)
  moreover have "handle_all_due call s = Inr s"
    using not_due [OF assms(2,3) False, of False] by (simp add: handle_all_due_def)
  ultimately show ?thesis using assms False by (intro exI [of _ s] exI [of _ "p # ps"]) simp
qed

end

section \<open>The scheduler's timer\<close>

text \<open>
  The function pointers of a kernel whose only device is the scheduler's timer: the handler
  that \<open>Timer\<close> registers, and the handler it calls. Inside a handler interrupts are off, and
  \<open>SetLevel\<close> does not tick.
\<close>

datatype kernel_func = TimerHandler | SchedTimer

fun kernel_call :: "(kernel_func system \<Rightarrow> uint32) \<Rightarrow> kernel_func Timer \<Rightarrow> nat \<Rightarrow> bool \<Rightarrow> int \<Rightarrow> kernel_func caller" where
  "kernel_call rnd tm fuel cwss delta TimerHandler a s =
     TimerExpired Inr TimerHandler (rnd s) tm (\<lambda>_. SchedTimerInterruptHandler fuel cwss delta) s"
| "kernel_call rnd tm fuel cwss delta SchedTimer a s = SchedTimerInterruptHandler fuel cwss delta a s"

end
