(* ===== verification/Timer_Ticks.thy ===== *)
theory Timer_Ticks
  imports Interrupt_Inv
begin

text \<open>
  The scheduler's timer keeps the contract of the interrupt simulation: an instance of
  \<open>device_handlers\<close>, and from it what a clock tick does to the thread system.
\<close>

section \<open>Working set refresh under the invariant\<close>

lemma refreshWss_ok:
  assumes "currentSpace s = Some sid" "spaces s sid = Some a" "delta \<in> {1, 2, 4, 8}"
  shows "\<exists>sp. refreshWss fuel False delta s = Inr (s\<lparr>spaces := sp\<rparr>) \<and> same_core (spaces s) sp"
proof -
  from assms(3) obtain m where m: "deltaMask delta = Inr m" by (auto simp: deltaMask_def)
  let ?b = "a\<lparr>wSetSize := newWorkingSetSize (refCount m (pageTable a)), pageTable := ageHistory (pageTable a)\<rparr>"
  have "refreshWss fuel False delta s = Inr (s\<lparr>spaces := (spaces s)(sid \<mapsto> ?b)\<rparr>)"
    using assms m by (simp add: refreshWss_def)
  moreover have "map core (ageHistory (pageTable a)) = map core (pageTable a)" by (simp add: ageHistory_def core_def)
  then have "same_core (spaces s) ((spaces s)(sid \<mapsto> ?b))" using assms(2) by (simp add: same_core_def)
  ultimately show ?thesis by blast
qed

lemma sched_inv_same_core:
  assumes inv: "sched_inv s" and sc: "same_core (spaces s) sp"
  shows "sched_inv (s\<lparr>spaces := sp\<rparr>)" "ready_inv s xs \<Longrightarrow> ready_inv (s\<lparr>spaces := sp\<rparr>) xs"
    "running (s\<lparr>spaces := sp\<rparr>) = running s"
proof -
  let ?t = "s\<lparr>spaces := sp\<rparr>"
  have pr: "prio ?t = prio s" by (simp add: prio_def fun_eq_iff)
  have rd: "ready_inv ?t xs" if "ready_inv s xs" for xs using that by (simp add: ready_inv_def pr)
  then show "ready_inv s xs \<Longrightarrow> ready_inv ?t xs" .
  show "running ?t = running s" by (simp add: running_def)
  have none: "sp sid = None \<longleftrightarrow> spaces s sid = None" for sid
    using spec [OF sc [unfolded same_core_def], of sid] by (cases "spaces s sid"; cases "sp sid") simp_all
  have del: "deletable s th \<Longrightarrow> deletable ?t th" for th
    unfolding deletable_def by (simp, metis same_core_ent [OF sc] core_fields(2))
  have "all_inv ?t" using inv by (simp add: sched_inv_def all_inv_def)
  moreover have "space_inv ?t" using inv none by (simp add: sched_inv_def space_inv_def)
  moreover have "zombie_inv ?t" using inv del by (fastforce simp: sched_inv_def zombie_inv_def)
  moreover have "vm_inv ?t" using inv by (intro vm_inv_same_core [OF _ sc]) (simp add: sched_inv_def)
  ultimately show "sched_inv ?t" using inv rd by (auto simp: sched_inv_def)
qed

section \<open>Scheduling an interrupt\<close>

lemma level_same: "level s = IntOff \<Longrightarrow> s\<lparr>level := IntOff\<rparr> = (s :: 'h system)"
  by (cases s) simp

lemma filter_insert_by: "\<not> P x \<Longrightarrow> filter P (insert_by c x xs) = filter P xs"
  by (induction xs) auto

lemma Schedule_ok:
  assumes "level s = IntOff" "0 < fromNow" "pend_inv s ps"
  shows "\<exists>l. Schedule tick h a fromNow ty s = Inr (s\<lparr>pending := l\<rparr>) \<and> pend_inv (s\<lparr>pending := l\<rparr>)
    (insert_by interruptOrder \<lparr>pi_handler = h, pi_arg = a, pi_when = totalTicks s + fromNow, pi_type = ty\<rparr> ps)"
proof -
  let ?p = "\<lparr>pi_handler = h, pi_arg = a, pi_when = totalTicks s + fromNow, pi_type = ty\<rparr>"
  have io: "interruptOrder = (\<lambda>x y :: 'h PendingInterrupt. pi_when x < pi_when y)" by (intro ext) (simp add: interruptOrder_def)
  from Insert_ok [of "pending s" ps interruptOrder ?p] assms(3) obtain l where
    l: "Insert interruptOrder ?p (pending s) = Inr l" "represents l (insert_by interruptOrder ?p ps)"
    by (auto simp: pend_inv_def)
  have "level (s\<lparr>pending := l\<rparr>) = IntOff" using assms(1) by simp
  then have "Schedule tick h a fromNow ty s = Inr (s\<lparr>pending := l\<rparr>)"
    using assms(1,2) l(1) by (simp add: Schedule_def level_same)
  moreover have "sorted (map pi_when (insert_by interruptOrder ?p ps))"
    using sorted_list.put_sorted [of pi_when ps ?p] assms(3) by (simp add: pend_inv_def io)
  ultimately show ?thesis using l(2) by (auto simp: pend_inv_def)
qed

section \<open>The instance\<close>

text \<open>
  The current thread runs in an address space, a load that is pending names a register, the
  clock does not wrap before the next timer interrupt, and the timer and the window of the
  working set are configured the way the command line allows. \<open>k\<close> is what the handlers leave alone: the
  memory of all processes, the current thread, and who is ready in which order.
\<close>

definition kept :: "'h system \<Rightarrow> (nat \<Rightarrow> nat \<Rightarrow> nat \<Rightarrow> byte option) \<times> nat \<times> (nat \<Rightarrow> int) \<times> (nat list \<Rightarrow> bool)" where
  "kept s = (vbyte s, currentThread s, prio s, ready_inv s)"

lemma kept_cong:
  assumes "sched_core s = sched_core t" shows "kept s = kept t"
proof -
  note p = sched_core_parts [OF assms]
  have "ready_inv s = ready_inv t" using sched_core_ready [OF assms] sched_core_ready [OF assms [symmetric]] by blast
  then show ?thesis unfolding kept_def p(4,11) vm_core_vbyte [OF p(10)] by simp
qed

definition timer_ok ::
  "kernel_func Timer \<Rightarrow> int \<Rightarrow> (nat \<Rightarrow> nat \<Rightarrow> nat \<Rightarrow> byte option) \<times> nat \<times> (nat \<Rightarrow> int) \<times> (nat list \<Rightarrow> bool) \<Rightarrow>
   kernel_func system \<Rightarrow> bool" where
  "timer_ok tm delta k s \<longleftrightarrow> kept s = k \<and> sched_inv s \<and> running s \<and> currentSpace s \<noteq> None \<and>
     unat (registers s LoadReg) < NumTotalRegs \<and> \<not> randomize tm \<and> 0 < period tm \<and> delta \<in> {1, 2, 4, 8} \<and>
     unat (totalTicks s) + unat (period tm) < 2 ^ 32"

lemma timer_ok_cong:
  assumes "timer_ok tm delta mem s" "sched_core s = sched_core t" "unat (registers t LoadReg) < NumTotalRegs"
    "totalTicks t = totalTicks s"
  shows "timer_ok tm delta mem t"
proof -
  have "currentSpace t = currentSpace s" using assms(2) by (simp add: sched_core_def)
  moreover have "kept t = kept s" using kept_cong [OF assms(2)] by simp
  ultimately show ?thesis using assms
    using sched_core_inv [OF assms(2)] sched_core_running [OF assms(2)] by (simp add: timer_ok_def)
qed

lemma SchedTimer_ok:
  fixes s :: "kernel_func system"
  assumes ok: "timer_ok tm delta mem s" and h: "inHandler s" "mstatus s = SystemMode"
  shows "\<exists>t. SchedTimerInterruptHandler fuel False delta a s = Inr t \<and> timer_ok tm delta mem t \<and>
    yieldOnReturn t \<and> level t = level s \<and> pending t = pending s \<and> totalTicks t = totalTicks s"
proof -
  from ok obtain th sid where th: "threads s (currentThread s) = Some th" and sid: "currentSpace s = Some sid"
    by (auto simp: timer_ok_def running_def)
  obtain refresh th1 where incr: "incrWssRefreshCounter th = (refresh, th1)" by (cases "incrWssRefreshCounter th")
  then have v: "view th1 = view th"
    by (auto simp: incrWssRefreshCounter_def resetWssRefreshCounter_def view_def split: if_splits)
  let ?s1 = "s\<lparr>threads := (threads s)(currentThread s \<mapsto> th1)\<rparr>"
  have ok1: "timer_ok tm delta mem ?s1"
    by (rule timer_ok_cong [OF ok sched_core_thread [OF th v, symmetric]]) (use ok in \<open>simp_all add: timer_ok_def\<close>)
  have "space_inv s" using ok by (simp add: timer_ok_def sched_inv_def)
  then have "spaces s sid \<noteq> None" "tspace th = Some sid" using sid th unfolding space_inv_def by auto
  then have "spaces ?s1 sid \<noteq> None" by simp
  then obtain asp where asp: "spaces ?s1 sid = Some asp" by blast
  obtain sp where sp: "(if refresh then refreshWss fuel False delta ?s1 else Inr ?s1) = Inr (?s1\<lparr>spaces := sp\<rparr>)"
    "same_core (spaces ?s1) sp"
  proof (cases refresh)
    case True
    then show thesis using refreshWss_ok [of ?s1 sid asp delta fuel] sid asp ok that by (auto simp: timer_ok_def)
  next
    case False
    then show thesis using that [of "spaces ?s1"] by simp
  qed
  let ?t = "?s1\<lparr>spaces := sp, yieldOnReturn := True, wasYieldOnReturn := True\<rparr>"
  have kp: "kept (?s1\<lparr>spaces := sp\<rparr>) = kept ?s1"
  proof -
    have pr: "prio (?s1\<lparr>spaces := sp\<rparr>) = prio ?s1" by (simp add: prio_def fun_eq_iff)
    moreover have "ready_inv (?s1\<lparr>spaces := sp\<rparr>) = ready_inv ?s1" by (simp add: ready_inv_def pr fun_eq_iff)
    moreover have "vbyte (?s1\<lparr>spaces := sp\<rparr>) = vbyte ?s1" using vbyte_same_core [OF sp(2)] by (simp add: fun_eq_iff)
    ultimately show ?thesis by (simp add: kept_def)
  qed
  have "SchedTimerInterruptHandler fuel False delta a s = Inr ?t"
    using th incr sp(1) h by (simp add: SchedTimerInterruptHandler_def YieldOnReturn_def)
  moreover have "sched_inv ?s1" "running ?s1" using ok1 by (simp_all add: timer_ok_def)
  then have "timer_ok tm delta mem (?s1\<lparr>spaces := sp\<rparr>)"
    using ok1 sched_inv_same_core [OF _ sp(2)] kp by (simp add: timer_ok_def)
  then have "timer_ok tm delta mem ?t" by (rule timer_ok_cong) (use ok in \<open>simp_all add: timer_ok_def\<close>)
  ultimately show ?thesis by (intro exI [of _ ?t]) simp
qed

text \<open>What the two handlers schedule: the timer's goes off again one period later.\<close>

definition rearmed :: "kernel_func Timer \<Rightarrow> kernel_func \<Rightarrow> uint32 \<Rightarrow> kernel_func PendingInterrupt list" where
  "rearmed tm h now = (case h of
     TimerHandler \<Rightarrow> [\<lparr>pi_handler = TimerHandler, pi_arg = 0, pi_when = now + period tm, pi_type = TimerInt\<rparr>]
   | SchedTimer \<Rightarrow> [])"

lemma insert_by_mset: "mset (insert_by c x xs) = add_mset x (mset xs)"
  by (induction xs) auto

interpretation sched_timer: device_handlers "kernel_call rnd tm fuel False delta" "timer_ok tm delta mem" "rearmed tm"
  for rnd tm fuel delta mem
proof unfold_locales
  fix s :: "kernel_func system" and ps h a
  assume ok: "timer_ok tm delta mem s" and s: "inHandler s" "level s = IntOff" "mstatus s = SystemMode" "pend_inv s ps"
  show "\<exists>t qs. kernel_call rnd tm fuel False delta h a s = Inr t \<and> timer_ok tm delta mem t \<and> level t = IntOff \<and>
      totalTicks t = totalTicks s \<and> pend_inv t qs \<and> filter (due s) qs = filter (due s) ps \<and>
      mset qs = mset ps + mset (rearmed tm h (totalTicks s))"
  proof (cases h)
    case SchedTimer
    with SchedTimer_ok [OF ok s(1,3), of fuel a] s show ?thesis by (auto simp: pend_inv_def rearmed_def)
  next
    case TimerHandler
    let ?p = "\<lparr>pi_handler = TimerHandler, pi_arg = 0, pi_when = totalTicks s + period tm, pi_type = TimerInt\<rparr>"
    have per: "TimeOfNextInterrupt (rnd s) tm = period tm" "0 < period tm"
      using ok by (simp_all add: TimeOfNextInterrupt_def timer_ok_def)
    from Schedule_ok [OF s(2) per(2) s(4), of Inr TimerHandler 0 TimerInt] obtain l where
      l: "Schedule Inr TimerHandler 0 (period tm) TimerInt s = Inr (s\<lparr>pending := l\<rparr>)"
      "pend_inv (s\<lparr>pending := l\<rparr>) (insert_by interruptOrder ?p ps)" by blast
    have ok1: "timer_ok tm delta mem (s\<lparr>pending := l\<rparr>)"
      by (rule timer_ok_cong [OF ok]) (use ok in \<open>simp_all add: timer_ok_def\<close>)
    from SchedTimer_ok [OF ok1, of fuel "timer_arg tm"] s(1,3) obtain t where
      t: "SchedTimerInterruptHandler fuel False delta (timer_arg tm) (s\<lparr>pending := l\<rparr>) = Inr t" "timer_ok tm delta mem t"
        "level t = level s" "pending t = l" "totalTicks t = totalTicks s" by auto
    have "unat (totalTicks s + period tm) = unat (totalTicks s) + unat (period tm)"
      using ok unat_add_lem [of "totalTicks s" "period tm"] by (simp add: timer_ok_def)
    then have "\<not> due s ?p" using per(2) by (simp add: due_def word_le_nat_alt word_less_nat_alt)
    then have "filter (due s) (insert_by interruptOrder ?p ps) = filter (due s) ps" by (rule filter_insert_by)
    moreover have "kernel_call rnd tm fuel False delta h a s = Inr t"
      using TimerHandler per l(1) t(1) by (simp add: TimerExpired_def)
    moreover have "pend_inv t (insert_by interruptOrder ?p ps)" using l(2) t(4) by (simp add: pend_inv_def)
    moreover have "mset (insert_by interruptOrder ?p ps) = mset ps + mset (rearmed tm h (totalTicks s))"
      by (simp add: insert_by_mset rearmed_def TimerHandler)
    ultimately show ?thesis using t(2,3,5) s(2) by metis
  qed
next
  fix s :: "kernel_func system" and l b m
  assume ok: "timer_ok tm delta mem s"
  show "timer_ok tm delta mem (s\<lparr>pending := l\<rparr>)" "timer_ok tm delta mem (s\<lparr>inHandler := b\<rparr>)" "timer_ok tm delta mem (s\<lparr>mstatus := m\<rparr>)"
    using ok by (rule timer_ok_cong; simp add: ok [unfolded timer_ok_def])+
  let ?t = "s\<lparr>registers := ((registers s)(unat (registers s LoadReg) := registers s LoadValueReg))(LoadReg := 0, LoadValueReg := 0, 0 := 0)\<rparr>"
  have "DelayedLoad 0 0 s = Inr ?t" using ok by (simp add: DelayedLoad_def timer_ok_def Let_def)
  moreover have "timer_ok tm delta mem ?t" by (rule timer_ok_cong [OF ok]) (simp_all add: reg_defs)
  ultimately show "\<exists>t. DelayedLoad 0 0 s = Inr t \<and> timer_ok tm delta mem t" by blast
qed

section \<open>One tick\<close>

lemma advance_clock_ok:
  assumes "threads s (currentThread s) = Some th"
  shows "\<exists>t. advance_clock s = Inr t \<and> sched_core t = sched_core s \<and> registers t = registers s \<and> pending t = pending s \<and>
    mstatus t = mstatus s \<and> totalTicks t = totalTicks s + (if mstatus s = SystemMode then SystemTick else UserTick) \<and>
    needResched t = needResched s \<and> yieldOnReturn t = yieldOnReturn s"
proof -
  have "sched_core (u\<lparr>threads := (threads u)(currentThread s \<mapsto> th\<lparr>procStats := ps\<rparr>)\<rparr>) = sched_core u"
    if "threads u = threads s" for ps and u :: "'a system"
    using assms that by (intro sched_core_thread [of u "currentThread s" th]) (simp_all add: view_def)
  with assms show ?thesis by (simp add: advance_clock_def)
qed

lemma push_frame_ok:
  assumes "threads s t = Some th"
  shows "\<exists>u. push_frame t f s = Inr u \<and> sched_core u = sched_core s \<and> pending u = pending s \<and> totalTicks u = totalTicks s"
  using assms sched_core_thread [OF assms, of "th\<lparr>frames := f # frames th\<rparr>"] by (simp add: push_frame_def view_def)

lemma keeps_memory_cong: "vbyte s = vbyte u \<Longrightarrow> keeps_memory s t = keeps_memory u t"
  by (simp add: keeps_memory_def)

text \<open>The current thread yields to the best of the ready threads and itself.\<close>

lemma Yield_total:
  assumes "sched_inv s" "running s" "ready_inv s xs"
  shows "\<exists>t ys. Yield (currentThread s) s = Inr t \<and> sched_inv t \<and> running t \<and> keeps_memory s t \<and>
    insert_by (\<lambda>x y. prio s x < prio s y) (currentThread s) xs = currentThread t # ys \<and> ready_inv t ys \<and>
    pending t = pending s \<and> totalTicks t = totalTicks s"
proof -
  obtain n ys where ys: "insert_by (\<lambda>x y. prio s x < prio s y) (currentThread s) xs = n # ys"
    by (cases "insert_by (\<lambda>x y. prio s x < prio s y) (currentThread s) xs") auto
  from Yield_ok [OF assms ys] obtain l th t where t: "Yield (currentThread s) s = Inr t" "switched (yielding s l th) n ys t"
    by blast
  have "vbyte (yielding s l th) = vbyte s" by (rule vm_core_vbyte) (simp add: yielding_def)
  with t keeps_memory_cong [of "yielding s l th" s t] ys show ?thesis by (auto simp: switched_def yielding_def)
qed

text \<open>A handler that returns has asked for a yield, and so has a batch of them.\<close>

lemma SchedTimer_yields:
  "SchedTimerInterruptHandler fuel cwss delta a s = Inr t \<Longrightarrow> mstatus s = SystemMode \<Longrightarrow> yieldOnReturn t"
  unfolding SchedTimerInterruptHandler_def YieldOnReturn_def
  by (cases "incrWssRefreshCounter (the (threads s (currentThread s)))")
    (auto simp: get_thread_def res_eq_Inr)

lemma Schedule_mode: "Schedule Inr h a w ty s = Inr t \<Longrightarrow> mstatus t = mstatus s"
  by (auto simp: Schedule_def SetLevel_def ChangeLevel_def res_eq_Inr Let_def split: if_splits)

lemma kernel_call_yields:
  assumes "kernel_call rnd tm fuel cwss delta h a s = Inr t" "mstatus s = SystemMode"
  shows "yieldOnReturn t"
proof (cases h)
  case TimerHandler
  with assms(1) obtain u where u: "Schedule Inr TimerHandler 0 (TimeOfNextInterrupt (rnd s) tm) TimerInt s = Inr u"
    "SchedTimerInterruptHandler fuel cwss delta (timer_arg tm) u = Inr t"
    by (auto simp: TimerExpired_def res_eq_Inr)
  with Schedule_mode [OF u(1)] assms(2) SchedTimer_yields [OF u(2)] show ?thesis by simp
next
  case SchedTimer
  with assms SchedTimer_yields show ?thesis by auto
qed

lemma fire_yields: "fire (kernel_call rnd tm fuel cwss delta) p s = Inr t \<Longrightarrow> yieldOnReturn t"
  by (auto simp: fire_def res_eq_Inr dest!: kernel_call_yields)

lemma fires_yield:
  "fold_res (fire (kernel_call rnd tm fuel cwss delta)) qs s = Inr t \<Longrightarrow> qs \<noteq> [] \<Longrightarrow> yieldOnReturn t"
  by (cases qs rule: rev_cases) (auto simp: fold_res_append bind_res_eq_Inr dest: fire_yields)

section \<open>One tick\<close>

text \<open>
  The clock advances. When the first pending interrupt is due, the interrupts of its time fire, and
  the current thread goes back to the ready threads and the best of them runs; so it does when
  something had asked for it before. Otherwise the current thread goes on.
\<close>

definition ticked :: "'h system \<Rightarrow> uint32" where
  "ticked s = totalTicks s + (if mstatus s = SystemMode then SystemTick else UserTick)"

lemma ticked_bound: "unat (ticked s) \<le> unat (totalTicks s) + 10"
proof -
  let ?d = "if mstatus s = SystemMode then SystemTick else UserTick"
  have "unat ?d \<le> 10" by (simp add: SystemTick_def UserTick_def)
  moreover have "unat (totalTicks s + ?d) \<le> unat (totalTicks s) + unat ?d"
    by (metis unat_word_ariths(1) mod_less_eq_dividend)
  ultimately show ?thesis unfolding ticked_def by linarith
qed

lemma OneTick_ok:
  fixes s :: "kernel_func system"
  assumes ok: "timer_ok tm delta (kept s) s" and ps: "pend_inv s (p # ps)" and st: "mstatus s \<noteq> IdleMode"
    and clock: "unat (totalTicks s) + 10 + unat (period tm) < 2 ^ 32" and rd: "ready_inv s xs"
  shows "\<exists>t qs. OneTick (kernel_call rnd tm fuel False delta) s = Inr t \<and> sched_inv t \<and> running t \<and> keeps_memory s t \<and>
    totalTicks t = ticked s \<and> pend_inv t qs \<and>
    (if pi_when p \<le> totalTicks t
     then mset qs + mset (sched_timer.batch p ps) = mset (p # ps) + mset (sched_timer.added tm (totalTicks t) (sched_timer.batch p ps))
     else qs = p # ps) \<and>
    (if pi_when p \<le> totalTicks t \<or> needResched s \<or> yieldOnReturn s
     then \<exists>ys. insert_by (\<lambda>x y. prio s x < prio s y) (currentThread s) xs = currentThread t # ys \<and> ready_inv t ys
     else currentThread t = currentThread s \<and> ready_inv t xs \<and> registers t = registers s \<and> level t = IntOn)"
proof -
  from ok obtain th where th: "threads s (currentThread s) = Some th" by (auto simp: timer_ok_def running_def)
  from advance_clock_ok [OF th] obtain s1 where s1: "advance_clock s = Inr s1" "sched_core s1 = sched_core s"
    "registers s1 = registers s" "pending s1 = pending s" "mstatus s1 = mstatus s" "totalTicks s1 = ticked s"
    "needResched s1 = needResched s" "yieldOnReturn s1 = yieldOnReturn s" unfolding ticked_def by blast
  let ?s2 = "ChangeLevel IntOff s1"
  have tk: "unat (totalTicks s1) + unat (period tm) < 2 ^ 32" using clock ticked_bound [of s] unfolding s1(6) by linarith
  have c2: "sched_core s = sched_core ?s2" using s1(2) by (simp add: ChangeLevel_def)
  have ok2: "timer_ok tm delta (kept s) ?s2"
    using ok tk s1(3) sched_core_inv [OF c2] sched_core_running [OF c2] kept_cong [OF c2] sched_core_parts(5) [OF c2]
    by (simp add: timer_ok_def ChangeLevel_def)
  have ps2: "pend_inv ?s2 (p # ps)" "level ?s2 = IntOff" "mstatus ?s2 \<noteq> IdleMode" "totalTicks ?s2 = ticked s"
    using ps st s1(4-6) by (simp_all add: pend_inv_def ChangeLevel_def)
  have due: "due ?s2 p \<longleftrightarrow> pi_when p \<le> ticked s" by (simp add: due_def ps2(4))
  from sched_timer.handle_all_due_ok [OF ok2 ps2(2,1,3), of rnd fuel] obtain s3 qs where
    s3: "handle_all_due (kernel_call rnd tm fuel False delta) ?s2 = Inr s3" "timer_ok tm delta (kept s) s3"
      "totalTicks s3 = ticked s" "pend_inv s3 qs"
      "if due ?s2 p then fold_res (fire (kernel_call rnd tm fuel False delta)) (sched_timer.batch p ps) ?s2 = Inr s3 \<and>
         mset qs + mset (sched_timer.batch p ps) = mset (p # ps) + mset (sched_timer.added tm (totalTicks ?s2) (sched_timer.batch p ps))
       else s3 = ?s2 \<and> qs = p # ps"
    unfolding ps2(4) by blast
  let ?Q = "if pi_when p \<le> ticked s
     then mset qs + mset (sched_timer.batch p ps) = mset (p # ps) + mset (sched_timer.added tm (ticked s) (sched_timer.batch p ps))
     else qs = p # ps"
  have Q: ?Q using s3(5) unfolding due ps2(4) by (simp split: if_splits)
  let ?s4 = "ChangeLevel IntOn s3"
  have c4: "sched_core s3 = sched_core ?s4" by (simp add: ChangeLevel_def)
  have k4: "kept ?s4 = kept s" using s3(2) kept_cong [OF c4] by (simp add: timer_ok_def)
  then have inv4: "sched_inv ?s4" "running ?s4" "vbyte ?s4 = vbyte s" "currentThread ?s4 = currentThread s"
    "prio ?s4 = prio s" "ready_inv ?s4 = ready_inv s"
    using s3(2) sched_core_inv [OF c4] sched_core_running [OF c4] by (simp_all add: timer_ok_def kept_def)
  have f4: "totalTicks ?s4 = ticked s" "pend_inv ?s4 qs" using s3(3,4) by (simp_all add: ChangeLevel_def pend_inv_def)
  have ask: "yieldOnReturn ?s4 \<or> needResched ?s4 \<longleftrightarrow> pi_when p \<le> ticked s \<or> needResched s \<or> yieldOnReturn s"
  proof (cases "due ?s2 p")
    case True
    with s3(5) have "fold_res (fire (kernel_call rnd tm fuel False delta)) (sched_timer.batch p ps) ?s2 = Inr s3" by simp
    from fires_yield [OF this] have "yieldOnReturn s3" by simp
    with True show ?thesis unfolding due by (simp add: ChangeLevel_def)
  next
    case False
    with s3(5) have "s3 = ?s2" by simp
    with False s1(7,8) show ?thesis unfolding due by (auto simp: ChangeLevel_def)
  qed
  show ?thesis
  proof (cases "yieldOnReturn ?s4 \<or> needResched ?s4")
    case True
    let ?s5 = "?s4\<lparr>needResched := False, yieldOnReturn := False, mstatus := SystemMode\<rparr>"
    from inv4(2) obtain ch where ch: "threads ?s5 (currentThread ?s4) = Some ch" by (auto simp: running_def)
    from push_frame_ok [OF ch, of "OneTick_frame (mstatus s)"] obtain s6 where
      s6: "push_frame (currentThread ?s4) (OneTick_frame (mstatus s)) ?s5 = Inr s6" "sched_core s6 = sched_core ?s5"
        "pending s6 = pending ?s4" "totalTicks s6 = totalTicks ?s4" by auto
    then have c6: "sched_core ?s4 = sched_core s6" by simp
    have inv6: "sched_inv s6" "running s6" "vbyte s6 = vbyte s" "currentThread s6 = currentThread s" "prio s6 = prio s"
      "ready_inv s6 xs"
      using inv4 rd sched_core_inv [OF c6] sched_core_running [OF c6] kept_cong [OF c6] by (simp_all add: kept_def)
    from Yield_total [OF inv6(1,2,6)] obtain t ys where t: "Yield (currentThread s6) s6 = Inr t" "sched_inv t" "running t"
      "keeps_memory s6 t" "insert_by (\<lambda>x y. prio s x < prio s y) (currentThread s) xs = currentThread t # ys"
      "ready_inv t ys" "pending t = pending ?s4" "totalTicks t = ticked s"
      unfolding inv6(4,5) s6(3,4) f4(1) by blast
    have "OneTick (kernel_call rnd tm fuel False delta) s = Inr t"
      using s1(1) s3(1) s6(1) t(1) True by (simp add: OneTick_def Let_def)
    moreover have "keeps_memory s t" using t(4) keeps_memory_cong [of s6 s t] inv6(3) by simp
    moreover have "pend_inv t qs" using f4(2) t(7) by (simp add: pend_inv_def)
    moreover have "if pi_when p \<le> totalTicks t
     then mset qs + mset (sched_timer.batch p ps) = mset (p # ps) + mset (sched_timer.added tm (totalTicks t) (sched_timer.batch p ps))
     else qs = p # ps"
      using Q by (simp only: t(8))
    moreover have "if pi_when p \<le> totalTicks t \<or> needResched s \<or> yieldOnReturn s
     then \<exists>ys. insert_by (\<lambda>x y. prio s x < prio s y) (currentThread s) xs = currentThread t # ys \<and> ready_inv t ys
     else currentThread t = currentThread s \<and> ready_inv t xs \<and> registers t = registers s \<and> level t = IntOn"
      using True t(5,6) unfolding ask t(8) by auto
    ultimately show ?thesis using t(2,3,8) by blast
  next
    case False
    then have "\<not> due ?s2 p" unfolding ask due by simp
    with s3(5) have "s3 = ?s2" by simp
    then have "registers ?s4 = registers s" "level ?s4 = IntOn" using s1(3) by (simp_all add: ChangeLevel_def)
    moreover have "OneTick (kernel_call rnd tm fuel False delta) s = Inr ?s4"
      using s1(1) s3(1) False by (simp add: OneTick_def Let_def)
    moreover have "keeps_memory s ?s4" using inv4(3) by (simp add: keeps_memory_def)
    moreover have "if pi_when p \<le> totalTicks ?s4
     then mset qs + mset (sched_timer.batch p ps) = mset (p # ps) + mset (sched_timer.added tm (totalTicks ?s4) (sched_timer.batch p ps))
     else qs = p # ps"
      using Q by (simp only: f4(1))
    moreover have "if pi_when p \<le> totalTicks ?s4 \<or> needResched s \<or> yieldOnReturn s
     then \<exists>ys. insert_by (\<lambda>x y. prio s x < prio s y) (currentThread s) xs = currentThread ?s4 # ys \<and> ready_inv ?s4 ys
     else currentThread ?s4 = currentThread s \<and> ready_inv ?s4 xs \<and> registers ?s4 = registers s \<and> level ?s4 = IntOn"
      using False calculation(1,2) inv4(4,6) rd unfolding ask f4(1) by simp
    ultimately show ?thesis using inv4(1,2) f4 by blast
  qed
qed

end
