(* ===== verification/Sleeping.thy ===== *)
theory Sleeping
  imports Timer_Ticks
begin

text \<open>
  Threads that block or end: \<open>Thread::Sleep\<close> and \<open>Thread::Finish\<close>, and what happens when no thread is ready.
\<close>

section \<open>Giving up the CPU\<close>

text \<open>The current thread took a status other than ready or running, and \<open>n\<close> left the ready list.\<close>

lemma stopped_picked:
  assumes inv: "sched_inv s" "ready_inv s (n # ys)" and th: "threads s (currentThread s) = Some th" "tstatus th = RUNNING"
    and u: "threads u = (threads s)(currentThread s \<mapsto> th')" "tstatus th' \<noteq> RUNNING" "tstatus th' \<noteq> READY"
      "Priority th' = Priority th" "tspace th' = tspace th"
    and same: "currentThread u = currentThread s" "currentSpace u = currentSpace s" "allThreads u = allThreads s"
      "nextThread u = nextThread s" "vm_core u = vm_core s" and l: "represents (readyList u) ys" and z: "zombie_inv u"
  shows "picked u n ys"
proof -
  have pr: "prio u = prio s" using th(1) u(1,4) by (intro prio_cong) (auto simp: fun_eq_iff)
  have sp: "spaces u = spaces s" using same(5) by (simp add: vm_core_def)
  have "set (n # ys) = {t. \<exists>th. threads u t = Some th \<and> tstatus th = READY}"
    using inv(2) th u(1,3) by (auto simp: ready_inv_def)
  moreover have "all_inv u" by (rule all_inv_upd [OF sched_all [OF inv(1)] th(1)]) (use u(1) same in simp_all)
  moreover have "space_inv u"
  proof -
    have si: "space_inv s" using inv(1) by (simp add: sched_inv_def)
    have prev: "\<exists>vh. threads s w = Some vh \<and> tspace vh = tspace wh" if "threads u w = Some wh" for w wh
      using that th(1) u(1,5) by (auto split: if_splits)
    show ?thesis
      unfolding space_inv_def
    proof (intro conjI allI impI)
      show "spaces u sid \<noteq> None" if "threads u t = Some wh" "tspace wh = Some sid" for t wh sid
        using prev [OF that(1)] that(2) si sp unfolding space_inv_def by metis
      show "t = w" if "threads u t = Some vh" "tspace vh = Some sid" "threads u w = Some wh" "tspace wh = Some sid" for t w vh wh sid
        using prev [OF that(1)] prev [OF that(3)] that si unfolding space_inv_def by metis
      show "map_option tspace (threads u (currentThread u)) = Some (currentSpace u)"
        using si th(1) u(1,5) same(1,2) by (simp add: space_inv_def)
    qed
  qed
  moreover have "vm_inv u" using inv(1) vm_core_inv [OF same(5)] by (simp add: sched_inv_def)
  moreover have "tstatus wh \<noteq> RUNNING" if "threads u w = Some wh" for w wh
    using that inv(1) u(1,2) by (auto simp: sched_inv_def split: if_splits)
  ultimately show ?thesis using inv(2) l z by (simp add: picked_def pr ready_inv_def)
qed

lemma Sleep_loop_ready:
  assumes "ready_inv s (n # ys)" "all_inv s" "threads s (currentThread s) = Some th" "tstatus th \<noteq> RUNNING"
    and "dom (threads s) \<noteq> {currentThread s}"
  shows "\<exists>l. Sleep_loop (Suc fuel) call s = Inr (n, s\<lparr>readyList := l\<rparr>) \<and> represents l ys"
proof -
  from FindNextToRun_ok [OF assms(1-4)] assms(5) obtain l where
    "FindNextToRun s = Inr (Some n, s\<lparr>readyList := l\<rparr>)" "represents l ys" by auto
  then show ?thesis by (intro exI [of _ l]) simp
qed

lemma two_threads:
  assumes "ready_inv s (n # ys)" "threads s (currentThread s) = Some th" "tstatus th \<noteq> READY"
  shows "dom (threads s) \<noteq> {currentThread s}" "n \<noteq> currentThread s"
proof -
  have "n \<in> {t. \<exists>th. threads s t = Some th \<and> tstatus th = READY}"
    using assms(1) unfolding ready_inv_def by (metis list.set_intros(1))
  then obtain nh where nh: "threads s n = Some nh" "tstatus nh = READY" by blast
  with assms(2,3) show ne: "n \<noteq> currentThread s" by auto
  from nh(1) have "n \<in> dom (threads s)" by blast
  with ne show "dom (threads s) \<noteq> {currentThread s}" by blast
qed

text \<open>Changing the current thread's status from running to another that is not ready.\<close>

lemma stop_running:
  assumes inv: "sched_inv s" "ready_inv s xs" and th: "threads s (currentThread s) = Some th" "tstatus th = RUNNING"
    and st: "st \<noteq> READY"
  shows "ready_inv (s\<lparr>threads := (threads s)(currentThread s \<mapsto> th\<lparr>tstatus := st\<rparr>)\<rparr>) xs"
    "all_inv (s\<lparr>threads := (threads s)(currentThread s \<mapsto> th\<lparr>tstatus := st\<rparr>)\<rparr>)"
proof -
  let ?t = "s\<lparr>threads := (threads s)(currentThread s \<mapsto> th\<lparr>tstatus := st\<rparr>)\<rparr>"
  have pr: "prio ?t = prio s" using th(1) by (intro prio_cong) (auto simp: fun_eq_iff)
  have "{t. \<exists>th. threads ?t t = Some th \<and> tstatus th = READY} = {t. \<exists>th. threads s t = Some th \<and> tstatus th = READY}"
    using th st by auto
  with inv(2) pr show "ready_inv ?t xs" by (simp add: ready_inv_def)
  show "all_inv ?t" by (rule all_inv_upd [OF sched_all [OF inv(1)] th(1)]) simp_all
qed

lemma Sleep_ok:
  assumes inv: "sched_inv s" "running s" "ready_inv s (n # ys)" and lv: "level s = IntOff"
  shows "\<exists>t. Sleep (Suc fuel) call (currentThread s) s = Inr t \<and> sched_inv t \<and> running t \<and> best t \<and> ready_inv t ys \<and>
    currentThread t = n \<and> keeps_memory s t \<and> blocked t = insert (currentThread s) (blocked s)"
proof -
  from inv(2) obtain th where th: "threads s (currentThread s) = Some th" "tstatus th = RUNNING" by (auto simp: running_def)
  let ?s1 = "s\<lparr>threads := (threads s)(currentThread s \<mapsto> th\<lparr>tstatus := BLOCKED\<rparr>)\<rparr>"
  note stop = stop_running [OF inv(1,3) th, of BLOCKED]
  have "dom (threads ?s1) \<noteq> {currentThread ?s1}" by (rule two_threads(1) [OF stop(1), of "th\<lparr>tstatus := BLOCKED\<rparr>"]) simp_all
  with Sleep_loop_ready [OF stop, of "th\<lparr>tstatus := BLOCKED\<rparr>" fuel call] obtain l where
    l: "Sleep_loop (Suc fuel) call ?s1 = Inr (n, ?s1\<lparr>readyList := l\<rparr>)" "represents l ys" by auto
  let ?u = "?s1\<lparr>readyList := l\<rparr>"
  have "zombie_inv ?u"
    unfolding zombie_inv_def
  proof (intro allI impI)
    fix z assume "threadToBeDestroyed ?u = Some z"
    with inv(1) obtain zh where zh: "threads s z = Some zh" "deletable s zh" by (auto simp: sched_inv_def zombie_inv_def)
    with th have "z \<noteq> currentThread s" by (auto simp: deletable_def)
    with zh show "\<exists>zh. threads ?u z = Some zh \<and> deletable ?u zh" by (simp add: deletable_def)
  qed
  then have p: "picked ?u n ys"
    by (intro stopped_picked [OF inv(1,3) th, of ?u "th\<lparr>tstatus := BLOCKED\<rparr>"]) (simp_all add: l(2))
  from Run_ok [OF p, of "th\<lparr>tstatus := BLOCKED\<rparr>"] obtain t where t: "Run n ?u = Inr t" "switched ?u n ys t" by auto
  have "Sleep (Suc fuel) call (currentThread s) s = Inr t"
    using lv th(1) l(1) t(1) by (simp add: Sleep_def setStatus_def del: Sleep_loop.simps)
  moreover have "keeps_memory s t"
    using t(2) keeps_memory_cong [of ?u s t] vm_core_vbyte [of ?u s] by (simp add: switched_def)
  moreover have "blocked ?u = insert (currentThread s) (blocked s)" by (auto simp: blocked_def)
  ultimately show ?thesis using t(2) by (auto simp: switched_def)
qed

section \<open>The end of a thread\<close>

lemma Finish_ok:
  assumes inv: "sched_inv s" "running s" "ready_inv s (n # ys)" and th: "threads s (currentThread s) = Some th"
    and del: "deletable s (th\<lparr>tstatus := ZOMBIE\<rparr>)" and new: "threads s n = Some new"
  shows "\<exists>t. Finish (Suc fuel) call (currentThread s) s = Inr t \<and> sched_inv t \<and> running t \<and> best t \<and> ready_inv t ys \<and>
    currentThread t = n \<and> keeps_memory s t \<and>
    (if never_ran new then threadToBeDestroyed t = Some (currentThread s) \<and> threads t (currentThread s) \<noteq> None
     else threads t (currentThread s) = None \<and> (\<forall>sid. tspace th = Some sid \<longrightarrow> spaces t sid = None) \<and>
       closedFiles t = closedFiles s @ concat (map fd_files (take MAX_FD (FDTable th))))"
proof -
  have run: "tstatus th = RUNNING" using inv(2) th by (simp add: running_def)
  let ?zh = "th\<lparr>tstatus := ZOMBIE\<rparr>"
  let ?s1 = "s\<lparr>level := IntOff, threadToBeDestroyed := Some (currentThread s), threads := (threads s)(currentThread s \<mapsto> ?zh)\<rparr>"
  note stop = stop_running [OF inv(1,3) th run, of ZOMBIE]
  have "prio ?s1 = prio (s\<lparr>threads := (threads s)(currentThread s \<mapsto> ?zh)\<rparr>)" by (simp add: prio_def fun_eq_iff)
  with stop have stop1: "ready_inv ?s1 (n # ys)" "all_inv ?s1" by (simp_all add: ready_inv_def all_inv_def)
  have "dom (threads ?s1) \<noteq> {currentThread ?s1}" by (rule two_threads(1) [OF stop1(1), of ?zh]) simp_all
  with Sleep_loop_ready [OF stop1, of ?zh fuel call] obtain l where
    l: "Sleep_loop (Suc fuel) call ?s1 = Inr (n, ?s1\<lparr>readyList := l\<rparr>)" "represents l ys" by auto
  let ?fh = "?zh\<lparr>frames := Sleep_frame IntOff # frames th\<rparr>"
  let ?u = "s\<lparr>level := IntOff, threadToBeDestroyed := Some (currentThread s), readyList := l,
      threads := (threads s)(currentThread s \<mapsto> ?fh)\<rparr>"
  have push: "push_frame (currentThread s) (Sleep_frame IntOff) (?s1\<lparr>readyList := l\<rparr>) = Inr ?u"
    by (simp add: push_frame_def upd_thread_def)
  have "zombie_inv ?u" using del by (simp add: zombie_inv_def deletable_def)
  then have p: "picked ?u n ys"
    by (intro stopped_picked [OF inv(1,3) th run, of ?u ?fh]) (simp_all add: l(2))
  from Run_ok [OF p, of ?fh] obtain t where t: "Run n ?u = Inr t" "switched ?u n ys t" by auto
  have "Finish (Suc fuel) call (currentThread s) s = Inr t"
    using th l(1) push t(1) by (simp add: Finish_def Sleep_status_def setStatus_def upd_thread_def level_same del: Sleep_loop.simps)
  moreover have "keeps_memory s t"
    using t(2) keeps_memory_cong [of ?u s t] vm_core_vbyte [of ?u s] by (simp add: switched_def)
  moreover have n: "threads ?u n = Some new" using new two_threads(2) [OF inv(3) th] run by simp
  have "threads t (currentThread s) = None \<and> (\<forall>sid. tspace th = Some sid \<longrightarrow> spaces t sid = None) \<and>
      closedFiles t = closedFiles s @ concat (map fd_files (take MAX_FD (FDTable th)))" if "\<not> never_ran new"
  proof -
    from t(2) n that have "freed ?u t" by (auto simp: switched_def)
    then show ?thesis by (simp add: freed_def)
  qed
  moreover have "threadToBeDestroyed t = Some (currentThread s) \<and> threads t (currentThread s) \<noteq> None" if "never_ran new"
  proof -
    from t(2) n that have "threadToBeDestroyed t = threadToBeDestroyed ?u \<and> dom (threads t) = dom (threads ?u)"
      unfolding switched_def by blast
    then show ?thesis by auto
  qed
  ultimately show ?thesis using t(2) by (auto simp: switched_def)
qed

section \<open>When nothing is left to do\<close>

lemma Finish_last:
  assumes inv: "sched_inv s" "running s" and one: "dom (threads s) = {currentThread s}"
  shows "Finish (Suc fuel) call (currentThread s) s = Inl Halted"
proof -
  from inv(2) obtain th where th: "threads s (currentThread s) = Some th" "tstatus th = RUNNING" by (auto simp: running_def)
  let ?zh = "th\<lparr>tstatus := ZOMBIE\<rparr>"
  let ?s1 = "s\<lparr>level := IntOff, threadToBeDestroyed := Some (currentThread s), threads := (threads s)(currentThread s \<mapsto> ?zh)\<rparr>"
  have "all_inv ?s1" by (rule all_inv_upd [OF sched_all [OF inv(1)] th(1)]) simp_all
  moreover have "dom (threads ?s1) = {currentThread ?s1}" using one by simp
  ultimately have "FindNextToRun ?s1 = Inl Halted" by (intro FindNextToRun_halts [of ?s1 ?zh]) simp_all
  with th(1) show ?thesis
    by (simp add: Finish_def Sleep_status_def setStatus_def upd_thread_def level_same)
qed

text \<open>With only the timer pending, idling moves the clock to the timer once and then stops the machine.\<close>

lemma Idle_timer:
  fixes s :: "'h system"
  assumes lv: "level s = IntOff" and ps: "represents (pending s) [p]" "pi_type p = TimerInt"
  shows "totalTicks s < pi_when p \<Longrightarrow> \<exists>l. represents l [p] \<and>
      Idle call s = Inr (s\<lparr>mstatus := SystemMode, idleTicks := idleTicks s + (pi_when p - totalTicks s),
        totalTicks := pi_when p, pending := l, yieldOnReturn := False\<rparr>)"
    "\<not> totalTicks s < pi_when p \<Longrightarrow> Idle call s = Inl Halted"
proof -
  from Remove_ok [OF ps(1)] obtain e where e: "Remove (pending s) = Inr (Some p, e)" "represents e []" by auto
  from Insert_ok [OF e(2), of interruptOrder p] obtain l where l: "Insert interruptOrder p e = Inr l" "represents l [p]" by auto
  have hd: "Head (pending s) = Inr (Some p)" using Head_ok [OF ps(1)] by simp
  have em: "IsEmpty e" using represents_empty [OF e(2)] by simp
  have last: "HandleIfDue call b u = Inr (False, u\<lparr>pending := l\<rparr>)"
    if "level u = IntOff" "pending u = pending s" "mstatus u = IdleMode" "\<not> totalTicks u < pi_when p" for b and u :: "'h system"
    using that hd e(1) em l(1) ps(2) by (simp add: HandleIfDue_def)
  let ?i = "s\<lparr>mstatus := IdleMode\<rparr>"
  let ?j = "?i\<lparr>idleTicks := idleTicks s + (pi_when p - totalTicks s), totalTicks := pi_when p\<rparr>"
  {
    assume "totalTicks s < pi_when p"
    then have "HandleIfDue call True ?i = Inr (True, ?i)" using lv hd by (simp add: HandleIfDue_def)
    moreover have "handle_all_due call ?j = Inr (?j\<lparr>pending := l\<rparr>)"
      using last [of ?j False] lv by (simp add: handle_all_due_def)
    ultimately show "\<exists>l. represents l [p] \<and>
      Idle call s = Inr (s\<lparr>mstatus := SystemMode, idleTicks := idleTicks s + (pi_when p - totalTicks s),
        totalTicks := pi_when p, pending := l, yieldOnReturn := False\<rparr>)"
      using hd l(2) by (intro exI [of _ l]) (simp add: Idle_def)
  next
    assume "\<not> totalTicks s < pi_when p"
    with last [of ?i True] lv show "Idle call s = Inl Halted" by (simp add: Idle_def Halt_def)
  }
qed

lemma FindNextToRun_none:
  assumes "represents (readyList s) []" "all_inv s" "threads s (currentThread s) = Some th" "tstatus th = BLOCKED"
  shows "\<exists>l. FindNextToRun s = Inr (None, s\<lparr>readyList := l\<rparr>) \<and> represents l []"
proof -
  from Remove_ok [OF assms(1)] obtain l where "Remove (readyList s) = Inr (None, l)" "represents l []" by auto
  with all_finished_ok [OF assms(2,3)] assms(3,4) show ?thesis by (auto simp: FindNextToRun_def getStatus_def)
qed

lemma Sleep_halts:
  fixes s :: "'h system"
  assumes inv: "sched_inv s" "running s" "ready_inv s []" and lv: "level s = IntOff"
    and ps: "represents (pending s) [p]" "pi_type p = TimerInt"
  shows "Sleep (Suc (Suc fuel)) call (currentThread s) s = Inl Halted"
proof -
  from inv(2) obtain th where th: "threads s (currentThread s) = Some th" "tstatus th = RUNNING" by (auto simp: running_def)
  define s1 where "s1 = s\<lparr>threads := (threads s)(currentThread s \<mapsto> th\<lparr>tstatus := BLOCKED\<rparr>)\<rparr>"
  have s1: "threads s1 (currentThread s1) = Some (th\<lparr>tstatus := BLOCKED\<rparr>)" "represents (readyList s1) []" "all_inv s1"
    "level s1 = IntOff" "represents (pending s1) [p]"
    using stop_running [OF inv(1,3) th, of BLOCKED] lv ps by (simp_all add: s1_def ready_inv_def)
  from FindNextToRun_none [OF s1(2,3,1)] obtain l where l: "FindNextToRun s1 = Inr (None, s1\<lparr>readyList := l\<rparr>)"
    "represents l []" by auto
  let ?s2 = "s1\<lparr>readyList := l\<rparr>"
  have "Sleep_loop (Suc (Suc fuel)) call s1 = Inl Halted"
  proof (cases "totalTicks ?s2 < pi_when p")
    case False
    with Idle_timer(2) [of ?s2 p call] s1 ps(2) l(1) show ?thesis by simp
  next
    case True
    with Idle_timer(1) [of ?s2 p call] s1 ps(2) obtain k where k: "represents k [p]"
      "Idle call ?s2 = Inr (?s2\<lparr>mstatus := SystemMode, idleTicks := idleTicks ?s2 + (pi_when p - totalTicks ?s2),
        totalTicks := pi_when p, pending := k, yieldOnReturn := False\<rparr>)" (is "_ = Inr ?s3") by auto
    have "all_inv ?s3" using s1(3) by (simp add: all_inv_def)
    with FindNextToRun_none [of ?s3 "th\<lparr>tstatus := BLOCKED\<rparr>"] s1(1) l(2) obtain m where
      m: "FindNextToRun ?s3 = Inr (None, ?s3\<lparr>readyList := m\<rparr>)" by auto
    have "Idle call (?s3\<lparr>readyList := m\<rparr>) = Inl Halted"
      using k(1) ps(2) s1(4) by (intro Idle_timer(2) [of _ p]) simp_all
    with l(1) k(2) m show ?thesis by simp
  qed
  with lv th(1) show ?thesis by (simp add: Sleep_def setStatus_def s1_def del: Sleep_loop.simps)
qed

section \<open>Waking another thread\<close>

lemma made_ready_inv:
  assumes inv: "sched_inv s" "running s" and t: "threads s t = Some th" "tstatus th \<notin> {READY, RUNNING, ZOMBIE}"
  shows "\<exists>l. ReadyToRun t s = Inr (made_ready t th l s) \<and> sched_inv (made_ready t th l s) \<and> running (made_ready t th l s)"
proof -
  from inv(1) obtain xs where xs: "ready_inv s xs" by (auto simp: sched_inv_def)
  from ReadyToRun_ok [OF xs t(1)] t(2) obtain l where l: "ReadyToRun t s = Inr (made_ready t th l s)"
    "ready_inv (made_ready t th l s) (insert_by (\<lambda>x y. prio s x < prio s y) t xs)" by auto
  let ?u = "made_ready t th l s"
  have u: "threads ?u = (threads s)(t \<mapsto> th\<lparr>tstatus := READY\<rparr>)" "currentThread ?u = currentThread s" "currentSpace ?u = currentSpace s"
    "allThreads ?u = allThreads s" "nextThread ?u = nextThread s" "threadToBeDestroyed ?u = threadToBeDestroyed s"
    "spaces ?u = spaces s" by (simp_all add: made_ready_def)
  from inv(2) t have tc: "t \<noteq> currentThread s" by (auto simp: running_def)
  have prev: "\<exists>vh. threads s w = Some vh \<and> tspace vh = tspace wh" if "threads ?u w = Some wh" for w wh
    using that t(1) u(1) by (auto split: if_splits)
  have "all_inv ?u" by (rule all_inv_upd [OF sched_all [OF inv(1)] t(1)]) (simp_all add: u)
  moreover have "space_inv ?u"
    unfolding space_inv_def
  proof (intro conjI allI impI)
    have si: "space_inv s" using inv(1) by (simp add: sched_inv_def)
    show "spaces ?u sid \<noteq> None" if "threads ?u w = Some wh" "tspace wh = Some sid" for w wh sid
      using prev [OF that(1)] that(2) si u(7) unfolding space_inv_def by metis
    show "w = v" if "threads ?u w = Some wh" "tspace wh = Some sid" "threads ?u v = Some vh" "tspace vh = Some sid" for w v wh vh sid
      using prev [OF that(1)] prev [OF that(3)] that si unfolding space_inv_def by metis
    show "map_option tspace (threads ?u (currentThread ?u)) = Some (currentSpace ?u)"
      using si tc by (simp add: space_inv_def u)
  qed
  moreover have "zombie_inv ?u"
    unfolding zombie_inv_def u(6)
  proof (intro allI impI)
    fix z assume "threadToBeDestroyed s = Some z"
    with inv(1) obtain zh where zh: "threads s z = Some zh" "deletable s zh" by (auto simp: sched_inv_def zombie_inv_def)
    with t have "z \<noteq> t" by (auto simp: deletable_def)
    with zh show "\<exists>zh. threads ?u z = Some zh \<and> deletable ?u zh" by (simp add: u deletable_def)
  qed
  moreover have "vm_inv ?u" using inv(1) vm_core_inv [of ?u s "{}"] by (simp add: sched_inv_def made_ready_def)
  moreover have "w = currentThread ?u" if "threads ?u w = Some wh" "tstatus wh = RUNNING" for w wh
    using that inv(1) u(1,2) by (auto simp: sched_inv_def split: if_splits)
  ultimately have "sched_inv ?u" using l(2) unfolding sched_inv_def by blast
  moreover have "running ?u" using inv(2) tc by (simp add: running_def u)
  ultimately show ?thesis using l(1) by blast
qed

end
