(* ===== verification/Synch.thy ===== *)
theory Synch
  imports Sleeping
begin

text \<open>
  \<open>threads/synch.cc\<close>: semaphores, locks and condition variables. They are built on three services of
  the thread system, the current thread, \<open>ReadyToRun\<close> and \<open>Sleep\<close>, which are arguments of the
  operations; the locale \<open>thread_scheduling\<close> states what they promise, and the kernel's own functions
  are an instance. Interrupts are off inside an operation, so what runs between two calls of
  \<open>Sleep\<close> is atomic: an operation that may sleep is cut there. The step relations interleave such
  pieces of any number of threads, with clock ticks and other threads' work between them.
\<close>

section \<open>Objects\<close>

record Lock =
  lock_owner :: "nat option"
  lock_queue :: "nat List"

record Condition =
  cond_queue :: "nat List"

definition Lock_new :: Lock where
  "Lock_new = \<lparr>lock_owner = None, lock_queue = List_new\<rparr>"

definition Condition_new :: Condition where
  "Condition_new = \<lparr>cond_queue = List_new\<rparr>"

section \<open>Operations\<close>

text \<open>
  One round of the loop of \<open>KernelSemaphore::P\<close>: the thread queues itself and sleeps, or takes one and leaves
  (\<open>True\<close>). \<open>P\<close> is the call until it returns (\<open>True\<close>) or first sleeps; a thread that sleeps goes on, when
  it runs again, with further rounds and then restores the level. \<open>V\<close> wakes a waiter, if any, and increments.
\<close>

definition P_round ::
  "('s \<Rightarrow> nat) \<Rightarrow> ('s \<Rightarrow> 's res) \<Rightarrow> KernelSemaphore \<Rightarrow> 's \<Rightarrow> (bool \<times> KernelSemaphore \<times> 's) res" where
  "P_round current sleep sem s =
     (if sem_value sem = 0 then
        bind_res (Append (current s) (sem_queue sem)) (\<lambda>q.
        bind_res (sleep s) (\<lambda>s1. Inr (False, sem\<lparr>sem_queue := q\<rparr>, s1)))
      else Inr (True, sem\<lparr>sem_value := sem_value sem - 1\<rparr>, s))"

definition P ::
  "('h system \<Rightarrow> 'h system res) \<Rightarrow> ('h system \<Rightarrow> 'h system res) \<Rightarrow> KernelSemaphore \<Rightarrow> 'h system \<Rightarrow>
   (bool \<times> KernelSemaphore \<times> 'h system) res" where
  "P tick sleep sem s =
     bind_res (SetLevel tick IntOff s) (\<lambda>(oldLevel, s1).
     bind_res (P_round currentThread sleep sem s1) (\<lambda>(taken, sem1, s2).
     if taken then bind_res (SetLevel tick oldLevel s2) (\<lambda>(_, s3). Inr (True, sem1, s3))
     else Inr (False, sem1, s2)))"

definition V_body ::
  "(nat \<Rightarrow> 's \<Rightarrow> 's res) \<Rightarrow> KernelSemaphore \<Rightarrow> 's \<Rightarrow> (KernelSemaphore \<times> 's) res" where
  "V_body make_ready sem s =
     bind_res (Remove (sem_queue sem)) (\<lambda>(thread, q).
     bind_res (case thread of None \<Rightarrow> Inr s | Some t \<Rightarrow> make_ready t s) (\<lambda>s1.
     Inr (sem\<lparr>sem_queue := q, sem_value := sem_value sem + 1\<rparr>, s1)))"

definition V :: "('h system \<Rightarrow> 'h system res) \<Rightarrow> KernelSemaphore \<Rightarrow> 'h system \<Rightarrow> (KernelSemaphore \<times> 'h system) res" where
  "V tick sem s =
     bind_res (SetLevel tick IntOff s) (\<lambda>(oldLevel, s1).
     bind_res (V_body ReadyToRun sem s1) (\<lambda>(sem1, s2).
     bind_res (SetLevel tick oldLevel s2) (\<lambda>(_, s3). Inr (sem1, s3))))"

text \<open>
  One round of the loop of \<open>Lock::Acquire\<close> and the call until it returns or first sleeps; \<open>Lock::Release\<close>
  between its changes of the level and whole.
\<close>

definition Acquire_round ::
  "('s \<Rightarrow> nat) \<Rightarrow> ('s \<Rightarrow> 's res) \<Rightarrow> Lock \<Rightarrow> 's \<Rightarrow> (bool \<times> Lock \<times> 's) res" where
  "Acquire_round current sleep lock s =
     (if lock_owner lock \<noteq> None then
        bind_res (Append (current s) (lock_queue lock)) (\<lambda>q.
        bind_res (sleep s) (\<lambda>s1. Inr (False, lock\<lparr>lock_queue := q\<rparr>, s1)))
      else Inr (True, lock\<lparr>lock_owner := Some (current s)\<rparr>, s))"

definition Release_body :: "(nat \<Rightarrow> 's \<Rightarrow> 's res) \<Rightarrow> Lock \<Rightarrow> 's \<Rightarrow> (Lock \<times> 's) res" where
  "Release_body make_ready lock s =
     bind_res (Remove (lock_queue lock)) (\<lambda>(thread, q).
     bind_res (case thread of None \<Rightarrow> Inr s | Some t \<Rightarrow> make_ready t s) (\<lambda>s1.
     Inr (lock\<lparr>lock_owner := thread, lock_queue := q\<rparr>, s1)))"

definition Acquire ::
  "('h system \<Rightarrow> 'h system res) \<Rightarrow> ('h system \<Rightarrow> 'h system res) \<Rightarrow> Lock \<Rightarrow> 'h system \<Rightarrow>
   (bool \<times> Lock \<times> 'h system) res" where
  "Acquire tick sleep lock s =
     bind_res (SetLevel tick IntOff s) (\<lambda>(oldLevel, s1).
     bind_res (Acquire_round currentThread sleep lock s1) (\<lambda>(taken, lock1, s2).
     if taken then bind_res (SetLevel tick oldLevel s2) (\<lambda>(_, s3). Inr (True, lock1, s3))
     else Inr (False, lock1, s2)))"

definition Release :: "('h system \<Rightarrow> 'h system res) \<Rightarrow> Lock \<Rightarrow> 'h system \<Rightarrow> (Lock \<times> 'h system) res" where
  "Release tick lock s =
     bind_res (SetLevel tick IntOff s) (\<lambda>(oldLevel, s1).
     bind_res (Release_body ReadyToRun lock s1) (\<lambda>(lock1, s2).
     bind_res (SetLevel tick oldLevel s2) (\<lambda>(_, s3). Inr (lock1, s3))))"

definition isHeldByCurrentThread :: "('s \<Rightarrow> nat) \<Rightarrow> Lock \<Rightarrow> 's \<Rightarrow> bool" where
  "isHeldByCurrentThread current lock s \<longleftrightarrow> Some (current s) = lock_owner lock"

definition Lock_delete :: "Lock \<Rightarrow> 'h system \<Rightarrow> 'h system res" where
  "Lock_delete lock s = wake_all (Suc (brk (lock_queue lock))) (lock_queue lock) s"

definition Condition_delete :: "Condition \<Rightarrow> 'h system \<Rightarrow> 'h system res" where
  "Condition_delete cond s = wake_all (Suc (brk (cond_queue cond))) (cond_queue cond) s"

text \<open>
  \<open>Condition::Wait\<close>, cut where the thread may lose the CPU: it queues itself and releases the lock, which
  enables interrupts again; then it disables them and sleeps; when it runs again it restores the level and
  acquires the lock (\<open>Acquire\<close>). \<open>Signal\<close> and \<open>Broadcast\<close> are an \<open>Acquire\<close> followed by what is given here.
\<close>

definition Wait_release ::
  "('h system \<Rightarrow> 'h system res) \<Rightarrow> Condition \<Rightarrow> Lock \<Rightarrow> 'h system \<Rightarrow> (Condition \<times> Lock \<times> 'h system) res" where
  "Wait_release tick cond lock s =
     bind_res (Append (currentThread s) (cond_queue cond)) (\<lambda>q.
     bind_res (Release tick lock s) (\<lambda>(lock1, s1). Inr (cond\<lparr>cond_queue := q\<rparr>, lock1, s1)))"

definition Wait_sleep ::
  "('h system \<Rightarrow> 'h system res) \<Rightarrow> ('h system \<Rightarrow> 'h system res) \<Rightarrow> 'h system \<Rightarrow> (IntStatus \<times> 'h system) res" where
  "Wait_sleep tick sleep s =
     bind_res (SetLevel tick IntOff s) (\<lambda>(oldLevel, s1). bind_res (sleep s1) (\<lambda>s2. Inr (oldLevel, s2)))"

definition Signal_wake :: "(nat \<Rightarrow> 's \<Rightarrow> 's res) \<Rightarrow> Condition \<Rightarrow> 's \<Rightarrow> (Condition \<times> 's) res" where
  "Signal_wake make_ready cond s =
     bind_res (Remove (cond_queue cond)) (\<lambda>(thread, q).
     bind_res (case thread of None \<Rightarrow> Inr s | Some t \<Rightarrow> make_ready t s) (\<lambda>s1. Inr (cond\<lparr>cond_queue := q\<rparr>, s1)))"

definition Signal_locked ::
  "('h system \<Rightarrow> 'h system res) \<Rightarrow> Condition \<Rightarrow> Lock \<Rightarrow> 'h system \<Rightarrow> (Condition \<times> Lock \<times> 'h system) res" where
  "Signal_locked tick cond lock s =
     bind_res (Signal_wake ReadyToRun cond s) (\<lambda>(cond1, s1).
     bind_res (Release tick lock s1) (\<lambda>(lock1, s2). Inr (cond1, lock1, s2)))"

fun Broadcast_loop :: "nat \<Rightarrow> (nat \<Rightarrow> 's \<Rightarrow> 's res) \<Rightarrow> nat List \<Rightarrow> 's \<Rightarrow> (nat List \<times> 's) res" where
  "Broadcast_loop 0 make_ready q s = Inl Diverges"
| "Broadcast_loop (Suc fuel) make_ready q s =
     bind_res (Remove q) (\<lambda>(thread, q1).
     case thread of None \<Rightarrow> Inr (q1, s) | Some t \<Rightarrow> bind_res (make_ready t s) (Broadcast_loop fuel make_ready q1))"

definition Broadcast_wake :: "(nat \<Rightarrow> 's \<Rightarrow> 's res) \<Rightarrow> Condition \<Rightarrow> 's \<Rightarrow> (Condition \<times> 's) res" where
  "Broadcast_wake make_ready cond s =
     bind_res (Broadcast_loop (Suc (brk (cond_queue cond))) make_ready (cond_queue cond) s) (\<lambda>(q, s1).
     Inr (cond\<lparr>cond_queue := q\<rparr>, s1))"

definition Broadcast_locked ::
  "('h system \<Rightarrow> 'h system res) \<Rightarrow> Condition \<Rightarrow> Lock \<Rightarrow> 'h system \<Rightarrow> (Condition \<times> Lock \<times> 'h system) res" where
  "Broadcast_locked tick cond lock s =
     bind_res (Broadcast_wake ReadyToRun cond s) (\<lambda>(cond1, s1).
     bind_res (Release tick lock s1) (\<lambda>(lock1, s2). Inr (cond1, lock1, s2)))"

section \<open>What the thread system promises\<close>

text \<open>
  \<open>asleep\<close> are the blocked threads. \<open>quiet s t\<close>: threads run and switch from \<open>s\<close> to \<open>t\<close> without waking
  or blocking anybody.
\<close>

locale thread_scheduling =
  fixes good :: "'s \<Rightarrow> bool" and current :: "'s \<Rightarrow> nat" and asleep :: "'s \<Rightarrow> nat set"
    and make_ready :: "nat \<Rightarrow> 's \<Rightarrow> 's res" and sleep :: "'s \<Rightarrow> 's res"
  assumes awake: "good s \<Longrightarrow> current s \<notin> asleep s"
    and wakes: "good s \<Longrightarrow> t \<in> asleep s \<Longrightarrow>
      \<exists>s'. make_ready t s = Inr s' \<and> good s' \<and> current s' = current s \<and> asleep s' = asleep s - {t}"
    and sleeps: "good s \<Longrightarrow> sleep s = Inr s' \<Longrightarrow> good s' \<and> asleep s' = insert (current s) (asleep s)"

section \<open>Semaphores as a state machine\<close>

text \<open>
  \<open>inside\<close> are the threads that are in \<open>P\<close>; \<open>taken\<close> and \<open>given\<close> count the completed calls of \<open>P\<close> and \<open>V\<close>.
  Anything else that runs may do whatever keeps the thread system good and neither wakes nor blocks the
  threads that are in this \<open>P\<close>: those that sleep are on no other queue, and those that do not are
  between two rounds of its loop, where nothing else blocks them.
\<close>

record 's sem_world =
  sw_sem :: KernelSemaphore
  sw_sys :: 's
  inside :: "nat set"
  taken :: nat
  given :: nat

inductive sem_step ::
  "('s \<Rightarrow> bool) \<Rightarrow> ('s \<Rightarrow> nat) \<Rightarrow> ('s \<Rightarrow> nat set) \<Rightarrow> (nat \<Rightarrow> 's \<Rightarrow> 's res) \<Rightarrow> ('s \<Rightarrow> 's res) \<Rightarrow> 's sem_world \<Rightarrow> 's sem_world \<Rightarrow> bool"
  for good current asleep make_ready sleep where
  enter: "current (sw_sys w) \<notin> inside w \<Longrightarrow>
    sem_step good current asleep make_ready sleep w (w\<lparr>inside := insert (current (sw_sys w)) (inside w)\<rparr>)"
| wait: "current (sw_sys w) \<in> inside w \<Longrightarrow> P_round current sleep (sw_sem w) (sw_sys w) = Inr (False, k, s) \<Longrightarrow>
    sem_step good current asleep make_ready sleep w (w\<lparr>sw_sem := k, sw_sys := s\<rparr>)"
| take: "current (sw_sys w) \<in> inside w \<Longrightarrow> P_round current sleep (sw_sem w) (sw_sys w) = Inr (True, k, s) \<Longrightarrow>
    sem_step good current asleep make_ready sleep w
      (w\<lparr>sw_sem := k, sw_sys := s, inside := inside w - {current (sw_sys w)}, taken := Suc (taken w)\<rparr>)"
| post: "V_body make_ready (sw_sem w) (sw_sys w) = Inr (k, s) \<Longrightarrow>
    sem_step good current asleep make_ready sleep w (w\<lparr>sw_sem := k, sw_sys := s, given := Suc (given w)\<rparr>)"
| other: "good s \<Longrightarrow> inside w \<inter> asleep s = inside w \<inter> asleep (sw_sys w) \<Longrightarrow>
    sem_step good current asleep make_ready sleep w (w\<lparr>sw_sys := s\<rparr>)"

definition sem_init :: "int \<Rightarrow> 's \<Rightarrow> 's sem_world" where
  "sem_init v0 s = \<lparr>sw_sem = KernelSemaphore_new v0, sw_sys = s, inside = {}, taken = 0, given = 0\<rparr>"

text \<open>
  The value is never negative and counts \<open>V\<close>s minus \<open>P\<close>s; the queue has, once each, exactly the threads that
  sleep inside \<open>P\<close>; and while somebody is queued, every unit that is available has a thread that is
  awake inside \<open>P\<close> and will take it.
\<close>

definition sem_inv :: "('s \<Rightarrow> bool) \<Rightarrow> ('s \<Rightarrow> nat set) \<Rightarrow> int \<Rightarrow> 's sem_world \<Rightarrow> nat list \<Rightarrow> bool" where
  "sem_inv good asleep v0 w q \<longleftrightarrow> good (sw_sys w) \<and> represents (sem_queue (sw_sem w)) q \<and> distinct q \<and>
     set q = inside w \<inter> asleep (sw_sys w) \<and> finite (inside w) \<and> 0 \<le> sem_value (sw_sem w) \<and>
     sem_value (sw_sem w) + int (taken w) = v0 + int (given w) \<and>
     (q \<noteq> [] \<longrightarrow> sem_value (sw_sem w) \<le> int (card (inside w - set q)))"

context thread_scheduling
begin

lemma wake_front:
  assumes "good s" "represents ql q" "distinct q" "set q \<subseteq> asleep s"
  shows "\<exists>ql' s'. Remove ql = Inr (case q of [] \<Rightarrow> None | t # _ \<Rightarrow> Some t, ql') \<and> represents ql' (tl q) \<and>
    (case case q of [] \<Rightarrow> None | t # _ \<Rightarrow> Some t of None \<Rightarrow> Inr s | Some t \<Rightarrow> make_ready t s) = Inr s' \<and> good s' \<and>
    current s' = current s \<and> set (tl q) \<subseteq> asleep s' \<and> asleep s' = asleep s - set (take 1 q)"
proof -
  from Remove_ok [OF assms(2)] obtain ql' where ql': "Remove ql = Inr (case q of [] \<Rightarrow> None | t # _ \<Rightarrow> Some t, ql')"
    "represents ql' (tl q)" by blast
  show ?thesis
  proof (cases q)
    case Nil
    with ql' assms(1) show ?thesis by auto
  next
    case (Cons t ts)
    with wakes [OF assms(1), of t] assms(3,4) obtain s' where "make_ready t s = Inr s'" "good s'" "current s' = current s"
      "asleep s' = asleep s - {t}" by auto
    with ql' Cons assms(3,4) show ?thesis by auto
  qed
qed

lemma queue_up:
  assumes "good s" "represents ql q" "distinct q" "set q \<subseteq> asleep s" "sleep s = Inr s'" "Append (current s) ql = Inr ql'"
  shows "represents ql' (q @ [current s])" "distinct (q @ [current s])" "set (q @ [current s]) \<subseteq> asleep s'" "good s'"
  using Append_ok [OF assms(2), of "current s"] awake [OF assms(1)] sleeps [OF assms(1,5)] assms by auto

lemma sem_step_inv:
  assumes "sem_step good current asleep make_ready sleep w w'" "sem_inv good asleep v0 w q"
  shows "\<exists>q'. sem_inv good asleep v0 w' q'"
  using assms
proof (induction rule: sem_step.induct)
  case (enter w)
  have le: "card (inside w - set q) \<le> card (insert (current (sw_sys w)) (inside w) - set q)"
    using enter.prems unfolding sem_inv_def by (intro card_mono) blast+
  have "sem_value (sw_sem w) \<le> int (card (insert (current (sw_sys w)) (inside w) - set q))" if "q \<noteq> []"
  proof -
    have "sem_value (sw_sem w) \<le> int (card (inside w - set q))" using that enter.prems unfolding sem_inv_def by blast
    with le show ?thesis by linarith
  qed
  moreover have "insert (current (sw_sys w)) (inside w) \<inter> asleep (sw_sys w) = inside w \<inter> asleep (sw_sys w)"
    using awake enter.prems unfolding sem_inv_def by blast
  ultimately have "sem_inv good asleep v0 (w\<lparr>inside := insert (current (sw_sys w)) (inside w)\<rparr>) q"
    using enter.prems unfolding sem_inv_def by simp
  then show ?case by blast
next
  case (wait w k s)
  then obtain ql' where w: "sem_value (sw_sem w) = 0" "Append (current (sw_sys w)) (sem_queue (sw_sem w)) = Inr ql'"
    "sleep (sw_sys w) = Inr s" "k = (sw_sem w)\<lparr>sem_queue := ql'\<rparr>"
    by (auto simp: P_round_def bind_res_eq_Inr split: if_splits)
  have i: "good (sw_sys w)" "represents (sem_queue (sw_sem w)) q" "distinct q" "set q \<subseteq> asleep (sw_sys w)"
    using wait.prems by (simp_all add: sem_inv_def)
  from sleeps [OF i(1) w(3)] have sl: "asleep s = insert (current (sw_sys w)) (asleep (sw_sys w))" by simp
  from queue_up [OF i w(3,2)] wait.prems wait.hyps(1) w sl show ?case
    by (intro exI [of _ "q @ [current (sw_sys w)]"]) (auto simp: sem_inv_def)
next
  case (take w k s)
  then have w: "sem_value (sw_sem w) \<noteq> 0" "k = (sw_sem w)\<lparr>sem_value := sem_value (sw_sem w) - 1\<rparr>" "s = sw_sys w"
    by (auto simp: P_round_def bind_res_eq_Inr split: if_splits)
  have c: "current (sw_sys w) \<notin> set q" using awake take.prems by (auto simp: sem_inv_def)
  have card: "card (inside w - {current (sw_sys w)} - set q) = card (inside w - set q) - 1"
  proof -
    have "inside w - {current (sw_sys w)} - set q = (inside w - set q) - {current (sw_sys w)}" by auto
    with take.prems take.hyps(1) c show ?thesis by (simp add: sem_inv_def card_Diff_singleton)
  qed
  have pos: "0 < sem_value (sw_sem w)" using take.prems w(1) unfolding sem_inv_def by linarith
  have "sem_value (sw_sem w) - 1 \<le> int (card (inside w - {current (sw_sys w)} - set q))" if "q \<noteq> []"
  proof -
    have "sem_value (sw_sem w) \<le> int (card (inside w - set q))" using that take.prems unfolding sem_inv_def by blast
    with card pos show ?thesis by linarith
  qed
  moreover have "(inside w - {current (sw_sys w)}) \<inter> asleep (sw_sys w) = inside w \<inter> asleep (sw_sys w)"
    using awake take.prems unfolding sem_inv_def by blast
  ultimately have "sem_inv good asleep v0 (w\<lparr>sw_sem := k, sw_sys := s, inside := inside w - {current (sw_sys w)},
      taken := Suc (taken w)\<rparr>) q"
    using take.prems w pos unfolding sem_inv_def by simp
  then show ?case by blast
next
  case (post w k s)
  have i: "good (sw_sys w)" "represents (sem_queue (sw_sem w)) q" "distinct q" "set q \<subseteq> asleep (sw_sys w)"
    using post.prems by (simp_all add: sem_inv_def)
  from wake_front [OF i] post.hyps obtain ql' where w: "represents ql' (tl q)" "good s" "set (tl q) \<subseteq> asleep s"
    "asleep s = asleep (sw_sys w) - set (take 1 q)" "k = (sw_sem w)\<lparr>sem_queue := ql', sem_value := sem_value (sw_sem w) + 1\<rparr>"
    by (auto simp: V_body_def)
  have units: "sem_value (sw_sem w) + 1 \<le> int (card (inside w - set (tl q)))" if "tl q \<noteq> []"
  proof -
    from that obtain t ts where q: "q = t # ts" by (cases q) auto
    have "inside w - set ts = insert t (inside w - set q)" "t \<notin> inside w - set q" "finite (inside w - set q)"
      using post.prems q by (auto simp: sem_inv_def)
    then have "card (inside w - set ts) = Suc (card (inside w - set q))" by (metis card_insert_disjoint)
    moreover have "sem_value (sw_sem w) \<le> int (card (inside w - set q))"
      using post.prems q unfolding sem_inv_def by blast
    ultimately show ?thesis unfolding q list.sel by linarith
  qed
  have queued: "set (tl q) = inside w \<inter> asleep s"
  proof -
    have "set q = inside w \<inter> asleep (sw_sys w)" using post.prems by (simp add: sem_inv_def)
    moreover have "set (tl q) = set q - set (take 1 q)" using i(3) by (cases q) auto
    ultimately show ?thesis using w(4) by blast
  qed
  have "finite (inside w)" "0 \<le> sem_value (sw_sem w) + 1" "sem_value (sw_sem w) + 1 + int (taken w) = v0 + int (Suc (given w))"
    using post.prems by (simp_all add: sem_inv_def)
  then have "sem_inv good asleep v0 (w\<lparr>sw_sem := k, sw_sys := s, given := Suc (given w)\<rparr>) (tl q)"
    unfolding sem_inv_def w(5) using w(1,2) distinct_tl [OF i(3)] units queued by simp
  then show ?case by blast
next
  case (other s w)
  then have "sem_inv good asleep v0 (w\<lparr>sw_sys := s\<rparr>) q" unfolding sem_inv_def by (elim conjE) simp
  then show ?case by blast
qed

lemma sem_reachable_inv:
  assumes "(sem_step good current asleep make_ready sleep)\<^sup>*\<^sup>* (sem_init v0 s) w" "good s" "0 \<le> v0"
  shows "\<exists>q. sem_inv good asleep v0 w q"
  using assms(1)
proof (induction rule: rtranclp_induct)
  case base
  from assms show ?case
    by (intro exI [of _ "[]"]) (simp add: sem_inv_def sem_init_def KernelSemaphore_new_def represents_new)
next
  case (step w w')
  then show ?case using sem_step_inv by blast
qed

end

section \<open>Locks as a state machine\<close>

text \<open>
  \<open>acquiring\<close> are the threads in \<open>Acquire\<close>, \<open>holding\<close> those that returned from it and have not released.
  Only a thread that holds the lock and is not itself in \<open>Acquire\<close> releases it.
\<close>

record 's lock_world =
  lw_lock :: Lock
  lw_sys :: 's
  acquiring :: "nat set"
  holding :: "nat set"

inductive lock_step ::
  "('s \<Rightarrow> bool) \<Rightarrow> ('s \<Rightarrow> nat) \<Rightarrow> ('s \<Rightarrow> nat set) \<Rightarrow> (nat \<Rightarrow> 's \<Rightarrow> 's res) \<Rightarrow> ('s \<Rightarrow> 's res) \<Rightarrow> 's lock_world \<Rightarrow> 's lock_world \<Rightarrow> bool"
  for good current asleep make_ready sleep where
  lock_enter: "current (lw_sys w) \<notin> acquiring w \<Longrightarrow>
    lock_step good current asleep make_ready sleep w (w\<lparr>acquiring := insert (current (lw_sys w)) (acquiring w)\<rparr>)"
| lock_wait: "current (lw_sys w) \<in> acquiring w \<Longrightarrow> Acquire_round current sleep (lw_lock w) (lw_sys w) = Inr (False, k, s) \<Longrightarrow>
    lock_step good current asleep make_ready sleep w (w\<lparr>lw_lock := k, lw_sys := s\<rparr>)"
| lock_take: "current (lw_sys w) \<in> acquiring w \<Longrightarrow> Acquire_round current sleep (lw_lock w) (lw_sys w) = Inr (True, k, s) \<Longrightarrow>
    lock_step good current asleep make_ready sleep w
      (w\<lparr>lw_lock := k, lw_sys := s, acquiring := acquiring w - {current (lw_sys w)},
         holding := insert (current (lw_sys w)) (holding w)\<rparr>)"
| lock_release: "current (lw_sys w) \<in> holding w \<Longrightarrow> current (lw_sys w) \<notin> acquiring w \<Longrightarrow>
    Release_body make_ready (lw_lock w) (lw_sys w) = Inr (k, s) \<Longrightarrow>
    lock_step good current asleep make_ready sleep w
      (w\<lparr>lw_lock := k, lw_sys := s, holding := holding w - {current (lw_sys w)}\<rparr>)"
| lock_other: "good s \<Longrightarrow> acquiring w \<inter> asleep (lw_sys w) \<subseteq> asleep s \<Longrightarrow>
    lock_step good current asleep make_ready sleep w (w\<lparr>lw_sys := s\<rparr>)"

definition lock_init :: "'s \<Rightarrow> 's lock_world" where
  "lock_init s = \<lparr>lw_lock = Lock_new, lw_sys = s, acquiring = {}, holding = {}\<rparr>"

definition lock_inv :: "('s \<Rightarrow> bool) \<Rightarrow> ('s \<Rightarrow> nat set) \<Rightarrow> 's lock_world \<Rightarrow> nat list \<Rightarrow> bool" where
  "lock_inv good asleep w q \<longleftrightarrow> good (lw_sys w) \<and> represents (lock_queue (lw_lock w)) q \<and> distinct q \<and>
     set q \<subseteq> acquiring w \<and> set q \<subseteq> asleep (lw_sys w) \<and> (\<forall>t \<in> holding w. lock_owner (lw_lock w) = Some t)"

text \<open>The owner on record waits in \<open>Acquire\<close> for the lock to be free.\<close>

definition lock_stuck :: "'s lock_world \<Rightarrow> nat \<Rightarrow> bool" where
  "lock_stuck w t \<longleftrightarrow> lock_owner (lw_lock w) = Some t \<and> t \<in> acquiring w"

context thread_scheduling
begin

lemma lock_step_inv:
  assumes "lock_step good current asleep make_ready sleep w w'" "lock_inv good asleep w q"
  shows "\<exists>q'. lock_inv good asleep w' q'"
  using assms
proof (induction rule: lock_step.induct)
  case (lock_enter w)
  then show ?case by (intro exI [of _ q]) (auto simp: lock_inv_def)
next
  case (lock_wait w k s)
  then obtain ql' where w: "Append (current (lw_sys w)) (lock_queue (lw_lock w)) = Inr ql'"
    "sleep (lw_sys w) = Inr s" "k = (lw_lock w)\<lparr>lock_queue := ql'\<rparr>"
    by (auto simp: Acquire_round_def bind_res_eq_Inr split: if_splits)
  have i: "good (lw_sys w)" "represents (lock_queue (lw_lock w)) q" "distinct q" "set q \<subseteq> asleep (lw_sys w)"
    using lock_wait.prems by (simp_all add: lock_inv_def)
  from queue_up [OF i w(2,1)] lock_wait.prems lock_wait.hyps(1) w show ?case
    by (intro exI [of _ "q @ [current (lw_sys w)]"]) (simp add: lock_inv_def)
next
  case (lock_take w k s)
  then have w: "lock_owner (lw_lock w) = None" "k = (lw_lock w)\<lparr>lock_owner := Some (current (lw_sys w))\<rparr>" "s = lw_sys w"
    by (auto simp: Acquire_round_def bind_res_eq_Inr split: if_splits)
  have "current (lw_sys w) \<notin> set q" using awake lock_take.prems by (auto simp: lock_inv_def)
  with lock_take.prems w show ?case by (intro exI [of _ q]) (auto simp: lock_inv_def)
next
  case (lock_release w k s)
  have i: "good (lw_sys w)" "represents (lock_queue (lw_lock w)) q" "distinct q" "set q \<subseteq> asleep (lw_sys w)"
    using lock_release.prems by (simp_all add: lock_inv_def)
  from wake_front [OF i] lock_release.hyps(3) obtain ql' where w: "represents ql' (tl q)" "good s" "set (tl q) \<subseteq> asleep s"
    "lock_queue k = ql'" by (auto simp: Release_body_def)
  have "\<forall>u \<in> holding w. lock_owner (lw_lock w) = Some u" using lock_release.prems by (simp add: lock_inv_def)
  with lock_release.hyps(1) have "holding w - {current (lw_sys w)} = {}" by (metis Diff_eq_empty_iff option.inject singletonI subsetI)
  with lock_release.prems w show ?case by (intro exI [of _ "tl q"]) (cases q; auto simp: lock_inv_def)
next
  case (lock_other s w)
  then show ?case by (intro exI [of _ q]) (auto simp: lock_inv_def)
qed

lemma lock_steps_inv:
  assumes "(lock_step good current asleep make_ready sleep)\<^sup>*\<^sup>* w w'" "lock_inv good asleep w q"
  shows "\<exists>q'. lock_inv good asleep w' q'"
  using assms(1)
proof (induction rule: rtranclp_induct)
  case base
  from assms(2) show ?case by blast
next
  case (step y z)
  then show ?case using lock_step_inv by blast
qed

lemma lock_reachable_inv:
  assumes "(lock_step good current asleep make_ready sleep)\<^sup>*\<^sup>* (lock_init s) w" "good s"
  shows "\<exists>q. lock_inv good asleep w q"
  using assms by (intro lock_steps_inv [of "lock_init s" w "[]"])
    (simp_all add: lock_inv_def lock_init_def Lock_new_def represents_new)

lemma lock_step_stuck:
  assumes "lock_step good current asleep make_ready sleep w w'" "lock_inv good asleep w q" "lock_stuck w t"
  shows "lock_stuck w' t \<and> holding w' = holding w"
  using assms
proof (induction rule: lock_step.induct)
  case (lock_take w k s)
  then show ?case by (simp add: Acquire_round_def lock_stuck_def bind_res_eq_Inr split: if_splits)
next
  case (lock_release w k s)
  then show ?case by (auto simp: lock_inv_def lock_stuck_def)
qed (auto simp: Acquire_round_def lock_stuck_def bind_res_eq_Inr split: if_splits)

lemma lock_steps_stuck:
  assumes "(lock_step good current asleep make_ready sleep)\<^sup>*\<^sup>* w w'" "lock_inv good asleep w q" "lock_stuck w t"
  shows "lock_stuck w' t \<and> holding w' = holding w"
  using assms(1)
proof (induction rule: rtranclp_induct)
  case base
  from assms(3) show ?case by simp
next
  case (step y z)
  from lock_steps_inv [OF step.hyps(1) assms(2)] obtain q' where "lock_inv good asleep y q'" by blast
  from lock_step_stuck [OF step.hyps(2) this] step.IH show ?case by auto
qed

text \<open>Releasing the lock while a thread waits makes that thread the owner on record.\<close>

lemma contended_release:
  assumes "lock_inv good asleep w (t # ts)" "current (lw_sys w) \<in> holding w" "current (lw_sys w) \<notin> acquiring w"
  shows "\<exists>k s. Release_body make_ready (lw_lock w) (lw_sys w) = Inr (k, s) \<and> lock_owner k = Some t \<and> t \<in> acquiring w"
proof -
  have i: "good (lw_sys w)" "represents (lock_queue (lw_lock w)) (t # ts)" "distinct (t # ts)" "set (t # ts) \<subseteq> asleep (lw_sys w)"
    using assms(1) by (simp_all add: lock_inv_def)
  from wake_front [OF i] obtain ql' s where "Remove (lock_queue (lw_lock w)) = Inr (Some t, ql')" "make_ready t (lw_sys w) = Inr s"
    by auto
  with assms(1) show ?thesis by (auto simp: Release_body_def lock_inv_def)
qed

text \<open>\<open>Broadcast\<close> wakes all waiting threads, in the order of the queue.\<close>

lemma Broadcast_loop_ok:
  assumes "good s" "represents ql q" "distinct q" "set q \<subseteq> asleep s" "length q < fuel"
  shows "\<exists>ql' s'. Broadcast_loop fuel make_ready ql s = Inr (ql', s') \<and> represents ql' [] \<and> good s' \<and>
    current s' = current s \<and> asleep s' = asleep s - set q"
  using assms
proof (induction q arbitrary: ql s fuel)
  case Nil
  then obtain n where "fuel = Suc n" by (cases fuel) auto
  with Nil Remove_ok [OF Nil.prems(2)] show ?case by auto
next
  case (Cons t ts)
  then obtain n where n: "fuel = Suc n" "length ts < n" by (cases fuel) auto
  from wakes [OF Cons.prems(1), of t] Cons.prems(4) obtain s1 where s1: "make_ready t s = Inr s1" "good s1"
    "current s1 = current s" "asleep s1 = asleep s - {t}" by auto
  from Remove_ok [OF Cons.prems(2)] obtain ql1 where ql1: "Remove ql = Inr (Some t, ql1)" "represents ql1 ts" by auto
  have "set ts \<subseteq> asleep s1" using Cons.prems(3,4) s1(4) by auto
  from Cons.IH [OF s1(2) ql1(2) _ this n(2)] Cons.prems(3) obtain ql' s' where
    "Broadcast_loop n make_ready ql1 s1 = Inr (ql', s')" "represents ql' []" "good s'" "current s' = current s1"
    "asleep s' = asleep s1 - set ts" by auto
  with s1 ql1 n(1) show ?case by (intro exI [of _ ql'] exI [of _ s']) auto
qed

lemma Broadcast_wake_ok:
  assumes "good s" "represents (cond_queue cond) q" "distinct q" "set q \<subseteq> asleep s"
  shows "\<exists>cond' s'. Broadcast_wake make_ready cond s = Inr (cond', s') \<and> represents (cond_queue cond') [] \<and> good s' \<and>
    current s' = current s \<and> asleep s' = asleep s - set q"
proof -
  have "length q < Suc (brk (cond_queue cond))"
    using assms(2) list_at_length by (fastforce simp: represents_def)
  from Broadcast_loop_ok [OF assms this] show ?thesis by (auto simp: Broadcast_wake_def)
qed

lemma Signal_wake_ok:
  assumes "good s" "represents (cond_queue cond) q" "distinct q" "set q \<subseteq> asleep s"
  shows "\<exists>cond' s'. Signal_wake make_ready cond s = Inr (cond', s') \<and> represents (cond_queue cond') (tl q) \<and> good s' \<and>
    current s' = current s \<and> asleep s' = asleep s - set (take 1 q)"
proof (cases q)
  case Nil
  with Remove_ok [OF assms(2)] assms(1) show ?thesis by (auto simp: Signal_wake_def)
next
  case (Cons t ts)
  from Remove_ok [OF assms(2)] obtain ql where "Remove (cond_queue cond) = Inr (Some t, ql)" "represents ql ts"
    by (auto simp: Cons)
  moreover from wakes [OF assms(1), of t] assms(4) obtain s' where "make_ready t s = Inr s'" "good s'"
    "current s' = current s" "asleep s' = asleep s - {t}" by (auto simp: Cons)
  ultimately show ?thesis by (auto simp: Signal_wake_def Cons)
qed

end

end
