(* ===== verification/Elf.thy ===== *)
theory Elf
  imports Machine
begin

text \<open>
  Executables: the ELF format of \<open>bin/elf.h\<close> and \<open>ReadHeaders\<close> of \<open>userprog/addrspace.cc\<close>. A
  structure that is read from a file is its bytes in memory; a field is the little-endian value at
  the field's offset, as on the little-endian host. What an uninitialised variable holds before
  it is (perhaps only partly) read is an argument.
\<close>

section \<open>The file format\<close>

type_synonym buffer = "nat \<Rightarrow> byte"

definition e_type :: "buffer \<Rightarrow> uint32" where "e_type h = le_read h 16 2"
definition e_machine :: "buffer \<Rightarrow> uint32" where "e_machine h = le_read h 18 2"
definition e_version :: "buffer \<Rightarrow> uint32" where "e_version h = le_read h 20 4"
definition e_entry :: "buffer \<Rightarrow> uint32" where "e_entry h = le_read h 24 4"
definition e_shoff :: "buffer \<Rightarrow> uint32" where "e_shoff h = le_read h 32 4"
definition e_shentsize :: "buffer \<Rightarrow> uint32" where "e_shentsize h = le_read h 46 2"
definition e_shnum :: "buffer \<Rightarrow> uint32" where "e_shnum h = le_read h 48 2"
definition e_shstrndx :: "buffer \<Rightarrow> uint32" where "e_shstrndx h = le_read h 50 2"
definition Elf_header_size :: nat where "Elf_header_size = 52"

definition sh_name :: "buffer \<Rightarrow> uint32" where "sh_name h = le_read h 0 4"
definition sh_addr :: "buffer \<Rightarrow> uint32" where "sh_addr h = le_read h 12 4"
definition sh_offset :: "buffer \<Rightarrow> uint32" where "sh_offset h = le_read h 16 4"
definition sh_size :: "buffer \<Rightarrow> uint32" where "sh_size h = le_read h 20 4"
definition Section_header_size :: nat where "Section_header_size = 40"

text \<open>The sections the kernel knows, with the names by which it finds them.\<close>

definition REGINFO :: nat where "REGINFO = 0"
definition TEXT :: nat where "TEXT = 1"
definition RDATA :: nat where "RDATA = 2"
definition DATA :: nat where "DATA = 3"
definition BSS :: nat where "BSS = 4"
definition SBSS :: nat where "SBSS = 5"
definition NUM_SECTIONS :: nat where "NUM_SECTIONS = 6"

lemmas section_defs = REGINFO_def TEXT_def RDATA_def DATA_def BSS_def SBSS_def NUM_SECTIONS_def

definition known_sections :: "(string \<times> nat) list" where
  "known_sections = [(''.reginfo'', REGINFO), (''.text'', TEXT), (''.rodata'', RDATA), (''.data'', DATA),
     (''.bss'', BSS), (''.sbss'', SBSS)]"

record NachosHeader =
  file_header :: buffer
  nh_section :: "nat \<Rightarrow> buffer"

section \<open>Reading\<close>

text \<open>\<open>OpenFile::ReadAt\<close> at an \<open>int\<close> position: \<open>Lseek\<close> asserts that the seek succeeds.\<close>

definition ReadAt_int :: "OpenFile \<Rightarrow> buffer \<Rightarrow> nat \<Rightarrow> uint32 \<Rightarrow> buffer res" where
  "ReadAt_int fl into numBytes position =
     assert_res (0 \<le> sint position) (\<lambda>_. Inr (ReadAt fl into numBytes (unat position)))"

text \<open>\<open>ShortToHost\<close> and \<open>WordToHost\<close> are the identity on the host.\<close>

definition SwapSection :: "buffer \<Rightarrow> buffer" where
  "SwapSection h = h"

definition SwapElfHeader :: "buffer \<Rightarrow> buffer" where
  "SwapElfHeader h = h"

text \<open>The checks of \<open>ReadHeaders\<close>; every one that fails ends the simulator.\<close>

definition header_ok :: "buffer \<Rightarrow> bool" where
  "header_ok h \<longleftrightarrow> h 0 = 0x7F \<and> h 1 = 0x45 \<and> h 2 = 0x4C \<and> h 3 = 0x46 \<and> h 4 = 1 \<and> h 5 = 1 \<and> h 6 = 1 \<and>
     h 7 = 0 \<and> h 8 = 0 \<and> (\<forall>i \<in> {9..<16}. h i = 0) \<and> e_type h = 2 \<and> e_machine h = 8 \<and> e_version h = 1"

text \<open>
  \<open>strcmp (&string_table[i], name) == 0\<close>: characters are compared up to the first difference or the
  terminating zero; a comparison that runs off the table is an access out of bounds.
\<close>

definition cstring :: "string \<Rightarrow> byte list" where
  "cstring nm = map of_char nm @ [0]"

fun strcmp_eq :: "buffer \<Rightarrow> nat \<Rightarrow> nat \<Rightarrow> byte list \<Rightarrow> bool res" where
  "strcmp_eq tbl sz i [] = Inr True"
| "strcmp_eq tbl sz i (c # cs) =
     (if i \<ge> sz then Inl IndexOutOfBounds else if tbl i = c then strcmp_eq tbl sz (Suc i) cs else Inr False)"

fun which_section :: "buffer \<Rightarrow> nat \<Rightarrow> nat \<Rightarrow> (string \<times> nat) list \<Rightarrow> nat option res" where
  "which_section tbl sz i [] = Inr None"
| "which_section tbl sz i ((nm, k) # rest) =
     bind_res (strcmp_eq tbl sz i (cstring nm)) (\<lambda>b. if b then Inr (Some k) else which_section tbl sz i rest)"

text \<open>
  \<open>memcpy (&section[k], &header, e_shentsize)\<close>: more than the size of the structure is read and
  written out of bounds, less leaves the rest.
\<close>

definition copy_section :: "nat \<Rightarrow> nat \<Rightarrow> buffer \<Rightarrow> (nat \<Rightarrow> buffer) \<Rightarrow> (nat \<Rightarrow> buffer) res" where
  "copy_section n k header sect =
     (if n > Section_header_size then Inl IndexOutOfBounds
      else Inr (sect(k := (\<lambda>i. if i < n then header i else sect k i))))"

definition section_step ::
  "OpenFile \<Rightarrow> buffer \<Rightarrow> buffer \<Rightarrow> nat \<Rightarrow> uint32 \<times> buffer \<times> (nat \<Rightarrow> buffer) \<Rightarrow> (uint32 \<times> buffer \<times> (nat \<Rightarrow> buffer)) res" where
  "section_step fl fh tbl tblsize = (\<lambda>(offset, header, sect).
     bind_res (ReadAt_int fl header Section_header_size offset) (\<lambda>header1.
     let header2 = SwapSection header1 in
     bind_res (which_section tbl tblsize (unat (sh_name header2)) known_sections) (\<lambda>k.
     bind_res (case k of None \<Rightarrow> Inr sect | Some k \<Rightarrow> copy_section (unat (e_shentsize fh)) k header2 sect) (\<lambda>sect1.
     Inr (offset + e_shentsize fh, header2, sect1)))))"

definition ReadHeaders :: "(nat \<Rightarrow> buffer) \<Rightarrow> OpenFile \<Rightarrow> (uint32 \<times> NachosHeader) res" where
  "ReadHeaders junk executable =
     bind_res (ReadAt_int executable (junk 0) Elf_header_size 0) (\<lambda>fh0.
     let fh = SwapElfHeader fh0 in
     if \<not> header_ok fh then Inl Exited
     else bind_res (ReadAt_int executable (junk 1) Section_header_size
         (e_shoff fh + e_shstrndx fh * e_shentsize fh)) (\<lambda>header0.
     let header = SwapSection header0; tblsize = unat (sh_size header) in
     bind_res (ReadAt_int executable (junk 2) tblsize (sh_offset header)) (\<lambda>tbl.
     bind_res (fold_res (\<lambda>_. section_step executable fh tbl tblsize) [0..<unat (e_shnum fh)]
         (e_shoff fh, header, \<lambda>_ _. 0)) (\<lambda>(_, _, sect).
     Inr (e_entry fh, \<lparr>file_header = fh, nh_section = sect\<rparr>)))))"

end
