(* ===== verification/Loader.thy ===== *)
theory Loader
  imports Elf
begin

text \<open>
  Loading an executable, the rest of \<open>userprog/addrspace.cc\<close>: the size of the address space, the page table that
  says where each page comes from, the first two pages, the initial registers, and the replacement of a
  running program by another.
\<close>

section \<open>Layout\<close>

definition UserStackSize :: nat where "UserStackSize = 4096"

text \<open>
  The loops of \<open>InitSpace\<close> and \<open>ModifySpace\<close> over the sections: the first section with the greatest address
  and its size.
\<close>

definition max_section_step :: "NachosHeader \<Rightarrow> nat \<Rightarrow> uint32 \<times> uint32 \<Rightarrow> uint32 \<times> uint32" where
  "max_section_step h i = (\<lambda>(max_address, section_size).
     if sh_addr (nh_section h i) > max_address then (sh_addr (nh_section h i), sh_size (nh_section h i))
     else (max_address, section_size))"

definition max_section :: "NachosHeader \<Rightarrow> uint32 \<times> uint32" where
  "max_section h = fold (max_section_step h) [0..<NUM_SECTIONS] (0, 0)"

definition image_pages :: "NachosHeader \<Rightarrow> nat" where
  "image_pages h = (case max_section h of (max_address, section_size) \<Rightarrow>
     divRoundUp (unat (max_address + section_size)) PageSize + divRoundUp UserStackSize PageSize)"

section \<open>The page table\<close>

text \<open>
  \<open>Setup_Load\<close>. Every section is a loop over the pages from the page of its address, rounded up;
  an index past the table is an access out of bounds.
\<close>

definition set_source :: "file_id option \<Rightarrow> nat \<Rightarrow> bool \<Rightarrow> bool \<Rightarrow> TranslationEntry \<Rightarrow> TranslationEntry" where
  "set_source fl off ro z te = clearRefHistory (setTime (clearSC
     (te\<lparr>te_File := fl, te_offset := off, readOnly := ro, te_zero := z\<rparr>)) 0)"

definition Setup_range ::
  "nat \<Rightarrow> nat \<Rightarrow> (nat \<Rightarrow> TranslationEntry \<Rightarrow> TranslationEntry) \<Rightarrow> TranslationEntry list \<Rightarrow> TranslationEntry list res" where
  "Setup_range start n f pt = fold_res (\<lambda>i pt.
     bind_res (index_res pt i) (\<lambda>te. Inr (pt[i := f (i - start) te]))) [start..<start + n] pt"

definition start_page :: "NachosHeader \<Rightarrow> nat \<Rightarrow> nat" where
  "start_page h k = divRoundUp (unat (sh_addr (nh_section h k))) PageSize"

definition page_count :: "NachosHeader \<Rightarrow> nat \<Rightarrow> nat" where
  "page_count h k = divRoundUp (unat (sh_size (nh_section h k))) PageSize"

definition Setup_file :: "file_id \<Rightarrow> bool \<Rightarrow> NachosHeader \<Rightarrow> nat \<Rightarrow> TranslationEntry list \<Rightarrow> TranslationEntry list res" where
  "Setup_file exe ro h k =
     Setup_range (start_page h k) (page_count h k) (\<lambda>j.
       set_source (Some exe) (unat (sh_offset (nh_section h k) + of_nat (j * PageSize))) ro False)"

definition Setup_zero :: "nat \<Rightarrow> nat \<Rightarrow> TranslationEntry list \<Rightarrow> TranslationEntry list res" where
  "Setup_zero start n = Setup_range start n (\<lambda>_. set_source None 0 False True)"

definition STACK_START_MAX :: "NachosHeader \<Rightarrow> nat \<Rightarrow> uint32 \<Rightarrow> uint32" where
  "STACK_START_MAX h k stack_start =
     (if stack_start < sh_addr (nh_section h k) + sh_size (nh_section h k)
      then sh_addr (nh_section h k) + sh_size (nh_section h k) else stack_start)"

definition stack_start :: "NachosHeader \<Rightarrow> uint32" where
  "stack_start h = STACK_START_MAX h SBSS (STACK_START_MAX h BSS (STACK_START_MAX h DATA (STACK_START_MAX h RDATA
     (STACK_START_MAX h TEXT (STACK_START_MAX h REGINFO 0)))))"

definition Setup_pages :: "file_id \<Rightarrow> NachosHeader \<Rightarrow> TranslationEntry list \<Rightarrow> TranslationEntry list res" where
  "Setup_pages exe h pt =
     bind_res (Setup_file exe True h REGINFO pt) (\<lambda>pt.
     bind_res (Setup_file exe True h TEXT pt) (\<lambda>pt.
     bind_res (Setup_file exe True h RDATA pt) (\<lambda>pt.
     bind_res (Setup_file exe False h DATA pt) (\<lambda>pt.
     bind_res (Setup_zero (start_page h BSS) (page_count h BSS) pt) (\<lambda>pt.
     bind_res (Setup_zero (start_page h SBSS) (page_count h SBSS) pt) (\<lambda>pt.
     Setup_zero (divRoundUp (unat (stack_start h)) PageSize) (divRoundUp UserStackSize PageSize) pt))))))"

definition Setup_Load :: "file_id \<Rightarrow> NachosHeader \<Rightarrow> nat \<Rightarrow> 'a vm_scheme \<Rightarrow> 'a vm_scheme res" where
  "Setup_Load exe h sid s =
     deref_res (spaces s sid) (\<lambda>a.
     bind_res (Setup_pages exe h (pageTable a)) (\<lambda>pt.
     bind_res (pagein (s\<lparr>spaces := (spaces s)(sid \<mapsto> a\<lparr>execFile := Some exe, pageTable := pt\<rparr>)\<rparr>)
         (start_page h TEXT) sid) (\<lambda>s1.
     pagein s1 (numPages a - 1) sid)))"

section \<open>Address spaces for executables\<close>

definition AddrSpace_new :: "nat \<Rightarrow> uint32 \<Rightarrow> AddrSpace" where
  "AddrSpace_new t junk = \<lparr>as_owner = t, wSetSize = 4, pageTable = [], numPages = 0, execFile = None, startAddress = junk\<rparr>"

definition SetupTable :: "nat \<Rightarrow> 'a vm_scheme \<Rightarrow> 'a vm_scheme res" where
  "SetupTable sid s =
     deref_res (spaces s sid) (\<lambda>a.
     Inr (s\<lparr>spaces := (spaces s)(sid \<mapsto> a\<lparr>pageTable := SetupTable_pages (numPages a)\<rparr>)\<rparr>))"

definition InitSpace_pages :: "nat \<Rightarrow> nat \<Rightarrow> 'a vm_scheme \<Rightarrow> 'a vm_scheme res" where
  "InitSpace_pages numpages sid s =
     deref_res (spaces s sid) (\<lambda>a. SetupTable sid (s\<lparr>spaces := (spaces s)(sid \<mapsto> a\<lparr>numPages := numpages\<rparr>)\<rparr>))"

definition InitSpace :: "(nat \<Rightarrow> buffer) \<Rightarrow> file_id \<Rightarrow> nat \<Rightarrow> 'a vm_scheme \<Rightarrow> 'a vm_scheme res" where
  "InitSpace junk executable sid s =
     deref_res (spaces s sid) (\<lambda>a.
     bind_res (ReadHeaders junk (files s executable)) (\<lambda>(start, h).
     bind_res (SetupTable sid (s\<lparr>spaces := (spaces s)(sid \<mapsto>
         a\<lparr>startAddress := start, numPages := image_pages h\<rparr>)\<rparr>)) (\<lambda>s1.
     Setup_Load executable h sid s1)))"

text \<open>
  \<open>ModifySpace\<close>: the new table is set up and two of its pages are brought in while the frames of the old
  table still name this address space; then the old pages are released. The fragment that clears a
  copy-on-write bit looks at the frame of the old page 0 in every round with a resident page.
\<close>

definition Modify_release :: "TranslationEntry list \<Rightarrow> nat \<Rightarrow> nat \<Rightarrow> 'a vm_scheme \<Rightarrow> 'a vm_scheme res" where
  "Modify_release oldPageTable sid i s =
     bind_res (index_res oldPageTable i) (\<lambda>te.
     bind_res
       (if valid te then
          bind_res (release_page s (physicalPage te) sid) (\<lambda>s1.
          bind_res (index_res oldPageTable 0) (\<lambda>te0. unshare_last s1 (int (physicalPage te0))))
        else Inr s) (\<lambda>s2.
     if te_File te = Some (swapFile s2) then release_frame s2 (te_offset te) sid else Inr s2))"

definition ModifySpace :: "(nat \<Rightarrow> buffer) \<Rightarrow> file_id \<Rightarrow> nat \<Rightarrow> 'a vm_scheme \<Rightarrow> 'a vm_scheme res" where
  "ModifySpace junk executable sid s =
     deref_res (spaces s sid) (\<lambda>a.
     bind_res (ReadHeaders junk (files s executable)) (\<lambda>(start, h).
     bind_res (SetupTable sid (s\<lparr>spaces := (spaces s)(sid \<mapsto>
         a\<lparr>startAddress := start, numPages := image_pages h\<rparr>)\<rparr>)) (\<lambda>s1.
     bind_res (Setup_Load executable h sid s1) (\<lambda>s2.
     fold_res (Modify_release (pageTable a) sid) [0..<numPages a] s2))))"

definition setWorkingSetSize :: "int \<Rightarrow> AddrSpace \<Rightarrow> AddrSpace" where
  "setWorkingSetSize sz a = a\<lparr>wSetSize := sz\<rparr>"

definition getWorkingSetSize :: "AddrSpace \<Rightarrow> int" where
  "getWorkingSetSize a = wSetSize a"

definition getNumPages :: "AddrSpace \<Rightarrow> nat" where
  "getNumPages a = numPages a"

section \<open>Registers\<close>

definition InitRegisters :: "nat \<Rightarrow> 'a machine_scheme \<Rightarrow> 'a machine_scheme res" where
  "InitRegisters sid s =
     bind_res (fold_res (\<lambda>i t. WriteRegister t (int i) 0) [0..<NumTotalRegs] s) (\<lambda>s1.
     deref_res (spaces s1 sid) (\<lambda>a.
     bind_res (WriteRegister s1 (int PCReg) (startAddress a)) (\<lambda>s2.
     bind_res (WriteRegister s2 (int NextPCReg) (startAddress a + 4)) (\<lambda>s3.
     WriteRegister s3 (int StackReg) (of_nat (numPages a * PageSize) - 16)))))"

end
