(* ===== verification/SystemCalls.thy ===== *)
theory SystemCalls
  imports Synch Loader Mips_Exec
begin

text \<open>
  \<open>userprog/systemcall.cc\<close>: the system calls and their dispatcher. A call may give up the CPU before it
  returns: its result is then \<open>None\<close>, with the state in which another thread runs; what it has still to do
  is described by the part of it that is named separately. The calls of the file system stub and of the
  console end in the host system, those of the event log in the DSUI library; they are arguments
  (\<open>services\<close>), and so are the handler of
  exceptions (for the page faults of the kernel's own accesses to user memory), the clock tick and
  \<open>Thread::Sleep\<close>.
\<close>

section \<open>Constants and services\<close>

definition MAXFILENAMELENGTH :: nat where "MAXFILENAMELENGTH = 80"
definition ENOENT :: int where "ENOENT = 2"
definition EBADF :: int where "EBADF = 9"
definition ECHILD :: int where "ECHILD = 10"
definition EAGAIN :: int where "EAGAIN = 11"
definition EMFILE :: int where "EMFILE = 24"

record 'h services =
  fs_Create :: "byte list \<Rightarrow> 'h system \<Rightarrow> (bool \<times> 'h system) res"
  fs_Open :: "byte list \<Rightarrow> 'h system \<Rightarrow> (file_id option \<times> 'h system) res"
  fs_Remove :: "byte list \<Rightarrow> 'h system \<Rightarrow> (bool \<times> 'h system) res"
  file_Read :: "file_id \<Rightarrow> nat \<Rightarrow> 'h system \<Rightarrow> (byte list option \<times> 'h system) res"
  file_Write :: "file_id \<Rightarrow> byte list \<Rightarrow> 'h system \<Rightarrow> (int option \<times> 'h system) res"
  ConsoleRead :: "nat \<Rightarrow> 'h system \<Rightarrow> (byte list option \<times> 'h system) res"
  ConsoleWrite :: "byte list \<Rightarrow> 'h system \<Rightarrow> (int option \<times> 'h system) res"
  host_write :: "byte list \<Rightarrow> 'h system \<Rightarrow> (int \<times> 'h system) res"
  dsui_get_ip_byname :: "byte list \<Rightarrow> byte list \<Rightarrow> 'h system \<Rightarrow> nat option res"
  dsui_create_ip :: "byte list \<Rightarrow> byte list \<Rightarrow> 'h system \<Rightarrow> (nat \<times> 'h system) res"
  dsui_enable_ip :: "nat \<Rightarrow> 'h system \<Rightarrow> 'h system res"
  dsui_ip_next :: "nat \<Rightarrow> 'h system \<Rightarrow> bool res"
  dsui_event_log :: "nat \<Rightarrow> uint32 \<Rightarrow> int \<Rightarrow> 'h system \<Rightarrow> 'h system res"

type_synonym ('h, 'v) outcome = "('v option \<times> 'h system) res"

definition continue :: "nat \<Rightarrow> ('h system \<Rightarrow> ('h, 'v) outcome) \<Rightarrow> 'h system \<Rightarrow> ('h, 'v) outcome" where
  "continue this k s = (if currentThread s = this then k s else Inr (None, s))"

section \<open>User memory\<close>

text \<open>
  The kernel reads and writes user memory byte by byte and tries a second time when the first access
  failed, probably by a page fault.
\<close>

definition ReadMem_retry :: "'a handler \<Rightarrow> uint32 \<Rightarrow> nat \<Rightarrow> 'a machine_scheme \<Rightarrow> (uint32 option \<times> 'a machine_scheme) res" where
  "ReadMem_retry handler addr sz s =
     bind_res (ReadMem handler addr sz 0 s) (\<lambda>(ok, v, s1).
     if ok then Inr (Some v, s1)
     else bind_res (ReadMem handler addr sz 0 s1) (\<lambda>(ok, v, s2). Inr (if ok then Some v else None, s2)))"

definition WriteMem_retry :: "'a handler \<Rightarrow> uint32 \<Rightarrow> nat \<Rightarrow> uint32 \<Rightarrow> 'a machine_scheme \<Rightarrow> (bool \<times> 'a machine_scheme) res" where
  "WriteMem_retry handler addr sz v s =
     bind_res (WriteMem handler addr sz v s) (\<lambda>(ok, s1). if ok then Inr (True, s1) else WriteMem handler addr sz v s1)"

text \<open>
  \<open>copy_from_user\<close>: the bytes it stores, at most \<open>MAXFILENAMELENGTH\<close>; the last of them is zero unless
  the string is longer.
\<close>

fun copy_loop :: "nat \<Rightarrow> 'a handler \<Rightarrow> uint32 \<Rightarrow> 'a machine_scheme \<Rightarrow> (byte list \<times> 'a machine_scheme) res" where
  "copy_loop 0 handler from s = Inr ([], s)"
| "copy_loop (Suc n) handler from s =
     bind_res (ReadMem_retry handler from 1 s) (\<lambda>(r, s1).
     case r of None \<Rightarrow> Inr ([0], s1)
     | Some v \<Rightarrow>
       if (ucast v :: byte) = 0 then Inr ([0], s1)
       else bind_res (copy_loop n handler (from + 1) s1) (\<lambda>(bs, s2). Inr (ucast v # bs, s2)))"

definition copy_from_user :: "'a handler \<Rightarrow> uint32 \<Rightarrow> 'a machine_scheme \<Rightarrow> (byte list \<times> 'a machine_scheme) res" where
  "copy_from_user handler from_user_space s = copy_loop MAXFILENAMELENGTH handler from_user_space s"

text \<open>The loops of \<open>System_Write\<close> and \<open>System_Echo\<close> (in) and of \<open>System_Read\<close> (out).\<close>

fun read_bytes :: "nat \<Rightarrow> 'a handler \<Rightarrow> uint32 \<Rightarrow> 'a machine_scheme \<Rightarrow> (byte list \<times> 'a machine_scheme) res" where
  "read_bytes 0 handler from s = Inr ([], s)"
| "read_bytes (Suc n) handler from s =
     bind_res (ReadMem_retry handler from 1 s) (\<lambda>(r, s1).
     case r of None \<Rightarrow> Inr ([], s1)
     | Some v \<Rightarrow> bind_res (read_bytes n handler (from + 1) s1) (\<lambda>(bs, s2). Inr (ucast v # bs, s2)))"

text \<open>The number of bytes stored; \<open>char\<close> is signed, so the value is sign-extended, and its low byte is stored.\<close>

fun write_bytes :: "byte list \<Rightarrow> 'a handler \<Rightarrow> uint32 \<Rightarrow> 'a machine_scheme \<Rightarrow> (nat \<times> 'a machine_scheme) res" where
  "write_bytes [] handler to s = Inr (0, s)"
| "write_bytes (b # bs) handler to s =
     bind_res (WriteMem_retry handler to 1 (scast b) s) (\<lambda>(ok, s1).
     if ok then bind_res (write_bytes bs handler (to + 1) s1) (\<lambda>(n, s2). Inr (Suc n, s2)) else Inr (0, s1))"

section \<open>Files\<close>

text \<open>
  The names the file system receives are the bytes before the first zero; the buffer of a name of
  \<open>MAXFILENAMELENGTH\<close> bytes or more has none, and the file system reads past it.
\<close>

definition c_name :: "byte list \<Rightarrow> byte list res" where
  "c_name bs = (if 0 \<in> set bs then Inr (takeWhile (\<lambda>b. b \<noteq> 0) bs) else Inl IndexOutOfBounds)"

definition System_Create :: "'h services \<Rightarrow> _ \<Rightarrow> uint32 \<Rightarrow> 'h system \<Rightarrow> (int \<times> 'h system) res" where
  "System_Create sv handler user_space_filename s =
     bind_res (copy_from_user handler user_space_filename s) (\<lambda>(bs, s1).
     bind_res (c_name bs) (\<lambda>filename.
     bind_res (fs_Create sv filename s1) (\<lambda>(ok, s2). Inr (if ok then 0 else - ENOENT, s2))))"

definition System_Open :: "'h services \<Rightarrow> _ \<Rightarrow> uint32 \<Rightarrow> 'h system \<Rightarrow> (int \<times> 'h system) res" where
  "System_Open sv handler user_space_filename s =
     bind_res (copy_from_user handler user_space_filename s) (\<lambda>(bs, s1).
     bind_res (get_thread (currentThread s1) s1) (\<lambda>th.
     let fd = find_next_available_fd th in
     if fd < 0 then Inr (- EMFILE, s1)
     else bind_res (c_name bs) (\<lambda>filename.
       bind_res (fs_Open sv filename s1) (\<lambda>(fl, s2).
       case fl of None \<Rightarrow> Inr (- ENOENT, s2)
       | Some f \<Rightarrow>
         bind_res (setFD (currentThread s2) fd (Some \<lparr>fd_type = DiskFile, openfile = Some f\<rparr>) s2) (\<lambda>s3.
         Inr (fd, s3))))))"

definition System_Unlink :: "'h services \<Rightarrow> _ \<Rightarrow> uint32 \<Rightarrow> 'h system \<Rightarrow> (int \<times> 'h system) res" where
  "System_Unlink sv handler user_space_filename s =
     bind_res (copy_from_user handler user_space_filename s) (\<lambda>(bs, s1).
     bind_res (c_name bs) (\<lambda>filename.
     bind_res (fs_Remove sv filename s1) (\<lambda>(ok, s2). Inr (if ok then 0 else - ENOENT, s2))))"

definition System_Close :: "int \<Rightarrow> 'h system \<Rightarrow> (int \<times> 'h system) res" where
  "System_Close fd s =
     bind_res (get_thread (currentThread s) s) (\<lambda>th.
     bind_res (getFD fd th) (\<lambda>fdte.
     if fdte = None then Inr (- EBADF, s)
     else bind_res (setFD (currentThread s) fd None s) (\<lambda>s1. Inr (0, s1))))"

text \<open>\<open>System_Read\<close> when the bytes have arrived: it stores them in the user's buffer.\<close>

definition Read_deliver :: "_ \<Rightarrow> uint32 \<Rightarrow> byte list \<Rightarrow> 'h system \<Rightarrow> ('h, int) outcome" where
  "Read_deliver handler to_user_space bs s =
     bind_res (write_bytes bs handler to_user_space s) (\<lambda>(n, s1). Inr (Some (int n), s1))"

definition System_Read :: "'h services \<Rightarrow> _ \<Rightarrow> int \<Rightarrow> uint32 \<Rightarrow> int \<Rightarrow> 'h system \<Rightarrow> ('h, int) outcome" where
  "System_Read sv handler from_fd to_user_space num_to_read s =
     (if num_to_read < 0 then Inl BadAllocation
      else bind_res (get_thread (currentThread s) s) (\<lambda>th.
      bind_res (getFD from_fd th) (\<lambda>fdte.
      case fdte of None \<Rightarrow> Inr (Some (- EBADF), s)
      | Some e \<Rightarrow>
        bind_res (case fd_type e of
            ConsoleFile \<Rightarrow> ConsoleRead sv (nat num_to_read) s
          | DiskFile \<Rightarrow> deref_res (openfile e) (\<lambda>f. file_Read sv f (nat num_to_read) s)) (\<lambda>(bs, s1).
        case bs of None \<Rightarrow> Inr (None, s1) | Some bs \<Rightarrow> Read_deliver handler to_user_space bs s1))))"

definition System_Write :: "'h services \<Rightarrow> _ \<Rightarrow> int \<Rightarrow> uint32 \<Rightarrow> int \<Rightarrow> 'h system \<Rightarrow> ('h, int) outcome" where
  "System_Write sv handler to_fd from_user_space num_to_write s =
     (if num_to_write + 1 < 0 then Inl BadAllocation
      else bind_res (get_thread (currentThread s) s) (\<lambda>th.
      bind_res (getFD to_fd th) (\<lambda>fdte.
      case fdte of None \<Rightarrow> Inr (Some (- EBADF), s)
      | Some e \<Rightarrow>
        if num_to_write < 0 then Inl IndexOutOfBounds
        else bind_res (read_bytes (nat num_to_write) handler from_user_space s) (\<lambda>(bs, s1).
          case fd_type e of
            ConsoleFile \<Rightarrow> ConsoleWrite sv bs s1
          | DiskFile \<Rightarrow> deref_res (openfile e) (\<lambda>f. file_Write sv f bs s1)))))"

definition System_Echo :: "'h services \<Rightarrow> _ \<Rightarrow> uint32 \<Rightarrow> int \<Rightarrow> 'h system \<Rightarrow> (int \<times> 'h system) res" where
  "System_Echo sv handler from_user_space num_to_write s =
     (if num_to_write + 1 < 0 then Inl BadAllocation
      else if num_to_write < 0 then Inl IndexOutOfBounds
      else bind_res (read_bytes (nat num_to_write) handler from_user_space s) (\<lambda>(bs, s1). host_write sv bs s1))"

section \<open>Processes\<close>

definition System_GetPID :: "'h system \<Rightarrow> int res" where
  "System_GetPID s = Get_Id (currentThread s) s"

definition System_GetPPID :: "'h system \<Rightarrow> int res" where
  "System_GetPPID s =
     bind_res (get_thread (currentThread s) s) (\<lambda>th.
     case Get_Parent_Ptr th of None \<Rightarrow> Inr 0 | Some parent \<Rightarrow> Get_Id parent s)"

definition System_Nice :: "int \<Rightarrow> 'h system \<Rightarrow> 'h system res" where
  "System_Nice inc = (\<lambda>s. upd_thread (currentThread s) (Prioritize inc) s)"

text \<open>
  \<open>System_Fork\<close> until the child is made ready; \<open>sid\<close> is the address of the new \<open>AddrSpace\<close>, \<open>junk\<close>, \<open>junk_start\<close>
  are what the new objects hold where no constructor writes.
\<close>

definition Write_Reg :: "nat \<Rightarrow> uint32 \<Rightarrow> 'h Thread \<Rightarrow> 'h Thread" where
  "Write_Reg i v th = th\<lparr>userRegisters := (userRegisters th)(i := v)\<rparr>"

definition Fork_child :: "(nat \<Rightarrow> uint32) \<Rightarrow> uint32 \<Rightarrow> nat \<Rightarrow> 'h system \<Rightarrow> (nat \<times> 'h system) res" where
  "Fork_child junk junk_start sid s =
     bind_res (Thread_new junk s) (\<lambda>(t, s1).
     bind_res (upd_thread t (\<lambda>th. th\<lparr>tspace := Some sid\<rparr>)
         (s1\<lparr>spaces := (spaces s1)(sid \<mapsto> AddrSpace_new t junk_start)\<rparr>)) (\<lambda>s2.
     bind_res (CopyFrom s2 sid) (\<lambda>s3.
     bind_res (upd_thread t (\<lambda>th. snd (Set_Parent_Ptr (currentThread s3) th)) s3) (\<lambda>s4.
     bind_res (fold_res (\<lambda>i u. bind_res (ReadRegister u (int i)) (\<lambda>v. upd_thread t (Write_Reg i v) u)) [0..<NumTotalRegs] s4) (\<lambda>s5.
     Inr (t, s5))))))"

definition Fork_ready :: "(nat \<Rightarrow> uint32) \<Rightarrow> uint32 \<Rightarrow> 'h \<Rightarrow> nat \<Rightarrow> 'h system \<Rightarrow> (int \<times> nat \<times> 'h system) res" where
  "Fork_ready junk junk_start do_fork sid s =
     bind_res (Fork_child junk junk_start sid s) (\<lambda>(t, s1).
     bind_res (Fork t do_fork 0 s1) (\<lambda>(pid, s2).
     bind_res (upd_thread (currentThread s2) Add_Child s2) (\<lambda>s3. Inr (pid, t, s3))))"

definition System_Fork ::
  "('h system \<Rightarrow> 'h system res) \<Rightarrow> (nat \<Rightarrow> uint32) \<Rightarrow> uint32 \<Rightarrow> 'h \<Rightarrow> nat \<Rightarrow> 'h system \<Rightarrow> ('h, int) outcome" where
  "System_Fork tick junk junk_start do_fork sid s =
     bind_res (Fork_ready junk junk_start do_fork sid s) (\<lambda>(pid, t, s1).
     bind_res (SetLevel tick IntOff s1) (\<lambda>(oldLevel, s2).
     bind_res (ReadyToRun t s2) (\<lambda>s3.
     bind_res (SetLevel tick oldLevel s3) (\<lambda>(_, s4). continue (currentThread s) (\<lambda>s5. Inr (Some pid, s5)) s4))))"

text \<open>What the child does first, up to \<open>Machine::Run\<close>.\<close>

definition Do_Fork :: "'h system \<Rightarrow> 'h system res" where
  "Do_Fork s =
     bind_res (RestoreUserState (currentThread s) s) (\<lambda>s1.
     bind_res (get_thread (currentThread s1) s1) (\<lambda>th.
     deref_res (tspace th) (\<lambda>sid.
     bind_res (RestoreState sid s1) Fix_Fork_Registers)))"

text \<open>\<open>System_Exec\<close> up to \<open>Machine::Run\<close>, or its error.\<close>

definition System_Exec :: "'h services \<Rightarrow> (nat \<Rightarrow> buffer) \<Rightarrow> _ \<Rightarrow> uint32 \<Rightarrow> 'h system \<Rightarrow> (int option \<times> 'h system) res" where
  "System_Exec sv junk handler user_space_filename s =
     bind_res (copy_from_user handler user_space_filename s) (\<lambda>(bs, s1).
     bind_res (c_name bs) (\<lambda>filename.
     bind_res (fs_Open sv filename s1) (\<lambda>(fl, s2).
     case fl of None \<Rightarrow> Inr (Some (- ENOENT), s2)
     | Some executable \<Rightarrow>
       deref_res (currentSpace s2) (\<lambda>sid.
       bind_res (ModifySpace junk executable sid s2) (\<lambda>s3.
       bind_res (InitRegisters sid s3) (\<lambda>s4.
       bind_res (RestoreState sid s4) (\<lambda>s5. Inr (None, s5))))))))"

section \<open>Exit and wait\<close>

text \<open>The semaphore \<open>ChildExited\<close> lives in the thread object: \<open>P\<close> by its owner and \<open>V\<close> by a child.\<close>

definition ChildExited_P ::
  "('h system \<Rightarrow> 'h system res) \<Rightarrow> ('h system \<Rightarrow> 'h system res) \<Rightarrow> 'h system \<Rightarrow> (bool \<times> 'h system) res" where
  "ChildExited_P tick sleep s =
     bind_res (SetLevel tick IntOff s) (\<lambda>(oldLevel, s1).
     bind_res (get_thread (currentThread s1) s1) (\<lambda>th.
     let sem = ChildExited th in
     if sem_value sem = 0 then
       bind_res (Append (currentThread s1) (sem_queue sem)) (\<lambda>q.
       bind_res (upd_thread (currentThread s1) (\<lambda>th. th\<lparr>ChildExited := sem\<lparr>sem_queue := q\<rparr>\<rparr>) s1) (\<lambda>s2.
       bind_res (sleep s2) (\<lambda>s3. Inr (False, s3))))
     else
       bind_res (upd_thread (currentThread s1) (\<lambda>th. th\<lparr>ChildExited := sem\<lparr>sem_value := sem_value sem - 1\<rparr>\<rparr>) s1) (\<lambda>s2.
       bind_res (SetLevel tick oldLevel s2) (\<lambda>(_, s3). Inr (True, s3)))))"

definition ChildExited_V :: "('h system \<Rightarrow> 'h system res) \<Rightarrow> nat \<Rightarrow> 'h system \<Rightarrow> 'h system res" where
  "ChildExited_V tick parent s =
     bind_res (SetLevel tick IntOff s) (\<lambda>(oldLevel, s1).
     bind_res (get_thread parent s1) (\<lambda>p.
     bind_res (V_body ReadyToRun (ChildExited p) s1) (\<lambda>(sem, s2).
     bind_res (upd_thread parent (\<lambda>p. p\<lparr>ChildExited := sem\<rparr>) s2) (\<lambda>s3.
     bind_res (SetLevel tick oldLevel s3) (\<lambda>(_, s4). Inr s4)))))"

text \<open>\<open>System_Wait\<close> when a child has exited; \<open>junk\<close> is \<open>childexitvalue\<close> when no pointer is passed.\<close>

definition Wait_collect :: "_ \<Rightarrow> uint32 \<Rightarrow> uint32 \<Rightarrow> 'h system \<Rightarrow> ('h, int) outcome" where
  "Wait_collect handler junk exitvalue s =
     (let this = currentThread s in
      bind_res (get_thread this s) (\<lambda>th.
      bind_res (UnQueue_Child th) (\<lambda>(child, th1).
      bind_res (upd_thread this (\<lambda>_. th1) s) (\<lambda>s1.
      assert_res (child \<noteq> None) (\<lambda>_.
      deref_res child (\<lambda>c.
      bind_res (get_thread c s1) (\<lambda>ch.
      let childexitvalue = (if exitvalue \<noteq> 0 then Get_Exit_Val ch else junk) in
      bind_res (if exitvalue \<noteq> 0 then WriteMem_retry handler exitvalue 4 childexitvalue s1 else Inr (True, s1)) (\<lambda>(_, s2).
      bind_res (get_thread this s2) (\<lambda>th2.
      bind_res (Remove_Child th2) (\<lambda>th3.
      bind_res (upd_thread this (\<lambda>_. th3) s2) (\<lambda>s3.
      bind_res (Get_Id c s3) (\<lambda>pid.
      bind_res (getStatus c s3) (\<lambda>st.
      bind_res (if st = ZOMBIE then Thread_delete c s3
          else upd_thread c (\<lambda>ch. Set_Exit_Val (- childexitvalue) (ch\<lparr>thread_exit_status := True\<rparr>)) s3) (\<lambda>s4.
      Inr (Some pid, s4)))))))))))))))"

definition System_Wait ::
  "('h system \<Rightarrow> 'h system res) \<Rightarrow> ('h system \<Rightarrow> 'h system res) \<Rightarrow> _ \<Rightarrow> uint32 \<Rightarrow> uint32 \<Rightarrow> 'h system \<Rightarrow> ('h, int) outcome" where
  "System_Wait tick sleep handler junk exitvalue s =
     bind_res (get_thread (currentThread s) s) (\<lambda>th.
     if Get_Num_Children th = 0 then Inr (Some (- ECHILD), s)
     else bind_res (ChildExited_P tick sleep s) (\<lambda>(got, s1).
       if got then continue (currentThread s) (Wait_collect handler junk exitvalue) s1 else Inr (None, s1)))"

text \<open>
  \<open>System_Exit\<close>: it waits for all children, then tells the parent and becomes a zombie, or finishes when
  there is no parent or the parent has collected it meanwhile.
\<close>

fun Exit_wait ::
  "nat \<Rightarrow> ('h system \<Rightarrow> 'h system res) \<Rightarrow> ('h system \<Rightarrow> 'h system res) \<Rightarrow> _ \<Rightarrow> uint32 \<Rightarrow> 'h system \<Rightarrow> ('h, unit) outcome" where
  "Exit_wait 0 tick sleep handler junk s = Inl Diverges"
| "Exit_wait (Suc n) tick sleep handler junk s =
     bind_res (get_thread (currentThread s) s) (\<lambda>th.
     if Get_Num_Children th > 0 then
       bind_res (System_Wait tick sleep handler junk 0 s) (\<lambda>(r, s1).
       if r = None then Inr (None, s1)
       else continue (currentThread s) (Exit_wait n tick sleep handler junk) s1)
     else Inr (Some (), s))"

definition Exit_signal :: "('h system \<Rightarrow> 'h system res) \<Rightarrow> uint32 \<Rightarrow> nat \<Rightarrow> 'h system \<Rightarrow> 'h system res" where
  "Exit_signal tick exitvalue parent s =
     (let this = currentThread s in
      bind_res (upd_thread this (\<lambda>th. Set_Exit_Val exitvalue (th\<lparr>thread_exit_status := False\<rparr>)) s) (\<lambda>s1.
      bind_res (get_thread parent s1) (\<lambda>p.
      bind_res (Queue_Child this p) (\<lambda>p1.
      bind_res (upd_thread parent (\<lambda>_. p1) s1) (ChildExited_V tick parent)))))"

definition Exit_end :: "nat \<Rightarrow> 'h caller \<Rightarrow> 'h system \<Rightarrow> 'h system res" where
  "Exit_end fuel call s =
     bind_res (get_thread (currentThread s) s) (\<lambda>th.
     if thread_exit_status th then Finish fuel call (currentThread s) s
     else Sleep_status fuel call (currentThread s) ZOMBIE s)"

definition System_Exit ::
  "nat \<Rightarrow> 'h caller \<Rightarrow> ('h system \<Rightarrow> 'h system res) \<Rightarrow> _ \<Rightarrow> uint32 \<Rightarrow> uint32 \<Rightarrow> 'h system \<Rightarrow> ('h, unit) outcome" where
  "System_Exit fuel call sleep handler junk exitvalue s =
     (let this = currentThread s; tick = OneTick call in
      bind_res (ReachedExit this s) (\<lambda>s1.
      bind_res (get_thread this s1) (\<lambda>th.
      bind_res (Exit_wait (Suc (nat (Get_Num_Children th))) tick sleep handler junk s1) (\<lambda>(r, s2).
      if r = None then Inr (None, s2)
      else continue this (\<lambda>s2.
        bind_res (get_thread this s2) (\<lambda>th2.
        case Get_Parent_Ptr th2 of
          None \<Rightarrow> bind_res (Finish fuel call this s2) (\<lambda>s3. Inr (None, s3))
        | Some parent \<Rightarrow>
          bind_res (Exit_signal tick exitvalue parent s2) (continue this (\<lambda>s3.
          bind_res (Exit_end fuel call s3) (\<lambda>s4. Inr (None, s4)))))) s2))))"

section \<open>Other calls\<close>

text \<open>
  The name of a thread is only printed and is not part of the state; the length of the new name is taken
  for the event log. The buffers of \<open>System_NachosUserEvent\<close> hold 48 bytes.
\<close>

definition System_Halt :: "'h system \<Rightarrow> 'b res" where
  "System_Halt s = Halt s"

definition System_Yield :: "'h system \<Rightarrow> ('h, unit) outcome" where
  "System_Yield s = bind_res (Yield (currentThread s) s) (continue (currentThread s) (\<lambda>s1. Inr (Some (), s1)))"

definition System_NameThread :: "_ \<Rightarrow> uint32 \<Rightarrow> 'h system \<Rightarrow> (int \<times> 'h system) res" where
  "System_NameThread handler user_space_thread_name s =
     bind_res (copy_from_user handler user_space_thread_name s) (\<lambda>(bs, s1).
     bind_res (c_name bs) (\<lambda>_. Inr (0, s1)))"

definition short_name :: "byte list \<Rightarrow> byte list res" where
  "short_name bs = (if length bs \<le> 48 then c_name bs else Inl IndexOutOfBounds)"

definition System_NachosUserEvent :: "'h services \<Rightarrow> _ \<Rightarrow> uint32 \<Rightarrow> uint32 \<Rightarrow> uint32 \<Rightarrow> 'h system \<Rightarrow> 'h system res" where
  "System_NachosUserEvent sv handler u_family u_name tag s =
     bind_res (copy_from_user handler u_name s) (\<lambda>(nbs, s1).
     bind_res (short_name nbs) (\<lambda>name.
     bind_res (copy_from_user handler u_family s1) (\<lambda>(fbs, s2).
     bind_res (short_name fbs) (\<lambda>family.
     bind_res (dsui_get_ip_byname sv family name s2) (\<lambda>found.
     bind_res (case found of Some ip \<Rightarrow> Inr (ip, s2)
       | None \<Rightarrow> bind_res (dsui_create_ip sv family name s2) (\<lambda>(ip, s3).
           bind_res (dsui_enable_ip sv ip s3) (\<lambda>s4. Inr (ip, s4)))) (\<lambda>(ip, s5).
     bind_res (dsui_ip_next sv ip s5) (\<lambda>wanted.
     if wanted then bind_res (Get_Id (currentThread s5) s5) (\<lambda>pid. dsui_event_log sv ip tag pid s5)
     else Inr s5)))))))"

section \<open>The dispatcher\<close>

definition SC_Halt :: int where "SC_Halt = 0"
definition SC_Exit :: int where "SC_Exit = 1"
definition SC_Exec :: int where "SC_Exec = 2"
definition SC_Wait :: int where "SC_Wait = 3"
definition SC_Create :: int where "SC_Create = 4"
definition SC_Open :: int where "SC_Open = 5"
definition SC_Read :: int where "SC_Read = 6"
definition SC_Write :: int where "SC_Write = 7"
definition SC_Close :: int where "SC_Close = 8"
definition SC_Fork :: int where "SC_Fork = 9"
definition SC_Yield :: int where "SC_Yield = 10"
definition SC_Unlink :: int where "SC_Unlink = 11"
definition SC_GetPID :: int where "SC_GetPID = 12"
definition SC_GetPPID :: int where "SC_GetPPID = 13"
definition SC_Nice :: int where "SC_Nice = 14"
definition SC_Echo :: int where "SC_Echo = 15"
definition SC_NachosUserEvent :: int where "SC_NachosUserEvent = 16"
definition SC_NameThread :: int where "SC_NameThread = 25"

lemmas SC_defs = SC_Halt_def SC_Exit_def SC_Exec_def SC_Wait_def SC_Create_def SC_Open_def SC_Read_def
  SC_Write_def SC_Close_def SC_Fork_def SC_Yield_def SC_Unlink_def SC_GetPID_def SC_GetPPID_def SC_Nice_def
  SC_Echo_def SC_NachosUserEvent_def SC_NameThread_def

text \<open>
  What the calls use of the rest of the kernel: the services, the handlers of function pointers and of
  exceptions, the rounds an idle \<open>Sleep\<close> may take, the address of a new \<open>AddrSpace\<close> and the contents of
  memory that is read before it is written (\<open>junk_value\<close> for \<open>returnvalue\<close> and \<open>childexitvalue\<close>).
\<close>

record 'h kernel =
  services :: "'h services"
  call_func :: "'h caller"
  fault_handler :: "ExceptionType \<Rightarrow> 'h system \<Rightarrow> 'h system res"
  idle_fuel :: nat
  do_fork_func :: 'h
  new_space :: "'h system \<Rightarrow> nat"
  junk_value :: uint32
  junk_registers :: "nat \<Rightarrow> uint32"
  junk_buffers :: "nat \<Rightarrow> buffer"

definition returning :: "('v \<Rightarrow> uint32) \<Rightarrow> ('v \<times> 'h system) res \<Rightarrow> ('h, uint32) outcome" where
  "returning f r = bind_res r (\<lambda>(v, s). Inr (Some (f v), s))"

definition system_call :: "'h kernel \<Rightarrow> int \<Rightarrow> 'h system \<Rightarrow> ('h, uint32) outcome" where
  "system_call k syscall_num s =
     (let sv = services k; handler = fault_handler k; tick = OneTick (call_func k);
          sleep = (\<lambda>s. Sleep (idle_fuel k) (call_func k) (currentThread s) s); junk = junk_value k;
          value = returning word_of_int; nothing = returning (\<lambda>_. junk);
          reply = (\<lambda>r. bind_res r (\<lambda>(v, s). Inr (map_option word_of_int v, s)));
          silent = (\<lambda>r. bind_res r (\<lambda>(v, s). Inr (map_option (\<lambda>_. junk) v, s)))
      in
      bind_res (ReadRegister s 4) (\<lambda>reg4.
      bind_res (ReadRegister s 5) (\<lambda>reg5.
      bind_res (ReadRegister s 6) (\<lambda>reg6.
      bind_res (ReadRegister s 7) (\<lambda>reg7.
      if syscall_num = SC_Halt then System_Halt s
      else if syscall_num = SC_Exit then silent (System_Exit (idle_fuel k) (call_func k) sleep handler junk reg4 s)
      else if syscall_num = SC_Exec then reply (System_Exec sv (junk_buffers k) handler reg4 s)
      else if syscall_num = SC_Wait then reply (System_Wait tick sleep handler junk reg4 s)
      else if syscall_num = SC_Create then value (System_Create sv handler reg4 s)
      else if syscall_num = SC_Open then value (System_Open sv handler reg4 s)
      else if syscall_num = SC_Read then reply (System_Read sv handler (sint reg4) reg5 (sint reg6) s)
      else if syscall_num = SC_Write then reply (System_Write sv handler (sint reg4) reg5 (sint reg6) s)
      else if syscall_num = SC_Close then value (System_Close (sint reg4) s)
      else if syscall_num = SC_Unlink then value (System_Unlink sv handler reg4 s)
      else if syscall_num = SC_Fork then
        reply (System_Fork tick (junk_registers k) junk (do_fork_func k) (new_space k s) s)
      else if syscall_num = SC_GetPID then value (bind_res (System_GetPID s) (\<lambda>pid. Inr (pid, s)))
      else if syscall_num = SC_GetPPID then value (bind_res (System_GetPPID s) (\<lambda>pid. Inr (pid, s)))
      else if syscall_num = SC_Yield then silent (System_Yield s)
      else if syscall_num = SC_Nice then nothing (bind_res (System_Nice (sint reg4) s) (\<lambda>s1. Inr ((), s1)))
      else if syscall_num = SC_Echo then value (System_Echo sv handler reg4 (sint reg5) s)
      else if syscall_num = SC_NameThread then value (System_NameThread handler reg4 s)
      else if syscall_num = SC_NachosUserEvent then
        nothing (bind_res (System_NachosUserEvent sv handler reg4 reg5 reg6 s) (\<lambda>s1. Inr ((), s1)))
      else Inr (Some (word_of_int (-1)), s))))))"

definition do_system_call :: "'h kernel \<Rightarrow> int \<Rightarrow> 'h system \<Rightarrow> ('h, unit) outcome" where
  "do_system_call k syscall_num s =
     bind_res (system_call k syscall_num s) (\<lambda>(v, s1).
     case v of None \<Rightarrow> Inr (None, s1)
     | Some returnvalue \<Rightarrow> bind_res (WriteRegister s1 2 returnvalue) (\<lambda>s2. Inr (Some (), s2)))"

section \<open>The first process\<close>

text \<open>\<open>StartProcess\<close> (\<open>userprog/progtest.cc\<close>) up to \<open>Machine::Run\<close>; \<open>None\<close> when there is no such file.\<close>

definition StartProcess ::
  "'h services \<Rightarrow> (nat \<Rightarrow> buffer) \<Rightarrow> uint32 \<Rightarrow> byte list \<Rightarrow> nat \<Rightarrow> 'h system \<Rightarrow> ('h, unit) outcome" where
  "StartProcess sv junk junk_start filename sid s =
     bind_res (fs_Open sv filename s) (\<lambda>(fl, s1).
     case fl of None \<Rightarrow> Inr (None, s1)
     | Some executable \<Rightarrow>
       bind_res (upd_thread (currentThread s1) (\<lambda>th. th\<lparr>tspace := Some sid\<rparr>)
         (s1\<lparr>spaces := (spaces s1)(sid \<mapsto> AddrSpace_new (currentThread s1) junk_start),
             currentSpace := Some sid\<rparr>)) (\<lambda>s2.
       bind_res (InitSpace junk executable sid s2) (\<lambda>s3.
       bind_res (InitRegisters sid s3) (\<lambda>s4.
       bind_res (RestoreState sid s4) (\<lambda>s5. Inr (Some (), s5))))))"

end
