(* ===== verification/VM_Frame.thy ===== *)
theory VM_Frame
  imports Thread_Delete Machine_Access VM_Fork
begin

text \<open>
  What the operations on memory leave alone: the thread system, the current thread, the set of
  address spaces; and every entry of a page table keeps a frame number of the machine once it has one.
\<close>

section \<open>The relation\<close>

definition vm_step :: "'a vm_scheme \<Rightarrow> 'a vm_scheme \<Rightarrow> bool" where
  "vm_step s t \<longleftrightarrow> vm_frame s t \<and> (\<forall>ow v te'. ent (spaces t) ow v = Some te' \<longrightarrow>
     (\<exists>te. ent (spaces s) ow v = Some te \<and> (physicalPage te < NumPhysPages \<longrightarrow> physicalPage te' < NumPhysPages)))"

lemma vm_step_refl [simp]: "vm_step s s"
  by (simp add: vm_step_def)

lemma vm_step_trans [trans]: "vm_step s t \<Longrightarrow> vm_step t u \<Longrightarrow> vm_step s u"
  unfolding vm_step_def by (meson vm_frame_trans)

lemma vm_step_frame: "vm_step s t \<Longrightarrow> vm_frame s t"
  by (simp add: vm_step_def)

lemma vm_step_spaces: "vm_frame s t \<Longrightarrow> spaces t = spaces s \<Longrightarrow> vm_step s t"
  by (auto simp: vm_step_def)

text \<open>An update of an entry that does not spoil its frame number.\<close>

definition frame_safe :: "(TranslationEntry \<Rightarrow> TranslationEntry) \<Rightarrow> bool" where
  "frame_safe f \<longleftrightarrow> (\<forall>te. physicalPage te < NumPhysPages \<longrightarrow> physicalPage (f te) < NumPhysPages)"

lemma upd_te_step:
  assumes "frame_safe f" "upd_te s sid v f = Inr t"
  shows "vm_step s t"
proof -
  have "\<exists>te. ent (spaces s) sid v = Some te"
    using assms(2) by (auto simp: upd_te_def ent_def res_eq_Inr split: if_splits)
  then obtain te where "ent (spaces s) sid v = Some te" by blast
  from upd_te_eq [OF this, of f] assms(2) have t: "t = s\<lparr>spaces := upd_spaces {sid} v f (spaces s)\<rparr>" by simp
  show ?thesis
    unfolding vm_step_def using upd_te_frame [OF assms(2)] assms(1) by (auto simp: t frame_safe_def split: if_splits)
qed

lemma fold_res_step:
  assumes "fold_res f xs s = Inr t" "\<And>x s t. f x s = Inr t \<Longrightarrow> vm_step s t"
  shows "vm_step s t"
  by (rule fold_res_invariant [where P = "vm_step s", OF assms(1)]) (auto intro: vm_step_trans assms(2))

lemma for_owners_step: "frame_safe f \<Longrightarrow> for_owners fr v f s = Inr t \<Longrightarrow> vm_step s t"
  by (auto simp: for_owners_def res_eq_Inr intro: fold_res_step upd_te_step)

section \<open>Page-out\<close>

lemma get_next_free_frame_step: "get_next_free_frame s = Inr (n, t) \<Longrightarrow> vm_step s t"
  by (rule vm_step_spaces) (auto simp: get_next_free_frame_def vm_frame_def res_eq_Inr Let_def split: if_splits)

lemma get_next_free_page_step: "get_next_free_page s = Inr (n, t) \<Longrightarrow> vm_step s t"
  by (rule vm_step_spaces) (auto simp: get_next_free_page_def vm_frame_def res_eq_Inr Let_def split: if_splits)

lemma count_pageouts_step:
  assumes "count_pageouts os s = Inr t"
  shows "vm_step s t"
proof -
  have "vm_step u w" if "count_pageout ow u = Inr w" for ow and u w :: "'a vm_scheme"
    using that by (intro vm_step_spaces) (auto simp: count_pageout_def vm_frame_def res_eq_Inr)
  with assms have "vm_step (s\<lparr>numPageOuts := numPageOuts s + 1\<rparr>) t"
    unfolding count_pageouts_def by (rule fold_res_step)
  moreover have "vm_step s (s\<lparr>numPageOuts := numPageOuts s + 1\<rparr>)" by (rule vm_step_spaces) (simp_all add: vm_frame_def)
  ultimately show ?thesis by (rule vm_step_trans [rotated])
qed

lemma files_step: "vm_step s (s\<lparr>files := f\<rparr>)"
  by (rule vm_step_spaces) (simp_all add: vm_frame_def)

lemma frames_step: "vm_step s (s\<lparr>Frames := f\<rparr>)" and swapFrames_step: "vm_step s (s\<lparr>swapFrames := f\<rparr>)"
  and put_page_step: "vm_step s (put_page s d b)"
  by (rule vm_step_spaces; simp add: vm_frame_def put_page_def)+

lemma pageout_dirty_step:
  assumes "pageout_dirty victim fr own0 s = Inr t"
  shows "vm_step s t"
proof -
  from assms obtain loc loc' :: TranslationEntry and os u where
    u: "(if te_File loc \<noteq> Some (swapFile s) then
          bind_res (get_next_free_frame s) (\<lambda>(swap_num, t).
          assert_res (swap_num \<ge> 0) (\<lambda>_.
          for_owners fr (owners_page_number fr)
            (\<lambda>te. te\<lparr>te_File := Some (swapFile s), te_offset := nat swap_num * PageSize,
                     te_zero := False\<rparr>) t)) else Inr s) = Inr u"
    and t: "count_pageouts os (u\<lparr>files := (files u)(swapFile u :=
               WriteAt (files u (swapFile u)) (page_bytes (mainMemory u) victim) PageSize (te_offset loc'))\<rparr>) = Inr t"
    unfolding pageout_dirty_def Let_def res_eq_Inr
    by blast
  have "vm_step s u"
    using u by (auto simp: res_eq_Inr frame_safe_def split: if_splits
      dest!: get_next_free_frame_step for_owners_step [rotated] intro: vm_step_trans)
  also note files_step
  also note count_pageouts_step [OF t]
  finally show ?thesis .
qed

lemma pageout_clean_step: "pageout_clean fr own0 s = Inr t \<Longrightarrow> vm_step s t"
  by (auto simp: pageout_clean_def res_eq_Inr frame_safe_def split: if_splits dest!: for_owners_step [rotated])

lemma pageout_record_step: "pageout_record fr own0 s = Inr t \<Longrightarrow> vm_step s t"
  by (auto simp: pageout_record_def res_eq_Inr swapFrames_step split: if_splits)

lemma pageout_step:
  assumes "pageout s victim = Inr t"
  shows "vm_step s t \<and> victim < NumPhysPages"
proof -
  from assms obtain fr own0 s1 s2 s3 and loc :: TranslationEntry where
    v: "frame_at s victim = Inr fr"
    and s1: "(if dirty loc then pageout_dirty victim fr own0 s else pageout_clean fr own0 s) = Inr s1"
    and s2: "pageout_record fr own0 s1 = Inr s2"
    and s3: "for_owners fr (owners_page_number fr) (\<lambda>te. te\<lparr>valid := False\<rparr>) s2 = Inr s3"
    and t: "s3\<lparr>Frames := (Frames s3)(victim := fr\<lparr>owners := None, numOwners := 0\<rparr>)\<rparr> = t"
    unfolding pageout_def res_eq_Inr sum.inject by blast
  have "vm_step s s1" using s1 by (auto dest: pageout_dirty_step pageout_clean_step split: if_splits)
  also have "vm_step s1 s2" by (rule pageout_record_step [OF s2])
  also have "vm_step s2 s3" by (rule for_owners_step [OF _ s3]) (simp add: frame_safe_def)
  also have "vm_step s3 t" unfolding t [symmetric] by (rule frames_step)
  finally have "vm_step s t" .
  with v show ?thesis by (auto simp: frame_at_def split: if_splits)
qed

section \<open>Page-in and copy on write\<close>

lemma same_core_step:
  assumes "vm_frame s t" "same_core (spaces s) (spaces t)"
  shows "vm_step s t"
  unfolding vm_step_def
proof (intro conjI allI impI)
  fix ow v te'
  assume "ent (spaces t) ow v = Some te'"
  from same_core_ent [OF assms(2) this] obtain te where "ent (spaces s) ow v = Some te" "core te' = core te" by metis
  with core_fields(2) [of te' te] show "\<exists>te. ent (spaces s) ow v = Some te \<and> (physicalPage te < NumPhysPages \<longrightarrow>
      physicalPage te' < NumPhysPages)" by auto
qed (rule assms(1))

lemma space_Choose_Victim_step:
  assumes "victim_policy pol rank" "space_Choose_Victim pol s notMe = Inr (v, t)"
  shows "vm_step s t"
proof -
  from assms(2) obtain sid a pt where t: "spaces s sid = Some a" "pol (pageTable a) notMe = Inr (v, pt)"
    "t = s\<lparr>spaces := (spaces s)(sid \<mapsto> a\<lparr>pageTable := pt\<rparr>)\<rparr>"
    by (auto simp: space_Choose_Victim_def res_eq_Inr)
  have "same_core (spaces s) (spaces t)" unfolding t(3)
    using same_core_upd [where sp = "spaces s", OF t(1)] same_mapping_core victim_policy.pick_table [OF assms(1) t(2)] by simp
  moreover have "vm_frame s t" using t(1,3) by (simp add: vm_frame_def)
  ultimately show ?thesis by (rule same_core_step [rotated])
qed

lemma Choose_Victim_step: "Choose_Victim s notMe = Inr (v, t) \<Longrightarrow> vm_step s t"
  by (auto simp: Choose_Victim_def Dumb_Choose_Victim_def res_eq_Inr split: if_splits
      intro: space_Choose_Victim_step FIFO.victim_policy_axioms LRU.victim_policy_axioms SC.victim_policy_axioms)
    (auto intro!: vm_step_spaces simp: vm_frame_def)

lemma Find_loop_range: "Find_loop bm is = Inr (i, bm') \<Longrightarrow> i = -1 \<or> i \<in> int ` set is"
  by (induction "is") (auto simp: res_eq_Inr split: if_splits)

lemma Find_bound: "Find bm = Inr (i, bm') \<Longrightarrow> i < int (numBits bm)"
  by (auto simp: Find_def dest: Find_loop_range)

lemma take_frame_step:
  assumes "vm_inv s" "take_frame s notMe = Inr (d, t)"
  shows "vm_step s t \<and> d < NumPhysPages"
proof -
  from assms(2) obtain n s1 where n: "get_next_free_page s = Inr (n, s1)"
    and r: "(if n < 0 then bind_res (Choose_Victim s1 notMe) (\<lambda>(v, s2). if v < 0 then Inl IndexOutOfBounds
        else bind_res (pageout s2 (nat v)) (\<lambda>s3. Inr (nat v, s3))) else Inr (nat n, s1)) = Inr (d, t)"
    by (auto simp: take_frame_def res_eq_Inr)
  note step = get_next_free_page_step [OF n]
  show ?thesis
  proof (cases "n < 0")
    case True
    with r obtain s2 where "Choose_Victim s1 notMe = Inr (int d, s2)" "pageout s2 d = Inr t"
      by (auto simp: res_eq_Inr split: if_splits)
    with step Choose_Victim_step pageout_step show ?thesis by (meson vm_step_trans)
  next
    case False
    have "bm_wf (page_flags s)" "numBits (page_flags s) = NumPhysPages"
      using assms(1) by (simp_all add: vm_inv_except_def alloc_inv_def)
    with n False have "n < int NumPhysPages"
      by (auto simp: get_next_free_page_def res_eq_Inr Let_def ENOMEM_def split: if_splits dest: Find_bound)
    with r step False show ?thesis by auto
  qed
qed

lemma add_frame_owner_step: "add_frame_owner s f sid v = Inr (r, t) \<Longrightarrow> vm_step s t"
  and swap_add_frame_owner_step: "swap_add_frame_owner s off sid v = Inr (r, t) \<Longrightarrow> vm_step s t"
  by (auto simp: add_frame_owner_def swap_add_frame_owner_def Let_def res_eq_Inr frames_step swapFrames_step split: if_splits)

lemma release_page_step: "release_page s p sid = Inr t \<Longrightarrow> vm_step s t"
  by (frule release_page_frame, erule vm_step_spaces) (auto simp: release_page_def res_eq_Inr split: if_splits)

lemma release_frame_step: "release_frame s p sid = Inr t \<Longrightarrow> vm_step s t"
  by (frule release_frame_frame, erule vm_step_spaces) (auto simp: release_frame_def Let_def res_eq_Inr split: if_splits)

lemma unshare_last_step: "unshare_last s f = Inr t \<Longrightarrow> vm_step s t"
  by (auto simp: unshare_last_def res_eq_Inr frame_safe_def split: if_splits dest!: upd_te_step [rotated])

lemma duplicatePage_step:
  assumes "vm_inv s" "duplicatePage s sid v = Inr t"
  shows "vm_step s t"
proof -
  from assms(2) obtain loc0 loc :: TranslationEntry and dest s1 cur r s2 s4 s5 s6 where
    s1: "take_frame s (int (physicalPage loc0)) = Inr (dest, s1)"
    and s2: "add_frame_owner s1 (int dest) cur v = Inr (r, s2)"
    and s4: "release_page (put_page s2 dest (page_bytes (mainMemory s2) (physicalPage loc))) (physicalPage loc) sid = Inr s4"
    and s5: "(if te_File loc = Some (swapFile s4) then bind_res (release_frame s4 (te_offset loc) sid) (\<lambda>t.
          upd_te t sid v (\<lambda>te. te\<lparr>te_File := None\<rparr>)) else Inr s4) = Inr s5"
    and s6: "unshare_last s5 (int (physicalPage loc)) = Inr s6"
    and t: "upd_te s6 sid v (\<lambda>te. clearRefHistory (setTime (clearSC (te\<lparr>cow := False, valid := True, physicalPage := dest\<rparr>)) 0)) = Inr t"
    unfolding duplicatePage_def res_eq_Inr Let_def by (auto simp: res_eq_Inr)
  have d: "dest < NumPhysPages" using take_frame_step [OF assms(1) s1] by blast
  have "vm_step s s1" using take_frame_step [OF assms(1) s1] by blast
  also have "vm_step s1 s2" by (rule add_frame_owner_step [OF s2])
  also have "vm_step s2 s4" using put_page_step release_page_step [OF s4] by (rule vm_step_trans)
  also have "vm_step s4 s5"
    using s5 by (auto simp: res_eq_Inr frame_safe_def split: if_splits dest!: upd_te_step [rotated] release_frame_step intro: vm_step_trans)
  also have "vm_step s5 s6" by (rule unshare_last_step [OF s6])
  also have "vm_step s6 t"
    by (rule upd_te_step [OF _ t]) (use d in \<open>simp add: frame_safe_def clearRefHistory_def setTime_def clearSC_def\<close>)
  finally show ?thesis .
qed

lemma pagein_step:
  assumes "vm_inv s" "pagein s v sid = Inr t"
  shows "vm_step s t"
proof -
  from assms(2) obtain dest s1 s2 s3 s4 and loc :: TranslationEntry where
    s1: "take_frame s (-1) = Inr (dest, s1)" and s2: "pagein_fill dest loc s1 = Inr s2"
    and s3: "pagein_record dest v sid loc s2 = Inr s3"
    and s4: "for_owners (Frames s3 dest) v (pagein_entry dest (totalTicks s3)) s3 = Inr s4"
    and t: "t = s4\<lparr>numPageIns := numPageIns s4 + 1, procPageIns := (procPageIns s4)(currentThread s4 :=
              procPageIns s4 (currentThread s4) + 1)\<rparr>"
    unfolding pagein_def res_eq_Inr by (auto simp: res_eq_Inr)
  have d: "dest < NumPhysPages" using take_frame_step [OF assms(1) s1] by blast
  have "vm_step s s1" using take_frame_step [OF assms(1) s1] by blast
  also have "vm_step s1 s2"
    using s2 put_page_step by (auto simp: pagein_fill_def res_eq_Inr split: if_splits)
  also have "vm_step s2 s3"
    using s3 by (auto simp: pagein_record_def res_eq_Inr frame_safe_def frames_step split: if_splits dest!: upd_te_step [rotated]
      intro: vm_step_trans [OF frames_step])
  also have "vm_step s3 s4"
    by (rule for_owners_step [OF _ s4]) (use d in \<open>simp add: frame_safe_def pagein_entry_def setTime_def clearSC_def\<close>)
  also have "vm_step s4 t" by (rule vm_step_spaces) (simp_all add: t vm_frame_def)
  finally show ?thesis .
qed

section \<open>Sharing\<close>

lemma cow_step: "upd_te s sid v (\<lambda>te. te\<lparr>cow := b\<rparr>) = Inr t \<Longrightarrow> vm_step s t"
  by (erule upd_te_step [rotated]) (simp add: frame_safe_def)

lemma CopyFrom_page_step: "CopyFrom_page par sid i s = Inr t \<Longrightarrow> vm_step s t"
  by (auto simp: CopyFrom_page_def res_eq_Inr split: if_splits
      dest!: cow_step add_frame_owner_step swap_add_frame_owner_step) (meson vm_step_trans)+

lemma CopyFrom_step_ok:
  assumes inv: "vm_inv s" and cur: "currentSpace s = Some par" and par: "spaces s par = Some p"
    and sid: "spaces s sid = Some a" "numPages a = 0" and ne: "sid \<noteq> par"
  shows "\<exists>t. CopyFrom s sid = Inr t \<and> vm_inv t \<and> vm_frame s t \<and>
    (\<forall>ow v te'. ow \<noteq> sid \<longrightarrow> ent (spaces t) ow v = Some te' \<longrightarrow>
      (\<exists>te. ent (spaces s) ow v = Some te \<and> (physicalPage te < NumPhysPages \<longrightarrow> physicalPage te' < NumPhysPages))) \<and>
    (\<forall>w k. vbyte t sid w k = vbyte s par w k) \<and> (\<forall>ow w k. ow \<noteq> sid \<longrightarrow> vbyte t ow w k = vbyte s ow w k)"
proof -
  from CopyFrom_ok [OF assms] obtain t where t: "CopyFrom s sid = Inr t" "vm_inv t"
    "\<forall>w k. vbyte t sid w k = vbyte s par w k" "\<forall>ow w k. ow \<noteq> sid \<longrightarrow> vbyte t ow w k = vbyte s ow w k" by blast
  from t(1) obtain b where st: "vm_step (s\<lparr>spaces := (spaces s)(sid \<mapsto> b)\<rparr>) t"
    unfolding CopyFrom_def res_eq_Inr by (metis CopyFrom_page_step fold_res_step)
  have "vm_frame s t" using vm_step_frame [OF st] sid(1) by (auto simp: vm_frame_def)
  moreover have "\<exists>te. ent (spaces s) ow v = Some te \<and> (physicalPage te < NumPhysPages \<longrightarrow> physicalPage te' < NumPhysPages)"
    if "ow \<noteq> sid" "ent (spaces t) ow v = Some te'" for ow v te'
    using st that unfolding vm_step_def by (force simp: ent_def)
  ultimately show ?thesis using t by blast
qed

section \<open>The kernel between two accesses to user memory\<close>

text \<open>An access may page in and may change registers and counters; the thread system stays as it is.\<close>

definition sys_step :: "'a machine_scheme \<Rightarrow> 'a machine_scheme \<Rightarrow> bool" where
  "sys_step s t \<longleftrightarrow> machine.more t = machine.more s \<and> currentThread t = currentThread s \<and>
     currentSpace t = currentSpace s \<and> breakpoints t = breakpoints s \<and>
     (\<forall>ow. spaces t ow = None \<longleftrightarrow> spaces s ow = None) \<and>
     (\<forall>ow v te'. ent (spaces t) ow v = Some te' \<longrightarrow> (\<exists>te. ent (spaces s) ow v = Some te \<and>
       (physicalPage te < NumPhysPages \<longrightarrow> physicalPage te' < NumPhysPages)))"

lemma sys_step_refl [simp]: "sys_step s s"
  by (simp add: sys_step_def)

lemma sys_step_trans [trans]: "sys_step s t \<Longrightarrow> sys_step t u \<Longrightarrow> sys_step s u"
  unfolding sys_step_def by (metis (no_types, lifting))

lemma vm_step_sys:
  fixes s t :: "'a machine_scheme"
  assumes "vm_step s t"
  shows "sys_step s t"
proof -
  have "vm.more t = vm.more s" using assms by (simp add: vm_step_def vm_frame_def)
  then have "machine.more t = machine.more s" "breakpoints t = breakpoints s" by (cases s; cases t; simp)+
  with assms show ?thesis by (simp add: sys_step_def vm_step_def vm_frame_def)
qed

lemma sys_step_upd [simp]:
  fixes s :: "'a machine_scheme"
  shows "sys_step s (s\<lparr>registers := a\<rparr>)" "sys_step s (s\<lparr>mstatus := b\<rparr>)" "sys_step s (s\<lparr>mainMemory := c\<rparr>)"
    "sys_step s (s\<lparr>numPageFaults := d, procPageFaults := e, ticksAtLastPageFault := f\<rparr>)"
  by (simp_all add: sys_step_def)

lemma DelayedLoad_step: "DelayedLoad n v s = Inr t \<Longrightarrow> \<exists>r. t = s\<lparr>registers := r\<rparr>"
  by (auto simp: DelayedLoad_def Let_def split: if_splits)

lemma handle_page_fault_step:
  assumes "vm_inv s" "handle_page_fault s = Inr t"
  shows "sys_step s t"
proof -
  let ?s1 = "s\<lparr>numPageFaults := numPageFaults s + 1, procPageFaults := (procPageFaults s)(currentThread s :=
      procPageFaults s (currentThread s) + 1), ticksAtLastPageFault := userTicks s\<rparr>"
  have "vm_inv ?s1" using assms(1) by simp
  moreover from assms(2) obtain v sid where "pagein ?s1 v sid = Inr t"
    unfolding handle_page_fault_def res_eq_Inr Let_def by blast
  ultimately have "sys_step ?s1 t" using pagein_step vm_step_sys by blast
  with sys_step_upd(4) show ?thesis by (rule sys_step_trans)
qed

lemma RaiseException_step:
  assumes "which = PageFaultException \<Longrightarrow> vm_inv s" "which \<noteq> SyscallException"
    "RaiseException (ExceptionHandler sc) which a s = Inr t"
  shows "sys_step s t"
proof -
  let ?s = "\<lambda>r. s\<lparr>registers := r, mstatus := SystemMode\<rparr>"
  from assms(3) obtain r u where u: "ExceptionHandler sc which (?s r) = Inr u" and t: "t = u\<lparr>mstatus := mstatus s\<rparr>"
    by (auto simp: RaiseException_def bind_res_eq_Inr dest!: DelayedLoad_step)
  have "which = PageFaultException" "handle_page_fault (?s r) = Inr u"
    using u assms(2) by (cases which; auto simp: ExceptionHandler_def bind_res_eq_Inr)+
  moreover from this(1) have "vm_inv (?s r)" using assms(1) by simp
  ultimately have "sys_step (?s r) u" using handle_page_fault_step by blast
  then show ?thesis using t sys_step_upd(1,2) by (metis sys_step_trans)
qed

lemma touch_safe: "frame_safe (touch w)"
  by (simp add: frame_safe_def touch_def)

lemma Translate_step:
  assumes "vm_inv s" "Translate a sz w s = Inr (e, p, t)"
  shows "sys_step s t \<and> e \<noteq> SyscallException \<and> (e = PageFaultException \<longrightarrow> vm_inv t)"
proof -
  have dup: "sys_step s s1" if "(if c then duplicatePage s sid v else Inr s) = Inr s1" for c sid v and s1
    using that duplicatePage_step [OF assms(1)] vm_step_sys by (metis sum.inject(2) sys_step_refl)
  have upd: "sys_step s1 s2" if "upd_te s1 sid v (touch x) = Inr s2" for s1 s2 :: "'a machine_scheme" and sid v x
    using that upd_te_step [OF touch_safe] vm_step_sys by blast
  show ?thesis
  proof (cases "misaligned a sz")
    case True
    with assms show ?thesis by (simp add: Translate_def)
  next
    case False
    with assms(2) obtain sid and b :: AddrSpace where
      run: "(if unat a div PageSize \<ge> numPages b then Inr (AddressErrorException, 0, s)
      else bind_res (index_res (pageTable b) (unat a div PageSize)) (\<lambda>entry.
      if \<not> valid entry then
        bind_res (WriteRegister s (int BadVAddrReg) (of_nat (unat a div PageSize))) (\<lambda>s1. Inr (PageFaultException, 0, s1))
      else bind_res (if cow entry \<and> w then duplicatePage s sid (unat a div PageSize) else Inr s) (\<lambda>s1.
      bind_res (get_te s1 sid (unat a div PageSize)) (\<lambda>entry1.
      if physicalPage entry1 \<ge> NumPhysPages then Inr (BusErrorException, 0, s1)
      else bind_res (upd_te s1 sid (unat a div PageSize) (touch w)) (\<lambda>s2.
      let physAddr = physicalPage entry1 * PageSize + unat a mod PageSize in
      assert_res (physAddr + sz \<le> MemorySize) (\<lambda>_. Inr (NoException, physAddr, s2))))))) = Inr (e, p, t)"
      unfolding Translate_def Let_def by (simp add: assert_res_eq_Inr deref_res_eq_Inr) (elim exE conjE)
    show ?thesis
      using run assms(1) by (auto simp: bind_res_eq_Inr assert_res_eq_Inr WriteRegister_def Let_def
        split: if_splits dest!: dup upd dest: vm_step_sys [OF duplicatePage_step] intro: sys_step_trans)
  qed
qed

lemma ReadMem_step:
  assumes "vm_inv s" "breakpoints s = []" "ReadMem (ExceptionHandler sc) a sz old s = Inr (ok, v, t)"
  shows "sys_step s t"
proof -
  have "check_watchpoint (ExceptionHandler sc) a sz ReadWp s = Inr s"
    using assms(2) by (simp add: check_watchpoint_def queryBreakpoint_def)
  with assms(3) obtain e p s2 where s2: "Translate a sz False s = Inr (e, p, s2)"
    "t = s2 \<or> e \<noteq> NoException \<and> RaiseException (ExceptionHandler sc) e a s2 = Inr t"
    by (auto simp: ReadMem_def bind_res_eq_Inr split: if_splits)
  with Translate_step [OF assms(1) s2(1)] RaiseException_step show ?thesis by (metis sys_step_trans)
qed

lemma WriteMem_step:
  assumes "vm_inv s" "breakpoints s = []" "WriteMem (ExceptionHandler sc) a sz v s = Inr (ok, t)"
  shows "sys_step s t"
proof -
  have "check_watchpoint (ExceptionHandler sc) a sz WriteWp s = Inr s"
    using assms(2) by (simp add: check_watchpoint_def queryBreakpoint_def)
  with assms(3) obtain e p s2 where s2: "Translate a sz True s = Inr (e, p, s2)"
    "(\<exists>m. t = s2\<lparr>mainMemory := m\<rparr>) \<or> e \<noteq> NoException \<and> RaiseException (ExceptionHandler sc) e a s2 = Inr t"
    by (auto simp: WriteMem_def bind_res_eq_Inr split: if_splits)
  with Translate_step [OF assms(1) s2(1)] RaiseException_step sys_step_upd(3) show ?thesis by (metis sys_step_trans)
qed

text \<open>The invariant of the thread system needs of the memory only its own invariant.\<close>

lemma sys_step_system:
  fixes s t :: "'h system"
  assumes "sys_step s t"
  shows "threads t = threads s" "readyList t = readyList s" "allThreads t = allThreads s" "nextThread t = nextThread s"
    "threadToBeDestroyed t = threadToBeDestroyed s" "level t = level s" "currentThread t = currentThread s"
    "currentSpace t = currentSpace s" "threadid t = threadid s" "pending t = pending s" "installed t = installed s"
    "closedFiles t = closedFiles s"
  using assms unfolding sys_step_def by (cases s; cases t; simp)+

lemma sys_step_deletable: "sys_step s t \<Longrightarrow> deletable s th \<Longrightarrow> deletable t th"
  unfolding deletable_def sys_step_def by metis

lemma sys_step_sched:
  fixes s t :: "'h system"
  assumes st: "sys_step s t" and inv: "sched_inv s" "vm_inv t"
  shows "sched_inv t" "running s \<Longrightarrow> running t"
proof -
  note eq = sys_step_system [OF st]
  have pr: "prio t = prio s" by (simp add: prio_def fun_eq_iff eq)
  have "\<exists>xs. ready_inv t xs" using inv(1) by (auto simp: sched_inv_def ready_inv_def eq pr)
  moreover have "all_inv t" using inv(1) by (simp add: sched_inv_def all_inv_def eq)
  moreover have "space_inv t"
  proof -
    have none: "spaces t ow = None \<longleftrightarrow> spaces s ow = None" for ow using st by (simp add: sys_step_def)
    have "space_inv s" using inv(1) by (simp add: sched_inv_def)
    then show ?thesis unfolding space_inv_def eq none .
  qed
  moreover have "zombie_inv t"
    using inv(1) sys_step_deletable [OF st] by (fastforce simp: sched_inv_def zombie_inv_def eq)
  ultimately show "sched_inv t" using inv by (auto simp: sched_inv_def eq)
  show "running s \<Longrightarrow> running t" by (simp add: running_def eq)
qed

end
