(* ===== verification/Processes.thy ===== *)
theory Processes
  imports SystemCalls VM_Frame Interrupt_Inv
begin

text \<open>
  The life of a process: what \<open>System_Fork\<close>, \<open>System_Exit\<close> and \<open>System_Wait\<close> do to a state with the invariant of
  the thread system.
\<close>

section \<open>Fork\<close>

lemma ent_new_space: "spaces s sid = None \<Longrightarrow> numPages a = 0 \<Longrightarrow> ent ((spaces s)(sid \<mapsto> a)) = ent (spaces s)"
  by (intro ext) (simp add: ent_def)

lemma vm_inv_new_space:
  assumes "vm_inv s" "spaces s sid = None" "numPages a = 0" "pageTable a = []"
  shows "vm_inv (s\<lparr>spaces := (spaces s)(sid \<mapsto> a)\<rparr>)"
proof -
  let ?t = "s\<lparr>spaces := (spaces s)(sid \<mapsto> a)\<rparr>"
  have e: "ent (spaces ?t) = ent (spaces s)" using ent_new_space [OF assms(2,3)] by simp
  have m: "maps ?t = maps s" "swapped ?t = swapped s" by (intro ext; simp only: maps_def swapped_def e; simp)+
  have sel: "swapFile ?t = swapFile s" "files ?t = files s" "mainMemory ?t = mainMemory s" by simp_all
  have "share_inv s" "content_inv {} s" using assms(1) by (simp_all add: vm_inv_except_def)
  then have "share_inv ?t" "content_inv {} ?t" unfolding share_inv_def content_inv_def e sel .
  moreover have "alloc_inv ?t" using assms(1) by (simp add: vm_inv_except_def alloc_inv_def)
  moreover have "owner_inv ?t" using assms unfolding vm_inv_except_def owner_inv_def m e by simp
  ultimately show ?thesis by (simp add: vm_inv_except_def)
qed

lemma vbyte_new_space:
  "spaces s sid = None \<Longrightarrow> numPages a = 0 \<Longrightarrow> vbyte (s\<lparr>spaces := (spaces s)(sid \<mapsto> a)\<rparr>) = vbyte s"
  by (intro ext) (simp add: vbyte_def ent_new_space)

lemma Write_Reg_loop:
  assumes "threads s t = Some th"
  shows "fold_res (\<lambda>i u. bind_res (ReadRegister u (int i)) (\<lambda>v. upd_thread t (Write_Reg i v) u)) [0..<NumTotalRegs] s =
    Inr (s\<lparr>threads := (threads s)(t \<mapsto> th\<lparr>userRegisters :=
      (\<lambda>i. if i < NumTotalRegs then registers s i else userRegisters th i)\<rparr>)\<rparr>)"
  using SaveUserState_ok [OF assms] unfolding SaveUserState_def Write_Reg_def .

text \<open>The new thread when it is put on the ready list.\<close>

definition forked :: "(nat \<Rightarrow> uint32) \<Rightarrow> 'h \<Rightarrow> nat \<Rightarrow> 'h system \<Rightarrow> 'h Thread" where
  "forked junk f sid s = \<lparr>frames = [ThreadRoot_frame f 0], tstatus = JUST_CREATED, Priority = 20,
     ThreadID = threadid s, ChildList = List_new, Children = 0, ParentPtr = Some (currentThread s), exitval = 0,
     ChildExited = KernelSemaphore_new 0, hasReachedExit = False, thread_exit_status = False, runNow = False,
     wssRefreshCounter = 0, userRegisters = (\<lambda>i. if i < NumTotalRegs then registers s i else junk i),
     FDTable = Some \<lparr>fd_type = ConsoleFile, openfile = None\<rparr> # Some \<lparr>fd_type = ConsoleFile, openfile = None\<rparr> #
       replicate (MAX_FD - 2) None, tspace = Some sid, procStats = Statistics_new\<rparr>"

lemma Fork_ready_ok:
  fixes s :: "'h system"
  assumes inv: "sched_inv s" "running s" and cur: "currentSpace s = Some par" and new: "spaces s sid = None"
    and th: "threads s (currentThread s) = Some th"
  shows "\<exists>u. Fork_ready junk js f sid s = Inr (threadid s, nextThread s, u) \<and> vm_inv u \<and> all_inv u \<and>
    threads u = (threads s)(nextThread s \<mapsto> forked junk f sid s, currentThread s \<mapsto> Add_Child th) \<and>
    currentThread u = currentThread s \<and> currentSpace u = currentSpace s \<and> level u = level s \<and>
    readyList u = readyList s \<and> threadToBeDestroyed u = threadToBeDestroyed s \<and> threadid u = threadid s + 1 \<and>
    (\<forall>ow. spaces u ow = None \<longleftrightarrow> ow \<noteq> sid \<and> spaces s ow = None) \<and>
    (\<forall>ow v te'. ow \<noteq> sid \<longrightarrow> ent (spaces u) ow v = Some te' \<longrightarrow>
      (\<exists>te. ent (spaces s) ow v = Some te \<and> (physicalPage te < NumPhysPages \<longrightarrow> physicalPage te' < NumPhysPages))) \<and>
    (\<forall>w k. vbyte u sid w k = vbyte s par w k) \<and> (\<forall>ow w k. ow \<noteq> sid \<longrightarrow> vbyte u ow w k = vbyte s ow w k)"
proof -
  let ?t = "nextThread s" and ?c = "currentThread s"
  from inv(1) obtain ns where ns: "represents (allThreads s) ns" "distinct (map nt_thread ns)"
    "nt_thread ` set ns = dom (threads s)" and lt: "\<forall>t \<in> dom (threads s). t < nextThread s"
    unfolding sched_inv_def all_inv_def by blast
  from addToList_ok [OF ns(1), of ?t] obtain l where l: "addToList ?t s =
      Inr (threadid s, s\<lparr>threadid := threadid s + 1, allThreads := l\<rparr>)"
    "represents l (ns @ [\<lparr>nt_thread = ?t, nt_ID = threadid s\<rparr>])" by blast
  have ne: "?t \<noteq> ?c" using lt th by (auto simp: dom_def)
  have "space_inv s" using inv(1) by (simp add: sched_inv_def)
  with th cur obtain p where p: "spaces s par = Some p" unfolding space_inv_def by fastforce
  with new have par: "sid \<noteq> par" by auto
  define s1 where "s1 = s\<lparr>threadid := threadid s + 1, allThreads := l, nextThread := Suc ?t,
    threads := (threads s)(?t \<mapsto> (forked junk f sid s)\<lparr>frames := [], ParentPtr := None, userRegisters := junk, tspace := None\<rparr>)\<rparr>"
  have n: "Thread_new junk s = Inr (?t, s1)" by (simp add: Thread_new_def l(1) s1_def forked_def Let_def)
  define s2 where "s2 = s1\<lparr>spaces := (spaces s)(sid \<mapsto> AddrSpace_new ?t js),
    threads := (threads s)(?t \<mapsto> (forked junk f sid s)\<lparr>frames := [], ParentPtr := None, userRegisters := junk\<rparr>)\<rparr>"
  have u: "upd_thread ?t (\<lambda>th. th\<lparr>tspace := Some sid\<rparr>) (s1\<lparr>spaces := (spaces s1)(sid \<mapsto> AddrSpace_new ?t js)\<rparr>) = Inr s2"
    by (simp add: s1_def s2_def upd_thread_def forked_def)
  have eq2: "vm_core s2 = vm_core (s\<lparr>spaces := (spaces s)(sid \<mapsto> AddrSpace_new ?t js)\<rparr>)"
    by (simp add: s1_def s2_def vm_core_def)
  have "vm_inv s2" unfolding vm_core_inv [OF eq2]
    using inv(1) new by (intro vm_inv_new_space) (simp_all add: sched_inv_def AddrSpace_new_def)
  moreover have vb: "vbyte s2 = vbyte s"
    unfolding vm_core_vbyte [OF eq2] by (rule vbyte_new_space [OF new]) (simp add: AddrSpace_new_def)
  moreover have "currentSpace s2 = Some par" "spaces s2 par = Some p" "spaces s2 sid = Some (AddrSpace_new ?t js)"
    "numPages (AddrSpace_new ?t js) = 0"
    using cur p par by (simp_all add: s1_def s2_def AddrSpace_new_def)
  ultimately obtain s3 where s3: "CopyFrom s2 sid = Inr s3" "vm_inv s3" "vm_frame s2 s3"
    "\<forall>ow v te'. ow \<noteq> sid \<longrightarrow> ent (spaces s3) ow v = Some te' \<longrightarrow>
      (\<exists>te. ent (spaces s2) ow v = Some te \<and> (physicalPage te < NumPhysPages \<longrightarrow> physicalPage te' < NumPhysPages))"
    "\<forall>w k. vbyte s3 sid w k = vbyte s par w k" "\<forall>ow w k. ow \<noteq> sid \<longrightarrow> vbyte s3 ow w k = vbyte s ow w k"
    using CopyFrom_step_ok [of s2 par p sid] par by metis
  have more: "vm.more s3 = vm.more s2" "currentThread s3 = ?c" "currentSpace s3 = Some par"
    using s3(3) cur by (simp_all add: vm_frame_def s1_def s2_def)
  note m = system_more [OF more(1)]
  let ?u = "s3\<lparr>threads := (threads s)(?t \<mapsto> forked junk f sid s, ?c \<mapsto> Add_Child th)\<rparr>"
  have th3: "threads s3 = (threads s)(?t \<mapsto> (forked junk f sid s)\<lparr>frames := [], ParentPtr := None, userRegisters := junk\<rparr>)"
    "registers s3 = registers s"
    by (simp_all add: m s2_def s1_def)
  have "Fork_child junk js sid s = Inr (?t, s3\<lparr>threads := (threads s)(?t \<mapsto> (forked junk f sid s)\<lparr>frames := []\<rparr>)\<rparr>)"
  proof -
    let ?s4 = "s3\<lparr>threads := (threads s)(?t \<mapsto> (forked junk f sid s)\<lparr>frames := [], userRegisters := junk\<rparr>)\<rparr>"
    have "upd_thread ?t (\<lambda>th. snd (Set_Parent_Ptr (currentThread s3) th)) s3 = Inr ?s4"
      by (simp add: upd_thread_def th3 Set_Parent_Ptr_def more(2)) (simp add: forked_def)
    moreover have "threads ?s4 ?t = Some ((forked junk f sid s)\<lparr>frames := [], userRegisters := junk\<rparr>)" by simp
    note Write_Reg_loop [OF this]
    ultimately show ?thesis
      unfolding Fork_child_def n bind_res_Inr prod.case u s3(1) by (simp add: th3(2)) (simp add: forked_def th3(2) cong: if_cong)
  qed
  then have "Fork_ready junk js f sid s = Inr (threadid s, ?t, ?u)"
    using th ne more(2) by (simp add: Fork_ready_def Fork_def upd_thread_def Get_Id_def get_thread_def)
      (simp add: forked_def fun_upd_twist)
  moreover have "all_inv ?u"
    unfolding all_inv_def
  proof (intro conjI)
    show "\<exists>ns. represents (allThreads ?u) ns \<and> distinct (map nt_thread ns) \<and> nt_thread ` set ns = dom (threads ?u)"
      using l(2) ns th lt by (intro exI [of _ "ns @ [\<lparr>nt_thread = ?t, nt_ID = threadid s\<rparr>]"])
        (auto simp: m s1_def s2_def)
    show "\<forall>t \<in> dom (threads ?u). t < nextThread ?u" using lt th by (auto simp: m s1_def s2_def dom_def less_SucI)
  qed
  moreover have "vm_inv ?u" "vbyte ?u = vbyte s3" using s3(2) vm_core_inv vm_core_vbyte by (metis vm_core_upd(1))+
  moreover have "ent (spaces s2) ow = ent (spaces s) ow" if "ow \<noteq> sid" for ow
    using that by (simp add: s1_def s2_def ent_def fun_eq_iff)
  moreover have "spaces s3 ow = None \<longleftrightarrow> ow \<noteq> sid \<and> spaces s ow = None" for ow
    using s3(3) by (simp add: vm_frame_def s1_def s2_def)
  ultimately show ?thesis using s3(4-6) more cur by (intro exI [of _ ?u]) (simp add: m s1_def s2_def)
qed

lemma Fork_inv:
  fixes s u :: "'h system"
  assumes inv: "sched_inv s" "running s" and th: "threads s (currentThread s) = Some th" and new: "spaces s sid = None"
    and u: "vm_inv u" "all_inv u" "threads u = (threads s)(nextThread s \<mapsto> forked junk f sid s, currentThread s \<mapsto> Add_Child th)"
      "currentThread u = currentThread s" "currentSpace u = currentSpace s" "readyList u = readyList s"
      "threadToBeDestroyed u = threadToBeDestroyed s" "\<forall>ow. spaces u ow = None \<longleftrightarrow> ow \<noteq> sid \<and> spaces s ow = None"
      "\<forall>ow v te'. ow \<noteq> sid \<longrightarrow> ent (spaces u) ow v = Some te' \<longrightarrow>
      (\<exists>te. ent (spaces s) ow v = Some te \<and> (physicalPage te < NumPhysPages \<longrightarrow> physicalPage te' < NumPhysPages))"
  shows "sched_inv u" "\<And>xs. ready_inv s xs \<Longrightarrow> ready_inv u xs"
proof -
  let ?t = "nextThread s" and ?c = "currentThread s"
  have fresh: "threads s ?t = None" and ne: "?t \<noteq> ?c"
    using inv(1) th by (fastforce simp: sched_inv_def all_inv_def)+
  have ready: "ready_inv u xs" if "ready_inv s xs" for xs
  proof -
    have "prio u t = prio s t" if "t \<noteq> ?t" for t using that th by (auto simp: prio_def u(3) Add_Child_def)
    moreover have "?t \<notin> set xs" using that fresh by (auto simp: ready_inv_def)
    ultimately have pr: "map (prio u) xs = map (prio s) xs" by (intro map_cong refl) metis
    have "{t. \<exists>uh. threads u t = Some uh \<and> tstatus uh = READY} = {t. \<exists>th. threads s t = Some th \<and> tstatus th = READY}"
      using fresh th ne by (auto simp: u(3) forked_def Add_Child_def)
    with that pr show ?thesis unfolding ready_inv_def u(6) by argo
  qed
  then show "\<And>xs. ready_inv s xs \<Longrightarrow> ready_inv u xs" .
  have si: "space_inv s" using inv(1) by (simp add: sched_inv_def)
  have sp: "(if t = ?t then tspace uh = Some sid else \<exists>h. threads s t = Some h \<and> tspace h = tspace uh)" if "threads u t = Some uh" for t uh
    using that th ne by (auto simp: u(3) forked_def Add_Child_def split: if_splits)
  have old_sid: "tspace h \<noteq> Some sid" if "threads s t = Some h" for t h
    using si that new unfolding space_inv_def by blast
  have "space_inv u"
    unfolding space_inv_def
  proof (intro conjI allI impI)
    show "spaces u sd \<noteq> None" if "threads u t = Some uh" "tspace uh = Some sd" for t uh sd
      using sp [OF that(1)] that(2) si unfolding space_inv_def u(8) [rule_format] by (metis option.inject)
    show "t = w" if "threads u t = Some uh" "tspace uh = Some sd" "threads u w = Some wh" "tspace wh = Some sd" for t w uh wh sd
      using sp [OF that(1)] sp [OF that(3)] that(2,4) old_sid si unfolding space_inv_def by (metis option.inject)
    show "map_option tspace (threads u (currentThread u)) = Some (currentSpace u)"
      using si th unfolding space_inv_def by (simp add: u Add_Child_def)
  qed
  moreover have "zombie_inv u"
    unfolding zombie_inv_def
  proof (intro allI impI)
    fix z assume "threadToBeDestroyed u = Some z"
    with inv(1) obtain h where h: "threads s z = Some h" "deletable s h" unfolding sched_inv_def zombie_inv_def u(7) by blast
    with fresh have "z \<noteq> ?t" by auto
    moreover have "z \<noteq> ?c" using h inv(2) th by (auto simp: running_def deletable_def)
    ultimately have "threads u z = Some h" using h by (simp add: u(3))
    moreover have "deletable u h" using h old_sid [OF h(1)] u(9) unfolding deletable_def by metis
    ultimately show "\<exists>uh. threads u z = Some uh \<and> deletable u uh" by blast
  qed
  moreover have "t = currentThread u" if "threads u t = Some uh" "tstatus uh = RUNNING" for t uh
    using that inv(1) by (auto simp: u(3,4) forked_def sched_inv_def split: if_splits)
  ultimately show "sched_inv u" using ready u(1,2) inv(1) unfolding sched_inv_def by blast
qed

lemma System_Fork_ok:
  fixes s :: "'h system"
  assumes inv: "sched_inv s" "running s" and cur: "currentSpace s = Some par" and new: "spaces s sid = None"
    and th: "threads s (currentThread s) = Some th"
  shows "\<exists>u. System_Fork tick junk js f sid s =
      bind_res (SetLevel tick (level s) u) (\<lambda>(_, w). continue (currentThread s) (\<lambda>w. Inr (Some (threadid s), w)) w) \<and>
    sched_inv u \<and> running u \<and> currentThread u = currentThread s \<and> threadid u = threadid s + 1 \<and>
    threads u = (threads s)(nextThread s \<mapsto> (forked junk f sid s)\<lparr>tstatus := READY\<rparr>, currentThread s \<mapsto> Add_Child th) \<and>
    (\<forall>w k. vbyte u sid w k = vbyte s par w k) \<and> (\<forall>ow w k. ow \<noteq> sid \<longrightarrow> vbyte u ow w k = vbyte s ow w k)"
proof -
  let ?t = "nextThread s" and ?c = "currentThread s"
  from Fork_ready_ok [OF assms, of junk js f] obtain v where
    v: "Fork_ready junk js f sid s = Inr (threadid s, ?t, v)" "vm_inv v" "all_inv v"
      "threads v = (threads s)(?t \<mapsto> forked junk f sid s, ?c \<mapsto> Add_Child th)" "currentThread v = ?c" "currentSpace v = currentSpace s"
      "level v = level s" "readyList v = readyList s" "threadToBeDestroyed v = threadToBeDestroyed s"
      "\<forall>ow. spaces v ow = None \<longleftrightarrow> ow \<noteq> sid \<and> spaces s ow = None"
      "\<forall>ow x te'. ow \<noteq> sid \<longrightarrow> ent (spaces v) ow x = Some te' \<longrightarrow>
        (\<exists>te. ent (spaces s) ow x = Some te \<and> (physicalPage te < NumPhysPages \<longrightarrow> physicalPage te' < NumPhysPages))"
      "threadid v = threadid s + 1"
    and mem: "\<forall>w k. vbyte v sid w k = vbyte s par w k" "\<forall>ow w k. ow \<noteq> sid \<longrightarrow> vbyte v ow w k = vbyte s ow w k"
    by blast
  have iv: "sched_inv v" by (rule Fork_inv [OF inv th new v(2-6,8-11)])
  have ne: "?t \<noteq> ?c" using inv(1) th by (fastforce simp: sched_inv_def all_inv_def)
  have core: "sched_core (v\<lparr>level := IntOff\<rparr>) = sched_core v" by simp
  have "running v" using inv(2) th by (simp add: running_def v(4,5) Add_Child_def)
  then have off: "sched_inv (v\<lparr>level := IntOff\<rparr>)" "running (v\<lparr>level := IntOff\<rparr>)"
    using sched_core_inv [OF core [symmetric] iv] sched_core_running [OF core [symmetric]] by blast+
  have ch: "threads (v\<lparr>level := IntOff\<rparr>) ?t = Some (forked junk f sid s)" using ne by (simp add: v(4))
  from made_ready_inv [OF off ch] obtain l where
    l: "ReadyToRun ?t (v\<lparr>level := IntOff\<rparr>) = Inr (made_ready ?t (forked junk f sid s) l (v\<lparr>level := IntOff\<rparr>))"
      "sched_inv (made_ready ?t (forked junk f sid s) l (v\<lparr>level := IntOff\<rparr>))"
      "running (made_ready ?t (forked junk f sid s) l (v\<lparr>level := IntOff\<rparr>))" by (auto simp: forked_def)
  let ?u = "made_ready ?t (forked junk f sid s) l (v\<lparr>level := IntOff\<rparr>)"
  have "System_Fork tick junk js f sid s = bind_res (SetLevel tick (level s) ?u) (\<lambda>(_, w). continue ?c (\<lambda>w. Inr (Some (threadid s), w)) w)"
    by (simp add: System_Fork_def v(1,7) l(1))
  moreover have "vbyte ?u = vbyte v" by (rule vm_core_vbyte) (simp add: made_ready_def)
  moreover have "threads ?u = (threads s)(?t \<mapsto> (forked junk f sid s)\<lparr>tstatus := READY\<rparr>, ?c \<mapsto> Add_Child th)"
    using ne by (simp add: made_ready_def v(4) fun_upd_twist)
  ultimately show ?thesis using l(2,3) mem v(5,12) by (intro exI [of _ ?u]) (simp add: made_ready_def)
qed

section \<open>Wait\<close>

text \<open>
  The child that is collected: a zombie is destroyed, one that is still on its way to \<open>Sleep\<close> is told to
  finish by itself.
\<close>

definition dismissed :: "'h Thread \<Rightarrow> 'h Thread option" where
  "dismissed ch = (if tstatus ch = ZOMBIE then None else Some (ch\<lparr>thread_exit_status := True, exitval := - exitval ch\<rparr>))"

lemma sched_thread_upd:
  assumes "sched_inv s" "running s" "threads s t = Some th" "view th' = view th"
  shows "sched_inv (s\<lparr>threads := (threads s)(t \<mapsto> th')\<rparr>)" "running (s\<lparr>threads := (threads s)(t \<mapsto> th')\<rparr>)"
  using sched_core_thread [OF assms(3,4)] assms(1,2) sched_core_inv sched_core_running by metis+

lemma vbyte_threads [simp]: "vbyte (s\<lparr>threads := a\<rparr>) = vbyte (s :: 'h system)"
  by (rule vm_core_vbyte) simp

lemma umem_threads [simp]: "umem (s\<lparr>threads := a\<rparr>) = umem (s :: 'h system)"
  by (intro ext) (simp add: umem_def)

lemma Wait_collect_ok:
  fixes s :: "'h system"
  assumes inv: "sched_inv s" "running s" "threadToBeDestroyed s = None" and cur: "currentSpace s = Some sid" and bp: "breakpoints s = []"
    and th: "threads s (currentThread s) = Some th" "represents (ChildList th) (c # cs)" "1 \<le> Children th"
    and ch: "threads s c = Some ch" "c \<noteq> currentThread s" "tstatus ch = ZOMBIE \<Longrightarrow> deletable s ch"
    and e: "addr \<noteq> 0" "ent (spaces s) sid (unat addr div PageSize) = Some te" "valid te" "\<not> misaligned addr 4"
    and dup: "cow te \<Longrightarrow> frame_ready s (int (physicalPage te)) \<and> swap_room s"
  shows "\<exists>u l. Wait_collect (ExceptionHandler sc) junk addr s = Inr (Some (ThreadID ch), u) \<and> sched_inv u \<and> running u \<and>
    currentThread u = currentThread s \<and>
    threads u = ((threads s)(currentThread s \<mapsto> th\<lparr>ChildList := l, Children := Children th - 1\<rparr>))(c := dismissed ch) \<and>
    represents l cs \<and>
    (\<forall>t h ow a. threads u t = Some h \<longrightarrow> tspace h = Some ow \<longrightarrow>
      umem u ow a = stored (umem s) sid (unat addr) 4 (exitval ch) ow a) \<and>
    (if tstatus ch = ZOMBIE
     then (\<forall>ow. tspace ch = Some ow \<longrightarrow> spaces u ow = None) \<and>
       closedFiles u = closedFiles s @ concat (map fd_files (take MAX_FD (FDTable ch)))
     else closedFiles u = closedFiles s)"
proof -
  let ?c = "currentThread s"
  have ne: "c \<noteq> ?c" by (rule ch(2))
  from Remove_ok [OF th(2)] obtain l where l: "Remove (ChildList th) = Inr (Some c, l)" "represents l cs" by auto
  let ?s1 = "s\<lparr>threads := (threads s)(?c \<mapsto> th\<lparr>ChildList := l\<rparr>)\<rparr>"
  have i1: "sched_inv ?s1" "running ?s1" by (rule sched_thread_upd [OF inv(1,2) th(1)], simp add: view_def)+
  then have v1: "vm_inv ?s1" by (simp add: sched_inv_def)
  have "frame_ready ?s1 (int (physicalPage te)) = frame_ready s (int (physicalPage te))" "swap_room ?s1 = swap_room s"
    by (simp_all add: frame_ready_def victim_ready_def swap_room_def)
  with WriteMem_resident [OF v1, of sid addr te 4 "ExceptionHandler sc" "exitval ch"] cur e bp dup obtain s2 where
    s2: "WriteMem (ExceptionHandler sc) addr 4 (exitval ch) ?s1 = Inr (True, s2)" "vm_inv s2"
      "umem s2 = stored (umem s) sid (unat addr) 4 (exitval ch)" by (auto simp: access_size_def)
  have st: "sys_step ?s1 s2" by (rule WriteMem_step [OF v1 _ s2(1)]) (simp add: bp)
  note eq = sys_step_system [OF st]
  have i2: "sched_inv s2" "running s2" using sys_step_sched [OF st i1(1) s2(2)] i1(2) by blast+
  let ?th3 = "th\<lparr>ChildList := l, Children := Children th - 1\<rparr>"
  let ?s3 = "s2\<lparr>threads := (threads s2)(?c \<mapsto> ?th3)\<rparr>"
  have t2: "threads s2 ?c = Some (th\<lparr>ChildList := l\<rparr>)" "threads s2 c = Some ch" using eq ch(1) ne by simp_all
  have i3: "sched_inv ?s3" "running ?s3" using sched_thread_upd [OF i2 t2(1), of ?th3] by (simp_all add: view_def)
  then obtain xs where xs: "ready_inv ?s3 xs" by (auto simp: sched_inv_def)
  have t3: "threads ?s3 c = Some ch" using ne t2(2) by simp
  let ?fin = "if tstatus ch = ZOMBIE then Thread_delete c ?s3
    else upd_thread c (\<lambda>h. Set_Exit_Val (- exitval ch) (h\<lparr>thread_exit_status := True\<rparr>)) ?s3"
  have "\<exists>u. ?fin = Inr u \<and> sched_inv u \<and> running u \<and> currentThread u = ?c \<and> threads u = (threads ?s3)(c := dismissed ch) \<and>
    keeps_memory ?s3 u \<and> (if tstatus ch = ZOMBIE
     then (\<forall>ow. tspace ch = Some ow \<longrightarrow> spaces u ow = None) \<and>
       closedFiles u = closedFiles s @ concat (map fd_files (take MAX_FD (FDTable ch)))
     else closedFiles u = closedFiles s)"
  proof (cases "tstatus ch = ZOMBIE")
    case True
    have "deletable s2 ch" using sys_step_deletable [OF st] ch(3) [OF True] by (simp add: deletable_def)
    then have "deletable ?s3 ch" by (simp add: deletable_def)
    from delete_sched [OF i3 xs t3 this] obtain v u where
      u: "Thread_delete c ?s3 = Inr v" "threadToBeDestroyed v = threadToBeDestroyed ?s3" "u = v\<lparr>threadToBeDestroyed := None\<rparr>"
        "sched_inv u" "running u" "currentThread u = currentThread ?s3" "threads u = (threads ?s3)(c := None)"
        "keeps_memory ?s3 u" "\<forall>sid. tspace ch = Some sid \<longrightarrow> spaces u sid = None"
        "closedFiles u = closedFiles ?s3 @ concat (map fd_files (take MAX_FD (FDTable ch)))" by blast
    have "v = u" using u(2,3) eq(5) inv(3) by (cases v) simp
    then have d: "Thread_delete c ?s3 = Inr u" using u(1) by simp
    have e3: "currentThread ?s3 = ?c" "closedFiles ?s3 = closedFiles s" using eq(7,12) by simp_all
    show ?thesis
      unfolding True dismissed_def if_P [OF refl]
      using d u(4,5,8,9) u(6) [unfolded e3(1)] u(7) u(10) [unfolded e3(2)] by blast
  next
    case False
    let ?ch = "ch\<lparr>thread_exit_status := True, exitval := - exitval ch\<rparr>"
    let ?u = "?s3\<lparr>threads := (threads ?s3)(c \<mapsto> ?ch)\<rparr>"
    have "sched_inv ?u" "running ?u" by (rule sched_thread_upd [OF i3 t3], simp add: view_def)+
    moreover have "?fin = Inr ?u" using False t3 by (simp only: upd_thread_ok if_False Set_Exit_Val_def)
    moreover have "keeps_memory ?s3 ?u" by (simp add: keeps_memory_def)
    ultimately show ?thesis using False eq(7,12) by (intro exI [of _ ?u]) (simp add: dismissed_def)
  qed
  then obtain u where u: "?fin = Inr u" "sched_inv u" "running u" "currentThread u = ?c" "threads u = (threads ?s3)(c := dismissed ch)"
    "keeps_memory ?s3 u" "if tstatus ch = ZOMBIE
     then (\<forall>ow. tspace ch = Some ow \<longrightarrow> spaces u ow = None) \<and>
       closedFiles u = closedFiles s @ concat (map fd_files (take MAX_FD (FDTable ch)))
     else closedFiles u = closedFiles s" by blast
  have "Wait_collect (ExceptionHandler sc) junk addr s = Inr (Some (ThreadID ch), u)"
  proof -
    have "UnQueue_Child th = Inr (Some c, th\<lparr>ChildList := l\<rparr>)" by (simp add: UnQueue_Child_def l(1))
    moreover have "WriteMem_retry (ExceptionHandler sc) addr 4 (exitval ch) ?s1 = Inr (True, s2)" by (simp add: WriteMem_retry_def s2(1))
    moreover have "Remove_Child (th\<lparr>ChildList := l\<rparr>) = Inr ?th3" using th(3) by (simp add: Remove_Child_def)
    moreover have "upd_thread ?c (\<lambda>_. ?th3) s2 = Inr ?s3" using t2(1) by simp
    moreover have "threads ?s1 c = Some ch" using ch(1) ne by simp
    ultimately show ?thesis
      using th(1) e(1) t2 t3 u(1)
      by (simp only: Wait_collect_def Let_def get_thread_ok upd_thread_ok bind_res_Inr prod.case assert_res_True
        deref_res_Some Get_Exit_Val_def Get_Id_def getStatus_def if_True if_False option.distinct simp_thms)
  qed
  moreover have "umem u ow a = stored (umem s) sid (unat addr) 4 (exitval ch) ow a"
    if "threads u t = Some h" "tspace h = Some ow" for t h ow a
    using u(6) that s2(3) by (simp add: keeps_memory_def umem_def fun_eq_iff)
  moreover have "threads u = ((threads s)(?c \<mapsto> ?th3))(c := dismissed ch)" using u(5) eq(1) by simp
  ultimately show ?thesis using u(2-4,7) l(2) by (intro exI [of _ u] exI [of _ l]) simp
qed

section \<open>Exit\<close>

lemma sched_sem_upd:
  assumes inv: "sched_inv s" "running s" and th: "threads s t = Some th" and q: "represents (sem_queue sem) []"
  shows "sched_inv (s\<lparr>threads := (threads s)(t \<mapsto> th\<lparr>ChildExited := sem\<rparr>)\<rparr>)" (is "sched_inv ?u")
    and "running (s\<lparr>threads := (threads s)(t \<mapsto> th\<lparr>ChildExited := sem\<rparr>)\<rparr>)"
proof -
  have pr: "prio ?u = prio s" using th by (auto simp: prio_def fun_eq_iff)
  have prev: "\<exists>vh. threads s w = Some vh \<and> tspace vh = tspace wh \<and> tstatus vh = tstatus wh" if "threads ?u w = Some wh" for w wh
    using that th by (auto split: if_splits)
  have rd: "{t. \<exists>h. threads ?u t = Some h \<and> tstatus h = READY} = {t. \<exists>h. threads s t = Some h \<and> tstatus h = READY}"
    using th by (auto split: if_splits)
  have "ready_inv ?u xs" if "ready_inv s xs" for xs using that unfolding ready_inv_def pr rd by simp
  then have "\<exists>xs. ready_inv ?u xs" using inv(1) unfolding sched_inv_def by blast
  moreover have "all_inv ?u" by (rule all_inv_upd [OF sched_all [OF inv(1)] th]) simp_all
  moreover have "space_inv ?u"
    unfolding space_inv_def
  proof (intro conjI allI impI)
    have si: "space_inv s" using inv(1) by (simp add: sched_inv_def)
    show "spaces ?u sid \<noteq> None" if "threads ?u w = Some wh" "tspace wh = Some sid" for w wh sid
      using prev [OF that(1)] that(2) si unfolding space_inv_def by auto
    show "w = v" if "threads ?u w = Some wh" "tspace wh = Some sid" "threads ?u v = Some vh" "tspace vh = Some sid" for w v wh vh sid
      using prev [OF that(1)] prev [OF that(3)] that si unfolding space_inv_def by metis
    show "map_option tspace (threads ?u (currentThread ?u)) = Some (currentSpace ?u)"
      using si th by (auto simp: space_inv_def)
  qed
  moreover have "zombie_inv ?u"
    unfolding zombie_inv_def
  proof (intro allI impI)
    fix z assume "threadToBeDestroyed ?u = Some z"
    with inv(1) obtain zh where "threads s z = Some zh" "deletable s zh" by (auto simp: sched_inv_def zombie_inv_def)
    with th q show "\<exists>zh. threads ?u z = Some zh \<and> deletable ?u zh" by (cases "z = t") (auto simp: deletable_def)
  qed
  moreover have "vm_inv ?u" using inv(1) vm_core_inv [of ?u s "{}"] by (simp add: sched_inv_def)
  moreover have "w = currentThread ?u" if "threads ?u w = Some wh" "tstatus wh = RUNNING" for w wh
    using prev [OF that(1)] that(2) inv(1) by (auto simp: sched_inv_def)
  ultimately show "sched_inv ?u" unfolding sched_inv_def by blast
  show "running ?u" using inv(2) th by (auto simp: running_def)
qed

lemma sched_level: "sched_inv s \<Longrightarrow> running s \<Longrightarrow> sched_inv (s\<lparr>level := a\<rparr>) \<and> running (s\<lparr>level := a\<rparr>)"
  using sched_core_inv [of s "s\<lparr>level := a\<rparr>"] sched_core_running [of s "s\<lparr>level := a\<rparr>"] by simp

text \<open>\<open>V\<close> on the semaphore of a thread that nobody waits on, or only its owner.\<close>

lemma V_body_child:
  fixes s :: "'h system"
  assumes inv: "sched_inv s" "running s" and p: "threads s parent = Some ph"
    and q: "represents (sem_queue (ChildExited ph)) q" "q = [] \<or> q = [parent] \<and> tstatus ph = BLOCKED"
  shows "\<exists>sem u. V_body ReadyToRun (ChildExited ph) s = Inr (sem, u) \<and> sched_inv u \<and> running u \<and>
    sem_value sem = sem_value (ChildExited ph) + 1 \<and> represents (sem_queue sem) [] \<and>
    threads u = (threads s)(parent \<mapsto> ph\<lparr>tstatus := if q = [] then tstatus ph else READY\<rparr>) \<and> vm_core u = vm_core s \<and>
    currentThread u = currentThread s \<and> level u = level s"
proof (cases "q = []")
  case True
  from Remove_ok [OF q(1)] True obtain l where "Remove (sem_queue (ChildExited ph)) = Inr (None, l)" "represents l []" by auto
  moreover have "(threads s)(parent \<mapsto> ph) = threads s" using p by auto
  ultimately show ?thesis using inv True by (simp add: V_body_def)
next
  case False
  with q have qp: "q = [parent]" "tstatus ph = BLOCKED" by auto
  from Remove_ok [OF q(1)] qp(1) obtain l where l: "Remove (sem_queue (ChildExited ph)) = Inr (Some parent, l)" "represents l []" by auto
  from made_ready_inv [OF inv p] qp(2) obtain r where "ReadyToRun parent s = Inr (made_ready parent ph r s)"
    "sched_inv (made_ready parent ph r s)" "running (made_ready parent ph r s)" by auto
  moreover have "vm_core (made_ready parent ph r s) = vm_core s" by (simp add: made_ready_def)
  ultimately show ?thesis using l False by (simp add: V_body_def made_ready_def)
qed

lemma Exit_signal_ok:
  fixes s :: "'h system"
  assumes inv: "sched_inv s" "running s" and th: "threads s (currentThread s) = Some th"
    and p: "threads s parent = Some ph" "parent \<noteq> currentThread s" and cs: "represents (ChildList ph) cs"
    and q: "represents (sem_queue (ChildExited ph)) q" "q = [] \<or> q = [parent] \<and> tstatus ph = BLOCKED"
  shows "\<exists>u ph'. Exit_signal tick v parent s = bind_res (SetLevel tick (level s) u) (\<lambda>(_, w). Inr w) \<and>
    sched_inv u \<and> running u \<and> currentThread u = currentThread s \<and> vm_core u = vm_core s \<and>
    threads u = (threads s)(currentThread s \<mapsto> th\<lparr>thread_exit_status := False, exitval := v\<rparr>, parent \<mapsto> ph') \<and>
    represents (ChildList ph') (cs @ [currentThread s]) \<and> tstatus ph' = (if q = [] then tstatus ph else READY) \<and>
    sem_value (ChildExited ph') = sem_value (ChildExited ph) + 1 \<and> represents (sem_queue (ChildExited ph')) []"
proof -
  let ?c = "currentThread s" and ?th = "th\<lparr>thread_exit_status := False, exitval := v\<rparr>"
  from Append_ok [OF cs, of ?c] obtain l where l: "Append ?c (ChildList ph) = Inr l" "represents l (cs @ [?c])" by blast
  let ?s1 = "s\<lparr>threads := (threads s)(?c \<mapsto> ?th)\<rparr>"
  let ?ph = "ph\<lparr>ChildList := l\<rparr>"
  let ?s2 = "s\<lparr>threads := (threads s)(?c \<mapsto> ?th, parent \<mapsto> ?ph)\<rparr>"
  have i1: "sched_inv ?s1" "running ?s1" by (rule sched_thread_upd [OF inv th], simp add: view_def)+
  have p1: "threads ?s1 parent = Some ph" using p by simp
  have i2: "sched_inv ?s2" "running ?s2" using sched_thread_upd [OF i1 p1, of ?ph] by (simp_all add: view_def)
  let ?s3 = "?s2\<lparr>level := IntOff\<rparr>"
  have i3: "sched_inv ?s3" "running ?s3" using sched_level [OF i2] by blast+
  have p3: "threads ?s3 parent = Some ?ph" by simp
  from V_body_child [OF i3 p3, of q] q obtain sem w where
    w: "V_body ReadyToRun (ChildExited ?ph) ?s3 = Inr (sem, w)" "sched_inv w" "running w"
      "sem_value sem = sem_value (ChildExited ph) + 1" "represents (sem_queue sem) []"
      "threads w = (threads ?s3)(parent \<mapsto> ?ph\<lparr>tstatus := if q = [] then tstatus ph else READY\<rparr>)" "vm_core w = vm_core ?s3"
      "currentThread w = currentThread ?s3" by auto
  let ?ph2 = "?ph\<lparr>tstatus := if q = [] then tstatus ph else READY\<rparr>"
  let ?ph3 = "?ph2\<lparr>ChildExited := sem\<rparr>"
  let ?u = "w\<lparr>threads := (threads w)(parent \<mapsto> ?ph3)\<rparr>"
  have p4: "threads w parent = Some ?ph2" by (simp add: w(6))
  note i4 = sched_sem_upd [OF w(2,3) p4 w(5)]
  have "Exit_signal tick v parent s = ChildExited_V tick parent ?s2"
    using th p l(1) by (simp add: Exit_signal_def Let_def upd_thread_def Queue_Child_def Set_Exit_Val_def get_thread_def)
  also have "\<dots> = bind_res (SetLevel tick (level s) ?u) (\<lambda>(_, w). Inr w)"
    using w(1) p4 by (simp add: ChildExited_V_def)
  finally have run: "Exit_signal tick v parent s = bind_res (SetLevel tick (level s) ?u) (\<lambda>(_, w). Inr w)" .
  have "threads ?u = (threads s)(?c \<mapsto> ?th, parent \<mapsto> ?ph3)" by (simp add: w(6))
  moreover have "vm_core ?u = vm_core s" using w(7) by simp
  moreover have "currentThread ?u = ?c" using w(8) by simp
  ultimately show ?thesis using run i4 w(4,5) l(2) by (intro exI [of _ ?u] exI [of _ ?ph3]) simp
qed

end
