(* ===== verification/User_Copy.thy ===== *)
theory User_Copy
  imports SystemCalls VM_Frame
begin

text \<open>
  The kernel's copies from and to user memory: on resident pages \<open>copy_from_user\<close> finds the string the
  process has there, \<open>read_bytes\<close> the bytes of a buffer, and \<open>write_bytes\<close> changes exactly the buffer.
\<close>

section \<open>Reading\<close>

definition resident :: "'a vm_scheme \<Rightarrow> nat \<Rightarrow> nat \<Rightarrow> bool" where
  "resident s sid a \<longleftrightarrow> (\<exists>te. ent (spaces s) sid (a div PageSize) = Some te \<and> valid te)"

lemma resident_same_core:
  assumes "same_core (spaces s) (spaces t)" "resident s sid a"
  shows "resident t sid a"
proof -
  from assms(2) obtain te where te: "ent (spaces s) sid (a div PageSize) = Some te" "valid te" by (auto simp: resident_def)
  from same_core_ent [OF same_core_sym [OF assms(1)] te(1)] obtain te' where "ent (spaces t) sid (a div PageSize) = Some te'" "core te = core te'"
    by metis
  with te(2) core_fields(1) [of te te'] show ?thesis by (auto simp: resident_def)
qed

text \<open>What stays while the kernel reads.\<close>

definition reads :: "'a machine_scheme \<Rightarrow> 'a machine_scheme \<Rightarrow> bool" where
  "reads s t \<longleftrightarrow> sys_step s t \<and> vm_inv t \<and> same_memory s t \<and> same_core (spaces s) (spaces t)"

lemma reads_refl: "vm_inv s \<Longrightarrow> reads s s"
  by (simp add: reads_def)

lemma reads_trans: "reads s t \<Longrightarrow> reads t u \<Longrightarrow> reads s u"
  unfolding reads_def by (meson sys_step_trans same_memory_trans same_core_trans)

lemma ucast_low_byte: "ucast (store_low (Suc 0) 0 (ucast (b :: byte))) = b"
  by (rule bit_word_eqI) (auto simp: store_low_def bit_simps)

lemma ReadMem_retry_byte:
  assumes "vm_inv s" "currentSpace s = Some sid" "breakpoints s = []" "resident s sid (unat addr)"
  shows "\<exists>v t. ReadMem_retry (ExceptionHandler sc) addr 1 s = Inr (Some v, t) \<and> ucast v = the (umem s sid (unat addr)) \<and> reads s t"
proof -
  from assms(4) obtain te where te: "ent (spaces s) sid (unat addr div PageSize) = Some te" "valid te" by (auto simp: resident_def)
  have "\<not> misaligned addr 1" "access_size 1" by (simp_all add: misaligned_def access_size_def)
  from ReadMem_resident [OF assms(1,2) te this assms(3), of "ExceptionHandler sc" 0] obtain t where
    t: "ReadMem (ExceptionHandler sc) addr 1 0 s = Inr (True, store_low 1 0 (le_read (\<lambda>a. the (umem s sid a)) (unat addr) 1), t)"
      "vm_inv t" "same_memory s t" "same_core (spaces s) (spaces t)" by blast
  have "sys_step s t" by (rule ReadMem_step [OF assms(1,3) t(1)])
  with t show ?thesis by (simp add: ReadMem_retry_def reads_def ucast_low_byte)
qed

lemma reads_keeps:
  assumes "reads s t"
  shows "vm_inv t" "umem t = umem s" "currentSpace t = currentSpace s" "breakpoints t = breakpoints s"
    "resident s sid a \<Longrightarrow> resident t sid a"
  using assms same_memory_umem resident_same_core by (auto simp: reads_def sys_step_def)

lemma unat_add_one: "unat (a :: uint32) + 1 < 2 ^ 32 \<Longrightarrow> unat (a + 1) = unat a + 1"
  by (simp add: unat_word_ariths(1))

lemma read_bytes_ok:
  assumes "vm_inv s" "currentSpace s = Some sid" "breakpoints s = []" "unat addr + n < 2 ^ 32"
    and "\<And>i. i < n \<Longrightarrow> resident s sid (unat addr + i)"
  shows "\<exists>t. read_bytes n (ExceptionHandler sc) addr s = Inr (map (\<lambda>i. the (umem s sid (unat addr + i))) [0..<n], t) \<and> reads s t"
  using assms
proof (induction n arbitrary: addr s)
  case 0
  then show ?case by (simp add: reads_refl)
next
  case (Suc n)
  from Suc.prems(5) [of 0] have "resident s sid (unat addr)" by simp
  from ReadMem_retry_byte [OF Suc.prems(1-3) this] obtain v s1 where
    s1: "ReadMem_retry (ExceptionHandler sc) addr 1 s = Inr (Some v, s1)" "ucast v = the (umem s sid (unat addr))" "reads s s1" by blast
  note k = reads_keeps [OF s1(3)]
  have a: "unat (addr + 1) = unat addr + 1" using Suc.prems(4) by (intro unat_add_one) simp
  have "resident s1 sid (unat (addr + 1) + i)" if "i < n" for i
    using k(5) Suc.prems(5) [of "Suc i"] that by (simp add: a)
  with Suc.IH [of s1 "addr + 1"] k Suc.prems obtain t where
    t: "read_bytes n (ExceptionHandler sc) (addr + 1) s1 = Inr (map (\<lambda>i. the (umem s1 sid (unat (addr + 1) + i))) [0..<n], t)" "reads s1 t"
    by (auto simp: a)
  have "map (\<lambda>i. the (umem s sid (unat addr + i))) [0..<Suc n] =
      the (umem s sid (unat addr)) # map (\<lambda>i. the (umem s sid (unat addr + 1 + i))) [0..<n]"
    by (simp add: upt_conv_Cons map_Suc_upt [symmetric] del: upt_Suc)
  with s1(1,2) t reads_trans [OF s1(3) t(2)] k(2) show ?case by (simp add: a)
qed

text \<open>A string in user memory, and the part of it that fits into a kernel buffer.\<close>

definition user_string :: "'a vm_scheme \<Rightarrow> nat \<Rightarrow> nat \<Rightarrow> byte list \<Rightarrow> bool" where
  "user_string s sid a str \<longleftrightarrow> 0 \<notin> set str \<and> a + length str < 2 ^ 32 \<and>
     (\<forall>i \<le> length str. resident s sid (a + i)) \<and>
     (\<forall>i \<le> length str. umem s sid (a + i) = Some ((str @ [0]) ! i))"

lemma user_string_Cons:
  assumes "user_string s sid a (b # str)"
  shows "user_string s sid (Suc a) str" "umem s sid a = Some b" "b \<noteq> 0" "resident s sid a"
  using assms spec [of "\<lambda>i. i \<le> length (b # str) \<longrightarrow> umem s sid (a + i) = Some ((b # str @ [0]) ! i)" 0]
  by (auto simp: user_string_def)

lemma user_string_reads: "reads s t \<Longrightarrow> user_string s sid a str \<Longrightarrow> user_string t sid a str"
  using reads_keeps(2,5) [of s t] by (simp add: user_string_def)

lemma copy_loop_ok:
  assumes "vm_inv s" "currentSpace s = Some sid" "breakpoints s = []" "user_string s sid (unat addr) str"
  shows "\<exists>t. copy_loop n (ExceptionHandler sc) addr s = Inr (take n (str @ [0]), t) \<and> reads s t"
  using assms
proof (induction n arbitrary: addr s str)
  case 0
  then show ?case by (simp add: reads_refl)
next
  case (Suc n)
  have "resident s sid (unat addr)" using Suc.prems(4) by (auto simp: user_string_def dest: spec [where x = 0])
  from ReadMem_retry_byte [OF Suc.prems(1-3) this] obtain v s1 where
    s1: "ReadMem_retry (ExceptionHandler sc) addr 1 s = Inr (Some v, s1)" "ucast v = the (umem s sid (unat addr))" "reads s s1" by blast
  note k = reads_keeps [OF s1(3)]
  show ?case
  proof (cases str)
    case Nil
    with Suc.prems(4) s1 show ?thesis by (simp add: user_string_def)
  next
    case (Cons b bs)
    note c = user_string_Cons [OF Suc.prems(4) [unfolded Cons]]
    have "unat addr + 1 < 2 ^ 32" using Suc.prems(4) by (simp add: user_string_def Cons)
    then have a: "unat (addr + 1) = Suc (unat addr)" using unat_add_one [of addr] by simp
    with Suc.IH [of s1 "addr + 1" bs] k Suc.prems user_string_reads [OF s1(3) c(1)] obtain t where
      t: "copy_loop n (ExceptionHandler sc) (addr + 1) s1 = Inr (take n (bs @ [0]), t)" "reads s1 t" by auto
    with s1(1,2) c(2,3) reads_trans [OF s1(3) t(2)] show ?thesis by (simp add: Cons)
  qed
qed

lemma copy_from_user_ok:
  assumes "vm_inv s" "currentSpace s = Some sid" "breakpoints s = []" "user_string s sid (unat addr) str"
  shows "\<exists>t. copy_from_user (ExceptionHandler sc) addr s = Inr (take MAXFILENAMELENGTH (str @ [0]), t) \<and> reads s t"
  unfolding copy_from_user_def by (rule copy_loop_ok [OF assms])

text \<open>The name the file system sees; a longer one is not terminated.\<close>

lemma c_name_copied:
  assumes "0 \<notin> set str"
  shows "c_name (take MAXFILENAMELENGTH (str @ [0])) = (if length str < MAXFILENAMELENGTH then Inr str else Inl IndexOutOfBounds)"
proof (cases "length str < MAXFILENAMELENGTH")
  case True
  have "takeWhile (\<lambda>b. b \<noteq> 0) (str @ [0]) = str" using assms by (subst takeWhile_append2) auto
  with True show ?thesis by (simp add: c_name_def)
next
  case False
  with assms show ?thesis by (auto simp: c_name_def dest: in_set_takeD)
qed

section \<open>Writing\<close>

text \<open>A page that is resident and private.\<close>

definition writable :: "'a vm_scheme \<Rightarrow> nat \<Rightarrow> nat \<Rightarrow> bool" where
  "writable s sid a \<longleftrightarrow> (\<exists>te. ent (spaces s) sid (a div PageSize) = Some te \<and> valid te \<and> \<not> cow te)"

text \<open>Memory after a list of bytes was stored.\<close>

definition stored_bytes :: "(nat \<Rightarrow> nat \<Rightarrow> byte option) \<Rightarrow> nat \<Rightarrow> nat \<Rightarrow> byte list \<Rightarrow> nat \<Rightarrow> nat \<Rightarrow> byte option" where
  "stored_bytes u sid a bs = (\<lambda>ow x. if ow = sid \<and> a \<le> x \<and> x < a + length bs then Some (bs ! (x - a)) else u ow x)"

lemma stored_bytes_Nil [simp]: "stored_bytes u sid a [] = u"
  by (auto simp: stored_bytes_def fun_eq_iff)

lemma stored_bytes_Cons:
  "stored_bytes (stored u sid a 1 (scast (b :: byte))) sid (Suc a) bs = stored_bytes u sid a (b # bs)"
proof (intro ext)
  fix ow x
  consider "x < a" | "x = a" | "Suc a \<le> x" by linarith
  then show "stored_bytes (stored u sid a 1 (scast b)) sid (Suc a) bs ow x = stored_bytes u sid a (b # bs) ow x"
    by cases (auto simp: stored_bytes_def stored_def nth_Cons' Suc_diff_Suc intro!: bit_word_eqI simp: bit_simps)
qed

lemma WriteMem_private:
  assumes inv: "vm_inv s" and cur: "currentSpace s = Some sid" and bp: "breakpoints s = []" and w: "writable s sid (unat addr)"
  shows "\<exists>t. WriteMem (ExceptionHandler sc) addr 1 v s = Inr (True, t) \<and> vm_inv t \<and> sys_step s t \<and>
    umem t = stored (umem s) sid (unat addr) 1 v \<and> (\<forall>a. writable s sid a \<longrightarrow> writable t sid a)"
proof -
  let ?v = "unat addr div PageSize"
  from w obtain te where te: "ent (spaces s) sid ?v = Some te" "valid te" "\<not> cow te" by (auto simp: writable_def)
  have al: "\<not> misaligned addr 1" "access_size 1" by (simp_all add: misaligned_def access_size_def)
  from WriteMem_resident [OF inv cur te(1,2) al bp, of "ExceptionHandler sc" v] te(3) obtain t where
    t: "WriteMem (ExceptionHandler sc) addr 1 v s = Inr (True, t)" "vm_inv t" "umem t = stored (umem s) sid (unat addr) 1 v" by blast
  have "Translate addr 1 True s = Inr (NoException, physicalPage te * PageSize + unat addr mod PageSize,
      s\<lparr>spaces := upd_spaces {sid} ?v (touch True) (spaces s)\<rparr>)"
    by (rule Translate_resident [OF inv cur te(1,2) al _ inv te(1,2)]) (simp add: te(3))
  with t(1) bp have "spaces t = upd_spaces {sid} ?v (touch True) (spaces s)"
    by (auto simp: WriteMem_def check_watchpoint_def queryBreakpoint_def)
  then have "writable s sid a \<longrightarrow> writable t sid a" for a by (auto simp: writable_def)
  with t WriteMem_step [OF inv bp t(1)] show ?thesis by blast
qed

lemma write_bytes_ok:
  assumes "vm_inv s" "currentSpace s = Some sid" "breakpoints s = []" "unat addr + length bs < 2 ^ 32"
    and "\<And>i. i < length bs \<Longrightarrow> writable s sid (unat addr + i)"
  shows "\<exists>t. write_bytes bs (ExceptionHandler sc) addr s = Inr (length bs, t) \<and> vm_inv t \<and> sys_step s t \<and>
    umem t = stored_bytes (umem s) sid (unat addr) bs"
  using assms
proof (induction bs arbitrary: addr s)
  case Nil
  then show ?case by simp
next
  case (Cons b bs)
  from Cons.prems(5) [of 0] have "writable s sid (unat addr)" by simp
  from WriteMem_private [OF Cons.prems(1-3) this] obtain s1 where
    s1: "WriteMem (ExceptionHandler sc) addr 1 (scast b) s = Inr (True, s1)" "vm_inv s1" "sys_step s s1"
      "umem s1 = stored (umem s) sid (unat addr) 1 (scast b)" "\<And>a. writable s sid a \<Longrightarrow> writable s1 sid a" by blast
  have a: "unat (addr + 1) = Suc (unat addr)" using unat_add_one [of addr] Cons.prems(4) by simp
  have "writable s1 sid (unat (addr + 1) + i)" if "i < length bs" for i
    using s1(5) Cons.prems(5) [of "Suc i"] that by (simp add: a)
  moreover have "currentSpace s1 = Some sid" "breakpoints s1 = []" using s1(3) Cons.prems(2,3) by (simp_all add: sys_step_def)
  ultimately obtain t where
    t: "write_bytes bs (ExceptionHandler sc) (addr + 1) s1 = Inr (length bs, t)" "vm_inv t" "sys_step s1 t"
      "umem t = stored_bytes (umem s1) sid (unat (addr + 1)) bs"
    using Cons.IH [of s1 "addr + 1"] s1(2) Cons.prems(4) by (auto simp: a)
  with s1(1,4) sys_step_trans [OF s1(3) t(3)] show ?case
    by (simp add: WriteMem_retry_def a stored_bytes_Cons [unfolded One_nat_def])
qed

text \<open>Within one page the first byte may have to copy it.\<close>

lemma write_bytes_page:
  assumes inv: "vm_inv s" and cur: "currentSpace s = Some sid" and bp: "breakpoints s = []"
    and page: "unat addr mod PageSize + length bs \<le> PageSize" "unat addr + length bs < 2 ^ 32"
    and te: "ent (spaces s) sid (unat addr div PageSize) = Some te" "valid te"
    and dup: "cow te \<Longrightarrow> frame_ready s (int (physicalPage te)) \<and> swap_room s"
  shows "\<exists>t. write_bytes bs (ExceptionHandler sc) addr s = Inr (length bs, t) \<and> vm_inv t \<and> sys_step s t \<and>
    umem t = stored_bytes (umem s) sid (unat addr) bs"
proof (cases bs)
  case Nil
  with inv show ?thesis by simp
next
  case (Cons b rest)
  have al: "\<not> misaligned addr 1" "access_size 1" by (simp_all add: misaligned_def access_size_def)
  from WriteMem_resident [OF inv cur te al bp dup, of "ExceptionHandler sc" "scast b"] obtain s1 te1 where
    s1: "WriteMem (ExceptionHandler sc) addr 1 (scast b) s = Inr (True, s1)" "vm_inv s1"
      "umem s1 = stored (umem s) sid (unat addr) 1 (scast b)" "currentSpace s1 = Some sid" "breakpoints s1 = []"
    and te1: "ent (spaces s1) sid (unat addr div PageSize) = Some te1" "valid te1" "\<not> cow te1" by blast
  have st: "sys_step s s1" by (rule WriteMem_step [OF inv bp s1(1)])
  have a: "unat (addr + 1) = Suc (unat addr)" using unat_add_one [of addr] page(2) Cons by simp
  have "writable s1 sid (unat (addr + 1) + i)" if "i < length rest" for i
  proof -
    have "unat addr mod PageSize + Suc i < PageSize" using page(1) that Cons by simp
    then have "(unat addr + Suc i) div PageSize = unat addr div PageSize" by (rule in_page(1))
    with te1 show ?thesis by (auto simp: writable_def a)
  qed
  with write_bytes_ok [OF s1(2,4,5), of "addr + 1" rest] page(2) Cons obtain t where
    t: "write_bytes rest (ExceptionHandler sc) (addr + 1) s1 = Inr (length rest, t)" "vm_inv t" "sys_step s1 t"
      "umem t = stored_bytes (umem s1) sid (unat (addr + 1)) rest" by (auto simp: a)
  with s1(1,3) sys_step_trans [OF st t(3)] show ?thesis
    by (simp add: Cons WriteMem_retry_def a stored_bytes_Cons [unfolded One_nat_def])
qed

end
