(* ===== verification/Thread_Properties.thy ===== *)
theory Thread_Properties
  imports Sleeping
begin

text \<open>
  The properties of the thread system and the interrupt simulation, with a concrete kernel on which
  they are exercised: two processes that share a page, one running and one ready, and the
  scheduler's timer pending.
\<close>

section \<open>A concrete kernel\<close>

definition one_list :: "'a \<Rightarrow> 'a List" where
  "one_list x = \<lparr>heap = [0 \<mapsto> \<lparr>le_next = None, le_item = x\<rparr>], brk = 1, lfirst = Some 0, llast = Some 0\<rparr>"

definition two_list :: "'a \<Rightarrow> 'a \<Rightarrow> 'a List" where
  "two_list x y = \<lparr>heap = [0 \<mapsto> \<lparr>le_next = Some 1, le_item = x\<rparr>, 1 \<mapsto> \<lparr>le_next = None, le_item = y\<rparr>], brk = 2,
     lfirst = Some 0, llast = Some 1\<rparr>"

lemma represents_one: "represents (one_list x) [x]"
  unfolding represents_def one_list_def
  by (rule exI [of _ "[0]"]) (simp add: list_at_def)

lemma represents_two: "represents (two_list x y) [x, y]"
  unfolding represents_def two_list_def
  by (rule exI [of _ "[0, 1]"]) (auto simp: list_at_def)

definition sample_thread :: "ThreadStatus \<Rightarrow> int \<Rightarrow> nat \<Rightarrow> 'h Thread" where
  "sample_thread st tid sid = \<lparr>frames = [], tstatus = st, Priority = 20, ThreadID = tid, ChildList = List_new, Children = 0,
     ParentPtr = None, exitval = 0, ChildExited = KernelSemaphore_new 0, hasReachedExit = False,
     thread_exit_status = False, runNow = True, wssRefreshCounter = 10, userRegisters = (\<lambda>_. 7), FDTable = [],
     tspace = Some sid, procStats = Statistics_new\<rparr>"

text \<open>With \<open>two\<close>, thread 2 is ready; without, thread 1 is alone.\<close>

definition sample_system :: "bool \<Rightarrow> kernel_func system" where
  "sample_system two = sample_vm \<lparr>registers = (\<lambda>_. 0), breakpoints = [], mstatus = UserMode, userTicks = 0,
     ticksAtLastPageFault = 0, numPageFaults = 0, procPageFaults = (\<lambda>_. 0),
     threads = (if two then [1 \<mapsto> sample_thread RUNNING 1 1, 2 \<mapsto> sample_thread READY 2 2]
       else [1 \<mapsto> sample_thread RUNNING 1 1]),
     nextThread = 3, threadToBeDestroyed = None, readyList = (if two then one_list 2 else List_new), threadid = 3,
     quantum = 110,
     allThreads = (if two then two_list \<lparr>nt_thread = 1, nt_ID = 1\<rparr> \<lparr>nt_thread = 2, nt_ID = 2\<rparr>
       else one_list \<lparr>nt_thread = 1, nt_ID = 1\<rparr>),
     installed = Some 1, level = IntOff,
     pending = one_list \<lparr>pi_handler = TimerHandler, pi_arg = 0, pi_when = 1, pi_type = TimerInt\<rparr>,
     inHandler = False, yieldOnReturn = False, needResched = False, wasYieldOnReturn = False, idleTicks = 0,
     systemTicks = 0, numContextSwitches = 0, closedFiles = []\<rparr>"

lemma sample_system_simps [simp]:
  "currentThread (sample_system two) = 1" "currentSpace (sample_system two) = Some 1"
  "threads (sample_system True) = [1 \<mapsto> sample_thread RUNNING 1 1, 2 \<mapsto> sample_thread READY 2 2]"
  "threads (sample_system False) = [1 \<mapsto> sample_thread RUNNING 1 1]"
  "readyList (sample_system True) = one_list 2" "readyList (sample_system False) = List_new"
  "level (sample_system two) = IntOff" "nextThread (sample_system two) = 3" "threadToBeDestroyed (sample_system two) = None"
  "spaces (sample_system two) sid = spaces (sample_vm ()) sid" "registers (sample_system two) i = 0"
  "mstatus (sample_system two) = UserMode" "totalTicks (sample_system two) = 0"
  "pending (sample_system two) = one_list \<lparr>pi_handler = TimerHandler, pi_arg = 0, pi_when = 1, pi_type = TimerInt\<rparr>"
  by (simp_all add: sample_system_def sample_vm_def)

lemma sample_thread_simps [simp]:
  "tstatus (sample_thread st tid sid) = st" "tspace (sample_thread st tid sid) = Some sid" "Priority (sample_thread st tid sid) = 20"
  "frames (sample_thread st tid sid) = []" "ChildExited (sample_thread st tid sid) = KernelSemaphore_new 0"
  by (simp_all add: sample_thread_def)

lemma kernel_sample_ready: "ready_inv (sample_system True) [2]" "ready_inv (sample_system False) []"
  by (auto simp: ready_inv_def represents_one represents_new prio_def)

lemma kernel_sample_all: "all_inv (sample_system two)"
proof (cases two)
  case True
  then show ?thesis
    unfolding all_inv_def
    by (intro conjI exI [of _ "[\<lparr>nt_thread = 1, nt_ID = 1\<rparr>, \<lparr>nt_thread = 2, nt_ID = 2\<rparr>]"])
      (auto simp: sample_system_def sample_vm_def represents_two)
next
  case False
  then show ?thesis
    unfolding all_inv_def
    by (intro conjI exI [of _ "[\<lparr>nt_thread = 1, nt_ID = 1\<rparr>]"])
      (auto simp: sample_system_def sample_vm_def represents_one)
qed

lemma kernel_sample_sched: "sched_inv (sample_system two)" "running (sample_system two)"
proof -
  have "vm_core (sample_system two) = vm_core (sample_vm ())" by (simp add: vm_core_def sample_system_def sample_vm_def)
  then have "vm_inv (sample_system two)" using vm_core_inv sample_inv by metis
  moreover have "space_inv (sample_system two)"
    by (cases two) (auto simp: space_inv_def sample_vm_def split: if_splits)
  moreover have "zombie_inv (sample_system two)" by (simp add: zombie_inv_def)
  moreover have "\<exists>xs. ready_inv (sample_system two) xs" using kernel_sample_ready by (cases two) auto
  ultimately show "sched_inv (sample_system two)"
    using kernel_sample_all by (cases two) (auto simp: sched_inv_def split: if_splits)
  show "running (sample_system two)" by (cases two) (simp_all add: running_def)
qed

section \<open>Properties\<close>

text \<open>
  \<open>Thread::Yield\<close> gives the CPU to the thread that is first when the running thread is put among the
  ready ones by priority, behind those of equal priority; the rest stay ready in order. It never
  fails, keeps the invariant of the thread system and the memory of every process, saves the
  registers of the user program it leaves and loads those of the one it resumes.
\<close>

theorem Yield_dispatches:
  assumes "sched_inv s" "running s" "ready_inv s xs"
  shows "\<exists>t ys. Yield (currentThread s) s = Inr t \<and> sched_inv t \<and> running t \<and> best t \<and>
    insert_by (\<lambda>x y. prio s x < prio s y) (currentThread s) xs = currentThread t # ys \<and> ready_inv t ys \<and>
    keeps_memory s t \<and>
    (\<forall>th uh i. threads s (currentThread s) = Some th \<longrightarrow> tspace th \<noteq> None \<longrightarrow> threads t (currentThread s) = Some uh \<longrightarrow>
       i < NumTotalRegs \<longrightarrow> userRegisters uh i = registers s i) \<and>
    (\<forall>new i. currentThread t \<noteq> currentThread s \<longrightarrow> threads s (currentThread t) = Some new \<longrightarrow> tspace new \<noteq> None \<longrightarrow>
       \<not> never_ran new \<longrightarrow> i < NumTotalRegs \<longrightarrow> registers t i = userRegisters new i)"
proof -
  obtain n ys where ys: "insert_by (\<lambda>x y. prio s x < prio s y) (currentThread s) xs = n # ys"
    by (cases "insert_by (\<lambda>x y. prio s x < prio s y) (currentThread s) xs") auto
  from Yield_ok [OF assms ys] obtain l th t where t: "threads s (currentThread s) = Some th"
    "Yield (currentThread s) s = Inr t" "switched (yielding s l th) n ys t" by blast
  let ?u = "yielding s l th"
  have u: "currentThread ?u = currentThread s" "registers ?u = registers s"
    "threads ?u (currentThread s) = Some (th\<lparr>tstatus := READY, frames := Yield_frame (level s) # frames th\<rparr>)"
    "w \<noteq> currentThread s \<Longrightarrow> threads ?u w = threads s w" for w by (simp_all add: yielding_def)
  have "keeps_memory s t"
    using t(3) keeps_memory_cong [of ?u s t] vm_core_vbyte [of ?u s] by (simp add: switched_def yielding_def)
  moreover have "userRegisters uh i = registers s i"
    if "tspace th \<noteq> None" "threads t (currentThread s) = Some uh" "i < NumTotalRegs" for uh i
    using that t(3) u unfolding switched_def by force
  moreover have "registers t i = userRegisters new i"
    if "n \<noteq> currentThread s" "threads s n = Some new" "tspace new \<noteq> None" "\<not> never_ran new" "i < NumTotalRegs" for new i
    using that t(3) u unfolding switched_def by force
  ultimately show ?thesis using t ys unfolding switched_def by (intro exI [of _ t] exI [of _ ys]) auto
qed

theorem Yield_dispatches_witness:
  "\<exists>t. Yield 1 (sample_system True) = Inr t \<and> currentThread t = 2 \<and> ready_inv t [1] \<and> sched_inv t \<and>
    (\<forall>i < NumTotalRegs. registers t i = 7)"
proof -
  have b: "insert_by (\<lambda>x y. prio (sample_system True) x < prio (sample_system True) y) 1 [2] = [2, 1]"
    by (simp add: prio_def)
  from Yield_dispatches [OF kernel_sample_sched [of True] kernel_sample_ready(1)] b obtain t where
    t: "Yield 1 (sample_system True) = Inr t" "currentThread t = 2" "ready_inv t [1]" "sched_inv t"
    and r: "\<And>new i. threads (sample_system True) (currentThread t) = Some new \<Longrightarrow> tspace new \<noteq> None \<Longrightarrow>
       \<not> never_ran new \<Longrightarrow> i < NumTotalRegs \<Longrightarrow> registers t i = userRegisters new i" by auto
  have "threads (sample_system True) (currentThread t) = Some (sample_thread READY 2 2)" using t(2) by simp
  from r [OF this] have "\<forall>i < NumTotalRegs. registers t i = 7" by (simp add: never_ran_def sample_thread_def)
  with t show ?thesis by blast
qed

text \<open>
  C13: a clock tick with the scheduler's timer as the only device. The clock advances by one tick in
  user mode and by ten in system mode. When the first pending interrupt \<open>p\<close> is due then, all of its
  time fire, and each of the timer's is armed again one period later; otherwise none fires. When one
  fired, or a yield had been asked for before, the current thread goes back to the ready threads,
  behind those of its priority, and the first of them runs; otherwise the current thread goes on
  with its registers and interrupts on. The tick never fails, and keeps the invariant of the thread
  system and the memory of every process. It is assumed that the processor is not idle, that the
  thread has an address space, that the timer is not random and its period positive, that working
  sets are not contracted and measured by a window the options allow, and that the clock does not
  wrap around before the next interrupt of the timer.
\<close>

theorem OneTick_preempts:
  assumes "sched_inv s" "running s" "currentSpace s \<noteq> None" "unat (registers s LoadReg) < NumTotalRegs"
    and "pend_inv s (p # ps)" "mstatus s \<noteq> IdleMode"
    and "\<not> randomize tm" "0 < period tm" "delta \<in> {1, 2, 4, 8}" "unat (totalTicks s) + 10 + unat (period tm) < 2 ^ 32"
    and "ready_inv s xs"
  shows "\<exists>t qs. OneTick (kernel_call rnd tm fuel False delta) s = Inr t \<and> sched_inv t \<and> running t \<and> keeps_memory s t \<and>
    totalTicks t = totalTicks s + (if mstatus s = SystemMode then 10 else 1) \<and> pend_inv t qs \<and>
    (if pi_when p \<le> totalTicks t
     then let fired = filter (\<lambda>q. pi_when q = pi_when p) (p # ps) in
       mset qs + mset fired = mset (p # ps) + mset (concat (map (\<lambda>q. rearmed tm (pi_handler q) (totalTicks t)) fired))
     else qs = p # ps) \<and>
    (if pi_when p \<le> totalTicks t \<or> needResched s \<or> yieldOnReturn s
     then \<exists>ys. insert_by (\<lambda>x y. prio s x < prio s y) (currentThread s) xs = currentThread t # ys \<and> ready_inv t ys
     else currentThread t = currentThread s \<and> ready_inv t xs \<and> registers t = registers s \<and> level t = IntOn)"
proof -
  have "timer_ok tm delta (kept s) s" using assms by (simp add: timer_ok_def)
  from OneTick_ok [OF this assms(5,6,10,11), of rnd fuel] show ?thesis
    unfolding Let_def ticked_def SystemTick_def UserTick_def by blast
qed

theorem OneTick_preempts_witness:
  "\<exists>t. OneTick (kernel_call (\<lambda>_. 0) \<lparr>randomize = False, timer_handler = SchedTimer, timer_arg = 0, period = 110\<rparr> 0 False 1)
     (sample_system True) = Inr t \<and> totalTicks t = 1 \<and> currentThread t = 2 \<and> ready_inv t [1] \<and>
     pend_inv t [\<lparr>pi_handler = TimerHandler, pi_arg = 0, pi_when = 111, pi_type = TimerInt\<rparr>]"
proof -
  let ?tm = "\<lparr>randomize = False, timer_handler = SchedTimer, timer_arg = 0, period = 110\<rparr>"
  let ?p = "\<lparr>pi_handler = TimerHandler, pi_arg = 0, pi_when = 1, pi_type = TimerInt\<rparr>"
  have pd: "pend_inv (sample_system True) [?p]" by (simp add: pend_inv_def represents_one)
  have b: "insert_by (\<lambda>x y. prio (sample_system True) x < prio (sample_system True) y) 1 [2] = [2, 1]"
    by (simp add: prio_def)
  from OneTick_preempts [OF kernel_sample_sched [of True] _ _ pd _ _ _ _ _ kernel_sample_ready(1), of ?tm 1 "\<lambda>_. 0" 0]
  obtain t qs where t: "OneTick (kernel_call (\<lambda>_. 0) ?tm 0 False 1) (sample_system True) = Inr t"
    "totalTicks t = 1" "pend_inv t qs" "currentThread t = 2" "ready_inv t [1]"
    "mset qs + mset [?p] = mset [?p] + mset (rearmed ?tm TimerHandler 1)"
    using b by (auto simp: NumTotalRegs_def Let_def)
  have "qs = [\<lparr>pi_handler = TimerHandler, pi_arg = 0, pi_when = 111, pi_type = TimerInt\<rparr>]"
    using t(6) by (simp add: rearmed_def)
  with t show ?thesis by blast
qed

text \<open>
  C14: \<open>Thread::Finish\<close> of a thread for whose children nobody waits and whose first page has a real
  frame number (\<open>deletable\<close>) switches to the first ready thread. If that one has run before, it
  resumes inside \<open>Scheduler::Run\<close> and destroys the finished thread: its thread object and its address
  space are gone and its open files are closed. If it never ran, it starts in \<open>ThreadRoot\<close>, which
  destroys nothing, and the finished thread is still there and still noted for destruction. In
  both cases the memory of the other processes is unchanged and the invariants hold. The last
  thread's \<open>Finish\<close> halts the machine.
\<close>

theorem Finish_reaps:
  assumes "sched_inv s" "running s"
  shows "(dom (threads s) = {currentThread s} \<longrightarrow> Finish (Suc fuel) call (currentThread s) s = Inl Halted) \<and>
    (\<forall>n ys th new. ready_inv s (n # ys) \<longrightarrow> threads s (currentThread s) = Some th \<longrightarrow>
       deletable s (th\<lparr>tstatus := ZOMBIE\<rparr>) \<longrightarrow> threads s n = Some new \<longrightarrow>
       (\<exists>t. Finish (Suc fuel) call (currentThread s) s = Inr t \<and> sched_inv t \<and> running t \<and> ready_inv t ys \<and>
          currentThread t = n \<and> keeps_memory s t \<and>
          (if never_ran new then threadToBeDestroyed t = Some (currentThread s) \<and> threads t (currentThread s) \<noteq> None
           else threads t (currentThread s) = None \<and> (\<forall>sid. tspace th = Some sid \<longrightarrow> spaces t sid = None) \<and>
             closedFiles t = closedFiles s @ concat (map fd_files (take MAX_FD (FDTable th))))))"
  using Finish_last [OF assms] Finish_ok [OF assms] by blast

theorem Finish_reaps_witness:
  "Finish 1 (\<lambda>_ _. Inr) 1 (sample_system False) = Inl Halted \<and>
   (\<exists>t. Finish 1 (\<lambda>_ _. Inr) 1 (sample_system True) = Inr t \<and> currentThread t = 2 \<and> threads t 1 = None \<and> spaces t 1 = None)"
proof
  show "Finish 1 (\<lambda>_ _. Inr) 1 (sample_system False) = Inl Halted"
    using Finish_reaps [OF kernel_sample_sched [of False], of 0 "\<lambda>_ _. Inr"] by simp
  have "deletable (sample_system True) ((sample_thread RUNNING 1 1)\<lparr>tstatus := ZOMBIE\<rparr>)"
  proof -
    have "spaces (sample_system True) = spaces (sample_vm ())" by (simp add: fun_eq_iff)
    then show ?thesis by (simp add: deletable_def KernelSemaphore_new_def represents_new sample_ent NumPhysPages_def)
  qed
  with Finish_reaps [OF kernel_sample_sched [of True], of 0 "\<lambda>_ _. Inr"] kernel_sample_ready(1)
  show "\<exists>t. Finish 1 (\<lambda>_ _. Inr) 1 (sample_system True) = Inr t \<and> currentThread t = 2 \<and> threads t 1 = None \<and> spaces t 1 = None"
    by (fastforce simp: never_ran_def)
qed

text \<open>
  A thread that goes to sleep when no thread is ready and only the timer is pending stops the
  machine: idling moves the clock to the timer's interrupt, finds that it is alone, and the second
  round halts. (Whatever the handlers are; the loop of \<open>Sleep\<close> ends in two rounds.)
\<close>

theorem Sleep_idle_halts:
  assumes "sched_inv s" "running s" "ready_inv s []" "level s = IntOff" "represents (pending s) [p]" "pi_type p = TimerInt"
  shows "Sleep (Suc (Suc fuel)) call (currentThread s) s = Inl Halted"
  by (rule Sleep_halts [OF assms])

theorem Sleep_idle_halts_witness: "Sleep 2 (\<lambda>_ _. Inr) 1 (sample_system False) = Inl Halted"
  using Sleep_idle_halts [OF kernel_sample_sched [of False] kernel_sample_ready(2) _ represents_one
      [of "\<lparr>pi_handler = TimerHandler, pi_arg = 0, pi_when = 1, pi_type = TimerInt\<rparr>", folded sample_system_simps(14) [of False]], of 0 "\<lambda>_ _. Inr"]
  by (simp add: numeral_2_eq_2)

text \<open>
  C15: one clock tick's loop over the pending interrupts ends. When the first one is due, the loop does
  exactly this: for each interrupt that is pending for the same time, in order, it takes it off the
  list and calls its handler with its argument, in system mode (\<open>fire\<close>); then the pending
  interrupts are the others and what the timer armed. Due interrupts of a later time stay
  pending until the next tick, nothing that was armed is due, and when the first interrupt is not
  due nothing happens at all. The device is the scheduler's timer, as for the clock tick, and the machine is
  not idle.
\<close>

theorem handle_due_batch:
  assumes "timer_ok tm delta mem s" "level s = IntOff" "pend_inv s (p # ps)" "mstatus s \<noteq> IdleMode"
  shows "\<exists>t qs. handle_all_due (kernel_call rnd tm fuel False delta) s = Inr t \<and> totalTicks t = totalTicks s \<and>
    mstatus t = mstatus s \<and> pend_inv t qs \<and>
    filter (due s) qs = filter (\<lambda>q. pi_when p < pi_when q) (filter (due s) (p # ps)) \<and>
    (if due s p
     then let fired = filter (\<lambda>q. pi_when q = pi_when p) (p # ps) in
       fold_res (fire (kernel_call rnd tm fuel False delta)) fired s = Inr t \<and>
       mset qs + mset fired = mset (p # ps) + mset (concat (map (\<lambda>q. rearmed tm (pi_handler q) (totalTicks s)) fired))
     else t = s \<and> qs = p # ps)"
  using sched_timer.handle_all_due_ok [OF assms, of rnd fuel] unfolding Let_def by blast

theorem handle_due_batch_witness:
  "\<exists>t qs. handle_all_due (kernel_call (\<lambda>_. 0) \<lparr>randomize = False, timer_handler = SchedTimer, timer_arg = 0, period = 110\<rparr> 0 False 1)
     (sample_system True\<lparr>totalTicks := 1\<rparr>) = Inr t \<and> pend_inv t qs \<and>
    fire (kernel_call (\<lambda>_. 0) \<lparr>randomize = False, timer_handler = SchedTimer, timer_arg = 0, period = 110\<rparr> 0 False 1)
     \<lparr>pi_handler = TimerHandler, pi_arg = 0, pi_when = 1, pi_type = TimerInt\<rparr> (sample_system True\<lparr>totalTicks := 1\<rparr>) = Inr t"
proof -
  let ?s = "sample_system True\<lparr>totalTicks := 1\<rparr>"
  let ?tm = "\<lparr>randomize = False, timer_handler = SchedTimer, timer_arg = 0, period = 110\<rparr>"
  have c: "sched_core (sample_system True) = sched_core ?s" by simp
  have "timer_ok ?tm 1 (kept ?s) ?s"
    using sched_core_inv [OF c kernel_sample_sched(1)] sched_core_running [OF c kernel_sample_sched(2)]
    by (simp add: timer_ok_def NumTotalRegs_def)
  moreover have "pend_inv ?s [\<lparr>pi_handler = TimerHandler, pi_arg = 0, pi_when = 1, pi_type = TimerInt\<rparr>]"
    by (simp add: pend_inv_def represents_one)
  moreover have "level ?s = IntOff" "mstatus ?s \<noteq> IdleMode" by simp_all
  ultimately obtain t qs where "handle_all_due (kernel_call (\<lambda>_. 0) ?tm 0 False 1) ?s = Inr t" "pend_inv t qs"
    "let fired = [\<lparr>pi_handler = TimerHandler, pi_arg = 0, pi_when = 1, pi_type = TimerInt\<rparr>] in
       fold_res (fire (kernel_call (\<lambda>_. 0) ?tm 0 False 1)) fired ?s = Inr t"
    using handle_due_batch [of ?tm 1 "kept ?s" ?s "\<lparr>pi_handler = TimerHandler, pi_arg = 0, pi_when = 1, pi_type = TimerInt\<rparr>" "[]" "\<lambda>_. 0" 0]
    unfolding due_def Let_def by auto
  then show ?thesis by (auto simp: bind_res_eq_Inr)
qed

text \<open>
  \<open>Thread::Prioritize\<close>, the \<open>Nice\<close> system call, keeps the priority between 0 and 40, and when the sum
  does not overflow the new priority is the sum clamped to that interval.
\<close>

theorem Prioritize_clamps:
  "0 \<le> Priority (Prioritize p th) \<and> Priority (Prioritize p th) \<le> 40 \<and>
   (- (2 ^ 31) \<le> Priority th + p \<and> Priority th + p < 2 ^ 31 \<longrightarrow>
     Priority (Prioritize p th) = max 0 (min 40 (Priority th + p)))"
proof -
  have "int32 x = x" if "- (2 ^ 31) \<le> x" "x < 2 ^ 31" for x
    using that by (simp add: int32_def sint_sbintrunc' signed_take_bit_int_eq_self)
  then show ?thesis using Prioritize_range [of p th] by (auto simp: Prioritize_def Let_def)
qed

theorem Prioritize_clamps_witness:
  "Priority (Prioritize (-30) (sample_thread READY 1 1 :: kernel_func Thread)) = 0 \<and>
   Priority (Prioritize 5 (sample_thread READY 1 1 :: kernel_func Thread)) = 25"
  using Prioritize_clamps [of "-30" "sample_thread READY 1 1 :: kernel_func Thread"]
    Prioritize_clamps [of 5 "sample_thread READY 1 1 :: kernel_func Thread"] by simp

end
