(* ===== verification/Syscall_Properties.thy ===== *)
theory Syscall_Properties
  imports Processes User_Copy Thread_Properties
begin

text \<open>
  The properties of the system calls, exercised on the kernel of \<open>Thread_Properties\<close>: process 1 runs and its
  first page holds the bytes 0, 1, 2 and so on.
\<close>

section \<open>A concrete kernel\<close>

text \<open>Process 1 runs; process 2 waits or has exited.\<close>

definition family :: "kernel_func Thread \<Rightarrow> kernel_func Thread \<Rightarrow> kernel_func system" where
  "family h1 h2 = (sample_system True)\<lparr>threads := [1 \<mapsto> h1, 2 \<mapsto> h2], readyList := List_new\<rparr>"

lemma family_simps [simp]:
  "threads (family h1 h2) = [1 \<mapsto> h1, 2 \<mapsto> h2]" "currentThread (family h1 h2) = 1" "currentSpace (family h1 h2) = Some 1"
  "nextThread (family h1 h2) = 3" "threadToBeDestroyed (family h1 h2) = None" "breakpoints (family h1 h2) = []"
  "spaces (family h1 h2) = spaces (sample_vm ())" "registers (family h1 h2) i = 0" "level (family h1 h2) = IntOff" "threadid (family h1 h2) = 3"
  "mainMemory (family h1 h2) = mainMemory (sample_vm ())" "files (family h1 h2) = files (sample_vm ())"
  by (simp_all add: family_def) (simp_all add: sample_system_def sample_vm_def)

lemma family_ready [simp]: "frame_ready (family h1 h2) n" "swap_room (family h1 h2)"
proof -
  have eq: "family h1 h2 = sample_vm (vm.more (family h1 h2))" by (simp add: family_def sample_system_def sample_vm_def)
  show "frame_ready (family h1 h2) n" "swap_room (family h1 h2)" by (subst eq, rule sample_ready sample_room)+
qed

lemma family_inv:
  assumes "tstatus h1 = RUNNING" "tspace h1 = Some 1" "tspace h2 = Some 2" "tstatus h2 \<notin> {READY, RUNNING}"
  shows "sched_inv (family h1 h2)" "running (family h1 h2)"
proof -
  have core: "vm_core (family h1 h2) = vm_core (sample_vm ())" by (simp add: vm_core_def family_def sample_system_def sample_vm_def)
  have "ready_inv (family h1 h2) []" using assms by (auto simp: ready_inv_def family_def represents_new)
  moreover have "all_inv (family h1 h2)"
    using kernel_sample_all [of True] by (simp add: all_inv_def family_def)
  moreover have "space_inv (family h1 h2)" using assms by (auto simp: space_inv_def sample_vm_def split: if_splits)
  moreover have "zombie_inv (family h1 h2)" by (simp add: zombie_inv_def)
  moreover have "vm_inv (family h1 h2)" using vm_core_inv [OF core, of "{}"] sample_inv by metis
  moreover have "t = currentThread (family h1 h2)" if "threads (family h1 h2) t = Some th" "tstatus th = RUNNING" for t th
    using that assms by (auto split: if_splits)
  ultimately show "sched_inv (family h1 h2)" unfolding sched_inv_def by blast
  show "running (family h1 h2)" using assms by (simp add: running_def)
qed

lemma family_page:
  "ent (spaces (family h1 h2)) 1 0 = Some shared_entry" "valid shared_entry"
  "a < 128 \<Longrightarrow> umem (family h1 h2) 1 a = Some (of_nat a)" "a < 128 \<Longrightarrow> resident (family h1 h2) 1 a"
  using sample_ent [of "()" 1 0]
  by (simp_all add: umem_def vbyte_def te_byte_def page_bytes_def resident_def PageSize_def SectorSize_def shared_entry_def)
    (simp_all add: sample_vm_def zero_entry_def SetupTable_entry_def)

definition parent_thread :: "kernel_func Thread" where
  "parent_thread = (sample_thread RUNNING 1 1)\<lparr>FDTable := Some \<lparr>fd_type = ConsoleFile, openfile = None\<rparr> #
     Some \<lparr>fd_type = DiskFile, openfile = Some 4\<rparr> # replicate (MAX_FD - 2) None, ChildList := one_list 2, Children := 1\<rparr>"

definition child_thread :: "kernel_func Thread" where
  "child_thread = (sample_thread ZOMBIE 2 2)\<lparr>exitval := 42, ParentPtr := Some 1\<rparr>"

lemma process_simps [simp]:
  "tstatus parent_thread = RUNNING" "tspace parent_thread = Some 1" "tstatus child_thread = ZOMBIE" "tspace child_thread = Some 2"
  by (simp_all add: parent_thread_def child_thread_def)

lemmas family_wf = family_inv [of parent_thread child_thread, simplified]

section \<open>Files\<close>

text \<open>The first free descriptor of a table.\<close>

definition free_fd :: "FDTEntry option list \<Rightarrow> nat" where
  "free_fd es = length (takeWhile (\<lambda>e. e \<noteq> None) es)"

lemma free_fd_none: "None \<in> set es \<Longrightarrow> es ! free_fd es = None"
  by (induction es) (auto simp: free_fd_def)

lemma free_fd_first:
  assumes "None \<in> set es"
  shows "free_fd es < length es" "find_fd_loop i es = int (i + free_fd es)"
proof -
  show "free_fd es < length es" using assms by (induction es) (auto simp: free_fd_def)
  show "find_fd_loop i es = int (i + free_fd es)" using assms find_fd_loop_spec [of i es] by (simp add: free_fd_def)
qed

text \<open>
  \<open>System_Open\<close> of a name in user memory asks the file system for exactly that name. With no free
  descriptor it returns -EMFILE, for a missing file -ENOENT, and no thread changes; otherwise it returns the
  least free descriptor, which now denotes the open file. User memory and the invariant of the thread system
  stay. The file system stub's \<open>Open\<close> (here \<open>found\<close>) does not touch the kernel's state.
\<close>

theorem System_Open_allocates:
  fixes s :: "'h system"
  assumes "sched_inv s" "currentSpace s = Some sid" "breakpoints s = []"
    and th: "threads s (currentThread s) = Some th" "length (FDTable th) = MAX_FD"
    and name: "user_string s sid (unat addr) str" "length str < MAXFILENAMELENGTH"
    and fs: "\<And>u. fs_Open sv str u = Inr (found, u)"
  shows "\<exists>t. sched_inv t \<and> same_memory s t \<and> threads t = threads s \<and> currentThread t = currentThread s \<and>
    System_Open sv (ExceptionHandler sc) addr s =
      (if None \<notin> set (FDTable th) then Inr (- EMFILE, t)
       else case found of None \<Rightarrow> Inr (- ENOENT, t)
       | Some f \<Rightarrow> let fd = free_fd (FDTable th) in
         Inr (int fd, t\<lparr>threads := (threads t)(currentThread t \<mapsto>
           th\<lparr>FDTable := (FDTable th)[fd := Some \<lparr>fd_type = DiskFile, openfile = Some f\<rparr>]\<rparr>)\<rparr>))"
proof -
  have "vm_inv s" using assms(1) by (simp add: sched_inv_def)
  moreover have "c_name (take MAXFILENAMELENGTH (str @ [0])) = Inr str"
    using name c_name_copied [of str] by (simp add: user_string_def)
  ultimately obtain bs t where
    t: "copy_from_user (ExceptionHandler sc) addr s = Inr (bs, t)" "reads s t" and cn: "c_name bs = Inr str"
    using copy_from_user_ok [OF _ assms(2,3) name(1), of sc] by blast
  then have st: "sys_step s t" "vm_inv t" "same_memory s t" by (simp_all add: reads_def)
  note eq = sys_step_system [OF st(1)]
  have g: "get_thread (currentThread t) t = Inr th" using th(1) eq(1,7) by simp
  have "System_Open sv (ExceptionHandler sc) addr s =
      (if None \<notin> set (FDTable th) then Inr (- EMFILE, t)
       else case found of None \<Rightarrow> Inr (- ENOENT, t)
       | Some f \<Rightarrow> let fd = free_fd (FDTable th) in
         Inr (int fd, t\<lparr>threads := (threads t)(currentThread t \<mapsto>
           th\<lparr>FDTable := (FDTable th)[fd := Some \<lparr>fd_type = DiskFile, openfile = Some f\<rparr>]\<rparr>)\<rparr>))"
  proof (cases "None \<in> set (FDTable th)")
    case False
    then have "find_next_available_fd th = -1"
      using th(2) by (simp add: find_next_available_fd_def find_fd_loop_spec)
    with False show ?thesis by (simp add: System_Open_def t(1) g)
  next
    case True
    let ?fd = "free_fd (FDTable th)"
    have fd: "find_next_available_fd th = int ?fd" "?fd < MAX_FD"
      using free_fd_first [OF True] th(2) by (simp_all add: find_next_available_fd_def)
    have "FDTable th ! ?fd = None" using free_fd_none [OF True] by simp
    then have "close_files [FDTable th ! ?fd] t = t" by (simp add: close_files_def fd_files_def)
    moreover have "threads t (currentThread t) = Some th" using th(1) eq(1,7) by simp
    ultimately have "setFD (currentThread t) (int ?fd) e t = Inr (t\<lparr>threads := (threads t)(currentThread t \<mapsto>
        th\<lparr>FDTable := (FDTable th)[?fd := e]\<rparr>)\<rparr>)" for e
      using fd(2) th(2) g by (simp add: setFD_def fd_slot_def upd_thread_def)
    then show ?thesis
      using True by (simp add: System_Open_def t(1) g fd(1) cn fs Let_def split: option.split)
  qed
  moreover have "sched_inv t" by (rule sys_step_sched(1) [OF st(1) assms(1) st(2)])
  ultimately show ?thesis using st(3) eq(1,7) by blast
qed

theorem System_Open_allocates_witness:
  "\<exists>sv t. System_Open sv (ExceptionHandler (\<lambda>_. Inr)) 0 (family parent_thread child_thread) = Inr (2, t) \<and>
    map_option (\<lambda>th. FDTable th ! 2) (threads t 1) = Some (Some \<lparr>fd_type = DiskFile, openfile = Some 9\<rparr>)"
proof -
  let ?s = "family parent_thread child_thread"
  let ?sv = "undefined\<lparr>fs_Open := (\<lambda>_ u. Inr (Some 9, u))\<rparr> :: kernel_func services"
  have str: "user_string ?s 1 (unat (0 :: uint32)) []" using family_page(3,4) [of 0] by (simp add: user_string_def)
  have fd: "length (FDTable parent_thread) = MAX_FD" "None \<in> set (FDTable parent_thread)" "free_fd (FDTable parent_thread) = 2"
    by (simp_all add: parent_thread_def MAX_FD_def free_fd_def numeral_eq_Suc)
  have "\<exists>t. sched_inv t \<and> same_memory ?s t \<and> threads t = threads ?s \<and> currentThread t = currentThread ?s \<and>
    System_Open ?sv (ExceptionHandler (\<lambda>_. Inr)) 0 ?s =
      (if None \<notin> set (FDTable parent_thread) then Inr (- EMFILE, t)
       else case Some 9 of None \<Rightarrow> Inr (- ENOENT, t)
       | Some f \<Rightarrow> let fd = free_fd (FDTable parent_thread) in
         Inr (int fd, t\<lparr>threads := (threads t)(currentThread t \<mapsto>
           parent_thread\<lparr>FDTable := (FDTable parent_thread)[fd := Some \<lparr>fd_type = DiskFile, openfile = Some f\<rparr>]\<rparr>)\<rparr>))"
    by (rule System_Open_allocates [OF family_wf(1) _ _ _ fd(1) str]) (simp_all add: MAXFILENAMELENGTH_def)
  then obtain t where "currentThread t = 1" "System_Open ?sv (ExceptionHandler (\<lambda>_. Inr)) 0 ?s =
      Inr (2, t\<lparr>threads := (threads t)(1 \<mapsto>
           parent_thread\<lparr>FDTable := (FDTable parent_thread)[2 := Some \<lparr>fd_type = DiskFile, openfile = Some 9\<rparr>]\<rparr>)\<rparr>)"
    by (simp only: fd(2,3) Let_def option.case if_False simp_thms family_simps(2) of_nat_numeral) (elim exE conjE, simp only:)
  moreover have "(2 :: nat) < length (FDTable parent_thread)" by (simp add: fd(1) MAX_FD_def)
  ultimately show ?thesis by (intro exI [of _ ?sv]) auto
qed

text \<open>
  \<open>System_Write\<close> hands the file exactly the bytes of the user's buffer, and returns what the file returns; a
  descriptor that denotes nothing gives -EBADF. Nothing in user memory or in the thread system changes before.
\<close>

theorem System_Write_passes:
  fixes s :: "'h system"
  assumes "sched_inv s" "currentSpace s = Some sid" "breakpoints s = []"
    and th: "threads s (currentThread s) = Some th" "length (FDTable th) = MAX_FD"
    and fd: "fd < MAX_FD" "FDTable th ! fd = Some e" "fd_type e = DiskFile" "openfile e = Some f"
    and buffer: "unat addr + n < 2 ^ 32" "\<forall>i < n. resident s sid (unat addr + i)"
  shows "\<exists>t. sched_inv t \<and> same_memory s t \<and> threads t = threads s \<and>
    System_Write sv (ExceptionHandler sc) (int fd) addr (int n) s =
      file_Write sv f (map (\<lambda>i. the (umem s sid (unat addr + i))) [0..<n]) t"
proof -
  have inv: "vm_inv s" using assms(1) by (simp add: sched_inv_def)
  from read_bytes_ok [OF inv assms(2,3) buffer(1)] buffer(2) obtain t where
    t: "read_bytes n (ExceptionHandler sc) addr s = Inr (map (\<lambda>i. the (umem s sid (unat addr + i))) [0..<n], t)" "reads s t"
    by blast
  then have st: "sys_step s t" "vm_inv t" "same_memory s t" by (simp_all add: reads_def)
  have "getFD (int fd) th = Inr (Some e)" using fd th(2) by (simp add: getFD_def fd_slot_def)
  with t(1) th(1) fd have "System_Write sv (ExceptionHandler sc) (int fd) addr (int n) s =
      file_Write sv f (map (\<lambda>i. the (umem s sid (unat addr + i))) [0..<n]) t" by (simp add: System_Write_def)
  with st sys_step_sched(1) [OF st(1) assms(1) st(2)] sys_step_system(1) [OF st(1)] show ?thesis by blast
qed

theorem System_Write_passes_witness:
  "\<exists>t. System_Write (undefined\<lparr>file_Write := (\<lambda>f bs u. Inr (Some (int f + sint (last bs)), u))\<rparr>) (ExceptionHandler (\<lambda>_. Inr)) 1 65 3
     (family parent_thread child_thread) = Inr (Some 71, t)"
proof -
  let ?s = "family parent_thread child_thread"
  let ?sv = "undefined\<lparr>file_Write := (\<lambda>f bs u. Inr (Some (int f + sint (last bs)), u))\<rparr> :: kernel_func services"
  have fd: "length (FDTable parent_thread) = MAX_FD" "1 < MAX_FD" "FDTable parent_thread ! 1 = Some \<lparr>fd_type = DiskFile, openfile = Some 4\<rparr>"
    by (simp_all add: parent_thread_def MAX_FD_def)
  have buf: "\<forall>i < 3. resident ?s 1 (unat (65 :: uint32) + i)" using family_page(4) by auto
  have "umem ?s 1 (unat (65 :: uint32) + 2) = Some 67" using family_page(3) [of 67] by simp
  then have "last (map (\<lambda>i. the (umem ?s 1 (unat (65 :: uint32) + i))) [0..<3]) = 67" by (simp add: last_map)
  with System_Write_passes [OF family_wf(1) _ _ _ fd, where f = 4 and n = 3 and sv = ?sv and sc = "\<lambda>_. Inr" and addr = 65] buf
  show ?thesis by auto
qed

text \<open>
  \<open>System_Read\<close> of a file stores exactly the bytes the file delivers at the user's buffer, which lies in one
  resident page, shared or not; it returns their number. No other byte of any process changes.
\<close>

theorem System_Read_stores:
  fixes s :: "'h system"
  assumes "sched_inv s" "currentSpace s = Some sid" "breakpoints s = []"
    and th: "threads s (currentThread s) = Some th" "length (FDTable th) = MAX_FD"
    and fd: "fd < MAX_FD" "FDTable th ! fd = Some e" "fd_type e = DiskFile" "openfile e = Some f"
    and rd: "file_Read sv f n s = Inr (Some bs, s)"
    and page: "unat addr mod PageSize + length bs \<le> PageSize" "unat addr + length bs < 2 ^ 32"
      "ent (spaces s) sid (unat addr div PageSize) = Some te" "valid te"
      "cow te \<longrightarrow> frame_ready s (int (physicalPage te)) \<and> swap_room s"
  shows "\<exists>t. System_Read sv (ExceptionHandler sc) (int fd) addr (int n) s = Inr (Some (int (length bs)), t) \<and>
    sched_inv t \<and> threads t = threads s \<and> umem t = stored_bytes (umem s) sid (unat addr) bs"
proof -
  have inv: "vm_inv s" using assms(1) by (simp add: sched_inv_def)
  from write_bytes_page [OF inv assms(2,3) page(1-4)] page(5) obtain t where
    t: "write_bytes bs (ExceptionHandler sc) addr s = Inr (length bs, t)" "vm_inv t" "sys_step s t"
      "umem t = stored_bytes (umem s) sid (unat addr) bs" by blast
  have "getFD (int fd) th = Inr (Some e)" using fd th(2) by (simp add: getFD_def fd_slot_def)
  with t(1) th(1) fd rd have "System_Read sv (ExceptionHandler sc) (int fd) addr (int n) s = Inr (Some (int (length bs)), t)"
    by (simp add: System_Read_def Read_deliver_def)
  with t sys_step_sched(1) [OF t(3) assms(1) t(2)] sys_step_system(1) [OF t(3)] show ?thesis by blast
qed

theorem System_Read_stores_witness:
  "\<exists>t. System_Read (undefined\<lparr>file_Read := (\<lambda>f n u. Inr (Some [104, 105], u))\<rparr>) (ExceptionHandler (\<lambda>_. Inr)) 1 8 5
     (family parent_thread child_thread) = Inr (Some 2, t) \<and> umem t 1 8 = Some 104 \<and> umem t 1 9 = Some 105 \<and> umem t 1 10 = Some 10"
proof -
  let ?s = "family parent_thread child_thread"
  let ?sv = "undefined\<lparr>file_Read := (\<lambda>f n u. Inr (Some [104, 105], u))\<rparr> :: kernel_func services"
  have fd: "length (FDTable parent_thread) = MAX_FD" "1 < MAX_FD" "FDTable parent_thread ! 1 = Some \<lparr>fd_type = DiskFile, openfile = Some 4\<rparr>"
    by (simp_all add: parent_thread_def MAX_FD_def)
  have "unat (8 :: uint32) div PageSize = 0" "unat (8 :: uint32) mod PageSize = 8" "(10 :: nat) \<le> PageSize"
    by (simp_all add: PageSize_def SectorSize_def)
  with System_Read_stores [OF family_wf(1) _ _ _ fd, where f = 4 and sv = ?sv and n = 5 and bs = "[104, 105]" and addr = 8
      and te = shared_entry and sc = "\<lambda>_. Inr"] family_page(1,2) obtain t where
    "System_Read ?sv (ExceptionHandler (\<lambda>_. Inr)) 1 8 5 ?s = Inr (Some 2, t)" "umem t = stored_bytes (umem ?s) 1 8 [104, 105]"
    by auto
  moreover have "umem ?s 1 10 = Some 10" using family_page(3) [of 10] by simp
  ultimately show ?thesis by (auto simp: stored_bytes_def)
qed

section \<open>Processes\<close>

text \<open>The identifiers that have been given are below the counter.\<close>

definition ids_below :: "'h system \<Rightarrow> bool" where
  "ids_below s \<longleftrightarrow> (\<forall>t th. threads s t = Some th \<longrightarrow> ThreadID th < threadid s)"

text \<open>
  C21: \<open>System_Fork\<close> up to the point where it restores the interrupt level: nothing fails; it has made a ready
  thread with an identifier that no thread has, the caller as parent, the caller's registers and an
  address space of its own with exactly the caller's memory; the caller has one more child, no other thread and
  no other memory changed, and the invariant of the thread system holds. What follows is that \<open>SetLevel\<close>,
  which may be a clock tick, and, if the caller still has the CPU then, the return of the child's
  identifier. The identifiers are fresh because all that were given are below the counter
  (\<open>ids_below\<close>), and they are so again afterwards.
\<close>

theorem System_Fork_clones:
  fixes s :: "'h system"
  assumes "sched_inv s" "running s" "currentSpace s = Some par" "spaces s sid = None"
    and th: "threads s (currentThread s) = Some th" and ids: "ids_below s"
  shows "\<exists>u ch. System_Fork tick junk js f sid s =
      bind_res (SetLevel tick (level s) u) (\<lambda>(_, w). continue (currentThread s) (\<lambda>w. Inr (Some (threadid s), w)) w) \<and>
    sched_inv u \<and> running u \<and> threads s (nextThread s) = None \<and>
    threads u = (threads s)(nextThread s \<mapsto> ch, currentThread s \<mapsto> th\<lparr>Children := Children th + 1\<rparr>) \<and>
    tstatus ch = READY \<and> ThreadID ch = threadid s \<and> (\<forall>t h. threads s t = Some h \<longrightarrow> ThreadID h \<noteq> ThreadID ch) \<and>
    ids_below u \<and> ParentPtr ch = Some (currentThread s) \<and> tspace ch = Some sid \<and>
    frames ch = [ThreadRoot_frame f 0] \<and> (\<forall>i < NumTotalRegs. userRegisters ch i = registers s i) \<and>
    (\<forall>a. umem u sid a = umem s par a) \<and> (\<forall>ow a. ow \<noteq> sid \<longrightarrow> umem u ow a = umem s ow a)"
proof -
  have "threads s (nextThread s) = None" using assms(1) by (fastforce simp: sched_inv_def all_inv_def)
  moreover from System_Fork_ok [OF assms(1-5), of tick junk js f] obtain u where
    "System_Fork tick junk js f sid s =
      bind_res (SetLevel tick (level s) u) (\<lambda>(_, w). continue (currentThread s) (\<lambda>w. Inr (Some (threadid s), w)) w)"
    "sched_inv u" "running u" "threadid u = threadid s + 1"
    "threads u = (threads s)(nextThread s \<mapsto> (forked junk f sid s)\<lparr>tstatus := READY\<rparr>, currentThread s \<mapsto> Add_Child th)"
    "\<forall>w k. vbyte u sid w k = vbyte s par w k" "\<forall>ow w k. ow \<noteq> sid \<longrightarrow> vbyte u ow w k = vbyte s ow w k" by blast
  ultimately show ?thesis
    by (intro exI [of _ u] exI [of _ "(forked junk f sid s)\<lparr>tstatus := READY\<rparr>"])
      (use ids th in \<open>force simp: umem_def forked_def Add_Child_def ids_below_def split: if_splits\<close>)
qed

theorem System_Fork_clones_witness:
  "\<exists>t ch. System_Fork Inr (\<lambda>_. 0) 0 TimerHandler 9 (family parent_thread child_thread) = Inr (Some 3, t) \<and>
    threads t 3 = Some ch \<and> tspace ch = Some 9 \<and> umem t 9 65 = Some 65"
proof -
  let ?s = "family parent_thread child_thread"
  have "spaces ?s 9 = None" by (simp add: sample_vm_def)
  moreover have "ids_below ?s" by (auto simp: ids_below_def parent_thread_def child_thread_def sample_thread_def split: if_splits)
  note System_Fork_clones [OF family_wf _ _ _ this, where tick = Inr and junk = "\<lambda>_. 0" and js = 0 and f = TimerHandler and par = 1 and sid = 9]
  ultimately obtain u ch where u: "System_Fork Inr (\<lambda>_. 0) 0 TimerHandler 9 ?s =
      bind_res (SetLevel Inr (level ?s) u) (\<lambda>(_, w). continue 1 (\<lambda>w. Inr (Some 3, w)) w)" "running u"
    "threads u = [1 \<mapsto> parent_thread, 2 \<mapsto> child_thread, 3 \<mapsto> ch, 1 \<mapsto> parent_thread\<lparr>Children := Children parent_thread + 1\<rparr>]"
    "tspace ch = Some 9" "\<forall>a. umem u 9 a = umem ?s 1 a" "sched_inv u" "tstatus ch = READY" by auto
  from u(2,3,7) obtain th where "threads u (currentThread u) = Some th" "tstatus th = RUNNING" by (auto simp: running_def)
  with u(3,7) have "currentThread u = 1" by (auto split: if_splits)
  with u(1) have "System_Fork Inr (\<lambda>_. 0) 0 TimerHandler 9 ?s = Inr (Some 3, u\<lparr>level := IntOff\<rparr>)" by (simp add: continue_def)
  moreover have "umem u 9 65 = Some 65" using u(5) family_page(3) [of 65] by simp
  moreover have "umem (u\<lparr>level := IntOff\<rparr>) = umem u" by (intro ext) (simp add: umem_def vbyte_def)
  ultimately show ?thesis using u(3,4) by (intro exI [of _ "u\<lparr>level := IntOff\<rparr>"] exI [of _ ch]) simp
qed

text \<open>
  C22: the child of a \<open>Fork\<close> starts in \<open>Do_Fork\<close>, which puts it right behind its parent's system call: its own page
  table installed, the parent's registers, the program counters advanced by one instruction, and 0 as the
  result of the call.
\<close>

theorem Do_Fork_resumes:
  fixes s :: "'h system"
  assumes th: "threads s (currentThread s) = Some th" "tspace th = Some sid" "spaces s sid \<noteq> None" and ld: "userRegisters th LoadReg = 0"
  shows "\<exists>t. Do_Fork s = Inr t \<and> installed t = Some sid \<and> registers t 2 = 0 \<and>
    registers t PCReg = userRegisters th NextPCReg \<and> registers t NextPCReg = userRegisters th NextPCReg + 4 \<and>
    registers t PrevPCReg = userRegisters th PCReg \<and> (\<forall>i. 0 < i \<and> i < 34 \<and> i \<noteq> 2 \<longrightarrow> registers t i = userRegisters th i) \<and>
    threads t = threads s \<and> currentThread t = currentThread s \<and> umem t = umem s"
proof -
  let ?r = "\<lambda>i. if i < NumTotalRegs then userRegisters th i else registers s i"
  from th(3) obtain a where "spaces s sid = Some a" by blast
  with th RestoreUserState_ok [OF th(1)] have "Do_Fork s = Fix_Fork_Registers (s\<lparr>registers := ?r, installed := Some sid\<rparr>)"
    by (simp add: Do_Fork_def RestoreState_def)
  moreover have "DelayedLoad 0 0 (s\<lparr>registers := ?r, installed := Some sid\<rparr>) = Inr (s\<lparr>installed := Some sid,
      registers := (?r(0 := ?r LoadValueReg))(LoadReg := 0, LoadValueReg := 0, 0 := 0)\<rparr>)"
    using ld by (simp add: DelayedLoad_def reg_defs Let_def)
  moreover have "umem (s\<lparr>installed := x, registers := y\<rparr>) = umem s" for x y by (intro ext) (simp add: umem_def vbyte_def)
  ultimately show ?thesis using ld by (simp add: Fix_Fork_Registers_def set_reg_def reg_defs Let_def)
qed

theorem Do_Fork_resumes_witness:
  "\<exists>t. Do_Fork (family (parent_thread\<lparr>userRegisters := (\<lambda>i. if i = LoadReg then 0 else of_nat i)\<rparr>) child_thread) = Inr t \<and>
    registers t 2 = 0 \<and> registers t PCReg = 35 \<and> registers t 4 = 4"
proof -
  let ?p = "parent_thread\<lparr>userRegisters := (\<lambda>i. if i = LoadReg then 0 else of_nat i)\<rparr>"
  have "threads (family ?p child_thread) (currentThread (family ?p child_thread)) = Some ?p" "tspace ?p = Some 1"
    "spaces (family ?p child_thread) 1 \<noteq> None" "userRegisters ?p LoadReg = 0"
    by (simp_all add: sample_vm_def)
  from Do_Fork_resumes [OF this] obtain t where "Do_Fork (family ?p child_thread) = Inr t" "registers t 2 = 0"
    "registers t PCReg = userRegisters ?p NextPCReg" "\<forall>i. 0 < i \<and> i < 34 \<and> i \<noteq> 2 \<longrightarrow> registers t i = userRegisters ?p i" by blast
  moreover from this(4) have "registers t 4 = userRegisters ?p 4" by simp
  ultimately show ?thesis by (intro exI [of _ t]) (simp add: reg_defs)
qed

text \<open>
  C23: a process that exits leaves its exit value in its thread object, is queued with its parent and counted by
  the parent's semaphore; a parent that waits becomes ready. Nobody else is touched, no memory changes, and the
  invariant of the thread system holds (up to the point where the interrupt level is restored).
\<close>

theorem Exit_signal_wakes:
  fixes s :: "'h system"
  assumes "sched_inv s" "running s" "threads s (currentThread s) = Some th"
    and "threads s parent = Some ph" "parent \<noteq> currentThread s" "represents (ChildList ph) cs"
    and "represents (sem_queue (ChildExited ph)) q" "q = [] \<or> q = [parent] \<and> tstatus ph = BLOCKED"
  shows "\<exists>u ph'. Exit_signal tick v parent s = bind_res (SetLevel tick (level s) u) (\<lambda>(_, w). Inr w) \<and>
    sched_inv u \<and> running u \<and> currentThread u = currentThread s \<and> umem u = umem s \<and>
    threads u = (threads s)(currentThread s \<mapsto> th\<lparr>thread_exit_status := False, exitval := v\<rparr>, parent \<mapsto> ph') \<and>
    represents (ChildList ph') (cs @ [currentThread s]) \<and> tstatus ph' = (if q = [] then tstatus ph else READY) \<and>
    sem_value (ChildExited ph') = sem_value (ChildExited ph) + 1"
proof -
  have "umem u = umem s" if "vm_core u = vm_core s" for u :: "'h system"
    using vm_core_vbyte [OF that] by (simp add: umem_def fun_eq_iff)
  with Exit_signal_ok [OF assms, of tick v] show ?thesis by blast
qed

definition waiting_thread :: "kernel_func Thread" where
  "waiting_thread = (sample_thread BLOCKED 2 2)\<lparr>Children := 1, ChildExited := \<lparr>sem_value = 0, sem_queue = one_list 2\<rparr>\<rparr>"

theorem Exit_signal_wakes_witness:
  "\<exists>t ph. Exit_signal Inr 42 2 (family parent_thread waiting_thread) = Inr t \<and> threads t 2 = Some ph \<and>
    tstatus ph = READY \<and> represents (ChildList ph) [1] \<and> sem_value (ChildExited ph) = 1"
proof -
  let ?s = "family parent_thread waiting_thread"
  have w: "tstatus waiting_thread = BLOCKED" "tspace waiting_thread = Some 2" "represents (ChildList waiting_thread) []"
    "represents (sem_queue (ChildExited waiting_thread)) [2]" "sem_value (ChildExited waiting_thread) = 0"
    by (simp_all add: waiting_thread_def represents_one sample_thread_def represents_new)
  have inv: "sched_inv ?s" "running ?s" using family_inv [of parent_thread waiting_thread] w(1,2) by simp_all
  have "\<exists>u ph'. Exit_signal Inr 42 2 ?s = bind_res (SetLevel Inr (level ?s) u) (\<lambda>(_, w). Inr w) \<and>
    sched_inv u \<and> running u \<and> currentThread u = currentThread ?s \<and> umem u = umem ?s \<and>
    threads u = (threads ?s)(currentThread ?s \<mapsto> parent_thread\<lparr>thread_exit_status := False, exitval := 42\<rparr>, 2 \<mapsto> ph') \<and>
    represents (ChildList ph') ([] @ [currentThread ?s]) \<and> tstatus ph' = (if [2 :: nat] = [] then tstatus waiting_thread else READY) \<and>
    sem_value (ChildExited ph') = sem_value (ChildExited waiting_thread) + 1"
    by (rule Exit_signal_wakes [OF inv _ _ _ w(3,4)]) (simp_all add: w(1))
  then obtain u ph where "Exit_signal Inr 42 2 ?s = Inr (u\<lparr>level := IntOff\<rparr>)" "threads u 2 = Some ph" "tstatus ph = READY"
    "represents (ChildList ph) [1]" "sem_value (ChildExited ph) = 1" using w(5) by auto
  then show ?thesis by (intro exI [of _ "u\<lparr>level := IntOff\<rparr>"] exI [of _ ph]) simp
qed

text \<open>
  C24: when \<open>System_Wait\<close> has taken the semaphore, it stores the exit value of the child that exited first at the
  user's address, and returns the child's identifier. The address is a multiple of 4, not null, and its page
  resident; if it is shared, a frame can be found for the copy and the swap file has room. A child that is a
  zombie by then, and that nobody waits for (\<open>deletable\<close>), is destroyed: its thread object and its address
  space are gone and its open files closed. A child that has signalled but does not sleep yet stays, and is
  told to finish by itself. The other threads stay, no other byte of a living process changes, and the
  invariant holds.
\<close>

theorem Wait_collects:
  fixes s :: "'h system"
  assumes "sched_inv s" "running s" "threadToBeDestroyed s = None" "currentSpace s = Some sid" "breakpoints s = []"
    and "threads s (currentThread s) = Some th" "represents (ChildList th) (c # cs)" "1 \<le> Children th"
    and "threads s c = Some ch" "c \<noteq> currentThread s" "tstatus ch = ZOMBIE \<longrightarrow> deletable s ch"
    and "addr \<noteq> 0" "ent (spaces s) sid (unat addr div PageSize) = Some te" "valid te" "\<not> misaligned addr 4"
    and dup: "cow te \<longrightarrow> frame_ready s (int (physicalPage te)) \<and> swap_room s"
  shows "\<exists>u l. Wait_collect (ExceptionHandler sc) junk addr s = Inr (Some (ThreadID ch), u) \<and> sched_inv u \<and> running u \<and>
    currentThread u = currentThread s \<and>
    threads u = ((threads s)(currentThread s \<mapsto> th\<lparr>ChildList := l, Children := Children th - 1\<rparr>))
      (c := (if tstatus ch = ZOMBIE then None else Some (ch\<lparr>thread_exit_status := True, exitval := - exitval ch\<rparr>))) \<and>
    represents l cs \<and>
    (\<forall>t h ow a. threads u t = Some h \<longrightarrow> tspace h = Some ow \<longrightarrow>
      umem u ow a = stored (umem s) sid (unat addr) 4 (exitval ch) ow a) \<and>
    (if tstatus ch = ZOMBIE
     then (\<forall>ow. tspace ch = Some ow \<longrightarrow> spaces u ow = None) \<and>
       closedFiles u = closedFiles s @ concat (map fd_files (take MAX_FD (FDTable ch)))
     else closedFiles u = closedFiles s)"
  unfolding dismissed_def [symmetric] by (rule Wait_collect_ok [OF assms(1-10)]) (use assms(11-15) dup in blast)+

theorem Wait_collects_witness:
  "\<exists>t. Wait_collect (ExceptionHandler (\<lambda>_. Inr)) 0 8 (family parent_thread child_thread) = Inr (Some 2, t) \<and>
    threads t 2 = None \<and> umem t 1 8 = Some 42 \<and> umem t 1 9 = Some 0 \<and> umem t 1 12 = Some 12"
proof -
  let ?s = "family parent_thread child_thread"
  have p: "unat (8 :: uint32) div PageSize = 0" by (simp add: PageSize_def SectorSize_def)
  have th: "represents (ChildList parent_thread) (2 # [])" "1 \<le> Children parent_thread" "(8 :: uint32) \<noteq> 0" "\<not> misaligned 8 4"
    by (simp_all add: parent_thread_def represents_one misaligned_def)
  have dl: "tstatus child_thread = ZOMBIE \<longrightarrow> deletable ?s child_thread"
    using sample_ent [of "()" 2 0] by (simp add: deletable_def child_thread_def KernelSemaphore_new_def represents_new
      shared_entry_def zero_entry_def SetupTable_entry_def NumPhysPages_def)
  from Wait_collects [OF family_wf _ _ _ _ th(1,2) _ _ dl th(3) _ family_page(2) th(4), where sc = "\<lambda>_. Inr" and junk = 0 and sid = 1]
    family_page(1) p obtain u l where u: "Wait_collect (ExceptionHandler (\<lambda>_. Inr)) 0 8 ?s = Inr (Some (ThreadID child_thread), u)"
    "threads u = ((threads ?s)(1 \<mapsto> parent_thread\<lparr>ChildList := l, Children := Children parent_thread - 1\<rparr>))(2 := None)"
    and mem: "\<And>t h ow a. threads u t = Some h \<Longrightarrow> tspace h = Some ow \<Longrightarrow> umem u ow a = stored (umem ?s) 1 8 4 (exitval child_thread) ow a"
    by auto
  from u(2) mem [of 1] have "umem u 1 a = stored (umem ?s) 1 8 4 42 1 a" for a by (simp add: child_thread_def)
  moreover have "umem ?s 1 12 = Some 12" using family_page(3) [of 12] by simp
  ultimately show ?thesis using u by (intro exI [of _ u]) (simp add: stored_def child_thread_def sample_thread_def)
qed

end
