(* ===== verification/Synch_Properties.thy ===== *)
theory Synch_Properties
  imports Synch Thread_Properties
begin

text \<open>
  The kernel's thread system keeps the promises that the synchronization objects rely on, an instance
  of \<open>thread_scheduling\<close>, and the properties of semaphores and locks in the kernel.
\<close>

section \<open>Idling wakes nobody\<close>

text \<open>The timer's handlers leave the ready list and the threads' states alone.\<close>

definition quiet :: "'h system \<Rightarrow> 'h system \<Rightarrow> bool" where
  "quiet s t \<longleftrightarrow> readyList t = readyList s"

lemma quiet_refl [simp]: "quiet s s"
  and quiet_trans: "quiet s t \<Longrightarrow> quiet t u \<Longrightarrow> quiet s u"
  by (simp_all add: quiet_def)

lemma SetLevel_Inr: "SetLevel Inr now s = Inr (old, t) \<Longrightarrow> t = s\<lparr>level := now\<rparr>"
  by (auto simp: SetLevel_def ChangeLevel_def Let_def assert_res_def split: if_splits)

lemma Schedule_quiet: "Schedule Inr h a n ty s = Inr t \<Longrightarrow> quiet s t"
  by (auto simp: Schedule_def Let_def quiet_def assert_res_eq_Inr bind_res_eq_Inr dest!: SetLevel_Inr)

lemma refreshWss_quiet: "refreshWss fuel False delta s = Inr t \<Longrightarrow> quiet s t"
  by (auto simp: refreshWss_def res_eq_Inr quiet_def Let_def)

lemma SchedTimer_quiet: "SchedTimerInterruptHandler fuel False delta a s = Inr t \<Longrightarrow> quiet s t"
proof -
  assume h: "SchedTimerInterruptHandler fuel False delta a s = Inr t"
  show ?thesis
  proof (cases "mstatus s \<noteq> IdleMode")
    case False
    with h show ?thesis by (simp add: SchedTimerInterruptHandler_def)
  next
    case True
    with h obtain th where th: "(let (refresh, th1) = incrWssRefreshCounter th in
        bind_res (upd_thread (currentThread s) (\<lambda>_. th1) s) (\<lambda>s1.
        bind_res (if refresh then refreshWss fuel False delta s1 else Inr s1) YieldOnReturn)) = Inr t"
      by (auto simp: SchedTimerInterruptHandler_def bind_res_eq_Inr)
    obtain r th1 where "incrWssRefreshCounter th = (r, th1)" by (cases "incrWssRefreshCounter th")
    with th obtain s1 s2 where st: "upd_thread (currentThread s) (\<lambda>_. th1) s = Inr s1"
      "(if r then refreshWss fuel False delta s1 else Inr s1) = Inr s2" "YieldOnReturn s2 = Inr t"
      by (auto simp: bind_res_eq_Inr)
    have "quiet s s1" using st(1) by (auto simp: upd_thread_def deref_res_eq_Inr quiet_def)
    moreover have "quiet s1 s2" using st(2) refreshWss_quiet [of fuel delta s1 s2] by (simp split: if_splits)
    moreover have "quiet s2 t" using st(3) by (auto simp: YieldOnReturn_def assert_res_eq_Inr quiet_def)
    ultimately show ?thesis by (metis quiet_trans)
  qed
qed

lemma kernel_call_quiet: "kernel_call rnd tm fuel False delta h a s = Inr t \<Longrightarrow> quiet s t"
proof (cases h)
  case TimerHandler
  assume "kernel_call rnd tm fuel False delta h a s = Inr t"
  with TimerHandler have "bind_res (Schedule Inr TimerHandler 0 (TimeOfNextInterrupt (rnd s) tm) TimerInt s)
      (SchedTimerInterruptHandler fuel False delta (timer_arg tm)) = Inr t" by (simp add: TimerExpired_def)
  then obtain u where u: "Schedule Inr TimerHandler 0 (TimeOfNextInterrupt (rnd s) tm) TimerInt s = Inr u"
    "SchedTimerInterruptHandler fuel False delta (timer_arg tm) u = Inr t" unfolding bind_res_eq_Inr by blast
  from Schedule_quiet [OF u(1)] SchedTimer_quiet [OF u(2)] show ?thesis by (rule quiet_trans)
qed (simp add: SchedTimer_quiet)

lemma HandleIfDue_quiet:
  assumes "HandleIfDue (kernel_call rnd tm fuel False delta) b s = Inr (r, t)" shows "quiet s t"
proof -
  let ?call = "kernel_call rnd tm fuel False delta"
  from assms obtain p where p: "(if pi_when p > totalTicks s then Inr (b, s)
     else bind_res (Remove (pending s)) (\<lambda>(_, l).
       let s1 = s\<lparr>pending := l\<rparr> in
       if mstatus s1 = IdleMode \<and> pi_type p = TimerInt \<and> IsEmpty l then
         bind_res (Insert interruptOrder p l) (\<lambda>l1. Inr (False, s1\<lparr>pending := l1\<rparr>))
       else
         bind_res (DelayedLoad 0 0 s1) (\<lambda>s2.
         bind_res (?call (pi_handler p) (pi_arg p) (s2\<lparr>inHandler := True, mstatus := SystemMode\<rparr>)) (\<lambda>s3.
         let s4 = s3\<lparr>mstatus := mstatus s, inHandler := False\<rparr> in
         if IsEmpty (pending s4) then Inr (False, s4)
         else bind_res (Head (pending s4)) (\<lambda>nxt.
           deref_res nxt (\<lambda>q. Inr (pi_when q = pi_when p, s4))))))) = Inr (r, t)"
    unfolding HandleIfDue_def assert_res_eq_Inr bind_res_eq_Inr [of "Head (pending s)"] deref_res_eq_Inr by blast
  show ?thesis
  proof (cases "pi_when p > totalTicks s")
    case True
    with p show ?thesis by simp
  next
    case False
    with p obtain l where l: "(if mstatus s = IdleMode \<and> pi_type p = TimerInt \<and> IsEmpty l then
         bind_res (Insert interruptOrder p l) (\<lambda>l1. Inr (False, s\<lparr>pending := l, pending := l1\<rparr>))
       else
         bind_res (DelayedLoad 0 0 (s\<lparr>pending := l\<rparr>)) (\<lambda>s2.
         bind_res (?call (pi_handler p) (pi_arg p) (s2\<lparr>inHandler := True, mstatus := SystemMode\<rparr>)) (\<lambda>s3.
         let s4 = s3\<lparr>mstatus := mstatus s, inHandler := False\<rparr> in
         if IsEmpty (pending s4) then Inr (False, s4)
         else bind_res (Head (pending s4)) (\<lambda>nxt.
           deref_res nxt (\<lambda>q. Inr (pi_when q = pi_when p, s4)))))) = Inr (r, t)"
      by (simp add: bind_res_eq_Inr [of "Remove (pending s)"] Let_def split_paired_Ex) blast
    show ?thesis
    proof (cases "mstatus s = IdleMode \<and> pi_type p = TimerInt \<and> IsEmpty l")
      case True
      with l show ?thesis by (auto simp: bind_res_eq_Inr quiet_def)
    next
      case False
      with l obtain s2 s3 where s: "DelayedLoad 0 0 (s\<lparr>pending := l\<rparr>) = Inr s2"
        "?call (pi_handler p) (pi_arg p) (s2\<lparr>inHandler := True, mstatus := SystemMode\<rparr>) = Inr s3"
        "t = s3\<lparr>mstatus := mstatus s, inHandler := False\<rparr>"
        by (auto simp: bind_res_eq_Inr deref_res_eq_Inr Let_def split: if_splits)
      have "readyList s2 = readyList s" using s(1) by (auto simp: DelayedLoad_def Let_def split: if_splits)
      with kernel_call_quiet [OF s(2)] s(3) show ?thesis by (simp add: quiet_def)
    qed
  qed
qed

lemma handle_due_quiet: "handle_due n (kernel_call rnd tm fuel False delta) s = Inr t \<Longrightarrow> quiet s t"
proof (induction n arbitrary: s)
  case (Suc n)
  then obtain r u where u: "HandleIfDue (kernel_call rnd tm fuel False delta) False s = Inr (r, u)"
    "(if r then handle_due n (kernel_call rnd tm fuel False delta) u else Inr u) = Inr t" by (auto simp: bind_res_eq_Inr)
  from u(2) Suc.IH [of u] have "quiet u t" by (cases r) simp_all
  with HandleIfDue_quiet [OF u(1)] show ?case using quiet_trans by blast
qed simp

lemma Idle_quiet:
  assumes "Idle (kernel_call rnd tm fuel False delta) s = Inr t" shows "readyList t = readyList s"
proof -
  let ?call = "kernel_call rnd tm fuel False delta"
  have h: "HandleIfDue ?call b u = Inr (r, v) \<Longrightarrow> readyList v = readyList u" for b u r v
    using HandleIfDue_quiet by (simp add: quiet_def)
  have l: "handle_all_due ?call u = Inr v \<Longrightarrow> readyList v = readyList u" for u v
    using handle_due_quiet [of "Suc (brk (pending u))" rnd tm fuel delta u v] by (simp add: quiet_def handle_all_due_def)
  show ?thesis
    using assms by (auto simp: Idle_def Halt_def bind_res_eq_Inr deref_res_eq_Inr split: if_splits dest!: h l)
qed

lemma Sleep_loop_empty:
  assumes "represents (readyList s) []"
  shows "Sleep_loop n (kernel_call rnd tm fuel False delta) s \<noteq> Inr r"
  using assms
proof (induction n arbitrary: s)
  case (Suc n)
  show ?case
  proof
    assume "Sleep_loop (Suc n) (kernel_call rnd tm fuel False delta) s = Inr r"
    then obtain nx u where u: "FindNextToRun s = Inr (nx, u)"
      "(case nx of Some k \<Rightarrow> Inr (k, u) | None \<Rightarrow> bind_res (Idle (kernel_call rnd tm fuel False delta) u)
          (Sleep_loop n (kernel_call rnd tm fuel False delta))) = Inr r" by (auto simp: bind_res_eq_Inr)
    from Remove_ok [OF Suc.prems] obtain l where l: "Remove (readyList s) = Inr (None, l)" "represents l []" by auto
    from u(1) l(1) have nu: "nx = None" "readyList u = l"
      by (auto simp: FindNextToRun_def Halt_def bind_res_eq_Inr assert_res_eq_Inr split: if_splits)
    with u(2) obtain v where v: "Idle (kernel_call rnd tm fuel False delta) u = Inr v"
      "Sleep_loop n (kernel_call rnd tm fuel False delta) v = Inr r" by (auto simp: bind_res_eq_Inr)
    from Idle_quiet [OF v(1)] nu(2) l(2) have "represents (readyList v) []" by simp
    from Suc.IH [OF this] v(2) show False by simp
  qed
qed simp

section \<open>The instance\<close>

lemma made_ready_blocked:
  assumes inv: "sched_inv s" "running s" and t: "threads s t = Some th" "tstatus th = BLOCKED"
  shows "\<exists>u. ReadyToRun t s = Inr u \<and> sched_inv u \<and> running u \<and> currentThread u = currentThread s \<and>
    blocked u = blocked s - {t}"
proof -
  from made_ready_inv [OF inv t(1)] t(2) obtain l where "ReadyToRun t s = Inr (made_ready t th l s)"
    "sched_inv (made_ready t th l s)" "running (made_ready t th l s)" by auto
  moreover have "blocked (made_ready t th l s) = blocked s - {t}" by (auto simp: blocked_def made_ready_def split: if_splits)
  ultimately show ?thesis by (auto simp: made_ready_def)
qed

text \<open>The kernel with the scheduler's timer: its \<open>Sleep\<close> has some fuel and idles with the timer's handlers.\<close>

definition kernel_good :: "'h system \<Rightarrow> bool" where
  "kernel_good s \<longleftrightarrow> sched_inv s \<and> running s"

definition kernel_sleep ::
  "nat \<Rightarrow> (kernel_func system \<Rightarrow> uint32) \<Rightarrow> kernel_func Timer \<Rightarrow> nat \<Rightarrow> int \<Rightarrow> kernel_func system \<Rightarrow> kernel_func system res" where
  "kernel_sleep n rnd tm fuel delta s = Sleep n (kernel_call rnd tm fuel False delta) (currentThread s) s"

interpretation kernel_threads: thread_scheduling kernel_good currentThread blocked ReadyToRun "kernel_sleep n rnd tm fuel delta"
  for n rnd tm fuel delta
proof unfold_locales
  fix s :: "kernel_func system" and t s'
  assume good: "kernel_good s"
  then show "currentThread s \<notin> blocked s" by (auto simp: kernel_good_def running_def blocked_def)
  show "\<exists>s'. ReadyToRun t s = Inr s' \<and> kernel_good s' \<and> currentThread s' = currentThread s \<and> blocked s' = blocked s - {t}"
    if "t \<in> blocked s"
    using that good made_ready_blocked [of s t] by (auto simp: kernel_good_def blocked_def)
  show "kernel_good s' \<and> blocked s' = insert (currentThread s) (blocked s)" if sl: "kernel_sleep n rnd tm fuel delta s = Inr s'"
  proof -
    from good obtain xs where xs: "ready_inv s xs" by (auto simp: kernel_good_def sched_inv_def)
    from sl have lv: "level s = IntOff" by (auto simp: kernel_sleep_def Sleep_def assert_res_eq_Inr)
    from sl obtain s1 r where s1: "setStatus (currentThread s) BLOCKED s = Inr s1"
      "Sleep_loop n (kernel_call rnd tm fuel False delta) s1 = Inr r"
      by (auto simp: kernel_sleep_def Sleep_def assert_res_eq_Inr bind_res_eq_Inr)
    have "readyList s1 = readyList s" using s1(1) by (auto simp: setStatus_def upd_thread_def deref_res_eq_Inr)
    with xs Sleep_loop_empty [of s1 n rnd tm fuel delta r] s1(2) obtain k ys where ks: "xs = k # ys"
      by (cases xs) (auto simp: ready_inv_def)
    from s1(2) obtain m where "n = Suc m" by (cases n) auto
    with Sleep_ok [of s k ys m "kernel_call rnd tm fuel False delta"] good xs ks lv sl show ?thesis
      by (auto simp: kernel_good_def kernel_sleep_def)
  qed
qed

section \<open>Properties\<close>

definition sample_timer :: "kernel_func Timer" where
  "sample_timer = \<lparr>randomize = False, timer_handler = SchedTimer, timer_arg = 0, period = 110\<rparr>"

text \<open>
  C16: a semaphore of the kernel, used by any number of threads in any order: its value is never negative
  and is the initial value plus the completed \<open>V\<close>s minus the completed \<open>P\<close>s. No wake-up is lost: the
  threads that are blocked inside \<open>P\<close> are exactly those in the queue, each once, so a thread that \<open>V\<close>
  took off the queue is ready or running; and while a thread is queued, each available unit has a
  thread inside \<open>P\<close> that is awake. (What else runs does not block or wake the threads in this \<open>P\<close>.)
\<close>

theorem semaphore_safe:
  assumes "(sem_step kernel_good currentThread blocked ReadyToRun (kernel_sleep n rnd tm fuel delta))\<^sup>*\<^sup>* (sem_init v0 s) w"
    and "sched_inv s" "running s" "0 \<le> v0"
  shows "\<exists>q. represents (sem_queue (sw_sem w)) q \<and> distinct q \<and> set q = inside w \<inter> blocked (sw_sys w) \<and>
    0 \<le> sem_value (sw_sem w) \<and> sem_value (sw_sem w) = v0 + int (given w) - int (taken w) \<and>
    (q \<noteq> [] \<longrightarrow> sem_value (sw_sem w) \<le> int (card (inside w - set q)))"
proof -
  have "kernel_good s" using assms(2,3) by (simp add: kernel_good_def)
  from kernel_threads.sem_reachable_inv [OF assms(1) this assms(4)] obtain q where "sem_inv kernel_good blocked v0 w q" by blast
  then show ?thesis by (intro exI [of _ q]) (auto simp: sem_inv_def)
qed

theorem semaphore_safe_witness:
  "\<exists>w. (sem_step kernel_good currentThread blocked ReadyToRun (kernel_sleep 1 (\<lambda>_. 0) sample_timer 0 1))\<^sup>*\<^sup>*
      (sem_init 1 (sample_system True)) w \<and> taken w = 1 \<and> sem_value (sw_sem w) = 0"
proof -
  let ?step = "sem_step kernel_good currentThread blocked ReadyToRun (kernel_sleep 1 (\<lambda>_. 0) sample_timer 0 1)"
  let ?w0 = "sem_init 1 (sample_system True)"
  let ?w1 = "?w0\<lparr>inside := {1}\<rparr>"
  let ?w2 = "?w1\<lparr>sw_sem := (sw_sem ?w1)\<lparr>sem_value := 0\<rparr>, sw_sys := sample_system True, inside := {}, taken := 1\<rparr>"
  have "?step ?w0 ?w1"
    using sem_step.enter [of currentThread ?w0 kernel_good blocked ReadyToRun] by (simp add: sem_init_def)
  moreover have "?step ?w1 ?w2"
    using sem_step.take [of currentThread ?w1 "kernel_sleep 1 (\<lambda>_. 0) sample_timer 0 1" "(sw_sem ?w1)\<lparr>sem_value := 0\<rparr>" "sample_system True"
        kernel_good blocked ReadyToRun]
    by (simp add: sem_init_def P_round_def KernelSemaphore_new_def)
  ultimately have "?step\<^sup>*\<^sup>* ?w0 ?w2" by (meson converse_rtranclp_into_rtranclp r_into_rtranclp)
  moreover from semaphore_safe [OF this kernel_sample_sched [of True]] have "sem_value (sw_sem ?w2) = 1 + int (given ?w2) - int (taken ?w2)"
    by auto
  ultimately show ?thesis by (intro exI [of _ ?w2]) (simp add: sem_init_def)
qed

text \<open>A thread takes the lock, and takes it again.\<close>

definition held_world :: "nat set \<Rightarrow> kernel_func system lock_world" where
  "held_world acq = \<lparr>lw_lock = \<lparr>lock_owner = Some 1, lock_queue = List_new\<rparr>, lw_sys = sample_system True, acquiring = acq,
     holding = {1}\<rparr>"

lemma held_world_reachable:
  "(lock_step kernel_good currentThread blocked ReadyToRun (kernel_sleep 1 (\<lambda>_. 0) sample_timer 0 1))\<^sup>*\<^sup>*
     (lock_init (sample_system True)) (held_world {})"
  "(lock_step kernel_good currentThread blocked ReadyToRun (kernel_sleep 1 (\<lambda>_. 0) sample_timer 0 1))\<^sup>*\<^sup>*
     (lock_init (sample_system True)) (held_world {1})"
proof -
  let ?step = "lock_step kernel_good currentThread blocked ReadyToRun (kernel_sleep 1 (\<lambda>_. 0) sample_timer 0 1)"
  let ?w0 = "lock_init (sample_system True)"
  let ?w1 = "?w0\<lparr>acquiring := {1}\<rparr>"
  have "?step ?w0 ?w1"
    using lock_step.lock_enter [of currentThread ?w0 kernel_good blocked ReadyToRun] by (simp add: lock_init_def)
  moreover have "?step ?w1 (held_world {})"
    using lock_step.lock_take [of currentThread ?w1 "kernel_sleep 1 (\<lambda>_. 0) sample_timer 0 1"
        "\<lparr>lock_owner = Some 1, lock_queue = List_new\<rparr>" "sample_system True" kernel_good blocked ReadyToRun]
    by (simp add: lock_init_def Acquire_round_def Lock_new_def held_world_def)
  ultimately show *: "?step\<^sup>*\<^sup>* ?w0 (held_world {})" by (meson converse_rtranclp_into_rtranclp r_into_rtranclp)
  have "?step (held_world {}) (held_world {1})"
    using lock_step.lock_enter [of currentThread "held_world {}" kernel_good blocked ReadyToRun] by (simp add: held_world_def)
  with * show "?step\<^sup>*\<^sup>* ?w0 (held_world {1})" by (rule rtranclp.rtrancl_into_rtrancl)
qed

text \<open>
  C17: at most one thread holds a lock of the kernel, and it is the owner on record.
\<close>

theorem lock_mutual_exclusion:
  assumes "(lock_step kernel_good currentThread blocked ReadyToRun (kernel_sleep n rnd tm fuel delta))\<^sup>*\<^sup>* (lock_init s) w"
    and "sched_inv s" "running s"
  shows "\<forall>t \<in> holding w. lock_owner (lw_lock w) = Some t \<and> holding w = {t}"
proof -
  have "kernel_good s" using assms(2,3) by (simp add: kernel_good_def)
  from kernel_threads.lock_reachable_inv [OF assms(1) this] obtain q where "lock_inv kernel_good blocked w q" by blast
  then have own: "lock_owner (lw_lock w) = Some t" if "t \<in> holding w" for t using that by (simp add: lock_inv_def)
  show ?thesis
  proof
    fix t assume t: "t \<in> holding w"
    have "u = t" if "u \<in> holding w" for u using own [OF that] own [OF t] by simp
    with own t show "lock_owner (lw_lock w) = Some t \<and> holding w = {t}" by blast
  qed
qed

theorem lock_mutual_exclusion_witness:
  "(1 :: nat) \<in> holding (held_world {}) \<and> lock_owner (lw_lock (held_world {})) = Some 1 \<and> holding (held_world {}) = {1}"
  using lock_mutual_exclusion [OF held_world_reachable(1) kernel_sample_sched [of True]] by (simp add: held_world_def)

text \<open>
  C18: a lock is lost as soon as a thread has to wait for it. When the holder releases it while another
  thread sleeps in \<open>Acquire\<close>, \<open>Release\<close> makes that thread the owner, but \<open>Acquire\<close> goes on only when
  there is no owner. Once the owner on record is in \<open>Acquire\<close>, by such a release or because a holder
  acquires again (as \<open>Condition::Signal\<close> makes it do), it stays there whatever the threads do, and
  nobody else ever holds the lock.
\<close>

theorem lock_deadlock:
  assumes "(lock_step kernel_good currentThread blocked ReadyToRun (kernel_sleep n rnd tm fuel delta))\<^sup>*\<^sup>* (lock_init s) w"
    and "sched_inv s" "running s"
  shows "(\<forall>t w'. lock_stuck w t \<longrightarrow>
      (lock_step kernel_good currentThread blocked ReadyToRun (kernel_sleep n rnd tm fuel delta))\<^sup>*\<^sup>* w w' \<longrightarrow>
      lock_stuck w' t \<and> holding w' = holding w) \<and>
    (currentThread (lw_sys w) \<in> holding w \<longrightarrow> currentThread (lw_sys w) \<notin> acquiring w \<longrightarrow> \<not> IsEmpty (lock_queue (lw_lock w)) \<longrightarrow>
      (\<exists>k u t. Release_body ReadyToRun (lw_lock w) (lw_sys w) = Inr (k, u) \<and> lock_owner k = Some t \<and> t \<in> acquiring w))"
proof -
  have "kernel_good s" using assms(2,3) by (simp add: kernel_good_def)
  from kernel_threads.lock_reachable_inv [OF assms(1) this] obtain q where q: "lock_inv kernel_good blocked w q" by blast
  have stuck: "\<forall>t w'. lock_stuck w t \<longrightarrow>
      (lock_step kernel_good currentThread blocked ReadyToRun (kernel_sleep n rnd tm fuel delta))\<^sup>*\<^sup>* w w' \<longrightarrow>
      lock_stuck w' t \<and> holding w' = holding w"
    using kernel_threads.lock_steps_stuck [OF _ q] by blast
  have "currentThread (lw_sys w) \<in> holding w \<longrightarrow> currentThread (lw_sys w) \<notin> acquiring w \<longrightarrow> \<not> IsEmpty (lock_queue (lw_lock w)) \<longrightarrow>
      (\<exists>k u t. Release_body ReadyToRun (lw_lock w) (lw_sys w) = Inr (k, u) \<and> lock_owner k = Some t \<and> t \<in> acquiring w)"
  proof (intro impI)
    assume a: "currentThread (lw_sys w) \<in> holding w" "currentThread (lw_sys w) \<notin> acquiring w" "\<not> IsEmpty (lock_queue (lw_lock w))"
    have "represents (lock_queue (lw_lock w)) q" using q unfolding lock_inv_def by blast
    from represents_empty [OF this] a(3) have "q \<noteq> []" by blast
    then obtain t ts where "q = t # ts" by (meson neq_Nil_conv)
    from q [unfolded this] have "lock_inv kernel_good blocked w (t # ts)" .
    from kernel_threads.contended_release [OF this a(1,2)]
    show "\<exists>k u t. Release_body ReadyToRun (lw_lock w) (lw_sys w) = Inr (k, u) \<and> lock_owner k = Some t \<and> t \<in> acquiring w" by blast
  qed
  with stuck show ?thesis by (rule conjI)
qed

theorem lock_deadlock_witness:
  "\<exists>w'. (lock_step kernel_good currentThread blocked ReadyToRun (kernel_sleep 1 (\<lambda>_. 0) sample_timer 0 1))\<^sup>*\<^sup>* (held_world {1}) w' \<and>
    blocked (lw_sys w') = {1} \<and> currentThread (lw_sys w') = 2 \<and> lock_stuck w' 1 \<and> holding w' = {1}"
proof -
  let ?step = "lock_step kernel_good currentThread blocked ReadyToRun (kernel_sleep 1 (\<lambda>_. 0) sample_timer 0 1)"
  note all = conjunct1 [OF lock_deadlock [OF held_world_reachable(2) kernel_sample_sched [of True]]]
  have "blocked (sample_system True) = {}" by (auto simp: blocked_def split: if_splits)
  with Sleep_ok [OF kernel_sample_sched [of True] kernel_sample_ready(1), of 0 "kernel_call (\<lambda>_. 0) sample_timer 0 False 1"] obtain u where
    u: "kernel_sleep 1 (\<lambda>_. 0) sample_timer 0 1 (sample_system True) = Inr u" "blocked u = {1}" "currentThread u = 2"
    by (auto simp: kernel_sleep_def)
  from Append_ok [OF represents_new, of "1 :: nat"] obtain q where q: "Append (1 :: nat) List_new = Inr q" by blast
  let ?w = "(held_world {1})\<lparr>lw_lock := \<lparr>lock_owner = Some 1, lock_queue = q\<rparr>, lw_sys := u\<rparr>"
  have "?step (held_world {1}) ?w"
    by (rule lock_step.lock_wait) (simp_all add: held_world_def Acquire_round_def u(1) [simplified] q [simplified])
  then have *: "?step\<^sup>*\<^sup>* (held_world {1}) ?w" by (rule r_into_rtranclp)
  have st: "lock_stuck (held_world {1}) 1" by (simp add: lock_stuck_def held_world_def)
  from mp [OF mp [OF spec [OF spec [OF all, of 1], of ?w] st] *] have "lock_stuck ?w 1" "holding ?w = {1}"
    by (simp_all add: held_world_def)
  with * u(2,3) show ?thesis by (intro exI [of _ ?w]) simp
qed

text \<open>
  With the threads of the queue asleep, \<open>Condition::Signal\<close> wakes the first of them and
  \<open>Condition::Broadcast\<close> wakes all, the rest stay queued in order, nobody else is woken and the running thread
  keeps the CPU (the woken threads run later and acquire the lock again).
\<close>

theorem condition_wakes:
  fixes s :: "kernel_func system"
  assumes "sched_inv s" "running s" "represents (cond_queue cond) q" "distinct q" "set q \<subseteq> blocked s"
  shows "(\<exists>c u. Signal_wake ReadyToRun cond s = Inr (c, u) \<and> represents (cond_queue c) (tl q) \<and> sched_inv u \<and> running u \<and>
      currentThread u = currentThread s \<and> blocked u = blocked s - set (take 1 q)) \<and>
    (\<exists>c u. Broadcast_wake ReadyToRun cond s = Inr (c, u) \<and> represents (cond_queue c) [] \<and> sched_inv u \<and> running u \<and>
      currentThread u = currentThread s \<and> blocked u = blocked s - set q)"
proof -
  have "kernel_good s" using assms(1,2) by (simp add: kernel_good_def)
  note k = this assms(3-5)
  from kernel_threads.Signal_wake_ok [OF k] kernel_threads.Broadcast_wake_ok [OF k] show ?thesis
    unfolding kernel_good_def by blast
qed

theorem condition_wakes_witness:
  "\<exists>s cond c u. blocked s = {1} \<and> represents (cond_queue cond) [1] \<and> blocked u = {} \<and>
    Broadcast_wake ReadyToRun cond (s :: kernel_func system) = Inr (c, u)"
proof -
  have "blocked (sample_system True) = {}" by (auto simp: blocked_def split: if_splits)
  with Sleep_ok [OF kernel_sample_sched [of True] kernel_sample_ready(1), of 0 "\<lambda>_ _. Inr"] obtain s :: "kernel_func system" where
    s: "sched_inv s" "running s" "blocked s = {1}" by auto
  let ?cond = "\<lparr>cond_queue = one_list 1\<rparr>"
  from condition_wakes [OF s(1,2), of ?cond "[1]"] s(3) obtain c u where
    "Broadcast_wake ReadyToRun ?cond s = Inr (c, u)" "blocked u = {}" by (auto simp: represents_one)
  with s(3) show ?thesis by (intro exI [of _ s] exI [of _ ?cond] exI [of _ c] exI [of _ u]) (simp add: represents_one)
qed

end
