(* ===== verification/Loading.thy ===== *)
theory Loading
  imports Loader Machine_Access
begin

text \<open>
  What loading does: the page table that \<open>Setup_Load\<close> builds, the invariant of demand paging for a new table,
  and the first page-ins, which take free frames.
\<close>

section \<open>Ranges of pages\<close>

lemma Setup_range_ok:
  assumes "start + n \<le> length pt"
  shows "\<exists>pt'. Setup_range start n f pt = Inr pt' \<and> length pt' = length pt \<and>
    (\<forall>i < length pt. pt' ! i = (if start \<le> i \<and> i < start + n then f (i - start) (pt ! i) else pt ! i))"
  using assms
proof (induction n)
  case 0
  show ?case by (intro exI [of _ pt]) (auto simp: Setup_range_def)
next
  case (Suc n)
  then obtain pt' where pt': "Setup_range start n f pt = Inr pt'" "length pt' = length pt"
    "\<forall>i < length pt. pt' ! i = (if start \<le> i \<and> i < start + n then f (i - start) (pt ! i) else pt ! i)" by auto
  have "Setup_range start (Suc n) f pt = Inr (pt'[start + n := f n (pt' ! (start + n))])"
    using pt'(1,2) Suc.prems by (simp add: Setup_range_def fold_res_append index_res_def)
  moreover have "pt'[start + n := f n (pt' ! (start + n))] ! i =
      (if start \<le> i \<and> i < start + Suc n then f (i - start) (pt ! i) else pt ! i)" if "i < length pt" for i
    using that pt'(2,3) by (cases "i = start + n") auto
  ultimately show ?case using pt'(2) by (intro exI [of _ "pt'[start + n := f n (pt' ! (start + n))]"]) simp
qed

lemma fold_res_Cons_fun: "fold_res f (x # xs) = (\<lambda>s. bind_res (f x s) (fold_res f xs))"
  and fold_res_Nil_fun: "fold_res f [] = Inr"
  by (simp_all add: fun_eq_iff)

text \<open>The table is set up by a sequence of ranges; what a range does to one page.\<close>

type_synonym segment = "nat \<times> nat \<times> (nat \<Rightarrow> TranslationEntry \<Rightarrow> TranslationEntry)"

definition seg_covers :: "segment \<Rightarrow> nat \<Rightarrow> bool" where
  "seg_covers = (\<lambda>(start, n, f) i. start \<le> i \<and> i < start + n)"

definition apply_segment :: "nat \<Rightarrow> segment \<Rightarrow> TranslationEntry \<Rightarrow> TranslationEntry" where
  "apply_segment i g te = (if seg_covers g i then snd (snd g) (i - fst g) te else te)"

definition file_segment :: "file_id \<Rightarrow> bool \<Rightarrow> NachosHeader \<Rightarrow> nat \<Rightarrow> segment" where
  "file_segment exe ro h k = (start_page h k, page_count h k, \<lambda>j.
     set_source (Some exe) (unat (sh_offset (nh_section h k) + of_nat (j * PageSize))) ro False)"

definition zero_segment :: "nat \<Rightarrow> nat \<Rightarrow> segment" where
  "zero_segment start n = (start, n, \<lambda>_. set_source None 0 False True)"

definition segments :: "file_id \<Rightarrow> NachosHeader \<Rightarrow> segment list" where
  "segments exe h = [file_segment exe True h REGINFO, file_segment exe True h TEXT, file_segment exe True h RDATA,
     file_segment exe False h DATA, zero_segment (start_page h BSS) (page_count h BSS),
     zero_segment (start_page h SBSS) (page_count h SBSS),
     zero_segment (divRoundUp (unat (stack_start h)) PageSize) (divRoundUp UserStackSize PageSize)]"

lemma Setup_pages_segments:
  "Setup_pages exe h pt = fold_res (\<lambda>(start, n, f). Setup_range start n f) (segments exe h) pt"
proof -
  have "bind_res m (\<lambda>x. Inr x) = m" for m :: "TranslationEntry list res" by (cases m) simp_all
  then show ?thesis
    by (simp add: Setup_pages_def segments_def file_segment_def zero_segment_def Setup_file_def [abs_def] Setup_zero_def [abs_def]
        fold_res_Cons_fun fold_res_Nil_fun)
qed

lemma Setup_segments_ok:
  assumes "\<And>g. g \<in> set gs \<Longrightarrow> fst g + fst (snd g) \<le> length pt"
  shows "\<exists>pt'. fold_res (\<lambda>(start, n, f). Setup_range start n f) gs pt = Inr pt' \<and> length pt' = length pt \<and>
    (\<forall>i < length pt. pt' ! i = fold (apply_segment i) gs (pt ! i))"
  using assms
proof (induction gs arbitrary: pt)
  case Nil
  then show ?case by simp
next
  case (Cons g gs)
  obtain start n f where g: "g = (start, n, f)" by (cases g)
  with Cons.prems [of g] have "start + n \<le> length pt" by simp
  from Setup_range_ok [OF this, of f] obtain pt1 where pt1: "Setup_range start n f pt = Inr pt1" "length pt1 = length pt"
    "\<forall>i < length pt. pt1 ! i = apply_segment i g (pt ! i)" by (auto simp: g apply_segment_def seg_covers_def)
  from Cons.IH [of pt1] Cons.prems pt1(2) obtain pt' where
    "fold_res (\<lambda>(start, n, f). Setup_range start n f) gs pt1 = Inr pt'" "length pt' = length pt"
    "\<forall>i < length pt. pt' ! i = fold (apply_segment i) gs (pt1 ! i)" by auto
  with pt1(1,3) show ?case by (intro exI [of _ pt']) (simp add: g)
qed

lemma fold_apply_none: "(\<And>g. g \<in> set gs \<Longrightarrow> \<not> seg_covers g i) \<Longrightarrow> fold (apply_segment i) gs te = te"
  by (induction gs) (simp_all add: apply_segment_def)

lemma fold_apply_one:
  assumes "k < length gs" "seg_covers (gs ! k) i" "\<And>j. j < length gs \<Longrightarrow> j \<noteq> k \<Longrightarrow> \<not> seg_covers (gs ! j) i"
  shows "fold (apply_segment i) gs te = snd (snd (gs ! k)) (i - fst (gs ! k)) te"
proof -
  have split: "gs = take k gs @ gs ! k # drop (Suc k) gs" using assms(1) by (simp add: id_take_nth_drop)
  have "\<not> seg_covers g i" if "g \<in> set (take k gs)" for g
    using that assms(1,3) by (auto simp: in_set_conv_nth)
  moreover have "\<not> seg_covers g i" if "g \<in> set (drop (Suc k) gs)" for g
    using that assms(3) by (auto simp: in_set_conv_nth)
  ultimately show ?thesis
    using assms(2) by (subst split) (simp add: fold_apply_none apply_segment_def)
qed

section \<open>Well-formed images\<close>

text \<open>
  Sections start on page boundaries and do not overlap; none reaches past the end of the section with the
  greatest address, which is what the size of the address space is computed from.
\<close>

definition section_end :: "NachosHeader \<Rightarrow> nat \<Rightarrow> nat" where
  "section_end h k = unat (sh_addr (nh_section h k)) + unat (sh_size (nh_section h k))"

definition image_end :: "NachosHeader \<Rightarrow> nat" where
  "image_end h = unat (fst (max_section h)) + unat (snd (max_section h))"

definition image_layout :: "NachosHeader \<Rightarrow> bool" where
  "image_layout h \<longleftrightarrow> image_end h < 2 ^ 32 \<and>
     (\<forall>k < NUM_SECTIONS. section_end h k \<le> image_end h \<and>
        (0 < unat (sh_size (nh_section h k)) \<longrightarrow> PageSize dvd unat (sh_addr (nh_section h k)))) \<and>
     (\<forall>j < NUM_SECTIONS. \<forall>k < NUM_SECTIONS. j \<noteq> k \<longrightarrow>
        section_end h j \<le> unat (sh_addr (nh_section h k)) \<or> section_end h k \<le> unat (sh_addr (nh_section h j)))"

lemma divRoundUp_page: "divRoundUp n PageSize = (n + 127) div 128"
proof -
  obtain q r where n: "n = r + 128 * q" "r < 128" using mod_mult_div_eq [of n 128] by (metis mod_less_divisor zero_less_numeral)
  have "(r + 127) div 128 = (if 0 < r then 1 else 0)"
    using n(2) by (cases "r = 0") (simp_all add: div_nat_eqI)
  moreover have "(n + 127) div 128 = q + (r + 127) div 128"
    using div_mult_self2 [of 128 "r + 127" q] by (simp add: n(1) add.commute add.left_commute)
  ultimately show ?thesis using n(2) by (simp add: n(1) divRoundUp_def PageSize_def SectorSize_def)
qed

lemma page_round_mono: "m \<le> n \<Longrightarrow> divRoundUp m PageSize \<le> divRoundUp n PageSize"
  by (simp add: divRoundUp_page div_le_mono)

lemma divRoundUp_aligned:
  assumes "PageSize dvd a" shows "divRoundUp a PageSize = a div PageSize" "divRoundUp (a + b) PageSize = a div PageSize + divRoundUp b PageSize"
proof -
  from assms obtain q where "a = PageSize * q" by (rule dvdE)
  then show "divRoundUp a PageSize = a div PageSize" "divRoundUp (a + b) PageSize = a div PageSize + divRoundUp b PageSize"
    by (simp_all add: divRoundUp_def)
qed

lemma stack_pages: "divRoundUp UserStackSize PageSize = 32"
  by (simp add: divRoundUp_page UserStackSize_def)

lemma max_section_attained: "max_section h = (0, 0) \<or>
    (\<exists>k < NUM_SECTIONS. max_section h = (sh_addr (nh_section h k), sh_size (nh_section h k)))"
proof -
  have "fold (max_section_step h) ks x = x \<or>
      (\<exists>k \<in> set ks. fold (max_section_step h) ks x = (sh_addr (nh_section h k), sh_size (nh_section h k)))" for ks x
    by (induction ks arbitrary: x) (auto simp: max_section_step_def split: prod.splits if_splits)
  then show ?thesis by (fastforce simp: max_section_def)
qed

lemma STACK_START_MAX_unat:
  assumes "section_end h k < 2 ^ 32"
  shows "unat (STACK_START_MAX h k x) = max (unat x) (section_end h k)"
proof -
  have "unat (sh_addr (nh_section h k) + sh_size (nh_section h k)) = section_end h k"
    using assms by (simp add: section_end_def unat_add_lem [THEN iffD1])
  then show ?thesis by (auto simp: STACK_START_MAX_def word_less_nat_alt)
qed

lemma image_layoutD:
  assumes "image_layout h" "k < NUM_SECTIONS"
  shows "section_end h k \<le> image_end h" "section_end h k < 2 ^ 32"
    "0 < unat (sh_size (nh_section h k)) \<Longrightarrow> PageSize dvd unat (sh_addr (nh_section h k))"
  using assms by (force simp: image_layout_def)+

lemma stack_start_end:
  assumes "image_layout h" shows "unat (stack_start h) = image_end h"
proof (rule antisym)
  let ?e = "section_end h" and ?ks = "[REGINFO, TEXT, RDATA, DATA, BSS, SBSS]"
  have ks: "set ?ks = {..<NUM_SECTIONS}" by (auto simp: section_defs)
  have lt: "?e k < 2 ^ 32" "?e k \<le> image_end h" if "k \<in> set ?ks" for k
    using image_layoutD [OF assms, of k] that unfolding ks by simp_all
  have fold_max: "\<forall>k \<in> set ks. ?e k < 2 ^ 32 \<Longrightarrow> unat (fold (STACK_START_MAX h) ks x) = fold (\<lambda>k m. max m (?e k)) ks (unat x)" for ks x
    by (induction ks arbitrary: x) (simp_all add: STACK_START_MAX_unat)
  have "stack_start h = fold (STACK_START_MAX h) ?ks 0" by (simp only: stack_start_def fold_simps id_apply)
  moreover have "\<forall>k \<in> set ?ks. ?e k < 2 ^ 32" using lt(1) by (rule ballI)
  ultimately have eq: "unat (stack_start h) = fold (\<lambda>k m. max m (?e k)) ?ks 0"
    using fold_max [of ?ks 0] by (simp only: unat_0)
  have ub: "fold (\<lambda>k m. max m (?e k)) ks x \<le> b" if "x \<le> b" "\<forall>k \<in> set ks. ?e k \<le> b" for ks x b
    using that by (induction ks arbitrary: x) auto
  have mono: "x \<le> fold (\<lambda>k m. max m (?e k)) ks x" for ks x
  proof (induction ks arbitrary: x)
    case (Cons l ks)
    from Cons.IH [of "max x (?e l)"] show ?case by simp
  qed simp
  have lb: "?e k \<le> fold (\<lambda>k m. max m (?e k)) ks x" if "k \<in> set ks" for k ks x
    using that
  proof (induction ks arbitrary: x)
    case (Cons l ks)
    then show ?case using mono [of "max x (?e k)" ks] by auto
  qed simp
  show "unat (stack_start h) \<le> image_end h" unfolding eq by (rule ub) (use lt(2) in auto)
  show "image_end h \<le> unat (stack_start h)"
  proof (cases "image_end h = 0")
    case False
    then have "\<exists>k \<in> set ?ks. image_end h = ?e k"
      unfolding ks using max_section_attained [of h] by (auto simp: image_end_def section_end_def)
    then obtain k where "k \<in> set ?ks" "image_end h = ?e k" by blast
    with lb [of k ?ks 0] show ?thesis unfolding eq by (simp only:)
  qed simp
qed

lemma image_pages_end:
  assumes "image_layout h" shows "image_pages h = divRoundUp (image_end h) PageSize + 32"
proof -
  have "unat (fst (max_section h) + snd (max_section h)) = image_end h"
    using assms by (simp add: image_layout_def image_end_def unat_add_lem [THEN iffD1])
  then show ?thesis by (simp add: image_pages_def stack_pages case_prod_beta)
qed

lemma section_pages:
  assumes "image_layout h" "k < NUM_SECTIONS" "0 < page_count h k"
  shows "start_page h k = unat (sh_addr (nh_section h k)) div PageSize"
    "start_page h k + page_count h k = divRoundUp (section_end h k) PageSize"
    "PageSize dvd unat (sh_addr (nh_section h k))"
proof -
  have "0 < unat (sh_size (nh_section h k))"
    using assms(3) by (rule contrapos_pp) (simp add: page_count_def divRoundUp_def)
  then show d: "PageSize dvd unat (sh_addr (nh_section h k))" using image_layoutD [OF assms(1,2)] by blast
  show "start_page h k = unat (sh_addr (nh_section h k)) div PageSize"
    "start_page h k + page_count h k = divRoundUp (section_end h k) PageSize"
    unfolding start_page_def page_count_def section_end_def using divRoundUp_aligned [OF d] by simp_all
qed

text \<open>The page ranges of two sections do not meet.\<close>

lemma section_pages_disjoint:
  assumes lay: "image_layout h" and jk: "j < NUM_SECTIONS" "k < NUM_SECTIONS" "j \<noteq> k"
    and i: "start_page h j \<le> i" "i < start_page h j + page_count h j" "start_page h k \<le> i" "i < start_page h k + page_count h k"
  shows False
proof -
  have "0 < page_count h j" "0 < page_count h k" using i by simp_all
  note pj = section_pages [OF lay jk(1) this(1)] and pk = section_pages [OF lay jk(2) this(2)]
  from lay jk consider "section_end h j \<le> unat (sh_addr (nh_section h k))" | "section_end h k \<le> unat (sh_addr (nh_section h j))"
    unfolding image_layout_def by blast
  then show False
  proof cases
    case 1
    from page_round_mono [OF this] divRoundUp_aligned(1) [OF pk(3)] i pj pk show False by simp
  next
    case 2
    from page_round_mono [OF this] divRoundUp_aligned(1) [OF pj(3)] i pj pk show False by simp
  qed
qed

section \<open>The table of a well-formed image\<close>

definition from_file :: "file_id \<Rightarrow> NachosHeader \<Rightarrow> nat \<Rightarrow> nat \<Rightarrow> bool \<Rightarrow> TranslationEntry \<Rightarrow> TranslationEntry" where
  "from_file exe h k j ro = set_source (Some exe) (unat (sh_offset (nh_section h k) + of_nat (j * PageSize))) ro False"

definition zero_filled :: "TranslationEntry \<Rightarrow> TranslationEntry" where
  "zero_filled = set_source None 0 False True"

lemma segments_length: "length (segments exe h) = 7"
  by (simp add: segments_def)

lemma segments_nth:
  "k < 4 \<Longrightarrow> segments exe h ! k = (start_page h k, page_count h k, \<lambda>j. from_file exe h k j (k \<noteq> DATA))"
  "k = 4 \<or> k = 5 \<Longrightarrow> segments exe h ! k = (start_page h k, page_count h k, \<lambda>_. zero_filled)"
  "segments exe h ! 6 = (divRoundUp (unat (stack_start h)) PageSize, 32, \<lambda>_. zero_filled)"
proof -
  show "segments exe h ! k = (start_page h k, page_count h k, \<lambda>j. from_file exe h k j (k \<noteq> DATA))" if "k < 4"
  proof -
    from that have "k = 0 \<or> k = 1 \<or> k = 2 \<or> k = 3" by linarith
    then show ?thesis by (elim disjE) (simp_all add: segments_def file_segment_def from_file_def [abs_def] section_defs)
  qed
qed (auto simp: segments_def zero_segment_def zero_filled_def section_defs stack_pages)

lemma segments_cover:
  "k < 6 \<Longrightarrow> seg_covers (segments exe h ! k) i \<longleftrightarrow> start_page h k \<le> i \<and> i < start_page h k + page_count h k"
proof -
  assume "k < 6"
  then consider "k < 4" | "k = 4 \<or> k = 5" by linarith
  then show ?thesis by cases (simp_all add: segments_nth seg_covers_def)
qed

lemma section_pages_below:
  assumes "image_layout h" "k < NUM_SECTIONS" "0 < page_count h k"
  shows "start_page h k + page_count h k \<le> divRoundUp (image_end h) PageSize"
  using section_pages(2) [OF assms] page_round_mono [OF image_layoutD(1) [OF assms(1,2)]] by simp

lemma segments_one:
  assumes lay: "image_layout h" and k: "k < 7" "seg_covers (segments exe h ! k) i" and j: "j < 7" "seg_covers (segments exe h ! j) i"
  shows "j = k"
proof -
  have six: False if "n < 6" "seg_covers (segments exe h ! n) i" "seg_covers (segments exe h ! 6) i" for n
  proof -
    from that(1,2) have n: "n < NUM_SECTIONS" "0 < page_count h n" "i < start_page h n + page_count h n"
      by (auto simp: segments_cover section_defs)
    from section_pages_below [OF lay n(1,2)] n(3) that(3) stack_start_end [OF lay] show False
      by (simp add: segments_nth seg_covers_def)
  qed
  show ?thesis
  proof (cases "j < 6 \<and> k < 6")
    case True
    with section_pages_disjoint [OF lay, of j k i] k(2) j(2) show ?thesis by (auto simp: segments_cover section_defs)
  next
    case False
    with k(1) j(1) have "j = 6 \<or> k = 6" by linarith
    with six [of j] six [of k] k j show ?thesis by (cases "j = k") auto
  qed
qed

lemma Setup_pages_ok:
  assumes lay: "image_layout h" and len: "length pt = image_pages h"
  shows "\<exists>pt'. Setup_pages exe h pt = Inr pt' \<and> length pt' = length pt \<and>
    (\<forall>k < 7. \<forall>i < length pt. seg_covers (segments exe h ! k) i \<longrightarrow>
       pt' ! i = snd (snd (segments exe h ! k)) (i - fst (segments exe h ! k)) (pt ! i)) \<and>
    (\<forall>i < length pt. (\<forall>k < 7. \<not> seg_covers (segments exe h ! k) i) \<longrightarrow> pt' ! i = pt ! i)"
proof -
  have n: "length pt = divRoundUp (image_end h) PageSize + 32" using len image_pages_end [OF lay] by simp
  have short: "fst (segments exe h ! k) + fst (snd (segments exe h ! k)) \<le> length pt"
    if "k < 7" "0 < fst (snd (segments exe h ! k))" for k
  proof (cases "k = 6")
    case True
    with n stack_start_end [OF lay] show ?thesis by (simp add: segments_nth)
  next
    case False
    with that(1) have k: "k < NUM_SECTIONS" "k < 4 \<or> k = 4 \<or> k = 5" by (auto simp: NUM_SECTIONS_def)
    with that(2) have "0 < page_count h k" by (auto simp: segments_nth)
    from section_pages_below [OF lay k(1) this] k(2) n show ?thesis by (auto simp: segments_nth)
  qed
  let ?gs = "filter (\<lambda>g. 0 < fst (snd g)) (segments exe h)"
  have empty: "Setup_range start 0 f x = Inr x" for start f and x :: "TranslationEntry list" by (simp add: Setup_range_def)
  have skip: "fold_res (\<lambda>(start, n, f). Setup_range start n f) gs x =
      fold_res (\<lambda>(start, n, f). Setup_range start n f) (filter (\<lambda>g. 0 < fst (snd g)) gs) x" for gs :: "segment list" and x
  proof (induction gs arbitrary: x)
    case (Cons g gs)
    obtain start n f where g: "g = (start, n, f)" by (cases g)
    have "bind_res m (fold_res F gs) = bind_res m (fold_res F (filter (\<lambda>g. 0 < fst (snd g)) gs))"
      if "F = (\<lambda>(start, n, f). Setup_range start n f)" for m F
      using Cons.IH that by (cases m) simp_all
    with Cons.IH show ?case by (cases "n = 0") (simp_all add: g empty)
  qed simp
  have within: "fst g + fst (snd g) \<le> length pt" if "g \<in> set ?gs" for g
    using that short segments_length by (force simp: in_set_conv_nth)
  from Setup_segments_ok [of ?gs pt, OF within] obtain pt' where
    pt': "Setup_pages exe h pt = Inr pt'" "length pt' = length pt" "\<forall>i < length pt. pt' ! i = fold (apply_segment i) ?gs (pt ! i)"
    unfolding Setup_pages_segments skip [of "segments exe h"] by blast
  have fold_skip: "fold (apply_segment i) ?gs te = fold (apply_segment i) (segments exe h) te" for i te
  proof -
    have "apply_segment i g te = te" if "fst (snd g) = 0" for g te
      using that by (cases g) (auto simp: apply_segment_def seg_covers_def)
    then have "fold (apply_segment i) (filter (\<lambda>g. 0 < fst (snd g)) gs) te = fold (apply_segment i) gs te" for gs
      by (induction gs arbitrary: te) simp_all
    then show ?thesis .
  qed
  show ?thesis
  proof (intro exI [of _ pt'] conjI allI impI pt'(1,2))
    fix k i assume k: "k < 7" "i < length pt" "seg_covers (segments exe h ! k) i"
    from segments_one [OF lay k(1,3)] have "\<not> seg_covers (segments exe h ! j) i" if "j < length (segments exe h)" "j \<noteq> k" for j
      using that segments_length by metis
    from fold_apply_one [OF _ k(3) this] k segments_length
    show "pt' ! i = snd (snd (segments exe h ! k)) (i - fst (segments exe h ! k)) (pt ! i)"
      by (simp add: pt'(3) fold_skip)
  next
    fix i assume i: "i < length pt" "\<forall>k < 7. \<not> seg_covers (segments exe h ! k) i"
    then have "\<not> seg_covers g i" if "g \<in> set (segments exe h)" for g
      using that segments_length by (metis in_set_conv_nth)
    from fold_apply_none [OF this] i(1) show "pt' ! i = pt ! i" by (simp add: pt'(3) fold_skip)
  qed
qed

section \<open>A new page table\<close>

text \<open>Giving an address space without pages a table with no resident and no swapped page.\<close>

lemma fresh_table_ent:
  assumes "spaces s sid = Some a" "numPages a = 0" "numPages a' = length (pageTable a')"
  shows "ent ((spaces s)(sid \<mapsto> a')) ow v = (if ow = sid then if v < length (pageTable a') then Some (pageTable a' ! v) else None
    else ent (spaces s) ow v)"
    "ent (spaces s) sid v = None"
  using assms by (auto simp: ent_def)

lemma fresh_table_inv:
  assumes inv: "vm_inv s" and a: "spaces s sid = Some a" "numPages a = 0" and len: "numPages a' = length (pageTable a')"
    and out: "\<And>v. v < length (pageTable a') \<Longrightarrow> \<not> valid (pageTable a' ! v)"
    and noswap: "\<And>v. v < length (pageTable a') \<Longrightarrow> te_File (pageTable a' ! v) \<noteq> Some (swapFile s)"
    and infile: "\<And>v fl. v < length (pageTable a') \<Longrightarrow> te_File (pageTable a' ! v) = Some fl \<Longrightarrow> \<not> te_zero (pageTable a' ! v) \<Longrightarrow>
      te_offset (pageTable a' ! v) + PageSize \<le> f_len (files s fl)"
  shows "vm_inv (s\<lparr>spaces := (spaces s)(sid \<mapsto> a')\<rparr>)"
proof -
  let ?t = "s\<lparr>spaces := (spaces s)(sid \<mapsto> a')\<rparr>"
  note e = fresh_table_ent(1) [OF a len] and none = fresh_table_ent(2) [OF a len]
  have m: "maps ?t ow v f \<longleftrightarrow> maps s ow v f" for ow v f using out by (auto simp: maps_def e none split: if_splits)
  have w: "swapped ?t ow v k \<longleftrightarrow> swapped s ow v k" for ow v k using noswap by (auto simp: swapped_def e none split: if_splits)
  have same: "ow \<noteq> sid \<and> ent (spaces s) ow v = Some te \<or>
      ow = sid \<and> \<not> valid te \<and> te_File te \<noteq> Some (swapFile s)" if "ent (spaces ?t) ow v = Some te" for ow v te
    using that out noswap by (auto simp: e split: if_splits)
  have "alloc_inv ?t" using inv by (simp add: vm_inv_defs)
  moreover have "owner_inv ?t"
  proof -
    have "length (pageTable b) = numPages b" if "spaces ?t ow = Some b" for ow b
      using that inv len by (auto simp: vm_inv_defs split: if_splits)
    moreover have "\<not> te_zero te \<and> (\<exists>k < NumSwapPages. te_offset te = k * PageSize)"
      if "ent (spaces ?t) ow v = Some te" "te_File te = Some (swapFile ?t)" for ow v te
    proof -
      have f: "te_File te = Some (swapFile s)" using that(2) by simp
      with same [OF that(1)] have "ent (spaces s) ow v = Some te" by blast
      from swap_entryD [OF inv this f] show ?thesis by blast
    qed
    ultimately show ?thesis using inv unfolding vm_inv_except_def owner_inv_def m w by simp
  qed
  moreover have "share_inv ?t"
    unfolding share_inv_def
  proof (intro conjI allI impI)
    fix o1 o2 v te1 te2
    assume 1: "ent (spaces ?t) o1 v = Some te1" "ent (spaces ?t) o2 v = Some te2" "o1 \<noteq> o2"
    {
      assume 2: "valid te1" "valid te2" "physicalPage te1 = physicalPage te2"
      with same [OF 1(1)] same [OF 1(2)] share_frameD [OF inv _ _ 2 1(3)]
      show "backing_attrs te1 = backing_attrs te2" "cow te1" by blast+
    }
    {
      assume 2: "te_File te1 = Some (swapFile ?t)" "te_File te2 = Some (swapFile ?t)" "te_offset te1 = te_offset te2"
      with same [OF 1(1)] same [OF 1(2)] share_swapD [OF inv _ _ _ _ 2(3) 1(3)]
      show "place te1 = place te2" "cow te1" by auto
    }
  qed
  moreover have "content_inv {} ?t"
    unfolding content_inv_def
  proof (intro conjI allI impI)
    fix ow v te assume 1: "ent (spaces ?t) ow v = Some te"
    show "te_offset te + PageSize \<le> f_len (files ?t fl)" if "te_File te = Some fl" "\<not> te_zero te" for fl
      using 1 that infile content_lenD [OF inv _ that] by (auto simp: e split: if_splits)
    assume 2: "valid te" "\<not> dirty te" "(ow, v) \<notin> {}"
    with same [OF 1] have "ent (spaces s) ow v = Some te" by blast
    from content_cleanD [OF inv this 2] show "has_backing te"
      "\<And>i. i < PageSize \<Longrightarrow> page_bytes (mainMemory ?t) (physicalPage te) i = backing (files ?t) te i" by simp_all
  qed
  ultimately show ?thesis by (simp add: vm_inv_except_def)
qed

section \<open>Bringing in a page of an executable\<close>

text \<open>With a free frame, and within the working set, no victim is needed: the page goes to the free frame.\<close>

definition filled :: "'a vm_scheme \<Rightarrow> nat \<Rightarrow> BitMap \<Rightarrow> nat \<Rightarrow> nat \<Rightarrow> TranslationEntry \<Rightarrow> 'a vm_scheme" where
  "filled s d bm sid v loc =
     map_in (s\<lparr>page_flags := bm\<rparr>) d [sid] v (fill_bytes (s\<lparr>page_flags := bm\<rparr>) d loc) (own_entry d (totalTicks s))"

lemma pagein_free:
  assumes inv: "vm_inv s" and e: "ent (spaces s) sid v = Some loc" and nv: "\<not> valid loc" "has_backing loc"
    and sw: "te_File loc \<noteq> Some (swapFile s)"
    and c: "currentSpace s = Some c" "spaces s c = Some a" "\<not> TooManyFrames_pt (pageTable a) (wSetSize a)"
    and free: "\<exists>f < NumPhysPages. f \<notin> allocated (page_flags s)"
  shows "\<exists>d bm n p. pagein s v sid = Inr ((filled s d bm sid v loc)\<lparr>numPageIns := n, procPageIns := p\<rparr>) \<and>
    vm_inv (filled s d bm sid v loc) \<and> same_memory s (filled s d bm sid v loc) \<and>
    d < NumPhysPages \<and> allocated bm = insert d (allocated (page_flags s))"
proof -
  have al: "bm_wf (page_flags s)" "numBits (page_flags s) = NumPhysPages" using inv by (simp_all add: vm_inv_defs)
  from al(1) obtain d bm where "Find (page_flags s) = Inr (int d, bm)" and d: "d < NumPhysPages" "d \<notin> allocated (page_flags s)"
    and bm: "bm_wf bm" "numBits bm = NumPhysPages" "allocated bm = insert d (allocated (page_flags s))"
  proof (cases rule: bm.alloc_cases)
    case 1
    with free al(2) show ?thesis by auto
  next
    case (2 i bm)
    with al(2) that show ?thesis by simp
  qed
  then have tf: "take_frame s (-1) = Inr (d, s\<lparr>page_flags := bm\<rparr>)"
    using c by (simp add: take_frame_def get_next_free_page_def TooManyFrames_def)
  let ?t = "s\<lparr>page_flags := bm\<rparr>"
  have t: "vm_inv ?t" using vm_inv_page_flags [OF inv bm(1,2)] bm(3) by auto
  have own: "owners (Frames ?t d) = None" "d \<in> allocated (page_flags ?t)" "ent (spaces ?t) sid v = Some loc"
    "te_File loc \<noteq> Some (swapFile ?t)"
    using inv d e sw bm(3) by (auto simp: vm_inv_defs)
  note po = pagein_own [OF t own(3) nv own(4) d(1) own(2,1), of "totalTicks s"]
  from po(2) obtain s3 where s3: "pagein_record d v sid loc (put_page ?t d (fill_bytes ?t d loc)) = Inr s3"
      "for_owners (Frames s3 d) v (pagein_entry d (totalTicks s)) s3 = Inr (filled s d bm sid v loc)"
    by (auto simp: bind_res_eq_Inr filled_def)
  have tt: "totalTicks s3 = totalTicks s"
    using pagein_record_ticks [OF s3(1)] by (simp add: put_page_def)
  have "\<exists>n p. pagein s v sid = Inr ((filled s d bm sid v loc)\<lparr>numPageIns := n, procPageIns := p\<rparr>)"
    using tf own(3) s3 nv by (simp add: pagein_def pagein_fill_eq tt) blast
  moreover have "vm_inv (filled s d bm sid v loc)" unfolding filled_def by (rule map_in_inv [OF po(1)])
  moreover have "same_memory s (filled s d bm sid v loc)"
    using map_in_same_memory [OF po(1)] unfolding filled_def same_memory_def by simp
  ultimately show ?thesis using d(1) bm(3) by blast
qed

lemma filled_sel:
  "ent (spaces (filled s d bm sid v loc)) ow w =
     (if ow = sid \<and> w = v then map_option (own_entry d (totalTicks s)) (ent (spaces s) ow w) else ent (spaces s) ow w)"
  "page_flags (filled s d bm sid v loc) = bm" "currentSpace (filled s d bm sid v loc) = currentSpace s"
  "swapFile (filled s d bm sid v loc) = swapFile s" "files (filled s d bm sid v loc) = files s"
  "spaces (filled s d bm sid v loc) = upd_spaces {sid} v (own_entry d (totalTicks s)) (spaces s)"
  by (simp_all add: filled_def map_in_ent) (simp_all add: map_in_def put_page_def)

section \<open>Loading an image\<close>

text \<open>The pages of the sections that come from the file lie in the file.\<close>

definition image_in_file :: "NachosHeader \<Rightarrow> OpenFile \<Rightarrow> bool" where
  "image_in_file h fl \<longleftrightarrow> f_len fl < 2 ^ 32 \<and>
     (\<forall>k < 4. unat (sh_offset (nh_section h k)) + page_count h k * PageSize \<le> f_len fl)"

lemma set_source_sel [simp]:
  "valid (set_source fl off ro z te) = valid te" "te_File (set_source fl off ro z te) = fl"
  "te_offset (set_source fl off ro z te) = off" "te_zero (set_source fl off ro z te) = z"
  by (simp_all add: set_source_def clearRefHistory_def setTime_def clearSC_def)

lemma page_offset:
  assumes "image_in_file h fl" "k < 4" "j < page_count h k"
  shows "unat (sh_offset (nh_section h k) + of_nat (j * PageSize)) = unat (sh_offset (nh_section h k)) + j * PageSize"
    "unat (sh_offset (nh_section h k)) + j * PageSize + PageSize \<le> f_len fl"
proof -
  have "Suc j * PageSize \<le> page_count h k * PageSize" using assms(3) by (intro mult_right_mono) simp_all
  with assms(1,2) show b: "unat (sh_offset (nh_section h k)) + j * PageSize + PageSize \<le> f_len fl"
    by (fastforce simp: image_in_file_def)
  have "f_len fl < 2 ^ 32" using assms(1) by (simp add: image_in_file_def)
  with b have lt: "unat (sh_offset (nh_section h k)) + j * PageSize < 2 ^ 32" by linarith
  then have "unat (of_nat (j * PageSize) :: uint32) = j * PageSize" by (simp add: unat_of_nat del: of_nat_mult)
  with lt show "unat (sh_offset (nh_section h k) + of_nat (j * PageSize)) = unat (sh_offset (nh_section h k)) + j * PageSize"
    by (simp add: unat_add_lem [THEN iffD1] del: of_nat_mult)
qed

lemma Setup_fresh:
  assumes lay: "image_layout h" and inf: "image_in_file h fl"
  shows "\<exists>pt. Setup_pages exe h (SetupTable_pages (image_pages h)) = Inr pt \<and> length pt = image_pages h \<and>
    (\<forall>i < image_pages h. \<not> valid (pt ! i) \<and> te_File (pt ! i) \<in> {None, Some exe} \<and>
       (te_File (pt ! i) = Some exe \<longrightarrow> te_offset (pt ! i) + PageSize \<le> f_len fl)) \<and>
    (\<forall>k < 4. \<forall>j < page_count h k. te_File (pt ! (start_page h k + j)) = Some exe \<and> \<not> te_zero (pt ! (start_page h k + j)) \<and>
       te_offset (pt ! (start_page h k + j)) = unat (sh_offset (nh_section h k)) + j * PageSize) \<and>
    (\<forall>k \<in> {4, 5}. \<forall>j < page_count h k. te_zero (pt ! (start_page h k + j))) \<and>
    (\<forall>i. divRoundUp (image_end h) PageSize \<le> i \<longrightarrow> i < image_pages h \<longrightarrow> te_zero (pt ! i))"
proof -
  let ?pt0 = "SetupTable_pages (image_pages h)"
  have len0: "length ?pt0 = image_pages h" by (simp add: SetupTable_pages_def)
  have pt0: "\<not> valid (?pt0 ! i)" "te_File (?pt0 ! i) = None" if "i < image_pages h" for i
    using that by (simp_all add: SetupTable_pages_def SetupTable_entry_def)
  from Setup_pages_ok [OF lay len0, of exe] len0 obtain pt where pt: "Setup_pages exe h ?pt0 = Inr pt" "length pt = image_pages h"
    and cov: "\<And>k i. k < 7 \<Longrightarrow> i < image_pages h \<Longrightarrow> seg_covers (segments exe h ! k) i \<Longrightarrow>
       pt ! i = snd (snd (segments exe h ! k)) (i - fst (segments exe h ! k)) (?pt0 ! i)"
    and unc: "\<And>i. i < image_pages h \<Longrightarrow> \<forall>k < 7. \<not> seg_covers (segments exe h ! k) i \<Longrightarrow> pt ! i = ?pt0 ! i" by auto
  have below: "start_page h k + j < image_pages h" if "k < 6" "j < page_count h k" for k j
    using section_pages_below [OF lay, of k] that image_pages_end [OF lay] by (simp add: NUM_SECTIONS_def)
  have sec: "pt ! (start_page h k + j) = from_file exe h k j (k \<noteq> DATA) (?pt0 ! (start_page h k + j))"
    if "k < 4" "j < page_count h k" for k j
    using cov [of k "start_page h k + j"] below [of k j] that by (simp add: seg_covers_def segments_nth)
  have zer: "pt ! (start_page h k + j) = zero_filled (?pt0 ! (start_page h k + j))" if "k = 4 \<or> k = 5" "j < page_count h k" for k j
    using cov [of k "start_page h k + j"] below [of k j] that by (auto simp: seg_covers_def segments_nth)
  have stk: "pt ! i = zero_filled (?pt0 ! i)" if "divRoundUp (image_end h) PageSize \<le> i" "i < image_pages h" for i
    using cov [of 6 i] that image_pages_end [OF lay] stack_start_end [OF lay] by (simp add: segments_nth seg_covers_def)
  have each: "\<not> valid (pt ! i) \<and> te_File (pt ! i) \<in> {None, Some exe} \<and>
      (te_File (pt ! i) = Some exe \<longrightarrow> te_offset (pt ! i) + PageSize \<le> f_len fl)" if i: "i < image_pages h" for i
  proof -
    have "k < 4 \<or> k = 4 \<or> k = 5 \<or> k = 6" if "k < (7 :: nat)" for k using that by linarith
    then consider "\<forall>k < 7. \<not> seg_covers (segments exe h ! k) i" | k where "k < 4" "seg_covers (segments exe h ! k) i"
      | k where "k = 4 \<or> k = 5" "seg_covers (segments exe h ! k) i" | "seg_covers (segments exe h ! 6) i"
      by blast
    then show ?thesis
    proof cases
      case 1
      from unc [OF i 1] pt0 [OF i] show ?thesis by simp
    next
      case (2 k)
      then obtain j where j: "i = start_page h k + j" "j < page_count h k"
        by (auto simp: segments_cover dest!: le_Suc_ex)
      from sec [OF 2(1) j(2)] page_offset [OF inf 2(1) j(2)] pt0 [OF i] show ?thesis by (simp add: j(1) from_file_def)
    next
      case (3 k)
      then obtain j where j: "i = start_page h k + j" "j < page_count h k"
        by (auto simp: segments_cover dest!: le_Suc_ex)
      from zer [OF 3(1) j(2)] pt0 [OF i] show ?thesis by (simp add: j(1) zero_filled_def)
    next
      case 4
      then have "divRoundUp (image_end h) PageSize \<le> i" using stack_start_end [OF lay] by (simp add: segments_nth seg_covers_def)
      from stk [OF this i] pt0 [OF i] show ?thesis by (simp add: zero_filled_def)
    qed
  qed
  show ?thesis
  proof (intro exI [of _ pt] conjI pt allI impI ballI)
    fix k j assume kj: "k < (4 :: nat)" "j < page_count h k"
    from sec [OF this] page_offset [OF inf this] show "te_File (pt ! (start_page h k + j)) = Some exe"
      "\<not> te_zero (pt ! (start_page h k + j))"
      "te_offset (pt ! (start_page h k + j)) = unat (sh_offset (nh_section h k)) + j * PageSize"
      by (simp_all add: from_file_def)
  next
    fix k j assume "k \<in> {4, 5 :: nat}" "j < page_count h k"
    with zer [of k j] show "te_zero (pt ! (start_page h k + j))" by (auto simp: zero_filled_def)
  next
    fix i assume "i < image_pages h"
    from each [OF this] show "\<not> valid (pt ! i)" "te_File (pt ! i) \<in> {None, Some exe}"
      "te_File (pt ! i) = Some exe \<Longrightarrow> te_offset (pt ! i) + PageSize \<le> f_len fl" by blast+
  next
    fix i assume "divRoundUp (image_end h) PageSize \<le> i" "i < image_pages h"
    from stk [OF this] show "te_zero (pt ! i)" by (simp add: zero_filled_def)
  qed
qed

lemma owned_one:
  assumes "\<And>i. i < length pt \<Longrightarrow> \<not> valid (pt ! i)"
  shows "NumPhysPagesOwned pt = 0" "NumPhysPagesOwned (pt[v := x]) \<le> 1"
proof -
  have none: "filter valid pt = []" using assms by (metis filter_False in_set_conv_nth)
  then show "NumPhysPagesOwned pt = 0" by (simp add: NumPhysPagesOwned_filter)
  have "filter valid (pt[v := x]) = filter valid (take v pt @ x # drop (Suc v) pt)" if "v < length pt"
    using that by (simp add: upd_conv_take_nth_drop)
  moreover have "filter valid (take v pt) = []" "filter valid (drop (Suc v) pt) = []"
    using none by (auto simp: filter_empty_conv dest: in_set_takeD in_set_dropD)
  ultimately show "NumPhysPagesOwned (pt[v := x]) \<le> 1"
    using none by (cases "v < length pt") (simp_all add: NumPhysPagesOwned_filter list_update_beyond)
qed

text \<open>The state with the new table, before any page is brought in.\<close>

definition table_set :: "nat \<Rightarrow> AddrSpace \<Rightarrow> uint32 \<Rightarrow> file_id \<Rightarrow> TranslationEntry list \<Rightarrow> 'a vm_scheme \<Rightarrow> 'a vm_scheme" where
  "table_set sid a start exe pt s = s\<lparr>spaces := (spaces s)(sid \<mapsto>
     a\<lparr>startAddress := start, numPages := length pt, execFile := Some exe, pageTable := pt\<rparr>)\<rparr>"

lemma Setup_Load_ok:
  assumes inv: "vm_inv s" and cur: "currentSpace s = Some sid" and a: "spaces s sid = Some a" "pageTable a = pt" "numPages a = length pt"
    and ws: "1 \<le> wSetSize a" and out: "\<And>i. i < length pt \<Longrightarrow> \<not> valid (pt ! i) \<and> te_File (pt ! i) \<noteq> Some (swapFile s)"
    and vw: "v < length pt" "w < length pt" "v \<noteq> w" "has_backing (pt ! v)" "has_backing (pt ! w)"
    and free: "f < NumPhysPages" "g < NumPhysPages" "f \<noteq> g" "f \<notin> allocated (page_flags s)" "g \<notin> allocated (page_flags s)"
  shows "\<exists>t. bind_res (pagein s v sid) (\<lambda>s1. pagein s1 w sid) = Inr t \<and> vm_inv t \<and> same_memory s t \<and>
    (\<exists>te. ent (spaces t) sid v = Some te \<and> valid te) \<and> (\<exists>te. ent (spaces t) sid w = Some te \<and> valid te) \<and>
    (\<exists>qt. spaces t sid = Some (a\<lparr>pageTable := qt\<rparr>))"
proof -
  have e: "ent (spaces s) sid i = Some (pt ! i)" if "i < length pt" for i using that a by (simp add: ent_def)
  have few: "\<not> TooManyFrames_pt pt (wSetSize a)" "\<not> TooManyFrames_pt (pt[v := x]) (wSetSize a)" for x
    using ws owned_one(1) [of pt] owned_one(2) [of pt v x] out by (auto simp: TooManyFrames_pt_def)
  from pagein_free [OF inv e [OF vw(1)] _ vw(4) _ cur a(1)] out [OF vw(1)] few(1) free(1,4) a(2) obtain d bm n p where
    r1: "pagein s v sid = Inr ((filled s d bm sid v (pt ! v))\<lparr>numPageIns := n, procPageIns := p\<rparr>)"
    and t1: "vm_inv (filled s d bm sid v (pt ! v))" "same_memory s (filled s d bm sid v (pt ! v))"
    and bm: "allocated bm = insert d (allocated (page_flags s))" by blast
  let ?x = "own_entry d (totalTicks s) (pt ! v)"
  let ?t = "(filled s d bm sid v (pt ! v))\<lparr>numPageIns := n, procPageIns := p\<rparr>"
  have t: "vm_inv ?t" "currentSpace ?t = Some sid" "spaces ?t sid = Some (a\<lparr>pageTable := pt[v := ?x]\<rparr>)"
    "swapFile ?t = swapFile s" "page_flags ?t = bm" "ent (spaces ?t) sid w = Some (pt ! w)" "ent (spaces ?t) sid v = Some ?x"
    using t1(1) cur a vw e by (simp_all add: filled_sel) (simp add: upd_spaces_def)
  have "\<exists>k < NumPhysPages. k \<notin> allocated (page_flags ?t)"
    using free bm t(5) by (metis insertE)
  from pagein_free [OF t(1,6) _ vw(5) _ t(2,3) _ this] out [OF vw(2)] few(2) t(4) obtain d' bm' n' p' where
    r2: "pagein ?t w sid = Inr ((filled ?t d' bm' sid w (pt ! w))\<lparr>numPageIns := n', procPageIns := p'\<rparr>)"
    and t2: "vm_inv (filled ?t d' bm' sid w (pt ! w))" "same_memory ?t (filled ?t d' bm' sid w (pt ! w))" by auto
  let ?u = "(filled ?t d' bm' sid w (pt ! w))\<lparr>numPageIns := n', procPageIns := p'\<rparr>"
  have val: "valid (own_entry k now te)" for k now te by (simp add: own_entry_def pagein_entry_def setTime_def clearSC_def)
  have "ent (spaces ?u) sid v = Some ?x" "ent (spaces ?u) sid w = Some (own_entry d' (totalTicks ?t) (pt ! w))"
    using t(6,7) vw(3) by (simp_all add: filled_sel(1))
  moreover have "same_memory s ?u" using t1(2) t2(2) by (simp add: same_memory_def)
  moreover have "spaces ?u sid = Some (a\<lparr>pageTable := pt[v := ?x, w := own_entry d' (totalTicks ?t) (pt[v := ?x] ! w)]\<rparr>)"
    using a by (simp add: filled_sel(6) upd_spaces_def)
  moreover have "vm_inv ?u" using t2(1) by simp
  moreover have "bind_res (pagein s v sid) (\<lambda>s1. pagein s1 w sid) = Inr ?u" using r1 r2 by simp
  ultimately show ?thesis using val by (intro exI [of _ ?u]) blast
qed

lemma InitSpace_ok:
  assumes inv: "vm_inv s" and cur: "currentSpace s = Some sid" and a: "spaces s sid = Some a" "numPages a = 0"
    and ws: "1 \<le> wSetSize a" and rh: "ReadHeaders junk (files s exe) = Inr (start, h)" and exe: "exe \<noteq> swapFile s"
    and lay: "image_layout h" and inf: "image_in_file h (files s exe)" and ct: "0 < page_count h TEXT"
    and free: "f < NumPhysPages" "g < NumPhysPages" "f \<noteq> g" "f \<notin> allocated (page_flags s)" "g \<notin> allocated (page_flags s)"
  shows "\<exists>pt t. Setup_pages exe h (SetupTable_pages (image_pages h)) = Inr pt \<and> length pt = image_pages h \<and>
    InitSpace junk exe sid s = Inr t \<and> vm_inv t \<and> same_memory (table_set sid a start exe pt s) t \<and>
    (\<exists>qt. spaces t sid = Some (a\<lparr>startAddress := start, numPages := image_pages h, execFile := Some exe, pageTable := qt\<rparr>)) \<and>
    (\<exists>te. ent (spaces t) sid (start_page h TEXT) = Some te \<and> valid te) \<and>
    (\<exists>te. ent (spaces t) sid (image_pages h - 1) = Some te \<and> valid te)"
proof -
  from Setup_fresh [OF lay inf, of exe] obtain pt where pt: "Setup_pages exe h (SetupTable_pages (image_pages h)) = Inr pt"
      "length pt = image_pages h"
    and each: "\<forall>i < image_pages h. \<not> valid (pt ! i) \<and> te_File (pt ! i) \<in> {None, Some exe} \<and>
       (te_File (pt ! i) = Some exe \<longrightarrow> te_offset (pt ! i) + PageSize \<le> f_len (files s exe))"
    and sec: "\<forall>k < 4. \<forall>j < page_count h k. te_File (pt ! (start_page h k + j)) = Some exe \<and> \<not> te_zero (pt ! (start_page h k + j)) \<and>
       te_offset (pt ! (start_page h k + j)) = unat (sh_offset (nh_section h k)) + j * PageSize"
    and stk: "\<forall>i. divRoundUp (image_end h) PageSize \<le> i \<longrightarrow> i < image_pages h \<longrightarrow> te_zero (pt ! i)" by blast
  let ?a = "a\<lparr>startAddress := start, numPages := length pt, execFile := Some exe, pageTable := pt\<rparr>"
  let ?s = "table_set sid a start exe pt s"
  have s': "spaces ?s = (spaces s)(sid \<mapsto> ?a)" "currentSpace ?s = currentSpace s" "swapFile ?s = swapFile s"
    "page_flags ?s = page_flags s" by (simp_all add: table_set_def)
  have i: "vm_inv ?s"
    unfolding table_set_def using each exe pt(2) by (intro fresh_table_inv [OF inv a]) auto
  have n: "image_pages h = divRoundUp (image_end h) PageSize + 32" by (rule image_pages_end [OF lay])
  have v: "start_page h TEXT < divRoundUp (image_end h) PageSize"
    using section_pages_below [OF lay _ ct] ct by (simp add: section_defs)
  have b: "has_backing (pt ! start_page h TEXT)" "has_backing (pt ! (image_pages h - 1))"
    using sec [rule_format, of TEXT 0] ct stk n by (simp_all add: has_backing_def TEXT_def)
  from Setup_Load_ok [OF i, of sid ?a pt "start_page h TEXT" "image_pages h - 1" f g] each exe cur ws v n b free pt(2) obtain t where
    t: "bind_res (pagein ?s (start_page h TEXT) sid) (\<lambda>s1. pagein s1 (image_pages h - 1) sid) = Inr t" "vm_inv t"
      "same_memory ?s t" "\<exists>te. ent (spaces t) sid (start_page h TEXT) = Some te \<and> valid te"
      "\<exists>te. ent (spaces t) sid (image_pages h - 1) = Some te \<and> valid te" "\<exists>qt. spaces t sid = Some (?a\<lparr>pageTable := qt\<rparr>)"
    unfolding s' by fastforce
  have "InitSpace junk exe sid s = Inr t"
    using a(1) rh pt t(1) by (simp add: InitSpace_def SetupTable_def Setup_Load_def table_set_def)
  with pt t show ?thesis by (intro exI [of _ pt] exI [of _ t]) simp
qed

text \<open>Where the bytes of a page with a new table come from.\<close>

lemma table_set_vbyte:
  assumes "spaces s sid = Some a" "\<And>i. i < length pt \<Longrightarrow> \<not> valid (pt ! i)"
  shows "vbyte (table_set sid a start exe pt s) ow v i = (if ow = sid then
      if v < length pt then Some (backing (files s) (pt ! v) i) else None else vbyte s ow v i)"
  using assms by (auto simp: vbyte_def table_set_def ent_def te_byte_def)

lemma InitSpace_memory:
  assumes inv: "vm_inv s" and cur: "currentSpace s = Some sid" and a: "spaces s sid = Some a" "numPages a = 0"
    and ws: "1 \<le> wSetSize a" and rh: "ReadHeaders junk (files s exe) = Inr (start, h)" and exe: "exe \<noteq> swapFile s"
    and lay: "image_layout h" and inf: "image_in_file h (files s exe)" and ct: "0 < page_count h TEXT"
    and free: "f < NumPhysPages" "g < NumPhysPages" "f \<noteq> g" "f \<notin> allocated (page_flags s)" "g \<notin> allocated (page_flags s)"
  shows "\<exists>t. InitSpace junk exe sid s = Inr t \<and> vm_inv t \<and>
    (\<exists>qt. spaces t sid = Some (a\<lparr>startAddress := start, numPages := image_pages h, execFile := Some exe, pageTable := qt\<rparr>)) \<and>
    (\<forall>ow x. ow \<noteq> sid \<longrightarrow> umem t ow x = umem s ow x) \<and>
    (\<forall>k < 4. \<forall>x. unat (sh_addr (nh_section h k)) \<le> x \<longrightarrow> x < section_end h k \<longrightarrow>
       umem t sid x = Some (f_byte (files s exe) (unat (sh_offset (nh_section h k)) + (x - unat (sh_addr (nh_section h k)))))) \<and>
    (\<forall>k \<in> {4, 5}. \<forall>x. unat (sh_addr (nh_section h k)) \<le> x \<longrightarrow> x < section_end h k \<longrightarrow> umem t sid x = Some 0) \<and>
    (\<forall>x. divRoundUp (image_end h) PageSize * PageSize \<le> x \<longrightarrow> x < image_pages h * PageSize \<longrightarrow> umem t sid x = Some 0)"
proof -
  from InitSpace_ok [OF assms] obtain pt t where pt: "Setup_pages exe h (SetupTable_pages (image_pages h)) = Inr pt" "length pt = image_pages h"
    and t: "InitSpace junk exe sid s = Inr t" "vm_inv t" "same_memory (table_set sid a start exe pt s) t"
      "\<exists>qt. spaces t sid = Some (a\<lparr>startAddress := start, numPages := image_pages h, execFile := Some exe, pageTable := qt\<rparr>)"
    by blast
  from Setup_fresh [OF lay inf, of exe] pt(1) have
    each: "\<And>i. i < length pt \<Longrightarrow> \<not> valid (pt ! i)"
    and sec: "\<And>k j. k < 4 \<Longrightarrow> j < page_count h k \<Longrightarrow> te_File (pt ! (start_page h k + j)) = Some exe \<and> \<not> te_zero (pt ! (start_page h k + j)) \<and>
       te_offset (pt ! (start_page h k + j)) = unat (sh_offset (nh_section h k)) + j * PageSize"
    and zer: "\<And>k j. k \<in> {4, 5} \<Longrightarrow> j < page_count h k \<Longrightarrow> te_zero (pt ! (start_page h k + j))"
    and stk: "\<And>i. divRoundUp (image_end h) PageSize \<le> i \<Longrightarrow> i < image_pages h \<Longrightarrow> te_zero (pt ! i)" by auto
  have um: "umem t ow x = (if ow = sid then if x div PageSize < image_pages h
      then Some (backing (files s) (pt ! (x div PageSize)) (x mod PageSize)) else None else umem s ow x)" for ow x
    using t(3) table_set_vbyte [OF a(1) each, of start exe] pt(2) by (simp add: umem_def same_memory_def)
  have loc: "\<exists>j < page_count h k. x div PageSize = start_page h k + j \<and> x div PageSize < image_pages h \<and>
      j * PageSize + x mod PageSize = x - unat (sh_addr (nh_section h k))"
    if k6: "k < 6" and lo: "unat (sh_addr (nh_section h k)) \<le> x" and hi: "x < section_end h k" for k x
  proof -
    let ?ad = "unat (sh_addr (nh_section h k))" and ?sz = "unat (sh_size (nh_section h k))"
    have k: "k < NUM_SECTIONS" using k6 by (simp add: NUM_SECTIONS_def)
    have pc: "0 < page_count h k" using lo hi unfolding page_count_def section_end_def divRoundUp_page by linarith
    note sp = section_pages [OF lay k pc]
    from sp(3) obtain q where q: "?ad = PageSize * q" by (rule dvdE)
    obtain y where y: "x = ?ad + y" using lo le_Suc_ex by blast
    have d: "x div PageSize = q + y div PageSize" "x mod PageSize = y mod PageSize" using y q by simp_all
    have "y div PageSize < page_count h k"
      using hi y unfolding section_end_def page_count_def divRoundUp_page by (simp add: PageSize_def SectorSize_def)
    moreover have "start_page h k = q" using sp(1) q by simp
    moreover have "start_page h k + page_count h k \<le> image_pages h"
      using section_pages_below [OF lay k pc] image_pages_end [OF lay] by simp
    ultimately show ?thesis using d y by (intro exI [of _ "y div PageSize"]) simp
  qed
  show ?thesis
  proof (intro exI [of _ t] conjI t(1,2,4) allI impI ballI)
    show "umem t ow x = umem s ow x" if "ow \<noteq> sid" for ow x using that um by simp
    show "umem t sid x = Some (f_byte (files s exe) (unat (sh_offset (nh_section h k)) + (x - unat (sh_addr (nh_section h k)))))"
      if k: "k < 4" and x: "unat (sh_addr (nh_section h k)) \<le> x" "x < section_end h k" for k x
    proof -
      from loc [of k x] k x obtain j where j: "j < page_count h k" "x div PageSize = start_page h k + j" "x div PageSize < image_pages h"
        "j * PageSize + x mod PageSize = x - unat (sh_addr (nh_section h k))" by auto
      with sec [OF k j(1)] show ?thesis by (simp add: um backing_def flip: j(4)) (simp add: add.assoc)
    qed
    show "umem t sid x = Some 0" if k: "k \<in> {4, 5}" and x: "unat (sh_addr (nh_section h k)) \<le> x" "x < section_end h k" for k x
      using loc [of k x] k x zer [OF k] by (auto simp: um backing_def)
    show "umem t sid x = Some 0" if "divRoundUp (image_end h) PageSize * PageSize \<le> x" "x < image_pages h * PageSize" for x
      using that stk [of "x div PageSize"] by (auto simp: um backing_def less_eq_div_iff_mult_less_eq div_less_iff_less_mult)
  qed
qed

section \<open>Images that are larger than their address space\<close>

lemma Setup_range_result:
  "(\<exists>pt'. Setup_range start n f pt = Inr pt' \<and> length pt' = length pt) \<or> Setup_range start n f pt = Inl IndexOutOfBounds"
proof (induction n)
  case 0
  show ?case by (simp add: Setup_range_def)
next
  case (Suc n)
  then show ?case by (cases "start + n < length pt") (auto simp: Setup_range_def fold_res_append index_res_def)
qed

lemma Setup_range_beyond:
  assumes "length pt < start + n" "0 < n"
  shows "Setup_range start n f pt = Inl IndexOutOfBounds"
proof -
  obtain m where m: "n = Suc m" using assms(2) gr0_implies_Suc by blast
  with Setup_range_result [of start m f pt] assms(1) show ?thesis by (auto simp: Setup_range_def fold_res_append index_res_def)
qed

lemma Setup_pages_beyond:
  assumes "length pt < divRoundUp (unat (stack_start h)) PageSize + 32"
  shows "Setup_pages exe h pt = Inl IndexOutOfBounds"
proof -
  have last: "Setup_zero (divRoundUp (unat (stack_start h)) PageSize) (divRoundUp UserStackSize PageSize) qt = Inl IndexOutOfBounds"
    if "length qt = length pt" for qt
    using assms that Setup_range_beyond by (simp add: Setup_zero_def stack_pages)
  have bind: "bind_res m k = Inl IndexOutOfBounds"
    if "(\<exists>pt'. m = Inr pt' \<and> length pt' = length pt) \<or> m = Inl IndexOutOfBounds" "\<And>qt. length qt = length pt \<Longrightarrow> k qt = Inl IndexOutOfBounds"
    for m :: "TranslationEntry list res" and k :: "TranslationEntry list \<Rightarrow> TranslationEntry list res"
    using that by auto
  have filed: "(\<exists>pt'. Setup_file exe ro h k qt = Inr pt' \<and> length pt' = length pt) \<or> Setup_file exe ro h k qt = Inl IndexOutOfBounds"
    and zero: "(\<exists>pt'. Setup_zero st n qt = Inr pt' \<and> length pt' = length pt) \<or> Setup_zero st n qt = Inl IndexOutOfBounds"
    if "length qt = length pt" for ro k qt st n
    using that Setup_range_result unfolding Setup_file_def Setup_zero_def by metis+
  show ?thesis
    unfolding Setup_pages_def by (intro bind filed zero last refl) assumption+
qed

lemma InitSpace_beyond:
  assumes "spaces s sid = Some a" "ReadHeaders junk (files s exe) = Inr (start, h)"
    and "image_pages h < divRoundUp (unat (stack_start h)) PageSize + 32"
  shows "InitSpace junk exe sid s = Inl IndexOutOfBounds"
  using assms Setup_pages_beyond [of "SetupTable_pages (image_pages h)" h exe]
  by (simp add: InitSpace_def SetupTable_def Setup_Load_def SetupTable_pages_def)

end
