(* ===== verification/Loader_Properties.thy ===== *)
theory Loader_Properties
  imports Loading VM_Properties
begin

text \<open>What loading an executable guarantees, and when it goes wrong, with small executables to show it.\<close>

section \<open>Small executables\<close>

definition le_bytes :: "nat \<Rightarrow> uint32 \<Rightarrow> byte list" where
  "le_bytes n w = map (\<lambda>i. ucast (drop_bit (8 * i) w)) [0..<n]"

text \<open>Name offset, address, file offset and size of a section.\<close>

type_synonym section_spec = "uint32 \<times> uint32 \<times> uint32 \<times> uint32"

definition section_bytes :: "section_spec \<Rightarrow> byte list" where
  "section_bytes = (\<lambda>(nm, ad, off, sz). le_bytes 4 nm @ le_bytes 4 1 @ le_bytes 4 0 @ le_bytes 4 ad @ le_bytes 4 off @
     le_bytes 4 sz @ replicate 16 0)"

text \<open>The file header, the section headers, the last of them that of the names, and the names.\<close>

definition elf_bytes :: "section_spec list \<Rightarrow> byte list \<Rightarrow> byte list" where
  "elf_bytes secs names =
     [0x7F, 0x45, 0x4C, 0x46, 1, 1, 1] @ replicate 9 0 @ le_bytes 2 2 @ le_bytes 2 8 @ le_bytes 4 1 @ le_bytes 4 0x80 @
     le_bytes 4 0 @ le_bytes 4 52 @ le_bytes 4 0 @ le_bytes 2 52 @ le_bytes 2 0 @ le_bytes 2 0 @ le_bytes 2 40 @
     le_bytes 2 (of_nat (length secs)) @ le_bytes 2 (of_nat (length secs - 1)) @
     concat (map section_bytes secs) @ names"

definition elf_file :: "section_spec list \<Rightarrow> byte list \<Rightarrow> OpenFile" where
  "elf_file secs names = (let bs = elf_bytes secs names in
     \<lparr>f_len = 512, f_byte = (\<lambda>i. if i < length bs then bs ! i else 0)\<rparr>)"

definition text_file :: OpenFile where
  "text_file = elf_file [(0, 0x80, 0, 128), (6, 0, 132, 16)] (cstring ''.text'' @ cstring ''.shstrtab'')"

definition header_view :: "(uint32 \<times> NachosHeader) res \<Rightarrow> (uint32 \<times> (uint32 \<times> uint32 \<times> uint32) list) res" where
  "header_view r = bind_res r (\<lambda>(start, h). Inr (start, map (\<lambda>k. (sh_addr (nh_section h k), sh_offset (nh_section h k),
     sh_size (nh_section h k))) [0..<6]))"


lemma header_viewD:
  assumes "header_view r = Inr (start, xs)"
  obtains h where "r = Inr (start, h)"
    "\<And>k. k < 6 \<Longrightarrow> (sh_addr (nh_section h k), sh_offset (nh_section h k), sh_size (nh_section h k)) = xs ! k"
proof (cases r)
  case (Inr p)
  obtain st h where p: "p = (st, h)" by (cases p)
  with assms Inr have "st = start"
    "xs = map (\<lambda>k. (sh_addr (nh_section h k), sh_offset (nh_section h k), sh_size (nh_section h k))) [0..<6]"
    by (simp_all add: header_view_def)
  with Inr p show ?thesis by (intro that [of h]) simp_all
qed (use assms in \<open>simp add: header_view_def\<close>)



definition loader_vm :: vm where
  "loader_vm = (sample_vm ())\<lparr>currentSpace := Some 3, files := (\<lambda>_. text_file)\<rparr>"


section \<open>Properties\<close>



text \<open>
  C20: the size of the address space, in pages, is computed from the section with the greatest address, the first of them
  when several have the same, and not from the greatest end. When fewer pages result than those up to the greatest end, rounded up to whole
  pages, and those of the stack behind it, \<open>Setup_Load\<close> writes past the end of the page table. (An empty \<open>.data\<close> at the address
  of a \<open>.bss\<close> of two pages is enough. Nothing is overrun when the two ends round up to the same page.)
\<close>

theorem InitSpace_overruns:
  assumes "spaces s sid = Some a" "ReadHeaders junk (files s exe) = Inr (start, h)"
    and "image_pages h < divRoundUp (unat (stack_start h)) PageSize + divRoundUp UserStackSize PageSize"
  shows "InitSpace junk exe sid s = Inl IndexOutOfBounds"
  using InitSpace_beyond [OF assms(1,2)] assms(3) by (simp add: stack_pages)

definition bss_file :: OpenFile where
  "bss_file = elf_file [(0, 0x80, 0, 128), (6, 0x100, 0, 0), (12, 0x100, 0, 256), (17, 0, 212, 27)]
     (cstring ''.text'' @ cstring ''.data'' @ cstring ''.bss'' @ cstring ''.shstrtab'')"

lemma bss_file_headers:
  "header_view (ReadHeaders (\<lambda>_ _. 0) bss_file) =
     Inr (0x80, [(0, 0, 0), (0x80, 0, 128), (0, 0, 0), (0x100, 0, 0), (0x100, 0, 256), (0, 0, 0)])"
  by code_simp

theorem InitSpace_overruns_witness:
  "InitSpace (\<lambda>_ _. 0) 1 3 (loader_vm\<lparr>files := (\<lambda>_. bss_file)\<rparr>) = Inl IndexOutOfBounds"
proof -
  let ?s = "loader_vm\<lparr>files := (\<lambda>_. bss_file)\<rparr>"
  from header_viewD [OF bss_file_headers] obtain h where h: "ReadHeaders (\<lambda>_ _. 0) bss_file = Inr (0x80, h)"
    and v: "\<And>k. k < 6 \<Longrightarrow> (sh_addr (nh_section h k), sh_offset (nh_section h k), sh_size (nh_section h k)) =
      [(0, 0, 0), (0x80, 0, 128), (0, 0, 0), (0x100, 0, 0), (0x100, 0, 256), (0, 0, 0)] ! k" by blast
  have f: "sh_addr (nh_section h 0) = 0" "sh_addr (nh_section h 1) = 0x80" "sh_addr (nh_section h 2) = 0"
      "sh_addr (nh_section h 3) = 0x100" "sh_addr (nh_section h 4) = 0x100" "sh_addr (nh_section h 5) = 0"
      "sh_size (nh_section h 0) = 0" "sh_size (nh_section h 1) = 128" "sh_size (nh_section h 2) = 0"
      "sh_size (nh_section h 3) = 0" "sh_size (nh_section h 4) = 256" "sh_size (nh_section h 5) = 0"
    using v [of 0] v [of 1] v [of 2] v [of 3] v [of 4] v [of 5] by simp_all
  have "[0..<6] = [0, 1, 2, 3, 4, 5 :: nat]" by (simp add: upt_rec)
  then have "max_section h = (0x100, 0)" using f by (simp add: max_section_def NUM_SECTIONS_def max_section_step_def)
  then have "image_pages h = 34" by (simp add: image_pages_def divRoundUp_page UserStackSize_def)
  moreover have "stack_start h = 0x200" using f by (simp add: stack_start_def STACK_START_MAX_def section_defs)
  ultimately have "image_pages h < divRoundUp (unat (stack_start h)) PageSize + divRoundUp UserStackSize PageSize"
    by (simp add: divRoundUp_page UserStackSize_def)
  moreover have "spaces ?s 3 = Some (sample_space 3 [])" by (simp add: loader_vm_def sample_vm_def)
  ultimately show ?thesis using InitSpace_overruns [of ?s 3 _ "\<lambda>_ _. 0" 1 "0x80" h] h by simp
qed

end
