(* ===== verification/Fs_Header.thy ===== *)
theory Fs_Header
  imports Bitmap "HOL-Library.Signed_Division"
begin

text \<open>
  The Nachos file system: the disk behind \<open>filesys/synchdisk.cc\<close> and the headers of files
  (\<open>filesys/filehdr.cc\<close>). A request of \<open>SynchDisk\<close> returns when the disk has done it, so it acts on the contents
  of the disk at once; the assertion on the sector number is the one of \<open>machine/disk.cc\<close>. A header is written as it
  lies in memory: 32 integers of 4 bytes, the least significant byte first.
\<close>

section \<open>The disk\<close>

definition SectorsPerTrack :: nat where "SectorsPerTrack = 32"
definition NumTracks :: nat where "NumTracks = 32"
definition NumSectors :: nat where "NumSectors = SectorsPerTrack * NumTracks"

type_synonym disk = "nat \<Rightarrow> nat \<Rightarrow> byte"

definition ReadSector :: "int \<Rightarrow> disk \<Rightarrow> byte list res" where
  "ReadSector sectorNumber d =
     assert_res (0 \<le> sectorNumber \<and> sectorNumber < int NumSectors) (\<lambda>_.
     Inr (map (d (nat sectorNumber)) [0..<SectorSize]))"

definition WriteSector :: "int \<Rightarrow> byte list \<Rightarrow> disk \<Rightarrow> disk res" where
  "WriteSector sectorNumber data d =
     assert_res (0 \<le> sectorNumber \<and> sectorNumber < int NumSectors) (\<lambda>_.
     Inr (d(nat sectorNumber := (\<lambda>i. if i < SectorSize then data ! i else d (nat sectorNumber) i))))"

section \<open>Headers\<close>

definition NumDirect :: nat where "NumDirect = (SectorSize - 2 * 4) div 4"
definition MaxFileSize :: nat where "MaxFileSize = NumDirect * SectorSize"

record FileHeader =
  numBytes :: int
  numSectors :: int
  dataSectors :: "int list"

definition divRoundUp_int :: "int \<Rightarrow> int \<Rightarrow> int" where
  "divRoundUp_int n s = n sdiv s + (if n smod s > 0 then 1 else 0)"

definition Allocate_step :: "nat \<Rightarrow> BitMap \<times> FileHeader \<Rightarrow> (BitMap \<times> FileHeader) res" where
  "Allocate_step i = (\<lambda>(freeMap, h).
     bind_res (Find freeMap) (\<lambda>(k, freeMap1).
     if i < NumDirect then Inr (freeMap1, h\<lparr>dataSectors := (dataSectors h)[i := k]\<rparr>) else Inl IndexOutOfBounds))"

definition FileHeader_Allocate :: "BitMap \<Rightarrow> int \<Rightarrow> FileHeader \<Rightarrow> (bool \<times> BitMap \<times> FileHeader) res" where
  "FileHeader_Allocate freeMap fileSize h =
     (let h1 = h\<lparr>numBytes := fileSize, numSectors := divRoundUp_int fileSize (int SectorSize)\<rparr> in
      bind_res (NumClear freeMap) (\<lambda>clear.
      if int clear < numSectors h1 then Inr (False, freeMap, h1)
      else bind_res (fold_res Allocate_step [0..<nat (numSectors h1)] (freeMap, h1)) (\<lambda>(freeMap1, h2).
        Inr (True, freeMap1, h2))))"

definition Deallocate_step :: "FileHeader \<Rightarrow> nat \<Rightarrow> BitMap \<Rightarrow> BitMap res" where
  "Deallocate_step h i freeMap =
     bind_res (index_res (dataSectors h) i) (\<lambda>k.
     bind_res (Test freeMap k) (\<lambda>marked.
     assert_res marked (\<lambda>_. Clear freeMap k)))"

definition FileHeader_Deallocate :: "BitMap \<Rightarrow> FileHeader \<Rightarrow> BitMap res" where
  "FileHeader_Deallocate freeMap h = fold_res (Deallocate_step h) [0..<nat (numSectors h)] freeMap"

text \<open>The memory image of an \<open>int\<close> and of a header.\<close>

definition int_bytes :: "int \<Rightarrow> byte list" where
  "int_bytes x = word_bytes (word_of_int x)"

definition bytes_int :: "byte list \<Rightarrow> int" where
  "bytes_int bs = sint (bytes_word bs)"

definition header_bytes :: "FileHeader \<Rightarrow> byte list" where
  "header_bytes h = concat (map int_bytes (numBytes h # numSectors h # dataSectors h))"

definition header_of :: "byte list \<Rightarrow> FileHeader" where
  "header_of bs = \<lparr>numBytes = bytes_int (take 4 bs), numSectors = bytes_int (take 4 (drop 4 bs)),
     dataSectors = map (\<lambda>i. bytes_int (take 4 (drop (4 * (i + 2)) bs))) [0..<NumDirect]\<rparr>"

definition FileHeader_FetchFrom :: "int \<Rightarrow> disk \<Rightarrow> FileHeader res" where
  "FileHeader_FetchFrom sector d = bind_res (ReadSector sector d) (\<lambda>bs. Inr (header_of bs))"

definition FileHeader_WriteBack :: "int \<Rightarrow> FileHeader \<Rightarrow> disk \<Rightarrow> disk res" where
  "FileHeader_WriteBack sector h d = WriteSector sector (header_bytes h) d"

definition ByteToSector :: "FileHeader \<Rightarrow> int \<Rightarrow> int res" where
  "ByteToSector h off =
     (let i = off sdiv int SectorSize in
      if i < 0 then Inl IndexOutOfBounds else index_res (dataSectors h) (nat i))"

definition FileLength :: "FileHeader \<Rightarrow> int" where
  "FileLength h = numBytes h"

section \<open>Round trips\<close>

definition int_range :: "int \<Rightarrow> bool" where
  "int_range x \<longleftrightarrow> - (2 ^ 31) \<le> x \<and> x < 2 ^ 31"

lemma length_int_bytes [simp]: "length (int_bytes x) = 4"
  by (simp add: int_bytes_def)

lemma int_bytes_inverse: "int_range x \<Longrightarrow> bytes_int (int_bytes x) = x"
  by (simp add: bytes_int_def int_bytes_def int_range_def sint_sbintrunc' signed_take_bit_int_eq_self)

lemma header_bytes_inverse:
  assumes "length (dataSectors h) = NumDirect" "int_range (numBytes h)" "int_range (numSectors h)"
    "\<And>k. k \<in> set (dataSectors h) \<Longrightarrow> int_range k"
  shows "header_of (header_bytes h) = h"
proof -
  let ?xs = "numBytes h # numSectors h # dataSectors h"
  have block: "bytes_int (take 4 (drop (4 * i) (header_bytes h))) = ?xs ! i" if "i < length ?xs" for i
  proof -
    have "take 4 (drop (4 * i) (header_bytes h)) = int_bytes (?xs ! i)"
      unfolding header_bytes_def by (rule concat_blocks [OF _ that]) simp
    moreover have "int_range (?xs ! i)" using assms(2-4) nth_mem [OF that] by auto
    ultimately show ?thesis by (simp add: int_bytes_inverse)
  qed
  have "bytes_int (take 4 (drop (4 * (i + 2)) (header_bytes h))) = dataSectors h ! i" if "i < NumDirect" for i
    using block [of "i + 2"] assms(1) that by simp
  then have "map (\<lambda>i. bytes_int (take 4 (drop (4 * (i + 2)) (header_bytes h)))) [0..<NumDirect] = dataSectors h"
    using assms(1) by (intro nth_equalityI) simp_all
  then show ?thesis using block [of 0] block [of 1] by (simp add: header_of_def)
qed

lemma length_header_bytes: "length (dataSectors h) = NumDirect \<Longrightarrow> length (header_bytes h) = SectorSize"
  unfolding header_bytes_def by (subst length_concat_blocks [of _ _ 4]) (simp_all add: NumDirect_def SectorSize_def)

lemma ReadSector_WriteSector:
  assumes "WriteSector k data d = Inr d'" "length data = SectorSize"
  shows "ReadSector k d' = Inr data" "\<And>j. j \<noteq> nat k \<Longrightarrow> d' j = d j"
  using assms by (auto simp: WriteSector_def ReadSector_def assert_res_eq_Inr intro!: nth_equalityI)

section \<open>Allocation\<close>

text \<open>The sectors of a file, and a header as \<open>Allocate\<close> makes it.\<close>

definition data_sectors :: "FileHeader \<Rightarrow> nat list" where
  "data_sectors h = map nat (take (nat (numSectors h)) (dataSectors h))"

definition header_ok :: "FileHeader \<Rightarrow> bool" where
  "header_ok h \<longleftrightarrow> 0 \<le> numBytes h \<and> numBytes h \<le> int MaxFileSize \<and>
     numSectors h = int (divRoundUp (nat (numBytes h)) SectorSize) \<and>
     length (dataSectors h) = NumDirect \<and> (\<forall>k \<in> set (dataSectors h). int_range k) \<and>
     (\<forall>k \<in> set (take (nat (numSectors h)) (dataSectors h)). 0 \<le> k \<and> k < int NumSectors) \<and> distinct (data_sectors h)"

lemma divRoundUp_int_nat:
  assumes "0 \<le> n" "0 < s"
  shows "divRoundUp_int n (int s) = int (divRoundUp (nat n) s)"
proof -
  from assms(1) obtain m where m: "n = int m" by (metis nat_0_le)
  have "n sdiv int s = int (m div s)" "n smod int s = int (m mod s)"
    using assms(2) by (simp_all add: m signed_divide_int_def signed_modulo_int_def zdiv_int zmod_int sgn_if minus_mult_div_eq_mod mult.commute)
  then show ?thesis by (simp add: divRoundUp_int_def divRoundUp_def m)
qed

lemma divRoundUp_NumDirect: "n \<le> MaxFileSize \<Longrightarrow> divRoundUp n SectorSize \<le> NumDirect"
  by (simp add: divRoundUp_le_iff MaxFileSize_def SectorSize_def)

lemma header_ok_sectors: "header_ok h \<Longrightarrow> length (data_sectors h) = nat (numSectors h)"
  using divRoundUp_NumDirect [of "nat (numBytes h)"] by (auto simp: header_ok_def data_sectors_def)

definition allocating :: "BitMap \<Rightarrow> FileHeader \<Rightarrow> nat \<Rightarrow> BitMap \<times> FileHeader \<Rightarrow> bool" where
  "allocating bm h i = (\<lambda>(bm', h'). bm_wf bm' \<and> numBits bm' = numBits bm \<and> numBytes h' = numBytes h \<and>
     numSectors h' = numSectors h \<and> length (dataSectors h') = NumDirect \<and>
     (\<forall>j < NumDirect. i \<le> j \<longrightarrow> dataSectors h' ! j = dataSectors h ! j) \<and>
     (\<exists>ks. take i (dataSectors h') = map int ks \<and> distinct ks \<and>
       set ks \<subseteq> {..<numBits bm} - allocated bm \<and> allocated bm' = allocated bm \<union> set ks))"

lemma Allocate_loop:
  assumes "bm_wf bm" "length (dataSectors h) = NumDirect" "n \<le> NumDirect" "n + card (allocated bm) \<le> numBits bm"
  shows "\<exists>r. fold_res Allocate_step [0..<n] (bm, h) = Inr r \<and> allocating bm h n r"
  using assms(3,4)
proof (induction n)
  case 0
  with assms(1,2) show ?case by (simp add: allocating_def)
next
  case (Suc n)
  then obtain bm1 h1 where r: "fold_res Allocate_step [0..<n] (bm, h) = Inr (bm1, h1)" "allocating bm h n (bm1, h1)" by auto
  then obtain ks where ks: "take n (dataSectors h1) = map int ks" "distinct ks" "set ks \<subseteq> {..<numBits bm} - allocated bm"
    "allocated bm1 = allocated bm \<union> set ks" and wf: "bm_wf bm1" "numBits bm1 = numBits bm" "length (dataSectors h1) = NumDirect"
    unfolding allocating_def by blast
  have "length ks = n" using arg_cong [OF ks(1), of length] Suc.prems(1) wf(3) by simp
  then have "card (allocated bm1) = card (allocated bm) + n"
    using ks bm.finite_used [OF assms(1)] by (subst ks(4), subst card_Un_disjoint) (auto simp: distinct_card)
  with Suc.prems(2) wf(2) have "card (allocated bm1) < numBits bm1" by simp
  from bm.alloc_available [OF wf(1) this] obtain k bm2 where k: "Find bm1 = Inr (int k, bm2)" "k < numBits bm1" "k \<notin> allocated bm1"
    "bm_wf bm2" "numBits bm2 = numBits bm1" "allocated bm2 = insert k (allocated bm1)" by blast
  let ?h2 = "h1\<lparr>dataSectors := (dataSectors h1)[n := int k]\<rparr>"
  have step: "Allocate_step n (bm1, h1) = Inr (bm2, ?h2)" using k(1) Suc.prems(1) by (simp add: Allocate_step_def)
  have "take (Suc n) ((dataSectors h1)[n := int k]) = map int (ks @ [k])"
    using Suc.prems(1) wf(3) ks(1) by (simp add: take_Suc_conv_app_nth)
  moreover have "distinct (ks @ [k])" "set (ks @ [k]) \<subseteq> {..<numBits bm} - allocated bm"
    using ks k(2,3) wf(2) by auto
  moreover have "allocated bm2 = allocated bm \<union> set (ks @ [k])" using k(6) ks(4) by auto
  ultimately have ex: "\<exists>ks'. take (Suc n) (dataSectors ?h2) = map int ks' \<and> distinct ks' \<and>
      set ks' \<subseteq> {..<numBits bm} - allocated bm \<and> allocated bm2 = allocated bm \<union> set ks'"
    by (intro exI [of _ "ks @ [k]"]) simp
  from r(2) have "numBytes h1 = numBytes h" "numSectors h1 = numSectors h"
    "\<forall>j < NumDirect. n \<le> j \<longrightarrow> dataSectors h1 ! j = dataSectors h ! j" by (simp_all add: allocating_def)
  then have "allocating bm h (Suc n) (bm2, ?h2)"
    unfolding allocating_def using ex k(4,5) wf by simp
  with r(1) step show ?case by (simp add: fold_res_append)
qed

lemma Allocate_ok:
  assumes bm: "bm_wf bm" "numBits bm = NumSectors" and h: "length (dataSectors h) = NumDirect" "\<forall>k \<in> set (dataSectors h). int_range k"
    and size: "0 \<le> fileSize" "fileSize \<le> int MaxFileSize"
  shows "if NumSectors - card (allocated bm) < divRoundUp (nat fileSize) SectorSize
    then \<exists>h'. FileHeader_Allocate bm fileSize h = Inr (False, bm, h')
    else \<exists>bm' h'. FileHeader_Allocate bm fileSize h = Inr (True, bm', h') \<and> bm_wf bm' \<and> numBits bm' = NumSectors \<and>
      header_ok h' \<and> numBytes h' = fileSize \<and> set (data_sectors h') \<inter> allocated bm = {} \<and>
      allocated bm' = allocated bm \<union> set (data_sectors h')"
proof -
  let ?n = "divRoundUp (nat fileSize) SectorSize"
  let ?h1 = "h\<lparr>numBytes := fileSize, numSectors := int ?n\<rparr>"
  have n: "divRoundUp_int fileSize (int SectorSize) = int ?n" by (rule divRoundUp_int_nat [OF size(1)]) (simp add: SectorSize_def)
  have le: "?n \<le> NumDirect" using size by (intro divRoundUp_NumDirect) linarith
  have cap: "card (allocated bm) \<le> numBits bm"
    using card_mono [OF _ bm.used_below [OF bm(1)]] by simp
  show ?thesis
  proof (cases "NumSectors - card (allocated bm) < ?n")
    case True
    then show ?thesis using NumClear_correct [OF bm(1)] bm(2) by (simp add: FileHeader_Allocate_def n)
  next
    case False
    with cap bm(2) have room: "?n + card (allocated bm) \<le> numBits bm" by simp
    have len: "length (dataSectors ?h1) = NumDirect" by (simp add: h(1))
    from Allocate_loop [OF bm(1) len le room] obtain bm' h' where
      r: "fold_res Allocate_step [0..<?n] (bm, ?h1) = Inr (bm', h')" "allocating bm ?h1 ?n (bm', h')" by auto
    then obtain ks where ks: "take ?n (dataSectors h') = map int ks" "distinct ks" "set ks \<subseteq> {..<NumSectors} - allocated bm"
      "allocated bm' = allocated bm \<union> set ks" and h': "numBytes h' = fileSize" "numSectors h' = int ?n" "length (dataSectors h') = NumDirect"
      "\<forall>j < NumDirect. ?n \<le> j \<longrightarrow> dataSectors h' ! j = dataSectors h ! j" and bm': "bm_wf bm'" "numBits bm' = NumSectors"
      using bm(2) by (auto simp: allocating_def dest: sym)
    have ds: "data_sectors h' = ks" using ks(1) by (simp add: data_sectors_def h'(2) comp_def)
    have "int_range (dataSectors h' ! j)" if "j < NumDirect" for j
    proof (cases "j < ?n")
      case True
      with ks(1) h'(3) le have j: "dataSectors h' ! j = int (ks ! j)" "j < length ks"
        by (metis length_map length_take min.absorb2 nth_map nth_take)+
      have "ks ! j < NumSectors" using subsetD [OF ks(3) nth_mem [OF j(2)]] by simp
      with j(1) show ?thesis by (simp add: int_range_def NumSectors_def SectorsPerTrack_def NumTracks_def)
    qed (use h h'(4) that in auto)
    then have "\<forall>k \<in> set (dataSectors h'). int_range k" using h'(3) by (auto simp: in_set_conv_nth)
    then have "header_ok h'"
      using ks size h' le by (auto simp: header_ok_def ds)
    with r(1) False ks ds bm' h'(1) show ?thesis
      using NumClear_correct [OF bm(1)] bm(2) by (auto simp: FileHeader_Allocate_def n)
  qed
qed

lemma Allocate_room:
  assumes "bm_wf bm" "numBits bm = NumSectors" "length (dataSectors h) = NumDirect" "\<forall>k \<in> set (dataSectors h). int_range k"
    "0 \<le> fileSize" "fileSize \<le> int MaxFileSize" "card (allocated bm) + divRoundUp (nat fileSize) SectorSize \<le> NumSectors"
  obtains bm' h' where "FileHeader_Allocate bm fileSize h = Inr (True, bm', h')" "bm_wf bm'" "numBits bm' = NumSectors"
    "header_ok h'" "numBytes h' = fileSize" "set (data_sectors h') \<inter> allocated bm = {}"
    "allocated bm' = allocated bm \<union> set (data_sectors h')"
    "card (allocated bm') = card (allocated bm) + divRoundUp (nat fileSize) SectorSize"
proof -
  from assms(7) have "\<not> NumSectors - card (allocated bm) < divRoundUp (nat fileSize) SectorSize" by linarith
  then obtain bm' h' where r: "FileHeader_Allocate bm fileSize h = Inr (True, bm', h')" "bm_wf bm'" "numBits bm' = NumSectors"
    "header_ok h'" "numBytes h' = fileSize" "set (data_sectors h') \<inter> allocated bm = {}"
    "allocated bm' = allocated bm \<union> set (data_sectors h')"
    using Allocate_ok [OF assms(1-6)] by auto
  have "card (set (data_sectors h')) = divRoundUp (nat fileSize) SectorSize"
    using r(4,5) header_ok_sectors [OF r(4)] by (simp add: distinct_card header_ok_def)
  then have "card (allocated bm') = card (allocated bm) + divRoundUp (nat fileSize) SectorSize"
    unfolding r(7) using r(6) bm.finite_used [OF assms(1)] by (subst card_Un_disjoint) auto
  with r show thesis by (rule that)
qed

text \<open>Without a check against \<open>MaxFileSize\<close>, the loop runs past the table of the header.\<close>

lemma Allocate_overruns:
  assumes bm: "bm_wf bm" "numBits bm = NumSectors" and h: "length (dataSectors h) = NumDirect" and size: "0 \<le> fileSize"
    and n: "NumDirect < divRoundUp (nat fileSize) SectorSize"
    and room: "divRoundUp (nat fileSize) SectorSize + card (allocated bm) \<le> NumSectors"
  shows "FileHeader_Allocate bm fileSize h = Inl IndexOutOfBounds"
proof -
  let ?n = "divRoundUp (nat fileSize) SectorSize"
  let ?h1 = "h\<lparr>numBytes := fileSize, numSectors := int ?n\<rparr>"
  have nn: "divRoundUp_int fileSize (int SectorSize) = int ?n" by (rule divRoundUp_int_nat [OF size]) (simp add: SectorSize_def)
  have "NumDirect + card (allocated bm) \<le> numBits bm" using n room bm(2) by linarith
  from Allocate_loop [OF bm(1) _ le_refl this, of ?h1] h obtain bm1 h1 where
    r: "fold_res Allocate_step [0..<NumDirect] (bm, ?h1) = Inr (bm1, h1)" "allocating bm ?h1 NumDirect (bm1, h1)" by auto
  then obtain ks where ks: "take NumDirect (dataSectors h1) = map int ks" "set ks \<subseteq> {..<numBits bm} - allocated bm" "distinct ks"
    "allocated bm1 = allocated bm \<union> set ks" and wf: "bm_wf bm1" "numBits bm1 = numBits bm" "length (dataSectors h1) = NumDirect"
    unfolding allocating_def by blast
  have "length ks = NumDirect" using arg_cong [OF ks(1), of length] wf(3) by simp
  then have "card (allocated bm1) = card (allocated bm) + NumDirect"
    using ks bm.finite_used [OF bm(1)] by (subst ks(4), subst card_Un_disjoint) (auto simp: distinct_card)
  then have "card (allocated bm1) < numBits bm1" using n room bm(2) wf(2) by linarith
  from bm.alloc_available [OF wf(1) this] obtain k bm2 where "Find bm1 = Inr (int k, bm2)" by blast
  then have "Allocate_step NumDirect (bm1, h1) = Inl IndexOutOfBounds" by (simp add: Allocate_step_def)
  moreover have "[0..<?n] = [0..<NumDirect] @ NumDirect # [Suc NumDirect..<?n]"
    by (rule upt_split_at [OF n])
  ultimately have "fold_res Allocate_step [0..<?n] (bm, ?h1) = Inl IndexOutOfBounds" using r(1) by (simp add: fold_res_append)
  moreover have "\<not> NumSectors - card (allocated bm) < ?n" using room by linarith
  ultimately show ?thesis using NumClear_correct [OF bm(1)] bm(2) by (simp add: FileHeader_Allocate_def nn)
qed

lemma Deallocate_ok:
  assumes bm: "bm_wf bm" "numBits bm = NumSectors" and h: "header_ok h" and sub: "set (data_sectors h) \<subseteq> allocated bm"
  shows "\<exists>bm'. FileHeader_Deallocate bm h = Inr bm' \<and> bm_wf bm' \<and> numBits bm' = NumSectors \<and>
    allocated bm' = allocated bm - set (data_sectors h)"
proof -
  let ?n = "nat (numSectors h)" and ?ks = "data_sectors h"
  have le: "?n \<le> NumDirect" using h divRoundUp_NumDirect [of "nat (numBytes h)"] by (auto simp: header_ok_def)
  then have len: "length ?ks = ?n" using h by (simp add: data_sectors_def header_ok_def)
  have at: "dataSectors h ! i = int (?ks ! i)" "?ks ! i < NumSectors" if "i < ?n" for i
  proof -
    have "dataSectors h ! i \<in> set (take ?n (dataSectors h))"
      using that le h by (auto simp: header_ok_def in_set_conv_nth intro!: exI [of _ i])
    with h have "0 \<le> dataSectors h ! i" "dataSectors h ! i < int NumSectors" by (auto simp: header_ok_def)
    moreover have "?ks ! i = nat (dataSectors h ! i)" using that le h by (simp add: data_sectors_def header_ok_def)
    ultimately show "dataSectors h ! i = int (?ks ! i)" "?ks ! i < NumSectors" by simp_all
  qed
  have "n \<le> ?n \<Longrightarrow> \<exists>bm'. fold_res (Deallocate_step h) [0..<n] bm = Inr bm' \<and> bm_wf bm' \<and> numBits bm' = NumSectors \<and>
    allocated bm' = allocated bm - set (take n ?ks)" for n
  proof (induction n)
    case 0
    with bm show ?case by simp
  next
    case (Suc n)
    then obtain b where b: "fold_res (Deallocate_step h) [0..<n] bm = Inr b" "bm_wf b" "numBits b = NumSectors"
      "allocated b = allocated bm - set (take n ?ks)" by auto
    have lt: "n < ?n" using Suc.prems by simp
    have "?ks ! n \<in> allocated b"
      using lt len sub h b(4) by (auto simp: header_ok_def nth_mem subset_iff in_set_conv_nth nth_eq_iff_index_eq)
    moreover from Clear_spec [OF b(2), of "?ks ! n"] at(2) [OF lt] b(3) obtain b' where
      "Clear b (int (?ks ! n)) = Inr b'" "bm_wf b'" "numBits b' = NumSectors" "allocated b' = allocated b - {?ks ! n}" by auto
    ultimately have "Deallocate_step h n b = Inr b'" "bm_wf b'" "numBits b' = NumSectors" "allocated b' = allocated b - {?ks ! n}"
      using at [OF lt] lt le h Test_spec [OF b(2), of "?ks ! n"] b(3) by (simp_all add: Deallocate_step_def header_ok_def)
    with b(1,4) show ?case using lt len by (auto simp: fold_res_append take_Suc_conv_app_nth)
  qed
  from this [of ?n] show ?thesis by (simp add: FileHeader_Deallocate_def len)
qed

lemma header_roundtrip:
  assumes "header_ok h" "0 \<le> k" "k < int NumSectors"
  shows "\<exists>d'. FileHeader_WriteBack k h d = Inr d' \<and> FileHeader_FetchFrom k d' = Inr h \<and> (\<forall>j. j \<noteq> nat k \<longrightarrow> d' j = d j)"
proof -
  from assms(2,3) obtain d' where d': "FileHeader_WriteBack k h d = Inr d'" by (simp add: FileHeader_WriteBack_def WriteSector_def)
  have len: "length (dataSectors h) = NumDirect" using assms(1) by (simp add: header_ok_def)
  note rw = ReadSector_WriteSector [OF d' [unfolded FileHeader_WriteBack_def] length_header_bytes [OF len]]
  have "numSectors h \<le> int NumDirect"
    using assms(1) divRoundUp_NumDirect [of "nat (numBytes h)"] by (auto simp: header_ok_def)
  then have "header_of (header_bytes h) = h"
    using assms(1) by (intro header_bytes_inverse)
      (auto simp: header_ok_def int_range_def MaxFileSize_def NumDirect_def SectorSize_def)
  with d' rw show ?thesis by (auto simp: FileHeader_FetchFrom_def)
qed

end
