(* ===== verification/Fs_File.thy ===== *)
theory Fs_File
  imports Fs_Header
begin

text \<open>
  \<open>filesys/openfile.cc\<close>, the open files of the Nachos file system: \<open>ReadAt\<close> and \<open>WriteAt\<close> move bytes between a
  caller's buffer and the sectors of the file, \<open>Read\<close>, \<open>Write\<close> and \<open>Seek\<close> keep the position. The arithmetic of
  a request mixes \<open>int\<close> and \<open>size_t\<close>, so it is taken modulo \<open>2 ^ 32\<close>; every copy checks the bounds of the buffers. The
  second half shows that a file is an array of bytes: what \<open>ReadAt\<close> returns and what \<open>WriteAt\<close> leaves.
\<close>

section \<open>Requests\<close>

definition u32 :: "int \<Rightarrow> int" where
  "u32 x = x mod 2 ^ 32"

definition i32 :: "int \<Rightarrow> int" where
  "i32 x = sint (word_of_int x :: uint32)"

record FsOpenFile =
  fs_hdr :: FileHeader
  seekPosition :: int

definition OpenFile_new :: "int \<Rightarrow> disk \<Rightarrow> FsOpenFile res" where
  "OpenFile_new sector d =
     bind_res (FileHeader_FetchFrom sector d) (\<lambda>h. Inr \<lparr>fs_hdr = h, seekPosition = 0\<rparr>)"

definition OpenFile_Seek :: "int \<Rightarrow> FsOpenFile \<Rightarrow> FsOpenFile" where
  "OpenFile_Seek position f = f\<lparr>seekPosition := position\<rparr>"

definition OpenFile_Length :: "FsOpenFile \<Rightarrow> int" where
  "OpenFile_Length f = FileLength (fs_hdr f)"

text \<open>
  \<open>memcpy\<close> of \<open>n\<close> bytes from the offset \<open>j\<close> of \<open>src\<close> to the offset \<open>i\<close> of \<open>dst\<close>: both arrays must hold the bytes.
\<close>

definition memcpy_res :: "byte list \<Rightarrow> int \<Rightarrow> byte list \<Rightarrow> int \<Rightarrow> int \<Rightarrow> byte list res" where
  "memcpy_res dst i src j n =
     (if 0 \<le> i \<and> i + n \<le> int (length dst) \<and> 0 \<le> j \<and> j + n \<le> int (length src)
      then Inr (take (nat i) dst @ take (nat n) (drop (nat j) src) @ drop (nat (i + n)) dst)
      else Inl IndexOutOfBounds)"

text \<open>The part of the request inside the file, its first and its last sector.\<close>

definition request_size :: "int \<Rightarrow> int \<Rightarrow> int \<Rightarrow> int" where
  "request_size fileLength n position =
     (if u32 (position + n) > u32 fileLength then u32 (fileLength - position) else n)"

definition firstSector :: "int \<Rightarrow> int" where
  "firstSector position = position sdiv int SectorSize"

definition lastSector :: "int \<Rightarrow> int \<Rightarrow> int" where
  "lastSector n position = u32 (position + n - 1) div int SectorSize"

text \<open>The loop of \<open>ReadAt\<close> fills the buffer from its beginning, one sector after the other.\<close>

definition ReadAt_step :: "FileHeader \<Rightarrow> disk \<Rightarrow> int \<Rightarrow> byte list \<Rightarrow> byte list res" where
  "ReadAt_step h d i buf =
     bind_res (ByteToSector h (i * int SectorSize)) (\<lambda>k.
     bind_res (ReadSector k d) (\<lambda>bs. Inr (buf @ bs)))"

definition OpenFile_ReadAt :: "FsOpenFile \<Rightarrow> byte list \<Rightarrow> int \<Rightarrow> int \<Rightarrow> disk \<Rightarrow> (int \<times> byte list) res" where
  "OpenFile_ReadAt f into n position d =
     (let fileLength = FileLength (fs_hdr f) in
      if n \<le> 0 \<or> position \<ge> fileLength then Inr (0, into)
      else
        (let n1 = request_size fileLength n position;
             first = firstSector position; final = lastSector n1 position;
             numSectors = 1 + final - first in
         if numSectors < 0 then Inl BadAllocation
         else bind_res (fold_res (ReadAt_step (fs_hdr f) d) [first..final] []) (\<lambda>buf.
           bind_res (memcpy_res into 0 buf (position - first * int SectorSize) n1) (\<lambda>into1.
           Inr (i32 n1, into1)))))"

text \<open>
  \<open>WriteAt\<close> works on a fresh buffer, whose bytes are the parameter \<open>junk\<close>. The sectors it only covers in part are read
  into the buffer first, with \<open>ReadAt\<close> writing through a pointer into the buffer.
\<close>

definition read_into :: "FsOpenFile \<Rightarrow> disk \<Rightarrow> byte list \<Rightarrow> int \<Rightarrow> int \<Rightarrow> byte list res" where
  "read_into f d buf off position =
     (if 0 \<le> off \<and> off \<le> int (length buf)
      then bind_res (OpenFile_ReadAt f (drop (nat off) buf) (int SectorSize) position d) (\<lambda>(_, into).
        Inr (take (nat off) buf @ into))
      else Inl IndexOutOfBounds)"

definition read_partial :: "FsOpenFile \<Rightarrow> disk \<Rightarrow> byte list \<Rightarrow> int \<Rightarrow> int \<Rightarrow> bool \<Rightarrow> bool \<Rightarrow> byte list res" where
  "read_partial f d buf first final firstAligned lastAligned =
     bind_res (if \<not> firstAligned then read_into f d buf 0 (first * int SectorSize) else Inr buf) (\<lambda>buf1.
     if \<not> lastAligned \<and> (first \<noteq> final \<or> firstAligned)
     then read_into f d buf1 ((final - first) * int SectorSize) (final * int SectorSize) else Inr buf1)"

definition WriteAt_step :: "FileHeader \<Rightarrow> byte list \<Rightarrow> int \<Rightarrow> int \<Rightarrow> disk \<Rightarrow> disk res" where
  "WriteAt_step h buf first i d =
     bind_res (ByteToSector h (i * int SectorSize)) (\<lambda>k.
     WriteSector k (take SectorSize (drop (nat ((i - first) * int SectorSize)) buf)) d)"

definition OpenFile_WriteAt ::
  "(nat \<Rightarrow> byte) \<Rightarrow> FsOpenFile \<Rightarrow> byte list \<Rightarrow> int \<Rightarrow> int \<Rightarrow> disk \<Rightarrow> (int \<times> disk) res" where
  "OpenFile_WriteAt junk f from n position d =
     (let fileLength = FileLength (fs_hdr f) in
      if n \<le> 0 \<or> position \<ge> fileLength then Inr (0, d)
      else
        (let n1 = request_size fileLength n position;
             first = firstSector position; final = lastSector n1 position;
             numSectors = 1 + final - first in
         if numSectors < 0 then Inl BadAllocation
         else
           (let buf = map junk [0..<nat numSectors * SectorSize];
                firstAligned = (position = first * int SectorSize);
                lastAligned = (u32 (position + n1) = u32 ((final + 1) * int SectorSize)) in
            bind_res (read_partial f d buf first final firstAligned lastAligned) (\<lambda>buf1.
            bind_res (memcpy_res buf1 (position - first * int SectorSize) from 0 n1) (\<lambda>buf2.
            bind_res (fold_res (WriteAt_step (fs_hdr f) buf2 first) [first..final] d) (\<lambda>d1.
            Inr (i32 n1, d1)))))))"

definition OpenFile_Read :: "byte list \<Rightarrow> int \<Rightarrow> disk \<Rightarrow> FsOpenFile \<Rightarrow> (int \<times> byte list \<times> FsOpenFile) res" where
  "OpenFile_Read into n d f =
     bind_res (OpenFile_ReadAt f into n (seekPosition f) d) (\<lambda>(result, into1).
     Inr (result, into1, f\<lparr>seekPosition := seekPosition f + result\<rparr>))"

definition OpenFile_Write ::
  "(nat \<Rightarrow> byte) \<Rightarrow> byte list \<Rightarrow> int \<Rightarrow> disk \<Rightarrow> FsOpenFile \<Rightarrow> (int \<times> disk \<times> FsOpenFile) res" where
  "OpenFile_Write junk from n d f =
     bind_res (OpenFile_WriteAt junk f from n (seekPosition f) d) (\<lambda>(result, d1).
     Inr (result, d1, f\<lparr>seekPosition := seekPosition f + result\<rparr>))"

section \<open>A file as an array of bytes\<close>

definition fbyte :: "FileHeader \<Rightarrow> disk \<Rightarrow> nat \<Rightarrow> byte" where
  "fbyte h d q = d (nat (dataSectors h ! (q div SectorSize))) (q mod SectorSize)"

definition fcontent :: "FileHeader \<Rightarrow> disk \<Rightarrow> byte list" where
  "fcontent h d = map (fbyte h d) [0..<nat (numBytes h)]"

lemma length_fcontent [simp]: "length (fcontent h d) = nat (numBytes h)"
  by (simp add: fcontent_def)

lemma upto_map_int: "[int a..int b] = map int [a..<Suc b]"
  by (intro nth_equalityI) (auto simp: nth_append)

lemma div_less_divRoundUp: "q < n \<Longrightarrow> 0 < s \<Longrightarrow> q div s < divRoundUp n s"
  by (meson divRoundUp_le_iff div_less_iff_less_mult leD less_le_trans linorder_not_le order_refl)

lemma header_ok_sector:
  assumes "header_ok h" "i < nat (numSectors h)"
  shows "i < length (dataSectors h)" "0 \<le> dataSectors h ! i" "dataSectors h ! i < int NumSectors"
    "nat (dataSectors h ! i) \<in> set (data_sectors h)"
proof -
  have "nat (numSectors h) \<le> NumDirect"
    using assms(1) divRoundUp_NumDirect [of "nat (numBytes h)"] by (auto simp: header_ok_def)
  with assms show i: "i < length (dataSectors h)" by (simp add: header_ok_def)
  then have "dataSectors h ! i \<in> set (take (nat (numSectors h)) (dataSectors h))"
    using assms(2) by (auto simp: in_set_conv_nth intro!: exI [of _ i])
  with assms(1) show "0 \<le> dataSectors h ! i" "dataSectors h ! i < int NumSectors"
    "nat (dataSectors h ! i) \<in> set (data_sectors h)" by (auto simp: header_ok_def data_sectors_def)
qed

lemma ByteToSector_ok:
  assumes "header_ok h" "i < nat (numSectors h)"
  shows "ByteToSector h (int i * int SectorSize) = Inr (dataSectors h ! i)"
proof -
  have "int i * int SectorSize sdiv int SectorSize = int i"
    by (simp add: signed_divide_int_def SectorSize_def sgn_if abs_mult)
  with header_ok_sector(1) [OF assms] show ?thesis by (simp add: ByteToSector_def)
qed

lemma ReadAt_loop:
  assumes "header_ok h" "a \<le> b" "b \<le> nat (numSectors h)"
  shows "fold_res (ReadAt_step h d) (map int [a..<b]) [] = Inr (map (fbyte h d) [a * SectorSize..<b * SectorSize])"
  using assms(2,3)
proof (induction b rule: dec_induct)
  case (step b)
  have lt: "b < nat (numSectors h)" using step.prems by simp
  have "map (d (nat (dataSectors h ! b))) [0..<SectorSize] = map (fbyte h d) [b * SectorSize..<Suc b * SectorSize]"
    by (intro nth_equalityI) (simp_all add: fbyte_def)
  with header_ok_sector [OF assms(1) lt] ByteToSector_ok [OF assms(1) lt]
  have "ReadAt_step h d (int b) buf = Inr (buf @ map (fbyte h d) [b * SectorSize..<Suc b * SectorSize])" for buf
    by (simp add: ReadAt_step_def ReadSector_def)
  moreover have "[a * SectorSize..<Suc b * SectorSize] = [a * SectorSize..<b * SectorSize] @ [b * SectorSize..<Suc b * SectorSize]"
    using upt_add_eq_append [of "a * SectorSize" "b * SectorSize" SectorSize] step.hyps(1) by (simp add: add.commute)
  ultimately show ?case using step by (simp add: fold_res_append)
qed simp

lemma i32_id: "int_range x \<Longrightarrow> i32 x = x"
  by (simp add: i32_def int_range_def sint_sbintrunc' signed_take_bit_int_eq_self)

lemma memcpy_nat:
  assumes "i + n \<le> length dst" "j + n \<le> length src"
  shows "memcpy_res dst (int i) src (int j) (int n) = Inr (take i dst @ take n (drop j src) @ drop (i + n) dst)"
  using assms by (simp add: memcpy_res_def flip: of_nat_add)

text \<open>A request whose arithmetic does not wrap, in terms of natural numbers.\<close>

definition in_request :: "FileHeader \<Rightarrow> nat \<Rightarrow> nat \<Rightarrow> nat" where
  "in_request h n p = min n (nat (numBytes h) - p)"

lemma request_ok:
  assumes h: "header_ok h" and p: "p < nat (numBytes h)" and n: "0 < n" "p + n < 2 ^ 32"
  defines "m \<equiv> in_request h n p" and "a \<equiv> p div SectorSize" and "b \<equiv> (p + in_request h n p - 1) div SectorSize"
  shows "request_size (numBytes h) (int n) (int p) = int m" "0 < m" "p + m \<le> nat (numBytes h)" "m \<le> n"
    "firstSector (int p) = int a" "lastSector (int m) (int p) = int b" "a \<le> b" "b < nat (numSectors h)" "i32 (int m) = int m"
proof -
  have N: "nat (numBytes h) \<le> 3840" "0 \<le> numBytes h" "numSectors h = int (divRoundUp (nat (numBytes h)) SectorSize)"
    using h by (auto simp: header_ok_def MaxFileSize_def NumDirect_def SectorSize_def)
  have m: "m = (if p + n > nat (numBytes h) then nat (numBytes h) - p else n)" by (auto simp: m_def in_request_def)
  show mm: "0 < m" "p + m \<le> nat (numBytes h)" "m \<le> n" using p n by (auto simp: m)
  have "u32 (int p + int n) = int p + int n" "u32 (numBytes h) = numBytes h" "u32 (numBytes h - int p) = numBytes h - int p"
    using N n p by (auto simp: u32_def)
  then show "request_size (numBytes h) (int n) (int p) = int m" using N(2) p by (auto simp: request_size_def m)
  show "firstSector (int p) = int a" by (simp add: firstSector_def signed_divide_int_def SectorSize_def sgn_if a_def zdiv_int)
  have "u32 (int p + int m - 1) = int (p + m - 1)" using mm N(1) by (auto simp: u32_def)
  then show "lastSector (int m) (int p) = int b" by (simp add: lastSector_def b_def m_def zdiv_int)
  show "a \<le> b" using mm(1) by (simp add: a_def b_def m_def div_le_mono)
  show "b < nat (numSectors h)"
    using mm(1,2) N(3) by (auto simp: b_def m_def SectorSize_def intro!: div_less_divRoundUp)
  show "i32 (int m) = int m" using mm N(1) by (intro i32_id) (simp add: int_range_def)
qed

text \<open>\<open>ReadAt\<close> returns the bytes of the file from the position on, as many as were asked for and the file has.\<close>

lemma ReadAt_ok:
  assumes h: "header_ok (fs_hdr f)" and n: "p + n < 2 ^ 32" and into: "in_request (fs_hdr f) n p \<le> length into"
  shows "OpenFile_ReadAt f into (int n) (int p) d =
    Inr (int (in_request (fs_hdr f) n p),
      take n (drop p (fcontent (fs_hdr f) d)) @ drop (in_request (fs_hdr f) n p) into)"
proof (cases "0 < n \<and> p < nat (numBytes (fs_hdr f))")
  case False
  then have "int n \<le> 0 \<or> int p \<ge> numBytes (fs_hdr f)" "in_request (fs_hdr f) n p = 0" "n = 0 \<or> nat (numBytes (fs_hdr f)) \<le> p"
    by (auto simp: in_request_def)
  then show ?thesis by (auto simp: OpenFile_ReadAt_def FileLength_def Let_def)
next
  case True
  let ?h = "fs_hdr f" and ?m = "in_request (fs_hdr f) n p"
  let ?a = "p div SectorSize" and ?b = "(p + ?m - 1) div SectorSize"
  note r = request_ok [OF h conjunct2 [OF True] conjunct1 [OF True] n]
  let ?buf = "map (fbyte ?h d) [?a * SectorSize..<Suc ?b * SectorSize]"
  have loop: "fold_res (ReadAt_step ?h d) [int ?a..int ?b] [] = Inr ?buf"
    unfolding upto_map_int using r(7,8) by (intro ReadAt_loop [OF h]) simp_all
  have le: "?a * SectorSize \<le> p" "p + ?m \<le> Suc ?b * SectorSize" using r(2) by (auto simp: SectorSize_def) 
  have "take ?m (drop (p - ?a * SectorSize) ?buf) = map (fbyte ?h d) [p..<p + ?m]"
    using le by (simp add: drop_map take_map)
  moreover have "take n (drop p (fcontent ?h d)) = map (fbyte ?h d) [p..<p + ?m]"
    using r(3) by (auto simp: fcontent_def drop_map take_map in_request_def min_def)
  moreover have off: "int p - int ?a * int SectorSize = int (p - ?a * SectorSize)" using le(1) by (simp add: of_nat_diff)
  moreover have "p - ?a * SectorSize + ?m \<le> length ?buf" using le by simp
  ultimately have "memcpy_res into (int 0) ?buf (int p - int ?a * int SectorSize) (int ?m) =
      Inr (take n (drop p (fcontent ?h d)) @ drop ?m into)"
    unfolding off using into by (subst memcpy_nat) (simp_all only: take_0 append_Nil add_0)
  note copy = this [unfolded semiring_1_class.of_nat_0]
  have "\<not> (int n \<le> 0 \<or> int p \<ge> numBytes ?h)" "\<not> 1 + int ?b - int ?a < 0" using True r(7) by auto
  then show ?thesis
    by (simp only: OpenFile_ReadAt_def FileLength_def Let_def r(1,5,6,9) loop copy if_False bind_res_Inr)
qed

section \<open>Writing\<close>

lemma header_ok_inj:
  assumes "header_ok h" "i < nat (numSectors h)" "j < nat (numSectors h)"
    "nat (dataSectors h ! i) = nat (dataSectors h ! j)"
  shows "i = j"
proof -
  have "distinct (data_sectors h)" using assms(1) by (simp add: header_ok_def)
  moreover have "data_sectors h ! k = nat (dataSectors h ! k)" "k < length (data_sectors h)" if "k < nat (numSectors h)" for k
    using header_ok_sector(1) [OF assms(1) that] that by (simp_all add: data_sectors_def)
  ultimately show ?thesis using assms(2-4) by (metis nth_eq_iff_index_eq)
qed

text \<open>The loop that writes the buffer back: the bytes of the file in its sectors are those of the buffer.\<close>

lemma WriteAt_loop:
  assumes h: "header_ok h" and "a \<le> c" "c \<le> nat (numSectors h)" "(c - a) * SectorSize \<le> length buf"
  shows "\<exists>d'. fold_res (WriteAt_step h buf (int a)) (map int [a..<c]) d = Inr d' \<and>
    (\<forall>q. q div SectorSize < nat (numSectors h) \<longrightarrow>
      fbyte h d' q = (if a \<le> q div SectorSize \<and> q div SectorSize < c then buf ! (q - a * SectorSize) else fbyte h d q)) \<and>
    (\<forall>s. s \<notin> set (data_sectors h) \<longrightarrow> d' s = d s)"
  using assms(2-4)
proof (induction c rule: dec_induct)
  case base
  then show ?case by simp
next
  case (step c)
  have lt: "c < nat (numSectors h)" using step.prems by simp
  have fits: "Suc (c - a) * SectorSize \<le> length buf" using step.prems(2) step.hyps(1) by (simp add: Suc_diff_le)
  with step obtain d1 where d1: "fold_res (WriteAt_step h buf (int a)) (map int [a..<c]) d = Inr d1"
    "\<And>q. q div SectorSize < nat (numSectors h) \<Longrightarrow>
      fbyte h d1 q = (if a \<le> q div SectorSize \<and> q div SectorSize < c then buf ! (q - a * SectorSize) else fbyte h d q)"
    "\<And>s. s \<notin> set (data_sectors h) \<Longrightarrow> d1 s = d s" by auto
  let ?k = "nat (dataSectors h ! c)" and ?bs = "take SectorSize (drop ((c - a) * SectorSize) buf)"
  let ?d2 = "d1(?k := (\<lambda>i. if i < SectorSize then ?bs ! i else d1 ?k i))"
  have "nat ((int c - int a) * int SectorSize) = (c - a) * SectorSize"
    using step.hyps(1) by (metis nat_int of_nat_diff of_nat_mult)
  then have w: "WriteAt_step h buf (int a) (int c) d1 = Inr ?d2"
    using header_ok_sector [OF h lt] ByteToSector_ok [OF h lt] by (simp add: WriteAt_step_def WriteSector_def)
  have "fbyte h ?d2 q = (if a \<le> q div SectorSize \<and> q div SectorSize < Suc c then buf ! (q - a * SectorSize) else fbyte h d q)"
    if q: "q div SectorSize < nat (numSectors h)" for q
  proof (cases "q div SectorSize = c")
    case True
    have "q = c * SectorSize + q mod SectorSize" using True by (metis div_mult_mod_eq)
    then have "(c - a) * SectorSize + q mod SectorSize = q - a * SectorSize"
      using step.hyps(1) by (metis Nat.add_diff_assoc2 diff_mult_distrib mult_le_mono1)
    moreover have "q mod SectorSize < SectorSize" by (simp add: SectorSize_def)
    ultimately have "?bs ! (q mod SectorSize) = buf ! (q - a * SectorSize)" using fits by simp
    with True step.hyps(1) \<open>q mod SectorSize < SectorSize\<close> show ?thesis by (simp add: fbyte_def)
  next
    case False
    then have "nat (dataSectors h ! (q div SectorSize)) \<noteq> ?k" using header_ok_inj [OF h q lt] by blast
    then have "fbyte h ?d2 q = fbyte h d1 q" by (simp add: fbyte_def)
    also have "\<dots> = (if a \<le> q div SectorSize \<and> q div SectorSize < Suc c then buf ! (q - a * SectorSize) else fbyte h d q)"
      using d1(2) [OF q] False by (simp add: less_Suc_eq)
    finally show ?thesis .
  qed
  moreover have "?d2 s = d s" if "s \<notin> set (data_sectors h)" for s
    using d1(3) [OF that] that header_ok_sector(4) [OF h lt] by auto
  ultimately show ?case using d1(1) w step.hyps(1) by (simp add: fold_res_append)
qed

text \<open>Reading a sector of the file into the buffer.\<close>

lemma read_into_ok:
  assumes h: "header_ok (fs_hdr f)" and c: "c < nat (numSectors (fs_hdr f))" and buf: "off + SectorSize \<le> length buf"
  shows "\<exists>buf'. read_into f d buf (int off) (int (c * SectorSize)) = Inr buf' \<and> length buf' = length buf \<and>
    (\<forall>j < off. buf' ! j = buf ! j) \<and>
    (\<forall>q. q div SectorSize = c \<longrightarrow> q < nat (numBytes (fs_hdr f)) \<longrightarrow>
      buf' ! (off + q mod SectorSize) = fbyte (fs_hdr f) d q)"
proof -
  let ?h = "fs_hdr f" and ?p = "c * SectorSize"
  let ?m = "in_request (fs_hdr f) SectorSize ?p"
  let ?into = "take SectorSize (drop ?p (fcontent ?h d)) @ drop ?m (drop off buf)"
  have "c < NumDirect" using header_ok_sector(1) [OF h c] h by (simp add: header_ok_def)
  then have "?p + SectorSize < 2 ^ 32" by (simp add: SectorSize_def NumDirect_def)
  moreover have "?m \<le> length (drop off buf)" using buf by (simp add: in_request_def)
  ultimately have "OpenFile_ReadAt f (drop off buf) (int SectorSize) (int ?p) d = Inr (int ?m, ?into)"
    by (rule ReadAt_ok [OF h])
  then have r: "read_into f d buf (int off) (int ?p) = Inr (take off buf @ ?into)"
    using buf by (simp add: read_into_def)
  have "(take off buf @ ?into) ! (off + q mod SectorSize) = fbyte ?h d q"
    if q: "q div SectorSize = c" "q < nat (numBytes ?h)" for q
  proof -
    have qq: "q = ?p + q mod SectorSize" using q(1) by (metis div_mult_mod_eq)
    have lt: "q mod SectorSize < SectorSize" by (simp add: SectorSize_def)
    have "(take off buf @ ?into) ! (off + q mod SectorSize) = ?into ! (q mod SectorSize)"
      using buf by (simp add: nth_append)
    also have "\<dots> = fcontent ?h d ! (?p + q mod SectorSize)" 
    proof -
      from q(2) qq have "q mod SectorSize < nat (numBytes ?h) - ?p" by linarith
      with lt show ?thesis by (simp add: nth_append)
    qed
    finally show ?thesis using q(2) by (simp add: fcontent_def flip: qq)
  qed
  moreover have "length (take off buf @ ?into) = length buf"
    using buf by (auto simp: in_request_def SectorSize_def)
  moreover have "(take off buf @ ?into) ! j = buf ! j" if "j < off" for j using that buf by (simp add: nth_append)
  ultimately show ?thesis using r by blast
qed

lemma sector_offset: "a \<le> q div SectorSize \<Longrightarrow> (q div SectorSize - a) * SectorSize + q mod SectorSize = q - a * SectorSize"
  by (metis Nat.add_diff_assoc2 diff_mult_distrib div_mult_mod_eq mult_le_mono1)

lemma sector_diff: "a \<le> b \<Longrightarrow> (int b - int a) * int SectorSize = int ((b - a) * SectorSize)"
  by (simp add: of_nat_diff)

lemma read_partial_ok:
  assumes h: "header_ok (fs_hdr f)" and b: "a \<le> b" "b < nat (numSectors (fs_hdr f))"
    and buf: "length buf = Suc (b - a) * SectorSize"
  shows "\<exists>buf'. read_partial f d buf (int a) (int b) fa la = Inr buf' \<and> length buf' = length buf \<and>
    (\<forall>q < nat (numBytes (fs_hdr f)). (\<not> fa \<and> q div SectorSize = a) \<or> (\<not> la \<and> q div SectorSize = b) \<longrightarrow>
      buf' ! (q - a * SectorSize) = fbyte (fs_hdr f) d q)"
proof -
  let ?N = "nat (numBytes (fs_hdr f))" and ?fb = "fbyte (fs_hdr f) d"
  obtain buf1 where buf1: "(if \<not> fa then read_into f d buf 0 (int a * int SectorSize) else Inr buf) = Inr buf1"
    "length buf1 = length buf" "\<And>q. \<lbrakk>\<not> fa; q < ?N; q div SectorSize = a\<rbrakk> \<Longrightarrow> buf1 ! (q mod SectorSize) = ?fb q"
  proof (cases fa)
    case False
    from read_into_ok [OF h, of a 0 buf d] b buf that False show ?thesis by auto
  qed (use that in auto)
  let ?off = "(b - a) * SectorSize"
  have first: "q - a * SectorSize = q mod SectorSize" if "q div SectorSize = a" for q
    using sector_offset [of a q] that by simp
  show ?thesis
  proof (cases "\<not> la \<and> (a \<noteq> b \<or> fa)")
    case True
    from read_into_ok [OF h b(2), of ?off buf1 d] buf buf1(2) obtain buf2 where
      buf2: "read_into f d buf1 (int ?off) (int b * int SectorSize) = Inr buf2" "length buf2 = length buf"
      "\<And>j. j < ?off \<Longrightarrow> buf2 ! j = buf1 ! j" "\<And>q. \<lbrakk>q div SectorSize = b; q < ?N\<rbrakk> \<Longrightarrow> buf2 ! (?off + q mod SectorSize) = ?fb q"
      by auto
    have "buf2 ! (q - a * SectorSize) = ?fb q"
      if q: "q < ?N" "(\<not> fa \<and> q div SectorSize = a) \<or> (\<not> la \<and> q div SectorSize = b)" for q
    proof (cases "q div SectorSize = b")
      case True
      then show ?thesis using buf2(4) [OF True q(1)] sector_offset [of a q] b(1) by simp
    next
      case False
      with q True have "q div SectorSize = a" "\<not> fa" "a < b" using b(1) by auto
      moreover from this(3) have "q mod SectorSize < ?off"
        by (metis One_nat_def Suc_leI less_le_trans mod_less_divisor mult_1 mult_le_mono1 zero_less_diff SectorSize_def zero_less_numeral)
      ultimately show ?thesis using buf1(3) [OF _ q(1)] buf2(3) first by simp
    qed
    with buf1(1) buf2(1,2) True show ?thesis by (simp add: read_partial_def sector_diff [OF b(1)])
  next
    case False
    then have "buf1 ! (q - a * SectorSize) = ?fb q"
      if "q < ?N" "(\<not> fa \<and> q div SectorSize = a) \<or> (\<not> la \<and> q div SectorSize = b)" for q
      using that buf1(3) first by auto
    with buf1(1,2) False show ?thesis by (auto simp: read_partial_def)
  qed
qed

lemma u32_sectors:
  assumes "header_ok h" "k \<le> nat (numBytes h)" "b < nat (numSectors h)"
  shows "u32 (int k) = u32 ((int b + 1) * int SectorSize) \<longleftrightarrow> k = Suc b * SectorSize"
proof -
  have "nat (numSectors h) \<le> NumDirect" "nat (numBytes h) \<le> MaxFileSize"
    using assms(1) divRoundUp_NumDirect [of "nat (numBytes h)"] by (auto simp: header_ok_def)
  with assms(2,3) have "k \<le> 3840" "b < 30" by (auto simp: MaxFileSize_def NumDirect_def SectorSize_def)
  then show ?thesis by (auto simp: u32_def SectorSize_def)
qed

text \<open>
  \<open>WriteAt\<close> replaces the bytes of the file from the position on, as many as were given and the file has room for; the
  rest of the file and the sectors of other files keep their contents.
\<close>

definition overwrite :: "byte list \<Rightarrow> nat \<Rightarrow> byte list \<Rightarrow> byte list" where
  "overwrite c p bs = take p c @ take (length c - p) bs @ drop (p + length bs) c"

lemma length_overwrite: "length (overwrite c p bs) = length c"
  by (auto simp: overwrite_def)

lemma nth_overwrite:
  assumes "q < length c"
  shows "overwrite c p bs ! q = (if p \<le> q \<and> q < p + length bs then bs ! (q - p) else c ! q)"
  using assms by (auto simp: overwrite_def nth_append min_def)

lemma length_patch:
  "i + n \<le> length dst \<Longrightarrow> n \<le> length src \<Longrightarrow> length (take i dst @ take n src @ drop (i + n) dst) = length dst"
  by simp

lemma patched_bytes:
  fixes p m :: nat
  defines "a \<equiv> p div SectorSize" and "b \<equiv> (p + m - 1) div SectorSize"
  assumes old: "\<lbrakk>p \<noteq> a * SectorSize; q div SectorSize = a\<rbrakk> \<Longrightarrow> buf ! (q - a * SectorSize) = x"
      "\<lbrakk>p + m \<noteq> Suc b * SectorSize; q div SectorSize = b\<rbrakk> \<Longrightarrow> buf ! (q - a * SectorSize) = x"
    and m: "0 < m" "m \<le> length src" "p - a * SectorSize + m \<le> length buf"
  shows "(if a \<le> q div SectorSize \<and> q div SectorSize < Suc b
      then (take (p - a * SectorSize) buf @ take m src @ drop (p - a * SectorSize + m) buf) ! (q - a * SectorSize) else x) =
    (if p \<le> q \<and> q < p + m then src ! (q - p) else x)"
proof -
  have ap: "a * SectorSize \<le> p" by (simp add: a_def)
  consider "p \<le> q" "q < p + m" | "q < p" | "p + m \<le> q" by linarith
  then show ?thesis
  proof cases
    case 1
    then have "a \<le> q div SectorSize" "q div SectorSize \<le> b" by (auto simp: a_def b_def intro: div_le_mono)
    moreover have "q - a * SectorSize - (p - a * SectorSize) = q - p" "p - a * SectorSize \<le> q - a * SectorSize"
      "q - p < m" using 1 ap by auto
    ultimately show ?thesis using 1 m by (simp add: nth_append)
  next
    case 2
    then have le: "q div SectorSize \<le> a" by (simp add: a_def div_le_mono)
    show ?thesis
    proof (cases "q div SectorSize = a")
      case True
      then have aq: "a * SectorSize \<le> q" by (metis div_times_less_eq_dividend)
      with 2 have "q - a * SectorSize < p - a * SectorSize" "p \<noteq> a * SectorSize" by linarith+
      with 2 True old(1) m(3) show ?thesis by (simp add: nth_append)
    qed (use 2 le in auto)
  next
    case 3
    with m(1) have le: "b \<le> q div SectorSize" "a \<le> b" by (auto simp: a_def b_def intro!: div_le_mono)
    show ?thesis
    proof (cases "q div SectorSize = b")
      case True
      then have "q < Suc b * SectorSize" by (metis div_less_iff_less_mult lessI SectorSize_def zero_less_numeral)
      with 3 old(2) True have x: "buf ! (q - a * SectorSize) = x" by auto
      have "q - a * SectorSize - (p - a * SectorSize) - m + (p - a * SectorSize + m) = q - a * SectorSize"
        "\<not> q - a * SectorSize < p - a * SectorSize" "\<not> q - a * SectorSize - (p - a * SectorSize) < m"
        using 3 ap by auto
      then show ?thesis using 3 m x True le by (simp add: nth_append add.commute)
    qed (use 3 le m(1) in auto)
  qed
qed

text \<open>\<open>WriteAt\<close> runs to its end: every byte of the file is the given one, the old one or untouched.\<close>

lemma WriteAt_run:
  assumes h: "header_ok (fs_hdr f)" and p: "p < nat (numBytes (fs_hdr f))" and n: "0 < n" "p + n < 2 ^ 32" and src: "n \<le> length from"
  defines "m \<equiv> in_request (fs_hdr f) n p" and "a \<equiv> p div SectorSize" and "b \<equiv> (p + in_request (fs_hdr f) n p - 1) div SectorSize"
  obtains d' buf where "OpenFile_WriteAt junk f from (int n) (int p) d = Inr (int m, d')"
    "p - a * SectorSize + m \<le> length buf"
    "\<And>q. \<lbrakk>q < nat (numBytes (fs_hdr f)); (p \<noteq> a * SectorSize \<and> q div SectorSize = a) \<or> (p + m \<noteq> Suc b * SectorSize \<and> q div SectorSize = b)\<rbrakk>
      \<Longrightarrow> buf ! (q - a * SectorSize) = fbyte (fs_hdr f) d q"
    "\<And>q. q div SectorSize < nat (numSectors (fs_hdr f)) \<Longrightarrow> fbyte (fs_hdr f) d' q =
      (if a \<le> q div SectorSize \<and> q div SectorSize < Suc b
       then (take (p - a * SectorSize) buf @ take m from @ drop (p - a * SectorSize + m) buf) ! (q - a * SectorSize)
       else fbyte (fs_hdr f) d q)"
    "\<And>s. s \<notin> set (data_sectors (fs_hdr f)) \<Longrightarrow> d' s = d s"
proof -
  let ?h = "fs_hdr f" and ?S = SectorSize
  note r = request_ok [OF h p n, folded m_def a_def b_def]
  let ?fa = "int p = int a * int ?S" and ?la = "u32 (int p + int m) = u32 ((int b + 1) * int ?S)"
  let ?buf = "map junk [0..<nat (1 + int b - int a) * ?S]"
  have len: "length ?buf = Suc (b - a) * ?S" using r(7) by (simp add: nat_diff_distrib nat_add_distrib Suc_diff_le flip: of_nat_Suc)
  from read_partial_ok [OF h r(7,8) len] obtain buf where
    buf: "read_partial f d ?buf (int a) (int b) ?fa ?la = Inr buf" "length buf = Suc (b - a) * ?S"
    "\<And>q. \<lbrakk>q < nat (numBytes ?h); (\<not> ?fa \<and> q div ?S = a) \<or> (\<not> ?la \<and> q div ?S = b)\<rbrakk> \<Longrightarrow> buf ! (q - a * ?S) = fbyte ?h d q"
    unfolding len by blast
  let ?off = "p - a * ?S"
  let ?buf2 = "take ?off buf @ take m from @ drop (?off + m) buf"
  have le: "a * ?S \<le> p" "p + m \<le> Suc b * ?S" using r(2) by (auto simp: a_def b_def m_def SectorSize_def)
  have "Suc b * ?S = a * ?S + Suc (b - a) * ?S" using r(7) by (metis add_Suc_right add_mult_distrib le_add_diff_inverse)
  with le buf(2) have fit: "?off + m \<le> length buf" by linarith
  have off: "int p - int a * int ?S = int ?off" using le(1) by (simp add: of_nat_diff)
  have copy: "memcpy_res buf (int p - int a * int ?S) from 0 (int m) = Inr ?buf2"
    using memcpy_nat [of ?off m buf 0 "from"] fit src r(4) unfolding off by simp
  have "length ?buf2 = length buf" by (rule length_patch [OF fit]) (use src r(4) in simp)
  then have "(Suc b - a) * ?S \<le> length ?buf2" using buf(2) r(7) by (simp only: Suc_diff_le order_refl)
  from WriteAt_loop [OF h le_SucI [OF r(7)] Suc_leI [OF r(8)] this, of d] obtain d' where
    d': "fold_res (WriteAt_step ?h ?buf2 (int a)) [int a..int b] d = Inr d'"
    "\<And>q. q div ?S < nat (numSectors ?h) \<Longrightarrow>
      fbyte ?h d' q = (if a \<le> q div ?S \<and> q div ?S < Suc b then ?buf2 ! (q - a * ?S) else fbyte ?h d q)"
    "\<And>s. s \<notin> set (data_sectors ?h) \<Longrightarrow> d' s = d s"
    unfolding upto_map_int by blast
  have "\<not> (int n \<le> 0 \<or> int p \<ge> numBytes ?h)" "\<not> 1 + int b - int a < 0" using p n(1) r(7) by auto
  then have run: "OpenFile_WriteAt junk f from (int n) (int p) d = Inr (int m, d')"
    by (simp only: OpenFile_WriteAt_def FileLength_def Let_def r(1,5,6,9) buf(1) copy d'(1) if_False bind_res_Inr)
  have fa: "?fa \<longleftrightarrow> p = a * ?S" by (simp flip: of_nat_mult)
  have la: "?la \<longleftrightarrow> p + m = Suc b * ?S" using u32_sectors [OF h r(3,8)] by simp
  show thesis by (rule that [OF run fit _ d'(2,3)]) (use buf(3) fa la in blast)
qed

lemma WriteAt_ok:
  assumes h: "header_ok (fs_hdr f)" and n: "p + n < 2 ^ 32" and src: "n \<le> length from"
  shows "\<exists>d'. OpenFile_WriteAt junk f from (int n) (int p) d = Inr (int (in_request (fs_hdr f) n p), d') \<and>
    fcontent (fs_hdr f) d' = overwrite (fcontent (fs_hdr f) d) p (take n from) \<and>
    (\<forall>s. s \<notin> set (data_sectors (fs_hdr f)) \<longrightarrow> d' s = d s)"
proof (cases "0 < n \<and> p < nat (numBytes (fs_hdr f))")
  case False
  then have "int n \<le> 0 \<or> int p \<ge> numBytes (fs_hdr f)" "in_request (fs_hdr f) n p = 0" "n = 0 \<or> nat (numBytes (fs_hdr f)) \<le> p"
    by (auto simp: in_request_def)
  then show ?thesis by (auto simp: OpenFile_WriteAt_def FileLength_def Let_def overwrite_def)
next
  case True
  let ?h = "fs_hdr f" and ?m = "in_request (fs_hdr f) n p" and ?S = SectorSize
  let ?a = "p div SectorSize" and ?b = "(p + ?m - 1) div SectorSize"
  from True have p: "p < nat (numBytes ?h)" and pos: "0 < n" by simp_all
  note r = request_ok [OF h p pos n]
  obtain d' buf where d': "OpenFile_WriteAt junk f from (int n) (int p) d = Inr (int ?m, d')" "p - ?a * ?S + ?m \<le> length buf"
    "\<And>q. \<lbrakk>q < nat (numBytes ?h); (p \<noteq> ?a * ?S \<and> q div ?S = ?a) \<or> (p + ?m \<noteq> Suc ?b * ?S \<and> q div ?S = ?b)\<rbrakk> \<Longrightarrow>
      buf ! (q - ?a * ?S) = fbyte ?h d q"
    "\<And>q. q div ?S < nat (numSectors ?h) \<Longrightarrow> fbyte ?h d' q = (if ?a \<le> q div ?S \<and> q div ?S < Suc ?b
       then (take (p - ?a * ?S) buf @ take ?m from @ drop (p - ?a * ?S + ?m) buf) ! (q - ?a * ?S) else fbyte ?h d q)"
    "\<And>s. s \<notin> set (data_sectors ?h) \<Longrightarrow> d' s = d s"
    using WriteAt_run [OF h p pos n src] by blast
  have "fbyte ?h d' q = overwrite (fcontent ?h d) p (take n from) ! q" if q: "q < nat (numBytes ?h)" for q
  proof -
    have sec: "q div ?S < nat (numSectors ?h)"
      using h div_less_divRoundUp [OF q, of ?S] by (auto simp: header_ok_def SectorSize_def)
    have "fbyte ?h d' q = (if p \<le> q \<and> q < p + ?m then from ! (q - p) else fbyte ?h d q)"
      unfolding d'(4) [OF sec] using d'(3) [OF q] r(2,4) src d'(2) by (intro patched_bytes) auto
    with q src show ?thesis by (auto simp: nth_overwrite in_request_def fcontent_def)
  qed
  then have "fcontent ?h d' = overwrite (fcontent ?h d) p (take n from)"
    by (intro nth_equalityI) (simp_all add: length_overwrite fcontent_def)
  with d'(1,5) show ?thesis by blast
qed

end
