(* ===== verification/Fs_Directory.thy ===== *)
theory Fs_Directory
  imports Fs_File
begin

text \<open>
  \<open>filesys/directory.cc\<close>: the table of names of the Nachos file system and its image in a file, and
  \<open>BitMap::FetchFrom\<close>, \<open>BitMap::WriteBack\<close> of \<open>userprog/bitmap.cc\<close>. A \<open>DirectoryEntry\<close> takes 20 bytes in memory and on
  disk: the flag, 3 bytes of padding, the sector, the 10 bytes of the name and 2 bytes of padding. The interface
  \<open>stored_object\<close> covers both objects kept in a file; \<open>name_table\<close> is what the file system relies on of a directory.
\<close>

section \<open>Names\<close>

definition FileNameMaxLen :: nat where "FileNameMaxLen = 9"

text \<open>
  A name is the characters of a C string before the terminating NUL. \<open>strncmp\<close> compares arrays of characters, the
  second here a string with its NUL; \<open>strncpy\<close> pads with NULs and writes exactly \<open>n\<close> bytes.
\<close>

fun strncmp :: "byte list \<Rightarrow> byte list \<Rightarrow> nat \<Rightarrow> int" where
  "strncmp (x # xs) (y # ys) (Suc n) =
     (if x \<noteq> y then uint x - uint y else if x = 0 then 0 else strncmp xs ys n)"
| "strncmp xs ys n = 0"

definition strncpy :: "byte list \<Rightarrow> byte list \<Rightarrow> nat \<Rightarrow> byte list" where
  "strncpy dst src n = take n (src @ replicate n 0) @ drop n dst"

section \<open>The directory\<close>

record DirectoryEntry =
  inUse :: bool
  de_pad :: "byte list"
  de_sector :: int
  de_name :: "byte list"
  de_tail :: "byte list"

record Directory =
  tableSize :: nat
  dir_table :: "DirectoryEntry list"

definition sizeof_DirectoryEntry :: nat where "sizeof_DirectoryEntry = 20"

definition entry_bytes :: "DirectoryEntry \<Rightarrow> byte list" where
  "entry_bytes e = (if inUse e then 1 else 0) # de_pad e @ int_bytes (de_sector e) @ de_name e @ de_tail e"

definition entry_of :: "byte list \<Rightarrow> DirectoryEntry" where
  "entry_of bs = \<lparr>inUse = (bs ! 0 \<noteq> 0), de_pad = take 3 (drop 1 bs), de_sector = bytes_int (take 4 (drop 4 bs)),
     de_name = take 10 (drop 8 bs), de_tail = take 2 (drop 18 bs)\<rparr>"

definition table_bytes :: "Directory \<Rightarrow> byte list" where
  "table_bytes dir = concat (map entry_bytes (dir_table dir))"

definition table_of :: "Directory \<Rightarrow> byte list \<Rightarrow> Directory" where
  "table_of dir bs = dir\<lparr>dir_table := map (\<lambda>i. entry_of (take sizeof_DirectoryEntry (drop (sizeof_DirectoryEntry * i) bs)))
     [0..<tableSize dir]\<rparr>"

text \<open>The constructor leaves everything but the flags to what the heap held, the parameter \<open>junk\<close>.\<close>

definition Directory_new :: "(nat \<Rightarrow> DirectoryEntry) \<Rightarrow> nat \<Rightarrow> Directory" where
  "Directory_new junk n = \<lparr>tableSize = n, dir_table = map (\<lambda>i. (junk i)\<lparr>inUse := False\<rparr>) [0..<n]\<rparr>"

definition Directory_FetchFrom :: "FsOpenFile \<Rightarrow> disk \<Rightarrow> Directory \<Rightarrow> Directory res" where
  "Directory_FetchFrom f d dir =
     bind_res (OpenFile_ReadAt f (table_bytes dir) (int (tableSize dir * sizeof_DirectoryEntry)) 0 d) (\<lambda>(_, bs).
     Inr (table_of dir bs))"

definition Directory_WriteBack :: "(nat \<Rightarrow> byte) \<Rightarrow> FsOpenFile \<Rightarrow> Directory \<Rightarrow> disk \<Rightarrow> disk res" where
  "Directory_WriteBack junk f dir d =
     bind_res (OpenFile_WriteAt junk f (table_bytes dir) (int (tableSize dir * sizeof_DirectoryEntry)) 0 d) (\<lambda>(_, d1).
     Inr d1)"

fun FindIndex_loop :: "Directory \<Rightarrow> byte list \<Rightarrow> nat list \<Rightarrow> int" where
  "FindIndex_loop dir name [] = -1"
| "FindIndex_loop dir name (i # is) =
     (if inUse (dir_table dir ! i) \<and> strncmp (de_name (dir_table dir ! i)) (name @ [0]) FileNameMaxLen = 0 then int i
      else FindIndex_loop dir name is)"

definition FindIndex :: "Directory \<Rightarrow> byte list \<Rightarrow> int" where
  "FindIndex dir name = FindIndex_loop dir name [0..<tableSize dir]"

definition Directory_Find :: "Directory \<Rightarrow> byte list \<Rightarrow> int" where
  "Directory_Find dir name =
     (let i = FindIndex dir name in if i \<noteq> -1 then de_sector (dir_table dir ! nat i) else -1)"

fun Add_loop :: "byte list \<Rightarrow> int \<Rightarrow> nat list \<Rightarrow> Directory \<Rightarrow> bool \<times> Directory" where
  "Add_loop name newSector [] dir = (False, dir)"
| "Add_loop name newSector (i # is) dir =
     (let e = dir_table dir ! i in
      if \<not> inUse e then
        (True, dir\<lparr>dir_table := (dir_table dir)[i := e\<lparr>inUse := True, de_name := strncpy (de_name e) name FileNameMaxLen,
           de_sector := newSector\<rparr>]\<rparr>)
      else Add_loop name newSector is dir)"

definition Directory_Add :: "Directory \<Rightarrow> byte list \<Rightarrow> int \<Rightarrow> bool \<times> Directory" where
  "Directory_Add dir name newSector =
     (if FindIndex dir name \<noteq> -1 then (False, dir) else Add_loop name newSector [0..<tableSize dir] dir)"

definition Directory_Remove :: "Directory \<Rightarrow> byte list \<Rightarrow> bool \<times> Directory" where
  "Directory_Remove dir name =
     (let i = FindIndex dir name in
      if i = -1 then (False, dir)
      else (True, dir\<lparr>dir_table := (dir_table dir)[nat i := (dir_table dir ! nat i)\<lparr>inUse := False\<rparr>]\<rparr>))"

section \<open>The free map in a file\<close>

definition map_bytes :: "BitMap \<Rightarrow> byte list" where
  "map_bytes bm = words_bytes (bm_map bm)"

definition map_of_bytes :: "BitMap \<Rightarrow> byte list \<Rightarrow> BitMap" where
  "map_of_bytes bm bs = bm\<lparr>bm_map := bytes_words (numWords bm) bs\<rparr>"

definition BitMap_FetchFrom :: "FsOpenFile \<Rightarrow> disk \<Rightarrow> BitMap \<Rightarrow> BitMap res" where
  "BitMap_FetchFrom f d bm =
     bind_res (OpenFile_ReadAt f (map_bytes bm) (int (numWords bm * 4)) 0 d) (\<lambda>(_, bs). Inr (map_of_bytes bm bs))"

definition BitMap_WriteBack :: "(nat \<Rightarrow> byte) \<Rightarrow> FsOpenFile \<Rightarrow> BitMap \<Rightarrow> disk \<Rightarrow> disk res" where
  "BitMap_WriteBack junk f bm d =
     bind_res (OpenFile_WriteAt junk f (map_bytes bm) (int (numWords bm * 4)) 0 d) (\<lambda>(_, d1). Inr d1)"

section \<open>Objects kept in a file\<close>

text \<open>
  What \<open>FetchFrom\<close> and \<open>WriteBack\<close> rely on: the image of an object of the fixed size has \<open>len\<close> bytes, and reading it
  over any other object of that size gives the object back.
\<close>

locale stored_object =
  fixes bytes :: "'a \<Rightarrow> byte list" and rebuild :: "'a \<Rightarrow> byte list \<Rightarrow> 'a" and ok :: "'a \<Rightarrow> bool" and len :: nat
  assumes len_small: "len < 2 ^ 32"
    and length_bytes: "ok x \<Longrightarrow> length (bytes x) = len"
    and rebuild_bytes: "ok x \<Longrightarrow> ok y \<Longrightarrow> rebuild x (bytes y) = y"
begin

lemma fetch:
  assumes h: "header_ok (fs_hdr f)" "numBytes (fs_hdr f) = int len" and ok: "ok x" "ok y" and c: "fcontent (fs_hdr f) d = bytes y"
  shows "bind_res (OpenFile_ReadAt f (bytes x) (int len) 0 d) (\<lambda>(_, bs). Inr (rebuild x bs)) = Inr y"
proof -
  have "in_request (fs_hdr f) len 0 = len" by (simp add: in_request_def h(2))
  with ReadAt_ok [OF h(1), of 0 len "bytes x" d] len_small show ?thesis
    by (simp add: c length_bytes ok rebuild_bytes)
qed

lemma store:
  assumes h: "header_ok (fs_hdr f)" "numBytes (fs_hdr f) = int len" and ok: "ok y"
  shows "\<exists>d'. bind_res (OpenFile_WriteAt junk f (bytes y) (int len) 0 d) (\<lambda>(_, d1). Inr d1) = Inr d' \<and>
    fcontent (fs_hdr f) d' = bytes y \<and> (\<forall>s. s \<notin> set (data_sectors (fs_hdr f)) \<longrightarrow> d' s = d s)"
proof -
  from WriteAt_ok [OF h(1), of 0 len "bytes y" junk d] len_small length_bytes [OF ok] obtain d' where
    d': "OpenFile_WriteAt junk f (bytes y) (int len) 0 d = Inr (int (in_request (fs_hdr f) len 0), d')"
    "fcontent (fs_hdr f) d' = overwrite (fcontent (fs_hdr f) d) 0 (take len (bytes y))"
    "\<forall>s. s \<notin> set (data_sectors (fs_hdr f)) \<longrightarrow> d' s = d s" by auto
  moreover have "overwrite (fcontent (fs_hdr f) d) 0 (take len (bytes y)) = bytes y"
    by (simp add: overwrite_def h(2) length_bytes [OF ok])
  ultimately show ?thesis by simp
qed

end

definition free_map_ok :: "BitMap \<Rightarrow> bool" where
  "free_map_ok bm \<longleftrightarrow> bm_wf bm \<and> numBits bm = NumSectors"

lemma free_map_words: "free_map_ok bm \<Longrightarrow> numWords bm = 32 \<and> length (bm_map bm) = 32"
  by (simp add: free_map_ok_def bm_wf_def NumSectors_def SectorsPerTrack_def NumTracks_def divRoundUp_def BitsInWord_def)

interpretation stored_map: stored_object map_bytes map_of_bytes free_map_ok 128
proof
  fix x y assume x: "free_map_ok x" and y: "free_map_ok y"
  show "length (map_bytes x) = 128" using free_map_words [OF x] by (simp add: map_bytes_def)
  show "map_of_bytes x (map_bytes y) = y"
    using free_map_words [OF x] free_map_words [OF y] x y
    by (simp add: map_of_bytes_def map_bytes_def words_bytes_inverse free_map_ok_def)
qed simp

definition entry_ok :: "DirectoryEntry \<Rightarrow> bool" where
  "entry_ok e \<longleftrightarrow> length (de_pad e) = 3 \<and> int_range (de_sector e) \<and> length (de_name e) = 10 \<and> length (de_tail e) = 2"

definition NumDirEntries :: nat where "NumDirEntries = 10"

definition table_ok :: "Directory \<Rightarrow> bool" where
  "table_ok dir \<longleftrightarrow> tableSize dir = NumDirEntries \<and> length (dir_table dir) = NumDirEntries \<and>
     (\<forall>e \<in> set (dir_table dir). entry_ok e)"

lemma entry_bytes_inverse: "entry_ok e \<Longrightarrow> length (entry_bytes e) = 20 \<and> entry_of (entry_bytes e) = e"
  by (simp add: entry_ok_def entry_bytes_def entry_of_def int_bytes_inverse numeral_eq_Suc)

interpretation stored_table: stored_object table_bytes table_of table_ok 200
proof
  fix x y assume x: "table_ok x" and y: "table_ok y"
  have blocks: "\<And>e. e \<in> set (dir_table z) \<Longrightarrow> length (entry_bytes e) = 20" if "table_ok z" for z
    using that entry_bytes_inverse by (simp add: table_ok_def)
  from length_concat_blocks [of "dir_table x" entry_bytes 20] blocks [OF x] x show "length (table_bytes x) = 200"
    by (simp add: table_bytes_def table_ok_def NumDirEntries_def)
  have "entry_of (take 20 (drop (20 * i) (table_bytes y))) = dir_table y ! i" if "i < 10" for i
    using concat_blocks [of "dir_table y" entry_bytes 20 i] blocks [OF y] that y entry_bytes_inverse
    by (simp add: table_bytes_def table_ok_def NumDirEntries_def)
  then have "map (\<lambda>i. entry_of (take 20 (drop (20 * i) (table_bytes y)))) [0..<10] = dir_table y"
    using y by (intro nth_equalityI) (simp_all add: table_ok_def NumDirEntries_def)
  then show "table_of x (table_bytes y) = y"
    using x y by (simp add: table_of_def table_ok_def NumDirEntries_def sizeof_DirectoryEntry_def)
qed simp

section \<open>The directory as a map from names\<close>

text \<open>Two names are the same to the directory when their first nine characters are.\<close>

definition name_key :: "byte list \<Rightarrow> byte list" where
  "name_key name = takeWhile (\<lambda>c. c \<noteq> 0) (take FileNameMaxLen name)"

definition dir_map :: "Directory \<Rightarrow> byte list \<rightharpoonup> int" where
  "dir_map dir = map_of (map (\<lambda>e. (name_key (de_name e), de_sector e)) (filter inUse (dir_table dir)))"

definition dir_ok :: "Directory \<Rightarrow> bool" where
  "dir_ok dir \<longleftrightarrow> table_ok dir \<and> distinct (map (\<lambda>e. name_key (de_name e)) (filter inUse (dir_table dir))) \<and>
     (\<forall>e \<in> set (dir_table dir). inUse e \<longrightarrow> 0 \<le> de_sector e)"

definition dir_full :: "Directory \<Rightarrow> bool" where
  "dir_full dir \<longleftrightarrow> (\<forall>e \<in> set (dir_table dir). inUse e)"

lemma takeWhile_stop: "ys = [] \<or> \<not> P (hd ys) \<Longrightarrow> takeWhile P (xs @ ys) = takeWhile P xs"
  by (induction xs) (cases ys, simp_all)

lemma strncmp_eq_iff:
  assumes "n \<le> length xs \<or> 0 \<in> set xs" "n \<le> length ys \<or> 0 \<in> set ys"
  shows "strncmp xs ys n = 0 \<longleftrightarrow> takeWhile (\<lambda>c. c \<noteq> 0) (take n xs) = takeWhile (\<lambda>c. c \<noteq> 0) (take n ys)"
  using assms
proof (induction xs ys n rule: strncmp.induct)
  case (1 x xs y ys n)
  have "x \<noteq> y \<Longrightarrow> uint x - uint y \<noteq> 0" by (simp add: word_uint_eq_iff)
  with 1 show ?case by (cases "x = y"; cases "x = 0") auto
qed auto

lemma strncmp_name:
  "length xs = 10 \<Longrightarrow> strncmp xs (name @ [0]) FileNameMaxLen = 0 \<longleftrightarrow> name_key xs = name_key name"
  by (subst strncmp_eq_iff) (simp_all add: name_key_def FileNameMaxLen_def takeWhile_stop take_Cons')

lemma name_key_strncpy [simp]: "name_key (strncpy dst name FileNameMaxLen) = name_key name"
proof -
  have "takeWhile (\<lambda>c. c \<noteq> 0) (take n (xs @ replicate n 0)) = takeWhile (\<lambda>c. c \<noteq> 0) (take n xs)" for n and xs :: "byte list"
    by (cases "n - length xs") (simp_all add: takeWhile_stop)
  moreover have "take n (strncpy dst name n) = take n (name @ replicate n 0)" for n by (simp add: strncpy_def)
  ultimately show ?thesis by (simp only: name_key_def)
qed

lemma map_of_insert_mid: "k \<notin> fst ` set A \<Longrightarrow> map_of (A @ (k, v) # B) = (map_of (A @ B))(k \<mapsto> v)"
  by (induction A) auto

lemma map_of_remove_mid: "k \<notin> fst ` set A \<Longrightarrow> k \<notin> fst ` set B \<Longrightarrow> map_of (A @ B) = (map_of (A @ (k, v) # B))(k := None)"
  by (induction A) (auto simp: fun_eq_iff dom_map_of_conv_image_fst domIff)

abbreviation key_of :: "DirectoryEntry \<Rightarrow> byte list" where
  "key_of e \<equiv> name_key (de_name e)"

lemma FindIndex_loop_spec:
  assumes "\<And>i. i \<in> set is \<Longrightarrow> length (de_name (dir_table dir ! i)) = 10"
  shows "(\<exists>i \<in> set is. FindIndex_loop dir name is = int i \<and> inUse (dir_table dir ! i) \<and> key_of (dir_table dir ! i) = name_key name) \<or>
    (FindIndex_loop dir name is = -1 \<and> (\<forall>i \<in> set is. inUse (dir_table dir ! i) \<longrightarrow> key_of (dir_table dir ! i) \<noteq> name_key name))"
  using assms by (induction "is") (auto simp: strncmp_name)

lemma table_ok_nth: "table_ok dir \<Longrightarrow> i < tableSize dir \<Longrightarrow> dir_table dir ! i \<in> set (dir_table dir) \<and> entry_ok (dir_table dir ! i)"
  by (simp add: table_ok_def)

text \<open>\<open>FindIndex\<close> and the map: the index holds the entry of the name, or there is none.\<close>

lemma FindIndex_cases:
  assumes "dir_ok dir"
  obtains (found) i where "FindIndex dir name = int i" "i < tableSize dir" "inUse (dir_table dir ! i)"
      "key_of (dir_table dir ! i) = name_key name" "dir_map dir (name_key name) = Some (de_sector (dir_table dir ! i))"
  | (missing) "FindIndex dir name = -1" "dir_map dir (name_key name) = None"
proof -
  have t: "table_ok dir" using assms by (simp add: dir_ok_def)
  have "length (de_name (dir_table dir ! i)) = 10" if "i \<in> set [0..<tableSize dir]" for i
    using table_ok_nth [OF t, of i] that by (simp add: entry_ok_def)
  from FindIndex_loop_spec [OF this] consider
    i where "i < tableSize dir" "FindIndex dir name = int i" "inUse (dir_table dir ! i)" "key_of (dir_table dir ! i) = name_key name"
    | "FindIndex dir name = -1" "\<And>i. i < tableSize dir \<Longrightarrow> inUse (dir_table dir ! i) \<Longrightarrow> key_of (dir_table dir ! i) \<noteq> name_key name"
    unfolding FindIndex_def by fastforce
  then show ?thesis
  proof cases
    case (1 i)
    let ?e = "dir_table dir ! i"
    have "map_of (map (\<lambda>e. (key_of e, de_sector e)) (filter inUse (dir_table dir))) (key_of ?e) = Some (de_sector ?e)"
      using assms 1(3) table_ok_nth [OF t 1(1)] by (intro map_of_is_SomeI) (auto simp: dir_ok_def comp_def)
    with 1 show ?thesis by (intro found) (simp_all add: dir_map_def)
  next
    case 2
    have "key_of e \<noteq> name_key name" if "e \<in> set (dir_table dir)" "inUse e" for e
      using 2(2) that t by (auto simp: in_set_conv_nth table_ok_def)
    then have "dir_map dir (name_key name) = None" by (fastforce simp: dir_map_def map_of_eq_None_iff)
    with 2 show ?thesis by (intro missing)
  qed
qed

lemma Find_map:
  assumes "dir_ok dir"
  shows "Directory_Find dir name = (case dir_map dir (name_key name) of None \<Rightarrow> -1 | Some s \<Rightarrow> s)"
  using assms by (rule FindIndex_cases [of dir name]) (simp_all add: Directory_Find_def)

lemma dir_map_nonneg:
  assumes "dir_ok dir" "dir_map dir k = Some s"
  shows "0 \<le> s" "int_range s"
  using assms by (auto simp: dir_map_def dir_ok_def table_ok_def entry_ok_def dest!: map_of_SomeD)

lemma Add_loop_spec:
  "(\<exists>i \<in> set is. let e = dir_table dir ! i in \<not> inUse e \<and> Add_loop name k is dir =
      (True, dir\<lparr>dir_table := (dir_table dir)[i := e\<lparr>inUse := True, de_name := strncpy (de_name e) name FileNameMaxLen, de_sector := k\<rparr>]\<rparr>)) \<or>
   (Add_loop name k is dir = (False, dir) \<and> (\<forall>i \<in> set is. inUse (dir_table dir ! i)))"
  by (induction "is") (auto simp: Let_def)

lemma dir_replace:
  assumes dir: "dir_ok dir" and i: "i < tableSize dir" and e: "entry_ok e" "inUse e \<Longrightarrow> 0 \<le> de_sector e"
    and new: "inUse e \<Longrightarrow> \<not> inUse (dir_table dir ! i) \<and> dir_map dir (key_of e) = None"
  defines "dir' \<equiv> dir\<lparr>dir_table := (dir_table dir)[i := e]\<rparr>"
  shows "dir_ok dir'"
    "dir_map dir' = (if inUse e then (dir_map dir)(key_of e \<mapsto> de_sector e)
       else if inUse (dir_table dir ! i) then (dir_map dir)(key_of (dir_table dir ! i) := None) else dir_map dir)"
proof -
  let ?t = "dir_table dir" and ?f = "\<lambda>e. (key_of e, de_sector e)"
  let ?us = "take i ?t" and ?vs = "drop (Suc i) ?t" and ?old = "?t ! i"
  have i': "i < length ?t" using dir i by (simp add: dir_ok_def table_ok_def)
  have t: "?t = ?us @ ?old # ?vs" by (rule id_take_nth_drop [OF i'])
  have t': "?t[i := e] = ?us @ e # ?vs" by (rule upd_conv_take_nth_drop [OF i'])
  have d: "distinct (map key_of (filter inUse (?us @ ?old # ?vs)))" using dir t by (simp add: dir_ok_def)
  have none: "key_of e \<notin> key_of ` {x \<in> set (?us @ ?old # ?vs). inUse x}" if "inUse e"
    using new [OF that] arg_cong [OF t, of set] by (auto simp: dir_map_def map_of_eq_None_iff image_iff)
  have "distinct (map key_of (filter inUse (?t[i := e])))"
    unfolding t' using d none by (auto split: if_splits)
  moreover have "\<forall>x \<in> set (?t[i := e]). entry_ok x \<and> (inUse x \<longrightarrow> 0 \<le> de_sector x)"
    using dir e set_update_subset_insert [of ?t i e] by (auto simp: dir_ok_def table_ok_def)
  ultimately show "dir_ok dir'" using dir by (simp add: dir_ok_def table_ok_def dir'_def)
  have m: "dir_map dir = map_of (map ?f (filter inUse (?us @ ?old # ?vs)))" using t by (simp add: dir_map_def)
  have m': "dir_map dir' = map_of (map ?f (filter inUse (?us @ e # ?vs)))" using t' by (simp add: dir_map_def dir'_def)
  show "dir_map dir' = (if inUse e then (dir_map dir)(key_of e \<mapsto> de_sector e)
       else if inUse ?old then (dir_map dir)(key_of ?old := None) else dir_map dir)"
  proof (cases "inUse e")
    case True
    then have "key_of e \<notin> fst ` set (map ?f (filter inUse ?us))" using none by (auto simp: image_iff)
    from map_of_insert_mid [OF this] True new show ?thesis unfolding m m' by simp
  next
    case False
    show ?thesis
    proof (cases "inUse ?old")
      case True
      with d have "key_of ?old \<notin> fst ` set (map ?f (filter inUse ?us))" "key_of ?old \<notin> fst ` set (map ?f (filter inUse ?vs))"
        by (auto simp: image_iff)
      from map_of_remove_mid [OF this] True False show ?thesis unfolding m m' by simp
    qed (use False m m' in simp)
  qed
qed

section \<open>The interface of a table of names\<close>

text \<open>
  What the file system relies on of its directory: \<open>find\<close> reads the map, \<open>add\<close> extends it unless the name is there or
  the table is full, \<open>remove\<close> takes the name out. Both that change it keep it well formed, and neither changes it when it
  returns false.
\<close>

locale name_table =
  fixes find :: "'t \<Rightarrow> byte list \<Rightarrow> int" and add :: "'t \<Rightarrow> byte list \<Rightarrow> int \<Rightarrow> bool \<times> 't"
    and remove :: "'t \<Rightarrow> byte list \<Rightarrow> bool \<times> 't" and names :: "'t \<Rightarrow> byte list \<rightharpoonup> int"
    and full :: "'t \<Rightarrow> bool" and ok :: "'t \<Rightarrow> bool" and key :: "byte list \<Rightarrow> byte list"
  assumes find_names: "ok t \<Longrightarrow> find t n = (case names t (key n) of None \<Rightarrow> -1 | Some s \<Rightarrow> s)"
    and names_nonneg: "ok t \<Longrightarrow> names t k = Some s \<Longrightarrow> 0 \<le> s"
    and add_taken: "ok t \<Longrightarrow> names t (key n) \<noteq> None \<or> full t \<Longrightarrow> add t n s = (False, t)"
    and add_new: "ok t \<Longrightarrow> names t (key n) = None \<Longrightarrow> \<not> full t \<Longrightarrow> 0 \<le> s \<Longrightarrow> int_range s \<Longrightarrow>
      \<exists>t'. add t n s = (True, t') \<and> ok t' \<and> names t' = (names t)(key n \<mapsto> s)"
    and remove_missing: "ok t \<Longrightarrow> names t (key n) = None \<Longrightarrow> remove t n = (False, t)"
    and remove_there: "ok t \<Longrightarrow> names t (key n) \<noteq> None \<Longrightarrow>
      \<exists>t'. remove t n = (True, t') \<and> ok t' \<and> names t' = (names t)(key n := None)"
begin

lemma find_iff: "ok t \<Longrightarrow> find t n \<noteq> -1 \<longleftrightarrow> names t (key n) \<noteq> None"
  using names_nonneg by (fastforce simp: find_names split: option.splits)

lemma find_Some: "ok t \<Longrightarrow> names t (key n) = Some s \<Longrightarrow> find t n = s"
  by (simp add: find_names)

text \<open>A name added is found and the others keep their sectors; a name removed can be added again.\<close>

lemma add_find:
  assumes "ok t" "add t n s = (True, t')" "0 \<le> s" "int_range s"
  shows "ok t'" "find t' m = (if key m = key n then s else find t m)" "find t n = -1"
proof -
  have new: "names t (key n) = None" "\<not> full t"
    using assms(2) add_taken [OF assms(1), of n s] by (metis Pair_inject)+
  from add_new [OF assms(1) this assms(3,4)] assms(2) have t': "ok t'" "names t' = (names t)(key n \<mapsto> s)" by auto
  then show "ok t'" "find t' m = (if key m = key n then s else find t m)" "find t n = -1"
    using assms(1) new(1) by (simp_all add: find_names)
qed

lemma remove_add:
  assumes "ok t" "remove t n = (True, t')" "\<not> full t'" "0 \<le> s" "int_range s"
  shows "\<exists>t''. add t' n s = (True, t'') \<and> names t'' = (names t)(key n \<mapsto> s)"
proof -
  have "names t (key n) \<noteq> None" using assms(2) remove_missing [OF assms(1), of n] by auto
  from remove_there [OF assms(1) this] assms(2) have t': "ok t'" "names t' = (names t)(key n := None)" by auto
  with add_new [OF t'(1) _ assms(3-5), of n] show ?thesis by auto
qed

end

lemma dir_full_iff: "dir_ok dir \<Longrightarrow> dir_full dir \<longleftrightarrow> (\<forall>i < tableSize dir. inUse (dir_table dir ! i))"
  by (auto simp: dir_ok_def table_ok_def dir_full_def all_set_conv_all_nth)

interpretation directory: name_table Directory_Find Directory_Add Directory_Remove dir_map dir_full dir_ok name_key
proof
  fix dir n s k
  assume ok: "dir_ok dir"
  show "Directory_Find dir n = (case dir_map dir (name_key n) of None \<Rightarrow> -1 | Some s \<Rightarrow> s)" by (rule Find_map [OF ok])
  show "dir_map dir k = Some s \<Longrightarrow> 0 \<le> s" by (rule dir_map_nonneg(1) [OF ok])
  show "dir_map dir (name_key n) \<noteq> None \<or> dir_full dir \<Longrightarrow> Directory_Add dir n s = (False, dir)"
    using Add_loop_spec [of "[0..<tableSize dir]" dir n s] dir_full_iff [OF ok]
    by (cases rule: FindIndex_cases [OF ok, of n]) (auto simp: Directory_Add_def Let_def)
  show "dir_map dir (name_key n) = None \<Longrightarrow> Directory_Remove dir n = (False, dir)"
    by (cases rule: FindIndex_cases [OF ok, of n]) (auto simp: Directory_Remove_def)
next
  fix dir n s
  assume ok: "dir_ok dir" and new: "dir_map dir (name_key n) = None" "\<not> dir_full dir" and s: "0 \<le> s" "int_range s"
  have "Directory_Add dir n s = Add_loop n s [0..<tableSize dir] dir"
    using new(1) by (cases rule: FindIndex_cases [OF ok, of n]) (auto simp: Directory_Add_def)
  moreover from new(2) dir_full_iff [OF ok] have "\<not> (\<forall>i \<in> set [0..<tableSize dir]. inUse (dir_table dir ! i))" by auto
  ultimately obtain i e where
    i: "i < tableSize dir" "\<not> inUse (dir_table dir ! i)"
      "e = (dir_table dir ! i)\<lparr>inUse := True, de_name := strncpy (de_name (dir_table dir ! i)) n FileNameMaxLen, de_sector := s\<rparr>"
      "Directory_Add dir n s = (True, dir\<lparr>dir_table := (dir_table dir)[i := e]\<rparr>)"
    using Add_loop_spec [of "[0..<tableSize dir]" dir n s] unfolding Let_def by (metis atLeastLessThan_iff set_upt)
  have "entry_ok e" using ok table_ok_nth [of dir i] i(1,3) s
    by (simp add: dir_ok_def entry_ok_def strncpy_def FileNameMaxLen_def)
  from dir_replace [OF ok i(1) this] i s new(1)
  show "\<exists>t'. Directory_Add dir n s = (True, t') \<and> dir_ok t' \<and> dir_map t' = (dir_map dir)(name_key n \<mapsto> s)" by simp
next
  fix dir n
  assume ok: "dir_ok dir" and "dir_map dir (name_key n) \<noteq> None"
  then obtain i where i: "FindIndex dir n = int i" "i < tableSize dir" "inUse (dir_table dir ! i)" "key_of (dir_table dir ! i) = name_key n"
    by (cases rule: FindIndex_cases [OF ok, of n]) auto
  let ?e = "(dir_table dir ! i)\<lparr>inUse := False\<rparr>"
  have "entry_ok ?e" using ok table_ok_nth [of dir i] i(2) by (simp add: dir_ok_def entry_ok_def)
  from dir_replace [OF ok i(2) this] i
  show "\<exists>t'. Directory_Remove dir n = (True, t') \<and> dir_ok t' \<and> dir_map t' = (dir_map dir)(name_key n := None)"
    by (simp add: Directory_Remove_def)
qed

end
