(* ===== verification/Fs.thy ===== *)
theory Fs
  imports Fs_Directory
begin

text \<open>
  \<open>filesys/filesys.cc\<close>: the file system on the disk. Its state in memory is the two open files with the free map and the
  directory; everything else is on the disk, and each operation reads the map and the directory, works on copies and
  writes them back. The second half is the abstraction to a map from names to contents and the invariant of the disk.
\<close>

section \<open>Operations\<close>

definition FreeMapSector :: int where "FreeMapSector = 0"
definition DirectorySector :: int where "DirectorySector = 1"
definition FreeMapFileSize :: nat where "FreeMapFileSize = NumSectors div 8"
definition DirectoryFileSize :: nat where "DirectoryFileSize = sizeof_DirectoryEntry * NumDirEntries"

record FileSystem =
  freeMapFile :: FsOpenFile
  directoryFile :: FsOpenFile

text \<open>What the heap holds where the code allocates an object and does not initialise it.\<close>

record uninit =
  un_words :: "nat \<Rightarrow> uint32"
  un_table :: "nat \<Rightarrow> DirectoryEntry"
  un_header :: "nat \<Rightarrow> FileHeader"
  un_buf :: "nat \<Rightarrow> nat \<Rightarrow> byte"

definition open_system :: "disk \<Rightarrow> FileSystem res" where
  "open_system d =
     bind_res (OpenFile_new FreeMapSector d) (\<lambda>fm.
     bind_res (OpenFile_new DirectorySector d) (\<lambda>df.
     Inr \<lparr>freeMapFile = fm, directoryFile = df\<rparr>))"

definition FileSystem_new :: "uninit \<Rightarrow> bool \<Rightarrow> disk \<Rightarrow> (FileSystem \<times> disk) res" where
  "FileSystem_new u format d =
     (if format then
        bind_res (BitMap_new (un_words u) NumSectors) (\<lambda>freeMap0.
        let directory = Directory_new (un_table u) NumDirEntries in
        bind_res (Mark freeMap0 FreeMapSector) (\<lambda>freeMap1.
        bind_res (Mark freeMap1 DirectorySector) (\<lambda>freeMap2.
        bind_res (FileHeader_Allocate freeMap2 (int FreeMapFileSize) (un_header u 0)) (\<lambda>(ok1, freeMap3, mapHdr).
        assert_res ok1 (\<lambda>_.
        bind_res (FileHeader_Allocate freeMap3 (int DirectoryFileSize) (un_header u 1)) (\<lambda>(ok2, freeMap4, dirHdr).
        assert_res ok2 (\<lambda>_.
        bind_res (FileHeader_WriteBack FreeMapSector mapHdr d) (\<lambda>d1.
        bind_res (FileHeader_WriteBack DirectorySector dirHdr d1) (\<lambda>d2.
        bind_res (open_system d2) (\<lambda>fs.
        bind_res (BitMap_WriteBack (un_buf u 0) (freeMapFile fs) freeMap4 d2) (\<lambda>d3.
        bind_res (Directory_WriteBack (un_buf u 1) (directoryFile fs) directory d3) (\<lambda>d4.
        Inr (fs, d4)))))))))))))
      else bind_res (open_system d) (\<lambda>fs. Inr (fs, d)))"

definition fetch_directory :: "uninit \<Rightarrow> FileSystem \<Rightarrow> disk \<Rightarrow> Directory res" where
  "fetch_directory u fs d = Directory_FetchFrom (directoryFile fs) d (Directory_new (un_table u) NumDirEntries)"

definition fetch_free_map :: "uninit \<Rightarrow> FileSystem \<Rightarrow> disk \<Rightarrow> BitMap res" where
  "fetch_free_map u fs d =
     bind_res (BitMap_new (un_words u) NumSectors) (\<lambda>freeMap. BitMap_FetchFrom (freeMapFile fs) d freeMap)"

definition FileSystem_Create :: "uninit \<Rightarrow> FileSystem \<Rightarrow> byte list \<Rightarrow> int \<Rightarrow> disk \<Rightarrow> (bool \<times> disk) res" where
  "FileSystem_Create u fs name initialSize d =
     bind_res (fetch_directory u fs d) (\<lambda>directory.
     if Directory_Find directory name \<noteq> -1 then Inr (False, d)
     else
       bind_res (fetch_free_map u fs d) (\<lambda>freeMap.
       bind_res (Find freeMap) (\<lambda>(sector, freeMap1).
       if sector = -1 then Inr (False, d)
       else
         (case Directory_Add directory name sector of (added, directory1) \<Rightarrow>
          if \<not> added then Inr (False, d)
          else
            bind_res (FileHeader_Allocate freeMap1 initialSize (un_header u 0)) (\<lambda>(room, freeMap2, h).
            if \<not> room then Inr (False, d)
            else
              bind_res (FileHeader_WriteBack sector h d) (\<lambda>d1.
              bind_res (Directory_WriteBack (un_buf u 0) (directoryFile fs) directory1 d1) (\<lambda>d2.
              bind_res (BitMap_WriteBack (un_buf u 1) (freeMapFile fs) freeMap2 d2) (\<lambda>d3.
              Inr (True, d3)))))))))"

definition FileSystem_Open :: "uninit \<Rightarrow> FileSystem \<Rightarrow> byte list \<Rightarrow> disk \<Rightarrow> FsOpenFile option res" where
  "FileSystem_Open u fs name d =
     bind_res (fetch_directory u fs d) (\<lambda>directory.
     let sector = Directory_Find directory name in
     if sector \<ge> 0 then bind_res (OpenFile_new sector d) (\<lambda>f. Inr (Some f)) else Inr None)"

definition FileSystem_Remove :: "uninit \<Rightarrow> FileSystem \<Rightarrow> byte list \<Rightarrow> disk \<Rightarrow> (bool \<times> disk) res" where
  "FileSystem_Remove u fs name d =
     bind_res (fetch_directory u fs d) (\<lambda>directory.
     let sector = Directory_Find directory name in
     if sector = -1 then Inr (False, d)
     else
       bind_res (FileHeader_FetchFrom sector d) (\<lambda>fileHdr.
       bind_res (fetch_free_map u fs d) (\<lambda>freeMap.
       bind_res (FileHeader_Deallocate freeMap fileHdr) (\<lambda>freeMap1.
       bind_res (Clear freeMap1 sector) (\<lambda>freeMap2.
       let directory1 = snd (Directory_Remove directory name) in
       bind_res (BitMap_WriteBack (un_buf u 0) (freeMapFile fs) freeMap2 d) (\<lambda>d1.
       bind_res (Directory_WriteBack (un_buf u 1) (directoryFile fs) directory1 d1) (\<lambda>d2.
       Inr (True, d2))))))))"

section \<open>The abstraction\<close>

text \<open>The header in a sector, the sectors of a file, and the free map and the directory on the disk.\<close>

definition hdr_at :: "disk \<Rightarrow> nat \<Rightarrow> FileHeader" where
  "hdr_at d s = header_of (map (d s) [0..<SectorSize])"

definition file_sectors :: "disk \<Rightarrow> int \<Rightarrow> nat set" where
  "file_sectors d s = insert (nat s) (set (data_sectors (hdr_at d (nat s))))"

definition blank_map :: BitMap where
  "blank_map = \<lparr>numBits = NumSectors, numWords = 32, bm_map = replicate 32 0\<rparr>"

definition blank_table :: Directory where
  "blank_table = \<lparr>tableSize = NumDirEntries, dir_table = replicate NumDirEntries
     \<lparr>inUse = False, de_pad = replicate 3 0, de_sector = 0, de_name = replicate 10 0, de_tail = replicate 2 0\<rparr>\<rparr>"

abbreviation map_hdr :: "FileSystem \<Rightarrow> FileHeader" where
  "map_hdr fs \<equiv> fs_hdr (freeMapFile fs)"

abbreviation dir_hdr :: "FileSystem \<Rightarrow> FileHeader" where
  "dir_hdr fs \<equiv> fs_hdr (directoryFile fs)"

definition free_map :: "FileSystem \<Rightarrow> disk \<Rightarrow> BitMap" where
  "free_map fs d = map_of_bytes blank_map (fcontent (map_hdr fs) d)"

definition root_dir :: "FileSystem \<Rightarrow> disk \<Rightarrow> Directory" where
  "root_dir fs d = table_of blank_table (fcontent (dir_hdr fs) d)"

text \<open>The file system as a map from names to contents.\<close>

definition fs_files :: "FileSystem \<Rightarrow> disk \<Rightarrow> byte list \<rightharpoonup> byte list" where
  "fs_files fs d k = map_option (\<lambda>s. fcontent (hdr_at d (nat s)) d) (dir_map (root_dir fs d) k)"

definition free_sectors :: "FileSystem \<Rightarrow> disk \<Rightarrow> nat" where
  "free_sectors fs d = NumSectors - card (allocated (free_map fs d))"

section \<open>The invariant\<close>

definition reserved :: "FileSystem \<Rightarrow> nat set" where
  "reserved fs = {0, 1} \<union> set (data_sectors (map_hdr fs)) \<union> set (data_sectors (dir_hdr fs))"

text \<open>
  The files of the system itself: their headers are in sectors 0 and 1, their sizes are fixed, and their sectors are
  apart.
\<close>

definition sys_ok :: "FileSystem \<Rightarrow> disk \<Rightarrow> bool" where
  "sys_ok fs d \<longleftrightarrow> header_ok (map_hdr fs) \<and> numBytes (map_hdr fs) = 128 \<and> header_ok (dir_hdr fs) \<and> numBytes (dir_hdr fs) = 200 \<and>
     hdr_at d 0 = map_hdr fs \<and> hdr_at d 1 = dir_hdr fs \<and> seekPosition (freeMapFile fs) = 0 \<and> seekPosition (directoryFile fs) = 0 \<and>
     {0, 1} \<inter> (set (data_sectors (map_hdr fs)) \<union> set (data_sectors (dir_hdr fs))) = {} \<and>
     set (data_sectors (map_hdr fs)) \<inter> set (data_sectors (dir_hdr fs)) = {}"

definition file_ok :: "disk \<Rightarrow> int \<Rightarrow> bool" where
  "file_ok d s \<longleftrightarrow> 0 \<le> s \<and> s < int NumSectors \<and> header_ok (hdr_at d (nat s)) \<and> nat s \<notin> set (data_sectors (hdr_at d (nat s)))"

text \<open>The files of a directory: no sector belongs to two files, and the sectors \<open>A\<close> in use are exactly theirs and \<open>R\<close>.\<close>

definition files_ok :: "(byte list \<rightharpoonup> int) \<Rightarrow> disk \<Rightarrow> nat set \<Rightarrow> nat set \<Rightarrow> bool" where
  "files_ok m d R A \<longleftrightarrow> (\<forall>k s. m k = Some s \<longrightarrow> file_ok d s \<and> file_sectors d s \<inter> R = {}) \<and>
     (\<forall>k1 k2 s1 s2. m k1 = Some s1 \<longrightarrow> m k2 = Some s2 \<longrightarrow> k1 \<noteq> k2 \<longrightarrow> file_sectors d s1 \<inter> file_sectors d s2 = {}) \<and>
     A = R \<union> (\<Union>s \<in> ran m. file_sectors d s)"

definition fs_ok :: "FileSystem \<Rightarrow> disk \<Rightarrow> bool" where
  "fs_ok fs d \<longleftrightarrow> sys_ok fs d \<and>
     free_map_ok (free_map fs d) \<and> fcontent (map_hdr fs) d = map_bytes (free_map fs d) \<and>
     dir_ok (root_dir fs d) \<and> fcontent (dir_hdr fs) d = table_bytes (root_dir fs d) \<and>
     files_ok (dir_map (root_dir fs d)) d (reserved fs) (allocated (free_map fs d))"

definition uninit_ok :: "uninit \<Rightarrow> bool" where
  "uninit_ok u \<longleftrightarrow> (\<forall>i. entry_ok (un_table u i)) \<and>
     (\<forall>i. length (dataSectors (un_header u i)) = NumDirect \<and> (\<forall>k \<in> set (dataSectors (un_header u i)). int_range k))"

lemma hdr_at_cong: "d' s = d s \<Longrightarrow> hdr_at d' s = hdr_at d s"
  by (simp add: hdr_at_def)

lemma file_sectors_cong: "d' (nat s) = d (nat s) \<Longrightarrow> file_sectors d' s = file_sectors d s"
  by (simp add: file_sectors_def hdr_at_cong [of d' "nat s" d])

lemma sys_ok_cong: "sys_ok fs d \<Longrightarrow> d' 0 = d 0 \<Longrightarrow> d' 1 = d 1 \<Longrightarrow> sys_ok fs d'"
  using hdr_at_cong [of d' 0 d] hdr_at_cong [of d' 1 d] by (simp add: sys_ok_def)

lemma fcontent_cong:
  assumes h: "header_ok h" and same: "\<And>s. s \<in> set (data_sectors h) \<Longrightarrow> d' s = d s"
  shows "fcontent h d' = fcontent h d"
proof -
  have "fbyte h d' q = fbyte h d q" if q: "q < nat (numBytes h)" for q
  proof -
    have "q div SectorSize < nat (numSectors h)"
      using h div_less_divRoundUp [OF q, of SectorSize] by (auto simp: header_ok_def SectorSize_def)
    from same [OF header_ok_sector(4) [OF h this]] show ?thesis by (simp add: fbyte_def)
  qed
  then show ?thesis by (simp add: fcontent_def)
qed

lemma files_ok_cong:
  assumes "files_ok m d R A" and same: "\<And>s. s \<in> ran m \<Longrightarrow> d' (nat s) = d (nat s)"
  shows "files_ok m d' R A"
proof -
  have "file_sectors d' s = file_sectors d s" "file_ok d' s = file_ok d s" if "s \<in> ran m" for s
    using file_sectors_cong [of d' s d] hdr_at_cong [of d' "nat s" d] same [OF that] by (simp_all add: file_ok_def)
  with assms(1) ranI show ?thesis unfolding files_ok_def by (metis (no_types, lifting) SUP_cong)
qed

lemma files_ok_insert:
  assumes ok: "files_ok m d R A" and k: "m k = None" and s: "file_ok d s" "file_sectors d s \<inter> A = {}"
  shows "files_ok (m(k \<mapsto> s)) d R (A \<union> file_sectors d s)"
proof -
  have A: "A = R \<union> (\<Union>s \<in> ran m. file_sectors d s)" using ok by (simp add: files_ok_def)
  have "file_sectors d s \<inter> file_sectors d t = {}" "file_sectors d t \<inter> file_sectors d s = {}" if "m j = Some t" for j t
    using s(2) ranI [of m j t] that unfolding A by blast+
  moreover have "A \<union> file_sectors d s = R \<union> (\<Union>s \<in> ran (m(k \<mapsto> s)). file_sectors d s)" using k A by auto
  ultimately show ?thesis using ok s A by (auto simp: files_ok_def)
qed

lemma files_ok_remove:
  assumes ok: "files_ok m d R A" and k: "m k = Some s"
  shows "files_ok (m(k := None)) d R (A - file_sectors d s)"
proof -
  have A: "A = R \<union> (\<Union>s \<in> ran m. file_sectors d s)" using ok by (simp add: files_ok_def)
  have apart: "file_sectors d s \<inter> R = {}" "\<And>t. t \<in> ran (m(k := None)) \<Longrightarrow> file_sectors d t \<inter> file_sectors d s = {}"
    using ok k by (fastforce simp: files_ok_def ran_def split: if_splits)+
  have "ran m = insert s (ran (m(k := None)))" using k by (auto simp: ran_def) (metis option.inject)
  then have "A = R \<union> file_sectors d s \<union> (\<Union>s \<in> ran (m(k := None)). file_sectors d s)" unfolding A by simp blast
  moreover have "file_sectors d s \<inter> (\<Union>s \<in> ran (m(k := None)). file_sectors d s) = {}" using apart(2) by fast
  ultimately have "A - file_sectors d s = R \<union> (\<Union>s \<in> ran (m(k := None)). file_sectors d s)"
    using apart(1) by (metis Diff_cancel Diff_triv Un_Diff Un_empty_right inf_commute)
  then show ?thesis using ok by (auto simp: files_ok_def)
qed

section \<open>Reading and writing the map and the directory\<close>

lemma blank_map_ok: "free_map_ok blank_map"
  by (simp add: free_map_ok_def bm_wf_def blank_map_def NumSectors_def SectorsPerTrack_def NumTracks_def divRoundUp_def BitsInWord_def)

lemma blank_table_ok: "table_ok blank_table"
  by (simp add: table_ok_def blank_table_def entry_ok_def int_range_def)

lemma fs_okI:
  assumes "sys_ok fs d" "free_map_ok bm" "fcontent (map_hdr fs) d = map_bytes bm" "dir_ok dir" "fcontent (dir_hdr fs) d = table_bytes dir"
    "files_ok (dir_map dir) d (reserved fs) (allocated bm)"
  shows "fs_ok fs d" "free_map fs d = bm" "root_dir fs d = dir"
proof -
  show m: "free_map fs d = bm"
    by (simp add: free_map_def assms(3) stored_map.rebuild_bytes [OF blank_map_ok assms(2)])
  have "table_ok dir" using assms(4) by (simp add: dir_ok_def)
  then show r: "root_dir fs d = dir"
    by (simp add: root_dir_def assms(5) stored_table.rebuild_bytes [OF blank_table_ok])
  show "fs_ok fs d" using assms by (simp add: fs_ok_def m r)
qed

lemma fetch_directory_ok:
  assumes "fs_ok fs d" "uninit_ok u"
  shows "fetch_directory u fs d = Inr (root_dir fs d)"
proof -
  let ?dir = "Directory_new (un_table u) NumDirEntries"
  have "entry_ok ((un_table u i)\<lparr>inUse := False\<rparr>)" for i
    using assms(2) by (simp add: uninit_ok_def entry_ok_def)
  then have new: "table_ok ?dir" by (auto simp: table_ok_def Directory_new_def)
  have "int (tableSize ?dir * sizeof_DirectoryEntry) = int 200"
    by (simp add: Directory_new_def NumDirEntries_def sizeof_DirectoryEntry_def)
  with stored_table.fetch [OF _ _ new, of "directoryFile fs" "root_dir fs d" d] assms(1) show ?thesis
    by (simp add: fetch_directory_def Directory_FetchFrom_def fs_ok_def sys_ok_def dir_ok_def)
qed

lemma fetch_free_map_ok:
  assumes "fs_ok fs d"
  shows "fetch_free_map u fs d = Inr (free_map fs d)"
proof -
  from BitMap_new_clear [of "un_words u" NumSectors] obtain bm where
    bm: "BitMap_new (un_words u) NumSectors = Inr bm" "free_map_ok bm" by (auto simp: free_map_ok_def)
  have "int (numWords bm * 4) = int 128" using free_map_words [OF bm(2)] by simp
  with stored_map.fetch [OF _ _ bm(2), of "freeMapFile fs" "free_map fs d" d] assms show ?thesis
    by (simp add: fetch_free_map_def BitMap_FetchFrom_def bm(1) fs_ok_def sys_ok_def)
qed

lemma write_directory_ok:
  assumes "sys_ok fs d0" "table_ok dir"
  shows "\<exists>d'. Directory_WriteBack j (directoryFile fs) dir d = Inr d' \<and> fcontent (dir_hdr fs) d' = table_bytes dir \<and>
    (\<forall>s. s \<notin> set (data_sectors (dir_hdr fs)) \<longrightarrow> d' s = d s)"
proof -
  have "int (tableSize dir * sizeof_DirectoryEntry) = int 200"
    using assms(2) by (simp add: table_ok_def NumDirEntries_def sizeof_DirectoryEntry_def)
  with stored_table.store [OF _ _ assms(2), of "directoryFile fs" j d] assms(1) show ?thesis
    by (simp add: Directory_WriteBack_def sys_ok_def)
qed

lemma write_free_map_ok:
  assumes "sys_ok fs d0" "free_map_ok bm"
  shows "\<exists>d'. BitMap_WriteBack j (freeMapFile fs) bm d = Inr d' \<and> fcontent (map_hdr fs) d' = map_bytes bm \<and>
    (\<forall>s. s \<notin> set (data_sectors (map_hdr fs)) \<longrightarrow> d' s = d s)"
proof -
  have "int (numWords bm * 4) = int 128" using free_map_words [OF assms(2)] by simp
  with stored_map.store [OF _ _ assms(2), of "freeMapFile fs" j d] assms(1) show ?thesis
    by (simp add: BitMap_WriteBack_def sys_ok_def)
qed

end
