(* ===== verification/Fs_Refinement.thy ===== *)
theory Fs_Refinement
  imports Fs
begin

text \<open>
  The operations of the Nachos file system on the map from names to contents: each keeps the invariant of the disk and
  changes the one file it is about.
\<close>

section \<open>Facts of the invariant\<close>

lemma FetchFrom_hdr_at: "0 \<le> s \<Longrightarrow> s < int NumSectors \<Longrightarrow> FileHeader_FetchFrom s d = Inr (hdr_at d (nat s))"
  by (simp add: FileHeader_FetchFrom_def ReadSector_def hdr_at_def)

lemma fs_ok_parts:
  assumes "fs_ok fs d"
  shows "sys_ok fs d" "free_map_ok (free_map fs d)" "dir_ok (root_dir fs d)"
    "files_ok (dir_map (root_dir fs d)) d (reserved fs) (allocated (free_map fs d))"
    "bm_wf (free_map fs d)" "numBits (free_map fs d) = NumSectors"
  using assms by (simp_all add: fs_ok_def free_map_ok_def)

lemma files_ok_file:
  assumes "files_ok m d R A" "m k = Some s"
  shows "file_ok d s" "file_sectors d s \<inter> R = {}" "file_sectors d s \<subseteq> A" "nat s \<in> file_sectors d s"
proof -
  show "file_ok d s" "file_sectors d s \<inter> R = {}" using assms by (simp_all add: files_ok_def)
  have "A = R \<union> (\<Union>s \<in> ran m. file_sectors d s)" using assms(1) by (simp add: files_ok_def)
  with ranI [of m, OF assms(2)] show "file_sectors d s \<subseteq> A" by blast
qed (simp add: file_sectors_def)

text \<open>A file whose sectors keep their bytes keeps its contents.\<close>

lemma content_cong:
  assumes "file_ok d s" and same: "\<And>t. t \<in> file_sectors d s \<Longrightarrow> d' t = d t"
  shows "fcontent (hdr_at d' (nat s)) d' = fcontent (hdr_at d (nat s)) d"
proof -
  have "hdr_at d' (nat s) = hdr_at d (nat s)" using same by (intro hdr_at_cong) (simp add: file_sectors_def)
  moreover have "fcontent (hdr_at d (nat s)) d' = fcontent (hdr_at d (nat s)) d"
    using assms by (intro fcontent_cong) (simp_all add: file_ok_def file_sectors_def)
  ultimately show ?thesis by simp
qed

text \<open>
  Writing the directory and the free map back, in either order: both files hold their objects, and nothing else of the
  disk changes.
\<close>

definition committed :: "FileSystem \<Rightarrow> BitMap \<Rightarrow> Directory \<Rightarrow> disk \<Rightarrow> disk \<Rightarrow> bool" where
  "committed fs bm dir d d' \<longleftrightarrow> fcontent (map_hdr fs) d' = map_bytes bm \<and> fcontent (dir_hdr fs) d' = table_bytes dir \<and>
     (\<forall>t. t \<notin> set (data_sectors (map_hdr fs)) \<union> set (data_sectors (dir_hdr fs)) \<longrightarrow> d' t = d t)"

lemma commit_dir_map:
  assumes sys: "sys_ok fs d0" and ok: "free_map_ok bm" "table_ok dir"
  shows "\<exists>d1 d2. Directory_WriteBack i (directoryFile fs) dir d = Inr d1 \<and> BitMap_WriteBack j (freeMapFile fs) bm d1 = Inr d2 \<and>
    committed fs bm dir d d2"
proof -
  from write_directory_ok [OF sys ok(2), of i d] obtain d1 where d1: "Directory_WriteBack i (directoryFile fs) dir d = Inr d1"
    "fcontent (dir_hdr fs) d1 = table_bytes dir" "\<forall>s. s \<notin> set (data_sectors (dir_hdr fs)) \<longrightarrow> d1 s = d s" by blast
  from write_free_map_ok [OF sys ok(1), of j d1] obtain d2 where d2: "BitMap_WriteBack j (freeMapFile fs) bm d1 = Inr d2"
    "fcontent (map_hdr fs) d2 = map_bytes bm" "\<forall>s. s \<notin> set (data_sectors (map_hdr fs)) \<longrightarrow> d2 s = d1 s" by blast
  have "fcontent (dir_hdr fs) d2 = fcontent (dir_hdr fs) d1"
    using sys d2(3) by (intro fcontent_cong) (auto simp: sys_ok_def)
  with d1 d2 show ?thesis by (simp add: committed_def)
qed

lemma commit_map_dir:
  assumes sys: "sys_ok fs d0" and ok: "free_map_ok bm" "table_ok dir"
  shows "\<exists>d1 d2. BitMap_WriteBack i (freeMapFile fs) bm d = Inr d1 \<and> Directory_WriteBack j (directoryFile fs) dir d1 = Inr d2 \<and>
    committed fs bm dir d d2"
proof -
  from write_free_map_ok [OF sys ok(1), of i d] obtain d1 where d1: "BitMap_WriteBack i (freeMapFile fs) bm d = Inr d1"
    "fcontent (map_hdr fs) d1 = map_bytes bm" "\<forall>s. s \<notin> set (data_sectors (map_hdr fs)) \<longrightarrow> d1 s = d s" by blast
  from write_directory_ok [OF sys ok(2), of j d1] obtain d2 where d2: "Directory_WriteBack j (directoryFile fs) dir d1 = Inr d2"
    "fcontent (dir_hdr fs) d2 = table_bytes dir" "\<forall>s. s \<notin> set (data_sectors (dir_hdr fs)) \<longrightarrow> d2 s = d1 s" by blast
  have "fcontent (map_hdr fs) d2 = fcontent (map_hdr fs) d1"
    using sys d2(3) by (intro fcontent_cong) (auto simp: sys_ok_def)
  with d1 d2 show ?thesis by (simp add: committed_def)
qed

text \<open>What the commit gives: the invariant with the new map and directory, and the files that keep their sectors.\<close>

lemma committed_ok:
  assumes c: "committed fs bm dir d d'" and sys: "sys_ok fs d" and ok: "free_map_ok bm" "dir_ok dir"
    and files: "files_ok (dir_map dir) d (reserved fs) (allocated bm)"
  shows "fs_ok fs d'" "free_map fs d' = bm" "root_dir fs d' = dir"
    "fs_files fs d' k = map_option (\<lambda>s. fcontent (hdr_at d (nat s)) d) (dir_map dir k)"
proof -
  have same: "d' t = d t" if "t \<notin> set (data_sectors (map_hdr fs)) \<union> set (data_sectors (dir_hdr fs))" for t
    using c that by (simp add: committed_def)
  have sys': "sys_ok fs d'" using sys by (intro sys_ok_cong [OF sys] same) (auto simp: sys_ok_def)
  have keep: "d' t = d t" if "dir_map dir k = Some s" "t \<in> file_sectors d s" for k s t
    using files_ok_file(2) [OF files that(1)] that(2) by (intro same) (auto simp: reserved_def)
  have files': "files_ok (dir_map dir) d' (reserved fs) (allocated bm)"
    using files by (rule files_ok_cong) (auto simp: ran_def file_sectors_def intro: keep)
  from c have "fcontent (map_hdr fs) d' = map_bytes bm" "fcontent (dir_hdr fs) d' = table_bytes dir" by (simp_all add: committed_def)
  note I = fs_okI [OF sys' ok(1) this(1) ok(2) this(2) files']
  then show "fs_ok fs d'" "free_map fs d' = bm" "root_dir fs d' = dir" by simp_all
  have "fcontent (hdr_at d' (nat s)) d' = fcontent (hdr_at d (nat s)) d" if "dir_map dir k = Some s" for s
    using files_ok_file(1) [OF files that] keep [OF that] by (rule content_cong)
  then show "fs_files fs d' k = map_option (\<lambda>s. fcontent (hdr_at d (nat s)) d) (dir_map dir k)"
    unfolding fs_files_def I(3) by (cases "dir_map dir k") simp_all
qed

section \<open>Create\<close>

text \<open>A new header in a free sector: the files of the directory and the new one.\<close>

lemma new_header:
  assumes files: "files_ok m d R A" and s: "s < NumSectors" "s \<notin> A" and h: "header_ok h" "set (data_sectors h) \<inter> insert s A = {}"
    and d1: "FileHeader_FetchFrom (int s) d1 = Inr h" "\<And>j. j \<noteq> s \<Longrightarrow> d1 j = d j" and k: "m k = None"
  shows "files_ok (m(k \<mapsto> int s)) d1 R (insert s A \<union> set (data_sectors h))" "hdr_at d1 s = h"
    "m j = Some t \<Longrightarrow> fcontent (hdr_at d1 (nat t)) d1 = fcontent (hdr_at d (nat t)) d"
proof -
  show hd: "hdr_at d1 s = h" using FetchFrom_hdr_at [of "int s" d1] d1(1) s(1) by simp
  have keep: "d1 t = d t" if "t \<in> A" for t using that s(2) by (intro d1(2)) auto
  have "d1 (nat t) = d (nat t)" if "t \<in> ran m" for t
  proof -
    from that obtain a where "m a = Some t" by (auto simp: ran_def)
    from files_ok_file(3,4) [OF files this] show ?thesis by (intro keep) blast
  qed
  with files have f1: "files_ok m d1 R A" by (rule files_ok_cong)
  have new: "file_sectors d1 (int s) = insert s (set (data_sectors h))" by (simp add: file_sectors_def hd)
  have "file_ok d1 (int s)" using h s(1) by (auto simp: file_ok_def hd)
  moreover have "file_sectors d1 (int s) \<inter> A = {}" using h(2) s(2) by (auto simp: new)
  ultimately have "files_ok (m(k \<mapsto> int s)) d1 R (A \<union> file_sectors d1 (int s))" by (rule files_ok_insert [OF f1 k])
  then show "files_ok (m(k \<mapsto> int s)) d1 R (insert s A \<union> set (data_sectors h))" by (simp add: new)
  assume "m j = Some t"
  from files_ok_file(1,3) [OF files this] show "fcontent (hdr_at d1 (nat t)) d1 = fcontent (hdr_at d (nat t)) d"
    by (intro content_cong keep) blast+
qed

text \<open>The steps of \<open>Create\<close> before it allocates the data: the sector for the header and the entry of the directory.\<close>

lemma Create_allocates:
  assumes fs: "fs_ok fs d" and u: "uninit_ok u" and new: "dir_map (root_dir fs d) (name_key name) = None" "\<not> dir_full (root_dir fs d)"
    and room: "0 < free_sectors fs d"
  obtains s bm1 dir1 where "Find (free_map fs d) = Inr (int s, bm1)" "s < NumSectors" "s \<notin> allocated (free_map fs d)"
    "bm_wf bm1" "numBits bm1 = NumSectors" "allocated bm1 = insert s (allocated (free_map fs d))"
    "card (allocated bm1) = 1 + card (allocated (free_map fs d))"
    "Directory_Add (root_dir fs d) name (int s) = (True, dir1)" "dir_ok dir1"
    "dir_map dir1 = (dir_map (root_dir fs d))(name_key name \<mapsto> int s)" "Directory_Find (root_dir fs d) name = -1"
proof -
  note inv = fs_ok_parts [OF fs]
  let ?bm = "free_map fs d" and ?dir = "root_dir fs d"
  have "card (allocated ?bm) < numBits ?bm" using room inv(6) by (simp add: free_sectors_def)
  from bm.alloc_available [OF inv(5) this] obtain s bm1 where s: "Find ?bm = Inr (int s, bm1)" "s < NumSectors" "s \<notin> allocated ?bm"
    "bm_wf bm1" "numBits bm1 = NumSectors" "allocated bm1 = insert s (allocated ?bm)" using inv(6) by auto
  moreover have "card (allocated bm1) = 1 + card (allocated ?bm)" using s(3,6) bm.finite_used [OF inv(5)] by simp
  moreover have "int_range (int s)" using s(2) by (simp add: int_range_def NumSectors_def SectorsPerTrack_def NumTracks_def)
  from directory.add_new [OF inv(3) new of_nat_0_le_iff this] obtain dir1 where
    "Directory_Add ?dir name (int s) = (True, dir1)" "dir_ok dir1" "dir_map dir1 = (dir_map ?dir)(name_key name \<mapsto> int s)" by blast
  moreover have "Directory_Find ?dir name = -1" using directory.find_names [OF inv(3), of name] new(1) by simp
  ultimately show thesis by (rule that)
qed

lemma Create_succeeds:
  assumes fs: "fs_ok fs d" and u: "uninit_ok u" and size: "0 \<le> initialSize" "initialSize \<le> int MaxFileSize"
    and new: "dir_map (root_dir fs d) (name_key name) = None" "\<not> dir_full (root_dir fs d)"
    and room: "1 + divRoundUp (nat initialSize) SectorSize \<le> free_sectors fs d"
  shows "\<exists>d' c. FileSystem_Create u fs name initialSize d = Inr (True, d') \<and> fs_ok fs d' \<and>
    length c = nat initialSize \<and> fs_files fs d' = (fs_files fs d)(name_key name \<mapsto> c) \<and>
    free_sectors fs d' = free_sectors fs d - (1 + divRoundUp (nat initialSize) SectorSize)"
proof -
  note inv = fs_ok_parts [OF fs]
  let ?bm = "free_map fs d" and ?dir = "root_dir fs d" and ?k = "name_key name"
  let ?n = "divRoundUp (nat initialSize) SectorSize"
  have "0 < free_sectors fs d" using room by simp
  with fs u new obtain s bm1 dir1 where s: "Find ?bm = Inr (int s, bm1)" "s < NumSectors" "s \<notin> allocated ?bm"
    "bm_wf bm1" "numBits bm1 = NumSectors" "allocated bm1 = insert s (allocated ?bm)"
    and card: "card (allocated bm1) = 1 + card (allocated ?bm)"
    and dir1: "Directory_Add ?dir name (int s) = (True, dir1)" "dir_ok dir1" "dir_map dir1 = (dir_map ?dir)(?k \<mapsto> int s)"
    and miss: "Directory_Find ?dir name = -1" by (rule Create_allocates)
  have "length (dataSectors (un_header u 0)) = NumDirect" "\<forall>k \<in> set (dataSectors (un_header u 0)). int_range k"
    using u by (simp_all add: uninit_ok_def)
  moreover have "card (allocated bm1) + ?n \<le> NumSectors" using room card unfolding free_sectors_def by linarith
  ultimately obtain bm2 h where h: "FileHeader_Allocate bm1 initialSize (un_header u 0) = Inr (True, bm2, h)"
    "bm_wf bm2" "numBits bm2 = NumSectors" "header_ok h" "numBytes h = initialSize" "set (data_sectors h) \<inter> allocated bm1 = {}"
    "allocated bm2 = allocated bm1 \<union> set (data_sectors h)" "card (allocated bm2) = card (allocated bm1) + ?n"
    by (rule_tac Allocate_room [OF s(4,5) _ _ size])
  from header_roundtrip [OF h(4), of "int s" d] s(2) obtain d1 where
    d1: "FileHeader_WriteBack (int s) h d = Inr d1" "FileHeader_FetchFrom (int s) d1 = Inr h" "\<And>j. j \<noteq> s \<Longrightarrow> d1 j = d j" by auto
  have sys1: "sys_ok fs d1"
    using inv(4) s(3) by (intro sys_ok_cong [OF inv(1)] d1(3)) (auto simp: files_ok_def reserved_def)
  note nh = new_header [OF inv(4) s(2,3) h(4) _ d1(2,3) new(1)]
  have files1: "files_ok (dir_map dir1) d1 (reserved fs) (allocated bm2)"
    using nh(1) h(6,7) s(6) by (simp add: dir1(3))
  have ok: "free_map_ok bm2" "table_ok dir1" using h(2,3) dir1(2) by (simp_all add: free_map_ok_def dir_ok_def)
  from commit_dir_map [OF sys1 ok, of "un_buf u 0" d1 "un_buf u 1"] obtain d2 d3 where
    d3: "Directory_WriteBack (un_buf u 0) (directoryFile fs) dir1 d1 = Inr d2"
      "BitMap_WriteBack (un_buf u 1) (freeMapFile fs) bm2 d2 = Inr d3" "committed fs bm2 dir1 d1 d3" by blast
  note com = committed_ok [OF d3(3) sys1 ok(1) dir1(2) files1]
  have run: "FileSystem_Create u fs name initialSize d = Inr (True, d3)"
    by (simp add: miss FileSystem_Create_def fetch_directory_ok [OF fs u] fetch_free_map_ok [OF fs] s(1) dir1(1) h(1) d1(1) d3(1,2)
      del: One_nat_def)
  have "fs_files fs d3 = (fs_files fs d)(?k \<mapsto> fcontent h d1)"
  proof
    fix j show "fs_files fs d3 j = ((fs_files fs d)(?k \<mapsto> fcontent h d1)) j"
      unfolding com(4) using nh(2,3) h(6) s(6) by (cases "dir_map ?dir j") (auto simp: dir1(3) fs_files_def [of fs d])
  qed
  moreover have "free_sectors fs d3 = free_sectors fs d - (1 + ?n)"
    using h(8) card by (simp add: free_sectors_def com(2))
  ultimately show ?thesis using run com(1) h(5) by (intro exI [of _ d3] exI [of _ "fcontent h d1"]) simp
qed

text \<open>Each reason to refuse a file leaves the disk as it was.\<close>

lemma Create_refuses:
  assumes fs: "fs_ok fs d" and u: "uninit_ok u" and size: "0 \<le> initialSize" "initialSize \<le> int MaxFileSize"
    and no: "dir_map (root_dir fs d) (name_key name) \<noteq> None \<or> dir_full (root_dir fs d) \<or>
      free_sectors fs d < 1 + divRoundUp (nat initialSize) SectorSize"
  shows "FileSystem_Create u fs name initialSize d = Inr (False, d)"
proof (cases "dir_map (root_dir fs d) (name_key name) = None")
  case False
  then show ?thesis using directory.find_iff [OF fs_ok_parts(3) [OF fs], of name]
    by (simp add: FileSystem_Create_def fetch_directory_ok [OF fs u])
next
  case True
  note inv = fs_ok_parts [OF fs]
  let ?bm = "free_map fs d" and ?dir = "root_dir fs d"
  have miss: "Directory_Find ?dir name = -1" using directory.find_names [OF inv(3), of name] True by simp
  note run = FileSystem_Create_def fetch_directory_ok [OF fs u] fetch_free_map_ok [OF fs] miss
  from inv(5) show ?thesis
  proof (rule bm.alloc_cases)
    assume "Find ?bm = Inr (-1, ?bm)"
    then show ?thesis by (simp add: run)
  next
    fix s bm1
    assume s: "Find ?bm = Inr (int s, bm1)" "s < numBits ?bm" "s \<notin> allocated ?bm" "bm_wf bm1" "numBits bm1 = numBits ?bm"
      "allocated bm1 = insert s (allocated ?bm)"
    show ?thesis
    proof (cases "dir_full ?dir")
      case True
      then show ?thesis using directory.add_taken [OF inv(3), of name "int s"] s(1) by (simp add: run)
    next
      case False
      have "int_range (int s)" using s(2) inv(6) by (simp add: int_range_def NumSectors_def SectorsPerTrack_def NumTracks_def)
      from directory.add_new [OF inv(3) True False of_nat_0_le_iff this] obtain dir1 where
        dir1: "Directory_Add ?dir name (int s) = (True, dir1)" by blast
      have "card (allocated bm1) = Suc (card (allocated ?bm))" using s(3,6) bm.finite_used [OF inv(5)] by simp
      moreover have "card (allocated bm1) \<le> NumSectors"
        using card_mono [OF _ bm.used_below [OF s(4)]] s(5) inv(6) by simp
      moreover have "free_sectors fs d < 1 + divRoundUp (nat initialSize) SectorSize" using no True False by blast
      ultimately have "NumSectors - card (allocated bm1) < divRoundUp (nat initialSize) SectorSize"
        unfolding free_sectors_def by linarith
      then obtain h where "FileHeader_Allocate bm1 initialSize (un_header u 0) = Inr (False, bm1, h)"
        using Allocate_ok [OF s(4) _ _ _ size, of "un_header u 0"] s(5) inv(6) u by (auto simp: uninit_ok_def)
      then show ?thesis by (simp add: run s(1) dir1)
    qed
  qed
qed

section \<open>Open and Remove\<close>

lemma fs_files_Some:
  assumes "fs_ok fs d" "fs_files fs d k = Some c"
  obtains s where "dir_map (root_dir fs d) k = Some s" "file_ok d s" "c = fcontent (hdr_at d (nat s)) d"
  using assms files_ok_file(1) [OF fs_ok_parts(4) [OF assms(1)]] by (auto simp: fs_files_def)

lemma fs_files_None: "fs_files fs d k = None \<longleftrightarrow> dir_map (root_dir fs d) k = None"
  by (simp add: fs_files_def)

lemma Open_ok:
  assumes fs: "fs_ok fs d" and u: "uninit_ok u"
  shows "FileSystem_Open u fs name d = Inr (map_option (\<lambda>s. \<lparr>fs_hdr = hdr_at d (nat s), seekPosition = 0\<rparr>)
    (dir_map (root_dir fs d) (name_key name)))"
proof (cases "dir_map (root_dir fs d) (name_key name)")
  case (Some s)
  have "file_ok d s" by (rule files_ok_file(1) [OF fs_ok_parts(4) [OF fs] Some])
  then have "OpenFile_new s d = Inr \<lparr>fs_hdr = hdr_at d (nat s), seekPosition = 0\<rparr>" "0 \<le> s"
    by (simp_all add: OpenFile_new_def FetchFrom_hdr_at file_ok_def)
  then show ?thesis
    by (simp add: FileSystem_Open_def fetch_directory_ok [OF fs u] directory.find_Some [OF fs_ok_parts(3) [OF fs] Some] Some)
qed (simp add: FileSystem_Open_def fetch_directory_ok [OF fs u] Find_map [OF fs_ok_parts(3) [OF fs]])

lemma Remove_file_ok:
  assumes fs: "fs_ok fs d" and u: "uninit_ok u" and k: "dir_map (root_dir fs d) (name_key name) = Some s"
  shows "\<exists>d'. FileSystem_Remove u fs name d = Inr (True, d') \<and> fs_ok fs d' \<and>
    fs_files fs d' = (fs_files fs d)(name_key name := None) \<and>
    free_sectors fs d' = free_sectors fs d + (1 + divRoundUp (length (fcontent (hdr_at d (nat s)) d)) SectorSize)"
proof -
  note inv = fs_ok_parts [OF fs]
  let ?bm = "free_map fs d" and ?dir = "root_dir fs d" and ?h = "hdr_at d (nat s)"
  note f = files_ok_file [OF inv(4) k]
  have s: "0 \<le> s" "s < int NumSectors" "header_ok ?h" "nat s \<notin> set (data_sectors ?h)" using f(1) by (simp_all add: file_ok_def)
  have "set (data_sectors ?h) \<subseteq> allocated ?bm" using f(3) by (simp add: file_sectors_def)
  from Deallocate_ok [OF inv(5,6) s(3) this] obtain bm1 where bm1: "FileHeader_Deallocate ?bm ?h = Inr bm1" "bm_wf bm1"
    "numBits bm1 = NumSectors" "allocated bm1 = allocated ?bm - set (data_sectors ?h)" by blast
  have "nat s < numBits bm1" using s(1,2) bm1(3) by simp
  from Clear_spec [OF bm1(2) this] s(1) obtain bm2 where bm2: "Clear bm1 s = Inr bm2" "bm_wf bm2" "numBits bm2 = NumSectors"
    "allocated bm2 = allocated bm1 - {nat s}" using bm1(3) by auto
  have alloc: "allocated bm2 = allocated ?bm - file_sectors d s" using bm1(4) bm2(4) by (auto simp: file_sectors_def)
  from directory.remove_there [OF inv(3), of name] k obtain dir1 where
    dir1: "Directory_Remove ?dir name = (True, dir1)" "dir_ok dir1" "dir_map dir1 = (dir_map ?dir)(name_key name := None)" by auto
  have files1: "files_ok (dir_map dir1) d (reserved fs) (allocated bm2)"
    unfolding dir1(3) alloc by (rule files_ok_remove [OF inv(4) k])
  have ok: "free_map_ok bm2" "table_ok dir1" using bm2(2,3) dir1(2) by (simp_all add: free_map_ok_def dir_ok_def)
  from commit_map_dir [OF inv(1) ok, of "un_buf u 0" d "un_buf u 1"] obtain d1 d2 where
    d2: "BitMap_WriteBack (un_buf u 0) (freeMapFile fs) bm2 d = Inr d1"
      "Directory_WriteBack (un_buf u 1) (directoryFile fs) dir1 d1 = Inr d2" "committed fs bm2 dir1 d d2" by blast
  note com = committed_ok [OF d2(3) inv(1) ok(1) dir1(2) files1]
  have run: "FileSystem_Remove u fs name d = Inr (True, d2)"
    using s(1,2) by (simp add: FileSystem_Remove_def fetch_directory_ok [OF fs u] fetch_free_map_ok [OF fs]
      directory.find_Some [OF inv(3) k] FetchFrom_hdr_at bm1(1) bm2(1) dir1(1) d2(1,2) del: One_nat_def)
  have "fs_files fs d2 = (fs_files fs d)(name_key name := None)"
  proof
    fix j show "fs_files fs d2 j = ((fs_files fs d)(name_key name := None)) j"
      unfolding com(4) by (simp add: dir1(3) fs_files_def)
  qed
  moreover have "free_sectors fs d2 = free_sectors fs d + (1 + divRoundUp (length (fcontent ?h d)) SectorSize)"
  proof -
    have "card (set (data_sectors ?h)) = divRoundUp (nat (numBytes ?h)) SectorSize"
      using s(3) header_ok_sectors [OF s(3)] by (simp add: distinct_card header_ok_def)
    then have "card (file_sectors d s) = 1 + divRoundUp (nat (numBytes ?h)) SectorSize"
      using s(4) by (simp add: file_sectors_def)
    moreover have "card (allocated bm2) = card (allocated ?bm) - card (file_sectors d s)" "card (file_sectors d s) \<le> card (allocated ?bm)"
      using f(3) bm.finite_used [OF inv(5)] by (simp_all add: alloc card_Diff_subset finite_subset card_mono)
    moreover have "card (allocated ?bm) \<le> NumSectors"
      using card_mono [OF _ bm.used_below [OF inv(5)]] inv(6) by simp
    ultimately show ?thesis unfolding free_sectors_def com(2) length_fcontent by linarith
  qed
  ultimately show ?thesis using run com(1) by blast
qed

section \<open>Reading and writing an open file\<close>

lemma Write_ok:
  assumes fs: "fs_ok fs d" and k: "dir_map (root_dir fs d) k = Some s" and f: "fs_hdr f = hdr_at d (nat s)"
    and n: "p + n < 2 ^ 32" "n \<le> length from"
  shows "\<exists>d'. OpenFile_WriteAt junk f from (int n) (int p) d = Inr (int (in_request (fs_hdr f) n p), d') \<and> fs_ok fs d' \<and>
    hdr_at d' (nat s) = fs_hdr f \<and> root_dir fs d' = root_dir fs d \<and>
    fs_files fs d' = (fs_files fs d)(k \<mapsto> overwrite (fcontent (fs_hdr f) d) p (take n from))"
proof -
  note inv = fs_ok_parts [OF fs]
  let ?h = "hdr_at d (nat s)" and ?m = "dir_map (root_dir fs d)"
  note fk = files_ok_file [OF inv(4) k]
  have h: "header_ok ?h" "nat s \<notin> set (data_sectors ?h)" using fk(1) by (simp_all add: file_ok_def)
  from WriteAt_ok [of f p n "from" junk d] n h(1) f obtain d' where
    d': "OpenFile_WriteAt junk f from (int n) (int p) d = Inr (int (in_request ?h n p), d')"
      "fcontent ?h d' = overwrite (fcontent ?h d) p (take n from)" "\<And>t. t \<notin> set (data_sectors ?h) \<Longrightarrow> d' t = d t" by auto
  have res: "d' t = d t" if "t \<in> reserved fs" for t using that fk(2) by (intro d'(3)) (auto simp: file_sectors_def)
  have other: "d' t = d t" if "?m j = Some r" "j \<noteq> k" "t \<in> file_sectors d r" for j r t
  proof -
    have "file_sectors d r \<inter> file_sectors d s = {}" using inv(4) that(1,2) k unfolding files_ok_def by blast
    with that(3) show ?thesis by (intro d'(3)) (auto simp: file_sectors_def)
  qed
  have sys': "sys_ok fs d'" by (intro sys_ok_cong [OF inv(1)] res) (simp_all add: reserved_def)
  have "header_ok (map_hdr fs)" "header_ok (dir_hdr fs)" using inv(1) by (simp_all add: sys_ok_def)
  then have sysc: "fcontent (map_hdr fs) d' = fcontent (map_hdr fs) d" "fcontent (dir_hdr fs) d' = fcontent (dir_hdr fs) d"
    by (auto intro!: fcontent_cong res simp: reserved_def)
  have "files_ok ?m d' (reserved fs) (allocated (free_map fs d))"
  proof (rule files_ok_cong [OF inv(4)])
    fix r assume "r \<in> ran ?m"
    then obtain j where "?m j = Some r" by (auto simp: ran_def)
    with other [of j r "nat r"] d'(3) [OF h(2)] k show "d' (nat r) = d (nat r)" by (cases "j = k") (auto simp: file_sectors_def)
  qed
  with sys' sysc inv fs have "fs_ok fs d'" by (simp add: fs_ok_def free_map_def root_dir_def)
  moreover have hd: "hdr_at d' (nat s) = ?h" using d'(3) [OF h(2)] by (rule hdr_at_cong)
  moreover have root: "root_dir fs d' = root_dir fs d" by (simp add: root_dir_def sysc)
  moreover have "fs_files fs d' = (fs_files fs d)(k \<mapsto> overwrite (fcontent ?h d) p (take n from))"
  proof
    fix j
    have "fcontent (hdr_at d' (nat r)) d' = fcontent (hdr_at d (nat r)) d" if "?m j = Some r" "j \<noteq> k" for r
      using files_ok_file(1) [OF inv(4) that(1)] other [OF that] by (rule content_cong)
    then show "fs_files fs d' j = ((fs_files fs d)(k \<mapsto> overwrite (fcontent ?h d) p (take n from))) j"
      unfolding fs_files_def root using k hd d'(2) by (cases "?m j") auto
  qed
  ultimately show ?thesis using d'(1) f by auto
qed

section \<open>Formatting and booting\<close>

lemma open_system_ok: "fs_ok fs d \<Longrightarrow> open_system d = Inr fs"
  by (simp add: open_system_def OpenFile_new_def FreeMapSector_def DirectorySector_def FetchFrom_hdr_at fs_ok_def sys_ok_def
    NumSectors_def SectorsPerTrack_def NumTracks_def)

lemma Directory_new_ok:
  assumes "uninit_ok u"
  shows "dir_ok (Directory_new (un_table u) NumDirEntries)" "dir_map (Directory_new (un_table u) NumDirEntries) = Map.empty"
proof -
  have none: "filter inUse (dir_table (Directory_new (un_table u) n)) = []" for n
    by (auto simp: Directory_new_def filter_empty_conv)
  then show "dir_map (Directory_new (un_table u) NumDirEntries) = Map.empty" by (simp add: dir_map_def)
  have "entry_ok ((un_table u i)\<lparr>inUse := False\<rparr>)" for i
    using assms by (simp add: uninit_ok_def entry_ok_def)
  then show "dir_ok (Directory_new (un_table u) NumDirEntries)"
    using none by (auto simp: dir_ok_def table_ok_def Directory_new_def)
qed

text \<open>The two files of the system, allocated on a map with sectors 0 and 1 marked.\<close>

lemma system_headers:
  assumes bm: "bm_wf bm" "numBits bm = NumSectors" "allocated bm = {0, 1}" and u: "uninit_ok u"
  shows "\<exists>bm1 bm2 mh dh. FileHeader_Allocate bm (int FreeMapFileSize) (un_header u 0) = Inr (True, bm1, mh) \<and>
    FileHeader_Allocate bm1 (int DirectoryFileSize) (un_header u 1) = Inr (True, bm2, dh) \<and> free_map_ok bm2 \<and>
    header_ok mh \<and> numBytes mh = 128 \<and> header_ok dh \<and> numBytes dh = 200 \<and> card (allocated bm2) = 5 \<and>
    allocated bm2 = {0, 1} \<union> set (data_sectors mh) \<union> set (data_sectors dh) \<and>
    {0, 1} \<inter> (set (data_sectors mh) \<union> set (data_sectors dh)) = {} \<and> set (data_sectors mh) \<inter> set (data_sectors dh) = {}"
proof -
  have sizes: "FreeMapFileSize = 128" "DirectoryFileSize = 200" "MaxFileSize = 3840" "NumSectors = 1024"
    by (simp_all add: FreeMapFileSize_def DirectoryFileSize_def sizeof_DirectoryEntry_def NumDirEntries_def MaxFileSize_def
      NumDirect_def SectorSize_def NumSectors_def SectorsPerTrack_def NumTracks_def)
  have n: "divRoundUp 128 SectorSize = 1" "divRoundUp 200 SectorSize = 2" by (simp_all add: divRoundUp_def SectorSize_def)
  have junk: "length (dataSectors (un_header u i)) = NumDirect" "\<forall>k \<in> set (dataSectors (un_header u i)). int_range k" for i
    using u by (simp_all add: uninit_ok_def)
  obtain bm1 mh where
    m: "FileHeader_Allocate bm 128 (un_header u 0) = Inr (True, bm1, mh)" "bm_wf bm1" "numBits bm1 = NumSectors" "header_ok mh"
      "numBytes mh = 128" "set (data_sectors mh) \<inter> {0, 1} = {}" "allocated bm1 = {0, 1} \<union> set (data_sectors mh)"
      "card (allocated bm1) = 3"
    by (rule Allocate_room [OF bm(1,2) junk [of 0], of 128]) (simp_all add: bm(3) n sizes)
  obtain bm2 dh where
    d: "FileHeader_Allocate bm1 200 (un_header u 1) = Inr (True, bm2, dh)" "bm_wf bm2" "numBits bm2 = NumSectors" "header_ok dh"
      "numBytes dh = 200" "set (data_sectors dh) \<inter> allocated bm1 = {}" "allocated bm2 = allocated bm1 \<union> set (data_sectors dh)"
      "card (allocated bm2) = 5"
    by (rule Allocate_room [OF m(2,3) junk [of 1], of 200]) (simp_all add: m(8) n sizes)
  have "{0, 1} \<inter> (set (data_sectors mh) \<union> set (data_sectors dh)) = {}" "set (data_sectors mh) \<inter> set (data_sectors dh) = {}"
    using m(6,7) d(6) by blast+
  moreover have "allocated bm2 = {0, 1} \<union> set (data_sectors mh) \<union> set (data_sectors dh)" by (simp only: d(7) m(7))
  moreover have "free_map_ok bm2" using d(2,3) by (simp add: free_map_ok_def)
  moreover have "int FreeMapFileSize = 128" "int DirectoryFileSize = 200" by (simp_all add: sizes)
  ultimately show ?thesis using m(1,4,5) d(1,4,5,8) by (intro exI conjI) (assumption | simp only:)+
qed

lemma format_ok:
  assumes u: "uninit_ok u"
  shows "\<exists>fs d'. FileSystem_new u True d = Inr (fs, d') \<and> fs_ok fs d' \<and> fs_files fs d' = Map.empty \<and>
    free_sectors fs d' = NumSectors - 5 \<and> root_dir fs d' = Directory_new (un_table u) NumDirEntries"
proof -
  let ?dir = "Directory_new (un_table u) NumDirEntries"
  have N: "0 < NumSectors" "1 < NumSectors" by (simp_all add: NumSectors_def SectorsPerTrack_def NumTracks_def)
  from BitMap_new_clear [of "un_words u" NumSectors] obtain bm0 where
    bm0: "BitMap_new (un_words u) NumSectors = Inr bm0" "bm_wf bm0" "numBits bm0 = NumSectors" "allocated bm0 = {}" by blast
  from Mark_spec [OF bm0(2), of 0] N(1) bm0(3,4) obtain bm1 where
    bm1: "Mark bm0 0 = Inr bm1" "bm_wf bm1" "numBits bm1 = NumSectors" "allocated bm1 = {0}" by auto
  from Mark_spec [OF bm1(2), of 1] N(2) bm1(3,4) obtain bm2 where
    bm2: "Mark bm1 1 = Inr bm2" "bm_wf bm2" "numBits bm2 = NumSectors" "allocated bm2 = {0, 1}" by auto
  from system_headers [OF bm2(2-4) u] obtain bm3 bm4 mh dh where
    a: "FileHeader_Allocate bm2 (int FreeMapFileSize) (un_header u 0) = Inr (True, bm3, mh)"
      "FileHeader_Allocate bm3 (int DirectoryFileSize) (un_header u 1) = Inr (True, bm4, dh)" "free_map_ok bm4"
    and h: "header_ok mh" "numBytes mh = 128" "header_ok dh" "numBytes dh = 200"
    and al: "card (allocated bm4) = 5" "allocated bm4 = {0, 1} \<union> set (data_sectors mh) \<union> set (data_sectors dh)"
    and apart: "{0, 1} \<inter> (set (data_sectors mh) \<union> set (data_sectors dh)) = {}" "set (data_sectors mh) \<inter> set (data_sectors dh) = {}"
    by (elim exE conjE) (rule that, assumption+)
  from header_roundtrip [OF h(1), of 0 d] N(1) obtain d1 where
    d1: "FileHeader_WriteBack 0 mh d = Inr d1" "FileHeader_FetchFrom 0 d1 = Inr mh" by auto
  from header_roundtrip [OF h(3), of 1 d1] N(2) obtain d2 where
    d2: "FileHeader_WriteBack 1 dh d1 = Inr d2" "FileHeader_FetchFrom 1 d2 = Inr dh" "d2 0 = d1 0" by auto
  have hd: "hdr_at d2 0 = mh" "hdr_at d2 1 = dh"
    using FetchFrom_hdr_at [of 0 d1] FetchFrom_hdr_at [of 1 d2] d1(2) d2(2) N hdr_at_cong [of d2 0 d1] d2(3) by simp_all
  let ?fs = "\<lparr>freeMapFile = \<lparr>fs_hdr = mh, seekPosition = 0\<rparr>, directoryFile = \<lparr>fs_hdr = dh, seekPosition = 0\<rparr>\<rparr>"
  have opened: "open_system d2 = Inr ?fs"
    using N FetchFrom_hdr_at [of 0 d2] d2(2) hd by (simp add: open_system_def OpenFile_new_def FreeMapSector_def DirectorySector_def)
  have sys: "sys_ok ?fs d2" using h hd apart by (simp add: sys_ok_def)
  note dir = Directory_new_ok [OF u]
  have "table_ok ?dir" using dir(1) by (simp add: dir_ok_def)
  from commit_map_dir [OF sys a(3) this, of "un_buf u 0" d2 "un_buf u 1"] obtain d3 d4 where
    d4: "BitMap_WriteBack (un_buf u 0) (freeMapFile ?fs) bm4 d2 = Inr d3"
      "Directory_WriteBack (un_buf u 1) (directoryFile ?fs) ?dir d3 = Inr d4" "committed ?fs bm4 ?dir d2 d4" by blast
  have "files_ok (dir_map ?dir) d2 (reserved ?fs) (allocated bm4)" by (simp add: files_ok_def dir(2) reserved_def al(2))
  note com = committed_ok [OF d4(3) sys a(3) dir(1) this]
  have "FileSystem_new u True d = Inr (?fs, d4)"
    by (simp only: FileSystem_new_def FreeMapSector_def DirectorySector_def bm0(1) bm1(1) bm2(1) a(1,2) d1(1) d2(1) opened
      d4(1,2) if_True bind_res_Inr assert_res_True Let_def prod.case simp_thms)
  moreover have "fs_files ?fs d4 = Map.empty" unfolding fun_eq_iff com(4) by (simp add: dir(2))
  moreover have "free_sectors ?fs d4 = NumSectors - 5" by (simp add: free_sectors_def com(2) al(1))
  ultimately show ?thesis using com(1,3) by blast
qed

end
