(* ===== verification/Fs_Properties.thy ===== *)
theory Fs_Properties
  imports Fs_Refinement
begin

text \<open>
  The properties of the Nachos file system: formatting and booting, \<open>Create\<close>, \<open>Remove\<close>, \<open>Open\<close> with \<open>ReadAt\<close> and
  \<open>WriteAt\<close>, the position of \<open>Read\<close> and \<open>Write\<close>, and the missing check of \<open>Create\<close>.
\<close>

section \<open>An example\<close>

definition demo_uninit :: uninit where
  "demo_uninit = \<lparr>un_words = (\<lambda>_. 7),
     un_table = (\<lambda>_. \<lparr>inUse = True, de_pad = replicate 3 9, de_sector = 3, de_name = replicate 10 9, de_tail = replicate 2 9\<rparr>),
     un_header = (\<lambda>_. \<lparr>numBytes = 5, numSectors = 5, dataSectors = replicate NumDirect 5\<rparr>), un_buf = (\<lambda>_ _. 9)\<rparr>"

lemma demo_uninit_ok: "uninit_ok demo_uninit"
  by (simp add: uninit_ok_def demo_uninit_def entry_ok_def int_range_def)

lemma demo_space: "1 + divRoundUp (nat 300) SectorSize = 4" "NumSectors - 5 = 1019"
  by (simp_all add: divRoundUp_def SectorSize_def NumSectors_def SectorsPerTrack_def NumTracks_def)

lemma demo_root: "\<not> dir_full (Directory_new (un_table demo_uninit) NumDirEntries)"
  by (simp add: dir_full_def Directory_new_def NumDirEntries_def upt_rec)

lemma demo_file:
  "\<exists>fs d c. fs_ok fs d \<and> fs_files fs d = [name_key [1, 2] \<mapsto> c] \<and> length c = 300 \<and> free_sectors fs d = 1015"
proof -
  from format_ok [OF demo_uninit_ok, of "\<lambda>_ _. 0"] obtain fs d where
    fs: "fs_ok fs d" "fs_files fs d = Map.empty" "free_sectors fs d = NumSectors - 5"
      "root_dir fs d = Directory_new (un_table demo_uninit) NumDirEntries" by blast
  have "dir_map (root_dir fs d) (name_key [1, 2]) = None" using fs(2) by (simp flip: fs_files_None)
  moreover have "1 + divRoundUp (nat 300) SectorSize \<le> free_sectors fs d" unfolding fs(3) demo_space by simp
  moreover have "(300 :: int) \<le> int MaxFileSize" by (simp add: MaxFileSize_def NumDirect_def SectorSize_def)
  ultimately show ?thesis
    using Create_succeeds [OF fs(1) demo_uninit_ok, of 300 "[1, 2]"] demo_root fs(2-4) demo_space by force
qed

section \<open>Properties\<close>

text \<open>
  C25: Formatting never fails, whatever the disk and the heap held: it leaves an empty file system that satisfies the
  invariant, with 5 sectors in use, and a later boot without formatting finds the same free map and directory.
\<close>

theorem format_boots:
  assumes "uninit_ok u"
  shows "\<exists>fs d'. FileSystem_new u True d = Inr (fs, d') \<and> fs_ok fs d' \<and> fs_files fs d' = Map.empty \<and>
    free_sectors fs d' = 1019 \<and> FileSystem_new u' False d' = Inr (fs, d')"
proof -
  from format_ok [OF assms, of d] obtain fs d' where
    fs: "FileSystem_new u True d = Inr (fs, d')" "fs_ok fs d'" "fs_files fs d' = Map.empty" "free_sectors fs d' = NumSectors - 5" by blast
  moreover have "FileSystem_new u' False d' = Inr (fs, d')" by (simp add: FileSystem_new_def open_system_ok [OF fs(2)])
  ultimately show ?thesis using demo_space(2) by auto
qed

theorem format_boots_witness:
  "\<exists>fs d'. FileSystem_new demo_uninit True (\<lambda>_ _. 3) = Inr (fs, d') \<and> fs_files fs d' = Map.empty \<and>
    FileSystem_new demo_uninit False d' = Inr (fs, d')"
  using format_boots [OF demo_uninit_ok, of "\<lambda>_ _. 3" demo_uninit] by blast

text \<open>
  C26: for a requested length of at least 0 and at most \<open>MaxFileSize\<close>, \<open>Create\<close> refines the addition of a name to the map from names to
  contents. (Greater lengths overrun the table of the header; see the end of this theory.) It refuses a name already
  there (the first nine characters count), a full directory and a file the free sectors cannot hold with its header, and then leaves
  the disk untouched; otherwise the new file has the requested length, every other file keeps its contents, and the
  invariant of the disk is kept.
\<close>

theorem Create_refines:
  assumes "fs_ok fs d" "uninit_ok u" "0 \<le> initialSize" "initialSize \<le> int MaxFileSize"
  shows "if fs_files fs d (name_key name) \<noteq> None \<or> dir_full (root_dir fs d) \<or>
      free_sectors fs d < 1 + divRoundUp (nat initialSize) SectorSize
    then FileSystem_Create u fs name initialSize d = Inr (False, d)
    else \<exists>d' c. FileSystem_Create u fs name initialSize d = Inr (True, d') \<and> fs_ok fs d' \<and> length c = nat initialSize \<and>
      fs_files fs d' = (fs_files fs d)(name_key name \<mapsto> c) \<and>
      free_sectors fs d' = free_sectors fs d - (1 + divRoundUp (nat initialSize) SectorSize)"
proof (cases "dir_map (root_dir fs d) (name_key name) \<noteq> None \<or> dir_full (root_dir fs d) \<or>
    free_sectors fs d < 1 + divRoundUp (nat initialSize) SectorSize")
  case True
  with Create_refuses [OF assms True] show ?thesis by (simp add: fs_files_None)
next
  case False
  then have "dir_map (root_dir fs d) (name_key name) = None" "\<not> dir_full (root_dir fs d)"
    "1 + divRoundUp (nat initialSize) SectorSize \<le> free_sectors fs d" by auto
  from Create_succeeds [OF assms this] False show ?thesis by (simp only: fs_files_None if_False)
qed

theorem Create_refines_witness:
  "\<exists>fs d d' c. FileSystem_new demo_uninit True (\<lambda>_ _. 0) = Inr (fs, d) \<and>
    FileSystem_Create demo_uninit fs [1, 2] 300 d = Inr (True, d') \<and> length c = 300 \<and> fs_files fs d' = [name_key [1, 2] \<mapsto> c]"
proof -
  from format_ok [OF demo_uninit_ok, of "\<lambda>_ _. 0"] obtain fs d where
    fs: "FileSystem_new demo_uninit True (\<lambda>_ _. 0) = Inr (fs, d)" "fs_ok fs d" "fs_files fs d = Map.empty"
      "free_sectors fs d = NumSectors - 5" "root_dir fs d = Directory_new (un_table demo_uninit) NumDirEntries" by blast
  have "(300 :: int) \<le> int MaxFileSize" by (simp add: MaxFileSize_def NumDirect_def SectorSize_def)
  from Create_refines [OF fs(2) demo_uninit_ok _ this, of "[1, 2]"] obtain d' c where
    "FileSystem_Create demo_uninit fs [1, 2] 300 d = Inr (True, d')" "length c = 300" "fs_files fs d' = [name_key [1, 2] \<mapsto> c]"
    unfolding fs(3-5) demo_space using demo_root by auto
  with fs(1) show ?thesis by blast
qed

text \<open>
  C27: \<open>Remove\<close> refines the deletion of a name: it returns false and leaves the disk untouched when the name is not
  there; otherwise the name is gone, every other file keeps its contents, the sectors of the file and of its header are
  free again, and no assertion on the free map fails.
\<close>

theorem Remove_refines:
  assumes "fs_ok fs d" "uninit_ok u"
  shows "case fs_files fs d (name_key name) of
      None \<Rightarrow> FileSystem_Remove u fs name d = Inr (False, d)
    | Some c \<Rightarrow> \<exists>d'. FileSystem_Remove u fs name d = Inr (True, d') \<and> fs_ok fs d' \<and>
        fs_files fs d' = (fs_files fs d)(name_key name := None) \<and>
        free_sectors fs d' = free_sectors fs d + (1 + divRoundUp (length c) SectorSize)"
proof (cases "dir_map (root_dir fs d) (name_key name)")
  case None
  then have "Directory_Find (root_dir fs d) name = -1" using directory.find_names [OF fs_ok_parts(3) [OF assms(1)], of name] by simp
  with None show ?thesis by (simp add: fs_files_def FileSystem_Remove_def fetch_directory_ok [OF assms])
next
  case (Some s)
  from Remove_file_ok [OF assms Some] Some show ?thesis by (simp add: fs_files_def [of fs d "name_key name"])
qed

theorem Remove_refines_witness:
  "\<exists>fs d d'. fs_files fs d \<noteq> Map.empty \<and> FileSystem_Remove demo_uninit fs [1, 2] d = Inr (True, d') \<and> fs_files fs d' = Map.empty \<and>
    free_sectors fs d' = 1019"
proof -
  from demo_file obtain fs d c where
    fs: "fs_ok fs d" "fs_files fs d = [name_key [1, 2] \<mapsto> c]" "length c = 300" "free_sectors fs d = 1015" by blast
  have "divRoundUp 300 SectorSize = 3" by (simp add: divRoundUp_def SectorSize_def)
  with Remove_refines [OF fs(1) demo_uninit_ok, of "[1, 2]"] fs(2-4) obtain d' where
    "FileSystem_Remove demo_uninit fs [1, 2] d = Inr (True, d')" "fs_files fs d' = Map.empty" "free_sectors fs d' = 1019" by auto
  moreover have "fs_files fs d \<noteq> Map.empty" unfolding fs(2) by simp
  ultimately show ?thesis by blast
qed

text \<open>
  C28: A file opened by its name is the array of bytes the map gives for that name. \<open>Open\<close> returns a null pointer exactly
  for a name that is not there, and \<open>ReadAt\<close> returns the bytes from the position on, as many as were asked for and the
  file has, in the caller's buffer and none beyond it.
\<close>

theorem Open_ReadAt:
  assumes "fs_ok fs d" "uninit_ok u"
  shows "case fs_files fs d (name_key name) of
      None \<Rightarrow> FileSystem_Open u fs name d = Inr None
    | Some c \<Rightarrow> \<exists>f. FileSystem_Open u fs name d = Inr (Some f) \<and> seekPosition f = 0 \<and> OpenFile_Length f = int (length c) \<and>
        (\<forall>p n into. p + n < 2 ^ 32 \<longrightarrow> n \<le> length into \<longrightarrow>
          OpenFile_ReadAt f into (int n) (int p) d =
            Inr (int (min n (length c - p)), take n (drop p c) @ drop (min n (length c - p)) into))"
proof (cases "fs_files fs d (name_key name)")
  case None
  then show ?thesis using Open_ok [OF assms, of name] by (simp add: fs_files_def)
next
  case (Some c)
  from assms(1) Some obtain s where s: "dir_map (root_dir fs d) (name_key name) = Some s" "file_ok d s" "c = fcontent (hdr_at d (nat s)) d"
    by (rule fs_files_Some)
  let ?f = "\<lparr>fs_hdr = hdr_at d (nat s), seekPosition = 0\<rparr>"
  have h: "header_ok (fs_hdr ?f)" using s(2) by (simp add: file_ok_def)
  have "OpenFile_ReadAt ?f into (int n) (int p) d =
      Inr (int (min n (length c - p)), take n (drop p c) @ drop (min n (length c - p)) into)"
    if "p + n < 2 ^ 32" "n \<le> length into" for p n into
    using ReadAt_ok [OF h that(1), of into d] that(2) by (simp add: in_request_def s(3))
  moreover have "OpenFile_Length ?f = int (length c)" using h by (simp add: OpenFile_Length_def FileLength_def s(3) header_ok_def)
  moreover have "FileSystem_Open u fs name d = Inr (Some ?f)" using Open_ok [OF assms, of name] s(1) by simp
  ultimately show ?thesis unfolding Some option.case by (intro exI [of _ ?f]) simp
qed

theorem Open_ReadAt_witness:
  "\<exists>fs d c f. fs_files fs d (name_key [1, 2]) = Some c \<and> length c = 300 \<and> FileSystem_Open demo_uninit fs [1, 2] d = Inr (Some f) \<and>
    OpenFile_ReadAt f (replicate 200 7) 200 250 d = Inr (50, drop 250 c @ replicate 150 7)"
proof -
  from demo_file obtain fs d c where fs: "fs_ok fs d" "fs_files fs d = [name_key [1, 2] \<mapsto> c]" "length c = 300" by blast
  from Open_ReadAt [OF fs(1) demo_uninit_ok, of "[1, 2]"] fs(2) obtain f where
    f: "FileSystem_Open demo_uninit fs [1, 2] d = Inr (Some f)" and
    r: "\<forall>p n into. p + n < 2 ^ 32 \<longrightarrow> n \<le> length into \<longrightarrow> OpenFile_ReadAt f into (int n) (int p) d =
      Inr (int (min n (length c - p)), take n (drop p c) @ drop (min n (length c - p)) into)" by auto
  from r [rule_format, of 250 200 "replicate 200 7"] fs(3)
  have "OpenFile_ReadAt f (replicate 200 7) 200 250 d = Inr (50, drop 250 c @ replicate 150 7)" by simp
  moreover have "fs_files fs d (name_key [1, 2]) = Some c" unfolding fs(2) by simp
  ultimately show ?thesis using f fs(3) by blast
qed

text \<open>
  C29: \<open>WriteAt\<close> on a file opened by its name replaces the bytes of that file from the position on, as many as were given
  and the file has room for: the length stays, every other file keeps its contents, the invariant of the disk is kept,
  and the open file is still the file of that name.
\<close>

theorem Open_WriteAt:
  assumes "fs_ok fs d" "uninit_ok u" "FileSystem_Open u fs name d = Inr (Some f)" "p + n < 2 ^ 32" "n \<le> length from"
  shows "\<exists>c d'. fs_files fs d (name_key name) = Some c \<and>
    OpenFile_WriteAt junk f from (int n) (int p) d = Inr (int (min n (length c - p)), d') \<and> fs_ok fs d' \<and>
    fs_files fs d' = (fs_files fs d)(name_key name \<mapsto> overwrite c p (take n from)) \<and>
    FileSystem_Open u fs name d' = Inr (Some f)"
proof -
  from assms(3) Open_ok [OF assms(1,2), of name] obtain s where
    s: "dir_map (root_dir fs d) (name_key name) = Some s" "f = \<lparr>fs_hdr = hdr_at d (nat s), seekPosition = 0\<rparr>" by auto
  have hd: "fs_hdr f = hdr_at d (nat s)" by (simp add: s(2))
  from Write_ok [OF assms(1) s(1) hd assms(4,5), of junk] obtain d' where
    d': "OpenFile_WriteAt junk f from (int n) (int p) d = Inr (int (in_request (fs_hdr f) n p), d')" "fs_ok fs d'"
      "hdr_at d' (nat s) = fs_hdr f" "root_dir fs d' = root_dir fs d"
      "fs_files fs d' = (fs_files fs d)(name_key name \<mapsto> overwrite (fcontent (fs_hdr f) d) p (take n from))" by blast
  have "FileSystem_Open u fs name d' = Inr (Some f)"
    using Open_ok [OF d'(2) assms(2), of name] s by (simp add: d'(3,4) hd)
  moreover have "fs_files fs d (name_key name) = Some (fcontent (fs_hdr f) d)" by (simp add: fs_files_def s(1) hd)
  moreover have "in_request (fs_hdr f) n p = min n (length (fcontent (fs_hdr f) d) - p)" by (simp add: in_request_def)
  ultimately show ?thesis using d'(1,2,5) by (intro exI [of _ "fcontent (fs_hdr f) d"] exI [of _ d']) simp
qed

theorem Open_WriteAt_witness:
  "\<exists>fs d c f d'. FileSystem_Open demo_uninit fs [1, 2] d = Inr (Some f) \<and> length c = 300 \<and>
    OpenFile_WriteAt (\<lambda>_. 9) f [7, 8] 2 127 d = Inr (2, d') \<and>
    fs_files fs d' = [name_key [1, 2] \<mapsto> take 127 c @ [7, 8] @ drop 129 c]"
proof -
  from demo_file obtain fs d c where fs: "fs_ok fs d" "fs_files fs d = [name_key [1, 2] \<mapsto> c]" "length c = 300" by blast
  have "fs_files fs d (name_key [1, 2]) = Some c" unfolding fs(2) by simp
  with fs(1) obtain s where "dir_map (root_dir fs d) (name_key [1, 2]) = Some s" by (rule fs_files_Some)
  then obtain f where f: "FileSystem_Open demo_uninit fs [1, 2] d = Inr (Some f)"
    using Open_ok [OF fs(1) demo_uninit_ok, of "[1, 2]"] by simp
  from Open_WriteAt [OF fs(1) demo_uninit_ok f, of 127 2 "[7, 8]" "\<lambda>_. 9"] fs(2,3) obtain d' where
    "OpenFile_WriteAt (\<lambda>_. 9) f [7, 8] 2 127 d = Inr (2, d')"
    "fs_files fs d' = [name_key [1, 2] \<mapsto> take 127 c @ [7, 8] @ drop 129 c]" by (auto simp: overwrite_def)
  with f fs(3) show ?thesis by blast
qed

text \<open>
  \<open>Write\<close> moves the position by what it wrote; \<open>Seek\<close> back to where it began and \<open>Read\<close> return the bytes written and
  end at the same position, for every header in order and any buffer, as long as the bytes fit in the file.
\<close>

theorem Write_Seek_Read:
  assumes "header_ok (fs_hdr f)" "seekPosition f = int p" "p + length bs \<le> nat (numBytes (fs_hdr f))" "length bs \<le> length into"
  shows "\<exists>d1 f1. OpenFile_Write junk bs (int (length bs)) d f = Inr (int (length bs), d1, f1) \<and>
    seekPosition f1 = int (p + length bs) \<and>
    OpenFile_Read into (int (length bs)) d1 (OpenFile_Seek (int p) f1) = Inr (int (length bs), bs @ drop (length bs) into, f1)"
proof -
  let ?n = "length bs" and ?h = "fs_hdr f"
  have "nat (numBytes ?h) \<le> MaxFileSize" using assms(1) by (auto simp: header_ok_def)
  with assms(3) have lt: "p + ?n < 2 ^ 32" by (simp add: MaxFileSize_def NumDirect_def SectorSize_def)
  have req: "in_request ?h ?n p = ?n" using assms(3) by (simp add: in_request_def)
  from WriteAt_ok [OF assms(1) lt le_refl, of junk d] obtain d1 where
    w: "OpenFile_WriteAt junk f bs (int ?n) (int p) d = Inr (int ?n, d1)" "fcontent ?h d1 = overwrite (fcontent ?h d) p bs"
    by (auto simp: req)
  let ?f1 = "f\<lparr>seekPosition := int p + int ?n\<rparr>"
  have h1: "header_ok (fs_hdr (?f1\<lparr>seekPosition := int p\<rparr>))" using assms(1) by simp
  have "take ?n (drop p (overwrite (fcontent ?h d) p bs)) = bs" using assms(3) by (simp add: overwrite_def)
  with ReadAt_ok [OF h1 lt, of into d1] assms(4)
  have "OpenFile_ReadAt (?f1\<lparr>seekPosition := int p\<rparr>) into (int ?n) (int p) d1 = Inr (int ?n, bs @ drop ?n into)"
    by (simp add: req w(2))
  then have "OpenFile_Read into (int ?n) d1 (OpenFile_Seek (int p) ?f1) = Inr (int ?n, bs @ drop ?n into, ?f1)"
    by (simp add: OpenFile_Read_def OpenFile_Seek_def)
  moreover have "OpenFile_Write junk bs (int ?n) d f = Inr (int ?n, d1, ?f1)" by (simp add: OpenFile_Write_def assms(2) w(1))
  ultimately show ?thesis by (intro exI [of _ d1] exI [of _ ?f1]) simp
qed

definition demo_open :: FsOpenFile where
  "demo_open = \<lparr>fs_hdr = \<lparr>numBytes = 200, numSectors = 2, dataSectors = 40 # 30 # replicate 28 0\<rparr>, seekPosition = 127\<rparr>"

theorem Write_Seek_Read_witness:
  "\<exists>d1 f1. OpenFile_Write (\<lambda>_. 9) [7, 8] 2 (\<lambda>_ _. 0) demo_open = Inr (2, d1, f1) \<and> seekPosition f1 = 129 \<and>
    OpenFile_Read [0, 0, 0] 2 d1 (OpenFile_Seek 127 f1) = Inr (2, [7, 8, 0], f1)"
proof -
  have "header_ok (fs_hdr demo_open)"
    by (simp add: header_ok_def demo_open_def MaxFileSize_def NumDirect_def SectorSize_def divRoundUp_def int_range_def
      NumSectors_def SectorsPerTrack_def NumTracks_def data_sectors_def)
  from Write_Seek_Read [OF this, of 127 "[7, 8]" "[0, 0, 0]" "\<lambda>_. 9" "\<lambda>_ _. 0"] show ?thesis by (simp add: demo_open_def)
qed

text \<open>
  \<open>Create\<close> does not compare the size with \<open>MaxFileSize\<close>. With a new name, a free entry and enough free sectors for a
  file longer than the 30 sectors of a header, \<open>Allocate\<close> stores the number of the 31st sector past the end of the header.
\<close>

theorem Create_overruns:
  assumes fs: "fs_ok fs d" and u: "uninit_ok u" and size: "int MaxFileSize < initialSize"
    and new: "fs_files fs d (name_key name) = None" "\<not> dir_full (root_dir fs d)"
    and room: "1 + divRoundUp (nat initialSize) SectorSize \<le> free_sectors fs d"
  shows "FileSystem_Create u fs name initialSize d = Inl IndexOutOfBounds"
proof -
  note inv = fs_ok_parts [OF fs]
  let ?n = "divRoundUp (nat initialSize) SectorSize"
  have none: "dir_map (root_dir fs d) (name_key name) = None" using new(1) by (simp add: fs_files_None)
  have "0 < free_sectors fs d" using room by simp
  with fs u none new(2) obtain s bm1 dir1 where
    s: "Find (free_map fs d) = Inr (int s, bm1)" "bm_wf bm1" "numBits bm1 = NumSectors"
      "card (allocated bm1) = 1 + card (allocated (free_map fs d))"
    and dir1: "Directory_Add (root_dir fs d) name (int s) = (True, dir1)"
    and miss: "Directory_Find (root_dir fs d) name = -1" by (rule Create_allocates)
  have "NumDirect < ?n"
  proof -
    have "MaxFileSize < nat initialSize" using size by linarith
    then show ?thesis
      using divRoundUp_le_iff [of SectorSize "nat initialSize" NumDirect] by (simp add: MaxFileSize_def SectorSize_def)
  qed
  moreover have "?n + card (allocated bm1) \<le> NumSectors" using room s(4) unfolding free_sectors_def by linarith
  moreover have "length (dataSectors (un_header u 0)) = NumDirect" using u by (simp add: uninit_ok_def)
  ultimately have "FileHeader_Allocate bm1 initialSize (un_header u 0) = Inl IndexOutOfBounds"
    using size s(2,3) by (intro Allocate_overruns) simp_all
  then show ?thesis
    by (simp add: FileSystem_Create_def fetch_directory_ok [OF fs u] fetch_free_map_ok [OF fs] miss s(1) dir1)
qed

theorem Create_overruns_witness:
  "\<exists>fs d. FileSystem_new demo_uninit True (\<lambda>_ _. 0) = Inr (fs, d) \<and>
    FileSystem_Create demo_uninit fs [1, 2] 4000 d = Inl IndexOutOfBounds"
proof -
  from format_ok [OF demo_uninit_ok, of "\<lambda>_ _. 0"] obtain fs d where
    fs: "FileSystem_new demo_uninit True (\<lambda>_ _. 0) = Inr (fs, d)" "fs_ok fs d" "fs_files fs d = Map.empty"
      "free_sectors fs d = NumSectors - 5" "root_dir fs d = Directory_new (un_table demo_uninit) NumDirEntries" by blast
  have "int MaxFileSize < 4000" by (simp add: MaxFileSize_def NumDirect_def SectorSize_def)
  moreover have "1 + divRoundUp (nat 4000) SectorSize \<le> free_sectors fs d"
    unfolding fs(4) demo_space by (simp add: divRoundUp_def SectorSize_def)
  ultimately have "FileSystem_Create demo_uninit fs [1, 2] 4000 d = Inl IndexOutOfBounds"
    using demo_root fs(3,5) by (intro Create_overruns [OF fs(2) demo_uninit_ok]) simp_all
  with fs(1) show ?thesis by blast
qed

end
