(* ===== verification/Gdb_Packet.thy ===== *)
theory Gdb_Packet
  imports Nachos_Prelude
begin

text \<open>
  The lower layer of the remote debugger (\<open>debug/nachos-stub.cc\<close>): hexadecimal digits, the packets \<open>$data#checksum\<close> on the
  socket and their acknowledgement, and the checksum of memory blocks. The socket is the list of characters GDB
  sends and the list of those sent to it; reading past what GDB sends leaves the character uninitialised.
\<close>

section \<open>Characters and hexadecimal\<close>

definition BUFMAX :: nat where "BUFMAX = 2048"

definition ascii :: "char \<Rightarrow> byte" where
  "ascii c = of_char c"

definition hexchars :: "byte list" where
  "hexchars = map ascii ''0123456789abcdef''"

definition hexchar :: "byte \<Rightarrow> byte" where
  "hexchar d = hexchars ! unat d"

definition Hex :: "byte \<Rightarrow> int" where
  "Hex ch =
     (if ascii CHR ''a'' \<le> ch \<and> ch \<le> ascii CHR ''f'' then uint ch - uint (ascii CHR ''a'') + 10
      else if ascii CHR ''0'' \<le> ch \<and> ch \<le> ascii CHR ''9'' then uint ch - uint (ascii CHR ''0'')
      else if ascii CHR ''A'' \<le> ch \<and> ch \<le> ascii CHR ''F'' then uint ch - uint (ascii CHR ''A'') + 10
      else -1)"

text \<open>
  \<open>MemToHex\<close> gives the characters it stores before the terminating zero. \<open>HexToMem\<close> reads pairs of characters from an
  array, whatever they are; \<open>HexToInt\<close> reads digits up to the first character that is none and returns their
  number, by which the pointer advances.
\<close>

definition MemToHex :: "byte list \<Rightarrow> byte list" where
  "MemToHex mem = concat (map (\<lambda>ch. [hexchar (drop_bit 4 ch), hexchar (ch AND 15)]) mem)"

fun HexToMem :: "nat \<Rightarrow> byte list \<Rightarrow> byte list res" where
  "HexToMem 0 buf = Inr []"
| "HexToMem (Suc n) (a # b # buf) =
     bind_res (HexToMem n buf) (\<lambda>mem. Inr ((word_of_int (Hex a * 16) OR word_of_int (Hex b)) # mem))"
| "HexToMem (Suc n) buf = Inl IndexOutOfBounds"

fun HexToInt_loop :: "byte list \<Rightarrow> nat \<Rightarrow> uint32 \<Rightarrow> (nat \<times> uint32) res" where
  "HexToInt_loop [] numChars intValue = Inl IndexOutOfBounds"
| "HexToInt_loop (ch # ptr) numChars intValue =
     (if ch = 0 \<or> Hex ch < 0 then Inr (numChars, intValue)
      else HexToInt_loop ptr (numChars + 1) (push_bit 4 intValue OR word_of_int (Hex ch)))"

definition HexToInt :: "byte list \<Rightarrow> nat \<Rightarrow> (nat \<times> uint32) res" where
  "HexToInt buf ptr = HexToInt_loop (drop ptr buf) 0 0"

section \<open>Packets\<close>

text \<open>\<open>GetDebugChar () & 0x7f\<close> until the character that starts a packet.\<close>

fun wait_start :: "byte list \<Rightarrow> byte list res" where
  "wait_start [] = Inl Uninitialised"
| "wait_start (c # inp) = (if c AND 0x7f = ascii CHR ''$'' then Inr inp else wait_start inp)"

text \<open>
  The inner loop: a second start character begins the packet anew. When the buffer is full before the end of the packet, the
  terminating zero is stored past its end.
\<close>

fun read_packet :: "byte list \<Rightarrow> byte \<Rightarrow> nat \<Rightarrow> byte list \<Rightarrow> (byte \<times> nat \<times> byte list \<times> byte list) res" where
  "read_packet [] checksum count buf = Inl (if count \<ge> BUFMAX then IndexOutOfBounds else Uninitialised)"
| "read_packet (c # inp) checksum count buf =
     (let ch = c AND 0x7f in
      if count \<ge> BUFMAX then Inl IndexOutOfBounds
      else if ch = ascii CHR ''$'' then read_packet inp 0 0 buf
      else if ch = ascii CHR ''#'' then Inr (checksum, count, buf, inp)
      else read_packet inp (checksum + ch) (count + 1) (buf[count := ch]))"

definition sent_checksum :: "byte \<Rightarrow> byte \<Rightarrow> byte" where
  "sent_checksum a b = word_of_int (Hex (a AND 0x7f) * 16) + word_of_int (Hex (b AND 0x7f))"

lemma wait_start_shorter: "wait_start inp = Inr inp' \<Longrightarrow> length inp' < length inp"
  by (induction inp) (auto split: if_splits)

lemma read_packet_shorter: "read_packet inp checksum count buf = Inr (r, n, buf', inp') \<Longrightarrow> length inp' < length inp"
  by (induction inp checksum count buf rule: read_packet.induct) (auto simp: Let_def split: if_splits)

function GetPacket_loop :: "byte list \<Rightarrow> byte list \<Rightarrow> byte list \<Rightarrow> (byte list \<times> byte list \<times> byte list) res" where
  "GetPacket_loop inp out buf =
     (case wait_start inp of
        Inl e \<Rightarrow> Inl e
      | Inr inp1 \<Rightarrow>
        (case read_packet inp1 0 0 buf of
           Inl e \<Rightarrow> Inl e
         | Inr (checksum, count, buf1, inp2) \<Rightarrow>
           (case inp2 of
              a # b # inp3 \<Rightarrow>
                if checksum \<noteq> sent_checksum a b then GetPacket_loop inp3 (out @ [ascii CHR ''-'']) (buf1[count := 0])
                else Inr (inp3, out @ [ascii CHR ''+''], buf1[count := 0])
            | _ \<Rightarrow> Inl Uninitialised)))"
  by pat_completeness auto
termination
  by (relation "measure (\<lambda>(inp, _). length inp)") (auto dest!: wait_start_shorter read_packet_shorter)

declare GetPacket_loop.simps [simp del]

text \<open>\<open>PutPacket\<close> sends the packet until GDB acknowledges it.\<close>

definition frame_packet :: "byte list \<Rightarrow> byte list" where
  "frame_packet msg =
     ascii CHR ''$'' # msg @ [ascii CHR ''#'', hexchar (drop_bit 4 (sum_list msg)), hexchar (sum_list msg AND 15)]"

fun PutPacket_loop :: "byte list \<Rightarrow> byte list \<Rightarrow> byte list \<Rightarrow> (byte list \<times> byte list) res" where
  "PutPacket_loop msg [] out = Inl Uninitialised"
| "PutPacket_loop msg (c # inp) out =
     (if c AND 0x7f = ascii CHR ''+'' then Inr (inp, out @ frame_packet msg)
      else PutPacket_loop msg inp (out @ frame_packet msg))"

section \<open>The checksum of a block\<close>

text \<open>The table is filled in when it is first used.\<close>

definition crc_step :: "uint32 \<Rightarrow> uint32" where
  "crc_step c = (if c AND 0x80000000 \<noteq> 0 then push_bit 1 c XOR 0x04c11db7 else push_bit 1 c)"

definition crc32_table :: "uint32 list" where
  "crc32_table = map (\<lambda>i. (crc_step ^^ 8) (push_bit 24 (of_nat i))) [0..<256]"

definition CRC32 :: "byte list \<Rightarrow> uint32 \<Rightarrow> uint32" where
  "CRC32 buf crc =
     foldl (\<lambda>crc b. push_bit 8 crc XOR crc32_table ! unat ((drop_bit 24 crc XOR ucast b) AND 255)) crc buf"

section \<open>Lemmas\<close>

lemma nibble_all:
  assumes "list_all P (map word_of_nat [0..<16])" "unat (d :: byte) < 16"
  shows "P d"
proof -
  have "d = word_of_nat (unat d)" by simp
  with assms show ?thesis unfolding list_all_iff by (metis atLeastLessThan_iff image_eqI list.set_map set_upt zero_le)
qed

lemma and_15: "(x :: byte) AND 15 = take_bit 4 x"
  using take_bit_eq_mask [of 4 x] by (simp add: mask_eq_exp_minus_1)

lemma nibbles: "unat (drop_bit 4 (x :: byte)) < 16" "unat (x AND 15) < 16"
proof -
  have x: "unat x < 256" using unsigned_less [of x] by simp
  then have "unat (drop_bit 4 x) = unat x div 16"
    unfolding unsigned_drop_bit_eq by (simp add: drop_bit_eq_div take_bit_eq_mod)
  with x show "unat (drop_bit 4 x) < 16" by simp
  have "unat (x AND 15) = unat x mod 16" unfolding and_15 unsigned_take_bit_eq by (simp add: take_bit_eq_mod)
  then show "unat (x AND 15) < 16" by simp
qed

lemma Hex_hexchar: "unat d < 16 \<Longrightarrow> Hex (hexchar d) = uint d"
  by (rule nibble_all) code_simp

definition packet_char :: "byte \<Rightarrow> bool" where
  "packet_char c \<longleftrightarrow> c AND 0x7f = c \<and> c \<noteq> ascii CHR ''$'' \<and> c \<noteq> ascii CHR ''#'' \<and> c \<noteq> 0"

lemma packet_char_hexchar: "unat d < 16 \<Longrightarrow> packet_char (hexchar d)"
  by (rule nibble_all) code_simp

text \<open>Memory written in hexadecimal is read back.\<close>

lemma byte_nibbles: "(word_of_int (uint (drop_bit 4 (x :: byte)) * 16) :: byte) = push_bit 4 (drop_bit 4 x)"
  by (simp add: push_bit_eq_mult)

lemma nibbles_or: "push_bit 4 (drop_bit 4 (x :: byte)) OR (x AND 15) = x"
  unfolding and_15 by (rule bit_word_eqI) (auto simp: bit_push_bit_iff bit_drop_bit_eq bit_take_bit_iff bit_or_iff)

lemma nibbles_add: "push_bit 4 (drop_bit 4 (x :: byte)) + (x AND 15) = x"
proof -
  have "push_bit 4 (drop_bit 4 x) AND take_bit 4 x = 0"
    by (rule bit_word_eqI) (auto simp: bit_push_bit_iff bit_take_bit_iff bit_and_iff)
  then show ?thesis using nibbles_or [of x] unfolding and_15 by (simp only: disjunctive_add_eq_or)
qed

lemma MemToHex_inverse: "HexToMem (length mem) (MemToHex mem @ rest) = Inr mem"
proof (induction mem)
  case (Cons x mem)
  then show ?case
    by (simp add: MemToHex_def Hex_hexchar nibbles nibbles_or [unfolded push_bit_eq_mult, simplified])
qed (simp add: MemToHex_def)

lemma MemToHex_chars: "c \<in> set (MemToHex mem) \<Longrightarrow> packet_char c"
  by (auto simp: MemToHex_def packet_char_hexchar nibbles)

lemma length_MemToHex [simp]: "length (MemToHex mem) = 2 * length mem"
  by (induction mem) (simp_all add: MemToHex_def)

text \<open>A packet that is sent is received, whatever characters precede it.\<close>

lemma sent_checksum_hexchar: "sent_checksum (hexchar (drop_bit 4 x)) (hexchar (x AND 15)) = x"
  using packet_char_hexchar [OF nibbles(1) [of x]] packet_char_hexchar [OF nibbles(2) [of x]] nibbles_add [of x]
  by (simp add: sent_checksum_def packet_char_def Hex_hexchar nibbles push_bit_eq_mult)

lemma wait_start_skip: "\<forall>c \<in> set noise. c AND 0x7f \<noteq> ascii CHR ''$'' \<Longrightarrow> wait_start (noise @ inp) = wait_start inp"
  by (induction noise) simp_all

lemma start_chars: "ascii CHR ''$'' AND 0x7f = ascii CHR ''$''" "ascii CHR ''#'' AND 0x7f = ascii CHR ''#''"
  "ascii CHR ''#'' \<noteq> ascii CHR ''$''"
  by code_simp+

lemma read_packet_ok:
  assumes "\<forall>c \<in> set msg. packet_char c" "count + length msg < BUFMAX" "length buf = BUFMAX"
  shows "read_packet (msg @ ascii CHR ''#'' # rest) checksum count buf =
    Inr (checksum + sum_list msg, count + length msg, take count buf @ msg @ drop (count + length msg) buf, rest)"
  using assms
proof (induction msg arbitrary: checksum count buf)
  case Nil
  then show ?case by (simp add: start_chars)
next
  case (Cons c msg)
  then have "take (Suc count) (buf[count := c]) @ msg @ drop (Suc count + length msg) (buf[count := c]) =
      take count buf @ (c # msg) @ drop (count + length (c # msg)) buf"
    by (simp add: take_Suc_conv_app_nth)
  with Cons show ?case by (simp add: packet_char_def Let_def add.assoc)
qed

lemma GetPacket_frame:
  assumes "\<forall>c \<in> set noise. c AND 0x7f \<noteq> ascii CHR ''$''" "\<forall>c \<in> set msg. packet_char c" "length msg < BUFMAX" "length buf = BUFMAX"
  shows "GetPacket_loop (noise @ frame_packet msg @ rest) out buf =
    Inr (rest, out @ [ascii CHR ''+''], msg @ 0 # drop (Suc (length msg)) buf)"
proof -
  have "(msg @ drop (length msg) buf)[length msg := 0] = msg @ 0 # drop (Suc (length msg)) buf"
    using assms(3,4) by (simp add: list_update_append Cons_nth_drop_Suc [symmetric])
  moreover have "wait_start (noise @ frame_packet msg @ rest) =
      Inr (msg @ ascii CHR ''#'' # hexchar (drop_bit 4 (sum_list msg)) # hexchar (sum_list msg AND 15) # rest)"
    unfolding wait_start_skip [OF assms(1)] by (simp add: frame_packet_def start_chars)
  ultimately show ?thesis
    using read_packet_ok [OF assms(2) _ assms(4), of 0] assms(3)
    by (subst GetPacket_loop.simps) (simp add: sent_checksum_hexchar)
qed

section \<open>The checksum, bit by bit\<close>

definition crc_bitwise :: "byte list \<Rightarrow> uint32 \<Rightarrow> uint32" where
  "crc_bitwise buf crc = foldl (\<lambda>crc b. (crc_step ^^ 8) (crc XOR push_bit 24 (ucast b))) crc buf"

lemma top_bit: "(c :: uint32) AND 0x80000000 \<noteq> 0 \<longleftrightarrow> bit c 31"
  using bit_iff_and_push_bit_not_eq_0 [of c 31] by (simp add: push_bit_of_1)

lemma crc_step_alt: "crc_step c = push_bit 1 c XOR (if bit c 31 then 0x04c11db7 else 0)"
  by (simp add: crc_step_def top_bit)

lemma crc_step_xor: "crc_step (x XOR y) = crc_step x XOR crc_step y"
  by (simp add: crc_step_alt push_bit_xor bit_xor_iff xor.assoc xor.left_commute xor.commute)

lemma crc_steps_xor: "(crc_step ^^ n) (x XOR y) = (crc_step ^^ n) x XOR (crc_step ^^ n) y"
  by (induction n) (simp_all add: crc_step_xor)

lemma crc_steps_low: "(\<And>i. 32 - n \<le> i \<Longrightarrow> \<not> bit y i) \<Longrightarrow> (crc_step ^^ n) y = push_bit n y"
proof (induction n)
  case (Suc n)
  then have "(crc_step ^^ n) y = push_bit n y" by simp
  moreover have "\<not> bit (push_bit n y) 31" using Suc.prems [of "31 - n"] by (auto simp: bit_push_bit_iff)
  ultimately have "(crc_step ^^ Suc n) y = push_bit 1 (push_bit n y)"
    using crc_step_alt [of "push_bit n y"] by simp
  then show ?case by (simp only: push_bit_push_bit plus_1_eq_Suc)
qed simp

text \<open>One byte: the table holds the eight steps of the top byte, the other bits only move up.\<close>

lemma crc_byte:
  "push_bit 8 crc XOR crc32_table ! unat ((drop_bit 24 crc XOR ucast (b :: byte)) AND 255) =
    (crc_step ^^ 8) (crc XOR push_bit 24 (ucast b))"
proof -
  let ?i = "(drop_bit 24 crc XOR ucast b) AND 255 :: uint32"
  have i: "?i = take_bit 8 (drop_bit 24 crc XOR ucast b)"
    using take_bit_eq_mask [of 8 "drop_bit 24 crc XOR ucast b"] by (simp add: mask_eq_exp_minus_1)
  have "unat ?i < 256" unfolding i unsigned_take_bit_eq by (simp add: take_bit_eq_mod)
  then have "crc32_table ! unat ?i = (crc_step ^^ 8) (push_bit 24 ?i)" by (simp add: crc32_table_def)
  moreover have "crc XOR push_bit 24 (ucast b) = take_bit 24 crc XOR push_bit 24 ?i"
    unfolding i by (rule bit_word_eqI) (auto simp: bit_simps)
  moreover have "(crc_step ^^ 8) (take_bit 24 crc) = push_bit 8 (take_bit 24 crc)"
    by (rule crc_steps_low) (simp add: bit_take_bit_iff)
  moreover have "push_bit 8 (take_bit 24 crc) = push_bit 8 crc"
    by (rule bit_word_eqI) (auto simp: bit_simps)
  ultimately show ?thesis by (simp only: crc_steps_xor)
qed

end
