(* ===== verification/Gdb_Stub.thy ===== *)
theory Gdb_Stub
  imports Gdb_Packet Scheduler
begin

text \<open>
  The upper layer of the remote debugger (\<open>debug/nachos-stub.cc\<close>): saved registers, memory access, the report of an
  exception and the loop that serves the commands of GDB. The class, the variables of \<open>Handshake\<close> that live across
  commands, \<open>machine->singleStep\<close> and whether a debugger is attached are the record \<open>gdb\<close>. A command that makes
  another thread run (\<open>ForceYield\<close>) is cut there: its verdict is \<open>Switched\<close>.
\<close>

section \<open>State\<close>

definition NUMREGS :: nat where "NUMREGS = 38"
definition GDBBadVAddrReg :: nat where "GDBBadVAddrReg = 35"
definition GDBPCReg :: nat where "GDBPCReg = 37"
definition NumGPRegs :: nat where "NumGPRegs = 32"

record gdb =
  remcomInBuffer :: "byte list"
  remcomOutBuffer :: "byte list"
  gdb_registers :: "uint32 list"
  sock_in :: "byte list"
  sock_out :: "byte list"
  hs_value :: "uint32 list"
  cthread :: "nat option"
  gthread :: "nat option"
  singleStep :: bool
  attached :: bool

definition str :: "string \<Rightarrow> byte list" where
  "str = map ascii"

text \<open>A message for GDB; the buffer must also hold the terminating zero.\<close>

definition set_out :: "byte list \<Rightarrow> gdb \<Rightarrow> gdb res" where
  "set_out msg g = (if length msg < BUFMAX then Inr (g\<lparr>remcomOutBuffer := msg\<rparr>) else Inl IndexOutOfBounds)"

definition PutPacket :: "gdb \<Rightarrow> gdb res" where
  "PutPacket g =
     bind_res (PutPacket_loop (remcomOutBuffer g) (sock_in g) (sock_out g)) (\<lambda>(inp, out).
     Inr (g\<lparr>sock_in := inp, sock_out := out\<rparr>))"

definition GetPacket :: "gdb \<Rightarrow> gdb res" where
  "GetPacket g =
     bind_res (GetPacket_loop (sock_in g) (sock_out g) (remcomInBuffer g)) (\<lambda>(inp, out, buf).
     Inr (g\<lparr>sock_in := inp, sock_out := out, remcomInBuffer := buf\<rparr>))"

definition GDB_Initialize :: "gdb \<Rightarrow> gdb" where
  "GDB_Initialize g = g\<lparr>singleStep := True\<rparr>"

definition GDB_Exit :: "gdb \<Rightarrow> gdb res" where
  "GDB_Exit g = bind_res (set_out (str ''W00'') g) PutPacket"

section \<open>Registers\<close>

text \<open>The registers of the machine that the stub saves, and where.\<close>

definition reg_map :: "(nat \<times> nat) list" where
  "reg_map = map (\<lambda>i. (i, i)) [0..<NumGPRegs] @
     [(LoReg, LoReg), (HiReg, HiReg), (BadVAddrReg, GDBBadVAddrReg), (PCReg, GDBPCReg)]"

definition SaveRegisters :: "'a machine_scheme \<Rightarrow> uint32 list \<Rightarrow> uint32 list res" where
  "SaveRegisters s =
     fold_res (\<lambda>(reg, i) regs. bind_res (ReadRegister s (int reg)) (\<lambda>v.
       if i < length regs then Inr (regs[i := v]) else Inl IndexOutOfBounds)) reg_map"

definition RestoreRegisters :: "uint32 list \<Rightarrow> 'a machine_scheme \<Rightarrow> 'a machine_scheme res" where
  "RestoreRegisters regs =
     fold_res (\<lambda>(reg, i) s. bind_res (index_res regs i) (\<lambda>v. WriteRegister s (int reg) v)) reg_map"

section \<open>Memory\<close>

text \<open>Every access is tried twice, as in the system calls; the loop stops at the first word that fails.\<close>

definition ReadMem_twice ::
  "'a handler \<Rightarrow> uint32 \<Rightarrow> nat \<Rightarrow> uint32 \<Rightarrow> 'a machine_scheme \<Rightarrow> (bool \<times> uint32 \<times> 'a machine_scheme) res" where
  "ReadMem_twice handler addr sz old s =
     bind_res (ReadMem handler addr sz old s) (\<lambda>(ok, v, s1).
     if ok then Inr (True, v, s1) else ReadMem handler addr sz old s1)"

definition WriteMem_twice ::
  "'a handler \<Rightarrow> uint32 \<Rightarrow> nat \<Rightarrow> uint32 \<Rightarrow> 'a machine_scheme \<Rightarrow> (bool \<times> 'a machine_scheme) res" where
  "WriteMem_twice handler addr sz v s =
     bind_res (WriteMem handler addr sz v s) (\<lambda>(ok, s1). if ok then Inr (True, s1) else WriteMem handler addr sz v s1)"

text \<open>\<open>n\<close> words from index \<open>i\<close> on; the flag is \<open>success\<close> as the loop found it.\<close>

fun ReadMemory_words ::
  "nat \<Rightarrow> nat \<Rightarrow> bool \<Rightarrow> 'a handler \<Rightarrow> uint32 \<Rightarrow> uint32 list \<Rightarrow> 'a machine_scheme \<Rightarrow> (bool \<times> uint32 list \<times> 'a machine_scheme) res" where
  "ReadMemory_words 0 i success handler addr val s = Inr (success, val, s)"
| "ReadMemory_words (Suc n) i success handler addr val s =
     bind_res (index_res val i) (\<lambda>old.
     bind_res (ReadMem_twice handler addr 4 old s) (\<lambda>(ok, v, s1).
     if \<not> ok then Inr (False, val, s1)
     else ReadMemory_words n (i + 1) True handler (addr + 4) (val[i := v]) s1))"

definition ReadMemory ::
  "'a handler \<Rightarrow> uint32 \<Rightarrow> uint32 \<Rightarrow> uint32 list \<Rightarrow> 'a machine_scheme \<Rightarrow> (bool \<times> uint32 list \<times> 'a machine_scheme) res" where
  "ReadMemory handler addr len val s =
     (let num = nat (sint len sdiv 4); remainder = unat (len AND 3) in
      bind_res (ReadMemory_words num 0 False handler addr val s) (\<lambda>(success, val1, s1).
      if num > 0 \<and> \<not> success then Inr (False, val1, s1)
      else if remainder \<noteq> 0 then
        bind_res (index_res val1 num) (\<lambda>old.
        bind_res (ReadMem_twice handler (addr + 4 * of_nat num) remainder old s1) (\<lambda>(ok, v, s2).
        Inr (ok, if ok then val1[num := v] else val1, s2)))
      else Inr (success, val1, s1)))"

fun WriteMemory_words ::
  "nat \<Rightarrow> nat \<Rightarrow> bool \<Rightarrow> 'a handler \<Rightarrow> uint32 \<Rightarrow> uint32 list \<Rightarrow> 'a machine_scheme \<Rightarrow> (bool \<times> 'a machine_scheme) res" where
  "WriteMemory_words 0 i success handler addr val s = Inr (success, s)"
| "WriteMemory_words (Suc n) i success handler addr val s =
     bind_res (index_res val i) (\<lambda>v.
     bind_res (WriteMem_twice handler addr 4 v s) (\<lambda>(ok, s1).
     if \<not> ok then Inr (False, s1)
     else WriteMemory_words n (i + 1) True handler (addr + 4) val s1))"

definition WriteMemory ::
  "'a handler \<Rightarrow> uint32 \<Rightarrow> uint32 \<Rightarrow> uint32 list \<Rightarrow> 'a machine_scheme \<Rightarrow> (bool \<times> 'a machine_scheme) res" where
  "WriteMemory handler addr len val s =
     (let num = nat (sint len sdiv 4); remainder = unat (len AND 3) in
      bind_res (WriteMemory_words num 0 False handler addr val s) (\<lambda>(success, s1).
      if num > 0 \<and> \<not> success then Inr (False, s1)
      else if remainder \<noteq> 0 then
        bind_res (index_res val num) (\<lambda>v. WriteMem_twice handler (addr + 4 * of_nat num) remainder v s1)
      else Inr (success, s1)))"

section \<open>Signals\<close>

definition ComputeSignal :: "ExceptionType \<Rightarrow> byte" where
  "ComputeSignal exception =
     (case exception of
        NoException \<Rightarrow> 0 | SyscallException \<Rightarrow> 7 | PageFaultException \<Rightarrow> 11 | ReadOnlyException \<Rightarrow> 7 | BusErrorException \<Rightarrow> 7
      | AddressErrorException \<Rightarrow> 11 | OverflowException \<Rightarrow> 8 | IllegalInstrException \<Rightarrow> 4 | BreakpointException \<Rightarrow> 5
      | OutOfMemory \<Rightarrow> 16 | _ \<Rightarrow> 1)"

definition ComputeException :: "uint32 \<Rightarrow> ExceptionType" where
  "ComputeException sig =
     (if sig = 4 then IllegalInstrException else if sig = 5 then BreakpointException else if sig = 7 then BusErrorException
      else if sig = 8 then OverflowException else if sig = 11 then AddressErrorException else if sig = 16 then OutOfMemory
      else NoException)"

section \<open>Threads\<close>

text \<open>The nodes of \<open>allThreads\<close> from a node on, with the fuel of the loops of the scheduler.\<close>

fun thread_nodes :: "nat \<Rightarrow> nachos_thread List \<Rightarrow> nat option \<Rightarrow> (nat \<times> nachos_thread) list res" where
  "thread_nodes 0 l p = Inl Diverges"
| "thread_nodes (Suc fuel) l p =
     (case p of
        None \<Rightarrow> Inr []
      | Some a \<Rightarrow> bind_res (cell l p) (\<lambda>c.
          bind_res (thread_nodes fuel l (le_next c)) (\<lambda>ns. Inr ((a, le_item c) # ns))))"

definition all_nodes :: "'h system \<Rightarrow> (nat \<times> nachos_thread) list res" where
  "all_nodes s = (let l = allThreads s in thread_nodes (Suc (brk l)) l (lfirst l))"

definition find_ID :: "uint32 \<Rightarrow> 'h system \<Rightarrow> nat option res" where
  "find_ID addr s =
     bind_res (all_nodes s) (\<lambda>ns. Inr (map_option fst (find (\<lambda>(_, t). nt_ID t = sint addr) ns)))"

datatype verdict = Reply | Resume | Switched

type_synonym 'h command = "(verdict \<times> gdb \<times> 'h system) res"

text \<open>\<open>if (th != NULL && th->thread != currentThread) currentThread->ForceYield(th->thread)\<close>, and the rest of the command.\<close>

definition with_thread ::
  "('h system \<Rightarrow> 'h system res) \<Rightarrow> nat option \<Rightarrow> gdb \<Rightarrow> 'h system \<Rightarrow> (gdb \<Rightarrow> 'h system \<Rightarrow> 'h command) \<Rightarrow> 'h command" where
  "with_thread tick th g s k =
     (case th of
        None \<Rightarrow> k g s
      | Some node \<Rightarrow> bind_res (cell (allThreads s) (Some node)) (\<lambda>c.
          if nt_thread (le_item c) = currentThread s then k g s
          else bind_res (ForceYield tick (currentThread s) (nt_thread (le_item c)) s) (\<lambda>s1.
            if currentThread s1 = currentThread s then k g s1 else Inr (Switched, g, s1))))"

section \<open>Commands\<close>

abbreviation in_at :: "gdb \<Rightarrow> nat \<Rightarrow> byte res" where
  "in_at g i \<equiv> index_res (remcomInBuffer g) i"

definition reply :: "byte list \<Rightarrow> gdb \<Rightarrow> 'h system \<Rightarrow> 'h command" where
  "reply msg g s = bind_res (set_out msg g) (\<lambda>g1. Inr (Reply, g1, s))"

definition set_pc :: "nat \<times> uint32 \<Rightarrow> gdb \<Rightarrow> gdb res" where
  "set_pc = (\<lambda>(n, addr) g.
     if n = 0 then Inr g
     else if GDBPCReg < length (gdb_registers g) then Inr (g\<lparr>gdb_registers := (gdb_registers g)[GDBPCReg := addr]\<rparr>)
     else Inl IndexOutOfBounds)"

text \<open>\<open>?\<close>\<close>

definition signal_chars :: "byte \<Rightarrow> byte list" where
  "signal_chars sig = [hexchar (drop_bit 4 sig), hexchar (sig AND 15)]"

definition cmd_last_signal :: "byte \<Rightarrow> gdb \<Rightarrow> 'h system \<Rightarrow> 'h command" where
  "cmd_last_signal sig = reply (ascii CHR ''S'' # signal_chars sig)"

text \<open>\<open>c\<close> and \<open>s\<close>: go on or single step, perhaps at another address.\<close>

definition cmd_continue :: "('h system \<Rightarrow> 'h system res) \<Rightarrow> bool \<Rightarrow> gdb \<Rightarrow> 'h system \<Rightarrow> 'h command" where
  "cmd_continue tick step g0 s0 =
     with_thread tick (cthread g0) g0 s0 (\<lambda>g s.
     bind_res (HexToInt (remcomInBuffer g) 1) (\<lambda>r.
     bind_res (set_pc r g) (\<lambda>g1.
     bind_res (RestoreRegisters (gdb_registers g1) s) (\<lambda>s1.
     Inr (Resume, g1\<lparr>singleStep := step\<rparr>, s1)))))"

text \<open>\<open>C\<close> and \<open>S\<close>: the same with a signal, which is raised as an exception.\<close>

definition cmd_signal ::
  "('h system \<Rightarrow> 'h system res) \<Rightarrow> (ExceptionType \<Rightarrow> 'h system \<Rightarrow> 'h system res) \<Rightarrow> bool \<Rightarrow> gdb \<Rightarrow> 'h system \<Rightarrow> 'h command" where
  "cmd_signal tick handler step g0 s0 =
     with_thread tick (cthread g0) g0 s0 (\<lambda>g s.
     bind_res (HexToInt (remcomInBuffer g) 1) (\<lambda>(n, signl).
     bind_res (if n = 0 then Inr g
       else bind_res (in_at g (1 + n)) (\<lambda>ch.
         if ch = ascii CHR '';'' then bind_res (HexToInt (remcomInBuffer g) (2 + n)) (\<lambda>r. set_pc r g) else Inr g)) (\<lambda>g1.
     bind_res (RestoreRegisters (gdb_registers g1) s) (\<lambda>s1.
     bind_res (index_res (gdb_registers g1) GDBPCReg) (\<lambda>pc.
     bind_res (RaiseException handler (ComputeException signl) pc s1) (\<lambda>s2.
     Inr (Resume, g1\<lparr>singleStep := step\<rparr>, s2)))))))"

text \<open>\<open>D\<close>\<close>

definition cmd_detach :: "gdb \<Rightarrow> 'h system \<Rightarrow> 'h command" where
  "cmd_detach g s =
     bind_res (RestoreRegisters (gdb_registers g) s) (\<lambda>s1. Inr (Resume, g\<lparr>singleStep := False, attached := False\<rparr>, s1))"

text \<open>\<open>g\<close> and \<open>G\<close>: all registers as the stub saved them.\<close>

definition cmd_read_registers :: "('h system \<Rightarrow> 'h system res) \<Rightarrow> gdb \<Rightarrow> 'h system \<Rightarrow> 'h command" where
  "cmd_read_registers tick g0 s0 =
     with_thread tick (gthread g0) g0 s0 (\<lambda>g s. reply (MemToHex (words_bytes (gdb_registers g))) g s)"

definition cmd_write_registers :: "('h system \<Rightarrow> 'h system res) \<Rightarrow> gdb \<Rightarrow> 'h system \<Rightarrow> 'h command" where
  "cmd_write_registers tick g0 s0 =
     with_thread tick (gthread g0) g0 s0 (\<lambda>g s.
     bind_res (HexToMem (NUMREGS * 4) (drop 1 (remcomInBuffer g))) (\<lambda>bs.
     reply (str ''OK'') (g\<lparr>gdb_registers := bytes_words NUMREGS bs\<rparr>) s))"

text \<open>\<open>H\<close>: the thread for the commands that follow; -1 is the current one.\<close>

definition choose_thread :: "byte \<Rightarrow> nat option \<Rightarrow> gdb \<Rightarrow> 'h system \<Rightarrow> 'h command" where
  "choose_thread kind node g s =
     (if kind = ascii CHR ''c'' then reply (str ''OK'') (g\<lparr>cthread := node\<rparr>) s
      else if kind = ascii CHR ''g'' then reply (str ''OK'') (g\<lparr>gthread := node\<rparr>) s
      else reply (str ''E01'') g s)"

definition cmd_set_thread :: "gdb \<Rightarrow> 'h system \<Rightarrow> 'h command" where
  "cmd_set_thread g s =
     bind_res (HexToInt (remcomInBuffer g) 2) (\<lambda>(n, addr).
     bind_res (in_at g 1) (\<lambda>kind.
     if n = 0 then reply (str ''E01'') g s
     else if addr = -1 then choose_thread kind None g s
     else bind_res (find_ID addr s) (\<lambda>node.
       case node of None \<Rightarrow> reply (str ''E01'') g s | Some a \<Rightarrow> choose_thread kind (Some a) g s)))"

text \<open>\<open>T\<close>: is the thread alive?\<close>

definition cmd_thread_alive :: "gdb \<Rightarrow> 'h system \<Rightarrow> 'h command" where
  "cmd_thread_alive g s =
     bind_res (HexToInt (remcomInBuffer g) 1) (\<lambda>(n, addr).
     if n = 0 then reply (str ''E01'') g s
     else bind_res (find_ID addr s) (\<lambda>node. reply (if node = None then str ''E01'' else str ''OK'') g s))"

text \<open>\<open>k\<close>: the thread ends and does not come back.\<close>

definition cmd_kill :: "('h system \<Rightarrow> 'h system res) \<Rightarrow> gdb \<Rightarrow> 'h system \<Rightarrow> 'h command" where
  "cmd_kill tick g0 s0 = with_thread tick (gthread g0) g0 s0 (\<lambda>g s. Inl Finished)"

text \<open>
  An address and a length from an index of the buffer on, separated by a comma; \<open>None\<close> when one is missing. The index
  behind them comes along.
\<close>

definition addr_length :: "gdb \<Rightarrow> nat \<Rightarrow> (uint32 \<times> uint32 \<times> nat) option res" where
  "addr_length g p =
     bind_res (HexToInt (remcomInBuffer g) p) (\<lambda>(n, addr).
     if n = 0 then Inr None
     else bind_res (in_at g (p + n)) (\<lambda>ch.
       if ch \<noteq> ascii CHR '','' then Inr None
       else bind_res (HexToInt (remcomInBuffer g) (p + n + 1)) (\<lambda>(k, len).
         Inr (if k = 0 then None else Some (addr, len, p + n + 1 + k)))))"

text \<open>The first \<open>len\<close> bytes of the array \<open>value\<close>; nothing when \<open>len\<close> is negative.\<close>

definition value_bytes :: "uint32 \<Rightarrow> uint32 list \<Rightarrow> byte list res" where
  "value_bytes len val =
     (if nat (sint len) \<le> 4 * length val then Inr (take (nat (sint len)) (words_bytes val)) else Inl IndexOutOfBounds)"

text \<open>\<open>m\<close>: the error message of a failed read is overwritten.\<close>

definition cmd_read_memory ::
  "('h system \<Rightarrow> 'h system res) \<Rightarrow> (ExceptionType \<Rightarrow> 'h system \<Rightarrow> 'h system res) \<Rightarrow> gdb \<Rightarrow> 'h system \<Rightarrow> 'h command" where
  "cmd_read_memory tick handler g0 s0 =
     with_thread tick (gthread g0) g0 s0 (\<lambda>g s.
     bind_res (addr_length g 1) (\<lambda>p.
     case p of
       None \<Rightarrow> reply (str ''E01'') g s
     | Some (addr, len, _) \<Rightarrow>
         bind_res (ReadMemory handler addr len (hs_value g) s) (\<lambda>(success, val, s1).
         bind_res (value_bytes len val) (\<lambda>bs.
         reply (MemToHex bs) (g\<lparr>hs_value := val\<rparr>) s1))))"

text \<open>\<open>M\<close>\<close>

definition cmd_write_memory ::
  "('h system \<Rightarrow> 'h system res) \<Rightarrow> (ExceptionType \<Rightarrow> 'h system \<Rightarrow> 'h system res) \<Rightarrow> gdb \<Rightarrow> 'h system \<Rightarrow> 'h command" where
  "cmd_write_memory tick handler g0 s0 =
     with_thread tick (gthread g0) g0 s0 (\<lambda>g s.
     bind_res (addr_length g 1) (\<lambda>p.
     case p of
       None \<Rightarrow> reply (str ''E02'') g s
     | Some (addr, len, q) \<Rightarrow>
         bind_res (in_at g q) (\<lambda>ch.
         if ch \<noteq> ascii CHR '':'' then reply (str ''E02'') g s
         else
           bind_res (HexToMem (nat (sint len)) (drop (q + 1) (remcomInBuffer g))) (\<lambda>bs.
           if 4 * length (hs_value g) < length bs then Inl IndexOutOfBounds
           else
             (let val = bytes_words (length (hs_value g)) (bs @ drop (length bs) (words_bytes (hs_value g))) in
              bind_res (WriteMemory handler addr len val s) (\<lambda>(success, s1).
              reply (if success then str ''OK'' else str ''E03'') (g\<lparr>hs_value := val\<rparr>) s1))))))"

text \<open>\<open>p\<close> and \<open>P\<close>: one register of the machine itself.\<close>

definition cmd_read_register :: "('h system \<Rightarrow> 'h system res) \<Rightarrow> gdb \<Rightarrow> 'h system \<Rightarrow> 'h command" where
  "cmd_read_register tick g0 s0 =
     with_thread tick (gthread g0) g0 s0 (\<lambda>g s.
     bind_res (HexToInt (remcomInBuffer g) 1) (\<lambda>(n, addr).
     if n = 0 then reply (str ''E01'') g s
     else bind_res (ReadRegister s (sint addr)) (\<lambda>v. reply (MemToHex (word_bytes v)) g s)))"

definition cmd_write_register :: "('h system \<Rightarrow> 'h system res) \<Rightarrow> gdb \<Rightarrow> 'h system \<Rightarrow> 'h command" where
  "cmd_write_register tick g0 s0 =
     with_thread tick (gthread g0) g0 s0 (\<lambda>g s.
     bind_res (HexToInt (remcomInBuffer g) 1) (\<lambda>(n, addr).
     if n = 0 then reply (str ''E01'') g s
     else bind_res (in_at g (1 + n)) (\<lambda>ch.
       if ch \<noteq> ascii CHR ''='' then reply (str ''E01'') g s
       else bind_res (HexToInt (remcomInBuffer g) (2 + n)) (\<lambda>(k, v).
         let g1 = g\<lparr>hs_value := (hs_value g)[0 := v]\<rparr> in
         if k = 0 then reply (str ''E01'') g1 s
         else bind_res (WriteRegister s (sint addr) v) (\<lambda>s1. reply (str ''OK'') g1 s1)))))"

text \<open>\<open>z\<close> and \<open>Z\<close>: breakpoints and watchpoints; the character before the comma is the type.\<close>

definition breakpoint_type :: "byte \<Rightarrow> BreakpointType res" where
  "breakpoint_type ch =
     (if ch = ascii CHR ''0'' then Inr SoftwareBp else if ch = ascii CHR ''1'' then Inr HardwareBp
      else if ch = ascii CHR ''2'' then Inr WriteWp else if ch = ascii CHR ''3'' then Inr ReadWp
      else if ch = ascii CHR ''4'' then Inr AccessWp else Inl Uninitialised)"

definition cmd_breakpoint ::
  "(Breakpoint list \<Rightarrow> int \<Rightarrow> int \<Rightarrow> BreakpointType \<Rightarrow> Breakpoint list) \<Rightarrow> gdb \<Rightarrow> 'h system \<Rightarrow> 'h command" where
  "cmd_breakpoint change g s =
     bind_res (in_at g 1) (\<lambda>kind.
     bind_res (in_at g 2) (\<lambda>ch.
     if ch \<noteq> ascii CHR '','' then reply (str ''OK'') g s
     else bind_res (addr_length g 3) (\<lambda>p.
       case p of
         None \<Rightarrow> reply (str ''OK'') g s
       | Some (addr, len, _) \<Rightarrow> bind_res (breakpoint_type kind) (\<lambda>type.
           reply (str ''OK'') g (s\<lparr>breakpoints := change (breakpoints s) (sint addr) (sint len) type\<rparr>)))))"

text \<open>
  \<open>q\<close>: the current thread, the checksum of a block, the offsets of the sections. The loop of the checksum counts a negative
  length down through the whole memory.
\<close>

definition ProcessQuery :: "(ExceptionType \<Rightarrow> 'h system \<Rightarrow> 'h system res) \<Rightarrow> uint32 list \<Rightarrow> gdb \<Rightarrow> 'h system \<Rightarrow> 'h command" where
  "ProcessQuery handler val g s =
     bind_res (in_at g 1) (\<lambda>c1.
     if c1 = ascii CHR ''C'' then
       bind_res (in_at g 2) (\<lambda>c2.
       if c2 = 0 then
         bind_res (Get_Id (currentThread s) s) (\<lambda>pid.
         reply (str ''QC'' @ MemToHex (take 2 (word_bytes (word_of_int pid)))) g s)
       else if take 3 (drop 2 (remcomInBuffer g)) = str ''RC:'' then
         bind_res (addr_length g 5) (\<lambda>p.
         case p of
           None \<Rightarrow> reply (str ''E01'') g s
         | Some (addr, len, _) \<Rightarrow>
             bind_res (ReadMemory handler addr len val s) (\<lambda>(success, val1, s1).
             bind_res (if sint len < 0 then Inl IndexOutOfBounds else value_bytes len val1) (\<lambda>bs.
             reply (ascii CHR ''C'' # MemToHex (word_bytes (CRC32 bs 0xffffffff))) g s1)))
       else Inr (Reply, g, s))
     else if c1 = ascii CHR ''O'' \<and> take 6 (drop 2 (remcomInBuffer g)) = str ''ffsets'' then
       reply (str ''Text=0000;Data=0000;Bss=0000'') g s
     else Inr (Reply, g, s))"

section \<open>The dialogue\<close>

text \<open>
  One command; \<open>val\<close> is the uninitialised array of \<open>ProcessQuery\<close>. A command the stub does not know gets the empty answer.
\<close>

definition Handshake_command ::
  "('h system \<Rightarrow> 'h system res) \<Rightarrow> (ExceptionType \<Rightarrow> 'h system \<Rightarrow> 'h system res) \<Rightarrow> uint32 list \<Rightarrow> byte \<Rightarrow> gdb \<Rightarrow> 'h system \<Rightarrow> 'h command" where
  "Handshake_command tick handler val sig g s =
     bind_res (in_at g 0) (\<lambda>c.
     if c = ascii CHR ''?'' then cmd_last_signal sig g s
     else if c = ascii CHR ''c'' then cmd_continue tick False g s
     else if c = ascii CHR ''C'' then cmd_signal tick handler False g s
     else if c = ascii CHR ''D'' then cmd_detach g s
     else if c = ascii CHR ''g'' then cmd_read_registers tick g s
     else if c = ascii CHR ''G'' then cmd_write_registers tick g s
     else if c = ascii CHR ''H'' then cmd_set_thread g s
     else if c = ascii CHR ''k'' then cmd_kill tick g s
     else if c = ascii CHR ''m'' then cmd_read_memory tick handler g s
     else if c = ascii CHR ''M'' then cmd_write_memory tick handler g s
     else if c = ascii CHR ''p'' then cmd_read_register tick g s
     else if c = ascii CHR ''P'' then cmd_write_register tick g s
     else if c = ascii CHR ''q'' then ProcessQuery handler val g s
     else if c = ascii CHR ''s'' then cmd_continue tick True g s
     else if c = ascii CHR ''S'' then cmd_signal tick handler True g s
     else if c = ascii CHR ''T'' then cmd_thread_alive g s
     else if c = ascii CHR ''z'' then cmd_breakpoint removeBreakpoint g s
     else if c = ascii CHR ''Z'' then cmd_breakpoint addBreakpoint g s
     else Inr (Reply, g, s))"

text \<open>The loop, with one round for every character GDB sends; every round takes a packet.\<close>

fun Handshake_loop ::
  "nat \<Rightarrow> ('h system \<Rightarrow> 'h system res) \<Rightarrow> (ExceptionType \<Rightarrow> 'h system \<Rightarrow> 'h system res) \<Rightarrow> uint32 list \<Rightarrow> byte \<Rightarrow> gdb \<Rightarrow> 'h system \<Rightarrow> 'h command" where
  "Handshake_loop 0 tick handler val sig g s = Inl Diverges"
| "Handshake_loop (Suc fuel) tick handler val sig g s =
     bind_res (GetPacket (g\<lparr>remcomOutBuffer := []\<rparr>)) (\<lambda>g1.
     bind_res (Handshake_command tick handler val sig g1 s) (\<lambda>(v, g2, s1).
     if v = Reply then bind_res (PutPacket g2) (\<lambda>g3. Handshake_loop fuel tick handler val sig g3 s1)
     else Inr (v, g2, s1)))"

definition Handshake ::
  "('h system \<Rightarrow> 'h system res) \<Rightarrow> (ExceptionType \<Rightarrow> 'h system \<Rightarrow> 'h system res) \<Rightarrow> uint32 list \<Rightarrow> byte \<Rightarrow> gdb \<Rightarrow> 'h system \<Rightarrow> 'h command" where
  "Handshake tick handler val sig g s =
     Handshake_loop (Suc (length (sock_in g))) tick handler val sig (g\<lparr>cthread := None, gthread := None, hs_value := val\<rparr>) s"

definition register_report :: "byte \<Rightarrow> uint32 \<Rightarrow> byte list" where
  "register_report num v = signal_chars num @ ascii CHR '':'' # MemToHex (word_bytes v) @ [ascii CHR '';'']"

definition thread_report :: "nachos_thread \<Rightarrow> byte list" where
  "thread_report t = str ''thread:'' @ MemToHex (word_bytes (word_of_int (nt_ID t))) @ [ascii CHR '';'']"

definition HandleException ::
  "('h system \<Rightarrow> 'h system res) \<Rightarrow> (ExceptionType \<Rightarrow> 'h system \<Rightarrow> 'h system res) \<Rightarrow> uint32 list \<Rightarrow> ExceptionType \<Rightarrow> gdb \<Rightarrow> 'h system \<Rightarrow> 'h command" where
  "HandleException tick handler val number g s =
     (let sig = ComputeSignal number; regs = gdb_registers g in
      bind_res (index_res regs GDBPCReg) (\<lambda>pc.
      bind_res (index_res regs 30) (\<lambda>fp.
      bind_res (index_res regs StackReg) (\<lambda>sp.
      bind_res (all_nodes s) (\<lambda>ns.
      bind_res (set_out (ascii CHR ''T'' # signal_chars sig @ register_report (of_nat GDBPCReg) pc @ register_report 72 fp @
        register_report (of_nat StackReg) sp @ concat (map (\<lambda>(_, t). thread_report t) ns)) g) (\<lambda>g1.
      bind_res (PutPacket g1) (\<lambda>g2.
      Handshake tick handler val sig g2 s)))))))"

definition GDBCatchException ::
  "('h system \<Rightarrow> 'h system res) \<Rightarrow> (ExceptionType \<Rightarrow> 'h system \<Rightarrow> 'h system res) \<Rightarrow> uint32 list \<Rightarrow> ExceptionType \<Rightarrow> gdb \<Rightarrow> 'h system \<Rightarrow> 'h command" where
  "GDBCatchException tick handler val number g s =
     bind_res (SaveRegisters s (gdb_registers g)) (\<lambda>regs.
     HandleException tick handler val number (g\<lparr>gdb_registers := regs\<rparr>) s)"

end
