(* ===== verification/Gdb_Lemmas.thy ===== *)
theory Gdb_Lemmas
  imports Gdb_Stub
begin

text \<open>
  Lemmas on the remote debugger: what saving and restoring registers does, packets and answers as one step each, and that
  every round of the dialogue takes characters from the socket.
\<close>

section \<open>Registers\<close>

lemma rev_map_pair_lookup: "map_of (rev (map (\<lambda>i. (i, i)) [0..<n])) r = (if r < n then Some r else None)"
  by (induction n) auto

lemma reg_map_lookup:
  "map_of (rev reg_map) r = (if r < 34 then Some r else if r = 39 then Some 35 else if r = 34 then Some 37 else None)"
  by (simp add: reg_map_def NumGPRegs_def reg_defs GDBBadVAddrReg_def GDBPCReg_def rev_map_pair_lookup)

definition gdb_index :: "(nat \<times> nat) list" where
  "gdb_index = map (\<lambda>(reg, i). (i, reg)) reg_map"

lemma gdb_index_lookup:
  "map_of (rev gdb_index) i = (if i < 34 then Some i else if i = 35 then Some 39 else if i = 37 then Some 34 else None)"
  by (simp add: gdb_index_def reg_map_def NumGPRegs_def reg_defs GDBBadVAddrReg_def GDBPCReg_def rev_map_pair_lookup comp_def)

lemma reg_map_bounds: "(reg, i) \<in> set reg_map \<Longrightarrow> reg < NumTotalRegs \<and> i < NUMREGS"
  by (auto simp: reg_map_def NumGPRegs_def reg_defs GDBBadVAddrReg_def GDBPCReg_def NUMREGS_def)

definition restored :: "uint32 list \<Rightarrow> (nat \<Rightarrow> uint32) \<Rightarrow> nat \<Rightarrow> uint32" where
  "restored regs f r = (if r < 34 then regs ! r else if r = 39 then regs ! 35 else if r = 34 then regs ! 37 else f r)"

lemma RestoreRegisters_ok:
  assumes "length regs = NUMREGS"
  shows "RestoreRegisters regs s = Inr (s\<lparr>registers := restored regs (registers s)\<rparr>)"
proof -
  have "fold_res (\<lambda>(reg, i) s. bind_res (index_res regs i) (\<lambda>v. WriteRegister s (int reg) v)) m s =
      Inr (s\<lparr>registers := (\<lambda>r. case map_of (rev m) r of None \<Rightarrow> registers s r | Some i \<Rightarrow> regs ! i)\<rparr>)"
    if "\<And>reg i. (reg, i) \<in> set m \<Longrightarrow> reg < NumTotalRegs \<and> i < NUMREGS" for m s
    using that
  proof (induction m arbitrary: s)
    case (Cons p m)
    obtain reg i where p: "p = (reg, i)" by fastforce
    with Cons.prems [of reg i] assms have lt: "reg < NumTotalRegs" "i < length regs" by auto
    let ?s1 = "s\<lparr>registers := (registers s)(reg := regs ! i)\<rparr>"
    have "fold_res (\<lambda>(reg, i) s. bind_res (index_res regs i) (\<lambda>v. WriteRegister s (int reg) v)) m ?s1 =
      Inr (?s1\<lparr>registers := (\<lambda>r. case map_of (rev m) r of None \<Rightarrow> registers ?s1 r | Some i \<Rightarrow> regs ! i)\<rparr>)"
      by (rule Cons.IH) (rule Cons.prems, simp)
    moreover have "(\<lambda>r. case map_of (rev m) r of None \<Rightarrow> registers ?s1 r | Some i \<Rightarrow> regs ! i) =
      (\<lambda>r. case map_of (rev (p # m)) r of None \<Rightarrow> registers s r | Some i \<Rightarrow> regs ! i)"
      by (auto simp: p fun_eq_iff map_add_def split: option.splits)
    ultimately show ?case using lt by (simp add: p WriteRegister_def)
  qed simp
  note run = this [of reg_map s, OF reg_map_bounds]
  have "(\<lambda>r. case map_of (rev reg_map) r of None \<Rightarrow> registers s r | Some i \<Rightarrow> regs ! i) = restored regs (registers s)"
    by (simp add: fun_eq_iff reg_map_lookup restored_def)
  with run show ?thesis by (simp only: RestoreRegisters_def)
qed

lemma SaveRegisters_ok:
  assumes "length regs = NUMREGS"
  obtains regs' where "SaveRegisters s regs = Inr regs'" "length regs' = NUMREGS"
    "\<And>r. r < 34 \<Longrightarrow> regs' ! r = registers s r" "regs' ! 35 = registers s BadVAddrReg" "regs' ! 37 = registers s PCReg"
proof -
  let ?f = "\<lambda>(reg, i) regs. bind_res (ReadRegister s (int reg)) (\<lambda>v. if i < length regs then Inr (regs[i := v]) else Inl IndexOutOfBounds)"
  have "\<exists>regs'. fold_res ?f m regs = Inr regs' \<and> length regs' = NUMREGS \<and>
      (\<forall>i < NUMREGS. regs' ! i = (case map_of (rev (map (\<lambda>(reg, i). (i, reg)) m)) i of None \<Rightarrow> regs ! i | Some reg \<Rightarrow> registers s reg))"
    if "\<And>reg i. (reg, i) \<in> set m \<Longrightarrow> reg < NumTotalRegs \<and> i < NUMREGS" "length regs = NUMREGS" for m regs
    using that
  proof (induction m arbitrary: regs)
    case (Cons p m)
    obtain reg i where p: "p = (reg, i)" by fastforce
    with Cons.prems(1) [of reg i] have lt: "reg < NumTotalRegs" "i < NUMREGS" by auto
    let ?r1 = "regs[i := registers s reg]"
    have "length ?r1 = NUMREGS" using Cons.prems(2) by simp
    from Cons.IH [OF _ this] Cons.prems(1) obtain regs' where r': "fold_res ?f m ?r1 = Inr regs'" "length regs' = NUMREGS"
      "\<forall>j < NUMREGS. regs' ! j = (case map_of (rev (map (\<lambda>(reg, i). (i, reg)) m)) j of None \<Rightarrow> ?r1 ! j | Some reg \<Rightarrow> registers s reg)"
      by auto
    then have "regs' ! j = (case map_of (rev (map (\<lambda>(reg, i). (i, reg)) (p # m))) j of None \<Rightarrow> regs ! j | Some reg \<Rightarrow> registers s reg)"
      if "j < NUMREGS" for j
      using that Cons.prems(2) by (auto simp: p map_add_def nth_list_update split: option.splits)
    with r'(1,2) lt Cons.prems(2) show ?case by (auto simp: p ReadRegister_def)
  qed simp
  from this [OF reg_map_bounds assms] obtain regs' where r: "SaveRegisters s regs = Inr regs'" "length regs' = NUMREGS"
    "\<And>i. i < NUMREGS \<Longrightarrow> regs' ! i = (case map_of (rev gdb_index) i of None \<Rightarrow> regs ! i | Some reg \<Rightarrow> registers s reg)"
    unfolding SaveRegisters_def gdb_index_def by blast
  show thesis
  proof (rule that [OF r(1,2)])
    fix i :: nat assume "i < 34"
    then show "regs' ! i = registers s i" using r(3) [of i] by (simp add: gdb_index_lookup NUMREGS_def)
  qed (use r(3) [of 35] r(3) [of 37] in \<open>simp_all add: gdb_index_lookup NUMREGS_def reg_defs\<close>)
qed

text \<open>Saved and restored without a change in between, the registers are as before.\<close>

lemma restored_saved:
  assumes "\<And>r. r < 34 \<Longrightarrow> regs ! r = registers s r" "regs ! 35 = registers s BadVAddrReg" "regs ! 37 = registers s PCReg"
  shows "restored regs (registers s) = registers s"
  using assms by (auto simp: restored_def fun_eq_iff reg_defs)

section \<open>Packets\<close>

lemma GetPacket_ok:
  assumes "sock_in g = frame_packet msg @ rest" "\<forall>c \<in> set msg. packet_char c" "length msg < BUFMAX" "length (remcomInBuffer g) = BUFMAX"
  shows "GetPacket g = Inr (g\<lparr>sock_in := rest, sock_out := sock_out g @ [ascii CHR ''+''],
    remcomInBuffer := msg @ 0 # drop (Suc (length msg)) (remcomInBuffer g)\<rparr>)"
  using GetPacket_frame [of "[]" msg "remcomInBuffer g" rest "sock_out g"] assms by (simp add: GetPacket_def)

lemma PutPacket_ok:
  assumes "sock_in g = ascii CHR ''+'' # rest"
  shows "PutPacket g = Inr (g\<lparr>sock_in := rest, sock_out := sock_out g @ frame_packet (remcomOutBuffer g)\<rparr>)"
proof -
  have "ascii CHR ''+'' AND 0x7f = ascii CHR ''+''" by code_simp
  with assms show ?thesis by (simp add: PutPacket_def)
qed

text \<open>Hexadecimal digits that end at another character.\<close>

definition hex_value :: "uint32 \<Rightarrow> byte list \<Rightarrow> uint32" where
  "hex_value = foldl (\<lambda>v d. push_bit 4 v OR word_of_int (Hex d))"

lemma HexToInt_digits:
  assumes "\<forall>d \<in> set ds. d \<noteq> 0 \<and> 0 \<le> Hex d" "c = 0 \<or> Hex c < 0"
  shows "HexToInt_loop (ds @ c # buf) n v = Inr (n + length ds, hex_value v ds)"
  using assms by (induction ds arbitrary: n v) (auto simp: hex_value_def)

section \<open>Every round takes characters\<close>

lemma GetPacket_loop_shorter: "GetPacket_loop inp out buf = Inr (inp', out', buf') \<Longrightarrow> length inp' < length inp"
proof (induction inp out buf rule: GetPacket_loop.induct)
  case (1 inp out buf)
  from 1(2) obtain inp1 r n b1 inp2 where w: "wait_start inp = Inr inp1" "read_packet inp1 0 0 buf = Inr (r, n, b1, inp2)"
    by (subst (asm) GetPacket_loop.simps) (auto split: sum.splits)
  then have len: "length inp2 < length inp" using wait_start_shorter read_packet_shorter by fastforce
  from 1(2) w obtain a b inp3 where inp2: "inp2 = a # b # inp3"
    by (subst (asm) GetPacket_loop.simps) (auto split: list.splits)
  show ?case
  proof (cases "r = sent_checksum a b")
    case True
    with 1(2) w inp2 len show ?thesis by (subst (asm) GetPacket_loop.simps) auto
  next
    case False
    with 1(2) w inp2 have "GetPacket_loop inp3 (out @ [ascii CHR ''-'']) (b1[n := 0]) = Inr (inp', out', buf')"
      by (subst (asm) GetPacket_loop.simps) simp
    from 1(1) [OF w(1,2) _ _ _ inp2 _ False this] have "length inp' < length inp3" by blast
    with len inp2 show ?thesis by simp
  qed
qed

lemma PutPacket_loop_shorter: "PutPacket_loop msg inp out = Inr (inp', out') \<Longrightarrow> length inp' < length inp"
  by (induction inp arbitrary: out) (auto split: if_splits intro: less_SucI)

text \<open>No command reads from the socket.\<close>

definition keeps_input :: "gdb \<Rightarrow> 'h command \<Rightarrow> bool" where
  "keeps_input g r \<longleftrightarrow> (case r of Inl _ \<Rightarrow> True | Inr (_, g', _) \<Rightarrow> sock_in g' = sock_in g)"

lemma keeps_input_Inr [simp]: "keeps_input g (Inr (v, g', s)) \<longleftrightarrow> sock_in g' = sock_in g"
  and keeps_input_Inl [simp]: "keeps_input g (Inl e)"
  by (simp_all add: keeps_input_def)

lemma keeps_bind: "(\<And>x. m = Inr x \<Longrightarrow> keeps_input g (k x)) \<Longrightarrow> keeps_input g (bind_res m k)"
  by (cases m) simp_all

lemma keeps_reply: "sock_in g' = sock_in g \<Longrightarrow> keeps_input g (reply msg g' s)"
  by (simp add: reply_def set_out_def)

lemma keeps_with_thread: "(\<And>s. keeps_input g (k g s)) \<Longrightarrow> keeps_input g (with_thread tick th g s k)"
  by (auto simp: with_thread_def intro!: keeps_bind split: option.split)

lemma set_pc_sock: "set_pc r g = Inr g' \<Longrightarrow> sock_in g' = sock_in g"
  by (auto simp: set_pc_def split: prod.splits if_splits)

lemmas keeps_intros = keeps_bind keeps_reply keeps_with_thread

lemma Handshake_command_keeps: "keeps_input g (Handshake_command tick handler val sig g s)"
proof -
  note defs = cmd_last_signal_def cmd_detach_def cmd_read_registers_def cmd_write_registers_def cmd_kill_def
    cmd_thread_alive_def cmd_read_memory_def cmd_read_register_def cmd_breakpoint_def
  have "keeps_input g (cmd_continue tick b g s)" for b
    unfolding cmd_continue_def by (intro keeps_intros) (auto dest!: set_pc_sock)
  moreover have "keeps_input g (cmd_signal tick handler b g s)" for b
    unfolding cmd_signal_def by (auto intro!: keeps_intros dest!: set_pc_sock simp: res_eq_Inr split: if_splits)
  moreover have "keeps_input g (cmd_set_thread g s)"
    unfolding cmd_set_thread_def choose_thread_def by (auto intro!: keeps_intros split: option.splits)
  moreover have "keeps_input g (cmd_write_memory tick handler g s)"
    unfolding cmd_write_memory_def by (auto intro!: keeps_intros simp: Let_def split: option.splits)
  moreover have "keeps_input g (cmd_write_register tick g s)"
    unfolding cmd_write_register_def by (auto intro!: keeps_intros simp: Let_def)
  moreover have "keeps_input g (ProcessQuery handler val g s)"
    unfolding ProcessQuery_def by (auto intro!: keeps_intros split: option.splits)
  moreover have "keeps_input g (cmd_last_signal sig g s)" "keeps_input g (cmd_detach g s)" "keeps_input g (cmd_read_registers tick g s)"
    "keeps_input g (cmd_write_registers tick g s)" "keeps_input g (cmd_kill tick g s)" "keeps_input g (cmd_thread_alive g s)"
    "keeps_input g (cmd_read_memory tick handler g s)" "keeps_input g (cmd_read_register tick g s)"
    "keeps_input g (cmd_breakpoint f g s)" for f
    unfolding defs by (auto intro!: keeps_intros split: option.splits)
  ultimately show ?thesis unfolding Handshake_command_def by (intro keeps_bind) simp
qed

lemma Handshake_loop_fuel:
  assumes "length (sock_in g) < fuel" "length (sock_in g) < fuel'"
  shows "Handshake_loop fuel tick handler val sig g s = Handshake_loop fuel' tick handler val sig g s"
  using assms
proof (induction fuel arbitrary: fuel' g s)
  case (Suc n)
  then obtain n' where n': "fuel' = Suc n'" by (cases fuel') auto
  have "bind_res (Handshake_command tick handler val sig g1 s) (\<lambda>(v, g2, s1).
      if v = Reply then bind_res (PutPacket g2) (\<lambda>g3. Handshake_loop n tick handler val sig g3 s1) else Inr (v, g2, s1)) =
    bind_res (Handshake_command tick handler val sig g1 s) (\<lambda>(v, g2, s1).
      if v = Reply then bind_res (PutPacket g2) (\<lambda>g3. Handshake_loop n' tick handler val sig g3 s1) else Inr (v, g2, s1))"
    if g1: "GetPacket (g\<lparr>remcomOutBuffer := []\<rparr>) = Inr g1" for g1
  proof (cases "Handshake_command tick handler val sig g1 s")
    case (Inr r)
    obtain v g2 s1 where r: "r = (v, g2, s1)" by (cases r)
    have lt: "length (sock_in g1) < length (sock_in g)"
      using g1 by (auto simp: GetPacket_def res_eq_Inr dest!: GetPacket_loop_shorter)
    have same: "sock_in g2 = sock_in g1" using Handshake_command_keeps [of g1 tick handler val sig s] Inr r by simp
    have "Handshake_loop n tick handler val sig g3 s1 = Handshake_loop n' tick handler val sig g3 s1"
      if "PutPacket g2 = Inr g3" for g3
    proof -
      have "length (sock_in g3) < length (sock_in g2)"
        using that by (auto simp: PutPacket_def res_eq_Inr dest!: PutPacket_loop_shorter)
      with lt same Suc.prems n' show ?thesis by (intro Suc.IH) auto
    qed
    with Inr r show ?thesis by (cases "PutPacket g2") auto
  qed simp
  then show ?case unfolding n' by (cases "GetPacket (g\<lparr>remcomOutBuffer := []\<rparr>)") simp_all
qed simp

section \<open>Dialogues\<close>

definition gdb_ok :: "gdb \<Rightarrow> bool" where
  "gdb_ok g \<longleftrightarrow> length (gdb_registers g) = NUMREGS \<and> length (remcomInBuffer g) = BUFMAX"

text \<open>The state of the stub when it has taken a packet.\<close>

definition took :: "byte list \<Rightarrow> byte list \<Rightarrow> gdb \<Rightarrow> gdb" where
  "took msg rest g = g\<lparr>remcomOutBuffer := [], sock_in := rest, sock_out := sock_out g @ [ascii CHR ''+''],
     remcomInBuffer := msg @ 0 # drop (Suc (length msg)) (remcomInBuffer g)\<rparr>"

lemma Handshake_round:
  assumes "sock_in g = frame_packet msg @ rest" "\<forall>c \<in> set msg. packet_char c" "length msg < BUFMAX" "gdb_ok g"
  shows "Handshake_loop (Suc n) tick handler val sig g s =
    bind_res (Handshake_command tick handler val sig (took msg rest g) s) (\<lambda>(v, g2, s1).
      if v = Reply then bind_res (PutPacket g2) (\<lambda>g3. Handshake_loop n tick handler val sig g3 s1) else Inr (v, g2, s1))"
proof -
  have "GetPacket (g\<lparr>remcomOutBuffer := []\<rparr>) = Inr (took msg rest g)"
    using assms GetPacket_ok [of "g\<lparr>remcomOutBuffer := []\<rparr>" msg rest] by (simp add: took_def gdb_ok_def)
  then show ?thesis by simp
qed

lemma thread_nodes_ok:
  "seg (heap l) p as None \<Longrightarrow> length as < fuel \<Longrightarrow> \<exists>ns. thread_nodes fuel l p = Inr ns \<and> map snd ns = items_at (heap l) as"
proof (induction as arbitrary: p fuel)
  case Nil
  then show ?case by (cases fuel) simp_all
next
  case (Cons a as)
  then obtain c n where c: "p = Some a" "heap l a = Some c" "seg (heap l) (le_next c) as None" "fuel = Suc n"
    by (cases fuel) auto
  with Cons.IH [OF c(3), of n] Cons.prems(2) show ?case by (auto simp: cell_def)
qed

lemma all_nodes_ok:
  assumes "represents (allThreads s) ts"
  obtains ns where "all_nodes s = Inr ns" "map snd ns = ts"
proof -
  from assms obtain as where as: "list_at (allThreads s) as" "ts = items_at (heap (allThreads s)) as" by (auto simp: represents_def)
  then have "seg (heap (allThreads s)) (lfirst (allThreads s)) as None" by (simp add: list_at_def)
  from thread_nodes_ok [OF this, of "Suc (brk (allThreads s))"] list_at_length [OF as(1)] that as(2) show thesis
    by (auto simp: all_nodes_def)
qed

text \<open>The report of an exception.\<close>

definition stop_report :: "ExceptionType \<Rightarrow> uint32 list \<Rightarrow> nachos_thread list \<Rightarrow> byte list" where
  "stop_report number regs ts = ascii CHR ''T'' # signal_chars (ComputeSignal number) @ register_report (of_nat GDBPCReg) (regs ! GDBPCReg) @
     register_report 72 (regs ! 30) @ register_report (of_nat StackReg) (regs ! StackReg) @ concat (map thread_report ts)"

lemma length_stop_report: "length (stop_report number regs ts) = 39 + 16 * length ts"
proof -
  have "length (concat (map thread_report ts)) = 16 * length ts"
    by (rule length_concat_blocks) (simp add: thread_report_def str_def)
  then show ?thesis by (simp add: stop_report_def signal_chars_def register_report_def)
qed

definition stopped :: "ExceptionType \<Rightarrow> uint32 list \<Rightarrow> uint32 list \<Rightarrow> nachos_thread list \<Rightarrow> byte list \<Rightarrow> gdb \<Rightarrow> gdb" where
  "stopped number val regs ts inp g = g\<lparr>gdb_registers := regs, remcomOutBuffer := stop_report number regs ts, sock_in := inp,
     sock_out := sock_out g @ frame_packet (stop_report number regs ts), cthread := None, gthread := None, hs_value := val\<rparr>"

lemma GDBCatchException_stops:
  assumes g: "gdb_ok g" and ts: "represents (allThreads s) ts" "length ts \<le> 125" and inp: "sock_in g = ascii CHR ''+'' # inp"
  obtains regs where "GDBCatchException tick handler val number g s =
      Handshake_loop (Suc (length inp)) tick handler val (ComputeSignal number) (stopped number val regs ts inp g) s"
    "length regs = NUMREGS" "\<And>f. \<forall>r \<ge> 35. r \<noteq> 39 \<longrightarrow> f r = registers s r \<Longrightarrow> restored regs f = registers s"
proof -
  have "length (gdb_registers g) = NUMREGS" using g by (simp add: gdb_ok_def)
  with SaveRegisters_ok [of "gdb_registers g" s] obtain regs where regs: "SaveRegisters s (gdb_registers g) = Inr regs" "length regs = NUMREGS"
    "\<And>r. r < 34 \<Longrightarrow> regs ! r = registers s r" "regs ! 35 = registers s BadVAddrReg" "regs ! 37 = registers s PCReg"
    by blast
  from all_nodes_ok [OF ts(1)] obtain ns where ns: "all_nodes s = Inr ns" "map snd ns = ts" .
  let ?g1 = "g\<lparr>gdb_registers := regs\<rparr>"
  have "concat (map (\<lambda>(_, t). thread_report t) ns) = concat (map thread_report ts)"
    unfolding ns(2) [symmetric] by (simp add: comp_def case_prod_beta')
  then have report: "ascii CHR ''T'' # signal_chars (ComputeSignal number) @ register_report (of_nat GDBPCReg) (regs ! GDBPCReg) @
      register_report 72 (regs ! 30) @ register_report (of_nat StackReg) (regs ! StackReg) @ concat (map (\<lambda>(_, t). thread_report t) ns) =
      stop_report number regs ts" by (simp only: stop_report_def)
  have "length (stop_report number regs ts) < BUFMAX" using ts(2) by (simp add: length_stop_report BUFMAX_def)
  then have out: "set_out (stop_report number regs ts) ?g1 = Inr (?g1\<lparr>remcomOutBuffer := stop_report number regs ts\<rparr>)"
    by (simp add: set_out_def)
  have "GDBPCReg < length regs" "30 < length regs" "StackReg < length regs"
    using regs(2) by (simp_all add: NUMREGS_def GDBPCReg_def StackReg_def)
  then have "HandleException tick handler val number ?g1 s =
      Handshake tick handler val (ComputeSignal number) (?g1\<lparr>remcomOutBuffer := stop_report number regs ts, sock_in := inp,
        sock_out := sock_out g @ frame_packet (stop_report number regs ts)\<rparr>) s"
    using out inp by (simp add: HandleException_def Let_def ns(1) report PutPacket_ok [of _ inp] del: One_nat_def)
  then have "GDBCatchException tick handler val number g s =
      Handshake_loop (Suc (length inp)) tick handler val (ComputeSignal number) (stopped number val regs ts inp g) s"
    by (simp add: GDBCatchException_def regs(1) Handshake_def stopped_def del: Handshake_loop.simps)
  moreover have "restored regs f = registers s" if "\<forall>r \<ge> 35. r \<noteq> 39 \<longrightarrow> f r = registers s r" for f
    using regs(3-5) that by (auto simp: restored_def fun_eq_iff reg_defs)
  ultimately show thesis using regs(2) by (intro that)
qed

end
