(* ===== verification/Gdb_Properties.thy ===== *)
theory Gdb_Properties
  imports Gdb_Lemmas Thread_Properties
begin

text \<open>
  The properties of the remote debugger: packets and their retransmission, the checksum of memory blocks, the length of a
  dialogue, and what an exception served by GDB does to the machine. The witnesses run on a system with one thread.
\<close>

section \<open>A corrupted packet\<close>

lemma GetPacket_resend:
  assumes "\<forall>c \<in> set noise. c AND 0x7f \<noteq> ascii CHR ''$''" "\<forall>c \<in> set bad. packet_char c" "length bad < BUFMAX"
    "length buf = BUFMAX" "sent_checksum a b \<noteq> sum_list bad"
  shows "GetPacket_loop (noise @ ascii CHR ''$'' # bad @ [ascii CHR ''#'', a, b] @ inp) out buf =
    GetPacket_loop inp (out @ [ascii CHR ''-'']) (bad @ 0 # drop (Suc (length bad)) buf)"
proof -
  have "(bad @ drop (length bad) buf)[length bad := 0] = bad @ 0 # drop (Suc (length bad)) buf"
    using assms(3,4) by (simp add: list_update_append Cons_nth_drop_Suc [symmetric])
  moreover have "wait_start (noise @ ascii CHR ''$'' # bad @ [ascii CHR ''#'', a, b] @ inp) =
      Inr (bad @ ascii CHR ''#'' # a # b # inp)"
    unfolding wait_start_skip [OF assms(1)] by (simp add: start_chars)
  ultimately show ?thesis
    using read_packet_ok [OF assms(2) _ assms(4), of 0] assms(3) assms(5) [symmetric]
    by (subst GetPacket_loop.simps) simp
qed

section \<open>Characters of commands\<close>

lemma ascii_eq_iff [simp]: "ascii c = ascii d \<longleftrightarrow> c = d"
proof -
  have "ascii c = word_of_nat (of_char c)" for c by (simp only: ascii_def of_nat_of_char)
  then have "ascii c = ascii d \<longleftrightarrow> take_bit 8 (of_char c :: nat) = take_bit 8 (of_char d)" by (simp add: word_of_nat_eq_iff)
  also have "\<dots> \<longleftrightarrow> c = d" by (simp add: take_bit_eq_mod)
  finally show ?thesis .
qed

lemma hex_digit:
  assumes "d \<in> set hexchars"
  shows "packet_char d" "0 \<le> Hex d" "d \<noteq> 0"
proof -
  have "list_all (\<lambda>d. packet_char d \<and> 0 \<le> Hex d \<and> d \<noteq> 0) hexchars" by code_simp
  with assms show "packet_char d" "0 \<le> Hex d" "d \<noteq> 0" by (auto simp: list_all_iff)
qed

lemma HexToInt_hex:
  assumes "set ds \<subseteq> set hexchars" "c = 0 \<or> Hex c < 0" "length pre = n"
  shows "HexToInt (pre @ ds @ c # buf) n = Inr (length ds, hex_value 0 ds)"
proof -
  have "\<forall>d \<in> set ds. d \<noteq> 0 \<and> 0 \<le> Hex d" using assms(1) hex_digit by blast
  from HexToInt_digits [OF this assms(2), of buf 0 0] assms(3) show ?thesis by (simp add: HexToInt_def)
qed

lemma command_chars: "packet_char (ascii CHR ''c'')" "packet_char (ascii CHR ''s'')" "packet_char (ascii CHR ''G'')"
  "packet_char (ascii CHR ''P'')" "packet_char (ascii CHR ''='')" "Hex (ascii CHR ''='') < 0" "Hex 0 < 0"
  by code_simp+

text \<open>The commands of a dialogue.\<close>

lemma Handshake_command_c:
  assumes "remcomInBuffer g = ascii (if step then CHR ''s'' else CHR ''c'') # ds @ 0 # buf" "set ds \<subseteq> set hexchars"
    "cthread g = None" "length (gdb_registers g) = NUMREGS"
  shows "\<exists>g'. Handshake_command tick handler val sig g s =
      Inr (Resume, g', s\<lparr>registers := restored ((gdb_registers g)[GDBPCReg := if ds = [] then gdb_registers g ! GDBPCReg else hex_value 0 ds])
        (registers s)\<rparr>) \<and> singleStep g' = step \<and> sock_in g' = sock_in g \<and> sock_out g' = sock_out g"
proof -
  have "Handshake_command tick handler val sig g s = cmd_continue tick step g s"
    unfolding Handshake_command_def using assms(1) by (cases step) simp_all
  moreover have "HexToInt (remcomInBuffer g) 1 = Inr (length ds, hex_value 0 ds)"
    using HexToInt_hex [OF assms(2), of 0 "[ascii (if step then CHR ''s'' else CHR ''c'')]" 1 buf] assms(1) by simp
  ultimately show ?thesis
    using assms(3,4) by (simp add: cmd_continue_def with_thread_def set_pc_def RestoreRegisters_ok GDBPCReg_def NUMREGS_def del: One_nat_def)
qed

lemma Handshake_command_G:
  assumes "remcomInBuffer g = ascii CHR ''G'' # MemToHex (words_bytes ws) @ 0 # buf" "length ws = NUMREGS" "gthread g = None"
  shows "Handshake_command tick handler val sig g s =
      Inr (Reply, g\<lparr>gdb_registers := ws, remcomOutBuffer := str ''OK''\<rparr>, s)"
proof -
  have "HexToMem (NUMREGS * 4) (drop 1 (remcomInBuffer g)) = Inr (words_bytes ws)"
    using MemToHex_inverse [of "words_bytes ws" "0 # buf"] assms(1,2) by (simp add: mult.commute)
  then show ?thesis
    using assms by (simp add: Handshake_command_def cmd_write_registers_def with_thread_def reply_def set_out_def str_def BUFMAX_def
      words_bytes_inverse)
qed

lemma Handshake_command_P:
  assumes "remcomInBuffer g = ascii CHR ''P'' # ds @ ascii CHR ''='' # vs @ 0 # buf" "set ds \<subseteq> set hexchars" "ds \<noteq> []"
    "set vs \<subseteq> set hexchars" "vs \<noteq> []" "sint (hex_value 0 ds) = int r" "r < NumTotalRegs" "gthread g = None"
  shows "Handshake_command tick handler val sig g s =
      Inr (Reply, g\<lparr>hs_value := (hs_value g)[0 := hex_value 0 vs], remcomOutBuffer := str ''OK''\<rparr>,
        s\<lparr>registers := (registers s)(r := hex_value 0 vs)\<rparr>)"
proof -
  have "HexToInt (remcomInBuffer g) 1 = Inr (length ds, hex_value 0 ds)"
    using HexToInt_hex [OF assms(2), of "ascii CHR ''=''" "[ascii CHR ''P'']" 1] command_chars assms(1) by simp
  moreover have "HexToInt (remcomInBuffer g) (2 + length ds) = Inr (length vs, hex_value 0 vs)"
    using HexToInt_hex [OF assms(4), of 0 "ascii CHR ''P'' # ds @ [ascii CHR ''='']" "2 + length ds"] assms(1) by simp
  moreover have "in_at g (1 + length ds) = Inr (ascii CHR ''='')" using assms(1) by (simp add: nth_append)
  ultimately show ?thesis
    using assms(1,3,5-8) by (simp add: Handshake_command_def cmd_write_register_def with_thread_def reply_def set_out_def str_def BUFMAX_def
      WriteRegister_def Let_def del: One_nat_def)
qed

section \<open>Properties\<close>

text \<open>
  A packet whose checksum does not match is answered with a minus sign, the characters before and after it are skipped, and
  the packet sent again is accepted with a plus sign: the input buffer holds its characters and a terminating zero.
\<close>

theorem packet_resent:
  assumes "\<forall>c \<in> set noise. c AND 0x7f \<noteq> ascii CHR ''$''" "\<forall>c \<in> set noise'. c AND 0x7f \<noteq> ascii CHR ''$''"
    and "\<forall>c \<in> set bad. packet_char c" "length bad < BUFMAX" "sent_checksum a b \<noteq> sum_list bad"
    and "\<forall>c \<in> set msg. packet_char c" "length msg < BUFMAX" "length buf = BUFMAX"
  shows "\<exists>buf'. GetPacket_loop (noise @ ascii CHR ''$'' # bad @ [ascii CHR ''#'', a, b] @ noise' @ frame_packet msg @ rest) out buf =
    Inr (rest, out @ str ''-+'', msg @ 0 # buf') \<and> length (msg @ 0 # buf') = BUFMAX"
proof -
  have len: "length (bad @ 0 # drop (Suc (length bad)) buf) = BUFMAX" using assms(4,8) by simp
  show ?thesis
    using GetPacket_resend [OF assms(1,3,4,8,5), of "noise' @ frame_packet msg @ rest" out]
      GetPacket_frame [OF assms(2,6,7) len, of rest "out @ [ascii CHR ''-'']"] assms(4,7,8)
    by (simp add: str_def)
qed

theorem packet_resent_witness:
  "\<exists>buf'. GetPacket_loop ([ascii CHR ''+''] @ ascii CHR ''$'' # str ''g'' @ [ascii CHR ''#'', ascii CHR ''0'', ascii CHR ''0''] @ [] @
      frame_packet (str ''g'') @ [])
    [] (replicate BUFMAX 0) = Inr ([], [] @ str ''-+'', str ''g'' @ 0 # buf') \<and> length (str ''g'' @ 0 # buf') = BUFMAX"
proof (rule packet_resent)
  show "sent_checksum (ascii CHR ''0'') (ascii CHR ''0'') \<noteq> sum_list (str ''g'')" by code_simp
  show "\<forall>c \<in> set [ascii CHR ''+'']. c AND 0x7f \<noteq> ascii CHR ''$''" by code_simp
  show "\<forall>c \<in> set (str ''g''). packet_char c" by code_simp
  show "\<forall>c \<in> set (str ''g''). packet_char c" by code_simp
qed (simp_all add: str_def BUFMAX_def)

text \<open>
  The checksum of a block computed a byte at a time with the table is the one computed a bit at a time from the polynomial.
\<close>

theorem CRC32_bitwise: "CRC32 buf crc = crc_bitwise buf crc"
  by (simp only: CRC32_def crc_bitwise_def crc_byte)

text \<open>
  A dialogue needs at most one round for every character that GDB sends: with more rounds it gives the same result.
\<close>

theorem Handshake_rounds:
  assumes "length (sock_in g) < rounds"
  shows "Handshake_loop rounds tick handler val sig (g\<lparr>cthread := None, gthread := None, hs_value := val\<rparr>) s =
    Handshake tick handler val sig g s"
  unfolding Handshake_def using assms by (intro Handshake_loop_fuel) simp_all

definition sample_gdb :: "byte list \<Rightarrow> gdb" where
  "sample_gdb inp = \<lparr>remcomInBuffer = replicate BUFMAX 0, remcomOutBuffer = [], gdb_registers = replicate NUMREGS 0, sock_in = inp,
     sock_out = [], hs_value = [], cthread = None, gthread = None, singleStep = True, attached = True\<rparr>"

lemma sample_gdb_ok: "gdb_ok (sample_gdb inp)" "sock_in (sample_gdb inp) = inp" "sock_out (sample_gdb inp) = []"
  by (simp_all add: gdb_ok_def sample_gdb_def)

lemma sample_threads: "represents (allThreads (sample_system False)) [\<lparr>nt_thread = 1, nt_ID = 1\<rparr>]"
  by (simp add: sample_system_def sample_vm_def represents_one)

theorem Handshake_rounds_witness:
  "Handshake_loop 10 Inr (\<lambda>_. Inr) [] 5 ((sample_gdb [])\<lparr>cthread := None, gthread := None, hs_value := []\<rparr>) (sample_system False) =
    Handshake Inr (\<lambda>_. Inr) [] 5 (sample_gdb []) (sample_system False)"
  by (rule Handshake_rounds) (simp add: sample_gdb_ok)

lemma continue_round:
  assumes "sock_in g = frame_packet (ascii (if step then CHR ''s'' else CHR ''c'') # ds) @ rest" "set ds \<subseteq> set hexchars"
    "Suc (length ds) < BUFMAX" "gdb_ok g" "cthread g = None"
  shows "\<exists>g'. Handshake_loop (Suc n) tick handler val sig g s =
      Inr (Resume, g', s\<lparr>registers := restored ((gdb_registers g)[GDBPCReg := if ds = [] then gdb_registers g ! GDBPCReg else hex_value 0 ds])
        (registers s)\<rparr>) \<and> singleStep g' = step \<and> sock_in g' = rest \<and> sock_out g' = sock_out g @ str ''+''"
proof -
  let ?msg = "ascii (if step then CHR ''s'' else CHR ''c'') # ds"
  have chars: "\<forall>c \<in> set ?msg. packet_char c" using assms(2) command_chars hex_digit(1) by auto
  have "length ?msg < BUFMAX" using assms(3) by simp
  from Handshake_round [OF assms(1) chars this assms(4), of n tick handler val sig s]
  have "Handshake_loop (Suc n) tick handler val sig g s = bind_res (Handshake_command tick handler val sig (took ?msg rest g) s)
      (\<lambda>(v, g2, s1). if v = Reply then bind_res (PutPacket g2) (\<lambda>g3. Handshake_loop n tick handler val sig g3 s1) else Inr (v, g2, s1))" .
  moreover have "gdb_registers (took ?msg rest g) = gdb_registers g" "sock_in (took ?msg rest g) = rest"
    "sock_out (took ?msg rest g) = sock_out g @ str ''+''" by (simp_all add: took_def str_def)
  moreover obtain buf where "remcomInBuffer (took ?msg rest g) = ?msg @ 0 # buf" by (simp add: took_def)
  ultimately show ?thesis
    using Handshake_command_c [of "took ?msg rest g" step ds buf tick handler val sig s] assms(2,4,5)
    by (auto simp: gdb_ok_def took_def)
qed

text \<open>
  C30: while there are at most 125 threads, whose identifiers fit into the buffer of the stub, and GDB answers the report of an exception with
  continue or single step, with an address of hexadecimal digits or none, the stub first sends the report of the signal, the
  program counter, frame and stack pointer and the threads, and the machine goes on with every register and the whole system
  as it was, except that the program counter is the address GDB gave, if it gave one.
\<close>

theorem exception_continue:
  assumes "gdb_ok g" "represents (allThreads s) ts" "length ts \<le> 125" "set ds \<subseteq> set hexchars" "Suc (length ds) < BUFMAX"
    and "sock_in g = ascii CHR ''+'' # frame_packet (ascii (if step then CHR ''s'' else CHR ''c'') # ds) @ rest"
  shows "\<exists>g' regs. GDBCatchException tick handler val number g s =
      Inr (Resume, g', s\<lparr>registers := (registers s)(PCReg := if ds = [] then registers s PCReg else hex_value 0 ds)\<rparr>) \<and>
    singleStep g' = step \<and> sock_in g' = rest \<and> sock_out g' = sock_out g @ frame_packet (stop_report number regs ts) @ str ''+'' \<and>
    regs ! GDBPCReg = registers s PCReg \<and> regs ! 30 = registers s 30 \<and> regs ! StackReg = registers s StackReg"
proof -
  let ?msg = "ascii (if step then CHR ''s'' else CHR ''c'') # ds"
  from GDBCatchException_stops [OF assms(1-3,6), of tick handler val number] obtain regs where
    run: "GDBCatchException tick handler val number g s = Handshake_loop (Suc (length (frame_packet ?msg @ rest))) tick handler val
      (ComputeSignal number) (stopped number val regs ts (frame_packet ?msg @ rest) g) s"
    and regs: "length regs = NUMREGS" "restored regs (registers s) = registers s" by metis
  have saved: "regs ! GDBPCReg = registers s PCReg" "regs ! 30 = registers s 30" "regs ! StackReg = registers s StackReg"
    using regs(2) [THEN fun_cong, of PCReg] regs(2) [THEN fun_cong, of 30] regs(2) [THEN fun_cong, of StackReg]
    by (simp_all add: restored_def reg_defs GDBPCReg_def)
  have "restored (regs[GDBPCReg := x]) (registers s) = (restored regs (registers s))(PCReg := x)" for x
    using regs(1) by (auto simp: restored_def fun_eq_iff reg_defs GDBPCReg_def NUMREGS_def)
  then have pc: "restored (regs[GDBPCReg := if ds = [] then regs ! GDBPCReg else hex_value 0 ds]) (registers s) =
      (registers s)(PCReg := if ds = [] then registers s PCReg else hex_value 0 ds)" by (simp only: regs(2) saved(1))
  let ?g = "stopped number val regs ts (frame_packet ?msg @ rest) g"
  have st: "sock_in ?g = frame_packet ?msg @ rest" "gdb_ok ?g" "cthread ?g = None" "gdb_registers ?g = regs"
    "sock_out ?g = sock_out g @ frame_packet (stop_report number regs ts)"
    using assms(1) regs(1) by (simp_all add: stopped_def gdb_ok_def)
  from continue_round [OF st(1) assms(4,5) st(2,3), of "length (frame_packet ?msg @ rest)" tick handler val "ComputeSignal number" s]
  show ?thesis unfolding st(4,5) pc run [symmetric] using saved by (metis append.assoc)
qed

theorem exception_continue_witness:
  "\<exists>g' regs. GDBCatchException Inr (\<lambda>_. Inr) [] BreakpointException
      (sample_gdb (ascii CHR ''+'' # frame_packet (ascii (if True then CHR ''s'' else CHR ''c'') # str ''40'') @ [])) (sample_system False) =
      Inr (Resume, g', (sample_system False)\<lparr>registers := (registers (sample_system False))
        (PCReg := if str ''40'' = [] then registers (sample_system False) PCReg else hex_value 0 (str ''40''))\<rparr>) \<and>
    singleStep g' = True \<and> sock_in g' = [] \<and> sock_out g' = sock_out (sample_gdb (ascii CHR ''+'' # frame_packet
      (ascii (if True then CHR ''s'' else CHR ''c'') # str ''40'') @ [])) @
      frame_packet (stop_report BreakpointException regs [\<lparr>nt_thread = 1, nt_ID = 1\<rparr>]) @ str ''+'' \<and>
    regs ! GDBPCReg = registers (sample_system False) PCReg \<and> regs ! 30 = registers (sample_system False) 30 \<and>
    regs ! StackReg = registers (sample_system False) StackReg"
  by (rule exception_continue [OF sample_gdb_ok(1) sample_threads])
    (simp_all add: sample_gdb_ok BUFMAX_def str_def hexchars_def)

text \<open>A command that is answered, and continue.\<close>

lemma reply_continue:
  assumes "sock_in g = frame_packet msg @ inp" "inp = ascii CHR ''+'' # frame_packet (str ''c'') @ rest" "\<forall>c \<in> set msg. packet_char c"
    "length msg < BUFMAX" "gdb_ok g" "Handshake_command tick handler val sig (took msg inp g) s = Inr (Reply, g1, s1)"
    "gdb_ok g1" "cthread g1 = None"
  shows "\<exists>g'. Handshake_loop (Suc (length (frame_packet msg @ inp))) tick handler val sig g s =
      Inr (Resume, g', s1\<lparr>registers := restored (gdb_registers g1) (registers s1)\<rparr>) \<and> sock_in g' = rest"
proof -
  obtain n where n: "length (frame_packet msg @ inp) = Suc n" by (simp add: frame_packet_def)
  have "sock_in g1 = inp" using Handshake_command_keeps [of "took msg inp g" tick handler val sig s] assms(6) by (simp add: took_def)
  then have put: "PutPacket g1 = Inr (g1\<lparr>sock_in := frame_packet (str ''c'') @ rest,
      sock_out := sock_out g1 @ frame_packet (remcomOutBuffer g1)\<rparr>)" (is "_ = Inr ?g2")
    using assms(2) by (simp add: PutPacket_ok)
  have "gdb_ok ?g2" "cthread ?g2 = None" "gdb_registers ?g2 = gdb_registers g1" using assms(7,8) by (simp_all add: gdb_ok_def)
  with continue_round [of ?g2 False "[]" rest n tick handler val sig s1]
  have "\<exists>g'. Handshake_loop (Suc n) tick handler val sig ?g2 s1 =
      Inr (Resume, g', s1\<lparr>registers := restored (gdb_registers g1) (registers s1)\<rparr>) \<and> sock_in g' = rest"
    by (auto simp: str_def BUFMAX_def simp del: Handshake_loop.simps)
  then show ?thesis
    unfolding Handshake_round [OF assms(1,3,4,5)] assms(6) n by (simp add: put del: Handshake_loop.simps)
qed

text \<open>
  GDB sends a value for every register and then continues: the machine goes on with exactly these values in the general
  registers, LO, HI, the bad address and the program counter, and the rest of the system is as it was.
\<close>

theorem registers_written:
  assumes "gdb_ok g" "represents (allThreads s) ts" "length ts \<le> 125" "length ws = NUMREGS"
    and "sock_in g = ascii CHR ''+'' # frame_packet (ascii CHR ''G'' # MemToHex (words_bytes ws)) @
      ascii CHR ''+'' # frame_packet (str ''c'') @ rest"
  shows "\<exists>g'. GDBCatchException tick handler val number g s =
      Inr (Resume, g', s\<lparr>registers := restored ws (registers s)\<rparr>) \<and> sock_in g' = rest"
proof -
  let ?msg = "ascii CHR ''G'' # MemToHex (words_bytes ws)"
  let ?inp = "frame_packet ?msg @ ascii CHR ''+'' # frame_packet (str ''c'') @ rest"
  let ?sig = "ComputeSignal number"
  from GDBCatchException_stops [OF assms(1-3,5), of tick handler val number] obtain regs where
    run: "GDBCatchException tick handler val number g s = Handshake_loop (Suc (length ?inp)) tick handler val ?sig
      (stopped number val regs ts ?inp g) s"
    and regs: "length regs = NUMREGS" by metis
  let ?g = "stopped number val regs ts ?inp g"
  have st: "sock_in ?g = ?inp" "gdb_ok ?g" "gthread ?g = None" "cthread ?g = None"
    using assms(1) regs by (simp_all add: stopped_def gdb_ok_def)
  let ?g1 = "(took ?msg (ascii CHR ''+'' # frame_packet (str ''c'') @ rest) ?g)\<lparr>gdb_registers := ws, remcomOutBuffer := str ''OK''\<rparr>"
  have msg: "\<forall>c \<in> set ?msg. packet_char c" "length ?msg < BUFMAX"
    using assms(4) command_chars MemToHex_chars by (auto simp: BUFMAX_def NUMREGS_def)
  have cmd: "Handshake_command tick handler val ?sig (took ?msg (ascii CHR ''+'' # frame_packet (str ''c'') @ rest) ?g) s = Inr (Reply, ?g1, s)"
    using assms(4) st(3) by (intro Handshake_command_G) (simp_all add: took_def)
  have "gdb_ok ?g1" "cthread ?g1 = None" using st(2,4) assms(4) msg(2) by (simp_all add: gdb_ok_def took_def)
  from reply_continue [OF st(1) refl msg st(2) cmd this] show ?thesis unfolding run by simp
qed

theorem registers_written_witness:
  "\<exists>g'. GDBCatchException Inr (\<lambda>_. Inr) [] BreakpointException
      (sample_gdb (ascii CHR ''+'' # frame_packet (ascii CHR ''G'' # MemToHex (words_bytes (replicate NUMREGS 9))) @
        ascii CHR ''+'' # frame_packet (str ''c'') @ [])) (sample_system False) =
      Inr (Resume, g', (sample_system False)\<lparr>registers := restored (replicate NUMREGS 9) (registers (sample_system False))\<rparr>) \<and>
    sock_in g' = []"
  by (rule registers_written [OF sample_gdb_ok(1) sample_threads]) (simp_all add: sample_gdb_ok)

text \<open>
  GDB writes one of the registers the stub has saved and continues. The write is acknowledged, but the machine goes on with
  the saved registers: the whole system is as it was, and the write is lost.
\<close>

theorem register_write_lost:
  assumes "gdb_ok g" "represents (allThreads s) ts" "length ts \<le> 125" "sint (hex_value 0 ds) = int r" "r < 35 \<or> r = 39"
    and "set ds \<subseteq> set hexchars" "ds \<noteq> []" "set vs \<subseteq> set hexchars" "vs \<noteq> []" "length ds + length vs < BUFMAX - 2"
    and "sock_in g = ascii CHR ''+'' # frame_packet (ascii CHR ''P'' # ds @ ascii CHR ''='' # vs) @
      ascii CHR ''+'' # frame_packet (str ''c'') @ rest"
  shows "\<exists>g'. GDBCatchException tick handler val number g s = Inr (Resume, g', s) \<and> sock_in g' = rest"
proof -
  let ?msg = "ascii CHR ''P'' # ds @ ascii CHR ''='' # vs"
  let ?rest = "ascii CHR ''+'' # frame_packet (str ''c'') @ rest"
  let ?sig = "ComputeSignal number"
  from GDBCatchException_stops [OF assms(1-3,11), of tick handler val number] obtain regs where
    run: "GDBCatchException tick handler val number g s = Handshake_loop (Suc (length (frame_packet ?msg @ ?rest))) tick handler val ?sig
      (stopped number val regs ts (frame_packet ?msg @ ?rest) g) s"
    and regs: "length regs = NUMREGS"
    and saved: "\<And>f. \<forall>r \<ge> 35. r \<noteq> 39 \<longrightarrow> f r = registers s r \<Longrightarrow> restored regs f = registers s" by blast
  let ?g = "stopped number val regs ts (frame_packet ?msg @ ?rest) g"
  have st: "sock_in ?g = frame_packet ?msg @ ?rest" "gdb_ok ?g" "gthread ?g = None" "cthread ?g = None"
    using assms(1) regs by (simp_all add: stopped_def gdb_ok_def)
  have msg: "\<forall>c \<in> set ?msg. packet_char c" "length ?msg < BUFMAX"
    using assms(6,8,10) command_chars hex_digit(1) by (auto simp: BUFMAX_def)
  let ?g0 = "took ?msg ?rest ?g"
  let ?g1 = "?g0\<lparr>hs_value := (hs_value ?g0)[0 := hex_value 0 vs], remcomOutBuffer := str ''OK''\<rparr>"
  have r: "r < NumTotalRegs" using assms(5) by (auto simp: reg_defs)
  have cmd: "Handshake_command tick handler val ?sig ?g0 s = Inr (Reply, ?g1, s\<lparr>registers := (registers s)(r := hex_value 0 vs)\<rparr>)"
    using assms(6-9,4) r st(3) by (intro Handshake_command_P) (simp_all add: took_def)
  have ok: "gdb_ok ?g1" "cthread ?g1 = None" "gdb_registers ?g1 = regs"
    using st(2,4) msg(2) by (simp_all add: gdb_ok_def took_def stopped_def)
  have "restored regs ((registers s)(r := hex_value 0 vs)) = registers s" using assms(5) by (intro saved) auto
  with reply_continue [OF st(1) refl msg st(2) cmd ok(1,2)] show ?thesis unfolding run ok(3) by simp
qed

theorem register_write_lost_witness:
  "\<exists>g'. GDBCatchException Inr (\<lambda>_. Inr) [] BreakpointException
      (sample_gdb (ascii CHR ''+'' # frame_packet (ascii CHR ''P'' # str ''4'' @ ascii CHR ''='' # str ''2a'') @
        ascii CHR ''+'' # frame_packet (str ''c'') @ [])) (sample_system False) =
      Inr (Resume, g', sample_system False) \<and> sock_in g' = []"
proof -
  have "sint (hex_value 0 (str ''4'')) = int 4" by code_simp
  then show ?thesis
    by (rule register_write_lost [OF sample_gdb_ok(1) sample_threads, rotated])
      (simp_all add: sample_gdb_ok BUFMAX_def str_def hexchars_def)
qed

end
