(* ===== verification/Driver.thy ===== *)
theory Driver
  imports Synch
begin

text \<open>
  A protocol that three parts of the kernel share (\<open>filesys/synchdisk.cc\<close>, \<open>machine/console.cc\<close>, \<open>network/post.cc\<close>): a call
  takes a mutex, gives its requests to an asynchronous device one after the other, waits on a semaphore for the interrupt
  that ends each, and returns the mutex. The step relation interleaves the pieces of any number of calls with interrupts and
  with other work of the thread system. The locale states what the mutex and the device promise and shows that the
  device then serves the calls as if they came one at a time.
\<close>

section \<open>The protocol\<close>

text \<open>
  A thread in a call has requests left to make, has made some, whose results it keeps, and is at one of three places:
  entering the mutex, between requests, or waiting for the interrupt. \<open>dr_history\<close> lists the calls that have returned.
\<close>

datatype place = Entering | Working | Waiting

record ('m, 'd, 'r, 'o, 's) driver =
  dr_mutex :: 'm
  dr_done :: KernelSemaphore
  dr_dev :: 'd
  dr_sys :: 's
  dr_calls :: "nat \<rightharpoonup> 'r list \<times> ('r \<times> 'o) list \<times> place"
  outstanding :: bool
  dr_history :: "(nat \<times> ('r \<times> 'o) list) list"

inductive driver_step ::
  "('s \<Rightarrow> nat) \<Rightarrow> (nat \<Rightarrow> 's \<Rightarrow> 's res) \<Rightarrow> ('s \<Rightarrow> 's res) \<Rightarrow> ('m \<Rightarrow> 's \<Rightarrow> (bool \<times> 'm \<times> 's) res) \<Rightarrow> ('m \<Rightarrow> 's \<Rightarrow> ('m \<times> 's) res) \<Rightarrow>
   ('r \<Rightarrow> 'd \<Rightarrow> 's \<Rightarrow> ('o \<times> 'd \<times> 's) res) \<Rightarrow> ('d \<Rightarrow> 'd) \<Rightarrow> ('m, 'd, 'r, 'o, 's) driver \<Rightarrow> ('m, 'd, 'r, 'o, 's) driver \<Rightarrow> bool"
  for current make_ready sleep acquire release request complete where
  start: "dr_calls w (current (dr_sys w)) = None \<Longrightarrow>
    driver_step current make_ready sleep acquire release request complete w
      (w\<lparr>dr_calls := (dr_calls w)(current (dr_sys w) \<mapsto> (rs, [], Entering))\<rparr>)"
| queue: "dr_calls w (current (dr_sys w)) = Some (rs, os, Entering) \<Longrightarrow> acquire (dr_mutex w) (dr_sys w) = Inr (False, m, s) \<Longrightarrow>
    driver_step current make_ready sleep acquire release request complete w (w\<lparr>dr_mutex := m, dr_sys := s\<rparr>)"
| enter: "dr_calls w (current (dr_sys w)) = Some (rs, os, Entering) \<Longrightarrow> acquire (dr_mutex w) (dr_sys w) = Inr (True, m, s) \<Longrightarrow>
    driver_step current make_ready sleep acquire release request complete w
      (w\<lparr>dr_mutex := m, dr_sys := s, dr_calls := (dr_calls w)(current (dr_sys w) \<mapsto> (rs, os, Working))\<rparr>)"
| request: "dr_calls w (current (dr_sys w)) = Some (r # rs, os, Working) \<Longrightarrow> request r (dr_dev w) (dr_sys w) = Inr (out, d, s) \<Longrightarrow>
    driver_step current make_ready sleep acquire release request complete w
      (w\<lparr>dr_dev := d, dr_sys := s, dr_calls := (dr_calls w)(current (dr_sys w) \<mapsto> (rs, os @ [(r, out)], Waiting)), outstanding := True\<rparr>)"
| block: "dr_calls w (current (dr_sys w)) = Some (rs, os, Waiting) \<Longrightarrow> P_round current sleep (dr_done w) (dr_sys w) = Inr (False, k, s) \<Longrightarrow>
    driver_step current make_ready sleep acquire release request complete w (w\<lparr>dr_done := k, dr_sys := s\<rparr>)"
| proceed: "dr_calls w (current (dr_sys w)) = Some (rs, os, Waiting) \<Longrightarrow> P_round current sleep (dr_done w) (dr_sys w) = Inr (True, k, s) \<Longrightarrow>
    driver_step current make_ready sleep acquire release request complete w
      (w\<lparr>dr_done := k, dr_sys := s, dr_calls := (dr_calls w)(current (dr_sys w) \<mapsto> (rs, os, Working))\<rparr>)"
| finish: "dr_calls w (current (dr_sys w)) = Some ([], os, Working) \<Longrightarrow> release (dr_mutex w) (dr_sys w) = Inr (m, s) \<Longrightarrow>
    driver_step current make_ready sleep acquire release request complete w
      (w\<lparr>dr_mutex := m, dr_sys := s, dr_calls := (dr_calls w)(current (dr_sys w) := None),
         dr_history := dr_history w @ [(current (dr_sys w), os)]\<rparr>)"
| interrupt: "outstanding w \<Longrightarrow> V_body make_ready (dr_done w) (dr_sys w) = Inr (k, s) \<Longrightarrow>
    driver_step current make_ready sleep acquire release request complete w
      (w\<lparr>dr_done := k, dr_sys := s, dr_dev := complete (dr_dev w), outstanding := False\<rparr>)"
| other: "driver_step current make_ready sleep acquire release request complete w (w\<lparr>dr_sys := s\<rparr>)"

definition driver_init :: "'m \<Rightarrow> 'd \<Rightarrow> 's \<Rightarrow> ('m, 'd, 'r, 'o, 's) driver" where
  "driver_init m d s = \<lparr>dr_mutex = m, dr_done = KernelSemaphore_new 0, dr_dev = d, dr_sys = s, dr_calls = (\<lambda>_. None),
     outstanding = False, dr_history = []\<rparr>"

lemma driver_init_simps [simp]:
  "dr_history (driver_init m d s) = []" "dr_calls (driver_init m d s) = (\<lambda>_. None)" "dr_dev (driver_init m d s) = d"
  "dr_sys (driver_init m d s) = s" "dr_mutex (driver_init m d s) = m" "\<not> outstanding (driver_init m d s)"
  by (simp_all add: driver_init_def)

section \<open>What the mutex and the device promise\<close>

text \<open>The device as seen from outside: a request changes its contents by \<open>effect\<close>, at once; its end changes them no more.\<close>

fun replay :: "('r \<Rightarrow> 'o \<Rightarrow> 'a \<Rightarrow> 'a \<Rightarrow> bool) \<Rightarrow> ('r \<times> 'o) list \<Rightarrow> 'a \<Rightarrow> 'a \<Rightarrow> bool" where
  "replay effect [] a b \<longleftrightarrow> a = b"
| "replay effect ((r, out) # log) a b \<longleftrightarrow> (\<exists>c. effect r out a c \<and> replay effect log c b)"

lemma replay_append: "replay effect (xs @ ys) a b \<longleftrightarrow> (\<exists>c. replay effect xs a c \<and> replay effect ys c b)"
  by (induction xs arbitrary: a) (simp, force)

locale mutex =
  fixes acquire :: "'m \<Rightarrow> 's \<Rightarrow> (bool \<times> 'm \<times> 's) res" and release :: "'m \<Rightarrow> 's \<Rightarrow> ('m \<times> 's) res"
    and sane :: "'m \<Rightarrow> bool" and held :: "'m \<Rightarrow> bool"
  assumes acquire_taken: "sane m \<Longrightarrow> acquire m s = Inr (True, m', s') \<Longrightarrow> \<not> held m \<and> held m' \<and> sane m'"
    and acquire_queued: "sane m \<Longrightarrow> acquire m s = Inr (False, m', s') \<Longrightarrow> held m' = held m \<and> sane m'"
    and release_sane: "sane m \<Longrightarrow> held m \<Longrightarrow> release m s = Inr (m', s') \<Longrightarrow> sane m'"

locale device =
  fixes request :: "'r \<Rightarrow> 'd \<Rightarrow> 's \<Rightarrow> ('o \<times> 'd \<times> 's) res" and complete :: "'d \<Rightarrow> 'd"
    and good :: "'d \<Rightarrow> bool" and idle :: "'d \<Rightarrow> bool" and seen :: "'d \<Rightarrow> 'a" and effect :: "'r \<Rightarrow> 'o \<Rightarrow> 'a \<Rightarrow> 'a \<Rightarrow> bool"
  assumes request_effect: "good d \<Longrightarrow> idle d \<Longrightarrow> request r d s = Inr (out, d', s') \<Longrightarrow> good d' \<and> effect r out (seen d) (seen d')"
    and complete_idle: "good d \<Longrightarrow> good (complete d) \<and> idle (complete d) \<and> seen (complete d) = seen d"

locale driver = mutex acquire release sane held + device request complete good idle seen effect
  for acquire :: "'m \<Rightarrow> 's \<Rightarrow> (bool \<times> 'm \<times> 's) res" and release sane held
    and request :: "'r \<Rightarrow> 'd \<Rightarrow> 's \<Rightarrow> ('o \<times> 'd \<times> 's) res" and complete good idle
    and seen :: "'d \<Rightarrow> 'a" and effect

text \<open>
  At most one thread is past the mutex (\<open>inside_calls\<close>). While it is between requests the device is idle, no interrupt is due and
  the semaphore is zero; while it waits, either the interrupt is due or the semaphore holds the one unit that it has given.
\<close>

definition inside_calls :: "(nat \<rightharpoonup> 'r list \<times> ('r \<times> 'o) list \<times> place) \<Rightarrow> nat \<Rightarrow> bool" where
  "inside_calls c t \<longleftrightarrow> (\<exists>rs os p. c t = Some (rs, os, p) \<and> p \<noteq> Entering)"

definition active_log :: "('m, 'd, 'r, 'o, 's) driver \<Rightarrow> nat option \<Rightarrow> ('r \<times> 'o) list" where
  "active_log w h = (case h of None \<Rightarrow> [] | Some t \<Rightarrow> (case dr_calls w t of None \<Rightarrow> [] | Some (rs, os, p) \<Rightarrow> os))"

definition stage_ok :: "('d \<Rightarrow> bool) \<Rightarrow> ('m, 'd, 'r, 'o, 's) driver \<Rightarrow> nat option \<Rightarrow> bool" where
  "stage_ok idle w h \<longleftrightarrow>
     (case h of
        Some t \<Rightarrow> (case dr_calls w t of
            Some (rs, os, Working) \<Rightarrow> idle (dr_dev w) \<and> \<not> outstanding w \<and> sem_value (dr_done w) = 0
          | Some (rs, os, Waiting) \<Rightarrow> (outstanding w \<and> sem_value (dr_done w) = 0) \<or>
              (idle (dr_dev w) \<and> \<not> outstanding w \<and> sem_value (dr_done w) = 1)
          | _ \<Rightarrow> False)
      | None \<Rightarrow> idle (dr_dev w) \<and> \<not> outstanding w \<and> sem_value (dr_done w) = 0)"

definition driver_inv ::
  "('m \<Rightarrow> bool) \<Rightarrow> ('m \<Rightarrow> bool) \<Rightarrow> ('d \<Rightarrow> bool) \<Rightarrow> ('d \<Rightarrow> bool) \<Rightarrow> ('d \<Rightarrow> 'a) \<Rightarrow> ('r \<Rightarrow> 'o \<Rightarrow> 'a \<Rightarrow> 'a \<Rightarrow> bool) \<Rightarrow> 'a \<Rightarrow>
   ('m, 'd, 'r, 'o, 's) driver \<Rightarrow> nat option \<Rightarrow> bool" where
  "driver_inv sane held good idle seen effect a0 w h \<longleftrightarrow>
     sane (dr_mutex w) \<and> (h \<noteq> None \<longrightarrow> held (dr_mutex w)) \<and> (\<forall>t. inside_calls (dr_calls w) t \<longleftrightarrow> h = Some t) \<and> good (dr_dev w) \<and> stage_ok idle w h \<and>
     (\<forall>t rs os. dr_calls w t = Some (rs, os, Entering) \<longrightarrow> os = []) \<and>
     replay effect (concat (map snd (dr_history w)) @ active_log w h) a0 (seen (dr_dev w))"

lemma P_round_value:
  "P_round current sleep sem s = Inr (b, k, s') \<Longrightarrow>
    (b \<longleftrightarrow> sem_value sem \<noteq> 0) \<and> sem_value k = (if b then sem_value sem - 1 else sem_value sem)"
  by (auto simp: P_round_def res_eq_Inr split: if_splits)

lemma V_body_value: "V_body make_ready sem s = Inr (k, s') \<Longrightarrow> sem_value k = sem_value sem + 1"
  by (auto simp: V_body_def res_eq_Inr split: option.splits)

text \<open>What a step does to the place of the thread that takes it.\<close>

lemma inside_calls_upd:
  "inside_calls (c(t \<mapsto> (rs, os, p))) u \<longleftrightarrow> (if u = t then p \<noteq> Entering else inside_calls c u)"
  "inside_calls (c(t := None)) u \<longleftrightarrow> u \<noteq> t \<and> inside_calls c u"
  by (auto simp: inside_calls_def)

context driver
begin

lemma inv_holder:
  assumes "driver_inv sane held good idle seen effect a0 w h" "dr_calls w t = Some (rs, os, p)" "p \<noteq> Entering"
  shows "h = Some t"
  using assms unfolding driver_inv_def by (metis inside_calls_def)

lemma driver_step_inv:
  assumes "driver_step current make_ready sleep acquire release request complete w w'"
    "driver_inv sane held good idle seen effect a0 w h"
  shows "\<exists>h'. driver_inv sane held good idle seen effect a0 w' h'"
  using assms
proof (induction rule: driver_step.induct)
  case (start w rs)
  let ?t = "current (dr_sys w)"
  have "\<not> inside_calls (dr_calls w) ?t" using start.hyps by (simp add: inside_calls_def)
  with start.prems have "h \<noteq> Some ?t" by (auto simp: driver_inv_def)
  with start show ?case
    by (intro exI [of _ h]) (auto simp: driver_inv_def inside_calls_upd stage_ok_def active_log_def split: option.splits if_splits)
next
  case (queue w rs os m s)
  from acquire_queued [of "dr_mutex w" "dr_sys w" m s] queue show ?case
    by (intro exI [of _ h]) (auto simp: driver_inv_def inside_calls_def stage_ok_def active_log_def split: option.splits)
next
  case (enter w rs os m s)
  let ?t = "current (dr_sys w)"
  from acquire_taken [of "dr_mutex w" "dr_sys w" m s] enter have m: "\<not> held (dr_mutex w)" "held m" "sane m"
    by (auto simp: driver_inv_def)
  with enter.prems have h: "h = None" by (auto simp: driver_inv_def)
  have "os = []" using enter by (auto simp: driver_inv_def)
  with enter m h show ?case
    by (intro exI [of _ "Some ?t"]) (auto simp: driver_inv_def inside_calls_upd stage_ok_def active_log_def split: option.splits if_splits)
next
  case (request w r rs os out d s)
  let ?t = "current (dr_sys w)"
  have h: "h = Some ?t" using inv_holder [OF request.prems request.hyps(1)] by simp
  have st: "idle (dr_dev w)" "good (dr_dev w)" "sem_value (dr_done w) = 0" "\<not> outstanding w"
    using request.prems request.hyps(1) h by (auto simp: driver_inv_def stage_ok_def)
  from request_effect [OF st(2,1) request.hyps(2)] have eff: "good d" "effect r out (seen (dr_dev w)) (seen d)" by auto
  have "replay effect (concat (map snd (dr_history w)) @ os) a0 (seen (dr_dev w))"
    using request.prems request.hyps(1) h by (simp add: driver_inv_def active_log_def)
  then have "replay effect ((concat (map snd (dr_history w)) @ os) @ [(r, out)]) a0 (seen d)"
    using eff(2) by (subst replay_append) auto
  with request h st eff(1) show ?case
    by (intro exI [of _ "Some ?t"]) (auto simp: driver_inv_def inside_calls_upd stage_ok_def active_log_def split: if_splits)
next
  case (block w rs os k s)
  from P_round_value [OF block.hyps(2)] block show ?case
    by (intro exI [of _ h]) (auto simp: driver_inv_def inside_calls_def stage_ok_def active_log_def split: option.splits place.splits)
next
  case (proceed w rs os k s)
  let ?t = "current (dr_sys w)"
  have h: "h = Some ?t" using inv_holder [OF proceed.prems proceed.hyps(1)] by simp
  from P_round_value [OF proceed.hyps(2)] proceed h show ?case
    by (intro exI [of _ h]) (auto simp: driver_inv_def inside_calls_upd stage_ok_def active_log_def split: if_splits)
next
  case (finish w os m s)
  let ?t = "current (dr_sys w)"
  have h: "h = Some ?t" using inv_holder [OF finish.prems finish.hyps(1)] by simp
  with finish.prems release_sane [OF _ _ finish.hyps(2)] have "sane m" by (simp add: driver_inv_def)
  with finish h show ?case
    by (intro exI [of _ None]) (auto simp: driver_inv_def inside_calls_upd stage_ok_def active_log_def split: if_splits)
next
  case (interrupt w k s)
  have g: "good (dr_dev w)" using interrupt.prems by (simp add: driver_inv_def)
  obtain t rs os where h: "h = Some t" "dr_calls w t = Some (rs, os, Waiting)" "sem_value (dr_done w) = 0"
  proof -
    have st: "stage_ok idle w h" using interrupt.prems by (simp add: driver_inv_def)
    then obtain t rs os p where h: "h = Some t" "dr_calls w t = Some (rs, os, p)"
      using interrupt.hyps(1) by (auto simp: stage_ok_def split: option.splits)
    with st interrupt.hyps(1) that show thesis by (cases p) (auto simp: stage_ok_def)
  qed
  from complete_idle [OF g] V_body_value [OF interrupt.hyps(2)] h interrupt show ?case
    by (intro exI [of _ h]) (auto simp: driver_inv_def inside_calls_def stage_ok_def active_log_def)
next
  case (other w s)
  then show ?case by (intro exI [of _ h]) (cases h; simp add: driver_inv_def stage_ok_def active_log_def split: option.splits prod.splits place.splits)
qed

lemma driver_reachable_inv:
  assumes "(driver_step current make_ready sleep acquire release request complete)\<^sup>*\<^sup>* (driver_init m d s) w"
    "sane m" "good d" "idle d"
  shows "\<exists>h. driver_inv sane held good idle seen effect (seen d) w h"
  using assms(1)
proof (induction rule: rtranclp_induct)
  case base
  from assms(2-4) show ?case
    by (intro exI [of _ None]) (simp add: driver_inv_def driver_init_def inside_calls_def stage_ok_def active_log_def KernelSemaphore_new_def)
next
  case (step y z)
  then show ?case using driver_step_inv by blast
qed

text \<open>
  The device is idle whenever a thread is about to make a request; the calls that have returned and the requests of the
  thread inside are, one after the other, a run of the device; and no second thread is inside.
\<close>

lemma driver_safe:
  assumes "(driver_step current make_ready sleep acquire release request complete)\<^sup>*\<^sup>* (driver_init m d s) w"
    "sane m" "good d" "idle d"
  shows "dr_calls w t = Some (rs, os, Working) \<Longrightarrow> good (dr_dev w) \<and> idle (dr_dev w) \<and> \<not> outstanding w"
    "inside_calls (dr_calls w) t \<Longrightarrow> inside_calls (dr_calls w) u \<Longrightarrow> t = u"
    "\<exists>h. (\<forall>t. inside_calls (dr_calls w) t \<longleftrightarrow> h = Some t) \<and> replay effect (concat (map snd (dr_history w)) @ active_log w h) (seen d) (seen (dr_dev w))"
proof -
  from driver_reachable_inv [OF assms] obtain h where h: "driver_inv sane held good idle seen effect (seen d) w h" by blast
  then show "\<exists>h. (\<forall>t. inside_calls (dr_calls w) t \<longleftrightarrow> h = Some t) \<and> replay effect (concat (map snd (dr_history w)) @ active_log w h) (seen d) (seen (dr_dev w))"
    by (auto simp: driver_inv_def)
  show "inside_calls (dr_calls w) t \<Longrightarrow> inside_calls (dr_calls w) u \<Longrightarrow> t = u" using h by (auto simp: driver_inv_def)
  assume "dr_calls w t = Some (rs, os, Working)"
  moreover from inv_holder [OF h this] have "h = Some t" by simp
  ultimately show "good (dr_dev w) \<and> idle (dr_dev w) \<and> \<not> outstanding w" using h by (simp add: driver_inv_def stage_ok_def)
qed

lemma driver_sequential:
  assumes "(driver_step current make_ready sleep acquire release request complete)\<^sup>*\<^sup>* (driver_init m d s) w"
    "sane m" "good d" "idle d"
  shows "\<exists>log. replay effect (concat (map snd (dr_history w)) @ log) (seen d) (seen (dr_dev w)) \<and>
    (log = [] \<and> (\<forall>u. \<not> inside_calls (dr_calls w) u) \<or>
     (\<exists>t rs p. dr_calls w t = Some (rs, log, p) \<and> (\<forall>u. inside_calls (dr_calls w) u \<longleftrightarrow> u = t)))"
proof -
  from driver_safe(3) [OF assms] obtain h where h: "\<And>t. inside_calls (dr_calls w) t \<longleftrightarrow> h = Some t"
    "replay effect (concat (map snd (dr_history w)) @ active_log w h) (seen d) (seen (dr_dev w))" by blast
  show ?thesis
  proof (cases h)
    case None
    with h show ?thesis by (intro exI [of _ "[]"]) (simp add: active_log_def)
  next
    case (Some t)
    with h(1) [of t] obtain rs log p where "dr_calls w t = Some (rs, log, p)" by (auto simp: inside_calls_def)
    with h Some show ?thesis by (intro exI [of _ log]) (auto simp: active_log_def)
  qed
qed

end

text \<open>The first call, up to its first request.\<close>

lemma driver_first_request:
  assumes "acquire m s = Inr (True, m', s)" "request r d s = Inr (out, d', s')"
  shows "(driver_step current make_ready sleep acquire release request complete)\<^sup>*\<^sup>* (driver_init m d s)
    ((driver_init m d s)\<lparr>dr_mutex := m', dr_dev := d', dr_sys := s', dr_calls := [current s \<mapsto> (rs, [(r, out)], Waiting)],
       outstanding := True\<rparr>)"
proof -
  let ?step = "driver_step current make_ready sleep acquire release request complete" and ?w0 = "driver_init m d s"
  let ?w1 = "?w0\<lparr>dr_calls := [current s \<mapsto> (r # rs, [], Entering)]\<rparr>"
  let ?w2 = "?w0\<lparr>dr_mutex := m', dr_calls := [current s \<mapsto> (r # rs, [], Working)]\<rparr>"
  have "?step ?w0 ?w1" using driver_step.start [of ?w0 current] by (simp add: driver_init_def)
  moreover have "?step ?w1 ?w2"
    using driver_step.enter [of ?w1 current "r # rs" "[]" acquire m' s] assms(1) by (simp add: driver_init_def)
  moreover have "?step ?w2 (?w0\<lparr>dr_mutex := m', dr_dev := d', dr_sys := s', dr_calls := [current s \<mapsto> (rs, [(r, out)], Waiting)], outstanding := True\<rparr>)"
    using driver_step.request [of ?w2 current r rs "[]" request out d' s'] assms(2) by (simp add: driver_init_def)
  ultimately show ?thesis by (meson converse_rtranclp_into_rtranclp r_into_rtranclp)
qed

end
