(* ===== verification/Disk.thy ===== *)
theory Disk
  imports Interrupt Fs_Header
begin

text \<open>
  The simulated disk (\<open>machine/disk.cc\<close>) on a file of the host, with its arm, its rotation and the buffer of the current
  track: requests and the time they take, and the interrupt that ends them. A handler is a function pointer of the
  interrupt simulation with its argument. The disk is at most 1024 sectors, so its own times are small integers; the clock of
  the machine is a 32-bit word.
\<close>

section \<open>Files of the host\<close>

text \<open>
  An open file: its contents and the position (\<open>Lseek\<close>, \<open>Read\<close> and \<open>WriteFile\<close> of \<open>machine/sysdep.cc\<close>). The host reads what
  there is, and a write past the end leaves a gap of zeros.
\<close>

record host_file =
  hf_bytes :: "byte list"
  hf_pos :: nat

definition Lseek :: "int \<Rightarrow> host_file \<Rightarrow> host_file res" where
  "Lseek offset f = assert_res (0 \<le> offset) (\<lambda>_. Inr (f\<lparr>hf_pos := nat offset\<rparr>))"

definition host_Read :: "nat \<Rightarrow> host_file \<Rightarrow> (byte list \<times> host_file) res" where
  "host_Read nBytes f =
     (let bs = take nBytes (drop (hf_pos f) (hf_bytes f)) in
      assert_res (length bs = nBytes) (\<lambda>_. Inr (bs, f\<lparr>hf_pos := hf_pos f + nBytes\<rparr>)))"

definition WriteFile :: "byte list \<Rightarrow> host_file \<Rightarrow> host_file" where
  "WriteFile bs f =
     (let old = hf_bytes f @ replicate (hf_pos f - length (hf_bytes f)) 0 in
      f\<lparr>hf_bytes := take (hf_pos f) old @ bs @ drop (hf_pos f + length bs) old, hf_pos := hf_pos f + length bs\<rparr>)"

section \<open>The disk\<close>

definition MagicNumber :: uint32 where "MagicNumber = 0x456789ab"
definition MagicSize :: nat where "MagicSize = 4"
definition DiskSize :: nat where "DiskSize = MagicSize + NumSectors * SectorSize"
definition RotationTime :: int where "RotationTime = 500"
definition SeekTime :: int where "SeekTime = 500"

record 'h Disk =
  disk_file :: host_file
  disk_handler :: 'h
  disk_handlerArg :: nat
  active :: bool
  lastSector :: int
  bufferInit :: uint32
  numDiskReads :: uint32
  numDiskWrites :: uint32

text \<open>\<open>old\<close> is the file of the disk, if it exists.\<close>

definition Disk_new :: "host_file option \<Rightarrow> 'h \<Rightarrow> nat \<Rightarrow> 'h Disk res" where
  "Disk_new old callWhenDone callArg =
     bind_res
       (case old of
          Some f \<Rightarrow> bind_res (host_Read MagicSize f) (\<lambda>(bs, f1).
            assert_res (bytes_word bs = MagicNumber) (\<lambda>_. Inr f1))
        | None \<Rightarrow>
            bind_res (Lseek (int DiskSize - 4) (WriteFile (word_bytes MagicNumber) \<lparr>hf_bytes = [], hf_pos = 0\<rparr>)) (\<lambda>f1.
            Inr (WriteFile (word_bytes 0) f1)))
       (\<lambda>f. Inr \<lparr>disk_file = f, disk_handler = callWhenDone, disk_handlerArg = callArg, active = False,
          lastSector = 0, bufferInit = 0, numDiskReads = 0, numDiskWrites = 0\<rparr>)"

section \<open>Times\<close>

text \<open>
  \<open>TimeToSeek\<close> gives the seek time and the time to the next sector boundary after it. The clock \<open>totalTicks\<close> is unsigned,
  and so are its sum with the seek time and the remainder.
\<close>

definition TimeToSeek :: "int \<Rightarrow> 'h Disk \<Rightarrow> uint32 \<Rightarrow> int \<times> int" where
  "TimeToSeek newSector d now =
     (let newTrack = newSector sdiv int SectorsPerTrack; oldTrack = lastSector d sdiv int SectorsPerTrack;
          seek = \<bar>newTrack - oldTrack\<bar> * SeekTime;
          over = sint ((now + word_of_int seek) mod word_of_int RotationTime)
      in (seek, if over > 0 then RotationTime - over else 0))"

definition ModuloDiff :: "int \<Rightarrow> int \<Rightarrow> int" where
  "ModuloDiff to' frm =
     ((to' smod int SectorsPerTrack - frm smod int SectorsPerTrack) + int SectorsPerTrack) smod int SectorsPerTrack"

definition ComputeLatency :: "int \<Rightarrow> bool \<Rightarrow> 'h Disk \<Rightarrow> uint32 \<Rightarrow> int" where
  "ComputeLatency newSector writing d now =
     (let (seek, rotation) = TimeToSeek newSector d now;
          timeAfter = now + word_of_int seek + word_of_int rotation
      in if \<not> writing \<and> seek = 0 \<and>
           sint (timeAfter - bufferInit d) sdiv RotationTime > ModuloDiff newSector (sint (bufferInit d) sdiv RotationTime)
         then RotationTime
         else seek + (rotation + ModuloDiff newSector (sint timeAfter sdiv RotationTime) * RotationTime) + RotationTime)"

definition UpdateLast :: "int \<Rightarrow> uint32 \<Rightarrow> 'h Disk \<Rightarrow> 'h Disk" where
  "UpdateLast newSector now d =
     (let (seek, rotate) = TimeToSeek newSector d now;
          d1 = (if seek \<noteq> 0 then d\<lparr>bufferInit := now + word_of_int seek + word_of_int rotate\<rparr> else d)
      in d1\<lparr>lastSector := newSector\<rparr>)"

section \<open>Requests\<close>

definition sector_offset :: "int \<Rightarrow> int" where
  "sector_offset sectorNumber = int SectorSize * sectorNumber + int MagicSize"

text \<open>
  \<open>done\<close> is the function pointer \<open>DiskDone\<close> and \<open>this\<close> the address of the disk, with which the end of the request is scheduled.
\<close>

definition ReadRequest ::
  "('h system \<Rightarrow> 'h system res) \<Rightarrow> 'h \<Rightarrow> nat \<Rightarrow> int \<Rightarrow> 'h Disk \<Rightarrow> 'h system \<Rightarrow> (byte list \<times> 'h Disk \<times> 'h system) res" where
  "ReadRequest tick done' this sectorNumber d s =
     (let ticks = ComputeLatency sectorNumber False d (totalTicks s) in
      assert_res (\<not> active d) (\<lambda>_.
      assert_res (0 \<le> sectorNumber \<and> sectorNumber < int NumSectors) (\<lambda>_.
      bind_res (Lseek (sector_offset sectorNumber) (disk_file d)) (\<lambda>f1.
      bind_res (host_Read SectorSize f1) (\<lambda>(data, f2).
      let d1 = UpdateLast sectorNumber (totalTicks s) (d\<lparr>disk_file := f2, active := True\<rparr>);
          d2 = d1\<lparr>numDiskReads := numDiskReads d1 + 1\<rparr> in
      bind_res (Schedule tick done' this (word_of_int ticks) DiskInt s) (\<lambda>s1. Inr (data, d2, s1)))))))"

definition WriteRequest ::
  "('h system \<Rightarrow> 'h system res) \<Rightarrow> 'h \<Rightarrow> nat \<Rightarrow> int \<Rightarrow> byte list \<Rightarrow> 'h Disk \<Rightarrow> 'h system \<Rightarrow> ('h Disk \<times> 'h system) res" where
  "WriteRequest tick done' this sectorNumber data d s =
     (let ticks = ComputeLatency sectorNumber True d (totalTicks s) in
      assert_res (\<not> active d) (\<lambda>_.
      assert_res (0 \<le> sectorNumber \<and> sectorNumber < int NumSectors) (\<lambda>_.
      bind_res (Lseek (sector_offset sectorNumber) (disk_file d)) (\<lambda>f1.
      if length data < SectorSize then Inl IndexOutOfBounds
      else
        (let d1 = UpdateLast sectorNumber (totalTicks s) (d\<lparr>disk_file := WriteFile (take SectorSize data) f1, active := True\<rparr>);
             d2 = d1\<lparr>numDiskWrites := numDiskWrites d1 + 1\<rparr> in
         bind_res (Schedule tick done' this (word_of_int ticks) DiskInt s) (\<lambda>s1. Inr (d2, s1)))))))"

text \<open>\<open>call\<close> is the call through the handler of the disk.\<close>

definition Disk_HandleInterrupt :: "('h \<Rightarrow> nat \<Rightarrow> 's res) \<Rightarrow> 'h Disk \<Rightarrow> ('h Disk \<times> 's) res" where
  "Disk_HandleInterrupt call d =
     (let d1 = d\<lparr>active := False\<rparr> in
      bind_res (call (disk_handler d1) (disk_handlerArg d1)) (\<lambda>s. Inr (d1, s)))"

section \<open>What a request takes\<close>

text \<open>A sector begins to pass under the head at a tick.\<close>

definition head_at :: "int \<Rightarrow> int \<Rightarrow> bool" where
  "head_at tick sector \<longleftrightarrow> RotationTime dvd tick \<and> (tick div RotationTime) mod int SectorsPerTrack = sector mod int SectorsPerTrack"

definition valid_sector :: "int \<Rightarrow> bool" where
  "valid_sector n \<longleftrightarrow> 0 \<le> n \<and> n < int NumSectors"

text \<open>The clock is far enough from its end; the buffer of the track was started at a sector boundary.\<close>

definition clock_ok :: "uint32 \<Rightarrow> bool" where
  "clock_ok now \<longleftrightarrow> 0 \<le> sint now \<and> sint now < 2 ^ 31 - 40000"

definition arm_ok :: "'h Disk \<Rightarrow> bool" where
  "arm_ok d \<longleftrightarrow> valid_sector (lastSector d) \<and> 0 \<le> sint (bufferInit d) \<and> RotationTime dvd sint (bufferInit d)"

lemma signed_nonneg: "0 \<le> a \<Longrightarrow> 0 < b \<Longrightarrow> a sdiv b = a div (b :: int) \<and> a smod b = a mod b"
  by (auto simp: signed_divide_int_def signed_modulo_int_def sgn_if minus_div_mult_eq_mod)

lemma sint_plus:
  assumes "0 \<le> sint (x :: uint32) + i" "sint x + i < 2 ^ 31" shows "sint (x + word_of_int i) = sint x + i"
proof -
  have "x + word_of_int i = word_of_int (sint x + i)" by simp
  with assms show ?thesis using sint_of_int [of "sint x + i"] by simp
qed

lemma round_up:
  assumes "0 \<le> (x :: int)"
  shows "500 dvd x + (if 0 < x mod 500 then 500 - x mod 500 else 0)" "(if 0 < x mod 500 then 500 - x mod 500 else 0) \<in> {0..499}"
proof -
  have "x = 500 * (x div 500) + x mod 500" "0 \<le> x mod 500" "x mod 500 < 500" by simp_all
  then have "x + (500 - x mod 500) = 500 * (x div 500 + 1)" "x mod 500 = 0 \<Longrightarrow> x = 500 * (x div 500)"
    by (simp_all add: algebra_simps)
  with \<open>0 \<le> x mod 500\<close> show "500 dvd x + (if 0 < x mod 500 then 500 - x mod 500 else 0)"
    by (metis add.right_neutral dvd_triv_left order_le_less)
  show "(if 0 < x mod 500 then 500 - x mod 500 else 0) \<in> {0..499}" using \<open>x mod 500 < 500\<close> by auto
qed

text \<open>While the clock is not negative as a signed number, the unsigned remainder is that of the integers.\<close>

lemma over_mod:
  assumes "0 \<le> sint (w :: uint32)" shows "sint (w mod word_of_int 500) = sint w mod 500"
proof -
  have n: "sint w < 2 ^ 31" using sint_lt [of w] by simp
  then have "uint (word_of_int (sint w) :: uint32) = sint w" using assms by (intro uint_of_int) simp_all
  then have "uint w = sint w" by simp
  then have "uint (w mod word_of_int 500) = sint w mod 500" by (simp add: uint_mod_distrib)
  then have "w mod word_of_int 500 = word_of_int (sint w mod 500)" by (metis word_of_int_uint)
  moreover have "sint (word_of_int (sint w mod 500) :: uint32) = sint w mod 500"
  proof (rule sint_of_int)
    show "- (2 ^ 31) \<le> sint w mod 500" by (rule order_trans [of _ 0]) simp_all
    show "sint w mod 500 < 2 ^ 31" by (rule less_trans [of _ 500]) simp_all
  qed
  ultimately show ?thesis by (simp only:)
qed

lemma TimeToSeek_ok:
  assumes "valid_sector n" "arm_ok d" "clock_ok now" "TimeToSeek n d now = (seek, rotation)"
  shows "0 \<le> seek" "seek \<le> 15500" "0 \<le> rotation" "rotation < RotationTime" "RotationTime dvd sint now + seek + rotation"
    "sint (now + word_of_int seek + word_of_int rotation) = sint now + seek + rotation"
proof -
  let ?nt = "n div 32" and ?ot = "lastSector d div 32"
  have "0 \<le> ?nt" "?nt < 32" "0 \<le> ?ot" "?ot < 32"
    using assms(1,2) by (auto simp: valid_sector_def arm_ok_def NumSectors_def SectorsPerTrack_def NumTracks_def)
  then have nonneg: "n sdiv 32 = ?nt" "lastSector d sdiv 32 = ?ot" "\<bar>?nt - ?ot\<bar> \<le> 31"
    using assms(1,2) signed_nonneg [of _ 32] by (auto simp: valid_sector_def arm_ok_def)
  have s: "seek = \<bar>?nt - ?ot\<bar> * 500" using assms(4) by (simp add: TimeToSeek_def Let_def SectorsPerTrack_def SeekTime_def nonneg)
  then show seek: "0 \<le> seek" "seek \<le> 15500" using nonneg(3) by auto
  have now: "0 \<le> sint now" "sint now < 2 ^ 31 - 40000" using assms(3) by (auto simp: clock_ok_def)
  have after: "sint (now + word_of_int seek) = sint now + seek" using seek now by (intro sint_plus) simp_all
  have r: "rotation = (if 0 < (sint now + seek) mod 500 then 500 - (sint now + seek) mod 500 else 0)"
  proof -
    have "int SectorsPerTrack = 32" by (simp add: SectorsPerTrack_def)
    let ?over = "sint ((now + word_of_int seek) mod word_of_int 500)"
    from assms(4) \<open>int SectorsPerTrack = 32\<close> have "(if ?over > 0 then 500 - ?over else 0) = rotation"
      unfolding TimeToSeek_def Let_def SeekTime_def RotationTime_def by (simp only: nonneg(1,2) s prod.inject)
    moreover have "?over = (sint now + seek) mod 500" using over_mod [of "now + word_of_int seek"] after seek now by simp
    ultimately show ?thesis by (simp only:)
  qed
  have "0 \<le> sint now + seek" using seek now by simp
  note up = round_up [OF this]
  then show rot: "0 \<le> rotation" "rotation < RotationTime" "RotationTime dvd sint now + seek + rotation"
    unfolding r RotationTime_def by auto
  show "sint (now + word_of_int seek + word_of_int rotation) = sint now + seek + rotation"
    using sint_plus [of "now + word_of_int seek" rotation] after seek now rot(1,2) by (simp add: RotationTime_def)
qed

lemma ModuloDiff_ok:
  assumes "0 \<le> to'" "0 \<le> frm"
  shows "0 \<le> ModuloDiff to' frm" "ModuloDiff to' frm < 32" "(frm + ModuloDiff to' frm) mod 32 = to' mod 32"
proof -
  have "0 \<le> to' mod 32 - frm mod 32 + 32" using pos_mod_bound [of 32 frm] pos_mod_sign [of 32 to'] by linarith
  then have m: "ModuloDiff to' frm = (to' mod 32 - frm mod 32 + 32) mod 32"
    using assms signed_nonneg [of _ 32] by (simp add: ModuloDiff_def SectorsPerTrack_def)
  then show "0 \<le> ModuloDiff to' frm" "ModuloDiff to' frm < 32" by simp_all
  show "(frm + ModuloDiff to' frm) mod 32 = to' mod 32" unfolding m by (simp add: mod_simps)
qed

text \<open>
  A request takes from one to 64 sector times and a seek over all tracks; by its end the sector has passed under the head, after
  the seek or, for the buffer of the track, since that was started.
\<close>

lemma latency_ok:
  assumes "valid_sector n" "arm_ok d" "clock_ok now"
  shows "RotationTime \<le> ComputeLatency n writing d now" "ComputeLatency n writing d now < 32000"
    "\<exists>start. head_at start n \<and> start + RotationTime \<le> sint now + ComputeLatency n writing d now \<and>
      (sint now + \<bar>n div int SectorsPerTrack - lastSector d div int SectorsPerTrack\<bar> * SeekTime \<le> start \<or>
       \<not> writing \<and> n div int SectorsPerTrack = lastSector d div int SectorsPerTrack \<and> sint (bufferInit d) \<le> start)"
proof -
  obtain seek rotation where ts: "TimeToSeek n d now = (seek, rotation)" by (cases "TimeToSeek n d now")
  note t = TimeToSeek_ok [OF assms ts]
  have now: "0 \<le> sint now" "sint now < 2 ^ 31 - 40000" using assms(3) by (auto simp: clock_ok_def)
  have n: "0 \<le> n" "0 \<le> lastSector d" using assms(1,2) by (auto simp: valid_sector_def arm_ok_def)
  have seek: "seek = \<bar>n div 32 - lastSector d div 32\<bar> * 500"
    using ts signed_nonneg [of n 32] signed_nonneg [of "lastSector d" 32] n
    by (simp add: TimeToSeek_def Let_def SectorsPerTrack_def SeekTime_def)
  let ?after = "sint now + seek + rotation"
  let ?turn = "ModuloDiff n (?after div 500)"
  let ?start = "sint (bufferInit d)"
  let ?turn' = "ModuloDiff n (?start div 500)"
  have after: "0 \<le> ?after" using t now by simp
  have start: "0 \<le> ?start" "500 dvd ?start" using assms(2) by (auto simp: arm_ok_def RotationTime_def)
  have quot: "0 \<le> ?after div 500" "0 \<le> ?start div 500"
    using after start(1) by (simp_all add: pos_imp_zdiv_nonneg_iff)
  note m = ModuloDiff_ok [OF n(1) quot(1)] and m' = ModuloDiff_ok [OF n(1) quot(2)]
  let ?buffered = "\<not> writing \<and> seek = 0 \<and> sint (now + word_of_int seek + word_of_int rotation - bufferInit d) sdiv 500 > ?turn'"
  have latency: "ComputeLatency n writing d now = (if ?buffered then 500 else seek + (rotation + ?turn * 500) + 500)"
  proof -
    have "?start sdiv 500 = ?start div 500" "?after sdiv 500 = ?after div 500"
      using signed_nonneg [OF start(1), of 500] signed_nonneg [OF after, of 500] by simp_all
    then show ?thesis by (simp only: ComputeLatency_def Let_def RotationTime_def ts t(6) prod.case)
  qed
  have after_dvd: "500 dvd ?after" using t(5) by (simp add: RotationTime_def)
  have head: "head_at (x + ModuloDiff n (x div 500) * 500) n" if x: "0 \<le> x" "500 dvd x" for x
  proof -
    obtain q where q: "x = 500 * q" using x(2) by (elim dvdE)
    then have "0 \<le> q" using x(1) by simp
    moreover have "(x + ModuloDiff n (x div 500) * 500) div 500 = q + ModuloDiff n q"
      using q by (simp add: div_add)
    ultimately show ?thesis
      using x(2) ModuloDiff_ok(3) [OF n(1), of q] by (simp add: head_at_def RotationTime_def SectorsPerTrack_def)
  qed
  show "RotationTime \<le> ComputeLatency n writing d now" "ComputeLatency n writing d now < 32000"
    unfolding latency using t(1-4) m after by (auto simp: RotationTime_def)
  show "\<exists>start. head_at start n \<and> start + RotationTime \<le> sint now + ComputeLatency n writing d now \<and>
      (sint now + \<bar>n div int SectorsPerTrack - lastSector d div int SectorsPerTrack\<bar> * SeekTime \<le> start \<or>
       \<not> writing \<and> n div int SectorsPerTrack = lastSector d div int SectorsPerTrack \<and> sint (bufferInit d) \<le> start)"
  proof (cases ?buffered)
    case False
    have "ComputeLatency n writing d now = seek + (rotation + ?turn * 500) + 500" by (rule trans [OF latency if_not_P [OF False]])
    then show ?thesis
      using head [OF after after_dvd] t(3) m(1) after
      by (intro exI [of _ "?after + ?turn * 500"]) (simp add: RotationTime_def SectorsPerTrack_def SeekTime_def seek [symmetric])
  next
    case True
    have "now + word_of_int seek + word_of_int rotation - bufferInit d = word_of_int (?after - ?start)" by simp
    then have diff: "sint (now + word_of_int seek + word_of_int rotation - bufferInit d) = ?after - ?start"
      using t now start(1) sint_bounds(2) [of "bufferInit d"] sint_of_int [of "?after - ?start"] by (simp add: RotationTime_def)
    have pos: "0 \<le> ?after - ?start"
    proof (rule ccontr)
      assume "\<not> 0 \<le> ?after - ?start"
      then have "(?after - ?start) sdiv 500 \<le> 0" by (auto simp: signed_divide_int_def sgn_if)
      with True m'(1) start(1) diff show False by simp
    qed
    have turn: "?turn' + 1 \<le> (?after - ?start) div 500"
    proof -
      have "(?after - ?start) sdiv 500 = (?after - ?start) div 500" using signed_nonneg [OF pos, of 500] by simp
      with True show ?thesis unfolding diff by linarith
    qed
    with le_div_int [of 500 "?turn' + 1" "?after - ?start"] have "(?turn' + 1) * 500 \<le> ?after - ?start" by simp
    moreover have "ComputeLatency n writing d now = 500" by (rule trans [OF latency if_P [OF True]])
    moreover have "n div 32 = lastSector d div 32" using True seek by simp
    ultimately show ?thesis
      using head [OF start] t(4) True m'(1) start(1)
      by (intro exI [of _ "?start + ?turn' * 500"]) (simp add: RotationTime_def SectorsPerTrack_def)
  qed
qed

lemma UpdateLast_ok:
  assumes "valid_sector n" "arm_ok d" "clock_ok now"
  shows "arm_ok (UpdateLast n now d)"
proof -
  obtain seek rotation where ts: "TimeToSeek n d now = (seek, rotation)" by (cases "TimeToSeek n d now")
  note t = TimeToSeek_ok [OF assms ts]
  have "0 \<le> sint now" using assms(3) by (auto simp: clock_ok_def)
  with t assms(1,2) show ?thesis by (simp add: UpdateLast_def ts arm_ok_def)
qed

section \<open>What a request does to the contents\<close>

text \<open>The file holds the magic number and then the sectors one after the other.\<close>

definition contents :: "'h Disk \<Rightarrow> disk" where
  "contents d n i = (if n < NumSectors \<and> i < SectorSize then hf_bytes (disk_file d) ! (MagicSize + n * SectorSize + i) else 0)"

definition file_ok :: "'h Disk \<Rightarrow> bool" where
  "file_ok d \<longleftrightarrow> length (hf_bytes (disk_file d)) = DiskSize \<and> take MagicSize (hf_bytes (disk_file d)) = word_bytes MagicNumber"

lemma sector_in_file:
  assumes "valid_sector n"
  shows "0 \<le> sector_offset n" "nat (sector_offset n) = MagicSize + nat n * SectorSize" "nat (sector_offset n) + SectorSize \<le> DiskSize"
    "nat n < NumSectors"
proof -
  obtain k where k: "n = int k" "k < NumSectors" using assms by (auto simp: valid_sector_def elim: nonneg_int_cases)
  then have o: "sector_offset n = int (MagicSize + k * SectorSize)" by (simp add: sector_offset_def)
  have "Suc k * SectorSize \<le> NumSectors * SectorSize" using k(2) by (intro mult_right_mono) simp_all
  moreover have p: "nat (sector_offset n) = MagicSize + k * SectorSize" unfolding o by (rule nat_int)
  ultimately show "nat (sector_offset n) + SectorSize \<le> DiskSize" by (simp add: DiskSize_def)
  show "nat (sector_offset n) = MagicSize + nat n * SectorSize" "nat n < NumSectors" using p k by simp_all
  show "0 \<le> sector_offset n" unfolding o by simp
qed

lemma UpdateLast_simps [simp]:
  "disk_file (UpdateLast n now d) = disk_file d" "active (UpdateLast n now d) = active d"
  "disk_handler (UpdateLast n now d) = disk_handler d" "disk_handlerArg (UpdateLast n now d) = disk_handlerArg d"
  by (simp_all add: UpdateLast_def split: prod.split)

lemma UpdateLast_arm:
  assumes "valid_sector n" "arm_ok d" "clock_ok now" "lastSector d' = lastSector d" "bufferInit d' = bufferInit d"
  shows "arm_ok (UpdateLast n now d')"
  using UpdateLast_ok [OF assms(1) _ assms(3), of d'] assms(2,4,5) by (simp add: arm_ok_def)

text \<open>A request that is accepted does to the contents what the file system relies on.\<close>

lemma ReadRequest_effect:
  assumes "ReadRequest tick done' this n d s = Inr (data, d1, s1)" "file_ok d"
  shows "ReadSector n (contents d) = Inr data" "contents d1 = contents d" "file_ok d1" "active d1"
    "disk_handler d1 = disk_handler d" "disk_handlerArg d1 = disk_handlerArg d"
proof -
  have v: "valid_sector n" using assms(1) by (auto simp: ReadRequest_def Let_def res_eq_Inr valid_sector_def)
  note o = sector_in_file [OF v]
  let ?data = "take SectorSize (drop (nat (sector_offset n)) (hf_bytes (disk_file d)))"
  have len: "length (hf_bytes (disk_file d)) = DiskSize" using assms(2) by (simp add: file_ok_def)
  from assms(1) have run: "data = ?data" "disk_file d1 = (disk_file d)\<lparr>hf_pos := nat (sector_offset n) + SectorSize\<rparr>" "active d1"
    "disk_handler d1 = disk_handler d" "disk_handlerArg d1 = disk_handlerArg d"
    by (auto simp: ReadRequest_def Let_def res_eq_Inr Lseek_def host_Read_def)
  have "?data = map (contents d (nat n)) [0..<SectorSize]"
    using o(3,4) len by (intro nth_equalityI) (simp_all add: contents_def o(2) add.assoc)
  then show "ReadSector n (contents d) = Inr data" using v run(1) by (simp add: ReadSector_def valid_sector_def)
  show "contents d1 = contents d" "file_ok d1" using run(2) assms(2) by (simp_all add: contents_def file_ok_def fun_eq_iff)
  show "active d1" "disk_handler d1 = disk_handler d" "disk_handlerArg d1 = disk_handlerArg d" using run by simp_all
qed

lemma WriteRequest_effect:
  assumes "WriteRequest tick done' this n data d s = Inr (d1, s1)" "file_ok d"
  shows "WriteSector n data (contents d) = Inr (contents d1)" "file_ok d1" "active d1"
    "disk_handler d1 = disk_handler d" "disk_handlerArg d1 = disk_handlerArg d"
proof -
  have v: "valid_sector n" "SectorSize \<le> length data"
    using assms(1) by (auto simp: WriteRequest_def Let_def res_eq_Inr valid_sector_def split: if_splits)
  note o = sector_in_file [OF v(1)]
  let ?p = "nat (sector_offset n)" and ?f = "hf_bytes (disk_file d)" and ?data = "take SectorSize data"
  have len: "length ?f = DiskSize" using assms(2) by (simp add: file_ok_def)
  let ?bytes = "take ?p ?f @ ?data @ drop (?p + SectorSize) ?f"
  have "WriteFile ?data ((disk_file d)\<lparr>hf_pos := ?p\<rparr>) = (disk_file d)\<lparr>hf_bytes := ?bytes, hf_pos := ?p + SectorSize\<rparr>"
    using o(3) len v(2) by (simp add: WriteFile_def Let_def min_def)
  with assms(1) v(2) have run: "hf_bytes (disk_file d1) = ?bytes" "active d1"
    "disk_handler d1 = disk_handler d" "disk_handlerArg d1 = disk_handlerArg d"
    by (auto simp: WriteRequest_def Let_def res_eq_Inr Lseek_def)
  have byte: "?bytes ! j = (if ?p \<le> j \<and> j < ?p + SectorSize then data ! (j - ?p) else ?f ! j)" if "j < DiskSize" for j
    using that o(3) len v(2) by (auto simp: nth_append min_def)
  have "contents d1 k i = (if k = nat n then data ! i else contents d k i)" if ki: "k < NumSectors" "i < SectorSize" for k i
  proof -
    have "Suc k * SectorSize \<le> NumSectors * SectorSize" using ki(1) by (intro mult_right_mono) simp_all
    then have j: "MagicSize + k * SectorSize + i < DiskSize" using ki(2) by (simp add: DiskSize_def)
    have "?p \<le> MagicSize + k * SectorSize + i \<and> MagicSize + k * SectorSize + i < ?p + SectorSize \<longleftrightarrow> k = nat n"
    proof (cases k "nat n" rule: linorder_cases)
      case less
      then have "Suc k * SectorSize \<le> nat n * SectorSize" by (intro mult_right_mono) simp_all
      with less ki(2) show ?thesis by (simp add: o(2))
    next
      case greater
      then have "Suc (nat n) * SectorSize \<le> k * SectorSize" by (intro mult_right_mono) simp_all
      with greater show ?thesis by (simp add: o(2))
    qed (use ki(2) in \<open>simp add: o(2)\<close>)
    with byte [OF j] ki show ?thesis by (auto simp: contents_def o(2) run(1))
  qed
  then have "contents d1 = (contents d)(nat n := (\<lambda>i. if i < SectorSize then data ! i else contents d (nat n) i))"
    using o(4) by (auto simp: fun_eq_iff contents_def)
  then show "WriteSector n data (contents d) = Inr (contents d1)" using v(1) by (simp add: WriteSector_def valid_sector_def)
  have "length ?bytes = DiskSize" "take MagicSize ?bytes = take MagicSize ?f"
    using o(2,3) len v(2) by (simp_all add: min_def SectorSize_def)
  then show "file_ok d1" using assms(2) by (simp add: file_ok_def run(1))
  show "active d1" "disk_handler d1 = disk_handler d" "disk_handlerArg d1 = disk_handlerArg d" using run by simp_all
qed

text \<open>A request on an idle disk is accepted as soon as its interrupt can be scheduled.\<close>

lemma ReadRequest_ok:
  assumes "file_ok d" "arm_ok d" "\<not> active d" "valid_sector n" "clock_ok (totalTicks s)"
    "Schedule tick done' this (word_of_int (ComputeLatency n False d (totalTicks s))) DiskInt s = Inr s1"
  obtains data d1 where "ReadRequest tick done' this n d s = Inr (data, d1, s1)" "arm_ok d1"
proof -
  note o = sector_in_file [OF assms(4)]
  let ?f2 = "(disk_file d)\<lparr>hf_pos := nat (sector_offset n) + SectorSize\<rparr>"
  let ?d1 = "UpdateLast n (totalTicks s) (d\<lparr>disk_file := ?f2, active := True\<rparr>)"
  have "arm_ok ?d1" by (rule UpdateLast_arm [OF assms(4) assms(2,5)]) simp_all
  then have arm: "arm_ok (?d1\<lparr>numDiskReads := numDiskReads ?d1 + 1\<rparr>)" by (simp add: arm_ok_def)
  show thesis
    by (rule that [OF _ arm]) (use assms(1,3,4,6) o(1,3) in \<open>simp add: ReadRequest_def Let_def Lseek_def host_Read_def valid_sector_def file_ok_def\<close>)
qed

lemma WriteRequest_ok:
  assumes "arm_ok d" "\<not> active d" "valid_sector n" "clock_ok (totalTicks s)" "SectorSize \<le> length data"
    "Schedule tick done' this (word_of_int (ComputeLatency n True d (totalTicks s))) DiskInt s = Inr s1"
  obtains d1 where "WriteRequest tick done' this n data d s = Inr (d1, s1)" "arm_ok d1"
proof -
  note o = sector_in_file [OF assms(3)]
  let ?f2 = "WriteFile (take SectorSize data) ((disk_file d)\<lparr>hf_pos := nat (sector_offset n)\<rparr>)"
  let ?d1 = "UpdateLast n (totalTicks s) (d\<lparr>disk_file := ?f2, active := True\<rparr>)"
  have "arm_ok ?d1" by (rule UpdateLast_arm [OF assms(3) assms(1,4)]) simp_all
  then have arm: "arm_ok (?d1\<lparr>numDiskWrites := numDiskWrites ?d1 + 1\<rparr>)" by (simp add: arm_ok_def)
  show thesis
    by (rule that [OF _ arm]) (use assms(2,3,5,6) o(1) in \<open>simp add: WriteRequest_def Let_def Lseek_def valid_sector_def\<close>)
qed

text \<open>A new disk is all zeros; opening its file again finds the same contents.\<close>

lemma Disk_new_fresh:
  "\<exists>d. Disk_new None h a = Inr d \<and> file_ok d \<and> arm_ok d \<and> \<not> active d \<and> contents d = (\<lambda>_ _. 0)"
proof -
  let ?bytes = "word_bytes MagicNumber @ replicate (DiskSize - 8) 0 @ word_bytes 0"
  let ?d = "\<lparr>disk_file = \<lparr>hf_bytes = ?bytes, hf_pos = DiskSize\<rparr>, disk_handler = h, disk_handlerArg = a, active = False,
    lastSector = 0, bufferInit = 0, numDiskReads = 0, numDiskWrites = 0\<rparr>"
  have size: "DiskSize = 131076" by (simp add: DiskSize_def MagicSize_def NumSectors_def SectorsPerTrack_def NumTracks_def SectorSize_def)
  have zero: "word_bytes 0 = replicate 4 (0 :: byte)" by code_simp
  have "?bytes = word_bytes MagicNumber @ replicate (DiskSize - 4) 0"
    unfolding zero replicate_add [symmetric] by (simp add: size)
  moreover have "Disk_new None h a = Inr ?d"
    by (simp add: Disk_new_def Lseek_def WriteFile_def size)
  ultimately show ?thesis
    by (auto simp: file_ok_def arm_ok_def valid_sector_def contents_def MagicSize_def nth_append fun_eq_iff size NumSectors_def SectorsPerTrack_def
      NumTracks_def SectorSize_def)
qed

lemma Disk_new_again:
  assumes "file_ok d" "hf_pos (disk_file d) = 0"
  shows "\<exists>d'. Disk_new (Some (disk_file d)) h a = Inr d' \<and> file_ok d' \<and> arm_ok d' \<and> \<not> active d' \<and> contents d' = contents d"
proof -
  have "bytes_word (take MagicSize (hf_bytes (disk_file d))) = MagicNumber"
    using assms(1) word_bytes_inverse [of MagicNumber] by (simp add: file_ok_def)
  with assms show ?thesis
    by (auto simp: Disk_new_def host_Read_def MagicSize_def file_ok_def arm_ok_def valid_sector_def contents_def fun_eq_iff DiskSize_def NumSectors_def
      SectorsPerTrack_def NumTracks_def)
qed

end
