(* ===== verification/SynchDisk.thy ===== *)
theory SynchDisk
  imports Driver Disk
begin

text \<open>
  The synchronous disk (\<open>filesys/synchdisk.cc\<close>): \<open>ReadSector\<close> and \<open>WriteSector\<close> take the lock, make one request and wait for its
  interrupt on the semaphore. Both are calls of the protocol of \<open>Driver\<close>, with the lock as mutex and the disk as device.
\<close>

section \<open>Mutexes\<close>

text \<open>A lock, and a semaphore that starts at one.\<close>

interpretation lock_mutex: mutex "Acquire_round current sleep" "Release_body make_ready" "\<lambda>_. True" "\<lambda>l. lock_owner l \<noteq> None"
  for current sleep make_ready
  by unfold_locales (auto simp: Acquire_round_def res_eq_Inr split: if_splits)

definition binary :: "KernelSemaphore \<Rightarrow> bool" where
  "binary k \<longleftrightarrow> sem_value k = 0 \<or> sem_value k = 1"

interpretation sem_mutex: mutex "P_round current sleep" "V_body make_ready" binary "\<lambda>k. sem_value k = 0"
  for current sleep make_ready
  by unfold_locales (auto simp: binary_def dest!: P_round_value V_body_value)

section \<open>The operations\<close>

datatype disk_request = Read_sector int | Write_sector int "byte list"

definition SynchDisk_request ::
  "('h system \<Rightarrow> 'h system res) \<Rightarrow> 'h \<Rightarrow> nat \<Rightarrow> disk_request \<Rightarrow> 'h Disk \<Rightarrow> 'h system \<Rightarrow> (byte list \<times> 'h Disk \<times> 'h system) res" where
  "SynchDisk_request tick done' this r d s =
     (case r of
        Read_sector n \<Rightarrow> ReadRequest tick done' this n d s
      | Write_sector n data \<Rightarrow> bind_res (WriteRequest tick done' this n data d s) (\<lambda>(d1, s1). Inr ([], d1, s1)))"

text \<open>The interrupt ends the request and calls \<open>RequestDone\<close>, which is the \<open>V\<close> of the protocol.\<close>

definition SynchDisk_step ::
  "('h system \<Rightarrow> 'h system res) \<Rightarrow> ('h system \<Rightarrow> 'h system res) \<Rightarrow> 'h \<Rightarrow> nat \<Rightarrow>
   (Lock, 'h Disk, disk_request, byte list, 'h system) driver \<Rightarrow> (Lock, 'h Disk, disk_request, byte list, 'h system) driver \<Rightarrow> bool" where
  "SynchDisk_step tick sleep done' this =
     driver_step currentThread ReadyToRun sleep (Acquire_round currentThread sleep) (Release_body ReadyToRun)
       (SynchDisk_request tick done' this) (\<lambda>d. d\<lparr>active := False\<rparr>)"

definition SynchDisk_new ::
  "host_file option \<Rightarrow> 'h \<Rightarrow> nat \<Rightarrow> 'h system \<Rightarrow> (Lock, 'h Disk, disk_request, byte list, 'h system) driver res" where
  "SynchDisk_new old requestDone this s =
     bind_res (Disk_new old requestDone this) (\<lambda>d. Inr (driver_init Lock_new d s))"

section \<open>What the file system sees\<close>

definition disk_effect :: "disk_request \<Rightarrow> byte list \<Rightarrow> disk \<Rightarrow> disk \<Rightarrow> bool" where
  "disk_effect r out c c' \<longleftrightarrow>
     (case r of
        Read_sector n \<Rightarrow> ReadSector n c = Inr out \<and> c' = c
      | Write_sector n data \<Rightarrow> out = [] \<and> WriteSector n data c = Inr c')"

lemma SynchDisk_request_effect:
  assumes "SynchDisk_request tick done' this r d s = Inr (out, d', s')" "file_ok d"
  shows "file_ok d'" "disk_effect r out (contents d) (contents d')"
  using assms ReadRequest_effect [of tick done' this _ d s out d' s'] WriteRequest_effect [of tick done' this _ _ d s d' s']
  by (auto simp: SynchDisk_request_def disk_effect_def res_eq_Inr split: disk_request.splits)

lemma idle_again: "file_ok (d\<lparr>active := False\<rparr>) = file_ok d" "contents (d\<lparr>active := False\<rparr>) = contents d"
  by (simp_all add: file_ok_def contents_def fun_eq_iff)

interpretation disk_driver: driver "Acquire_round current sleep" "Release_body make_ready" "\<lambda>_. True" "\<lambda>l. lock_owner l \<noteq> None"
    "SynchDisk_request tick done' this" "\<lambda>d. d\<lparr>active := False\<rparr>" file_ok "\<lambda>d. \<not> active d" contents disk_effect
  for current sleep make_ready tick done' this
  by unfold_locales (auto simp: SynchDisk_request_effect idle_again)

text \<open>\<open>old\<close> is none, or the file of an earlier disk.\<close>

definition old_disk :: "host_file option \<Rightarrow> bool" where
  "old_disk old \<longleftrightarrow> (case old of None \<Rightarrow> True
     | Some f \<Rightarrow> length (hf_bytes f) = DiskSize \<and> take MagicSize (hf_bytes f) = word_bytes MagicNumber \<and> hf_pos f = 0)"

definition file_contents :: "host_file option \<Rightarrow> disk" where
  "file_contents old = (case old of None \<Rightarrow> \<lambda>_ _. 0
     | Some f \<Rightarrow> \<lambda>n i. if n < NumSectors \<and> i < SectorSize then hf_bytes f ! (MagicSize + n * SectorSize + i) else 0)"

lemma Disk_new_ok:
  assumes "old_disk old"
  shows "\<exists>d. Disk_new old h a = Inr d \<and> file_ok d \<and> arm_ok d \<and> \<not> active d \<and> contents d = file_contents old"
proof (cases old)
  case None
  then show ?thesis using Disk_new_fresh [of h a] by (simp add: file_contents_def)
next
  case (Some f)
  let ?d = "\<lparr>disk_file = f, disk_handler = h, disk_handlerArg = a, active = False, lastSector = 0, bufferInit = 0,
    numDiskReads = 0, numDiskWrites = 0\<rparr>"
  from assms Some have "file_ok ?d" "hf_pos (disk_file ?d) = 0" by (simp_all add: old_disk_def file_ok_def)
  then obtain d' where "Disk_new (Some f) h a = Inr d'" "file_ok d'" "arm_ok d'" "\<not> active d'" "contents d' = contents ?d"
    using Disk_new_again [of ?d h a] by auto
  with Some show ?thesis by (auto simp: file_contents_def contents_def [of ?d] fun_eq_iff)
qed

end
