(* ===== verification/Console.thy ===== *)
theory Console
  imports SynchDisk
begin

text \<open>
  The console (\<open>machine/console.cc\<close>): a keyboard that is polled and a display that takes one character at a time, both with
  interrupts, and \<open>ConsoleRead\<close> and \<open>ConsoleWrite\<close>, which the system calls use. Characters are bytes; \<open>EOF\<close> is the
  byte of -1 and \<open>FLAG_EOF\<close>, no character buffered, the byte of -2. Statistics are those of the console alone.
\<close>

section \<open>The device\<close>

definition EOF :: byte where "EOF = -1"
definition FLAG_EOF :: byte where "FLAG_EOF = -2"
definition ConsoleTime :: uint32 where "ConsoleTime = 100"

text \<open>
  \<open>keyboard\<close> is what \<open>readFileNo\<close> still holds, \<open>display\<close> what was written to \<open>writeFileNo\<close>, \<open>write_req\<close> the character of the
  \<open>console_write_request\<close> whose interrupt is pending.
\<close>

record Console =
  keyboard :: "byte list"
  display :: "byte list"
  putBusy :: bool
  incoming :: byte
  write_req :: "byte option"
  numConsoleCharsRead :: uint32
  numConsoleCharsWritten :: uint32

text \<open>\<open>readPoll\<close> and \<open>finishWrite\<close> are the function pointers \<open>ConsoleReadPoll\<close> and \<open>ConsoleFinishWrite\<close>.\<close>

definition Console_new ::
  "('h system \<Rightarrow> 'h system res) \<Rightarrow> 'h \<Rightarrow> nat \<Rightarrow> byte list \<Rightarrow> 'h system \<Rightarrow> (Console \<times> 'h system) res" where
  "Console_new tick readPoll this input s =
     bind_res (Schedule tick readPoll this ConsoleTime ConsoleReadInt s) (\<lambda>s1.
     Inr (\<lparr>keyboard = input, display = [], putBusy = False, incoming = FLAG_EOF, write_req = None,
       numConsoleCharsRead = 0, numConsoleCharsWritten = 0\<rparr>, s1))"

text \<open>
  \<open>CheckCharAvail\<close>; \<open>polled\<close> is the answer of \<open>PollFile\<close>, which also holds at the end of the file. The result says
  whether the handler is called.
\<close>

definition take_char :: "bool \<Rightarrow> Console \<Rightarrow> bool \<times> Console" where
  "take_char polled c =
     (if incoming c \<noteq> FLAG_EOF \<or> \<not> polled then (False, c)
      else (True, (case keyboard c of
          [] \<Rightarrow> c\<lparr>incoming := EOF\<rparr>
        | ch # rest \<Rightarrow> c\<lparr>incoming := ch, keyboard := rest\<rparr>)\<lparr>numConsoleCharsRead := numConsoleCharsRead c + 1\<rparr>))"

definition CheckCharAvail ::
  "('h system \<Rightarrow> 'h system res) \<Rightarrow> 'h \<Rightarrow> nat \<Rightarrow> ('h system \<Rightarrow> 'h system res) \<Rightarrow> bool \<Rightarrow> Console \<Rightarrow> 'h system \<Rightarrow> (Console \<times> 'h system) res" where
  "CheckCharAvail tick readPoll this readHandler polled c s =
     bind_res (Schedule tick readPoll this ConsoleTime ConsoleReadInt s) (\<lambda>s1.
     let (called, c1) = take_char polled c in
     if called then bind_res (readHandler s1) (\<lambda>s2. Inr (c1, s2)) else Inr (c1, s1))"

definition GetChar :: "Console \<Rightarrow> byte \<times> Console" where
  "GetChar c = (incoming c, c\<lparr>incoming := FLAG_EOF\<rparr>)"

definition PutChar ::
  "('h system \<Rightarrow> 'h system res) \<Rightarrow> 'h \<Rightarrow> nat \<Rightarrow> byte \<Rightarrow> Console \<Rightarrow> 'h system \<Rightarrow> (unit \<times> Console \<times> 'h system) res" where
  "PutChar tick finishWrite req ch c s =
     assert_res (\<not> putBusy c) (\<lambda>_.
     bind_res (Schedule tick finishWrite req ConsoleTime ConsoleWriteInt s) (\<lambda>s1.
     Inr ((), c\<lparr>putBusy := True, write_req := Some ch\<rparr>, s1)))"

definition WriteDone :: "Console \<Rightarrow> Console" where
  "WriteDone c = c\<lparr>putBusy := False, numConsoleCharsWritten := numConsoleCharsWritten c + 1\<rparr>"

definition ConsoleFinishWrite :: "Console \<Rightarrow> Console" where
  "ConsoleFinishWrite c =
     WriteDone (case write_req c of None \<Rightarrow> c | Some ch \<Rightarrow> c\<lparr>display := display c @ [ch], write_req := None\<rparr>)"

section \<open>Writing\<close>

text \<open>
  \<open>ConsoleWrite\<close>: its call takes the semaphore \<open>consoleWrite\<close>, puts one character after the other, each time waiting on
  \<open>consoleWriteDone\<close>, and returns the semaphore.
\<close>

definition ConsoleWrite_step ::
  "('h system \<Rightarrow> 'h system res) \<Rightarrow> ('h system \<Rightarrow> 'h system res) \<Rightarrow> 'h \<Rightarrow> nat \<Rightarrow>
   (KernelSemaphore, Console, byte, unit, 'h system) driver \<Rightarrow> (KernelSemaphore, Console, byte, unit, 'h system) driver \<Rightarrow> bool" where
  "ConsoleWrite_step tick sleep finishWrite req =
     driver_step currentThread ReadyToRun sleep (P_round currentThread sleep) (V_body ReadyToRun)
       (PutChar tick finishWrite req) ConsoleFinishWrite"

definition console_good :: "Console \<Rightarrow> bool" where
  "console_good c \<longleftrightarrow> (putBusy c \<longleftrightarrow> write_req c \<noteq> None)"

definition written :: "Console \<Rightarrow> byte list" where
  "written c = display c @ (case write_req c of None \<Rightarrow> [] | Some ch \<Rightarrow> [ch])"

interpretation console_driver: driver "P_round current sleep" "V_body make_ready" binary "\<lambda>k. sem_value k = 0"
    "PutChar tick finishWrite req" ConsoleFinishWrite console_good "\<lambda>c. \<not> putBusy c" written "\<lambda>ch _ a b. b = a @ [ch]"
  for current sleep make_ready tick finishWrite req
  by unfold_locales
    (auto simp: PutChar_def console_good_def written_def ConsoleFinishWrite_def WriteDone_def res_eq_Inr split: option.splits)

text \<open>A run of the display is the concatenation of what was put.\<close>

lemma replay_append_chars: "replay (\<lambda>ch (_ :: unit) a b. b = a @ [ch]) log a b \<longleftrightarrow> b = a @ map fst log"
  by (induction log arbitrary: a) (auto simp: split_paired_all)

section \<open>Reading\<close>

text \<open>
  \<open>ConsoleRead\<close>: a call takes the semaphore \<open>consoleRead\<close>, and for each byte it was asked for waits on \<open>consoleReadAvail\<close> and then
  takes the character; it ends early at \<open>EOF\<close>. A thread in a call has a number of bytes it was asked for, the
  characters it got, and a place: entering, at the test of the loop, or past the semaphore and about to take the character.
\<close>

datatype read_place = RdEntering | RdLooping | RdTaking

record 's reader =
  rd_mutex :: KernelSemaphore
  rd_avail :: KernelSemaphore
  rd_console :: Console
  rd_sys :: 's
  rd_calls :: "nat \<rightharpoonup> nat \<times> byte list \<times> read_place"
  rd_history :: "(nat \<times> byte list) list"

definition read_ends :: "nat \<Rightarrow> byte list \<Rightarrow> bool" where
  "read_ends nbytes got \<longleftrightarrow> nbytes \<le> length got \<or> (got \<noteq> [] \<and> List.last got = EOF)"

definition bytesread :: "byte list \<Rightarrow> nat" where
  "bytesread got = (if got \<noteq> [] \<and> List.last got = EOF then length got - 1 else length got)"

inductive read_step ::
  "('s \<Rightarrow> nat) \<Rightarrow> (nat \<Rightarrow> 's \<Rightarrow> 's res) \<Rightarrow> ('s \<Rightarrow> 's res) \<Rightarrow> 's reader \<Rightarrow> 's reader \<Rightarrow> bool"
  for current make_ready sleep where
  rd_start: "rd_calls w (current (rd_sys w)) = None \<Longrightarrow>
    read_step current make_ready sleep w (w\<lparr>rd_calls := (rd_calls w)(current (rd_sys w) \<mapsto> (n, [], RdEntering))\<rparr>)"
| rd_queue: "rd_calls w (current (rd_sys w)) = Some (n, got, RdEntering) \<Longrightarrow>
    P_round current sleep (rd_mutex w) (rd_sys w) = Inr (False, k, s) \<Longrightarrow>
    read_step current make_ready sleep w (w\<lparr>rd_mutex := k, rd_sys := s\<rparr>)"
| rd_enter: "rd_calls w (current (rd_sys w)) = Some (n, got, RdEntering) \<Longrightarrow>
    P_round current sleep (rd_mutex w) (rd_sys w) = Inr (True, k, s) \<Longrightarrow>
    read_step current make_ready sleep w
      (w\<lparr>rd_mutex := k, rd_sys := s, rd_calls := (rd_calls w)(current (rd_sys w) \<mapsto> (n, got, RdLooping))\<rparr>)"
| rd_block: "rd_calls w (current (rd_sys w)) = Some (n, got, RdLooping) \<Longrightarrow> \<not> read_ends n got \<Longrightarrow>
    P_round current sleep (rd_avail w) (rd_sys w) = Inr (False, k, s) \<Longrightarrow>
    read_step current make_ready sleep w (w\<lparr>rd_avail := k, rd_sys := s\<rparr>)"
| rd_proceed: "rd_calls w (current (rd_sys w)) = Some (n, got, RdLooping) \<Longrightarrow> \<not> read_ends n got \<Longrightarrow>
    P_round current sleep (rd_avail w) (rd_sys w) = Inr (True, k, s) \<Longrightarrow>
    read_step current make_ready sleep w
      (w\<lparr>rd_avail := k, rd_sys := s, rd_calls := (rd_calls w)(current (rd_sys w) \<mapsto> (n, got, RdTaking))\<rparr>)"
| rd_take: "rd_calls w (current (rd_sys w)) = Some (n, got, RdTaking) \<Longrightarrow> GetChar (rd_console w) = (ch, c) \<Longrightarrow>
    read_step current make_ready sleep w
      (w\<lparr>rd_console := c, rd_calls := (rd_calls w)(current (rd_sys w) \<mapsto> (n, got @ [ch], RdLooping))\<rparr>)"
| rd_finish: "rd_calls w (current (rd_sys w)) = Some (n, got, RdLooping) \<Longrightarrow> read_ends n got \<Longrightarrow>
    V_body make_ready (rd_mutex w) (rd_sys w) = Inr (k, s) \<Longrightarrow>
    read_step current make_ready sleep w
      (w\<lparr>rd_mutex := k, rd_sys := s, rd_calls := (rd_calls w)(current (rd_sys w) := None),
         rd_history := rd_history w @ [(current (rd_sys w), got)]\<rparr>)"
| rd_poll: "take_char polled (rd_console w) = (False, c) \<Longrightarrow> read_step current make_ready sleep w (w\<lparr>rd_console := c\<rparr>)"
| rd_key: "take_char polled (rd_console w) = (True, c) \<Longrightarrow> V_body make_ready (rd_avail w) (rd_sys w) = Inr (k, s) \<Longrightarrow>
    read_step current make_ready sleep w (w\<lparr>rd_console := c, rd_avail := k, rd_sys := s\<rparr>)"
| rd_other: "read_step current make_ready sleep w (w\<lparr>rd_sys := s\<rparr>)"

definition read_init :: "Console \<Rightarrow> 's \<Rightarrow> 's reader" where
  "read_init c s = \<lparr>rd_mutex = KernelSemaphore_new 1, rd_avail = KernelSemaphore_new 0, rd_console = c, rd_sys = s,
     rd_calls = (\<lambda>_. None), rd_history = []\<rparr>"

text \<open>
  The characters typed so far are those the calls got, in order, and the one buffered; behind the end of the keyboard
  there are only \<open>EOF\<close>s. The semaphore, with the unit a thread has just taken, is one exactly when a character is buffered.
\<close>

definition reading :: "(nat \<rightharpoonup> nat \<times> byte list \<times> read_place) \<Rightarrow> nat \<Rightarrow> bool" where
  "reading c t \<longleftrightarrow> (\<exists>n got p. c t = Some (n, got, p) \<and> p \<noteq> RdEntering)"

definition read_part :: "(nat \<rightharpoonup> nat \<times> byte list \<times> read_place) \<Rightarrow> nat option \<Rightarrow> byte list \<times> bool" where
  "read_part c h = (case h of None \<Rightarrow> ([], False) | Some t \<Rightarrow>
     (case c t of None \<Rightarrow> ([], False) | Some (n, got, p) \<Rightarrow> (got, p = RdTaking)))"

definition received :: "'s reader \<Rightarrow> nat option \<Rightarrow> byte list" where
  "received w h = concat (map snd (rd_history w)) @ fst (read_part (rd_calls w) h)"

definition buffered :: "Console \<Rightarrow> byte list" where
  "buffered c = (if incoming c = FLAG_EOF then [] else [incoming c])"

definition typed :: "byte list \<Rightarrow> byte list \<Rightarrow> byte list \<Rightarrow> bool" where
  "typed input bs rest \<longleftrightarrow> (\<exists>j. bs @ rest = input @ replicate j EOF \<and> (j > 0 \<longrightarrow> rest = []))"

definition read_inv :: "byte list \<Rightarrow> 's reader \<Rightarrow> nat option \<Rightarrow> bool" where
  "read_inv input w h \<longleftrightarrow> binary (rd_mutex w) \<and> (h \<noteq> None \<longrightarrow> sem_value (rd_mutex w) = 0) \<and>
     (\<forall>t. reading (rd_calls w) t \<longleftrightarrow> h = Some t) \<and> (\<forall>t n got. rd_calls w t = Some (n, got, RdEntering) \<longrightarrow> got = []) \<and>
     0 \<le> sem_value (rd_avail w) \<and>
     sem_value (rd_avail w) + of_bool (snd (read_part (rd_calls w) h)) = of_bool (incoming (rd_console w) \<noteq> FLAG_EOF) \<and>
     typed input (received w h @ buffered (rd_console w)) (keyboard (rd_console w))"

lemma reading_upd:
  "reading (c(t \<mapsto> (n, got, p))) u \<longleftrightarrow> (if u = t then p \<noteq> RdEntering else reading c u)"
  "reading (c(t := None)) u \<longleftrightarrow> u \<noteq> t \<and> reading c u"
  by (auto simp: reading_def)

lemma read_holder:
  assumes "read_inv input w h" "rd_calls w t = Some (n, got, p)" "p \<noteq> RdEntering" shows "h = Some t"
  using assms unfolding read_inv_def by (metis reading_def)

lemma typed_char:
  assumes "typed input bs (ch # rest)" shows "typed input (bs @ [ch]) rest"
  using assms by (auto simp: typed_def)

lemma typed_EOF:
  assumes "typed input bs []" shows "typed input (bs @ [EOF]) []"
proof -
  from assms obtain j where "bs = input @ replicate j EOF" by (auto simp: typed_def)
  then have "bs @ [EOF] = input @ replicate (Suc j) EOF" by (simp add: replicate_append_same)
  then show ?thesis unfolding typed_def by (intro exI [of _ "Suc j"]) simp
qed

lemma typed_rest: "typed input bs rest \<Longrightarrow> set rest \<subseteq> set input"
  by (cases rest) (auto simp: typed_def dest: arg_cong [where f = set])

lemma take_char_ok:
  assumes "take_char polled c = (called, c')" "FLAG_EOF \<notin> set (keyboard c)" "typed input (bs @ buffered c) (keyboard c)"
  shows "typed input (bs @ buffered c') (keyboard c')"
    "called \<Longrightarrow> incoming c = FLAG_EOF \<and> incoming c' \<noteq> FLAG_EOF" "\<not> called \<Longrightarrow> c' = c"
proof -
  have neq: "EOF \<noteq> FLAG_EOF" by (simp add: EOF_def FLAG_EOF_def)
  show "\<not> called \<Longrightarrow> c' = c" using assms(1) by (auto simp: take_char_def split: if_splits)
  show "called \<Longrightarrow> incoming c = FLAG_EOF \<and> incoming c' \<noteq> FLAG_EOF"
    using assms(1,2) neq by (auto simp: take_char_def split: if_splits list.splits)
  show "typed input (bs @ buffered c') (keyboard c')"
  proof (cases "called")
    case False
    with assms show ?thesis by (auto simp: take_char_def split: if_splits)
  next
    case True
    then have i: "incoming c = FLAG_EOF" using assms(1) by (auto simp: take_char_def split: if_splits)
    with assms(3) have t: "typed input bs (keyboard c)" by (simp add: buffered_def)
    show ?thesis
    proof (cases "keyboard c")
      case Nil
      with t typed_EOF [of input bs] True i assms(1) neq show ?thesis by (auto simp: take_char_def buffered_def split: if_splits)
    next
      case (Cons ch rest)
      with t typed_char [of input bs ch rest] True i assms(1,2) show ?thesis by (auto simp: take_char_def buffered_def split: if_splits)
    qed
  qed
qed

lemmas read_inv_simps = read_inv_def reading_upd read_part_def received_def

lemma read_step_inv:
  assumes "read_step current make_ready sleep w w'" "FLAG_EOF \<notin> set input" "read_inv input w h"
  shows "\<exists>h'. read_inv input w' h'"
  using assms(1,3)
proof (induction rule: read_step.induct)
  case (rd_start w n)
  have "\<not> reading (rd_calls w) (current (rd_sys w))" using rd_start.hyps by (simp add: reading_def)
  with rd_start.prems have "h \<noteq> Some (current (rd_sys w))" by (auto simp: read_inv_def)
  with rd_start show ?case by (intro exI [of _ h]) (cases h; auto simp: read_inv_simps)
next
  case (rd_queue w n got k s)
  with P_round_value [OF rd_queue.hyps(2)] show ?case by (intro exI [of _ h]) (simp add: read_inv_simps binary_def)
next
  case (rd_enter w n got k s)
  from P_round_value [OF rd_enter.hyps(2)] rd_enter.prems have m: "sem_value (rd_mutex w) = 1" "sem_value k = 0"
    by (auto simp: read_inv_def binary_def)
  with rd_enter.prems have h: "h = None" by (auto simp: read_inv_def)
  have "got = []" using rd_enter by (auto simp: read_inv_def)
  with rd_enter m h show ?case
    by (intro exI [of _ "Some (current (rd_sys w))"]) (auto simp: read_inv_simps binary_def)
next
  case (rd_block w n got k s)
  with P_round_value [OF rd_block.hyps(3)] show ?case by (intro exI [of _ h]) (cases h; simp add: read_inv_simps)
next
  case (rd_proceed w n got k s)
  have h: "h = Some (current (rd_sys w))" using read_holder [OF rd_proceed.prems rd_proceed.hyps(1)] by simp
  with rd_proceed P_round_value [OF rd_proceed.hyps(3)] show ?case
    by (intro exI [of _ h]) (auto simp: read_inv_simps)
next
  case (rd_take w n got ch c)
  have h: "h = Some (current (rd_sys w))" using read_holder [OF rd_take.prems rd_take.hyps(1)] by simp
  have c: "ch = incoming (rd_console w)" "incoming c = FLAG_EOF" "keyboard c = keyboard (rd_console w)"
    using rd_take.hyps(2) by (auto simp: GetChar_def)
  have v: "sem_value (rd_avail w) = 0" "incoming (rd_console w) \<noteq> FLAG_EOF"
    using rd_take.prems rd_take.hyps(1) h by (auto simp: read_inv_simps of_bool_def split: if_splits)
  with rd_take h c show ?case
    by (intro exI [of _ h]) (auto simp: read_inv_simps buffered_def)
next
  case (rd_finish w n got k s)
  have h: "h = Some (current (rd_sys w))" using read_holder [OF rd_finish.prems rd_finish.hyps(1)] by simp
  with rd_finish V_body_value [OF rd_finish.hyps(3)] show ?case
    by (intro exI [of _ None]) (auto simp: read_inv_simps binary_def)
next
  case (rd_poll polled w c)
  then have "c = rd_console w" by (auto simp: take_char_def split: if_splits)
  with rd_poll show ?case by (intro exI [of _ h]) (cases h; simp add: read_inv_simps)
next
  case (rd_key polled w c k s)
  have t: "typed input (received w h @ buffered (rd_console w)) (keyboard (rd_console w))" using rd_key.prems by (simp add: read_inv_def)
  have "FLAG_EOF \<notin> set (keyboard (rd_console w))" using typed_rest [OF t] assms(2) by blast
  from take_char_ok [OF rd_key.hyps(1) this t] have
    c: "typed input (received w h @ buffered c) (keyboard c)" "incoming (rd_console w) = FLAG_EOF" "incoming c \<noteq> FLAG_EOF" by auto
  with c rd_key.prems V_body_value [OF rd_key.hyps(2)] show ?case
    by (intro exI [of _ h]) (auto simp: read_inv_def received_def)
next
  case (rd_other w s)
  then show ?case by (intro exI [of _ h]) (cases h; simp add: read_inv_simps)
qed

lemma read_reachable_inv:
  assumes "(read_step current make_ready sleep)\<^sup>*\<^sup>* (read_init c s) w" "FLAG_EOF \<notin> set (keyboard c)" "incoming c = FLAG_EOF"
  shows "\<exists>h. read_inv (keyboard c) w h"
  using assms(1)
proof (induction rule: rtranclp_induct)
  case base
  from assms(3) show ?case
    by (intro exI [of _ None])
      (simp add: read_inv_simps read_init_def reading_def KernelSemaphore_new_def binary_def buffered_def typed_def exI [of _ 0])
next
  case (step y z)
  then show ?case using read_step_inv [OF step.hyps(2) assms(2)] by blast
qed

end
