(* ===== verification/Network.thy ===== *)
theory Network
  imports SynchDisk Complex_Main
begin

text \<open>
  The network (\<open>machine/network.cc\<close>): packets of at most 52 bytes behind a header of 12, sent as datagrams of 64 bytes that may be
  lost, and polled for with interrupts; and the sending side of the post office (\<open>network/post.cc\<close>): messages with a header
  of their own, and the call that sends one. The configuration \<open>NETWORK\<close> is not the one the makefiles select.
\<close>

section \<open>Packets\<close>

record PacketHeader =
  pkt_to :: int
  pkt_from :: int
  pkt_length :: uint32

definition PacketHeader_size :: nat where "PacketHeader_size = 12"
definition MaxWireSize :: nat where "MaxWireSize = 64"
definition MaxPacketSize :: nat where "MaxPacketSize = MaxWireSize - PacketHeader_size"
definition NetworkTime :: uint32 where "NetworkTime = 100"

text \<open>The memory image of a header, and the header at the front of a buffer.\<close>

definition packet_header_bytes :: "PacketHeader \<Rightarrow> byte list" where
  "packet_header_bytes h = word_bytes (word_of_int (pkt_to h)) @ word_bytes (word_of_int (pkt_from h)) @ word_bytes (pkt_length h)"

definition packet_header_of :: "byte list \<Rightarrow> PacketHeader" where
  "packet_header_of bs = \<lparr>pkt_to = sint (bytes_word (take 4 bs)), pkt_from = sint (bytes_word (take 4 (drop 4 bs))),
     pkt_length = bytes_word (take 4 (drop 8 bs))\<rparr>"

definition memcpy_prefix :: "nat \<Rightarrow> byte list \<Rightarrow> byte list \<Rightarrow> byte list res" where
  "memcpy_prefix n src dst = (if n \<le> length src \<and> n \<le> length dst then Inr (take n src @ drop n dst) else Inl IndexOutOfBounds)"

section \<open>The device\<close>

text \<open>
  \<open>socket\<close> are the datagrams that have arrived at this machine, \<open>sent\<close> those it has sent, with the machine they are for.
  \<open>chanceToWork\<close> is a double of the host; the model has a rational number.
\<close>

record Network =
  ident :: int
  chanceToWork :: rat
  socket :: "byte list list"
  sent :: "(int \<times> byte list) list"
  sendBusy :: bool
  inHdr :: PacketHeader
  inbox :: "byte list"
  numPacketsSent :: uint32
  numPacketsRecvd :: uint32

definition Network_new ::
  "('h system \<Rightarrow> 'h system res) \<Rightarrow> 'h \<Rightarrow> nat \<Rightarrow> int \<Rightarrow> rat \<Rightarrow> byte list \<Rightarrow> int \<Rightarrow> int \<Rightarrow> 'h system \<Rightarrow> (Network \<times> 'h system) res" where
  "Network_new tick readPoll this addr reliability uninit to' from' s =
     bind_res (Schedule tick readPoll this NetworkTime NetworkRecvInt s) (\<lambda>s1.
     Inr (\<lparr>ident = addr, chanceToWork = (if reliability < 0 then 0 else if reliability > 1 then 1 else reliability),
       socket = [], sent = [], sendBusy = False, inHdr = \<lparr>pkt_to = to', pkt_from = from', pkt_length = 0\<rparr>, inbox = uninit,
       numPacketsSent = 0, numPacketsRecvd = 0\<rparr>, s1))"

text \<open>
  \<open>CheckPktAvail\<close>. Whether the handler is called is part of the result of the inner function. A datagram of another size
  fails the assertion of \<open>ReadFromSocket\<close>.
\<close>

definition take_packet :: "Network \<Rightarrow> (bool \<times> Network) res" where
  "take_packet n =
     (if pkt_length (inHdr n) \<noteq> 0 then Inr (False, n)
      else case socket n of
        [] \<Rightarrow> Inr (False, n)
      | buffer # rest \<Rightarrow>
        assert_res (length buffer = MaxWireSize) (\<lambda>_.
        (let hdr = packet_header_of buffer in
         assert_res (pkt_to hdr = ident n \<and> unat (pkt_length hdr) \<le> MaxPacketSize) (\<lambda>_.
         bind_res (memcpy_prefix (unat (pkt_length hdr)) (drop PacketHeader_size buffer) (inbox n)) (\<lambda>data.
         Inr (True, n\<lparr>socket := rest, inHdr := hdr, inbox := data, numPacketsRecvd := numPacketsRecvd n + 1\<rparr>))))))"

definition CheckPktAvail ::
  "('h system \<Rightarrow> 'h system res) \<Rightarrow> 'h \<Rightarrow> nat \<Rightarrow> ('h system \<Rightarrow> 'h system res) \<Rightarrow> Network \<Rightarrow> 'h system \<Rightarrow> (Network \<times> 'h system) res" where
  "CheckPktAvail tick readPoll this readHandler n s =
     bind_res (Schedule tick readPoll this NetworkTime NetworkRecvInt s) (\<lambda>s1.
     bind_res (take_packet n) (\<lambda>(called, n1).
     if called then bind_res (readHandler s1) (\<lambda>s2. Inr (n1, s2)) else Inr (n1, s1)))"

definition SendDone :: "Network \<Rightarrow> Network" where
  "SendDone n = n\<lparr>sendBusy := False, numPacketsSent := numPacketsSent n + 1\<rparr>"

text \<open>\<open>rnd\<close> is what \<open>Random ()\<close> returns, \<open>uninit\<close> the 64 bytes that \<open>new\<close> returns. \<open>Send\<close> does not set \<open>sendBusy\<close>.\<close>

definition wire_packet :: "byte list \<Rightarrow> PacketHeader \<Rightarrow> byte list \<Rightarrow> byte list res" where
  "wire_packet uninit hdr data =
     bind_res (memcpy_prefix PacketHeader_size (packet_header_bytes hdr) uninit) (\<lambda>buffer.
     bind_res (memcpy_prefix (unat (pkt_length hdr)) data (drop PacketHeader_size buffer)) (\<lambda>rest.
     Inr (take PacketHeader_size buffer @ rest)))"

definition Network_Send ::
  "('h system \<Rightarrow> 'h system res) \<Rightarrow> 'h \<Rightarrow> nat \<Rightarrow> nat \<Rightarrow> byte list \<Rightarrow> PacketHeader \<Rightarrow> byte list \<Rightarrow> Network \<Rightarrow> 'h system \<Rightarrow>
   (Network \<times> 'h system) res" where
  "Network_Send tick sendDone' this rnd uninit hdr data n s =
     assert_res (\<not> sendBusy n \<and> pkt_length hdr > 0 \<and> unat (pkt_length hdr) \<le> MaxPacketSize \<and> pkt_from hdr = ident n) (\<lambda>_.
     bind_res (Schedule tick sendDone' this NetworkTime NetworkSendInt s) (\<lambda>s1.
     if of_nat (rnd mod 100) \<ge> chanceToWork n * 100 then Inr (n, s1)
     else
       bind_res (wire_packet uninit hdr data) (\<lambda>buffer.
       Inr (n\<lparr>sent := sent n @ [(pkt_to hdr, buffer)]\<rparr>, s1))))"

definition Network_Receive :: "byte list \<Rightarrow> Network \<Rightarrow> (PacketHeader \<times> byte list \<times> Network) res" where
  "Network_Receive data n =
     (let hdr = inHdr n; n1 = n\<lparr>inHdr := hdr\<lparr>pkt_length := 0\<rparr>\<rparr> in
      if pkt_length hdr \<noteq> 0 then
        bind_res (memcpy_prefix (unat (pkt_length hdr)) (inbox n) data) (\<lambda>data1. Inr (hdr, data1, n1))
      else Inr (hdr, data, n1))"

section \<open>The post office\<close>

record MailHeader =
  mail_to :: int
  mail_from :: int
  mail_length :: uint32

definition MailHeader_size :: nat where "MailHeader_size = 12"
definition MaxMailSize :: nat where "MaxMailSize = MaxPacketSize - MailHeader_size"

definition mail_header_bytes :: "MailHeader \<Rightarrow> byte list" where
  "mail_header_bytes h = word_bytes (word_of_int (mail_to h)) @ word_bytes (word_of_int (mail_from h)) @ word_bytes (mail_length h)"

definition mail_header_of :: "byte list \<Rightarrow> MailHeader" where
  "mail_header_of bs = \<lparr>mail_to = sint (bytes_word (take 4 bs)), mail_from = sint (bytes_word (take 4 (drop 4 bs))),
     mail_length = bytes_word (take 4 (drop 8 bs))\<rparr>"

record Mail =
  pktHdr :: PacketHeader
  mailHdr :: MailHeader
  mail_data :: "byte list"

text \<open>\<open>uninit\<close> is the array of the new object.\<close>

definition Mail_new :: "byte list \<Rightarrow> PacketHeader \<Rightarrow> MailHeader \<Rightarrow> byte list \<Rightarrow> Mail res" where
  "Mail_new uninit pktH mailH msgData =
     assert_res (unat (mail_length mailH) \<le> MaxMailSize) (\<lambda>_.
     bind_res (memcpy_prefix (unat (mail_length mailH)) msgData uninit) (\<lambda>data.
     Inr \<lparr>pktHdr = pktH, mailHdr = mailH, mail_data = data\<rparr>))"

text \<open>\<open>PostOffice::Send\<close> up to the lock: the header and the buffer for the network.\<close>

definition Send_prepare ::
  "int \<Rightarrow> int \<Rightarrow> byte list \<Rightarrow> PacketHeader \<Rightarrow> MailHeader \<Rightarrow> byte list \<Rightarrow> (PacketHeader \<times> byte list) res" where
  "Send_prepare netAddr numBoxes uninit pkt mail data =
     assert_res (unat (mail_length mail) \<le> MaxMailSize) (\<lambda>_.
     assert_res (0 \<le> mail_to mail \<and> mail_to mail < numBoxes) (\<lambda>_.
     let pkt1 = pkt\<lparr>pkt_from := netAddr, pkt_length := mail_length mail + of_nat MailHeader_size\<rparr> in
     bind_res (memcpy_prefix MailHeader_size (mail_header_bytes mail) uninit) (\<lambda>buffer.
     bind_res (memcpy_prefix (unat (mail_length mail)) data (drop MailHeader_size buffer)) (\<lambda>rest.
     Inr (pkt1, take MailHeader_size buffer @ rest)))))"

text \<open>
  \<open>PostOffice::Send\<close> from the lock on: its call gives the packet to the network and waits on \<open>messageSent\<close> for the interrupt,
  which ends in \<open>PacketSent\<close>. A request has what the network's \<open>Send\<close> is given and the values it finds.
\<close>

type_synonym net_request = "nat \<times> byte list \<times> PacketHeader \<times> byte list"

definition Network_request ::
  "('h system \<Rightarrow> 'h system res) \<Rightarrow> 'h \<Rightarrow> nat \<Rightarrow> net_request \<Rightarrow> Network \<Rightarrow> 'h system \<Rightarrow> (unit \<times> Network \<times> 'h system) res" where
  "Network_request tick sendDone' this r n s =
     (let (rnd, uninit, hdr, data) = r in
      bind_res (Network_Send tick sendDone' this rnd uninit hdr data n s) (\<lambda>(n1, s1). Inr ((), n1, s1)))"

definition PostOffice_step ::
  "('h system \<Rightarrow> 'h system res) \<Rightarrow> ('h system \<Rightarrow> 'h system res) \<Rightarrow> 'h \<Rightarrow> nat \<Rightarrow>
   (Lock, Network, net_request, unit, 'h system) driver \<Rightarrow> (Lock, Network, net_request, unit, 'h system) driver \<Rightarrow> bool" where
  "PostOffice_step tick sleep sendDone' this =
     driver_step currentThread ReadyToRun sleep (Acquire_round currentThread sleep) (Release_body ReadyToRun)
       (Network_request tick sendDone' this) SendDone"

definition sends :: "net_request \<Rightarrow> unit \<Rightarrow> (int \<times> byte list) list \<Rightarrow> (int \<times> byte list) list \<Rightarrow> bool" where
  "sends r out a b \<longleftrightarrow>
     (let (rnd, uninit, hdr, data) = r in b = a \<or> (\<exists>buffer. wire_packet uninit hdr data = Inr buffer \<and> b = a @ [(pkt_to hdr, buffer)]))"

interpretation post_driver: driver "Acquire_round current sleep" "Release_body make_ready" "\<lambda>_. True" "\<lambda>l. lock_owner l \<noteq> None"
    "Network_request tick sendDone' this" SendDone "\<lambda>_. True" "\<lambda>n. \<not> sendBusy n" sent sends
  for current sleep make_ready tick sendDone' this
  by unfold_locales (auto simp: Network_request_def Network_Send_def sends_def SendDone_def res_eq_Inr split: if_splits)

section \<open>What goes over the wire\<close>

definition int32 :: "int \<Rightarrow> bool" where
  "int32 x \<longleftrightarrow> - (2 ^ 31) \<le> x \<and> x < 2 ^ 31"

lemma int32_word: "int32 x \<Longrightarrow> sint (word_of_int x :: uint32) = x"
  by (simp add: int32_def sint_of_int)

lemma packet_header_inverse: "int32 (pkt_to h) \<Longrightarrow> int32 (pkt_from h) \<Longrightarrow> packet_header_of (packet_header_bytes h @ rest) = h"
  by (simp add: packet_header_of_def packet_header_bytes_def int32_word)

lemma mail_header_inverse: "int32 (mail_to h) \<Longrightarrow> int32 (mail_from h) \<Longrightarrow> mail_header_of (mail_header_bytes h @ rest) = h"
  by (simp add: mail_header_of_def mail_header_bytes_def int32_word)

lemma header_lengths [simp]: "length (packet_header_bytes h) = PacketHeader_size" "length (mail_header_bytes m) = MailHeader_size"
  by (simp_all add: packet_header_bytes_def mail_header_bytes_def PacketHeader_size_def MailHeader_size_def)

lemma memcpy_prefix_ok [simp]: "n \<le> length src \<Longrightarrow> n \<le> length dst \<Longrightarrow> memcpy_prefix n src dst = Inr (take n src @ drop n dst)"
  by (simp add: memcpy_prefix_def)

lemma wire_sizes: "PacketHeader_size = 12" "MailHeader_size = 12" "MaxWireSize = 64" "MaxPacketSize = 52" "MaxMailSize = 40"
  by (simp_all add: PacketHeader_size_def MailHeader_size_def MaxWireSize_def MaxPacketSize_def MaxMailSize_def)

text \<open>A packet is its header, its data and what the buffer held behind them.\<close>

lemma wire_packet_ok:
  assumes "length uninit = MaxWireSize" "unat (pkt_length h) \<le> MaxPacketSize" "unat (pkt_length h) \<le> length data"
  shows "wire_packet uninit h data =
    Inr (packet_header_bytes h @ take (unat (pkt_length h)) data @ drop (PacketHeader_size + unat (pkt_length h)) uninit)"
  using assms by (simp add: wire_packet_def wire_sizes add.commute)

lemma take_packet_ok:
  assumes "pkt_length (inHdr n) = 0" "socket n = (packet_header_bytes h @ data @ pad) # rest"
    "length (packet_header_bytes h @ data @ pad) = MaxWireSize" "int32 (pkt_to h)" "int32 (pkt_from h)" "pkt_to h = ident n"
    "unat (pkt_length h) = length data" "length (inbox n) = MaxPacketSize"
  shows "take_packet n = Inr (True, n\<lparr>socket := rest, inHdr := h, inbox := data @ drop (length data) (inbox n),
    numPacketsRecvd := numPacketsRecvd n + 1\<rparr>)"
  using assms packet_header_inverse [OF assms(4,5)] by (simp add: take_packet_def Let_def wire_sizes)

lemma mail_length_plus:
  assumes "unat (mail_length m) \<le> MaxMailSize"
  shows "unat (mail_length m + of_nat MailHeader_size) = MailHeader_size + unat (mail_length m)"
  using assms by (simp add: unat_word_ariths wire_sizes)

text \<open>A message from the sender to the box of the receiver.\<close>

definition sent_header :: "int \<Rightarrow> PacketHeader \<Rightarrow> MailHeader \<Rightarrow> PacketHeader" where
  "sent_header addr pkt mail = pkt\<lparr>pkt_from := addr, pkt_length := mail_length mail + of_nat MailHeader_size\<rparr>"

definition message :: "MailHeader \<Rightarrow> byte list \<Rightarrow> byte list" where
  "message mail data = mail_header_bytes mail @ take (unat (mail_length mail)) data"

lemma message_length: "unat (mail_length mail) \<le> length data \<Longrightarrow> length (message mail data) = MailHeader_size + unat (mail_length mail)"
  by (simp add: message_def)

lemma Send_prepare_ok:
  assumes "unat (mail_length mail) \<le> MaxMailSize" "unat (mail_length mail) \<le> length data" "0 \<le> mail_to mail" "mail_to mail < numBoxes"
    "length uninit = MaxPacketSize"
  shows "Send_prepare addr numBoxes uninit pkt mail data =
    Inr (sent_header addr pkt mail, message mail data @ drop (MailHeader_size + unat (mail_length mail)) uninit)"
  using assms by (simp add: Send_prepare_def Let_def sent_header_def message_def wire_sizes add.commute)

lemma Network_Send_ok:
  assumes "\<not> sendBusy n" "ident n = addr" "unat (mail_length mail) \<le> MaxMailSize" "unat (mail_length mail) \<le> length data"
    "length uninit = MaxWireSize" "Schedule tick sendDone' this NetworkTime NetworkSendInt s = Inr s1"
  shows "Network_Send tick sendDone' this rnd uninit (sent_header addr pkt mail) (message mail data @ rest) n s =
    Inr (if of_nat (rnd mod 100) \<ge> chanceToWork n * 100 then n
         else n\<lparr>sent := sent n @ [(pkt_to pkt, packet_header_bytes (sent_header addr pkt mail) @ message mail data @
           drop (PacketHeader_size + (MailHeader_size + unat (mail_length mail))) uninit)]\<rparr>, s1)"
proof -
  let ?h = "sent_header addr pkt mail"
  have len: "unat (pkt_length ?h) = MailHeader_size + unat (mail_length mail)"
    using mail_length_plus [OF assms(3)] by (simp add: sent_header_def)
  then have "unat (pkt_length ?h) \<le> MaxPacketSize" "0 < pkt_length ?h"
    using assms(3) by (auto simp: wire_sizes word_less_nat_alt)
  moreover have "wire_packet uninit ?h (message mail data @ rest) = Inr (packet_header_bytes ?h @ message mail data @
      drop (PacketHeader_size + (MailHeader_size + unat (mail_length mail))) uninit)"
    using wire_packet_ok [OF assms(5), of ?h "message mail data @ rest"] len assms(3) message_length [OF assms(4)] by (simp add: wire_sizes)
  ultimately show ?thesis using assms(1,2,6) by (simp add: Network_Send_def sent_header_def)
qed

end
