(* ===== verification/SynchList.thy ===== *)
theory SynchList
  imports Synch
begin

text \<open>
  Synchronized lists (\<open>threads/synchlist.cc\<close>), the mailboxes of the post office: a list with a lock and a condition that says
  when it is not empty. Operations are cut where their thread may lose the CPU, as in \<open>Synch\<close>. \<open>Condition::Signal\<close> acquires the
  lock that \<open>Append\<close> and \<open>Prepend\<close> already hold, so no call on a new list ever returns an element or is done putting one.
\<close>

section \<open>Operations\<close>

record 'a SynchList =
  sl_list :: "'a List"
  sl_lock :: Lock
  listEmpty :: Condition

definition SynchList_new :: "'a SynchList" where
  "SynchList_new = \<lparr>sl_list = List_new, sl_lock = Lock_new, listEmpty = Condition_new\<rparr>"

datatype 'a list_op = PrependOp 'a | AppendOp 'a | RemoveOp | MapcarOp

text \<open>
  Where a thread is in a call: in \<open>lock->Acquire\<close>, behind it, in the \<open>Acquire\<close> of \<open>Signal\<close>, behind that, before the \<open>Sleep\<close> of
  \<open>Wait\<close>, and before the last \<open>Release\<close> with its result.
\<close>

datatype 'a list_place =
    In_Acquire "'a list_op" | Locked "'a list_op" | In_Signal "'a list_op" | Signalling "'a list_op" | To_Sleep
  | Leaving "'a list_op" "'a option"

record ('a, 's) list_world =
  ls_obj :: "'a SynchList"
  ls_sys :: 's
  ls_calls :: "nat \<rightharpoonup> 'a list_place"
  ls_returned :: "(nat \<times> 'a list_op \<times> 'a option) list"

text \<open>
  \<open>func\<close> is the function of \<open>Mapcar\<close>, which keeps the CPU. A \<open>NULL\<close> element makes
  \<open>Remove\<close> fail its assertion; elements of the model are not null.
\<close>

inductive list_step ::
  "('s \<Rightarrow> nat) \<Rightarrow> (nat \<Rightarrow> 's \<Rightarrow> 's res) \<Rightarrow> ('s \<Rightarrow> 's res) \<Rightarrow> ('a \<Rightarrow> 's \<Rightarrow> 's res) \<Rightarrow>
   ('a, 's) list_world \<Rightarrow> ('a, 's) list_world \<Rightarrow> bool"
  for current make_ready sleep func where
  ls_start: "ls_calls w (current (ls_sys w)) = None \<Longrightarrow>
    list_step current make_ready sleep func w (w\<lparr>ls_calls := (ls_calls w)(current (ls_sys w) \<mapsto> In_Acquire x)\<rparr>)"
| ls_queue: "ls_calls w (current (ls_sys w)) = Some (In_Acquire x) \<Longrightarrow>
    Acquire_round current sleep (sl_lock (ls_obj w)) (ls_sys w) = Inr (False, k, s) \<Longrightarrow>
    list_step current make_ready sleep func w (w\<lparr>ls_obj := (ls_obj w)\<lparr>sl_lock := k\<rparr>, ls_sys := s\<rparr>)"
| ls_enter: "ls_calls w (current (ls_sys w)) = Some (In_Acquire x) \<Longrightarrow>
    Acquire_round current sleep (sl_lock (ls_obj w)) (ls_sys w) = Inr (True, k, s) \<Longrightarrow>
    list_step current make_ready sleep func w
      (w\<lparr>ls_obj := (ls_obj w)\<lparr>sl_lock := k\<rparr>, ls_sys := s, ls_calls := (ls_calls w)(current (ls_sys w) \<mapsto> Locked x)\<rparr>)"
| ls_append: "ls_calls w (current (ls_sys w)) = Some (Locked (AppendOp x)) \<Longrightarrow> Append x (sl_list (ls_obj w)) = Inr l \<Longrightarrow>
    list_step current make_ready sleep func w
      (w\<lparr>ls_obj := (ls_obj w)\<lparr>sl_list := l\<rparr>, ls_calls := (ls_calls w)(current (ls_sys w) \<mapsto> In_Signal (AppendOp x))\<rparr>)"
| ls_prepend: "ls_calls w (current (ls_sys w)) = Some (Locked (PrependOp x)) \<Longrightarrow> Prepend x (sl_list (ls_obj w)) = Inr l \<Longrightarrow>
    list_step current make_ready sleep func w
      (w\<lparr>ls_obj := (ls_obj w)\<lparr>sl_list := l\<rparr>, ls_calls := (ls_calls w)(current (ls_sys w) \<mapsto> In_Signal (PrependOp x))\<rparr>)"
| ls_signal_queue: "ls_calls w (current (ls_sys w)) = Some (In_Signal x) \<Longrightarrow>
    Acquire_round current sleep (sl_lock (ls_obj w)) (ls_sys w) = Inr (False, k, s) \<Longrightarrow>
    list_step current make_ready sleep func w (w\<lparr>ls_obj := (ls_obj w)\<lparr>sl_lock := k\<rparr>, ls_sys := s\<rparr>)"
| ls_signal_enter: "ls_calls w (current (ls_sys w)) = Some (In_Signal x) \<Longrightarrow>
    Acquire_round current sleep (sl_lock (ls_obj w)) (ls_sys w) = Inr (True, k, s) \<Longrightarrow>
    list_step current make_ready sleep func w
      (w\<lparr>ls_obj := (ls_obj w)\<lparr>sl_lock := k\<rparr>, ls_sys := s, ls_calls := (ls_calls w)(current (ls_sys w) \<mapsto> Signalling x)\<rparr>)"
| ls_signal: "ls_calls w (current (ls_sys w)) = Some (Signalling x) \<Longrightarrow> Signal_wake make_ready (listEmpty (ls_obj w)) (ls_sys w) = Inr (c, s) \<Longrightarrow>
    Release_body make_ready (sl_lock (ls_obj w)) s = Inr (k, s1) \<Longrightarrow>
    list_step current make_ready sleep func w
      (w\<lparr>ls_obj := (ls_obj w)\<lparr>listEmpty := c, sl_lock := k\<rparr>, ls_sys := s1,
         ls_calls := (ls_calls w)(current (ls_sys w) \<mapsto> Leaving x None)\<rparr>)"
| ls_wait: "ls_calls w (current (ls_sys w)) = Some (Locked RemoveOp) \<Longrightarrow> IsEmpty (sl_list (ls_obj w)) \<Longrightarrow>
    Append (current (ls_sys w)) (cond_queue (listEmpty (ls_obj w))) = Inr q \<Longrightarrow>
    Release_body make_ready (sl_lock (ls_obj w)) (ls_sys w) = Inr (k, s) \<Longrightarrow>
    list_step current make_ready sleep func w
      (w\<lparr>ls_obj := (ls_obj w)\<lparr>listEmpty := \<lparr>cond_queue = q\<rparr>, sl_lock := k\<rparr>, ls_sys := s,
         ls_calls := (ls_calls w)(current (ls_sys w) \<mapsto> To_Sleep)\<rparr>)"
| ls_sleep: "ls_calls w (current (ls_sys w)) = Some To_Sleep \<Longrightarrow> sleep (ls_sys w) = Inr s \<Longrightarrow>
    list_step current make_ready sleep func w
      (w\<lparr>ls_sys := s, ls_calls := (ls_calls w)(current (ls_sys w) \<mapsto> In_Acquire RemoveOp)\<rparr>)"
| ls_remove: "ls_calls w (current (ls_sys w)) = Some (Locked RemoveOp) \<Longrightarrow> \<not> IsEmpty (sl_list (ls_obj w)) \<Longrightarrow>
    Remove (sl_list (ls_obj w)) = Inr (Some x, l) \<Longrightarrow>
    list_step current make_ready sleep func w
      (w\<lparr>ls_obj := (ls_obj w)\<lparr>sl_list := l\<rparr>, ls_calls := (ls_calls w)(current (ls_sys w) \<mapsto> Leaving RemoveOp (Some x))\<rparr>)"
| ls_mapcar: "ls_calls w (current (ls_sys w)) = Some (Locked MapcarOp) \<Longrightarrow> Mapcar func (sl_list (ls_obj w)) (ls_sys w) = Inr s \<Longrightarrow>
    list_step current make_ready sleep func w (w\<lparr>ls_sys := s, ls_calls := (ls_calls w)(current (ls_sys w) \<mapsto> Leaving MapcarOp None)\<rparr>)"
| ls_leave: "ls_calls w (current (ls_sys w)) = Some (Leaving x r) \<Longrightarrow> Release_body make_ready (sl_lock (ls_obj w)) (ls_sys w) = Inr (k, s) \<Longrightarrow>
    list_step current make_ready sleep func w
      (w\<lparr>ls_obj := (ls_obj w)\<lparr>sl_lock := k\<rparr>, ls_sys := s, ls_calls := (ls_calls w)(current (ls_sys w) := None),
         ls_returned := ls_returned w @ [(current (ls_sys w), x, r)]\<rparr>)"
| ls_other: "list_step current make_ready sleep func w (w\<lparr>ls_sys := s\<rparr>)"

definition list_init :: "'s \<Rightarrow> ('a, 's) list_world" where
  "list_init s = \<lparr>ls_obj = SynchList_new, ls_sys = s, ls_calls = (\<lambda>_. None), ls_returned = []\<rparr>"

section \<open>The deadlock\<close>

text \<open>
  Every thread behind \<open>Acquire\<close> is the owner on record. The list is empty, or some thread that has put an element waits in \<open>Signal\<close>
  for the lock it holds.
\<close>

definition owns :: "'a list_place \<Rightarrow> bool" where
  "owns p \<longleftrightarrow> (case p of In_Acquire _ \<Rightarrow> False | To_Sleep \<Rightarrow> False | _ \<Rightarrow> True)"

lemma owns_simps [simp]:
  "owns (Locked x)" "owns (In_Signal x)" "owns (Signalling x)" "owns (Leaving x r)" "\<not> owns (In_Acquire x)" "\<not> owns To_Sleep"
  by (simp_all add: owns_def)

definition signalling :: "(nat \<rightharpoonup> 'a list_place) \<Rightarrow> bool" where
  "signalling c \<longleftrightarrow> (\<exists>t x. c t = Some (In_Signal x))"

lemma signalling_upd: "(\<And>x. c t \<noteq> Some (In_Signal x)) \<Longrightarrow> signalling (c(t := v)) \<longleftrightarrow> (\<exists>x. v = Some (In_Signal x)) \<or> signalling c"
  by (auto simp: signalling_def) metis

definition list_inv :: "('a, 's) list_world \<Rightarrow> bool" where
  "list_inv w \<longleftrightarrow>
     (\<forall>t p. ls_calls w t = Some p \<longrightarrow> owns p \<longrightarrow> lock_owner (sl_lock (ls_obj w)) = Some t) \<and>
     (\<forall>t x. ls_calls w t \<noteq> Some (Signalling x)) \<and> (\<forall>t x r. ls_calls w t = Some (Leaving x r) \<longrightarrow> x = MapcarOp) \<and>
     (represents (sl_list (ls_obj w)) [] \<or> signalling (ls_calls w)) \<and>
     (\<forall>t x r. (t, x, r) \<in> set (ls_returned w) \<longrightarrow> x = MapcarOp)"

lemma Acquire_round_ok:
  "Acquire_round current sleep k s = Inr (b, k', s') \<Longrightarrow>
    (b \<longrightarrow> lock_owner k = None \<and> lock_owner k' = Some (current s)) \<and> (\<not> b \<longrightarrow> lock_owner k' = lock_owner k)"
  by (auto simp: Acquire_round_def res_eq_Inr split: if_splits)

lemma list_inv_owner:
  assumes "list_inv w" "ls_calls w t = Some p" "owns p" shows "lock_owner (sl_lock (ls_obj w)) = Some t"
  using assms by (auto simp: list_inv_def)

lemma list_inv_places:
  assumes "list_inv w" shows "ls_calls w t \<noteq> Some (Signalling x)" "ls_calls w t = Some (Leaving x r) \<Longrightarrow> x = MapcarOp"
    "(u, x, r) \<in> set (ls_returned w) \<Longrightarrow> x = MapcarOp"
  using assms unfolding list_inv_def by blast+

lemma list_inv_queue:
  assumes "list_inv w" "lock_owner k = lock_owner (sl_lock (ls_obj w))"
  shows "list_inv (w\<lparr>ls_obj := (ls_obj w)\<lparr>sl_lock := k\<rparr>, ls_sys := s\<rparr>)"
  using assms by (simp add: list_inv_def)

text \<open>A thread behind \<open>Acquire\<close> is alone there, and when it is not in \<open>Signal\<close> the list is empty.\<close>

lemma list_inv_alone:
  assumes "list_inv w" "ls_calls w t = Some p" "owns p"
  shows "ls_calls w u = Some p' \<Longrightarrow> owns p' \<Longrightarrow> u = t"
    "(\<And>x. p \<noteq> In_Signal x) \<Longrightarrow> represents (sl_list (ls_obj w)) []"
proof -
  have t: "lock_owner (sl_lock (ls_obj w)) = Some t" using list_inv_owner [OF assms] .
  show alone: "u = t" if "ls_calls w u = Some p'" "owns p'" for u p' using list_inv_owner [OF assms(1) that] t by simp
  assume p: "\<And>x. p \<noteq> In_Signal x"
  have "ls_calls w v \<noteq> Some (In_Signal x)" for v x using alone [of v "In_Signal x"] assms(2) p by (auto simp: owns_def)
  with assms(1) show "represents (sl_list (ls_obj w)) []" by (auto simp: list_inv_def signalling_def)
qed

text \<open>A move of the owner, with the lock still held.\<close>

lemma list_inv_move:
  assumes "list_inv w" "ls_calls w t = Some p" "owns p" "\<And>x. p \<noteq> In_Signal x" "\<And>x. p' \<noteq> Signalling x"
    "\<And>x r. p' = Leaving x r \<Longrightarrow> x = MapcarOp" "represents (sl_list (ls_obj w')) [] \<or> (\<exists>x. p' = In_Signal x)"
    "sl_lock (ls_obj w') = sl_lock (ls_obj w)" "ls_calls w' = (ls_calls w)(t \<mapsto> p')" "ls_returned w' = ls_returned w"
  shows "list_inv w'"
proof -
  have "signalling (ls_calls w') \<longleftrightarrow> (\<exists>x. p' = In_Signal x) \<or> signalling (ls_calls w)"
    using signalling_upd [of "ls_calls w" t "Some p'"] assms(2,4,9) by simp
  moreover have "ls_calls w' u = Some q \<Longrightarrow> owns q \<Longrightarrow> lock_owner (sl_lock (ls_obj w')) = Some u" for u q
    using list_inv_owner [OF assms(1-3)] list_inv_owner [OF assms(1), of u q] assms(8,9) by (cases "u = t") simp_all
  moreover have "ls_calls w' u \<noteq> Some (Signalling x)" "ls_calls w' u = Some (Leaving x r) \<Longrightarrow> x = MapcarOp" for u x r
    using list_inv_places [OF assms(1), of u] assms(5,6,9) by (auto split: if_splits)
  ultimately show ?thesis using assms(1,7,10) by (auto simp: list_inv_def)
qed

text \<open>The owner gives up the lock.\<close>

lemma list_inv_release:
  assumes "list_inv w" "ls_calls w t = Some p" "owns p" "\<And>x. p \<noteq> In_Signal x" "\<And>q. p' = Some q \<Longrightarrow> q = To_Sleep"
    "sl_list (ls_obj w') = sl_list (ls_obj w)" "ls_calls w' = (ls_calls w)(t := p')"
    "\<And>u x r. (u, x, r) \<in> set (ls_returned w') \<Longrightarrow> x = MapcarOp"
  shows "list_inv w'"
proof -
  have "\<not> owns q" if "ls_calls w' u = Some q" for u q
  proof (cases "u = t")
    case True
    with that assms(5,7) have "q = To_Sleep" by simp
    then show ?thesis by simp
  next
    case False
    with that assms(7) list_inv_alone(1) [OF assms(1-3), of u q] show ?thesis by auto
  qed
  moreover have "represents (sl_list (ls_obj w')) []" using list_inv_alone(2) [OF assms(1-4)] assms(6) by simp
  ultimately show ?thesis using assms(8) owns_simps(3,4) unfolding list_inv_def by metis
qed

lemma list_step_inv:
  assumes "list_step current make_ready sleep func w w'" "list_inv w" shows "list_inv w'"
  using assms
proof (induction rule: list_step.induct)
  case (ls_start w x)
  then show ?case unfolding list_inv_def by (auto simp: signalling_upd)
next
  case (ls_queue w x k s)
  with Acquire_round_ok [OF ls_queue.hyps(2)] show ?case by (intro list_inv_queue) simp_all
next
  case (ls_enter w x k s)
  note a = Acquire_round_ok [OF ls_enter.hyps(2)]
  then have free: "ls_calls w t = Some p \<Longrightarrow> \<not> owns p" for t p using list_inv_owner [OF ls_enter.prems] by fastforce
  from free owns_simps(2) have "\<not> signalling (ls_calls w)" unfolding signalling_def by blast
  with ls_enter.prems have "represents (sl_list (ls_obj w)) []" by (auto simp: list_inv_def)
  with a free ls_enter.prems show ?case unfolding list_inv_def by (auto simp: signalling_upd)
next
  case (ls_append w x l)
  note alone = list_inv_alone [OF ls_append.prems ls_append.hyps(1)]
  from alone(2) have "represents (sl_list (ls_obj w)) []" by simp
  then show ?case by (intro list_inv_move [OF ls_append.prems ls_append.hyps(1)]) simp_all
next
  case (ls_prepend w x l)
  note alone = list_inv_alone [OF ls_prepend.prems ls_prepend.hyps(1)]
  from alone(2) have "represents (sl_list (ls_obj w)) []" by simp
  then show ?case by (intro list_inv_move [OF ls_prepend.prems ls_prepend.hyps(1)]) simp_all
next
  case (ls_signal_queue w x k s)
  with Acquire_round_ok [OF ls_signal_queue.hyps(2)] show ?case by (intro list_inv_queue) simp_all
next
  case (ls_signal_enter w x k s)
  from list_inv_owner [OF ls_signal_enter.prems ls_signal_enter.hyps(1)] Acquire_round_ok [OF ls_signal_enter.hyps(2)]
  show ?case by simp
next
  case (ls_signal w x c s k s1)
  then show ?case by (auto simp: list_inv_def)
next
  case (ls_wait w q k s)
  show ?case by (rule list_inv_release [OF ls_wait.prems ls_wait.hyps(1), where p' = "Some To_Sleep"])
    (use list_inv_places(3) [OF ls_wait.prems] in auto)
next
  case (ls_sleep w s)
  then show ?case unfolding list_inv_def by (auto simp: signalling_upd)
next
  case (ls_remove w x l)
  from list_inv_alone(2) [OF ls_remove.prems ls_remove.hyps(1)] represents_empty [of "sl_list (ls_obj w)" "[]"] ls_remove.hyps(2)
  show ?case by simp
next
  case (ls_mapcar w s)
  note alone = list_inv_alone [OF ls_mapcar.prems ls_mapcar.hyps(1)]
  from alone(2) have "represents (sl_list (ls_obj w)) []" by simp
  then show ?case by (intro list_inv_move [OF ls_mapcar.prems ls_mapcar.hyps(1)]) simp_all
next
  case (ls_leave w x r k s)
  from list_inv_places(2) [OF ls_leave.prems ls_leave.hyps(1)] list_inv_places(3) [OF ls_leave.prems]
  show ?case by (intro list_inv_release [OF ls_leave.prems ls_leave.hyps(1), where p' = None]) auto
next
  case (ls_other w s)
  then show ?case by (simp add: list_inv_def)
qed

text \<open>A thread in \<open>Signal\<close> never gets the lock it holds, and nobody else gets to the list.\<close>

lemma list_signal_stuck:
  assumes "list_step current make_ready sleep func w w'" "list_inv w" "ls_calls w t = Some (In_Signal x)"
  shows "ls_calls w' t = Some (In_Signal x) \<and> sl_list (ls_obj w') = sl_list (ls_obj w)"
proof -
  have t: "lock_owner (sl_lock (ls_obj w)) = Some t" using list_inv_owner [OF assms(2,3)] by simp
  have others: "current (ls_sys w) = t" if "ls_calls w (current (ls_sys w)) = Some p" "owns p" for p
    using list_inv_owner [OF assms(2) that] t by simp
  show ?thesis
    using assms(1)
  proof cases
    case (ls_enter y k s)
    with Acquire_round_ok [OF ls_enter(3)] t show ?thesis by simp
  next
    case (ls_signal_enter y k s)
    with Acquire_round_ok [OF ls_signal_enter(3)] t show ?thesis by simp
  qed (use assms(3) others in \<open>force+\<close>)
qed

lemma list_reachable_inv:
  assumes "(list_step current make_ready sleep func)\<^sup>*\<^sup>* (list_init s) w" shows "list_inv w"
  using assms
proof (induction rule: rtranclp_induct)
  case base
  show ?case by (simp add: list_inv_def list_init_def SynchList_new_def represents_new)
next
  case (step y z)
  then show ?case using list_step_inv by blast
qed

end
