(* ===== verification/Post_Office.thy ===== *)
theory Post_Office
  imports Network SynchList
begin

text \<open>
  The receiving side of the post office (\<open>network/post.cc\<close>): the interrupt that announces a packet, the postal worker that
  puts messages into the mailboxes, and the threads that receive from them. A mailbox is a synchronized list, and \<open>Put\<close> and
  \<open>Get\<close> are calls on it; their steps are those of \<open>SynchList\<close>.
\<close>

section \<open>Operations\<close>

text \<open>\<open>MailBox::Put\<close> makes a message and calls \<open>messages->Append\<close>: the result is that call. \<open>uninit\<close> is the array of the new object.\<close>

definition MailBox_Put :: "byte list \<Rightarrow> PacketHeader \<Rightarrow> MailHeader \<Rightarrow> byte list \<Rightarrow> Mail list_op res" where
  "MailBox_Put uninit pktH mailH msgData = bind_res (Mail_new uninit pktH mailH msgData) (\<lambda>mail. Inr (AppendOp mail))"

text \<open>
  \<open>PostOffice::Receive\<close> and \<open>MailBox::Get\<close> from the return of \<open>messages->Remove\<close> on, with what it has returned.
\<close>

definition MailBox_Get :: "Mail option \<Rightarrow> byte list \<Rightarrow> (PacketHeader \<times> MailHeader \<times> byte list) res" where
  "MailBox_Get item data =
     deref_res item (\<lambda>mail.
     bind_res (memcpy_prefix (unat (mail_length (mailHdr mail))) (mail_data mail) data) (\<lambda>data1.
     Inr (pktHdr mail, mailHdr mail, data1)))"

definition Receive_return :: "Mail option \<Rightarrow> byte list \<Rightarrow> (PacketHeader \<times> MailHeader \<times> byte list) res" where
  "Receive_return item data =
     bind_res (MailBox_Get item data) (\<lambda>(pktHdr, mailHdr, data1).
     assert_res (unat (mail_length mailHdr) \<le> MaxMailSize) (\<lambda>_. Inr (pktHdr, mailHdr, data1)))"

text \<open>
  One round of \<open>PostalDelivery\<close> after the wait for a message, up to the call on the list of the box: the box, the call, the
  buffer of the thread and the network.
\<close>

definition PostalDelivery_round ::
  "int \<Rightarrow> byte list \<Rightarrow> byte list \<Rightarrow> Network \<Rightarrow> (nat \<times> Mail list_op \<times> byte list \<times> Network) res" where
  "PostalDelivery_round numBoxes uninit buffer n =
     bind_res (Network_Receive buffer n) (\<lambda>(pkt, buffer1, n1).
     let mail = mail_header_of buffer1 in
     assert_res (0 \<le> mail_to mail \<and> mail_to mail < numBoxes) (\<lambda>_.
     assert_res (unat (mail_length mail) \<le> MaxMailSize) (\<lambda>_.
     bind_res (MailBox_Put uninit pkt mail (drop MailHeader_size buffer1)) (\<lambda>call.
     Inr (nat (mail_to mail), call, buffer1, n1)))))"

section \<open>The post office at work\<close>

text \<open>
  \<open>boxes\<close> are the lists of the mailboxes with the calls on them; they share the state of the kernel, \<open>post_sys\<close>.
  \<open>messageAvailable\<close> is the count of that semaphore, \<open>post_received\<close> what \<open>Receive\<close> has returned, by thread and box.
\<close>

record 's post =
  post_net :: Network
  messageAvailable :: nat
  post_buffer :: "byte list"
  boxes :: "nat \<Rightarrow> (Mail, 's) list_world"
  post_sys :: 's
  post_received :: "(nat \<times> nat \<times> PacketHeader \<times> MailHeader \<times> byte list) list"

definition PostOffice_new :: "Network \<Rightarrow> byte list \<Rightarrow> 's \<Rightarrow> 's post" where
  "PostOffice_new n buffer s = \<lparr>post_net = n, messageAvailable = 0, post_buffer = buffer, boxes = (\<lambda>_. list_init s), post_sys = s, post_received = []\<rparr>"

definition box_world :: "nat \<Rightarrow> 's post \<Rightarrow> (Mail, 's) list_world" where
  "box_world k w = (boxes w k)\<lparr>ls_sys := post_sys w\<rparr>"

definition set_box :: "nat \<Rightarrow> (Mail, 's) list_world \<Rightarrow> 's post \<Rightarrow> 's post" where
  "set_box k v w = w\<lparr>boxes := (boxes w)(k := v), post_sys := ls_sys v\<rparr>"

definition begin_call :: "nat \<Rightarrow> Mail list_op \<Rightarrow> nat \<Rightarrow> 's post \<Rightarrow> 's post" where
  "begin_call k x t w = set_box k ((box_world k w)\<lparr>ls_calls := (ls_calls (boxes w k))(t \<mapsto> In_Acquire x)\<rparr>) w"

definition no_call :: "nat \<Rightarrow> nat \<Rightarrow> 's post \<Rightarrow> bool" where
  "no_call numBoxes t w \<longleftrightarrow> (\<forall>k<numBoxes. ls_calls (boxes w k) t = None)"

text \<open>
  A datagram arrives; the network takes one and its handler \<open>IncomingPacket\<close> raises \<open>messageAvailable\<close>; the worker is let through
  by \<open>P\<close> and calls \<open>Put\<close>; a thread calls \<open>Receive\<close>; a thread takes a step of its call on a list, which may be the return from
  \<open>Remove\<close>; anything else happens in the kernel. A failed assertion stops the kernel and has no step.
\<close>

inductive post_step ::
  "('s \<Rightarrow> nat) \<Rightarrow> (nat \<Rightarrow> 's \<Rightarrow> 's res) \<Rightarrow> ('s \<Rightarrow> 's res) \<Rightarrow> nat \<Rightarrow> nat \<Rightarrow> 's post \<Rightarrow> 's post \<Rightarrow> bool"
  for current make_ready sleep numBoxes worker where
  po_arrive: "post_step current make_ready sleep numBoxes worker w (w\<lparr>post_net := (post_net w)\<lparr>socket := socket (post_net w) @ [d]\<rparr>\<rparr>)"
| po_incoming: "take_packet (post_net w) = Inr (True, n) \<Longrightarrow>
    post_step current make_ready sleep numBoxes worker w (w\<lparr>post_net := n, messageAvailable := messageAvailable w + 1\<rparr>)"
| po_deliver: "current (post_sys w) = worker \<Longrightarrow> no_call numBoxes worker w \<Longrightarrow> 0 < messageAvailable w \<Longrightarrow> length uninit = MaxMailSize \<Longrightarrow>
    PostalDelivery_round (int numBoxes) uninit (post_buffer w) (post_net w) = Inr (k, x, buffer, n) \<Longrightarrow>
    post_step current make_ready sleep numBoxes worker w
      ((begin_call k x worker w)\<lparr>post_net := n, messageAvailable := messageAvailable w - 1, post_buffer := buffer\<rparr>)"
| po_receive: "current (post_sys w) = t \<Longrightarrow> t \<noteq> worker \<Longrightarrow> no_call numBoxes t w \<Longrightarrow> k < numBoxes \<Longrightarrow>
    post_step current make_ready sleep numBoxes worker w (begin_call k RemoveOp t w)"
| po_call: "ls_calls (boxes w k) (current (post_sys w)) \<noteq> None \<Longrightarrow>
    list_step current make_ready sleep (\<lambda>_. Inr) (box_world k w) v \<Longrightarrow>
    \<forall>m. ls_returned v \<noteq> ls_returned (boxes w k) @ [(current (post_sys w), RemoveOp, m)] \<Longrightarrow>
    post_step current make_ready sleep numBoxes worker w (set_box k v w)"
| po_return: "ls_calls (boxes w k) (current (post_sys w)) \<noteq> None \<Longrightarrow>
    list_step current make_ready sleep (\<lambda>_. Inr) (box_world k w) v \<Longrightarrow>
    ls_returned v = ls_returned (boxes w k) @ [(current (post_sys w), RemoveOp, m)] \<Longrightarrow> Receive_return m out = Inr (p, h, data) \<Longrightarrow>
    post_step current make_ready sleep numBoxes worker w
      ((set_box k v w)\<lparr>post_received := post_received w @ [(current (post_sys w), k, p, h, data)]\<rparr>)"
| po_other: "post_step current make_ready sleep numBoxes worker w (w\<lparr>post_sys := s\<rparr>)"

section \<open>A message that is delivered\<close>

lemma MailBox_Put_ok:
  assumes "unat (mail_length h) \<le> MaxMailSize" "unat (mail_length h) \<le> length data" "length uninit = MaxMailSize"
  shows "MailBox_Put uninit p h data =
    Inr (AppendOp \<lparr>pktHdr = p, mailHdr = h, mail_data = take (unat (mail_length h)) data @ drop (unat (mail_length h)) uninit\<rparr>)"
  using assms by (simp add: MailBox_Put_def Mail_new_def)

lemma PostalDelivery_ok:
  assumes "inHdr n = sent_header addr pkt mail" "inbox n = message mail data @ rest" "unat (mail_length mail) \<le> MaxMailSize"
    "unat (mail_length mail) \<le> length data" "0 \<le> mail_to mail" "mail_to mail < numBoxes" "int32 (mail_to mail)" "int32 (mail_from mail)"
    "length buffer = MaxPacketSize" "length uninit = MaxMailSize" "length (inbox n) = MaxPacketSize"
  shows "\<exists>buffer'. PostalDelivery_round numBoxes uninit buffer n =
    Inr (nat (mail_to mail), AppendOp \<lparr>pktHdr = sent_header addr pkt mail, mailHdr = mail,
      mail_data = take (unat (mail_length mail)) data @ drop (unat (mail_length mail)) uninit\<rparr>, buffer',
      n\<lparr>inHdr := (inHdr n)\<lparr>pkt_length := 0\<rparr>\<rparr>)"
proof -
  let ?h = "sent_header addr pkt mail" and ?k = "unat (mail_length mail)"
  have len: "unat (pkt_length ?h) = MailHeader_size + ?k" using mail_length_plus [OF assms(3)] by (simp add: sent_header_def)
  then have ne: "pkt_length ?h \<noteq> 0" by (auto simp: wire_sizes)
  let ?b = "message mail data @ drop (MailHeader_size + ?k) buffer"
  have "Network_Receive buffer n = Inr (?h, ?b, n\<lparr>inHdr := ?h\<lparr>pkt_length := 0\<rparr>\<rparr>)"
    using assms(1-4,9,11) len ne message_length [OF assms(4)] by (simp add: Network_Receive_def Let_def wire_sizes)
  moreover have "mail_header_of ?b = mail" using mail_header_inverse [OF assms(7,8)] by (simp add: message_def)
  moreover have "drop MailHeader_size ?b = take ?k data @ drop (MailHeader_size + ?k) buffer" by (simp add: message_def)
  moreover have "MailBox_Put uninit ?h mail (take ?k data @ drop (MailHeader_size + ?k) buffer) =
      Inr (AppendOp \<lparr>pktHdr = ?h, mailHdr = mail, mail_data = take ?k data @ drop ?k uninit\<rparr>)"
    using MailBox_Put_ok [OF assms(3) _ assms(10)] assms(4) by simp
  ultimately show ?thesis
    using assms(1,3,5,6) by (simp add: PostalDelivery_round_def)
qed

lemma PostalDelivery_box: "PostalDelivery_round numBoxes uninit buffer n = Inr (k, x, b, m) \<Longrightarrow> int k < numBoxes"
  by (auto simp: PostalDelivery_round_def Let_def res_eq_Inr split: prod.splits if_splits)

section \<open>The worker never comes back\<close>

text \<open>No message has come out of a box, and every box is the list of \<open>SynchList\<close> with its deadlock.\<close>

definition post_inv :: "'s post \<Rightarrow> bool" where
  "post_inv w \<longleftrightarrow> (\<forall>k. list_inv (boxes w k)) \<and> post_received w = []"

lemma list_inv_box [simp]: "list_inv (box_world k w) = list_inv (boxes w k)"
  by (simp add: box_world_def list_inv_def)

lemma box_world_sel [simp]:
  "ls_obj (box_world k w) = ls_obj (boxes w k)" "ls_sys (box_world k w) = post_sys w" "ls_calls (box_world k w) = ls_calls (boxes w k)"
  "ls_returned (box_world k w) = ls_returned (boxes w k)"
  by (simp_all add: box_world_def)

lemma begin_call_step:
  assumes "ls_calls (boxes w k) t = None" "current (post_sys w) = t"
  shows "\<exists>v. list_step current make_ready sleep (\<lambda>_. Inr) (box_world k w) v \<and> begin_call k x t w = set_box k v w"
  using list_step.ls_start [of "box_world k w" current make_ready sleep "\<lambda>_. Inr" x] assms
  by (intro exI conjI) (auto simp: begin_call_def)

text \<open>What a step does to a box is a step of its list, or nothing.\<close>

lemma post_step_box:
  assumes "post_step current make_ready sleep numBoxes worker w w'"
  shows "boxes w' k = boxes w k \<or> list_step current make_ready sleep (\<lambda>_. Inr) (box_world k w) (boxes w' k)"
  using assms
proof cases
  case (po_deliver uninit j x buffer n)
  then have "ls_calls (boxes w j) worker = None" using PostalDelivery_box [of "int numBoxes"] by (auto simp: no_call_def)
  from begin_call_step [where current = current, OF this po_deliver(2), of make_ready sleep x] po_deliver show ?thesis by (auto simp: set_box_def)
next
  case (po_receive t j)
  then have "ls_calls (boxes w j) t = None" by (simp add: no_call_def)
  from begin_call_step [where current = current, OF this po_receive(2), of make_ready sleep RemoveOp] po_receive show ?thesis by (auto simp: set_box_def)
qed (auto simp: set_box_def)

lemma post_step_received:
  assumes "post_step current make_ready sleep numBoxes worker w w'" "post_inv w" shows "post_received w' = []"
  using assms(1)
proof cases
  case (po_return k v m out p h data)
  have "list_inv (box_world k w)" using assms(2) by (simp add: post_inv_def)
  from list_inv_places(3) [OF list_step_inv [OF po_return(3) this]] po_return(4) show ?thesis by fastforce
qed (use assms(2) in \<open>auto simp: post_inv_def begin_call_def set_box_def\<close>)

lemma post_step_inv:
  assumes "post_step current make_ready sleep numBoxes worker w w'" "post_inv w" shows "post_inv w'"
proof -
  have "list_inv (boxes w' k)" for k
    using post_step_box [OF assms(1), of k] list_step_inv [of _ _ _ _ "box_world k w" "boxes w' k"] assms(2) by (auto simp: post_inv_def)
  with post_step_received [OF assms] show ?thesis by (simp add: post_inv_def)
qed

lemma post_reachable_inv:
  fixes s :: 's
  assumes "(post_step current make_ready sleep numBoxes worker)\<^sup>*\<^sup>* (PostOffice_new n buffer s) w" shows "post_inv w"
  using assms
proof (induction rule: rtranclp_induct)
  case base
  have "list_inv (list_init s :: (Mail, 's) list_world)" by (rule list_reachable_inv [OF rtranclp.rtrancl_refl])
  then show ?case by (simp add: post_inv_def PostOffice_new_def)
qed (rule post_step_inv)

text \<open>A thread that has got as far as \<open>Signal\<close> stays there, and the list of the box stays as it is.\<close>

lemma post_stuck:
  assumes "(post_step current make_ready sleep numBoxes worker)\<^sup>*\<^sup>* w w'" "post_inv w" "ls_calls (boxes w k) t = Some (In_Signal x)"
  shows "post_inv w' \<and> ls_calls (boxes w' k) t = Some (In_Signal x) \<and> sl_list (ls_obj (boxes w' k)) = sl_list (ls_obj (boxes w k))"
  using assms(1)
proof (induction rule: rtranclp_induct)
  case (step u v)
  then have "list_inv (box_world k u)" by (simp add: post_inv_def)
  with post_step_box [OF step.hyps(2), of k] list_signal_stuck [of _ _ _ _ "box_world k u" "boxes v k" t x] post_step_inv [OF step.hyps(2)] step.IH
  show ?case by auto
qed (use assms(2,3) in simp)

section \<open>The way into a box\<close>

lemma put_enters:
  assumes "current (post_sys w) = t" "ls_calls (boxes w k) t = Some (In_Acquire x)" "lock_owner (sl_lock (ls_obj (boxes w k))) = None"
  shows "\<exists>w'. post_step current make_ready sleep numBoxes worker w w' \<and> post_sys w' = post_sys w \<and>
    ls_calls (boxes w' k) t = Some (Locked x) \<and> sl_list (ls_obj (boxes w' k)) = sl_list (ls_obj (boxes w k))"
proof -
  let ?l = "(sl_lock (ls_obj (boxes w k)))\<lparr>lock_owner := Some t\<rparr>"
  let ?v = "(box_world k w)\<lparr>ls_obj := (ls_obj (boxes w k))\<lparr>sl_lock := ?l\<rparr>, ls_sys := post_sys w,
    ls_calls := (ls_calls (boxes w k))(t \<mapsto> Locked x)\<rparr>"
  have "list_step current make_ready sleep (\<lambda>_. Inr) (box_world k w) ?v"
    using list_step.ls_enter [of "box_world k w" current x sleep ?l "post_sys w"] assms by (simp add: Acquire_round_def)
  then have "post_step current make_ready sleep numBoxes worker w (set_box k ?v w)" using assms by (intro po_call) simp_all
  then show ?thesis by (intro exI [of _ "set_box k ?v w"]) (simp add: set_box_def)
qed

lemma put_appends:
  assumes "current (post_sys w) = t" "ls_calls (boxes w k) t = Some (Locked (AppendOp m))" "represents (sl_list (ls_obj (boxes w k))) ms"
  shows "\<exists>w'. post_step current make_ready sleep numBoxes worker w w' \<and>
    ls_calls (boxes w' k) t = Some (In_Signal (AppendOp m)) \<and> represents (sl_list (ls_obj (boxes w' k))) (ms @ [m])"
proof -
  obtain l where l: "Append m (sl_list (ls_obj (boxes w k))) = Inr l" "represents l (ms @ [m])" using Append_ok [OF assms(3)] by blast
  let ?v = "(box_world k w)\<lparr>ls_obj := (ls_obj (boxes w k))\<lparr>sl_list := l\<rparr>, ls_calls := (ls_calls (boxes w k))(t \<mapsto> In_Signal (AppendOp m))\<rparr>"
  have "list_step current make_ready sleep (\<lambda>_. Inr) (box_world k w) ?v"
    using list_step.ls_append [of "box_world k w" current m l] assms l(1) by simp
  then have "post_step current make_ready sleep numBoxes worker w (set_box k ?v w)" using assms by (intro po_call) simp_all
  with l(2) show ?thesis by (intro exI [of _ "set_box k ?v w"]) (simp add: set_box_def)
qed

lemma free_box_empty:
  assumes "post_inv w" "lock_owner (sl_lock (ls_obj (boxes w k))) = None" shows "represents (sl_list (ls_obj (boxes w k))) []"
proof -
  have i: "list_inv (boxes w k)" using assms(1) by (simp add: post_inv_def)
  have "ls_calls (boxes w k) t \<noteq> Some (In_Signal x)" for t x using list_inv_owner [OF i, of t "In_Signal x"] assms(2) by auto
  then have "\<not> signalling (ls_calls (boxes w k))" by (simp add: signalling_def)
  with i show ?thesis by (simp add: list_inv_def)
qed

text \<open>A datagram that the network takes and the worker accepts ends in the list of its box.\<close>

lemma post_delivers:
  assumes inv: "post_inv w" and idle: "current (post_sys w) = worker" "no_call numBoxes worker w" "socket (post_net w) = []"
    and net: "take_packet ((post_net w)\<lparr>socket := [wire]\<rparr>) = Inr (True, n1)"
    and round: "length uninit = MaxMailSize" "PostalDelivery_round (int numBoxes) uninit (post_buffer w) n1 = Inr (k, AppendOp m, buffer, n2)"
    and free: "lock_owner (sl_lock (ls_obj (boxes w k))) = None"
  shows "\<exists>w'. (post_step current make_ready sleep numBoxes worker)\<^sup>*\<^sup>* w w' \<and> represents (sl_list (ls_obj (boxes w' k))) [m] \<and>
    ls_calls (boxes w' k) worker = Some (In_Signal (AppendOp m))"
proof -
  let ?step = "post_step current make_ready sleep numBoxes worker"
  let ?w1 = "w\<lparr>post_net := (post_net w)\<lparr>socket := [wire]\<rparr>\<rparr>"
  let ?w2 = "?w1\<lparr>post_net := n1, messageAvailable := messageAvailable w + 1\<rparr>"
  let ?w3 = "(begin_call k (AppendOp m) worker ?w2)\<lparr>post_net := n2, messageAvailable := messageAvailable ?w2 - 1, post_buffer := buffer\<rparr>"
  have s1: "?step w ?w1" using po_arrive [of current make_ready sleep numBoxes worker w wire] idle(3) by simp
  have s2: "?step ?w1 ?w2" using po_incoming [of ?w1 n1 current make_ready sleep numBoxes worker] net by simp
  have s3: "?step ?w2 ?w3" using idle(1,2) round by (intro po_deliver) (simp_all add: no_call_def)
  have w3: "post_sys ?w3 = post_sys w" "ls_calls (boxes ?w3 k) worker = Some (In_Acquire (AppendOp m))"
    "ls_obj (boxes ?w3 k) = ls_obj (boxes w k)"
    by (simp_all add: begin_call_def set_box_def box_world_def)
  have "current (post_sys ?w3) = worker" "lock_owner (sl_lock (ls_obj (boxes ?w3 k))) = None"
    using w3 idle(1) free by simp_all
  from put_enters [where current = current and make_ready = make_ready and sleep = sleep and numBoxes = numBoxes and worker = worker,
      OF this(1) w3(2) this(2)] obtain w4 where
    w4: "?step ?w3 w4" "post_sys w4 = post_sys ?w3" "ls_calls (boxes w4 k) worker = Some (Locked (AppendOp m))"
      "sl_list (ls_obj (boxes w4 k)) = sl_list (ls_obj (boxes ?w3 k))" by blast
  have "current (post_sys w4) = worker" "represents (sl_list (ls_obj (boxes w4 k))) []"
    using w4(2,4) w3 idle(1) free_box_empty [OF inv free] by simp_all
  from put_appends [where current = current and make_ready = make_ready and sleep = sleep and numBoxes = numBoxes and worker = worker,
      OF this(1) w4(3) this(2)] obtain w5 where
    w5: "?step w4 w5" "ls_calls (boxes w5 k) worker = Some (In_Signal (AppendOp m))" "represents (sl_list (ls_obj (boxes w5 k))) [m]" by auto
  have "?step\<^sup>*\<^sup>* w w5" using s1 s2 s3 w4(1) w5(1) by (meson converse_rtranclp_into_rtranclp rtranclp.rtrancl_refl)
  with w5(2,3) show ?thesis by blast
qed

end
