(* ===== verification/Device_Properties.thy ===== *)
theory Device_Properties
  imports Console Post_Office Thread_Properties
begin

text \<open>
  What the disk, the console, the post office and the synchronized lists promise to the threads that use them,
  whatever the order in which threads and interrupts take their turns.
\<close>

section \<open>The disk\<close>

text \<open>
  C32: a disk request takes from one to 64 sector times and at most a seek over 31 tracks, so its interrupt lies in the
  future; and by its end the sector has passed entirely under the head, after the seek or, when a read finds the arm on
  the track, since the track buffer was started there.
\<close>

theorem disk_latency:
  assumes "valid_sector n" "arm_ok d" "clock_ok now"
  shows "500 \<le> ComputeLatency n writing d now \<and> ComputeLatency n writing d now < 32000 \<and> arm_ok (UpdateLast n now d) \<and>
    (\<exists>start. head_at start n \<and> start + RotationTime \<le> sint now + ComputeLatency n writing d now \<and>
      (sint now + \<bar>n div int SectorsPerTrack - lastSector d div int SectorsPerTrack\<bar> * SeekTime \<le> start \<or>
       \<not> writing \<and> n div int SectorsPerTrack = lastSector d div int SectorsPerTrack \<and> sint (bufferInit d) \<le> start))"
  using latency_ok [OF assms, of writing] UpdateLast_ok [OF assms] by (simp add: RotationTime_def)

definition sample_disk :: "kernel_func Disk" where
  "sample_disk = \<lparr>disk_file = \<lparr>hf_bytes = [], hf_pos = 0\<rparr>, disk_handler = TimerHandler, disk_handlerArg = 0, active = False,
     lastSector = 40, bufferInit = 500, numDiskReads = 0, numDiskWrites = 0\<rparr>"

theorem disk_latency_witness:
  "500 \<le> ComputeLatency 100 False sample_disk 1234 \<and> ComputeLatency 100 False sample_disk 1234 < 32000 \<and>
    arm_ok (UpdateLast 100 1234 sample_disk) \<and>
    (\<exists>start. head_at start 100 \<and> start + RotationTime \<le> sint (1234 :: uint32) + ComputeLatency 100 False sample_disk 1234 \<and>
      (sint (1234 :: uint32) + \<bar>100 div int SectorsPerTrack - lastSector sample_disk div int SectorsPerTrack\<bar> * SeekTime \<le> start \<or>
       \<not> False \<and> 100 div int SectorsPerTrack = lastSector sample_disk div int SectorsPerTrack \<and> sint (bufferInit sample_disk) \<le> start))"
  by (rule disk_latency)
    (simp_all add: valid_sector_def arm_ok_def clock_ok_def sample_disk_def NumSectors_def SectorsPerTrack_def NumTracks_def RotationTime_def)

text \<open>
  C33: however calls of \<open>ReadSector\<close> and \<open>WriteSector\<close>, interrupts and other threads interleave, a thread that is about to
  make a request finds the disk idle (its assertion does not fail), and the disk behaves as an array of sectors on which
  the finished calls, and the requests of the one call inside, are carried out one after the other.
\<close>

theorem SynchDisk_sequential:
  assumes "old_disk old" "SynchDisk_new old requestDone this s = Inr w0" "(SynchDisk_step tick sleep done' this)\<^sup>*\<^sup>* w0 w"
  shows "(\<forall>t rs os. dr_calls w t = Some (rs, os, Working) \<longrightarrow> \<not> active (dr_dev w) \<and> \<not> outstanding w) \<and>
    (\<exists>log. replay disk_effect (concat (map snd (dr_history w)) @ log) (file_contents old) (contents (dr_dev w)) \<and>
      (log = [] \<and> (\<forall>u. \<not> inside_calls (dr_calls w) u) \<or>
       (\<exists>t rs p. dr_calls w t = Some (rs, log, p) \<and> (\<forall>u. inside_calls (dr_calls w) u \<longleftrightarrow> u = t))))"
proof -
  from Disk_new_ok [OF assms(1), of requestDone this] assms(2) obtain d where
    d: "w0 = driver_init Lock_new d s" "file_ok d" "\<not> active d" "contents d = file_contents old"
    by (auto simp: SynchDisk_new_def)
  from assms(3) have "(driver_step currentThread ReadyToRun sleep (Acquire_round currentThread sleep) (Release_body ReadyToRun)
      (SynchDisk_request tick done' this) (\<lambda>d. d\<lparr>active := False\<rparr>))\<^sup>*\<^sup>* (driver_init Lock_new d s) w"
    by (simp add: SynchDisk_step_def d(1))
  from disk_driver.driver_safe(1) [OF this TrueI d(2,3)] disk_driver.driver_sequential [OF this TrueI d(2,3)]
  show ?thesis unfolding d(4) by blast
qed

section \<open>Sample runs\<close>

text \<open>A device schedules its interrupt in the sample kernel, whose timer is pending.\<close>

lemma sample_schedule:
  assumes "0 < n" shows "\<exists>s1. Schedule Inr h a n ty (sample_system True) = Inr s1"
proof -
  have "pend_inv (sample_system True) [\<lparr>pi_handler = TimerHandler, pi_arg = 0, pi_when = 1, pi_type = TimerInt\<rparr>]"
    by (simp add: pend_inv_def represents_one)
  from Schedule_ok [OF _ assms this, of Inr h a ty] show ?thesis by auto
qed

lemma sample_schedule2:
  assumes "0 < n" "0 < n'"
  shows "\<exists>s1 s2. Schedule Inr h a n ty (sample_system True) = Inr s1 \<and> Schedule Inr h' a' n' ty' s1 = Inr s2"
proof -
  have "pend_inv (sample_system True) [\<lparr>pi_handler = TimerHandler, pi_arg = 0, pi_when = 1, pi_type = TimerInt\<rparr>]"
    by (simp add: pend_inv_def represents_one)
  from Schedule_ok [OF _ assms(1) this, of Inr h a ty] obtain l ps where
    l: "Schedule Inr h a n ty (sample_system True) = Inr ((sample_system True)\<lparr>pending := l\<rparr>)" "pend_inv ((sample_system True)\<lparr>pending := l\<rparr>) ps"
    by auto
  with Schedule_ok [OF _ assms(2) l(2), of Inr h' a' ty'] show ?thesis by auto
qed

lemma sample_acquire: "Acquire_round currentThread sleep Lock_new (sample_system True) =
    Inr (True, Lock_new\<lparr>lock_owner := Some 1\<rparr>, sample_system True)"
  by (simp add: Acquire_round_def Lock_new_def)

lemma sample_P: "P_round current sleep (KernelSemaphore_new 1) s = Inr (True, (KernelSemaphore_new 1)\<lparr>sem_value := 0\<rparr>, s)"
  by (simp add: P_round_def KernelSemaphore_new_def)


text \<open>The first thread writes sector 3 of a new disk; the interrupt is due.\<close>

theorem SynchDisk_sequential_witness:
  "\<exists>w0 w log. SynchDisk_new None TimerHandler 0 (sample_system True) = Inr w0 \<and> (SynchDisk_step Inr Inr TimerHandler 0)\<^sup>*\<^sup>* w0 w \<and>
    outstanding w \<and> replay disk_effect log (file_contents None) (contents (dr_dev w))"
proof -
  from Disk_new_ok [of None TimerHandler 0] obtain d where
    d: "Disk_new None TimerHandler 0 = Inr d" "arm_ok d" "\<not> active d" by (auto simp: old_disk_def)
  let ?s = "sample_system True" and ?data = "replicate SectorSize (7 :: byte)"
  have v: "valid_sector 3" "clock_ok (totalTicks ?s)" by (simp_all add: valid_sector_def clock_ok_def NumSectors_def SectorsPerTrack_def NumTracks_def)
  let ?ticks = "ComputeLatency 3 True d (totalTicks ?s)"
  have "uint (word_of_int ?ticks :: uint32) = ?ticks"
    using latency_ok(1,2) [OF v(1) d(2) v(2), of True] by (simp add: RotationTime_def uint_of_int)
  then have "0 < (word_of_int ?ticks :: uint32)"
    using latency_ok(1) [OF v(1) d(2) v(2), of True] by (simp add: RotationTime_def word_less_def)
  from sample_schedule [OF this, of TimerHandler 0 DiskInt] obtain s1 where
    s1: "Schedule Inr TimerHandler 0 (word_of_int ?ticks) DiskInt ?s = Inr s1" by blast
  obtain d1 where d1: "WriteRequest Inr TimerHandler 0 3 ?data d ?s = Inr (d1, s1)"
    by (rule WriteRequest_ok [OF d(2,3) v _ s1]) auto
  let ?init = "driver_init Lock_new d ?s :: (Lock, kernel_func Disk, disk_request, byte list, kernel_func system) driver"
  let ?w = "?init\<lparr>dr_mutex := Lock_new\<lparr>lock_owner := Some 1\<rparr>, dr_dev := d1, dr_sys := s1,
    dr_calls := [currentThread ?s \<mapsto> ([], [(Write_sector 3 ?data, [])], Waiting)], outstanding := True\<rparr>"
  have new: "SynchDisk_new None TimerHandler 0 ?s = Inr ?init" by (simp add: SynchDisk_new_def d(1))
  have run: "(SynchDisk_step Inr Inr TimerHandler 0)\<^sup>*\<^sup>* ?init ?w"
    unfolding SynchDisk_step_def
    by (rule driver_first_request) (simp_all add: sample_acquire SynchDisk_request_def d1)
  from SynchDisk_sequential [OF _ new run] obtain log where
    "replay disk_effect (concat (map snd (dr_history ?w)) @ log) (file_contents None) (contents (dr_dev ?w))"
    by (auto simp: old_disk_def)
  then have "replay disk_effect log (file_contents None) (contents (dr_dev ?w))" by simp
  with new run show ?thesis by (intro exI [of _ ?init] exI [of _ ?w] exI [of _ log]) simp
qed

section \<open>The console\<close>

text \<open>
  C34: however calls of \<open>ConsoleWrite\<close>, interrupts and other threads interleave, \<open>PutChar\<close> never finds the display busy, and the
  display shows, but for the character that is on its way, the characters of the finished calls one call after the other and
  those that the one call inside has put: the output of no two calls is mixed.
\<close>

theorem ConsoleWrite_atomic:
  assumes "Console_new tick readPoll this input s = Inr (c, s0)"
    "(ConsoleWrite_step tick sleep finishWrite req)\<^sup>*\<^sup>* (driver_init (KernelSemaphore_new 1) c s0) w"
  shows "(\<forall>t rs os. dr_calls w t = Some (rs, os, Working) \<longrightarrow> \<not> putBusy (dr_dev w)) \<and>
    (\<exists>log. display (dr_dev w) @ (case write_req (dr_dev w) of None \<Rightarrow> [] | Some ch \<Rightarrow> [ch]) =
        concat (map (map fst \<circ> snd) (dr_history w)) @ map fst log \<and>
      (log = [] \<and> (\<forall>u. \<not> inside_calls (dr_calls w) u) \<or>
       (\<exists>t rs p. dr_calls w t = Some (rs, log, p) \<and> (\<forall>u. inside_calls (dr_calls w) u \<longleftrightarrow> u = t))))"
proof -
  have c: "console_good c" "\<not> putBusy c" "written c = []"
    using assms(1) by (auto simp: Console_new_def console_good_def written_def res_eq_Inr)
  have sane: "binary (KernelSemaphore_new 1)" by (simp add: binary_def KernelSemaphore_new_def)
  from assms(2) have "(driver_step currentThread ReadyToRun sleep (P_round currentThread sleep) (V_body ReadyToRun)
      (PutChar tick finishWrite req) ConsoleFinishWrite)\<^sup>*\<^sup>* (driver_init (KernelSemaphore_new 1) c s0) w"
    by (simp add: ConsoleWrite_step_def)
  note safe = console_driver.driver_safe(1) [OF this sane c(1,2)] and run = console_driver.driver_sequential [OF this sane c(1,2)]
  have "written (dr_dev w) = concat (map (map fst \<circ> snd) (dr_history w)) @ map fst log"
    if "replay (\<lambda>ch _ a b. b = a @ [ch]) (concat (map snd (dr_history w)) @ log) (written c) (written (dr_dev w))" for log :: "(byte \<times> unit) list"
    using that by (simp add: replay_append_chars c(3) map_concat)
  with run safe show ?thesis unfolding written_def by blast
qed

text \<open>The first thread puts an A, which is on its way to the display.\<close>

theorem ConsoleWrite_atomic_witness:
  "\<exists>c s0 w (log :: (byte \<times> unit) list). Console_new Inr TimerHandler 0 [] (sample_system True) = Inr (c, s0) \<and>
    (ConsoleWrite_step Inr Inr TimerHandler 0)\<^sup>*\<^sup>* (driver_init (KernelSemaphore_new 1) c s0) w \<and> outstanding w \<and>
    display (dr_dev w) @ (case write_req (dr_dev w) of None \<Rightarrow> [] | Some ch \<Rightarrow> [ch]) = map fst log"
proof -
  obtain c s0 s1 where c: "Console_new Inr TimerHandler 0 [] (sample_system True) = Inr (c, s0)"
    "Schedule Inr TimerHandler 0 ConsoleTime ConsoleWriteInt s0 = Inr s1" "\<not> putBusy c"
    using sample_schedule2 [of ConsoleTime ConsoleTime TimerHandler 0 ConsoleReadInt TimerHandler 0 ConsoleWriteInt]
    by (auto simp: Console_new_def ConsoleTime_def)
  let ?first = "driver_init (KernelSemaphore_new 1) c s0 :: (KernelSemaphore, Console, byte, unit, kernel_func system) driver"
  let ?last = "?first\<lparr>dr_mutex := (KernelSemaphore_new 1)\<lparr>sem_value := 0\<rparr>, dr_dev := c\<lparr>putBusy := True, write_req := Some 65\<rparr>, dr_sys := s1,
    dr_calls := [currentThread s0 \<mapsto> ([66], [(65, ())], Waiting)], outstanding := True\<rparr>"
  have run: "(ConsoleWrite_step Inr Inr TimerHandler 0)\<^sup>*\<^sup>* ?first ?last"
    unfolding ConsoleWrite_step_def
    by (rule driver_first_request) (simp_all add: sample_P PutChar_def c)
  from ConsoleWrite_atomic [OF c(1) run] obtain log :: "(byte \<times> unit) list" where
    "display (dr_dev ?last) @ (case write_req (dr_dev ?last) of None \<Rightarrow> [] | Some ch \<Rightarrow> [ch]) =
        concat (map (map fst \<circ> snd) (dr_history ?last)) @ map fst log" by blast
  then have "display (dr_dev ?last) @ (case write_req (dr_dev ?last) of None \<Rightarrow> [] | Some ch \<Rightarrow> [ch]) = map fst log" by simp
  with c(1) run show ?thesis by (intro exI [of _ c] exI [of _ s0] exI [of _ ?last] exI [of _ log]) simp
qed



section \<open>The post office\<close>




text \<open>
  Calls of \<open>PostOffice::Send\<close> hand their packets to the network one at a time, each after the interrupt of the one before, though
  \<open>Network::Send\<close> does not set the flag \<open>sendBusy\<close> that its assertion tests.
\<close>

lemma PostOffice_Send_sequential:
  assumes "\<not> sendBusy n" "(PostOffice_step tick sleep sendDone' this)\<^sup>*\<^sup>* (driver_init Lock_new n s) w"
  shows "dr_calls w t = Some (rs, os, Working) \<Longrightarrow> \<not> sendBusy (dr_dev w) \<and> \<not> outstanding w"
    "\<exists>log. replay sends (concat (map snd (dr_history w)) @ log) (sent n) (sent (dr_dev w)) \<and>
      (log = [] \<and> (\<forall>u. \<not> inside_calls (dr_calls w) u) \<or>
       (\<exists>t rs p. dr_calls w t = Some (rs, log, p) \<and> (\<forall>u. inside_calls (dr_calls w) u \<longleftrightarrow> u = t)))"
proof -
  from assms(2) have "(driver_step currentThread ReadyToRun sleep (Acquire_round currentThread sleep) (Release_body ReadyToRun)
      (Network_request tick sendDone' this) SendDone)\<^sup>*\<^sup>* (driver_init Lock_new n s) w"
    by (simp add: PostOffice_step_def)
  from post_driver.driver_safe(1) [OF this TrueI TrueI assms(1)] post_driver.driver_sequential [OF this TrueI TrueI assms(1)]
  show "dr_calls w t = Some (rs, os, Working) \<Longrightarrow> \<not> sendBusy (dr_dev w) \<and> \<not> outstanding w"
    "\<exists>log. replay sends (concat (map snd (dr_history w)) @ log) (sent n) (sent (dr_dev w)) \<and>
      (log = [] \<and> (\<forall>u. \<not> inside_calls (dr_calls w) u) \<or>
       (\<exists>t rs p. dr_calls w t = Some (rs, log, p) \<and> (\<forall>u. inside_calls (dr_calls w) u \<longleftrightarrow> u = t)))"
    by blast+
qed

section \<open>Synchronized lists\<close>

text \<open>
  C37: on a synchronized list no \<open>Append\<close>, \<open>Prepend\<close> or \<open>Remove\<close> ever returns, whatever the interleaving: \<open>Condition::Signal\<close>
  acquires the lock that the caller already holds, and a thread that waits for an element is never signalled. Only \<open>Mapcar\<close>
  returns.
\<close>

theorem SynchList_never_returns:
  assumes "(list_step currentThread ReadyToRun sleep func)\<^sup>*\<^sup>* (list_init s) w"
  shows "(\<forall>t x r. (t, x, r) \<in> set (ls_returned w) \<longrightarrow> x = MapcarOp) \<and>
    (\<forall>t x. ls_calls w t = Some (In_Signal x) \<longrightarrow> lock_owner (sl_lock (ls_obj w)) = Some t)"
  using list_inv_places(3) [OF list_reachable_inv [OF assms]] list_inv_owner [OF list_reachable_inv [OF assms]] by auto

text \<open>A thread appends an element and gets as far as \<open>Signal\<close>.\<close>

theorem SynchList_never_returns_witness:
  "\<exists>w. (list_step currentThread ReadyToRun Inr (\<lambda>_. Inr))\<^sup>*\<^sup>* (list_init (sample_system True)) w \<and>
    ls_calls w 1 = Some (In_Signal (AppendOp (5 :: nat))) \<and> lock_owner (sl_lock (ls_obj w)) = Some 1"
proof -
  let ?step = "list_step currentThread ReadyToRun Inr (\<lambda>_. Inr)" and ?first = "list_init (sample_system True) :: (nat, kernel_func system) list_world"
  let ?a = "?first\<lparr>ls_calls := [1 \<mapsto> In_Acquire (AppendOp (5 :: nat))]\<rparr>"
  let ?b = "?first\<lparr>ls_obj := SynchList_new\<lparr>sl_lock := Lock_new\<lparr>lock_owner := Some 1\<rparr>\<rparr>, ls_calls := [1 \<mapsto> Locked (AppendOp (5 :: nat))]\<rparr>"
  obtain l where l: "Append (5 :: nat) List_new = Inr l" using Append_ok [OF represents_new, of "5 :: nat"] by blast
  let ?c = "?b\<lparr>ls_obj := (ls_obj ?b)\<lparr>sl_list := l\<rparr>, ls_calls := [1 \<mapsto> In_Signal (AppendOp (5 :: nat))]\<rparr>"
  have "?step ?first ?a" using list_step.ls_start [of ?first currentThread] by (simp add: list_init_def)
  moreover have "?step ?a ?b"
    using list_step.ls_enter [of ?a currentThread "AppendOp 5" Inr "Lock_new\<lparr>lock_owner := Some 1\<rparr>" "sample_system True"] sample_acquire [of Inr]
    by (simp add: list_init_def SynchList_new_def)
  moreover have "?step ?b ?c"
    using list_step.ls_append [of ?b currentThread 5 l] l by (simp add: list_init_def SynchList_new_def)
  ultimately have run: "?step\<^sup>*\<^sup>* ?first ?c" by (meson converse_rtranclp_into_rtranclp r_into_rtranclp)
  moreover from SynchList_never_returns [OF run] have "lock_owner (sl_lock (ls_obj ?c)) = Some 1" by simp
  ultimately show ?thesis by (intro exI [of _ ?c]) simp
qed

end
