(* ===== verification/Histogram.thy ===== *)
theory Histogram
  imports Nachos_Prelude
begin

text \<open>
  Histograms (\<open>threads/histogram.cc\<close>): buckets of equal width with one bucket below and one above the range, the number, sum and
  extrema of the recorded values. A datum is a signed 32-bit integer, a \<open>size_t\<close> an unsigned one. What a histogram
  holds is shown to be a function of the list of recorded data (\<open>hist_of\<close>). \<open>Write\<close> only prints.
\<close>

section \<open>Buckets\<close>

record Bucket =
  overflowed :: bool
  b_count :: uint32
  v_min :: uint32
  v_max :: uint32

definition INT_MAX :: uint32 where "INT_MAX = 0x7FFFFFFF"
definition INT_MIN :: uint32 where "INT_MIN = 0x80000000"

definition Bucket_Reset :: Bucket where
  "Bucket_Reset = \<lparr>overflowed = False, b_count = 0, v_min = INT_MAX, v_max = INT_MIN\<rparr>"

definition Deposit :: "uint32 \<Rightarrow> Bucket \<Rightarrow> Bucket" where
  "Deposit datum b =
     (let b1 = (if overflowed b then b
            else b\<lparr>b_count := b_count b + 1, overflowed := b_count b > b_count b + 1\<rparr>);
          b2 = (if datum <s v_min b1 then b1\<lparr>v_min := datum\<rparr> else b1)
      in if v_max b2 <s datum then b2\<lparr>v_max := datum\<rparr> else b2)"

section \<open>Histograms\<close>

record Histogram =
  num_buckets :: uint32
  bucket_width :: uint32
  range_min :: uint32
  range_max :: uint32
  buckets :: "Bucket list"
  underflow_bucket :: Bucket
  overflow_bucket :: Bucket
  hist_sum :: uint32
  sum_overflowed :: bool

definition Histogram_new :: "uint32 \<Rightarrow> uint32 \<Rightarrow> uint32 \<Rightarrow> Histogram" where
  "Histogram_new num_buckets' bucket_width' range_min' =
     \<lparr>num_buckets = num_buckets', bucket_width = bucket_width', range_min = range_min',
      range_max = range_min' + num_buckets' * bucket_width', buckets = replicate (unat num_buckets') Bucket_Reset,
      underflow_bucket = Bucket_Reset, overflow_bucket = Bucket_Reset, hist_sum = 0, sum_overflowed = False\<rparr>"

definition add_sum :: "uint32 \<Rightarrow> Histogram \<Rightarrow> Histogram" where
  "add_sum datum h =
     (if sum_overflowed h then h
      else h\<lparr>hist_sum := hist_sum h + datum, sum_overflowed := hist_sum h + datum <s hist_sum h\<rparr>)"

definition RecordDatum :: "uint32 \<Rightarrow> Histogram \<Rightarrow> Histogram res" where
  "RecordDatum datum h =
     bind_res
       (if datum <s range_min h then Inr (h\<lparr>underflow_bucket := Deposit datum (underflow_bucket h)\<rparr>)
        else if range_max h \<le>s datum then Inr (h\<lparr>overflow_bucket := Deposit datum (overflow_bucket h)\<rparr>)
        else if bucket_width h = 0 then Inl ArithmeticTrap
        else
          (let which = unat ((datum - range_min h) div bucket_width h) in
           bind_res (index_res (buckets h) which) (\<lambda>b. Inr (h\<lparr>buckets := (buckets h)[which := Deposit datum b]\<rparr>))))
       (\<lambda>h1. Inr (add_sum datum h1))"

definition Reset :: "Histogram \<Rightarrow> Histogram" where
  "Reset h = h\<lparr>buckets := map (\<lambda>_. Bucket_Reset) (buckets h), underflow_bucket := Bucket_Reset,
     overflow_bucket := Bucket_Reset, hist_sum := 0, sum_overflowed := False\<rparr>"

text \<open>The flag is an argument that the call overwrites only when the count overflows.\<close>

fun Count_loop :: "Bucket list \<Rightarrow> uint32 \<Rightarrow> uint32 option" where
  "Count_loop [] n = Some n"
| "Count_loop (b # bs) n =
     (if overflowed b then None else if n > n + b_count b then None else Count_loop bs (n + b_count b))"

definition Count :: "bool \<Rightarrow> Histogram \<Rightarrow> bool \<times> uint32" where
  "Count flag h =
     (if overflowed (underflow_bucket h) \<or> overflowed (overflow_bucket h) then (True, 0)
      else
        (let n = b_count (underflow_bucket h); n1 = n + b_count (overflow_bucket h) in
         if n > n1 then (True, 0)
         else case Count_loop (buckets h) n1 of None \<Rightarrow> (True, 0) | Some n2 \<Rightarrow> (flag, n2)))"

definition Sum :: "Histogram \<Rightarrow> bool \<times> uint32" where
  "Sum h = (sum_overflowed h, hist_sum h)"

text \<open>The last test of \<open>Minimum\<close> is on the bucket below the range again.\<close>

definition Minimum :: "Histogram \<Rightarrow> uint32 option" where
  "Minimum h =
     (if 0 < b_count (underflow_bucket h) then Some (v_min (underflow_bucket h))
      else case find (\<lambda>b. 0 < b_count b) (buckets h) of
        Some b \<Rightarrow> Some (v_min b)
      | None \<Rightarrow> if 0 < b_count (underflow_bucket h) then Some (v_min (underflow_bucket h)) else None)"

definition Maximum :: "Histogram \<Rightarrow> uint32 option" where
  "Maximum h =
     (if 0 < b_count (overflow_bucket h) then Some (v_max (overflow_bucket h))
      else case find (\<lambda>b. 0 < b_count b) (rev (buckets h)) of
        Some b \<Rightarrow> Some (v_max b)
      | None \<Rightarrow> if 0 < b_count (underflow_bucket h) then Some (v_max (underflow_bucket h)) else None)"

section \<open>Buckets as functions of their data\<close>

definition bucket_of :: "uint32 list \<Rightarrow> Bucket" where
  "bucket_of ds = fold Deposit ds Bucket_Reset"

lemma bucket_of_Nil [simp]: "bucket_of [] = Bucket_Reset"
  and bucket_of_snoc [simp]: "bucket_of (ds @ [d]) = Deposit d (bucket_of ds)"
  by (simp_all add: bucket_of_def)

lemma bucket_of_count:
  "length ds < 2 ^ 32 \<Longrightarrow> \<not> overflowed (bucket_of ds) \<and> unat (b_count (bucket_of ds)) = length ds"
proof (induction ds rule: rev_induct)
  case (snoc d ds)
  then have "\<not> overflowed (bucket_of ds)" "unat (b_count (bucket_of ds)) = length ds" "length ds + 1 < 2 ^ 32" by auto
  moreover from this have "unat (b_count (bucket_of ds) + 1) = length ds + 1" by (simp add: unat_word_ariths)
  ultimately show ?case by (auto simp: Deposit_def Let_def word_less_nat_alt)
qed (simp add: Bucket_Reset_def)

lemma bucket_of_nonempty: "length ds < 2 ^ 32 \<Longrightarrow> 0 < b_count (bucket_of ds) \<longleftrightarrow> ds \<noteq> []"
  using bucket_of_count [of ds] by (simp add: word_less_nat_alt)

lemma sint_extremes: "sint INT_MAX = 2 ^ 31 - 1" "sint INT_MIN = - (2 ^ 31)"
  by (simp_all add: INT_MAX_def INT_MIN_def)

lemma bucket_of_max:
  "(v_max (bucket_of ds) = INT_MIN \<or> v_max (bucket_of ds) \<in> set ds) \<and> (\<forall>d \<in> set ds. sint d \<le> sint (v_max (bucket_of ds)))"
  by (induction ds rule: rev_induct) (auto simp: Bucket_Reset_def Deposit_def Let_def word_sless_alt split: if_splits)

lemma bucket_of_min:
  "(v_min (bucket_of ds) = INT_MAX \<or> v_min (bucket_of ds) \<in> set ds) \<and> (\<forall>d \<in> set ds. sint (v_min (bucket_of ds)) \<le> sint d)"
  by (induction ds rule: rev_induct) (auto simp: Bucket_Reset_def Deposit_def Let_def word_sless_alt split: if_splits)

lemma bucket_max_member:
  assumes "ds \<noteq> []" shows "v_max (bucket_of ds) \<in> set ds"
proof (rule ccontr)
  assume "v_max (bucket_of ds) \<notin> set ds"
  with bucket_of_max [of ds] have m: "v_max (bucket_of ds) = INT_MIN" "\<forall>d \<in> set ds. sint d \<le> sint INT_MIN" by auto
  have "hd ds \<in> set ds" using assms by simp
  with m(2) have "sint (hd ds) = sint INT_MIN" using sint_bounds(1) [of "hd ds"] sint_extremes(2) by force
  with \<open>hd ds \<in> set ds\<close> m(1) \<open>v_max (bucket_of ds) \<notin> set ds\<close> show False by (metis word_eq_iff_signed)
qed

lemma bucket_min_member:
  assumes "ds \<noteq> []" shows "v_min (bucket_of ds) \<in> set ds"
proof (rule ccontr)
  assume "v_min (bucket_of ds) \<notin> set ds"
  with bucket_of_min [of ds] have m: "v_min (bucket_of ds) = INT_MAX" "\<forall>d \<in> set ds. sint INT_MAX \<le> sint d" by auto
  have "hd ds \<in> set ds" using assms by simp
  with m(2) have "sint (hd ds) = sint INT_MAX" using sint_bounds(2) [of "hd ds"] sint_extremes(1) by force
  with \<open>hd ds \<in> set ds\<close> m(1) \<open>v_min (bucket_of ds) \<notin> set ds\<close> show False by (metis word_eq_iff_signed)
qed

section \<open>Histograms as functions of their data\<close>

text \<open>The ranges of the buckets, as integers.\<close>

definition below :: "uint32 \<Rightarrow> uint32 \<Rightarrow> bool" where
  "below m d \<longleftrightarrow> sint d < sint m"

definition above :: "uint32 \<Rightarrow> uint32 \<Rightarrow> uint32 \<Rightarrow> uint32 \<Rightarrow> bool" where
  "above n w m d \<longleftrightarrow> sint m + uint n * uint w \<le> sint d"

definition in_bucket :: "uint32 \<Rightarrow> uint32 \<Rightarrow> nat \<Rightarrow> uint32 \<Rightarrow> bool" where
  "in_bucket w m k d \<longleftrightarrow> sint m + int k * uint w \<le> sint d \<and> sint d < sint m + int (Suc k) * uint w"

definition sum_of :: "uint32 list \<Rightarrow> bool \<times> uint32" where
  "sum_of ds = fold (\<lambda>d (ov, x). if ov then (ov, x) else (x + d <s x, x + d)) ds (False, 0)"

definition hist_of :: "uint32 \<Rightarrow> uint32 \<Rightarrow> uint32 \<Rightarrow> uint32 list \<Rightarrow> Histogram" where
  "hist_of n w m ds = \<lparr>num_buckets = n, bucket_width = w, range_min = m, range_max = m + n * w,
     buckets = map (\<lambda>k. bucket_of (filter (in_bucket w m k) ds)) [0..<unat n],
     underflow_bucket = bucket_of (filter (below m) ds), overflow_bucket = bucket_of (filter (above n w m) ds),
     hist_sum = snd (sum_of ds), sum_overflowed = fst (sum_of ds)\<rparr>"

text \<open>The range of the histogram lies in the range of the data.\<close>

definition range_ok :: "uint32 \<Rightarrow> uint32 \<Rightarrow> uint32 \<Rightarrow> bool" where
  "range_ok n w m \<longleftrightarrow> 0 < w \<and> sint m + uint n * uint w < 2 ^ 31"

lemma range_max_int:
  assumes "range_ok n w m" shows "sint (m + n * w) = sint m + uint n * uint w"
proof -
  have "- (2 ^ 31) \<le> sint m + uint n * uint w" using sint_bounds(1) [of m] by (simp add: add_increasing2)
  with assms sint_of_int [of "sint m + uint n * uint w"] show ?thesis by (simp add: range_ok_def)
qed

lemma which_int:
  assumes "\<not> below m d" shows "uint (d - m) = sint d - sint m"
proof -
  have "sint d - sint m < 2 ^ 32" using sint_bounds [of d] sint_bounds [of m] by simp
  with assms uint_of_int [of "sint d - sint m"] show ?thesis by (simp add: below_def)
qed

text \<open>A datum in the range has exactly one bucket, the one at the index that \<open>RecordDatum\<close> computes.\<close>

lemma bucket_index:
  assumes "range_ok n w m" "\<not> below m d" "\<not> above n w m d"
  shows "unat ((d - m) div w) < unat n" "in_bucket w m k d \<longleftrightarrow> k = unat ((d - m) div w)"
proof -
  let ?q = "(sint d - sint m) div uint w"
  have w: "0 < uint w" using assms(1) by (simp add: range_ok_def word_less_def)
  have q: "int (unat ((d - m) div w)) = ?q" using which_int [OF assms(2)] by (simp add: uint_div)
  have "sint d - sint m < uint n * uint w" using assms(3) by (simp add: above_def)
  then have "?q < uint n" using le_div_int [OF w, of "uint n" "sint d - sint m"] by simp
  with q have "int (unat ((d - m) div w)) < int (unat n)" by simp
  then show "unat ((d - m) div w) < unat n" by (simp only: of_nat_less_iff)
  have "in_bucket w m k d \<longleftrightarrow> int k * uint w \<le> sint d - sint m \<and> sint d - sint m < (int k + 1) * uint w"
    by (auto simp: in_bucket_def algebra_simps)
  also have "\<dots> \<longleftrightarrow> int k = ?q"
    using le_div_int [OF w, of "int k" "sint d - sint m"] le_div_int [OF w, of "int k + 1" "sint d - sint m"] by auto
  also have "\<dots> \<longleftrightarrow> k = unat ((d - m) div w)" using q by linarith
  finally show "in_bucket w m k d \<longleftrightarrow> k = unat ((d - m) div w)" .
qed

lemma in_bucket_range:
  assumes "range_ok n w m" "in_bucket w m k d" "k < unat n" shows "\<not> below m d" "\<not> above n w m d"
proof -
  have "int (Suc k) \<le> int (unat n)" using assms(3) by linarith
  then have "int (Suc k) * uint w \<le> int (unat n) * uint w" by (rule mult_right_mono) simp
  then have "int (Suc k) * uint w \<le> uint n * uint w" by simp
  moreover have "0 \<le> int k * uint w" by simp
  ultimately show "\<not> below m d" "\<not> above n w m d" using assms(2) unfolding in_bucket_def below_def above_def by linarith+
qed

lemma range_order:
  assumes "below m d" shows "\<not> above n w m d"
proof -
  have "0 \<le> uint n * uint w" by simp
  with assms show ?thesis unfolding below_def above_def by linarith
qed

lemma sum_of_snoc: "sum_of (ds @ [d]) = (if fst (sum_of ds) then sum_of ds
    else (snd (sum_of ds) + d <s snd (sum_of ds), snd (sum_of ds) + d))"
  by (auto simp: sum_of_def split: prod.splits)

lemma RecordDatum_step:
  assumes "range_ok n w m"
  shows "RecordDatum d (hist_of n w m ds) = Inr (hist_of n w m (ds @ [d]))"
proof -
  have le: "m + n * w \<le>s d \<longleftrightarrow> above n w m d"
    using range_max_int [OF assms] by (simp add: word_sle_eq above_def)
  have lt: "d <s m \<longleftrightarrow> below m d" by (simp add: word_sless_alt below_def)
  have w: "w \<noteq> 0" using assms by (auto simp: range_ok_def)
  let ?row = "\<lambda>ds. map (\<lambda>k. bucket_of (filter (in_bucket w m k) ds)) [0..<unat n]"
  have same: "?row (ds @ [d]) = ?row ds" if "below m d \<or> above n w m d"
    using that in_bucket_range [OF assms] by (auto simp: list_eq_iff_nth_eq)
  consider "below m d" | "above n w m d" | "\<not> below m d" "\<not> above n w m d" by blast
  then show ?thesis
  proof cases
    case 1
    with same range_order [OF 1] show ?thesis
      by (simp add: RecordDatum_def hist_of_def add_sum_def lt sum_of_snoc)
  next
    case 2
    with same range_order [of m d n w] show ?thesis
      by (auto simp: RecordDatum_def hist_of_def add_sum_def lt le sum_of_snoc)
  next
    case 3
    let ?i = "unat ((d - m) div w)"
    note i = bucket_index [OF assms 3]
    have "(?row ds)[?i := Deposit d (?row ds ! ?i)] = ?row (ds @ [d])"
      using i by (auto simp: list_eq_iff_nth_eq nth_list_update)
    with 3 i(1) w show ?thesis
      by (auto simp: RecordDatum_def hist_of_def add_sum_def lt le sum_of_snoc Let_def)
  qed
qed

lemma Histogram_new_of: "Histogram_new n w m = hist_of n w m []"
  by (simp add: Histogram_new_def hist_of_def sum_of_def map_replicate_const)

lemma Reset_of: "Reset (hist_of n w m ds) = hist_of n w m []"
  by (simp add: Reset_def hist_of_def sum_of_def comp_def)

lemma record_all:
  "range_ok n w m \<Longrightarrow> fold_res RecordDatum ds' (hist_of n w m ds) = Inr (hist_of n w m (ds @ ds'))"
  by (induction ds' arbitrary: ds) (simp_all add: RecordDatum_step)

section \<open>Observations\<close>

lemma Count_loop_ok:
  assumes "\<forall>b \<in> set bs. \<not> overflowed b" "unat n + sum_list (map (unat \<circ> b_count) bs) < 2 ^ 32"
  shows "\<exists>r. Count_loop bs n = Some r \<and> unat r = unat n + sum_list (map (unat \<circ> b_count) bs)"
  using assms
proof (induction bs arbitrary: n)
  case (Cons b bs)
  then have "unat (n + b_count b) = unat n + unat (b_count b)" by (simp add: unat_word_ariths)
  with Cons.prems Cons.IH [of "n + b_count b"] show ?case by (auto simp: word_less_nat_alt add.assoc)
qed simp

text \<open>Every datum is counted once.\<close>

lemma length_split:
  assumes "range_ok n w m"
  shows "length (filter (below m) ds) + length (filter (above n w m) ds) +
    (\<Sum>k < unat n. length (filter (in_bucket w m k) ds)) = length ds"
proof (induction ds)
  case (Cons d ds)
  have split: "(\<Sum>k < unat n. length (filter (in_bucket w m k) (d # ds))) =
      (\<Sum>k < unat n. length (filter (in_bucket w m k) ds)) + (\<Sum>k < unat n. of_bool (in_bucket w m k d))"
    by (subst sum.distrib [symmetric]) (intro sum.cong refl, simp)
  have "(\<Sum>k < unat n. of_bool (in_bucket w m k d)) = (of_bool (\<not> below m d \<and> \<not> above n w m d) :: nat)"
  proof (cases "below m d \<or> above n w m d")
    case True
    with in_bucket_range [OF assms, of _ d] have "\<forall>k < unat n. \<not> in_bucket w m k d" by blast
    with True show ?thesis by auto
  next
    case False
    with bucket_index [OF assms, of d] show ?thesis
      by (simp add: of_bool_def sum.If_cases lessThan_def Collect_conv_if2 conj_commute)
  qed
  with Cons split range_order [of m d n w] show ?case by auto
qed simp

lemma buckets_short: "length ds < 2 ^ 32 \<Longrightarrow> length (filter P ds) < 2 ^ 32"
  using length_filter_le [of P ds] by (rule le_less_trans)

lemma Count_of:
  assumes "range_ok n w m" "length ds < 2 ^ 32"
  shows "Count flag (hist_of n w m ds) = (flag, of_nat (length ds))"
proof -
  let ?b = "\<lambda>P. bucket_of (filter P ds)"
  let ?row = "map (\<lambda>k. ?b (in_bucket w m k)) [0..<unat n]"
  have c: "\<not> overflowed (?b P)" "unat (b_count (?b P)) = length (filter P ds)" for P
    using bucket_of_count [OF buckets_short [OF assms(2)]] by blast+
  note total = length_split [OF assms(1), of ds]
  let ?n1 = "b_count (?b (below m)) + b_count (?b (above n w m))"
  have n1: "unat ?n1 = length (filter (below m) ds) + length (filter (above n w m) ds)"
    using total assms(2) by (simp add: unat_word_ariths c)
  have row: "sum_list (map (unat \<circ> b_count) ?row) = (\<Sum>k < unat n. length (filter (in_bucket w m k) ds))"
    by (simp add: comp_def c interv_sum_list_conv_sum_set_nat lessThan_atLeast0)
  have "unat ?n1 + sum_list (map (unat \<circ> b_count) ?row) = length ds" using total by (simp only: n1 row)
  with Count_loop_ok [of ?row ?n1] assms(2) c(1) obtain r where r: "Count_loop ?row ?n1 = Some r" "unat r = length ds" by auto
  have "r = of_nat (length ds)" unfolding r(2) [symmetric] by simp
  moreover have "\<not> b_count (?b (below m)) > ?n1" using n1 by (simp add: word_less_nat_alt c)
  ultimately show ?thesis using r(1) by (simp add: Count_def hist_of_def c Let_def)
qed

lemma find_map: "find P (map f xs) = map_option f (find (P \<circ> f) xs)"
  by (induction xs) simp_all

lemma in_some_bucket:
  assumes "range_ok n w m" "\<not> below m d" "\<not> above n w m d"
  obtains k where "k < unat n" "in_bucket w m k d"
  using bucket_index [OF assms] by blast

text \<open>Buckets further up hold greater data.\<close>

lemma in_bucket_less:
  assumes "in_bucket w m k d" "in_bucket w m j e" "k < j" shows "sint d < sint e"
proof -
  have "int (Suc k) * uint w \<le> int j * uint w" using assms(3) by (intro mult_right_mono) simp_all
  with assms(1,2) show ?thesis unfolding in_bucket_def by linarith
qed

lemma below_less: "below m d \<Longrightarrow> \<not> below m e \<Longrightarrow> sint d < sint e"
  and above_less: "above n w m e \<Longrightarrow> \<not> above n w m d \<Longrightarrow> sint d < sint e"
  by (auto simp: below_def above_def)

lemma Maximum_of:
  assumes "range_ok n w m" "length ds < 2 ^ 32" "ds \<noteq> []"
  shows "\<exists>x. Maximum (hist_of n w m ds) = Some x \<and> x \<in> set ds \<and> (\<forall>d \<in> set ds. sint d \<le> sint x)"
proof -
  note ne = bucket_of_nonempty [OF buckets_short [OF assms(2)]]
  have top: "\<exists>x \<in> set ds. x = v_max (bucket_of (filter P ds)) \<and> (\<forall>d \<in> set ds. sint d \<le> sint x)"
    if "filter P ds \<noteq> []" "\<And>d e. d \<in> set ds \<Longrightarrow> e \<in> set ds \<Longrightarrow> \<not> P d \<Longrightarrow> P e \<Longrightarrow> sint d < sint e" for P
  proof -
    let ?x = "v_max (bucket_of (filter P ds))"
    have x: "?x \<in> set ds" "P ?x" using bucket_max_member [OF that(1)] by simp_all
    have "sint d \<le> sint ?x" if "d \<in> set ds" for d
    proof (cases "P d")
      case True
      with that bucket_of_max [of "filter P ds"] show ?thesis by simp
    next
      case False
      from \<open>\<And>d e. d \<in> set ds \<Longrightarrow> e \<in> set ds \<Longrightarrow> \<not> P d \<Longrightarrow> P e \<Longrightarrow> sint d < sint e\<close> [OF that x(1) False x(2)]
      show ?thesis by simp
    qed
    with x(1) show ?thesis by blast
  qed
  let ?found = "find (\<lambda>k. filter (in_bucket w m k) ds \<noteq> []) (rev [0..<unat n])"
  have found: "find (\<lambda>b. 0 < b_count b) (rev (map (\<lambda>k. bucket_of (filter (in_bucket w m k) ds)) [0..<unat n])) =
      map_option (\<lambda>k. bucket_of (filter (in_bucket w m k) ds)) ?found"
    by (simp only: rev_map find_map comp_def ne)
  have max: "Maximum (hist_of n w m ds) =
      (if filter (above n w m) ds \<noteq> [] then Some (v_max (bucket_of (filter (above n w m) ds)))
       else case ?found of Some k \<Rightarrow> Some (v_max (bucket_of (filter (in_bucket w m k) ds)))
         | None \<Rightarrow> if filter (below m) ds \<noteq> [] then Some (v_max (bucket_of (filter (below m) ds))) else None)"
    unfolding Maximum_def hist_of_def Histogram.simps found ne by (cases ?found) simp_all
  show ?thesis
  proof (cases "filter (above n w m) ds = []")
    case False
    with top [OF False] above_less show ?thesis unfolding max by auto
  next
    case not_above: True
    then have na: "\<And>d. d \<in> set ds \<Longrightarrow> \<not> above n w m d" by (simp add: filter_empty_conv)
    show ?thesis
    proof (cases ?found)
      case (Some k)
      then obtain i where i: "i < unat n" "k = unat n - Suc i" "filter (in_bucket w m k) ds \<noteq> []"
        "\<forall>j < i. filter (in_bucket w m (unat n - Suc j)) ds = []"
        by (auto simp: find_Some_iff rev_nth)
      have "sint d < sint e" if "d \<in> set ds" "e \<in> set ds" "\<not> in_bucket w m k d" "in_bucket w m k e" for d e
      proof (cases "below m d")
        case True
        have "k < unat n" using i by simp
        with True that(4) show ?thesis by (meson below_less in_bucket_range(1) [OF assms(1)])
      next
        case False
        with na that(1) in_some_bucket [OF assms(1) False] obtain l where l: "l < unat n" "in_bucket w m l d" by blast
        have "\<not> k < l"
        proof
          assume "k < l"
          with l(1) i(1,2) have "unat n - Suc l < i" by linarith
          with i(4) have "filter (in_bucket w m (unat n - Suc (unat n - Suc l))) ds = []" by blast
          moreover have "unat n - Suc (unat n - Suc l) = l" using l(1) by linarith
          ultimately show False using l(2) that(1) by (simp add: filter_empty_conv)
        qed
        moreover have "l \<noteq> k" using l(2) that(3) by blast
        ultimately show ?thesis using in_bucket_less l(2) that(4) by (meson linorder_neqE_nat)
      qed
      from top [OF i(3) this] not_above Some show ?thesis unfolding max by auto
    next
      case None
      then have none: "filter (in_bucket w m k) ds = []" if "k < unat n" for k using that by (auto simp: find_None_iff)
      have "\<forall>d \<in> set ds. below m d"
        using in_some_bucket [OF assms(1)] na none by (metis filter_empty_conv)
      then have "filter (below m) ds = ds" by simp
      with None not_above assms(3) top [of "below m"] \<open>\<forall>d \<in> set ds. below m d\<close> show ?thesis unfolding max by auto
    qed
  qed
qed

text \<open>When every datum is above the range, \<open>Minimum\<close> finds nothing.\<close>

lemma Minimum_of_above:
  assumes "range_ok n w m" "\<forall>d \<in> set ds. above n w m d"
  shows "Minimum (hist_of n w m ds) = None"
proof -
  have "filter (in_bucket w m k) ds = []" if "k < unat n" for k
    using assms that in_bucket_range(2) by (auto simp: filter_empty_conv)
  moreover have "filter (below m) ds = []" using assms(2) range_order by (auto simp: filter_empty_conv)
  moreover have "find (\<lambda>b. 0 < b_count b) (map (\<lambda>k. bucket_of (filter (in_bucket w m k) ds)) [0..<unat n]) = None"
    using \<open>\<And>k. k < unat n \<Longrightarrow> filter (in_bucket w m k) ds = []\<close> by (auto simp: find_None_iff Bucket_Reset_def)
  ultimately show ?thesis by (simp add: Minimum_def hist_of_def Bucket_Reset_def)
qed

section \<open>Properties\<close>

text \<open>
  A histogram whose range fits the integers records any sequence of data without a fault: no bucket index is out of
  range, and each datum is deposited in the bucket of its range and in no other.
\<close>

theorem RecordDatum_total:
  assumes "range_ok n w m"
  shows "fold_res RecordDatum ds (Histogram_new n w m) = Inr (hist_of n w m ds)"
  using record_all [OF assms, of ds "[]"] by (simp add: Histogram_new_of)

theorem RecordDatum_total_witness:
  "fold_res RecordDatum [5, -3, 250, 37] (Histogram_new 20 10 0) = Inr (hist_of 20 10 0 [5, -3, 250, 37])"
  by (rule RecordDatum_total) (simp add: range_ok_def)

text \<open>
  C31: after fewer than \<open>2 ^ 32\<close> recorded data \<open>Count\<close> returns their number and \<open>Maximum\<close> the greatest of them; when all of
  them are above the range \<open>Minimum\<close> reports that there is none.
\<close>

theorem Histogram_observations:
  assumes "range_ok n w m" "length ds < 2 ^ 32" "ds \<noteq> []"
  shows "\<exists>h x. fold_res RecordDatum ds (Histogram_new n w m) = Inr h \<and> Count flag h = (flag, of_nat (length ds)) \<and>
    Maximum h = Some x \<and> x \<in> set ds \<and> (\<forall>d \<in> set ds. sint d \<le> sint x) \<and>
    ((\<forall>d \<in> set ds. sint m + uint n * uint w \<le> sint d) \<longrightarrow> Minimum h = None)"
  using record_all [OF assms(1), of ds "[]"] Count_of [OF assms(1,2)] Maximum_of [OF assms] Minimum_of_above [OF assms(1), of ds]
  by (auto simp: Histogram_new_of above_def)

theorem Histogram_observations_witness:
  "\<exists>h x. fold_res RecordDatum [250, 300] (Histogram_new 20 10 0) = Inr h \<and> Count False h = (False, of_nat (length [250, 300 :: uint32])) \<and>
    Maximum h = Some x \<and> x \<in> set [250, 300] \<and> (\<forall>d \<in> set [250, 300 :: uint32]. sint d \<le> sint x) \<and>
    ((\<forall>d \<in> set [250, 300 :: uint32]. sint (0 :: uint32) + uint (20 :: uint32) * uint (10 :: uint32) \<le> sint d) \<longrightarrow> Minimum h = None)"
  by (rule Histogram_observations [of 20 10 0 "[250, 300]" False]) (simp_all add: range_ok_def)

end
