(* ===== verification/Interpreter.thy ===== *)
theory Interpreter
  imports Mips_Properties
begin

text \<open>
  The stand-alone MIPS interpreter (\<open>bin/execute.c\<close>, with \<open>encode.h\<close>, \<open>instr.h\<close> and \<open>int.h\<close>): one round of its loop, and what it
  puts into memory before the loop. It has no delayed loads, no page table and no exceptions. \<open>system_trap\<close>
  and \<open>system_break\<close>, which the repository does not have, are arguments. Words are signed 32-bit integers that wrap; a shift by
  a register uses its low five bits, as the instructions of the host do. An access outside \<open>mem\<close> is \<open>IndexOutOfBounds\<close>, the
  \<open>exit\<close> at an instruction that is not implemented \<open>Exited\<close>. Tracing prints and is left out.
\<close>

section \<open>Instructions\<close>

definition I_SPECIAL :: nat where "I_SPECIAL = 0"
definition I_BCOND :: nat where "I_BCOND = 1"
definition I_J :: nat where "I_J = 2"
definition I_JAL :: nat where "I_JAL = 3"
definition I_BEQ :: nat where "I_BEQ = 4"
definition I_BNE :: nat where "I_BNE = 5"
definition I_BLEZ :: nat where "I_BLEZ = 6"
definition I_BGTZ :: nat where "I_BGTZ = 7"
definition I_ADDI :: nat where "I_ADDI = 8"
definition I_ADDIU :: nat where "I_ADDIU = 9"
definition I_SLTI :: nat where "I_SLTI = 10"
definition I_SLTIU :: nat where "I_SLTIU = 11"
definition I_ANDI :: nat where "I_ANDI = 12"
definition I_ORI :: nat where "I_ORI = 13"
definition I_XORI :: nat where "I_XORI = 14"
definition I_LUI :: nat where "I_LUI = 15"
definition I_COP0 :: nat where "I_COP0 = 16"
definition I_COP1 :: nat where "I_COP1 = 17"
definition I_COP2 :: nat where "I_COP2 = 18"
definition I_COP3 :: nat where "I_COP3 = 19"
definition I_LB :: nat where "I_LB = 32"
definition I_LH :: nat where "I_LH = 33"
definition I_LWL :: nat where "I_LWL = 34"
definition I_LW :: nat where "I_LW = 35"
definition I_LBU :: nat where "I_LBU = 36"
definition I_LHU :: nat where "I_LHU = 37"
definition I_LWR :: nat where "I_LWR = 38"
definition I_SB :: nat where "I_SB = 40"
definition I_SH :: nat where "I_SH = 41"
definition I_SWL :: nat where "I_SWL = 42"
definition I_SW :: nat where "I_SW = 43"
definition I_SWR :: nat where "I_SWR = 46"
definition I_LWC0 :: nat where "I_LWC0 = 48"
definition I_LWC1 :: nat where "I_LWC1 = 49"
definition I_LWC2 :: nat where "I_LWC2 = 50"
definition I_LWC3 :: nat where "I_LWC3 = 51"
definition I_SWC0 :: nat where "I_SWC0 = 56"
definition I_SWC1 :: nat where "I_SWC1 = 57"
definition I_SWC2 :: nat where "I_SWC2 = 58"
definition I_SWC3 :: nat where "I_SWC3 = 59"
definition I_SLL :: nat where "I_SLL = 0"
definition I_SRL :: nat where "I_SRL = 2"
definition I_SRA :: nat where "I_SRA = 3"
definition I_SLLV :: nat where "I_SLLV = 4"
definition I_SRLV :: nat where "I_SRLV = 6"
definition I_SRAV :: nat where "I_SRAV = 7"
definition I_JR :: nat where "I_JR = 8"
definition I_JALR :: nat where "I_JALR = 9"
definition I_SYSCALL :: nat where "I_SYSCALL = 12"
definition I_BREAK :: nat where "I_BREAK = 13"
definition I_MFHI :: nat where "I_MFHI = 16"
definition I_MTHI :: nat where "I_MTHI = 17"
definition I_MFLO :: nat where "I_MFLO = 18"
definition I_MTLO :: nat where "I_MTLO = 19"
definition I_MULT :: nat where "I_MULT = 24"
definition I_MULTU :: nat where "I_MULTU = 25"
definition I_DIV :: nat where "I_DIV = 26"
definition I_DIVU :: nat where "I_DIVU = 27"
definition I_ADD :: nat where "I_ADD = 32"
definition I_ADDU :: nat where "I_ADDU = 33"
definition I_SUB :: nat where "I_SUB = 34"
definition I_SUBU :: nat where "I_SUBU = 35"
definition I_AND :: nat where "I_AND = 36"
definition I_OR :: nat where "I_OR = 37"
definition I_XOR :: nat where "I_XOR = 38"
definition I_NOR :: nat where "I_NOR = 39"
definition I_SLT :: nat where "I_SLT = 42"
definition I_SLTU :: nat where "I_SLTU = 43"
definition I_BLTZ :: nat where "I_BLTZ = 0"
definition I_BGEZ :: nat where "I_BGEZ = 1"
definition I_BLTZAL :: nat where "I_BLTZAL = 16"
definition I_BGEZAL :: nat where "I_BGEZAL = 17"

lemmas i_defs =
  I_SPECIAL_def I_BCOND_def I_J_def I_JAL_def I_BEQ_def I_BNE_def I_BLEZ_def I_BGTZ_def I_ADDI_def
  I_ADDIU_def I_SLTI_def I_SLTIU_def I_ANDI_def I_ORI_def I_XORI_def I_LUI_def I_COP0_def I_COP1_def
  I_COP2_def I_COP3_def I_LB_def I_LH_def I_LWL_def I_LW_def I_LBU_def I_LHU_def I_LWR_def I_SB_def I_SH_def
  I_SWL_def I_SW_def I_SWR_def I_LWC0_def I_LWC1_def I_LWC2_def I_LWC3_def I_SWC0_def I_SWC1_def I_SWC2_def
  I_SWC3_def I_SLL_def I_SRL_def I_SRA_def I_SLLV_def I_SRLV_def I_SRAV_def I_JR_def I_JALR_def I_SYSCALL_def
  I_BREAK_def I_MFHI_def I_MTHI_def I_MFLO_def I_MTLO_def I_MULT_def I_MULTU_def I_DIV_def I_DIVU_def
  I_ADD_def I_ADDU_def I_SUB_def I_SUBU_def I_AND_def I_OR_def I_XOR_def I_NOR_def I_SLT_def I_SLTU_def
  I_BLTZ_def I_BGEZ_def I_BLTZAL_def I_BGEZAL_def

text \<open>The fields lie inside the word, so the arithmetic shift of the macros and the logical one agree on them.\<close>

abbreviation i_op :: "uint32 \<Rightarrow> nat" where "i_op i \<equiv> field 26 0x3F i"
abbreviation i_funct :: "uint32 \<Rightarrow> nat" where "i_funct i \<equiv> field 0 0x3F i"
definition i_rd :: "uint32 \<Rightarrow> nat" where "i_rd i = field 11 0x1F i"
definition i_rt :: "uint32 \<Rightarrow> nat" where "i_rt i = field 16 0x1F i"
definition i_rs :: "uint32 \<Rightarrow> nat" where "i_rs i = field 21 0x1F i"
definition i_shamt :: "uint32 \<Rightarrow> nat" where "i_shamt i = field 6 0x1F i"

definition immed :: "uint32 \<Rightarrow> uint32" where
  "immed i = (if i AND 0x8000 \<noteq> 0 then i OR (- 0x8000) else i AND 0x7FFF)"

section \<open>State and memory\<close>

record interp =
  Reg :: "nat \<Rightarrow> uint32"
  HI :: uint32
  LO :: uint32
  i_pc :: uint32
  i_npc :: uint32
  mem :: "nat \<Rightarrow> byte"

definition MEMSIZE :: nat where "MEMSIZE = 2 ^ 24"
definition memoffset :: uint32 where "memoffset = 0x10000000"

definition set_Reg :: "nat \<Rightarrow> uint32 \<Rightarrow> interp \<Rightarrow> interp" where
  "set_Reg r x v = v\<lparr>Reg := (Reg v)(r := x)\<rparr>"

definition mem_index :: "nat \<Rightarrow> uint32 \<Rightarrow> (nat \<Rightarrow> 'a res) \<Rightarrow> 'a res" where
  "mem_index n addr k = (let i = unat (addr - memoffset) in if i + n \<le> MEMSIZE then k i else Inl IndexOutOfBounds)"

definition i_fetch :: "uint32 \<Rightarrow> interp \<Rightarrow> uint32 res" where
  "i_fetch addr v = mem_index 4 addr (\<lambda>i. Inr (bytes_word (map (\<lambda>k. mem v (i + k)) [0..<4])))"

definition half_at :: "nat \<Rightarrow> interp \<Rightarrow> 16 word" where
  "half_at i v = ucast (mem v i) OR push_bit 8 (ucast (mem v (i + 1)))"

definition sfetch :: "uint32 \<Rightarrow> interp \<Rightarrow> uint32 res" where
  "sfetch addr v = mem_index 2 addr (\<lambda>i. Inr (scast (half_at i v)))"

definition usfetch :: "uint32 \<Rightarrow> interp \<Rightarrow> uint32 res" where
  "usfetch addr v = mem_index 2 addr (\<lambda>i. Inr (ucast (half_at i v)))"

definition cfetch :: "uint32 \<Rightarrow> interp \<Rightarrow> uint32 res" where
  "cfetch addr v = mem_index 1 addr (\<lambda>i. Inr (scast (mem v i)))"

definition ucfetch :: "uint32 \<Rightarrow> interp \<Rightarrow> uint32 res" where
  "ucfetch addr v = mem_index 1 addr (\<lambda>i. Inr (ucast (mem v i)))"

text \<open>The low \<open>n\<close> bytes of a word are stored: \<open>store\<close>, \<open>sstore\<close> and \<open>cstore\<close> for 4, 2 and 1.\<close>

definition i_store :: "nat \<Rightarrow> uint32 \<Rightarrow> uint32 \<Rightarrow> interp \<Rightarrow> interp res" where
  "i_store n addr x v = mem_index n addr (\<lambda>i. Inr (v\<lparr>mem := (\<lambda>j. if i \<le> j \<and> j < i + n then word_bytes x ! (j - i) else mem v j)\<rparr>))"

section \<open>Multiplication\<close>

definition high_product :: "uint32 \<Rightarrow> uint32 \<Rightarrow> uint32" where
  "high_product t1 t2 =
     (let t1l = t1 AND 0xFFFF; t1h = signed_drop_bit 16 t1 AND 0xFFFF;
          t2l = t2 AND 0xFFFF; t2h = signed_drop_bit 16 t2 AND 0xFFFF
      in t1h * t2h + signed_drop_bit 16 (t1h * t2l) + signed_drop_bit 16 (t2h * t1l))"

definition i_mult :: "uint32 \<Rightarrow> uint32 \<Rightarrow> uint32 \<times> uint32" where
  "i_mult a b =
     (let neg = (a <s 0) \<noteq> (b <s 0);
          t1 = (if a <s 0 then - a else a); t2 = (if b <s 0 then - b else b);
          lo = t1 * t2; hi = high_product t1 t2
      in if neg then (let lo1 = NOT lo + 1 in ((if lo1 = 0 then NOT hi + 1 else NOT hi), lo1)) else (hi, lo))"

definition i_multu :: "uint32 \<Rightarrow> uint32 \<Rightarrow> uint32 \<times> uint32" where
  "i_multu a b = (high_product a b, a * b)"

section \<open>One instruction\<close>

text \<open>
  The three \<open>switch\<close> statements: on the function of a \<open>SPECIAL\<close> instruction, on the \<open>rt\<close> field of a branch, and on the operation
  code. \<open>xpc\<close> is the address of the instruction; \<open>i_npc\<close> is the address of the instruction after the next.
\<close>

definition i_special :: "(interp \<Rightarrow> interp res) \<Rightarrow> (interp \<Rightarrow> interp res) \<Rightarrow> uint32 \<Rightarrow> uint32 \<Rightarrow> interp \<Rightarrow> interp res" where
  "i_special system_trap system_break i xpc v =
     (let f = i_funct i; a = Reg v (i_rs i); b = Reg v (i_rt i); put = (\<lambda>x. Inr (set_Reg (i_rd i) x v));
          amount = unat (a AND 0x1F) in
      if f = I_SLL then put (push_bit (i_shamt i) b)
      else if f = I_SRL then put (drop_bit (i_shamt i) b)
      else if f = I_SRA then put (signed_drop_bit (i_shamt i) b)
      else if f = I_SLLV then put (push_bit amount b)
      else if f = I_SRLV then put (drop_bit amount b)
      else if f = I_SRAV then put (signed_drop_bit amount b)
      else if f = I_JR then Inr (v\<lparr>i_npc := a\<rparr>)
      else if f = I_JALR then Inr (set_Reg (i_rd i) (xpc + 8) (v\<lparr>i_npc := a\<rparr>))
      else if f = I_SYSCALL then system_trap v
      else if f = I_BREAK then system_break v
      else if f = I_MFHI then put (HI v)
      else if f = I_MTHI then Inr (v\<lparr>HI := a\<rparr>)
      else if f = I_MFLO then put (LO v)
      else if f = I_MTLO then Inr (v\<lparr>LO := a\<rparr>)
      else if f = I_MULT then (let (hi, lo) = i_mult a b in Inr (v\<lparr>HI := hi, LO := lo\<rparr>))
      else if f = I_MULTU then (let (hi, lo) = i_multu a b in Inr (v\<lparr>HI := hi, LO := lo\<rparr>))
      else if f = I_DIV then
        if b = 0 \<or> a = SIGN_BIT \<and> b = -1 then Inl ArithmeticTrap
        else Inr (v\<lparr>LO := word_of_int (sint a sdiv sint b), HI := word_of_int (sint a smod sint b)\<rparr>)
      else if f = I_DIVU then
        if b = 0 then Inl ArithmeticTrap else Inr (v\<lparr>LO := a div b, HI := a mod b\<rparr>)
      else if f = I_ADD \<or> f = I_ADDU then put (a + b)
      else if f = I_SUB \<or> f = I_SUBU then put (a - b)
      else if f = I_AND then put (a AND b)
      else if f = I_OR then put (a OR b)
      else if f = I_XOR then put (a XOR b)
      else if f = I_NOR then put (NOT (a OR b))
      else if f = I_SLT then put (if a <s b then 1 else 0)
      else if f = I_SLTU then put (if a < b then 1 else 0)
      else Inl Exited)"

definition i_branch :: "bool \<Rightarrow> uint32 \<Rightarrow> uint32 \<Rightarrow> interp \<Rightarrow> interp res" where
  "i_branch b i xpc v = Inr (if b then v\<lparr>i_npc := xpc + 4 + push_bit 2 (immed i)\<rparr> else v)"

definition i_bcond :: "uint32 \<Rightarrow> uint32 \<Rightarrow> interp \<Rightarrow> interp res" where
  "i_bcond i xpc v =
     (let c = i_rt i; link = set_Reg 31 (xpc + 8) v in
      if c = I_BLTZ then i_branch (Reg v (i_rs i) <s 0) i xpc v
      else if c = I_BGEZ then i_branch (0 \<le>s Reg v (i_rs i)) i xpc v
      else if c = I_BLTZAL then i_branch (Reg link (i_rs i) <s 0) i xpc link
      else if c = I_BGEZAL then i_branch (0 \<le>s Reg link (i_rs i)) i xpc link
      else Inl Exited)"

definition i_memory :: "uint32 \<Rightarrow> interp \<Rightarrow> interp res" where
  "i_memory i v =
     (let c = i_op i; addr = Reg v (i_rs i) + immed i; b = Reg v (i_rt i); put = (\<lambda>x. Inr (set_Reg (i_rt i) x v));
          away = unat ((- addr) AND 3); at = unat (addr AND 3) in
      if c = I_LB then bind_res (cfetch addr v) put
      else if c = I_LH then bind_res (sfetch addr v) put
      else if c = I_LWL then
        bind_res (i_fetch (addr AND 0xFFFFFFFC) v) (\<lambda>x. put ((b AND signed_drop_bit (8 * away) (-1)) OR push_bit (8 * at) x))
      else if c = I_LW then bind_res (i_fetch addr v) put
      else if c = I_LBU then bind_res (ucfetch addr v) put
      else if c = I_LHU then bind_res (usfetch addr v) put
      else if c = I_LWR then
        bind_res (i_fetch (addr AND 0xFFFFFFFC) v) (\<lambda>x.
        put ((if at = 0 then 0 else b AND push_bit (8 * at) (-1)) OR signed_drop_bit (8 * away) x))
      else if c = I_SB then i_store 1 addr b v
      else if c = I_SH then i_store 2 addr b v
      else if c = I_SW then i_store 4 addr b v
      else Inl Exited)"

definition i_execute :: "(interp \<Rightarrow> interp res) \<Rightarrow> (interp \<Rightarrow> interp res) \<Rightarrow> uint32 \<Rightarrow> uint32 \<Rightarrow> interp \<Rightarrow> interp res" where
  "i_execute system_trap system_break i xpc v =
     (let c = i_op i; a = Reg v (i_rs i); b = Reg v (i_rt i); x = immed i; put = (\<lambda>x. Inr (set_Reg (i_rt i) x v));
          target = (xpc AND 0xF0000000) OR push_bit 2 (i AND 0x03FFFFFF) in
      if c = I_SPECIAL then i_special system_trap system_break i xpc v
      else if c = I_BCOND then i_bcond i xpc v
      else if c = I_J then Inr (v\<lparr>i_npc := target\<rparr>)
      else if c = I_JAL then Inr (set_Reg 31 (xpc + 8) (v\<lparr>i_npc := target\<rparr>))
      else if c = I_BEQ then i_branch (a = b) i xpc v
      else if c = I_BNE then i_branch (a \<noteq> b) i xpc v
      else if c = I_BLEZ then i_branch (a \<le>s 0) i xpc v
      else if c = I_BGTZ then i_branch (0 <s a) i xpc v
      else if c = I_ADDI \<or> c = I_ADDIU then put (a + x)
      else if c = I_SLTI then put (if a <s x then 1 else 0)
      else if c = I_SLTIU then put (if a < x then 1 else 0)
      else if c = I_ANDI then put (a AND x)
      else if c = I_ORI then put (a OR x)
      else if c = I_XORI then put (a XOR x)
      else if c = I_LUI then put (push_bit 16 i)
      else i_memory i v)"

text \<open>A round of the loop of \<open>runprogram\<close>: what it does with the word at \<open>pc\<close>, and the round.\<close>

definition i_body :: "(interp \<Rightarrow> interp res) \<Rightarrow> (interp \<Rightarrow> interp res) \<Rightarrow> uint32 \<Rightarrow> interp \<Rightarrow> interp res" where
  "i_body system_trap system_break instr v =
     (let xpc = i_pc v; v1 = set_Reg 0 0 (v\<lparr>i_pc := i_npc v, i_npc := i_npc v + 4\<rparr>) in
      if instr \<noteq> 0 then i_execute system_trap system_break instr xpc v1 else Inr v1)"

definition i_round :: "(interp \<Rightarrow> interp res) \<Rightarrow> (interp \<Rightarrow> interp res) \<Rightarrow> interp \<Rightarrow> interp res" where
  "i_round system_trap system_break v = bind_res (i_fetch (i_pc v) v) (\<lambda>instr. i_body system_trap system_break instr v)"

text \<open>
  What comes before the loop: the stack pointer, \<open>argc\<close>, the pointers to the arguments and their characters.
  \<open>aci\<close> is where the next pointer goes, \<open>ai\<close> where the next argument goes; the arguments come without their final zero.
\<close>

fun store_string :: "uint32 \<Rightarrow> byte list \<Rightarrow> interp \<Rightarrow> interp res" where
  "store_string a [] v = i_store 1 a 0 v"
| "store_string a (ch # rest) v = bind_res (i_store 1 a (ucast ch) v) (store_string (a + 1) rest)"

fun store_args :: "uint32 \<Rightarrow> uint32 \<Rightarrow> byte list list \<Rightarrow> interp \<Rightarrow> interp res" where
  "store_args aci ai [] v = Inr v"
| "store_args aci ai (arg # args) v =
     bind_res (store_string ai arg v) (\<lambda>v1.
     bind_res (i_store 4 aci ai v1) (store_args (aci + 4) (ai + of_nat (length arg) + 1) args))"

definition runprogram_start :: "uint32 \<Rightarrow> byte list list \<Rightarrow> interp \<Rightarrow> interp res" where
  "runprogram_start startpc argv v =
     (let sp = of_nat (MEMSIZE - 1024) + memoffset;
          v1 = set_Reg 29 sp (v\<lparr>i_pc := startpc, i_npc := startpc + 4\<rparr>) in
      bind_res (i_store 4 sp (of_nat (length argv)) v1) (store_args (sp + 4) (sp + 4 + 32) argv))"

text \<open>\<open>ilog2\<close> of its argument as an unsigned number.\<close>

definition ilog2_step :: "uint32 \<Rightarrow> nat \<Rightarrow> uint32 \<times> nat \<Rightarrow> uint32 \<times> nat" where
  "ilog2_step m k = (\<lambda>(i, l). let j = i AND m in if j \<noteq> 0 then (j, l + k) else (i, l))"

definition ilog2 :: "uint32 \<Rightarrow> nat" where
  "ilog2 i = (if i = 0 then 0 else
     snd (ilog2_step 0xAAAAAAAA 1 (ilog2_step 0xCCCCCCCC 2 (ilog2_step 0xF0F0F0F0 4
       (ilog2_step 0xFF00FF00 8 (ilog2_step 0xFFFF0000 16 (i, 1)))))))"

section \<open>Agreement with the simulator of the machine\<close>

text \<open>
  The words on which this interpreter and \<open>Machine::OneInstruction\<close> agree. Left out are the instructions whose overflow the
  simulator reports, logical right shifts, multiplication and division, memory accesses and traps; immediate operands of logical
  operations must be positive, a jump must stay in its region, and \<open>JALR\<close> must have two registers.
\<close>

definition agreeing :: "uint32 \<Rightarrow> uint32 \<Rightarrow> bool" where
  "agreeing i xpc \<longleftrightarrow>
     i_op i = I_SPECIAL \<and> i_funct i \<in> {I_SLL, I_SRA, I_SLLV, I_SRAV, I_JR, I_MFHI, I_MTHI, I_MFLO, I_MTLO,
       I_ADDU, I_SUBU, I_AND, I_OR, I_XOR, I_NOR, I_SLT, I_SLTU} \<or>
     i_op i = I_SPECIAL \<and> i_funct i = I_JALR \<and> i_rd i \<noteq> i_rs i \<or>
     i_op i = I_BCOND \<and> i_rt i \<in> {I_BLTZ, I_BGEZ, I_BLTZAL, I_BGEZAL} \<or>
     i_op i \<in> {I_BEQ, I_BNE, I_BLEZ, I_BGTZ, I_ADDIU, I_SLTI, I_SLTIU, I_LUI} \<or>
     i_op i \<in> {I_ANDI, I_ORI, I_XORI} \<and> i AND 0x8000 = 0 \<or>
     i_op i \<in> {I_J, I_JAL} \<and> (xpc + 8) AND 0xF0000000 = xpc AND 0xF0000000"

definition same_registers :: "uint32 \<Rightarrow> (nat \<Rightarrow> uint32) \<Rightarrow> interp \<Rightarrow> 'a machine_scheme \<Rightarrow> bool" where
  "same_registers p f v s \<longleftrightarrow> (\<forall>r < 32. Reg v r = registers s r) \<and> HI v = registers s HiReg \<and> LO v = registers s LoReg \<and>
     i_pc v = p \<and> (\<forall>r > 33. registers s r = f r)"

text \<open>A case of the simulator that leaves the \<open>switch\<close> at \<open>pcAfter\<close>, next to the same case here.\<close>

definition agrees ::
  "uint32 \<Rightarrow> (nat \<Rightarrow> uint32) \<Rightarrow> 'a machine_scheme step_end res \<Rightarrow> interp res \<Rightarrow> bool" where
  "agrees p f m m' \<longleftrightarrow> (\<exists>t v'. m = leave (i_npc v') t \<and> m' = Inr v' \<and> same_registers p f v' t)"

lemma agrees_put:
  assumes "same_registers p f v s" "r < 32" "i_npc v = pc" "x = y"
  shows "agrees p f (leave pc (set_reg r x s)) (Inr (set_Reg r y v))"
  unfolding agrees_def
  by (rule exI [of _ "set_reg r x s"], rule exI [of _ "set_Reg r y v"])
    (use assms in \<open>auto simp: same_registers_def set_reg_def set_Reg_def HiReg_def LoReg_def\<close>)

lemma agrees_npc:
  assumes "same_registers p f v s" "i_npc v' = pc" "Reg v' = Reg v" "HI v' = HI v" "LO v' = LO v" "i_pc v' = i_pc v"
  shows "agrees p f (leave pc s) (Inr v')"
  unfolding agrees_def
  by (rule exI [of _ s], rule exI [of _ v']) (use assms in \<open>auto simp: same_registers_def\<close>)

lemma fields_small: "i_rd i < 32" "i_rt i < 32" "i_rs i < 32"
  using field_bounds(1) by (simp_all add: i_rd_def i_rt_def i_rs_def)

lemma immed_bits: "n < 32 \<Longrightarrow> bit (immed i) n = bit i (min n 15)"
proof -
  assume n: "n < 32"
  have b: "i AND 0x8000 \<noteq> 0 \<longleftrightarrow> bit i 15" using and_exp_eq_0_iff_not_bit [of i 15] by simp
  have m: "- 0x8000 = (NOT (mask 15) :: uint32)" "0x7FFF = (mask 15 :: uint32)"
    by (simp_all add: mask_eq_exp_minus_1 not_eq_complement)
  from n b show ?thesis
    by (cases "n < 15") (auto simp: immed_def m bit_simps min_def)
qed

lemma immed_extra: "Decode_extra IFMT i = immed i"
proof (rule bit_word_eqI)
  fix n assume "n < LENGTH(32)"
  have b: "i AND 0x8000 \<noteq> 0 \<longleftrightarrow> bit i 15" using and_exp_eq_0_iff_not_bit [of i 15] by simp
  have e: "(i AND 0xFFFF) AND 0x8000 = i AND 0x8000" by (simp add: and.assoc)
  have m: "- 0x8000 = (NOT (mask 15) :: uint32)" "0xFFFF0000 = (NOT (mask 16) :: uint32)" "0xFFFF = (mask 16 :: uint32)" "0x7FFF = (mask 15 :: uint32)"
    by (simp_all add: mask_eq_exp_minus_1 not_eq_complement)
  from \<open>n < LENGTH(32)\<close> show "bit (Decode_extra IFMT i) n = bit (immed i) n"
  proof (cases "bit i 15")
    case True
    then have "Decode_extra IFMT i = (i AND 0xFFFF) OR 0xFFFF0000" "immed i = i OR (- 0x8000)"
      using b e by (simp_all add: Decode_extra_def immed_def)
    with \<open>n < LENGTH(32)\<close> True show ?thesis
      by (cases "n = 15") (auto simp: m bit_simps)
  next
    case False
    then have "Decode_extra IFMT i = i AND 0xFFFF" "immed i = i AND 0x7FFF"
      using b e by (simp_all add: Decode_extra_def immed_def)
    with False show ?thesis by (cases "n = 15") (auto simp: m bit_simps)
  qed
qed

lemma decode_fields:
  "rs (Decode i) = i_rs i" "rt (Decode i) = i_rt i" "rd (Decode i) = i_rd i"
  "i_op i = k \<Longrightarrow> opCode (Decode i) = Decode_op (fst (opTable ! k)) i"
  "i_op i = k \<Longrightarrow> extra (Decode i) = Decode_extra (snd (opTable ! k)) i"
  by (simp_all add: Decode_fields i_rs_def i_rt_def i_rd_def)

lemma decode_special:
  assumes "i_op i = I_SPECIAL"
  shows "opCode (Decode i) = specialTable ! i_funct i" "unat (extra (Decode i)) = i_shamt i"
  using decode_fields(4,5) [OF assms]
  by (simp_all add: i_defs opTable_def Decode_op_def Decode_extra_def op_defs i_shamt_def field_def)

lemma decode_immediate:
  assumes "i_op i \<in> {I_BCOND, I_BEQ, I_BNE, I_BLEZ, I_BGTZ, I_ADDIU, I_SLTI, I_SLTIU, I_LUI, I_ANDI, I_ORI, I_XORI}"
  shows "extra (Decode i) = immed i"
  using assms decode_fields(5) [of i] immed_extra [of i]
  by (auto simp: i_defs opTable_def)

lemma decode_bcond:
  assumes "i_op i = I_BCOND"
  shows "opCode (Decode i) = (if i_rt i = I_BLTZ then OP_BLTZ else if i_rt i = I_BGEZ then OP_BGEZ
    else if i_rt i = I_BLTZAL then OP_BLTZAL else if i_rt i = I_BGEZAL then OP_BGEZAL else OP_UNIMP)"
proof -
  let ?f = "drop_bit 16 i AND 0x1F"
  have f: "i AND 0x1F0000 = push_bit 16 ?f"
  proof (rule bit_word_eqI)
    fix n assume "n < LENGTH(32)"
    have m: "0x1F0000 = (push_bit 16 (mask 5) :: uint32)" "0x1F = (mask 5 :: uint32)" by (simp_all add: mask_eq_exp_minus_1)
    show "bit (i AND 0x1F0000) n = bit (push_bit 16 ?f) n"
      using \<open>n < LENGTH(32)\<close> unfolding m by (cases "16 \<le> n") (auto simp: bit_simps)
  qed
  have r: "i_rt i = k \<longleftrightarrow> ?f = of_nat k" if "k < 32" for k
    using that by (auto simp: i_rt_def field_def unsigned_of_nat take_bit_nat_eq_self)
  have undo: "drop_bit 16 (push_bit 16 (w AND 0x1F)) = w AND 0x1F" for w :: uint32
  proof -
    have m: "0x1F = (mask 5 :: uint32)" by (simp add: mask_eq_exp_minus_1)
    show ?thesis unfolding m by (rule bit_word_eqI) (auto simp: bit_simps)
  qed
  have inj: "push_bit 16 ?f = push_bit 16 w \<longleftrightarrow> ?f = w" if "w AND 0x1F = w" for w :: uint32
    using undo [of "drop_bit 16 i"] undo [of w] that by metis
  have "push_bit 16 (0 :: uint32) = 0" "push_bit 16 (1 :: uint32) = 0x10000" "push_bit 16 (16 :: uint32) = 0x100000" "push_bit 16 (17 :: uint32) = 0x110000"
    by simp_all
  then show ?thesis
    using decode_fields(4) [OF assms] inj [of 0] inj [of 1] inj [of 16] inj [of 17] r [of 0] r [of 1] r [of 16] r [of 17]
    by (simp add: i_defs opTable_def Decode_op_def Let_def f op_defs)
qed

lemma sign_test: "x AND SIGN_BIT = 0 \<longleftrightarrow> 0 \<le>s x" "\<not> 0 \<le>s x \<longleftrightarrow> x <s 0" for x :: uint32
  using sign_bit [of x] by (auto simp: word_sless_alt word_sle_eq)

lemma agrees_special:
  assumes "same_registers p f v s" "i_npc v = xpc + 8" "registers s NextPCReg = xpc + 4" "i_op i = I_SPECIAL"
    "i_funct i \<in> {I_SLL, I_SRA, I_SLLV, I_SRAV, I_JR, I_MFHI, I_MTHI, I_MFLO, I_MTLO,
       I_ADDU, I_SUBU, I_AND, I_OR, I_XOR, I_NOR, I_SLT, I_SLTU} \<or> i_funct i = I_JALR \<and> i_rd i \<noteq> i_rs i"
  shows "agrees p f (execute handler junk (Decode i) (xpc + 8) s) (i_special trap brk i xpc v)"
proof -
  have r: "registers s (i_rs i) = Reg v (i_rs i)" "registers s (i_rt i) = Reg v (i_rt i)" "registers s HiReg = HI v" "registers s LoReg = LO v"
    using assms(1) fields_small by (simp_all add: same_registers_def)
  note d = decode_special [OF assms(4)] and p = agrees_put [OF assms(1) fields_small(1) assms(2)]
  have hl: "agrees p f (leave (xpc + 8) (set_reg HiReg x s)) (Inr (v\<lparr>HI := x\<rparr>))"
    "agrees p f (leave (xpc + 8) (set_reg LoReg x s)) (Inr (v\<lparr>LO := x\<rparr>))"
    "agrees p f (leave x s) (Inr (v\<lparr>i_npc := x\<rparr>))" for x
    unfolding agrees_def
    by (intro exI [of _ "set_reg HiReg x s"] exI [of _ "set_reg LoReg x s"] exI [of _ s] exI [of _ "v\<lparr>HI := x\<rparr>"] exI [of _ "v\<lparr>LO := x\<rparr>"]
      exI [of _ "v\<lparr>i_npc := x\<rparr>"];
      use assms(1,2) in \<open>auto simp: same_registers_def set_reg_def HiReg_def LoReg_def\<close>)+
  have pc: "registers s NextPCReg + 4 = xpc + 8" using assms(3) by simp
  have "same_registers p f (v\<lparr>i_npc := Reg v (i_rs i)\<rparr>) s" using assms(1) by (simp add: same_registers_def)
  note jalr = agrees_put [OF this fields_small(1) _ refl]
  have "i_rd i \<noteq> i_rs i \<Longrightarrow> registers (set_reg (i_rd i) x s) (i_rs i) = Reg v (i_rs i)" for x by (simp add: set_reg_def r)
  with assms(5) show ?thesis
    by (elim disjE insertE conjE emptyE)
      (simp_all add: i_special_def Let_def d decode_fields(1-3) i_defs specialTable_def exec_defs op_defs r p hl jalr pc)
qed

lemma agrees_branch:
  assumes "same_registers p f v s" "i_npc v = xpc + 8" "registers s NextPCReg = xpc + 4" "extra (Decode i) = immed i"
  shows "agrees p f (leave (branch b (Decode i) (xpc + 8) s) s) (i_branch b i xpc v)"
  using assms by (cases b) (auto simp: branch_def i_branch_def IndexToAddr_def intro!: agrees_npc)

lemma agrees_bcond:
  assumes "same_registers p f v s" "i_npc v = xpc + 8" "registers s NextPCReg = xpc + 4" "i_op i = I_BCOND"
    "i_rt i \<in> {I_BLTZ, I_BGEZ, I_BLTZAL, I_BGEZAL}"
  shows "agrees p f (execute handler junk (Decode i) (xpc + 8) s) (i_bcond i xpc v)"
proof -
  have x: "extra (Decode i) = immed i" using decode_immediate [of i] assms(4) by simp
  let ?v = "set_Reg 31 (xpc + 8) v" and ?s = "set_reg R31 (xpc + 8) s"
  have link: "same_registers p f ?v ?s" "i_npc ?v = xpc + 8" "registers ?s NextPCReg = xpc + 4"
    using assms(1-3) by (auto simp: same_registers_def set_Reg_def set_reg_def R31_def HiReg_def LoReg_def NextPCReg_def)
  have r: "registers s (i_rs i) = Reg v (i_rs i)" "registers ?s (i_rs i) = Reg ?v (i_rs i)"
    using assms(1) link(1) fields_small by (simp_all add: same_registers_def)
  have pc: "registers s NextPCReg + 4 = xpc + 8" using assms(3) by simp
  note b = agrees_branch [OF assms(1-3) x] agrees_branch [OF link x]
  show ?thesis
    using assms(5)
    by (elim insertE emptyE)
      (simp_all add: i_bcond_def Let_def decode_bcond [OF assms(4)] decode_fields(1-3) i_defs exec_defs op_defs r pc b sign_test)
qed

lemma agrees_immediate:
  assumes "same_registers p f v s" "i_npc v = xpc + 8" "registers s NextPCReg = xpc + 4"
    "i_op i \<in> {I_BEQ, I_BNE, I_BLEZ, I_BGTZ, I_ADDIU, I_SLTI, I_SLTIU, I_LUI} \<or> i_op i \<in> {I_ANDI, I_ORI, I_XORI} \<and> i AND 0x8000 = 0"
  shows "agrees p f (execute handler junk (Decode i) (xpc + 8) s) (i_execute trap brk i xpc v)"
proof -
  have r: "registers s (i_rs i) = Reg v (i_rs i)" "registers s (i_rt i) = Reg v (i_rt i)"
    using assms(1) fields_small by (simp_all add: same_registers_def)
  have x: "extra (Decode i) = immed i" using decode_immediate [of i] assms(4) by auto
  have lui: "push_bit 16 (immed i) = push_bit 16 i"
  proof (rule bit_word_eqI)
    fix n assume "n < LENGTH(32)"
    have "bit (immed i) k = bit i k" if "k < 16" for k
      using that immed_extra [of i] by (cases "k = 15") (auto simp: immed_bits)
    then show "bit (push_bit 16 (immed i)) n = bit (push_bit 16 i) n"
      using \<open>n < LENGTH(32)\<close> by (auto simp: bit_simps)
  qed
  have low: "i AND 0x8000 = 0 \<Longrightarrow> immed i AND 0xFFFF = immed i"
  proof (rule bit_word_eqI)
    fix n assume z: "i AND 0x8000 = 0" and n: "n < LENGTH(32)"
    have "\<not> bit i 15" using z and_exp_eq_0_iff_not_bit [of i 15] by simp
    have m: "0xFFFF = (mask 16 :: uint32)" by (simp add: mask_eq_exp_minus_1)
    show "bit (immed i AND 0xFFFF) n = bit (immed i) n"
      using n \<open>\<not> bit i 15\<close> unfolding m by (cases "n < 16") (auto simp: immed_bits bit_simps min_def)
  qed
  note b = agrees_branch [OF assms(1-3) x] and p = agrees_put [OF assms(1) fields_small(2) assms(2)]
  show ?thesis
    using assms(4)
    by (elim disjE conjE insertE emptyE)
      (simp_all add: i_execute_def Let_def decode_fields opTable_def Decode_op_def i_defs exec_defs op_defs r b p x lui low)
qed

lemma agrees_jump:
  assumes "same_registers p f v s" "i_npc v = xpc + 8" "registers s NextPCReg = xpc + 4"
    "i_op i \<in> {I_J, I_JAL}" "(xpc + 8) AND 0xF0000000 = xpc AND 0xF0000000"
  shows "agrees p f (execute handler junk (Decode i) (xpc + 8) s) (i_execute trap brk i xpc v)"
proof -
  have pc: "registers s NextPCReg + 4 = xpc + 8" using assms(3) by simp
  let ?target = "(xpc AND 0xF0000000) OR push_bit 2 (i AND 0x03FFFFFF)"
  have x: "extra (Decode i) = i AND 0x03FFFFFF"
    using assms(4) decode_fields(5) [of i] by (auto simp: i_defs opTable_def Decode_extra_def op_defs)
  have j: "agrees p f (leave ?target s) (Inr (v\<lparr>i_npc := ?target\<rparr>))"
    using assms(1) by (intro agrees_npc) simp_all
  have "same_registers p f (v\<lparr>i_npc := ?target\<rparr>) s" using assms(1) by (simp add: same_registers_def)
  from agrees_put [OF this, of 31 ?target] have jal:
    "agrees p f (leave ?target (set_reg 31 (xpc + 8) s)) (Inr (set_Reg 31 (xpc + 8) (v\<lparr>i_npc := ?target\<rparr>)))" by simp
  show ?thesis
    using assms(4)
    by (elim insertE emptyE)
      (use j jal in \<open>simp_all add: i_execute_def Let_def decode_fields opTable_def Decode_op_def i_defs exec_defs op_defs x pc assms(5)
        IndexToAddr_def R31_def\<close>)
qed

lemma agrees_body:
  assumes "same_registers p f v s" "i_npc v = xpc + 8" "registers s NextPCReg = xpc + 4" "agreeing i xpc"
  shows "agrees p f (execute handler junk (Decode i) (xpc + 8) s) (i_execute trap brk i xpc v)"
proof -
  consider "i_op i = I_SPECIAL" | "i_op i = I_BCOND" "i_rt i \<in> {I_BLTZ, I_BGEZ, I_BLTZAL, I_BGEZAL}" |
    "i_op i \<in> {I_BEQ, I_BNE, I_BLEZ, I_BGTZ, I_ADDIU, I_SLTI, I_SLTIU, I_LUI} \<or> i_op i \<in> {I_ANDI, I_ORI, I_XORI} \<and> i AND 0x8000 = 0" |
    "i_op i \<in> {I_J, I_JAL}" "(xpc + 8) AND 0xF0000000 = xpc AND 0xF0000000"
    using assms(4) unfolding agreeing_def by blast
  then show ?thesis
  proof cases
    case 1
    with assms(4) agrees_special [OF assms(1-3) 1] show ?thesis
      by (simp add: i_execute_def agreeing_def i_defs)
  next
    case 2
    with agrees_bcond [OF assms(1-3) 2] show ?thesis by (simp add: i_execute_def i_defs)
  qed (use agrees_immediate [OF assms(1-3)] agrees_jump [OF assms(1-3)] in blast)+
qed

lemma i_execute_nop: "Reg v 0 = 0 \<Longrightarrow> i_execute trap brk 0 xpc v = Inr v"
  by (simp add: i_execute_def i_special_def Let_def i_defs i_rt_def i_rd_def i_shamt_def field_def set_Reg_def fun_upd_idem)

text \<open>
  The two simulators between instructions: the same registers and program counters, and in the simulator of the machine register 0
  is zero and no delayed load is pending. (The interpreter clears its register 0 in every round.)
\<close>

definition corresponds :: "interp \<Rightarrow> 'a machine_scheme \<Rightarrow> bool" where
  "corresponds v s \<longleftrightarrow> (\<forall>r < 32. 0 < r \<longrightarrow> Reg v r = registers s r) \<and> HI v = registers s HiReg \<and> LO v = registers s LoReg \<and>
     i_pc v = registers s PCReg \<and> i_npc v = registers s NextPCReg \<and> registers s 0 = 0 \<and> registers s LoadReg = 0"

text \<open>
  C38: take an agreeing instruction word that is not in the delay slot of a jump (the next program counter is four more
  than the program counter), with no delayed load pending. From states with the same registers and program counters, the two simulators of the
  repository execute it without an exception and end in states that again have the same registers and program counters, with no load pending;
  for the simulator of the machine this includes its delayed load and the move of its program counters at the end.
\<close>

theorem interpreters_agree:
  assumes "corresponds v s" "agreeing i (registers s PCReg)" "registers s NextPCReg = registers s PCReg + 4"
  shows "\<exists>e t v'. execute handler junk (Decode i) (registers s NextPCReg + 4) s = Inr (Leave 0 0 (i_npc v') e) \<and>
    advance 0 0 (i_npc v') e = Inr t \<and> i_body trap brk i v = Inr v' \<and> corresponds v' t"
proof -
  let ?v = "set_Reg 0 0 (v\<lparr>i_pc := i_npc v, i_npc := i_npc v + 4\<rparr>)"
  let ?p = "registers s NextPCReg" and ?f = "registers s" and ?x = "registers s PCReg"
  have pc: "registers s NextPCReg + 4 = ?x + 8" using assms(3) by simp
  have v: "same_registers ?p ?f ?v s" "i_npc ?v = ?x + 8" "Reg ?v 0 = 0"
    using assms(1,3) by (auto simp: corresponds_def same_registers_def set_Reg_def)
  from agrees_body [OF v(1,2) assms(3,2), of handler junk trap brk] obtain e v' where
    m: "execute handler junk (Decode i) (?x + 8) s = leave (i_npc v') e" "i_execute trap brk i ?x ?v = Inr v'" "same_registers ?p ?f v' e"
    unfolding agrees_def by blast
  have body: "i_body trap brk i v = Inr v'"
    using m(2) v(3) i_execute_nop [of ?v trap brk ?x] assms(1) by (auto simp: i_body_def Let_def corresponds_def)
  let ?r = "(registers e)(0 := registers e LoadValueReg)"
  have e: "registers e LoadReg = 0" "registers e NextPCReg = ?p"
    using m(3) assms(1) by (simp_all add: same_registers_def corresponds_def LoadReg_def NextPCReg_def)
  let ?t = "e\<lparr>registers := (registers e)(LoadReg := 0, LoadValueReg := 0, 0 := 0)\<rparr>"
  have "DelayedLoad 0 0 e = Inr ?t"
    using e(1) by (auto simp: DelayedLoad_def NumTotalRegs_def LoadReg_def LoadValueReg_def fun_eq_iff)
  then have "advance 0 0 (i_npc v') e = Inr (set_reg NextPCReg (i_npc v') (set_reg PCReg (registers ?t NextPCReg) (set_reg PrevPCReg (registers ?t PCReg) ?t)))"
    by (simp add: advance_def)
  moreover have "corresponds v' (set_reg NextPCReg (i_npc v') (set_reg PCReg (registers ?t NextPCReg) (set_reg PrevPCReg (registers ?t PCReg) ?t)))"
    using m(3) e(2) by (auto simp: corresponds_def same_registers_def set_reg_def NextPCReg_def PCReg_def PrevPCReg_def LoadReg_def LoadValueReg_def
      HiReg_def LoReg_def)
  ultimately show ?thesis using m(1) body unfolding pc leave_def by blast
qed

text \<open>\<open>ADDIU $9, $0, -5\<close>.\<close>

definition sample_interp :: "'a machine_scheme \<Rightarrow> interp" where
  "sample_interp s = \<lparr>Reg = registers s, HI = registers s HiReg, LO = registers s LoReg, i_pc = registers s PCReg,
     i_npc = registers s NextPCReg, mem = (\<lambda>_. 0)\<rparr>"

theorem interpreters_agree_witness:
  "\<exists>e t v'. execute (ExceptionHandler (\<lambda>_. Inr)) 0 (Decode 0x2409FFFB) 8 (set_reg NextPCReg 4 sample_machine) = Inr (Leave 0 0 (i_npc v') e) \<and>
    advance 0 0 (i_npc v') e = Inr t \<and> i_body Inr Inr 0x2409FFFB (sample_interp (set_reg NextPCReg 4 sample_machine)) = Inr v' \<and> corresponds v' t"
proof -
  let ?s = "set_reg NextPCReg 4 sample_machine"
  have "i_op 0x2409FFFB = I_ADDIU" by code_simp
  then have a: "agreeing 0x2409FFFB (registers ?s PCReg)" by (simp add: agreeing_def)
  have s: "registers ?s PCReg = 0" "registers ?s NextPCReg = 4" "registers ?s LoadReg = 0" "registers ?s 0 = 0"
    by (simp_all add: set_reg_def sample_machine_facts NextPCReg_def PCReg_def LoadReg_def)
  then have c: "corresponds (sample_interp ?s) ?s" "registers ?s NextPCReg = registers ?s PCReg + 4"
    by (simp_all add: corresponds_def sample_interp_def)
  have eight: "registers ?s NextPCReg + 4 = 8" using s(2) by simp
  from interpreters_agree [OF c(1) a c(2), of "ExceptionHandler (\<lambda>_. Inr)" 0 Inr Inr] show ?thesis unfolding eight .
qed

section \<open>Multiplication\<close>

lemma halves:
  "x AND 0xFFFF = word_of_int (uint x mod 2 ^ 16)" "signed_drop_bit 16 x AND 0xFFFF = word_of_int (uint x div 2 ^ 16)" for x :: uint32
proof -
  have m: "0xFFFF = (mask 16 :: uint32)" by (simp add: mask_eq_exp_minus_1)
  have "x AND 0xFFFF = take_bit 16 x" unfolding m by (simp add: take_bit_eq_mask)
  moreover have "uint (take_bit 16 x) = uint x mod 2 ^ 16" unfolding unsigned_take_bit_eq by (rule take_bit_eq_mod)
  ultimately show "x AND 0xFFFF = word_of_int (uint x mod 2 ^ 16)" by (metis word_of_int_uint)
  have "signed_drop_bit 16 x AND 0xFFFF = drop_bit 16 x"
    unfolding m by (rule bit_word_eqI) (auto simp: bit_simps bit_signed_drop_bit_iff dest: bit_imp_le_length)
  moreover have "uint (drop_bit 16 x) = uint x div 2 ^ 16" by (simp add: drop_bit_eq_div uint_div)
  ultimately show "signed_drop_bit 16 x AND 0xFFFF = word_of_int (uint x div 2 ^ 16)" by (metis word_of_int_uint)
qed

lemma drop_half:
  assumes "0 \<le> k" "k < 2 ^ 31" shows "signed_drop_bit 16 (word_of_int k :: uint32) = word_of_int (k div 2 ^ 16)"
proof -
  have "sint (word_of_int k :: uint32) = k" using assms by (simp add: sint_of_int)
  then have "sint (signed_drop_bit 16 (word_of_int k :: uint32)) = k div 2 ^ 16"
    by (simp add: sint_signed_drop_bit_eq drop_bit_eq_div)
  moreover have "signed_drop_bit 16 (word_of_int k :: uint32) = word_of_int (sint (signed_drop_bit 16 (word_of_int k :: uint32)))" by simp
  ultimately show ?thesis by simp
qed

text \<open>The low halves are left out, with the carries from there.\<close>

lemma high_product_short:
  assumes "uint t1 \<le> 2 ^ 31" "uint t2 \<le> 2 ^ 31"
  obtains e where "e \<in> {0, 1, 2}" "uint t1 * uint t2 = 0 \<Longrightarrow> e = 0"
    "high_product t1 t2 = word_of_int (uint t1 * uint t2 div 2 ^ 32 - e)"
proof -
  define h1 l1 h2 l2 where "h1 = uint t1 div 2 ^ 16" and "l1 = uint t1 mod 2 ^ 16" and "h2 = uint t2 div 2 ^ 16" and "l2 = uint t2 mod 2 ^ 16"
  note d = h1_def l1_def h2_def l2_def
  have b: "0 \<le> h1" "h1 \<le> 2 ^ 15" "0 \<le> h2" "h2 \<le> 2 ^ 15" "0 \<le> l1" "l1 \<le> 2 ^ 16 - 1" "0 \<le> l2" "l2 \<le> 2 ^ 16 - 1"
    using assms by (auto simp: d pos_imp_zdiv_nonneg_iff)
  have t: "uint t1 = h1 * 2 ^ 16 + l1" "uint t2 = h2 * 2 ^ 16 + l2" by (simp_all add: d)
  define x y where "x = h1 * l2" and "y = h2 * l1"
  have xy: "0 \<le> x" "x < 2 ^ 31" "0 \<le> y" "y < 2 ^ 31" "0 \<le> l1 * l2" "l1 * l2 \<le> (2 ^ 16 - 1) * (2 ^ 16 - 1)"
    using b mult_mono [of h1 "2 ^ 15" l2 "2 ^ 16 - 1"] mult_mono [of h2 "2 ^ 15" l1 "2 ^ 16 - 1"] mult_mono [of l1 "2 ^ 16 - 1" l2 "2 ^ 16 - 1"]
    by (simp_all add: x_def y_def)
  have hp: "high_product t1 t2 = word_of_int (h1 * h2 + x div 2 ^ 16 + y div 2 ^ 16)"
    unfolding high_product_def Let_def halves(2) unfolding halves(1) d [symmetric]
    unfolding x_def y_def
    by (simp only: wi_hom_mult drop_half [OF xy(1,2), unfolded x_def] drop_half [OF xy(3,4), unfolded y_def] wi_hom_add)
  define rest where "rest = (x mod 2 ^ 16 + y mod 2 ^ 16) * 2 ^ 16 + l1 * l2"
  have rest: "0 \<le> rest" "rest < 3 * 2 ^ 32"
    using xy pos_mod_bound [of "2 ^ 16" x] pos_mod_bound [of "2 ^ 16" y] by (auto simp: rest_def)
  have "uint t1 * uint t2 = h1 * h2 * 2 ^ 32 + (x + y) * 2 ^ 16 + l1 * l2" unfolding t x_def y_def by (simp add: algebra_simps)
  moreover obtain qx rx qy ry where q: "x div 2 ^ 16 = qx" "x mod 2 ^ 16 = rx" "y div 2 ^ 16 = qy" "y mod 2 ^ 16 = ry" by blast
  moreover have "x = qx * 2 ^ 16 + rx" "y = qy * 2 ^ 16 + ry" by (simp_all flip: q)
  ultimately have prod: "uint t1 * uint t2 = (h1 * h2 + x div 2 ^ 16 + y div 2 ^ 16) * 2 ^ 32 + rest"
    unfolding rest_def q by (simp add: algebra_simps)
  then have "uint t1 * uint t2 div 2 ^ 32 = h1 * h2 + x div 2 ^ 16 + y div 2 ^ 16 + rest div 2 ^ 32" by simp
  moreover have "rest div 2 ^ 32 \<in> {0, 1, 2}" using rest by auto
  moreover have "rest div 2 ^ 32 = 0" if "uint t1 * uint t2 = 0"
    using prod that rest xy b by (smt (verit) mult_nonneg_nonneg div_pos_pos_trivial pos_imp_zdiv_nonneg_iff)
  ultimately show thesis using hp by (intro that [of "rest div 2 ^ 32"]) simp_all
qed

lemma magnitude:
  "uint (if a <s 0 then - a else a) = \<bar>sint a\<bar>" "uint (if a <s 0 then - a else a) \<le> 2 ^ 31" for a :: uint32
proof -
  have r: "- (2 ^ 31) \<le> sint a" "sint a < 2 ^ 31" using sint_bounds [of a] by simp_all
  have "(if a <s 0 then - a else a) = word_of_int \<bar>sint a\<bar>" by (auto simp: word_sless_alt)
  then show "uint (if a <s 0 then - a else a) = \<bar>sint a\<bar>" using r by (simp add: uint_of_int)
  with r show "uint (if a <s 0 then - a else a) \<le> 2 ^ 31" by simp
qed

text \<open>
  C39: \<open>MULT\<close> sets \<open>LO\<close> to the exact low word of the signed product, and \<open>HI\<close> to its high word or to one or two less in
  magnitude: the carry out of the products of the halves is dropped.
\<close>

theorem i_mult_short:
  "\<exists>e \<in> {0, 1, 2}. i_mult a b =
    (word_of_int (sint a * sint b div 2 ^ 32 + (if sint a * sint b < 0 then e else - e)), word_of_int (sint a * sint b))"
proof -
  let ?t1 = "if a <s 0 then - a else a" and ?t2 = "if b <s 0 then - b else b"
  define p m where "p = sint a * sint b" and "m = \<bar>sint a\<bar> * \<bar>sint b\<bar>"
  obtain e where e: "e \<in> {0, 1, 2}" "m = 0 \<Longrightarrow> e = 0" "high_product ?t1 ?t2 = word_of_int (m div 2 ^ 32 - e)"
    using high_product_short [OF magnitude(2) [of a] magnitude(2) [of b]] unfolding magnitude(1) m_def by blast
  have lo: "?t1 * ?t2 = word_of_int m"
    using magnitude(1) [of a] magnitude(1) [of b] unfolding m_def by (metis word_of_int_uint wi_hom_mult)
  show ?thesis unfolding p_def [symmetric]
  proof (cases "(a <s 0) = (b <s 0)")
    case True
    then have "p = m" by (auto simp: p_def m_def word_sless_alt abs_if)
    moreover have "0 \<le> m" by (simp add: m_def)
    ultimately show "\<exists>e \<in> {0, 1, 2}. i_mult a b = (word_of_int (p div 2 ^ 32 + (if p < 0 then e else - e)), word_of_int p)"
      using True e lo by (intro bexI [OF _ e(1)]) (simp add: i_mult_def Let_def)
  next
    case False
    then have p: "p = - m" by (auto simp: p_def m_def word_sless_alt abs_if)
    have "0 \<le> m" by (simp add: m_def)
    with p have sign: "p < 0 \<longleftrightarrow> m \<noteq> 0" by linarith
    have neg: "NOT (word_of_int m) + 1 = (word_of_int p :: uint32)" by (simp add: p not_eq_complement)
    have dv: "(word_of_int p :: uint32) = 0 \<longleftrightarrow> m mod 2 ^ 32 = 0"
      unfolding p by (simp add: word_of_int_eq_0_iff dvd_eq_mod_eq_0)
    have "p div 2 ^ 32 = (if m mod 2 ^ 32 = 0 then - (m div 2 ^ 32) else - (m div 2 ^ 32) - 1)"
      unfolding p by (rule zdiv_zminus1_eq_if) simp
    then have "(if (word_of_int p :: uint32) = 0 then NOT (word_of_int (m div 2 ^ 32 - e)) + 1 else NOT (word_of_int (m div 2 ^ 32 - e))) =
        (word_of_int (p div 2 ^ 32 + e) :: uint32)"
      unfolding dv by (simp add: not_eq_complement)
    moreover have "i_mult a b = ((if (word_of_int p :: uint32) = 0 then NOT (word_of_int (m div 2 ^ 32 - e)) + 1 else NOT (word_of_int (m div 2 ^ 32 - e))),
        word_of_int p)"
      unfolding i_mult_def Let_def e(3) lo neg using False by (simp only: if_True not_False_eq_True)
    moreover have "(if p < 0 then e else - e) = e" using sign e(2) by auto
    ultimately show "\<exists>e \<in> {0, 1, 2}. i_mult a b = (word_of_int (p div 2 ^ 32 + (if p < 0 then e else - e)), word_of_int p)"
      by (intro bexI [OF _ e(1)]) (simp only:)
  qed
qed

text \<open>A product that loses one in \<open>HI\<close> of two carries, and one of two unsigned words, whose partial products are shifted as signed numbers.\<close>

lemma mult_examples:
  "i_mult 0x1FFFF 0x1FFFF = (1, 0xFFFC0001)" "sint (0x1FFFF :: uint32) * sint (0x1FFFF :: uint32) = 3 * 2 ^ 32 + 0xFFFC0001"
  "i_multu (-1) (-1) = (0xFFFDFFFD, 1)"
  by code_simp+

section \<open>The number of bits\<close>

text \<open>Every step halves the positions at which the bits that are left can be; the highest bit is always left.\<close>

definition bits_left :: "uint32 \<Rightarrow> nat \<Rightarrow> nat \<Rightarrow> bool" where
  "bits_left i n k \<longleftrightarrow> bit i n \<and> (\<forall>p. bit i p \<longrightarrow> p \<le> n \<and> p div 2 ^ k = n div 2 ^ k)"

lemma half_eq: "x div 2 = y div 2 \<Longrightarrow> x \<le> y \<Longrightarrow> even y \<Longrightarrow> x = y" for x y :: nat
  by presburger

lemma ilog2_step_ok:
  assumes "bits_left i n (Suc k)" "n < 32" "list_all (\<lambda>p. bit m p = odd (p div 2 ^ k)) [0..<32]"
  shows "\<exists>i'. ilog2_step m (2 ^ k) (i, l) = (i', l + (n div 2 ^ k) mod 2 * 2 ^ k) \<and> bits_left i' n k"
proof -
  have i: "bit i n" "bit i p \<Longrightarrow> p \<le> n" "bit i p \<Longrightarrow> p div 2 ^ k div 2 = n div 2 ^ k div 2" for p
  proof -
    have "x div 2 ^ Suc k = x div 2 ^ k div 2" for x :: nat by (simp only: power_Suc2 div_mult2_eq)
    with assms(1) show "bit i n" "bit i p \<Longrightarrow> p \<le> n" "bit i p \<Longrightarrow> p div 2 ^ k div 2 = n div 2 ^ k div 2"
      unfolding bits_left_def by metis+
  qed
  have m: "bit m p \<longleftrightarrow> odd (p div 2 ^ k)" if "p < 32" for p using assms(3) that by (simp add: list_all_iff)
  have small: "p < 32" if "bit i p" for p using i(2) [OF that] assms(2) by simp
  show ?thesis
  proof (cases "odd (n div 2 ^ k)")
    case True
    have n: "bit (i AND m) n" using i(1) m [OF assms(2)] True by (simp add: bit_and_iff)
    have "p \<le> n \<and> p div 2 ^ k = n div 2 ^ k" if "bit (i AND m) p" for p
    proof -
      have p: "bit i p" "bit m p" using that by (simp_all add: bit_and_iff)
      then have "odd (p div 2 ^ k)" using m small by blast
      then show ?thesis using True i(2,3) [OF p(1)] by (metis odd_two_times_div_two_succ)
    qed
    then have "bits_left (i AND m) n k" using n unfolding bits_left_def by blast
    moreover have "\<not> bit (0 :: uint32) n" by simp
    with n have "i AND m \<noteq> 0" by metis
    then have "ilog2_step m (2 ^ k) (i, l) = (i AND m, l + (n div 2 ^ k) mod 2 * 2 ^ k)"
      using True unfolding odd_iff_mod_2_eq_one by (simp only: ilog2_step_def Let_def prod.case if_True mult_1 simp_thms)
    ultimately show ?thesis by blast
  next
    case False
    have same: "p div 2 ^ k = n div 2 ^ k" if "bit i p" for p
      by (rule half_eq [OF i(3) [OF that] div_le_mono [OF i(2) [OF that]]]) (use False in blast)
    have "i AND m = 0"
    proof (rule bit_word_eqI)
      fix p assume "p < LENGTH(32)"
      then show "bit (i AND m) p = bit 0 p" using same [of p] False m [of p] by (auto simp: bit_and_iff)
    qed
    moreover have "(n div 2 ^ k) mod 2 = 0" using False by presburger
    ultimately have "ilog2_step m (2 ^ k) (i, l) = (i, l + (n div 2 ^ k) mod 2 * 2 ^ k)" by (simp only: ilog2_step_def Let_def prod.case) simp
    moreover have "bits_left i n k" using i(1,2) same unfolding bits_left_def by blast
    ultimately show ?thesis by blast
  qed
qed

lemma ilog2_masks:
  "list_all (\<lambda>p. bit (0xFFFF0000 :: uint32) p = odd (p div 2 ^ 4)) [0..<32]"
  "list_all (\<lambda>p. bit (0xFF00FF00 :: uint32) p = odd (p div 2 ^ 3)) [0..<32]"
  "list_all (\<lambda>p. bit (0xF0F0F0F0 :: uint32) p = odd (p div 2 ^ 2)) [0..<32]"
  "list_all (\<lambda>p. bit (0xCCCCCCCC :: uint32) p = odd (p div 2 ^ 1)) [0..<32]"
  "list_all (\<lambda>p. bit (0xAAAAAAAA :: uint32) p = odd (p div 2 ^ 0)) [0..<32]"
  by code_simp+

lemma ilog2_highest:
  assumes "bit i n" "\<And>p. bit i p \<Longrightarrow> p \<le> n" shows "ilog2 i = n + 1"
proof -
  have n: "n < 32" using assms(1) bit_imp_le_length [of i n] by simp
  let ?b = "\<lambda>k. (n div 2 ^ k) mod 2 * 2 ^ k"
  have "bits_left i n 5" unfolding bits_left_def
  proof (intro conjI allI impI)
    fix p assume "bit i p"
    with assms(2) show "p \<le> n" by simp
    with n show "p div 2 ^ 5 = n div 2 ^ 5" by simp
  qed (rule assms(1))
  then have "bits_left i n (Suc 4)" by simp
  from ilog2_step_ok [OF this n ilog2_masks(1)] obtain i4 where s4: "ilog2_step 0xFFFF0000 (2 ^ 4) (i, 1) = (i4, 1 + ?b 4)" "bits_left i4 n 4" by blast
  from s4(2) have "bits_left i4 n (Suc 3)" by simp
  from ilog2_step_ok [OF this n ilog2_masks(2)] obtain i3 where s3: "ilog2_step 0xFF00FF00 (2 ^ 3) (i4, 1 + ?b 4) = (i3, 1 + ?b 4 + ?b 3)" "bits_left i3 n 3" by blast
  from s3(2) have "bits_left i3 n (Suc 2)" by simp
  from ilog2_step_ok [OF this n ilog2_masks(3)] obtain i2 where
    s2: "ilog2_step 0xF0F0F0F0 (2 ^ 2) (i3, 1 + ?b 4 + ?b 3) = (i2, 1 + ?b 4 + ?b 3 + ?b 2)" "bits_left i2 n 2" by blast
  from s2(2) have "bits_left i2 n (Suc 1)" by (simp add: numeral_2_eq_2)
  from ilog2_step_ok [OF this n ilog2_masks(4)] obtain i1 where
    s1: "ilog2_step 0xCCCCCCCC (2 ^ 1) (i2, 1 + ?b 4 + ?b 3 + ?b 2) = (i1, 1 + ?b 4 + ?b 3 + ?b 2 + ?b 1)" "bits_left i1 n 1" by blast
  from s1(2) have "bits_left i1 n (Suc 0)" by simp
  from ilog2_step_ok [OF this n ilog2_masks(5)] obtain i0 where
    s0: "ilog2_step 0xAAAAAAAA (2 ^ 0) (i1, 1 + ?b 4 + ?b 3 + ?b 2 + ?b 1) = (i0, 1 + ?b 4 + ?b 3 + ?b 2 + ?b 1 + ?b 0)" by blast
  have p: "(16 :: nat) = 2 ^ 4" "(8 :: nat) = 2 ^ 3" "(4 :: nat) = 2 ^ 2" "(2 :: nat) = 2 ^ 1" "(1 :: nat) = 2 ^ 0" by simp_all
  have "i \<noteq> 0" using assms(1) by auto
  then have "ilog2 i = snd (ilog2_step 0xAAAAAAAA (2 ^ 0) (ilog2_step 0xCCCCCCCC (2 ^ 1) (ilog2_step 0xF0F0F0F0 (2 ^ 2)
       (ilog2_step 0xFF00FF00 (2 ^ 3) (ilog2_step 0xFFFF0000 (2 ^ 4) (i, 1))))))" by (simp add: ilog2_def)
  also have "\<dots> = 1 + ?b 4 + ?b 3 + ?b 2 + ?b 1 + ?b 0" unfolding s4(1) s3(1) s2(1) s1(1) s0 by (rule snd_conv)
  also have "\<dots> = n + 1"
  proof -
    have "\<forall>n \<in> {..<32 :: nat}. 1 + (n div 2 ^ 4) mod 2 * 2 ^ 4 + (n div 2 ^ 3) mod 2 * 2 ^ 3 + (n div 2 ^ 2) mod 2 * 2 ^ 2 +
      (n div 2 ^ 1) mod 2 * 2 ^ 1 + (n div 2 ^ 0) mod 2 * 2 ^ 0 = n + 1" by code_simp
    with n show ?thesis by simp
  qed
  finally show ?thesis .
qed

text \<open>
  \<open>ilog2\<close> is the number of bits of its argument; the table in its comment, which rounds the logarithm, differs from the argument 2 on.
\<close>

lemma ilog2_bits:
  assumes "i \<noteq> 0" shows "2 ^ (ilog2 i - 1) \<le> uint i \<and> uint i < 2 ^ ilog2 i"
proof -
  let ?bits = "{p. bit i p}"
  have "?bits \<subseteq> {..<32}" using bit_imp_le_length [of i] by auto
  then have "finite ?bits" by (rule finite_subset) simp
  moreover have "?bits \<noteq> {}" using assms by (auto simp: bit_eq_iff)
  ultimately have mx: "bit i (Max ?bits)" "bit i p \<Longrightarrow> p \<le> Max ?bits" for p using Max_in [of ?bits] by auto
  let ?n = "Max ?bits"
  have l: "ilog2 i = ?n + 1" by (rule ilog2_highest [OF mx])
  have b: "bit (uint i) p \<longleftrightarrow> bit i p" for p using bit_imp_le_length [of i p] by (auto simp: bit_uint_iff)
  have "take_bit (?n + 1) (uint i) = uint i" using mx(2) b by (intro bit_eqI) (fastforce simp: bit_take_bit_iff)
  then have "uint i < 2 ^ (?n + 1)" by (metis take_bit_int_less_exp)
  moreover have "2 ^ ?n \<le> uint i"
  proof (rule ccontr)
    assume "\<not> 2 ^ ?n \<le> uint i"
    then have "take_bit ?n (uint i) = uint i" by (simp add: take_bit_int_eq_self)
    then have "\<not> bit (uint i) ?n" by (metis bit_take_bit_iff less_irrefl)
    with mx(1) b show False by simp
  qed
  ultimately show ?thesis by (simp add: l)
qed

lemma ilog2_table: "map ilog2 [0, 1, 2, 3, 4, 5, 6, 7, 8, 9] = [0, 1, 2, 2, 3, 3, 3, 3, 4, 4]"
  by code_simp

end
