(* ===== verification/Startup.thy ===== *)
theory Startup
  imports VM_State
begin

text \<open>
  The command line of the kernel (\<open>threads/system.cc\<close>, the loop of \<open>Initialize\<close>) and the flags of debugging messages
  (\<open>threads/utility.cc\<close>). The arguments are strings without their final zero; past the last there is a null pointer. The loop
  collects what it sets in a record; the second table of options is that of \<open>USER_PROGRAM\<close>, the third that of \<open>FILESYS_NEEDED\<close>.
\<close>

section \<open>Debugging messages\<close>

text \<open>\<open>strstr\<close> of the C library, as a test.\<close>

fun strstr :: "string \<Rightarrow> string \<Rightarrow> bool" where
  "strstr [] p \<longleftrightarrow> p = []"
| "strstr (c # s) p \<longleftrightarrow> take (length p) (c # s) = p \<or> strstr s p"

definition DebugInit :: "string \<Rightarrow> string option" where
  "DebugInit tagList = Some (CHR '':'' # tagList @ '':'')"

definition BUFLEN :: nat where "BUFLEN = 258"

text \<open>The result is \<open>enableTags\<close>'s answer; \<open>strcat\<close> writes the tag, a colon and a zero behind the colon in the buffer.\<close>

definition DebugIsEnabled :: "string \<Rightarrow> string option \<Rightarrow> bool res" where
  "DebugIsEnabled tag enableTags =
     (case enableTags of
        None \<Rightarrow> Inr False
      | Some tags \<Rightarrow>
          if strstr tags '':all:'' then Inr True
          else
            assert_res (length tag \<le> BUFLEN - 2) (\<lambda>_.
            if length ('':'' @ tag @ '':'') + 1 > BUFLEN then Inl IndexOutOfBounds
            else Inr (strstr tags ('':'' @ tag @ '':''))))"

definition DebugCleanUp :: "string option \<Rightarrow> string option" where
  "DebugCleanUp enableTags = None"

section \<open>Options\<close>

text \<open>\<open>atoi\<close> of the C library: white space, a sign, digits up to the first other character; the host saturates.\<close>

definition isspace :: "char \<Rightarrow> bool" where
  "isspace c \<longleftrightarrow> c = CHR '' '' \<or> (9 \<le> (of_char c :: nat) \<and> (of_char c :: nat) \<le> 13)"

definition isdigit :: "char \<Rightarrow> bool" where
  "isdigit c \<longleftrightarrow> 48 \<le> (of_char c :: nat) \<and> (of_char c :: nat) \<le> 57"

definition digits_value :: "string \<Rightarrow> int" where
  "digits_value s = foldl (\<lambda>n c. 10 * n + (of_char c - 48)) 0 s"

definition atoi :: "string \<Rightarrow> int" where
  "atoi s =
     (let t = dropWhile isspace s;
          (neg, u) = (case t of [] \<Rightarrow> (False, []) | c # r \<Rightarrow> if c = CHR ''-'' then (True, r) else if c = CHR ''+'' then (False, r) else (False, t));
          n = digits_value (takeWhile isdigit u)
      in if neg then max (- (2 ^ 31)) (- n) else min (2 ^ 31 - 1) n)"

text \<open>
  What the options set. The arguments of \<open>-R\<close> and \<open>-H\<close>, which \<open>atof\<close> and \<open>sscanf\<close> read, are kept as they are given, and so is the seed
  of \<open>RandomInit\<close>.
\<close>

record options =
  debugArgs :: string
  randomYield :: bool
  randomSeed :: int
  schedTimerTicks :: uint32
  histogramSpec :: "string option"
  contractionEnabled :: bool
  retentionFactor :: "string option"
  debugUserProg :: bool
  opt_SwapFileName :: "string option"
  noSwitch :: bool
  opt_printProcStats :: bool
  opt_wsDeltaSize :: int
  opt_pageReplPolicy :: PageReplPolicies
  opt_format :: bool
  opt_GDBRemotePort :: int

definition default_options :: "string \<Rightarrow> options" where
  "default_options name = \<lparr>debugArgs = [], randomYield = False, randomSeed = 0, schedTimerTicks = 110, histogramSpec = None,
     contractionEnabled = False, retentionFactor = None, debugUserProg = False, opt_SwapFileName = Some name, noSwitch = False,
     opt_printProcStats = False, opt_wsDeltaSize = 1, opt_pageReplPolicy = DUMB, opt_format = False, opt_GDBRemotePort = 0\<rparr>"

text \<open>The argument behind an option, which \<open>ASSERT (argc > 1)\<close> wants, and which a comparison reads without a test.\<close>

definition with_arg :: "string list \<Rightarrow> (string \<Rightarrow> (bool \<times> options) res) \<Rightarrow> (bool \<times> options) res" where
  "with_arg rest k = (case rest of [] \<Rightarrow> Inl AssertionFailed | x # _ \<Rightarrow> k x)"

definition set_policy :: "string list \<Rightarrow> options \<Rightarrow> (bool \<times> options) res" where
  "set_policy rest p =
     (case rest of
        [] \<Rightarrow> Inl NullPointer
      | x # _ \<Rightarrow>
          if x = ''fifo'' then Inr (True, p\<lparr>opt_pageReplPolicy := FIFO\<rparr>)
          else if x = ''lru'' then Inr (True, p\<lparr>opt_pageReplPolicy := LRU\<rparr>)
          else if x = ''secondchance'' then Inr (True, p\<lparr>opt_pageReplPolicy := SECONDCHANCE\<rparr>)
          else if x = ''dumb'' then Inr (True, p\<lparr>opt_pageReplPolicy := DUMB\<rparr>)
          else Inl AssertionFailed)"

text \<open>The tables; the result says whether \<open>argCount\<close> is two.\<close>

definition thread_option :: "string \<Rightarrow> string list \<Rightarrow> options \<Rightarrow> (bool \<times> options) res" where
  "thread_option arg rest p =
     (if arg = ''-d'' then with_arg rest (\<lambda>x. Inr (True, p\<lparr>debugArgs := x\<rparr>))
      else if arg = ''-rs'' then with_arg rest (\<lambda>x. Inr (True, p\<lparr>randomSeed := atoi x, randomYield := True\<rparr>))
      else if arg = ''-q'' then with_arg rest (\<lambda>x. Inr (True, p\<lparr>schedTimerTicks := word_of_int (atoi x)\<rparr>))
      else if arg = ''-H'' then with_arg rest (\<lambda>x. Inr (True, p\<lparr>histogramSpec := Some x\<rparr>))
      else if arg = ''-i'' then with_arg rest (\<lambda>x. Inr (True, p))
      else if arg = ''-cw'' then with_arg rest (\<lambda>x. Inr (False, p\<lparr>contractionEnabled := True\<rparr>))
      else if arg = ''-R'' then with_arg rest (\<lambda>x. Inr (True, p\<lparr>retentionFactor := Some x\<rparr>))
      else Inr (False, p))"

text \<open>\<open>-gdb\<close> takes its argument without a test, and leaves \<open>argCount\<close> as it is.\<close>

definition user_option :: "string \<Rightarrow> string list \<Rightarrow> bool \<Rightarrow> options \<Rightarrow> (bool \<times> options) res" where
  "user_option arg rest two p =
     (if arg = ''-gdb'' then (case rest of [] \<Rightarrow> Inl NullPointer | x # _ \<Rightarrow> Inr (two, p\<lparr>opt_GDBRemotePort := atoi x\<rparr>))
      else if arg = ''-s'' then Inr (two, p\<lparr>debugUserProg := True\<rparr>)
      else if arg = ''-S'' then Inr (True, p\<lparr>opt_SwapFileName := (case rest of [] \<Rightarrow> None | x # _ \<Rightarrow> Some x)\<rparr>)
      else if arg = ''-noswitch'' then Inr (two, p\<lparr>noSwitch := True\<rparr>)
      else if arg = ''-printstats'' then Inr (two, p\<lparr>opt_printProcStats := True\<rparr>)
      else if arg = ''-delta'' then with_arg rest (\<lambda>x. Inr (True, p\<lparr>opt_wsDeltaSize := atoi x\<rparr>))
      else if arg = ''-prp'' then set_policy rest p
      else Inr (two, p))"

definition file_option :: "string \<Rightarrow> bool \<Rightarrow> options \<Rightarrow> (bool \<times> options) res" where
  "file_option arg two p = Inr (two, if arg = ''-f'' then p\<lparr>opt_format := True\<rparr> else p)"

fun Initialize_options :: "string list \<Rightarrow> options \<Rightarrow> options res" where
  "Initialize_options [] p = Inr p"
| "Initialize_options (arg # rest) p =
     (case bind_res (thread_option arg rest p) (\<lambda>(two, p1). bind_res (user_option arg rest two p1) (\<lambda>(two1, p2). file_option arg two1 p2)) of
        Inl e \<Rightarrow> Inl e
      | Inr (two, p3) \<Rightarrow> Initialize_options (if two then tl rest else rest) p3)"

text \<open>The timer that \<open>Initialize\<close> starts: whether there is one, and whether its ticks are random.\<close>

definition schedTimer_of :: "options \<Rightarrow> bool option" where
  "schedTimer_of p = (if randomYield p then Some True else if \<not> noSwitch p then Some False else None)"

section \<open>Which messages are printed\<close>

fun split_tags :: "string \<Rightarrow> string list" where
  "split_tags [] = [[]]"
| "split_tags (c # s) = (if c = CHR '':'' then [] # split_tags s else (case split_tags s of [] \<Rightarrow> [[c]] | t # ts \<Rightarrow> (c # t) # ts))"

lemma strstr_append: "strstr s p \<longleftrightarrow> (\<exists>a b. s = a @ p @ b)"
proof (induction s)
  case (Cons c s)
  show ?case
  proof
    assume "strstr (c # s) p"
    then consider "take (length p) (c # s) = p" | "strstr s p" by auto
    then show "\<exists>a b. c # s = a @ p @ b"
    proof cases
      case 1
      then have "c # s = [] @ p @ drop (length p) (c # s)" by (metis append_Nil append_take_drop_id)
      then show ?thesis by blast
    next
      case 2
      with Cons obtain a b where "c # s = (c # a) @ p @ b" by auto
      then show ?thesis by blast
    qed
  next
    assume "\<exists>a b. c # s = a @ p @ b"
    then obtain a b where ab: "c # s = a @ p @ b" by blast
    then show "strstr (c # s) p"
    proof (cases a)
      case Nil
      then have "take (length p) (c # s) = p" unfolding ab by simp
      then show ?thesis by (simp only: strstr.simps simp_thms)
    next
      case (Cons x a')
      with ab Cons.IH show ?thesis by auto
    qed
  qed
qed auto

lemma split_tags_Cons: "split_tags s = hd (split_tags s) # tl (split_tags s)"
  by (induction s) (auto split: list.splits)

lemma first_tag:
  assumes "CHR '':'' \<notin> set tag" shows "(\<exists>r. s @ '':'' = tag @ CHR '':'' # r) \<longleftrightarrow> hd (split_tags s) = tag"
  using assms
proof (induction s arbitrary: tag)
  case Nil
  then show ?case by (cases tag) auto
next
  case (Cons c s)
  show ?case
  proof (cases "c = CHR '':''")
    case True
    with Cons.prems show ?thesis by (cases tag) auto
  next
    case False
    have s: "hd (split_tags (c # s)) = c # hd (split_tags s)" using False split_tags_Cons [of s] by (auto split: list.splits)
    show ?thesis
    proof (cases tag)
      case Nil
      with False s show ?thesis by auto
    next
      case (Cons x t)
      with Cons.prems Cons.IH [of t] s show ?thesis by auto
    qed
  qed
qed

text \<open>A tag between two colons.\<close>

lemma tag_found:
  assumes "CHR '':'' \<notin> set tag"
  shows "strstr (CHR '':'' # s @ '':'') (CHR '':'' # tag @ '':'') \<longleftrightarrow> tag \<in> set (split_tags s)"
proof -
  let ?p = "CHR '':'' # tag @ '':''"
  have front: "take (length ?p) (CHR '':'' # s @ '':'') = ?p \<longleftrightarrow> hd (split_tags s) = tag" for s
  proof -
    have "take (length ?p) (CHR '':'' # s @ '':'') = ?p \<longleftrightarrow> (\<exists>r. CHR '':'' # s @ '':'' = ?p @ r)"
      by (metis append_eq_conv_conj append_take_drop_id)
    then show ?thesis using first_tag [OF assms, of s] by simp
  qed
  have "strstr (s @ '':'') ?p \<longleftrightarrow> tag \<in> set (tl (split_tags s))" for s
  proof (induction s)
    case (Cons c s)
    show ?case
    proof (cases "c = CHR '':''")
      case True
      have "strstr ((c # s) @ '':'') ?p \<longleftrightarrow> take (length ?p) (CHR '':'' # s @ '':'') = ?p \<or> strstr (s @ '':'') ?p" using True by simp
      also have "\<dots> \<longleftrightarrow> tag \<in> set (split_tags s)" unfolding front Cons.IH using split_tags_Cons [of s] by (metis set_ConsD list.set_intros)
      finally show ?thesis using True by simp
    next
      case False
      then have "strstr ((c # s) @ '':'') ?p \<longleftrightarrow> strstr (s @ '':'') ?p" by simp
      moreover have "tl (split_tags (c # s)) = tl (split_tags s)" using False split_tags_Cons [of s] by (auto split: list.splits)
      ultimately show ?thesis using Cons.IH by simp
    qed
  qed simp
  then have "strstr (CHR '':'' # s @ '':'') ?p \<longleftrightarrow> hd (split_tags s) = tag \<or> tag \<in> set (tl (split_tags s))"
    using front [of s] by (simp only: strstr.simps simp_thms)
  then show ?thesis using split_tags_Cons [of s] by (metis set_ConsD list.set_intros)
qed

text \<open>
  A message is printed exactly when its tag, or \<open>all\<close>, is one of the tags between the colons of the list; but a tag of 256 characters,
  which the assertion lets pass, overruns the buffer by its final zero.
\<close>

theorem DebugIsEnabled_tags:
  assumes "CHR '':'' \<notin> set tag"
  shows "DebugIsEnabled tag (DebugInit tagList) =
    (if ''all'' \<in> set (split_tags tagList) then Inr True
     else if length tag < 256 then Inr (tag \<in> set (split_tags tagList))
     else if length tag = 256 then Inl IndexOutOfBounds else Inl AssertionFailed)"
proof -
  have "strstr (CHR '':'' # tagList @ '':'') '':all:'' \<longleftrightarrow> ''all'' \<in> set (split_tags tagList)"
    using tag_found [of "''all''" tagList] by simp
  moreover note tag_found [OF assms, of tagList]
  ultimately show ?thesis
    unfolding DebugIsEnabled_def DebugInit_def option.case BUFLEN_def assert_res_def by simp
qed

theorem DebugIsEnabled_tags_witness: "DebugIsEnabled ''disk'' (DebugInit ''net:disk:x'') = Inr True"
  using DebugIsEnabled_tags [of "''disk''" "''net:disk:x''"] by simp

section \<open>Parsing what was written\<close>

datatype setting =
    DebugFlags string | Seed string | Quantum string | HistoSpec string | Inertia string | Contract | Retention string
  | SingleStep | SwapFile string | NoSwitch | PrintStats | Delta string | Policy PageReplPolicies | FormatDisk
  | Gdb string

definition policy_name :: "PageReplPolicies \<Rightarrow> string" where
  "policy_name pol = (case pol of FIFO \<Rightarrow> ''fifo'' | LRU \<Rightarrow> ''lru'' | SECONDCHANCE \<Rightarrow> ''secondchance'' | DUMB \<Rightarrow> ''dumb'')"

fun render :: "setting \<Rightarrow> string list" where
  "render (DebugFlags x) = [''-d'', x]" | "render (Seed x) = [''-rs'', x]" | "render (Quantum x) = [''-q'', x]"
| "render (HistoSpec x) = [''-H'', x]" | "render (Inertia x) = [''-i'', x]" | "render Contract = [''-cw'']"
| "render (Retention x) = [''-R'', x]" | "render SingleStep = [''-s'']" | "render (SwapFile x) = [''-S'', x]"
| "render NoSwitch = [''-noswitch'']" | "render PrintStats = [''-printstats'']" | "render (Delta x) = [''-delta'', x]"
| "render (Policy pol) = [''-prp'', policy_name pol]" | "render FormatDisk = [''-f'']"
| "render (Gdb x) = [''-gdb'', x]"

fun apply_setting :: "setting \<Rightarrow> options \<Rightarrow> options" where
  "apply_setting (DebugFlags x) p = p\<lparr>debugArgs := x\<rparr>"
| "apply_setting (Seed x) p = p\<lparr>randomSeed := atoi x, randomYield := True\<rparr>"
| "apply_setting (Quantum x) p = p\<lparr>schedTimerTicks := word_of_int (atoi x)\<rparr>"
| "apply_setting (HistoSpec x) p = p\<lparr>histogramSpec := Some x\<rparr>"
| "apply_setting (Inertia x) p = p"
| "apply_setting Contract p = p\<lparr>contractionEnabled := True\<rparr>"
| "apply_setting (Retention x) p = p\<lparr>retentionFactor := Some x\<rparr>"
| "apply_setting SingleStep p = p\<lparr>debugUserProg := True\<rparr>"
| "apply_setting (SwapFile x) p = p\<lparr>opt_SwapFileName := Some x\<rparr>"
| "apply_setting NoSwitch p = p\<lparr>noSwitch := True\<rparr>"
| "apply_setting PrintStats p = p\<lparr>opt_printProcStats := True\<rparr>"
| "apply_setting (Delta x) p = p\<lparr>opt_wsDeltaSize := atoi x\<rparr>"
| "apply_setting (Policy pol) p = p\<lparr>opt_pageReplPolicy := pol\<rparr>"
| "apply_setting FormatDisk p = p\<lparr>opt_format := True\<rparr>"
| "apply_setting (Gdb x) p = p\<lparr>opt_GDBRemotePort := atoi x\<rparr>"

lemmas option_defs = thread_option_def user_option_def file_option_def with_arg_def set_policy_def policy_name_def

lemma render_nonempty: "render x \<noteq> []"
  by (cases x) simp_all

text \<open>The arguments that the loop takes for options.\<close>

definition option_names :: "string set" where
  "option_names = {''-d'', ''-rs'', ''-q'', ''-H'', ''-i'', ''-cw'', ''-R'', ''-gdb'', ''-s'', ''-S'', ''-noswitch'', ''-printstats'', ''-delta'', ''-prp'', ''-f''}"

lemma Initialize_no_option: "x \<notin> option_names \<Longrightarrow> Initialize_options (x # rest) p = Initialize_options rest p"
  by (simp add: option_names_def thread_option_def user_option_def file_option_def)

lemma Initialize_gdb:
  "Initialize_options (''-gdb'' # x # rest) p = Initialize_options (x # rest) (p\<lparr>opt_GDBRemotePort := atoi x\<rparr>)"
  by (subst Initialize_options.simps(2)) (simp add: option_defs del: Initialize_options.simps)

lemma Initialize_setting:
  assumes "x \<noteq> Contract \<or> rest \<noteq> []" "\<And>y. x = Gdb y \<Longrightarrow> y \<notin> option_names"
  shows "Initialize_options (render x @ rest) p = Initialize_options rest (apply_setting x p)"
proof (cases "\<exists>y. x = Gdb y")
  case True
  then obtain y where "x = Gdb y" by blast
  with assms(2) [OF this] show ?thesis by (simp add: Initialize_gdb Initialize_no_option del: Initialize_options.simps)
next
  case False
  with assms(1) show ?thesis by (cases x) (auto simp: option_defs split: list.splits PageReplPolicies.splits)
qed

lemma Initialize_settings:
  assumes "xs \<noteq> [] \<longrightarrow> List.last xs = Contract \<longrightarrow> rest \<noteq> []" "\<And>y. Gdb y \<in> set xs \<Longrightarrow> y \<notin> option_names"
  shows "Initialize_options (concat (map render xs) @ rest) p = Initialize_options rest (fold apply_setting xs p)"
  using assms
proof (induction xs arbitrary: p)
  case (Cons x xs)
  have "x \<noteq> Contract \<or> concat (map render xs) @ rest \<noteq> []" using render_nonempty Cons.prems(1) by (cases xs) auto
  from Initialize_setting [OF this, of p] Cons.prems(2) have
    "Initialize_options (concat (map render (x # xs)) @ rest) p = Initialize_options (concat (map render xs) @ rest) (apply_setting x p)" by simp
  moreover have "xs \<noteq> [] \<longrightarrow> List.last xs = Contract \<longrightarrow> rest \<noteq> []" using Cons.prems(1) by auto
  ultimately show ?case using Cons.IH Cons.prems(2) by simp
qed simp

text \<open>
  C40: a command line made of options, each with the arguments it needs, is taken apart into exactly these options; later options
  overrule earlier ones. The arguments are arbitrary strings except that of \<open>-gdb\<close>, which must not be the name of an option:
  \<open>-gdb\<close> does not skip its argument, so that the loop reads it again as an option, as the last part says of every argument. An
  \<open>-cw\<close> at the end, which has no argument, fails the assertion that it has one, and an \<open>-gdb\<close> at the end reads a null
  pointer.
\<close>

theorem Initialize_options_render:
  assumes "\<And>y. Gdb y \<in> set xs \<Longrightarrow> y \<notin> option_names"
  shows "Initialize_options (concat (map render xs)) p =
      (if xs \<noteq> [] \<and> List.last xs = Contract then Inl AssertionFailed else Inr (fold apply_setting xs p)) \<and>
    Initialize_options (concat (map render xs) @ [''-gdb'']) p = Inl NullPointer \<and>
    Initialize_options (concat (map render xs) @ ''-gdb'' # x # rest) p =
      Initialize_options (x # rest) (apply_setting (Gdb x) (fold apply_setting xs p))"
proof (intro conjI)
  show "Initialize_options (concat (map render xs)) p =
      (if xs \<noteq> [] \<and> List.last xs = Contract then Inl AssertionFailed else Inr (fold apply_setting xs p))"
  proof (cases "xs \<noteq> [] \<and> List.last xs = Contract")
    case True
    then obtain ys where ys: "xs = ys @ [Contract]" by (metis append_butlast_last_id)
    with Initialize_settings [of ys "[''-cw'']" p] assms have
      "Initialize_options (concat (map render xs)) p = Initialize_options [''-cw''] (fold apply_setting ys p)" by auto
    with True show ?thesis by (simp add: option_defs)
  next
    case False
    with Initialize_settings [of xs "[]" p] assms show ?thesis by auto
  qed
  show "Initialize_options (concat (map render xs) @ [''-gdb'']) p = Inl NullPointer"
    using Initialize_settings [of xs "[''-gdb'']" p] assms by (simp add: option_defs)
  show "Initialize_options (concat (map render xs) @ ''-gdb'' # x # rest) p =
      Initialize_options (x # rest) (apply_setting (Gdb x) (fold apply_setting xs p))"
    using Initialize_settings [of xs "''-gdb'' # x # rest" p] assms
    by (simp add: Initialize_gdb del: Initialize_options.simps)
qed

text \<open>A quantum, a port and the contraction; and a port that is an option.\<close>

theorem Initialize_options_render_witness:
  "Initialize_options [''-q'', ''50'', ''-cw'', ''-gdb'', ''7000''] (default_options ''swap'') =
     Inr ((default_options ''swap'')\<lparr>schedTimerTicks := word_of_int (atoi ''50''), contractionEnabled := True,
       opt_GDBRemotePort := atoi ''7000''\<rparr>) \<and>
   Initialize_options [''-s'', ''-gdb''] (default_options ''swap'') = Inl NullPointer \<and>
   Initialize_options [''-gdb'', ''-s''] (default_options ''swap'') =
     Inr ((default_options ''swap'')\<lparr>opt_GDBRemotePort := atoi ''-s'', debugUserProg := True\<rparr>)"
  using Initialize_options_render [of "[Quantum ''50'', Contract, Gdb ''7000'']" "default_options ''swap''"]
    Initialize_options_render [of "[SingleStep]" "default_options ''swap''"]
    Initialize_options_render [where xs = "[]" and p = "default_options ''swap''" and x = "''-s''" and rest = "[]"]
  by (simp add: option_names_def option_defs)

end
