(* ===== verification/Spec2Isabelle.thy ===== *)
theory Spec2Isabelle
  imports Mips_Properties Syscall_Properties Synch_Properties Loader_Properties Fs_Properties Gdb_Properties
    Device_Properties Histogram Interpreter Startup
begin

text \<open>
  A verification of Nachos as it is in this repository (\<open>src/nachos\<close>): an instructional operating system
  that runs as one process on a host, with a simulated MIPS machine, kernel threads, demand-paged virtual
  memory and system calls.

  \<^bold>\<open>The program.\<close> User programs run on the simulated processor (\<open>machine/mipssim.cc\<close>), which accesses
  memory through the page table of the running process (\<open>machine/translate.cc\<close>). A page fault or another exception
  enters the kernel (\<open>userprog/exception.cc\<close>); the memory manager and the swap manager
  (\<open>userprog/memmgr.cc\<close>, \<open>swapmgr.cc\<close>) bring pages in and out, choosing victims by one of four
  policies (\<open>userprog/addrspace.cc\<close>); address spaces share pages copy-on-write after a fork and are loaded
  from ELF files. Threads (\<open>threads/thread.cc\<close>) are scheduled by priority (\<open>threads/scheduler.cc\<close>), preempted
  by a simulated timer (\<open>machine/timer.cc\<close>, \<open>machine/interrupt.cc\<close>), and synchronise with semaphores, locks and
  conditions (\<open>threads/synch.cc\<close>), all on linked lists (\<open>threads/list.cc\<close>).

  \<^bold>\<open>The build.\<close> The model follows the configuration the makefiles select: no TLB (a linear page table), the file system
  stub on host files, POSIX threads as the stacks of kernel threads, a little-endian 32-bit host. The
  machine runs without the remote debugger, whose entry \<open>GDBCatchException\<close> is modelled by itself. Every operation is a state transformer with result \<open>'a res\<close>: a value, or a \<open>fault\<close> that names how
  the C++ program stops (a failed assertion, a null pointer, an index out of bounds, an uninitialised
  read, a trap, a loop that does not end, a call that does not return). Machine words are words of their width;
  signed overflow wraps, as the compiled code does. Memory allocation by \<open>new\<close> succeeds.

  \<^bold>\<open>Theories and sources.\<close>

  \<^item> \<open>Nachos_Prelude\<close>: types, constants, faults, results, shared lemmas.
  \<^item> \<open>Bitmap\<close>: \<open>userprog/bitmap.cc\<close>; the locale of an allocator of slots and its instance.
  \<^item> \<open>PageTable\<close>: \<open>machine/translate.h\<close>, page tables and the policies \<open>FIFO\<close>, \<open>LRU\<close>, second chance, working set
    sizes; each policy is a running minimum and returns the best page of its order.
  \<^item> \<open>VM_State\<close>: the state and the operations of demand paging. \<open>VM_Inv\<close>: the invariant \<open>vm_inv\<close> and the memory
    \<open>vbyte\<close> that a process sees wherever its pages are. \<open>VM_Pageout\<close>, \<open>VM_Victim\<close>, \<open>VM_Pagein\<close>, \<open>VM_Share\<close>,
    \<open>VM_Cow\<close>, \<open>VM_Fork\<close>, \<open>VM_Boot\<close>: each operation refines an abstract change of the state and keeps both;
    \<open>VM_Properties\<close> states the results.
  \<^item> \<open>Breakpoint\<close>: \<open>machine/breakpoint.cc\<close>.
  \<^item> \<open>Machine\<close>, \<open>Machine_Access\<close>, \<open>Machine_Properties\<close>: registers, translation, \<open>ReadMem\<close>, \<open>WriteMem\<close>, exceptions.
  \<^item> \<open>Mips_Decode\<close>, \<open>Mips_Mult\<close>, \<open>Mips_Exec\<close>, \<open>Mips_Isolation\<close>, \<open>Mips_Properties\<close>: the decoder, multiplication, one
    instruction, and that no instruction of a user program other than \<open>SYSCALL\<close> touches another process's memory; the
    system calls have properties of their own.
  \<^item> \<open>Linked_List\<close>: \<open>threads/list.cc\<close> on a heap of cells, refining HOL lists.
  \<^item> \<open>Threads\<close>, \<open>Scheduler\<close>, \<open>Scheduler_Inv\<close>, \<open>Dispatch\<close>, \<open>Thread_Delete\<close>, \<open>Yielding\<close>: threads, the scheduler, the
    context switch; deleting a thread closes its open files, which the field \<open>closedFiles\<close> records, as does \<open>setFD\<close> with the
    file it replaces. The invariant \<open>sched_inv\<close> ties the ready list, the list of all threads, statuses, address
    spaces and \<open>vm_inv\<close> together.
  \<^item> \<open>Interrupt\<close>, \<open>Interrupt_Inv\<close>, \<open>Timer_Ticks\<close>, \<open>Sleeping\<close>, \<open>Thread_Properties\<close>: pending interrupts, the clock, the timer,
    sleeping and finishing threads. The locale \<open>device_handlers\<close> states what a handler may do and which interrupts it schedules
    (\<open>adds\<close>); the scheduler's timer is its instance. \<open>fire\<close> is the run of one handler, and the results say which handlers run.
  \<^item> \<open>Synch\<close>, \<open>Synch_Properties\<close>: semaphores, locks and conditions, as step relations over any interleaving of
    threads. The locale \<open>thread_scheduling\<close> states what they need of the thread system, which is its instance.
  \<^item> \<open>Elf\<close>, \<open>Loader\<close>, \<open>Loading\<close>, \<open>Loader_Properties\<close>: reading ELF headers and loading an executable
    (\<open>userprog/addrspace.cc\<close>): the image the new process sees.
  \<^item> \<open>VM_Frame\<close>: what paging and accesses to user memory leave alone, so that \<open>sched_inv\<close> survives them.
  \<^item> \<open>SystemCalls\<close>: every call of \<open>userprog/systemcall.cc\<close>, the dispatcher \<open>do_system_call\<close> and \<open>StartProcess\<close>.
    \<open>User_Copy\<close>: the loops between kernel buffers and user memory. \<open>Processes\<close>: fork, exit and wait under
    \<open>sched_inv\<close>. \<open>Syscall_Properties\<close> states the results.
  \<^item> \<open>Fs_Header\<close>, \<open>Fs_File\<close>, \<open>Fs_Directory\<close>, \<open>Fs\<close>: the Nachos file system (\<open>filesys/filehdr.cc\<close>, \<open>openfile.cc\<close>,
    \<open>directory.cc\<close>, \<open>filesys.cc\<close> and the part of \<open>bitmap.cc\<close> it uses), the configuration \<open>FILESYS\<close> that the makefiles do not
    select. The locales \<open>stored_object\<close> (an object kept in a file) and \<open>name_table\<close> (a directory) state what it relies on.
    \<open>Fs_Refinement\<close>: the operations refine a map from names to contents and keep the invariant \<open>fs_ok\<close> of the disk;
    \<open>Fs_Properties\<close> states the results. Objects the code allocates without initialising them are arguments (\<open>uninit\<close>).
  \<^item> \<open>Gdb_Packet\<close>, \<open>Gdb_Stub\<close>: the remote debugger (\<open>debug/nachos-stub.cc\<close>): packets, checksums, saved registers and every
    command of GDB; the socket is the characters GDB sends and those sent to it. \<open>Gdb_Lemmas\<close>: a round of the dialogue as one
    step. \<open>Gdb_Properties\<close>: what a dialogue does to the machine.
  \<^item> \<open>Disk\<close>: \<open>machine/disk.cc\<close> on a file of the host: requests, seek and rotation times, the track buffer. \<open>Driver\<close>: the
    protocol by which threads share an asynchronous device, as a step relation, with the locales \<open>mutex\<close>, \<open>device\<close> and
    \<open>driver\<close>; its instances are the synchronous disk (\<open>SynchDisk\<close>, \<open>filesys/synchdisk.cc\<close>), \<open>ConsoleWrite\<close> (\<open>Console\<close>,
    \<open>machine/console.cc\<close>, which also has \<open>ConsoleRead\<close>) and \<open>PostOffice::Send\<close> (\<open>Network\<close>, \<open>machine/network.cc\<close> and
    \<open>network/post.cc\<close>). \<open>SynchList\<close>: \<open>threads/synchlist.cc\<close>, and that its operations hang. \<open>Post_Office\<close>: the receiving side of
    \<open>network/post.cc\<close>, whose mailboxes are such lists: the first message reaches its list, and none comes out.
    \<open>Device_Properties\<close> states the results.
  \<^item> \<open>Histogram\<close>: \<open>threads/histogram.cc\<close>; a histogram is a function of the data recorded in it.
  \<^item> \<open>Startup\<close>: the options of the kernel (\<open>threads/system.cc\<close>, with \<open>-gdb\<close>, which does not skip its argument) and the debugging flags (\<open>threads/utility.cc\<close>).
  \<^item> \<open>Interpreter\<close>: \<open>bin/execute.c\<close>, an older MIPS interpreter that stands alone; where it agrees with \<open>Mips_Exec\<close>, and by how much its
    multiplication is off.

  \<^bold>\<open>The C++ stack.\<close> A context switch leaves one thread in the middle of a call and goes on in another. What a thread has
  still to do when \<open>Run\<close> returns in it is recorded on its stack of \<open>frames\<close>; an operation that may
  switch ends where the CPU is in the next thread, and \<open>return_frame\<close> finishes the innermost call. A system call that
  loses the CPU returns \<open>None\<close> there; what it has left to do is one of its parts with a name of its own (\<open>Wait_collect\<close>,
  \<open>Exit_end\<close>). Accesses of the kernel to user memory use the handler of exceptions as an argument; the properties
  take \<open>ExceptionHandler\<close>.

  \<^bold>\<open>Bounds and fuel.\<close> \<open>Dumb_loop\<close> gets \<open>NumPhysPages\<close> rounds, the period of its counter, which decides whether it ends
  (\<open>Dumb_victim_iff\<close>). \<open>Handshake\<close> gets one round more than the characters GDB sends, which is enough
  (\<open>Handshake_loop_fuel\<close>). Loops over a linked list get one round more than the cells ever allocated, which
  bounds the length of every list that represents a HOL list; the loop over due interrupts likewise, and
  \<open>handle_due_batch\<close> shows that it ends. \<open>contract_loop\<close> and \<open>Sleep_loop\<close> have fuel as an argument, as they may
  run forever; results about them name the fuel.

  \<^bold>\<open>Not modelled.\<close> The host: \<open>machine/sysdep.cc\<close> but for files, the socket of the
  remote debugger and of the network, the random numbers (an argument), and the file system stub, the host's
  \<open>write\<close> and the DSUI event library, which the system calls use through the record
  \<open>services\<close> of arguments. The second loop over the arguments in \<open>threads/main.cc\<close>, which
  starts the first program or a test, the disassemblers and loaders for the host (the rest of \<open>bin/\<close>),
  and code that only prints. The system calls do not run on top of \<open>Console\<close> and
  \<open>SynchDisk\<close>: a call that waits for a device is cut where its thread loses the CPU, and the step
  relations of these theories are what its other half obeys.
\<close>

end
